(* ===== verification/Prelude.thy ===== *)
theory Prelude
  imports Complex_Main "HOL-Library.Signed_Division" "HOL-Library.Multiset" "HOL-Library.Word"
begin

text \<open>
  Shared vocabulary of the development. It fixes how the Go values of \<^verbatim>\<open>internal/schedule\<close>
  and its leaf packages are written in HOL, and holds the generic lemmas the components share.

  \<^item> A Go \<^verbatim>\<open>int\<close> or \<^verbatim>\<open>int64\<close> that counts slots, years or milliseconds is an \<open>int\<close>; integer
    division is Go's truncating one (\<open>sdiv\<close>, \<open>smod\<close>). Where the code relies on wrap-around (the
    shuffle seeds and their hash) the value is a \<open>64 word\<close>.
  \<^item> A \<^verbatim>\<open>time.Time\<close> is an \<open>int\<close>: nanoseconds since the zero time (1 January of year 1, UTC), so that
    \<^verbatim>\<open>IsZero\<close> is \<open>t = 0\<close>, \<^verbatim>\<open>Before\<close> is \<open><\<close> and \<^verbatim>\<open>Sub\<close> is subtraction. A \<^verbatim>\<open>time.Duration\<close> is an
    \<open>int\<close> of nanoseconds.
  \<^item> A Go string is a list of bytes (\<open>string\<close>). Case mapping and white space follow
    \<^verbatim>\<open>strings.ToUpper\<close>, \<^verbatim>\<open>strings.ToLower\<close> and \<^verbatim>\<open>strings.TrimSpace\<close> on ASCII bytes; other bytes are left
    as they are.
  \<^item> A slice is a list, a nil pointer is \<open>None\<close>, an \<^verbatim>\<open>error\<close> return is \<open>Inl\<close> of a sum.
\<close>

named_theorems sched_simps \<open>equations of the pure operations, unfolded by the component proofs\<close>
named_theorems preserved \<open>what an operation keeps of its input\<close>

subsection \<open>Time and durations\<close>

type_synonym gotime = int
type_synonym duration = int

abbreviation millisecond :: duration where "millisecond \<equiv> 1000000"
abbreviation second :: duration where "second \<equiv> 1000000000"
abbreviation minute :: duration where "minute \<equiv> 60000000000"
abbreviation hour :: duration where "hour \<equiv> 3600000000000"

definition milliseconds :: "duration \<Rightarrow> int" where
  "milliseconds d = d sdiv millisecond"

definition is_zero_time :: "gotime \<Rightarrow> bool" where
  "is_zero_time t \<longleftrightarrow> t = 0"

lemma sdiv_nonneg [simp]: "0 \<le> a \<Longrightarrow> 0 < b \<Longrightarrow> (a::int) sdiv b = a div b"
  by (cases "a = 0") (auto simp: signed_divide_int_def sgn_if)

lemma smod_nonneg [simp]: "0 \<le> a \<Longrightarrow> 0 < b \<Longrightarrow> (a::int) smod b = a mod b"
  by (cases "a = 0") (auto simp: signed_modulo_int_def sgn_if)

lemma milliseconds_nonneg: "0 \<le> d \<Longrightarrow> milliseconds d = d div millisecond"
  by (simp add: milliseconds_def)

lemma milliseconds_pos: "millisecond \<le> d \<Longrightarrow> 0 < milliseconds d"
  by (simp add: milliseconds_def)

subsection \<open>Strings\<close>

definition is_space :: "char \<Rightarrow> bool" where
  "is_space c \<longleftrightarrow> c \<in> {CHR 0x09, CHR 0x0A, CHR 0x0B, CHR 0x0C, CHR 0x0D, CHR 0x20}"

definition byte_of :: "char \<Rightarrow> nat" where
  "byte_of c = of_char c"

definition upper_char :: "char \<Rightarrow> char" where
  "upper_char c = (if 97 \<le> byte_of c \<and> byte_of c \<le> 122 then char_of (byte_of c - 32) else c)"

definition lower_char :: "char \<Rightarrow> char" where
  "lower_char c = (if 65 \<le> byte_of c \<and> byte_of c \<le> 90 then char_of (byte_of c + 32) else c)"

definition to_upper :: "string \<Rightarrow> string" where
  "to_upper s = map upper_char s"

definition to_lower :: "string \<Rightarrow> string" where
  "to_lower s = map lower_char s"

definition trim_space :: "string \<Rightarrow> string" where
  "trim_space s = rev (dropWhile is_space (rev (dropWhile is_space s)))"

definition has_prefix :: "string \<Rightarrow> string \<Rightarrow> bool" where
  "has_prefix s p \<longleftrightarrow> take (length p) s = p"

definition trim_prefix :: "string \<Rightarrow> string \<Rightarrow> string" where
  "trim_prefix s p = (if has_prefix s p then drop (length p) s else s)"

text \<open>\<^verbatim>\<open>strings.Split\<close> on a one-byte separator: always at least one part.\<close>

fun split_on :: "char \<Rightarrow> string \<Rightarrow> string list" where
  "split_on c [] = [[]]"
| "split_on c (x # xs) =
     (if x = c then [] # split_on c xs
      else (case split_on c xs of [] \<Rightarrow> [[x]] | w # ws \<Rightarrow> (x # w) # ws))"

lemma split_on_nonempty [simp]: "split_on c s \<noteq> []"
  by (induction s) (auto split: list.splits)

lemma split_on_no_sep: "c \<notin> set s \<Longrightarrow> split_on c s = [s]"
  by (induction s) auto

lemma split_on_append: "c \<notin> set s \<Longrightarrow> split_on c (s @ c # t) = s # split_on c t"
  by (induction s) auto

text \<open>\<^verbatim>\<open>strings.ReplaceAll\<close> of one byte by another, and the deletion of one byte.\<close>

definition replace_char :: "char \<Rightarrow> char \<Rightarrow> string \<Rightarrow> string" where
  "replace_char a b s = map (\<lambda>c. if c = a then b else c) s"

definition delete_char :: "char \<Rightarrow> string \<Rightarrow> string" where
  "delete_char a s = filter (\<lambda>c. c \<noteq> a) s"

subsection \<open>Decimal numbers\<close>

definition digit_char :: "nat \<Rightarrow> char" where
  "digit_char n = char_of (48 + n)"

definition is_digit :: "char \<Rightarrow> bool" where
  "is_digit c \<longleftrightarrow> 48 \<le> byte_of c \<and> byte_of c \<le> 57"

definition digit_val :: "char \<Rightarrow> nat" where
  "digit_val c = byte_of c - 48"

fun nat_digits :: "nat \<Rightarrow> string" where
  "nat_digits n = (if n < 10 then [digit_char n] else nat_digits (n div 10) @ [digit_char (n mod 10)])"

declare nat_digits.simps [simp del]

text \<open>\<^verbatim>\<open>strconv.Itoa\<close>.\<close>

definition itoa :: "int \<Rightarrow> string" where
  "itoa n = (if n < 0 then CHR ''-'' # nat_digits (nat (- n)) else nat_digits (nat n))"

definition digits_val :: "string \<Rightarrow> nat" where
  "digits_val s = foldl (\<lambda>acc c. acc * 10 + digit_val c) 0 s"

abbreviation max_int64 :: int where "max_int64 \<equiv> 9223372036854775807"
abbreviation min_int64 :: int where "min_int64 \<equiv> -9223372036854775808"

text \<open>
  \<^verbatim>\<open>strconv.Atoi\<close>: an optional sign, then one or more decimal digits; a value outside the 64-bit
  range is an error.
\<close>

definition atoi_digits :: "string \<Rightarrow> nat option" where
  "atoi_digits s = (if s \<noteq> [] \<and> list_all is_digit s then Some (digits_val s) else None)"

definition atoi :: "string \<Rightarrow> int option" where
  "atoi s =
     (let (neg, ds) = (case s of
            c # cs \<Rightarrow> (if c = CHR ''-'' then (True, cs) else if c = CHR ''+'' then (False, cs) else (False, s))
          | [] \<Rightarrow> (False, s))
      in case atoi_digits ds of
           None \<Rightarrow> None
         | Some n \<Rightarrow>
             (let v = (if neg then - int n else int n)
              in if min_int64 \<le> v \<and> v \<le> max_int64 then Some v else None))"

lemma digit_char_eval [simp]:
  "digit_char 0 = CHR ''0''" "digit_char (Suc 0) = CHR ''1''" "digit_char 2 = CHR ''2''"
  "digit_char 3 = CHR ''3''" "digit_char 4 = CHR ''4''" "digit_char 5 = CHR ''5''"
  "digit_char 6 = CHR ''6''" "digit_char 7 = CHR ''7''" "digit_char 8 = CHR ''8''"
  "digit_char 9 = CHR ''9''"
  by (simp_all add: digit_char_def char_of_def bit_0)

lemma byte_of_digit_char: "n < 10 \<Longrightarrow> byte_of (digit_char n) = 48 + n"
  by (simp add: byte_of_def digit_char_def)

lemma is_digit_digit_char [simp]: "n < 10 \<Longrightarrow> is_digit (digit_char n)"
  by (simp add: is_digit_def byte_of_digit_char)

lemma digit_val_digit_char [simp]: "n < 10 \<Longrightarrow> digit_val (digit_char n) = n"
  by (simp add: digit_val_def byte_of_digit_char)

lemma nat_digits_not_Nil [simp]: "nat_digits n \<noteq> []"
  by (subst nat_digits.simps) simp

lemma nat_digits_are_digits: "list_all is_digit (nat_digits n)"
proof (induction n rule: nat_digits.induct)
  case (1 n)
  then show ?case
    by (cases "n < 10") (simp_all add: nat_digits.simps [of n])
qed

lemma digits_val_snoc: "digits_val (s @ [c]) = digits_val s * 10 + digit_val c"
  by (simp add: digits_val_def)

lemma digits_val_nat_digits [simp]: "digits_val (nat_digits n) = n"
proof (induction n rule: nat_digits.induct)
  case (1 n)
  show ?case
  proof (cases "n < 10")
    case True
    then show ?thesis by (simp add: nat_digits.simps [of n] digits_val_def)
  next
    case False
    with 1 show ?thesis by (simp add: nat_digits.simps [of n] digits_val_snoc)
  qed
qed

lemma nat_digits_hd: "nat_digits n = c # cs \<Longrightarrow> is_digit c"
  using nat_digits_are_digits [of n] by simp

lemma sign_not_digit: "\<not> is_digit (CHR ''-'')" "\<not> is_digit (CHR ''+'')" "\<not> is_digit (CHR '':'')"
  by (simp_all add: is_digit_def byte_of_def)

lemma itoa_colon_free: "0 \<le> n \<Longrightarrow> CHR '':'' \<notin> set (itoa n)"
  using nat_digits_are_digits [of "nat n"] sign_not_digit(3)
  by (auto simp: itoa_def list_all_iff)

lemma atoi_itoa: "0 \<le> n \<Longrightarrow> n \<le> max_int64 \<Longrightarrow> atoi (itoa n) = Some n"
proof -
  assume n: "0 \<le> n" "n \<le> max_int64"
  obtain c cs where ds: "nat_digits (nat n) = c # cs"
    by (cases "nat_digits (nat n)") simp_all
  have "is_digit c" using ds by (rule nat_digits_hd)
  then have "c \<noteq> CHR ''-''" "c \<noteq> CHR ''+''" using sign_not_digit by auto
  moreover have "atoi_digits (c # cs) = Some (nat n)"
    using nat_digits_are_digits [of "nat n"] digits_val_nat_digits [of "nat n"]
    by (simp add: atoi_digits_def ds)
  ultimately show ?thesis
    using n by (simp add: atoi_def itoa_def ds)
qed

subsection \<open>Byte order of strings\<close>

fun string_less_eq :: "string \<Rightarrow> string \<Rightarrow> bool" where
  "string_less_eq [] b = True"
| "string_less_eq (x # a) [] = False"
| "string_less_eq (x # a) (y # b) = (byte_of x < byte_of y \<or> byte_of x = byte_of y \<and> string_less_eq a b)"

lemma byte_of_inj: "byte_of x = byte_of y \<Longrightarrow> x = y"
  by (simp add: byte_of_def)

text \<open>The comparison is a total order on byte strings.\<close>

lemma string_less_eq_refl [simp]: "string_less_eq a a"
  by (induction a) auto

lemma string_less_eq_antisym: "string_less_eq a b \<Longrightarrow> string_less_eq b a \<Longrightarrow> a = b"
proof (induction a b rule: string_less_eq.induct)
  case (1 b)
  then show ?case by (cases b) auto
qed (auto dest: byte_of_inj)

lemma string_less_eq_total: "string_less_eq a b \<or> string_less_eq b a"
  by (induction a b rule: string_less_eq.induct) auto

lemma string_less_eq_trans: "string_less_eq a b \<Longrightarrow> string_less_eq b c \<Longrightarrow> string_less_eq a c"
proof (induction a b arbitrary: c rule: string_less_eq.induct)
  case (3 x a y b)
  then show ?case by (cases c) auto
qed auto

subsection \<open>Sorting\<close>

text \<open>
  \<^verbatim>\<open>sort.SliceStable\<close> for a comparison \<open>lt\<close>: insertion from the right, an element going in front
  of the first one that is not before it. Where \<open>lt\<close> is a total order on distinct elements it is
  also what \<^verbatim>\<open>sort.Slice\<close> and \<^verbatim>\<open>slices.SortFunc\<close> return.
\<close>

fun insert_by :: "('a \<Rightarrow> 'a \<Rightarrow> bool) \<Rightarrow> 'a \<Rightarrow> 'a list \<Rightarrow> 'a list" where
  "insert_by lt x [] = [x]"
| "insert_by lt x (y # ys) = (if lt y x then y # insert_by lt x ys else x # y # ys)"

definition sort_by :: "('a \<Rightarrow> 'a \<Rightarrow> bool) \<Rightarrow> 'a list \<Rightarrow> 'a list" where
  "sort_by lt xs = foldr (insert_by lt) xs []"

lemma mset_insert_by [simp]: "mset (insert_by lt x xs) = add_mset x (mset xs)"
  by (induction xs) auto

lemma sort_by_Nil [simp]: "sort_by lt [] = []"
  by (simp add: sort_by_def)

lemma sort_by_Cons [simp]: "sort_by lt (x # xs) = insert_by lt x (sort_by lt xs)"
  by (simp add: sort_by_def)

lemma mset_sort_by [simp, preserved]: "mset (sort_by lt xs) = mset xs"
  by (induction xs) auto

lemma set_insert_by [simp]: "set (insert_by lt x xs) = insert x (set xs)"
  by (induction xs) auto

lemma set_sort_by [simp, preserved]: "set (sort_by lt xs) = set xs"
  by (induction xs) auto

lemma length_insert_by [simp]: "length (insert_by lt x xs) = Suc (length xs)"
  by (induction xs) auto

lemma length_sort_by [simp, preserved]: "length (sort_by lt xs) = length xs"
  by (induction xs) auto

text \<open>The result is in order: no element is before one that stands ahead of it.\<close>

definition weak_order :: "('a \<Rightarrow> 'a \<Rightarrow> bool) \<Rightarrow> bool" where
  "weak_order lt \<longleftrightarrow>
     (\<forall>x y. lt x y \<longrightarrow> \<not> lt y x) \<and>
     (\<forall>x y z. \<not> lt y x \<longrightarrow> \<not> lt z y \<longrightarrow> \<not> lt z x)"

lemma weak_orderI:
  assumes "\<And>x y. lt x y \<Longrightarrow> \<not> lt y x"
    and "\<And>x y z. \<not> lt y x \<Longrightarrow> \<not> lt z y \<Longrightarrow> \<not> lt z x"
  shows "weak_order lt"
  using assms unfolding weak_order_def by blast

lemma sorted_insert_by:
  assumes "weak_order lt" and "sorted_wrt (\<lambda>a b. \<not> lt b a) xs"
  shows "sorted_wrt (\<lambda>a b. \<not> lt b a) (insert_by lt x xs)"
  using assms(2)
proof (induction xs)
  case Nil
  then show ?case by simp
next
  case (Cons y ys)
  have asym: "\<And>a b. lt a b \<Longrightarrow> \<not> lt b a"
    and trans: "\<And>a b c. \<not> lt b a \<Longrightarrow> \<not> lt c b \<Longrightarrow> \<not> lt c a"
    using assms(1) unfolding weak_order_def by blast+
  from Cons show ?case
    by (auto dest: asym) (metis trans)
qed

lemma sorted_sort_by:
  "weak_order lt \<Longrightarrow> sorted_wrt (\<lambda>a b. \<not> lt b a) (sort_by lt xs)"
  by (induction xs) (auto intro: sorted_insert_by)

lemma insert_by_first: "\<forall>y\<in>set ys. \<not> lt y x \<Longrightarrow> insert_by lt x ys = x # ys"
  by (cases ys) auto

lemma sort_by_sorted: "sorted_wrt (\<lambda>a b. \<not> lt b a) xs \<Longrightarrow> sort_by lt xs = xs"
  by (induction xs) (auto simp: insert_by_first)

subsection \<open>Lists and options\<close>

lemma sum_list_nonneg_int: "(\<And>x. x \<in> set xs \<Longrightarrow> 0 \<le> f x) \<Longrightarrow> (0::int) \<le> (\<Sum>x\<leftarrow>xs. f x)"
  by (induction xs) auto

lemma sum_list_mset_eq:
  fixes f :: "'a \<Rightarrow> int"
  assumes "mset xs = mset ys"
  shows "(\<Sum>x\<leftarrow>xs. f x) = (\<Sum>x\<leftarrow>ys. f x)"
proof -
  have "(\<Sum>x\<leftarrow>xs. f x) = sum_mset (image_mset f (mset xs))"
    by (simp flip: sum_mset_sum_list)
  also have "\<dots> = sum_mset (image_mset f (mset ys))"
    using assms by simp
  also have "\<dots> = (\<Sum>x\<leftarrow>ys. f x)"
    by (simp flip: sum_mset_sum_list)
  finally show ?thesis .
qed

lemma mset_filter_eq: "mset xs = mset ys \<Longrightarrow> mset (filter P xs) = mset (filter P ys)"
  by simp

lemma mset_nth_remove:
  "i < length xs \<Longrightarrow> add_mset (xs ! i) (mset (take i xs @ drop (Suc i) xs)) = mset xs"
  by (metis add_mset_add_single append_take_drop_id Cons_nth_drop_Suc mset.simps(2) mset_append
      union_mset_add_mset_right)

end
