(* ===== verification/Provision.thy ===== *)
theory Provision
  imports Prelude
begin

text \<open>
  The provisioner domain, \<^verbatim>\<open>internal/provision\<close>: the identity key of a title (\<^verbatim>\<open>title.go\<close>) and
  the acquisition state machine (\<^verbatim>\<open>state.go\<close>, \<^verbatim>\<open>transition.go\<close>). Every other component refers to
  titles by these keys. The field \<^verbatim>\<open>F\<close> of the Go struct \<^verbatim>\<open>Record\<close> is \<open>r_F\<close>, of \<^verbatim>\<open>Title\<close> \<open>t_F\<close>, of
  \<^verbatim>\<open>Event\<close> \<open>ev_F\<close> and of \<^verbatim>\<open>DomainEvent\<close> \<open>de_F\<close>.
\<close>

subsection \<open>Title identity (title.go)\<close>

type_synonym MediaType = string
type_synonym Key = string

abbreviation Movie :: MediaType where "Movie \<equiv> ''movie''"
abbreviation Series :: MediaType where "Series \<equiv> ''series''"

definition MediaType_Valid :: "MediaType \<Rightarrow> bool" where
  "MediaType_Valid m \<longleftrightarrow> m = Movie \<or> m = Series"

record Title =
  t_MediaType :: MediaType
  t_TMDBID :: int
  t_TVDBID :: int
  t_Name :: string
  t_Year :: int
  t_Seasons :: "int list"

definition IsSeries :: "Key \<Rightarrow> bool" where
  "IsSeries k = has_prefix k (Series @ '':'')"

datatype key_error = InvalidMediaType MediaType | NoUsableId string MediaType

definition Title_Key :: "Title \<Rightarrow> key_error + Key" where
  "Title_Key t =
     (if \<not> MediaType_Valid (t_MediaType t) then Inl (InvalidMediaType (t_MediaType t))
      else if t_MediaType t = Series \<and> t_TVDBID t > 0 then Inr (''series:tvdb:'' @ itoa (t_TVDBID t))
      else if t_TMDBID t > 0 then Inr (t_MediaType t @ '':tmdb:'' @ itoa (t_TMDBID t))
      else Inl (NoUsableId (t_Name t) (t_MediaType t)))"

definition ParseKey :: "Key \<Rightarrow> (MediaType \<times> string \<times> int) option" where
  "ParseKey k =
     (case split_on CHR '':'' k of
        [p0, p1, p2] \<Rightarrow>
          (if \<not> MediaType_Valid p0 then None
           else if p1 \<noteq> ''tmdb'' \<and> p1 \<noteq> ''tvdb'' then None
           else (case atoi p2 of
                   None \<Rightarrow> None
                 | Some n \<Rightarrow> if n \<le> 0 then None else Some (p0, p1, n)))
      | _ \<Rightarrow> None)"

definition KeyFromWebhook :: "MediaType \<Rightarrow> int \<Rightarrow> int \<Rightarrow> key_error + Key" where
  "KeyFromWebhook mt tmdbID tvdbID =
     Title_Key \<lparr>t_MediaType = mt, t_TMDBID = tmdbID, t_TVDBID = tvdbID, t_Name = '''', t_Year = 0,
                t_Seasons = []\<rparr>"

lemma colon_free_words [simp]:
  "CHR '':'' \<notin> set Movie" "CHR '':'' \<notin> set Series"
  "CHR '':'' \<notin> set ''tmdb''" "CHR '':'' \<notin> set ''tvdb''"
  by simp_all

lemma split_key:
  assumes "CHR '':'' \<notin> set a" "CHR '':'' \<notin> set b" "CHR '':'' \<notin> set c"
  shows "split_on CHR '':'' (a @ CHR '':'' # b @ CHR '':'' # c) = [a, b, c]"
  using assms by (simp add: split_on_append split_on_no_sep)

lemma ParseKey_built:
  assumes "MediaType_Valid mt" "p = ''tmdb'' \<or> p = ''tvdb''" "0 < n" "n \<le> max_int64"
  shows "ParseKey (mt @ CHR '':'' # p @ CHR '':'' # itoa n) = Some (mt, p, n)"
proof -
  have "CHR '':'' \<notin> set mt" "CHR '':'' \<notin> set p"
    using assms(1,2) by (auto simp: MediaType_Valid_def)
  with assms(3) have "split_on CHR '':'' (mt @ CHR '':'' # p @ CHR '':'' # itoa n) = [mt, p, itoa n]"
    by (intro split_key itoa_colon_free) auto
  with assms show ?thesis
    by (auto simp: ParseKey_def atoi_itoa)
qed

text \<open>The key a valid title gets, written with its three parts.\<close>

definition key_provider :: "Title \<Rightarrow> string" where
  "key_provider t = (if t_MediaType t = Series \<and> t_TVDBID t > 0 then ''tvdb'' else ''tmdb'')"

definition key_id :: "Title \<Rightarrow> int" where
  "key_id t = (if t_MediaType t = Series \<and> t_TVDBID t > 0 then t_TVDBID t else t_TMDBID t)"

lemma Title_Key_parts:
  assumes "Title_Key t = Inr k"
  shows "k = t_MediaType t @ CHR '':'' # key_provider t @ CHR '':'' # itoa (key_id t)"
    and "MediaType_Valid (t_MediaType t)" and "0 < key_id t"
  using assms by (auto simp: Title_Key_def key_provider_def key_id_def split: if_splits)

lemma IsSeries_built: "MediaType_Valid mt \<Longrightarrow> IsSeries (mt @ CHR '':'' # rest) \<longleftrightarrow> mt = Series"
  by (auto simp: IsSeries_def has_prefix_def MediaType_Valid_def)

text \<open>
  The identity key survives the round trip through its string form: for every title the code can
  give a key to, \<^verbatim>\<open>ParseKey\<close> returns the media type, the provider and the id the key was built from,
  and \<^verbatim>\<open>IsSeries\<close> answers the title's media type.
\<close>

theorem ParseKey_Title_Key:
  assumes "Title_Key t = Inr k" and "t_TMDBID t \<le> max_int64" and "t_TVDBID t \<le> max_int64"
  shows "ParseKey k = Some (t_MediaType t, key_provider t, key_id t) \<and>
         IsSeries k = (t_MediaType t = Series)"
proof -
  note parts = Title_Key_parts [OF assms(1)]
  have "key_id t \<le> max_int64" using assms(2,3) by (simp add: key_id_def)
  moreover have "key_provider t = ''tmdb'' \<or> key_provider t = ''tvdb''"
    by (simp add: key_provider_def)
  ultimately show ?thesis
    using parts by (simp only: ParseKey_built IsSeries_built simp_thms)
qed

definition sample_series :: Title where
  "sample_series = \<lparr>t_MediaType = Series, t_TMDBID = 0, t_TVDBID = 71663, t_Name = ''The Simpsons'',
                    t_Year = 1989, t_Seasons = []\<rparr>"

lemma sample_series_key: "Title_Key sample_series = Inr ''series:tvdb:71663''"
  by (simp add: Title_Key_def sample_series_def itoa_def nat_digits.simps MediaType_Valid_def)

theorem ParseKey_Title_Key_witness:
  "ParseKey ''series:tvdb:71663'' = Some (Series, ''tvdb'', 71663)"
proof -
  have "t_TMDBID sample_series \<le> max_int64" "t_TVDBID sample_series \<le> max_int64"
    by (simp_all add: sample_series_def)
  from ParseKey_Title_Key [OF sample_series_key this] show ?thesis
    by (simp add: sample_series_def key_provider_def key_id_def)
qed

text \<open>A webhook carrying the same ids finds the record its request created.\<close>

lemma KeyFromWebhook_parity:
  "Title_Key t = Inr k \<Longrightarrow> KeyFromWebhook (t_MediaType t) (t_TMDBID t) (t_TVDBID t) = Inr k"
  by (auto simp: KeyFromWebhook_def Title_Key_def split: if_splits)

subsection \<open>The acquisition state machine (state.go, transition.go)\<close>

datatype State = Wanted | Requested | Downloading | Available | Unavailable

definition Terminal :: "State \<Rightarrow> bool" where
  "Terminal s \<longleftrightarrow> s = Available \<or> s = Unavailable"

definition Emits :: "State \<Rightarrow> bool" where
  "Emits s \<longleftrightarrow> s = Available \<or> s = Unavailable"

record Record =
  r_Key :: Key
  r_Title :: Title
  r_State :: State
  r_LibraryID :: string
  r_RequestedAt :: gotime
  r_Deadline :: gotime
  r_Attempts :: int
  r_LastError :: string
  r_UpdatedAt :: gotime
  r_AvailableAt :: gotime
  r_Progress :: rat
  r_ETAText :: string
  r_DownloadStatus :: string
  r_EpisodesHave :: int
  r_EpisodesWanted :: int

datatype EventKind = RequestAccepted | SubmitFailed | Grabbed | LibraryConfirmed | DeadlineExceeded

record Event =
  ev_Kind :: EventKind
  ev_LibraryID :: string
  ev_Deadline :: gotime
  ev_Err :: string

record DomainEvent =
  de_Key :: Key
  de_State :: State
  de_Title :: Title

text \<open>The \<^verbatim>\<open>switch ev.Kind\<close> of \<^verbatim>\<open>Apply\<close>: the candidate next record.\<close>

definition Apply_next :: "Record \<Rightarrow> Event \<Rightarrow> gotime \<Rightarrow> Record" where
  "Apply_next rec ev now =
     (case ev_Kind ev of
        RequestAccepted \<Rightarrow>
          (if r_State rec = Wanted \<or> r_State rec = Requested
           then (let next = rec\<lparr>r_State := Requested\<rparr>;
                     next = (if \<not> is_zero_time (ev_Deadline ev) then next\<lparr>r_Deadline := ev_Deadline ev\<rparr> else next)
                 in if is_zero_time (r_RequestedAt rec) then next\<lparr>r_RequestedAt := now\<rparr> else next)
           else rec)
      | SubmitFailed \<Rightarrow>
          (if r_State rec = Wanted
           then rec\<lparr>r_State := Wanted, r_LastError := ev_Err ev, r_Attempts := r_Attempts rec + 1\<rparr>
           else rec)
      | Grabbed \<Rightarrow>
          (if r_State rec = Requested \<or> r_State rec = Downloading
           then (let next = rec\<lparr>r_State := Downloading\<rparr>
                 in if \<not> is_zero_time (ev_Deadline ev) then next\<lparr>r_Deadline := ev_Deadline ev\<rparr> else next)
           else rec)
      | LibraryConfirmed \<Rightarrow>
          rec\<lparr>r_State := Available, r_LibraryID := ev_LibraryID ev, r_AvailableAt := now\<rparr>
      | DeadlineExceeded \<Rightarrow>
          (if \<not> now < r_Deadline rec
           then rec\<lparr>r_State := Unavailable, r_LastError := ev_Err ev\<rparr>
           else rec))"

definition same_effect :: "Record \<Rightarrow> Record \<Rightarrow> bool" where
  "same_effect next rec \<longleftrightarrow>
     r_State next = r_State rec \<and> r_LibraryID next = r_LibraryID rec \<and>
     r_Deadline next = r_Deadline rec \<and> r_LastError next = r_LastError rec \<and>
     r_Attempts next = r_Attempts rec"

definition Apply :: "Record \<Rightarrow> Event \<Rightarrow> gotime \<Rightarrow> Record \<times> DomainEvent list" where
  "Apply rec ev now =
     (if Terminal (r_State rec) then (rec, [])
      else
        (let next = Apply_next rec ev now
         in if same_effect next rec then (rec, [])
            else
              (let next = next\<lparr>r_UpdatedAt := now\<rparr>
               in (next,
                   if r_State next \<noteq> r_State rec \<and> Emits (r_State next)
                   then [\<lparr>de_Key = r_Key next, de_State = r_State next, de_Title = r_Title next\<rparr>]
                   else []))))"

text \<open>A record's life: the events it receives, each at its time, in order.\<close>

fun Apply_all :: "Record \<Rightarrow> (Event \<times> gotime) list \<Rightarrow> Record \<times> DomainEvent list" where
  "Apply_all rec [] = (rec, [])"
| "Apply_all rec ((ev, now) # evs) =
     (let (next, out) = Apply rec ev now;
          (final, out') = Apply_all next evs
      in (final, out @ out'))"

definition progress :: "State \<Rightarrow> nat" where
  "progress s = (case s of Wanted \<Rightarrow> 0 | Requested \<Rightarrow> 1 | Downloading \<Rightarrow> 2 | Available \<Rightarrow> 3 | Unavailable \<Rightarrow> 3)"

definition terminal_event :: "Record \<Rightarrow> DomainEvent" where
  "terminal_event rec = \<lparr>de_Key = r_Key rec, de_State = r_State rec, de_Title = r_Title rec\<rparr>"

lemma Apply_next_cases [sched_simps]:
  "r_Key (Apply_next rec ev now) = r_Key rec" "r_Title (Apply_next rec ev now) = r_Title rec"
  by (auto simp: Apply_next_def Let_def split: EventKind.split)

lemma Apply_next_progress:
  "\<not> Terminal (r_State rec) \<Longrightarrow> progress (r_State rec) \<le> progress (r_State (Apply_next rec ev now))"
  by (auto simp: Apply_next_def Let_def Terminal_def progress_def split: EventKind.split State.split)

lemma Apply_frozen [simp]: "Terminal (r_State rec) \<Longrightarrow> Apply rec ev now = (rec, [])"
  by (simp add: Apply_def)

lemma Apply_all_frozen: "Terminal (r_State rec) \<Longrightarrow> Apply_all rec evs = (rec, [])"
  by (induction evs) auto

lemma Apply_step_progress: "progress (r_State rec) \<le> progress (r_State (fst (Apply rec ev now)))"
  using Apply_next_progress [of rec ev now] by (auto simp: Apply_def Let_def)

lemma Apply_step_identity [preserved]:
  "r_Key (fst (Apply rec ev now)) = r_Key rec" "r_Title (fst (Apply rec ev now)) = r_Title rec"
  by (auto simp: Apply_def Let_def Apply_next_cases)

lemma Apply_step_emits:
  "snd (Apply rec ev now) =
     (if \<not> Terminal (r_State rec) \<and> Terminal (r_State (fst (Apply rec ev now)))
      then [terminal_event (fst (Apply rec ev now))] else [])"
  by (auto simp: Apply_def Let_def Terminal_def Emits_def terminal_event_def same_effect_def Apply_next_cases)

text \<open>
  C29. The scheduler hears of a title exactly once. Over any sequence of events, the domain events a
  record emits are none while it stays in flight and, if the sequence takes it from an in-flight state
  to \<^verbatim>\<open>available\<close> or \<^verbatim>\<open>unavailable\<close>, exactly the one event naming its key, title and final state;
  its key and title never change.
\<close>

theorem Apply_all_emits_once:
  "snd (Apply_all rec evs) =
     (if \<not> Terminal (r_State rec) \<and> Terminal (r_State (fst (Apply_all rec evs)))
      then [terminal_event (fst (Apply_all rec evs))] else []) \<and>
   r_Key (fst (Apply_all rec evs)) = r_Key rec \<and> r_Title (fst (Apply_all rec evs)) = r_Title rec"
proof (induction evs arbitrary: rec)
  case Nil
  then show ?case by simp
next
  case (Cons p evs)
  obtain ev now where p: "p = (ev, now)" by (cases p)
  define next' where "next' = fst (Apply rec ev now)"
  have step: "Apply rec ev now = (next', snd (Apply rec ev now))" by (simp add: next'_def)
  have all: "Apply_all rec (p # evs) =
      (fst (Apply_all next' evs), snd (Apply rec ev now) @ snd (Apply_all next' evs))"
    by (subst Apply_all.simps(2) [of rec ev now evs, folded p], subst step)
      (simp add: case_prod_beta)
  have ids: "r_Key next' = r_Key rec" "r_Title next' = r_Title rec"
    by (simp_all add: next'_def Apply_step_identity)
  show ?case
  proof (cases "Terminal (r_State next')")
    case True
    then have "Apply_all next' evs = (next', [])" by (rule Apply_all_frozen)
    then show ?thesis
      using ids Apply_step_emits [of rec ev now] by (simp add: all next'_def [symmetric])
  next
    case False
    then have "\<not> Terminal (r_State rec)" by (auto simp: next'_def)
    moreover have "snd (Apply rec ev now) = []"
      using False Apply_step_emits [of rec ev now] by (simp add: next'_def)
    ultimately show ?thesis
      using Cons.IH [of next'] False ids by (simp add: all)
  qed
qed

text \<open>
  The lifecycle is monotone: no sequence of events ever takes a record back (wanted, requested,
  downloading, terminal), and once it is terminal no event changes any field of it.
\<close>

theorem Apply_all_monotone:
  "progress (r_State rec) \<le> progress (r_State (fst (Apply_all rec evs))) \<and>
   (if Terminal (r_State (fst (Apply_all rec evs)))
    then fst (Apply_all rec (evs @ later)) = fst (Apply_all rec evs) else True)"
proof (induction evs arbitrary: rec)
  case Nil
  then show ?case by (simp add: Apply_all_frozen)
next
  case (Cons p evs)
  obtain ev now where p: "p = (ev, now)" by (cases p)
  show ?case
    using Cons.IH [of "fst (Apply rec ev now)"] Apply_step_progress [of rec ev now]
    by (auto simp: p case_prod_beta)
qed

lemma Apply_next_again:
  assumes "ev_Kind ev \<noteq> SubmitFailed" and "next = (Apply_next rec ev now)\<lparr>r_UpdatedAt := now\<rparr>"
  shows "Terminal (r_State next) \<or> same_effect (Apply_next next ev now) next"
  using assms(1) unfolding assms(2)
  by (cases "ev_Kind ev"; cases "r_State rec")
    (simp_all add: Apply_next_def Let_def Terminal_def same_effect_def)

text \<open>
  Delivering an event twice is delivering it once, for every kind but \<^verbatim>\<open>submit_failed\<close> (which
  counts each failed attempt): the second delivery changes nothing and emits nothing.
\<close>

theorem Apply_idempotent:
  assumes "ev_Kind ev \<noteq> SubmitFailed"
  shows "Apply (fst (Apply rec ev now)) ev now = (fst (Apply rec ev now), [])"
proof -
  let ?next = "(Apply_next rec ev now)\<lparr>r_UpdatedAt := now\<rparr>"
  show ?thesis
  proof (cases "Terminal (r_State rec) \<or> same_effect (Apply_next rec ev now) rec")
    case True
    then have "Apply rec ev now = (rec, [])" by (auto simp: Apply_def Let_def)
    then show ?thesis by simp
  next
    case False
    then have "fst (Apply rec ev now) = ?next" by (simp add: Apply_def Let_def)
    moreover have "Terminal (r_State ?next) \<or> same_effect (Apply_next ?next ev now) ?next"
      using Apply_next_again [OF assms refl] .
    then have "Apply ?next ev now = (?next, [])" by (auto simp: Apply_def Let_def)
    ultimately show ?thesis by simp
  qed
qed

definition sample_record :: Record where
  "sample_record = \<lparr>r_Key = ''series:tvdb:71663'', r_Title = sample_series, r_State = Requested,
     r_LibraryID = '''', r_RequestedAt = 5, r_Deadline = 100, r_Attempts = 0, r_LastError = '''',
     r_UpdatedAt = 5, r_AvailableAt = 0, r_Progress = 0, r_ETAText = '''', r_DownloadStatus = '''',
     r_EpisodesHave = 0, r_EpisodesWanted = 0\<rparr>"

theorem Apply_idempotent_witness:
  "let grab = \<lparr>ev_Kind = Grabbed, ev_LibraryID = '''', ev_Deadline = 60, ev_Err = ''''\<rparr>;
       once = fst (Apply sample_record grab 20)
   in r_State once = Downloading \<and> r_Deadline once = 60 \<and> Apply once grab 20 = (once, [])"
proof -
  let ?grab = "\<lparr>ev_Kind = Grabbed, ev_LibraryID = '''', ev_Deadline = 60, ev_Err = ''''\<rparr>"
  have "Apply (fst (Apply sample_record ?grab 20)) ?grab 20 = (fst (Apply sample_record ?grab 20), [])"
    by (rule Apply_idempotent) simp
  moreover have "r_State (fst (Apply sample_record ?grab 20)) = Downloading"
    "r_Deadline (fst (Apply sample_record ?grab 20)) = 60"
    by (simp_all add: Apply_def Apply_next_def sample_record_def Terminal_def same_effect_def
        is_zero_time_def Let_def)
  ultimately show ?thesis
    by (simp only: Let_def simp_thms)
qed

lemma SubmitFailed_counts:
  "r_State rec = Wanted \<Longrightarrow> ev_Kind ev = SubmitFailed \<Longrightarrow>
   r_State (fst (Apply rec ev now)) = Wanted \<and>
   r_Attempts (fst (Apply rec ev now)) = r_Attempts rec + 1 \<and>
   r_LastError (fst (Apply rec ev now)) = ev_Err ev"
  by (simp add: Apply_def Apply_next_def Terminal_def same_effect_def)

end
