(* ===== verification/Rating.thy ===== *)
theory Rating
  imports Prelude
begin

text \<open>
  The audience rating ladder, \<^verbatim>\<open>internal/rating\<close>: both content-rating systems on one ordered scale,
  and the folding of a media server's raw rating onto it. The scheduler's audience gate (\<open>Filters\<close>)
  and its policy merge (\<open>Policy_Merge\<close>) compare ratings only through these functions.
\<close>

type_synonym Rating = string

definition ladderRank :: "Rating \<Rightarrow> int option" where
  "ladderRank = map_of
     [(''TV-Y'', 0), (''TV-Y7'', 1),
      (''TV-G'', 2), (''G'', 2),
      (''TV-PG'', 3), (''PG'', 3),
      (''TV-14'', 4), (''PG-13'', 4),
      (''TV-MA'', 5), (''R'', 5), (''NC-17'', 5)]"

definition KidsCeilingRank :: int where
  "KidsCeilingRank = 3"

definition Normalize :: "string \<Rightarrow> Rating" where
  "Normalize raw =
     (let s = to_upper (trim_space raw);
          s = replace_char CHR ''_'' CHR ''-'' s;
          s = delete_char CHR '' '' s;
          s = trim_prefix s ''RATED''
      in if ladderRank s \<noteq> None then s else '''')"

definition Mapped :: "Rating \<Rightarrow> bool" where
  "Mapped r \<longleftrightarrow> ladderRank r \<noteq> None"

text \<open>\<^verbatim>\<open>Rank\<close> returns the map's zero value beside \<^verbatim>\<open>false\<close> for an unmapped rating.\<close>

definition Rank :: "Rating \<Rightarrow> int \<times> bool" where
  "Rank r = (case ladderRank r of None \<Rightarrow> (0, False) | Some n \<Rightarrow> (n, True))"

definition AtOrBelow :: "Rating \<Rightarrow> Rating \<Rightarrow> bool" where
  "AtOrBelow r ceil =
     (case (ladderRank r, ladderRank ceil) of
        (Some rr, Some cc) \<Rightarrow> rr \<le> cc
      | _ \<Rightarrow> False)"

lemma Mapped_cases:
  assumes "Mapped r"
  obtains "r = ''TV-Y''" | "r = ''TV-Y7''" | "r = ''TV-G''" | "r = ''G''" | "r = ''TV-PG''"
    | "r = ''PG''" | "r = ''TV-14''" | "r = ''PG-13''" | "r = ''TV-MA''" | "r = ''R''" | "r = ''NC-17''"
  using assms unfolding Mapped_def ladderRank_def
  by (simp add: map_of_Cons_code split: if_splits)

lemma Normalize_ladder:
  "Normalize ''TV-Y'' = ''TV-Y''" "Normalize ''TV-Y7'' = ''TV-Y7''" "Normalize ''TV-G'' = ''TV-G''"
  "Normalize ''G'' = ''G''" "Normalize ''TV-PG'' = ''TV-PG''" "Normalize ''PG'' = ''PG''"
  "Normalize ''TV-14'' = ''TV-14''" "Normalize ''PG-13'' = ''PG-13''" "Normalize ''TV-MA'' = ''TV-MA''"
  "Normalize ''R'' = ''R''" "Normalize ''NC-17'' = ''NC-17''" "Normalize '''' = ''''"
  by code_simp+

lemma Normalize_Mapped: "Mapped r \<Longrightarrow> Normalize r = r"
  by (erule Mapped_cases) (simp_all only: Normalize_ladder)

lemma not_Mapped_Nil [simp]: "\<not> Mapped ''''"
  by (simp add: Mapped_def ladderRank_def)

lemma Normalize_result: "Normalize raw = '''' \<or> Mapped (Normalize raw)"
  by (simp add: Normalize_def Let_def Mapped_def)

text \<open>
  Normalising a rating is idempotent and total: the result is a rung of the ladder or the unrated
  empty string, and every rung is its own normal form, so a rating that was already stamped on a
  lineup entry is judged exactly as the raw one was.
\<close>

theorem Normalize_idempotent:
  "(Normalize raw = '''' \<or> Mapped (Normalize raw)) \<and> Normalize (Normalize raw) = Normalize raw"
  using Normalize_result [of raw] Normalize_Mapped Normalize_ladder(12) by metis

lemma AtOrBelow_trans: "AtOrBelow a b \<Longrightarrow> AtOrBelow b c \<Longrightarrow> AtOrBelow a c"
  by (auto simp: AtOrBelow_def split: option.splits)

lemma AtOrBelow_total: "Mapped a \<Longrightarrow> Mapped b \<Longrightarrow> AtOrBelow a b \<or> AtOrBelow b a"
  by (auto simp: AtOrBelow_def Mapped_def)

lemma AtOrBelow_Mapped: "AtOrBelow a b \<Longrightarrow> Mapped a \<and> Mapped b"
  by (auto simp: AtOrBelow_def Mapped_def split: option.splits)

end
