(* ===== verification/Dates.thy ===== *)
theory Dates
  imports Prelude Provision
begin

text \<open>
  Year windows and date scopes, \<^verbatim>\<open>internal/schedule/policy.go\<close> (\<^verbatim>\<open>Range\<close>, \<^verbatim>\<open>DateScope\<close>,
  \<^verbatim>\<open>NormalizeRanges\<close>, \<^verbatim>\<open>FillerEraWindows\<close>) and \<^verbatim>\<open>datescope.go\<close> (the era alias). A bound of 0 is open.
  The lemmas show which years each operation admits: normalising keeps exactly the years of its
  input in a canonical form, intersecting admits exactly the common years, and folding the era
  alias into a scope narrows each axis to the era.
\<close>

subsection \<open>Records\<close>

record Range =
  rg_From :: int
  rg_To :: int

abbreviation any_range :: Range where
  "any_range \<equiv> \<lparr>rg_From = 0, rg_To = 0\<rparr>"

record DateScope =
  ds_MovieRelease :: "Range list"
  ds_SeriesPremiere :: "Range list"
  ds_SeriesAiring :: "Range list"

record GenreFilter =
  gf_Include :: "string list"
  gf_Exclude :: "string list"

record ScopePolicy =
  sc_Series :: "Key list"
  sc_Collections :: "string list"
  sc_Seasons :: "Range option"
  sc_Dates :: "DateScope option"
  sc_Genres :: GenreFilter
  sc_RuntimeMax :: int
  sc_eraAndDates :: bool

definition empty_scope :: ScopePolicy where
  "empty_scope = \<lparr>sc_Series = [], sc_Collections = [], sc_Seasons = None, sc_Dates = None,
     sc_Genres = \<lparr>gf_Include = [], gf_Exclude = []\<rparr>, sc_RuntimeMax = 0, sc_eraAndDates = False\<rparr>"

subsection \<open>Membership and normal form (policy.go)\<close>

definition Contains :: "Range \<Rightarrow> int \<Rightarrow> bool" where
  "Contains r v =
     (if rg_From r > 0 \<and> v < rg_From r then False
      else if rg_To r > 0 \<and> v > rg_To r then False
      else True)"

text \<open>The nil receiver: no range contains everything.\<close>

definition ContainsOpt :: "Range option \<Rightarrow> int \<Rightarrow> bool" where
  "ContainsOpt r v = (case r of None \<Rightarrow> True | Some r \<Rightarrow> Contains r v)"

definition upperBound :: "Range \<Rightarrow> int" where
  "upperBound r = (if rg_To r = 0 then max_int64 else rg_To r)"

definition range_before :: "Range \<Rightarrow> Range \<Rightarrow> bool" where
  "range_before a b =
     (if rg_From a = rg_From b then upperBound a < upperBound b else rg_From a < rg_From b)"

text \<open>
  The coalescing loop of \<^verbatim>\<open>NormalizeRanges\<close>: the first argument is \<^verbatim>\<open>out[n-1]\<close>, the window being
  grown; the result is the windows kept from it on.
\<close>

fun coalesce :: "Range \<Rightarrow> Range list \<Rightarrow> Range list" where
  "coalesce cur [] = [cur]"
| "coalesce cur (r # rs) =
     (if rg_To cur \<noteq> 0 \<and> rg_From r > rg_To cur + 1 then cur # coalesce r rs
      else if rg_To cur \<noteq> 0 \<and> (rg_To r = 0 \<or> rg_To r > rg_To cur)
      then coalesce (cur\<lparr>rg_To := rg_To r\<rparr>) rs
      else coalesce cur rs)"

definition NormalizeRanges :: "Range list \<Rightarrow> Range list" where
  "NormalizeRanges rs =
     (case sort_by range_before rs of [] \<Rightarrow> [] | r # rest \<Rightarrow> coalesce r rest)"

definition sameRanges :: "Range list \<Rightarrow> Range list \<Rightarrow> bool" where
  "sameRanges a b \<longleftrightarrow> a = b"

definition validYearRange :: "Range \<Rightarrow> bool \<Rightarrow> bool" where
  "validYearRange r required =
     (if required \<and> (rg_From r = 0 \<or> rg_To r = 0) then False
      else if rg_From r \<noteq> 0 \<and> (rg_From r < 1900 \<or> rg_From r > 2099) then False
      else if rg_To r \<noteq> 0 \<and> (rg_To r < 1900 \<or> rg_To r > 2099) then False
      else rg_From r = 0 \<or> rg_To r = 0 \<or> rg_From r \<le> rg_To r)"

definition dates_empty :: "DateScope option \<Rightarrow> bool" where
  "dates_empty d = (case d of None \<Rightarrow> True
     | Some d \<Rightarrow> ds_MovieRelease d = [] \<and> ds_SeriesPremiere d = [] \<and> ds_SeriesAiring d = [])"

datatype date_error = MustContainRange string | InvalidDateRange string | DateRangesUnsorted string

definition validateAxis :: "string \<Rightarrow> Range list \<Rightarrow> date_error option" where
  "validateAxis field ranges =
     (if list_ex (\<lambda>r. r = any_range \<or> \<not> validYearRange r False) ranges
      then Some (InvalidDateRange field)
      else if ranges \<noteq> [] \<and> \<not> sameRanges ranges (NormalizeRanges ranges)
      then Some (DateRangesUnsorted field) else None)"

text \<open>The error of a scope, if any: the first failing axis in the code's order.\<close>

definition validateDates :: "string \<Rightarrow> DateScope option \<Rightarrow> date_error option" where
  "validateDates field d =
     (case d of None \<Rightarrow> None
      | Some s \<Rightarrow>
          (if dates_empty d then Some (MustContainRange field)
           else (case validateAxis field (ds_MovieRelease s) of
                   Some e \<Rightarrow> Some e
                 | None \<Rightarrow> (case validateAxis field (ds_SeriesPremiere s) of
                     Some e \<Rightarrow> Some e
                   | None \<Rightarrow> validateAxis field (ds_SeriesAiring s)))))"

definition dateContains :: "Range list \<Rightarrow> int \<Rightarrow> bool" where
  "dateContains ranges year =
     (if ranges = [] \<or> year = 0 then True else list_ex (\<lambda>r. Contains r year) ranges)"

definition movieDateOK :: "ScopePolicy \<Rightarrow> int \<Rightarrow> bool" where
  "movieDateOK s year = (case sc_Dates s of None \<Rightarrow> True | Some d \<Rightarrow> dateContains (ds_MovieRelease d) year)"

definition seriesPremiereDateOK :: "ScopePolicy \<Rightarrow> int \<Rightarrow> bool" where
  "seriesPremiereDateOK s year =
     (case sc_Dates s of None \<Rightarrow> True | Some d \<Rightarrow> dateContains (ds_SeriesPremiere d) year)"

definition seriesAiringDateOK :: "ScopePolicy \<Rightarrow> int \<Rightarrow> bool" where
  "seriesAiringDateOK s year =
     (case sc_Dates s of None \<Rightarrow> True | Some d \<Rightarrow> dateContains (ds_SeriesAiring d) year)"

definition FillerEraWindows :: "ScopePolicy \<Rightarrow> Range list" where
  "FillerEraWindows s =
     (case sc_Dates s of None \<Rightarrow> []
      | Some d \<Rightarrow> NormalizeRanges
          (ds_MovieRelease d @ (if ds_SeriesAiring d \<noteq> [] then ds_SeriesAiring d else ds_SeriesPremiere d)))"

subsection \<open>The era alias (datescope.go)\<close>

definition EraDates :: "Range \<Rightarrow> DateScope option" where
  "EraDates r =
     (if r = any_range then None
      else Some \<lparr>ds_MovieRelease = [r], ds_SeriesPremiere = [r], ds_SeriesAiring = [r]\<rparr>)"

definition Era :: "DateScope option \<Rightarrow> Range option" where
  "Era d =
     (case d of None \<Rightarrow> None
      | Some s \<Rightarrow>
          (if length (ds_MovieRelease s) \<noteq> 1 \<or> \<not> sameRanges (ds_MovieRelease s) (ds_SeriesPremiere s)
              \<or> \<not> sameRanges (ds_MovieRelease s) (ds_SeriesAiring s)
           then None else Some (ds_MovieRelease s ! 0)))"

definition intersectRange :: "Range \<Rightarrow> Range \<Rightarrow> Range \<times> bool" where
  "intersectRange a b =
     (let from = max (rg_From a) (rg_From b);
          upto = (if rg_To a = 0 then rg_To b else if rg_To b = 0 then rg_To a
                  else min (rg_To a) (rg_To b))
      in (\<lparr>rg_From = from, rg_To = upto\<rparr>, upto = 0 \<or> from \<le> upto))"

definition clip :: "Range \<Rightarrow> Range list \<Rightarrow> Range list" where
  "clip era ranges =
     (if ranges = [] then [era]
      else
        (let out = map fst (filter snd (map (\<lambda>r. intersectRange r era) ranges))
         in if out = [] then [era] else NormalizeRanges out))"

definition withEra :: "DateScope option \<Rightarrow> Range \<Rightarrow> DateScope option" where
  "withEra d era =
     (case d of None \<Rightarrow> EraDates era
      | Some s \<Rightarrow> Some \<lparr>ds_MovieRelease = clip era (ds_MovieRelease s),
                       ds_SeriesPremiere = clip era (ds_SeriesPremiere s),
                       ds_SeriesAiring = clip era (ds_SeriesAiring s)\<rparr>)"

definition datesEqual :: "DateScope option \<Rightarrow> DateScope option \<Rightarrow> bool" where
  "datesEqual a b =
     (case (a, b) of
        (Some x, Some y) \<Rightarrow> sameRanges (ds_MovieRelease x) (ds_MovieRelease y) \<and>
          sameRanges (ds_SeriesPremiere x) (ds_SeriesPremiere y) \<and>
          sameRanges (ds_SeriesAiring x) (ds_SeriesAiring y)
      | (None, None) \<Rightarrow> True
      | _ \<Rightarrow> False)"

text \<open>
  \<^verbatim>\<open>ScopePolicy.UnmarshalJSON\<close> after the JSON library has decoded the object: the plain scope and the
  optional retired \<^verbatim>\<open>era\<close> member.
\<close>

definition ScopePolicy_decode :: "ScopePolicy \<Rightarrow> Range option \<Rightarrow> ScopePolicy" where
  "ScopePolicy_decode plain era =
     (case era of None \<Rightarrow> plain
      | Some r \<Rightarrow>
          (if r = any_range then plain
           else plain\<lparr>sc_eraAndDates := sc_Dates plain \<noteq> None, sc_Dates := withEra (sc_Dates plain) r\<rparr>))"

definition FillerEra :: "ScopePolicy \<Rightarrow> Range option \<times> Range list" where
  "FillerEra s =
     (case FillerEraWindows s of
        [] \<Rightarrow> (None, [])
      | [w] \<Rightarrow> (Some w, [])
      | ws \<Rightarrow> (None, ws))"

subsection \<open>Which years the operations admit\<close>

definition covers :: "Range list \<Rightarrow> int \<Rightarrow> bool" where
  "covers rs v \<longleftrightarrow> (\<exists>r\<in>set rs. Contains r v)"

definition upper_nonneg :: "Range list \<Rightarrow> bool" where
  "upper_nonneg rs \<longleftrightarrow> (\<forall>r\<in>set rs. 0 \<le> rg_To r)"

lemma covers_Cons [simp]: "covers (r # rs) v \<longleftrightarrow> Contains r v \<or> covers rs v"
  by (simp add: covers_def)

lemma covers_Nil [simp]: "\<not> covers [] v"
  by (simp add: covers_def)

lemma upper_nonneg_Cons [simp]: "upper_nonneg (r # rs) \<longleftrightarrow> 0 \<le> rg_To r \<and> upper_nonneg rs"
  by (simp add: upper_nonneg_def)

abbreviation from_sorted :: "Range list \<Rightarrow> bool" where
  "from_sorted \<equiv> sorted_wrt (\<lambda>a b. rg_From a \<le> rg_From b)"

lemma weak_order_range_before: "weak_order range_before"
  by (rule weak_orderI) (auto simp: range_before_def split: if_splits)

lemma sort_by_from_sorted: "from_sorted (sort_by range_before rs)"
proof -
  have "sorted_wrt (\<lambda>a b. \<not> range_before b a) (sort_by range_before rs)"
    by (rule sorted_sort_by [OF weak_order_range_before])
  then show ?thesis
    by (rule sorted_wrt_mono_rel [rotated]) (auto simp: range_before_def split: if_splits)
qed

lemma merge_covers:
  assumes "0 \<le> rg_To cur" "0 \<le> rg_To r" "rg_From cur \<le> rg_From r"
    and "\<not> (rg_To cur \<noteq> 0 \<and> rg_From r > rg_To cur + 1)"
  shows "(rg_To cur \<noteq> 0 \<and> (rg_To r = 0 \<or> rg_To r > rg_To cur) \<longrightarrow>
            Contains (cur\<lparr>rg_To := rg_To r\<rparr>) v = (Contains cur v \<or> Contains r v)) \<and>
         (\<not> (rg_To cur \<noteq> 0 \<and> (rg_To r = 0 \<or> rg_To r > rg_To cur)) \<longrightarrow>
            Contains cur v = (Contains cur v \<or> Contains r v))"
  using assms by (auto simp: Contains_def)

lemma coalesce_covers:
  "from_sorted (cur # rs) \<Longrightarrow> upper_nonneg (cur # rs) \<Longrightarrow> covers (coalesce cur rs) v = covers (cur # rs) v"
proof (induction cur rs rule: coalesce.induct)
  case (1 cur)
  then show ?case by simp
next
  case (2 cur r rs)
  have "0 \<le> rg_To cur" "0 \<le> rg_To r" "rg_From cur \<le> rg_From r" using 2(4,5) by auto
  note merge = merge_covers [OF this, of v]
  consider (apart) "rg_To cur \<noteq> 0 \<and> rg_From r > rg_To cur + 1"
    | (grow) "\<not> (rg_To cur \<noteq> 0 \<and> rg_From r > rg_To cur + 1)"
        "rg_To cur \<noteq> 0 \<and> (rg_To r = 0 \<or> rg_To r > rg_To cur)"
    | (absorb) "\<not> (rg_To cur \<noteq> 0 \<and> rg_From r > rg_To cur + 1)"
        "\<not> (rg_To cur \<noteq> 0 \<and> (rg_To r = 0 \<or> rg_To r > rg_To cur))" by blast
  then show ?case
  proof cases
    case apart
    then show ?thesis using 2(1) 2(4,5) by simp
  next
    case grow
    have "covers (coalesce (cur\<lparr>rg_To := rg_To r\<rparr>) rs) v = covers (cur\<lparr>rg_To := rg_To r\<rparr> # rs) v"
      using 2(2) [OF grow] 2(4,5) by simp
    then show ?thesis using merge grow by simp
  next
    case absorb
    have "covers (coalesce cur rs) v = covers (cur # rs) v"
      using 2(3) [OF absorb] 2(4,5) by simp
    moreover have "Contains cur v = (Contains cur v \<or> Contains r v)" using merge absorb by blast
    ultimately show ?thesis using absorb by auto
  qed
qed

lemma NormalizeRanges_covers_aux:
  assumes "upper_nonneg rs"
  shows "covers (NormalizeRanges rs) v = covers rs v"
proof (cases "sort_by range_before rs")
  case Nil
  then have "set rs = {}" using set_sort_by [of range_before rs] by simp
  then show ?thesis using Nil by (simp add: NormalizeRanges_def)
next
  case (Cons c cs)
  have "set (c # cs) = set rs" using set_sort_by [of range_before rs] Cons by simp
  then have "upper_nonneg (c # cs)" "covers (c # cs) v = covers rs v"
    using assms unfolding upper_nonneg_def covers_def by simp_all
  moreover have "from_sorted (c # cs)" using sort_by_from_sorted [of rs] Cons by simp
  ultimately show ?thesis
    using coalesce_covers [of c cs v] Cons by (simp add: NormalizeRanges_def)
qed

text \<open>
  Normalising a list of year windows keeps exactly its years: a year lies in one of the normalised
  windows if and only if it lies in one of the given ones, whatever their order, overlap or open ends.
\<close>

theorem NormalizeRanges_covers:
  assumes "upper_nonneg rs"
  shows "covers (NormalizeRanges rs) v = covers rs v"
  using assms by (rule NormalizeRanges_covers_aux)

theorem NormalizeRanges_covers_witness:
  "covers (NormalizeRanges [\<lparr>rg_From = 1990, rg_To = 0\<rparr>, \<lparr>rg_From = 1970, rg_To = 1979\<rparr>]) 1975 \<and>
   \<not> covers (NormalizeRanges [\<lparr>rg_From = 1990, rg_To = 0\<rparr>, \<lparr>rg_From = 1970, rg_To = 1979\<rparr>]) 1985"
proof -
  have "upper_nonneg [\<lparr>rg_From = 1990, rg_To = 0\<rparr>, \<lparr>rg_From = 1970, rg_To = 1979\<rparr>]"
    by (simp add: upper_nonneg_def)
  from NormalizeRanges_covers [OF this] show ?thesis
    by (simp add: covers_def Contains_def)
qed

abbreviation separated :: "Range list \<Rightarrow> bool" where
  "separated \<equiv> sorted_wrt (\<lambda>a b. rg_To a \<noteq> 0 \<and> rg_From b > rg_To a + 1)"

lemma coalesce_head: "\<exists>c cs. coalesce cur rs = c # cs \<and> rg_From c = rg_From cur"
  by (induction cur rs rule: coalesce.induct) auto

text \<open>Induction along the loop: the next window starts apart, or is merged into the current one.\<close>

lemma coalesce_sorted_induct [consumes 1, case_names last apart merge]:
  assumes "from_sorted (cur # rs)"
    and "\<And>cur. P cur [cur]"
    and "\<And>cur r rs. from_sorted (r # rs) \<Longrightarrow> rg_From cur \<le> rg_From r \<Longrightarrow> rg_To cur \<noteq> 0 \<Longrightarrow>
           rg_From r > rg_To cur + 1 \<Longrightarrow> P r (coalesce r rs) \<Longrightarrow> P cur (cur # coalesce r rs)"
    and "\<And>cur cs upto. P (cur\<lparr>rg_To := upto\<rparr>) cs \<Longrightarrow> P cur cs"
  shows "P cur (coalesce cur rs)"
  using assms(1)
proof (induction cur rs rule: coalesce.induct)
  case (1 cur)
  then show ?case using assms(2) by simp
next
  case (2 cur r rs)
  let ?apart = "rg_To cur \<noteq> 0 \<and> rg_From r > rg_To cur + 1"
  let ?grow = "rg_To cur \<noteq> 0 \<and> (rg_To r = 0 \<or> rg_To r > rg_To cur)"
  have le: "rg_From cur \<le> rg_From r" using 2(4) by simp
  show ?case
  proof (cases ?apart)
    case True
    then show ?thesis using assms(3) [of r rs cur] le 2(1) [OF True] 2(4) by simp
  next
    case False
    show ?thesis
    proof (cases ?grow)
      case True
      then show ?thesis
        using False assms(4) [where cur = cur and upto = "rg_To r"] 2(2) [OF False True] 2(4) by simp
    next
      case noGrow: False
      then show ?thesis
        using False assms(4) [where cur = cur and upto = "rg_To cur"] 2(3) [OF False noGrow] 2(4) by auto
    qed
  qed
qed

lemma coalesce_shape:
  assumes "from_sorted (cur # rs)"
  shows "(\<forall>r\<in>set (coalesce cur rs). rg_From cur \<le> rg_From r) \<and> separated (coalesce cur rs) \<and>
         from_sorted (coalesce cur rs)"
  using assms
proof (induction rule: coalesce_sorted_induct)
  case (last cur)
  then show ?case by simp
next
  case (apart cur r rs)
  then show ?case by force
next
  case (merge cur cs upto)
  then show ?case by simp
qed

lemma coalesce_fixed: "separated (cur # rs) \<Longrightarrow> coalesce cur rs = cur # rs"
  by (induction rs arbitrary: cur) auto

lemma NormalizeRanges_separated: "separated (NormalizeRanges rs) \<and> from_sorted (NormalizeRanges rs)"
proof (cases "sort_by range_before rs")
  case Nil
  then show ?thesis by (simp add: NormalizeRanges_def)
next
  case (Cons c cs)
  then have "from_sorted (c # cs)" using sort_by_from_sorted [of rs] by simp
  from coalesce_shape [OF this] Cons show ?thesis by (simp add: NormalizeRanges_def)
qed

definition proper :: "Range list \<Rightarrow> bool" where
  "proper rs \<longleftrightarrow> (\<forall>r\<in>set rs. rg_To r = 0 \<or> rg_From r \<le> rg_To r)"

lemma proper_Cons: "proper (r # rs) \<longleftrightarrow> (rg_To r = 0 \<or> rg_From r \<le> rg_To r) \<and> proper rs"
  by (simp add: proper_def)

lemma strictly_from_sorted:
  assumes "separated rs" "from_sorted rs" "proper rs"
  shows "sorted_wrt (\<lambda>a b. \<not> range_before b a) rs"
  using assms
proof (induction rs)
  case (Cons r rs)
  have "\<not> range_before b r" if "b \<in> set rs" for b
    using Cons.prems that by (fastforce simp: range_before_def proper_def)
  with Cons show ?case by (auto simp: proper_def)
qed simp

lemma coalesce_proper: "from_sorted (cur # rs) \<Longrightarrow> proper (cur # rs) \<Longrightarrow> proper (coalesce cur rs)"
proof (induction cur rs rule: coalesce.induct)
  case (1 cur)
  then show ?case by simp
next
  case (2 cur r rs)
  let ?apart = "rg_To cur \<noteq> 0 \<and> rg_From r > rg_To cur + 1"
  let ?grow = "rg_To cur \<noteq> 0 \<and> (rg_To r = 0 \<or> rg_To r > rg_To cur)"
  consider ?apart | "\<not> ?apart" ?grow | "\<not> ?apart" "\<not> ?grow" by blast
  then show ?case
  proof cases
    case 1
    have "proper (coalesce r rs)" using "2.IH"(1) [OF 1] "2.prems" by (simp add: proper_Cons)
    moreover have "coalesce cur (r # rs) = cur # coalesce r rs"
      by (simp only: coalesce.simps(2) if_P [OF 1])
    ultimately show ?thesis using "2.prems"(2) by (simp only: proper_Cons simp_thms)
  next
    case 2
    have "rg_To r = 0 \<or> rg_From cur \<le> rg_To r" using "2.prems" by (auto simp: proper_Cons)
    then have "proper (coalesce (cur\<lparr>rg_To := rg_To r\<rparr>) rs)"
      using "2.IH"(2) [OF 2] "2.prems" by (simp add: proper_Cons)
    then show ?thesis using 2 by (metis coalesce.simps(2))
  next
    case 3
    have "proper (coalesce cur rs)" using "2.IH"(3) [OF 3] "2.prems" by (simp add: proper_Cons)
    then show ?thesis using 3 by (metis coalesce.simps(2))
  qed
qed

text \<open>
  The normal form is canonical: over proper windows the result is in order with a gap of at least
  one year between neighbours and only the last window open above, and normalising it again changes
  nothing, so a stored normal form always passes the policy's sorted-and-disjoint check.
\<close>

lemma NormalizeRanges_canonical:
  assumes "proper rs"
  shows "separated (NormalizeRanges rs) \<and>
         sameRanges (NormalizeRanges rs) (NormalizeRanges (NormalizeRanges rs))"
proof (cases "sort_by range_before rs")
  case Nil
  then show ?thesis by (simp add: NormalizeRanges_def sameRanges_def)
next
  case (Cons c cs)
  then have norm: "NormalizeRanges rs = coalesce c cs" by (simp add: NormalizeRanges_def)
  have set: "set (c # cs) = set rs" using set_sort_by [of range_before rs] Cons by simp
  have "from_sorted (c # cs)" using sort_by_from_sorted [of rs] Cons by simp
  moreover have "proper (c # cs)" using assms set by (simp add: proper_def)
  ultimately have "proper (coalesce c cs)" by (rule coalesce_proper)
  then have "sort_by range_before (coalesce c cs) = coalesce c cs"
    using NormalizeRanges_separated [of rs] strictly_from_sorted [of "coalesce c cs"]
    by (simp add: norm sort_by_sorted)
  moreover obtain d ds where d: "coalesce c cs = d # ds" using coalesce_head by blast
  moreover have "coalesce d ds = d # ds"
    using NormalizeRanges_separated [of rs] by (simp add: norm d coalesce_fixed)
  ultimately have "NormalizeRanges (coalesce c cs) = coalesce c cs"
    by (simp add: NormalizeRanges_def [of "d # ds"] del: sort_by_Cons)
  then show ?thesis using NormalizeRanges_separated [of rs] by (simp add: norm sameRanges_def)
qed

lemma separated_fixed:
  assumes "proper rs" and "separated rs"
  shows "NormalizeRanges rs = rs"
proof (cases rs)
  case (Cons r rest)
  have "from_sorted rs"
    by (rule sorted_wrt_mono_rel [OF _ assms(2)]) (use assms(1) in \<open>force simp: proper_def\<close>)
  then have "sort_by range_before rs = rs" using strictly_from_sorted assms by (intro sort_by_sorted) blast
  then show ?thesis using assms(2) coalesce_fixed Cons by (simp add: NormalizeRanges_def)
qed (simp add: NormalizeRanges_def)

text \<open>A year window the policy takes: bounded on a side, within 1900 to 2099, not backwards.\<close>

definition window_ok :: "Range \<Rightarrow> bool" where
  "window_ok r \<longleftrightarrow> r \<noteq> any_range \<and>
     (rg_From r = 0 \<or> 1900 \<le> rg_From r \<and> rg_From r \<le> 2099) \<and> (rg_To r = 0 \<or> 1900 \<le> rg_To r \<and> rg_To r \<le> 2099) \<and>
     (rg_From r = 0 \<or> rg_To r = 0 \<or> rg_From r \<le> rg_To r)"

definition axis_ok :: "Range list \<Rightarrow> bool" where
  "axis_ok rs \<longleftrightarrow> list_all window_ok rs \<and> separated rs"

lemma validYearRange_window: "r \<noteq> any_range \<and> validYearRange r False \<longleftrightarrow> window_ok r"
  by (auto simp: validYearRange_def window_ok_def)

lemma validateAxis_exact:
  "validateAxis field rs =
     (if \<not> list_all window_ok rs then Some (InvalidDateRange field)
      else if \<not> separated rs then Some (DateRangesUnsorted field) else None)"
proof -
  have ok: "list_ex (\<lambda>r. r = any_range \<or> \<not> validYearRange r False) rs \<longleftrightarrow> \<not> list_all window_ok rs"
    using validYearRange_window by (auto simp: list_ex_iff list_all_iff)
  have "sameRanges rs (NormalizeRanges rs) \<longleftrightarrow> separated rs" if "list_all window_ok rs"
  proof -
    have "proper rs" using that by (fastforce simp: proper_def list_all_iff window_ok_def)
    then have "separated rs \<Longrightarrow> NormalizeRanges rs = rs" by (rule separated_fixed)
    moreover have "rs = NormalizeRanges rs \<Longrightarrow> separated rs" using NormalizeRanges_separated [of rs] by (simp del: sorted_wrt.simps)
    ultimately show ?thesis unfolding sameRanges_def by (metis (no_types))
  qed
  then show ?thesis unfolding validateAxis_def ok by (cases "rs = []") simp_all
qed

text \<open>
  C40. A date scope is refused for exactly the reasons it should be: the validator accepts a scope that
  names windows on some axis when every axis has only bounded windows of years 1900 to 2099 that run
  forwards, in order and with a year between neighbours; otherwise the error is the first failing
  axis', which tells a bad window from windows out of order.
\<close>

theorem validateDates_exact:
  "validateDates field (Some s) =
     (let axes = [ds_MovieRelease s, ds_SeriesPremiere s, ds_SeriesAiring s]
      in if list_all (\<lambda>rs. rs = []) axes then Some (MustContainRange field)
         else case find (\<lambda>rs. \<not> axis_ok rs) axes of
                None \<Rightarrow> None
              | Some rs \<Rightarrow> Some (if list_all window_ok rs then DateRangesUnsorted field else InvalidDateRange field))"
  by (simp add: validateDates_def dates_empty_def validateAxis_exact axis_ok_def)

lemma intersectRange_contains:
  assumes "0 \<le> rg_From a" "0 \<le> rg_To a" "0 \<le> rg_From b" "0 \<le> rg_To b"
  shows "(if snd (intersectRange a b) then Contains (fst (intersectRange a b)) v else False) =
         (Contains a v \<and> Contains b v)"
  using assms by (auto simp: intersectRange_def Contains_def Let_def)

lemma intersectRange_nonneg:
  "0 \<le> rg_To a \<Longrightarrow> 0 \<le> rg_To b \<Longrightarrow> 0 \<le> rg_To (fst (intersectRange a b))"
  by (auto simp: intersectRange_def Let_def)

definition nonneg_range :: "Range \<Rightarrow> bool" where
  "nonneg_range r \<longleftrightarrow> 0 \<le> rg_From r \<and> 0 \<le> rg_To r"

definition nonneg_scope :: "DateScope \<Rightarrow> bool" where
  "nonneg_scope d \<longleftrightarrow> list_all nonneg_range (ds_MovieRelease d) \<and>
     list_all nonneg_range (ds_SeriesPremiere d) \<and> list_all nonneg_range (ds_SeriesAiring d)"

text \<open>What an axis admits after the era has been folded into it.\<close>

definition axis_after_era :: "Range \<Rightarrow> Range list \<Rightarrow> int \<Rightarrow> bool" where
  "axis_after_era era ranges v \<longleftrightarrow>
     v = 0 \<or>
     (Contains era v \<and>
      (if \<exists>r\<in>set ranges. snd (intersectRange r era) then dateContains ranges v else True))"

lemma covers_clip:
  assumes "list_all nonneg_range ranges" "nonneg_range era" "ranges \<noteq> []"
    and "\<exists>r\<in>set ranges. snd (intersectRange r era)"
  shows "covers (clip era ranges) v \<longleftrightarrow> covers ranges v \<and> Contains era v"
proof -
  let ?out = "map fst (filter snd (map (\<lambda>r. intersectRange r era) ranges))"
  have "?out \<noteq> []" using assms(4) by (auto simp: filter_empty_conv)
  then have "clip era ranges = NormalizeRanges ?out" using assms(3) by (simp add: clip_def Let_def)
  moreover have "upper_nonneg ?out"
    unfolding upper_nonneg_def
  proof
    fix x assume "x \<in> set ?out"
    then obtain r where "r \<in> set ranges" "x = fst (intersectRange r era)" by force
    then show "0 \<le> rg_To x"
      using assms(1,2) by (simp add: list_all_iff nonneg_range_def intersectRange_nonneg)
  qed
  ultimately have "covers (clip era ranges) v = covers ?out v"
    by (simp add: NormalizeRanges_covers_aux)
  also have "\<dots> = (\<exists>r\<in>set ranges. if snd (intersectRange r era) then Contains (fst (intersectRange r era)) v else False)"
    by (auto simp: covers_def)
  also have "\<dots> = (\<exists>r\<in>set ranges. Contains r v \<and> Contains era v)"
    using assms(1,2) by (intro bex_cong refl intersectRange_contains)
      (auto simp: list_all_iff nonneg_range_def)
  finally show ?thesis by (auto simp: covers_def)
qed

lemma NormalizeRanges_not_Nil [simp]: "NormalizeRanges rs = [] \<longleftrightarrow> rs = []"
proof (cases "sort_by range_before rs")
  case Nil
  then show ?thesis using length_sort_by [of range_before rs] by (simp add: NormalizeRanges_def)
next
  case (Cons c cs)
  then show ?thesis using coalesce_head [of c cs] length_sort_by [of range_before rs]
    by (auto simp: NormalizeRanges_def)
qed

lemma clip_not_Nil [simp]: "clip era ranges \<noteq> []"
  by (auto simp: clip_def Let_def)

lemma dateContains_covers: "ranges \<noteq> [] \<Longrightarrow> dateContains ranges v \<longleftrightarrow> v = 0 \<or> covers ranges v"
  by (auto simp: dateContains_def covers_def list_ex_iff)

lemma clip_axis:
  assumes "list_all nonneg_range ranges" "nonneg_range era"
  shows "dateContains (clip era ranges) v = axis_after_era era ranges v"
proof (cases "\<exists>r\<in>set ranges. snd (intersectRange r era)")
  case True
  then have "ranges \<noteq> []" by auto
  then show ?thesis
    using covers_clip [OF assms \<open>ranges \<noteq> []\<close> True, of v] True
    by (auto simp: dateContains_covers axis_after_era_def)
next
  case False
  then have "clip era ranges = [era]"
    by (auto simp: clip_def Let_def filter_empty_conv)
  then show ?thesis using False by (auto simp: dateContains_covers axis_after_era_def)
qed

text \<open>
  Folding the retired era into a stored scope narrows every axis to the era: after decoding, a
  year (other than unknown, 0) is admitted on an axis exactly when the era contains it and the axis'
  own windows do, except that windows which all miss the era give way to it. A scope with no windows
  of its own admits the era on all three axes.
\<close>

theorem ScopePolicy_decode_years:
  assumes "sc_Dates plain = Some d" and "nonneg_scope d" and "nonneg_range era"
  shows "movieDateOK (ScopePolicy_decode plain (Some era)) v =
           (if era = any_range then dateContains (ds_MovieRelease d) v
            else axis_after_era era (ds_MovieRelease d) v) \<and>
         seriesPremiereDateOK (ScopePolicy_decode plain (Some era)) v =
           (if era = any_range then dateContains (ds_SeriesPremiere d) v
            else axis_after_era era (ds_SeriesPremiere d) v) \<and>
         seriesAiringDateOK (ScopePolicy_decode plain (Some era)) v =
           (if era = any_range then dateContains (ds_SeriesAiring d) v
            else axis_after_era era (ds_SeriesAiring d) v)"
  using assms(2,3) clip_axis
  by (simp add: ScopePolicy_decode_def movieDateOK_def seriesPremiereDateOK_def seriesAiringDateOK_def
      withEra_def assms(1) nonneg_scope_def)

definition sample_dates :: DateScope where
  "sample_dates = \<lparr>ds_MovieRelease = [\<lparr>rg_From = 1975, rg_To = 1985\<rparr>], ds_SeriesPremiere = [],
                   ds_SeriesAiring = [\<lparr>rg_From = 2001, rg_To = 0\<rparr>]\<rparr>"

abbreviation eighties :: Range where "eighties \<equiv> \<lparr>rg_From = 1980, rg_To = 1989\<rparr>"

theorem ScopePolicy_decode_years_witness:
  "let decoded = ScopePolicy_decode (empty_scope\<lparr>sc_Dates := Some sample_dates\<rparr>) (Some eighties)
   in \<not> movieDateOK decoded 1978 \<and> movieDateOK decoded 1983 \<and> \<not> seriesPremiereDateOK decoded 1990 \<and>
      seriesAiringDateOK decoded 1982"
proof -
  have "nonneg_scope sample_dates" "nonneg_range eighties"
    by (simp_all add: nonneg_scope_def nonneg_range_def sample_dates_def)
  note years = ScopePolicy_decode_years [of "empty_scope\<lparr>sc_Dates := Some sample_dates\<rparr>", OF _ this]
  show ?thesis
    using years [of 1978] years [of 1983] years [of 1990] years [of 1982]
    by (simp add: Let_def axis_after_era_def sample_dates_def intersectRange_def Contains_def
        dateContains_def)
qed

text \<open>The two directions of the era shortcut.\<close>

lemma Era_EraDates: "Era (EraDates r) = (if r = any_range then None else Some r)"
  by (simp add: Era_def EraDates_def sameRanges_def)

lemma EraDates_Era:
  assumes "Era (Some s) = Some r" and "r \<noteq> any_range"
  shows "EraDates r = Some s"
proof -
  have len: "length (ds_MovieRelease s) = 1"
    and prem: "ds_SeriesPremiere s = ds_MovieRelease s" and air: "ds_SeriesAiring s = ds_MovieRelease s"
    and hd: "ds_MovieRelease s ! 0 = r"
    using assms(1) by (auto simp: Era_def sameRanges_def split: if_splits)
  from len hd have "ds_MovieRelease s = [r]" by (cases "ds_MovieRelease s") auto
  then show ?thesis using assms(2) prem air by (simp add: EraDates_def)
qed

end
