(* ===== verification/Phrase.thy ===== *)
theory Phrase
  imports Prelude "HOL-Library.Sublist"
begin

text \<open>
  Whole-phrase matching, \<^verbatim>\<open>internal/textmatch/phrase.go\<close>. The Unicode folding of the text
  (\<^verbatim>\<open>norm.NFKC\<close> around \<^verbatim>\<open>cases.Fold\<close>, a third-party package) is the parameter \<open>fold_text\<close> of the
  definitions that use it; the word separators are \<^verbatim>\<open>normalize\<close>'s on ASCII bytes, and a byte of a
  longer encoding counts as part of a word. The lemmas show that matching on the joined strings is
  matching on the word sequences, and that masking the excluded phrases always ends.
\<close>

definition is_word_char :: "char \<Rightarrow> bool" where
  "is_word_char c \<longleftrightarrow>
     (97 \<le> byte_of c \<and> byte_of c \<le> 122) \<or> (65 \<le> byte_of c \<and> byte_of c \<le> 90) \<or>
     is_digit c \<or> 128 \<le> byte_of c"

text \<open>\<^verbatim>\<open>strings.FieldsFunc\<close> and \<^verbatim>\<open>strings.Join\<close>.\<close>

fun fields :: "string \<Rightarrow> string list" where
  "fields [] = []"
| "fields (c # cs) =
     (if \<not> is_word_char c then fields cs
      else (case cs of
              [] \<Rightarrow> [[c]]
            | d # ds \<Rightarrow>
                (if \<not> is_word_char d then [c] # fields cs
                 else (case fields cs of [] \<Rightarrow> [[c]] | w # ws \<Rightarrow> (c # w) # ws))))"

fun join :: "string \<Rightarrow> string list \<Rightarrow> string" where
  "join sep [] = []"
| "join sep [w] = w"
| "join sep (w # v # ws) = w @ sep @ join sep (v # ws)"

definition normalize :: "(string \<Rightarrow> string) \<Rightarrow> string \<Rightarrow> string" where
  "normalize fold_text text = join '' '' (fields (fold_text text))"

definition strings_Contains :: "string \<Rightarrow> string \<Rightarrow> bool" where
  "strings_Contains s sub \<longleftrightarrow> sublist sub s"

definition ContainsPhrase :: "(string \<Rightarrow> string) \<Rightarrow> string \<Rightarrow> string \<Rightarrow> bool" where
  "ContainsPhrase fold_text text phrase =
     (let text = normalize fold_text text; phrase = normalize fold_text phrase
      in phrase \<noteq> '''' \<and> strings_Contains ('' '' @ text @ '' '') ('' '' @ phrase @ '' ''))"

text \<open>\<^verbatim>\<open>strings.ReplaceAll\<close> of a non-empty string: left to right, without overlaps.\<close>

function replace_all :: "string \<Rightarrow> string \<Rightarrow> string \<Rightarrow> string" where
  "replace_all s old new =
     (if old = [] then s
      else (case s of [] \<Rightarrow> []
            | c # cs \<Rightarrow> (if has_prefix s old then new @ replace_all (drop (length old) s) old new
                      else c # replace_all cs old new)))"
  by pat_completeness auto
termination by (relation "measure (\<lambda>(s, _, _). length s)") auto

declare replace_all.simps [simp del]

abbreviation mask :: string where "mask \<equiv> [CHR '' '', CHR 0x00, CHR '' '']"

definition plain :: "char \<Rightarrow> bool" where
  "plain c \<longleftrightarrow> c \<noteq> CHR '' '' \<and> c \<noteq> CHR 0x00"

lemma prefix_count: "has_prefix s p \<Longrightarrow>
   length (filter plain s) = length (filter plain p) + length (filter plain (drop (length p) s))"
  unfolding has_prefix_def by (metis append_take_drop_id filter_append length_append)

lemma replace_all_eqs:
  "replace_all [] old new = []"
  "old \<noteq> [] \<Longrightarrow> has_prefix (c # cs) old \<Longrightarrow>
     replace_all (c # cs) old new = new @ replace_all (drop (length old) (c # cs)) old new"
  "old \<noteq> [] \<Longrightarrow> \<not> has_prefix (c # cs) old \<Longrightarrow> replace_all (c # cs) old new = c # replace_all cs old new"
  by (simp_all add: replace_all.simps [of "[]"] replace_all.simps [of "c # cs"])

lemma mask_plain [simp]: "filter plain mask = []"
  by (simp add: plain_def)

lemma replace_all_count:
  assumes "old \<noteq> []"
  shows "length (filter plain (replace_all s old mask)) \<le> length (filter plain s)"
proof (induction s rule: length_induct)
  case (1 s)
  show ?case
  proof (cases s)
    case Nil
    then show ?thesis by (simp add: replace_all_eqs)
  next
    case (Cons c cs)
    show ?thesis
    proof (cases "has_prefix s old")
      case True
      have "length (drop (length old) s) < length s" using assms Cons by simp
      with 1 have "length (filter plain (replace_all (drop (length old) s) old mask))
          \<le> length (filter plain (drop (length old) s))" by blast
      moreover have "replace_all s old mask = mask @ replace_all (drop (length old) s) old mask"
        using True assms Cons replace_all_eqs(2) [of old c cs mask] by simp
      ultimately show ?thesis using prefix_count [OF True]
        by (simp only: filter_append mask_plain append_Nil)
    next
      case False
      have "length cs < length s" using Cons by simp
      with 1 have "length (filter plain (replace_all cs old mask)) \<le> length (filter plain cs)" by blast
      then show ?thesis using False assms Cons by (simp add: replace_all_eqs(3))
    qed
  qed
qed

lemma replace_all_less:
  assumes "sublist old s" "list_ex plain old"
  shows "length (filter plain (replace_all s old mask)) < length (filter plain s)"
  using assms(1)
proof (induction s)
  case Nil
  then show ?case using assms(2) by simp
next
  case (Cons c cs)
  have old: "old \<noteq> []" "0 < length (filter plain old)"
    using assms(2) by (auto simp: list_ex_iff filter_empty_conv)
  show ?case
  proof (cases "has_prefix (c # cs) old")
    case True
    then have "replace_all (c # cs) old mask = mask @ replace_all (drop (length old) (c # cs)) old mask"
      using old by (intro replace_all_eqs(2)) auto
    then have "length (filter plain (replace_all (c # cs) old mask))
        = length (filter plain (replace_all (drop (length old) (c # cs)) old mask))"
      by (simp only: filter_append mask_plain append_Nil)
    also have "\<dots> \<le> length (filter plain (drop (length old) (c # cs)))"
      by (rule replace_all_count [OF old(1)])
    finally show ?thesis using prefix_count [OF True] old(2) by linarith
  next
    case False
    then have "\<not> prefix old (c # cs)" by (auto simp: has_prefix_def prefix_def)
    then have "sublist old cs" using Cons.prems by (auto simp: sublist_Cons_right)
    then show ?thesis using Cons.IH False old(1) by (simp add: replace_all_eqs(3))
  qed
qed

text \<open>
  The masking loop. An excluded phrase is normalised and not empty, so it has a plain byte; without
  one the Go loop would not end, and the guard keeps the model total there.
\<close>

function mask_excluded :: "string \<Rightarrow> string \<Rightarrow> string" where
  "mask_excluded text excluded =
     (if strings_Contains text excluded \<and> list_ex plain excluded
      then mask_excluded (replace_all text excluded mask) excluded else text)"
  by pat_completeness auto
termination
  by (relation "measure (\<lambda>(text, _). length (filter plain text))")
    (auto simp: strings_Contains_def replace_all_less)

declare mask_excluded.simps [simp del]

definition ContainsPhraseOutside :: "(string \<Rightarrow> string) \<Rightarrow> string \<Rightarrow> string \<Rightarrow> string list \<Rightarrow> bool" where
  "ContainsPhraseOutside fold_text text phrase excludedPhrases =
     (let text = '' '' @ normalize fold_text text @ '' '';
          phrase = normalize fold_text phrase;
          text = foldl (\<lambda>text ex.
                   (let ex = normalize fold_text ex
                    in if ex = '''' then text else mask_excluded text ('' '' @ ex @ '' '')))
                 text excludedPhrases
      in phrase \<noteq> '''' \<and> strings_Contains text ('' '' @ phrase @ '' ''))"

lemma mask_excluded_gone:
  "list_ex plain ex \<Longrightarrow> \<not> strings_Contains (mask_excluded t ex) ex"
proof (induction t ex rule: mask_excluded.induct)
  case (1 t ex)
  then show ?case
    by (cases "strings_Contains t ex") (simp_all add: mask_excluded.simps [of t ex])
qed

subsection \<open>Matching on words\<close>

definition a_word :: "string \<Rightarrow> bool" where
  "a_word w \<longleftrightarrow> w \<noteq> [] \<and> CHR '' '' \<notin> set w"

text \<open>The joined string with a space on either side, word by word.\<close>

definition spaced :: "string list \<Rightarrow> string" where
  "spaced ws = concat (map (\<lambda>w. CHR '' '' # w) ws) @ '' ''"

lemma spaced_simps [simp]: "spaced [] = '' ''" "spaced (w # ws) = CHR '' '' # w @ spaced ws"
  by (simp_all add: spaced_def)

lemma spaced_hd: "\<exists>r. spaced ws = CHR '' '' # r"
  by (cases ws) auto

lemma spaced_join: "ws \<noteq> [] \<Longrightarrow> '' '' @ join '' '' ws @ '' '' = spaced ws"
  by (induction ws rule: induct_list012) auto

lemma fields_words: "\<forall>w\<in>set (fields s). a_word w"
proof (induction s)
  case (Cons c cs)
  have c: "is_word_char c \<Longrightarrow> c \<noteq> CHR '' ''" by (auto simp: is_word_char_def is_digit_def byte_of_def)
  show ?case
  proof (cases "fields cs")
    case Nil
    then show ?thesis using c by (cases "is_word_char c") (auto simp: a_word_def split: list.split)
  next
    case (Cons w ws)
    then have "a_word w" "\<forall>w\<in>set ws. a_word w" using Cons.IH by simp_all
    then show ?thesis using c Cons
      by (cases "is_word_char c") (auto simp: a_word_def split: list.split)
  qed
qed simp

lemma space_split:
  assumes "CHR '' '' \<notin> set v" "CHR '' '' \<notin> set w" "prefix (v @ CHR '' '' # x) (w @ CHR '' '' # y)"
  shows "v = w \<and> prefix x y"
  using assms
proof (induction v arbitrary: w)
  case Nil
  then show ?case by (cases w) auto
next
  case (Cons c v)
  then show ?case by (cases w) auto
qed

lemma prefix_spaced:
  assumes "\<forall>w\<in>set vs. a_word w" "\<forall>w\<in>set ws. a_word w" "prefix (spaced vs) (spaced ws)"
  shows "prefix vs ws"
  using assms
proof (induction vs arbitrary: ws)
  case Nil
  then show ?case by simp
next
  case (Cons v vs)
  then obtain w ws' where ws: "ws = w # ws'"
    by (cases ws) (auto simp: a_word_def)
  obtain x where x: "spaced vs = CHR '' '' # x" using spaced_hd by blast
  obtain y where y: "spaced ws' = CHR '' '' # y" using spaced_hd by blast
  have "v = w \<and> prefix x y"
    using Cons.prems by (intro space_split) (auto simp: ws x y a_word_def)
  then show ?case using Cons.IH [of ws'] Cons.prems by (simp add: ws x y)
qed

lemma sublist_space_tail:
  "CHR '' '' \<notin> set w \<Longrightarrow> sublist (CHR '' '' # x) (w @ s) \<Longrightarrow> sublist (CHR '' '' # x) s"
  by (induction w) (auto simp: sublist_Cons_right)

lemma sublist_spaced_back:
  assumes "\<forall>w\<in>set vs. a_word w" "\<forall>w\<in>set ws. a_word w" "sublist (spaced vs) (spaced ws)" "vs \<noteq> []"
  shows "sublist vs ws"
  using assms(2,3)
proof (induction ws)
  case Nil
  obtain v vs' where "vs = v # vs'" using assms(4) by (cases vs) auto
  then have "length (spaced vs) > 1" using spaced_hd [of vs'] by auto
  then show ?case using Nil.prems(2) by (auto dest!: sublist_length_le)
next
  case (Cons w ws)
  obtain x where x: "spaced vs = CHR '' '' # x" using spaced_hd by blast
  show ?case
  proof (cases "prefix (spaced vs) (spaced (w # ws))")
    case True
    then have "prefix vs (w # ws)" using prefix_spaced [OF assms(1) Cons.prems(1)] by simp
    then show ?thesis by (rule prefix_imp_sublist)
  next
    case False
    then have "sublist (spaced vs) (w @ spaced ws)"
      using Cons.prems(2) by (simp add: sublist_Cons_right)
    then have "sublist (spaced vs) (spaced ws)"
      using sublist_space_tail [of w x "spaced ws"] Cons.prems(1) by (simp add: x a_word_def)
    then show ?thesis using Cons.IH Cons.prems(1) by (simp add: sublist_Cons_right)
  qed
qed

lemma sublist_spaced_forth: "sublist vs ws \<Longrightarrow> sublist (spaced vs) (spaced ws)"
proof -
  assume "sublist vs ws"
  then obtain as bs where ws: "ws = as @ vs @ bs" by (auto simp: sublist_def)
  obtain r where r: "spaced bs = CHR '' '' # r" using spaced_hd by blast
  have "spaced ws = concat (map (\<lambda>w. CHR '' '' # w) as) @ spaced vs @ r"
    using r by (simp add: spaced_def ws)
  then show "sublist (spaced vs) (spaced ws)" by (auto simp: sublist_def)
qed

lemma join_Nil_iff: "\<forall>w\<in>set ws. a_word w \<Longrightarrow> join '' '' ws = [] \<longleftrightarrow> ws = []"
  by (induction ws rule: induct_list012) (auto simp: a_word_def)

text \<open>
  Phrase matching is whole-word matching: a phrase is found in a text exactly when it has a word
  and its words occur as a contiguous run of the text's words, so a phrase can neither start nor
  end inside a word.
\<close>

theorem ContainsPhrase_words:
  "ContainsPhrase fold_text text phrase \<longleftrightarrow>
     fields (fold_text phrase) \<noteq> [] \<and> sublist (fields (fold_text phrase)) (fields (fold_text text))"
proof (cases "fields (fold_text phrase) = []")
  case True
  then show ?thesis by (simp add: ContainsPhrase_def normalize_def Let_def)
next
  case False
  let ?p = "fields (fold_text phrase)" and ?t = "fields (fold_text text)"
  have p: "'' '' @ join '' '' ?p @ '' '' = spaced ?p" using False by (rule spaced_join)
  have ne: "join '' '' ?p \<noteq> []" using False join_Nil_iff fields_words by blast
  show ?thesis
  proof (cases "?t = []")
    case True
    have "length (spaced ?p) > 2" using p ne by (metis One_nat_def length_append length_greater_0_conv
          length_Cons list.size(3) plus_1_eq_Suc less_add_same_cancel1 add_2_eq_Suc' add.commute)
    then show ?thesis
      using False ne p True sublist_length_le [of "spaced ?p" "''  ''"]
      by (auto simp: ContainsPhrase_def normalize_def Let_def strings_Contains_def)
  next
    case t: False
    have "strings_Contains ('' '' @ join '' '' ?t @ '' '') ('' '' @ join '' '' ?p @ '' '') \<longleftrightarrow> sublist ?p ?t"
      unfolding strings_Contains_def p spaced_join [OF t]
      using sublist_spaced_back [OF fields_words fields_words _ False] sublist_spaced_forth by blast
    then show ?thesis using False ne by (simp add: ContainsPhrase_def normalize_def Let_def)
  qed
qed

end
