(* ===== verification/Civil.thy ===== *)
theory Civil
  imports Prelude
begin

text \<open>
  The proleptic Gregorian calendar as the Go \<^verbatim>\<open>time\<close> package computes it: day numbers counted from
  1 January of year 1, \<^verbatim>\<open>time.Date\<close> with out-of-range months and days carried over, \<^verbatim>\<open>AddDate\<close>,
  \<^verbatim>\<open>Weekday\<close> and the wall clock of a zone. A zone is the function from an instant to its offset
  from UTC in seconds. The lemmas are what the holiday calendar and the window grid use of them.
\<close>

type_synonym zone = "gotime \<Rightarrow> int"

abbreviation day_ns :: int where "day_ns \<equiv> 86400000000000"

text \<open>Seconds from the zero time to the Unix epoch.\<close>

abbreviation unix_origin :: int where "unix_origin \<equiv> 62135596800"

definition leap :: "int \<Rightarrow> bool" where
  "leap y \<longleftrightarrow> y mod 4 = 0 \<and> (y mod 100 \<noteq> 0 \<or> y mod 400 = 0)"

definition year_start :: "int \<Rightarrow> int" where
  "year_start y = 365 * (y - 1) + (y - 1) div 4 - (y - 1) div 100 + (y - 1) div 400"

definition month_start :: "bool \<Rightarrow> int \<Rightarrow> int" where
  "month_start lp m =
     [0, 31, 59, 90, 120, 151, 181, 212, 243, 273, 304, 334, 365] ! nat (m - 1) + (if lp \<and> m > 2 then 1 else 0)"

text \<open>The day number of \<^verbatim>\<open>time.Date(y, m, d, \<dots>)\<close>.\<close>

definition day_number :: "int \<Rightarrow> int \<Rightarrow> int \<Rightarrow> int" where
  "day_number y m d =
     (let y' = y + (m - 1) div 12; m' = (m - 1) mod 12 + 1
      in year_start y' + month_start (leap y') m' + (d - 1))"

definition year_of :: "int \<Rightarrow> int" where
  "year_of n =
     (let r = n mod 146097; n100 = min 3 (r div 36524); r' = r - 36524 * n100;
          n4 = r' div 1461; n1 = min 3 (r' mod 1461 div 365)
      in 400 * (n div 146097) + 100 * n100 + 4 * n4 + n1 + 1)"

definition year_day :: "int \<Rightarrow> int" where
  "year_day n = n - year_start (year_of n)"

definition month_of :: "int \<Rightarrow> int" where
  "month_of n =
     1 + int (length (takeWhile (\<lambda>m. month_start (leap (year_of n)) m \<le> year_day n) [2..12]))"

definition day_of_month :: "int \<Rightarrow> int" where
  "day_of_month n = year_day n - month_start (leap (year_of n)) (month_of n) + 1"

text \<open>Sunday is 0; 1 January of year 1 is a Monday.\<close>

definition weekday :: "int \<Rightarrow> int" where
  "weekday n = (n + 1) mod 7"

definition day_index :: "gotime \<Rightarrow> int" where
  "day_index t = t div day_ns"

definition midnight :: "int \<Rightarrow> gotime" where
  "midnight n = n * day_ns"

definition AddDate :: "gotime \<Rightarrow> int \<Rightarrow> int \<Rightarrow> int \<Rightarrow> gotime" where
  "AddDate t years months days =
     (let n = day_index t
      in midnight (day_number (year_of n + years) (month_of n + months) (day_of_month n + days)) + t mod day_ns)"

text \<open>The wall clock of a zone, read as though it were UTC.\<close>

definition wall_time :: "zone option \<Rightarrow> gotime \<Rightarrow> gotime" where
  "wall_time z t = t + (case z of None \<Rightarrow> 0 | Some off \<Rightarrow> off t * second)"

text \<open>
  \<^verbatim>\<open>time.Date\<close> in a zone: the civil time is first read as UTC, its offset there guessed, and the
  guess corrected once when the instant it gives has another offset.
\<close>

definition zone_instant :: "zone option \<Rightarrow> gotime \<Rightarrow> gotime" where
  "zone_instant z civil =
     (case z of None \<Rightarrow> civil
      | Some off \<Rightarrow>
          (let guess = off civil
           in if guess = 0 then civil
              else (let utc = civil - guess * second; real = off utc
                    in civil - real * second)))"

subsection \<open>The calendar arithmetic\<close>

lemma year_start_parts:
  assumes "0 \<le> b" "b \<le> 3" "0 \<le> c" "c \<le> 24" "0 \<le> d" "d \<le> 3"
  shows "year_start (400 * a + 100 * b + 4 * c + d + 1) = 146097 * a + 36524 * b + 1461 * c + 365 * d"
proof -
  have "(400 * a + 100 * b + 4 * c + d) div 4 = 100 * a + 25 * b + c"
    using assms by (intro int_div_pos_eq [where r = d]) auto
  moreover have "(400 * a + 100 * b + 4 * c + d) div 100 = 4 * a + b"
    using assms by (intro int_div_pos_eq [where r = "4 * c + d"]) auto
  moreover have "(400 * a + 100 * b + 4 * c + d) div 400 = a"
    using assms by (intro int_div_pos_eq [where r = "100 * b + 4 * c + d"]) auto
  ultimately show ?thesis by (simp add: year_start_def)
qed

lemma year_of_split:
  obtains a b c d r where
    "n = 146097 * a + 36524 * b + 1461 * c + 365 * d + r"
    "0 \<le> b" "b \<le> 3" "0 \<le> c" "c \<le> 24" "0 \<le> d" "d \<le> 3" "0 \<le> r"
    "year_of n = 400 * a + 100 * b + 4 * c + d + 1"
proof -
  define m where "m = n mod 146097"
  define b where "b = min 3 (m div 36524)"
  define m' where "m' = m - 36524 * b"
  define c where "c = m' div 1461"
  define q where "q = m' mod 1461"
  define d where "d = min 3 (q div 365)"
  have m: "0 \<le> m" "m < 146097" by (simp_all add: m_def)
  have b: "0 \<le> b" "b \<le> 3" "36524 * b \<le> m" using m by (auto simp: b_def min_def)
  have m': "0 \<le> m'" "m' \<le> 36524" using m b by (auto simp: m'_def b_def min_def)
  have c: "0 \<le> c" "c \<le> 24" using m' by (auto simp: c_def)
  have q: "0 \<le> q" "q < 1461" by (simp_all add: q_def)
  have d: "0 \<le> d" "d \<le> 3" "365 * d \<le> q" using q by (auto simp: d_def min_def)
  have "n = 146097 * (n div 146097) + m" by (simp add: m_def)
  moreover have "m' = 1461 * c + q" by (simp add: c_def q_def)
  ultimately have "n = 146097 * (n div 146097) + 36524 * b + 1461 * c + 365 * d + (q - 365 * d)"
    by (simp add: m'_def)
  moreover have "year_of n = 400 * (n div 146097) + 100 * b + 4 * c + d + 1"
    by (simp add: year_of_def Let_def m_def b_def m'_def c_def q_def d_def)
  ultimately show ?thesis
    using that [of "n div 146097" b c d "q - 365 * d"] b c d by simp
qed

lemma year_start_le: "year_start (year_of n) \<le> n"
proof -
  obtain a b c d r where
    "n = 146097 * a + 36524 * b + 1461 * c + 365 * d + r"
    "0 \<le> b" "b \<le> 3" "0 \<le> c" "c \<le> 24" "0 \<le> d" "d \<le> 3" "0 \<le> r"
    "year_of n = 400 * a + 100 * b + 4 * c + d + 1" by (rule year_of_split)
  then show ?thesis by (simp add: year_start_parts)
qed

lemma year_day_nonneg: "0 \<le> year_day n"
  using year_start_le [of n] by (simp add: year_day_def)

lemma length_takeWhile_interval: "length (takeWhile P [2..12::int]) \<le> 11"
  using length_takeWhile_le [of P "[2..12::int]"] by (simp only: length_upto)

lemma month_of_bounds: "1 \<le> month_of n \<and> month_of n \<le> 12"
  using length_takeWhile_interval [of "\<lambda>m. month_start (leap (year_of n)) m \<le> year_day n"]
  unfolding month_of_def by linarith

text \<open>A date taken apart and put together again is the same day; a day offset is carried exactly.\<close>

lemma day_number_of: "day_number (year_of n) (month_of n) (day_of_month n + k) = n + k"
proof -
  have "(month_of n - 1) div 12 = 0" "(month_of n - 1) mod 12 = month_of n - 1"
    using month_of_bounds [of n] by simp_all
  then show ?thesis by (simp add: day_number_def Let_def day_of_month_def year_day_def)
qed

lemma AddDate_days [simp]: "AddDate t 0 0 k = t + k * day_ns"
proof -
  have "midnight (day_index t + k) + t mod day_ns = day_index t * day_ns + t mod day_ns + k * day_ns"
    by (simp add: midnight_def algebra_simps)
  also have "day_index t * day_ns + t mod day_ns = t" by (simp add: day_index_def)
  finally show ?thesis
    using day_number_of [of "day_index t" k] by (simp add: AddDate_def Let_def)
qed

lemma weekday_range: "0 \<le> weekday n \<and> weekday n < 7"
  by (simp add: weekday_def)

lemma weekday_add: "weekday (n + k) = (weekday n + k) mod 7"
  by (simp add: weekday_def mod_simps algebra_simps)

lemma day_index_midnight [simp]: "day_index (midnight n) = n"
  by (simp add: day_index_def midnight_def)

lemma midnight_mono [simp]: "midnight a \<le> midnight b \<longleftrightarrow> a \<le> b" "midnight a < midnight b \<longleftrightarrow> a < b"
  by (simp_all add: midnight_def)

lemma midnight_add: "midnight n + k * day_ns = midnight (n + k)"
  by (simp add: midnight_def algebra_simps)

lemma day_index_mid: "0 \<le> r \<Longrightarrow> r < day_ns \<Longrightarrow> day_index (midnight n + r) = n"
  unfolding day_index_def midnight_def by (rule int_div_pos_eq [where r = r]) simp_all

lemma day_number_add: "day_number y m (d + k) = day_number y m d + k"
  by (simp add: day_number_def Let_def)

lemma day_number_from: "day_number y m d = day_number y m 1 + (d - 1)"
  using day_number_add [of y m 1 "d - 1"] by simp

end
