(* ===== verification/Holidays.thy ===== *)
theory Holidays
  imports Civil Phrase
begin

text \<open>
  The holiday definitions, \<^verbatim>\<open>internal/holidayvocab\<close>: when a country keeps a holiday
  (\<^verbatim>\<open>calendar.go\<close>: day rules, seasons, the calendar of a country) and whether a title is about one
  (\<^verbatim>\<open>vocabulary.go\<close>: names, look-alikes, moods, the verdict). A vocabulary is the validated list of
  definitions; the shipped seed is data and is not modelled. The Unicode folding of the phrase
  matcher is the parameter \<open>fold_text\<close>.
\<close>

subsection \<open>Rules (calendar.go)\<close>

datatype DayKind = DayFixed | DayNthWeekday | DayLastWeekday | DayEaster | DayKindOther string

datatype WindowKind = WindowRange | WindowAround | WindowKindOther string

record MonthDay =
  md_Month :: int
  md_Day :: int

record DayRule =
  dr_Kind :: DayKind
  dr_Month :: int
  dr_Day :: int
  dr_Weekday :: int
  dr_N :: int
  dr_Offset :: int

record WindowRule =
  wr_Kind :: WindowKind
  wr_From :: MonthDay
  wr_To :: MonthDay
  wr_Before :: int
  wr_After :: int

record Rule =
  ru_Day :: DayRule
  ru_Window :: WindowRule

record Keeping =
  kp_Countries :: "string list"
  kp_Rule :: Rule

definition easterSunday :: "int \<Rightarrow> gotime" where
  "easterSunday year =
     (let a = year smod 19; b = year sdiv 100; c = year smod 100;
          d = b sdiv 4; e = b smod 4;
          f = (b + 8) sdiv 25;
          g = (b - f + 1) sdiv 3;
          h = (19 * a + b - d - g + 15) smod 30;
          i = c sdiv 4; k = c smod 4;
          l = (32 + 2 * e + 2 * i - h - k) smod 7;
          m = (a + 11 * h + 22 * l) sdiv 451;
          mon = (h + l - 7 * m + 114) sdiv 31;
          dayOfMonth = (h + l - 7 * m + 114) smod 31 + 1
      in midnight (day_number year mon dayOfMonth))"

definition DayRule_Date :: "DayRule \<Rightarrow> int \<Rightarrow> gotime" where
  "DayRule_Date r year =
     (case dr_Kind r of
        DayFixed \<Rightarrow> midnight (day_number year (dr_Month r) (dr_Day r))
      | DayNthWeekday \<Rightarrow>
          (let first = midnight (day_number year (dr_Month r) 1)
           in AddDate first 0 0
                ((dr_Weekday r - weekday (day_index first) + 7) smod 7 + 7 * (dr_N r - 1)))
      | DayLastWeekday \<Rightarrow>
          (let final = midnight (day_number year (dr_Month r + 1) 0)
           in AddDate final 0 0 (- ((weekday (day_index final) - dr_Weekday r + 7) smod 7)))
      | DayEaster \<Rightarrow> AddDate (easterSunday year) 0 0 (dr_Offset r)
      | DayKindOther _ \<Rightarrow> 0)"

definition endOfDay :: "gotime \<Rightarrow> gotime" where
  "endOfDay d = AddDate d 0 0 1 - 1"

definition Span :: "Rule \<Rightarrow> int \<Rightarrow> gotime \<times> gotime" where
  "Span r year =
     (let w = ru_Window r
      in if wr_Kind w = WindowRange
         then
           (let start = midnight (day_number year (md_Month (wr_From w)) (md_Day (wr_From w)));
                final = midnight (day_number year (md_Month (wr_To w)) (md_Day (wr_To w)));
                final = (if final < start then AddDate final 1 0 0 else final)
            in (start, endOfDay final))
         else
           (let d = DayRule_Date (ru_Day r) year
            in (AddDate d 0 0 (- wr_Before w), endOfDay (AddDate d 0 0 (wr_After w)))))"

datatype rule_error =
    BadMonth int | NoSuchDay int int | BadWeekday int | BadNth int | BadEasterOffset int
  | UnknownDayKind | BadSeason int int | UnknownWindowKind

definition validMonthDay :: "MonthDay \<Rightarrow> rule_error option" where
  "validMonthDay md =
     (if md_Month md < 1 \<or> md_Month md > 12 then Some (BadMonth (md_Month md))
      else if md_Day md < 1 \<or> month_of (day_number 2024 (md_Month md) (md_Day md)) \<noteq> md_Month md
      then Some (NoSuchDay (md_Month md) (md_Day md)) else None)"

definition validMonthWeekday :: "DayRule \<Rightarrow> rule_error option" where
  "validMonthWeekday d =
     (if dr_Month d < 1 \<or> dr_Month d > 12 then Some (BadMonth (dr_Month d))
      else if dr_Weekday d < 0 \<or> dr_Weekday d > 6 then Some (BadWeekday (dr_Weekday d)) else None)"

definition DayRule_error :: "DayRule \<Rightarrow> rule_error option" where
  "DayRule_error d =
     (case dr_Kind d of
        DayFixed \<Rightarrow> validMonthDay \<lparr>md_Month = dr_Month d, md_Day = dr_Day d\<rparr>
      | DayNthWeekday \<Rightarrow>
          (case validMonthWeekday d of
             Some e \<Rightarrow> Some e
           | None \<Rightarrow> if dr_N d < 1 \<or> dr_N d > 4 then Some (BadNth (dr_N d)) else None)
      | DayLastWeekday \<Rightarrow> validMonthWeekday d
      | DayEaster \<Rightarrow> (if dr_Offset d < -70 \<or> dr_Offset d > 70 then Some (BadEasterOffset (dr_Offset d)) else None)
      | DayKindOther _ \<Rightarrow> Some UnknownDayKind)"

definition Rule_Validate :: "Rule \<Rightarrow> rule_error option" where
  "Rule_Validate r =
     (case DayRule_error (ru_Day r) of
        Some e \<Rightarrow> Some e
      | None \<Rightarrow>
          (let w = ru_Window r
           in case wr_Kind w of
                WindowRange \<Rightarrow>
                  (case validMonthDay (wr_From w) of Some e \<Rightarrow> Some e | None \<Rightarrow> validMonthDay (wr_To w))
              | WindowAround \<Rightarrow>
                  (if wr_Before w < 0 \<or> wr_After w < 0 \<or> wr_Before w + wr_After w > 92
                   then Some (BadSeason (wr_Before w) (wr_After w)) else None)
              | WindowKindOther _ \<Rightarrow> Some UnknownWindowKind))"

definition is_upper :: "char \<Rightarrow> bool" where
  "is_upper c \<longleftrightarrow> 65 \<le> byte_of c \<and> byte_of c \<le> 90"

text \<open>\<^verbatim>\<open>strings.Trim(c, cutset) == ""\<close> holds exactly when every byte is in the cut set.\<close>

definition validCountry :: "string \<Rightarrow> bool" where
  "validCountry c \<longleftrightarrow> length c = 2 \<and> to_upper c = c \<and> list_all is_upper c"

subsection \<open>Vocabulary\<close>

record Words =
  wd_Intents :: "string list"
  wd_Names :: "string list"
  wd_LookAlikes :: "string list"
  wd_Moods :: "string list"
  wd_MoodGenres :: "string list list"

record Holiday =
  hd_ID :: string
  hd_Label :: string
  hd_Words :: Words
  hd_Kept :: "Keeping list"
  hd_AirWindow :: "Rule option"
  hd_Members :: "string list"
  hd_NameNeedsCorroboration :: bool

type_synonym Vocabulary = "Holiday list"

definition Words_none :: "Words \<Rightarrow> bool" where
  "Words_none w \<longleftrightarrow>
     length (wd_Intents w) + length (wd_Names w) + length (wd_LookAlikes w) + length (wd_Moods w) +
     length (wd_MoodGenres w) = 0"

datatype vocab_error =
    NoLabel | GroupHasDates | KeepingNoCountry | BadCountry string | KeptTwice string
  | BadRule rule_error | NotASlug string | DefinedTwice string | BadMember string string

fun check_countries :: "string list \<Rightarrow> string list \<Rightarrow> vocab_error + string list" where
  "check_countries seen [] = Inr seen"
| "check_countries seen (c # cs) =
     (if \<not> validCountry c then Inl (BadCountry c)
      else if c \<in> set seen then Inl (KeptTwice c)
      else check_countries (c # seen) cs)"

fun check_keepings :: "string list \<Rightarrow> Keeping list \<Rightarrow> vocab_error option" where
  "check_keepings seen [] = None"
| "check_keepings seen (k # ks) =
     (if kp_Countries k = [] then Some KeepingNoCountry
      else (case check_countries seen (kp_Countries k) of
              Inl e \<Rightarrow> Some e
            | Inr seen' \<Rightarrow>
                (case Rule_Validate (kp_Rule k) of
                   Some e \<Rightarrow> Some (BadRule e)
                 | None \<Rightarrow> check_keepings seen' ks)))"

definition Holiday_validate :: "Holiday \<Rightarrow> vocab_error option" where
  "Holiday_validate h =
     (if trim_space (hd_Label h) = '''' then Some NoLabel
      else if hd_Members h \<noteq> [] \<and> (hd_Kept h \<noteq> [] \<or> hd_AirWindow h \<noteq> None \<or> \<not> Words_none (hd_Words h))
      then Some GroupHasDates
      else (case check_keepings [] (hd_Kept h) of
              Some e \<Rightarrow> Some e
            | None \<Rightarrow>
                (case hd_AirWindow h of
                   None \<Rightarrow> None
                 | Some r \<Rightarrow> (case Rule_Validate r of Some e \<Rightarrow> Some (BadRule e) | None \<Rightarrow> None))))"

text \<open>The slug pattern: runs of lower-case letters and digits joined by single hyphens or underscores.\<close>

definition slug_char :: "char \<Rightarrow> bool" where
  "slug_char c \<longleftrightarrow> is_digit c \<or> (97 \<le> byte_of c \<and> byte_of c \<le> 122)"

fun slug_from :: "bool \<Rightarrow> string \<Rightarrow> bool" where
  "slug_from inrun [] = inrun"
| "slug_from inrun (c # cs) =
     (if slug_char c then slug_from True cs
      else inrun \<and> (c = CHR ''-'' \<or> c = CHR ''_'') \<and> slug_from False cs)"

fun check_ids :: "string list \<Rightarrow> Holiday list \<Rightarrow> vocab_error option" where
  "check_ids seen [] = None"
| "check_ids seen (h # hs) =
     (if \<not> slug_from False (hd_ID h) then Some (NotASlug (hd_ID h))
      else if hd_ID h \<in> set seen then Some (DefinedTwice (hd_ID h))
      else (case Holiday_validate h of Some e \<Rightarrow> Some e | None \<Rightarrow> check_ids (hd_ID h # seen) hs))"

definition bad_members :: "Holiday list \<Rightarrow> (string \<times> string) list" where
  "bad_members hs =
     [(hd_ID h, m). h \<leftarrow> hs, m \<leftarrow> hd_Members h,
        \<not> list_ex (\<lambda>g. hd_ID g = m \<and> hd_Members g = []) hs]"

definition Vocabulary_New :: "Holiday list \<Rightarrow> vocab_error + Vocabulary" where
  "Vocabulary_New hs =
     (case check_ids [] hs of
        Some e \<Rightarrow> Inl e
      | None \<Rightarrow> (case bad_members hs of [] \<Rightarrow> Inr hs | (h, m) # _ \<Rightarrow> Inl (BadMember h m)))"

definition lookup_holiday :: "Vocabulary \<Rightarrow> string \<Rightarrow> Holiday option" where
  "lookup_holiday v id' = find (\<lambda>h. hd_ID h = id') v"

definition keptIn :: "Holiday \<Rightarrow> string \<Rightarrow> Keeping option" where
  "keptIn h country = find (\<lambda>k. country \<in> set (kp_Countries k)) (hd_Kept h)"

text \<open>\<^verbatim>\<open>Countries\<close> before its final sort, which \<^verbatim>\<open>CalendarCountry\<close>'s membership test does not see.\<close>

definition Countries :: "Vocabulary \<Rightarrow> string list" where
  "Countries v =
     foldl (\<lambda>out c. if c \<in> set out then out else out @ [c]) []
       (concat (map (\<lambda>h. concat (map kp_Countries (hd_Kept h))) v))"

definition CalendarCountry :: "Vocabulary \<Rightarrow> string \<Rightarrow> string" where
  "CalendarCountry v country =
     (let c = to_upper (trim_space country) in if c \<in> set (Countries v) then c else ''US'')"

text \<open>An observance: the holiday's id and the rule of the keeping, which gives its window and day.\<close>

record Observance =
  ob_ID :: string
  ob_Rule :: Rule

definition Vocabulary_Calendar :: "Vocabulary \<Rightarrow> string \<Rightarrow> Observance list" where
  "Vocabulary_Calendar v country =
     (let c = CalendarCountry v country
      in List.map_filter (\<lambda>h. map_option (\<lambda>k. \<lparr>ob_ID = hd_ID h, ob_Rule = kp_Rule k\<rparr>) (keptIn h c)) v)"

definition spans :: "Rule \<Rightarrow> gotime \<Rightarrow> bool" where
  "spans r t =
     (let day = midnight (day_index t) + 12 * hour; y = year_of (day_index day)
      in list_ex (\<lambda>year. (let (start, end') = Span r year in \<not> day < start \<and> \<not> day > end'))
           [y - 1, y, y + 1])"

text \<open>
  Groups have members that are not groups (\<^verbatim>\<open>New\<close> rejects others), so the recursion of the source is
  one level deep; a member that is itself a group has no dates and is answered by its own keepings.
\<close>

definition InSeason_own :: "Vocabulary \<Rightarrow> string \<Rightarrow> string \<Rightarrow> gotime \<Rightarrow> bool" where
  "InSeason_own v id' country t =
     (case lookup_holiday v id' of None \<Rightarrow> False
      | Some h \<Rightarrow> (case keptIn h (CalendarCountry v country) of None \<Rightarrow> False | Some k \<Rightarrow> spans (kp_Rule k) t))"

definition InSeason :: "Vocabulary \<Rightarrow> string \<Rightarrow> string \<Rightarrow> gotime \<Rightarrow> bool" where
  "InSeason v id' country t =
     (case lookup_holiday v id' of None \<Rightarrow> False
      | Some h \<Rightarrow> (if hd_Members h \<noteq> [] then list_ex (\<lambda>m. InSeason_own v m country t) (hd_Members h)
                 else InSeason_own v id' country t))"

definition Dated_own :: "Vocabulary \<Rightarrow> string \<Rightarrow> bool" where
  "Dated_own v id' = (case lookup_holiday v id' of None \<Rightarrow> False | Some h \<Rightarrow> hd_Kept h \<noteq> [])"

definition Dated :: "Vocabulary \<Rightarrow> string \<Rightarrow> bool" where
  "Dated v id' =
     (case lookup_holiday v id' of None \<Rightarrow> False
      | Some h \<Rightarrow> (if hd_Members h \<noteq> [] then list_ex (Dated_own v) (hd_Members h) else hd_Kept h \<noteq> []))"

definition KeptIn_own :: "Vocabulary \<Rightarrow> string \<Rightarrow> string \<Rightarrow> bool" where
  "KeptIn_own v id' country =
     (case lookup_holiday v id' of None \<Rightarrow> False
      | Some h \<Rightarrow> keptIn h (CalendarCountry v country) \<noteq> None)"

definition KeptIn :: "Vocabulary \<Rightarrow> string \<Rightarrow> string \<Rightarrow> bool" where
  "KeptIn v id' country =
     (case lookup_holiday v id' of None \<Rightarrow> False
      | Some h \<Rightarrow> (if hd_Members h \<noteq> [] then list_ex (\<lambda>m. KeptIn_own v m country) (hd_Members h)
                 else KeptIn_own v id' country))"

definition Definitions :: "Vocabulary \<Rightarrow> (string \<times> string) list" where
  "Definitions v = map (\<lambda>h. (hd_ID h, hd_Label h)) (filter (\<lambda>h. hd_Members h = []) v)"

definition MatchIntent :: "(string \<Rightarrow> string) \<Rightarrow> Vocabulary \<Rightarrow> string \<Rightarrow> string list" where
  "MatchIntent fold_text v txt =
     map hd_ID (filter (\<lambda>h. list_ex (\<lambda>alias. ContainsPhraseOutside fold_text txt alias
                                       (wd_LookAlikes (hd_Words h))) (wd_Intents (hd_Words h))) v)"

subsection \<open>The verdict\<close>

datatype Verdict = VerdictAbout | VerdictAdjacent | VerdictNot

datatype JudgeReason =
  ReasonNameInTitle | ReasonNameInText | ReasonHolidayTag | ReasonMoodWithGenre | ReasonMoodAiredNear
  | ReasonMoodInEpisode | ReasonNone

record Evidence =
  ev_Title :: string
  ev_Text :: "string list"
  ev_Keywords :: "string list"
  ev_Genres :: "string list"
  ev_Episode :: bool
  ev_AirDate :: gotime

record Judgment =
  jd_Verdict :: Verdict
  jd_Reason :: JudgeReason
  jd_Cue :: string
  jd_NameOnly :: bool

abbreviation verdict_not :: Judgment where
  "verdict_not \<equiv> \<lparr>jd_Verdict = VerdictNot, jd_Reason = ReasonNone, jd_Cue = '''', jd_NameOnly = False\<rparr>"

definition Fits :: "Judgment \<Rightarrow> bool" where
  "Fits j \<longleftrightarrow> jd_Verdict j = VerdictAbout \<or> jd_Verdict j = VerdictAdjacent"

definition Benches :: "Judgment \<Rightarrow> bool" where
  "Benches j \<longleftrightarrow> jd_Verdict j = VerdictAbout \<and> \<not> jd_NameOnly j"

definition first_or_empty :: "('a \<Rightarrow> bool) \<Rightarrow> ('a \<Rightarrow> string) \<Rightarrow> 'a list \<Rightarrow> string" where
  "first_or_empty P f xs = (case find P xs of None \<Rightarrow> '''' | Some x \<Rightarrow> f x)"

definition nameIn :: "(string \<Rightarrow> string) \<Rightarrow> Holiday \<Rightarrow> string \<Rightarrow> string" where
  "nameIn fold_text h txt =
     first_or_empty (\<lambda>alias. ContainsPhraseOutside fold_text txt alias (wd_LookAlikes (hd_Words h))) id
       (wd_Names (hd_Words h))"

definition moodIn :: "(string \<Rightarrow> string) \<Rightarrow> Holiday \<Rightarrow> string list \<Rightarrow> string" where
  "moodIn fold_text h fs =
     first_or_empty (\<lambda>(field, alias). ContainsPhrase fold_text field alias) snd
       [(field, alias). field \<leftarrow> fs, alias \<leftarrow> wd_Moods (hd_Words h)]"

definition airedInWindow :: "Holiday \<Rightarrow> gotime \<Rightarrow> bool" where
  "airedInWindow h aired \<longleftrightarrow>
     \<not> is_zero_time aired \<and> (case hd_AirWindow h of None \<Rightarrow> False | Some r \<Rightarrow> spans r aired)"

definition genresCorroborate :: "(string \<Rightarrow> string) \<Rightarrow> Holiday \<Rightarrow> string list \<Rightarrow> bool" where
  "genresCorroborate fold_text h genres =
     (let joined = join '' | '' genres
      in list_ex (\<lambda>gs. list_all (ContainsPhrase fold_text joined) gs) (wd_MoodGenres (hd_Words h)))"

definition named :: "(string \<Rightarrow> string) \<Rightarrow> Holiday \<Rightarrow> JudgeReason \<Rightarrow> string \<Rightarrow> Evidence \<Rightarrow> Judgment" where
  "named fold_text h reason cue ev =
     \<lparr>jd_Verdict = VerdictAbout, jd_Reason = reason, jd_Cue = cue,
      jd_NameOnly =
        hd_NameNeedsCorroboration h \<and>
        \<not> ((ev_Episode ev \<and> airedInWindow h (ev_AirDate ev)) \<or>
           (wd_MoodGenres (hd_Words h) \<noteq> [] \<and> genresCorroborate fold_text h (ev_Genres ev)))\<rparr>"

definition Judge_genre :: "(string \<Rightarrow> string) \<Rightarrow> Holiday \<Rightarrow> Evidence \<Rightarrow> Judgment" where
  "Judge_genre fold_text h ev =
     (if \<not> genresCorroborate fold_text h (ev_Genres ev) then verdict_not
      else (let cue = moodIn fold_text h (ev_Title ev # ev_Keywords ev)
            in if cue \<noteq> ''''
               then \<lparr>jd_Verdict = VerdictAdjacent, jd_Reason = ReasonMoodWithGenre, jd_Cue = cue, jd_NameOnly = False\<rparr>
               else verdict_not))"

definition Judge_episode :: "(string \<Rightarrow> string) \<Rightarrow> Holiday \<Rightarrow> Evidence \<Rightarrow> Judgment option" where
  "Judge_episode fold_text h ev =
     (if \<not> ev_Episode ev then None
      else
        (let near = (if airedInWindow h (ev_AirDate ev)
                     then moodIn fold_text h (ev_Title ev # ev_Text ev) else '''');
             own = moodIn fold_text h [ev_Title ev]
         in if near \<noteq> ''''
            then Some \<lparr>jd_Verdict = VerdictAbout, jd_Reason = ReasonMoodAiredNear, jd_Cue = near, jd_NameOnly = False\<rparr>
            else if own \<noteq> ''''
            then Some \<lparr>jd_Verdict = VerdictAdjacent, jd_Reason = ReasonMoodInEpisode, jd_Cue = own, jd_NameOnly = False\<rparr>
            else None))"

definition Judge :: "(string \<Rightarrow> string) \<Rightarrow> Vocabulary \<Rightarrow> string \<Rightarrow> Evidence \<Rightarrow> Judgment" where
  "Judge fold_text v id' ev =
     (case lookup_holiday v id' of
        None \<Rightarrow> verdict_not
      | Some h \<Rightarrow>
          (let title = nameIn fold_text h (ev_Title ev);
               kws = map (nameIn fold_text h) (ev_Keywords ev);
               texts = map (nameIn fold_text h) (ev_Text ev);
               kw = first_or_empty (\<lambda>c. c \<noteq> '''') id kws;
               txt = first_or_empty (\<lambda>c. c \<noteq> '''') id texts
           in if title \<noteq> '''' then named fold_text h ReasonNameInTitle title ev
              else if kw \<noteq> '''' then named fold_text h ReasonHolidayTag kw ev
              else if txt \<noteq> '''' then named fold_text h ReasonNameInText txt ev
              else (case Judge_episode fold_text h ev of
                      Some j \<Rightarrow> j
                    | None \<Rightarrow> Judge_genre fold_text h ev)))"

subsection \<open>Days and seasons\<close>

lemma weekday_weeks: "weekday (n + 7 * k) = weekday n"
  using weekday_add [of n "7 * k"] by (simp add: weekday_def)

lemma next_weekday:
  assumes "0 \<le> w" "w \<le> 6"
  shows "weekday (n + (w - weekday n + 7) smod 7) = w \<and>
         0 \<le> (w - weekday n + 7) smod 7 \<and> (w - weekday n + 7) smod 7 \<le> 6"
proof -
  have "0 \<le> w - weekday n + 7" using assms weekday_range [of n] by simp
  then have eq: "(w - weekday n + 7) smod 7 = (w - weekday n) mod 7" by simp
  have "weekday (n + (w - weekday n) mod 7) = w mod 7"
    unfolding weekday_add by (simp add: mod_simps)
  then show ?thesis using assms by (simp add: eq)
qed

lemma previous_weekday:
  assumes "0 \<le> w" "w \<le> 6"
  shows "weekday (n - (weekday n - w + 7) smod 7) = w \<and>
         0 \<le> (weekday n - w + 7) smod 7 \<and> (weekday n - w + 7) smod 7 \<le> 6"
proof -
  have "0 \<le> weekday n - w + 7" using assms weekday_range [of n] by simp
  then have eq: "(weekday n - w + 7) smod 7 = (weekday n - w) mod 7" by simp
  have "weekday (n + - ((weekday n - w) mod 7)) = w mod 7"
    unfolding weekday_add by (simp add: mod_simps)
  then show ?thesis using assms by (simp add: eq)
qed

text \<open>
  A floating holiday lands where its rule says: for a rule the validator accepts, the \<open>N\<close>-th
  weekday of a month falls on that weekday and in the \<open>N\<close>-th week of the month, and the last weekday
  falls on that weekday and within the last seven days before the next month.
\<close>

theorem DayRule_Date_weekday:
  assumes "DayRule_error d = None" and "dr_Kind d = DayNthWeekday \<or> dr_Kind d = DayLastWeekday"
  shows "let n = day_index (DayRule_Date d y)
         in weekday n = dr_Weekday d \<and>
            (if dr_Kind d = DayNthWeekday
             then day_number y (dr_Month d) (7 * (dr_N d - 1) + 1) \<le> n \<and> n \<le> day_number y (dr_Month d) (7 * dr_N d)
             else day_number y (dr_Month d + 1) 1 - 7 \<le> n \<and> n < day_number y (dr_Month d + 1) 1)"
proof -
  have w: "0 \<le> dr_Weekday d" "dr_Weekday d \<le> 6"
    using assms by (auto simp: DayRule_error_def validMonthWeekday_def split: if_splits option.splits)
  show ?thesis
  proof (cases "dr_Kind d = DayNthWeekday")
    case True
    let ?f = "day_number y (dr_Month d) 1"
    let ?k = "(dr_Weekday d - weekday ?f + 7) smod 7"
    have n: "day_index (DayRule_Date d y) = ?f + ?k + 7 * (dr_N d - 1)"
    proof -
      have "DayRule_Date d y = midnight ?f + (?k + 7 * (dr_N d - 1)) * day_ns"
        by (simp add: DayRule_Date_def True Let_def del: distrib_right_numeral)
      then show ?thesis unfolding midnight_add by simp
    qed
    have "weekday (?f + ?k + 7 * (dr_N d - 1)) = weekday (?f + ?k)"
      by (rule weekday_weeks)
    then show ?thesis
      using next_weekday [OF w, of ?f] True day_number_from [of y "dr_Month d" "7 * (dr_N d - 1) + 1"]
        day_number_from [of y "dr_Month d" "7 * dr_N d"]
      by (simp add: n Let_def)
  next
    case False
    then have kind: "dr_Kind d = DayLastWeekday" using assms(2) by simp
    let ?f = "day_number y (dr_Month d + 1) 0"
    let ?k = "(weekday ?f - dr_Weekday d + 7) smod 7"
    have n: "day_index (DayRule_Date d y) = ?f - ?k"
    proof -
      have "DayRule_Date d y = midnight ?f + (- ?k) * day_ns"
        by (simp add: DayRule_Date_def kind Let_def)
      then show ?thesis unfolding midnight_add by simp
    qed
    show ?thesis
      using previous_weekday [OF w, of ?f] kind day_number_from [of y "dr_Month d + 1" 0]
      by (simp add: n Let_def)
  qed
qed

definition thanksgiving_day :: DayRule where
  "thanksgiving_day = \<lparr>dr_Kind = DayNthWeekday, dr_Month = 11, dr_Day = 0, dr_Weekday = 4, dr_N = 4, dr_Offset = 0\<rparr>"

theorem DayRule_Date_weekday_witness:
  "weekday (day_index (DayRule_Date thanksgiving_day 2025)) = 4 \<and>
   DayRule_Date thanksgiving_day 2025 = midnight (day_number 2025 11 27)"
proof
  have "DayRule_error thanksgiving_day = None"
    by (simp add: DayRule_error_def thanksgiving_day_def validMonthWeekday_def)
  from DayRule_Date_weekday [OF this, of 2025]
  show "weekday (day_index (DayRule_Date thanksgiving_day 2025)) = 4"
    by (simp add: Let_def) (simp add: thanksgiving_day_def)
  show "DayRule_Date thanksgiving_day 2025 = midnight (day_number 2025 11 27)" by code_simp
qed

subsection \<open>Evidence\<close>

lemma first_or_empty_found: "first_or_empty P f xs \<noteq> '''' \<Longrightarrow> \<exists>x\<in>set xs. P x \<and> f x = first_or_empty P f xs"
proof -
  assume ne: "first_or_empty P f xs \<noteq> []"
  then obtain x where x: "find P xs = Some x" by (auto simp: first_or_empty_def split: option.splits)
  then have "x \<in> set xs" "P x" by (auto simp: find_Some_iff)
  with x show ?thesis by (auto simp: first_or_empty_def)
qed

text \<open>The holiday is named in the title, a keyword or the text, outside its look-alikes.\<close>

definition names_holiday :: "(string \<Rightarrow> string) \<Rightarrow> Holiday \<Rightarrow> Evidence \<Rightarrow> bool" where
  "names_holiday fold_text h ev \<longleftrightarrow>
     (\<exists>txt\<in>set (ev_Title ev # ev_Keywords ev @ ev_Text ev). nameIn fold_text h txt \<noteq> '''')"

definition moody_episode :: "(string \<Rightarrow> string) \<Rightarrow> Holiday \<Rightarrow> Evidence \<Rightarrow> bool" where
  "moody_episode fold_text h ev \<longleftrightarrow>
     ev_Episode ev \<and> airedInWindow h (ev_AirDate ev) \<and>
     (\<exists>txt\<in>set (ev_Title ev # ev_Text ev). \<exists>m\<in>set (wd_Moods (hd_Words h)). ContainsPhrase fold_text txt m)"

lemma moodIn_found: "moodIn fold_text h fs \<noteq> '''' \<Longrightarrow>
    \<exists>txt\<in>set fs. \<exists>m\<in>set (wd_Moods (hd_Words h)). ContainsPhrase fold_text txt m"
  unfolding moodIn_def by (drule first_or_empty_found) auto

lemma Judge_genre_not_about: "jd_Verdict (Judge_genre fold_text h ev) \<noteq> VerdictAbout"
  by (simp add: Judge_genre_def Let_def)

lemma Judge_episode_about:
  "Judge_episode fold_text h ev = Some j \<Longrightarrow> jd_Verdict j = VerdictAbout \<Longrightarrow> moody_episode fold_text h ev"
  using moodIn_found [of fold_text h "ev_Title ev # ev_Text ev"]
  by (auto simp: Judge_episode_def Let_def moody_episode_def split: if_splits)

lemma Judge_about_aux:
  assumes "jd_Verdict (Judge fold_text v id' ev) = VerdictAbout"
  shows "\<exists>h\<in>set v. hd_ID h = id' \<and> (names_holiday fold_text h ev \<or> moody_episode fold_text h ev)"
proof (cases "lookup_holiday v id'")
  case None
  then show ?thesis using assms by (simp add: Judge_def)
next
  case (Some h)
  then have h: "h \<in> set v" "hd_ID h = id'"
    by (auto simp: lookup_holiday_def find_Some_iff)
  have found: "\<And>xs. first_or_empty (\<lambda>c. c \<noteq> '''') id (map (nameIn fold_text h) xs) \<noteq> '''' \<Longrightarrow>
      \<exists>x\<in>set xs. nameIn fold_text h x \<noteq> ''''"
    by (drule first_or_empty_found) auto
  have "names_holiday fold_text h ev \<or> moody_episode fold_text h ev"
  proof (cases "names_holiday fold_text h ev")
    case False
    then have "nameIn fold_text h (ev_Title ev) = ''''"
      "first_or_empty (\<lambda>c. c \<noteq> '''') id (map (nameIn fold_text h) (ev_Keywords ev)) = ''''"
      "first_or_empty (\<lambda>c. c \<noteq> '''') id (map (nameIn fold_text h) (ev_Text ev)) = ''''"
      using found unfolding names_holiday_def by fastforce+
    then show ?thesis
      using assms Judge_episode_about Judge_genre_not_about
      by (auto simp: Judge_def Some Let_def split: option.splits)
  qed simp
  with h show ?thesis by blast
qed

text \<open>
  C37. Nothing is benched on mood or genre alone. A title the calendar judges to be about a holiday
  (the only verdict that benches it out of season) is a definition's own: either one of the
  holiday's names occurs in its title, keywords or text outside the look-alikes, or it is an episode
  that first aired in the holiday's broadcast window and carries a mood word.
\<close>

theorem Judge_about_evidence:
  assumes "jd_Verdict (Judge fold_text v id' ev) = VerdictAbout"
  shows "\<exists>h\<in>set v. hd_ID h = id' \<and> (names_holiday fold_text h ev \<or> moody_episode fold_text h ev)"
  using assms by (rule Judge_about_aux)

definition sample_halloween :: Holiday where
  "sample_halloween = \<lparr>hd_ID = ''halloween'', hd_Label = ''Halloween'',
     hd_Words = \<lparr>wd_Intents = [''halloween''], wd_Names = [''halloween''], wd_LookAlikes = [],
                 wd_Moods = [''ghost''], wd_MoodGenres = [[''horror'']]\<rparr>,
     hd_Kept = [], hd_AirWindow = None, hd_Members = [], hd_NameNeedsCorroboration = False\<rparr>"

definition sample_evidence :: Evidence where
  "sample_evidence = \<lparr>ev_Title = ''halloween'', ev_Text = [], ev_Keywords = [], ev_Genres = [],
     ev_Episode = False, ev_AirDate = 0\<rparr>"

theorem Judge_about_evidence_witness:
  "\<exists>h\<in>set [sample_halloween]. hd_ID h = ''halloween'' \<and>
     (names_holiday id h sample_evidence \<or> moody_episode id h sample_evidence)"
proof (rule Judge_about_evidence)
  show "jd_Verdict (Judge id [sample_halloween] ''halloween'' sample_evidence) = VerdictAbout"
    by code_simp
qed

end
