(* ===== verification/Seed.thy ===== *)
theory Seed
  imports Holidays
begin

text \<open>
  The shipped holiday definitions, \<^verbatim>\<open>internal/holidayvocab/seed.go\<close>, and the vocabulary of a process
  with no stored ones. The lemma shows that the validator accepts them, so that \<^verbatim>\<open>Default\<close> never
  reaches its panic.
\<close>

abbreviation allCountries :: "string list" where
  "allCountries \<equiv> [''US'', ''CA'', ''GB'', ''IE'', ''AU'', ''NZ'']"
abbreviation northAmerica :: "string list" where "northAmerica \<equiv> [''US'', ''CA'']"
abbreviation britainIrl :: "string list" where "britainIrl \<equiv> [''GB'', ''IE'']"
abbreviation australasia :: "string list" where "australasia \<equiv> [''AU'', ''NZ'']"

abbreviation no_day :: DayRule where
  "no_day \<equiv> \<lparr>dr_Kind = DayFixed, dr_Month = 0, dr_Day = 0, dr_Weekday = 0, dr_N = 0, dr_Offset = 0\<rparr>"

definition seed_fixed :: "int \<Rightarrow> int \<Rightarrow> DayRule" where
  "seed_fixed m d = no_day\<lparr>dr_Month := m, dr_Day := d\<rparr>"

definition seed_nth :: "int \<Rightarrow> int \<Rightarrow> int \<Rightarrow> DayRule" where
  "seed_nth n wd m = no_day\<lparr>dr_Kind := DayNthWeekday, dr_Month := m, dr_Weekday := wd, dr_N := n\<rparr>"

definition seed_last :: "int \<Rightarrow> int \<Rightarrow> DayRule" where
  "seed_last wd m = no_day\<lparr>dr_Kind := DayLastWeekday, dr_Month := m, dr_Weekday := wd\<rparr>"

definition seed_easter :: "int \<Rightarrow> DayRule" where
  "seed_easter offset = no_day\<lparr>dr_Kind := DayEaster, dr_Offset := offset\<rparr>"

abbreviation no_month_day :: MonthDay where "no_month_day \<equiv> \<lparr>md_Month = 0, md_Day = 0\<rparr>"

definition seed_dates :: "int \<Rightarrow> int \<Rightarrow> int \<Rightarrow> int \<Rightarrow> WindowRule" where
  "seed_dates fm fd tm td =
     \<lparr>wr_Kind = WindowRange, wr_From = \<lparr>md_Month = fm, md_Day = fd\<rparr>, wr_To = \<lparr>md_Month = tm, md_Day = td\<rparr>,
      wr_Before = 0, wr_After = 0\<rparr>"

definition seed_around :: "int \<Rightarrow> int \<Rightarrow> WindowRule" where
  "seed_around dbefore dafter =
     \<lparr>wr_Kind = WindowAround, wr_From = no_month_day, wr_To = no_month_day, wr_Before = dbefore, wr_After = dafter\<rparr>"

definition seed_keep :: "string list \<Rightarrow> DayRule \<Rightarrow> WindowRule \<Rightarrow> Keeping" where
  "seed_keep countries day window = \<lparr>kp_Countries = countries, kp_Rule = \<lparr>ru_Day = day, ru_Window = window\<rparr>\<rparr>"

definition seed_air :: "DayRule \<Rightarrow> WindowRule \<Rightarrow> Rule option" where
  "seed_air day window = Some \<lparr>ru_Day = day, ru_Window = window\<rparr>"

definition familyFantasy :: "string list list" where
  "familyFantasy = map (\<lambda>family. [family, ''fantasy'']) [''family'', ''children'', ''kids'', ''animation'']"

definition Seed :: "Holiday list" where
  "Seed =
    [\<lparr>hd_ID = ''halloween'', hd_Label = ''Halloween'',
       hd_Words = \<lparr>wd_Intents = [''halloween''],
         wd_Names = [''halloween''],
         wd_LookAlikes = [],
         wd_Moods = [''spooky'', ''haunted'', ''ghost'', ''ghosts'', ''witch'', ''witches'', ''horror'', ''terror''],
         wd_MoodGenres = ([[''horror'']] @ familyFantasy)\<rparr>,
       hd_Kept = [(seed_keep allCountries (seed_fixed 10 31) (seed_dates 10 1 10 31))],
       hd_AirWindow = (seed_air (seed_fixed 10 31) (seed_dates 10 15 11 7)),
       hd_Members = [], hd_NameNeedsCorroboration = False\<rparr>,
     \<lparr>hd_ID = ''thanksgiving'', hd_Label = ''Thanksgiving'',
       hd_Words = \<lparr>wd_Intents = [''thanksgiving'', ''turkey day''],
         wd_Names = [''thanksgiving'', ''turkey day''],
         wd_LookAlikes = [],
         wd_Moods = [],
         wd_MoodGenres = []\<rparr>,
       hd_Kept = [(seed_keep [''US''] (seed_nth 4 4 11) (seed_dates 11 15 11 30)),
         (seed_keep [''CA''] (seed_nth 2 1 10) (seed_around 13 0))],
       hd_AirWindow = (seed_air (seed_nth 4 4 11) (seed_around 7 3)),
       hd_Members = [], hd_NameNeedsCorroboration = False\<rparr>,
     \<lparr>hd_ID = ''christmas'', hd_Label = ''Christmas'',
       hd_Words = \<lparr>wd_Intents = [''christmas'', ''xmas'', ''santa'', ''noel'', ''yuletide''],
         wd_Names = [''christmas'', ''xmas'', ''santa'', ''noel'', ''yuletide''],
         wd_LookAlikes = [''santa's little helper'', ''santa clarita'', ''santa monica'', ''santa barbara'', ''santa fe'', ''santa cruz'', ''santa ana'', ''santa rosa'', ''santa maria'', ''santa catalina''],
         wd_Moods = [],
         wd_MoodGenres = []\<rparr>,
       hd_Kept = [(seed_keep allCountries (seed_fixed 12 25) (seed_dates 12 1 12 26))],
       hd_AirWindow = (seed_air (seed_fixed 12 25) (seed_dates 12 1 1 2)),
       hd_Members = [], hd_NameNeedsCorroboration = False\<rparr>,
     \<lparr>hd_ID = ''newyear'', hd_Label = ''New Year'',
       hd_Words = \<lparr>wd_Intents = [''new year's'', ''new years'', ''new year'', ''nye'', ''hogmanay''],
         wd_Names = [''new year's'', ''new years'', ''new year'', ''nye'', ''hogmanay''],
         wd_LookAlikes = [''bill nye''],
         wd_Moods = [],
         wd_MoodGenres = []\<rparr>,
       hd_Kept = [(seed_keep allCountries (seed_fixed 12 31) (seed_dates 12 27 1 2))],
       hd_AirWindow = (seed_air (seed_fixed 12 31) (seed_dates 12 26 1 7)),
       hd_Members = [], hd_NameNeedsCorroboration = False\<rparr>,
     \<lparr>hd_ID = ''valentines'', hd_Label = ''Valentine's Day'',
       hd_Words = \<lparr>wd_Intents = [''valentine's'', ''valentines'', ''valentine''],
         wd_Names = [''valentine's'', ''valentines'', ''valentine''],
         wd_LookAlikes = [],
         wd_Moods = [],
         wd_MoodGenres = []\<rparr>,
       hd_Kept = [(seed_keep allCountries (seed_fixed 2 14) (seed_dates 2 1 2 14))],
       hd_AirWindow = (seed_air (seed_fixed 2 14) (seed_dates 2 7 2 21)),
       hd_Members = [], hd_NameNeedsCorroboration = False\<rparr>,
     \<lparr>hd_ID = ''easter'', hd_Label = ''Easter'',
       hd_Words = \<lparr>wd_Intents = [''easter''],
         wd_Names = [''easter''],
         wd_LookAlikes = [''easter island''],
         wd_Moods = [],
         wd_MoodGenres = []\<rparr>,
       hd_Kept = [(seed_keep allCountries (seed_easter 0) (seed_around 12 1))],
       hd_AirWindow = (seed_air (seed_easter 0) (seed_around 12 1)),
       hd_Members = [], hd_NameNeedsCorroboration = True\<rparr>,
     \<lparr>hd_ID = ''mothers-day'', hd_Label = ''Mother's Day'',
       hd_Words = \<lparr>wd_Intents = [''mother's day'', ''mothers day'', ''mothering sunday''],
         wd_Names = [''mother's day'', ''mothers day'', ''mothering sunday''],
         wd_LookAlikes = [],
         wd_Moods = [],
         wd_MoodGenres = []\<rparr>,
       hd_Kept = [(seed_keep [''US'', ''CA'', ''AU'', ''NZ''] (seed_nth 2 0 5) (seed_around 13 0)),
         (seed_keep britainIrl (seed_easter (-21)) (seed_around 13 0))],
       hd_AirWindow = (seed_air (seed_nth 2 0 5) (seed_around 13 0)),
       hd_Members = [], hd_NameNeedsCorroboration = True\<rparr>,
     \<lparr>hd_ID = ''fathers-day'', hd_Label = ''Father's Day'',
       hd_Words = \<lparr>wd_Intents = [''father's day'', ''fathers day''],
         wd_Names = [''father's day'', ''fathers day''],
         wd_LookAlikes = [],
         wd_Moods = [],
         wd_MoodGenres = []\<rparr>,
       hd_Kept = [(seed_keep [''US'', ''CA'', ''GB'', ''IE''] (seed_nth 3 0 6) (seed_around 13 0)),
         (seed_keep australasia (seed_nth 1 0 9) (seed_around 13 0))],
       hd_AirWindow = (seed_air (seed_nth 3 0 6) (seed_around 13 0)),
       hd_Members = [], hd_NameNeedsCorroboration = True\<rparr>,
     \<lparr>hd_ID = ''st-patricks'', hd_Label = ''St Patrick's Day'',
       hd_Words = \<lparr>wd_Intents = [''st patrick's'', ''st. patrick's'', ''saint patrick's'', ''st patricks'', ''st paddy's''],
         wd_Names = [''st patrick's'', ''st. patrick's'', ''saint patrick's'', ''st patricks'', ''st paddy's''],
         wd_LookAlikes = [],
         wd_Moods = [],
         wd_MoodGenres = []\<rparr>,
       hd_Kept = [(seed_keep [''IE'', ''US''] (seed_fixed 3 17) (seed_dates 3 10 3 17))],
       hd_AirWindow = (seed_air (seed_fixed 3 17) (seed_dates 3 10 3 18)),
       hd_Members = [], hd_NameNeedsCorroboration = True\<rparr>,
     \<lparr>hd_ID = ''independence-day'', hd_Label = ''Independence Day'',
       hd_Words = \<lparr>wd_Intents = [''independence day'', ''fourth of july'', ''4th of july'', ''july 4th''],
         wd_Names = [''independence day'', ''fourth of july'', ''4th of july'', ''july 4th''],
         wd_LookAlikes = [],
         wd_Moods = [],
         wd_MoodGenres = []\<rparr>,
       hd_Kept = [(seed_keep [''US''] (seed_fixed 7 4) (seed_dates 6 27 7 4))],
       hd_AirWindow = (seed_air (seed_fixed 7 4) (seed_dates 6 27 7 6)),
       hd_Members = [], hd_NameNeedsCorroboration = True\<rparr>,
     \<lparr>hd_ID = ''canada-day'', hd_Label = ''Canada Day'',
       hd_Words = \<lparr>wd_Intents = [''canada day'', ''dominion day''],
         wd_Names = [''canada day'', ''dominion day''],
         wd_LookAlikes = [],
         wd_Moods = [],
         wd_MoodGenres = []\<rparr>,
       hd_Kept = [(seed_keep [''CA''] (seed_fixed 7 1) (seed_dates 6 24 7 1))],
       hd_AirWindow = (seed_air (seed_fixed 7 1) (seed_dates 6 24 7 3)),
       hd_Members = [], hd_NameNeedsCorroboration = True\<rparr>,
     \<lparr>hd_ID = ''bonfire-night'', hd_Label = ''Bonfire Night'',
       hd_Words = \<lparr>wd_Intents = [''bonfire night'', ''guy fawkes''],
         wd_Names = [''bonfire night'', ''guy fawkes''],
         wd_LookAlikes = [],
         wd_Moods = [],
         wd_MoodGenres = []\<rparr>,
       hd_Kept = [(seed_keep [''GB''] (seed_fixed 11 5) (seed_dates 10 29 11 5))],
       hd_AirWindow = (seed_air (seed_fixed 11 5) (seed_dates 10 29 11 7)),
       hd_Members = [], hd_NameNeedsCorroboration = True\<rparr>,
     \<lparr>hd_ID = ''memorial-day'', hd_Label = ''Memorial Day'',
       hd_Words = \<lparr>wd_Intents = [''memorial day''],
         wd_Names = [''memorial day''],
         wd_LookAlikes = [],
         wd_Moods = [],
         wd_MoodGenres = []\<rparr>,
       hd_Kept = [(seed_keep [''US''] (seed_last 1 5) (seed_around 6 0))],
       hd_AirWindow = (seed_air (seed_last 1 5) (seed_around 6 0)),
       hd_Members = [], hd_NameNeedsCorroboration = True\<rparr>,
     \<lparr>hd_ID = ''back-to-school'', hd_Label = ''Back to school'',
       hd_Words = \<lparr>wd_Intents = [''back to school'', ''back-to-school''],
         wd_Names = [''back to school'', ''back-to-school''],
         wd_LookAlikes = [],
         wd_Moods = [],
         wd_MoodGenres = []\<rparr>,
       hd_Kept = [(seed_keep northAmerica (seed_fixed 9 1) (seed_dates 8 1 9 15)),
         (seed_keep britainIrl (seed_fixed 9 1) (seed_dates 8 15 9 10)),
         (seed_keep australasia (seed_fixed 2 1) (seed_dates 1 10 2 7))],
       hd_AirWindow = (seed_air (seed_fixed 9 1) (seed_dates 8 1 9 15)),
       hd_Members = [], hd_NameNeedsCorroboration = True\<rparr>,
     \<lparr>hd_ID = ''holiday'', hd_Label = ''Holidays (general)'',
       hd_Words = \<lparr>wd_Intents = [],
         wd_Names = [],
         wd_LookAlikes = [],
         wd_Moods = [],
         wd_MoodGenres = []\<rparr>,
       hd_Kept = [],
       hd_AirWindow = None,
       hd_Members = [''thanksgiving'', ''christmas'', ''newyear''], hd_NameNeedsCorroboration = False\<rparr>]"

text \<open>\<^verbatim>\<open>Default\<close>: \<^verbatim>\<open>New(Seed())\<close>, whose error is a panic.\<close>

definition Default_vocabulary :: "Vocabulary option" where
  "Default_vocabulary = (case Vocabulary_New Seed of Inl _ \<Rightarrow> None | Inr v \<Rightarrow> Some v)"

lemma Seed_ids: "check_ids [] Seed = None"
  by code_simp

lemma Seed_members: "bad_members Seed = []"
  by code_simp

text \<open>
  The shipped definitions are valid: every id is a slug and defined once, every keeping names
  valid countries once each with an evaluable rule, groups have no dates of their own and their
  members do, so building the default vocabulary never reaches its panic and yields the seed itself.
\<close>

theorem Seed_valid: "Default_vocabulary = Some Seed"
  by (simp add: Default_vocabulary_def Vocabulary_New_def Seed_ids Seed_members)

end
