(* ===== verification/Channel.thy ===== *)
theory Channel
  imports Seed Dates Rating
begin

text \<open>
  The channel model, \<^verbatim>\<open>internal/schedule/channel.go\<close>, \<^verbatim>\<open>pending.go\<close> and the types of \<^verbatim>\<open>lineup.go\<close>:
  a channel's configuration, the approved lineup entry, what the library resolves it to, and the slot
  of a cycle. Availability is the interface the scheduler asks about the library; it is a record of
  its two operations and every function that resolves titles takes it as an argument.
\<close>

subsection \<open>Channel (channel.go)\<close>

datatype Strategy = Sequential | Shuffle | TimeSlot | StrategyOther string

definition Strategy_Valid :: "Strategy \<Rightarrow> bool" where
  "Strategy_Valid s = (case s of StrategyOther _ \<Rightarrow> False | _ \<Rightarrow> True)"

datatype ChannelStatus =
  StatusBuilding | StatusLive | StatusDrifted | StatusEmpty | StatusDetached | StatusPaused | StatusOther string

definition Reconcilable :: "ChannelStatus \<Rightarrow> bool" where
  "Reconcilable s \<longleftrightarrow> s \<noteq> StatusPaused \<and> s \<noteq> StatusDetached"

text \<open>The household's holiday calendar (seasonal.go).\<close>

record Calendar =
  cl_Zone :: "zone option"
  cl_Country :: string
  cl_Holidays :: "Vocabulary option"

text \<open>\<^verbatim>\<open>Default()\<close> panics on an invalid seed; \<open>Seed_valid\<close> shows it never does.\<close>

definition Vocab :: "Calendar \<Rightarrow> Vocabulary" where
  "Vocab c = (case cl_Holidays c of Some v \<Rightarrow> v
     | None \<Rightarrow> (case Default_vocabulary of Some v \<Rightarrow> v | None \<Rightarrow> []))"

record ShuffleParams =
  sp_Seed :: "64 word"

text \<open>A measured scene fade (naturalbreaks.go); \<^verbatim>\<open>NaturalBreakSource\<close> is a function from the item.\<close>

record BreakCandidate =
  bc_AtMs :: int
  bc_Confidence :: rat

record Channel =
  ch_ID :: string
  ch_IntentRef :: string
  ch_Name :: string
  ch_Number :: int
  ch_Group :: string
  ch_Logo :: string
  ch_Strategy :: Strategy
  ch_BreaksPerHour :: int
  ch_BreakDurationMs :: int
  ch_NaturalBreaks :: "(string \<Rightarrow> BreakCandidate list) option"
  ch_PinnedCuts :: "string \<rightharpoonup> int list"
  ch_LastAired :: "string \<rightharpoonup> gotime"
  ch_DefaultWindow :: duration
  ch_WindowZone :: "zone option"
  ch_HolidayCountry :: string
  ch_HolidayDefinitions :: "Vocabulary option"
  ch_WindowOpened :: gotime
  ch_DealOrigin :: gotime
  ch_FillerRef :: string
  ch_TunarrID :: string
  ch_Status :: ChannelStatus
  ch_Shuffle :: ShuffleParams
  ch_UpdatedAt :: int

definition channel_calendar :: "Channel \<Rightarrow> Calendar" where
  "channel_calendar c =
     \<lparr>cl_Zone = ch_WindowZone c, cl_Country = ch_HolidayCountry c, cl_Holidays = ch_HolidayDefinitions c\<rparr>"

definition WithCalendar :: "Channel \<Rightarrow> Calendar \<Rightarrow> Channel" where
  "WithCalendar c cal =
     c\<lparr>ch_WindowZone := cl_Zone cal, ch_HolidayCountry := cl_Country cal, ch_HolidayDefinitions := cl_Holidays cal\<rparr>"

datatype channel_error = EmptyId | EmptyName string | BadNumber string int | BadStrategy string Strategy

definition Channel_Validate :: "Channel \<Rightarrow> channel_error option" where
  "Channel_Validate c =
     (if ch_ID c = '''' then Some EmptyId
      else if ch_Name c = '''' then Some (EmptyName (ch_ID c))
      else if ch_Number c \<le> 0 then Some (BadNumber (ch_ID c) (ch_Number c))
      else if \<not> Strategy_Valid (ch_Strategy c) then Some (BadStrategy (ch_ID c) (ch_Strategy c))
      else None)"

datatype SlotKind = SlotProgram | SlotPending | SlotFiller | SlotFlex

record Slot =
  s_Kind :: SlotKind
  s_Key :: Key
  s_LibraryItemID :: string
  s_Title :: string
  s_DurationMs :: int
  s_PartGroup :: string
  s_PartIndex :: int
  s_Season :: int
  s_Episode :: int
  s_SeriesTitle :: string
  s_Segment :: int
  s_SourceOffsetMs :: int
  s_MidRoll :: bool

definition empty_slot :: Slot where
  "empty_slot = \<lparr>s_Kind = SlotFlex, s_Key = '''', s_LibraryItemID = '''', s_Title = '''', s_DurationMs = 0,
     s_PartGroup = '''', s_PartIndex = 0, s_Season = 0, s_Episode = 0, s_SeriesTitle = '''', s_Segment = 0,
     s_SourceOffsetMs = 0, s_MidRoll = False\<rparr>"

definition IsProgram :: "Slot \<Rightarrow> bool" where
  "IsProgram s \<longleftrightarrow> s_Kind s = SlotProgram"

text \<open>The identity of a unit: its group, or the item of a slot that stands alone.\<close>

definition unitKey :: "Slot \<Rightarrow> string" where
  "unitKey s = (if s_PartGroup s \<noteq> '''' then ''group:'' @ s_PartGroup s else ''item:'' @ s_LibraryItemID s)"

subsection \<open>Lineup entries and what the library resolves (lineup.go)\<close>

datatype EpisodeSelectionMode =
  EpisodeUnset | EpisodeComplete | EpisodeHighlights | EpisodeHoliday | EpisodeModeOther string

record EpisodeSelection =
  es_Mode :: EpisodeSelectionMode
  es_Holidays :: "string list"

datatype PendingPolicy = PodFill | ComingSoon | PendingOther string

record LineupEntry =
  e_Key :: Key
  e_Title :: string
  e_DurationMs :: int
  e_SeasonMin :: int
  e_SeasonMax :: int
  e_EpisodeSelection :: EpisodeSelection
  e_OfficialRating :: Rating
  e_Genres :: "string list"
  e_Year :: int
  e_RuntimeSec :: int
  e_CollectionID :: int
  e_BoxSetIDs :: "string list"
  e_BoxSetsResolved :: bool
  e_Fit :: rat
  e_AddedAt :: gotime

record ResolvedProgram =
  p_LibraryItemID :: string
  p_Title :: string
  p_DurationMs :: int
  p_Season :: int
  p_Year :: int
  p_Episode :: int
  p_EpisodeEnd :: int
  p_PartGroup :: string
  p_PartIndex :: int
  p_OfficialRating :: Rating
  p_CommunityRating :: rat
  p_Overview :: string
  p_Tags :: "string list"
  p_AirDate :: gotime

record EpisodeResolution =
  er_Programs :: "ResolvedProgram list"
  er_EditorialUnavailable :: bool

record Availability =
  av_Resolve :: "Key \<Rightarrow> (string \<times> int) option"
  av_ResolveEpisodes :: "Key \<Rightarrow> EpisodeResolution"

definition MinFit :: rat where "MinFit = 1 / 100"

definition UnscoredFit :: rat where "UnscoredFit = 1 / 2"

definition EffectiveFit :: "LineupEntry \<Rightarrow> rat" where
  "EffectiveFit e = (if e_Fit e \<le> 0 then UnscoredFit else e_Fit e)"

definition StampFit :: "rat \<Rightarrow> rat" where
  "StampFit confidence = (if confidence \<le> 0 then 0 else min (max confidence MinFit) 1)"

definition inSeasonRange :: "LineupEntry \<Rightarrow> int \<Rightarrow> bool" where
  "inSeasonRange e season =
     (if e_SeasonMin e > 0 \<and> season < e_SeasonMin e then False
      else if e_SeasonMax e > 0 \<and> season > e_SeasonMax e then False
      else True)"

subsection \<open>Pending slots (pending.go)\<close>

definition pendingSlot :: "LineupEntry \<Rightarrow> PendingPolicy \<Rightarrow> Slot" where
  "pendingSlot e policy =
     (let s = empty_slot\<lparr>s_Key := e_Key e, s_Title := e_Title e, s_DurationMs := e_DurationMs e\<rparr>
      in case policy of ComingSoon \<Rightarrow> s\<lparr>s_Kind := SlotPending\<rparr> | _ \<Rightarrow> s\<lparr>s_Kind := SlotFiller\<rparr>)"

lemma pendingSlot_fields [simp]:
  "s_Key (pendingSlot e p) = e_Key e" "s_Title (pendingSlot e p) = e_Title e"
  "s_DurationMs (pendingSlot e p) = e_DurationMs e" "s_LibraryItemID (pendingSlot e p) = ''''"
  "s_PartGroup (pendingSlot e p) = ''''" "\<not> IsProgram (pendingSlot e p)"
  by (simp_all add: pendingSlot_def Let_def empty_slot_def IsProgram_def split: PendingPolicy.split)

lemma StampFit_range: "StampFit c = 0 \<or> MinFit \<le> StampFit c \<and> StampFit c \<le> 1"
  by (auto simp: StampFit_def MinFit_def min_def max_def)

subsection \<open>Counting and runtime (lineup.go)\<close>

definition programRuntime :: "Slot list \<Rightarrow> int" where
  "programRuntime slots = foldl (\<lambda>total s. if IsProgram s then total + s_DurationMs s else total) 0 slots"

fun programsPerWindow_loop :: "int \<Rightarrow> int \<Rightarrow> int \<Rightarrow> Slot list \<Rightarrow> int" where
  "programsPerWindow_loop budgetMs acc n [] = n"
| "programsPerWindow_loop budgetMs acc n (s # ss) =
     (if \<not> IsProgram s then programsPerWindow_loop budgetMs acc n ss
      else if acc + s_DurationMs s \<ge> budgetMs then n + 1
      else programsPerWindow_loop budgetMs (acc + s_DurationMs s) (n + 1) ss)"

definition programsPerWindow :: "Slot list \<Rightarrow> int \<Rightarrow> int" where
  "programsPerWindow slots budgetMs = programsPerWindow_loop budgetMs 0 0 slots"

record CycleSummary =
  cs_Episodes :: int
  cs_Movies :: int
  cs_Series :: int
  cs_RuntimeMs :: int

definition summarize_step :: "CycleSummary \<times> Key list \<Rightarrow> Slot \<Rightarrow> CycleSummary \<times> Key list" where
  "summarize_step st s =
     (let (c, shows') = st
      in if \<not> IsProgram s then st
         else
           (let c = c\<lparr>cs_RuntimeMs := cs_RuntimeMs c + s_DurationMs s\<rparr>
            in if s_SeriesTitle s \<noteq> '''' \<or> s_Season s > 0 \<or> s_Episode s > 0
               then (c\<lparr>cs_Episodes := cs_Episodes c + 1\<rparr>, List.insert (s_Key s) shows')
               else (c\<lparr>cs_Movies := cs_Movies c + 1\<rparr>, shows')))"

definition summarizeCycle :: "Slot list \<Rightarrow> CycleSummary" where
  "summarizeCycle deck =
     (let (c, shows') = foldl summarize_step
            (\<lparr>cs_Episodes = 0, cs_Movies = 0, cs_Series = 0, cs_RuntimeMs = 0\<rparr>, []) deck
      in c\<lparr>cs_Series := int (length shows')\<rparr>)"

definition ProgramCount :: "Slot list \<Rightarrow> nat" where
  "ProgramCount slots = length (filter (\<lambda>s. IsProgram s \<and> s_Segment s \<le> 1) slots)"

definition PendingCount :: "Slot list \<Rightarrow> nat" where
  "PendingCount slots =
     length (filter (\<lambda>s. s_Kind s = SlotPending \<or> (s_Kind s = SlotFiller \<and> s_Key s \<noteq> '''')) slots)"

definition BreakCount :: "Slot list \<Rightarrow> nat" where
  "BreakCount slots = length (filter (\<lambda>s. s_Kind s = SlotFiller \<and> s_Key s = '''') slots)"

lemma programRuntime_sum: "programRuntime slots = (\<Sum>s\<leftarrow>filter IsProgram slots. s_DurationMs s)"
proof -
  have "foldl (\<lambda>total s. if IsProgram s then total + s_DurationMs s else total) a slots =
        a + (\<Sum>s\<leftarrow>filter IsProgram slots. s_DurationMs s)" for a
    by (induction slots arbitrary: a) auto
  then show ?thesis by (simp add: programRuntime_def)
qed

lemma programRuntime_simps [simp]:
  "programRuntime [] = 0"
  "programRuntime (s # ss) = (if IsProgram s then s_DurationMs s else 0) + programRuntime ss"
  "programRuntime (xs @ ys) = programRuntime xs + programRuntime ys"
  by (simp_all add: programRuntime_sum)

lemma programRuntime_mset: "mset xs = mset ys \<Longrightarrow> programRuntime xs = programRuntime ys"
  unfolding programRuntime_sum by (rule sum_list_mset_eq) (rule mset_filter_eq)

text \<open>Every slot that is not flex is a programme, a pending title or a break, and only one of them.\<close>

lemma slot_kinds_disjoint:
  "length (filter IsProgram slots) + PendingCount slots + BreakCount slots +
   length (filter (\<lambda>s. s_Kind s = SlotFlex) slots) = length slots"
  unfolding PendingCount_def BreakCount_def IsProgram_def
  by (induction slots) (auto split: SlotKind.split, (metis SlotKind.exhaust)+)

end
