(* ===== verification/Policy.thy ===== *)
theory Policy
  imports Channel
begin

text \<open>
  The channel policy, \<^verbatim>\<open>internal/schedule/policy.go\<close>, \<^verbatim>\<open>watermark_policy.go\<close> and the records of
  \<^verbatim>\<open>rule.go\<close>: the sparse stored form with its owners, the closed enumerations and the validator that
  guards them, and \<^verbatim>\<open>Resolved\<close>, which fills every default once. A closed enumeration of the source is a
  string type; its values are the constructors and any other string is the last constructor, which
  the validator rejects. The language code parser (a third-party package) is the parameter \<open>parse_base\<close>.
\<close>

subsection \<open>Enumerations\<close>

datatype OrderingMode = OrderInherit | OrderSequential | OrderShuffle | OrderSyndication | OrderOther string

definition AirsInOrder :: "OrderingMode \<Rightarrow> bool" where
  "AirsInOrder o' \<longleftrightarrow> o' = OrderSequential"

definition OrderingMode_valid :: "OrderingMode \<Rightarrow> bool" where
  "OrderingMode_valid m = (case m of OrderOther _ \<Rightarrow> False | _ \<Rightarrow> True)"

datatype UnratedPolicy = UnratedDefault | UnratedExclude | UnratedAllow | UnratedOther string

definition UnratedPolicy_valid :: "UnratedPolicy \<Rightarrow> bool" where
  "UnratedPolicy_valid u = (case u of UnratedOther _ \<Rightarrow> False | _ \<Rightarrow> True)"

datatype SeasonalMode = SeasonalDefault | SeasonalOff | SeasonalAuto | SeasonalExclusive | SeasonalOther string

definition SeasonalMode_valid :: "SeasonalMode \<Rightarrow> bool" where
  "SeasonalMode_valid m = (case m of SeasonalOther _ \<Rightarrow> False | _ \<Rightarrow> True)"

datatype OffSeason = OffSeasonDefault | OffSeasonLoop | OffSeasonDark | OffSeasonOther string

definition OffSeason_valid :: "OffSeason \<Rightarrow> bool" where
  "OffSeason_valid m = (case m of OffSeasonOther _ \<Rightarrow> False | _ \<Rightarrow> True)"

datatype HolidayStrength =
  HolidayStrengthDefault | HolidayStrengthLight | HolidayStrengthFeatured | HolidayStrengthHeavy
  | HolidayStrengthOther string

definition HolidayStrength_valid :: "HolidayStrength \<Rightarrow> bool" where
  "HolidayStrength_valid m = (case m of HolidayStrengthOther _ \<Rightarrow> False | _ \<Rightarrow> True)"

datatype HolidayPlacement =
  HolidayPlacementDefault | HolidayPlacementEvenings | HolidayPlacementAnytime | HolidayPlacementOther string

definition HolidayPlacement_valid :: "HolidayPlacement \<Rightarrow> bool" where
  "HolidayPlacement_valid m = (case m of HolidayPlacementOther _ \<Rightarrow> False | _ \<Rightarrow> True)"

datatype RuleSource = RuleSourceUnset | RuleSourceLLM | RuleSourceOperator | RuleSourceOther string

definition isLLM :: "RuleSource \<Rightarrow> bool" where
  "isLLM s \<longleftrightarrow> s = RuleSourceLLM"

subsection \<open>Records\<close>

record AudiencePolicy =
  au_Ceiling :: Rating
  au_Unrated :: UnratedPolicy

record SeparationPolicy =
  sep_EpisodeNoRepeat :: duration
  sep_MovieNoRepeat :: duration
  sep_SeriesMinGap :: duration
  sep_BlockMax :: int

record SeasonalPolicy =
  se_Mode :: SeasonalMode
  se_Holidays :: "string list"
  se_OffSeason :: OffSeason
  se_Strength :: HolidayStrength
  se_Placement :: HolidayPlacement

record AppliedRelaxation =
  ar_Kind :: string
  ar_From :: string
  ar_To :: string

record RuleOrdering =
  ro_Ordering :: OrderingMode
  ro_Separation :: SeparationPolicy
  ro_NoBreaks :: bool

record WhenPredicate =
  wp_Weekend :: bool
  wp_Weekday :: bool
  wp_Days :: "int list"
  wp_HourFrom :: int
  wp_HourTo :: int
  wp_Holiday :: string
  wp_DateFrom :: "gotime option"
  wp_DateTo :: "gotime option"

record SchedulingRule =
  sr_ID :: string
  sr_Source :: RuleSource
  sr_Label :: string
  sr_Priority :: int
  sr_When :: WhenPredicate
  sr_What :: "ScopePolicy option"
  sr_How :: RuleOrdering
  sr_Window :: duration

abbreviation WindowFull :: duration where "WindowFull \<equiv> -1"

abbreviation empty_separation :: SeparationPolicy where
  "empty_separation \<equiv> \<lparr>sep_EpisodeNoRepeat = 0, sep_MovieNoRepeat = 0, sep_SeriesMinGap = 0, sep_BlockMax = 0\<rparr>"

abbreviation empty_audience :: AudiencePolicy where
  "empty_audience \<equiv> \<lparr>au_Ceiling = '''', au_Unrated = UnratedDefault\<rparr>"

abbreviation empty_seasonal :: SeasonalPolicy where
  "empty_seasonal \<equiv> \<lparr>se_Mode = SeasonalDefault, se_Holidays = [], se_OffSeason = OffSeasonDefault,
     se_Strength = HolidayStrengthDefault, se_Placement = HolidayPlacementDefault\<rparr>"

abbreviation empty_how :: RuleOrdering where
  "empty_how \<equiv> \<lparr>ro_Ordering = OrderInherit, ro_Separation = empty_separation, ro_NoBreaks = False\<rparr>"

abbreviation empty_when :: WhenPredicate where
  "empty_when \<equiv> \<lparr>wp_Weekend = False, wp_Weekday = False, wp_Days = [], wp_HourFrom = 0, wp_HourTo = 0,
     wp_Holiday = '''', wp_DateFrom = None, wp_DateTo = None\<rparr>"

definition empty_rule :: SchedulingRule where
  "empty_rule = \<lparr>sr_ID = '''', sr_Source = RuleSourceUnset, sr_Label = '''', sr_Priority = 0, sr_When = empty_when,
     sr_What = None, sr_How = empty_how, sr_Window = 0\<rparr>"

record FillerGeography =
  fg_Country :: string
  fg_Place :: string

text \<open>\<^verbatim>\<open>EraWindows\<close> tells a nil slice from an empty one, so it is an option of a list.\<close>

record FillerSelection =
  fs_Era :: "Range option"
  fs_EraWindows :: "Range list option"
  fs_Audience :: string
  fs_Categories :: "string list"
  fs_Kinds :: "string list"
  fs_Pinned :: "string list"
  fs_Excluded :: "string list"
  fs_Geography :: "FillerGeography option"
  fs_Language :: string

record AutoCurate =
  ac_MinScorePct :: int
  ac_MaxTitles :: int

record PlayoutPolicy =
  pp_Backend :: string
  pp_AudioLanguage :: string

text \<open>A \<^verbatim>\<open>float64\<close> that came from JSON or a setting: a number, or the NaN the validator refuses.\<close>

datatype float64 = NaN | Num rat

record WatermarkPolicy =
  wm_Enabled :: "bool option"
  wm_Corner :: string
  wm_Opacity :: "float64 option"
  wm_Look :: string
  wm_Color :: string
  wm_Holiday :: "bool option"
  wm_Motifs :: "(string \<times> string) list"
  wm_Size :: "float64 option"
  wm_Margin :: "float64 option"
  wm_Image :: string
  wm_Callsign :: string

record ChannelPolicy =
  cp_Scope :: ScopePolicy
  cp_Audience :: AudiencePolicy
  cp_Separation :: SeparationPolicy
  cp_Ordering :: OrderingMode
  cp_Seasonal :: SeasonalPolicy
  cp_Rules :: "SchedulingRule list"
  cp_Filler :: "FillerSelection option"
  cp_BreaksPerHour :: "int option"
  cp_BreakDuration :: "duration option"
  cp_CommercialSpacing :: "duration option"
  cp_MidRoll :: "bool option"
  cp_Window :: duration
  cp_AutoCurate :: "AutoCurate option"
  cp_Playout :: "PlayoutPolicy option"
  cp_Watermark :: "WatermarkPolicy option"
  cp_Applied :: "AppliedRelaxation list"
  cp_OperatorSet :: "string list"

definition empty_policy :: ChannelPolicy where
  "empty_policy = \<lparr>cp_Scope = empty_scope, cp_Audience = empty_audience, cp_Separation = empty_separation,
     cp_Ordering = OrderInherit, cp_Seasonal = empty_seasonal, cp_Rules = [], cp_Filler = None,
     cp_BreaksPerHour = None, cp_BreakDuration = None, cp_CommercialSpacing = None, cp_MidRoll = None,
     cp_Window = 0, cp_AutoCurate = None, cp_Playout = None, cp_Watermark = None, cp_Applied = [],
     cp_OperatorSet = []\<rparr>"

subsection \<open>Playout backend\<close>

abbreviation PlayoutBackendInternal :: string where "PlayoutBackendInternal \<equiv> ''internal''"
abbreviation PlayoutBackendTunarr :: string where "PlayoutBackendTunarr \<equiv> ''tunarr''"

definition NormalizePlayoutBackend :: "string \<Rightarrow> string" where
  "NormalizePlayoutBackend backend = trim_space backend"

definition IsValidPlayoutBackend :: "string \<Rightarrow> bool" where
  "IsValidPlayoutBackend b \<longleftrightarrow> b = PlayoutBackendInternal \<or> b = PlayoutBackendTunarr"

definition IsInternalBackend :: "string \<Rightarrow> bool" where
  "IsInternalBackend b \<longleftrightarrow> b = PlayoutBackendInternal"

definition IsTunarrBackend :: "string \<Rightarrow> bool" where
  "IsTunarrBackend b \<longleftrightarrow> b = PlayoutBackendTunarr"

definition HasExplicitPlayoutBackend :: "ChannelPolicy \<Rightarrow> bool" where
  "HasExplicitPlayoutBackend p = (case cp_Playout p of None \<Rightarrow> False | Some pl \<Rightarrow> pp_Backend pl \<noteq> '''')"

definition ResolveAudioLanguage :: "ChannelPolicy \<Rightarrow> string \<Rightarrow> string" where
  "ResolveAudioLanguage p globalAudioLanguage =
     (case cp_Playout p of
        Some pl \<Rightarrow> (if trim_space (pp_AudioLanguage pl) \<noteq> '''' then trim_space (pp_AudioLanguage pl)
                  else trim_space globalAudioLanguage)
      | None \<Rightarrow> trim_space globalAudioLanguage)"

definition PlaysInternally :: "ChannelPolicy \<Rightarrow> string \<Rightarrow> bool" where
  "PlaysInternally p globalBackend =
     (if HasExplicitPlayoutBackend p
      then (case cp_Playout p of None \<Rightarrow> False | Some pl \<Rightarrow> pp_Backend pl = PlayoutBackendInternal)
      else NormalizePlayoutBackend globalBackend = PlayoutBackendInternal)"

definition InternalTransportPlayable :: "ChannelStatus \<Rightarrow> ChannelPolicy \<Rightarrow> bool \<Rightarrow> bool" where
  "InternalTransportPlayable status p publishedInternal =
     (if \<not> Reconcilable status \<or> status = StatusEmpty then False
      else if HasExplicitPlayoutBackend p then PlaysInternally p PlayoutBackendTunarr
      else publishedInternal)"

subsection \<open>Filler selection\<close>

definition fillerAudienceForCeiling :: "Rating \<Rightarrow> string" where
  "fillerAudienceForCeiling ceil =
     (let r = Normalize ceil
      in if r \<in> {''TV-Y'', ''TV-Y7''} then ''kids''
         else if r \<in> {''G'', ''TV-G'', ''PG'', ''TV-PG''} then ''family''
         else ''general'')"

definition boundedRanges :: "Range list \<Rightarrow> bool" where
  "boundedRanges rs \<longleftrightarrow> \<not> list_ex (\<lambda>r. rg_From r = 0 \<or> rg_To r = 0) rs \<and> length rs > 0"

definition empty_selection :: FillerSelection where
  "empty_selection = \<lparr>fs_Era = None, fs_EraWindows = None, fs_Audience = '''', fs_Categories = [], fs_Kinds = [],
     fs_Pinned = [], fs_Excluded = [], fs_Geography = None, fs_Language = ''''\<rparr>"

definition SeedFillerSelection :: "ChannelPolicy \<Rightarrow> FillerSelection" where
  "SeedFillerSelection p =
     (let seed = empty_selection\<lparr>fs_Audience := fillerAudienceForCeiling (au_Ceiling (cp_Audience p))\<rparr>;
          (era, windows) = FillerEra (cp_Scope p)
      in case era of
           Some r \<Rightarrow> seed\<lparr>fs_Era := Some r\<rparr>
         | None \<Rightarrow> (if boundedRanges windows then seed\<lparr>fs_EraWindows := Some windows\<rparr> else seed))"

definition fillerKinds :: "string list" where
  "fillerKinds = [''commercial'', ''bumper'', ''station_id'', ''psa'', ''trailer'', ''interstitial'', ''political'', ''news'']"

definition fillerAudiences :: "string list" where
  "fillerAudiences = [''kids'', ''family'', ''general'', ''late_night'']"

datatype filler_error =
    UnknownAudience string | UnknownKind string | UnknownLanguage string | InvertedEra int int
  | EraAndWindows | NoEraWindows | TooManyEraWindows | InvalidEraWindow | EraWindowsUnsorted

definition FillerSelection_validate :: "(string \<Rightarrow> bool) \<Rightarrow> FillerSelection option \<Rightarrow> filler_error option" where
  "FillerSelection_validate langcode_Valid sel =
     (case sel of None \<Rightarrow> None
      | Some f \<Rightarrow>
          (if fs_Audience f \<noteq> '''' \<and> fs_Audience f \<notin> set fillerAudiences then Some (UnknownAudience (fs_Audience f))
           else (case find (\<lambda>k. k \<notin> set fillerKinds) (fs_Kinds f) of
             Some k \<Rightarrow> Some (UnknownKind k)
           | None \<Rightarrow>
               (if fs_Language f \<noteq> '''' \<and> \<not> langcode_Valid (fs_Language f) then Some (UnknownLanguage (fs_Language f))
                else
                  (let inverted = (case fs_Era f of None \<Rightarrow> False
                         | Some r \<Rightarrow> rg_From r > 0 \<and> rg_To r > 0 \<and> rg_From r > rg_To r)
                   in if inverted
                      then Some (InvertedEra (rg_From (the (fs_Era f))) (rg_To (the (fs_Era f))))
                      else if fs_Era f \<noteq> None \<and> fs_EraWindows f \<noteq> None then Some EraAndWindows
                      else (case fs_EraWindows f of
                              None \<Rightarrow> None
                            | Some ws \<Rightarrow>
                                (if ws = [] then Some NoEraWindows
                                 else if length ws > 8 then Some TooManyEraWindows
                                 else if list_ex (\<lambda>r. \<not> validYearRange r True) ws then Some InvalidEraWindow
                                 else if \<not> sameRanges ws (NormalizeRanges ws) then Some EraWindowsUnsorted
                                 else None)))))))"

end
