(* ===== verification/LangCode.thy ===== *)
theory LangCode
  imports Prelude
begin

text \<open>
  Language codes, \<^verbatim>\<open>internal/langcode/langcode.go\<close>: the many spellings of a language mapped onto one.
  \<open>parse_base\<close> is \<^verbatim>\<open>language.ParseBase\<close> of the third-party \<^verbatim>\<open>x/text\<close>: the canonical form of a two or
  three letter base language, or none.
\<close>

definition bibliographic :: "string \<Rightarrow> string option" where
  "bibliographic = map_of
     [(''alb'', ''sqi''), (''arm'', ''hye''), (''baq'', ''eus''), (''bur'', ''mya''), (''chi'', ''zho''),
      (''cze'', ''ces''), (''dut'', ''nld''), (''fre'', ''fra''), (''geo'', ''kat''), (''ger'', ''deu''),
      (''gre'', ''ell''), (''ice'', ''isl''), (''mac'', ''mkd''), (''mao'', ''mri''), (''may'', ''msa''),
      (''per'', ''fas''), (''rum'', ''ron''), (''slo'', ''slk''), (''tib'', ''bod''), (''wel'', ''cym'')]"

definition detectorSpelling :: "string \<Rightarrow> string option" where
  "detectorSpelling = map_of
     [(''iw'', ''he''), (''in'', ''id''), (''ji'', ''yi''), (''jv'', ''jw''), (''nb'', ''no''), (''fil'', ''tl''),
      (''cmn'', ''zh'')]"

definition special_codes :: "string list" where
  "special_codes = [''und'', ''mul'', ''zxx'', ''mis'']"

text \<open>The accented names are written as their UTF-8 bytes.\<close>

definition language_names :: "string \<Rightarrow> string option" where
  "language_names = map_of
     [(''english'', ''en''), (''spanish'', ''es''), (''espanol'', ''es''),
      (''espa'' @ [CHR 0xC3, CHR 0xB1] @ ''ol'', ''es''), (''french'', ''fr''), (''francais'', ''fr''),
      (''fran'' @ [CHR 0xC3, CHR 0xA7] @ ''ais'', ''fr''), (''german'', ''de''), (''deutsch'', ''de'')]"

text \<open>The code up to its first subtag separator, unless that is its first byte.\<close>

definition strip_subtag :: "string \<Rightarrow> string" where
  "strip_subtag c =
     (let base = takeWhile (\<lambda>x. x \<noteq> CHR ''-'' \<and> x \<noteq> CHR ''_'') c
      in if base = '''' then c else base)"

definition respell :: "string \<Rightarrow> string" where
  "respell c = (case detectorSpelling c of Some d \<Rightarrow> d | None \<Rightarrow> c)"

definition lang_Normalize :: "(string \<Rightarrow> string option) \<Rightarrow> string \<Rightarrow> string" where
  "lang_Normalize parse_base code =
     (let c = to_lower (trim_space code)
      in if c = '''' then ''''
         else
           (let c = strip_subtag c
            in case language_names c of
                 Some n \<Rightarrow> n
               | None \<Rightarrow>
                   (let c = (case bibliographic c of Some t \<Rightarrow> t | None \<Rightarrow> c);
                        c = (if length c = 2 \<or> length c = 3
                             then (case parse_base c of Some b \<Rightarrow> b | None \<Rightarrow> c) else c)
                    in respell c)))"

definition lang_Valid :: "(string \<Rightarrow> string option) \<Rightarrow> string \<Rightarrow> bool" where
  "lang_Valid parse_base code =
     (let c = lang_Normalize parse_base code
      in if length c < 2 \<or> length c > 3 \<or> c \<in> set special_codes \<or>
            (length c = 3 \<and> string_less_eq ''qaa'' c \<and> string_less_eq c ''qtz'')
         then False else parse_base c \<noteq> None)"

end
