(* ===== verification/Resolve.thy ===== *)
theory Resolve
  imports Policy LangCode
begin

text \<open>
  Resolution and validation of a channel policy: \<^verbatim>\<open>Resolved\<close>, \<^verbatim>\<open>Validate\<close> and their helpers in
  \<^verbatim>\<open>policy.go\<close>, and the watermark defaults and validation of \<^verbatim>\<open>watermark_policy.go\<close>. The lemmas show that
  enforcement never meets an unset value, and that the fail-closed rating default holds.
\<close>

subsection \<open>Watermark (watermark_policy.go)\<close>

definition WatermarkLooks :: "string list" where
  "WatermarkLooks = [''plate'', ''text'', ''outline'', ''small-plate'', ''tint'', ''twotone'', ''badge'',
     ''lockup'', ''glass'', ''stripe'']"

definition WatermarkColors :: "string list" where
  "WatermarkColors = [''era'', ''amber'', ''cyan'', ''green'', ''red'', ''pink'', ''yellow'']"

definition WatermarkMotifs :: "string \<Rightarrow> string list option" where
  "WatermarkMotifs = map_of
     [(''halloween'', [''pumpkin'', ''bat'', ''ghost'']), (''thanksgiving'', [''leaf'']),
      (''christmas'', [''holly'', ''snowflake'']), (''newyear'', [''firework'']), (''valentines'', [''heart''])]"

record WatermarkInstall =
  wi_Opacity :: float64
  wi_Look :: string

record ResolvedWatermark =
  rw_Enabled :: bool
  rw_Corner :: string
  rw_Opacity :: float64
  rw_Look :: string
  rw_Color :: string
  rw_Holiday :: bool
  rw_Size :: float64
  rw_Margin :: float64
  rw_Image :: string
  rw_Callsign :: string

definition or_default :: "string \<Rightarrow> string \<Rightarrow> string" where
  "or_default v d = (if v \<noteq> '''' then v else d)"

definition ptr_or :: "'a option \<Rightarrow> 'a \<Rightarrow> 'a" where
  "ptr_or v d = (case v of None \<Rightarrow> d | Some x \<Rightarrow> x)"

definition ResolveWatermark :: "WatermarkPolicy option \<Rightarrow> WatermarkInstall \<Rightarrow> ResolvedWatermark" where
  "ResolveWatermark p install =
     (let r = \<lparr>rw_Enabled = True, rw_Corner = ''top-right'', rw_Opacity = wi_Opacity install,
               rw_Look = wi_Look install, rw_Color = ''era'', rw_Holiday = True,
               rw_Size = Num (6 / 100), rw_Margin = Num (5 / 100), rw_Image = '''', rw_Callsign = ''''\<rparr>
      in case p of None \<Rightarrow> r
         | Some w \<Rightarrow> \<lparr>rw_Enabled = ptr_or (wm_Enabled w) (rw_Enabled r),
                     rw_Corner = or_default (wm_Corner w) (rw_Corner r),
                     rw_Opacity = ptr_or (wm_Opacity w) (rw_Opacity r),
                     rw_Look = or_default (wm_Look w) (rw_Look r),
                     rw_Color = or_default (wm_Color w) (rw_Color r),
                     rw_Holiday = ptr_or (wm_Holiday w) (rw_Holiday r),
                     rw_Size = ptr_or (wm_Size w) (rw_Size r),
                     rw_Margin = ptr_or (wm_Margin w) (rw_Margin r),
                     rw_Image = trim_space (wm_Image w), rw_Callsign = trim_space (wm_Callsign w)\<rparr>)"

definition motif_choice :: "WatermarkPolicy \<Rightarrow> string \<Rightarrow> string" where
  "motif_choice w holiday = (case map_of (wm_Motifs w) holiday of None \<Rightarrow> '''' | Some m \<Rightarrow> m)"

definition WatermarkMotif :: "WatermarkPolicy option \<Rightarrow> string \<Rightarrow> string" where
  "WatermarkMotif p holiday =
     (case WatermarkMotifs holiday of
        None \<Rightarrow> ''''
      | Some [] \<Rightarrow> ''''
      | Some (c # cs) \<Rightarrow>
          (case p of None \<Rightarrow> c
           | Some w \<Rightarrow> (if motif_choice w holiday \<in> set (c # cs) then motif_choice w holiday else c)))"

definition WatermarkEraDecade :: "ScopePolicy \<Rightarrow> int" where
  "WatermarkEraDecade sc =
     (case Era (sc_Dates sc) of None \<Rightarrow> 0
      | Some r \<Rightarrow>
          (if rg_From r \<le> 0 \<or> rg_To r < rg_From r \<or> rg_From r sdiv 10 \<noteq> rg_To r sdiv 10 then 0
           else rg_From r sdiv 10 * 10))"

datatype watermark_error =
    BadCorner string | BadLook string | BadColor string | NotAHoliday string | BadMotif string string
  | OutOfRange string | CallsignTooLong

fun float_out_of_range :: "float64 option \<Rightarrow> rat \<Rightarrow> rat \<Rightarrow> bool" where
  "float_out_of_range None lo hi = False"
| "float_out_of_range (Some NaN) lo hi = True"
| "float_out_of_range (Some (Num v)) lo hi = (v < lo \<or> v > hi)"

definition motif_error :: "string \<times> string \<Rightarrow> watermark_error option" where
  "motif_error hm =
     (case WatermarkMotifs (fst hm) of None \<Rightarrow> Some (NotAHoliday (fst hm))
      | Some choices \<Rightarrow> (if snd hm \<notin> set choices then Some (BadMotif (fst hm) (snd hm)) else None))"

text \<open>The callsign limit counts bytes here; the source counts runes, which agree on ASCII.\<close>

definition WatermarkPolicy_validate :: "WatermarkPolicy option \<Rightarrow> watermark_error option" where
  "WatermarkPolicy_validate p =
     (case p of None \<Rightarrow> None
      | Some w \<Rightarrow>
          (if wm_Corner w \<notin> {'''', ''top-right'', ''top-left'', ''bottom-right'', ''bottom-left''}
           then Some (BadCorner (wm_Corner w))
           else if wm_Look w \<noteq> '''' \<and> wm_Look w \<notin> set WatermarkLooks then Some (BadLook (wm_Look w))
           else if wm_Color w \<noteq> '''' \<and> wm_Color w \<notin> set WatermarkColors then Some (BadColor (wm_Color w))
           else (case List.map_filter motif_error (wm_Motifs w) of
                   e # _ \<Rightarrow> Some e
                 | [] \<Rightarrow>
                     (if float_out_of_range (wm_Opacity w) (1 / 10) 1 then Some (OutOfRange ''opacity'')
                      else if float_out_of_range (wm_Size w) (2 / 100) (15 / 100) then Some (OutOfRange ''size'')
                      else if float_out_of_range (wm_Margin w) 0 (2 / 10) then Some (OutOfRange ''margin'')
                      else if length (trim_space (wm_Callsign w)) > 12 then Some CallsignTooLong
                      else None))))"

subsection \<open>The resolved policy\<close>

record ResolvedSeparation =
  rs_EpisodeNoRepeat :: duration
  rs_MovieNoRepeat :: duration
  rs_SeriesMinGap :: duration
  rs_BlockMax :: int

record ResolvedSeasonal =
  rse_Mode :: SeasonalMode
  rse_Holidays :: "string list"
  rse_OffSeason :: OffSeason
  rse_Strength :: HolidayStrength
  rse_Evenings :: bool

record ResolvedPolicy =
  rp_Scope :: ScopePolicy
  rp_Ceiling :: Rating
  rp_Unrated :: UnratedPolicy
  rp_Sep :: ResolvedSeparation
  rp_Ordering :: OrderingMode
  rp_Seasonal :: ResolvedSeasonal
  rp_LastAired :: "string \<rightharpoonup> gotime"
  rp_Calendar :: Calendar

definition resolveUnrated :: "AudiencePolicy \<Rightarrow> UnratedPolicy" where
  "resolveUnrated a =
     (if au_Unrated a \<noteq> UnratedDefault then au_Unrated a
      else if au_Ceiling a \<noteq> '''' \<and> fst (Rank (au_Ceiling a)) \<le> KidsCeilingRank then UnratedExclude
      else UnratedAllow)"

definition orderingFromStrategy :: "Strategy \<Rightarrow> OrderingMode" where
  "orderingFromStrategy s =
     (case s of Shuffle \<Rightarrow> OrderShuffle | Sequential \<Rightarrow> OrderSequential | TimeSlot \<Rightarrow> OrderSequential
      | StrategyOther _ \<Rightarrow> OrderSyndication)"

definition orDur :: "duration \<Rightarrow> duration \<Rightarrow> duration" where
  "orDur d def = (if d = 0 then def else d)"

definition orInt :: "int \<Rightarrow> int \<Rightarrow> int" where
  "orInt v def = (if v = 0 then def else v)"

abbreviation defaultEpisodeNoRepeat :: duration where "defaultEpisodeNoRepeat \<equiv> 168 * hour"
abbreviation defaultMovieNoRepeat :: duration where "defaultMovieNoRepeat \<equiv> 720 * hour"
abbreviation defaultSeriesMinGap :: duration where "defaultSeriesMinGap \<equiv> 2 * hour"
abbreviation defaultBlockMax :: int where "defaultBlockMax \<equiv> 2"

definition empty_calendar :: Calendar where
  "empty_calendar = \<lparr>cl_Zone = None, cl_Country = '''', cl_Holidays = None\<rparr>"

definition Resolved :: "ChannelPolicy \<Rightarrow> Strategy \<Rightarrow> bool \<Rightarrow> ResolvedPolicy" where
  "Resolved p strategy singleSeries =
     (let sep = \<lparr>rs_EpisodeNoRepeat = orDur (sep_EpisodeNoRepeat (cp_Separation p)) defaultEpisodeNoRepeat,
                 rs_MovieNoRepeat = orDur (sep_MovieNoRepeat (cp_Separation p)) defaultMovieNoRepeat,
                 rs_SeriesMinGap = orDur (sep_SeriesMinGap (cp_Separation p)) defaultSeriesMinGap,
                 rs_BlockMax = orInt (sep_BlockMax (cp_Separation p)) defaultBlockMax\<rparr>;
          sep = (if singleSeries then sep\<lparr>rs_SeriesMinGap := 0, rs_BlockMax := 0\<rparr> else sep);
          ordering = (if cp_Ordering p = OrderInherit then orderingFromStrategy strategy else cp_Ordering p);
          mode = (if se_Mode (cp_Seasonal p) = SeasonalDefault then SeasonalAuto else se_Mode (cp_Seasonal p));
          off = (if se_OffSeason (cp_Seasonal p) = OffSeasonDefault then OffSeasonLoop else se_OffSeason (cp_Seasonal p));
          strength = (if se_Strength (cp_Seasonal p) = HolidayStrengthDefault then HolidayStrengthFeatured
                      else se_Strength (cp_Seasonal p))
      in \<lparr>rp_Scope = cp_Scope p, rp_Ceiling = au_Ceiling (cp_Audience p),
          rp_Unrated = resolveUnrated (cp_Audience p), rp_Sep = sep, rp_Ordering = ordering,
          rp_Seasonal = \<lparr>rse_Mode = mode, rse_Holidays = se_Holidays (cp_Seasonal p), rse_OffSeason = off,
             rse_Strength = strength, rse_Evenings = se_Placement (cp_Seasonal p) \<noteq> HolidayPlacementAnytime\<rparr>,
          rp_LastAired = Map.empty, rp_Calendar = empty_calendar\<rparr>)"

subsection \<open>Validation\<close>

datatype policy_error =
    DatesError date_error | UnknownOrdering | UnknownUnrated | UnmappedCeiling Rating | UnknownSeasonalMode
  | UnknownOffSeason | UnknownStrength | UnknownPlacement | FillerError filler_error
  | WatermarkError watermark_error | BreakTooShort duration | NegativeSpacing duration
  | BadMinScore int | BadMaxTitles int

definition rule_dates_error :: "SchedulingRule \<Rightarrow> date_error option" where
  "rule_dates_error r =
     (case sr_What r of None \<Rightarrow> None
      | Some s \<Rightarrow> validateDates ''channel policy: rule.what.dates'' (sc_Dates s))"

text \<open>The checks of \<^verbatim>\<open>Validate\<close> in their order; the policy's error is the first that fails.\<close>

definition policy_checks :: "(string \<Rightarrow> bool) \<Rightarrow> ChannelPolicy \<Rightarrow> policy_error option list" where
  "policy_checks langcode_Valid p =
     (map_option DatesError (validateDates ''channel policy: scope.dates'' (sc_Dates (cp_Scope p)))
      # map (\<lambda>r. map_option DatesError (rule_dates_error r)) (cp_Rules p))
     @ [if \<not> OrderingMode_valid (cp_Ordering p) then Some UnknownOrdering else None,
        if \<not> UnratedPolicy_valid (au_Unrated (cp_Audience p)) then Some UnknownUnrated else None,
        if au_Ceiling (cp_Audience p) \<noteq> '''' \<and> \<not> Mapped (au_Ceiling (cp_Audience p))
        then Some (UnmappedCeiling (au_Ceiling (cp_Audience p))) else None,
        if \<not> SeasonalMode_valid (se_Mode (cp_Seasonal p)) then Some UnknownSeasonalMode else None,
        if \<not> OffSeason_valid (se_OffSeason (cp_Seasonal p)) then Some UnknownOffSeason else None,
        if \<not> HolidayStrength_valid (se_Strength (cp_Seasonal p)) then Some UnknownStrength else None,
        if \<not> HolidayPlacement_valid (se_Placement (cp_Seasonal p)) then Some UnknownPlacement else None,
        map_option FillerError (FillerSelection_validate langcode_Valid (cp_Filler p)),
        map_option WatermarkError (WatermarkPolicy_validate (cp_Watermark p)),
        (case cp_BreakDuration p of None \<Rightarrow> None | Some d \<Rightarrow> if d < 30 * second then Some (BreakTooShort d) else None),
        (case cp_CommercialSpacing p of None \<Rightarrow> None | Some d \<Rightarrow> if d < 0 then Some (NegativeSpacing d) else None),
        (case cp_AutoCurate p of None \<Rightarrow> None
         | Some a \<Rightarrow> (if ac_MinScorePct a < 0 \<or> ac_MinScorePct a > 100 then Some (BadMinScore (ac_MinScorePct a))
                    else if ac_MaxTitles a < 0 then Some (BadMaxTitles (ac_MaxTitles a)) else None))]"

definition ChannelPolicy_Validate :: "(string \<Rightarrow> bool) \<Rightarrow> ChannelPolicy \<Rightarrow> policy_error option" where
  "ChannelPolicy_Validate langcode_Valid p =
     (case find (\<lambda>e. e \<noteq> None) (policy_checks langcode_Valid p) of None \<Rightarrow> None | Some e \<Rightarrow> e)"

definition DateAliasConflict :: "ChannelPolicy \<Rightarrow> bool" where
  "DateAliasConflict p \<longleftrightarrow>
     sc_eraAndDates (cp_Scope p) \<or>
     list_ex (\<lambda>r. case sr_What r of None \<Rightarrow> False | Some s \<Rightarrow> sc_eraAndDates s) (cp_Rules p)"

lemma ChannelPolicy_Validate_None:
  "ChannelPolicy_Validate lv p = None \<longleftrightarrow> (\<forall>e\<in>set (policy_checks lv p). e = None)"
proof
  assume none: "ChannelPolicy_Validate lv p = None"
  show "\<forall>e\<in>set (policy_checks lv p). e = None"
  proof (cases "find (\<lambda>e. e \<noteq> None) (policy_checks lv p)")
    case None
    then show ?thesis by (simp add: find_None_iff)
  next
    case (Some e)
    then have "e \<noteq> None" by (auto simp: find_Some_iff)
    then show ?thesis using none Some by (simp add: ChannelPolicy_Validate_def)
  qed
next
  assume "\<forall>e\<in>set (policy_checks lv p). e = None"
  then have "find (\<lambda>e. e \<noteq> None) (policy_checks lv p) = None" by (simp add: find_None_iff)
  then show "ChannelPolicy_Validate lv p = None" by (simp add: ChannelPolicy_Validate_def)
qed

text \<open>A policy whose every enforcement-facing value is concrete.\<close>

definition resolved_concrete :: "ResolvedPolicy \<Rightarrow> bool" where
  "resolved_concrete rp \<longleftrightarrow>
     rp_Ordering rp \<in> {OrderSequential, OrderShuffle, OrderSyndication} \<and>
     rp_Unrated rp \<in> {UnratedExclude, UnratedAllow} \<and>
     (rp_Ceiling rp = '''' \<or> Mapped (rp_Ceiling rp)) \<and>
     rse_Mode (rp_Seasonal rp) \<in> {SeasonalOff, SeasonalAuto, SeasonalExclusive} \<and>
     rse_OffSeason (rp_Seasonal rp) \<in> {OffSeasonLoop, OffSeasonDark} \<and>
     rse_Strength (rp_Seasonal rp) \<in> {HolidayStrengthLight, HolidayStrengthFeatured, HolidayStrengthHeavy} \<and>
     rs_EpisodeNoRepeat (rp_Sep rp) \<noteq> 0 \<and> rs_MovieNoRepeat (rp_Sep rp) \<noteq> 0"

lemma Resolved_fields [simp]:
  "rp_Scope (Resolved p st sg) = cp_Scope p"
  "rp_Ceiling (Resolved p st sg) = au_Ceiling (cp_Audience p)"
  "rp_Unrated (Resolved p st sg) = resolveUnrated (cp_Audience p)"
  by (simp_all add: Resolved_def Let_def)

text \<open>
  C39. Enforcement never meets an unset or unknown value: every policy the validator accepts resolves,
  under every strategy, to a concrete ordering, unrated policy, seasonal mode, off-season and
  strength, a ceiling that is absent or on the ladder, and non-zero repeat windows; and an absent
  unrated policy resolves to exclusion under every ceiling up to TV-PG.
\<close>

theorem Resolved_concrete:
  assumes "ChannelPolicy_Validate langcode_Valid p = None"
  shows "resolved_concrete (Resolved p strategy singleSeries) \<and>
         (if au_Unrated (cp_Audience p) = UnratedDefault \<and> AtOrBelow (au_Ceiling (cp_Audience p)) ''TV-PG''
          then rp_Unrated (Resolved p strategy singleSeries) = UnratedExclude else True)"
proof -
  have checks: "\<forall>e\<in>set (policy_checks langcode_Valid p). e = None"
    using assms by (simp add: ChannelPolicy_Validate_None)
  then have valid: "OrderingMode_valid (cp_Ordering p)" "UnratedPolicy_valid (au_Unrated (cp_Audience p))"
    "au_Ceiling (cp_Audience p) = '''' \<or> Mapped (au_Ceiling (cp_Audience p))"
    "SeasonalMode_valid (se_Mode (cp_Seasonal p))" "OffSeason_valid (se_OffSeason (cp_Seasonal p))"
    "HolidayStrength_valid (se_Strength (cp_Seasonal p))"
    unfolding policy_checks_def by (auto split: if_splits)
  have ordering: "rp_Ordering (Resolved p strategy singleSeries) \<in> {OrderSequential, OrderShuffle, OrderSyndication}"
    using valid(1) by (auto simp: Resolved_def Let_def OrderingMode_valid_def orderingFromStrategy_def
        split: OrderingMode.splits Strategy.splits)
  have unrated: "resolveUnrated (cp_Audience p) \<in> {UnratedExclude, UnratedAllow}"
    using valid(2) by (auto simp: resolveUnrated_def UnratedPolicy_valid_def split: UnratedPolicy.splits)
  have seasonal: "rse_Mode (rp_Seasonal (Resolved p strategy singleSeries)) \<in> {SeasonalOff, SeasonalAuto, SeasonalExclusive}"
    "rse_OffSeason (rp_Seasonal (Resolved p strategy singleSeries)) \<in> {OffSeasonLoop, OffSeasonDark}"
    "rse_Strength (rp_Seasonal (Resolved p strategy singleSeries)) \<in>
       {HolidayStrengthLight, HolidayStrengthFeatured, HolidayStrengthHeavy}"
    using valid(4-6) by (auto simp: Resolved_def Let_def SeasonalMode_valid_def OffSeason_valid_def
        HolidayStrength_valid_def split: SeasonalMode.splits OffSeason.splits HolidayStrength.splits)
  have sep: "rs_EpisodeNoRepeat (rp_Sep (Resolved p strategy singleSeries)) \<noteq> 0"
    "rs_MovieNoRepeat (rp_Sep (Resolved p strategy singleSeries)) \<noteq> 0"
    by (simp_all add: Resolved_def Let_def orDur_def)
  have "AtOrBelow (au_Ceiling (cp_Audience p)) ''TV-PG'' \<Longrightarrow> fst (Rank (au_Ceiling (cp_Audience p))) \<le> 3"
    by (auto simp: AtOrBelow_def Rank_def ladderRank_def split: option.splits)
  moreover have "AtOrBelow (au_Ceiling (cp_Audience p)) ''TV-PG'' \<Longrightarrow> au_Ceiling (cp_Audience p) \<noteq> ''''"
    using AtOrBelow_Mapped by fastforce
  ultimately show ?thesis
    using ordering unrated seasonal sep valid(3)
    by (simp add: resolved_concrete_def resolveUnrated_def KidsCeilingRank_def)
qed

theorem Resolved_concrete_witness:
  "resolved_concrete (Resolved (empty_policy\<lparr>cp_Audience := \<lparr>au_Ceiling = ''TV-G'', au_Unrated = UnratedDefault\<rparr>\<rparr>) Sequential False) \<and>
   rp_Unrated (Resolved (empty_policy\<lparr>cp_Audience := \<lparr>au_Ceiling = ''TV-G'', au_Unrated = UnratedDefault\<rparr>\<rparr>) Sequential False)
     = UnratedExclude"
proof -
  let ?p = "empty_policy\<lparr>cp_Audience := \<lparr>au_Ceiling = ''TV-G'', au_Unrated = UnratedDefault\<rparr>\<rparr>"
  have "ChannelPolicy_Validate (\<lambda>_. True) ?p = None"
    by (simp add: ChannelPolicy_Validate_def policy_checks_def empty_policy_def empty_scope_def validateDates_def
        OrderingMode_valid_def UnratedPolicy_valid_def SeasonalMode_valid_def OffSeason_valid_def
        HolidayStrength_valid_def HolidayPlacement_valid_def Mapped_def ladderRank_def
        FillerSelection_validate_def WatermarkPolicy_validate_def)
  from Resolved_concrete [OF this, of Sequential False] show ?thesis
    by (simp add: empty_policy_def AtOrBelow_def ladderRank_def)
qed

end
