(* ===== verification/Policy_Merge.thy ===== *)
theory Policy_Merge
  imports Resolve
begin

text \<open>
  Ownership of the policy's fields, \<^verbatim>\<open>internal/schedule/policy_merge.go\<close>: what a fresh proposal may
  refresh, what an operator's edit pins, and what only the reconciler writes. A Go set of paths is a
  list without duplicates; a slice's nil and empty forms are not told apart.
\<close>

abbreviation pathScope :: string where "pathScope \<equiv> ''scope''"
abbreviation pathAudience :: string where "pathAudience \<equiv> ''audience''"
abbreviation pathSeparation :: string where "pathSeparation \<equiv> ''separation''"
abbreviation pathOrdering :: string where "pathOrdering \<equiv> ''ordering''"
abbreviation pathSeasonal :: string where "pathSeasonal \<equiv> ''seasonal''"

definition pathSet :: "string list \<Rightarrow> string list" where
  "pathSet paths = remdups paths"

definition path_before :: "string \<Rightarrow> string \<Rightarrow> bool" where
  "path_before a b \<longleftrightarrow> string_less_eq a b \<and> a \<noteq> b"

definition sortedPaths :: "string list \<Rightarrow> string list" where
  "sortedPaths s = sort_by path_before s"

definition tighterCeiling :: "Rating \<Rightarrow> Rating \<Rightarrow> Rating" where
  "tighterCeiling a b =
     (let (ra, aok) = Rank a; (rb, bok) = Rank b
      in if \<not> aok then b else if \<not> bok then a else if rb < ra then b else a)"

definition mergeRules :: "SchedulingRule list \<Rightarrow> SchedulingRule list \<Rightarrow> SchedulingRule list" where
  "mergeRules existing incoming = filter (\<lambda>r. \<not> isLLM (sr_Source r)) existing @ incoming"

definition MergeFromProposal :: "ChannelPolicy \<Rightarrow> ChannelPolicy \<Rightarrow> ChannelPolicy" where
  "MergeFromProposal current incoming =
     (let pinned = (\<lambda>f. f \<in> set (pathSet (cp_OperatorSet current)));
          out = current;
          out = (if \<not> pinned pathScope then out\<lparr>cp_Scope := cp_Scope incoming\<rparr> else out);
          out = (if pinned pathAudience
                 then out\<lparr>cp_Audience := (cp_Audience current)\<lparr>au_Ceiling :=
                        tighterCeiling (au_Ceiling (cp_Audience current)) (au_Ceiling (cp_Audience incoming))\<rparr>\<rparr>
                 else out\<lparr>cp_Audience := cp_Audience incoming\<rparr>);
          out = (if \<not> pinned pathSeparation then out\<lparr>cp_Separation := cp_Separation incoming\<rparr> else out);
          out = (if \<not> pinned pathOrdering then out\<lparr>cp_Ordering := cp_Ordering incoming\<rparr> else out);
          out = (if \<not> pinned pathSeasonal then out\<lparr>cp_Seasonal := cp_Seasonal incoming\<rparr> else out)
      in out\<lparr>cp_Rules := mergeRules (cp_Rules current) (cp_Rules incoming)\<rparr>)"

text \<open>The closure \<^verbatim>\<open>pin\<close>: an unchanged field keeps its pin, an emptied one loses it, any other gains it.\<close>

definition pin :: "string \<Rightarrow> bool \<Rightarrow> bool \<Rightarrow> string list \<Rightarrow> string list" where
  "pin path changed blank s =
     (if \<not> changed then s else if blank then filter (\<lambda>p. p \<noteq> path) s else List.insert path s)"

definition scope_value :: "ScopePolicy \<Rightarrow> ScopePolicy" where
  "scope_value sc = sc\<lparr>sc_eraAndDates := False\<rparr>"

definition scope_changed :: "ChannelPolicy \<Rightarrow> ChannelPolicy \<Rightarrow> bool" where
  "scope_changed c i \<longleftrightarrow> scope_value (cp_Scope c) \<noteq> scope_value (cp_Scope i)"

definition operator_pins :: "ChannelPolicy \<Rightarrow> ChannelPolicy \<Rightarrow> string list" where
  "operator_pins current incoming =
     (let s = pathSet (cp_OperatorSet current);
          s = pin pathScope (scope_changed current incoming) (scope_value (cp_Scope incoming) = empty_scope) s;
          s = pin pathAudience (cp_Audience current \<noteq> cp_Audience incoming) (cp_Audience incoming = empty_audience) s;
          s = pin pathSeparation (cp_Separation current \<noteq> cp_Separation incoming)
                (cp_Separation incoming = empty_separation) s;
          s = pin pathOrdering (cp_Ordering current \<noteq> cp_Ordering incoming) (cp_Ordering incoming = OrderInherit) s
      in pin pathSeasonal (cp_Seasonal current \<noteq> cp_Seasonal incoming) (cp_Seasonal incoming = empty_seasonal) s)"

definition MergeFromOperator :: "ChannelPolicy \<Rightarrow> ChannelPolicy \<Rightarrow> ChannelPolicy" where
  "MergeFromOperator current incoming =
     (let out = incoming\<lparr>cp_Applied := cp_Applied current\<rparr>;
          out = (if cp_Filler incoming = None then out\<lparr>cp_Filler := cp_Filler current\<rparr> else out)
      in out\<lparr>cp_OperatorSet := sortedPaths (operator_pins current incoming)\<rparr>)"

definition WithApplied :: "ChannelPolicy \<Rightarrow> AppliedRelaxation list \<Rightarrow> ChannelPolicy" where
  "WithApplied p applied = p\<lparr>cp_Applied := applied\<rparr>"

subsection \<open>A refresh\<close>

definition pinned :: "ChannelPolicy \<Rightarrow> string \<Rightarrow> bool" where
  "pinned p path \<longleftrightarrow> path \<in> set (cp_OperatorSet p)"

lemma MergeFromProposal_fields:
  "cp_Scope (MergeFromProposal c i) = (if pinned c pathScope then cp_Scope c else cp_Scope i)"
  "cp_Audience (MergeFromProposal c i) =
     (if pinned c pathAudience
      then (cp_Audience c)\<lparr>au_Ceiling := tighterCeiling (au_Ceiling (cp_Audience c)) (au_Ceiling (cp_Audience i))\<rparr>
      else cp_Audience i)"
  "cp_Separation (MergeFromProposal c i) = (if pinned c pathSeparation then cp_Separation c else cp_Separation i)"
  "cp_Ordering (MergeFromProposal c i) = (if pinned c pathOrdering then cp_Ordering c else cp_Ordering i)"
  "cp_Seasonal (MergeFromProposal c i) = (if pinned c pathSeasonal then cp_Seasonal c else cp_Seasonal i)"
  "cp_Rules (MergeFromProposal c i) = mergeRules (cp_Rules c) (cp_Rules i)"
  "cp_Filler (MergeFromProposal c i) = cp_Filler c"
  "cp_Playout (MergeFromProposal c i) = cp_Playout c"
  "cp_Window (MergeFromProposal c i) = cp_Window c"
  "cp_AutoCurate (MergeFromProposal c i) = cp_AutoCurate c"
  "cp_Watermark (MergeFromProposal c i) = cp_Watermark c"
  "cp_BreaksPerHour (MergeFromProposal c i) = cp_BreaksPerHour c"
  "cp_BreakDuration (MergeFromProposal c i) = cp_BreakDuration c"
  "cp_CommercialSpacing (MergeFromProposal c i) = cp_CommercialSpacing c"
  "cp_MidRoll (MergeFromProposal c i) = cp_MidRoll c"
  "cp_Applied (MergeFromProposal c i) = cp_Applied c"
  "cp_OperatorSet (MergeFromProposal c i) = cp_OperatorSet c"
  by (simp_all add: MergeFromProposal_def Let_def pinned_def pathSet_def)



lemma mergeRules_idem:
  "mergeRules (mergeRules a b) b = mergeRules a b" if "\<forall>r\<in>set b. isLLM (sr_Source r)"
  using that by (simp add: mergeRules_def)

subsection \<open>An edit\<close>

lemma pin_member:
  "q \<in> set (pin path changed blank s) \<longleftrightarrow>
     (if q = path then (if changed then \<not> blank else q \<in> set s) else q \<in> set s)"
  by (simp add: pin_def)

lemma distinct_pin: "distinct s \<Longrightarrow> distinct (pin path changed blank s)"
  by (simp add: pin_def)

lemma weak_order_path_before: "weak_order path_before"
  unfolding weak_order_def path_before_def
  using string_less_eq_antisym string_less_eq_total string_less_eq_trans by metis

lemma sortedPaths_sorted: "sorted_wrt string_less_eq (sortedPaths s)"
  unfolding sortedPaths_def
  by (rule sorted_wrt_mono_rel [OF _ sorted_sort_by [OF weak_order_path_before]])
    (metis path_before_def string_less_eq_total)

lemma sortedPaths_distinct: "distinct s \<Longrightarrow> distinct (sortedPaths s)"
  using mset_eq_imp_distinct_iff [of "sortedPaths s" s] by (simp add: sortedPaths_def)

lemma distinct_operator_pins: "distinct (operator_pins c i)"
  by (simp add: operator_pins_def Let_def distinct_pin pathSet_def)

lemma MergeFromOperator_fields:
  "cp_OperatorSet (MergeFromOperator c i) = sortedPaths (operator_pins c i)"
  "cp_Scope (MergeFromOperator c i) = cp_Scope i" "cp_Audience (MergeFromOperator c i) = cp_Audience i"
  "cp_Ordering (MergeFromOperator c i) = cp_Ordering i" "cp_Rules (MergeFromOperator c i) = cp_Rules i"
  "cp_Applied (MergeFromOperator c i) = cp_Applied c"
  "cp_Filler (MergeFromOperator c i) = (if cp_Filler i = None then cp_Filler c else cp_Filler i)"
  by (simp_all add: MergeFromOperator_def Let_def)

lemma pinned_after: "pinned (MergeFromOperator c i) q \<longleftrightarrow> q \<in> set (operator_pins c i)"
  by (simp add: pinned_def MergeFromOperator_fields sortedPaths_def)

text \<open>What an edit does to one pin.\<close>

definition repinned :: "bool \<Rightarrow> bool \<Rightarrow> bool \<Rightarrow> bool" where
  "repinned changed blank before \<longleftrightarrow> (if changed then \<not> blank else before)"

lemma operator_pins_member:
  "pathScope \<in> set (operator_pins c i) \<longleftrightarrow>
     repinned (scope_changed c i) (scope_value (cp_Scope i) = empty_scope) (pinned c pathScope)"
  "pathAudience \<in> set (operator_pins c i) \<longleftrightarrow>
     repinned (cp_Audience c \<noteq> cp_Audience i) (cp_Audience i = empty_audience) (pinned c pathAudience)"
  "pathSeparation \<in> set (operator_pins c i) \<longleftrightarrow>
     repinned (cp_Separation c \<noteq> cp_Separation i) (cp_Separation i = empty_separation) (pinned c pathSeparation)"
  "pathOrdering \<in> set (operator_pins c i) \<longleftrightarrow>
     repinned (cp_Ordering c \<noteq> cp_Ordering i) (cp_Ordering i = OrderInherit) (pinned c pathOrdering)"
  "pathSeasonal \<in> set (operator_pins c i) \<longleftrightarrow>
     repinned (cp_Seasonal c \<noteq> cp_Seasonal i) (cp_Seasonal i = empty_seasonal) (pinned c pathSeasonal)"
  unfolding operator_pins_def Let_def pin_member repinned_def pinned_def pathSet_def set_remdups
  by (simp_all only: list.inject char.inject list.distinct simp_thms if_True if_False)

text \<open>
  An operator's edit pins exactly what it set: each proposal-owned field is pinned afterwards if
  the edit changed it to a value, unpinned if the edit emptied it, and keeps its pin if the edit left
  it alone; the operator's values win, the relaxation record is the reconciler's own, an omitted
  filler selection is kept, and the stored pins are sorted and without duplicates.
\<close>

theorem MergeFromOperator_pinning:
  "let out = MergeFromOperator c i in
   (pinned out pathScope = repinned (scope_changed c i) (scope_value (cp_Scope i) = empty_scope) (pinned c pathScope)) \<and>
   (pinned out pathAudience = repinned (cp_Audience c \<noteq> cp_Audience i) (cp_Audience i = empty_audience) (pinned c pathAudience)) \<and>
   (pinned out pathSeparation = repinned (cp_Separation c \<noteq> cp_Separation i) (cp_Separation i = empty_separation) (pinned c pathSeparation)) \<and>
   (pinned out pathOrdering = repinned (cp_Ordering c \<noteq> cp_Ordering i) (cp_Ordering i = OrderInherit) (pinned c pathOrdering)) \<and>
   (pinned out pathSeasonal = repinned (cp_Seasonal c \<noteq> cp_Seasonal i) (cp_Seasonal i = empty_seasonal) (pinned c pathSeasonal)) \<and>
   cp_Scope out = cp_Scope i \<and> cp_Audience out = cp_Audience i \<and> cp_Ordering out = cp_Ordering i \<and>
   cp_Rules out = cp_Rules i \<and> cp_Applied out = cp_Applied c \<and>
   cp_Filler out = (if cp_Filler i = None then cp_Filler c else cp_Filler i) \<and>
   distinct (cp_OperatorSet out) \<and> sorted_wrt string_less_eq (cp_OperatorSet out)"
  unfolding Let_def pinned_after operator_pins_member MergeFromOperator_fields
  using sortedPaths_sorted sortedPaths_distinct [OF distinct_operator_pins] by simp

subsection \<open>Refreshes after an edit\<close>

definition refreshed :: "ChannelPolicy \<Rightarrow> ChannelPolicy list \<Rightarrow> ChannelPolicy" where
  "refreshed p proposals = foldl MergeFromProposal p proposals"



lemma refreshed_Nil [simp]: "refreshed p [] = p"
  by (simp add: refreshed_def)

lemma refreshed_snoc [simp]: "refreshed p (xs @ [x]) = MergeFromProposal (refreshed p xs) x"
  by (simp add: refreshed_def)

lemma pinned_refresh [simp]: "pinned (MergeFromProposal c i) q = pinned c q"
  by (simp add: pinned_def MergeFromProposal_fields)

lemma pinned_refreshed [simp]: "pinned (refreshed p is) q = pinned p q"
  by (induction "is" rule: rev_induct) simp_all








end
