(* ===== verification/Trace.thy ===== *)
theory Trace
  imports Resolve
begin

text \<open>
  The bounded scheduling trace, \<^verbatim>\<open>internal/schedule/trace.go\<close>: the facts of one computation, recorded
  up to a bound of which a quarter is kept for placement. The builder is threaded through the
  pipeline as an option: \<open>None\<close> is the nil builder, which records nothing. The lemmas show the bound,
  the reserve and that the counters agree with what was recorded.
\<close>

datatype ScheduleStage = StageHardFilter | StageAvailability | StageEpisodeSelection | StagePlacement

datatype ScheduleOutcome =
  OutcomeKept | OutcomeExcluded | OutcomeAvailable | OutcomePending | OutcomeSelected | OutcomeOmitted
  | OutcomePlaced | OutcomeWindowedOut | OutcomeInserted

datatype ScheduleReason =
  ReasonEligible | ReasonOverCeiling | ReasonUnrated | ReasonOutOfScope | ReasonOutOfRuleScope
  | ReasonOutOfSeason | ReasonAvailable | ReasonUnavailablePodFill | ReasonUnavailableComingSoon
  | ReasonCompleteSelected | ReasonHighlightsSelected | ReasonHighlightsOmitted | ReasonHolidaySelected
  | ReasonHolidayOmitted | ReasonFullRunFallback | ReasonOutOfSeasonRange | ReasonSequential
  | ReasonShuffle | ReasonSyndication | ReasonWindowedOut | ReasonCommercialBreak

record ScheduleFact =
  sf_Stage :: ScheduleStage
  sf_Outcome :: ScheduleOutcome
  sf_Reason :: ScheduleReason
  sf_Key :: Key
  sf_Title :: string
  sf_Season :: int
  sf_Episode :: int
  sf_DeckPosition :: "int option"
  sf_CyclePosition :: "int option"

record ScheduleTrace =
  st_Version :: int
  st_Ordering :: OrderingMode
  st_Seed :: "64 word"
  st_WindowMs :: int
  st_WindowIndex :: int
  st_Relaxations :: "AppliedRelaxation list"
  st_FactTotal :: int
  st_RecordedTotal :: int
  st_Truncated :: bool
  st_Facts :: "ScheduleFact list"

abbreviation ScheduleTraceMaxFacts :: int where "ScheduleTraceMaxFacts \<equiv> 1024"
abbreviation scheduleTracePlacementReserve :: int where "scheduleTracePlacementReserve \<equiv> 256"

record scheduleTraceBuilder =
  tb_trace :: ScheduleTrace
  tb_nonPlacementRecorded :: int
  tb_placementRecorded :: int

text \<open>The capacity hint of the source only sizes the first allocation.\<close>

definition newScheduleTrace :: "OrderingMode \<Rightarrow> 64 word \<Rightarrow> int \<Rightarrow> int \<Rightarrow> scheduleTraceBuilder option" where
  "newScheduleTrace mode seed windowMs windowIdx =
     Some \<lparr>tb_trace = \<lparr>st_Version = 1, st_Ordering = mode, st_Seed = seed, st_WindowMs = windowMs,
             st_WindowIndex = windowIdx, st_Relaxations = [], st_FactTotal = 0, st_RecordedTotal = 0,
             st_Truncated = False, st_Facts = []\<rparr>,
           tb_nonPlacementRecorded = 0, tb_placementRecorded = 0\<rparr>"

definition builder_add :: "scheduleTraceBuilder \<Rightarrow> ScheduleFact \<Rightarrow> scheduleTraceBuilder" where
  "builder_add b f =
     (let t = (tb_trace b)\<lparr>st_FactTotal := st_FactTotal (tb_trace b) + 1\<rparr>;
          placement = (sf_Stage f = StagePlacement);
          limit = (if placement then scheduleTracePlacementReserve
                   else ScheduleTraceMaxFacts - scheduleTracePlacementReserve);
          recorded = (if placement then tb_placementRecorded b else tb_nonPlacementRecorded b)
      in if recorded < limit
         then
           (let t = t\<lparr>st_Facts := st_Facts t @ [f], st_RecordedTotal := st_RecordedTotal t + 1\<rparr>
            in if placement then b\<lparr>tb_trace := t, tb_placementRecorded := tb_placementRecorded b + 1\<rparr>
               else b\<lparr>tb_trace := t, tb_nonPlacementRecorded := tb_nonPlacementRecorded b + 1\<rparr>)
         else b\<lparr>tb_trace := t\<lparr>st_Truncated := True\<rparr>\<rparr>)"

definition trace_add :: "ScheduleFact \<Rightarrow> scheduleTraceBuilder option \<Rightarrow> scheduleTraceBuilder option" where
  "trace_add f b = (case b of None \<Rightarrow> None | Some b \<Rightarrow> Some (builder_add b f))"

definition trace_finish :: "scheduleTraceBuilder \<Rightarrow> AppliedRelaxation list \<Rightarrow> ScheduleTrace" where
  "trace_finish b relaxations =
     (let t = (tb_trace b)\<lparr>st_Relaxations := relaxations\<rparr>
      in t\<lparr>st_Truncated := st_Truncated t \<or> st_FactTotal t > st_RecordedTotal t\<rparr>)"

text \<open>A list of facts in order, as the loops of the source add them.\<close>

definition trace_add_all :: "ScheduleFact list \<Rightarrow> scheduleTraceBuilder option \<Rightarrow> scheduleTraceBuilder option" where
  "trace_add_all facts b = fold trace_add facts b"

definition plain_fact :: "ScheduleStage \<Rightarrow> ScheduleOutcome \<Rightarrow> ScheduleReason \<Rightarrow> Key \<Rightarrow> string \<Rightarrow> ScheduleFact" where
  "plain_fact stage outcome reason key title =
     \<lparr>sf_Stage = stage, sf_Outcome = outcome, sf_Reason = reason, sf_Key = key, sf_Title = title,
      sf_Season = 0, sf_Episode = 0, sf_DeckPosition = None, sf_CyclePosition = None\<rparr>"

definition hardFilterFact :: "LineupEntry \<Rightarrow> ScheduleOutcome \<Rightarrow> ScheduleReason \<Rightarrow> ScheduleFact" where
  "hardFilterFact e outcome reason = plain_fact StageHardFilter outcome reason (e_Key e) (e_Title e)"

definition pendingAvailabilityFact :: "LineupEntry \<Rightarrow> PendingPolicy \<Rightarrow> ScheduleFact" where
  "pendingAvailabilityFact e policy =
     plain_fact StageAvailability OutcomePending
       (if policy = ComingSoon then ReasonUnavailableComingSoon else ReasonUnavailablePodFill) (e_Key e) (e_Title e)"

text \<open>\<^verbatim>\<open>%02d\<close> for the season and episode numbers, which are not negative.\<close>

definition two_digits :: "int \<Rightarrow> string" where
  "two_digits n = (if 0 \<le> n \<and> n < 10 then CHR ''0'' # itoa n else itoa n)"

definition em_dash :: string where
  "em_dash = [CHR '' '', CHR 0xE2, CHR 0x80, CHR 0x94, CHR '' '']"

definition episodeLabel :: "LineupEntry \<Rightarrow> ResolvedProgram \<Rightarrow> string" where
  "episodeLabel e ep =
     (let label = (if e_Title e = '''' then e_Key e else e_Title e);
          label = (if p_Season ep > 0 \<or> p_Episode ep > 0
                   then label @ '' S'' @ two_digits (p_Season ep) @ ''E'' @ two_digits (p_Episode ep) else label)
      in if p_Title ep \<noteq> '''' then label @ em_dash @ p_Title ep else label)"

definition episodeFact ::
  "LineupEntry \<Rightarrow> ResolvedProgram \<Rightarrow> ScheduleStage \<Rightarrow> ScheduleOutcome \<Rightarrow> ScheduleReason \<Rightarrow> ScheduleFact" where
  "episodeFact e ep stage outcome reason =
     (plain_fact stage outcome reason (e_Key e) (episodeLabel e ep))\<lparr>sf_Season := p_Season ep, sf_Episode := p_Episode ep\<rparr>"

subsection \<open>Placement facts\<close>

record slotTraceID =
  ti_kind :: SlotKind
  ti_key :: Key
  ti_libraryItemID :: string
  ti_title :: string
  ti_partGroup :: string
  ti_season :: int
  ti_episode :: int
  ti_partIndex :: int

definition slotIdentity :: "Slot \<Rightarrow> slotTraceID" where
  "slotIdentity s =
     \<lparr>ti_kind = s_Kind s, ti_key = s_Key s, ti_libraryItemID = s_LibraryItemID s, ti_title = s_Title s,
      ti_partGroup = s_PartGroup s, ti_season = s_Season s, ti_episode = s_Episode s, ti_partIndex = s_PartIndex s\<rparr>"

definition placement_fact :: "Slot \<Rightarrow> ScheduleOutcome \<Rightarrow> ScheduleReason \<Rightarrow> int option \<Rightarrow> int option \<Rightarrow> ScheduleFact" where
  "placement_fact s outcome reason deck cycle =
     \<lparr>sf_Stage = StagePlacement, sf_Outcome = outcome, sf_Reason = reason, sf_Key = s_Key s, sf_Title = s_Title s,
      sf_Season = s_Season s, sf_Episode = s_Episode s, sf_DeckPosition = deck, sf_CyclePosition = cycle\<rparr>"

text \<open>The unaired part of the deck: each occurrence the selection does not account for.\<close>

fun windowed_out :: "(slotTraceID \<Rightarrow> nat) \<Rightarrow> nat \<Rightarrow> Slot list \<Rightarrow> ScheduleFact list" where
  "windowed_out counts i [] = []"
| "windowed_out counts i (s # ss) =
     (let k = slotIdentity s
      in if counts k > 0 then windowed_out (counts(k := counts k - 1)) (i + 1) ss
         else placement_fact s OutcomeWindowedOut ReasonWindowedOut (Some (int i)) None
              # windowed_out counts (i + 1) ss)"

definition placement_reason :: "OrderingMode \<Rightarrow> ScheduleReason" where
  "placement_reason mode =
     (case mode of OrderShuffle \<Rightarrow> ReasonShuffle | OrderSyndication \<Rightarrow> ReasonSyndication | _ \<Rightarrow> ReasonSequential)"

fun placed_facts :: "ScheduleReason \<Rightarrow> (slotTraceID \<Rightarrow> nat list) \<Rightarrow> nat \<Rightarrow> Slot list \<Rightarrow> ScheduleFact list" where
  "placed_facts reason positions i [] = []"
| "placed_facts reason positions i (s # ss) =
     (if s_Kind s = SlotFiller \<and> s_Key s = ''''
      then placement_fact empty_slot OutcomeInserted ReasonCommercialBreak None (Some (int i))
           # placed_facts reason positions (i + 1) ss
      else
        (let k = slotIdentity s
         in case positions k of
              [] \<Rightarrow> placement_fact s OutcomePlaced reason None (Some (int i)) # placed_facts reason positions (i + 1) ss
            | p # ps \<Rightarrow> placement_fact s OutcomePlaced reason (Some (int p)) (Some (int i))
                      # placed_facts reason (positions(k := ps)) (i + 1) ss))"

definition positions_of :: "Slot list \<Rightarrow> slotTraceID \<Rightarrow> nat list" where
  "positions_of deck k = filter (\<lambda>i. slotIdentity (deck ! i) = k) [0..<length deck]"

definition tracePlacement ::
  "scheduleTraceBuilder option \<Rightarrow> Slot list \<Rightarrow> Slot list \<Rightarrow> Slot list \<Rightarrow> OrderingMode \<Rightarrow> scheduleTraceBuilder option" where
  "tracePlacement trace fullDeck selected final mode =
     trace_add_all
       (windowed_out (\<lambda>k. length (filter (\<lambda>s. slotIdentity s = k) selected)) 0 fullDeck
        @ placed_facts (placement_reason mode) (positions_of fullDeck) 0 final) trace"

subsection \<open>The bound\<close>

definition placement_facts :: "ScheduleFact list \<Rightarrow> ScheduleFact list" where
  "placement_facts = filter (\<lambda>f. sf_Stage f = StagePlacement)"

definition other_facts :: "ScheduleFact list \<Rightarrow> ScheduleFact list" where
  "other_facts = filter (\<lambda>f. sf_Stage f \<noteq> StagePlacement)"

text \<open>What a builder holds after a sequence of facts: the first 768 others and the first 256 placements.\<close>

definition trace_ok :: "ScheduleFact list \<Rightarrow> scheduleTraceBuilder \<Rightarrow> bool" where
  "trace_ok facts b \<longleftrightarrow>
     placement_facts (st_Facts (tb_trace b)) = take 256 (placement_facts facts) \<and>
     other_facts (st_Facts (tb_trace b)) = take 768 (other_facts facts) \<and>
     tb_placementRecorded b = int (length (placement_facts (st_Facts (tb_trace b)))) \<and>
     tb_nonPlacementRecorded b = int (length (other_facts (st_Facts (tb_trace b)))) \<and>
     st_FactTotal (tb_trace b) = int (length facts) \<and>
     st_RecordedTotal (tb_trace b) = int (length (st_Facts (tb_trace b))) \<and>
     st_Truncated (tb_trace b) = (length (st_Facts (tb_trace b)) < length facts)"

lemma fact_split: "length (placement_facts fs) + length (other_facts fs) = length fs"
  unfolding placement_facts_def other_facts_def by (induction fs) auto

lemma facts_snoc:
  "placement_facts (fs @ [f]) = placement_facts fs @ (if sf_Stage f = StagePlacement then [f] else [])"
  "other_facts (fs @ [f]) = other_facts fs @ (if sf_Stage f = StagePlacement then [] else [f])"
  by (simp_all add: placement_facts_def other_facts_def)

lemma take_snoc: "take n (xs @ [x]) = (if length xs < n then take n xs @ [x] else take n xs)"
  by (simp add: not_less)

lemma trace_ok_le: "trace_ok facts b \<Longrightarrow> length (st_Facts (tb_trace b)) \<le> length facts"
  using fact_split [of "st_Facts (tb_trace b)"] fact_split [of facts] by (auto simp: trace_ok_def)

lemma builder_add_ok: "trace_ok facts b \<Longrightarrow> trace_ok (facts @ [f]) (builder_add b f)"
  using trace_ok_le [of facts b]
  by (cases "sf_Stage f = StagePlacement")
    (auto simp: trace_ok_def builder_add_def Let_def facts_snoc take_snoc)

lemma trace_add_all_ok: "trace_ok facts b \<Longrightarrow> \<exists>b'. trace_add_all more_facts (Some b) = Some b' \<and> trace_ok (facts @ more_facts) b'"
proof (induction more_facts arbitrary: facts b)
  case Nil
  then show ?case by (simp add: trace_add_all_def)
next
  case (Cons f fs)
  then show ?case using Cons.IH [OF builder_add_ok [OF Cons.prems]]
    by (simp add: trace_add_all_def trace_add_def)
qed

lemma newScheduleTrace_ok: "\<exists>b. newScheduleTrace m seed w i = Some b \<and> trace_ok [] b"
  by (simp add: newScheduleTrace_def trace_ok_def placement_facts_def other_facts_def)

text \<open>
  The trace is bounded and never loses the whole answer to why something airs: whatever facts a
  computation emits, the finished trace holds exactly the first 768 facts of the earlier stages and
  the first 256 of placement, at most 1024 in all, its counters are the numbers emitted and kept, and
  it says it is truncated exactly when a fact was dropped.
\<close>

theorem trace_bounded:
  "\<exists>b. trace_add_all facts (newScheduleTrace m seed w i) = Some b \<and>
     (let t = trace_finish b applied
      in placement_facts (st_Facts t) = take 256 (placement_facts facts) \<and>
         other_facts (st_Facts t) = take 768 (other_facts facts) \<and>
         length (st_Facts t) \<le> 1024 \<and>
         st_FactTotal t = int (length facts) \<and> st_RecordedTotal t = int (length (st_Facts t)) \<and>
         (st_Truncated t = (length (st_Facts t) < length facts)) \<and> st_Relaxations t = applied)"
proof -
  obtain b0 where b0: "newScheduleTrace m seed w i = Some b0" "trace_ok [] b0"
    using newScheduleTrace_ok by blast
  obtain b where b: "trace_add_all facts (Some b0) = Some b" "trace_ok facts b"
    using trace_add_all_ok [OF b0(2), of facts] by auto
  have "length (st_Facts (tb_trace b)) \<le> 1024"
    using b(2) fact_split [of "st_Facts (tb_trace b)"] by (auto simp: trace_ok_def)
  with b b0 show ?thesis
    by (auto simp: trace_finish_def trace_ok_def Let_def)
qed

end
