(* ===== verification/Filters.thy ===== *)
theory Filters
  imports Trace "HOL-Library.Sublist"
begin

text \<open>
  The hard filters, the first half of \<^verbatim>\<open>internal/schedule/slotting.go\<close>: scope and the fail-closed audience
  gate over the approved entries, the audience question asked for one title and for one episode, and
  the report of what was dropped. The interface \<open>narrowing\<close> is what every later stage of the pipeline
  is to the entries that passed: it may drop or repeat them, never add one.
\<close>

record ExcludedItem =
  xi_Key :: Key
  xi_Title :: string
  xi_Reason :: string

record ExclusionReport =
  xr_OverCeiling :: int
  xr_Unrated :: int
  xr_Items :: "ExcludedItem list"

definition empty_report :: ExclusionReport where
  "empty_report = \<lparr>xr_OverCeiling = 0, xr_Unrated = 0, xr_Items = []\<rparr>"

definition report_merge :: "ExclusionReport \<Rightarrow> ExclusionReport \<Rightarrow> ExclusionReport" where
  "report_merge r o' = \<lparr>xr_OverCeiling = xr_OverCeiling r + xr_OverCeiling o',
     xr_Unrated = xr_Unrated r + xr_Unrated o', xr_Items = xr_Items r @ xr_Items o'\<rparr>"

definition report_add :: "LineupEntry \<Rightarrow> string \<Rightarrow> ExclusionReport \<Rightarrow> ExclusionReport" where
  "report_add e reason r =
     r\<lparr>xr_Items := xr_Items r @ [\<lparr>xi_Key = e_Key e, xi_Title = e_Title e, xi_Reason = reason\<rparr>]\<rparr>"

subsection \<open>The audience gate\<close>

datatype verdict = verdictKeep | verdictOverCeiling | verdictUnratedExcluded

definition audienceVerdict :: "Rating \<Rightarrow> Rating \<Rightarrow> UnratedPolicy \<Rightarrow> verdict" where
  "audienceVerdict raw ceil unrated =
     (let r = Normalize raw
      in if Mapped r then (if ceil = '''' \<or> AtOrBelow r ceil then verdictKeep else verdictOverCeiling)
         else if unrated = UnratedExclude then verdictUnratedExcluded
         else verdictKeep)"

definition Admits :: "AudiencePolicy \<Rightarrow> Rating \<Rightarrow> bool \<times> string" where
  "Admits a raw =
     (if au_Ceiling a = '''' \<and> au_Unrated a \<noteq> UnratedExclude then (True, '''')
      else (case audienceVerdict raw (au_Ceiling a) (resolveUnrated a) of
              verdictOverCeiling \<Rightarrow> (False, ''over_ceiling'')
            | verdictUnratedExcluded \<Rightarrow> (False, ''unrated'')
            | verdictKeep \<Rightarrow> (True, '''')))"

definition episodeVerdict :: "Rating \<Rightarrow> Rating \<Rightarrow> Rating \<Rightarrow> UnratedPolicy \<Rightarrow> verdict" where
  "episodeVerdict epRating seriesRating ceil unrated =
     (if Mapped epRating then audienceVerdict epRating ceil unrated
      else audienceVerdict seriesRating ceil unrated)"

definition gate_verdict :: "ResolvedPolicy \<Rightarrow> Rating \<Rightarrow> verdict" where
  "gate_verdict rp raw =
     (if rp_Ceiling rp \<noteq> '''' \<or> rp_Unrated rp = UnratedExclude
      then audienceVerdict raw (rp_Ceiling rp) (rp_Unrated rp) else verdictKeep)"

subsection \<open>Scope\<close>

definition tvCompoundGenres :: "string \<Rightarrow> string list" where
  "tvCompoundGenres g =
     (if g = ''action & adventure'' then [''action'', ''adventure'']
      else if g = ''sci-fi & fantasy'' then [''science fiction'', ''fantasy'']
      else if g = ''war & politics'' then [''war'', ''politics'']
      else [])"

definition genreTerms :: "string \<Rightarrow> string list" where
  "genreTerms g = (let g = to_lower (trim_space g) in g # tvCompoundGenres g)"

definition genresOverlap :: "string list \<Rightarrow> string list \<Rightarrow> bool" where
  "genresOverlap genres terms =
     list_ex (\<lambda>g. list_ex (\<lambda>a. list_ex (\<lambda>t. a \<in> set (genreTerms t)) terms) (genreTerms g)) genres"

definition genreOK :: "string list \<Rightarrow> GenreFilter \<Rightarrow> bool" where
  "genreOK genres f =
     (if genresOverlap genres (gf_Exclude f) then False
      else if gf_Include f \<noteq> [] then genresOverlap genres (gf_Include f)
      else True)"

definition boxSetOK :: "LineupEntry \<Rightarrow> string list \<Rightarrow> bool" where
  "boxSetOK e want =
     (if want = [] then True
      else if \<not> e_BoxSetsResolved e then True
      else list_ex (\<lambda>have'. list_ex (\<lambda>w. have' = w) want) (e_BoxSetIDs e))"

definition seriesAllowSet :: "Key list \<Rightarrow> Key set option" where
  "seriesAllowSet series = (if series = [] then None else Some (set series))"

definition singleSeriesEntries :: "LineupEntry list \<Rightarrow> bool" where
  "singleSeriesEntries entries =
     (if list_ex (\<lambda>e. \<not> IsSeries (e_Key e)) entries then False
      else length (remdups (map e_Key entries)) = 1)"

text \<open>The checks the channel scope and a rule's scope share, in their order: dates, series, genre, runtime.\<close>

definition scope_refuses :: "ScopePolicy \<Rightarrow> LineupEntry \<Rightarrow> bool" where
  "scope_refuses sc e =
     (if e_Year e > 0 \<and> ((IsSeries (e_Key e) \<and> \<not> seriesPremiereDateOK sc (e_Year e)) \<or>
                        (\<not> IsSeries (e_Key e) \<and> \<not> movieDateOK sc (e_Year e)))
      then True
      else if (case seriesAllowSet (sc_Series sc) of None \<Rightarrow> False
               | Some allow \<Rightarrow> IsSeries (e_Key e) \<and> e_Key e \<notin> allow) then True
      else if \<not> genreOK (e_Genres e) (sc_Genres sc) then True
      else sc_RuntimeMax sc > 0 \<and> e_RuntimeSec e > 0 \<and> e_RuntimeSec e > sc_RuntimeMax sc)"

type_synonym filter_state = "LineupEntry list \<times> ExclusionReport \<times> scheduleTraceBuilder option"

definition filter_step :: "ResolvedPolicy \<Rightarrow> LineupEntry \<Rightarrow> filter_state \<Rightarrow> filter_state" where
  "filter_step rp e st =
     (let (eligible, report, trace) = st
      in if scope_refuses (rp_Scope rp) e \<or> \<not> boxSetOK e (sc_Collections (rp_Scope rp))
         then (eligible, report_add e ''out_of_scope'' report,
               trace_add (hardFilterFact e OutcomeExcluded ReasonOutOfScope) trace)
         else (case gate_verdict rp (e_OfficialRating e) of
                 verdictOverCeiling \<Rightarrow>
                   (eligible, report_add e ''over_ceiling'' (report\<lparr>xr_OverCeiling := xr_OverCeiling report + 1\<rparr>),
                    trace_add (hardFilterFact e OutcomeExcluded ReasonOverCeiling) trace)
               | verdictUnratedExcluded \<Rightarrow>
                   (eligible, report_add e ''unrated'' (report\<lparr>xr_Unrated := xr_Unrated report + 1\<rparr>),
                    trace_add (hardFilterFact e OutcomeExcluded ReasonUnrated) trace)
               | verdictKeep \<Rightarrow>
                   (eligible @ [e], report, trace_add (hardFilterFact e OutcomeKept ReasonEligible) trace)))"

definition filterEntriesWithTrace ::
  "LineupEntry list \<Rightarrow> ResolvedPolicy \<Rightarrow> scheduleTraceBuilder option \<Rightarrow> filter_state" where
  "filterEntriesWithTrace entries rp trace = fold (filter_step rp) entries ([], empty_report, trace)"

definition applyRuleScopeWithTrace ::
  "LineupEntry list \<Rightarrow> ScopePolicy option \<Rightarrow> scheduleTraceBuilder option \<Rightarrow> LineupEntry list \<times> scheduleTraceBuilder option" where
  "applyRuleScopeWithTrace entries what trace =
     (case what of None \<Rightarrow> (entries, trace)
      | Some sc \<Rightarrow>
          fold (\<lambda>e (out, tr). if scope_refuses sc e
                  then (out, trace_add (hardFilterFact e OutcomeExcluded ReasonOutOfRuleScope) tr)
                  else (out @ [e], tr)) entries ([], trace))"

subsection \<open>Laws of a narrowing stage\<close>

lemma subseq_set: "subseq xs ys \<Longrightarrow> set xs \<subseteq> set ys"
  by (induction rule: list_emb.induct) auto

lemma subseq_distinct: "subseq xs ys \<Longrightarrow> distinct ys \<Longrightarrow> distinct xs"
  by (induction rule: list_emb.induct) (auto dest: subseq_set)

locale narrowing =
  fixes narrow :: "LineupEntry list \<Rightarrow> LineupEntry list"
  assumes narrow_subset: "set (narrow es) \<subseteq> set es"
begin

lemma narrow_all: "\<forall>e\<in>set es. P e \<Longrightarrow> \<forall>e\<in>set (narrow es). P e"
  using narrow_subset by blast

lemma narrow_Nil: "narrow [] = []"
  using narrow_subset [of "[]"] by simp

lemma narrow_compose: "set (narrow (filter P es)) \<subseteq> {e \<in> set es. P e}"
  using narrow_subset [of "filter P es"] by auto

end

text \<open>A stage that keeps each entry at most once, in order.\<close>

locale sieve = narrowing +
  assumes narrow_order: "subseq (narrow es) es"
begin

lemma narrow_distinct: "distinct (map e_Key es) \<Longrightarrow> distinct (map e_Key (narrow es))"
  using subseq_distinct [OF subseq_map [OF narrow_order]] by blast

lemma narrow_length: "length (narrow es) \<le> length es"
  using narrow_order by (rule list_emb_length)

end

subsection \<open>What the filters keep\<close>

definition entry_kept :: "ResolvedPolicy \<Rightarrow> LineupEntry \<Rightarrow> bool" where
  "entry_kept rp e \<longleftrightarrow> \<not> scope_refuses (rp_Scope rp) e \<and> boxSetOK e (sc_Collections (rp_Scope rp)) \<and>
     gate_verdict rp (e_OfficialRating e) = verdictKeep"

lemma filter_fold:
  "fst (fold (filter_step rp) es (out, r, t)) = out @ filter (entry_kept rp) es"
  by (induction es arbitrary: out r t)
    (auto simp: filter_step_def entry_kept_def split: verdict.split)

lemma filterEntries_eligible: "fst (filterEntriesWithTrace es rp trace) = filter (entry_kept rp) es"
  by (simp add: filterEntriesWithTrace_def filter_fold)

lemma filter_report_length:
  "length (xr_Items (fst (snd (fold (filter_step rp) es (out, r, t))))) =
     length (xr_Items r) + length (filter (\<lambda>e. \<not> entry_kept rp e) es)"
proof (induction es arbitrary: out r t)
  case (Cons e es)
  obtain out' r' t' where step: "filter_step rp e (out, r, t) = (out', r', t')" by (rule prod_cases3)
  have "length (xr_Items r') = length (xr_Items r) + (if entry_kept rp e then 0 else 1)"
    using step by (auto simp: filter_step_def report_add_def entry_kept_def split: if_splits verdict.splits)
  then show ?case by (simp add: step Cons.IH)
qed simp

lemma rule_scope_fold:
  "fst (fold (\<lambda>e (out, tr). if scope_refuses sc e
                  then (out, trace_add (hardFilterFact e OutcomeExcluded ReasonOutOfRuleScope) tr)
                  else (out @ [e], tr)) es (out, t)) = out @ filter (\<lambda>e. \<not> scope_refuses sc e) es"
  by (induction es arbitrary: out t) auto

lemma applyRuleScope_kept:
  "fst (applyRuleScopeWithTrace es what trace) =
     filter (\<lambda>e. case what of None \<Rightarrow> True | Some sc \<Rightarrow> \<not> scope_refuses sc e) es"
  by (cases what) (simp_all add: applyRuleScopeWithTrace_def rule_scope_fold)

interpretation channel_filter: sieve "\<lambda>es. fst (filterEntriesWithTrace es rp trace)"
  by unfold_locales (auto simp: filterEntries_eligible)

interpretation rule_filter: sieve "\<lambda>es. fst (applyRuleScopeWithTrace es what trace)"
  by unfold_locales (auto simp: applyRuleScope_kept)

subsection \<open>The audience is never exceeded\<close>

text \<open>A rating that may air under a ceiling: on or under it, or unrated where that is allowed.\<close>

definition rating_safe :: "Rating \<Rightarrow> UnratedPolicy \<Rightarrow> Rating \<Rightarrow> bool" where
  "rating_safe ceil unrated raw \<longleftrightarrow>
     (if Mapped (Normalize raw) then ceil = '''' \<or> AtOrBelow (Normalize raw) ceil else unrated \<noteq> UnratedExclude)"

lemma audienceVerdict_keep: "audienceVerdict raw ceil unrated = verdictKeep \<longleftrightarrow> rating_safe ceil unrated raw"
  by (simp add: audienceVerdict_def rating_safe_def Let_def)

lemma gate_verdict_keep: "gate_verdict rp raw = verdictKeep \<longleftrightarrow> rating_safe (rp_Ceiling rp) (rp_Unrated rp) raw"
  by (auto simp: gate_verdict_def audienceVerdict_keep rating_safe_def)

text \<open>
  The audience gate is exact and fails closed: the entries that stay eligible are, in order, exactly
  those the channel scope and its collections admit and whose rating is on or under the ceiling (or
  unrated where the policy allows it); and the report has one item for every entry dropped.
\<close>

theorem filterEntries_exact:
  "let (eligible, report, _) = filterEntriesWithTrace entries rp trace in
   eligible = filter (\<lambda>e. \<not> scope_refuses (rp_Scope rp) e \<and> boxSetOK e (sc_Collections (rp_Scope rp)) \<and>
                         rating_safe (rp_Ceiling rp) (rp_Unrated rp) (e_OfficialRating e)) entries \<and>
   length eligible + length (xr_Items report) = length entries"
proof -
  have kept: "entry_kept rp = (\<lambda>e. \<not> scope_refuses (rp_Scope rp) e \<and> boxSetOK e (sc_Collections (rp_Scope rp)) \<and>
                         rating_safe (rp_Ceiling rp) (rp_Unrated rp) (e_OfficialRating e))"
    by (auto simp: entry_kept_def gate_verdict_keep)
  have "length (filter (entry_kept rp) entries) + length (filter (\<lambda>e. \<not> entry_kept rp e) entries) = length entries"
    by (rule sum_length_filter_compl)
  moreover have "length (xr_Items (fst (snd (filterEntriesWithTrace entries rp trace)))) =
      length (filter (\<lambda>e. \<not> entry_kept rp e) entries)"
    by (simp add: filterEntriesWithTrace_def filter_report_length empty_report_def)
  ultimately show ?thesis
    using filterEntries_eligible [of entries rp trace]
    by (auto simp: kept [symmetric] split: prod.split)
qed

text \<open>
  The suggester asks the enforcement question: a policy admits a rating when, and only when, the
  hard filter of every channel that resolves that policy lets an otherwise in-scope entry with that
  rating through, whatever the strategy.
\<close>

theorem Admits_is_the_gate:
  assumes "\<not> scope_refuses (cp_Scope p) e" and "boxSetOK e (sc_Collections (cp_Scope p))"
  shows "fst (Admits (cp_Audience p) (e_OfficialRating e)) =
         (fst (filterEntriesWithTrace [e] (Resolved p strategy singleSeries) trace) = [e])"
proof -
  have "fst (Admits (cp_Audience p) (e_OfficialRating e)) =
      (gate_verdict (Resolved p strategy singleSeries) (e_OfficialRating e) = verdictKeep)"
    by (auto simp: Admits_def gate_verdict_def resolveUnrated_def audienceVerdict_def Let_def split: verdict.split)
  then show ?thesis using assms by (simp add: filterEntries_eligible entry_kept_def)
qed

definition sample_entry :: LineupEntry where
  "sample_entry = \<lparr>e_Key = ''movie:tmdb:85'', e_Title = ''Raiders'', e_DurationMs = 6900000, e_SeasonMin = 0,
     e_SeasonMax = 0, e_EpisodeSelection = \<lparr>es_Mode = EpisodeUnset, es_Holidays = []\<rparr>, e_OfficialRating = ''PG'',
     e_Genres = [''Action''], e_Year = 1981, e_RuntimeSec = 6900, e_CollectionID = 0, e_BoxSetIDs = [],
     e_BoxSetsResolved = False, e_Fit = 0, e_AddedAt = 0\<rparr>"

theorem Admits_is_the_gate_witness:
  "fst (filterEntriesWithTrace [sample_entry]
     (Resolved (empty_policy\<lparr>cp_Audience := \<lparr>au_Ceiling = ''TV-PG'', au_Unrated = UnratedDefault\<rparr>\<rparr>) Shuffle False) None)
   = [sample_entry]"
proof -
  let ?p = "empty_policy\<lparr>cp_Audience := \<lparr>au_Ceiling = ''TV-PG'', au_Unrated = UnratedDefault\<rparr>\<rparr>"
  have "\<not> scope_refuses (cp_Scope ?p) sample_entry" "boxSetOK sample_entry (sc_Collections (cp_Scope ?p))"
    by (simp_all add: scope_refuses_def boxSetOK_def empty_policy_def empty_scope_def sample_entry_def
        seriesPremiereDateOK_def movieDateOK_def seriesAllowSet_def genreOK_def genresOverlap_def list_ex_iff)
  moreover have "fst (Admits (cp_Audience ?p) (e_OfficialRating sample_entry))"
    by code_simp
  ultimately show ?thesis using Admits_is_the_gate [of ?p sample_entry Shuffle False None] by simp
qed

text \<open>
  A rule can only subtract: whatever scope a rule names, the entries it leaves are in order among
  the channel's own eligible ones, so every one of them is still safe for the audience.
\<close>

theorem rule_scope_narrows:
  "subseq (fst (applyRuleScopeWithTrace (fst (filterEntriesWithTrace entries rp t1)) what t2))
          (fst (filterEntriesWithTrace entries rp t1)) \<and>
   list_all (\<lambda>e. rating_safe (rp_Ceiling rp) (rp_Unrated rp) (e_OfficialRating e))
     (fst (applyRuleScopeWithTrace (fst (filterEntriesWithTrace entries rp t1)) what t2))"
proof
  show "list_all (\<lambda>e. rating_safe (rp_Ceiling rp) (rp_Unrated rp) (e_OfficialRating e))
     (fst (applyRuleScopeWithTrace (fst (filterEntriesWithTrace entries rp t1)) what t2))"
    unfolding list_all_iff
    by (rule rule_filter.narrow_all) (simp add: filterEntries_eligible entry_kept_def gate_verdict_keep)
qed (rule rule_filter.narrow_order)

end
