(* ===== verification/Episode_Selection.thy ===== *)
theory Episode_Selection
  imports Filters
begin

text \<open>
  Editorial episode selection, \<^verbatim>\<open>internal/schedule/episode_selection.go\<close>: highlights by community rating
  and holiday episodes by the calendar's judgment. Both take and leave the parts of a multi-part
  story together; the interface \<open>episode_selector\<close> states that contract and the selection of a lineup
  entry is proved against it. A community rating is a rational, so averaging and the tie at the
  cut-off are exact. \<open>fold_text\<close> is the Unicode folding of the phrase matcher.
\<close>

definition validCommunityRating :: "rat \<Rightarrow> bool" where
  "validCommunityRating r \<longleftrightarrow> r > 0 \<and> r \<le> 10"

record selectionUnit =
  su_episodes :: "nat list"
  su_rating :: rat
  su_rated :: bool

type_synonym unit_state = "selectionUnit list \<times> (string \<rightharpoonup> nat)"

definition unit_for :: "ResolvedProgram \<Rightarrow> unit_state \<Rightarrow> nat \<times> unit_state" where
  "unit_for ep st =
     (let (units, groupUnit) = st; g = p_PartGroup ep; fresh = length units;
          opened = (fresh, units @ [\<lparr>su_episodes = [], su_rating = 0, su_rated = True\<rparr>],
                    if g \<noteq> '''' then groupUnit(g \<mapsto> fresh) else groupUnit)
      in if g = '''' then opened
         else (case groupUnit g of None \<Rightarrow> opened | Some u \<Rightarrow> (u, st)))"

definition unit_add :: "nat \<Rightarrow> ResolvedProgram \<Rightarrow> selectionUnit \<Rightarrow> selectionUnit" where
  "unit_add i ep u =
     (let u = u\<lparr>su_episodes := su_episodes u @ [i]\<rparr>
      in if validCommunityRating (p_CommunityRating ep) then u\<lparr>su_rating := su_rating u + p_CommunityRating ep\<rparr>
         else u\<lparr>su_rated := False\<rparr>)"

definition unit_step :: "nat \<times> ResolvedProgram \<Rightarrow> unit_state \<Rightarrow> unit_state" where
  "unit_step ie st =
     (let (u, (units, groupUnit)) = unit_for (snd ie) st
      in (units[u := unit_add (fst ie) (snd ie) (units ! u)], groupUnit))"

definition selection_units :: "ResolvedProgram list \<Rightarrow> selectionUnit list" where
  "selection_units eps = fst (fold unit_step (zip [0..<length eps] eps) ([], Map.empty))"

definition unit_average :: "selectionUnit \<Rightarrow> rat" where
  "unit_average u = su_rating u / of_nat (length (su_episodes u))"

definition higher_rated :: "selectionUnit list \<Rightarrow> nat \<Rightarrow> nat \<Rightarrow> bool" where
  "higher_rated units a b =
     (if unit_average (units ! a) \<noteq> unit_average (units ! b)
      then unit_average (units ! b) < unit_average (units ! a) else a < b)"

definition clamp_target :: "nat \<Rightarrow> nat" where
  "clamp_target rated = (let t = (rated + 3) div 4; t = (if t < 4 then 4 else t) in if t > 48 then 48 else t)"

text \<open>The chosen units, or none where the evidence cannot narrow the run.\<close>

definition highlight_units :: "selectionUnit list \<Rightarrow> nat list option" where
  "highlight_units units =
     (let rated = filter (\<lambda>i. su_rated (units ! i)) [0..<length units];
          target = clamp_target (length rated)
      in if length units < 8 then None
         else if length rated * 4 < length units * 3 then None
         else if target \<ge> length rated \<or> target > 48 then None
         else
           (let ranked = sort_by (higher_rated units) rated;
                cutoff = unit_average (units ! (ranked ! (target - 1)));
                target = target + length (takeWhile (\<lambda>i. unit_average (units ! i) = cutoff) (drop target ranked))
            in if target \<ge> length rated \<or> target > 48 then None else Some (take target ranked)))"

definition selectHighlights :: "ResolvedProgram list \<Rightarrow> ResolvedProgram list" where
  "selectHighlights eps =
     (let units = selection_units eps
      in case highlight_units units of None \<Rightarrow> eps
         | Some chosen \<Rightarrow>
             (let selected = concat (map (\<lambda>u. su_episodes (units ! u)) chosen)
              in map snd (filter (\<lambda>(i, _). i \<in> set selected) (zip [0..<length eps] eps))))"

subsection \<open>Holiday episodes\<close>

definition episodeEvidence :: "ResolvedProgram \<Rightarrow> Evidence" where
  "episodeEvidence ep =
     \<lparr>ev_Title = p_Title ep, ev_Text = [p_Overview ep], ev_Keywords = p_Tags ep, ev_Genres = [],
      ev_Episode = True, ev_AirDate = p_AirDate ep\<rparr>"

definition episodeHolidays :: "(string \<Rightarrow> string) \<Rightarrow> ResolvedProgram \<Rightarrow> Vocabulary \<Rightarrow> string list" where
  "episodeHolidays fold_text ep v =
     filter (\<lambda>i. Fits (Judge fold_text v i (episodeEvidence ep))) (map fst (Definitions v))"

text \<open>The set of wanted holidays; an empty set wants any.\<close>

definition episodeMatchesHoliday :: "(string \<Rightarrow> string) \<Rightarrow> ResolvedProgram \<Rightarrow> string list \<Rightarrow> Vocabulary \<Rightarrow> bool" where
  "episodeMatchesHoliday fold_text ep selected v =
     list_ex (\<lambda>i. selected = [] \<or> i \<in> set selected) (episodeHolidays fold_text ep v)"

definition matchingHolidayEpisodes ::
  "(string \<Rightarrow> string) \<Rightarrow> ResolvedProgram list \<Rightarrow> string list \<Rightarrow> Vocabulary \<Rightarrow> ResolvedProgram list" where
  "matchingHolidayEpisodes fold_text eps selected v =
     (let matching = filter (\<lambda>ep. episodeMatchesHoliday fold_text ep selected v) eps;
          groups = filter (\<lambda>g. g \<noteq> '''') (map p_PartGroup matching)
      in filter (\<lambda>ep. episodeMatchesHoliday fold_text ep selected v \<or>
                     (p_PartGroup ep \<noteq> '''' \<and> p_PartGroup ep \<in> set groups)) eps)"

definition selectHolidayEpisodes ::
  "(string \<Rightarrow> string) \<Rightarrow> ResolvedProgram list \<Rightarrow> string list \<Rightarrow> Vocabulary \<Rightarrow> ResolvedProgram list" where
  "selectHolidayEpisodes fold_text eps ids v = matchingHolidayEpisodes fold_text eps (map to_lower ids) v"

definition selectEpisodes ::
  "(string \<Rightarrow> string) \<Rightarrow> ResolvedProgram list \<Rightarrow> EpisodeSelection \<Rightarrow> Vocabulary \<Rightarrow> ResolvedProgram list" where
  "selectEpisodes fold_text eps policy v =
     (case es_Mode policy of
        EpisodeHighlights \<Rightarrow> selectHighlights eps
      | EpisodeHoliday \<Rightarrow> selectHolidayEpisodes fold_text eps (es_Holidays policy) v
      | _ \<Rightarrow> eps)"

record resolvedProgramID =
  ri_libraryItemID :: string
  ri_title :: string
  ri_partGroup :: string
  ri_season :: int
  ri_episode :: int
  ri_partIndex :: int

definition resolvedProgramIdentity :: "ResolvedProgram \<Rightarrow> resolvedProgramID" where
  "resolvedProgramIdentity ep =
     \<lparr>ri_libraryItemID = p_LibraryItemID ep, ri_title = p_Title ep, ri_partGroup = p_PartGroup ep,
      ri_season = p_Season ep, ri_episode = p_Episode ep, ri_partIndex = p_PartIndex ep\<rparr>"

text \<open>Which episodes of a run the selection accounts for, occurrence by occurrence.\<close>

fun account :: "(resolvedProgramID \<Rightarrow> nat) \<Rightarrow> ResolvedProgram list \<Rightarrow> (ResolvedProgram \<times> bool) list" where
  "account counts [] = []"
| "account counts (ep # eps) =
     (let k = resolvedProgramIdentity ep
      in if counts k > 0 then (ep, True) # account (counts(k := counts k - 1)) eps
         else (ep, False) # account counts eps)"

definition identity_counts :: "ResolvedProgram list \<Rightarrow> resolvedProgramID \<Rightarrow> nat" where
  "identity_counts eps k = length (filter (\<lambda>ep. resolvedProgramIdentity ep = k) eps)"

abbreviation selection_facts ::
  "LineupEntry \<Rightarrow> ScheduleOutcome \<Rightarrow> ScheduleReason \<Rightarrow> ResolvedProgram list \<Rightarrow> ScheduleFact list" where
  "selection_facts e outcome reason eps \<equiv> map (\<lambda>ep. episodeFact e ep StageEpisodeSelection outcome reason) eps"

definition selectEpisodesWithTrace ::
  "(string \<Rightarrow> string) \<Rightarrow> LineupEntry \<Rightarrow> ResolvedProgram list \<Rightarrow> bool \<Rightarrow> Vocabulary \<Rightarrow> scheduleTraceBuilder option \<Rightarrow>
   ResolvedProgram list \<times> scheduleTraceBuilder option" where
  "selectEpisodesWithTrace fold_text e eps editorialUnavailable v trace =
     (let mode = es_Mode (e_EpisodeSelection e)
      in if editorialUnavailable
         then (if mode = EpisodeHoliday
               then ([], trace_add_all (selection_facts e OutcomeOmitted ReasonHolidayOmitted eps) trace)
               else (eps, trace_add_all (selection_facts e OutcomeSelected ReasonFullRunFallback eps) trace))
         else
           (let selected = selectEpisodes fold_text eps (e_EpisodeSelection e) v
            in if mode = EpisodeUnset \<or> mode = EpisodeComplete
               then (selected, trace_add_all (selection_facts e OutcomeSelected ReasonCompleteSelected selected) trace)
               else if length selected = length eps \<and> mode \<noteq> EpisodeHoliday
               then (selected, trace_add_all (selection_facts e OutcomeSelected ReasonFullRunFallback selected) trace)
               else
                 (let (yes, no) = (if mode = EpisodeHoliday then (ReasonHolidaySelected, ReasonHolidayOmitted)
                                   else (ReasonHighlightsSelected, ReasonHighlightsOmitted))
                  in (selected,
                      trace_add_all
                        (map (\<lambda>(ep, kept). if kept then episodeFact e ep StageEpisodeSelection OutcomeSelected yes
                                          else episodeFact e ep StageEpisodeSelection OutcomeOmitted no)
                          (account (identity_counts selected) eps)) trace))))"

subsection \<open>The contract of a selector\<close>

definition whole_groups :: "ResolvedProgram list \<Rightarrow> ResolvedProgram list \<Rightarrow> bool" where
  "whole_groups out eps \<longleftrightarrow>
     (\<forall>a\<in>set out. \<forall>b\<in>set eps. p_PartGroup a \<noteq> '''' \<longrightarrow> p_PartGroup b = p_PartGroup a \<longrightarrow> b \<in> set out)"

locale episode_selector =
  fixes sel :: "ResolvedProgram list \<Rightarrow> ResolvedProgram list"
  assumes sel_order: "subseq (sel eps) eps"
    and sel_whole: "whole_groups (sel eps) eps"
begin

lemma sel_subset: "set (sel eps) \<subseteq> set eps"
  using sel_order by (rule subseq_set)

lemma sel_safe: "\<forall>ep\<in>set eps. P ep \<Longrightarrow> \<forall>ep\<in>set (sel eps). P ep"
  using sel_subset by blast

lemma sel_length: "length (sel eps) \<le> length eps"
  using sel_order by (rule list_emb_length)

end

lemma subseq_filter_left': "subseq (filter P xs) xs"
  by (induction xs) auto

lemma matching_whole: "whole_groups (matchingHolidayEpisodes ft eps ids v) eps"
  by (auto simp: whole_groups_def matchingHolidayEpisodes_def Let_def)

lemma matching_order: "subseq (matchingHolidayEpisodes ft eps ids v) eps"
  by (simp add: matchingHolidayEpisodes_def Let_def subseq_filter_left')

interpretation holiday: episode_selector "\<lambda>eps. matchingHolidayEpisodes fold_text eps ids v"
  by unfold_locales (rule matching_order matching_whole)+

text \<open>The units after the first \<open>n\<close> episodes hold each grouped episode in its group's unit and nowhere else.\<close>

definition units_ok :: "ResolvedProgram list \<Rightarrow> nat \<Rightarrow> unit_state \<Rightarrow> bool" where
  "units_ok eps n st \<longleftrightarrow>
     (\<forall>g u. snd st g = Some u \<longrightarrow> u < length (fst st)) \<and>
     (\<forall>i<n. p_PartGroup (eps ! i) \<noteq> '''' \<longrightarrow>
        (\<exists>u. snd st (p_PartGroup (eps ! i)) = Some u \<and> i \<in> set (su_episodes (fst st ! u)))) \<and>
     (\<forall>u<length (fst st). \<forall>i\<in>set (su_episodes (fst st ! u)).
        i < n \<and> (p_PartGroup (eps ! i) \<noteq> '''' \<longrightarrow> snd st (p_PartGroup (eps ! i)) = Some u))"

lemma unit_add_episodes [simp]: "su_episodes (unit_add i ep u) = su_episodes u @ [i]"
  by (simp add: unit_add_def Let_def)

lemma unit_step_open:
  assumes "p_PartGroup ep = '''' \<or> groups (p_PartGroup ep) = None"
  shows "unit_step (n, ep) (units, groups) =
    (units @ [unit_add n ep \<lparr>su_episodes = [], su_rating = 0, su_rated = True\<rparr>],
     if p_PartGroup ep \<noteq> '''' then groups(p_PartGroup ep \<mapsto> length units) else groups)"
  using assms by (auto simp: unit_step_def unit_for_def Let_def)

lemma unit_step_join:
  assumes "p_PartGroup ep \<noteq> ''''" "groups (p_PartGroup ep) = Some u"
  shows "unit_step (n, ep) (units, groups) = (units[u := unit_add n ep (units ! u)], groups)"
  using assms by (auto simp: unit_step_def unit_for_def Let_def)

lemma unit_step_ok:
  assumes ok: "units_ok eps n (units, groups)"
  shows "units_ok eps (Suc n) (unit_step (n, eps ! n) (units, groups))"
proof (cases "p_PartGroup (eps ! n) = '''' \<or> groups (p_PartGroup (eps ! n)) = None")
  case True
  have bound: "groups g = Some u \<Longrightarrow> u < length units" for g u
    using ok by (auto simp: units_ok_def)
  have kept: "i < n \<Longrightarrow> p_PartGroup (eps ! i) \<noteq> '''' \<Longrightarrow>
      \<exists>u<length units. groups (p_PartGroup (eps ! i)) = Some u \<and> i \<in> set (su_episodes (units ! u))" for i
    using ok bound unfolding units_ok_def by fastforce
  have owner: "u < length units \<Longrightarrow> i \<in> set (su_episodes (units ! u)) \<Longrightarrow>
      i < n \<and> (p_PartGroup (eps ! i) \<noteq> '''' \<longrightarrow> groups (p_PartGroup (eps ! i)) = Some u)" for u i
    using ok by (auto simp: units_ok_def)
  show ?thesis
    unfolding unit_step_open [where groups = groups and ep = "eps ! n", OF True] units_ok_def
    using kept owner True
    by (auto simp: nth_append less_Suc_eq dest: bound) (force dest: bound)+
next
  case False
  then obtain u where u: "p_PartGroup (eps ! n) \<noteq> ''''" "groups (p_PartGroup (eps ! n)) = Some u" by auto
  then have "u < length units" using ok by (auto simp: units_ok_def)
  then show ?thesis
    unfolding unit_step_join [of "eps ! n" groups u, OF u] using ok u
    by (auto simp: units_ok_def nth_list_update less_Suc_eq)
qed

lemma units_fold_ok:
  assumes "n \<le> length eps"
  shows "units_ok eps n (fold unit_step (zip [0..<n] (take n eps)) ([], Map.empty))"
  using assms
proof (induction n)
  case 0
  then show ?case by (simp add: units_ok_def)
next
  case (Suc n)
  let ?st = "fold unit_step (zip [0..<n] (take n eps)) ([], Map.empty)"
  have "take (Suc n) eps = take n eps @ [eps ! n]" using Suc.prems by (simp add: take_Suc_conv_app_nth)
  then have "zip [0..<Suc n] (take (Suc n) eps) = zip [0..<n] (take n eps) @ [(n, eps ! n)]"
    using Suc.prems by simp
  then have "fold unit_step (zip [0..<Suc n] (take (Suc n) eps)) ([], Map.empty) = unit_step (n, eps ! n) ?st"
    by simp
  then show ?case using unit_step_ok [of eps n "fst ?st" "snd ?st"] Suc by simp
qed

lemma selection_units_ok: "\<exists>groups. units_ok eps (length eps) (selection_units eps, groups)"
  using units_fold_ok [of "length eps" eps] unfolding selection_units_def
  by (metis order_refl prod.collapse take_all)

lemma chosen_below:
  assumes "highlight_units units = Some chosen"
  shows "\<forall>u\<in>set chosen. u < length units"
proof -
  obtain k where "chosen = take k (sort_by (higher_rated units) (filter (\<lambda>i. su_rated (units ! i)) [0..<length units]))"
    using assms by (auto simp: highlight_units_def Let_def split: if_splits)
  then have "set chosen \<subseteq> {0..<length units}"
    by (auto dest!: in_set_takeD)
  then show ?thesis by auto
qed

lemma zip_filter_snd:
  "map snd (filter (\<lambda>(i, _). P i) (zip [k..<k + length xs] xs)) = nths xs {i. P (k + i)}"
proof (induction xs arbitrary: k)
  case (Cons x xs)
  have "[k..<k + length (x # xs)] = k # [Suc k..<Suc k + length xs]"
    using upt_conv_Cons [of k "k + length (x # xs)"] by simp
  then show ?case using Cons.IH [of "Suc k"] by (auto simp: nths_Cons)
qed simp

lemma selectHighlights_nths:
  assumes "highlight_units (selection_units eps) = Some chosen"
  shows "selectHighlights eps =
    nths eps {i. i \<in> set (concat (map (\<lambda>u. su_episodes (selection_units eps ! u)) chosen))}"
  using zip_filter_snd [of "\<lambda>i. i \<in> set (concat (map (\<lambda>u. su_episodes (selection_units eps ! u)) chosen))" 0 eps]
  by (simp add: selectHighlights_def Let_def assms case_prod_beta')

lemma highlights_order: "subseq (selectHighlights eps) eps"
proof (cases "highlight_units (selection_units eps)")
  case None
  then show ?thesis by (simp add: selectHighlights_def Let_def)
next
  case (Some chosen)
  then show ?thesis by (simp add: selectHighlights_nths subseq_conv_nths) blast
qed

lemma highlights_whole: "whole_groups (selectHighlights eps) eps"
proof (cases "highlight_units (selection_units eps)")
  case None
  then show ?thesis by (simp add: selectHighlights_def Let_def whole_groups_def)
next
  case (Some chosen)
  let ?units = "selection_units eps"
  obtain groups where ok: "units_ok eps (length eps) (?units, groups)" using selection_units_ok by blast
  show ?thesis unfolding whole_groups_def
  proof (intro ballI impI)
    fix a b
    assume a: "a \<in> set (selectHighlights eps)" "p_PartGroup a \<noteq> ''''"
      and b: "b \<in> set eps" "p_PartGroup b = p_PartGroup a"
    from a(1) obtain i u where iu: "i < length eps" "a = eps ! i" "u \<in> set chosen" "i \<in> set (su_episodes (?units ! u))"
      by (auto simp: selectHighlights_nths [OF Some] set_nths)
    have "u < length ?units" using chosen_below [OF Some] iu(3) by blast
    then have "groups (p_PartGroup a) = Some u" using ok iu a(2) by (auto simp: units_ok_def)
    moreover obtain j where j: "j < length eps" "b = eps ! j" using b(1) by (auto simp: in_set_conv_nth)
    ultimately have "j \<in> set (su_episodes (?units ! u))" using ok a(2) b(2) by (auto simp: units_ok_def)
    then show "b \<in> set (selectHighlights eps)"
      using j iu(3) by (auto simp: selectHighlights_nths [OF Some] set_nths)
  qed
qed

text \<open>A highlight selection of something is something.\<close>

lemma units_nonempty:
  assumes "\<forall>u\<in>set (fst st). su_episodes u \<noteq> []" and "\<forall>g u. snd st g = Some u \<longrightarrow> u < length (fst st)"
  shows "(\<forall>u\<in>set (fst (unit_step ie st)). su_episodes u \<noteq> []) \<and>
    (\<forall>g u. snd (unit_step ie st) g = Some u \<longrightarrow> u < length (fst (unit_step ie st)))"
proof -
  obtain units groups where st: "st = (units, groups)" by (cases st)
  obtain n ep where ie: "ie = (n, ep)" by (cases ie)
  show ?thesis
  proof (cases "p_PartGroup ep = '''' \<or> groups (p_PartGroup ep) = None")
    case True
    show ?thesis unfolding st ie unit_step_open [where groups = groups and ep = ep, OF True]
      using assms st by (auto intro: less_SucI)
  next
    case False
    then obtain u where u: "p_PartGroup ep \<noteq> ''''" "groups (p_PartGroup ep) = Some u" by auto
    show ?thesis unfolding st ie unit_step_join [of ep groups u, OF u]
      using assms st by (auto dest!: subsetD [OF set_update_subset_insert])
  qed
qed

lemma selection_units_nonempty: "u \<in> set (selection_units eps) \<Longrightarrow> su_episodes u \<noteq> []"
proof -
  have "(\<forall>u\<in>set (fst (fold unit_step ies st)). su_episodes u \<noteq> [])"
    if "\<forall>u\<in>set (fst st). su_episodes u \<noteq> []" "\<forall>g u. snd st g = Some u \<longrightarrow> u < length (fst st)" for ies st
    using that by (induction ies arbitrary: st) (simp, metis fold_simps(2) units_nonempty)
  from this [of "([], Map.empty)"] show "u \<in> set (selection_units eps) \<Longrightarrow> su_episodes u \<noteq> []"
    by (simp add: selection_units_def)
qed

lemma highlight_units_nonempty:
  assumes "highlight_units units = Some chosen"
  shows "chosen \<noteq> []"
proof -
  define rated where "rated = filter (\<lambda>i. su_rated (units ! i)) [0..<length units]"
  have four: "4 \<le> clamp_target (length rated)" by (simp add: clamp_target_def Let_def)
  have "clamp_target (length rated) < length rated" and "\<exists>n. chosen = take (clamp_target (length rated) + n) (sort_by (higher_rated units) rated)"
    using assms unfolding highlight_units_def Let_def rated_def [symmetric] by (auto split: if_splits)
  moreover from this(1) have "sort_by (higher_rated units) rated \<noteq> []" using length_sort_by by (metis less_zeroE list.size(3))
  ultimately show ?thesis using four by auto
qed

lemma highlights_nonempty: "selectHighlights eps = [] \<longleftrightarrow> eps = []"
proof (cases "highlight_units (selection_units eps)")
  case None
  then show ?thesis by (simp add: selectHighlights_def Let_def)
next
  case (Some chosen)
  obtain u where u: "u \<in> set chosen" using highlight_units_nonempty [OF Some] by (cases chosen) auto
  then have len: "u < length (selection_units eps)" using chosen_below [OF Some] by blast
  then obtain i where i: "i \<in> set (su_episodes (selection_units eps ! u))"
    using selection_units_nonempty [OF nth_mem [OF len]] by (cases "su_episodes (selection_units eps ! u)") auto
  obtain groups where "units_ok eps (length eps) (selection_units eps, groups)" using selection_units_ok by blast
  then have "i < length eps" using i len by (auto simp: units_ok_def)
  then have "eps ! i \<in> set (selectHighlights eps)" using u i by (auto simp: selectHighlights_nths [OF Some] set_nths)
  then show ?thesis using \<open>i < length eps\<close> by auto
qed

interpretation highlights: episode_selector selectHighlights
  by unfold_locales (rule highlights_order highlights_whole)+

interpretation editorial: episode_selector "\<lambda>eps. selectEpisodes fold_text eps policy v"
proof
  show "subseq (selectEpisodes fold_text eps policy v) eps" for eps
    by (simp add: selectEpisodes_def selectHolidayEpisodes_def highlights_order matching_order
        split: EpisodeSelectionMode.split)
  show "whole_groups (selectEpisodes fold_text eps policy v) eps" for eps
    by (simp add: selectEpisodes_def selectHolidayEpisodes_def highlights_whole matching_whole
        whole_groups_def split: EpisodeSelectionMode.split)
      (auto simp: highlights_whole [unfolded whole_groups_def] matching_whole [unfolded whole_groups_def])
qed

text \<open>
  Editorial selection never breaks a story apart and never adds or reorders an episode: whatever
  the entry's selection mode and evidence, the episodes kept are in order among the run's, and when
  one part of a multi-part story is kept every part of it in the run is.
\<close>

theorem selectEpisodes_whole_stories:
  "subseq (fst (selectEpisodesWithTrace fold_text e eps editorialUnavailable v trace)) eps \<and>
   whole_groups (fst (selectEpisodesWithTrace fold_text e eps editorialUnavailable v trace)) eps"
proof -
  have "fst (selectEpisodesWithTrace fold_text e eps editorialUnavailable v trace) \<in>
      {[], eps, selectEpisodes fold_text eps (e_EpisodeSelection e) v}"
    by (auto simp: selectEpisodesWithTrace_def Let_def split: prod.split)
  then show ?thesis
    using editorial.sel_order editorial.sel_whole by (auto simp: whole_groups_def [of "[]"] whole_groups_def [of eps])
qed

end
