(* ===== verification/Seasonal.thy ===== *)
theory Seasonal
  imports Episode_Selection
begin

text \<open>
  Seasonality, \<^verbatim>\<open>internal/schedule/seasonal.go\<close>: which of the calendar's holidays are on at an instant
  on the household's wall clock, and what a channel's seasonal policy does with its entries (bench,
  boost, exclusive) and with the episodes of an exclusive channel. A Go set of ids is a list, and a
  nil set an empty one.
\<close>

subsection \<open>The calendar at an instant\<close>

definition cal_holidays :: "Calendar \<Rightarrow> Observance list" where
  "cal_holidays c = Vocabulary_Calendar (Vocab c) (cl_Country c)"

definition civilNoon :: "gotime \<Rightarrow> zone option \<Rightarrow> gotime" where
  "civilNoon now z = midnight (day_index (wall_time z now)) + 12 * hour"

definition time_Year :: "gotime \<Rightarrow> int" where
  "time_Year t = year_of (day_index t)"

definition holiday_window :: "Observance \<Rightarrow> int \<Rightarrow> gotime \<times> gotime" where
  "holiday_window h y = Span (ob_Rule h) y"

definition window_contains :: "Observance \<Rightarrow> gotime \<Rightarrow> int \<Rightarrow> bool" where
  "window_contains h now y = (\<not> now < fst (holiday_window h y) \<and> \<not> now > snd (holiday_window h y))"

definition holidayActive :: "Observance \<Rightarrow> gotime \<Rightarrow> bool" where
  "holidayActive h now =
     list_ex (window_contains h now) [time_Year now, time_Year now - 1, time_Year now + 1]"

definition lowerSet :: "string list \<Rightarrow> string list" where
  "lowerSet ss = map to_lower ss"

definition activeHolidays :: "gotime \<Rightarrow> Calendar \<Rightarrow> string list \<Rightarrow> Observance list" where
  "activeHolidays now cal selected =
     (if is_zero_time now then []
      else
        (let now = civilNoon now (cl_Zone cal); sel = lowerSet selected
         in filter (\<lambda>h. (sel = [] \<or> ob_ID h \<in> set sel) \<and> holidayActive h now) (cal_holidays cal)))"

record HolidayWindow =
  hw_ID :: string
  hw_Start :: gotime
  hw_End :: gotime

definition first_window :: "(gotime \<times> gotime \<Rightarrow> bool) \<Rightarrow> Observance \<Rightarrow> int list \<Rightarrow> HolidayWindow option" where
  "first_window P h years =
     map_option (\<lambda>y. \<lparr>hw_ID = ob_ID h, hw_Start = fst (holiday_window h y), hw_End = snd (holiday_window h y)\<rparr>)
       (find (\<lambda>y. P (holiday_window h y)) years)"

definition years_around :: "gotime \<Rightarrow> int list" where
  "years_around now = [time_Year now - 1, time_Year now, time_Year now + 1]"

definition soonest_first :: "HolidayWindow list \<Rightarrow> HolidayWindow list" where
  "soonest_first = sort_by (\<lambda>a b. hw_Start a < hw_Start b)"

definition UpcomingHolidays :: "gotime \<Rightarrow> duration \<Rightarrow> Calendar \<Rightarrow> HolidayWindow list" where
  "UpcomingHolidays now horizon cal =
     (let now = civilNoon now (cl_Zone cal)
      in soonest_first (List.map_filter
           (\<lambda>h. first_window (\<lambda>(start, end'). \<not> end' < now \<and> \<not> start > now + horizon) h (years_around now))
           (cal_holidays cal)))"

definition HonouredHolidays :: "gotime \<Rightarrow> SeasonalPolicy \<Rightarrow> Calendar \<Rightarrow> HolidayWindow list" where
  "HonouredHolidays now seasonal cal =
     (if se_Mode seasonal = SeasonalOff then []
      else
        (let now = civilNoon now (cl_Zone cal); sel = lowerSet (se_Holidays seasonal)
         in soonest_first (List.map_filter
              (\<lambda>h. first_window (\<lambda>(start, end'). \<not> end' < now) h (years_around now))
              (filter (\<lambda>h. sel = [] \<or> ob_ID h \<in> set sel) (cal_holidays cal)))))"

definition ActiveHolidayAt :: "gotime \<Rightarrow> SeasonalPolicy \<Rightarrow> Calendar \<Rightarrow> string" where
  "ActiveHolidayAt t seasonal cal =
     (if se_Mode seasonal = SeasonalOff then ''''
      else (case activeHolidays t cal (se_Holidays seasonal) of [] \<Rightarrow> '''' | h # _ \<Rightarrow> ob_ID h))"

definition SeasonAt :: "Calendar \<Rightarrow> gotime \<Rightarrow> string list \<times> string list" where
  "SeasonAt c t =
     (let v = Vocab c; dated = filter (\<lambda>i. Dated v i) (map hd_ID v)
      in (dated, filter (\<lambda>i. \<not> is_zero_time t \<and> InSeason v i (cl_Country c) (civilNoon t (cl_Zone c))) dated))"

definition WatermarkHoliday ::
  "WatermarkPolicy option \<Rightarrow> ResolvedWatermark \<Rightarrow> SeasonalPolicy \<Rightarrow> gotime \<Rightarrow> Calendar \<Rightarrow> string \<times> string" where
  "WatermarkHoliday p r seasonal t cal =
     (if \<not> rw_Holiday r \<or> rw_Image r \<noteq> '''' then ('''', '''')
      else
        (let holiday = ActiveHolidayAt t seasonal cal; motif = WatermarkMotif p holiday
         in if motif = '''' then ('''', '''') else (holiday, motif)))"

subsection \<open>Entries\<close>

definition judgeEntry :: "(string \<Rightarrow> string) \<Rightarrow> Vocabulary \<Rightarrow> LineupEntry \<Rightarrow> string \<Rightarrow> Judgment" where
  "judgeEntry fold_text v e i =
     Judge fold_text v i \<lparr>ev_Title = e_Title e, ev_Text = [], ev_Keywords = [], ev_Genres = e_Genres e,
                         ev_Episode = False, ev_AirDate = 0\<rparr>"

definition isSeasonal :: "(string \<Rightarrow> string) \<Rightarrow> Vocabulary \<Rightarrow> LineupEntry \<Rightarrow> Observance list \<Rightarrow> bool" where
  "isSeasonal fold_text v e hs = list_ex (\<lambda>h. jd_Verdict (judgeEntry fold_text v e (ob_ID h)) = VerdictAbout) hs"

definition fitsSeason :: "(string \<Rightarrow> string) \<Rightarrow> Vocabulary \<Rightarrow> LineupEntry \<Rightarrow> Observance list \<Rightarrow> bool" where
  "fitsSeason fold_text v e hs = list_ex (\<lambda>h. Fits (judgeEntry fold_text v e (ob_ID h))) hs"

definition benchesForAny :: "(string \<Rightarrow> string) \<Rightarrow> LineupEntry \<Rightarrow> Calendar \<Rightarrow> bool" where
  "benchesForAny fold_text e cal = list_ex (\<lambda>h. Benches (judgeEntry fold_text (Vocab cal) e (ob_ID h))) (cal_holidays cal)"

definition aboutAnyHoliday :: "(string \<Rightarrow> string) \<Rightarrow> LineupEntry \<Rightarrow> Vocabulary \<Rightarrow> bool" where
  "aboutAnyHoliday fold_text e v =
     list_ex (\<lambda>(i, _). jd_Verdict (judgeEntry fold_text v e i) = VerdictAbout) (Definitions v)"

definition entryHasContent ::
  "(string \<Rightarrow> string) \<Rightarrow> Vocabulary \<Rightarrow> LineupEntry \<Rightarrow> Observance \<Rightarrow> Availability option \<Rightarrow> bool" where
  "entryHasContent fold_text v e h avail =
     (if \<not> IsSeries (e_Key e) then fitsSeason fold_text v e [h]
      else (case avail of
              None \<Rightarrow> True
            | Some av \<Rightarrow>
                (let res = av_ResolveEpisodes av (e_Key e)
                 in if er_EditorialUnavailable res then True
                    else list_ex (\<lambda>ep. ob_ID h \<in> set (episodeHolidays fold_text ep v)) (er_Programs res))))"

definition hasContentFor ::
  "(string \<Rightarrow> string) \<Rightarrow> Vocabulary \<Rightarrow> LineupEntry list \<Rightarrow> Observance \<Rightarrow> Availability option \<Rightarrow> bool" where
  "hasContentFor fold_text v entries h avail = list_ex (\<lambda>e. entryHasContent fold_text v e h avail) entries"

definition activeSeason ::
  "(string \<Rightarrow> string) \<Rightarrow> LineupEntry list \<Rightarrow> ResolvedPolicy \<Rightarrow> gotime \<Rightarrow> Calendar \<Rightarrow> Availability option \<Rightarrow> Observance list" where
  "activeSeason fold_text entries rp now cal avail =
     (if is_zero_time now \<or> rse_Mode (rp_Seasonal rp) = SeasonalOff then []
      else
        (let active = activeHolidays now cal (rse_Holidays (rp_Seasonal rp))
         in if rse_Mode (rp_Seasonal rp) \<noteq> SeasonalExclusive then active
            else filter (\<lambda>h. hasContentFor fold_text (Vocab cal) entries h avail) active))"

type_synonym seasonal_state = "LineupEntry list \<times> ExclusionReport \<times> scheduleTraceBuilder option"

definition bench :: "LineupEntry \<Rightarrow> seasonal_state \<Rightarrow> seasonal_state" where
  "bench e st =
     (let (kept, report, trace) = st
      in (kept, report_add e ''out_of_season'' report,
          trace_add (hardFilterFact e OutcomeExcluded ReasonOutOfSeason) trace))"

definition keep_entries :: "LineupEntry list \<Rightarrow> seasonal_state \<Rightarrow> seasonal_state" where
  "keep_entries es st = (let (kept, report, trace) = st in (kept @ es, report, trace))"

definition auto_step ::
  "(string \<Rightarrow> string) \<Rightarrow> Calendar \<Rightarrow> Observance list \<Rightarrow> LineupEntry \<Rightarrow> seasonal_state \<Rightarrow> seasonal_state" where
  "auto_step fold_text cal active e st =
     (if benchesForAny fold_text e cal \<and> \<not> isSeasonal fold_text (Vocab cal) e active then bench e st
      else if active \<noteq> [] \<and> isSeasonal fold_text (Vocab cal) e active then keep_entries [e, e] st
      else keep_entries [e] st)"

definition exclusive_step ::
  "(string \<Rightarrow> string) \<Rightarrow> Vocabulary \<Rightarrow> Observance list \<Rightarrow> LineupEntry \<Rightarrow> seasonal_state \<Rightarrow> seasonal_state" where
  "exclusive_step fold_text v active e st =
     (if IsSeries (e_Key e) \<or> fitsSeason fold_text v e active then keep_entries [e] st else bench e st)"

definition applySeasonalWithTrace ::
  "(string \<Rightarrow> string) \<Rightarrow> LineupEntry list \<Rightarrow> ResolvedPolicy \<Rightarrow> gotime \<Rightarrow> Calendar \<Rightarrow> Observance list \<Rightarrow>
   scheduleTraceBuilder option \<Rightarrow> seasonal_state" where
  "applySeasonalWithTrace fold_text entries rp now cal active trace =
     (let start = ([], empty_report, trace); mode = rse_Mode (rp_Seasonal rp)
      in if is_zero_time now \<or> mode = SeasonalOff then (entries, empty_report, trace)
         else if mode = SeasonalExclusive
         then (if active = []
               then (if rse_OffSeason (rp_Seasonal rp) = OffSeasonDark then fold bench entries start
                     else (entries, empty_report, trace))
               else fold (exclusive_step fold_text (Vocab cal) active) entries start)
         else fold (auto_step fold_text cal active) entries start)"

subsection \<open>Episodes of an exclusive channel\<close>

definition exclusiveEpisodeHolidays :: "ResolvedPolicy \<Rightarrow> Observance list \<Rightarrow> string list" where
  "exclusiveEpisodeHolidays rp active =
     (if rse_Mode (rp_Seasonal rp) \<noteq> SeasonalExclusive \<or> active = [] then [] else map ob_ID active)"

definition filterExclusiveEpisodes ::
  "(string \<Rightarrow> string) \<Rightarrow> LineupEntry \<Rightarrow> ResolvedProgram list \<Rightarrow> bool \<Rightarrow> string list \<Rightarrow> Vocabulary \<Rightarrow>
   ExclusionReport option \<Rightarrow> scheduleTraceBuilder option \<Rightarrow>
   ResolvedProgram list \<times> ExclusionReport option \<times> scheduleTraceBuilder option" where
  "filterExclusiveEpisodes fold_text e eps editorialUnavailable hs v report trace =
     (if hs = [] then (eps, report, trace)
      else
        (let selected = (if editorialUnavailable then [] else matchingHolidayEpisodes fold_text eps hs v);
             dropped = map fst (filter (\<lambda>(_, kept). \<not> kept) (account (identity_counts selected) eps))
         in (selected,
             map_option (\<lambda>r. r\<lparr>xr_Items := xr_Items r @
                map (\<lambda>ep. \<lparr>xi_Key = e_Key e, xi_Title = episodeLabel e ep, xi_Reason = ''out_of_season''\<rparr>) dropped\<rparr>) report,
             trace_add_all (map (\<lambda>ep. episodeFact e ep StageHardFilter OutcomeExcluded ReasonOutOfSeason) dropped) trace)))"

subsection \<open>Properties\<close>

lemma fst_bench [simp]: "fst (bench e st) = fst st"
  by (simp add: bench_def split: prod.split)

lemma fst_keep [simp]: "fst (keep_entries es st) = fst st @ es"
  by (simp add: keep_entries_def split: prod.split)

text \<open>What the fold of a stage keeps is what each step appends.\<close>

lemma fold_appends:
  assumes "\<And>e st. fst (f e st) = fst st @ g e"
  shows "fst (fold f es st) = fst st @ concat (map g es)"
  by (induction es arbitrary: st) (simp_all add: assms)

definition auto_copies :: "(string \<Rightarrow> string) \<Rightarrow> Calendar \<Rightarrow> Observance list \<Rightarrow> LineupEntry \<Rightarrow> LineupEntry list" where
  "auto_copies fold_text cal active e =
     (if benchesForAny fold_text e cal \<and> \<not> isSeasonal fold_text (Vocab cal) e active then []
      else if active \<noteq> [] \<and> isSeasonal fold_text (Vocab cal) e active then [e, e] else [e])"

lemma auto_fold: "fst (fold (auto_step ft cal active) es st) = fst st @ concat (map (auto_copies ft cal active) es)"
  by (rule fold_appends) (simp add: auto_step_def auto_copies_def)

lemma exclusive_fold: "fst (fold (exclusive_step ft v active) es st) =
    fst st @ concat (map (\<lambda>e. if IsSeries (e_Key e) \<or> fitsSeason ft v e active then [e] else []) es)"
  by (rule fold_appends) (simp add: exclusive_step_def)

lemma bench_fold: "fst (fold bench es st) = fst st"
  using fold_appends [of bench "\<lambda>_. []" es st] by simp

lemma applySeasonal_subset:
  "set (fst (applySeasonalWithTrace ft es rp now cal active trace)) \<subseteq> set es"
  by (auto simp: applySeasonalWithTrace_def Let_def auto_fold exclusive_fold bench_fold auto_copies_def split: if_splits)

interpretation seasonal: narrowing "\<lambda>es. fst (applySeasonalWithTrace fold_text es rp now cal active trace)"
  by unfold_locales (rule applySeasonal_subset)

text \<open>The title names one of the calendar's holidays.\<close>

definition title_names_holiday :: "(string \<Rightarrow> string) \<Rightarrow> Vocabulary \<Rightarrow> LineupEntry \<Rightarrow> bool" where
  "title_names_holiday fold_text v e \<longleftrightarrow> (\<exists>h\<in>set v. nameIn fold_text h (e_Title e) \<noteq> '''')"

lemma judgeEntry_about:
  "jd_Verdict (judgeEntry ft v e i) = VerdictAbout \<Longrightarrow> title_names_holiday ft v e"
  using Judge_about_aux unfolding judgeEntry_def title_names_holiday_def names_holiday_def moody_episode_def
  by fastforce

text \<open>
  Ordinary programming is never benched. Outside exclusive mode, an entry whose title names no
  holiday stays in the pool at every instant, exactly as often as it was approved, whatever its
  genres and whatever mood words its title has; and nothing enters the pool that was not approved.
\<close>

theorem applySeasonal_keeps_ordinary:
  assumes "\<not> title_names_holiday fold_text (Vocab cal) e" and "rse_Mode (rp_Seasonal rp) \<noteq> SeasonalExclusive"
  shows "count (mset (fst (applySeasonalWithTrace fold_text entries rp now cal active trace))) e = count (mset entries) e \<and>
         set (fst (applySeasonalWithTrace fold_text entries rp now cal active trace)) \<subseteq> set entries"
proof
  have "\<And>i. jd_Verdict (judgeEntry fold_text (Vocab cal) e i) \<noteq> VerdictAbout"
    using assms(1) judgeEntry_about by blast
  then have copies: "auto_copies fold_text cal active e = [e]"
    by (auto simp: auto_copies_def benchesForAny_def isSeasonal_def Benches_def list_ex_iff)
  have only: "e \<notin> set (auto_copies fold_text cal active x)" if "x \<noteq> e" for x
    using that by (auto simp: auto_copies_def)
  have "count (mset (concat (map (auto_copies fold_text cal active) es))) e = count (mset es) e" for es
  proof (induction es)
    case (Cons x es)
    then show ?case using copies only [of x] by (cases "x = e") (auto simp: count_eq_zero_iff)
  qed simp
  then show "count (mset (fst (applySeasonalWithTrace fold_text entries rp now cal active trace))) e = count (mset entries) e"
    using assms(2) by (simp add: applySeasonalWithTrace_def Let_def auto_fold)
  show "set (fst (applySeasonalWithTrace fold_text entries rp now cal active trace)) \<subseteq> set entries"
    by (rule seasonal.narrow_subset)
qed

theorem applySeasonal_keeps_ordinary_witness:
  "count (mset (fst (applySeasonalWithTrace id [sample_entry]
     (Resolved empty_policy Sequential False) 63871200000000000000
     (empty_calendar\<lparr>cl_Holidays := Some [sample_halloween]\<rparr>) [] None))) sample_entry = 1"
proof -
  let ?cal = "empty_calendar\<lparr>cl_Holidays := Some [sample_halloween]\<rparr>"
  have "Vocab ?cal = [sample_halloween]" by (simp add: Vocab_def)
  moreover have "nameIn id sample_halloween (e_Title sample_entry) = ''''" by code_simp
  ultimately have "\<not> title_names_holiday id (Vocab ?cal) sample_entry"
    by (simp add: title_names_holiday_def)
  moreover have "rse_Mode (rp_Seasonal (Resolved empty_policy Sequential False)) \<noteq> SeasonalExclusive"
    by (simp add: Resolved_def empty_policy_def Let_def)
  ultimately show ?thesis
    using applySeasonal_keeps_ordinary [of id ?cal sample_entry "Resolved empty_policy Sequential False" "[sample_entry]"]
    by simp
qed

end
