(* ===== verification/Rules.thy ===== *)
theory Rules
  imports Seasonal
begin

text \<open>
  Curation rules, \<^verbatim>\<open>internal/schedule/rule.go\<close> and \<^verbatim>\<open>clocksig.go\<close>: the wall-clock predicate of a rule, the
  choice of the active rule, what it overrides, and the signature that keys a cached arrangement.
  An instant whose weekday or hour is read comes with the zone it carries (\<open>loc\<close>), as a Go time value
  does; the holiday calendar has its own.
\<close>

subsection \<open>The predicate\<close>

definition When_isZero :: "WhenPredicate \<Rightarrow> bool" where
  "When_isZero w \<longleftrightarrow> \<not> wp_Weekend w \<and> \<not> wp_Weekday w \<and> wp_Days w = [] \<and> wp_HourFrom w = 0 \<and> wp_HourTo w = 0 \<and>
     wp_Holiday w = '''' \<and> wp_DateFrom w = None \<and> wp_DateTo w = None"

definition time_Weekday :: "zone option \<Rightarrow> gotime \<Rightarrow> int" where
  "time_Weekday loc t = weekday (day_index (wall_time loc t))"

definition time_Hour :: "zone option \<Rightarrow> gotime \<Rightarrow> int" where
  "time_Hour loc t = wall_time loc t mod day_ns div hour"

definition isWeekend :: "int \<Rightarrow> bool" where
  "isWeekend d \<longleftrightarrow> d = 6 \<or> d = 0"

definition hourInWindow :: "int \<Rightarrow> int \<Rightarrow> int \<Rightarrow> bool" where
  "hourInWindow h from til = (if from \<le> til then h \<ge> from \<and> h < til else h \<ge> from \<or> h < til)"

definition inHoliday :: "string \<Rightarrow> gotime \<Rightarrow> Calendar \<Rightarrow> bool" where
  "inHoliday i now cal =
     (case find (\<lambda>h. ob_ID h = i) (cal_holidays cal) of
        None \<Rightarrow> False | Some h \<Rightarrow> holidayActive h (civilNoon now (cl_Zone cal)))"

definition Matches :: "WhenPredicate \<Rightarrow> zone option \<Rightarrow> gotime \<Rightarrow> Calendar \<Rightarrow> bool" where
  "Matches w loc now cal =
     (if When_isZero w then True
      else if is_zero_time now then False
      else if wp_Weekend w \<and> \<not> isWeekend (time_Weekday loc now) then False
      else if wp_Weekday w \<and> isWeekend (time_Weekday loc now) then False
      else if wp_Days w \<noteq> [] \<and> time_Weekday loc now \<notin> set (wp_Days w) then False
      else if (wp_HourFrom w \<noteq> 0 \<or> wp_HourTo w \<noteq> 0) \<and> \<not> hourInWindow (time_Hour loc now) (wp_HourFrom w) (wp_HourTo w) then False
      else if wp_Holiday w \<noteq> '''' \<and> \<not> inHoliday (wp_Holiday w) now cal then False
      else if (case wp_DateFrom w of None \<Rightarrow> False | Some d \<Rightarrow> now < d) then False
      else if (case wp_DateTo w of None \<Rightarrow> False | Some d \<Rightarrow> now > d) then False
      else True)"

subsection \<open>The active rule\<close>

fun pick_from :: "(SchedulingRule \<Rightarrow> bool) \<Rightarrow> SchedulingRule list \<Rightarrow> nat \<Rightarrow> nat option \<Rightarrow> SchedulingRule list \<Rightarrow> nat option" where
  "pick_from ok rules i best [] = best"
| "pick_from ok rules i best (r # rs) =
     (if \<not> ok r then pick_from ok rules (i + 1) best rs
      else if (case best of None \<Rightarrow> True | Some b \<Rightarrow> sr_Priority r > sr_Priority (rules ! b))
      then pick_from ok rules (i + 1) (Some i) rs
      else pick_from ok rules (i + 1) best rs)"

definition rule_matches :: "zone option \<Rightarrow> gotime \<Rightarrow> Calendar \<Rightarrow> SchedulingRule \<Rightarrow> bool" where
  "rule_matches loc now cal r = Matches (sr_When r) loc now cal"

definition pickRuleIndex :: "SchedulingRule list \<Rightarrow> zone option \<Rightarrow> gotime \<Rightarrow> Calendar \<Rightarrow> nat option" where
  "pickRuleIndex rules loc now cal = pick_from (rule_matches loc now cal) rules 0 None rules"

definition pickRule :: "SchedulingRule list \<Rightarrow> zone option \<Rightarrow> gotime \<Rightarrow> Calendar \<Rightarrow> SchedulingRule \<times> bool" where
  "pickRule rules loc now cal =
     (case pickRuleIndex rules loc now cal of None \<Rightarrow> (empty_rule, False) | Some b \<Rightarrow> (rules ! b, True))"

definition applyRuleHow :: "ResolvedPolicy \<Rightarrow> RuleOrdering \<Rightarrow> ResolvedPolicy" where
  "applyRuleHow rp how =
     (let sep = ro_Separation how; s = rp_Sep rp;
          s = (if sep_BlockMax sep \<noteq> 0 then s\<lparr>rs_BlockMax := sep_BlockMax sep\<rparr> else s);
          s = (if sep_SeriesMinGap sep \<noteq> 0 then s\<lparr>rs_SeriesMinGap := sep_SeriesMinGap sep\<rparr> else s);
          s = (if sep_EpisodeNoRepeat sep \<noteq> 0 then s\<lparr>rs_EpisodeNoRepeat := sep_EpisodeNoRepeat sep\<rparr> else s);
          s = (if sep_MovieNoRepeat sep \<noteq> 0 then s\<lparr>rs_MovieNoRepeat := sep_MovieNoRepeat sep\<rparr> else s)
      in rp\<lparr>rp_Ordering := (if ro_Ordering how \<noteq> OrderInherit then ro_Ordering how else rp_Ordering rp), rp_Sep := s\<rparr>)"

definition OrderingAt :: "ChannelPolicy \<Rightarrow> Strategy \<Rightarrow> zone option \<Rightarrow> gotime \<Rightarrow> Calendar \<Rightarrow> OrderingMode" where
  "OrderingAt policy strategy loc t cal =
     rp_Ordering (applyRuleHow (Resolved policy strategy False) (sr_How (fst (pickRule (cp_Rules policy) loc t cal))))"

subsection \<open>Attribution\<close>

definition capitalize :: "string \<Rightarrow> string" where
  "capitalize s = (case s of [] \<Rightarrow> [] | c # cs \<Rightarrow> upper_char c # cs)"

definition en_dash :: string where
  "en_dash = [CHR 0xE2, CHR 0x80, CHR 0x93]"

definition When_describe :: "WhenPredicate \<Rightarrow> string" where
  "When_describe w =
     (if When_isZero w then ''Always''
      else
        (let parts = (if wp_Holiday w \<noteq> '''' then [capitalize (wp_Holiday w)] else [])
               @ (if wp_Weekend w then [''Weekends''] else if wp_Weekday w then [''Weekdays''] else [])
               @ (if wp_HourFrom w \<noteq> 0 \<or> wp_HourTo w \<noteq> 0
                  then [two_digits (wp_HourFrom w) @ '':00'' @ en_dash @ two_digits (wp_HourTo w) @ '':00''] else [])
         in if parts = [] then ''Scheduled'' else join '' '' parts))"

definition How_describe :: "RuleOrdering \<Rightarrow> string" where
  "How_describe o' =
     (case ro_Ordering o' of
        OrderSequential \<Rightarrow> (if ro_NoBreaks o' then ''Marathon'' else ''In order'')
      | OrderShuffle \<Rightarrow> ''Shuffle''
      | OrderSyndication \<Rightarrow> ''Syndication''
      | _ \<Rightarrow> (if ro_NoBreaks o' then ''No breaks'' else ''''))"

definition Describe :: "SchedulingRule \<Rightarrow> string" where
  "Describe r =
     (if trim_space (sr_Label r) \<noteq> '''' then sr_Label r
      else
        (let when' = When_describe (sr_When r); how = How_describe (sr_How r)
         in if when' \<noteq> '''' \<and> how \<noteq> '''' then when' @ em_dash @ how
            else if when' \<noteq> '''' then when'
            else if how \<noteq> '''' then how
            else ''Rule''))"

record ActiveRuleAttribution =
  aa_ID :: string
  aa_Label :: string
  aa_Priority :: int
  aa_Matched :: bool

definition ActiveRuleAt :: "SchedulingRule list \<Rightarrow> zone option \<Rightarrow> gotime \<Rightarrow> Calendar \<Rightarrow> ActiveRuleAttribution" where
  "ActiveRuleAt rules loc now cal =
     (let (r, ok) = pickRule rules loc now cal
      in if \<not> ok then \<lparr>aa_ID = '''', aa_Label = ''Base policy'', aa_Priority = 0, aa_Matched = False\<rparr>
         else \<lparr>aa_ID = sr_ID r, aa_Label = Describe r, aa_Priority = sr_Priority r, aa_Matched = True\<rparr>)"

subsection \<open>The window of a rule (lineup.go)\<close>

definition pick_window :: "duration \<Rightarrow> duration option" where
  "pick_window d = (if d = WindowFull then Some 0 else if d > 0 then Some d else None)"

definition resolveWindow :: "duration \<Rightarrow> duration \<Rightarrow> duration \<Rightarrow> duration" where
  "resolveWindow ruleW channelW defaultW =
     (case pick_window ruleW of
        Some w \<Rightarrow> w
      | None \<Rightarrow>
          (case pick_window channelW of
             Some w \<Rightarrow> w
           | None \<Rightarrow> if defaultW > 0 then defaultW else 0))"

definition ResolveWindow :: "Channel \<Rightarrow> ChannelPolicy \<Rightarrow> zone option \<Rightarrow> gotime \<Rightarrow> duration" where
  "ResolveWindow ch policy loc now =
     resolveWindow (sr_Window (fst (pickRule (cp_Rules policy) loc now (channel_calendar ch)))) (cp_Window policy)
       (ch_DefaultWindow ch)"

subsection \<open>The clock signature (clocksig.go)\<close>

unbundle bit_operations_syntax

text \<open>\<^verbatim>\<open>fnv.New64a\<close>: the offset basis, and one round per byte.\<close>

definition fnv_offset :: "64 word" where "fnv_offset = 14695981039346656037"

definition fnv_round :: "64 word \<Rightarrow> char \<Rightarrow> 64 word" where
  "fnv_round h c = (h XOR of_nat (byte_of c)) * 1099511628211"

definition fnv64a :: "string \<Rightarrow> 64 word" where
  "fnv64a s = foldl fnv_round fnv_offset s"

definition index_text :: "nat option \<Rightarrow> string" where
  "index_text i = itoa (case i of None \<Rightarrow> -1 | Some n \<Rightarrow> int n)"

definition ClockSignature :: "ChannelPolicy \<Rightarrow> zone option \<Rightarrow> gotime \<Rightarrow> Calendar \<Rightarrow> 64 word" where
  "ClockSignature policy loc t cal =
     fnv64a (index_text (pickRuleIndex (cp_Rules policy) loc t cal)
       @ concat (map (\<lambda>h. CHR 0x00 # ob_ID h) (activeHolidays t cal (se_Holidays (cp_Seasonal policy)))))"

subsection \<open>Properties\<close>

text \<open>
  What the scan holds after the rules before \<open>i\<close>: no rule before it matched, or the first of those of
  highest priority that did.
\<close>

definition best_of :: "(SchedulingRule \<Rightarrow> bool) \<Rightarrow> SchedulingRule list \<Rightarrow> nat \<Rightarrow> nat option \<Rightarrow> bool" where
  "best_of ok rules n best \<longleftrightarrow>
     (case best of
        None \<Rightarrow> \<forall>j<n. \<not> ok (rules ! j)
      | Some b \<Rightarrow> b < n \<and> ok (rules ! b) \<and>
          (\<forall>j<n. ok (rules ! j) \<longrightarrow> sr_Priority (rules ! j) \<le> sr_Priority (rules ! b)) \<and>
          (\<forall>j<b. ok (rules ! j) \<longrightarrow> sr_Priority (rules ! j) < sr_Priority (rules ! b)))"

lemma best_of_step:
  assumes "best_of ok rules n best"
  shows "best_of ok rules (Suc n)
     (if \<not> ok (rules ! n) then best
      else if (case best of None \<Rightarrow> True | Some b \<Rightarrow> sr_Priority (rules ! n) > sr_Priority (rules ! b))
      then Some n else best)"
proof (cases best)
  case None
  then show ?thesis using assms by (auto simp: best_of_def less_Suc_eq)
next
  case (Some b)
  then show ?thesis using assms by (auto simp: best_of_def less_Suc_eq)
qed

lemma pick_from_best:
  "best_of ok rules i best \<Longrightarrow> rs = drop i rules \<Longrightarrow> i \<le> length rules \<Longrightarrow>
   best_of ok rules (length rules) (pick_from ok rules i best rs)"
proof (induction ok rules i best rs rule: pick_from.induct)
  case (1 ok rules i best)
  then show ?case by (auto dest!: sym [of "[]"])
next
  case (2 ok rules i best r rs)
  have i: "i < length rules" using 2(5) by (metis drop_all linorder_not_le list.distinct(1))
  have r: "rules ! i = r" "rs = drop (Suc i) rules"
    using 2(5) i by (metis Cons_nth_drop_Suc list.inject)+
  have step: "best_of ok rules (i + 1)
     (if \<not> ok r then best
      else if (case best of None \<Rightarrow> True | Some b \<Rightarrow> sr_Priority r > sr_Priority (rules ! b))
      then Some i else best)"
    using best_of_step [OF 2(4)] unfolding r(1) Suc_eq_plus1 .
  show ?case
    using 2(1-3) step r(2) i by (auto split: if_splits)
qed

text \<open>
  The active rule is the right one: none is active exactly when no rule's predicate holds at the
  instant, and otherwise the active rule matches, no matching rule has a higher priority, and every
  matching rule listed before it has a strictly lower one.
\<close>

theorem pickRuleIndex_best:
  "case pickRuleIndex rules loc now cal of
     None \<Rightarrow> list_all (\<lambda>r. \<not> rule_matches loc now cal r) rules
   | Some b \<Rightarrow> b < length rules \<and> rule_matches loc now cal (rules ! b) \<and>
       list_all (\<lambda>r. if rule_matches loc now cal r then sr_Priority r \<le> sr_Priority (rules ! b) else True) rules \<and>
       list_all (\<lambda>r. if rule_matches loc now cal r then sr_Priority r < sr_Priority (rules ! b) else True) (take b rules)"
proof -
  have "best_of (rule_matches loc now cal) rules (length rules) (pickRuleIndex rules loc now cal)"
    unfolding pickRuleIndex_def by (rule pick_from_best) (simp_all add: best_of_def)
  then show ?thesis
    by (cases "pickRuleIndex rules loc now cal") (auto simp: best_of_def list_all_length)
qed

lemma hourInWindow_wraps: "0 \<le> h \<Longrightarrow> h < 24 \<Longrightarrow> til < from \<Longrightarrow> hourInWindow h from til = (\<not> hourInWindow h til from)"
  by (auto simp: hourInWindow_def)

text \<open>A resolved policy stays concrete under a rule's ordering, unless the rule itself is not.\<close>

lemma applyRuleHow_ordering: "rp_Ordering (applyRuleHow rp how) =
    (if ro_Ordering how = OrderInherit then rp_Ordering rp else ro_Ordering how)"
  by (simp add: applyRuleHow_def Let_def)

lemma applyRuleHow_safety [simp]:
  "rp_Ceiling (applyRuleHow rp how) = rp_Ceiling rp" "rp_Unrated (applyRuleHow rp how) = rp_Unrated rp"
  "rp_Scope (applyRuleHow rp how) = rp_Scope rp"
  by (simp_all add: applyRuleHow_def Let_def)

text \<open>
  The signature covers what the clock decides before the window: two instants at which the same
  rule index is chosen and the same holidays are on for the channel have equal clock signatures, and
  at both the channel has the same ordering, the same window length and, for a policy that is not
  exclusive, the same season.
\<close>

lemma ClockSignature_decides:
  assumes "pickRuleIndex (cp_Rules policy) loc t1 cal = pickRuleIndex (cp_Rules policy) loc t2 cal"
    and "activeHolidays t1 cal (se_Holidays (cp_Seasonal policy)) = activeHolidays t2 cal (se_Holidays (cp_Seasonal policy))"
    and "t1 \<noteq> 0" and "t2 \<noteq> 0"
  shows "ClockSignature policy loc t1 cal = ClockSignature policy loc t2 cal \<and>
         OrderingAt policy strategy loc t1 cal = OrderingAt policy strategy loc t2 cal \<and>
         activeSeason fold_text entries (Resolved policy strategy sg) t1 cal avail =
           activeSeason fold_text entries (Resolved policy strategy sg) t2 cal avail"
proof -
  have "rse_Holidays (rp_Seasonal (Resolved policy strategy sg)) = se_Holidays (cp_Seasonal policy)"
    by (simp add: Resolved_def Let_def)
  then show ?thesis
    using assms by (simp add: ClockSignature_def OrderingAt_def pickRule_def activeSeason_def is_zero_time_def)
qed

end
