(* ===== verification/Separation.thy ===== *)
theory Separation
  imports Resolve "HOL-Library.Product_Lexorder"
begin

text \<open>
  The separation engine of \<^verbatim>\<open>internal/schedule/separation.go\<close>: the prefix check \<^verbatim>\<open>separationOK\<close>, the
  greedy placement, the backtracking search with its lazy candidate order and budget, the counting
  test that skips the search, the seam rotation and the check of a finished loop. \<^verbatim>\<open>seriesKeyOf\<close>
  (slotting.go) is \<open>s_Key\<close>.

  The lemmas show that every arrangement is a permutation of its input, that the search's successes
  pass the loop check, that the check means what it says on the endlessly repeated cycle for every
  series with more than one airing in it (it never looks a whole turn back), and that
  the counting test only skips searches that would have failed.
\<close>

definition seriesKeyOf :: "Slot \<Rightarrow> Key" where
  "seriesKeyOf s = s_Key s"

subsection \<open>The prefix check\<close>

definition trailing_run :: "Key \<Rightarrow> Slot list \<Rightarrow> int" where
  "trailing_run k out = int (length (takeWhile (\<lambda>s. seriesKeyOf s = k) (rev out)))"

definition runtime_since :: "Key \<Rightarrow> Slot list \<Rightarrow> int option" where
  "runtime_since k out =
     (if list_ex (\<lambda>s. seriesKeyOf s = k) out
      then Some (\<Sum>s\<leftarrow>takeWhile (\<lambda>s. seriesKeyOf s \<noteq> k) (rev out). s_DurationMs s) else None)"

definition separationOK :: "Slot list \<Rightarrow> Slot \<Rightarrow> ResolvedPolicy \<Rightarrow> bool" where
  "separationOK out cand rp \<longleftrightarrow>
     (let key = seriesKeyOf cand
      in (if rs_BlockMax (rp_Sep rp) > 0 then \<not> trailing_run key out \<ge> rs_BlockMax (rp_Sep rp) else True) \<and>
         (if rs_SeriesMinGap (rp_Sep rp) > 0
          then (case runtime_since key out of None \<Rightarrow> True
                | Some sinceMs \<Rightarrow> \<not> (sinceMs \<ge> 0 \<and> sinceMs < milliseconds (rs_SeriesMinGap (rp_Sep rp))))
          else True))"

subsection \<open>Greedy placement\<close>

definition remainingCount :: "Slot list \<Rightarrow> Key \<Rightarrow> int" where
  "remainingCount remaining k = int (length (filter (\<lambda>s. seriesKeyOf s = k) remaining))"

definition prevKey :: "Slot list \<Rightarrow> Key" where
  "prevKey out = (if out = [] then '''' else seriesKeyOf (last out))"

type_synonym best = "int \<times> int"

fun take_best :: "int \<Rightarrow> int \<Rightarrow> best \<Rightarrow> best" where
  "take_best i rem (b, r) = (if rem > r then (i, rem) else (b, r))"

fun pick_scan ::
  "(Slot \<Rightarrow> bool) \<Rightarrow> (Slot \<Rightarrow> int) \<Rightarrow> Key \<Rightarrow> int \<Rightarrow> Slot list \<Rightarrow> best \<times> best \<times> best \<Rightarrow> best \<times> best \<times> best"
where
  "pick_scan ok rem prev i [] st = st"
| "pick_scan ok rem prev i (c # cs) (sw, okb, anyb) =
     (let anyb' = take_best i (rem c) anyb
      in if \<not> ok c then pick_scan ok rem prev (i + 1) cs (sw, okb, anyb')
         else pick_scan ok rem prev (i + 1) cs
                (if seriesKeyOf c \<noteq> prev then take_best i (rem c) sw else sw,
                 take_best i (rem c) okb, anyb'))"

definition pickNext :: "Slot list \<Rightarrow> Slot list \<Rightarrow> ResolvedPolicy \<Rightarrow> int" where
  "pickNext out remaining rp =
     (let (sw, okb, anyb) =
            pick_scan (\<lambda>c. separationOK out c rp) (\<lambda>c. remainingCount remaining (seriesKeyOf c))
              (prevKey out) 0 remaining ((-1, -1), (-1, -1), (-1, -1))
      in if fst sw \<ge> 0 then fst sw else if fst okb \<ge> 0 then fst okb else fst anyb)"

definition best_within :: "int \<Rightarrow> best \<Rightarrow> bool" where
  "best_within n b \<longleftrightarrow> -1 \<le> fst b \<and> fst b < n"

lemma take_best_within: "best_within n b \<Longrightarrow> 0 \<le> i \<Longrightarrow> i < n \<Longrightarrow> best_within n (take_best i r b)"
  by (cases b) (simp add: best_within_def)

lemma pick_scan_within:
  assumes "0 \<le> i" and "i + int (length cs) \<le> n"
    and "best_within n sw" and "best_within n okb" and "best_within n anyb"
    and "pick_scan ok rem prev i cs (sw, okb, anyb) = (sw', okb', anyb')"
  shows "best_within n sw' \<and> best_within n okb' \<and> best_within n anyb'"
  using assms
proof (induction cs arbitrary: i sw okb anyb)
  case Nil
  then show ?case by simp
next
  case (Cons c cs)
  have i: "0 \<le> i" "i < n" "0 \<le> i + 1" "i + 1 + int (length cs) \<le> n" using Cons.prems by auto
  have sw1: "best_within n (if seriesKeyOf c \<noteq> prev then take_best i (rem c) sw else sw)"
    using Cons.prems(3) i by (simp add: take_best_within)
  have any1: "best_within n (take_best i (rem c) anyb)" and ok1: "best_within n (take_best i (rem c) okb)"
    using Cons.prems(4,5) i by (auto intro: take_best_within)
  show ?case
  proof (cases "ok c")
    case True
    show ?thesis by (rule Cons.IH [OF i(3,4) sw1 ok1 any1]) (use Cons.prems(6) True in \<open>simp add: Let_def\<close>)
  next
    case False
    show ?thesis by (rule Cons.IH [OF i(3,4) Cons.prems(3,4) any1]) (use Cons.prems(6) False in \<open>simp add: Let_def\<close>)
  qed
qed

lemma pick_scan_any:
  assumes "0 \<le> i" and "0 \<le> fst anyb"
  shows "0 \<le> fst (snd (snd (pick_scan ok rem prev i cs (sw, okb, anyb))))"
  using assms
proof (induction cs arbitrary: i sw okb anyb)
  case (Cons c cs)
  have "0 \<le> fst (take_best i (rem c) anyb)" using Cons.prems by (cases anyb) simp
  then show ?case using Cons.IH Cons.prems by (simp add: Let_def)
qed simp

lemma remainingCount_pos: "s \<in> set remaining \<Longrightarrow> 0 < remainingCount remaining (seriesKeyOf s)"
  by (auto simp: remainingCount_def filter_empty_conv)

lemma pickNext_bounds:
  assumes "remaining \<noteq> []"
  shows "0 \<le> pickNext out remaining rp \<and> pickNext out remaining rp < int (length remaining)"
proof -
  obtain c cs where r: "remaining = c # cs" using assms by (cases remaining) auto
  define ok where "ok = (\<lambda>c. separationOK out c rp)"
  define rem where "rem = (\<lambda>c. remainingCount remaining (seriesKeyOf c))"
  obtain sw okb anyb where scan: "pick_scan ok rem (prevKey out) 0 remaining ((-1, -1), (-1, -1), (-1, -1)) = (sw, okb, anyb)"
    by (metis prod_cases3)
  have "best_within (int (length remaining)) (-1, -1)" using assms by (simp add: best_within_def)
  from pick_scan_within [OF _ _ this this this scan]
  have "best_within (int (length remaining)) sw \<and> best_within (int (length remaining)) okb \<and>
        best_within (int (length remaining)) anyb" by simp
  moreover have "0 \<le> fst anyb"
  proof -
    have pos: "0 < rem c" using remainingCount_pos [of c remaining] by (simp add: rem_def r)
    have "0 \<le> fst (snd (snd (pick_scan ok rem (prevKey out) 0 (c # cs) ((-1, -1), (-1, -1), (-1, -1)))))"
      using pos by (simp add: Let_def pick_scan_any)
    then show ?thesis using scan by (simp add: r)
  qed
  ultimately show ?thesis
    using scan by (simp add: pickNext_def Let_def best_within_def flip: ok_def rem_def)
qed

lemma pickNext_less: "remaining \<noteq> [] \<Longrightarrow> nat (pickNext out remaining rp) < length remaining"
  using pickNext_bounds [of remaining out rp] by linarith

text \<open>\<^verbatim>\<open>greedyArrange\<close>: the loop takes the picked element out of what remains until nothing does.\<close>

definition remove_at :: "nat \<Rightarrow> 'a list \<Rightarrow> 'a list" where
  "remove_at i xs = take i xs @ drop (Suc i) xs"

lemma length_remove_at: "i < length xs \<Longrightarrow> length (remove_at i xs) < length xs"
  by (simp add: remove_at_def)

lemma mset_remove_at [simp]: "i < length xs \<Longrightarrow> add_mset (xs ! i) (mset (remove_at i xs)) = mset xs"
  unfolding remove_at_def by (rule mset_nth_remove)

function greedy_from :: "ResolvedPolicy \<Rightarrow> Slot list \<Rightarrow> Slot list \<Rightarrow> Slot list" where
  "greedy_from rp out remaining =
     (if remaining = [] then out
      else let idx = nat (pickNext out remaining rp)
           in greedy_from rp (out @ [remaining ! idx]) (remove_at idx remaining))"
  by pat_completeness auto

termination greedy_from
proof (relation "measure (\<lambda>(rp, out, remaining). length remaining)")
  fix rp :: ResolvedPolicy and out remaining :: "Slot list" and idx :: nat
  assume "remaining \<noteq> []" and "idx = nat (pickNext out remaining rp)"
  then have "idx < length remaining" by (simp add: pickNext_less)
  then show "((rp, out @ [remaining ! idx], remove_at idx remaining), rp, out, remaining)
      \<in> measure (\<lambda>(rp, out, remaining). length remaining)"
    by (simp add: length_remove_at)
qed simp

declare greedy_from.simps [simp del, code del]

lemma greedy_from_code [code]:
  "greedy_from rp out [] = out"
  "greedy_from rp out (c # cs) =
     (let idx = nat (pickNext out (c # cs) rp)
      in greedy_from rp (out @ [(c # cs) ! idx]) (remove_at idx (c # cs)))"
  by (simp_all add: greedy_from.simps)

definition greedyArrange :: "Slot list \<Rightarrow> ResolvedPolicy \<Rightarrow> Slot list" where
  "greedyArrange programs rp = greedy_from rp [] programs"

lemma mset_greedy_from: "mset (greedy_from rp out remaining) = mset out + mset remaining"
proof (induction rp out remaining rule: greedy_from.induct)
  case (1 rp out remaining)
  show ?case
  proof (cases "remaining = []")
    case True
    then show ?thesis by (simp add: greedy_from.simps)
  next
    case False
    define idx where "idx = nat (pickNext out remaining rp)"
    have idx: "idx < length remaining" using False by (simp add: idx_def pickNext_less)
    have "greedy_from rp out remaining = greedy_from rp (out @ [remaining ! idx]) (remove_at idx remaining)"
      using False by (subst greedy_from.simps) (simp add: idx_def Let_def)
    also have "mset \<dots> = mset out + mset remaining"
      using 1 [OF False idx_def] idx by simp
    finally show ?thesis .
  qed
qed

lemma mset_greedyArrange [simp, preserved]: "mset (greedyArrange programs rp) = mset programs"
  by (simp add: greedyArrange_def mset_greedy_from)

subsection \<open>The lazy candidate order\<close>

record cand =
  cd_idx :: nat
  cd_tier :: int
  cd_rem :: int
  cd_posOrder :: int

definition candLess :: "cand \<Rightarrow> cand \<Rightarrow> bool" where
  "candLess a b =
     (if cd_tier a \<noteq> cd_tier b then cd_tier a < cd_tier b
      else if cd_rem a \<noteq> cd_rem b then cd_rem a > cd_rem b
      else cd_posOrder a < cd_posOrder b)"

record candidateOrder =
  co_cands :: "cand list"
  co_sorted :: bool
  co_i :: nat

text \<open>\<open>used\<close> is the search's bool slice; the counts are of the programs not yet placed.\<close>

definition unused_count :: "Slot list \<Rightarrow> bool list \<Rightarrow> Key \<Rightarrow> int" where
  "unused_count programs used k =
     int (length (filter (\<lambda>(s, u). \<not> u \<and> seriesKeyOf s = k) (zip programs used)))"

definition cand_of :: "Slot list \<Rightarrow> Slot list \<Rightarrow> bool list \<Rightarrow> ResolvedPolicy \<Rightarrow> nat \<Rightarrow> cand" where
  "cand_of out programs used rp i =
     (let s = programs ! i; key = seriesKeyOf s
      in \<lparr>cd_idx = i,
          cd_tier = (if separationOK out s rp then (if key \<noteq> prevKey out then 0 else 1) else 2),
          cd_rem = unused_count programs used key,
          cd_posOrder = int i\<rparr>)"

definition newCandidateOrder :: "Slot list \<Rightarrow> Slot list \<Rightarrow> bool list \<Rightarrow> ResolvedPolicy \<Rightarrow> candidateOrder" where
  "newCandidateOrder out programs used rp =
     \<lparr>co_cands = map (cand_of out programs used rp) (filter (\<lambda>i. \<not> used ! i) [0..<length programs]),
      co_sorted = False, co_i = 0\<rparr>"

definition best_index :: "cand list \<Rightarrow> nat" where
  "best_index cs = foldl (\<lambda>b j. if candLess (cs ! j) (cs ! b) then j else b) 0 [1..<length cs]"

definition swap_front :: "nat \<Rightarrow> 'a list \<Rightarrow> 'a list" where
  "swap_front b xs = (xs[0 := xs ! b])[b := xs ! 0]"

definition co_next :: "candidateOrder \<Rightarrow> (nat \<times> candidateOrder) option" where
  "co_next c =
     (if co_i c \<ge> length (co_cands c) then None
      else let c' = (if co_i c = 0 then c\<lparr>co_cands := swap_front (best_index (co_cands c)) (co_cands c)\<rparr>
                     else if \<not> co_sorted c
                     then c\<lparr>co_cands := take (co_i c) (co_cands c) @ sort_by candLess (drop (co_i c) (co_cands c)),
                            co_sorted := True\<rparr>
                     else c)
           in Some (cd_idx (co_cands c' ! co_i c'), c'\<lparr>co_i := co_i c' + 1\<rparr>))"

lemma co_next_smaller:
  "co_next c = Some (idx, c') \<Longrightarrow> length (co_cands c') - co_i c' < length (co_cands c) - co_i c"
  by (auto simp: co_next_def Let_def swap_front_def split: if_splits)

text \<open>The order as a whole: what a caller that keeps asking receives.\<close>

function drain :: "candidateOrder \<Rightarrow> nat list" where
  "drain c = (case co_next c of None \<Rightarrow> [] | Some (idx, c') \<Rightarrow> idx # drain c')"
  by pat_completeness auto

termination drain
  by (relation "measure (\<lambda>c. length (co_cands c) - co_i c)") (auto dest: co_next_smaller)

declare drain.simps [simp del]

text \<open>\<open>candLess\<close> is the order of a key, total on candidates of different positions.\<close>

definition cand_key :: "cand \<Rightarrow> int \<times> int \<times> int" where
  "cand_key c = (cd_tier c, - cd_rem c, cd_posOrder c)"

lemma candLess_key: "candLess a b \<longleftrightarrow> cand_key a < cand_key b"
  by (auto simp: candLess_def cand_key_def)

lemma weak_order_candLess: "weak_order candLess"
  by (rule weak_orderI) (auto simp: candLess_key)

lemma sorted_cands: "sorted (map cand_key (sort_by candLess cs))"
  using sorted_sort_by [OF weak_order_candLess, of cs]
  by (simp add: sorted_map candLess_key not_less)

lemma sort_by_candLess:
  assumes "inj_on cand_key (set cs)"
  shows "sort_by candLess cs = sort_key cand_key cs"
  using assms by (intro sort_key_inj_key_eq [symmetric] sorted_cands) simp_all

lemma best_index_min:
  assumes "cs \<noteq> []"
  shows "best_index cs < length cs \<and> (\<forall>j<length cs. \<not> candLess (cs ! j) (cs ! best_index cs))"
proof -
  have "(let b = foldl (\<lambda>b j. if candLess (cs ! j) (cs ! b) then j else b) 0 [1..<n]
         in b < n \<and> (\<forall>j<n. \<not> candLess (cs ! j) (cs ! b)))" if "1 \<le> n" for n
    using that
  proof (induction n rule: nat_induct_at_least)
    case base
    then show ?case by (simp add: candLess_key)
  next
    case (Suc n)
    then show ?case by (auto simp: Let_def candLess_key less_Suc_eq)
  qed
  from this [of "length cs"] assms show ?thesis
    by (simp add: best_index_def Let_def Suc_leI)
qed

lemma swap_front_Cons:
  assumes "b < length cs"
  shows "swap_front b cs = cs ! b # tl (swap_front b cs) \<and> mset (swap_front b cs) = mset cs"
proof -
  have "0 < length cs" using assms by linarith
  then have "mset (swap_front b cs) = mset cs"
    unfolding swap_front_def using assms by (simp add: mset_swap)
  moreover have "swap_front b cs ! 0 = cs ! b"
    using assms by (cases cs) (auto simp: swap_front_def nth_list_update split: nat.split)
  moreover have "swap_front b cs \<noteq> []" using assms by (auto simp: swap_front_def)
  ultimately show ?thesis by (metis hd_conv_nth list.collapse)
qed

lemma drain_sorted:
  "co_sorted c \<Longrightarrow> 0 < co_i c \<Longrightarrow> drain c = map cd_idx (drop (co_i c) (co_cands c))"
proof (induction c rule: drain.induct)
  case (1 c)
  show ?case
  proof (cases "co_i c < length (co_cands c)")
    case True
    then have "co_next c = Some (cd_idx (co_cands c ! co_i c), c\<lparr>co_i := co_i c + 1\<rparr>)"
      using "1.prems" by (simp add: co_next_def)
    with 1 True show ?thesis by (subst drain.simps) (simp flip: Cons_nth_drop_Suc)
  next
    case False
    then show ?thesis by (subst drain.simps) (simp add: co_next_def)
  qed
qed

lemma drain_second:
  assumes "\<not> co_sorted c" and "co_i c = 1" and "co_cands c = m # rest"
  shows "drain c = map cd_idx (sort_by candLess rest)"
proof (cases "rest = []")
  case True
  with assms show ?thesis by (subst drain.simps) (simp add: co_next_def)
next
  case False
  let ?c = "c\<lparr>co_cands := m # sort_by candLess rest, co_sorted := True\<rparr>"
  obtain h t where st: "sort_by candLess rest = h # t"
    using False by (metis length_0_conv length_sort_by neq_Nil_conv)
  have "co_next c = Some (cd_idx h, ?c\<lparr>co_i := 2\<rparr>)"
    using assms False by (simp add: co_next_def Let_def st)
  then show ?thesis by (subst drain.simps) (simp add: drain_sorted st)
qed

text \<open>The lazy order hands out the candidates in the order of a full sort.\<close>

lemma drain_is_sort:
  assumes "inj_on cand_key (set cs)"
  shows "drain \<lparr>co_cands = cs, co_sorted = False, co_i = 0\<rparr> = map cd_idx (sort_by candLess cs)"
proof (cases "cs = []")
  case True
  then show ?thesis by (subst drain.simps) (simp add: co_next_def)
next
  case False
  define b where "b = best_index cs"
  note best = best_index_min [OF False, folded b_def]
  obtain rest where sw: "swap_front b cs = cs ! b # rest" and ms: "mset (cs ! b # rest) = mset cs"
    using swap_front_Cons [of b cs] best by metis
  have "co_next \<lparr>co_cands = cs, co_sorted = False, co_i = 0\<rparr> =
      Some (cd_idx (cs ! b), \<lparr>co_cands = cs ! b # rest, co_sorted = False, co_i = 1\<rparr>)"
    using False by (simp add: co_next_def Let_def sw flip: b_def)
  then have "drain \<lparr>co_cands = cs, co_sorted = False, co_i = 0\<rparr> = map cd_idx (cs ! b # sort_by candLess rest)"
    by (subst drain.simps) (simp add: drain_second)
  moreover have "cs ! b # sort_by candLess rest = sort_key cand_key cs"
  proof (rule sort_key_inj_key_eq [symmetric])
    show "mset cs = mset (cs ! b # sort_by candLess rest)" using ms by simp
    show "inj_on cand_key (set cs)" by (rule assms)
    have "cand_key (cs ! b) \<le> cand_key x" if "x \<in> set rest" for x
    proof -
      have "x \<in> set cs" using that ms by (metis list.set_intros(2) set_mset_mset)
      then show ?thesis using best by (auto simp: in_set_conv_nth candLess_key not_less)
    qed
    then show "sorted (map cand_key (cs ! b # sort_by candLess rest))"
      using sorted_cands [of rest] by simp
  qed
  ultimately show ?thesis by (simp add: sort_by_candLess [OF assms])
qed

subsection \<open>The check of a finished loop\<close>

datatype ViolationKind = BlockViolation | GapViolation

record Violation =
  vi_Kind :: ViolationKind
  vi_Key :: Key
  vi_Index :: nat

fun block_scan :: "Slot list \<Rightarrow> int \<Rightarrow> int \<Rightarrow> nat list \<Rightarrow> Violation list" where
  "block_scan programs bmax run [] = []"
| "block_scan programs bmax run (i # is) =
     (let n = length programs;
          cur = seriesKeyOf (programs ! (i mod n));
          prev = seriesKeyOf (programs ! ((i - 1) mod n));
          run' = (if cur = prev then run + 1 else 1)
      in (if cur = prev \<and> run' > bmax
          then [\<lparr>vi_Kind = BlockViolation, vi_Key = cur, vi_Index = i mod n\<rparr>] else []) @
         (if i \<ge> n \<and> run' = 1 then [] else block_scan programs bmax run' is))"

fun gap_scan :: "Slot list \<Rightarrow> int \<Rightarrow> nat \<Rightarrow> int \<Rightarrow> nat list \<Rightarrow> Violation list" where
  "gap_scan programs gapMs i acc [] = []"
| "gap_scan programs gapMs i acc (d # ds) =
     (let n = length programs; s = programs ! ((i + n - d) mod n)
      in if seriesKeyOf s = seriesKeyOf (programs ! i)
         then (if acc < gapMs
               then [\<lparr>vi_Kind = GapViolation, vi_Key = seriesKeyOf (programs ! i), vi_Index = i\<rparr>] else [])
         else gap_scan programs gapMs i (acc + s_DurationMs s) ds)"

definition checkWrapSeparation :: "Slot list \<Rightarrow> ResolvedPolicy \<Rightarrow> Violation list" where
  "checkWrapSeparation programs rp =
     (let n = length programs
      in if n \<le> 1 then []
         else (if rs_BlockMax (rp_Sep rp) > 0
               then block_scan programs (rs_BlockMax (rp_Sep rp)) 1 [1..<2 * n] else []) @
              (if rs_SeriesMinGap (rp_Sep rp) > 0
               then concat (map (\<lambda>i. gap_scan programs (milliseconds (rs_SeriesMinGap (rp_Sep rp))) i 0 [1..<n]) [0..<n])
               else []))"

subsection \<open>Backtracking search\<close>

text \<open>
  The loop over \<open>order.next()\<close> with the budget the closure shares: \<open>place idx b\<close> is the recursive
  call after placing \<open>idx\<close> (on failure the placement is undone, so nothing of it but the budget
  survives). The result is the arrangement, if any, and the budget left.
\<close>

function try_candidates ::
  "(nat \<Rightarrow> int \<Rightarrow> Slot list option \<times> int) \<Rightarrow> (nat \<Rightarrow> bool) \<Rightarrow> candidateOrder \<Rightarrow> int \<Rightarrow> Slot list option \<times> int"
where
  "try_candidates place ok order budget =
     (case co_next order of
        None \<Rightarrow> (None, budget)
      | Some (idx, order') \<Rightarrow>
          if budget \<le> 0 then (None, budget)
          else if \<not> ok idx then try_candidates place ok order' (budget - 1)
          else (case place idx (budget - 1) of
                  (Some out, b) \<Rightarrow> (Some out, b)
                | (None, b) \<Rightarrow> try_candidates place ok order' b))"
  by pat_completeness auto

termination try_candidates
  by (relation "measure (\<lambda>(place, ok, order, budget). length (co_cands order) - co_i order)")
    (auto dest: co_next_smaller)

declare try_candidates.simps [simp del]

text \<open>
  \<^verbatim>\<open>rec\<close> recurses on \<open>k\<close>, the number of programs not placed yet, \<open>len(programs) - len(out)\<close>.
\<close>

primrec bt_rec ::
  "nat \<Rightarrow> Slot list \<Rightarrow> ResolvedPolicy \<Rightarrow> bool list \<Rightarrow> Slot list \<Rightarrow> int \<Rightarrow> Slot list option \<times> int"
where
  "bt_rec 0 programs rp used out budget =
     (if checkWrapSeparation out rp = [] then (Some out, budget) else (None, budget))"
| "bt_rec (Suc k) programs rp used out budget =
     try_candidates (\<lambda>idx b. bt_rec k programs rp (used[idx := True]) (out @ [programs ! idx]) b)
       (\<lambda>idx. separationOK out (programs ! idx) rp) (newCandidateOrder out programs used rp) budget"

abbreviation backtrackBudget :: int where "backtrackBudget \<equiv> 50000"

definition backtrackArrange :: "Slot list \<Rightarrow> ResolvedPolicy \<Rightarrow> Slot list option" where
  "backtrackArrange programs rp =
     fst (bt_rec (length programs) programs rp (replicate (length programs) False) [] backtrackBudget)"

definition separationUnsatisfiable :: "Slot list \<Rightarrow> ResolvedPolicy \<Rightarrow> bool" where
  "separationUnsatisfiable programs rp \<longleftrightarrow>
     (let total = (\<Sum>s\<leftarrow>programs. s_DurationMs s);
          gap = milliseconds (rs_SeriesMinGap (rp_Sep rp));
          block = rs_BlockMax (rp_Sep rp)
      in list_ex (\<lambda>p. let airings = filter (\<lambda>s. seriesKeyOf s = seriesKeyOf p) programs;
                          count = int (length airings);
                          runtime = (\<Sum>s\<leftarrow>airings. s_DurationMs s)
                      in gap > 0 \<and> (count - 1) * gap > total - runtime \<or>
                         block > 0 \<and> count > block * (int (length programs) - count + 1))
           programs)"

definition separationRepair :: "Slot list \<Rightarrow> ResolvedPolicy \<Rightarrow> Slot list" where
  "separationRepair programs rp =
     (if length programs \<le> 1 then programs
      else if rs_BlockMax (rp_Sep rp) \<le> 0 \<and> rs_SeriesMinGap (rp_Sep rp) \<le> 0 then programs
      else case (if separationUnsatisfiable programs rp then None else backtrackArrange programs rp) of
             Some solved \<Rightarrow> solved
           | None \<Rightarrow> greedyArrange programs rp)"

subsection \<open>What the search finds\<close>

text \<open>The search over a given list of candidates, and the lazy order as such a list.\<close>

fun try_list ::
  "(nat \<Rightarrow> int \<Rightarrow> Slot list option \<times> int) \<Rightarrow> (nat \<Rightarrow> bool) \<Rightarrow> nat list \<Rightarrow> int \<Rightarrow> Slot list option \<times> int"
where
  "try_list place ok [] budget = (None, budget)"
| "try_list place ok (idx # idxs) budget =
     (if budget \<le> 0 then (None, budget)
      else if \<not> ok idx then try_list place ok idxs (budget - 1)
      else (case place idx (budget - 1) of
              (Some out, b) \<Rightarrow> (Some out, b)
            | (None, b) \<Rightarrow> try_list place ok idxs b))"

lemma try_candidates_list: "try_candidates place ok order budget = try_list place ok (drain order) budget"
proof (induction place ok order budget rule: try_candidates.induct)
  case (1 place ok order budget)
  show ?case
  proof (cases "co_next order")
    case None
    then show ?thesis by (simp add: try_candidates.simps [of place ok order] drain.simps [of order])
  next
    case (Some r)
    obtain idx order' where r: "r = (idx, order')" by (cases r)
    note IH = 1 [OF Some r [symmetric]]
    have drain: "drain order = idx # drain order'" by (subst drain.simps) (simp add: Some r)
    show ?thesis
    proof (cases "budget \<le> 0")
      case True
      then show ?thesis by (simp add: try_candidates.simps [of place ok order] Some r drain)
    next
      case budget: False
      show ?thesis
      proof (cases "ok idx")
        case False
        then show ?thesis using IH(1) budget
          by (simp add: try_candidates.simps [of place ok order] Some r drain)
      next
        case True
        then show ?thesis using IH(2) budget
          by (auto simp: try_candidates.simps [of place ok order] Some r drain split: prod.splits option.splits)
      qed
    qed
  qed
qed

lemma try_list_found:
  "fst (try_list place ok idxs budget) = Some s \<Longrightarrow> \<exists>idx\<in>set idxs. ok idx \<and> (\<exists>b. fst (place idx b) = Some s)"
proof (induction place ok idxs budget rule: try_list.induct)
  case (2 place ok idx idxs budget)
  show ?case
  proof (cases "budget \<le> 0 \<or> \<not> ok idx")
    case True
    then show ?thesis using 2 by (auto split: if_splits)
  next
    case False
    obtain o' b where p: "place idx (budget - 1) = (o', b)" by fastforce
    show ?thesis
    proof (cases o')
      case None
      then show ?thesis using 2(2) [OF _ _ p [symmetric] None] 2(3) False p by auto
    next
      case (Some out)
      then show ?thesis using 2(3) False p by (auto intro!: exI [of _ "budget - 1"])
    qed
  qed
qed simp

definition open_idx :: "Slot list \<Rightarrow> bool list \<Rightarrow> nat list" where
  "open_idx programs used = filter (\<lambda>i. \<not> used ! i) [0..<length programs]"

lemma drain_newCandidateOrder:
  "drain (newCandidateOrder out programs used rp) =
     map cd_idx (sort_by candLess (map (cand_of out programs used rp) (open_idx programs used)))"
  unfolding newCandidateOrder_def open_idx_def
  by (rule drain_is_sort) (auto simp: inj_on_def cand_key_def cand_of_def Let_def)

lemma set_drain_newCandidateOrder:
  "set (drain (newCandidateOrder out programs used rp)) = set (open_idx programs used)"
  by (auto simp: drain_newCandidateOrder cand_of_def Let_def image_image)

definition linear_ok :: "ResolvedPolicy \<Rightarrow> Slot list \<Rightarrow> bool" where
  "linear_ok rp xs \<longleftrightarrow> (\<forall>i<length xs. separationOK (take i xs) (xs ! i) rp)"

lemma linear_ok_Nil [simp]: "linear_ok rp []"
  by (simp add: linear_ok_def)

lemma linear_ok_snoc [simp]: "linear_ok rp (xs @ [x]) \<longleftrightarrow> linear_ok rp xs \<and> separationOK xs x rp"
  by (auto simp: linear_ok_def nth_append less_Suc_eq)

definition search_state :: "Slot list \<Rightarrow> nat \<Rightarrow> bool list \<Rightarrow> Slot list \<Rightarrow> bool" where
  "search_state programs k used out \<longleftrightarrow>
     length used = length programs \<and> length (open_idx programs used) = k \<and>
     mset out + image_mset ((!) programs) (mset (open_idx programs used)) = mset programs"

lemma search_state_start:
  "search_state programs (length programs) (replicate (length programs) False) []"
proof -
  have "open_idx programs (replicate (length programs) False) = [0..<length programs]"
    by (simp add: open_idx_def filter_id_conv)
  moreover have "image_mset ((!) programs) (mset [0..<length programs]) = mset programs"
    by (metis map_nth mset_map)
  ultimately show ?thesis unfolding search_state_def by (simp only: mset.simps length_upt length_replicate) simp
qed

lemma mset_filter_out:
  assumes "distinct xs" and "x \<in> set xs"
  shows "mset xs = add_mset x (mset (filter (\<lambda>i. i \<noteq> x) xs))"
proof -
  have "filter (\<lambda>i. i \<noteq> x) xs = remove1 x xs"
    using assms(1) by (auto simp: distinct_remove1_removeAll removeAll_filter_not_eq intro!: filter_cong)
  then have "mset (filter (\<lambda>i. i \<noteq> x) xs) = mset xs - {#x#}"
    by (simp only: mset_remove1)
  then show ?thesis
    using assms(2) by (metis insert_DiffM set_mset_mset)
qed

lemma search_state_place:
  assumes "search_state programs (Suc k) used out" and "idx \<in> set (open_idx programs used)"
  shows "search_state programs k (used[idx := True]) (out @ [programs ! idx])"
proof -
  have len: "length used = length programs" using assms(1) by (simp add: search_state_def)
  have "idx < length used" using assms(2) len by (simp add: open_idx_def)
  then have "open_idx programs (used[idx := True]) = filter (\<lambda>i. i \<noteq> idx) (open_idx programs used)"
    by (auto simp: open_idx_def nth_list_update intro!: filter_cong)
  moreover have "distinct (open_idx programs used)" by (simp add: open_idx_def)
  ultimately have ms: "mset (open_idx programs used) = add_mset idx (mset (open_idx programs (used[idx := True])))"
    using assms(2) mset_filter_out [of "open_idx programs used" idx] by simp
  then have "length (open_idx programs (used[idx := True])) = k"
    using assms(1) by (metis search_state_def size_add_mset size_mset nat.inject)
  then show ?thesis
    using assms(1) ms by (simp add: search_state_def)
qed

lemma bt_rec_sound:
  assumes "search_state programs k used out" and "linear_ok rp out"
    and "fst (bt_rec k programs rp used out budget) = Some s"
  shows "mset s = mset programs \<and> linear_ok rp s \<and> checkWrapSeparation s rp = []"
  using assms
proof (induction k arbitrary: used out budget)
  case 0
  then show ?case by (auto simp: search_state_def split: if_splits)
next
  case (Suc k)
  let ?order = "drain (newCandidateOrder out programs used rp)"
  let ?place = "\<lambda>idx b. bt_rec k programs rp (used[idx := True]) (out @ [programs ! idx]) b"
  let ?ok = "\<lambda>idx. separationOK out (programs ! idx) rp"
  have "fst (try_list ?place ?ok ?order budget) = Some s"
    using Suc.prems(3) by (simp add: try_candidates_list)
  from try_list_found [OF this] obtain idx b where
    idx: "idx \<in> set ?order" "?ok idx" "fst (?place idx b) = Some s" by auto
  have "search_state programs k (used[idx := True]) (out @ [programs ! idx])"
    using search_state_place Suc.prems(1) idx(1) by (simp add: set_drain_newCandidateOrder)
  from Suc.IH [OF this] show ?case using Suc.prems(2) idx by simp
qed

lemma backtrackArrange_sound:
  "backtrackArrange programs rp = Some s \<Longrightarrow>
     mset s = mset programs \<and> linear_ok rp s \<and> checkWrapSeparation s rp = []"
  unfolding backtrackArrange_def by (rule bt_rec_sound [OF search_state_start]) simp

lemma mset_separationRepair [simp, preserved]: "mset (separationRepair programs rp) = mset programs"
  by (auto simp: separationRepair_def dest: backtrackArrange_sound split: option.splits)

subsection \<open>The counting test\<close>

definition count_of :: "Key \<Rightarrow> Slot list \<Rightarrow> int" where
  "count_of k xs = int (length (filter (\<lambda>s. seriesKeyOf s = k) xs))"

definition runtime_of_others :: "Key \<Rightarrow> Slot list \<Rightarrow> int" where
  "runtime_of_others k xs = (\<Sum>s\<leftarrow>filter (\<lambda>s. seriesKeyOf s \<noteq> k) xs. s_DurationMs s)"

lemma count_of_snoc [simp]:
  "count_of k [] = 0" "count_of k (xs @ [x]) = count_of k xs + (if seriesKeyOf x = k then 1 else 0)"
  by (simp_all add: count_of_def)

lemma runtime_of_others_snoc [simp]:
  "runtime_of_others k [] = 0"
  "runtime_of_others k (xs @ [x]) = runtime_of_others k xs + (if seriesKeyOf x = k then 0 else s_DurationMs x)"
  by (simp_all add: runtime_of_others_def)

lemma trailing_run_snoc [simp]:
  "trailing_run k [] = 0"
  "trailing_run k (xs @ [x]) = (if seriesKeyOf x = k then trailing_run k xs + 1 else 0)"
  by (simp_all add: trailing_run_def)

lemma runtime_since_snoc [simp]:
  "runtime_since k [] = None"
  "runtime_since k (xs @ [x]) =
     (if seriesKeyOf x = k then Some 0
      else case runtime_since k xs of None \<Rightarrow> None | Some r \<Rightarrow> Some (r + s_DurationMs x))"
  by (auto simp: runtime_since_def)

text \<open>The runs of a series of at most \<open>b\<close> are split by programmes of other series.\<close>

lemma linear_ok_block:
  assumes "linear_ok rp xs" and "0 < rs_BlockMax (rp_Sep rp)"
  shows "count_of k xs \<le> rs_BlockMax (rp_Sep rp) * (int (length xs) - count_of k xs) + trailing_run k xs \<and>
         trailing_run k xs \<le> rs_BlockMax (rp_Sep rp)"
  using assms(1)
proof (induction xs rule: rev_induct)
  case Nil
  then show ?case using assms(2) by simp
next
  case (snoc x xs)
  then have IH: "count_of k xs \<le> rs_BlockMax (rp_Sep rp) * (int (length xs) - count_of k xs) + trailing_run k xs"
      "trailing_run k xs \<le> rs_BlockMax (rp_Sep rp)" by simp_all
  show ?case
  proof (cases "seriesKeyOf x = k")
    case True
    then have "trailing_run k xs < rs_BlockMax (rp_Sep rp)"
      using snoc.prems assms(2) by (simp add: separationOK_def Let_def)
    then show ?thesis using IH(1) True by simp
  next
    case False
    then show ?thesis using IH assms(2) by (simp add: algebra_simps)
  qed
qed

lemma milliseconds_nonpos: "d \<le> 0 \<Longrightarrow> milliseconds d \<le> 0"
  by (cases "d = 0") (simp_all add: milliseconds_def signed_divide_int_def sgn_if pos_imp_zdiv_nonneg_iff)

text \<open>
  The gaps between the airings of a series do not overlap and each has at least the minimum of other
  series' runtime.
\<close>

lemma linear_ok_gap:
  assumes "linear_ok rp xs" and "list_all (\<lambda>s. 0 \<le> s_DurationMs s) xs"
    and "0 < milliseconds (rs_SeriesMinGap (rp_Sep rp))"
  shows "0 \<le> runtime_of_others k xs \<and>
         (case runtime_since k xs of
            None \<Rightarrow> count_of k xs = 0
          | Some r \<Rightarrow> 0 \<le> r \<and> (count_of k xs - 1) * milliseconds (rs_SeriesMinGap (rp_Sep rp)) + r \<le> runtime_of_others k xs)"
  using assms(1,2)
proof (induction xs rule: rev_induct)
  case Nil
  then show ?case by simp
next
  case (snoc x xs)
  let ?g = "milliseconds (rs_SeriesMinGap (rp_Sep rp))"
  have pos: "0 < rs_SeriesMinGap (rp_Sep rp)"
    using assms(3) by (metis linorder_not_less milliseconds_nonpos)
  from snoc have IH: "0 \<le> runtime_of_others k xs"
      "case runtime_since k xs of None \<Rightarrow> count_of k xs = 0
       | Some r \<Rightarrow> 0 \<le> r \<and> (count_of k xs - 1) * ?g + r \<le> runtime_of_others k xs"
    and dur: "0 \<le> s_DurationMs x" by simp_all
  show ?case
  proof (cases "runtime_since k xs")
    case None
    then show ?thesis using IH dur by simp
  next
    case (Some r)
    have "?g \<le> r" if "seriesKeyOf x = k"
      using snoc.prems(1) pos that IH(2) Some by (simp add: separationOK_def Let_def)
    then show ?thesis using IH dur Some by (cases "seriesKeyOf x = k") (auto simp: algebra_simps)
  qed
qed

lemma total_runtime_split:
  "(\<Sum>s\<leftarrow>xs. s_DurationMs s) - (\<Sum>s\<leftarrow>filter (\<lambda>s. seriesKeyOf s = k) xs. s_DurationMs s) = runtime_of_others k xs"
  by (induction xs) (auto simp: runtime_of_others_def)

lemma unsatisfiable_no_order:
  assumes "separationUnsatisfiable programs rp" and "list_all (\<lambda>s. 0 \<le> s_DurationMs s) programs"
    and "mset xs = mset programs"
  shows "\<not> linear_ok rp xs"
proof
  assume ok: "linear_ok rp xs"
  let ?g = "milliseconds (rs_SeriesMinGap (rp_Sep rp))"
  have dur: "list_all (\<lambda>s. 0 \<le> s_DurationMs s) xs"
    using assms(2,3) by (simp add: list_all_iff mset_eq_setD [OF assms(3)])
  have eq: "count_of k xs = count_of k programs" "runtime_of_others k xs = runtime_of_others k programs" for k
    using assms(3) by (simp_all add: count_of_def runtime_of_others_def sum_list_mset_eq [where f = s_DurationMs]
        flip: size_mset)
  have len: "length xs = length programs" using assms(3) by (rule mset_eq_length)
  from assms(1) obtain k where k:
    "0 < ?g \<and> (count_of k programs - 1) * ?g > runtime_of_others k programs \<or>
     0 < rs_BlockMax (rp_Sep rp) \<and> count_of k programs > rs_BlockMax (rp_Sep rp) * (int (length programs) - count_of k programs + 1)"
    by (auto simp: separationUnsatisfiable_def Let_def list_ex_iff total_runtime_split count_of_def)
  then show False
  proof
    assume g: "0 < ?g \<and> (count_of k programs - 1) * ?g > runtime_of_others k programs"
    then show False
      using linear_ok_gap [OF ok dur, of k] eq [of k]
      by (auto split: option.splits)
  next
    assume b: "0 < rs_BlockMax (rp_Sep rp) \<and> count_of k programs > rs_BlockMax (rp_Sep rp) * (int (length programs) - count_of k programs + 1)"
    then show False
      using linear_ok_block [OF ok, of k] eq [of k] len by (simp add: distrib_left)
  qed
qed

lemma unsatisfiable_search_fails:
  assumes "separationUnsatisfiable programs rp" and "list_all (\<lambda>s. 0 \<le> s_DurationMs s) programs"
  shows "backtrackArrange programs rp = None"
proof (rule ccontr)
  assume "backtrackArrange programs rp \<noteq> None"
  then obtain s where "backtrackArrange programs rp = Some s" by blast
  from backtrackArrange_sound [OF this] unsatisfiable_no_order [OF assms] show False by blast
qed

subsection \<open>What a clean loop promises\<close>

text \<open>
  The abstract specification, on the cycle repeated for ever: no \<open>BlockMax + 1\<close> consecutive slots
  are of one series, and between any airing of a series and its next one, wherever on the endless
  loop, there is at least the minimal gap of other programmes. A series with a single slot in the
  cycle returns after all the other programmes of the cycle, whatever their order, and the code does
  not check that wait against the gap.
\<close>

definition loop_slot :: "Slot list \<Rightarrow> nat \<Rightarrow> Slot" where
  "loop_slot xs i = xs ! (i mod length xs)"

definition loop_key :: "Slot list \<Rightarrow> nat \<Rightarrow> Key" where
  "loop_key xs i = seriesKeyOf (loop_slot xs i)"

definition no_long_block :: "int \<Rightarrow> Slot list \<Rightarrow> bool" where
  "no_long_block bmax xs \<longleftrightarrow> (\<forall>a. \<exists>d\<le>nat bmax. loop_key xs (a + d) \<noteq> loop_key xs a)"

text \<open>The slot at \<open>a + e\<close> is the next airing of the series of the slot at \<open>a\<close>.\<close>

definition next_airing :: "Slot list \<Rightarrow> nat \<Rightarrow> nat \<Rightarrow> bool" where
  "next_airing xs a e \<longleftrightarrow>
     1 \<le> e \<and> loop_key xs (a + e) = loop_key xs a \<and> (\<forall>j\<in>{1..<e}. loop_key xs (a + j) \<noteq> loop_key xs a)"

definition runtime_between :: "Slot list \<Rightarrow> nat \<Rightarrow> nat \<Rightarrow> int" where
  "runtime_between xs a e = (\<Sum>j\<leftarrow>[1..<e]. s_DurationMs (loop_slot xs (a + j)))"

definition lone_series :: "Slot list \<Rightarrow> Key \<Rightarrow> bool" where
  "lone_series xs k \<longleftrightarrow> length (filter (\<lambda>s. seriesKeyOf s = k) xs) = 1"

definition gaps_kept :: "int \<Rightarrow> Slot list \<Rightarrow> bool" where
  "gaps_kept gapMs xs \<longleftrightarrow>
     (\<forall>a e. next_airing xs a e \<longrightarrow>
        (if lone_series xs (loop_key xs a)
         then runtime_between xs a e = (\<Sum>s\<leftarrow>xs. s_DurationMs s) - s_DurationMs (loop_slot xs a)
         else gapMs \<le> runtime_between xs a e))"

definition loop_separated :: "ResolvedPolicy \<Rightarrow> Slot list \<Rightarrow> bool" where
  "loop_separated rp xs \<longleftrightarrow>
     (rs_BlockMax (rp_Sep rp) > 0 \<longrightarrow> no_long_block (rs_BlockMax (rp_Sep rp)) xs) \<and>
     (rs_SeriesMinGap (rp_Sep rp) > 0 \<longrightarrow> gaps_kept (milliseconds (rs_SeriesMinGap (rp_Sep rp))) xs)"

primrec run_at :: "Slot list \<Rightarrow> nat \<Rightarrow> int" where
  "run_at xs 0 = 1"
| "run_at xs (Suc i) = (if loop_key xs (Suc i) = loop_key xs i then run_at xs i + 1 else 1)"

lemma run_at_pos: "1 \<le> run_at xs i"
  by (induction i) auto

lemma run_at_window: "(\<And>j. j \<le> d \<Longrightarrow> loop_key xs (a + j) = loop_key xs a) \<Longrightarrow> int d + 1 \<le> run_at xs (a + d)"
proof (induction d)
  case 0
  then show ?case by (simp add: run_at_pos)
next
  case (Suc d)
  have "loop_key xs (a + Suc d) = loop_key xs (a + d)" using Suc.prems [of "Suc d"] Suc.prems [of d] by simp
  then show ?case using Suc by simp
qed

lemma block_scan_clean:
  assumes "block_scan xs b (run_at xs (i - 1)) [i..<m] = []" and "1 \<le> i" and "i \<le> j" and "j < m"
    and "\<And>k. i \<le> k \<Longrightarrow> length xs \<le> k \<Longrightarrow> k < j \<Longrightarrow> run_at xs k \<noteq> 1" and "1 \<le> b"
  shows "run_at xs j \<le> b"
  using assms
proof (induction "m - i" arbitrary: i)
  case 0
  then show ?case by simp
next
  case (Suc d)
  obtain i' where i': "i = Suc i'" using Suc.prems(2) by (cases i) auto
  have upt: "[i..<m] = i # [Suc i..<m]" using Suc.hyps(2) by (simp add: upt_rec)
  have keys: "seriesKeyOf (xs ! (i mod length xs)) = loop_key xs i" "seriesKeyOf (xs ! ((i - 1) mod length xs)) = loop_key xs i'"
    by (simp_all add: loop_key_def loop_slot_def i')
  have run: "(if loop_key xs i = loop_key xs i' then run_at xs (i - 1) + 1 else 1) = run_at xs i"
    by (simp add: i')
  have scan: "(if loop_key xs i = loop_key xs i' \<and> run_at xs i > b then [\<lparr>vi_Kind = BlockViolation, vi_Key = loop_key xs i, vi_Index = i mod length xs\<rparr>] else []) @
      (if i \<ge> length xs \<and> run_at xs i = 1 then [] else block_scan xs b (run_at xs i) [Suc i..<m]) = []"
    using Suc.prems(1) unfolding upt block_scan.simps Let_def keys run .
  have here: "run_at xs i \<le> b"
    using scan Suc.prems(6) by (auto simp: i' split: if_splits)
  show ?case
  proof (cases "j = i")
    case True
    then show ?thesis using here by simp
  next
    case False
    then have "\<not> (length xs \<le> i \<and> run_at xs i = 1)" using Suc.prems(3,5) by auto
    then have "block_scan xs b (run_at xs (Suc i - 1)) [Suc i..<m] = []" using scan by auto
    from Suc.hyps(1) [OF _ this] show ?thesis using Suc False by auto
  qed
qed

lemma loop_key_mod: "loop_key xs (i mod length xs) = loop_key xs i"
  by (simp add: loop_key_def loop_slot_def)

lemma block_check_complete:
  assumes "block_scan xs b 1 [1..<2 * length xs] = []" and "1 \<le> b" and ne: "0 < length xs"
    and mixed: "loop_key xs p \<noteq> loop_key xs q"
  shows "no_long_block b xs"
  unfolding no_long_block_def
proof (rule allI, rule ccontr)
  fix a
  assume "\<not> (\<exists>d\<le>nat b. loop_key xs (a + d) \<noteq> loop_key xs a)"
  then have same: "loop_key xs (a + d) = loop_key xs a" if "d \<le> nat b" for d using that by blast
  define n where "n = length xs"
  have n: "0 < n" using ne by (simp add: n_def)
  have short: "nat b + 1 < n"
  proof (rule ccontr)
    assume long: "\<not> nat b + 1 < n"
    have "loop_key xs r = loop_key xs a" for r
    proof -
      have "(r + n * a - a) mod n \<le> nat b" using long mod_less_divisor [OF n, of "r + n * a - a"] by linarith
      moreover have "a + (r + n * a - a) = r + n * a"
        using n by (cases n) auto
      then have "(a + (r + n * a - a) mod n) mod n = r mod n"
        by (simp add: mod_add_right_eq)
      ultimately show ?thesis
        using same [of "(r + n * a - a) mod n"] loop_key_mod [of xs r] loop_key_mod [of xs "a + (r + n * a - a) mod n"]
        by (simp add: n_def)
    qed
    then show False using mixed by metis
  qed
  define a' where "a' = a mod n"
  have a': "a' < n" using n by (simp add: a'_def)
  have same': "loop_key xs (a' + d) = loop_key xs a'" if "d \<le> nat b" for d
    using same [OF that] loop_key_mod [of xs "a + d"] loop_key_mod [of xs "a' + d"] loop_key_mod [of xs a]
    by (simp add: a'_def n_def mod_add_left_eq)
  have "int (nat b) + 1 \<le> run_at xs (a' + nat b)" by (rule run_at_window) (rule same')
  moreover have "run_at xs (a' + nat b) \<le> b"
  proof (rule block_scan_clean [where i = 1 and m = "2 * length xs"])
    show "block_scan xs b (run_at xs (1 - 1)) [1..<2 * length xs] = []" using assms(1) by simp
    show "a' + nat b < 2 * length xs" using a' short by (simp add: n_def)
    fix k assume k: "length xs \<le> k" "k < a' + nat b"
    have lo: "a' < k" using k a' by (simp add: n_def)
    have "loop_key xs k = loop_key xs a'" "loop_key xs (k - 1) = loop_key xs a'"
      using same' [of "k - a'"] same' [of "k - 1 - a'"] k lo by simp_all
    then show "run_at xs k \<noteq> 1" using lo run_at_pos [of xs "k - 1"] by (cases k) auto
  qed (use assms(2) in auto)
  ultimately show False using assms(2) by simp
qed

lemma gap_scan_clean:
  assumes "gap_scan xs g i acc [d..<n] = []" and "n = length xs" and "d \<le> e" and "e < n"
    and "loop_key xs (i + n - e) = seriesKeyOf (xs ! i)"
    and "\<And>j. d \<le> j \<Longrightarrow> j < e \<Longrightarrow> loop_key xs (i + n - j) \<noteq> seriesKeyOf (xs ! i)"
  shows "g \<le> acc + (\<Sum>j\<leftarrow>[d..<e]. s_DurationMs (loop_slot xs (i + n - j)))"
  using assms
proof (induction "e - d" arbitrary: d acc)
  case 0
  then have "d = e" by simp
  then have "[d..<n] = e # [Suc e..<n]" using 0 by (simp add: upt_rec)
  then show ?case using 0 \<open>d = e\<close> by (auto simp: loop_key_def loop_slot_def Let_def split: if_splits)
next
  case (Suc k)
  have upt: "[d..<n] = d # [Suc d..<n]" using Suc.hyps(2) Suc.prems by (simp add: upt_rec)
  have "loop_key xs (i + n - d) \<noteq> seriesKeyOf (xs ! i)" using Suc.prems(6) [of d] Suc.hyps(2) by simp
  then have "gap_scan xs g i (acc + s_DurationMs (loop_slot xs (i + n - d))) [Suc d..<n] = []"
    using Suc.prems(1,2) upt by (simp add: loop_key_def loop_slot_def Let_def)
  from Suc.hyps(1) [OF _ this] Suc
  have "g \<le> acc + s_DurationMs (loop_slot xs (i + n - d)) + (\<Sum>j\<leftarrow>[Suc d..<e]. s_DurationMs (loop_slot xs (i + n - j)))"
    by simp
  moreover have "[d..<e] = d # [Suc d..<e]" using Suc.hyps(2) by (simp add: upt_rec)
  ultimately show ?case by simp
qed

lemma loop_slot_cong: "p mod length xs = q mod length xs \<Longrightarrow> loop_slot xs p = loop_slot xs q"
  by (simp add: loop_slot_def)

lemma loop_key_cong: "p mod length xs = q mod length xs \<Longrightarrow> loop_key xs p = loop_key xs q"
  unfolding loop_key_def by (drule loop_slot_cong) (rule arg_cong)

lemma loop_key_period [simp]: "loop_key xs (a + length xs) = loop_key xs a"
  by (rule loop_key_cong) simp

text \<open>Looking back from the later of two airings sees the slots after the earlier one.\<close>

lemma back_position:
  assumes "j \<le> e" and "e < n"
  shows "((a + e) mod n + n - j) mod n = (a + (e - j)) mod (n::nat)"
proof -
  have n: "0 < n" using assms by simp
  have "((a + e) mod n + n - j) mod n = ((a + e) mod n + (n - j)) mod n" using assms by simp
  also have "\<dots> = (a + e + (n - j)) mod n" by (simp add: mod_add_left_eq)
  also have "a + e + (n - j) = a + (e - j) + n" using assms by simp
  finally show ?thesis by simp
qed

lemma sum_upt_rev: "1 \<le> e \<Longrightarrow> (\<Sum>j\<leftarrow>[1..<e]. f (e - j)) = (\<Sum>j\<leftarrow>[1..<e]. (f j :: int))"
proof -
  assume "1 \<le> e"
  have "map (\<lambda>j. f (e - j)) [1..<e] = rev (map f [1..<e])"
    by (rule nth_equalityI) (auto simp: rev_nth intro!: arg_cong [of _ _ f])
  then show ?thesis by (simp add: sum_list_rev)
qed

lemma near_gap:
  assumes "\<And>i. i < length xs \<Longrightarrow> gap_scan xs g i 0 [1..<length xs] = []"
    and "next_airing xs a e" and "e < length xs"
  shows "g \<le> runtime_between xs a e"
proof -
  define n where "n = length xs"
  define i where "i = (a + e) mod n"
  have e: "1 \<le> e" "e < n" using assms(2,3) by (simp_all add: next_airing_def n_def)
  have i: "i < length xs" using e by (simp add: i_def flip: n_def)
  have slot: "loop_slot xs (i + n - j) = loop_slot xs (a + (e - j))" if "j \<le> e" for j
    using back_position [OF that e(2), of a] by (intro loop_slot_cong) (simp add: i_def n_def)
  have key: "loop_key xs (i + n - j) = loop_key xs (a + (e - j))" if "j \<le> e" for j
    using slot [OF that] by (simp add: loop_key_def)
  have here: "seriesKeyOf (xs ! i) = loop_key xs a"
    using assms(2) i loop_key_mod [of xs "a + e"] by (simp add: next_airing_def i_def n_def loop_key_def loop_slot_def)
  have "g \<le> 0 + (\<Sum>j\<leftarrow>[1..<e]. s_DurationMs (loop_slot xs (i + n - j)))"
  proof (rule gap_scan_clean)
    show "gap_scan xs g i 0 [1..<n] = []" using assms(1) [OF i] by (simp add: n_def)
    show "loop_key xs (i + n - e) = seriesKeyOf (xs ! i)" using key [of e] by (simp add: here)
    fix j assume j: "1 \<le> j" "j < e"
    have "e - j \<in> {1..<e}" using j by auto
    then have "loop_key xs (a + (e - j)) \<noteq> loop_key xs a" using assms(2) unfolding next_airing_def by blast
    then show "loop_key xs (i + n - j) \<noteq> seriesKeyOf (xs ! i)" using key [of j] j by (simp add: here)
  qed (use e n_def in auto)
  also have "0 + (\<Sum>j\<leftarrow>[1..<e]. s_DurationMs (loop_slot xs (i + n - j))) =
      (\<Sum>j\<leftarrow>[1..<e]. s_DurationMs (loop_slot xs (a + (e - j))))"
    by (simp only: add_0) (rule arg_cong [of _ _ sum_list], rule map_cong [OF refl], use slot in auto)
  also have "\<dots> = runtime_between xs a e"
    using sum_upt_rev [OF e(1), of "\<lambda>j. s_DurationMs (loop_slot xs (a + j))"] by (simp add: runtime_between_def)
  finally show ?thesis .
qed

text \<open>A return after a whole turn is a return of a series that has one slot.\<close>

lemma lone_index:
  assumes "lone_series xs k" and "i < length xs" and "j < length xs"
    and "seriesKeyOf (xs ! i) = k" and "seriesKeyOf (xs ! j) = k"
  shows "i = j"
proof -
  have "card {i. i < length xs \<and> seriesKeyOf (xs ! i) = k} = 1"
    using assms(1) by (simp add: lone_series_def length_filter_conv_card)
  then obtain m where "{i. i < length xs \<and> seriesKeyOf (xs ! i) = k} = {m}" by (rule card_1_singletonE)
  then have "i \<in> {m}" "j \<in> {m}" using assms(2-5) by (metis (mono_tags, lifting) mem_Collect_eq)+
  then show ?thesis by simp
qed

lemma near_not_lone:
  assumes "next_airing xs a e" and "e < length xs"
  shows "\<not> lone_series xs (loop_key xs a)"
proof
  assume lone: "lone_series xs (loop_key xs a)"
  have n: "0 < length xs" using assms(2) by linarith
  have "a mod length xs = (a + e) mod length xs"
    by (rule lone_index [OF lone])
      (use assms(1) n in \<open>auto simp: next_airing_def loop_key_def loop_slot_def\<close>)
  then have "e mod length xs = 0"
    by (metis mod_eq_dvd_iff_nat add_diff_cancel_left' le_add1 dvd_imp_mod_0)
  then show False using assms by (simp add: next_airing_def)
qed

lemma far_lone:
  assumes "next_airing xs a e" and "length xs \<le> e" and "xs \<noteq> []"
  shows "e = length xs" and "lone_series xs (loop_key xs a)"
proof -
  have n: "0 < length xs" using assms(3) by simp
  show e: "e = length xs"
  proof (rule ccontr)
    assume "e \<noteq> length xs"
    then have "length xs \<in> {1..<e}" using assms(2) n by (simp add: Suc_le_eq)
    then have "loop_key xs (a + length xs) \<noteq> loop_key xs a" using assms(1) unfolding next_airing_def by blast
    then show False by simp
  qed
  have "{i. i < length xs \<and> seriesKeyOf (xs ! i) = loop_key xs a} = {a mod length xs}"
  proof (intro set_eqI iffI)
    fix i assume i: "i \<in> {i. i < length xs \<and> seriesKeyOf (xs ! i) = loop_key xs a}"
    define j where "j = (i + length xs - a mod length xs) mod length xs"
    have am: "a mod length xs \<le> length xs" using n by (simp add: less_imp_le)
    have "(a + j) mod length xs = (a mod length xs + (i + length xs - a mod length xs)) mod length xs"
      unfolding j_def by (simp add: mod_add_left_eq mod_add_right_eq)
    also have "a mod length xs + (i + length xs - a mod length xs) = i + length xs" using am by simp
    finally have ij: "(a + j) mod length xs = i" using i by simp
    then have "loop_key xs (a + j) = loop_key xs a" using i by (simp add: loop_key_def loop_slot_def)
    moreover have "j < e" using n by (simp add: j_def e)
    ultimately have "j = 0" using assms(1) by (auto simp: next_airing_def)
    then show "i \<in> {a mod length xs}" using ij by simp
  qed (use n in \<open>auto simp: loop_key_def loop_slot_def\<close>)
  then show "lone_series xs (loop_key xs a)" by (simp add: lone_series_def length_filter_conv_card)
qed

lemma whole_turn:
  assumes "xs \<noteq> []"
  shows "runtime_between xs a (length xs) = (\<Sum>s\<leftarrow>xs. s_DurationMs s) - s_DurationMs (loop_slot xs a)"
proof -
  have "map (\<lambda>j. loop_slot xs (a + j)) [0..<length xs] = rotate a xs"
    by (rule nth_equalityI) (simp_all add: loop_slot_def nth_rotate)
  then have "map s_DurationMs (map (\<lambda>j. loop_slot xs (a + j)) [0..<length xs]) = map s_DurationMs (rotate a xs)"
    by (rule arg_cong)
  then have "(\<Sum>j\<leftarrow>[0..<length xs]. s_DurationMs (loop_slot xs (a + j))) = (\<Sum>s\<leftarrow>rotate a xs. s_DurationMs s)"
    by (simp add: comp_def)
  also have "\<dots> = (\<Sum>s\<leftarrow>xs. s_DurationMs s)"
    using append_take_drop_id [of "a mod length xs" xs]
    by (metis (no_types, lifting) add.commute map_append rotate_drop_take sum_list_append)
  finally show ?thesis using assms by (simp add: runtime_between_def upt_conv_Cons)
qed

lemma gap_check_complete:
  assumes "\<And>i. i < length xs \<Longrightarrow> gap_scan xs g i 0 [1..<length xs] = []" and "xs \<noteq> []"
  shows "gaps_kept g xs"
  unfolding gaps_kept_def
proof (intro allI impI)
  fix a e
  assume n: "next_airing xs a e"
  show "if lone_series xs (loop_key xs a)
        then runtime_between xs a e = (\<Sum>s\<leftarrow>xs. s_DurationMs s) - s_DurationMs (loop_slot xs a)
        else g \<le> runtime_between xs a e"
  proof (cases "e < length xs")
    case True
    then show ?thesis using near_gap [OF assms(1) n] near_not_lone [OF n] by simp
  next
    case False
    then show ?thesis using far_lone [OF n _ assms(2)] whole_turn [OF assms(2), of a] by simp
  qed
qed

lemma clean_loop_separated:
  assumes "checkWrapSeparation xs rp = []" and "1 < length xs" and "loop_key xs p \<noteq> loop_key xs q"
  shows "loop_separated rp xs"
  unfolding loop_separated_def
proof (intro conjI impI)
  assume b: "0 < rs_BlockMax (rp_Sep rp)"
  then have "block_scan xs (rs_BlockMax (rp_Sep rp)) 1 [1..<2 * length xs] = []"
    using assms(1,2) by (simp add: checkWrapSeparation_def Let_def)
  from block_check_complete [OF this _ _ assms(3)] b assms(2)
  show "no_long_block (rs_BlockMax (rp_Sep rp)) xs" by fastforce
next
  assume "0 < rs_SeriesMinGap (rp_Sep rp)"
  then show "gaps_kept (milliseconds (rs_SeriesMinGap (rp_Sep rp))) xs"
    using assms(1,2) by (intro gap_check_complete) (auto simp: checkWrapSeparation_def Let_def split: if_splits)
qed

subsection \<open>Healing the seam\<close>

definition seamViolates :: "Slot list \<Rightarrow> ResolvedPolicy \<Rightarrow> bool" where
  "seamViolates programs rp \<longleftrightarrow>
     (if length programs \<le> 1 then False
      else let firstKey = seriesKeyOf (hd programs);
               tail = trailing_run firstKey programs;
               lead = trailing_run firstKey (rev programs);
               lastIsFirst = (seriesKeyOf (last programs) = firstKey)
           in rs_BlockMax (rp_Sep rp) > 0 \<and> lastIsFirst \<and> tail + lead > rs_BlockMax (rp_Sep rp) \<or>
              rs_SeriesMinGap (rp_Sep rp) > 0 \<and> lastIsFirst)"

definition rotate_seq :: "'a list \<Rightarrow> nat \<Rightarrow> 'a list" where
  "rotate_seq programs off = drop off programs @ take off programs"

definition healSeam :: "Slot list \<Rightarrow> ResolvedPolicy \<Rightarrow> Slot list" where
  "healSeam programs rp =
     (if length programs \<le> 1 \<or> \<not> seamViolates programs rp then programs
      else case find (\<lambda>off. \<not> seamViolates (rotate_seq programs off) rp) [1..<length programs] of
             Some off \<Rightarrow> rotate_seq programs off
           | None \<Rightarrow> programs)"

definition deckID :: "Slot \<Rightarrow> string" where
  "deckID s = (if s_LibraryItemID s \<noteq> '''' then s_LibraryItemID s else s_Key s)"

definition deckCovers :: "Slot list \<Rightarrow> bool" where
  "deckCovers programs \<longleftrightarrow>
     list_all (\<lambda>s. length (filter (\<lambda>t. deckID t = deckID s) programs) = 1) programs"

lemma mset_rotate_seq [simp]: "mset (rotate_seq xs off) = mset xs"
  by (simp add: rotate_seq_def flip: mset_append union_commute) (metis append_take_drop_id mset_append union_commute)

lemma rotate_seq_0 [simp]: "rotate_seq xs 0 = xs"
  by (simp add: rotate_seq_def)

lemma healSeam_rotation: "\<exists>off\<in>{0..<max 1 (length programs)}. healSeam programs rp = rotate_seq programs off"
proof (cases "find (\<lambda>off. \<not> seamViolates (rotate_seq programs off) rp) [1..<length programs]")
  case None
  then show ?thesis by (auto simp: healSeam_def intro!: bexI [of _ 0])
next
  case (Some off)
  then have "off \<in> {0..<max 1 (length programs)}" by (auto simp: find_Some_iff)
  with Some show ?thesis by (cases "length programs \<le> 1 \<or> \<not> seamViolates programs rp")
      (auto simp: healSeam_def intro: bexI [of _ 0])
qed

lemma mset_healSeam [simp, preserved]: "mset (healSeam programs rp) = mset programs"
  using healSeam_rotation [of programs rp] by auto

lemma healSeam_best:
  assumes "seamViolates (healSeam programs rp) rp" and "off < length programs"
  shows "seamViolates (rotate_seq programs off) rp"
proof -
  have viol: "seamViolates programs rp" and len: "\<not> length programs \<le> 1"
    using assms(1) by (auto simp: healSeam_def seamViolates_def split: if_splits option.splits)
  have "find (\<lambda>off. \<not> seamViolates (rotate_seq programs off) rp) [1..<length programs] = None"
  proof (rule ccontr)
    assume "find (\<lambda>off. \<not> seamViolates (rotate_seq programs off) rp) [1..<length programs] \<noteq> None"
    then obtain off' where f: "find (\<lambda>off. \<not> seamViolates (rotate_seq programs off) rp) [1..<length programs] = Some off'"
      by blast
    then have "\<not> seamViolates (rotate_seq programs off') rp" by (auto simp: find_Some_iff)
    then show False using assms(1) viol len f by (simp add: healSeam_def)
  qed
  then have "\<forall>off\<in>{1..<length programs}. seamViolates (rotate_seq programs off) rp"
    by (auto simp: find_None_iff)
  then show ?thesis using viol assms(2) by (cases "off = 0") auto
qed

text \<open>A loop that passes the check needs no healing.\<close>

lemma trailing_run_last:
  "d < nat (trailing_run k xs) \<Longrightarrow> seriesKeyOf (xs ! (length xs - 1 - d)) = k"
proof (induction xs arbitrary: d rule: rev_induct)
  case (snoc x xs)
  then show ?case
    by (cases d) (auto simp: nth_append split: if_splits)
qed simp

lemma trailing_run_le: "trailing_run k xs \<le> int (length xs)"
  by (induction xs rule: rev_induct) auto

lemma trailing_run_rev:
  assumes "d < nat (trailing_run k (rev xs))"
  shows "d < length xs \<and> seriesKeyOf (xs ! d) = k"
proof -
  have "d < length xs" using assms trailing_run_le [of k "rev xs"] by simp
  then show ?thesis using trailing_run_last [OF assms] by (simp add: rev_nth)
qed

lemma clean_seam:
  assumes "checkWrapSeparation xs rp = []" and "1 < length xs" and "loop_key xs p \<noteq> loop_key xs q"
    and "rs_SeriesMinGap (rp_Sep rp) \<le> 0 \<or> millisecond \<le> rs_SeriesMinGap (rp_Sep rp)"
  shows "\<not> seamViolates xs rp"
proof
  assume viol: "seamViolates xs rp"
  define n where "n = length xs"
  have n: "1 < n" "xs \<noteq> []" using assms(2) by (auto simp: n_def)
  have sep: "loop_separated rp xs" using clean_loop_separated assms(1-3) by blast
  have last: "seriesKeyOf (last xs) = seriesKeyOf (hd xs)" using viol n by (auto simp: seamViolates_def Let_def split: if_splits)
  have "\<not> 0 < rs_SeriesMinGap (rp_Sep rp)"
  proof
    assume g: "0 < rs_SeriesMinGap (rp_Sep rp)"
    then have "gaps_kept (milliseconds (rs_SeriesMinGap (rp_Sep rp))) xs" using sep by (simp add: loop_separated_def)
    moreover have seam: "next_airing xs (n - 1) 1"
      using last n by (simp add: next_airing_def loop_key_def loop_slot_def n_def last_conv_nth hd_conv_nth)
    ultimately have "milliseconds (rs_SeriesMinGap (rp_Sep rp)) \<le> runtime_between xs (n - 1) 1"
      using near_not_lone [OF seam] assms(2) by (simp add: gaps_kept_def)
    then have "milliseconds (rs_SeriesMinGap (rp_Sep rp)) \<le> 0" by (simp add: runtime_between_def)
    then show False using milliseconds_pos [of "rs_SeriesMinGap (rp_Sep rp)"] assms(4) g by linarith
  qed
  then have block: "0 < rs_BlockMax (rp_Sep rp)"
    and long: "trailing_run (seriesKeyOf (hd xs)) xs + trailing_run (seriesKeyOf (hd xs)) (rev xs) > rs_BlockMax (rp_Sep rp)"
    using viol n by (auto simp: seamViolates_def Let_def split: if_splits)
  define t where "t = nat (trailing_run (seriesKeyOf (hd xs)) xs)"
  have t: "t \<le> n" using trailing_run_le [of "seriesKeyOf (hd xs)" xs] by (simp add: t_def n_def)
  have run: "loop_key xs (n - t + d) = seriesKeyOf (hd xs)" if "d \<le> nat (rs_BlockMax (rp_Sep rp))" for d
  proof (cases "d < t")
    case True
    then have "t - 1 - d < nat (trailing_run (seriesKeyOf (hd xs)) xs)" by (simp add: t_def)
    from trailing_run_last [OF this]
    have "seriesKeyOf (xs ! (n - 1 - (t - 1 - d))) = seriesKeyOf (hd xs)" by (simp only: n_def)
    moreover have "n - 1 - (t - 1 - d) = n - t + d" using True t by linarith
    ultimately have "seriesKeyOf (xs ! (n - t + d)) = seriesKeyOf (hd xs)" by simp
    moreover have "(n - t + d) mod n = n - t + d" using True t by (intro mod_less) linarith
    ultimately show ?thesis by (simp add: loop_key_def loop_slot_def flip: n_def)
  next
    case False
    have "d - t < nat (trailing_run (seriesKeyOf (hd xs)) (rev xs))"
    proof -
      have "int t = trailing_run (seriesKeyOf (hd xs)) xs"
        by (simp add: t_def trailing_run_def)
      moreover have "int d \<le> rs_BlockMax (rp_Sep rp)" using that block by linarith
      moreover have "int (d - t) = int d - int t" using False by (simp add: of_nat_diff)
      ultimately show ?thesis using long by linarith
    qed
    from trailing_run_rev [OF this] have d: "d - t < n" "seriesKeyOf (xs ! (d - t)) = seriesKeyOf (hd xs)"
      by (simp_all add: n_def)
    have "(n - t + d) mod n = d - t"
      using d(1) False t by (simp add: mod_if)
    then show ?thesis using d(2) by (simp add: loop_key_def loop_slot_def flip: n_def)
  qed
  have "no_long_block (rs_BlockMax (rp_Sep rp)) xs" using sep block by (simp add: loop_separated_def)
  then obtain d where "d \<le> nat (rs_BlockMax (rp_Sep rp))" "loop_key xs (n - t + d) \<noteq> loop_key xs (n - t)"
    unfolding no_long_block_def by blast
  then show False using run [of d] run [of 0] by simp
qed

subsection \<open>Properties\<close>

text \<open>
  C8. For programmes of at least two series, with durations that are not negative and a series gap
  that is off or at least a millisecond, the separation repair never drops or invents a programme, and
  when the search succeeds its arrangement is right on the endless loop, seam included: no more than
  \<open>BlockMax\<close> slots of a series in a row, and at least \<open>SeriesMinGap\<close> of other programmes between two
  airings of a series that has more than one slot in the cycle, so that the seam healing after it
  leaves it alone. A series with a single slot returns after all the other programmes, in any order,
  and is not held to the gap. When the search fails, the greedy order is what airs.
\<close>

theorem separationRepair_correct:
  assumes "list_all (\<lambda>s. 0 \<le> s_DurationMs s) programs"
    and "s1 \<in> set programs" and "s2 \<in> set programs" and "seriesKeyOf s1 \<noteq> seriesKeyOf s2"
    and "rs_BlockMax (rp_Sep rp) > 0 \<or> rs_SeriesMinGap (rp_Sep rp) > 0"
    and "rs_SeriesMinGap (rp_Sep rp) \<le> 0 \<or> millisecond \<le> rs_SeriesMinGap (rp_Sep rp)"
  shows "mset (separationRepair programs rp) = mset programs \<and>
         (if backtrackArrange programs rp = None then separationRepair programs rp = greedyArrange programs rp
          else loop_separated rp (separationRepair programs rp) \<and>
               healSeam (separationRepair programs rp) rp = separationRepair programs rp)"
proof -
  have len: "1 < length programs"
  proof (rule ccontr)
    assume "\<not> 1 < length programs"
    then have "length programs = 0 \<or> length programs = 1" by linarith
    then show False using assms(2-4) by (auto simp: length_Suc_conv)
  qed
  have repair: "separationRepair programs rp =
      (case backtrackArrange programs rp of Some s \<Rightarrow> s | None \<Rightarrow> greedyArrange programs rp)"
    using len assms(5) unsatisfiable_search_fails [OF _ assms(1), of rp]
    by (auto simp: separationRepair_def)
  show ?thesis
  proof (cases "backtrackArrange programs rp")
    case None
    then show ?thesis by (simp add: repair)
  next
    case (Some s)
    from backtrackArrange_sound [OF Some]
    have s: "mset s = mset programs" "checkWrapSeparation s rp = []" by simp_all
    have len_s: "1 < length s" using mset_eq_length [OF s(1)] len by simp
    have "s1 \<in> set s" "s2 \<in> set s" using assms(2,3) mset_eq_setD [OF s(1)] by simp_all
    then obtain p q where "p < length s" "s ! p = s1" "q < length s" "s ! q = s2"
      by (auto simp: in_set_conv_nth)
    then have pq: "loop_key s p \<noteq> loop_key s q" using assms(4) by (simp add: loop_key_def loop_slot_def)
    have "loop_separated rp s" by (rule clean_loop_separated [OF s(2) len_s pq])
    moreover have "healSeam s rp = s"
      using clean_seam [OF s(2) len_s pq assms(6)] by (simp add: healSeam_def)
    ultimately show ?thesis using s(1) by (simp add: repair Some)
  qed
qed

definition sample_program :: "Key \<Rightarrow> string \<Rightarrow> Slot" where
  "sample_program k item =
     empty_slot\<lparr>s_Kind := SlotProgram, s_Key := k, s_LibraryItemID := item, s_DurationMs := 1800000\<rparr>"

definition sample_pool :: "Slot list" where
  "sample_pool = [sample_program ''a'' ''1'', sample_program ''a'' ''2'', sample_program ''b'' ''3'', sample_program ''b'' ''4'']"

definition sample_rp :: "int \<Rightarrow> ResolvedPolicy" where
  "sample_rp b = (Resolved empty_policy Sequential False)\<lparr>rp_Sep :=
     \<lparr>rs_EpisodeNoRepeat = 0, rs_MovieNoRepeat = 0, rs_SeriesMinGap = 0, rs_BlockMax = b\<rparr>\<rparr>"

lemma sample_backtrack:
  "map_option (map s_LibraryItemID) (backtrackArrange sample_pool (sample_rp 1)) = Some [''1'', ''3'', ''2'', ''4'']"
  by code_simp

theorem separationRepair_correct_witness:
  "loop_separated (sample_rp 1) (separationRepair sample_pool (sample_rp 1)) \<and>
   healSeam (separationRepair sample_pool (sample_rp 1)) (sample_rp 1) = separationRepair sample_pool (sample_rp 1)"
proof -
  have "list_all (\<lambda>s. 0 \<le> s_DurationMs s) sample_pool"
    by (simp add: sample_pool_def sample_program_def)
  moreover have "backtrackArrange sample_pool (sample_rp 1) \<noteq> None" using sample_backtrack by auto
  ultimately show ?thesis
    using separationRepair_correct [of sample_pool "sample_program ''a'' ''1''" "sample_program ''b'' ''3''" "sample_rp 1"]
    by (auto simp: sample_pool_def sample_program_def sample_rp_def seriesKeyOf_def)
qed

text \<open>
  The counting test only skips searches that cannot succeed: when it says a pool of programmes is
  unsatisfiable, no order of the pool passes the prefix check at every position, and the search, run
  anyway with its whole budget, would return no arrangement.
\<close>

theorem separationUnsatisfiable_sound:
  assumes "separationUnsatisfiable programs rp" and "list_all (\<lambda>s. 0 \<le> s_DurationMs s) programs"
  shows "backtrackArrange programs rp = None \<and>
         (\<nexists>xs. mset xs = mset programs \<and> linear_ok rp xs)"
  using unsatisfiable_search_fails [OF assms] unsatisfiable_no_order [OF assms] by blast

definition crowded_pool :: "Slot list" where
  "crowded_pool = map (sample_program ''a'') [''1'', ''2'', ''3''] @ [sample_program ''b'' ''4'']"

theorem separationUnsatisfiable_sound_witness:
  "backtrackArrange crowded_pool (sample_rp 1) = None"
proof -
  have "separationUnsatisfiable crowded_pool (sample_rp 1)" by code_simp
  moreover have "list_all (\<lambda>s. 0 \<le> s_DurationMs s) crowded_pool"
    by (simp add: crowded_pool_def sample_program_def)
  ultimately show ?thesis using separationUnsatisfiable_sound by blast
qed

text \<open>
  The lazy candidate order changes nothing: asked to the end, it hands out exactly the programmes
  not placed yet, in the order a full sort of the candidates would give.
\<close>

theorem candidateOrder_lazy:
  "drain (newCandidateOrder out programs used rp) =
     map cd_idx (sort_by candLess (co_cands (newCandidateOrder out programs used rp))) \<and>
   set (drain (newCandidateOrder out programs used rp)) = {i. i < length programs \<and> \<not> used ! i}"
proof
  show "drain (newCandidateOrder out programs used rp) =
      map cd_idx (sort_by candLess (co_cands (newCandidateOrder out programs used rp)))"
    unfolding drain_newCandidateOrder by (simp add: newCandidateOrder_def open_idx_def)
  show "set (drain (newCandidateOrder out programs used rp)) = {i. i < length programs \<and> \<not> used ! i}"
    by (auto simp: set_drain_newCandidateOrder open_idx_def)
qed

text \<open>
  Healing the seam is the smallest change that works: the result is a rotation of the cycle, the
  cycle itself when its seam is clean already, and it still violates only when every rotation does.
\<close>

theorem healSeam_rotates:
  "(\<exists>off\<in>{0..<max 1 (length programs)}. healSeam programs rp = rotate_seq programs off) \<and>
   (if seamViolates programs rp then True else healSeam programs rp = programs) \<and>
   (if seamViolates (healSeam programs rp) rp
    then list_all (\<lambda>off. seamViolates (rotate_seq programs off) rp) [0..<length programs] else True)"
  using healSeam_rotation [of programs rp] healSeam_best [of programs rp]
  by (auto simp: healSeam_def list_all_iff)

end
