(* ===== verification/Slotting.thy ===== *)
theory Slotting
  imports Separation
begin

text \<open>
  Ordering the resolved slots: \<^verbatim>\<open>slotByPolicy\<close> and its parts of \<^verbatim>\<open>internal/schedule/slotting.go\<close>, with
  \<^verbatim>\<open>holdBack\<close> of \<^verbatim>\<open>passes.go\<close>, which both the seam repair and the guarded window use.

  The generator of \<^verbatim>\<open>math/rand\<close> is the parameter \<open>draw\<close>: \<open>draw seed n i\<close> is the index that
  \<^verbatim>\<open>rand.New(rand.NewSource(seed)).Shuffle(n, swap)\<close> swaps with \<open>i\<close>. Nothing is assumed of it, so what
  is proved holds for every seed.

  The lemmas show that every step keeps the slots (a locale of arrangements, interpreted on each),
  that sequential order is kept, and that holding back places every unit at or after its release
  whenever the pool has room for it.
\<close>

type_synonym random_draw = "64 word \<Rightarrow> nat \<Rightarrow> nat \<Rightarrow> nat"

definition partitionPrograms :: "Slot list \<Rightarrow> Slot list \<times> Slot list" where
  "partitionPrograms slots = (filter IsProgram slots, filter (\<lambda>s. \<not> IsProgram s) slots)"

subsection \<open>Shuffle and recency\<close>

text \<open>
  \<^verbatim>\<open>Shuffle\<close> swaps \<open>i\<close> with a drawn index for \<open>i\<close> from the last position down to 1. A draw out of range,
  which its contract excludes, would panic; here it leaves the slots alone.
\<close>

definition swap_at :: "nat \<Rightarrow> nat \<Rightarrow> 'a list \<Rightarrow> 'a list" where
  "swap_at i j xs = (if i < length xs \<and> j < length xs then xs[i := xs ! j, j := xs ! i] else xs)"

definition seededShuffle :: "random_draw \<Rightarrow> Slot list \<Rightarrow> 64 word \<Rightarrow> Slot list" where
  "seededShuffle draw slots seed =
     foldl (\<lambda>out i. swap_at i (draw seed (length slots) i) out) slots (rev [1..<length slots])"

text \<open>
  With no history the comparison is never true and the stable sort keeps the order
  (\<open>byRecency_no_history\<close>), so the early return on an empty history needs no case of its own.
\<close>

definition less_recent :: "(string \<rightharpoonup> gotime) \<Rightarrow> Slot \<Rightarrow> Slot \<Rightarrow> bool" where
  "less_recent lastAired a b =
     (case (lastAired (s_LibraryItemID a), lastAired (s_LibraryItemID b)) of
        (None, None) \<Rightarrow> False
      | (None, Some _) \<Rightarrow> True
      | (Some _, None) \<Rightarrow> False
      | (Some ti, Some tj) \<Rightarrow> ti < tj)"

definition byRecency :: "Slot list \<Rightarrow> (string \<rightharpoonup> gotime) \<Rightarrow> Slot list" where
  "byRecency slots lastAired = (if length slots \<le> 1 then slots else sort_by (less_recent lastAired) slots)"

definition syndicationDeck :: "random_draw \<Rightarrow> Slot list \<Rightarrow> ResolvedPolicy \<Rightarrow> 64 word \<Rightarrow> Slot list" where
  "syndicationDeck draw programs rp seed = separationRepair (seededShuffle draw programs seed) rp"

definition order_programs :: "random_draw \<Rightarrow> Slot list \<Rightarrow> ResolvedPolicy \<Rightarrow> 64 word \<Rightarrow> Slot list" where
  "order_programs draw programs rp seed =
     (case rp_Ordering rp of
        OrderSequential \<Rightarrow> programs
      | OrderShuffle \<Rightarrow> separationRepair (byRecency (seededShuffle draw programs seed) (rp_LastAired rp)) rp
      | OrderSyndication \<Rightarrow> syndicationDeck draw (byRecency programs (rp_LastAired rp)) rp seed
      | _ \<Rightarrow> programs)"

definition slotByPolicy :: "random_draw \<Rightarrow> Slot list \<Rightarrow> ResolvedPolicy \<Rightarrow> 64 word \<Rightarrow> Slot list" where
  "slotByPolicy draw slots rp seed =
     (let (programs, others) = partitionPrograms slots
      in if programs = [] then slots
         else healSeam (order_programs draw programs rp seed) rp @ others)"

subsection \<open>Arrangements\<close>

text \<open>
  The contract every ordering step keeps: the slots it returns are the slots it was given. What
  depends on the slots alone (how many there are, their runtime, whether a deck covers its items) is
  then the same before and after.
\<close>

locale arrangement =
  fixes arrange :: "Slot list \<Rightarrow> Slot list"
  assumes same_slots: "mset (arrange xs) = mset xs"
begin

lemma same_length: "length (arrange xs) = length xs"
  using same_slots by (rule mset_eq_length)

lemma same_set: "set (arrange xs) = set xs"
  using same_slots by (rule mset_eq_setD)

lemma same_programs: "mset (filter IsProgram (arrange xs)) = mset (filter IsProgram xs)"
  using same_slots by simp

lemma same_runtime: "programRuntime (arrange xs) = programRuntime xs"
  using same_slots by (rule programRuntime_mset)

lemma same_cover: "deckCovers (arrange xs) = deckCovers xs"
proof -
  have "length (filter P (arrange xs)) = length (filter P xs)" for P
    using same_slots by (metis mset_filter size_mset)
  then show ?thesis by (simp add: deckCovers_def list_all_iff same_set)
qed

lemma keeps_Nil: "arrange [] = []"
  using same_length [of "[]"] by simp

end

lemma mset_swap_at [simp, preserved]: "mset (swap_at i j xs) = mset xs"
  by (simp add: swap_at_def mset_swap)

lemma mset_seededShuffle [simp, preserved]: "mset (seededShuffle draw slots seed) = mset slots"
proof -
  have "mset (foldl (\<lambda>out i. swap_at i (f i) out) xs is) = mset xs" for f :: "nat \<Rightarrow> nat" and xs :: "Slot list" and "is"
    by (induction "is" arbitrary: xs) simp_all
  then show ?thesis by (simp add: seededShuffle_def)
qed

lemma mset_byRecency [simp, preserved]: "mset (byRecency slots lastAired) = mset slots"
  by (simp add: byRecency_def)

lemma mset_order_programs [simp, preserved]: "mset (order_programs draw programs rp seed) = mset programs"
  by (simp add: order_programs_def syndicationDeck_def split: OrderingMode.split)

lemma mset_slotByPolicy [simp, preserved]: "mset (slotByPolicy draw slots rp seed) = mset slots"
  by (simp add: slotByPolicy_def partitionPrograms_def Let_def flip: mset_filter)
    (metis multiset_partition mset_filter)

interpretation repair: arrangement "\<lambda>xs. separationRepair xs rp" for rp
  by unfold_locales simp

interpretation heal: arrangement "\<lambda>xs. healSeam xs rp" for rp
  by unfold_locales simp

interpretation shuffle: arrangement "\<lambda>xs. seededShuffle draw xs seed" for draw seed
  by unfold_locales simp

interpretation recency: arrangement "\<lambda>xs. byRecency xs lastAired" for lastAired
  by unfold_locales simp

interpretation slotting: arrangement "\<lambda>xs. slotByPolicy draw xs rp seed" for draw rp seed
  by unfold_locales simp

lemma byRecency_no_history: "byRecency slots Map.empty = slots"
  by (simp add: byRecency_def less_recent_def sort_by_sorted sorted_wrt_iff_nth_less)

lemma weak_order_less_recent: "weak_order (less_recent lastAired)"
  by (rule weak_orderI) (auto simp: less_recent_def split: option.splits)

subsection \<open>Holding units back (passes.go)\<close>

record held =
  h_slot :: Slot
  h_at :: int

text \<open>
  \<^verbatim>\<open>sort.Search\<close> on the queue, which is sorted by release: the new unit goes behind those that are
  released no later.
\<close>

definition insert_held :: "held \<Rightarrow> held list \<Rightarrow> held list" where
  "insert_held h queue =
     takeWhile (\<lambda>k. \<not> h_at k > h_at h) queue @ h # dropWhile (\<lambda>k. \<not> h_at k > h_at h) queue"

definition slot_runtime :: "Slot \<Rightarrow> int" where
  "slot_runtime s = (if IsProgram s then s_DurationMs s else 0)"

lemma length_insert_held [simp]: "length (insert_held h queue) = Suc (length queue)"
  by (simp add: insert_held_def) (metis length_append takeWhile_dropWhile_id)

text \<open>The release a unit must still wait for when the deck has reached \<open>pos\<close>.\<close>

definition held_until :: "(string \<rightharpoonup> int) \<Rightarrow> int \<Rightarrow> Slot \<Rightarrow> int option" where
  "held_until release pos s =
     (case release (s_LibraryItemID s) of
        Some r \<Rightarrow> if IsProgram s \<and> r > pos then Some r else None
      | None \<Rightarrow> None)"

text \<open>
  The loop: what is left of \<open>next\<close>, the queue, the deck's position \<open>pos\<close> (\<^verbatim>\<open>at\<close>) and the output so far.
\<close>

function hold_loop ::
  "(string \<rightharpoonup> int) \<Rightarrow> Slot list \<Rightarrow> held list \<Rightarrow> int \<Rightarrow> Slot list \<Rightarrow> Slot list"
where
  "hold_loop release nxt (q # queue) pos out =
     (if h_at q \<le> pos \<or> nxt = []
      then hold_loop release nxt queue (pos + slot_runtime (h_slot q)) (out @ [h_slot q])
      else case held_until release pos (hd nxt) of
             Some r \<Rightarrow> hold_loop release (tl nxt) (insert_held \<lparr>h_slot = hd nxt, h_at = r\<rparr> (q # queue)) pos out
           | None \<Rightarrow> hold_loop release (tl nxt) (q # queue) (pos + slot_runtime (hd nxt)) (out @ [hd nxt]))"
| "hold_loop release (s # nxt) [] pos out =
     (case held_until release pos s of
        Some r \<Rightarrow> hold_loop release nxt [\<lparr>h_slot = s, h_at = r\<rparr>] pos out
      | None \<Rightarrow> hold_loop release nxt [] (pos + slot_runtime s) (out @ [s]))"
| "hold_loop release [] [] pos out = out"
  by pat_completeness auto

termination hold_loop
  by (relation "measure (\<lambda>(release, nxt, queue, pos, out). 2 * length nxt + length queue)")
    (auto simp: neq_Nil_conv)

declare hold_loop.simps [simp del]

definition holdBack :: "Slot list \<Rightarrow> (string \<rightharpoonup> int) \<Rightarrow> Slot list" where
  "holdBack nxt release = hold_loop release nxt [] 0 []"

text \<open>
  One turn of the loop, as a relation between states; what is proved of the loop are invariants of it.
\<close>

record hold_state =
  hs_next :: "Slot list"
  hs_queue :: "held list"
  hs_out :: "Slot list"

inductive hold_step :: "(string \<rightharpoonup> int) \<Rightarrow> hold_state \<Rightarrow> hold_state \<Rightarrow> bool" for release where
  step_release: "h_at q \<le> programRuntime out \<or> nxt = [] \<Longrightarrow>
     hold_step release \<lparr>hs_next = nxt, hs_queue = q # queue, hs_out = out\<rparr>
                       \<lparr>hs_next = nxt, hs_queue = queue, hs_out = out @ [h_slot q]\<rparr>"
| step_hold: "held_until release (programRuntime out) s = Some r \<Longrightarrow>
     hold_step release \<lparr>hs_next = s # nxt, hs_queue = queue, hs_out = out\<rparr>
                       \<lparr>hs_next = nxt, hs_queue = insert_held \<lparr>h_slot = s, h_at = r\<rparr> queue, hs_out = out\<rparr>"
| step_place: "held_until release (programRuntime out) s = None \<Longrightarrow>
     hold_step release \<lparr>hs_next = s # nxt, hs_queue = queue, hs_out = out\<rparr>
                       \<lparr>hs_next = nxt, hs_queue = queue, hs_out = out @ [s]\<rparr>"

inductive_cases hold_stepE: "hold_step release st st'"

lemma insert_held_Nil [simp]: "insert_held h [] = [h]"
  by (simp add: insert_held_def)

lemma programRuntime_snoc: "programRuntime (out @ [s]) = programRuntime out + slot_runtime s"
  by (simp add: slot_runtime_def)

lemma hold_loop_steps:
  assumes "pos = programRuntime out"
  shows "(hold_step release)\<^sup>*\<^sup>* \<lparr>hs_next = nxt, hs_queue = queue, hs_out = out\<rparr>
           \<lparr>hs_next = [], hs_queue = [], hs_out = hold_loop release nxt queue pos out\<rparr>"
  using assms
proof (induction release nxt queue pos out rule: hold_loop.induct)
  case (1 release nxt q queue pos out)
  note pos = "1.prems"
  show ?case
  proof (cases "h_at q \<le> pos \<or> nxt = []")
    case True
    from converse_rtranclp_into_rtranclp [OF step_release "1.IH"(1) [OF True]]
    show ?thesis using True pos by (simp add: hold_loop.simps(1) programRuntime_snoc del: programRuntime_simps)
  next
    case False
    then have nxt: "nxt = hd nxt # tl nxt" by simp
    show ?thesis
    proof (cases "held_until release pos (hd nxt)")
      case None
      from converse_rtranclp_into_rtranclp [OF step_place "1.IH"(2) [OF False None]]
      show ?thesis using None False pos nxt
        by (simp add: hold_loop.simps(1) programRuntime_snoc del: programRuntime_simps)
    next
      case (Some r)
      from converse_rtranclp_into_rtranclp [OF step_hold "1.IH"(3) [OF False Some]]
      show ?thesis using Some False pos nxt by (simp add: hold_loop.simps(1))
    qed
  qed
next
  case (2 release s nxt pos out)
  show ?case
  proof (cases "held_until release pos s")
    case None
    from converse_rtranclp_into_rtranclp [OF step_place "2.IH"(1) [OF None]]
    show ?thesis using None "2.prems"
      by (simp add: hold_loop.simps(2) programRuntime_snoc del: programRuntime_simps)
  next
    case (Some r)
    have "hold_step release \<lparr>hs_next = s # nxt, hs_queue = [], hs_out = out\<rparr>
        \<lparr>hs_next = nxt, hs_queue = [\<lparr>h_slot = s, h_at = r\<rparr>], hs_out = out\<rparr>"
      using step_hold [of release out s r nxt "[]"] Some "2.prems" by simp
    from converse_rtranclp_into_rtranclp [OF this "2.IH"(2) [OF Some]]
    show ?thesis using Some "2.prems" by (simp add: hold_loop.simps(2))
  qed
next
  case (3 release pos out)
  then show ?case by (simp add: hold_loop.simps(3))
qed

lemma holdBack_steps:
  "(hold_step release)\<^sup>*\<^sup>* \<lparr>hs_next = nxt, hs_queue = [], hs_out = []\<rparr>
     \<lparr>hs_next = [], hs_queue = [], hs_out = holdBack nxt release\<rparr>"
  unfolding holdBack_def by (rule hold_loop_steps) simp

definition hold_inv :: "(string \<rightharpoonup> int) \<Rightarrow> Slot list \<Rightarrow> hold_state \<Rightarrow> bool" where
  "hold_inv release nxt0 st \<longleftrightarrow>
     mset (hs_out st) + mset (map h_slot (hs_queue st)) + mset (hs_next st) = mset nxt0 \<and>
     sorted (map h_at (hs_queue st)) \<and>
     (\<forall>q\<in>set (hs_queue st). IsProgram (h_slot q) \<and> release (s_LibraryItemID (h_slot q)) = Some (h_at q)) \<and>
     filter (\<lambda>s. release (s_LibraryItemID s) = None) (hs_out st @ hs_next st) =
       filter (\<lambda>s. release (s_LibraryItemID s) = None) nxt0"

lemma mset_insert_held [simp]: "mset (insert_held h queue) = add_mset h (mset queue)"
  by (simp add: insert_held_def) (metis mset_append takeWhile_dropWhile_id)

lemma set_insert_held [simp]: "set (insert_held h queue) = insert h (set queue)"
  by (metis mset_insert_held set_mset_add_mset_insert set_mset_mset)

lemma insert_held_Cons:
  "insert_held h (q # queue) = (if h_at q > h_at h then h # q # queue else q # insert_held h queue)"
  by (simp add: insert_held_def)

lemma sorted_insert_held: "sorted (map h_at queue) \<Longrightarrow> sorted (map h_at (insert_held h queue))"
  by (induction queue) (auto simp: insert_held_Cons)

lemma hold_step_inv: "hold_step release st st' \<Longrightarrow> hold_inv release nxt0 st \<Longrightarrow> hold_inv release nxt0 st'"
  by (erule hold_stepE)
    (auto simp: hold_inv_def sorted_insert_held held_until_def split: option.splits if_splits)

lemma hold_steps_inv:
  "(hold_step release)\<^sup>*\<^sup>* st st' \<Longrightarrow> hold_inv release nxt0 st \<Longrightarrow> hold_inv release nxt0 st'"
  by (induction rule: rtranclp_induct) (auto intro: hold_step_inv)

lemma hold_inv_start: "hold_inv release nxt \<lparr>hs_next = nxt, hs_queue = [], hs_out = []\<rparr>"
  by (simp add: hold_inv_def)

lemma mset_holdBack [simp, preserved]: "mset (holdBack nxt release) = mset nxt"
  using hold_steps_inv [OF holdBack_steps hold_inv_start] by (simp add: hold_inv_def)

text \<open>Units without a release keep their order.\<close>

lemma holdBack_others:
  "filter (\<lambda>s. release (s_LibraryItemID s) = None) (holdBack nxt release) =
   filter (\<lambda>s. release (s_LibraryItemID s) = None) nxt"
  using hold_steps_inv [OF holdBack_steps hold_inv_start] by (simp add: hold_inv_def)

lemma holdBack_none: "holdBack nxt Map.empty = nxt"
  using holdBack_others [of Map.empty nxt] by simp

interpretation held: arrangement "\<lambda>xs. holdBack xs release" for release
  by unfold_locales simp

text \<open>
  Every unit that has a release starts no earlier, provided the pool has room: of any units still to
  place, one is released by the time everything else has aired.
\<close>

definition on_time :: "(string \<rightharpoonup> int) \<Rightarrow> Slot list \<Rightarrow> bool" where
  "on_time release out \<longleftrightarrow>
     (\<forall>k<length out. \<forall>r. IsProgram (out ! k) \<and> release (s_LibraryItemID (out ! k)) = Some r \<longrightarrow>
        r \<le> programRuntime (take k out))"

lemma on_time_snoc:
  "on_time release (out @ [s]) \<longleftrightarrow> on_time release out \<and>
     (\<forall>r. IsProgram s \<and> release (s_LibraryItemID s) = Some r \<longrightarrow> r \<le> programRuntime out)"
  by (auto simp: on_time_def nth_append less_Suc_eq)

definition has_room :: "(string \<rightharpoonup> int) \<Rightarrow> Slot list \<Rightarrow> bool" where
  "has_room release nxt \<longleftrightarrow>
     (\<forall>waiting. waiting \<noteq> [] \<and> mset waiting \<subseteq># mset nxt \<and>
        (\<forall>s\<in>set waiting. IsProgram s \<and> release (s_LibraryItemID s) \<noteq> None) \<longrightarrow>
        (\<exists>s\<in>set waiting. the (release (s_LibraryItemID s)) \<le> programRuntime nxt - programRuntime waiting))"

lemma hold_step_on_time:
  assumes "hold_step release st st'" and "hold_inv release nxt0 st" and "has_room release nxt0"
    and "on_time release (hs_out st)"
  shows "on_time release (hs_out st')"
  using assms(1)
proof (cases rule: hold_step.cases)
  case (step_release q out nxt queue)
  have inv: "mset out + mset (map h_slot (q # queue)) + mset nxt = mset nxt0"
      "\<forall>k\<in>set queue. h_at q \<le> h_at k"
      "\<forall>k\<in>set (q # queue). IsProgram (h_slot k) \<and> release (s_LibraryItemID (h_slot k)) = Some (h_at k)"
    using assms(2) unfolding step_release hold_inv_def by simp_all
  have "h_at q \<le> programRuntime out"
  proof (cases "nxt = []")
    case True
    have eq: "mset (out @ map h_slot (q # queue)) = mset nxt0" using inv(1) True by simp
    have sub: "mset (map h_slot (q # queue)) \<subseteq># mset nxt0" by (simp flip: eq)
    have "\<exists>s\<in>set (map h_slot (q # queue)). the (release (s_LibraryItemID s)) \<le>
        programRuntime nxt0 - programRuntime (map h_slot (q # queue))"
      using assms(3) [unfolded has_room_def, rule_format, of "map h_slot (q # queue)"] sub inv(3) by fastforce
    then obtain k where k: "k \<in> set (q # queue)"
        "the (release (s_LibraryItemID (h_slot k))) \<le> programRuntime nxt0 - programRuntime (map h_slot (q # queue))"
      by (metis (no_types, lifting) image_iff list.set_map)
    moreover have "the (release (s_LibraryItemID (h_slot k))) = h_at k" using inv(3) k(1) by auto
    moreover have "programRuntime nxt0 = programRuntime out + programRuntime (map h_slot (q # queue))"
      using programRuntime_mset [OF eq] by simp
    ultimately show ?thesis using inv(2) by (auto intro: order_trans)
  next
    case False
    then show ?thesis using step_release(3) by simp
  qed
  then show ?thesis using assms(4) inv(3) by (simp add: step_release on_time_snoc)
next
  case (step_hold out s r nxt queue)
  then show ?thesis using assms(4) by simp
next
  case (step_place out s nxt queue)
  then show ?thesis using assms(4) by (auto simp: on_time_snoc held_until_def split: option.splits if_splits)
qed

lemma holdBack_on_time:
  assumes "has_room release nxt"
  shows "on_time release (holdBack nxt release)"
proof -
  have "hold_inv release nxt st' \<and> on_time release (hs_out st')"
    if "(hold_step release)\<^sup>*\<^sup>* \<lparr>hs_next = nxt, hs_queue = [], hs_out = []\<rparr> st'" for st'
    using that
    by (induction rule: rtranclp_induct)
      (auto simp: hold_inv_start on_time_def [of _ "[]"] intro: hold_step_inv hold_step_on_time assms)
  from this [OF holdBack_steps] show ?thesis by simp
qed

subsection \<open>The guarded window (slotting.go)\<close>

definition rest_release :: "(string \<rightharpoonup> gotime) \<Rightarrow> gotime \<Rightarrow> duration \<Rightarrow> Slot \<Rightarrow> (string \<rightharpoonup> int) \<Rightarrow> (string \<rightharpoonup> int)" where
  "rest_release aired opening spacing s release =
     (case aired (s_LibraryItemID s) of
        Some t \<Rightarrow> if IsProgram s \<and> milliseconds (t + spacing - opening) > 0
                 then release(s_LibraryItemID s \<mapsto> milliseconds (t + spacing - opening)) else release
      | None \<Rightarrow> release)"

definition restIn :: "Slot list \<Rightarrow> (string \<rightharpoonup> gotime) \<Rightarrow> gotime \<Rightarrow> duration \<Rightarrow> Slot list" where
  "restIn window aired opening spacing =
     holdBack window (fold (rest_release aired opening spacing) window Map.empty)"

text \<open>A lookup of a missing key gives the zero time.\<close>

definition aired_at :: "(string \<rightharpoonup> gotime) \<Rightarrow> Slot \<Rightarrow> gotime" where
  "aired_at m s = (case m (s_LibraryItemID s) of None \<Rightarrow> 0 | Some t \<Rightarrow> t)"

definition recorded_positions :: "Slot list \<Rightarrow> (string \<rightharpoonup> gotime) \<Rightarrow> gotime \<Rightarrow> nat list" where
  "recorded_positions tile lastAired since =
     filter (\<lambda>i. IsProgram (tile ! i) \<and>
               (case lastAired (s_LibraryItemID (tile ! i)) of Some t \<Rightarrow> \<not> t < since | None \<Rightarrow> False))
       [0..<length tile]"

definition waiting_units :: "Slot list \<Rightarrow> (string \<rightharpoonup> gotime) \<Rightarrow> string list \<Rightarrow> Slot list" where
  "waiting_units deck lastAired inSlice =
     filter (\<lambda>s. lastAired (s_LibraryItemID s) \<noteq> None \<and> IsProgram s \<and> s_LibraryItemID s \<notin> set inSlice) deck"

fun trade_units :: "(string \<rightharpoonup> gotime) \<Rightarrow> nat list \<Rightarrow> Slot list \<Rightarrow> Slot list \<Rightarrow> Slot list \<Rightarrow> Slot list \<times> Slot list" where
  "trade_units lastAired (r # rs) (w # ws) tile out =
     (if \<not> aired_at lastAired (tile ! r) > aired_at lastAired w then (out, [])
      else let (out', traded) = trade_units lastAired rs ws tile (out[r := w]) in (out', w # traded))"
| "trade_units lastAired _ _ tile out = (out, [])"

definition last_program_id :: "Slot list \<Rightarrow> string \<Rightarrow> string" where
  "last_program_id tile start = foldl (\<lambda>l s. if IsProgram s then s_LibraryItemID s else l) start tile"

definition last_index_of :: "Slot list \<Rightarrow> string \<Rightarrow> nat" where
  "last_index_of deck ident =
     foldl (\<lambda>e i. if IsProgram (deck ! i) \<and> s_LibraryItemID (deck ! i) = ident then i else e) 0 [0..<length deck]"

fun top_up :: "Slot list \<Rightarrow> nat \<Rightarrow> int \<Rightarrow> nat list \<Rightarrow> int \<Rightarrow> string list \<Rightarrow> Slot list \<Rightarrow> Slot list" where
  "top_up deck end' windowMs [] runtime inSlice out = out"
| "top_up deck end' windowMs (n # ns) runtime inSlice out =
     (if \<not> runtime < windowMs then out
      else let s = deck ! ((end' + n) mod length deck)
           in if IsProgram s \<and> s_LibraryItemID s \<notin> set inSlice
              then top_up deck end' windowMs ns (runtime + s_DurationMs s) (s_LibraryItemID s # inSlice) (out @ [s])
              else top_up deck end' windowMs ns runtime inSlice out)"

definition tradeRecent ::
  "Slot list \<Rightarrow> Slot list \<Rightarrow> (string \<rightharpoonup> gotime) \<Rightarrow> (string \<rightharpoonup> gotime) \<Rightarrow> gotime \<Rightarrow> gotime \<Rightarrow> duration \<Rightarrow> duration \<Rightarrow> Slot list"
where
  "tradeRecent deck tile lastAired aired since opening spacing window =
     (let inSlice = map s_LibraryItemID (filter IsProgram tile);
          recorded = recorded_positions tile lastAired since;
          waiting = waiting_units deck lastAired inSlice
      in if recorded = [] \<or> waiting = [] then restIn tile aired opening spacing
         else let recorded' = sort_by (\<lambda>a b. aired_at lastAired (tile ! a) > aired_at lastAired (tile ! b)) recorded;
                  waiting' = sort_by (\<lambda>a b. aired_at lastAired a < aired_at lastAired b) waiting;
                  (out, traded) = trade_units lastAired recorded' waiting' tile tile
              in if traded = [] then restIn tile aired opening spacing
                 else let end' = last_index_of deck (last_program_id tile (s_LibraryItemID (tile ! hd recorded')))
                      in restIn (top_up deck end' (milliseconds window) [1..<length deck] (programRuntime out)
                            (map s_LibraryItemID traded @ inSlice) out) aired opening spacing)"

lemma mset_restIn [simp, preserved]: "mset (restIn window aired opening spacing) = mset window"
  by (simp add: restIn_def)

text \<open>A unit the window rests, rests: nothing airs before its release when the window has room for it.\<close>

lemma restIn_on_time:
  "has_room (fold (rest_release aired opening spacing) window Map.empty) window \<Longrightarrow>
   on_time (fold (rest_release aired opening spacing) window Map.empty) (restIn window aired opening spacing)"
  unfolding restIn_def by (rule holdBack_on_time)

text \<open>A trade or a top-up only brings in units of the deck.\<close>

lemma trade_units_set: "set (fst (trade_units lastAired rs ws tile out)) \<subseteq> set out \<union> set ws"
proof (induction lastAired rs ws tile out rule: trade_units.induct)
  case (1 lastAired r rs w ws tile out)
  then show ?case using set_update_subset_insert [of out r w]
    by (cases "trade_units lastAired rs ws tile (out[r := w])"; cases "aired_at lastAired w < aired_at lastAired (tile ! r)") auto
qed auto

lemma top_up_set: "deck \<noteq> [] \<Longrightarrow> set (top_up deck e w ns rt ids out) \<subseteq> set out \<union> set deck"
proof (induction deck e w ns rt ids out rule: top_up.induct)
  case (2 deck e w n ns rt ids out)
  define s where "s = deck ! ((e + n) mod length deck)"
  have s: "s \<in> set deck" using "2.prems" by (simp add: s_def)
  show ?case
  proof (cases "rt < w \<and> IsProgram s \<and> s_LibraryItemID s \<notin> set ids")
    case True
    then have "top_up deck e w (n # ns) rt ids out =
        top_up deck e w ns (rt + s_DurationMs s) (s_LibraryItemID s # ids) (out @ [s])"
      by (simp add: s_def Let_def)
    moreover have "set (top_up deck e w ns (rt + s_DurationMs s) (s_LibraryItemID s # ids) (out @ [s])) \<subseteq> set (out @ [s]) \<union> set deck"
      using "2.IH"(1) [OF _ s_def] True "2.prems" by simp
    ultimately show ?thesis using s by auto
  next
    case False
    then show ?thesis using "2.IH"(2) [OF _ s_def] "2.prems" by (auto simp: s_def [symmetric] Let_def)
  qed
qed simp

lemma tradeRecent_subset:
  assumes "set tile \<subseteq> set deck"
  shows "set (tradeRecent deck tile lastAired aired since opening spacing window) \<subseteq> set deck"
proof -
  have rest: "set (restIn xs aired opening spacing) = set xs" for xs
    using mset_restIn by (rule mset_eq_setD)
  show ?thesis
  proof (cases "deck = []")
    case True
    then show ?thesis using assms by (simp add: tradeRecent_def recorded_positions_def rest)
  next
    case False
    define recorded where "recorded = recorded_positions tile lastAired since"
    define waiting where "waiting = waiting_units deck lastAired (map s_LibraryItemID (filter IsProgram tile))"
    obtain out traded where tr: "trade_units lastAired
        (sort_by (\<lambda>a b. aired_at lastAired (tile ! a) > aired_at lastAired (tile ! b)) recorded)
        (sort_by (\<lambda>a b. aired_at lastAired a < aired_at lastAired b) waiting) tile tile = (out, traded)"
      by fastforce
    have "set out \<subseteq> set tile \<union> set waiting"
      using trade_units_set [of lastAired "sort_by (\<lambda>a b. aired_at lastAired (tile ! a) > aired_at lastAired (tile ! b)) recorded"
          "sort_by (\<lambda>a b. aired_at lastAired a < aired_at lastAired b) waiting" tile tile] tr by simp
    moreover have "set waiting \<subseteq> set deck" by (auto simp: waiting_def waiting_units_def)
    ultimately have out: "set out \<subseteq> set deck" using assms by blast
    have top: "set (top_up deck e w ns rt ids out) \<subseteq> set deck" for e w ns rt ids
      using top_up_set [OF False, of e w ns rt ids out] out by blast
    show ?thesis
      using assms by (simp add: tradeRecent_def Let_def rest top tr flip: recorded_def waiting_def)
  qed
qed

subsection \<open>Properties\<close>

text \<open>
  Ordering loses nothing and mixes nothing: whatever the policy, the seed and the generator, the
  ordered slots are the given ones, the programmes come first and the placeholders follow in the order
  they were given; and a sequential channel plays its programmes in the given order, started at some
  point of the loop, from the beginning unless the seam violates the separation rules.
\<close>

theorem slotByPolicy_order:
  "mset (slotByPolicy draw slots rp seed) = mset slots \<and>
   (if filter IsProgram slots = [] then slotByPolicy draw slots rp seed = slots
    else \<exists>ordered. slotByPolicy draw slots rp seed = ordered @ filter (\<lambda>s. \<not> IsProgram s) slots \<and>
         mset ordered = mset (filter IsProgram slots) \<and>
         (if AirsInOrder (rp_Ordering rp)
          then (\<exists>off. ordered = rotate_seq (filter IsProgram slots) off) \<and>
               (if seamViolates (filter IsProgram slots) rp then True else ordered = filter IsProgram slots)
          else True))"
proof -
  let ?programs = "filter IsProgram slots"
  have seq: "order_programs draw ?programs rp seed = ?programs" if "AirsInOrder (rp_Ordering rp)"
    using that by (simp add: AirsInOrder_def order_programs_def)
  have heal: "(\<exists>off. healSeam ?programs rp = rotate_seq ?programs off) \<and>
      (seamViolates ?programs rp \<or> healSeam ?programs rp = ?programs)"
  proof
    show "\<exists>off. healSeam ?programs rp = rotate_seq ?programs off"
      using healSeam_rotation [of ?programs rp] by blast
    show "seamViolates ?programs rp \<or> healSeam ?programs rp = ?programs"
      by (simp add: healSeam_def)
  qed
  have ms: "mset (healSeam (order_programs draw ?programs rp seed) rp) = mset ?programs"
    by simp
  have eq: "slotByPolicy draw slots rp seed =
      healSeam (order_programs draw ?programs rp seed) rp @ filter (\<lambda>s. \<not> IsProgram s) slots"
    if "?programs \<noteq> []"
    using that by (simp add: slotByPolicy_def partitionPrograms_def)
  show ?thesis
  proof (cases "?programs = []")
    case True
    then show ?thesis by (simp add: slotByPolicy_def partitionPrograms_def)
  next
    case False
    show ?thesis
      unfolding if_not_P [OF False]
    proof (intro conjI exI [of _ "healSeam (order_programs draw ?programs rp seed) rp"])
      show "if AirsInOrder (rp_Ordering rp)
          then (\<exists>off. healSeam (order_programs draw ?programs rp seed) rp = rotate_seq ?programs off) \<and>
               (if seamViolates ?programs rp then True
                else healSeam (order_programs draw ?programs rp seed) rp = ?programs)
          else True"
        using heal seq by auto
    qed (use ms eq [OF False] in simp_all)
  qed
qed

text \<open>
  Recency floats and does not drop: the reordered deck holds the same slots, every unit with no
  recorded airing stands before every recorded one, the recorded ones are oldest first, and units of
  equal recency keep their order.
\<close>

theorem byRecency_floats:
  "mset (byRecency slots lastAired) = mset slots \<and>
   sorted_wrt (\<lambda>a b. \<not> less_recent lastAired b a) (byRecency slots lastAired) \<and>
   filter (\<lambda>s. lastAired (s_LibraryItemID s) = t) (byRecency slots lastAired) =
     filter (\<lambda>s. lastAired (s_LibraryItemID s) = t) slots"
proof (intro conjI)
  show "mset (byRecency slots lastAired) = mset slots" by simp
  have single: "sorted_wrt (\<lambda>a b. \<not> less_recent lastAired b a) slots" if "length slots \<le> 1"
    using that by (cases slots) auto
  then show "sorted_wrt (\<lambda>a b. \<not> less_recent lastAired b a) (byRecency slots lastAired)"
    using sorted_sort_by [OF weak_order_less_recent] by (simp add: byRecency_def)
  have ins: "filter (\<lambda>s. lastAired (s_LibraryItemID s) = t) (insert_by (less_recent lastAired) x xs) =
      filter (\<lambda>s. lastAired (s_LibraryItemID s) = t) (x # xs)" for x xs
    by (induction xs) (auto simp: less_recent_def split: option.splits)
  have "filter (\<lambda>s. lastAired (s_LibraryItemID s) = t) (sort_by (less_recent lastAired) xs) =
      filter (\<lambda>s. lastAired (s_LibraryItemID s) = t) xs" for xs
    by (induction xs) (simp_all add: ins)
  then show "filter (\<lambda>s. lastAired (s_LibraryItemID s) = t) (byRecency slots lastAired) =
      filter (\<lambda>s. lastAired (s_LibraryItemID s) = t) slots"
    by (simp add: byRecency_def)
qed

end
