(* ===== verification/Relax.thy ===== *)
theory Relax
  imports Slotting
begin

text \<open>
  The relaxation ladder, \<^verbatim>\<open>internal/schedule/relax.go\<close>: when the placed cycle cannot keep the
  separation rules, enforcement steps down a fixed ladder, places again where the step changed
  something placement reads, and records every step.

  The lemmas show that skipping the other placements returns exactly what placing after every step
  would, that the ladder only loosens separation and era (never the audience or the rest of the
  scope), and that it stops satisfied, exhausted or after eight steps.
\<close>

abbreviation minNoRepeatFloor :: duration where "minNoRepeatFloor \<equiv> 24 * hour"
abbreviation eraWidenStep :: int where "eraWidenStep \<equiv> 2"
abbreviation maxLadderSteps :: nat where "maxLadderSteps \<equiv> 8"

subsection \<open>Duration.String\<close>

definition drop_trailing_zeros :: "string \<Rightarrow> string" where
  "drop_trailing_zeros s = rev (dropWhile (\<lambda>c. c = CHR ''0'') (rev s))"

text \<open>\<^verbatim>\<open>fmtFrac\<close>: the last \<open>prec\<close> decimal digits as a fraction, without trailing zeros.\<close>

definition fmtFrac :: "int \<Rightarrow> nat \<Rightarrow> string" where
  "fmtFrac v prec =
     (let ds = nat_digits (nat (v mod 10 ^ prec));
          padded = drop_trailing_zeros (replicate (prec - length ds) (CHR ''0'') @ ds)
      in if v mod 10 ^ prec = 0 then [] else CHR ''.'' # padded)"

definition Duration_String :: "duration \<Rightarrow> string" where
  "Duration_String d =
     (let u = abs d; secs = u div second; mins = secs div 60
      in (if d < 0 then ''-'' else []) @
         (if u < second
          then (if u = 0 then ''0s''
                else if u < 1000 then itoa u @ ''ns''
                else if u < millisecond then itoa (u div 1000) @ fmtFrac u 3 @ [CHR 0xC2, CHR 0xB5, CHR ''s'']
                else itoa (u div millisecond) @ fmtFrac u 6 @ ''ms'')
          else (if mins > 0
                then (if mins div 60 > 0 then itoa (mins div 60) @ ''h'' else []) @ itoa (mins mod 60) @ ''m''
                else []) @ itoa (secs mod 60) @ fmtFrac u 9 @ ''s''))"

lemma Duration_String_examples:
  "Duration_String (84 * hour) = ''84h0m0s''" "Duration_String 0 = ''0s''"
  "Duration_String (90 * second) = ''1m30s''" "Duration_String 1500000000 = ''1.5s''"
  by (simp_all add: Duration_String_def fmtFrac_def itoa_def nat_digits.simps drop_trailing_zeros_def)

subsection \<open>The ladder\<close>

definition halveFloor :: "duration \<Rightarrow> duration" where
  "halveFloor d = (let h = d sdiv 2 in if h < minNoRepeatFloor then minNoRepeatFloor else h)"

definition widenEra :: "Range \<Rightarrow> Range" where
  "widenEra r =
     \<lparr>rg_From = (if rg_From r > 0
                then (let decadeStart = rg_From r sdiv 10 * 10; w = rg_From r - eraWidenStep
                      in if w < decadeStart then decadeStart else w)
                else rg_From r),
      rg_To = (if rg_To r > 0
              then (let decadeEnd = rg_To r sdiv 10 * 10 + 9; w = rg_To r + eraWidenStep
                    in if w > decadeEnd then decadeEnd else w)
              else rg_To r)\<rparr>"

definition range_note :: "Range \<Rightarrow> string" where
  "range_note r = itoa (rg_From r) @ ''-'' @ itoa (rg_To r)"

definition ladderStep :: "ResolvedPolicy \<Rightarrow> (ResolvedPolicy \<times> AppliedRelaxation) option" where
  "ladderStep rp =
     (let sep = rp_Sep rp
      in if rs_EpisodeNoRepeat sep > minNoRepeatFloor
         then Some (rp\<lparr>rp_Sep := sep\<lparr>rs_EpisodeNoRepeat := halveFloor (rs_EpisodeNoRepeat sep),
                                     rs_MovieNoRepeat := halveFloor (rs_MovieNoRepeat sep)\<rparr>\<rparr>,
                    \<lparr>ar_Kind = ''episodeNoRepeat'', ar_From = Duration_String (rs_EpisodeNoRepeat sep),
                     ar_To = Duration_String (halveFloor (rs_EpisodeNoRepeat sep))\<rparr>)
         else if rs_SeriesMinGap sep > 0
         then Some (rp\<lparr>rp_Sep := sep\<lparr>rs_SeriesMinGap := 0\<rparr>\<rparr>,
                    \<lparr>ar_Kind = ''seriesMinGap'', ar_From = Duration_String (rs_SeriesMinGap sep), ar_To = ''0s''\<rparr>)
         else if rs_BlockMax sep > 0
         then Some (rp\<lparr>rp_Sep := sep\<lparr>rs_BlockMax := 0\<rparr>\<rparr>,
                    \<lparr>ar_Kind = ''blockMax'', ar_From = itoa (rs_BlockMax sep), ar_To = ''unbounded''\<rparr>)
         else case Era (sc_Dates (rp_Scope rp)) of
                Some era \<Rightarrow>
                  (if widenEra era \<noteq> era
                   then Some (rp\<lparr>rp_Scope := (rp_Scope rp)\<lparr>sc_Dates := EraDates (widenEra era)\<rparr>\<rparr>,
                              \<lparr>ar_Kind = ''era'', ar_From = range_note era, ar_To = range_note (widenEra era)\<rparr>)
                   else None)
              | None \<Rightarrow> None)"

definition noRepeatUnmet :: "Slot list \<Rightarrow> ResolvedPolicy \<Rightarrow> bool" where
  "noRepeatUnmet programs rp \<longleftrightarrow>
     (let cycleMs = programRuntime programs;
          hasSeries = list_ex (\<lambda>s. IsProgram s \<and> IsSeries (s_Key s)) programs;
          hasMovie = list_ex (\<lambda>s. IsProgram s \<and> \<not> IsSeries (s_Key s)) programs;
          w1 = (if hasSeries \<and> rs_EpisodeNoRepeat (rp_Sep rp) > 0 then rs_EpisodeNoRepeat (rp_Sep rp) else 0);
          window = (if hasMovie \<and> rs_MovieNoRepeat (rp_Sep rp) > w1 then rs_MovieNoRepeat (rp_Sep rp) else w1)
      in if cycleMs = 0 then False else window > 0 \<and> cycleMs * millisecond < window)"

definition separationUnsatisfied :: "Slot list \<Rightarrow> ResolvedPolicy \<Rightarrow> bool" where
  "separationUnsatisfied programs rp \<longleftrightarrow>
     (if checkWrapSeparation programs rp \<noteq> [] then True else noRepeatUnmet programs rp)"

definition placementInputsChanged :: "ResolvedPolicy \<Rightarrow> ResolvedPolicy \<Rightarrow> bool" where
  "placementInputsChanged prev cur \<longleftrightarrow>
     (if rs_BlockMax (rp_Sep prev) \<noteq> rs_BlockMax (rp_Sep cur) \<or>
         rs_SeriesMinGap (rp_Sep prev) \<noteq> rs_SeriesMinGap (rp_Sep cur) then True
      else if rp_Ordering prev \<noteq> rp_Ordering cur then True
      else \<not> datesEqual (sc_Dates (rp_Scope prev)) (sc_Dates (rp_Scope cur)))"

text \<open>The loop of \<^verbatim>\<open>relaxAndSlot\<close>; the number is the steps it may still take.\<close>

primrec relax_loop ::
  "nat \<Rightarrow> random_draw \<Rightarrow> Slot list \<Rightarrow> 64 word \<Rightarrow> ResolvedPolicy \<Rightarrow> Slot list \<Rightarrow> AppliedRelaxation list \<Rightarrow>
   Slot list \<times> AppliedRelaxation list"
where
  "relax_loop 0 draw slots seed cur ordered applied = (ordered, applied)"
| "relax_loop (Suc n) draw slots seed cur ordered applied =
     (case ladderStep cur of
        None \<Rightarrow> (ordered, applied)
      | Some (relaxed, msg) \<Rightarrow>
          let ordered' = (if placementInputsChanged cur relaxed then slotByPolicy draw slots relaxed seed else ordered)
          in if \<not> separationUnsatisfied ordered' relaxed then (ordered', applied @ [msg])
             else relax_loop n draw slots seed relaxed ordered' (applied @ [msg]))"

definition relaxAndSlot :: "random_draw \<Rightarrow> Slot list \<Rightarrow> ResolvedPolicy \<Rightarrow> 64 word \<Rightarrow> Slot list \<times> AppliedRelaxation list" where
  "relaxAndSlot draw slots rp seed =
     (let ordered = slotByPolicy draw slots rp seed
      in if \<not> separationUnsatisfied ordered rp then (ordered, [])
         else relax_loop maxLadderSteps draw slots seed rp ordered [])"

definition slotWithRelaxation :: "random_draw \<Rightarrow> Slot list \<Rightarrow> ResolvedPolicy \<Rightarrow> 64 word \<Rightarrow> Slot list \<times> AppliedRelaxation list" where
  "slotWithRelaxation draw slots rp seed = relaxAndSlot draw slots rp seed"

subsection \<open>What placement reads\<close>

text \<open>Placement reads the two texture rules, the ordering and the history, and nothing else of the policy.\<close>

definition same_texture :: "ResolvedPolicy \<Rightarrow> ResolvedPolicy \<Rightarrow> bool" where
  "same_texture a b \<longleftrightarrow>
     rs_BlockMax (rp_Sep a) = rs_BlockMax (rp_Sep b) \<and> rs_SeriesMinGap (rp_Sep a) = rs_SeriesMinGap (rp_Sep b)"

named_theorems texture \<open>operations that read only the texture rules of a policy\<close>

lemma separationOK_texture [texture]: "same_texture a b \<Longrightarrow> separationOK out c a = separationOK out c b"
  by (simp add: same_texture_def separationOK_def Let_def cong: option.case_cong)

lemma pickNext_texture [texture]: "same_texture a b \<Longrightarrow> pickNext out rest a = pickNext out rest b"
  by (simp add: pickNext_def separationOK_texture cong: prod.case_cong)

lemma greedy_from_texture: "same_texture a b \<Longrightarrow> greedy_from a out rest = greedy_from b out rest"
proof (induction a out rest rule: greedy_from.induct)
  case (1 a out rest)
  then show ?case
    by (simp add: greedy_from.simps [of a out rest] greedy_from.simps [of b out rest] pickNext_texture Let_def)
qed

lemma greedyArrange_texture [texture]: "same_texture a b \<Longrightarrow> greedyArrange xs a = greedyArrange xs b"
  by (simp add: greedyArrange_def greedy_from_texture)

lemma checkWrapSeparation_texture [texture]: "same_texture a b \<Longrightarrow> checkWrapSeparation xs a = checkWrapSeparation xs b"
  by (simp add: checkWrapSeparation_def same_texture_def Let_def)

lemma newCandidateOrder_texture [texture]:
  "same_texture a b \<Longrightarrow> newCandidateOrder out xs used a = newCandidateOrder out xs used b"
  by (simp add: newCandidateOrder_def cand_of_def [abs_def] separationOK_texture)

lemma bt_rec_texture: "same_texture a b \<Longrightarrow> bt_rec k xs a used out budget = bt_rec k xs b used out budget"
  by (induction k arbitrary: used out budget)
    (simp_all add: checkWrapSeparation_texture newCandidateOrder_texture separationOK_texture)

lemma backtrackArrange_texture [texture]: "same_texture a b \<Longrightarrow> backtrackArrange xs a = backtrackArrange xs b"
  by (simp add: backtrackArrange_def bt_rec_texture [of a b])

lemma separationUnsatisfiable_texture [texture]:
  "same_texture a b \<Longrightarrow> separationUnsatisfiable xs a = separationUnsatisfiable xs b"
  by (simp add: separationUnsatisfiable_def same_texture_def Let_def)

lemma separationRepair_texture [texture]: "same_texture a b \<Longrightarrow> separationRepair xs a = separationRepair xs b"
  using backtrackArrange_texture [of a b xs] greedyArrange_texture [of a b xs] separationUnsatisfiable_texture [of a b xs]
  by (simp add: separationRepair_def same_texture_def cong: option.case_cong)

lemma seamViolates_texture [texture]: "same_texture a b \<Longrightarrow> seamViolates xs a = seamViolates xs b"
  by (simp add: seamViolates_def same_texture_def)

lemma healSeam_texture [texture]: "same_texture a b \<Longrightarrow> healSeam xs a = healSeam xs b"
  by (simp add: healSeam_def seamViolates_texture)

lemma slotByPolicy_reads:
  assumes "same_texture a b" and "rp_Ordering a = rp_Ordering b" and "rp_LastAired a = rp_LastAired b"
  shows "slotByPolicy draw slots a seed = slotByPolicy draw slots b seed"
proof -
  have "order_programs draw programs a seed = order_programs draw programs b seed" for programs
    using assms by (simp add: order_programs_def syndicationDeck_def separationRepair_texture [OF assms(1)]
        cong: OrderingMode.case_cong)
  then show ?thesis
    by (cases "partitionPrograms slots") (simp add: slotByPolicy_def healSeam_texture [OF assms(1)])
qed

lemma unchanged_placement:
  assumes "\<not> placementInputsChanged prev cur" and "rp_LastAired prev = rp_LastAired cur"
  shows "slotByPolicy draw slots cur seed = slotByPolicy draw slots prev seed"
  using assms by (intro slotByPolicy_reads)
    (auto simp: placementInputsChanged_def same_texture_def split: if_splits)

subsection \<open>The ladder that places after every step\<close>

primrec reference_loop ::
  "nat \<Rightarrow> random_draw \<Rightarrow> Slot list \<Rightarrow> 64 word \<Rightarrow> ResolvedPolicy \<Rightarrow> AppliedRelaxation list \<Rightarrow>
   Slot list \<times> AppliedRelaxation list \<times> ResolvedPolicy"
where
  "reference_loop 0 draw slots seed cur applied = (slotByPolicy draw slots cur seed, applied, cur)"
| "reference_loop (Suc n) draw slots seed cur applied =
     (if \<not> separationUnsatisfied (slotByPolicy draw slots cur seed) cur
      then (slotByPolicy draw slots cur seed, applied, cur)
      else case ladderStep cur of
             None \<Rightarrow> (slotByPolicy draw slots cur seed, applied, cur)
           | Some (relaxed, msg) \<Rightarrow> reference_loop n draw slots seed relaxed (applied @ [msg]))"

definition reference_ladder ::
  "random_draw \<Rightarrow> Slot list \<Rightarrow> ResolvedPolicy \<Rightarrow> 64 word \<Rightarrow> Slot list \<times> AppliedRelaxation list \<times> ResolvedPolicy"
where
  "reference_ladder draw slots rp seed = reference_loop maxLadderSteps draw slots seed rp []"

lemma ladderStep_keeps_history: "ladderStep cur = Some (relaxed, msg) \<Longrightarrow> rp_LastAired relaxed = rp_LastAired cur"
  by (auto simp: ladderStep_def Let_def split: if_splits option.splits)

lemma reference_loop_done:
  "\<not> separationUnsatisfied (slotByPolicy draw slots cur seed) cur \<Longrightarrow>
   reference_loop n draw slots seed cur applied = (slotByPolicy draw slots cur seed, applied, cur)"
  by (cases n) simp_all

lemma relax_loop_reference:
  assumes "ordered = slotByPolicy draw slots cur seed" and "separationUnsatisfied ordered cur"
  shows "relax_loop n draw slots seed cur ordered applied =
     (case reference_loop n draw slots seed cur applied of (out, msgs, _) \<Rightarrow> (out, msgs))"
  using assms
proof (induction n arbitrary: cur ordered applied)
  case 0
  then show ?case by simp
next
  case (Suc n)
  show ?case
  proof (cases "ladderStep cur")
    case None
    then show ?thesis using Suc.prems by simp
  next
    case (Some r)
    obtain relaxed msg where r: "r = (relaxed, msg)" by (cases r)
    have step: "ladderStep cur = Some (relaxed, msg)" using Some r by simp
    define ordered' where
      "ordered' = (if placementInputsChanged cur relaxed then slotByPolicy draw slots relaxed seed else ordered)"
    have ordered': "ordered' = slotByPolicy draw slots relaxed seed"
      using unchanged_placement [of cur relaxed draw slots seed] ladderStep_keeps_history [OF step] Suc.prems(1)
      by (simp add: ordered'_def)
    have loop: "relax_loop (Suc n) draw slots seed cur ordered applied =
        (if \<not> separationUnsatisfied ordered' relaxed then (ordered', applied @ [msg])
         else relax_loop n draw slots seed relaxed ordered' (applied @ [msg]))"
      by (simp add: step ordered'_def Let_def)
    have ref: "reference_loop (Suc n) draw slots seed cur applied =
        reference_loop n draw slots seed relaxed (applied @ [msg])"
      using Suc.prems by (simp add: step)
    show ?thesis
    proof (cases "separationUnsatisfied ordered' relaxed")
      case True
      then show ?thesis using Suc.IH [OF ordered' True] loop ref by simp
    next
      case False
      then show ?thesis using loop ref ordered' by (simp add: reference_loop_done)
    qed
  qed
qed

subsection \<open>What the ladder may change\<close>

text \<open>
  The series windows only shrink, down to the floor. The film window, halved in the same step
  whatever its size, shrinks too or, when it was set below the floor, is raised to the floor at most;
  while no episode window is being stepped it stays as it is.
\<close>

definition loosened :: "ResolvedPolicy \<Rightarrow> ResolvedPolicy \<Rightarrow> bool" where
  "loosened a b \<longleftrightarrow>
     rs_EpisodeNoRepeat (rp_Sep b) \<le> rs_EpisodeNoRepeat (rp_Sep a) \<and>
     min (rs_EpisodeNoRepeat (rp_Sep a)) minNoRepeatFloor \<le> rs_EpisodeNoRepeat (rp_Sep b) \<and>
     rs_MovieNoRepeat (rp_Sep b) \<le> max (rs_MovieNoRepeat (rp_Sep a)) minNoRepeatFloor \<and>
     (rs_EpisodeNoRepeat (rp_Sep a) \<le> minNoRepeatFloor \<longrightarrow>
        rs_MovieNoRepeat (rp_Sep b) = rs_MovieNoRepeat (rp_Sep a)) \<and>
     rs_SeriesMinGap (rp_Sep b) \<in> {rs_SeriesMinGap (rp_Sep a), 0} \<and>
     rs_BlockMax (rp_Sep b) \<in> {rs_BlockMax (rp_Sep a), 0} \<and>
     rp_Ceiling b = rp_Ceiling a \<and> rp_Unrated b = rp_Unrated a \<and> rp_Ordering b = rp_Ordering a \<and>
     rp_Seasonal b = rp_Seasonal a \<and> rp_LastAired b = rp_LastAired a \<and> rp_Calendar b = rp_Calendar a \<and>
     (rp_Scope b)\<lparr>sc_Dates := None\<rparr> = (rp_Scope a)\<lparr>sc_Dates := None\<rparr> \<and>
     (\<forall>y. (movieDateOK (rp_Scope a) y \<longrightarrow> movieDateOK (rp_Scope b) y) \<and>
          (seriesPremiereDateOK (rp_Scope a) y \<longrightarrow> seriesPremiereDateOK (rp_Scope b) y) \<and>
          (seriesAiringDateOK (rp_Scope a) y \<longrightarrow> seriesAiringDateOK (rp_Scope b) y))"

lemma loosened_refl [simp]: "loosened a a"
  by (simp add: loosened_def)

lemma loosened_trans:
  assumes "loosened a b" and "loosened b c"
  shows "loosened a c"
proof -
  have windows: "rs_EpisodeNoRepeat (rp_Sep b) \<le> rs_EpisodeNoRepeat (rp_Sep a)"
    "min (rs_EpisodeNoRepeat (rp_Sep a)) minNoRepeatFloor \<le> rs_EpisodeNoRepeat (rp_Sep b)"
    "rs_MovieNoRepeat (rp_Sep b) \<le> max (rs_MovieNoRepeat (rp_Sep a)) minNoRepeatFloor"
    "rs_EpisodeNoRepeat (rp_Sep a) \<le> minNoRepeatFloor \<longrightarrow>
       rs_MovieNoRepeat (rp_Sep b) = rs_MovieNoRepeat (rp_Sep a)"
    using assms(1) unfolding loosened_def by - (elim conjE, assumption)+
  have texture: "rs_SeriesMinGap (rp_Sep b) \<in> {rs_SeriesMinGap (rp_Sep a), 0}"
    "rs_BlockMax (rp_Sep b) \<in> {rs_BlockMax (rp_Sep a), 0}"
    using assms(1) unfolding loosened_def by - (elim conjE, assumption)+
  have kept: "rp_Ceiling b = rp_Ceiling a" "rp_Unrated b = rp_Unrated a" "rp_Ordering b = rp_Ordering a"
    "rp_Seasonal b = rp_Seasonal a" "rp_LastAired b = rp_LastAired a" "rp_Calendar b = rp_Calendar a"
    "(rp_Scope b)\<lparr>sc_Dates := None\<rparr> = (rp_Scope a)\<lparr>sc_Dates := None\<rparr>"
    using assms(1) unfolding loosened_def by - (elim conjE, assumption)+
  have era: "(movieDateOK (rp_Scope a) y \<longrightarrow> movieDateOK (rp_Scope b) y) \<and>
     (seriesPremiereDateOK (rp_Scope a) y \<longrightarrow> seriesPremiereDateOK (rp_Scope b) y) \<and>
     (seriesAiringDateOK (rp_Scope a) y \<longrightarrow> seriesAiringDateOK (rp_Scope b) y)" for y
    using assms(1) unfolding loosened_def by - (elim conjE, erule allE, assumption)
  from assms(2) show ?thesis
    unfolding loosened_def [of b c] loosened_def [of a c]
    apply (elim conjE, intro conjI)
    subgoal using windows(1) by linarith
    subgoal using windows(2) by linarith
    subgoal using windows(3) by linarith
    subgoal using windows(1,4) by simp
    subgoal using texture(1) by (auto simp only: insert_iff empty_iff)
    subgoal using texture(2) by (auto simp only: insert_iff empty_iff)
    using kept by (simp_all only:) (use era in blast)
qed

lemma halveFloor_bounds: "minNoRepeatFloor \<le> halveFloor d \<and> halveFloor d \<le> max d minNoRepeatFloor"
proof (cases "0 \<le> d")
  case False
  then have "d sdiv 2 \<le> 0" by (auto simp: signed_divide_int_def sgn_if)
  then show ?thesis using False by (simp add: halveFloor_def Let_def)
qed (auto simp: halveFloor_def Let_def)

lemma widenEra_contains: "Contains r y \<Longrightarrow> Contains (widenEra r) y"
proof -
  have lo: "rg_From r sdiv 10 * 10 \<le> rg_From r" if "0 < rg_From r" using that by simp
  have hi: "rg_To r \<le> rg_To r sdiv 10 * 10 + 9" if "0 < rg_To r" using that by simp
  assume "Contains r y"
  then show ?thesis using lo hi by (auto simp: Contains_def widenEra_def Let_def split: if_splits)
qed

lemma single_list: "length xs = 1 \<Longrightarrow> xs = [xs ! 0]"
  by (cases xs) auto

lemma ladderStep_loosens:
  assumes "ladderStep cur = Some (relaxed, msg)"
  shows "loosened cur relaxed"
proof -
  consider (window) "rs_EpisodeNoRepeat (rp_Sep cur) > minNoRepeatFloor"
      "relaxed = cur\<lparr>rp_Sep := (rp_Sep cur)\<lparr>rs_EpisodeNoRepeat := halveFloor (rs_EpisodeNoRepeat (rp_Sep cur)),
         rs_MovieNoRepeat := halveFloor (rs_MovieNoRepeat (rp_Sep cur))\<rparr>\<rparr>"
    | (gap) "relaxed = cur\<lparr>rp_Sep := (rp_Sep cur)\<lparr>rs_SeriesMinGap := 0\<rparr>\<rparr>"
    | (block) "relaxed = cur\<lparr>rp_Sep := (rp_Sep cur)\<lparr>rs_BlockMax := 0\<rparr>\<rparr>"
    | (era) era where "Era (sc_Dates (rp_Scope cur)) = Some era"
      "relaxed = cur\<lparr>rp_Scope := (rp_Scope cur)\<lparr>sc_Dates := EraDates (widenEra era)\<rparr>\<rparr>"
    using assms(1) by (auto simp: ladderStep_def Let_def split: if_splits option.splits)
  then show ?thesis
  proof cases
    case window
    then show ?thesis
      using halveFloor_bounds [of "rs_EpisodeNoRepeat (rp_Sep cur)"] halveFloor_bounds [of "rs_MovieNoRepeat (rp_Sep cur)"]
      by (simp add: loosened_def max_absorb1)
  next
    case (era era)
    have "sc_Dates (rp_Scope cur) = Some \<lparr>ds_MovieRelease = [era], ds_SeriesPremiere = [era], ds_SeriesAiring = [era]\<rparr>"
      using era(1) single_list by (fastforce simp: Era_def sameRanges_def split: option.splits if_splits intro!: DateScope.equality)
    then show ?thesis
      using era(2) widenEra_contains [of era]
      by (auto simp: loosened_def EraDates_def movieDateOK_def seriesPremiereDateOK_def seriesAiringDateOK_def
          dateContains_def)
  qed (simp_all add: loosened_def)
qed

lemma reference_loop_outcome:
  assumes "reference_loop n draw slots seed cur applied = (out, msgs, final)"
  shows "loosened cur final \<and> out = slotByPolicy draw slots final seed \<and>
     length msgs \<le> length applied + n \<and>
     (separationUnsatisfied out final \<longrightarrow> length msgs = length applied + n \<or> ladderStep final = None)"
  using assms
proof (induction n arbitrary: cur applied)
  case 0
  then show ?case by auto
next
  case (Suc n)
  show ?case
  proof (cases "separationUnsatisfied (slotByPolicy draw slots cur seed) cur \<and> ladderStep cur \<noteq> None")
    case True
    then obtain relaxed msg where step: "ladderStep cur = Some (relaxed, msg)" by auto
    note loose = ladderStep_loosens [OF step]
    from Suc.IH [of relaxed "applied @ [msg]"] Suc.prems True step loose
    show ?thesis by (auto intro: loosened_trans)
  next
    case False
    then have stop: "reference_loop (Suc n) draw slots seed cur applied = (slotByPolicy draw slots cur seed, applied, cur)"
      by (cases "ladderStep cur") auto
    from Suc.prems [unfolded stop]
    have final: "out = slotByPolicy draw slots cur seed" "msgs = applied" "final = cur" by (metis prod.inject)+
    have "separationUnsatisfied out cur \<Longrightarrow> ladderStep cur = None"
      using False final(1) by (cases "ladderStep cur") auto
    then show ?thesis using final by auto
  qed
qed

subsection \<open>Properties\<close>

text \<open>
  Skipping placements is unobservable: the ladder, which places again only after a step that
  changed something placement reads, returns the arrangement and the record of a ladder that places
  after every step.
\<close>

theorem relaxAndSlot_reference:
  "relaxAndSlot draw slots rp seed =
     (case reference_ladder draw slots rp seed of (out, msgs, _) \<Rightarrow> (out, msgs))"
proof (cases "separationUnsatisfied (slotByPolicy draw slots rp seed) rp")
  case True
  then show ?thesis
    by (simp only: relaxAndSlot_def reference_ladder_def relax_loop_reference [OF refl True] Let_def not_True_eq_False
        if_False simp_thms)
next
  case False
  then show ?thesis by (simp add: relaxAndSlot_def reference_ladder_def reference_loop_done Let_def)
qed

lemma relaxAndSlot_via_reference:
  "reference_ladder draw slots rp seed = (out, msgs, final) \<Longrightarrow> relaxAndSlot draw slots rp seed = (out, msgs)"
proof (cases "separationUnsatisfied (slotByPolicy draw slots rp seed) rp")
  case True
  assume "reference_ladder draw slots rp seed = (out, msgs, final)"
  then show ?thesis
    using relax_loop_reference [OF refl True, of maxLadderSteps "[]"] True
    by (simp only: relaxAndSlot_def reference_ladder_def Let_def) simp
next
  case False
  assume "reference_ladder draw slots rp seed = (out, msgs, final)"
  then show ?thesis using False by (auto simp: relaxAndSlot_def reference_ladder_def reference_loop_done Let_def)
qed

text \<open>
  C9. The ladder never relaxes safety or identity: for every policy, what it returns is the placement
  under a policy that differs from the given one only by a shorter episode window (never below the
  24 h floor the ladder stops at), another film window, a lifted series gap or block limit and a wider
  era; the audience, the rest of the scope, the ordering and the season are the same. The film window
  is not longer than it was or than the 24 h floor, whichever is more: one configured below 24 h may be
  raised to it. At most eight steps are recorded, and the ladder gives up on the separation rules only
  when eight steps are taken or no step is left.
\<close>

theorem relaxAndSlot_loosens:
  shows "\<exists>final. loosened rp final \<and>
     fst (relaxAndSlot draw slots rp seed) = slotByPolicy draw slots final seed \<and>
     length (snd (relaxAndSlot draw slots rp seed)) \<le> maxLadderSteps \<and>
     (separationUnsatisfied (fst (relaxAndSlot draw slots rp seed)) final \<longrightarrow>
        length (snd (relaxAndSlot draw slots rp seed)) = maxLadderSteps \<or> ladderStep final = None)"
proof -
  obtain out msgs final where ref: "reference_ladder draw slots rp seed = (out, msgs, final)"
    by (metis prod_cases3)
  from reference_loop_outcome [OF ref [unfolded reference_ladder_def]] relaxAndSlot_via_reference [OF ref]
  show ?thesis by (intro exI [of _ final]) simp
qed

definition short_window_rp :: ResolvedPolicy where
  "short_window_rp = (sample_rp 1)\<lparr>rp_Sep :=
     \<lparr>rs_EpisodeNoRepeat = 168 * hour, rs_MovieNoRepeat = 12 * hour, rs_SeriesMinGap = 2 * hour, rs_BlockMax = 1\<rparr>\<rparr>"

theorem relaxAndSlot_loosens_witness:
  "\<exists>final. loosened short_window_rp final \<and>
     fst (relaxAndSlot (\<lambda>_ _ i. i) sample_pool short_window_rp 7) = slotByPolicy (\<lambda>_ _ i. i) sample_pool final 7"
  using relaxAndSlot_loosens [of short_window_rp "\<lambda>_ _ i. i" sample_pool 7] by blast

text \<open>
  The repeat windows step down together and stop together: a step is taken on them exactly while
  the episode window is above the 24 h floor, it halves both down to the floor, and so it raises a film
  window that was set below the floor and leaves one above the floor where it is once the episode
  window has reached it.
\<close>

theorem ladderStep_windows:
  "case ladderStep rp of
     None \<Rightarrow> rs_EpisodeNoRepeat (rp_Sep rp) \<le> minNoRepeatFloor
   | Some (relaxed, msg) \<Rightarrow>
       (if rs_EpisodeNoRepeat (rp_Sep rp) > minNoRepeatFloor
        then rs_EpisodeNoRepeat (rp_Sep relaxed) = max minNoRepeatFloor (rs_EpisodeNoRepeat (rp_Sep rp) div 2) \<and>
             (if 0 \<le> rs_MovieNoRepeat (rp_Sep rp) \<and> rs_MovieNoRepeat (rp_Sep rp) < minNoRepeatFloor
              then rs_MovieNoRepeat (rp_Sep relaxed) > rs_MovieNoRepeat (rp_Sep rp) else True)
        else rs_EpisodeNoRepeat (rp_Sep relaxed) = rs_EpisodeNoRepeat (rp_Sep rp) \<and>
             rs_MovieNoRepeat (rp_Sep relaxed) = rs_MovieNoRepeat (rp_Sep rp))"
  by (auto simp: ladderStep_def Let_def halveFloor_def max_def split: option.splits)

end
