(* ===== verification/Multipart.thy ===== *)
theory Multipart
  imports Resolve
begin

text \<open>
  Multi-part stories and franchises, \<^verbatim>\<open>internal/schedule/multipart.go\<close>: detecting the parts of a story,
  grouping the films of a collection, and the collapse of a group into one super-slot that ordering
  and windowing cannot split.

  The lemmas show that collapsing and expanding gives the slots back with every group whole and in
  part order, whatever ordering ran in between; that tagging only tags; and that a tagged run is
  consecutive parts of one story.
\<close>

subsection \<open>Franchises\<close>

record franchiseTag =
  ft_group :: string
  ft_index :: int

definition franchise_films :: "LineupEntry list \<Rightarrow> int \<Rightarrow> LineupEntry list" where
  "franchise_films entries cid =
     filter (\<lambda>e. e_CollectionID e > 0 \<and> \<not> IsSeries (e_Key e) \<and> e_CollectionID e = cid) entries"

definition earlier_release :: "LineupEntry \<Rightarrow> LineupEntry \<Rightarrow> bool" where
  "earlier_release a b =
     (if e_Year a \<noteq> e_Year b then e_Year a < e_Year b
      else e_Key a \<noteq> e_Key b \<and> string_less_eq (e_Key a) (e_Key b))"

definition tag_films :: "string \<Rightarrow> LineupEntry list \<Rightarrow> (Key \<rightharpoonup> franchiseTag) \<Rightarrow> (Key \<rightharpoonup> franchiseTag)" where
  "tag_films grp films tags =
     foldl (\<lambda>tags (idx, f). tags(e_Key f \<mapsto> \<lparr>ft_group = grp, ft_index = int idx + 1\<rparr>)) tags
       (zip [0..<length films] films)"

text \<open>
  The Go map of collections is walked in an unspecified order, which only matters when one key is in
  two collections; here it is the order of the entries.
\<close>

definition assignFranchiseGroups :: "LineupEntry list \<Rightarrow> (Key \<rightharpoonup> franchiseTag)" where
  "assignFranchiseGroups entries =
     foldl (\<lambda>tags cid. let films = franchise_films entries cid
                       in if length films < 2 then tags
                          else tag_films (''collection:'' @ itoa cid) (sort_by earlier_release films) tags)
       Map.empty (remdups (map e_CollectionID entries))"

subsection \<open>Part markers\<close>

text \<open>
  The pattern \<^verbatim>\<open>(?i)\s*(?:\((\d+)\)|part\s+(\d+|[ivx]+)|pt\.?\s+(\d+))\s*$\<close>. A match reaches the end of
  the title, so every repetition in it takes the longest run it can, and no alternative starts with
  a space, so the leading \<^verbatim>\<open>\s*\<close> takes every space there is. \<^verbatim>\<open>\s\<close> is RE2's, without the vertical tab.
\<close>

definition re_space :: "char \<Rightarrow> bool" where
  "re_space c \<longleftrightarrow> c \<in> {CHR 0x09, CHR 0x0A, CHR 0x0C, CHR 0x0D, CHR 0x20}"

definition re_roman :: "char \<Rightarrow> bool" where
  "re_roman c \<longleftrightarrow> lower_char c \<in> {CHR ''i'', CHR ''v'', CHR ''x''}"

datatype marker = MarkParen string | MarkPart string | MarkPt string

definition ends_here :: "string \<Rightarrow> bool" where
  "ends_here s \<longleftrightarrow> list_all re_space s"

definition run_then_end :: "(char \<Rightarrow> bool) \<Rightarrow> string \<Rightarrow> string option" where
  "run_then_end P s =
     (if takeWhile P s \<noteq> [] \<and> ends_here (dropWhile P s) then Some (takeWhile P s) else None)"

definition some_space :: "string \<Rightarrow> string option" where
  "some_space s = (if takeWhile re_space s \<noteq> [] then Some (dropWhile re_space s) else None)"

definition match_paren :: "string \<Rightarrow> marker option" where
  "match_paren s =
     (case s of
        c # r \<Rightarrow>
          (case dropWhile is_digit r of
             d # t \<Rightarrow> if c = CHR ''('' \<and> takeWhile is_digit r \<noteq> [] \<and> d = CHR '')'' \<and> ends_here t
                     then Some (MarkParen (takeWhile is_digit r)) else None
           | [] \<Rightarrow> None)
      | [] \<Rightarrow> None)"

definition match_part :: "string \<Rightarrow> marker option" where
  "match_part s =
     (if has_prefix (to_lower s) ''part''
      then (case some_space (drop 4 s) of
              None \<Rightarrow> None
            | Some t \<Rightarrow> (case run_then_end is_digit t of
                           Some ds \<Rightarrow> Some (MarkPart ds)
                         | None \<Rightarrow> map_option MarkPart (run_then_end re_roman t)))
      else None)"

definition match_pt :: "string \<Rightarrow> marker option" where
  "match_pt s =
     (if has_prefix (to_lower s) ''pt''
      then (case some_space (trim_prefix (drop 2 s) ''.'') of
              None \<Rightarrow> None
            | Some t \<Rightarrow> map_option MarkPt (run_then_end is_digit t))
      else None)"

definition match_suffix :: "string \<Rightarrow> marker option" where
  "match_suffix s =
     (let r = dropWhile re_space s
      in case match_paren r of
           Some m \<Rightarrow> Some m
         | None \<Rightarrow> (case match_part r of Some m \<Rightarrow> Some m | None \<Rightarrow> match_pt r))"

text \<open>\<^verbatim>\<open>FindStringSubmatchIndex\<close>: the leftmost place where the pattern matches.\<close>

fun find_suffix :: "nat \<Rightarrow> string \<Rightarrow> (nat \<times> marker) option" where
  "find_suffix i [] = map_option (Pair i) (match_suffix [])"
| "find_suffix i (c # s) =
     (case match_suffix (c # s) of Some m \<Rightarrow> Some (i, m) | None \<Rightarrow> find_suffix (i + 1) s)"

definition wrap_int64 :: "int \<Rightarrow> int" where
  "wrap_int64 n = sint (of_int n :: 64 word)"

definition atoiSafe :: "string \<Rightarrow> int" where
  "atoiSafe s =
     (if list_all is_digit s then foldl (\<lambda>n c. wrap_int64 (n * 10 + int (digit_val c))) 0 s else 0)"

definition romanToInt :: "string \<Rightarrow> int" where
  "romanToInt s =
     (case map_of [(''i'', 1), (''ii'', 2), (''iii'', 3), (''iv'', 4), (''v'', 5), (''vi'', 6)] s of
        Some n \<Rightarrow> n | None \<Rightarrow> 0)"

definition partMarker :: "string \<Rightarrow> (string \<times> int) option" where
  "partMarker title =
     (case find_suffix 0 title of
        None \<Rightarrow> None
      | Some (i, m) \<Rightarrow>
          let n = (case m of
                     MarkParen ds \<Rightarrow> atoiSafe ds
                   | MarkPart t \<Rightarrow> if atoiSafe t > 0 then atoiSafe t else romanToInt (to_lower t)
                   | MarkPt ds \<Rightarrow> atoiSafe ds)
          in if n \<le> 0 then None else Some (trim_space (take i title), n))"

lemma partMarker_examples:
  "partMarker ''All Good Things... (2)'' = Some (''All Good Things...'', 2)"
  "partMarker ''Pilot'' = None"
  by (simp_all add: Let_def partMarker_def match_suffix_def match_paren_def match_part_def match_pt_def some_space_def
      run_then_end_def ends_here_def re_space_def re_roman_def has_prefix_def to_lower_def lower_char_def
      trim_prefix_def is_digit_def byte_of_def atoiSafe_def digit_val_def wrap_int64_def romanToInt_def trim_space_def
      is_space_def)

subsection \<open>Collapsing and expanding groups\<close>

text \<open>\<^verbatim>\<open>sortByPartIndex\<close>: each part moves left past the parts of a larger index.\<close>

definition insert_part :: "Slot list \<Rightarrow> Slot \<Rightarrow> Slot list" where
  "insert_part run p =
     rev (takeWhile (\<lambda>q. s_PartIndex p < s_PartIndex q) (rev run) @ p #
          dropWhile (\<lambda>q. s_PartIndex p < s_PartIndex q) (rev run))"

definition sortByPartIndex :: "Slot list \<Rightarrow> Slot list" where
  "sortByPartIndex run = foldl insert_part [] run"

definition in_group :: "string \<Rightarrow> Slot \<Rightarrow> bool" where
  "in_group g s \<longleftrightarrow> s_PartGroup s = g \<and> g \<noteq> '''' \<and> IsProgram s"

text \<open>The \<open>expand\<close> map: a group is present when it has a member.\<close>

definition group_parts :: "Slot list \<Rightarrow> string \<Rightarrow> Slot list option" where
  "group_parts slots g =
     (if filter (in_group g) slots = [] then None else Some (sortByPartIndex (filter (in_group g) slots)))"

definition super_slot :: "Slot list \<Rightarrow> Slot" where
  "super_slot run = (hd run)\<lparr>s_DurationMs := (\<Sum>p\<leftarrow>run. s_DurationMs p)\<rparr>"

fun collapse_scan :: "(string \<Rightarrow> Slot list option) \<Rightarrow> string list \<Rightarrow> Slot list \<Rightarrow> Slot list" where
  "collapse_scan parts emitted [] = []"
| "collapse_scan parts emitted (s # ss) =
     (if s_PartGroup s = '''' \<or> \<not> IsProgram s then s # collapse_scan parts emitted ss
      else if s_PartGroup s \<in> set emitted then collapse_scan parts emitted ss
      else super_slot (the (parts (s_PartGroup s))) # collapse_scan parts (s_PartGroup s # emitted) ss)"

definition collapseGroups :: "Slot list \<Rightarrow> Slot list \<times> (string \<Rightarrow> Slot list option)" where
  "collapseGroups slots = (collapse_scan (group_parts slots) [] slots, group_parts slots)"

definition expand_slot :: "(string \<Rightarrow> Slot list option) \<Rightarrow> Slot \<Rightarrow> Slot list" where
  "expand_slot parts s =
     (case parts (s_PartGroup s) of
        Some run \<Rightarrow> if s_PartGroup s \<noteq> '''' then run else [s]
      | None \<Rightarrow> [s])"

text \<open>With no groups every slot expands to itself, so the early return needs no case of its own.\<close>

definition expandGroups :: "Slot list \<Rightarrow> (string \<Rightarrow> Slot list option) \<Rightarrow> Slot list" where
  "expandGroups collapsed parts = concat (map (expand_slot parts) collapsed)"

lemma mset_insert_part [simp]: "mset (insert_part run p) = add_mset p (mset run)"
proof -
  have "mset (dropWhile P (rev run)) + mset (takeWhile P (rev run)) = mset run" for P
    by (metis add.commute mset_append mset_rev takeWhile_dropWhile_id)
  then show ?thesis by (simp add: insert_part_def)
qed

lemma mset_sortByPartIndex [simp, preserved]: "mset (sortByPartIndex run) = mset run"
proof -
  have "mset (foldl insert_part acc run) = mset acc + mset run" for acc
    by (induction run arbitrary: acc) simp_all
  then show ?thesis by (simp add: sortByPartIndex_def)
qed

lemma sorted_insert_part:
  assumes "sorted (map s_PartIndex run)"
  shows "sorted (map s_PartIndex (insert_part run p))"
proof -
  have desc: "sorted_wrt (\<lambda>a b. s_PartIndex b \<le> s_PartIndex a) (rev run)"
    using assms by (simp add: sorted_map sorted_wrt_rev)
  have "sorted_wrt (\<lambda>a b. s_PartIndex b \<le> s_PartIndex a)
      (takeWhile (\<lambda>q. s_PartIndex p < s_PartIndex q) r @ p # dropWhile (\<lambda>q. s_PartIndex p < s_PartIndex q) r)"
    if "sorted_wrt (\<lambda>a b. s_PartIndex b \<le> s_PartIndex a) r" for r
    using that by (induction r) (auto dest!: set_takeWhileD set_dropWhileD)
  from this [OF desc] show ?thesis
    by (simp only: insert_part_def sorted_map sorted_wrt_rev)
qed

lemma sorted_sortByPartIndex: "sorted (map s_PartIndex (sortByPartIndex run))"
proof -
  have "sorted (map s_PartIndex acc) \<Longrightarrow> sorted (map s_PartIndex (foldl insert_part acc run))" for acc
    by (induction run arbitrary: acc) (simp_all add: sorted_insert_part)
  then show ?thesis by (simp add: sortByPartIndex_def)
qed

subsection \<open>Collapse then expand\<close>

definition grouped_programs :: "Slot list \<Rightarrow> bool" where
  "grouped_programs slots \<longleftrightarrow> list_all (\<lambda>s. s_PartGroup s = '''' \<or> IsProgram s) slots"

definition groups_of :: "Slot list \<Rightarrow> string set" where
  "groups_of slots = s_PartGroup ` {s \<in> set slots. s_PartGroup s \<noteq> '''' \<and> IsProgram s}"

lemma groups_of_simps [simp]:
  "groups_of [] = {}"
  "groups_of (s # ss) = (if s_PartGroup s \<noteq> '''' \<and> IsProgram s then insert (s_PartGroup s) (groups_of ss) else groups_of ss)"
  by (auto simp: groups_of_def)

lemma finite_groups_of [simp]: "finite (groups_of slots)"
  by (simp add: groups_of_def)

lemma group_parts_members: "g \<in> groups_of slots \<Longrightarrow> \<exists>p ps. group_parts slots g = Some (p # ps) \<and> s_PartGroup p = g \<and> IsProgram p"
proof -
  assume "g \<in> groups_of slots"
  then have ne: "filter (in_group g) slots \<noteq> []"
    by (auto simp: groups_of_def in_group_def filter_empty_conv)
  then have "sortByPartIndex (filter (in_group g) slots) \<noteq> []"
    by (metis mset_sortByPartIndex mset_zero_iff)
  then obtain p ps where p: "sortByPartIndex (filter (in_group g) slots) = p # ps"
    by (cases "sortByPartIndex (filter (in_group g) slots)") auto
  then have "p \<in> set (filter (in_group g) slots)"
    by (metis list.set_intros(1) mset_eq_setD mset_sortByPartIndex)
  then show ?thesis using p ne by (auto simp: group_parts_def in_group_def)
qed

lemma mset_group_parts: "group_parts slots g = Some run \<Longrightarrow> mset run = mset (filter (in_group g) slots)"
  by (auto simp: group_parts_def split: if_splits)

lemma standalone_expands:
  "s_PartGroup s = '''' \<Longrightarrow> expand_slot parts s = [s]"
  by (auto simp: expand_slot_def split: option.split)

lemma super_slot_group [simp]: "s_PartGroup (super_slot run) = s_PartGroup (hd run)"
  "IsProgram (super_slot run) = IsProgram (hd run)" "s_DurationMs (super_slot run) = (\<Sum>p\<leftarrow>run. s_DurationMs p)"
  by (simp_all add: super_slot_def IsProgram_def)

lemma super_slot_expands:
  assumes "g \<in> groups_of slots"
  shows "expand_slot (group_parts slots) (super_slot (the (group_parts slots g))) = the (group_parts slots g)"
proof -
  have "g \<noteq> ''''" using assms by (auto simp: groups_of_def)
  then show ?thesis
    using group_parts_members [OF assms] by (auto simp: expand_slot_def)
qed

lemma collapse_scan_expands:
  assumes "groups_of ss \<subseteq> groups_of slots" and "grouped_programs ss"
  shows "mset (expandGroups (collapse_scan (group_parts slots) emitted ss) (group_parts slots)) =
    mset (filter (\<lambda>s. s_PartGroup s = '''') ss) +
    (\<Sum>g\<in>groups_of ss - set emitted. mset (the (group_parts slots g)))"
  using assms
proof (induction ss arbitrary: emitted)
  case Nil
  then show ?case by (simp add: expandGroups_def)
next
  case (Cons s ss)
  note IH = Cons.IH [unfolded expandGroups_def]
  have prems: "groups_of ss \<subseteq> groups_of slots" "grouped_programs ss"
    using Cons.prems by (auto simp: grouped_programs_def split: if_splits)
  show ?case
  proof (cases "s_PartGroup s = ''''")
    case True
    then show ?thesis using IH [OF prems] by (simp add: expandGroups_def standalone_expands)
  next
    case grp: False
    then have prog: "IsProgram s" using Cons.prems(2) by (simp add: grouped_programs_def)
    then have mem: "s_PartGroup s \<in> groups_of slots" using Cons.prems(1) grp by simp
    show ?thesis
    proof (cases "s_PartGroup s \<in> set emitted")
      case True
      then have "groups_of (s # ss) - set emitted = groups_of ss - set emitted" using grp prog by auto
      then show ?thesis using IH [OF prems] True grp prog by (simp add: expandGroups_def)
    next
      case False
      have "groups_of (s # ss) - set emitted = insert (s_PartGroup s) (groups_of ss - set (s_PartGroup s # emitted))"
        using grp prog False by auto
      then show ?thesis
        using IH [OF prems, of "s_PartGroup s # emitted"] False grp prog super_slot_expands [OF mem]
        by (simp add: expandGroups_def)
    qed
  qed
qed

lemma mset_by_groups:
  assumes "finite G" and "groups_of slots \<subseteq> G" and "grouped_programs slots"
  shows "(\<Sum>g\<in>G. mset (filter (in_group g) slots)) = mset (filter (\<lambda>s. s_PartGroup s \<noteq> '''') slots)"
  using assms(2,3)
proof (induction slots)
  case (Cons s ss)
  have step: "(\<Sum>g\<in>G. mset (filter (in_group g) (s # ss))) =
      (\<Sum>g\<in>G. if g = s_PartGroup s \<and> g \<noteq> '''' then {#s#} else {#}) + (\<Sum>g\<in>G. mset (filter (in_group g) ss))"
    using Cons.prems(2) by (auto simp: in_group_def grouped_programs_def simp flip: sum.distrib intro!: sum.cong)
  show ?case
  proof (cases "s_PartGroup s = ''''")
    case True
    then show ?thesis using step Cons by (simp add: grouped_programs_def cong: if_cong)
  next
    case False
    then have "s_PartGroup s \<in> G" using Cons.prems by (auto simp: grouped_programs_def split: if_splits)
    then have "(\<Sum>g\<in>G. if g = s_PartGroup s \<and> g \<noteq> '''' then {#s#} else {#}) = {#s#}"
      using False assms(1) by (simp add: sum.delta' cong: conj_cong if_cong)
    then show ?thesis using step Cons False by (auto simp: grouped_programs_def split: if_splits)
  qed
qed simp

lemma expandGroups_perm: "mset xs = mset ys \<Longrightarrow> mset (expandGroups xs parts) = mset (expandGroups ys parts)"
proof -
  have "mset (expandGroups zs parts) = sum_mset (image_mset (\<lambda>s. mset (expand_slot parts s)) (mset zs))" for zs
    by (induction zs) (simp_all add: expandGroups_def)
  then show "mset xs = mset ys \<Longrightarrow> mset (expandGroups xs parts) = mset (expandGroups ys parts)" by simp
qed

lemma expand_collapse:
  assumes "grouped_programs slots"
  shows "mset (expandGroups (fst (collapseGroups slots)) (snd (collapseGroups slots))) = mset slots"
proof -
  have "(\<Sum>g\<in>groups_of slots. mset (the (group_parts slots g))) = (\<Sum>g\<in>groups_of slots. mset (filter (in_group g) slots))"
    by (rule sum.cong) (use group_parts_members mset_group_parts in fastforce)+
  then have "mset (expandGroups (fst (collapseGroups slots)) (snd (collapseGroups slots))) =
      mset (filter (\<lambda>s. s_PartGroup s = '''') slots) + mset (filter (\<lambda>s. s_PartGroup s \<noteq> '''') slots)"
    using collapse_scan_expands [of slots slots "[]"] mset_by_groups [of "groups_of slots" slots] assms
    by (simp add: collapseGroups_def)
  then show ?thesis by (metis mset_filter multiset_partition)
qed

text \<open>The super-slots of a collapsed deck are of different groups.\<close>

lemma collapse_scan_distinct:
  assumes "groups_of ss \<subseteq> groups_of slots"
  shows "distinct (map s_PartGroup (filter (\<lambda>s. s_PartGroup s \<noteq> '''' \<and> IsProgram s)
           (collapse_scan (group_parts slots) emitted ss))) \<and>
         (\<forall>x\<in>set (collapse_scan (group_parts slots) emitted ss). s_PartGroup x \<noteq> '''' \<and> IsProgram x \<longrightarrow>
            s_PartGroup x \<in> groups_of ss \<and> s_PartGroup x \<notin> set emitted)"
  using assms
proof (induction ss arbitrary: emitted)
  case (Cons s ss)
  show ?case
  proof (cases "s_PartGroup s = '''' \<or> \<not> IsProgram s")
    case True
    then show ?thesis using Cons.IH [of emitted] Cons.prems by auto
  next
    case grp: False
    then have mem: "s_PartGroup s \<in> groups_of slots" using Cons.prems by auto
    have prems: "groups_of ss \<subseteq> groups_of slots" using Cons.prems by (auto split: if_splits)
    obtain p ps where p: "group_parts slots (s_PartGroup s) = Some (p # ps)" "s_PartGroup p = s_PartGroup s" "IsProgram p"
      using group_parts_members [OF mem] by blast
    show ?thesis
      using grp Cons.IH [OF prems, of emitted] Cons.IH [OF prems, of "s_PartGroup s # emitted"] p
      by auto
  qed
qed simp

lemma parts_of_group:
  "group_parts slots g = Some run \<Longrightarrow> s \<in> set run \<Longrightarrow> in_group g s"
  using mset_eq_setD [OF mset_group_parts] by fastforce

text \<open>What of group \<open>g\<close> an expanded slot holds: all of it, or nothing.\<close>

lemma expand_slot_group:
  assumes "s_PartGroup s = '''' \<or> IsProgram s"
  shows "filter (in_group g) (expand_slot (group_parts slots) s) =
    (if in_group g s then (case group_parts slots g of Some run \<Rightarrow> run | None \<Rightarrow> [s]) else [])"
proof (cases "group_parts slots (s_PartGroup s)")
  case None
  then show ?thesis by (auto simp: expand_slot_def in_group_def)
next
  case (Some run)
  have "in_group (s_PartGroup s) t" if "t \<in> set run" for t
    using parts_of_group [OF Some that] .
  then have "filter (in_group (s_PartGroup s)) run = run" "g \<noteq> s_PartGroup s \<Longrightarrow> filter (in_group g) run = []"
    by (auto simp: filter_id_conv filter_empty_conv in_group_def)
  then show ?thesis using Some assms by (auto simp: expand_slot_def in_group_def)
qed

lemma expand_once:
  assumes "grouped_programs ordered" and "distinct (map s_PartGroup (filter (\<lambda>s. s_PartGroup s \<noteq> '''' \<and> IsProgram s) ordered))"
    and "group_parts slots g = Some run" and "s \<in> set ordered" and "in_group g s"
  shows "\<exists>pre post. expandGroups ordered (group_parts slots) = pre @ run @ post \<and> filter (in_group g) (pre @ post) = []"
proof -
  obtain xs ys where split: "ordered = xs @ s # ys" using assms(4) by (meson split_list)
  have "\<not> in_group g t" if "t \<in> set (xs @ ys)" for t
    using assms(2,5) that by (auto simp: split in_group_def image_iff)
  moreover have "s_PartGroup t = '''' \<or> IsProgram t" if "t \<in> set (xs @ ys)" for t
    using assms(1) that by (auto simp: split grouped_programs_def list_all_iff)
  ultimately have "filter (in_group g) (expand_slot (group_parts slots) t) = []" if "t \<in> set (xs @ ys)" for t
    using expand_slot_group [of t g slots] that by simp
  then have none: "filter (in_group g) (expandGroups xs (group_parts slots) @ expandGroups ys (group_parts slots)) = []"
    by (auto simp: expandGroups_def filter_empty_conv)
  have "expand_slot (group_parts slots) s = run"
    using assms(3,5) by (auto simp: expand_slot_def in_group_def)
  then have "expandGroups ordered (group_parts slots) =
      expandGroups xs (group_parts slots) @ run @ expandGroups ys (group_parts slots)"
    by (simp add: split expandGroups_def)
  then show ?thesis using none by blast
qed

subsection \<open>Tagging the parts of a story\<close>

definition span_tag :: "string \<Rightarrow> ResolvedProgram \<Rightarrow> ResolvedProgram" where
  "span_tag seriesKey p =
     (if p_EpisodeEnd p > p_Episode p \<and> p_Episode p > 0
      then p\<lparr>p_PartGroup := seriesKey @ ''|s'' @ itoa (p_Season p) @ ''|span'' @ itoa (p_Episode p) @ ''-'' @ itoa (p_EpisodeEnd p),
             p_PartIndex := 1\<rparr>
      else p)"

text \<open>How many of the following episodes carry the story on from episode \<open>lastEp\<close>, part \<open>lastPart\<close>.\<close>

fun run_length :: "string \<Rightarrow> int \<Rightarrow> int \<Rightarrow> int \<Rightarrow> ResolvedProgram list \<Rightarrow> nat" where
  "run_length base season lastEp lastPart [] = 0"
| "run_length base season lastEp lastPart (p # ps) =
     (case partMarker (p_Title p) of
        None \<Rightarrow> 0
      | Some (b2, p2) \<Rightarrow>
          if b2 \<noteq> base \<or> p_Season p \<noteq> season \<or> p_Episode p \<noteq> lastEp + 1 \<or> p2 \<noteq> lastPart + 1 then 0
          else Suc (run_length base season (p_Episode p) p2 ps))"

definition tag_run :: "string \<Rightarrow> ResolvedProgram list \<Rightarrow> ResolvedProgram list" where
  "tag_run grp run = map (\<lambda>(idx, p). p\<lparr>p_PartGroup := grp, p_PartIndex := int idx + 1\<rparr>) (zip [0..<length run] run)"

function tag_stories :: "string \<Rightarrow> ResolvedProgram list \<Rightarrow> ResolvedProgram list" where
  "tag_stories seriesKey [] = []"
| "tag_stories seriesKey (p # ps) =
     (case partMarker (p_Title p) of
        None \<Rightarrow> p # tag_stories seriesKey ps
      | Some (base, part) \<Rightarrow>
          if p_PartGroup p \<noteq> '''' then p # tag_stories seriesKey ps
          else let n = run_length base (p_Season p) (p_Episode p) part ps
               in if n \<ge> 1
                  then tag_run (seriesKey @ ''|s'' @ itoa (p_Season p) @ ''|'' @ to_lower base) (p # take n ps) @
                       tag_stories seriesKey (drop n ps)
                  else p # tag_stories seriesKey ps)"
  by pat_completeness auto

termination tag_stories
  by (relation "measure (\<lambda>(k, ps). length ps)") auto

definition assignPartGroups :: "string \<Rightarrow> ResolvedProgram list \<Rightarrow> ResolvedProgram list" where
  "assignPartGroups seriesKey progs = tag_stories seriesKey (map (span_tag seriesKey) progs)"

lemma map_zip_erase:
  "(\<And>i p. f (h i p) = f p) \<Longrightarrow> map f (map (\<lambda>(i, p). h i p) (zip [0..<length run] run)) = map f run"
  by (rule nth_equalityI) auto

definition untagged :: "ResolvedProgram \<Rightarrow> ResolvedProgram" where
  "untagged p = p\<lparr>p_PartGroup := '''', p_PartIndex := 0\<rparr>"

lemma untagged_span [simp]: "untagged (span_tag k p) = untagged p"
  by (simp add: span_tag_def untagged_def)

lemma untagged_tag_run [simp]: "map untagged (tag_run grp run) = map untagged run"
  unfolding tag_run_def by (rule map_zip_erase) (simp add: untagged_def)

text \<open>A run is consecutive: the episodes and the part numbers go up by one.\<close>

definition consecutive_parts :: "ResolvedProgram list \<Rightarrow> bool" where
  "consecutive_parts run \<longleftrightarrow>
     (\<exists>base first. \<forall>i<length run. partMarker (p_Title (run ! i)) = Some (base, first + int i) \<and>
        p_Season (run ! i) = p_Season (run ! 0) \<and> p_Episode (run ! i) = p_Episode (run ! 0) + int i)"

lemma run_length_consecutive:
  "i < run_length base season lastEp lastPart ps \<Longrightarrow>
     i < length ps \<and> partMarker (p_Title (ps ! i)) = Some (base, lastPart + 1 + int i) \<and> p_Season (ps ! i) = season \<and>
     p_Episode (ps ! i) = lastEp + 1 + int i"
proof (induction base season lastEp lastPart ps arbitrary: i rule: run_length.induct)
  case (2 base season lastEp lastPart p ps)
  then show ?case
    by (cases i) (auto split: option.splits prod.splits if_splits)
qed simp

lemma run_length_le: "run_length base season lastEp lastPart ps \<le> length ps"
  using run_length_consecutive [of "length ps" base season lastEp lastPart ps] not_le by blast

lemma run_is_consecutive:
  assumes "partMarker (p_Title p) = Some (base, part)"
  shows "consecutive_parts (p # take (run_length base (p_Season p) (p_Episode p) part ps) ps)"
  unfolding consecutive_parts_def
proof (intro exI [of _ base] exI [of _ part] allI impI)
  fix i
  assume i: "i < length (p # take (run_length base (p_Season p) (p_Episode p) part ps) ps)"
  show "partMarker (p_Title ((p # take (run_length base (p_Season p) (p_Episode p) part ps) ps) ! i)) = Some (base, part + int i) \<and>
      p_Season ((p # take (run_length base (p_Season p) (p_Episode p) part ps) ps) ! i) =
        p_Season ((p # take (run_length base (p_Season p) (p_Episode p) part ps) ps) ! 0) \<and>
      p_Episode ((p # take (run_length base (p_Season p) (p_Episode p) part ps) ps) ! i) =
        p_Episode ((p # take (run_length base (p_Season p) (p_Episode p) part ps) ps) ! 0) + int i"
  proof (cases i)
    case 0
    then show ?thesis using assms by simp
  next
    case (Suc j)
    then have "j < run_length base (p_Season p) (p_Episode p) part ps" using i by simp
    from run_length_consecutive [OF this] this Suc show ?thesis by simp
  qed
qed

text \<open>
  How a series is cut by tagging: single episodes, tagged by a span of their own or not at all, and
  stories, whose parts are numbered from one.
\<close>

inductive tagged_as :: "string \<Rightarrow> ResolvedProgram list \<Rightarrow> ResolvedProgram list \<Rightarrow> bool" for k where
  tagged_none: "tagged_as k [] []"
| tagged_single: "tagged_as k ps qs \<Longrightarrow> tagged_as k (p # ps) (span_tag k p # qs)"
| tagged_story: "tagged_as k ps qs \<Longrightarrow> length run \<ge> 2 \<Longrightarrow> consecutive_parts run \<Longrightarrow>
     tagged_as k (run @ ps) (tag_run grp run @ qs)"

inductive_simps tagged_as_Nil [simp]: "tagged_as k [] qs"

lemma span_tag_same [simp]:
  "p_Title (span_tag k p) = p_Title p" "p_Season (span_tag k p) = p_Season p" "p_Episode (span_tag k p) = p_Episode p"
  by (simp_all add: span_tag_def)

lemma tag_run_span: "tag_run grp (map (span_tag k) run) = tag_run grp run"
  by (auto simp: tag_run_def span_tag_def intro!: nth_equalityI)

lemma run_length_span: "run_length base season e part (map (span_tag k) ps) = run_length base season e part ps"
  by (induction base season e part ps rule: run_length.induct) (auto split: option.splits)

lemma tag_stories_tagged: "tagged_as k ps (tag_stories k (map (span_tag k) ps))"
proof (induction "length ps" arbitrary: ps rule: less_induct)
  case less
  show ?case
  proof (cases ps)
    case Nil
    then show ?thesis by (simp add: tagged_none)
  next
    case (Cons p rest)
    note single = tagged_single [OF less [of rest], of p]
    show ?thesis
    proof (cases "partMarker (p_Title p)")
      case None
      then show ?thesis using single Cons by simp
    next
      case (Some m)
      obtain base part where m: "m = (base, part)" by (cases m)
      define n where "n = run_length base (p_Season p) (p_Episode p) part rest"
      show ?thesis
      proof (cases "p_PartGroup (span_tag k p) \<noteq> '''' \<or> n = 0")
        case True
        then show ?thesis using single Cons Some m by (auto simp: run_length_span n_def Let_def)
      next
        case False
        define grp where "grp = k @ ''|s'' @ itoa (p_Season p) @ ''|'' @ to_lower base"
        have n: "1 \<le> n" "n \<le> length rest" using False run_length_le by (auto simp: n_def)
        have out: "tag_stories k (map (span_tag k) ps) =
            tag_run grp (map (span_tag k) (p # take n rest)) @ tag_stories k (map (span_tag k) (drop n rest))"
          using False Cons Some m n by (simp add: run_length_span n_def Let_def grp_def take_map drop_map)
        have "tagged_as k (drop n rest) (tag_stories k (map (span_tag k) (drop n rest)))"
          by (rule less) (simp add: Cons)
        from tagged_story [OF this, of "p # take n rest" grp] n run_is_consecutive [of p base part rest] Some m
        show ?thesis unfolding out tag_run_span by (simp add: Cons n_def)
      qed
    qed
  qed
qed

lemma tagged_as_untagged: "tagged_as k ps qs \<Longrightarrow> map untagged qs = map untagged ps"
  by (induction rule: tagged_as.induct) (simp_all add: untagged_span)

lemma collapse_scan_slots:
  assumes "groups_of ss \<subseteq> groups_of slots" and "s \<in> set (collapse_scan (group_parts slots) emitted ss)"
  shows "s_PartGroup s = '''' \<or> \<not> IsProgram s \<or> (\<exists>g\<in>groups_of slots. s = super_slot (the (group_parts slots g)))"
  using assms by (induction ss arbitrary: emitted) (auto split: if_splits)

lemma expand_runtime:
  assumes "s_PartGroup s = '''' \<or> (\<exists>g\<in>groups_of slots. s = super_slot (the (group_parts slots g)))"
  shows "programRuntime (expand_slot (group_parts slots) s) = programRuntime [s]"
  using assms
proof
  assume "s_PartGroup s = ''''"
  then show ?thesis by (simp add: standalone_expands)
next
  assume "\<exists>g\<in>groups_of slots. s = super_slot (the (group_parts slots g))"
  then obtain g where g: "g \<in> groups_of slots" "s = super_slot (the (group_parts slots g))" by blast
  obtain p ps where p: "group_parts slots g = Some (p # ps)" "IsProgram p"
    using group_parts_members [OF g(1)] by blast
  have "IsProgram t" if "t \<in> set (p # ps)" for t
    using parts_of_group [OF p(1) that] by (simp add: in_group_def)
  then have "filter IsProgram (p # ps) = p # ps" by (simp add: filter_id_conv)
  then have "programRuntime (p # ps) = (\<Sum>q\<leftarrow>p # ps. s_DurationMs q)" by (simp only: programRuntime_sum)
  moreover have "expand_slot (group_parts slots) s = p # ps"
    using super_slot_expands [OF g(1)] g(2) p(1) by simp
  ultimately show ?thesis using g(2) p by simp
qed

subsection \<open>Properties\<close>

text \<open>
  C26. Grouping is lossless and atomic. Collapsing keeps the programme runtime; expanding any order of
  the collapsed deck airs exactly the given slots; and expanding any selection from it airs every
  group it has whole, as one block, with its parts in order.
\<close>

theorem groups_atomic:
  assumes "grouped_programs slots"
    and "mset ordered = mset (fst (collapseGroups slots))"
  shows "programRuntime ordered = programRuntime slots \<and>
    mset (expandGroups ordered (snd (collapseGroups slots))) = mset slots \<and>
    (\<forall>g run. snd (collapseGroups slots) g = Some run \<longrightarrow>
       sorted (map s_PartIndex run) \<and>
       (\<exists>pre post. expandGroups ordered (snd (collapseGroups slots)) = pre @ run @ post \<and>
          filter (in_group g) (pre @ post) = []))"
proof (intro conjI allI impI)
  have ordered: "grouped_programs ordered"
  proof -
    have "grouped_programs (collapse_scan (group_parts slots) emitted ss)"
      if "groups_of ss \<subseteq> groups_of slots" "grouped_programs ss" for emitted ss
      using that
    proof (induction ss arbitrary: emitted)
      case (Cons s ss)
      then show ?case using group_parts_members [of "s_PartGroup s" slots]
        by (auto simp: grouped_programs_def split: if_splits)
    qed (simp add: grouped_programs_def)
    from this [of slots "[]"] show ?thesis
      using assms mset_eq_setD [OF assms(2)] by (simp add: collapseGroups_def grouped_programs_def list_all_iff)
  qed
  have perm: "mset (expandGroups ordered (snd (collapseGroups slots))) = mset slots"
    using expandGroups_perm [OF assms(2)] expand_collapse [OF assms(1)] by simp
  then show "mset (expandGroups ordered (snd (collapseGroups slots))) = mset slots" .
  have "programRuntime (expand_slot (group_parts slots) s) = programRuntime [s]" if "s \<in> set ordered" for s
  proof (rule expand_runtime)
    have "s \<in> set (collapse_scan (group_parts slots) [] slots)"
      using that mset_eq_setD [OF assms(2)] by (simp add: collapseGroups_def)
    then show "s_PartGroup s = '''' \<or> (\<exists>g\<in>groups_of slots. s = super_slot (the (group_parts slots g)))"
      using collapse_scan_slots [of slots slots s "[]"] ordered that by (auto simp: grouped_programs_def list_all_iff)
  qed
  then have "programRuntime (expandGroups xs (group_parts slots)) = programRuntime xs" if "set xs \<subseteq> set ordered" for xs
    using that by (induction xs) (simp_all add: expandGroups_def)
  then show "programRuntime ordered = programRuntime slots"
    using programRuntime_mset [OF perm] by (simp add: collapseGroups_def)
  fix g run
  assume run: "snd (collapseGroups slots) g = Some run"
  then have parts: "group_parts slots g = Some run" by (simp add: collapseGroups_def)
  then show "sorted (map s_PartIndex run)"
    by (auto simp: group_parts_def sorted_sortByPartIndex split: if_splits)
  have dist: "distinct (map s_PartGroup (filter (\<lambda>s. s_PartGroup s \<noteq> '''' \<and> IsProgram s) ordered))"
  proof -
    have "mset (map s_PartGroup (filter (\<lambda>s. s_PartGroup s \<noteq> '''' \<and> IsProgram s) ordered)) =
        mset (map s_PartGroup (filter (\<lambda>s. s_PartGroup s \<noteq> '''' \<and> IsProgram s) (fst (collapseGroups slots))))"
      using assms(2) by simp
    moreover have "distinct (map s_PartGroup (filter (\<lambda>s. s_PartGroup s \<noteq> '''' \<and> IsProgram s) (fst (collapseGroups slots))))"
      using collapse_scan_distinct [of slots slots "[]"] by (simp add: collapseGroups_def)
    ultimately show ?thesis by (blast dest: mset_eq_imp_distinct_iff)
  qed
  have "\<exists>s\<in>set ordered. in_group g s"
  proof (rule ccontr)
    assume none: "\<not> (\<exists>s\<in>set ordered. in_group g s)"
    have "filter (in_group g) (expand_slot (group_parts slots) s) = []" if "s \<in> set ordered" for s
      using expand_slot_group [of s g slots] none that ordered by (auto simp: grouped_programs_def list_all_iff)
    then have "filter (in_group g) (expandGroups ordered (group_parts slots)) = []"
      by (auto simp: expandGroups_def filter_empty_conv)
    then have "filter (in_group g) slots = []"
      using perm by (metis collapseGroups_def mset_filter mset_zero_iff snd_conv)
    then show False using parts by (simp add: group_parts_def)
  qed
  then obtain s where "s \<in> set ordered" "in_group g s" by blast
  from expand_once [OF ordered dist parts this]
  show "\<exists>pre post. expandGroups ordered (snd (collapseGroups slots)) = pre @ run @ post \<and> filter (in_group g) (pre @ post) = []"
    by (simp add: collapseGroups_def)
qed

text \<open>
  Tagging only tags, and tags stories: the episodes come back in order with nothing but their
  group and part number changed, cut into single episodes (tagged at most by the span of their own
  file) and runs of at least two consecutive episodes of one season whose titles count the parts of
  one story, numbered from one.
\<close>

theorem assignPartGroups_stories:
  "map untagged (assignPartGroups k progs) = map untagged progs \<and>
   tagged_as k progs (assignPartGroups k progs)"
  using tag_stories_tagged [of k progs] tagged_as_untagged [OF tag_stories_tagged [of k progs]]
  by (simp add: assignPartGroups_def)

definition sample_part :: "string \<Rightarrow> int \<Rightarrow> Slot" where
  "sample_part item idx = empty_slot\<lparr>s_Kind := SlotProgram, s_LibraryItemID := item, s_DurationMs := 60,
     s_PartGroup := ''g'', s_PartIndex := idx\<rparr>"

definition sample_single :: Slot where
  "sample_single = empty_slot\<lparr>s_Kind := SlotProgram, s_LibraryItemID := ''film'', s_DurationMs := 90\<rparr>"

theorem groups_atomic_witness:
  "let slots = [sample_part ''two'' 2, sample_single, sample_part ''one'' 1];
       (collapsed, parts) = collapseGroups slots
   in mset (expandGroups (rev collapsed) parts) = mset slots \<and>
      expandGroups (rev collapsed) parts = [sample_single, sample_part ''one'' 1, sample_part ''two'' 2]"
proof -
  let ?slots = "[sample_part ''two'' 2, sample_single, sample_part ''one'' 1]"
  have "grouped_programs ?slots"
    by (simp add: grouped_programs_def sample_part_def sample_single_def IsProgram_def)
  from groups_atomic [OF this, of "rev (fst (collapseGroups ?slots))"]
  have "mset (expandGroups (rev (fst (collapseGroups ?slots))) (snd (collapseGroups ?slots))) = mset ?slots" by simp
  moreover have "expandGroups (rev (fst (collapseGroups ?slots))) (snd (collapseGroups ?slots)) =
      [sample_single, sample_part ''one'' 1, sample_part ''two'' 2]"
    by code_simp
  ultimately show ?thesis by (simp add: case_prod_beta Let_def)
qed

end
