(* ===== verification/Windows.thy ===== *)
theory Windows
  imports Civil
begin

text \<open>
  The grid of rolling windows (\<^verbatim>\<open>windowIndex\<close> to \<^verbatim>\<open>NextWindowStart\<close> of \<^verbatim>\<open>internal/schedule/lineup.go\<close> and
  \<^verbatim>\<open>WindowIndex\<close> of \<^verbatim>\<open>clocksig.go\<close>): windows of a fixed length laid on the wall clock of a zone.

  The lemmas show that the index is the floor of the wall clock by the window, on both sides of the
  epoch, and that the windows tile time, an instant being in exactly the window its start and end
  name, on a zone of a fixed offset and wherever the clock changes leave an opening clean: the local
  times before it are the instants before it. A zone whose clocks go forward in the night but not over
  midnight is an example, with a day of 23 hours; one that skips midnight is the counterexample.
\<close>

text \<open>\<^verbatim>\<open>t.Unix()\<close> counts whole seconds from the epoch, rounding down.\<close>

definition time_Unix :: "gotime \<Rightarrow> int" where
  "time_Unix t = t div second - unix_origin"

definition wallSeconds :: "gotime \<Rightarrow> zone option \<Rightarrow> int" where
  "wallSeconds t z = (case z of None \<Rightarrow> time_Unix t | Some off \<Rightarrow> time_Unix t + off t)"

definition windowIndex :: "gotime \<Rightarrow> duration \<Rightarrow> zone option \<Rightarrow> int" where
  "windowIndex now window z =
     (let sec = window sdiv second
      in if sec \<le> 0 \<or> is_zero_time now then 0
         else let wall = wallSeconds now z; idx = wall sdiv sec
              in if wall smod sec < 0 then idx - 1 else idx)"

definition WindowIndex :: "gotime \<Rightarrow> duration \<Rightarrow> zone option \<Rightarrow> int" where
  "WindowIndex = windowIndex"

definition windowOpening :: "int \<Rightarrow> duration \<Rightarrow> zone option \<Rightarrow> gotime" where
  "windowOpening idx window z =
     (let civil = (idx * (window sdiv second) + unix_origin) * second
      in case z of None \<Rightarrow> civil | Some _ \<Rightarrow> zone_instant z civil)"

definition WindowStart :: "gotime \<Rightarrow> duration \<Rightarrow> zone option \<Rightarrow> gotime" where
  "WindowStart t window z =
     (if window \<le> 0 \<or> is_zero_time t then 0 else windowOpening (windowIndex t window z) window z)"

definition NextWindowStart :: "gotime \<Rightarrow> duration \<Rightarrow> zone option \<Rightarrow> gotime" where
  "NextWindowStart t window z =
     (if window \<le> 0 \<or> is_zero_time t then 0 else windowOpening (windowIndex t window z + 1) window z)"

lemma floor_by_truncation:
  assumes "0 < (b::int)"
  shows "(if a smod b < 0 then a sdiv b - 1 else a sdiv b) = a div b"
proof (cases "0 \<le> a")
  case True
  then show ?thesis using assms by (simp add: not_less)
next
  case False
  have q: "a sdiv b = - (- a div b)" using False assms
    by (simp add: signed_divide_int_def sgn_if)
  have r: "a smod b = - (- a mod b)" using False assms
    by (simp add: signed_modulo_int_def sgn_if)
  define d where "d = - a div b"
  define m where "m = - a mod b"
  have "b * d + m = - a" unfolding d_def m_def by (rule mult_div_mod_eq)
  then have a: "a = - (b * d) - m" by linarith
  have m: "0 \<le> m" "m < b" using assms by (simp_all add: m_def)
  show ?thesis
  proof (cases "m = 0")
    case True
    have "a div b = - d" by (rule int_div_pos_eq [where r = 0]) (use a True assms in simp_all)
    then show ?thesis using q r True by (simp add: d_def m_def)
  next
    case False
    have "a div b = - d - 1" by (rule int_div_pos_eq [where r = "b - m"]) (use a False m in \<open>simp_all add: algebra_simps\<close>)
    then show ?thesis using q r False m by (simp add: d_def m_def)
  qed
qed

lemma windowIndex_floor:
  assumes "second \<le> window" and "t \<noteq> 0"
  shows "windowIndex t window z = wallSeconds t z div (window div second)"
proof -
  have "0 < window div second" using assms(1) by simp
  then show ?thesis
    using assms floor_by_truncation [of "window div second" "wallSeconds t z"]
    by (simp add: windowIndex_def is_zero_time_def Let_def)
qed

text \<open>A zone with one offset for all time; no zone at all is UTC.\<close>

definition fixed_zone :: "zone option \<Rightarrow> int \<Rightarrow> bool" where
  "fixed_zone z k \<longleftrightarrow> (case z of None \<Rightarrow> k = 0 | Some off \<Rightarrow> off = (\<lambda>_. k))"

lemma fixed_opening:
  assumes "fixed_zone z k" and "0 \<le> window"
  shows "windowOpening idx window z = (idx * (window div second) + unix_origin - k) * second"
  using assms by (auto simp: fixed_zone_def windowOpening_def zone_instant_def Let_def algebra_simps split: option.splits)

lemma fixed_wall: "fixed_zone z k \<Longrightarrow> wallSeconds t z = t div second - unix_origin + k"
  by (auto simp: fixed_zone_def wallSeconds_def time_Unix_def split: option.splits)

lemma mult_le_iff_le_div: "0 < (b::int) \<Longrightarrow> a * b \<le> t \<longleftrightarrow> a \<le> t div b"
proof
  assume "0 < b" "a * b \<le> t"
  then show "a \<le> t div b" using zdiv_mono1 [of "a * b" t b] by simp
next
  assume b: "0 < b" "a \<le> t div b"
  have "a * b \<le> t div b * b" using b by (simp add: mult_right_mono)
  also have "\<dots> \<le> t" using b(1) by (metis div_mult_mod_eq le_add_same_cancel1 pos_mod_sign)
  finally show "a * b \<le> t" .
qed

lemma opening_le_iff:
  assumes "fixed_zone z k" and "second \<le> window"
  shows "windowOpening idx window z \<le> t \<longleftrightarrow> idx \<le> wallSeconds t z div (window div second)"
proof -
  have pos: "0 < window div second" and nonneg: "0 \<le> window" using assms(2) by simp_all
  have "windowOpening idx window z \<le> t \<longleftrightarrow> idx * (window div second) + unix_origin - k \<le> t div second"
    unfolding fixed_opening [OF assms(1) nonneg] by (rule mult_le_iff_le_div) simp
  also have "\<dots> \<longleftrightarrow> idx * (window div second) \<le> wallSeconds t z"
    using fixed_wall [OF assms(1), of t] by linarith
  also have "\<dots> \<longleftrightarrow> idx \<le> wallSeconds t z div (window div second)"
    using pos by (rule mult_le_iff_le_div)
  finally show ?thesis .
qed

text \<open>
  A zone with clock changes. A boundary is clean when the wall clock reads at least its time exactly
  from its opening on: no change skips it, repeats it, or sets the clock back over it. Between two
  clean boundaries an instant lies in the window its index names, however long the day is. Every
  boundary of a zone of a fixed offset is clean, and so is every midnight of a zone whose clocks
  change in the small hours; where a change skips midnight itself the next window opens too early.
\<close>

definition clean_boundary :: "zone option \<Rightarrow> duration \<Rightarrow> int \<Rightarrow> bool" where
  "clean_boundary z window idx \<longleftrightarrow>
     (\<forall>u. wallSeconds u z < idx * (window div second) \<longleftrightarrow> u < windowOpening idx window z)"

definition clean_window :: "zone option \<Rightarrow> duration \<Rightarrow> gotime \<Rightarrow> bool" where
  "clean_window z window t \<longleftrightarrow>
     clean_boundary z window (windowIndex t window z) \<and> clean_boundary z window (windowIndex t window z + 1)"

lemma clean_window_holds:
  assumes "clean_window z window t" and "second \<le> window" and "t \<noteq> 0"
  shows "WindowStart t window z \<le> t" and "t < NextWindowStart t window z"
proof -
  let ?i = "windowIndex t window z"
  have pos: "0 < window" "0 < window div second" using assms(2) by simp_all
  have i: "?i = wallSeconds t z div (window div second)" by (rule windowIndex_floor [OF assms(2,3)])
  have "?i * (window div second) \<le> wallSeconds t z"
    unfolding mult_le_iff_le_div [OF pos(2)] by (simp add: i)
  moreover have "wallSeconds t z < (?i + 1) * (window div second)"
    unfolding not_le [symmetric] mult_le_iff_le_div [OF pos(2)] by (simp add: i)
  ultimately have "windowOpening ?i window z \<le> t" "t < windowOpening (?i + 1) window z"
    using assms(1) by (auto simp: clean_window_def clean_boundary_def simp flip: not_less)
  then show "WindowStart t window z \<le> t" "t < NextWindowStart t window z"
    using assms(3) pos(1) by (simp_all add: WindowStart_def NextWindowStart_def is_zero_time_def)
qed

lemma fixed_zone_clean:
  assumes "fixed_zone z k" and "second \<le> window"
  shows "clean_window z window t"
  using opening_le_iff [OF assms] assms(2)
  by (auto simp: clean_window_def clean_boundary_def mult_le_iff_le_div simp flip: not_le)

text \<open>An eastern zone of America whose clocks go forward at two in the morning of the day 20000.\<close>

definition spring_zone :: zone where
  "spring_zone u = (if u < (unix_origin + 20000 * 86400 + 25200) * second then - 18000 else - 14400)"

lemma spring_opening:
  "windowOpening j (24 * hour) (Some spring_zone) =
     (j * 86400 + unix_origin + (if j \<le> 20000 then 18000 else 14400)) * second"
proof (cases "j \<le> 20000")
  case True
  then have "spring_zone ((j * 86400 + unix_origin) * second) = - 18000"
    "spring_zone ((j * 86400 + unix_origin) * second - - 18000 * second) = - 18000"
    by (simp_all add: spring_zone_def)
  then show ?thesis using True by (simp add: windowOpening_def zone_instant_def Let_def algebra_simps)
next
  case False
  then have "spring_zone ((j * 86400 + unix_origin) * second) = - 14400"
    "spring_zone ((j * 86400 + unix_origin) * second - - 14400 * second) = - 14400"
    by (simp_all add: spring_zone_def)
  then show ?thesis using False by (simp add: windowOpening_def zone_instant_def Let_def algebra_simps)
qed

lemma spring_zone_clean: "clean_boundary (Some spring_zone) (24 * hour) j"
  unfolding clean_boundary_def
proof
  fix u
  have whole: "u < x * second \<longleftrightarrow> u div second < x" for x
    using mult_le_iff_le_div [of second x u] by (simp add: not_le [symmetric])
  have wall: "wallSeconds u (Some spring_zone) = u div second - unix_origin +
      (if u div second < unix_origin + 20000 * 86400 + 25200 then - 18000 else - 14400)"
    using whole [of 63863622000] by (simp add: wallSeconds_def time_Unix_def spring_zone_def)
  show "wallSeconds u (Some spring_zone) < j * (24 * hour div second) \<longleftrightarrow>
        u < windowOpening j (24 * hour) (Some spring_zone)"
    unfolding spring_opening whole wall by auto
qed

text \<open>A zone west of Greenwich whose clocks skip the midnight that opens the day 20000.\<close>

definition skipped_midnight :: zone where
  "skipped_midnight u = (if u < (unix_origin + 20000 * 86400 + 14400) * second then - 14400 else - 10800)"

lemma skipped_midnight_opens_early:
  "let t = (unix_origin + 20000 * 86400 + 14400 - 1800) * second
   in windowIndex t (24 * hour) (Some skipped_midnight) = 19999 \<and>
      NextWindowStart t (24 * hour) (Some skipped_midnight) = t - 1800 * second"
  by (simp add: Let_def windowIndex_floor wallSeconds_def time_Unix_def skipped_midnight_def NextWindowStart_def
      windowOpening_def zone_instant_def is_zero_time_def)

text \<open>
  Windows tile time. On a zone of a fixed offset, an instant lies between the start of its window
  and the start of the next, which are one window of whole seconds apart; every instant between them
  has the same index, and the next start has the next index, before and after the epoch alike.
\<close>

theorem windows_tile:
  assumes "fixed_zone z k" and "second \<le> window" and "t \<noteq> 0"
  shows "WindowStart t window z \<le> t \<and> t < NextWindowStart t window z \<and>
    NextWindowStart t window z = WindowStart t window z + window div second * second \<and>
    (\<forall>u. u \<noteq> 0 \<and> WindowStart t window z \<le> u \<and> u < NextWindowStart t window z \<longrightarrow>
       windowIndex u window z = windowIndex t window z) \<and>
    (NextWindowStart t window z \<noteq> 0 \<longrightarrow> windowIndex (NextWindowStart t window z) window z = windowIndex t window z + 1)"
proof -
  let ?i = "windowIndex t window z"
  have pos: "0 < window" using assms(2) by simp
  have start: "WindowStart t window z = windowOpening ?i window z"
      "NextWindowStart t window z = windowOpening (?i + 1) window z"
    using assms(3) pos by (simp_all add: WindowStart_def NextWindowStart_def is_zero_time_def)
  note cmp = opening_le_iff [OF assms(1,2)]
  have idx: "windowIndex u window z = wallSeconds u z div (window div second)" if "u \<noteq> 0" for u
    using windowIndex_floor [OF assms(2) that] .
  have next_idx: "wallSeconds (windowOpening j window z) z div (window div second) = j" for j
  proof -
    have "j \<le> wallSeconds (windowOpening j window z) z div (window div second)" by (simp flip: cmp)
    moreover have "\<not> j + 1 \<le> wallSeconds (windowOpening j window z) z div (window div second)"
      unfolding cmp [symmetric] using pos assms(2) by (simp add: fixed_opening [OF assms(1)] distrib_right)
    ultimately show ?thesis by linarith
  qed
  show ?thesis
  proof (intro conjI allI impI)
    show "WindowStart t window z \<le> t" unfolding start cmp by (simp add: idx assms(3))
    show "t < NextWindowStart t window z" unfolding start not_le [symmetric] cmp by (simp add: idx assms(3))
    show "NextWindowStart t window z = WindowStart t window z + window div second * second"
      using pos by (simp add: start fixed_opening [OF assms(1)] algebra_simps)
    show "windowIndex u window z = ?i"
      if u: "u \<noteq> 0 \<and> WindowStart t window z \<le> u \<and> u < NextWindowStart t window z" for u
    proof -
      have "?i \<le> windowIndex u window z" "\<not> ?i + 1 \<le> windowIndex u window z"
        using u unfolding start by (simp_all add: idx flip: cmp)
      then show ?thesis by linarith
    qed
    show "windowIndex (NextWindowStart t window z) window z = ?i + 1" if "NextWindowStart t window z \<noteq> 0"
      using that next_idx [of "?i + 1"] by (simp add: idx start)
  qed
qed

theorem windows_tile_witness:
  "let z = Some (\<lambda>_. -18000); t = (unix_origin - 7200) * second
   in WindowStart t (24 * hour) z \<le> t \<and> t < NextWindowStart t (24 * hour) z \<and> windowIndex t (24 * hour) z = -1"
proof -
  have "fixed_zone (Some (\<lambda>_. -18000)) (-18000)" by (simp add: fixed_zone_def)
  from windows_tile [OF this, of "24 * hour" "(unix_origin - 7200) * second"]
  show ?thesis
    by (simp add: Let_def windowIndex_floor wallSeconds_def time_Unix_def)
qed

end
