(* ===== verification/Breaks.thy ===== *)
theory Breaks
  imports Channel
begin

text \<open>
  Commercial breaks: where a long programme may be cut (\<^verbatim>\<open>internal/schedule/naturalbreaks.go\<close>) and how
  breaks are put between and inside the programmes of a cycle (\<^verbatim>\<open>breakFactor\<close> and
  \<^verbatim>\<open>interleaveBreaks\<close> of \<^verbatim>\<open>lineup.go\<close>).

  The lemmas show that the cuts are measured fades that leave no part shorter than the minimum, that
  the search for them ends, and that interleaving only inserts breaks: taking them out and joining
  the parts gives the cycle back.
\<close>

subsection \<open>Where to cut\<close>

record MidRollPolicy =
  mr_IntervalMs :: int
  mr_MinProgrammeMs :: int
  mr_ToleranceMs :: int
  mr_MinPartMs :: int
  mr_MinConfidence :: rat

text \<open>\<^verbatim>\<open>inventory.BreakSearchHalfWindow\<close>.\<close>

abbreviation BreakSearchHalfWindow :: duration where "BreakSearchHalfWindow \<equiv> 5 * minute"

definition DefaultMidRollPolicy :: "int \<Rightarrow> MidRollPolicy" where
  "DefaultMidRollPolicy breaksPerHour =
     (if breaksPerHour \<le> 0
      then \<lparr>mr_IntervalMs = 0, mr_MinProgrammeMs = 0, mr_ToleranceMs = 0, mr_MinPartMs = 0, mr_MinConfidence = 0\<rparr>
      else \<lparr>mr_IntervalMs = milliseconds hour sdiv breaksPerHour, mr_MinProgrammeMs = milliseconds (40 * minute),
            mr_ToleranceMs = milliseconds BreakSearchHalfWindow, mr_MinPartMs = milliseconds (8 * minute),
            mr_MinConfidence = 1 / 4\<rparr>)"

definition closerCandidate :: "BreakCandidate \<Rightarrow> BreakCandidate \<Rightarrow> int \<Rightarrow> bool" where
  "closerCandidate c best due =
     (let dc = abs (bc_AtMs c - due); db = abs (bc_AtMs best - due)
      in if dc \<noteq> db then dc < db
         else if bc_Confidence c \<noteq> bc_Confidence best then bc_Confidence c > bc_Confidence best
         else bc_AtMs c < bc_AtMs best)"

definition usable :: "MidRollPolicy \<Rightarrow> int \<Rightarrow> int \<Rightarrow> int \<Rightarrow> BreakCandidate \<Rightarrow> bool" where
  "usable p durationMs prev due c \<longleftrightarrow>
     \<not> (bc_Confidence c < mr_MinConfidence p \<or> bc_AtMs c < due - mr_ToleranceMs p \<or> bc_AtMs c > due + mr_ToleranceMs p \<or>
        bc_AtMs c - prev < mr_MinPartMs p \<or> durationMs - bc_AtMs c < mr_MinPartMs p)"

definition best_candidate :: "MidRollPolicy \<Rightarrow> int \<Rightarrow> int \<Rightarrow> int \<Rightarrow> BreakCandidate list \<Rightarrow> BreakCandidate option" where
  "best_candidate p durationMs prev due candidates =
     foldl (\<lambda>best c. if \<not> usable p durationMs prev due c then best
                     else case best of None \<Rightarrow> Some c
                          | Some b \<Rightarrow> if closerCandidate c b due then Some c else best)
       None candidates"

text \<open>The loop over due points; whether it ends is a theorem (\<open>place_cuts_total\<close>), not an assumption.\<close>

partial_function (option) place_cuts ::
  "MidRollPolicy \<Rightarrow> int \<Rightarrow> BreakCandidate list \<Rightarrow> int \<Rightarrow> int \<Rightarrow> int list option"
where
  "place_cuts p durationMs candidates prev due =
     (if due - mr_ToleranceMs p \<le> durationMs - mr_MinPartMs p
      then (case best_candidate p durationMs prev due candidates of
              None \<Rightarrow> place_cuts p durationMs candidates prev (due + mr_IntervalMs p)
            | Some best \<Rightarrow>
                Option.bind (place_cuts p durationMs candidates (bc_AtMs best) (bc_AtMs best + mr_IntervalMs p))
                  (\<lambda>cuts. Some (bc_AtMs best # cuts)))
      else Some [])"

definition PlaceMidRollCuts :: "int \<Rightarrow> int \<Rightarrow> BreakCandidate list \<Rightarrow> MidRollPolicy \<Rightarrow> int list option" where
  "PlaceMidRollCuts durationMs sinceBreakMs candidates p =
     (if mr_IntervalMs p \<le> 0 \<or> durationMs < mr_MinProgrammeMs p \<or> candidates = [] then Some []
      else place_cuts p durationMs candidates 0 (max (mr_IntervalMs p - sinceBreakMs) (mr_MinPartMs p)))"

fun ascending_cuts :: "int \<Rightarrow> int \<Rightarrow> int list \<Rightarrow> bool" where
  "ascending_cuts durationMs prev [] = True"
| "ascending_cuts durationMs prev (c # cs) =
     (if c \<le> prev \<or> c \<ge> durationMs then False else ascending_cuts durationMs c cs)"

definition validCuts :: "int list \<Rightarrow> int \<Rightarrow> int list" where
  "validCuts cuts durationMs = (if ascending_cuts durationMs 0 cuts then cuts else [])"

lemma best_candidate_usable:
  "best_candidate p durationMs prev due candidates = Some c \<Longrightarrow>
   c \<in> set candidates \<and> usable p durationMs prev due c"
proof (induction candidates arbitrary: c rule: rev_induct)
  case Nil
  then show ?case by (simp add: best_candidate_def)
next
  case (snoc b bs)
  then show ?case by (auto simp: best_candidate_def split: option.splits if_splits)
qed

lemma best_candidate_nearest:
  "case best_candidate p durationMs prev due candidates of
     None \<Rightarrow> (\<forall>b\<in>set candidates. \<not> usable p durationMs prev due b)
   | Some c \<Rightarrow> (\<forall>b\<in>set candidates. usable p durationMs prev due b \<longrightarrow> abs (bc_AtMs c - due) \<le> abs (bc_AtMs b - due))"
proof (induction candidates rule: rev_induct)
  case Nil
  then show ?case by (simp add: best_candidate_def)
next
  case (snoc b bs)
  then show ?case
    by (auto simp: best_candidate_def closerCandidate_def Let_def split: option.splits if_splits)
qed

text \<open>
  The specification of the cuts, without the search: every cut is the usable fade nearest a due point,
  the due points run at \<open>IntervalMs\<close> from the previous cut, a due point is passed over only when no
  fade is usable for it, and the list ends only when no later due point has a usable fade.
\<close>

definition due_point :: "MidRollPolicy \<Rightarrow> int \<Rightarrow> nat \<Rightarrow> int" where
  "due_point p due k = due + int k * mr_IntervalMs p"

fun scheduled_cuts :: "MidRollPolicy \<Rightarrow> int \<Rightarrow> BreakCandidate list \<Rightarrow> int \<Rightarrow> int \<Rightarrow> int list \<Rightarrow> bool" where
  "scheduled_cuts p durationMs candidates prev due [] \<longleftrightarrow>
     (\<forall>k. \<forall>b\<in>set candidates. \<not> usable p durationMs prev (due_point p due k) b)"
| "scheduled_cuts p durationMs candidates prev due (c # cs) \<longleftrightarrow>
     (\<exists>k. (\<exists>b\<in>set candidates. bc_AtMs b = c \<and> usable p durationMs prev (due_point p due k) b)
        \<and> (\<forall>b\<in>set candidates. usable p durationMs prev (due_point p due k) b \<longrightarrow>
              abs (c - due_point p due k) \<le> abs (bc_AtMs b - due_point p due k))
        \<and> (\<forall>j<k. \<forall>b\<in>set candidates. \<not> usable p durationMs prev (due_point p due j) b))
     \<and> scheduled_cuts p durationMs candidates c (c + mr_IntervalMs p) cs"

lemma due_point_0 [simp]: "due_point p due 0 = due"
  and due_point_Suc: "due_point p due (Suc k) = due_point p (due + mr_IntervalMs p) k"
  by (simp_all add: due_point_def algebra_simps)

lemma scheduled_cuts_skip:
  assumes none: "\<forall>b\<in>set candidates. \<not> usable p durationMs prev due b"
    and "scheduled_cuts p durationMs candidates prev (due + mr_IntervalMs p) cuts"
  shows "scheduled_cuts p durationMs candidates prev due cuts"
proof (cases cuts)
  case Nil
  have "\<not> usable p durationMs prev (due_point p due k) b" if "b \<in> set candidates" for b k
    using assms that Nil by (cases k) (simp_all add: due_point_Suc)
  then show ?thesis using Nil by simp
next
  case (Cons c cs)
  then obtain k where
    k: "\<exists>b\<in>set candidates. bc_AtMs b = c \<and> usable p durationMs prev (due_point p due (Suc k)) b"
      "\<forall>b\<in>set candidates. usable p durationMs prev (due_point p due (Suc k)) b \<longrightarrow>
              abs (c - due_point p due (Suc k)) \<le> abs (bc_AtMs b - due_point p due (Suc k))"
      "\<forall>j<k. \<forall>b\<in>set candidates. \<not> usable p durationMs prev (due_point p due (Suc j)) b"
      "scheduled_cuts p durationMs candidates c (c + mr_IntervalMs p) cs"
    using assms(2) by (auto simp: due_point_Suc)
  have "\<forall>j<Suc k. \<forall>b\<in>set candidates. \<not> usable p durationMs prev (due_point p due j) b"
    using k(3) none by (auto simp: less_Suc_eq_0_disj)
  then show ?thesis using k Cons by (simp only: scheduled_cuts.simps) blast
qed

lemma scheduled_cuts_now:
  assumes "b \<in> set candidates \<and> usable p durationMs prev due b"
    and "\<forall>c\<in>set candidates. usable p durationMs prev due c \<longrightarrow> abs (bc_AtMs b - due) \<le> abs (bc_AtMs c - due)"
    and "scheduled_cuts p durationMs candidates (bc_AtMs b) (bc_AtMs b + mr_IntervalMs p) cuts"
  shows "scheduled_cuts p durationMs candidates prev due (bc_AtMs b # cuts)"
  using assms by (simp only: scheduled_cuts.simps) (intro conjI exI [of _ 0]; auto)

text \<open>
  Every turn moves the due point past the programme or makes a cut at least \<open>MinPartMs\<close> further in,
  so the loop ends.
\<close>

lemma place_cuts_scheduled:
  assumes "0 < mr_IntervalMs p" and "0 < mr_MinPartMs p"
  shows "\<exists>cuts. place_cuts p durationMs candidates prev due = Some cuts \<and>
           scheduled_cuts p durationMs candidates prev due cuts"
proof (induction "(nat (durationMs - prev), nat (durationMs + mr_ToleranceMs p - due + 1))" arbitrary: prev due
    rule: wf_induct_rule [OF wf_lex_prod [OF wf_less_than wf_less_than]])
  case (1 prev due)
  note IH = 1 [simplified]
  show ?case
  proof (cases "due - mr_ToleranceMs p \<le> durationMs - mr_MinPartMs p")
    case False
    have "due \<le> due_point p due k" for k using assms by (simp add: due_point_def)
    then have "\<not> usable p durationMs prev (due_point p due k) b" for k b
      using False by (smt (verit) usable_def)
    then have "scheduled_cuts p durationMs candidates prev due []" by simp
    then show ?thesis using False by (subst place_cuts.simps) simp
  next
    case go: True
    show ?thesis
    proof (cases "best_candidate p durationMs prev due candidates")
      case None
      have "\<exists>cuts. place_cuts p durationMs candidates prev (due + mr_IntervalMs p) = Some cuts \<and>
              scheduled_cuts p durationMs candidates prev (due + mr_IntervalMs p) cuts"
        by (rule IH) (use go assms in auto)
      then show ?thesis
        using go None scheduled_cuts_skip best_candidate_nearest [of candidates p durationMs prev due]
        by (subst place_cuts.simps) auto
    next
      case (Some c)
      have c: "c \<in> set candidates \<and> usable p durationMs prev due c" using best_candidate_usable [OF Some] .
      then have "\<exists>cuts. place_cuts p durationMs candidates (bc_AtMs c) (bc_AtMs c + mr_IntervalMs p) = Some cuts \<and>
          scheduled_cuts p durationMs candidates (bc_AtMs c) (bc_AtMs c + mr_IntervalMs p) cuts"
        by (intro IH) (use assms in \<open>auto simp: usable_def\<close>)
      then obtain cuts where cuts: "place_cuts p durationMs candidates (bc_AtMs c) (bc_AtMs c + mr_IntervalMs p) = Some cuts"
        "scheduled_cuts p durationMs candidates (bc_AtMs c) (bc_AtMs c + mr_IntervalMs p) cuts" by blast
      have "scheduled_cuts p durationMs candidates prev due (bc_AtMs c # cuts)"
        using scheduled_cuts_now [OF c] cuts(2) best_candidate_nearest [of candidates p durationMs prev due] Some by simp
      then show ?thesis using go Some cuts(1) by (subst place_cuts.simps) simp
    qed
  qed
qed

text \<open>What a schedule gives: no part shorter than the minimum, every cut a measured fade.\<close>

lemma scheduled_cuts_parts:
  assumes "scheduled_cuts p durationMs candidates prev due cuts"
  shows "successively (\<lambda>a b. mr_MinPartMs p \<le> b - a) (prev # cuts) \<and>
    (\<forall>c\<in>set cuts. mr_MinPartMs p \<le> durationMs - c \<and>
       (\<exists>b\<in>set candidates. bc_AtMs b = c \<and> mr_MinConfidence p \<le> bc_Confidence b))"
  using assms
proof (induction cuts arbitrary: prev due)
  case Nil
  then show ?case by simp
next
  case (Cons c cs)
  then obtain b k where b: "b \<in> set candidates" "bc_AtMs b = c" "usable p durationMs prev (due_point p due k) b"
    and rest: "scheduled_cuts p durationMs candidates c (c + mr_IntervalMs p) cs" by auto
  have "mr_MinPartMs p \<le> c - prev \<and> mr_MinPartMs p \<le> durationMs - c \<and> mr_MinConfidence p \<le> bc_Confidence b"
    using b by (auto simp: usable_def not_less)
  then show ?case using Cons.IH [OF rest] b by auto
qed

text \<open>
  the search for mid-roll cuts ends for every policy with a positive minimum part, and what it
  returns meets the specification above, leaves no part of the programme shorter than the minimum and
  cuts only at measured fades of the wanted confidence.
\<close>

theorem PlaceMidRollCuts_scheduled:
  assumes "0 < mr_MinPartMs p"
  shows "\<exists>cuts. PlaceMidRollCuts durationMs sinceBreakMs candidates p = Some cuts \<and>
    (0 < mr_IntervalMs p \<and> mr_MinProgrammeMs p \<le> durationMs \<longrightarrow>
       scheduled_cuts p durationMs candidates 0 (max (mr_IntervalMs p - sinceBreakMs) (mr_MinPartMs p)) cuts) \<and>
    (cuts \<noteq> [] \<longrightarrow> successively (\<lambda>a b. mr_MinPartMs p \<le> b - a) (0 # cuts @ [durationMs])) \<and>
    (\<forall>c\<in>set cuts. \<exists>b\<in>set candidates. bc_AtMs b = c \<and> mr_MinConfidence p \<le> bc_Confidence b)"
proof (cases "mr_IntervalMs p \<le> 0 \<or> durationMs < mr_MinProgrammeMs p \<or> candidates = []")
  case True
  then show ?thesis by (auto simp: PlaceMidRollCuts_def)
next
  case False
  let ?due = "max (mr_IntervalMs p - sinceBreakMs) (mr_MinPartMs p)"
  obtain cuts where cuts: "place_cuts p durationMs candidates 0 ?due = Some cuts"
    "scheduled_cuts p durationMs candidates 0 ?due cuts"
    using place_cuts_scheduled [of p] False assms by (meson not_le)
  note parts = scheduled_cuts_parts [OF cuts(2)]
  have "successively (\<lambda>a b. mr_MinPartMs p \<le> b - a) ((0 # cuts) @ [durationMs])" if "cuts \<noteq> []"
    using parts that last_in_set [OF that] unfolding successively_append_iff by auto
  then show ?thesis using cuts False parts by (simp add: PlaceMidRollCuts_def)
qed

subsection \<open>Breaks between and inside programmes\<close>

definition defaultBreakDurationMs :: int where "defaultBreakDurationMs = 120000"

text \<open>How much \<open>interleaveBreaks\<close> is estimated to stretch programme runtime into airtime.\<close>

definition breakFactor :: "Channel \<Rightarrow> rat" where
  "breakFactor ch =
     (if ch_BreaksPerHour ch \<le> 0 then 1
      else let breakMs = if ch_BreakDurationMs ch < defaultBreakDurationMs then defaultBreakDurationMs
                         else ch_BreakDurationMs ch
           in 1 + of_int (ch_BreaksPerHour ch * breakMs) / of_int (milliseconds hour))"

definition break_slot :: "int \<Rightarrow> bool \<Rightarrow> Slot" where
  "break_slot breakDurationMs midRoll =
     empty_slot\<lparr>s_Kind := SlotFiller, s_DurationMs := breakDurationMs, s_MidRoll := midRoll\<rparr>"

definition cuts_of :: "Channel \<Rightarrow> MidRollPolicy \<Rightarrow> int \<Rightarrow> Slot \<Rightarrow> int list option" where
  "cuts_of ch midRoll acc s =
     (case ch_PinnedCuts ch (s_LibraryItemID s) of
        Some cuts \<Rightarrow> Some (validCuts cuts (s_DurationMs s))
      | None \<Rightarrow>
          (case ch_NaturalBreaks ch of
             None \<Rightarrow> Some []
           | Some source \<Rightarrow>
               if s_LibraryItemID s \<noteq> '''' \<and> 0 < mr_IntervalMs midRoll \<and> mr_MinProgrammeMs midRoll \<le> s_DurationMs s
               then PlaceMidRollCuts (s_DurationMs s) acc (source (s_LibraryItemID s)) midRoll
               else Some []))"

text \<open>The parts of one programme, with a mid-roll break before every part but the first.\<close>

fun split_parts :: "Slot \<Rightarrow> int \<Rightarrow> int \<Rightarrow> int \<Rightarrow> int list \<Rightarrow> Slot list" where
  "split_parts s breakDurationMs n start [] = []"
| "split_parts s breakDurationMs n start (c # cuts) =
     (if n > 0 then [break_slot breakDurationMs True] else [])
     @ s\<lparr>s_Segment := n + 1, s_SourceOffsetMs := start, s_DurationMs := c - start\<rparr>
     # split_parts s breakDurationMs (n + 1) c cuts"

fun interleave_loop :: "Channel \<Rightarrow> int \<Rightarrow> int \<Rightarrow> MidRollPolicy \<Rightarrow> int \<Rightarrow> Slot list \<Rightarrow> Slot list option" where
  "interleave_loop ch thresholdMs breakDurationMs midRoll acc [] = Some []"
| "interleave_loop ch thresholdMs breakDurationMs midRoll acc (s # ss) =
     (if \<not> IsProgram s then map_option ((#) s) (interleave_loop ch thresholdMs breakDurationMs midRoll acc ss)
      else
        case cuts_of ch midRoll acc s of
          None \<Rightarrow> None
        | Some cuts \<Rightarrow>
            let (aired, acc1) =
                  (if cuts = [] then ([s], acc + s_DurationMs s)
                   else (split_parts s breakDurationMs 0 0 (cuts @ [s_DurationMs s]), s_DurationMs s - last cuts));
                hasLater = list_ex IsProgram ss;
                (gap, acc2) =
                  (if thresholdMs \<le> acc1 \<and> hasLater then ([break_slot breakDurationMs False], 0) else ([], acc1))
            in map_option (\<lambda>out. aired @ gap @ out) (interleave_loop ch thresholdMs breakDurationMs midRoll acc2 ss))"

definition interleaveBreaks :: "Channel \<Rightarrow> Slot list \<Rightarrow> Slot list option" where
  "interleaveBreaks ch slots =
     (if ch_BreaksPerHour ch \<le> 0 \<or> slots = [] then Some slots
      else let thresholdMs = 3600000 sdiv ch_BreaksPerHour ch;
               breakDurationMs = (if ch_BreakDurationMs ch < 30000 then defaultBreakDurationMs else ch_BreakDurationMs ch);
               midRoll = DefaultMidRollPolicy (ch_BreaksPerHour ch)
           in interleave_loop ch thresholdMs breakDurationMs midRoll 0 slots)"

text \<open>
  Undoing it: drop the breaks (the fillers that name no content) and join a programme's parts.
\<close>

definition is_break :: "Slot \<Rightarrow> bool" where
  "is_break s \<longleftrightarrow> s_Kind s = SlotFiller \<and> s_Key s = ''''"

definition join_part :: "Slot \<Rightarrow> Slot list \<Rightarrow> Slot list" where
  "join_part s later =
     (if is_break s then later
      else if s_Segment s = 0 then s # later
      else let (whole, rest) =
                 (case later of
                    p # ps \<Rightarrow> if s_Segment p = s_Segment s + 1 then (s\<lparr>s_DurationMs := s_DurationMs s + s_DurationMs p\<rparr>, ps)
                              else (s, later)
                  | [] \<Rightarrow> (s, later))
           in (if s_Segment s = 1 then whole\<lparr>s_Segment := 0\<rparr> else whole) # rest)"

definition join_parts :: "Slot list \<Rightarrow> Slot list" where
  "join_parts slots = foldr join_part slots []"

text \<open>Every break comes right after a programme and has a programme later.\<close>

fun breaks_placed :: "bool \<Rightarrow> Slot list \<Rightarrow> bool" where
  "breaks_placed aired [] = True"
| "breaks_placed aired (s # ss) =
     ((is_break s \<longrightarrow> aired \<and> list_ex IsProgram ss) \<and> breaks_placed (IsProgram s) ss)"

definition whole_slots :: "Slot list \<Rightarrow> bool" where
  "whole_slots slots \<longleftrightarrow> (\<forall>s\<in>set slots. s_Segment s = 0 \<and> s_SourceOffsetMs s = 0 \<and> \<not> is_break s)"

lemma break_slot_simps [simp]:
  "is_break (break_slot d m)" "\<not> IsProgram (break_slot d m)" "s_DurationMs (break_slot d m) = d"
  by (simp_all add: is_break_def break_slot_def empty_slot_def IsProgram_def)

lemma IsProgram_not_break [simp]: "IsProgram s \<Longrightarrow> \<not> is_break s"
  by (simp add: is_break_def IsProgram_def)

lemma cuts_of_total: "\<exists>cuts. cuts_of ch (DefaultMidRollPolicy b) acc s = Some cuts"
proof (cases "0 < b")
  case True
  then have "0 < mr_MinPartMs (DefaultMidRollPolicy b)" by (simp add: DefaultMidRollPolicy_def milliseconds_def)
  then show ?thesis using place_cuts_scheduled [of "DefaultMidRollPolicy b"]
    by (auto simp: cuts_of_def PlaceMidRollCuts_def split: option.split) (meson not_le)
next
  case False
  then show ?thesis by (auto simp: cuts_of_def PlaceMidRollCuts_def DefaultMidRollPolicy_def split: option.split)
qed

lemma interleave_total:
  "\<exists>out. interleave_loop ch thr d (DefaultMidRollPolicy b) acc slots = Some out"
proof (induction slots arbitrary: acc)
  case Nil
  then show ?case by simp
next
  case (Cons s ss)
  obtain cuts where "cuts_of ch (DefaultMidRollPolicy b) acc s = Some cuts" using cuts_of_total by blast
  then show ?case using Cons.IH by (auto simp: Let_def split: prod.split)
qed

text \<open>One step of the loop: what is aired, the break after it (if any) and the rest.\<close>

lemma interleave_program:
  assumes "interleave_loop ch thr d midRoll acc (s # ss) = Some out" and "IsProgram s"
  obtains cuts gap acc2 later where
    "cuts_of ch midRoll acc s = Some cuts"
    "out = (if cuts = [] then [s] else split_parts s d 0 0 (cuts @ [s_DurationMs s])) @ gap @ later"
    "interleave_loop ch thr d midRoll acc2 ss = Some later"
    "gap = [] \<and> acc2 = (if cuts = [] then acc + s_DurationMs s else s_DurationMs s - last cuts) \<or>
     gap = [break_slot d False] \<and> acc2 = 0 \<and> list_ex IsProgram ss \<and>
       thr \<le> (if cuts = [] then acc + s_DurationMs s else s_DurationMs s - last cuts)"
proof -
  obtain cuts where cuts: "cuts_of ch midRoll acc s = Some cuts" using assms by (auto split: option.splits)
  define aired where "aired = (if cuts = [] then [s] else split_parts s d 0 0 (cuts @ [s_DurationMs s]))"
  define acc1 where "acc1 = (if cuts = [] then acc + s_DurationMs s else s_DurationMs s - last cuts)"
  have step: "map_option (\<lambda>out. aired @ (if thr \<le> acc1 \<and> list_ex IsProgram ss then [break_slot d False] else []) @ out)
      (interleave_loop ch thr d midRoll (if thr \<le> acc1 \<and> list_ex IsProgram ss then 0 else acc1) ss) = Some out"
    using assms cuts by (auto simp: aired_def acc1_def Let_def)
  then obtain later where later: "interleave_loop ch thr d midRoll (if thr \<le> acc1 \<and> list_ex IsProgram ss then 0 else acc1) ss = Some later"
    "out = aired @ (if thr \<le> acc1 \<and> list_ex IsProgram ss then [break_slot d False] else []) @ later" by auto
  show thesis
    by (rule that [OF cuts later(2) [unfolded aired_def] later(1)]) (auto simp: acc1_def)
qed

lemma interleave_other:
  assumes "interleave_loop ch thr d midRoll acc (s # ss) = Some out" and "\<not> IsProgram s"
  obtains later where "out = s # later" "interleave_loop ch thr d midRoll acc ss = Some later"
  using assms by (auto simp: Let_def split: option.splits if_splits)

lemma join_parts_append: "join_parts (as @ bs) = foldr join_part as (join_parts bs)"
  by (simp add: join_parts_def)

lemma join_part_break [simp]: "is_break s \<Longrightarrow> join_part s later = later"
  by (simp add: join_part_def)

lemma join_split_parts:
  assumes "IsProgram s" and "0 \<le> n" and "later = [] \<or> s_Segment (hd later) = 0"
  shows "foldr join_part (split_parts s d n start (cuts @ [stop])) later =
    s\<lparr>s_Segment := (if n = 0 then 0 else n + 1), s_SourceOffsetMs := start, s_DurationMs := stop - start\<rparr> # later"
  using assms(2)
proof (induction cuts arbitrary: n start)
  case Nil
  have "\<not> is_break (s\<lparr>s_Segment := n + 1, s_SourceOffsetMs := start, s_DurationMs := stop - start\<rparr>)"
    using assms(1) by (simp add: is_break_def IsProgram_def)
  then show ?case using Nil assms(3) by (cases later) (auto simp: join_part_def)
next
  case (Cons c cs)
  have "\<not> is_break (s\<lparr>s_Segment := n + 1, s_SourceOffsetMs := start, s_DurationMs := c - start\<rparr>)"
    using assms(1) by (simp add: is_break_def IsProgram_def)
  then show ?case using Cons.IH [of "n + 1" c] Cons.prems by (auto simp: join_part_def)
qed

lemma interleave_joined:
  assumes "interleave_loop ch thr d midRoll acc slots = Some out" and "whole_slots slots"
  shows "join_parts out = slots"
  using assms
proof (induction slots arbitrary: acc out)
  case Nil
  then show ?case by (simp add: join_parts_def)
next
  case (Cons s ss)
  have s: "s_Segment s = 0" "s_SourceOffsetMs s = 0" "\<not> is_break s" and ss: "whole_slots ss"
    using Cons.prems(2) by (auto simp: whole_slots_def)
  have keep: "join_part s slots = s # slots" for slots using s by (simp add: join_part_def)
  show ?case
  proof (cases "IsProgram s")
    case False
    then show ?thesis using Cons.prems(1) Cons.IH ss keep
      by (auto elim!: interleave_other simp: join_parts_append [of "[_]", simplified])
  next
    case True
    obtain cuts gap acc2 later where step: "out = (if cuts = [] then [s] else split_parts s d 0 0 (cuts @ [s_DurationMs s])) @ gap @ later"
      "interleave_loop ch thr d midRoll acc2 ss = Some later" "gap = [] \<or> gap = [break_slot d False]"
      using interleave_program [OF Cons.prems(1) True] by metis
    have later: "join_parts later = ss" using Cons.IH [OF step(2) ss] .
    then have gap: "join_parts (gap @ later) = ss" using step(3) by (auto simp: join_parts_append)
    have "ss = [] \<or> s_Segment (hd ss) = 0" using ss by (cases ss) (auto simp: whole_slots_def)
    moreover have "s\<lparr>s_Segment := 0, s_SourceOffsetMs := 0, s_DurationMs := s_DurationMs s - 0\<rparr> = s"
      using s by (cases s) simp
    ultimately show ?thesis
      using join_split_parts [of s 0 ss d 0 cuts "s_DurationMs s"] True keep gap step(1)
      by (auto simp: join_parts_append)
  qed
qed

lemma breaks_placed_split:
  assumes "IsProgram s" and "breaks_placed True later" and "0 < n \<longrightarrow> aired"
  shows "breaks_placed aired (split_parts s d n start (cuts @ [stop]) @ later)"
  using assms(3)
proof (induction cuts arbitrary: n start aired)
  case Nil
  then show ?case using assms by (auto simp: IsProgram_def is_break_def)
next
  case (Cons c cs)
  then show ?case using assms(1) Cons.IH [of "n + 1" True c] by (auto simp: IsProgram_def is_break_def)
qed

lemma interleave_has_program:
  assumes "interleave_loop ch thr d midRoll acc slots = Some out" and "list_ex IsProgram slots"
  shows "list_ex IsProgram out"
  using assms
proof (induction slots arbitrary: acc out)
  case (Cons s ss)
  show ?case
  proof (cases "IsProgram s")
    case False
    then show ?thesis using Cons by (auto elim!: interleave_other)
  next
    case True
    have parts: "list_ex IsProgram (split_parts s d 0 0 (cuts @ [s_DurationMs s]))" for cuts
      using True by (cases cuts) (simp_all add: IsProgram_def)
    show ?thesis by (rule interleave_program [OF Cons.prems(1) True]) (use True parts in auto)
  qed
qed simp

lemma interleave_breaks_placed:
  assumes "interleave_loop ch thr d midRoll acc slots = Some out" and "whole_slots slots"
  shows "breaks_placed aired out"
  using assms
proof (induction slots arbitrary: acc out aired)
  case (Cons s ss)
  have s: "\<not> is_break s" and ss: "whole_slots ss" using Cons.prems(2) by (auto simp: whole_slots_def)
  show ?case
  proof (cases "IsProgram s")
    case False
    then show ?thesis using Cons.prems(1) Cons.IH s ss by (auto elim!: interleave_other)
  next
    case True
    obtain cuts gap acc2 later where step: "out = (if cuts = [] then [s] else split_parts s d 0 0 (cuts @ [s_DurationMs s])) @ gap @ later"
      "interleave_loop ch thr d midRoll acc2 ss = Some later"
      "gap = [] \<or> gap = [break_slot d False] \<and> list_ex IsProgram ss"
      using interleave_program [OF Cons.prems(1) True] by metis
    have "breaks_placed True (gap @ later)"
      using Cons.IH [OF step(2) ss] interleave_has_program [OF step(2)] step(3) by auto
    then show ?thesis using breaks_placed_split [OF True, of "gap @ later" 0 aired] True s step(1) by auto
  qed
qed simp

definition airtime :: "Slot list \<Rightarrow> int" where
  "airtime slots = (\<Sum>s\<leftarrow>slots. s_DurationMs s)"

lemma airtime_simps [simp]:
  "airtime [] = 0" "airtime (s # ss) = s_DurationMs s + airtime ss" "airtime (as @ bs) = airtime as + airtime bs"
  by (simp_all add: airtime_def)

text \<open>A cycle with nothing to cut gains \<open>k\<close> breaks, and each of them was earned by a full interval of programme.\<close>

lemma interleave_airtime:
  assumes "interleave_loop ch thr d midRoll acc slots = Some out"
    and "ch_NaturalBreaks ch = None" and "ch_PinnedCuts ch = Map.empty"
    and "0 \<le> acc" and "\<forall>s\<in>set slots. 0 \<le> s_DurationMs s"
  shows "\<exists>k. airtime out = airtime slots + d * int k \<and> thr * int k \<le> acc + programRuntime slots"
  using assms(1,4,5)
proof (induction slots arbitrary: acc out)
  case Nil
  then show ?case by (auto intro!: exI [of _ 0])
next
  case (Cons s ss)
  show ?case
  proof (cases "IsProgram s")
    case False
    then show ?thesis using Cons.prems Cons.IH by (fastforce elim!: interleave_other)
  next
    case True
    have none: "cuts_of ch midRoll acc s = Some []"
      using assms by (simp add: cuts_of_def)
    obtain gap acc2 later where step: "out = s # gap @ later" "interleave_loop ch thr d midRoll acc2 ss = Some later"
      "gap = [] \<and> acc2 = acc + s_DurationMs s \<or>
       gap = [break_slot d False] \<and> acc2 = 0 \<and> thr \<le> acc + s_DurationMs s"
      by (rule interleave_program [OF Cons.prems(1) True]) (use none in auto)
    have "0 \<le> acc2" using step(3) Cons.prems by auto
    then obtain k where k: "airtime later = airtime ss + d * int k" "thr * int k \<le> acc2 + programRuntime ss"
      using Cons.IH [OF step(2)] Cons.prems by auto
    show ?thesis
    proof (cases "gap = []")
      case True
      then show ?thesis using step k \<open>IsProgram s\<close> by (auto intro!: exI [of _ k])
    next
      case False
      then show ?thesis using step k \<open>IsProgram s\<close> by (auto intro!: exI [of _ "Suc k"] simp: algebra_simps)
    qed
  qed
qed

text \<open>
  C27. putting breaks into a cycle never fails, and it only puts breaks in: dropping them and joining
  the parts of each split programme gives the cycle back slot for slot, whatever cuts were measured or
  pinned. Every break comes directly after a programme or a part of one and has a programme later, so
  none trails and no two are adjacent.
\<close>

theorem interleaveBreaks_roundtrip:
  assumes "whole_slots slots"
  shows "\<exists>out. interleaveBreaks ch slots = Some out \<and> join_parts out = slots \<and> breaks_placed False out"
proof (cases "ch_BreaksPerHour ch \<le> 0 \<or> slots = []")
  case True
  have "breaks_placed aired slots" for aired
    using assms by (induction slots arbitrary: aired) (auto simp: whole_slots_def)
  moreover have "join_parts slots = slots"
    using assms by (induction slots) (auto simp: whole_slots_def join_parts_def join_part_def)
  ultimately show ?thesis using True by (simp add: interleaveBreaks_def)
next
  case False
  then show ?thesis
    using interleave_total interleave_joined assms interleave_breaks_placed
    by (simp add: interleaveBreaks_def Let_def) metis
qed

text \<open>
  on a channel that cuts no programme, the airtime of a cycle with its breaks is at most what
  \<open>breakFactor\<close> predicts from the programme runtime.
\<close>

theorem breakFactor_bounds_airtime:
  assumes "interleaveBreaks ch slots = Some out"
    and "ch_NaturalBreaks ch = None" and "ch_PinnedCuts ch = Map.empty"
    and "ch_BreaksPerHour ch dvd 3600000" and "\<forall>s\<in>set slots. 0 \<le> s_DurationMs s"
  shows "of_int (airtime out) \<le> of_int (airtime slots) + (breakFactor ch - 1) * of_int (programRuntime slots)"
proof -
  have runtime: "0 \<le> programRuntime slots"
    using assms(5) by (auto simp: programRuntime_sum intro!: sum_list_nonneg)
  show ?thesis
  proof (cases "ch_BreaksPerHour ch \<le> 0 \<or> slots = []")
    case True
    then show ?thesis using assms(1) by (auto simp: interleaveBreaks_def breakFactor_def split: if_splits)
  next
    case False
    then have b: "0 < ch_BreaksPerHour ch" by simp
    define d where "d = (if ch_BreakDurationMs ch < 30000 then defaultBreakDurationMs else ch_BreakDurationMs ch)"
    define D where "D = (if ch_BreakDurationMs ch < defaultBreakDurationMs then defaultBreakDurationMs else ch_BreakDurationMs ch)"
    have "d \<le> D" "0 \<le> D" by (simp_all add: d_def D_def defaultBreakDurationMs_def)
    have "interleave_loop ch (3600000 div ch_BreaksPerHour ch) d (DefaultMidRollPolicy (ch_BreaksPerHour ch)) 0 slots = Some out"
      using assms(1) False b by (simp add: interleaveBreaks_def Let_def d_def)
    then obtain k where k: "airtime out = airtime slots + d * int k"
      "3600000 div ch_BreaksPerHour ch * int k \<le> programRuntime slots"
      using interleave_airtime [OF _ assms(2,3) order.refl assms(5)] by force
    have "3600000 * int k \<le> ch_BreaksPerHour ch * programRuntime slots"
      using mult_left_mono [OF k(2), of "ch_BreaksPerHour ch"] b assms(4) by (simp add: mult.assoc [symmetric])
    then have "D * (3600000 * int k) \<le> D * (ch_BreaksPerHour ch * programRuntime slots)"
      using \<open>0 \<le> D\<close> by (rule mult_left_mono)
    moreover have "d * int k \<le> D * int k" using \<open>d \<le> D\<close> by (simp add: mult_right_mono)
    ultimately have "d * int k * 3600000 \<le> ch_BreaksPerHour ch * D * programRuntime slots"
      by (simp add: algebra_simps)
    then have "(of_int (d * int k) :: rat) * 3600000 \<le> of_int (ch_BreaksPerHour ch * D * programRuntime slots)"
      by (metis of_int_le_iff of_int_mult of_int_numeral)
    then show ?thesis using k b
      by (simp add: breakFactor_def D_def [symmetric] milliseconds_def field_simps)
  qed
qed

definition zero_channel :: Channel where
  "zero_channel = \<lparr>ch_ID = '''', ch_IntentRef = '''', ch_Name = '''', ch_Number = 0, ch_Group = '''', ch_Logo = '''',
     ch_Strategy = Sequential, ch_BreaksPerHour = 0, ch_BreakDurationMs = 0, ch_NaturalBreaks = None,
     ch_PinnedCuts = Map.empty, ch_LastAired = Map.empty, ch_DefaultWindow = 0, ch_WindowZone = None,
     ch_HolidayCountry = '''', ch_HolidayDefinitions = None, ch_WindowOpened = 0, ch_DealOrigin = 0,
     ch_FillerRef = '''', ch_TunarrID = '''', ch_Status = StatusLive, ch_Shuffle = \<lparr>sp_Seed = 0\<rparr>, ch_UpdatedAt = 0\<rparr>"

definition hour_programme :: Slot where
  "hour_programme = empty_slot\<lparr>s_Kind := SlotProgram, s_Key := ''a'', s_LibraryItemID := ''x'', s_DurationMs := 3600000\<rparr>"

lemma PlaceMidRollCuts_scheduled_witness:
  "\<exists>cuts. PlaceMidRollCuts 3600000 0 [\<lparr>bc_AtMs = 900000, bc_Confidence = 1\<rparr>] (DefaultMidRollPolicy 4) = Some cuts \<and>
     (cuts \<noteq> [] \<longrightarrow> successively (\<lambda>a b. 480000 \<le> b - a) (0 # cuts @ [3600000]))"
  using PlaceMidRollCuts_scheduled [of "DefaultMidRollPolicy 4" 3600000 0 "[\<lparr>bc_AtMs = 900000, bc_Confidence = 1\<rparr>]"]
  by (auto simp: DefaultMidRollPolicy_def milliseconds_def)

lemma interleaveBreaks_roundtrip_witness:
  "\<exists>out. interleaveBreaks (zero_channel\<lparr>ch_BreaksPerHour := 4, ch_PinnedCuts := [''x'' \<mapsto> [900000]]\<rparr>)
       [hour_programme, hour_programme] = Some out \<and>
     join_parts out = [hour_programme, hour_programme] \<and> breaks_placed False out"
  by (rule interleaveBreaks_roundtrip) (simp add: whole_slots_def hour_programme_def empty_slot_def is_break_def)

lemma breakFactor_bounds_airtime_witness:
  "airtime [hour_programme, break_slot 120000 False, hour_programme] \<le> 7920000"
proof -
  let ?ch = "zero_channel\<lparr>ch_BreaksPerHour := 3\<rparr>"
  have "interleaveBreaks ?ch [hour_programme, hour_programme] =
      Some [hour_programme, break_slot 120000 False, hour_programme]"
    by (simp add: interleaveBreaks_def zero_channel_def cuts_of_def hour_programme_def empty_slot_def IsProgram_def
        defaultBreakDurationMs_def)
  from breakFactor_bounds_airtime [OF this]
  have "(of_int (airtime [hour_programme, break_slot 120000 False, hour_programme]) :: rat) \<le> of_int 7920000"
    by (simp add: zero_channel_def hour_programme_def empty_slot_def IsProgram_def breakFactor_def
        defaultBreakDurationMs_def milliseconds_def)
  then show ?thesis by (simp only: of_int_le_iff)
qed

end
