(* ===== verification/Seams.thy ===== *)
theory Seams
  imports Slotting
begin

text \<open>
  The seam between two passes of a channel's ring, \<^verbatim>\<open>internal/schedule/passes.go\<close>: \<^verbatim>\<open>loopedWindow\<close> and
  \<^verbatim>\<open>repairSeam\<close>. \<^verbatim>\<open>holdBack\<close>, which \<open>repairSeam\<close> calls, is in \<open>Slotting\<close>.

  The lemmas show that every unit rests for the spacing from its start in the pass before to its start
  in this one, when the spacing fits the pool, that the repair leaves the far end of the deck as it
  was dealt, and that it reads only the far end of the deck before.
\<close>

subsection \<open>Definitions\<close>

text \<open>One trip round the deck: what is appended and the time reached.\<close>

fun loop_once :: "int \<Rightarrow> int \<Rightarrow> Slot list \<Rightarrow> Slot list \<times> int" where
  "loop_once window pos [] = ([], pos)"
| "loop_once window pos (s # ss) =
     (if \<not> IsProgram s \<or> s_DurationMs s \<le> 0 \<or> pos \<ge> window then loop_once window pos ss
      else (let d = min (s_DurationMs s) (window - pos); (out, stop) = loop_once window (pos + d) ss
            in (s\<lparr>s_DurationMs := d\<rparr> # out, stop)))"

function looped_from :: "Slot list \<Rightarrow> int \<Rightarrow> int \<Rightarrow> Slot list" where
  "looped_from deck window pos =
     (if pos < window
      then (if snd (loop_once window pos deck) = pos then fst (loop_once window pos deck)
            else fst (loop_once window pos deck) @ looped_from deck window (snd (loop_once window pos deck)))
      else [])"
  by pat_completeness auto

lemma loop_once_advances: "pos \<le> snd (loop_once window pos deck)"
  by (induction window pos deck rule: loop_once.induct) (auto simp: Let_def split: prod.splits)

termination looped_from
proof (relation "measure (\<lambda>(deck, window, pos). nat (window - pos))")
  fix deck :: "Slot list" and window pos :: int
  assume "pos < window" "snd (loop_once window pos deck) \<noteq> pos"
  then show "((deck, window, snd (loop_once window pos deck)), deck, window, pos)
      \<in> measure (\<lambda>(deck, window, pos). nat (window - pos))"
    using loop_once_advances [of pos window deck] by simp
qed simp

declare looped_from.simps [simp del]

definition loopedWindow :: "Slot list \<Rightarrow> int \<Rightarrow> Slot list" where
  "loopedWindow deck window = looped_from deck window 0"

text \<open>The releases: \<open>started\<close> runs over the programmes of the pass before.\<close>

fun seam_release :: "int \<Rightarrow> int \<Rightarrow> int \<Rightarrow> (string \<rightharpoonup> int) \<Rightarrow> Slot list \<Rightarrow> (string \<rightharpoonup> int)" where
  "seam_release limit whole started release [] = release"
| "seam_release limit whole started release (s # ss) =
     (if \<not> IsProgram s then seam_release limit whole started release ss
      else let r = started + limit - whole
           in seam_release limit whole (started + s_DurationMs s)
                (if r > 0 then release(s_LibraryItemID s \<mapsto> r) else release) ss)"

definition repairSeam :: "Slot list \<Rightarrow> Slot list \<Rightarrow> duration \<Rightarrow> Slot list" where
  "repairSeam prev nxt spacing =
     (if spacing \<le> 0 \<or> prev = [] then nxt
      else holdBack nxt (seam_release (milliseconds spacing) (programRuntime prev) 0 Map.empty prev))"

lemma mset_repairSeam [simp, preserved]: "mset (repairSeam prev nxt spacing) = mset nxt"
  by (simp add: repairSeam_def)

interpretation repaired: arrangement "\<lambda>nxt. repairSeam prev nxt spacing" for prev spacing
  by unfold_locales simp

subsection \<open>A window of looped deck\<close>

lemma loop_once_runtime:
  "pos \<le> window \<Longrightarrow> programRuntime (fst (loop_once window pos deck)) = snd (loop_once window pos deck) - pos \<and>
     snd (loop_once window pos deck) \<le> window"
  by (induction window pos deck rule: loop_once.induct) (auto simp: Let_def IsProgram_def split: prod.splits)

lemma loop_once_moves:
  "pos < window \<Longrightarrow> \<exists>s\<in>set deck. IsProgram s \<and> 0 < s_DurationMs s \<Longrightarrow> pos < snd (loop_once window pos deck)"
proof (induction window pos deck rule: loop_once.induct)
  case (2 window pos s ss)
  then show ?case
    using loop_once_advances [of "pos + min (s_DurationMs s) (window - pos)" window ss]
    by (auto simp: Let_def split: prod.splits)
qed simp

lemma loopedWindow_runtime:
  assumes "0 \<le> window" and "\<exists>s\<in>set deck. IsProgram s \<and> 0 < s_DurationMs s"
  shows "programRuntime (loopedWindow deck window) = window"
proof -
  have "pos \<le> window \<Longrightarrow> \<exists>s\<in>set deck. IsProgram s \<and> 0 < s_DurationMs s \<Longrightarrow>
      programRuntime (looped_from deck window pos) = window - pos" for deck window pos
  proof (induction deck window pos rule: looped_from.induct)
    case (1 deck window pos)
    then show ?case
      using loop_once_runtime [of pos window deck] loop_once_moves [of pos window deck]
      by (cases "pos < window") (simp_all add: looped_from.simps [of deck window pos] looped_from.simps [of deck window window])
  qed
  from this [OF assms] show ?thesis by (simp add: loopedWindow_def)
qed

subsection \<open>Who is held, and for how long\<close>

lemma seam_release_unlisted:
  "u \<notin> s_LibraryItemID ` set (filter IsProgram prev) \<Longrightarrow>
   seam_release limit whole started release prev u = release u"
  by (induction limit whole started release prev rule: seam_release.induct) (auto simp: Let_def)

lemma seam_release_iff:
  assumes "distinct (map s_LibraryItemID (filter IsProgram prev))" and "release u = None"
  shows "seam_release limit whole started release prev u = Some r \<longleftrightarrow>
    0 < r \<and> (\<exists>i<length prev. IsProgram (prev ! i) \<and> s_LibraryItemID (prev ! i) = u \<and>
               r = started + programRuntime (take i prev) + limit - whole)"
  using assms
proof (induction prev arbitrary: started release)
  case Nil
  then show ?case by simp
next
  case (Cons s ss)
  have split: "(\<exists>i<length (s # ss). P i) \<longleftrightarrow> P 0 \<or> (\<exists>i<length ss. P (Suc i))" for P
    by (auto simp: less_Suc_eq_0_disj)
  show ?case
  proof (cases "IsProgram s \<and> s_LibraryItemID s = u")
    case True
    then have "u \<notin> s_LibraryItemID ` set (filter IsProgram ss)" using Cons.prems(1) by auto
    then have other: "seam_release limit whole started' release' ss u = release' u"
        "\<not> (\<exists>i<length ss. IsProgram (ss ! i) \<and> s_LibraryItemID (ss ! i) = u \<and> Q i)" for started' release' Q
      by (auto simp: seam_release_unlisted)
    show ?thesis unfolding split using True other Cons.prems(2) by (auto simp: Let_def)
  next
    case False
    have "distinct (map s_LibraryItemID (filter IsProgram ss))" using Cons.prems(1) by (auto split: if_splits)
    note IH = Cons.IH [OF this]
    define release' where
      "release' = (if IsProgram s \<and> 0 < started + limit - whole then release(s_LibraryItemID s \<mapsto> started + limit - whole) else release)"
    have step: "seam_release limit whole started release (s # ss) =
         seam_release limit whole (started + (if IsProgram s then s_DurationMs s else 0)) release' ss"
      by (simp add: release'_def Let_def)
    have "release' u = None" using False Cons.prems(2) by (auto simp: release'_def)
    then show ?thesis unfolding split step IH [of release', OF \<open>release' u = None\<close>] using False by (auto simp: algebra_simps)
  qed
qed

lemma programRuntime_nonneg: "\<forall>s\<in>set slots. 0 \<le> slot_runtime s \<Longrightarrow> 0 \<le> programRuntime slots"
  by (induction slots) (auto simp: slot_runtime_def)

lemma programRuntime_subset:
  assumes "mset xs \<subseteq># mset ys" and "\<forall>s\<in>set ys. 0 \<le> slot_runtime s"
  shows "programRuntime xs \<le> programRuntime ys"
proof -
  obtain zs where zs: "mset ys = mset (xs @ zs)" using assms(1) by (metis ex_mset mset_append mset_subset_eq_exists_conv)
  then have "set zs \<subseteq> set ys" by (metis mset_eq_setD set_append Un_upper2)
  then show ?thesis using programRuntime_mset [OF zs] programRuntime_nonneg [of zs] assms(2) by auto
qed

text \<open>Of any units of a deck, one starts it: the others air after that unit does.\<close>

lemma first_of_units:
  assumes "units \<noteq> []" and "mset units \<subseteq># mset prev" and "\<forall>s\<in>set prev. 0 \<le> slot_runtime s"
  shows "\<exists>i<length prev. prev ! i \<in> set units \<and> programRuntime units \<le> programRuntime (drop i prev)"
  using assms(2,3)
proof (induction prev)
  case Nil
  then show ?case using assms(1) by simp
next
  case (Cons s ss)
  show ?case
  proof (cases "s \<in> set units")
    case True
    then show ?thesis using programRuntime_subset [OF Cons.prems] by (intro exI [of _ 0]) simp
  next
    case False
    then have "mset units \<subseteq># mset ss" using Cons.prems(1) using subset_eq_diff_conv [of "mset units" "{#s#}" "mset ss"]
      by (simp add: diff_single_trivial)
    then obtain i where "i < length ss" "ss ! i \<in> set units" "programRuntime units \<le> programRuntime (drop i ss)"
      using Cons.IH Cons.prems(2) by auto
    then show ?thesis by (intro exI [of _ "Suc i"]) simp
  qed
qed

lemma nth_unit_unique:
  assumes "distinct (map s_LibraryItemID (filter IsProgram prev))" and "i < length prev" "j < length prev"
    and "IsProgram (prev ! i)" "IsProgram (prev ! j)" "s_LibraryItemID (prev ! i) = s_LibraryItemID (prev ! j)"
  shows "i = j"
  using assms
proof (induction prev arbitrary: i j)
  case (Cons s ss)
  have apart: "s_LibraryItemID s \<noteq> s_LibraryItemID (ss ! k)" if "IsProgram s" "k < length ss" "IsProgram (ss ! k)" for k
    using Cons.prems(1) that by (auto dest: nth_mem)
  have "distinct (map s_LibraryItemID (filter IsProgram ss))" using Cons.prems(1) by (auto split: if_splits)
  note IH = Cons.IH [OF this]
  show ?case using Cons.prems(2-) IH apart by (cases i; cases j) (auto dest: sym)
qed simp

subsection \<open>Every unit rests for the spacing\<close>

lemma programRuntime_programs: "programRuntime (filter IsProgram slots) = programRuntime slots"
  by (simp add: programRuntime_sum)

lemma programRuntime_take_drop: "programRuntime slots = programRuntime (take i slots) + programRuntime (drop i slots)"
  by (metis append_take_drop_id programRuntime_simps(3))

text \<open>Two passes of one pool: the same units, each once, none of negative length.\<close>

definition same_pool :: "Slot list \<Rightarrow> Slot list \<Rightarrow> bool" where
  "same_pool prev nxt \<longleftrightarrow>
     distinct (map s_LibraryItemID (filter IsProgram prev)) \<and>
     mset (filter IsProgram nxt) = mset (filter IsProgram prev) \<and>
     (\<forall>s\<in>set prev. 0 \<le> slot_runtime s)"

abbreviation releases :: "int \<Rightarrow> Slot list \<Rightarrow> (string \<rightharpoonup> int)" where
  "releases limit prev \<equiv> seam_release limit (programRuntime prev) 0 Map.empty prev"

lemma releases_iff:
  assumes "same_pool prev nxt"
  shows "releases limit prev u = Some r \<longleftrightarrow> 0 < r \<and> (\<exists>i<length prev. IsProgram (prev ! i) \<and> s_LibraryItemID (prev ! i) = u \<and>
     r = programRuntime (take i prev) + limit - programRuntime prev)"
  using seam_release_iff assms by (simp add: same_pool_def)

lemma release_of_unit:
  assumes pool: "same_pool prev nxt" and "i < length prev" and "IsProgram (prev ! i)" and "(releases limit prev) (s_LibraryItemID (prev ! i)) = Some r"
  shows "0 < r \<and> r = programRuntime (take i prev) + limit - programRuntime prev"
  using assms nth_unit_unique [of prev] unfolding same_pool_def releases_iff [OF pool] by metis

text \<open>Of any waiting units, the one that aired first in the pass before has everything else air before its release.\<close>

lemma waiting_units:
  assumes pool: "same_pool prev nxt" and "waiting \<noteq> []" and "mset waiting \<subseteq># mset nxt" and "\<forall>s\<in>set waiting. IsProgram s \<and> (releases limit prev) (s_LibraryItemID s) \<noteq> None"
  obtains s r where "s \<in> set waiting" "(releases limit prev) (s_LibraryItemID s) = Some r" "0 < r"
    "r \<le> limit - programRuntime waiting"
proof -
  have "mset (filter IsProgram waiting) \<subseteq># mset (filter IsProgram nxt)"
    using assms(3) by (simp add: multiset_filter_mono)
  moreover have "filter IsProgram waiting = waiting" using assms(4) by (simp add: filter_id_conv)
  ultimately have "mset waiting \<subseteq># mset (filter IsProgram prev)" using pool by (simp only: same_pool_def)
  then have "mset waiting \<subseteq># mset prev" by (metis mset_filter multiset_filter_subset subset_mset.order_trans)
  then obtain i where i: "i < length prev" "prev ! i \<in> set waiting" "programRuntime waiting \<le> programRuntime (drop i prev)"
    using first_of_units [OF assms(2)] pool by (auto simp: same_pool_def)
  then obtain r where r: "(releases limit prev) (s_LibraryItemID (prev ! i)) = Some r" "IsProgram (prev ! i)" using assms(4) by auto
  then have "0 < r \<and> r \<le> limit - programRuntime waiting"
    using release_of_unit [OF pool i(1) r(2,1)] i(3) programRuntime_take_drop [of prev i] by linarith
  then show thesis using that i(2) r(1) by blast
qed

lemma units_have_room:
  assumes pool: "same_pool prev nxt" and "limit \<le> programRuntime nxt"
  shows "has_room (releases limit prev) nxt"
  unfolding has_room_def
proof (intro allI impI)
  fix waiting
  assume w: "waiting \<noteq> [] \<and> mset waiting \<subseteq># mset nxt \<and> (\<forall>s\<in>set waiting. IsProgram s \<and> (releases limit prev) (s_LibraryItemID s) \<noteq> None)"
  obtain s r where "s \<in> set waiting" "(releases limit prev) (s_LibraryItemID s) = Some r" "0 < r" "r \<le> limit - programRuntime waiting"
    by (rule waiting_units [OF pool, of waiting]) (use w in auto)
  then show "\<exists>s\<in>set waiting. the ((releases limit prev) (s_LibraryItemID s)) \<le> programRuntime nxt - programRuntime waiting"
    using assms by (intro bexI [of _ s]) auto
qed

text \<open>The rest of a unit: what is left of the pass before from its start, and what this pass airs first.\<close>

lemma held_rests:
  assumes pool: "same_pool prev nxt" and "limit \<le> programRuntime nxt" and "out = holdBack nxt (releases limit prev)"
    and "i < length prev" "IsProgram (prev ! i)" and "k < length out" "IsProgram (out ! k)"
    and "s_LibraryItemID (out ! k) = s_LibraryItemID (prev ! i)"
  shows "limit \<le> programRuntime (drop i prev) + programRuntime (take k out)"
proof -
  have "set (filter IsProgram out) = set (filter IsProgram prev)"
    using mset_holdBack [of nxt "releases limit prev"] assms(3) pool unfolding same_pool_def by (metis mset_filter set_mset_mset)
  then have "\<forall>s\<in>set (filter IsProgram out). 0 \<le> slot_runtime s" using pool by (auto simp: same_pool_def)
  then have nonneg: "0 \<le> programRuntime (take k out)"
    using programRuntime_nonneg [of "filter IsProgram (take k out)"] by (auto simp: programRuntime_programs dest: in_set_takeD)
  show ?thesis
  proof (cases "0 < programRuntime (take i prev) + limit - programRuntime prev")
    case False
    then show ?thesis using nonneg programRuntime_take_drop [of prev i] by linarith
  next
    case True
    then have "(releases limit prev) (s_LibraryItemID (out ! k)) = Some (programRuntime (take i prev) + limit - programRuntime prev)"
      using assms(4,5,8) releases_iff [OF pool] by auto
    then have "programRuntime (take i prev) + limit - programRuntime prev \<le> programRuntime (take k out)"
      using holdBack_on_time [OF units_have_room [OF pool assms(2)]] assms(3,6,7) unfolding on_time_def by blast
    then show ?thesis using programRuntime_take_drop [of prev i] by linarith
  qed
qed

subsection \<open>The tail of the deck is left as it was dealt\<close>

lemma hold_loop_drained:
  assumes "\<forall>q\<in>set queue. h_at q \<le> pos" and "\<forall>r\<in>ran release. r \<le> pos"
    and "\<forall>s\<in>set nxt \<union> h_slot ` set queue. 0 \<le> slot_runtime s"
  shows "hold_loop release nxt queue pos out = out @ map h_slot queue @ nxt"
  using assms
proof (induction release nxt queue pos out rule: hold_loop.induct)
  case (1 release nxt q queue pos out)
  have now: "h_at q \<le> pos \<or> nxt = []" and "0 \<le> slot_runtime (h_slot q)" using "1.prems" by auto
  have "hold_loop release nxt queue (pos + slot_runtime (h_slot q)) (out @ [h_slot q]) =
      (out @ [h_slot q]) @ map h_slot queue @ nxt"
    by (rule "1.IH"(1) [OF now]) (use "1.prems" \<open>0 \<le> slot_runtime (h_slot q)\<close> in fastforce)+
  then show ?case using now by (simp add: hold_loop.simps(1))
next
  case (2 release s nxt pos out)
  have none: "held_until release pos s = None" using "2.prems" by (force simp: held_until_def ran_def split: option.splits)
  have "hold_loop release nxt [] (pos + slot_runtime s) (out @ [s]) = (out @ [s]) @ map h_slot [] @ nxt"
    using "2.IH"(1) [OF none] "2.prems" by fastforce
  then show ?case using none by (simp add: hold_loop.simps(2))
next
  case (3 release pos out)
  then show ?case by (simp add: hold_loop.simps(3))
qed

text \<open>
  What can still wait: the queue and the units of \<open>nxt\<close> that have a release. Past the last release,
  everything waiting goes out and the rest of \<open>nxt\<close> follows untouched.
\<close>

definition waiting_runtime :: "(string \<rightharpoonup> int) \<Rightarrow> Slot list \<Rightarrow> held list \<Rightarrow> int" where
  "waiting_runtime release nxt queue =
     programRuntime (map h_slot queue) + programRuntime (filter (\<lambda>s. release (s_LibraryItemID s) \<noteq> None) nxt)"

lemma programRuntime_map_insert_held:
  "programRuntime (map h_slot (insert_held h queue)) = slot_runtime (h_slot h) + programRuntime (map h_slot queue)"
proof -
  have "mset (map h_slot (insert_held h queue)) = mset (h_slot h # map h_slot queue)" by simp
  from programRuntime_mset [OF this] show ?thesis by (simp add: slot_runtime_def)
qed

definition tail_kept :: "int \<Rightarrow> (string \<rightharpoonup> int) \<Rightarrow> Slot list \<Rightarrow> held list \<Rightarrow> int \<Rightarrow> Slot list \<Rightarrow> Slot list \<Rightarrow> bool" where
  "tail_kept bound release nxt queue pos out result \<longleftrightarrow>
     (\<exists>X j. result = out @ X @ drop j nxt \<and> pos + programRuntime X \<le> bound + waiting_runtime release nxt queue)"

lemma tail_kept_release:
  assumes "tail_kept bound release nxt queue (pos + slot_runtime (h_slot q)) (out @ [h_slot q]) result"
    and "0 \<le> slot_runtime (h_slot q)"
  shows "tail_kept bound release nxt (q # queue) pos out result"
proof -
  obtain X j where "result = (out @ [h_slot q]) @ X @ drop j nxt"
    "pos + slot_runtime (h_slot q) + programRuntime X \<le> bound + waiting_runtime release nxt queue"
    using assms(1) by (auto simp: tail_kept_def)
  then show ?thesis using assms(2) unfolding tail_kept_def
    by (intro exI [of _ "h_slot q # X"] exI [of _ j]) (auto simp: waiting_runtime_def slot_runtime_def)
qed

lemma tail_kept_place:
  assumes "tail_kept bound release nxt queue (pos + slot_runtime s) (out @ [s]) result" and "0 \<le> slot_runtime s"
  shows "tail_kept bound release (s # nxt) queue pos out result"
proof -
  obtain X j where "result = (out @ [s]) @ X @ drop j nxt"
    "pos + slot_runtime s + programRuntime X \<le> bound + waiting_runtime release nxt queue"
    using assms(1) by (auto simp: tail_kept_def)
  then show ?thesis using assms(2) unfolding tail_kept_def
    by (intro exI [of _ "s # X"] exI [of _ "Suc j"]) (auto simp: waiting_runtime_def slot_runtime_def)
qed

lemma tail_kept_hold:
  assumes "tail_kept bound release nxt (insert_held \<lparr>h_slot = s, h_at = r\<rparr> queue) pos out result"
    and "held_until release p s = Some r"
  shows "tail_kept bound release (s # nxt) queue pos out result"
proof -
  obtain X j where "result = out @ X @ drop j nxt"
    "pos + programRuntime X \<le> bound + waiting_runtime release nxt (insert_held \<lparr>h_slot = s, h_at = r\<rparr> queue)"
    using assms(1) by (auto simp: tail_kept_def)
  then show ?thesis using assms(2) unfolding tail_kept_def
    by (intro exI [of _ X] exI [of _ "Suc j"])
      (auto simp: waiting_runtime_def programRuntime_map_insert_held slot_runtime_def held_until_def split: option.splits if_splits)
qed

lemma hold_loop_past:
  assumes "\<forall>q\<in>set queue. h_at q \<le> R" and "\<forall>r\<in>ran release. r \<le> R"
    and "\<forall>s\<in>set nxt \<union> h_slot ` set queue. 0 \<le> slot_runtime s" and "pos \<le> bound" and "R \<le> pos"
  shows "tail_kept bound release nxt queue pos out (hold_loop release nxt queue pos out)"
proof -
  have "hold_loop release nxt queue pos out = out @ map h_slot queue @ drop 0 nxt"
    using hold_loop_drained [of queue pos release nxt out] assms by fastforce
  moreover have "0 \<le> programRuntime (filter (\<lambda>s. release (s_LibraryItemID s) \<noteq> None) nxt)"
    using assms(3) by (intro programRuntime_nonneg) auto
  ultimately show ?thesis using assms(4) unfolding tail_kept_def waiting_runtime_def
    by (intro exI [of _ "map h_slot queue"] exI [of _ 0]) simp
qed

lemma hold_loop_tail:
  assumes "\<forall>q\<in>set queue. h_at q \<le> R" and "\<forall>r\<in>ran release. r \<le> R"
    and "\<forall>s\<in>set nxt \<union> h_slot ` set queue. 0 \<le> slot_runtime s \<and> slot_runtime s \<le> L"
    and "pos \<le> R + L"
  shows "tail_kept (R + L) release nxt queue pos out (hold_loop release nxt queue pos out)"
  using assms
proof (induction release nxt queue pos out rule: hold_loop.induct)
  case (1 release nxt q queue pos out)
  note prems = "1.prems"
  show ?case
  proof (cases "R \<le> pos")
    case True
    then show ?thesis using prems by (intro hold_loop_past [of _ R]) auto
  next
    case pos: False
    show ?thesis
    proof (cases "h_at q \<le> pos \<or> nxt = []")
      case True
      have "tail_kept (R + L) release nxt queue (pos + slot_runtime (h_slot q)) (out @ [h_slot q])
          (hold_loop release nxt queue (pos + slot_runtime (h_slot q)) (out @ [h_slot q]))"
        by (rule "1.IH"(1) [OF True]) (use prems pos in auto)
      from tail_kept_release [OF this] show ?thesis using True prems by (simp add: hold_loop.simps(1))
    next
      case False
      then obtain s ss where nxt: "nxt = s # ss" by (cases nxt) auto
      show ?thesis
      proof (cases "held_until release pos s")
        case None
        have "tail_kept (R + L) release ss (q # queue) (pos + slot_runtime s) (out @ [s])
            (hold_loop release ss (q # queue) (pos + slot_runtime s) (out @ [s]))"
          using "1.IH"(2) [OF False] None prems pos by (simp add: nxt)
        from tail_kept_place [OF this] show ?thesis using False None prems by (simp add: hold_loop.simps(1) nxt)
      next
        case (Some r)
        have "r \<le> R" using Some prems(2) by (auto simp: held_until_def ran_def split: option.splits if_splits)
        have "tail_kept (R + L) release ss (insert_held \<lparr>h_slot = s, h_at = r\<rparr> (q # queue)) pos out
            (hold_loop release ss (insert_held \<lparr>h_slot = s, h_at = r\<rparr> (q # queue)) pos out)"
          using "1.IH"(3) [OF False] Some prems pos \<open>r \<le> R\<close> by (simp add: nxt)
        from tail_kept_hold [OF this Some] show ?thesis using False Some by (simp add: hold_loop.simps(1) nxt)
      qed
    qed
  qed
next
  case (2 release s nxt pos out)
  note prems = "2.prems"
  show ?case
  proof (cases "R \<le> pos")
    case True
    then show ?thesis using prems by (intro hold_loop_past [of _ R]) auto
  next
    case pos: False
    show ?thesis
    proof (cases "held_until release pos s")
      case None
      have "tail_kept (R + L) release nxt [] (pos + slot_runtime s) (out @ [s])
          (hold_loop release nxt [] (pos + slot_runtime s) (out @ [s]))"
        by (rule "2.IH"(1) [OF None]) (use prems pos in auto)
      from tail_kept_place [OF this] show ?thesis using None prems by (simp add: hold_loop.simps(2))
    next
      case (Some r)
      have "r \<le> R" using Some prems(2) by (auto simp: held_until_def ran_def split: option.splits if_splits)
      have "tail_kept (R + L) release nxt (insert_held \<lparr>h_slot = s, h_at = r\<rparr> []) pos out
          (hold_loop release nxt [\<lparr>h_slot = s, h_at = r\<rparr>] pos out)"
        unfolding insert_held_Nil by (rule "2.IH"(2) [OF Some]) (use prems pos \<open>r \<le> R\<close> in auto)
      from tail_kept_hold [OF this Some] show ?thesis using Some by (simp add: hold_loop.simps(2))
    qed
  qed
next
  case (3 release pos out)
  then show ?case by (auto simp: hold_loop.simps(3) waiting_runtime_def tail_kept_def)
qed

lemma releases_le:
  assumes pool: "same_pool prev nxt" and "r \<in> ran (releases limit prev)"
  shows "r \<le> limit"
proof -
  obtain u where "releases limit prev u = Some r" using assms(2) by (auto simp: ran_def)
  then obtain i where "r = programRuntime (take i prev) + limit - programRuntime prev" by (auto simp: releases_iff [OF pool])
  moreover have "0 \<le> programRuntime (drop i prev)"
    using pool by (intro programRuntime_nonneg) (auto simp: same_pool_def dest: in_set_dropD)
  ultimately show ?thesis using programRuntime_take_drop [of prev i] by linarith
qed

lemma waiting_le:
  assumes pool: "same_pool prev nxt" and "0 \<le> limit"
  shows "waiting_runtime (releases limit prev) nxt [] \<le> limit"
proof -
  let ?w = "filter (\<lambda>s. IsProgram s \<and> (releases limit prev) (s_LibraryItemID s) \<noteq> None) nxt"
  have "programRuntime (filter P slots) = programRuntime (filter (\<lambda>s. IsProgram s \<and> P s) slots)" for P slots
    by (induction slots) auto
  then have "waiting_runtime (releases limit prev) nxt [] = programRuntime ?w" unfolding waiting_runtime_def by simp
  also have "\<dots> \<le> limit"
  proof (cases "?w = []")
    case True
    then show ?thesis using assms(2) by simp
  next
    case False
    obtain s r where "0 < r" "r \<le> limit - programRuntime ?w"
      by (rule waiting_units [OF pool False]) auto
    then show ?thesis by linarith
  qed
  finally show ?thesis .
qed

lemma tail_as_dealt:
  assumes pool: "same_pool prev nxt" and "0 \<le> limit" and "0 \<le> L" and "\<forall>s\<in>set nxt. 0 \<le> slot_runtime s \<and> slot_runtime s \<le> L"
  obtains X j where "holdBack nxt (releases limit prev) = X @ drop j nxt" "programRuntime X \<le> 2 * limit + L"
proof -
  have "tail_kept (limit + L) (releases limit prev) nxt [] 0 [] (holdBack nxt (releases limit prev))"
    unfolding holdBack_def by (rule hold_loop_tail) (use assms releases_le [OF pool] in auto)
  then show thesis using waiting_le [OF pool assms(2)] that by (fastforce simp: tail_kept_def)
qed

text \<open>The releases read only the last \<open>limit\<close> of the deck before.\<close>

lemma seam_release_append:
  "seam_release limit whole started release (X @ T) =
   seam_release limit whole (started + programRuntime X) (seam_release limit whole started release X) T"
  by (induction limit whole started release X rule: seam_release.induct) (auto simp: Let_def add.assoc)

lemma seam_release_early:
  assumes "\<forall>s\<in>set X. 0 \<le> slot_runtime s" and "started + programRuntime X + limit \<le> whole"
  shows "seam_release limit whole started release X = release"
  using assms
proof (induction X arbitrary: started)
  case (Cons s X)
  have "0 \<le> programRuntime (s # X)" using Cons.prems(1) by (intro programRuntime_nonneg) auto
  then show ?case using Cons by (auto simp: Let_def add.assoc split: if_splits)
qed simp

lemma seam_release_shift:
  "seam_release limit (whole + c) (started + c) release T = seam_release limit whole started release T"
proof (induction T arbitrary: started release)
  case (Cons s T)
  from Cons [of "started + s_DurationMs s"] Cons [of started] show ?case by (simp add: Let_def add.commute add.left_commute)
qed simp

lemma seam_release_tail:
  assumes "\<forall>s\<in>set X. 0 \<le> slot_runtime s" and "limit \<le> programRuntime T"
  shows "seam_release limit (programRuntime (X @ T)) 0 Map.empty (X @ T) =
         seam_release limit (programRuntime T) 0 Map.empty T"
  using assms seam_release_shift [of limit "programRuntime T" "programRuntime X" 0]
  by (simp add: seam_release_append seam_release_early add.commute)

text \<open>Repairing against a deck as dealt is repairing against it as aired, when the pool has three spacings.\<close>

lemma repairSeam_tail_stable:
  assumes pool: "same_pool prev dealt" and "\<forall>s\<in>set dealt. 0 \<le> slot_runtime s"
    and "\<forall>s\<in>set dealt. slot_runtime s \<le> L" "0 \<le> L"
    and "3 * milliseconds spacing + L \<le> programRuntime dealt"
  shows "repairSeam (repairSeam prev dealt spacing) nxt spacing = repairSeam dealt nxt spacing"
proof (cases "spacing \<le> 0 \<or> prev = []")
  case True
  then show ?thesis by (simp add: repairSeam_def)
next
  case False
  let ?limit = "milliseconds spacing"
  have "0 \<le> ?limit" using False by (simp add: milliseconds_def pos_imp_zdiv_nonneg_iff)
  obtain X j where X: "holdBack dealt (releases ?limit prev) = X @ drop j dealt" "programRuntime X \<le> 2 * ?limit + L"
    by (rule tail_as_dealt [OF pool \<open>0 \<le> ?limit\<close> assms(4)]) (use assms(2,3) in auto)
  have same: "mset (X @ drop j dealt) = mset dealt" using mset_holdBack [of dealt "releases ?limit prev"] by (simp only: X(1))
  have runtime: "programRuntime (X @ drop j dealt) = programRuntime dealt" using same by (rule programRuntime_mset)
  then have long: "?limit \<le> programRuntime (drop j dealt)" using X(2) assms(5) by simp
  have "set (X @ drop j dealt) = set dealt" using same by (rule mset_eq_setD)
  then have "\<forall>s\<in>set X. 0 \<le> slot_runtime s" "\<forall>s\<in>set (take j dealt). 0 \<le> slot_runtime s"
    using assms(2) by (auto dest: in_set_takeD)
  then have "seam_release ?limit (programRuntime (X @ drop j dealt)) 0 Map.empty (X @ drop j dealt) =
      seam_release ?limit (programRuntime (take j dealt @ drop j dealt)) 0 Map.empty (take j dealt @ drop j dealt)"
    by (simp only: seam_release_tail [OF _ long])
  moreover have "X @ drop j dealt = [] \<longleftrightarrow> dealt = []" using same by (metis mset_zero_iff_right)
  ultimately show ?thesis using X(1) False by (simp add: repairSeam_def)
qed

text \<open>The repair keeps the spacing whenever the spacing fits the pool.\<close>

definition rests_between :: "int \<Rightarrow> Slot list \<Rightarrow> Slot list \<Rightarrow> bool" where
  "rests_between limit prev nxt \<longleftrightarrow>
     (\<forall>i<length prev. \<forall>k<length nxt.
        IsProgram (prev ! i) \<and> IsProgram (nxt ! k) \<and> s_LibraryItemID (nxt ! k) = s_LibraryItemID (prev ! i) \<longrightarrow>
        limit \<le> programRuntime (drop i prev) + programRuntime (take k nxt))"

lemma repairSeam_rests:
  assumes pool: "same_pool prev nxt" and "\<forall>s\<in>set nxt. 0 \<le> slot_runtime s"
    and "milliseconds spacing \<le> programRuntime nxt"
  shows "rests_between (milliseconds spacing) prev (repairSeam prev nxt spacing)"
proof (cases "spacing \<le> 0 \<or> prev = []")
  case True
  then have "milliseconds spacing \<le> 0 \<or> prev = []" by (auto simp: milliseconds_def signed_divide_int_def sgn_if)
  moreover have "0 \<le> programRuntime (drop i prev) + programRuntime (take k nxt)" for i k
    using assms(2) pool by (intro add_nonneg_nonneg programRuntime_nonneg) (auto simp: same_pool_def dest: in_set_dropD in_set_takeD)
  ultimately show ?thesis using True by (auto simp: rests_between_def repairSeam_def intro: order_trans)
next
  case False
  then show ?thesis unfolding rests_between_def using held_rests [OF pool assms(3)] by (simp add: repairSeam_def)
qed

end
