(* ===== verification/Passes.thy ===== *)
theory Passes
  imports Seams Relax Rules Windows "HOL-Library.AList"
begin

text \<open>
  The ring of dealt passes, \<^verbatim>\<open>internal/schedule/passes.go\<close>: a channel's shuffled deck is dealt one pass
  at a time, each pass repaired against the one that aired before it, and the rolling window is a
  rotating slice of the ring.

  \<open>aired\<close> is the deck of a pass as a function of the inputs alone; \<open>deck\<close> is what the code does, with the
  shared memo of walked passes as explicit state. The lemmas show that the two agree whatever was
  asked before, that a pass keeps the repeat spacing after the deck it is repaired against (the pass before
  it; at an anchor the deck of the warm-up walk), and that a window takes no unit twice and is full.
\<close>

unbundle bit_operations_syntax

subsection \<open>Where passes count from, and their seeds\<close>

abbreviation chainBudget :: int where "chainBudget \<equiv> 2048"
abbreviation checkpointEvery :: int where "checkpointEvery \<equiv> 16"
abbreviation maxChainBound :: int where "maxChainBound \<equiv> 4096"
abbreviation stableDecks :: nat where "stableDecks \<equiv> 16"

definition chainBound :: "int \<Rightarrow> int" where
  "chainBound n = min (max (chainBudget sdiv max n 1 sdiv checkpointEvery * checkpointEvery) checkpointEvery) maxChainBound"

definition ResolveDealOrigin :: "gotime \<Rightarrow> gotime \<Rightarrow> gotime" where
  "ResolveDealOrigin createdAt playoutAnchor = (if \<not> is_zero_time createdAt then createdAt else playoutAnchor)"

definition dealOriginOf :: "Channel \<Rightarrow> gotime" where
  "dealOriginOf ch =
     (if \<not> is_zero_time (ch_DealOrigin ch) then ch_DealOrigin ch
      else AddDate (midnight (day_number 2025 1 1)) 0 0 (uint (fnv64a (ch_ID ch) mod 365)))"

definition channelSeed :: "Channel \<Rightarrow> 64 word" where
  "channelSeed ch =
     (if sp_Seed (ch_Shuffle ch) \<noteq> 0 then sp_Seed (ch_Shuffle ch)
      else let s = fnv64a (ch_ID ch) in if s \<noteq> 0 then s else 1)"

definition passSeed :: "64 word \<Rightarrow> int \<Rightarrow> 64 word" where
  "passSeed seed pass = seed XOR (word_of_int pass * 0x9E3779B97F4A7C15)"

subsection \<open>The dealer\<close>

record deckDealer =
  dd_slots :: "Slot list"
  dd_rp :: ResolvedPolicy
  dd_seed :: "64 word"
  dd_window :: duration
  dd_spacing :: duration
  dd_reshuffle :: bool
  dd_whole :: bool
  dd_stable :: bool
  dd_pinned :: bool
  dd_bound :: int
  dd_warmUp :: int

definition longest_program :: "Slot list \<Rightarrow> int" where
  "longest_program slots = foldl (\<lambda>longest s. if IsProgram s then max longest (s_DurationMs s) else longest) 0 slots"

definition shortest_program :: "Slot list \<Rightarrow> int" where
  "shortest_program slots =
     foldl (\<lambda>shortest s. if IsProgram s \<and> (shortest < 0 \<or> s_DurationMs s < shortest) then s_DurationMs s else shortest)
       (-1) slots"

definition is_episode_slot :: "Slot \<Rightarrow> bool" where
  "is_episode_slot s \<longleftrightarrow> s_Season s > 0 \<or> s_SeriesTitle s \<noteq> ''''"

definition repeatSpacing :: "deckDealer \<Rightarrow> duration" where
  "repeatSpacing d =
     (let programs = filter IsProgram (dd_slots d);
          episodes = list_ex is_episode_slot programs;
          films = list_ex (\<lambda>s. \<not> is_episode_slot s) programs;
          wanted = (if episodes then rs_EpisodeNoRepeat (rp_Sep (dd_rp d)) else 0);
          wanted = (if films \<and> rs_MovieNoRepeat (rp_Sep (dd_rp d)) > wanted
                    then rs_MovieNoRepeat (rp_Sep (dd_rp d)) else wanted);
          pool = programRuntime (dd_slots d) * millisecond;
          unit = longest_program (dd_slots d) * millisecond;
          spacing = min wanted ((pool - 2 * unit) sdiv 3);
          floor0 = (if length programs \<ge> 2 then 2 * unit else 0);
          floor1 = (if \<not> dd_whole d
                    then max (max floor0 (min (2 * dd_window d + unit) (pool - dd_window d))) (dd_window d + unit)
                    else floor0)
      in max spacing (min floor1 pool))"

definition warmUpPasses :: "deckDealer \<Rightarrow> int \<Rightarrow> int" where
  "warmUpPasses d runtime =
     (let seam = (if dd_whole d then milliseconds (dd_window d) else runtime);
          spacing = milliseconds (dd_spacing d);
          slack = seam - spacing
      in if dd_pinned d \<or> slack \<le> 0 then 0
         else min (2 * ((spacing + slack - 1) sdiv slack) + 6) maxChainBound)"

definition newDeckDealer :: "Slot list \<Rightarrow> ResolvedPolicy \<Rightarrow> 64 word \<Rightarrow> duration \<Rightarrow> deckDealer" where
  "newDeckDealer slots rp seed window =
     (let d = \<lparr>dd_slots = slots, dd_rp = rp, dd_seed = seed, dd_window = window, dd_spacing = 0,
               dd_reshuffle = (rp_Ordering rp = OrderShuffle \<or> rp_Ordering rp = OrderSyndication),
               dd_whole = False, dd_stable = False, dd_pinned = False, dd_bound = 0, dd_warmUp = 0\<rparr>
      in if \<not> dd_reshuffle d then d
         else
           (let runtime = programRuntime slots;
                d = d\<lparr>dd_whole := (window > 0 \<and> runtime > 0 \<and> runtime \<le> milliseconds window)\<rparr>;
                d = d\<lparr>dd_spacing := repeatSpacing d\<rparr>;
                d = d\<lparr>dd_stable := (\<not> dd_whole d \<and> 3 * milliseconds (dd_spacing d) + 2 * longest_program slots \<le> runtime)\<rparr>;
                d = d\<lparr>dd_pinned := (\<not> dd_whole d \<and> runtime - milliseconds (dd_spacing d) < shortest_program slots)\<rparr>;
                d = d\<lparr>dd_bound := chainBound (int (length (filter IsProgram slots)))\<rparr>
            in d\<lparr>dd_warmUp := warmUpPasses d runtime\<rparr>))"

definition deal :: "random_draw \<Rightarrow> deckDealer \<Rightarrow> int \<Rightarrow> Slot list \<times> AppliedRelaxation list" where
  "deal draw d pass = slotWithRelaxation draw (dd_slots d) (dd_rp d) (passSeed (dd_seed d) pass)"

definition base :: "random_draw \<Rightarrow> deckDealer \<Rightarrow> int \<Rightarrow> Slot list \<times> AppliedRelaxation list" where
  "base draw d pass = deal draw d (if \<not> dd_reshuffle d then 0 else pass)"

definition applied :: "random_draw \<Rightarrow> deckDealer \<Rightarrow> int \<Rightarrow> AppliedRelaxation list" where
  "applied draw d pass = snd (base draw d pass)"

definition repair :: "deckDealer \<Rightarrow> Slot list \<Rightarrow> Slot list \<Rightarrow> Slot list" where
  "repair d prev nxt =
     repairSeam (if dd_whole d then loopedWindow prev (milliseconds (dd_window d)) else prev) nxt (dd_spacing d)"

text \<open>Walking \<open>n\<close> passes on from pass \<open>p\<close>, whose deck is \<open>cur\<close>.\<close>

fun walk :: "random_draw \<Rightarrow> deckDealer \<Rightarrow> Slot list \<Rightarrow> int \<Rightarrow> nat \<Rightarrow> Slot list" where
  "walk draw d cur p 0 = cur"
| "walk draw d cur p (Suc n) = walk draw d (repair d cur (fst (deal draw d (p + 1)))) (p + 1) n"

definition warmedUp :: "random_draw \<Rightarrow> deckDealer \<Rightarrow> int \<Rightarrow> Slot list" where
  "warmedUp draw d anchor =
     (let start = anchor - max (dd_warmUp d) 1
      in if start \<le> 0 then walk draw d (fst (base draw d 0)) 0 (nat (anchor - 1))
         else walk draw d (fst (deal draw d start)) start (nat (anchor - 1 - start)))"

text \<open>The deck a segment of passes starts with, at its anchor.\<close>

definition segment_start :: "random_draw \<Rightarrow> deckDealer \<Rightarrow> int \<Rightarrow> Slot list" where
  "segment_start draw d anchor =
     (if anchor = 0 then fst (base draw d 0)
      else repair d (warmedUp draw d anchor) (fst (deal draw d anchor)))"

definition anchor_of :: "deckDealer \<Rightarrow> int \<Rightarrow> int" where
  "anchor_of d pass = pass - pass smod dd_bound d"

text \<open>The deck of a pass as it airs, without the memo.\<close>

definition aired :: "random_draw \<Rightarrow> deckDealer \<Rightarrow> int \<Rightarrow> Slot list" where
  "aired draw d pass =
     (if \<not> dd_reshuffle d then fst (base draw d 0)
      else if pass \<le> 0 then fst (base draw d pass)
      else if dd_pinned d then fst (base draw d 0)
      else if dd_stable d then repair d (fst (base draw d (pass - 1))) (fst (base draw d pass))
      else walk draw d (segment_start draw d (anchor_of d pass)) (anchor_of d pass) (nat (pass - anchor_of d pass)))"

subsection \<open>The shared memo\<close>

text \<open>\<^verbatim>\<open>dealChain.decks\<close>: the passes already walked. A stored deck is told from a missing one by the key.\<close>

type_synonym dealChain = "(int \<times> Slot list) list"

function nearest_walked :: "dealChain \<Rightarrow> int \<Rightarrow> int \<Rightarrow> (int \<times> Slot list) option" where
  "nearest_walked decks anchor p =
     (if p < anchor then None
      else case map_of decks p of Some deck \<Rightarrow> Some (p, deck) | None \<Rightarrow> nearest_walked decks anchor (p - 1))"
  by pat_completeness auto

termination nearest_walked
  by (relation "measure (\<lambda>(decks, anchor, p). nat (p + 1 - anchor))") auto

declare nearest_walked.simps [simp del]

fun walk_keeping :: "random_draw \<Rightarrow> deckDealer \<Rightarrow> Slot list \<Rightarrow> dealChain \<Rightarrow> int \<Rightarrow> nat \<Rightarrow> Slot list \<times> dealChain" where
  "walk_keeping draw d cur decks p 0 = (cur, decks)"
| "walk_keeping draw d cur decks p (Suc n) =
     (let cur = repair d cur (fst (deal draw d (p + 1)))
      in walk_keeping draw d cur (AList.update (p + 1) cur decks) (p + 1) n)"

definition forgetFar :: "deckDealer \<Rightarrow> int \<Rightarrow> dealChain \<Rightarrow> dealChain" where
  "forgetFar d pass decks =
     (let seg = pass sdiv dd_bound d
      in filter (\<lambda>(p, deck). \<not> (p smod checkpointEvery \<noteq> 0 \<and>
                  (p sdiv dd_bound d < seg - 1 \<or> p sdiv dd_bound d > seg + 1))) decks)"

definition deckAt :: "random_draw \<Rightarrow> deckDealer \<Rightarrow> dealChain \<Rightarrow> int \<Rightarrow> Slot list \<times> dealChain" where
  "deckAt draw d decks pass =
     (case map_of decks pass of
        Some deck \<Rightarrow> (deck, decks)
      | None \<Rightarrow>
          if dd_stable d
          then (let deck = repair d (fst (base draw d (pass - 1))) (fst (base draw d pass));
                    decks = (if length decks \<ge> stableDecks then [] else decks)
                in (deck, AList.update pass deck decks))
          else (let anchor = anchor_of d pass;
                    (p, cur, decks) =
                      (case nearest_walked decks anchor (pass - 1) of
                         Some (p, deck) \<Rightarrow> (p, deck, decks)
                       | None \<Rightarrow> (let cur = segment_start draw d anchor
                                  in (anchor, cur, AList.update anchor cur decks)));
                    (cur, decks) = walk_keeping draw d cur decks p (nat (pass - p))
                in (cur, forgetFar d pass decks)))"

definition dealer_deck :: "random_draw \<Rightarrow> deckDealer \<Rightarrow> dealChain \<Rightarrow> int \<Rightarrow> Slot list \<times> dealChain" where
  "dealer_deck draw d decks pass =
     (if \<not> dd_reshuffle d then (fst (base draw d 0), decks)
      else if pass \<le> 0 then (fst (base draw d pass), decks)
      else if dd_pinned d then (fst (base draw d 0), decks)
      else deckAt draw d decks pass)"

text \<open>The decks a channel is given over a run of questions, in any order.\<close>

fun asked :: "random_draw \<Rightarrow> deckDealer \<Rightarrow> dealChain \<Rightarrow> int list \<Rightarrow> Slot list list" where
  "asked draw d decks [] = []"
| "asked draw d decks (p # ps) = (let (out, decks) = dealer_deck draw d decks p in out # asked draw d decks ps)"

subsection \<open>The memo is transparent\<close>

lemma chainBound_bounds: "16 \<le> chainBound n" "chainBound n \<le> 4096"
  by (simp_all add: chainBound_def)

lemma newDeckDealer_bound: "dd_reshuffle (newDeckDealer slots rp seed window) \<Longrightarrow> 0 < dd_bound (newDeckDealer slots rp seed window)"
  using chainBound_bounds(1) [of "int (length (filter IsProgram slots))"] by (simp add: newDeckDealer_def Let_def split: if_splits)

lemma anchor_of_nonneg: "0 \<le> p \<Longrightarrow> 0 < dd_bound d \<Longrightarrow> anchor_of d p = p div dd_bound d * dd_bound d"
  by (simp add: anchor_of_def minus_mod_eq_div_mult)

lemma anchor_of_le:
  assumes "0 \<le> p" and "0 < dd_bound d"
  shows "anchor_of d p \<le> p" and "0 \<le> anchor_of d p"
  using assms by (auto simp: anchor_of_def zmod_le_nonneg_dividend)

lemma anchor_of_between:
  assumes "0 < dd_bound d" and "0 \<le> p" and "anchor_of d p \<le> q" and "q \<le> p"
  shows "anchor_of d q = anchor_of d p"
proof -
  have "0 \<le> q" using anchor_of_le [OF assms(2,1)] assms(3) by linarith
  have "p div dd_bound d * dd_bound d \<le> q" using assms by (simp add: anchor_of_nonneg)
  then have "p div dd_bound d \<le> q div dd_bound d" using zdiv_mono1 [of "p div dd_bound d * dd_bound d" q "dd_bound d"] assms(1) by simp
  moreover have "q div dd_bound d \<le> p div dd_bound d" using assms by (simp add: zdiv_mono1)
  ultimately show ?thesis using assms \<open>0 \<le> q\<close> by (simp add: anchor_of_nonneg)
qed

lemma walk_add: "walk draw d cur p (m + n) = walk draw d (walk draw d cur p m) (p + int m) n"
  by (induction m arbitrary: cur p) (simp_all add: algebra_simps)

definition chained :: "deckDealer \<Rightarrow> bool" where
  "chained d \<longleftrightarrow> dd_reshuffle d \<and> \<not> dd_pinned d \<and> \<not> dd_stable d \<and> 0 < dd_bound d"

lemma aired_anchor:
  assumes "chained d" and "0 \<le> p"
  shows "aired draw d (anchor_of d p) = segment_start draw d (anchor_of d p)"
proof -
  have a: "0 \<le> anchor_of d p" "anchor_of d (anchor_of d p) = anchor_of d p"
    using assms anchor_of_le [of p d] anchor_of_between [of d p "anchor_of d p"] by (auto simp: chained_def)
  show ?thesis
  proof (cases "anchor_of d p = 0")
    case True
    then show ?thesis using assms by (simp add: aired_def segment_start_def chained_def)
  next
    case False
    then show ?thesis using a assms by (simp add: aired_def chained_def)
  qed
qed

lemma aired_walk:
  assumes "chained d" and "0 \<le> p" and "anchor_of d p \<le> q" and "q \<le> p"
  shows "aired draw d p = walk draw d (aired draw d q) q (nat (p - q))"
proof -
  let ?a = "anchor_of d p"
  have b: "0 < dd_bound d" using assms(1) by (simp add: chained_def)
  have a: "0 \<le> ?a" using anchor_of_le [OF assms(2) b] by simp
  have from_anchor: "aired draw d r = walk draw d (segment_start draw d ?a) ?a (nat (r - ?a))"
    if "?a \<le> r" "r \<le> p" for r
  proof (cases "r = 0")
    case True
    then show ?thesis using aired_anchor [OF assms(1), of r draw] anchor_of_between [OF b assms(2) that] a that by auto
  next
    case False
    then show ?thesis using assms(1) a that anchor_of_between [OF b assms(2) that] by (auto simp: aired_def chained_def)
  qed
  have "nat (p - ?a) = nat (q - ?a) + nat (p - q)" using assms by simp
  then show ?thesis using from_anchor [of p] from_anchor [of q] assms walk_add [of draw d _ ?a "nat (q - ?a)" "nat (p - q)"] by simp
qed

lemma aired_step:
  assumes "chained d" and "0 < p" and "p smod dd_bound d \<noteq> 0"
  shows "aired draw d p = repair d (aired draw d (p - 1)) (fst (deal draw d p))"
proof -
  have b: "0 < dd_bound d" using assms(1) by (simp add: chained_def)
  have "0 < p mod dd_bound d" using assms b by (simp add: order_less_le)
  then have "anchor_of d p \<le> p - 1" using assms b by (simp add: anchor_of_def)
  then show ?thesis using aired_walk [OF assms(1), of p "p - 1" draw] assms(2) by (simp add: nat_eq_iff)
qed

definition chain_ok :: "random_draw \<Rightarrow> deckDealer \<Rightarrow> dealChain \<Rightarrow> bool" where
  "chain_ok draw d decks \<longleftrightarrow> (\<forall>p deck. map_of decks p = Some deck \<longrightarrow> deck = aired draw d p) \<and> distinct (map fst decks)"

lemma chain_ok_update: "chain_ok draw d decks \<Longrightarrow> chain_ok draw d (AList.update p (aired draw d p) decks)"
  by (auto simp: chain_ok_def update_conv distinct_update split: if_splits)

lemma chain_ok_filter:
  assumes "chain_ok draw d decks"
  shows "chain_ok draw d (filter P decks)"
proof -
  have "distinct (map fst (filter P decks))" using assms by (simp add: chain_ok_def distinct_map_filter)
  moreover have "map_of decks p = Some deck" if "map_of (filter P decks) p = Some deck" for p deck
    using map_of_SomeD [OF that] assms by (auto simp: chain_ok_def)
  ultimately show ?thesis using assms by (auto simp: chain_ok_def)
qed

lemma forgetFar_ok: "chain_ok draw d decks \<Longrightarrow> chain_ok draw d (forgetFar e p decks)"
  by (simp add: forgetFar_def Let_def chain_ok_filter)

lemma nearest_walked_found:
  "nearest_walked decks anchor p = Some (q, deck) \<Longrightarrow> anchor \<le> q \<and> q \<le> p \<and> map_of decks q = Some deck"
  by (induction decks anchor p rule: nearest_walked.induct)
    (subst (asm) nearest_walked.simps, fastforce split: if_splits option.splits)

lemma walk_keeping_ok:
  assumes "chained d" and "chain_ok draw d decks" and "0 \<le> p" and "anchor_of d p \<le> q" and "q + int n = p"
  shows "fst (walk_keeping draw d (aired draw d q) decks q n) = aired draw d p \<and>
         chain_ok draw d (snd (walk_keeping draw d (aired draw d q) decks q n))"
  using assms(2,4,5)
proof (induction n arbitrary: q decks)
  case 0
  then show ?case by simp
next
  case (Suc n)
  have b: "0 < dd_bound d" using assms(1) by (simp add: chained_def)
  have "anchor_of d (q + 1) = anchor_of d p" "0 \<le> q"
    using anchor_of_between [OF b assms(3), of "q + 1"] anchor_of_le [OF assms(3) b] Suc.prems by auto
  then have "repair d (aired draw d q) (fst (deal draw d (q + 1))) = aired draw d (q + 1)"
    using aired_walk [OF assms(1), of "q + 1" q draw] Suc.prems by simp
  then show ?case using Suc.IH [of "AList.update (q + 1) (aired draw d (q + 1)) decks" "q + 1"] Suc.prems
    by (simp add: Let_def chain_ok_update)
qed

lemma deckAt_ok:
  assumes "dd_reshuffle d" and "\<not> dd_pinned d" and "0 < dd_bound d" and "0 < p" and ok: "chain_ok draw d decks"
  shows "fst (deckAt draw d decks p) = aired draw d p \<and> chain_ok draw d (snd (deckAt draw d decks p))"
proof (cases "map_of decks p")
  case (Some deck)
  then show ?thesis using ok by (simp add: deckAt_def chain_ok_def)
next
  case none: None
  show ?thesis
  proof (cases "dd_stable d")
    case True
    then have "aired draw d p = repair d (fst (base draw d (p - 1))) (fst (base draw d p))"
      using assms by (simp add: aired_def)
    then show ?thesis using none True ok chain_ok_update [of draw d _ p] by (simp add: deckAt_def Let_def chain_ok_def [of _ _ "[]"])
  next
    case False
    then have c: "chained d" using assms by (simp add: chained_def)
    note anchor = anchor_of_le [of p d, OF less_imp_le [OF assms(4)] assms(3)]
    have walked: "fst (walk_keeping draw d (aired draw d q) decks' q (nat (p - q))) = aired draw d p \<and>
        chain_ok draw d (snd (walk_keeping draw d (aired draw d q) decks' q (nat (p - q))))"
      if "anchor_of d p \<le> q" "q \<le> p" "chain_ok draw d decks'" for q decks'
      using walk_keeping_ok [OF c that(3), of p q "nat (p - q)"] that assms(4) by simp
    show ?thesis
    proof (cases "nearest_walked decks (anchor_of d p) (p - 1)")
      case None
      have "segment_start draw d (anchor_of d p) = aired draw d (anchor_of d p)"
        using aired_anchor [OF c] assms(4) by simp
      then show ?thesis
        using none False None walked [OF order.refl anchor(1) chain_ok_update [OF ok, of "anchor_of d p"]]
        by (simp add: deckAt_def Let_def split_beta forgetFar_ok)
    next
      case (Some found)
      obtain q deck where found: "found = (q, deck)" by (cases found)
      note at = nearest_walked_found [OF Some [unfolded found]]
      then have "deck = aired draw d q" using ok by (simp add: chain_ok_def)
      then show ?thesis
        using none False Some found at walked [of q decks] ok
        by (simp add: deckAt_def Let_def split_beta forgetFar_ok)
    qed
  qed
qed

lemma deck_ok:
  assumes "dd_reshuffle d \<Longrightarrow> 0 < dd_bound d" and "chain_ok draw d decks"
  shows "fst (dealer_deck draw d decks p) = aired draw d p \<and> chain_ok draw d (snd (dealer_deck draw d decks p))"
  using assms deckAt_ok [of d p draw decks] by (simp add: dealer_deck_def aired_def)

text \<open>
  C7. The memo of walked passes never shows: asked for any passes in any order, again and again, a
  channel is given exactly the decks that the inputs and the pass number determine.
\<close>

theorem asked_aired:
  "asked draw (newDeckDealer slots rp seed window) [] ps = map (aired draw (newDeckDealer slots rp seed window)) ps"
proof -
  let ?d = "newDeckDealer slots rp seed window"
  have "chain_ok draw ?d decks \<Longrightarrow> asked draw ?d decks ps = map (aired draw ?d) ps" for decks
  proof (induction ps arbitrary: decks)
    case (Cons p ps)
    then show ?case using deck_ok [of ?d draw decks p] newDeckDealer_bound by (simp add: split_beta)
  qed simp
  then show ?thesis by (simp add: chain_ok_def)
qed

subsection \<open>Consecutive passes keep the repeat spacing\<close>

lemma mset_relax_loop: "mset ordered = mset slots \<Longrightarrow> mset (fst (relax_loop n draw slots seed cur ordered notes')) = mset slots"
  by (induction n arbitrary: cur ordered notes') (auto simp: Let_def split: option.split)

lemma mset_deal [simp]: "mset (fst (deal draw d pass)) = mset (dd_slots d)"
  by (simp add: deal_def slotWithRelaxation_def relaxAndSlot_def Let_def mset_relax_loop)

lemma mset_base [simp]: "mset (fst (base draw d pass)) = mset (dd_slots d)"
  by (simp add: base_def)

lemma mset_repair [simp]: "mset (repair d prev nxt) = mset nxt"
  by (simp add: repair_def)

lemma mset_walk: "mset cur = mset (dd_slots d) \<Longrightarrow> mset (walk draw d cur p n) = mset (dd_slots d)"
  by (induction n arbitrary: cur p) simp_all

lemma mset_aired [simp]: "mset (aired draw d pass) = mset (dd_slots d)"
  by (simp add: aired_def mset_walk segment_start_def)

interpretation pass_deck: arrangement "\<lambda>slots. aired draw (d\<lparr>dd_slots := slots\<rparr>) pass" for draw d pass
  by unfold_locales simp

lemma length_aired [simp]: "length (aired draw d pass) = length (dd_slots d)"
  by (rule mset_eq_length) simp

lemma newDeckDealer_slots [simp]: "dd_slots (newDeckDealer slots rp seed window) = slots"
  by (simp add: newDeckDealer_def Let_def)

lemma longest_program_ge:
  assumes "s \<in> set slots" and "IsProgram s"
  shows "s_DurationMs s \<le> longest_program slots"
proof -
  let ?f = "\<lambda>longest s. if IsProgram s then max longest (s_DurationMs s) else longest"
  have "a \<le> foldl ?f a xs" for a xs
  proof (induction xs arbitrary: a)
    case (Cons t ts)
    from Cons [of "max a (s_DurationMs t)"] Cons [of a] show ?case by auto
  qed simp
  moreover have "s_DurationMs s \<le> foldl ?f a slots" for a
    using assms
  proof (induction slots arbitrary: a)
    case (Cons t ts)
    then show ?case using calculation [of "max a (s_DurationMs s)" ts] by auto
  qed simp
  ultimately show ?thesis by (simp add: longest_program_def)
qed

lemma longest_program_nonneg: "0 \<le> longest_program slots"
proof -
  have "0 \<le> a \<Longrightarrow> 0 \<le> foldl (\<lambda>longest s. if IsProgram s then max longest (s_DurationMs s) else longest) a slots" for a
    by (induction slots arbitrary: a) auto
  then show ?thesis by (simp add: longest_program_def)
qed

lemma milliseconds_le:
  assumes "d \<le> n * millisecond" and "0 \<le> n"
  shows "milliseconds d \<le> n"
proof (cases "0 \<le> d")
  case True
  then show ?thesis using zdiv_mono1 [OF assms(1), of millisecond] by (simp add: milliseconds_def)
next
  case False
  then have "milliseconds d \<le> 0" by (simp add: milliseconds_def signed_divide_int_def sgn_if)
  then show ?thesis using assms(2) by simp
qed

lemma repeatSpacing_le_pool:
  assumes "0 \<le> programRuntime (dd_slots d)"
  shows "milliseconds (repeatSpacing d) \<le> programRuntime (dd_slots d)"
proof -
  let ?pool = "programRuntime (dd_slots d) * millisecond"
  have third: "x sdiv 3 \<le> ?pool" if "x \<le> ?pool" for x
  proof (cases "0 \<le> x")
    case True
    then show ?thesis using that by simp
  next
    case False
    then have "x sdiv 3 \<le> 0" by (simp add: signed_divide_int_def sgn_if)
    moreover have "0 \<le> ?pool" using assms by simp
    ultimately show ?thesis by (rule order_trans)
  qed
  have "repeatSpacing d \<le> ?pool"
    unfolding repeatSpacing_def Let_def max.bounded_iff [of _ _ ?pool]
    by (intro conjI min.coboundedI2 third order.refl) (use longest_program_nonneg [of "dd_slots d"] in simp)
  then show ?thesis using assms milliseconds_le by blast
qed

lemma newDeckDealer_spacing:
  assumes "0 \<le> programRuntime slots"
  shows "milliseconds (dd_spacing (newDeckDealer slots rp seed window)) \<le> programRuntime slots"
proof -
  obtain d where "dd_slots d = slots"
    "dd_spacing (newDeckDealer slots rp seed window) = 0 \<or> dd_spacing (newDeckDealer slots rp seed window) = repeatSpacing d"
    by (rule that [of "(newDeckDealer slots rp seed window)\<lparr>dd_spacing := 0, dd_stable := False, dd_pinned := False,
          dd_bound := 0, dd_warmUp := 0\<rparr>"])
      (simp_all add: newDeckDealer_def Let_def)
  then show ?thesis using repeatSpacing_le_pool [of d] assms by (auto simp: milliseconds_def)
qed

lemma newDeckDealer_stable:
  "dd_stable (newDeckDealer slots rp seed window) \<Longrightarrow>
   3 * milliseconds (dd_spacing (newDeckDealer slots rp seed window)) + 2 * longest_program slots \<le> programRuntime slots"
  by (auto simp: newDeckDealer_def Let_def split: if_splits)

lemma mset_same_ids:
  assumes "mset xs = mset ys"
  shows "distinct (map s_LibraryItemID (filter IsProgram xs)) = distinct (map s_LibraryItemID (filter IsProgram ys))"
  using mset_filter_eq [OF assms] by (intro mset_eq_imp_distinct_iff) simp

text \<open>
  The deck a pass is repaired against: the pass aired before it, except at an anchor of a chained pool,
  where the segment before is not walked again and a warm-up walk stands in for its last pass.
\<close>

definition at_anchor :: "deckDealer \<Rightarrow> int \<Rightarrow> bool" where
  "at_anchor d p \<longleftrightarrow> \<not> dd_pinned d \<and> \<not> dd_stable d \<and> p smod dd_bound d = 0"

definition deck_before :: "random_draw \<Rightarrow> deckDealer \<Rightarrow> int \<Rightarrow> Slot list" where
  "deck_before draw d p = (if at_anchor d p then warmedUp draw d p else aired draw d (p - 1))"

text \<open>The warm-up walk has dealt, at a pass of the segment before the anchor, the deck that aired then.\<close>

definition warm_up_met :: "random_draw \<Rightarrow> deckDealer \<Rightarrow> int \<Rightarrow> int \<Rightarrow> bool" where
  "warm_up_met draw d p q \<longleftrightarrow>
     (let start = max 0 (p - max (dd_warmUp d) 1)
      in start \<le> q \<and> anchor_of d (p - 1) \<le> q \<and> q < p \<and>
         walk draw d (fst (deal draw d start)) start (nat (q - start)) = aired draw d q)"

lemma base_deal: "dd_reshuffle d \<Longrightarrow> base draw d p = deal draw d p"
  by (simp add: base_def)

lemma warmedUp_walk:
  assumes "dd_reshuffle d" and "start = max 0 (p - max (dd_warmUp d) 1)"
  shows "warmedUp draw d p = walk draw d (fst (deal draw d start)) start (nat (p - 1 - start))"
  using assms by (simp add: warmedUp_def base_deal Let_def max_def)

lemma aired_from_zero:
  assumes "chained d" and "0 \<le> r" and "anchor_of d r \<le> max (dd_warmUp d) 1"
  shows "aired draw d r = walk draw d (fst (deal draw d 0)) 0 (nat r)"
proof -
  let ?a = "anchor_of d r"
  have c: "dd_reshuffle d" "0 < dd_bound d" using assms(1) by (simp_all add: chained_def)
  note a = anchor_of_le [OF assms(2) c(2)]
  have "aired draw d ?a = walk draw d (fst (deal draw d 0)) 0 (nat ?a)"
  proof (cases "?a = 0")
    case True
    then show ?thesis using aired_anchor [OF assms(1,2), of draw] c by (simp add: segment_start_def base_deal)
  next
    case False
    then have pos: "0 < ?a" using a by simp
    have "max 0 (?a - max (dd_warmUp d) 1) = 0" using assms(3) by simp
    then have "warmedUp draw d ?a = walk draw d (fst (deal draw d 0)) 0 (nat (?a - 1))"
      using warmedUp_walk [OF c(1), of 0 ?a draw] by simp
    moreover have "nat ?a = nat (?a - 1) + 1" using pos by simp
    ultimately show ?thesis
      using aired_anchor [OF assms(1,2), of draw] pos walk_add [of draw d "fst (deal draw d 0)" 0 "nat (?a - 1)" 1]
      by (simp add: segment_start_def)
  qed
  moreover have "nat r = nat ?a + nat (r - ?a)" using a by simp
  ultimately show ?thesis
    using aired_walk [OF assms(1,2) order.refl a(1), of draw] a
      walk_add [of draw d "fst (deal draw d 0)" 0 "nat ?a" "nat (r - ?a)"] by simp
qed

text \<open>The stand-in is the deck that aired where the warm-up reaches back to pass 0 or has met the walk that aired.\<close>

lemma deck_before_exact:
  assumes "dd_reshuffle d" and "0 < dd_bound d" and "0 < p"
    and "\<not> at_anchor d p \<or> p \<le> max (dd_warmUp d) 1 \<or> warm_up_met draw d p q"
  shows "deck_before draw d p = aired draw d (p - 1)"
proof (cases "at_anchor d p")
  case False
  then show ?thesis by (simp add: deck_before_def)
next
  case True
  then have c: "chained d" using assms by (simp add: chained_def at_anchor_def)
  define start where "start = max 0 (p - max (dd_warmUp d) 1)"
  have warm: "deck_before draw d p = walk draw d (fst (deal draw d start)) start (nat (p - 1 - start))"
    using True warmedUp_walk [OF assms(1) start_def] by (simp add: deck_before_def)
  show ?thesis
  proof (cases "p \<le> max (dd_warmUp d) 1")
    case near: True
    then have "anchor_of d (p - 1) \<le> max (dd_warmUp d) 1" using anchor_of_le [of "p - 1" d] assms by simp
    from aired_from_zero [OF c _ this] near show ?thesis using warm assms(3) by (simp add: start_def)
  next
    case False
    then have m: "start \<le> q" "anchor_of d (p - 1) \<le> q" "q < p"
      "walk draw d (fst (deal draw d start)) start (nat (q - start)) = aired draw d q"
      using assms(4) True by (auto simp only: warm_up_met_def Let_def start_def)
    have "nat (p - 1 - start) = nat (q - start) + nat (p - 1 - q)" using m by simp
    then show ?thesis
      using warm m walk_add [of draw d "fst (deal draw d start)" start "nat (q - start)" "nat (p - 1 - q)"]
        aired_walk [OF c, of "p - 1" q draw] assms(3) by simp
  qed
qed

text \<open>
  C6. A unit never airs again inside the repeat spacing across a seam. In every regime of a pool wider than
  a window (tail-stable, pinned and chained, anchors included), for units told apart by their library item
  and durations that are not negative: from its start in the deck a pass is repaired against to its start in
  the pass, at least the spacing airs, and every pass airs exactly the pool. That deck is the pass aired
  before it, except at an anchor of a chained pool, where it is the warm-up walk's deck; the two are the same
  where the warm-up reaches back to pass 0, and where the warm-up walk has dealt the deck that aired at some
  pass of the segment before.
\<close>

theorem aired_rests:
  assumes "d = newDeckDealer slots rp seed window"
    and units: "distinct (map s_LibraryItemID (filter IsProgram slots))"
    and durations: "\<forall>s\<in>set slots. 0 \<le> s_DurationMs s"
    and "dd_reshuffle d" and wide: "\<not> dd_whole d" and "0 < p"
  shows "rests_between (milliseconds (dd_spacing d)) (deck_before draw d p) (aired draw d p) \<and>
    mset (aired draw d p) = mset slots \<and>
    (\<not> at_anchor d p \<or> p \<le> max (dd_warmUp d) 1 \<or> warm_up_met draw d p q \<longrightarrow>
       deck_before draw d p = aired draw d (p - 1))"
proof -
  have slots: "dd_slots d = slots" using assms(1) by simp
  have nonneg: "\<forall>s\<in>set xs. 0 \<le> slot_runtime s" if "mset xs = mset slots" for xs
    using durations mset_eq_setD [OF that] by (simp add: slot_runtime_def)
  have pool: "same_pool xs ys" if "mset xs = mset slots" "mset ys = mset slots" for xs ys
    using units nonneg [OF that(1)] mset_same_ids [OF that(1)] mset_filter_eq [of ys xs] that by (simp add: same_pool_def)
  have runtime: "milliseconds (dd_spacing d) \<le> programRuntime xs" if "mset xs = mset slots" for xs
    using newDeckDealer_spacing [of slots rp seed window] programRuntime_mset [OF that] nonneg [of slots]
    by (simp add: assms(1) programRuntime_nonneg)
  have rests: "rests_between (milliseconds (dd_spacing d)) prev (repair d prev nxt)"
    if "mset prev = mset slots" "mset nxt = mset slots" for prev nxt
    using repairSeam_rests [OF pool [OF that] nonneg [OF that(2)] runtime [OF that(2)]] wide by (simp add: repair_def)
  have bound: "0 < dd_bound d" using assms newDeckDealer_bound by simp
  have "rests_between (milliseconds (dd_spacing d)) (deck_before draw d p) (aired draw d p)"
  proof (cases "dd_pinned d")
    case True
    then have before: "deck_before draw d p = aired draw d (p - 1)" by (simp add: deck_before_def at_anchor_def)
    from True have same: "aired draw d (p - 1) = fst (base draw d 0)" "aired draw d p = fst (base draw d 0)"
      using assms by (cases "p = 1"; simp add: aired_def)+
    have "distinct (map s_LibraryItemID (filter IsProgram (fst (base draw d 0))))"
      using pool [of "fst (base draw d 0)" slots] slots by (simp add: same_pool_def)
    from nth_unit_unique [OF this] show ?thesis
      using runtime [of "fst (base draw d 0)"] programRuntime_take_drop [of "fst (base draw d 0)"] slots
      unfolding before same rests_between_def by (metis add.commute mset_base)
  next
    case loose: False
    show ?thesis
    proof (cases "dd_stable d")
      case True
      let ?b = "\<lambda>q. fst (base draw d q)"
      have step: "aired draw d p = repair d (?b (p - 1)) (?b p)" using True loose assms by (simp add: aired_def)
      have "repair d (aired draw d (p - 1)) (?b p) = repair d (?b (p - 1)) (?b p)"
      proof (cases "p = 1")
        case True
        then show ?thesis using assms by (simp add: aired_def)
      next
        case False
        have "\<forall>s\<in>set (?b (p - 1)). slot_runtime s \<le> longest_program slots"
          using mset_eq_setD [OF mset_base [of draw d "p - 1"]] slots longest_program_ge [of _ slots] longest_program_nonneg [of slots]
          by (simp add: slot_runtime_def)
        moreover have "3 * milliseconds (dd_spacing d) + longest_program slots \<le> programRuntime (?b (p - 1))"
          using newDeckDealer_stable [OF \<open>dd_stable d\<close> [unfolded assms(1)]] longest_program_nonneg [of slots]
            programRuntime_mset [OF mset_base [of draw d "p - 1"]]
          by (simp add: assms(1))
        ultimately have "repairSeam (repairSeam (?b (p - 2)) (?b (p - 1)) (dd_spacing d)) (?b p) (dd_spacing d) =
            repairSeam (?b (p - 1)) (?b p) (dd_spacing d)"
          using pool [of "?b (p - 2)" "?b (p - 1)"] nonneg [of "?b (p - 1)"] slots longest_program_nonneg
          by (intro repairSeam_tail_stable [of _ _ "longest_program slots"]) simp_all
        moreover have "aired draw d (p - 1) = repair d (?b (p - 2)) (?b (p - 1))"
          using False True loose assms by (simp add: aired_def)
        ultimately show ?thesis using wide by (simp add: repair_def)
      qed
      then show ?thesis
        using step rests [of "aired draw d (p - 1)" "?b p"] slots True by (simp add: deck_before_def at_anchor_def)
    next
      case False
      then have c: "chained d" using assms loose bound by (simp add: chained_def)
      show ?thesis
      proof (cases "at_anchor d p")
        case True
        then have "anchor_of d p = p" by (simp add: at_anchor_def anchor_of_def)
        then have "aired draw d p = repair d (warmedUp draw d p) (fst (deal draw d p))"
          using aired_anchor [OF c, of p draw] assms(6) by (simp add: segment_start_def)
        moreover have "mset (warmedUp draw d p) = mset slots" by (simp add: warmedUp_def Let_def mset_walk slots)
        ultimately show ?thesis using True rests slots by (simp add: deck_before_def)
      next
        case free: False
        then have "p smod dd_bound d \<noteq> 0" using loose False by (simp add: at_anchor_def)
        from aired_step [OF c assms(6) this] free show ?thesis using rests slots by (simp add: deck_before_def)
      qed
    qed
  qed
  then show ?thesis using slots deck_before_exact [OF assms(4) bound assms(6)] by auto
qed

definition shuffled_rp :: ResolvedPolicy where
  "shuffled_rp = (sample_rp 1)\<lparr>rp_Ordering := OrderShuffle\<rparr>"

text \<open>A chained pool at its first anchor, with draws that keep every deck in its order.\<close>

abbreviation still :: random_draw where "still \<equiv> \<lambda>_ _ i. i"

definition chained_sample :: deckDealer where
  "chained_sample = newDeckDealer sample_pool shuffled_rp 7 0"

lemma chained_sample_fields:
  "dd_reshuffle chained_sample" "\<not> dd_whole chained_sample" "\<not> dd_pinned chained_sample" "\<not> dd_stable chained_sample"
  "dd_bound chained_sample = 512" "dd_warmUp chained_sample = 8"
  by code_simp+

lemma chained_sample_pool: "dd_slots chained_sample = sample_pool" "dd_rp chained_sample = shuffled_rp"
  by (simp_all add: chained_sample_def newDeckDealer_def Let_def)

lemma slotByPolicy_still: "slotByPolicy still slots rp s = slotByPolicy still slots rp 0"
  by (cases "partitionPrograms slots")
    (simp add: slotByPolicy_def order_programs_def syndicationDeck_def seededShuffle_def split: OrderingMode.split)

lemma relax_loop_still: "relax_loop n still slots s cur ordered msgs = relax_loop n still slots 0 cur ordered msgs"
  by (induction n arbitrary: cur ordered msgs)
    (simp_all add: slotByPolicy_still [of slots _ s] Let_def split: option.split prod.split)

lemma deal_still: "deal still d p = slotWithRelaxation still (dd_slots d) (dd_rp d) 0"
  by (simp add: deal_def slotWithRelaxation_def relaxAndSlot_def slotByPolicy_still [of _ _ "passSeed (dd_seed d) p"]
      relax_loop_still [of _ _ "passSeed (dd_seed d) p"] Let_def)

lemma walk_fixed: "repair d cur cur = cur \<Longrightarrow> (\<And>p. fst (deal draw d p) = cur) \<Longrightarrow> walk draw d cur p n = cur"
  by (induction n arbitrary: p) simp_all

theorem aired_rests_witness:
  "at_anchor chained_sample 512 \<and>
   rests_between (milliseconds (dd_spacing chained_sample)) (aired still chained_sample 511) (aired still chained_sample 512)"
proof -
  let ?d = chained_sample
  define cur where "cur = fst (slotWithRelaxation still sample_pool shuffled_rp 0)"
  have deal: "fst (deal still ?d p) = cur" for p
    by (simp add: deal_still cur_def chained_sample_pool)
  have fixed: "repair ?d cur cur = cur" unfolding cur_def by code_simp
  have "chained ?d" by (simp add: chained_def chained_sample_fields)
  from aired_walk [OF this, of 511 0 still] have "aired still ?d 511 = cur"
    using walk_fixed [OF fixed deal] deal
    by (simp add: anchor_of_def chained_sample_fields aired_def [of _ _ 0] base_deal)
  then have "warm_up_met still ?d 512 511"
    using walk_fixed [OF fixed deal] deal by (simp add: warm_up_met_def Let_def anchor_of_def chained_sample_fields)
  moreover have "at_anchor ?d 512" by (simp add: at_anchor_def chained_sample_fields)
  moreover have "distinct (map s_LibraryItemID (filter IsProgram sample_pool))" "\<forall>s\<in>set sample_pool. 0 \<le> s_DurationMs s"
    by (simp_all add: sample_pool_def sample_program_def empty_slot_def IsProgram_def)
  note rests = aired_rests [OF chained_sample_def this chained_sample_fields(1,2), of 512 still 511]
  ultimately have "deck_before still ?d 512 = aired still ?d (512 - 1)"
    "rests_between (milliseconds (dd_spacing ?d)) (deck_before still ?d 512) (aired still ?d 512)"
    using rests [OF zero_less_numeral] by blast+
  then show ?thesis using \<open>at_anchor ?d 512\<close> by simp
qed

subsection \<open>The rolling window\<close>

text \<open>The slot that holds the programme numbered \<open>start\<close>, or the end of the deck.\<close>

fun program_pos :: "int \<Rightarrow> Slot list \<Rightarrow> nat" where
  "program_pos start [] = 0"
| "program_pos start (s # ss) =
     (if IsProgram s then (if start = 0 then 0 else Suc (program_pos (start - 1) ss))
      else Suc (program_pos start ss))"

text \<open>
  The loop over the ring from the slot \<open>pos\<close> of pass \<open>walking\<close>; \<open>took\<close> and \<open>tookPrev\<close> are the
  programmes taken from the pass being walked and from the passes before it.
\<close>

function slice_loop ::
  "random_draw \<Rightarrow> deckDealer \<Rightarrow> int \<Rightarrow> nat \<Rightarrow> int \<Rightarrow> nat \<Rightarrow> string set \<Rightarrow> string set \<Rightarrow> int \<Rightarrow> Slot list"
where
  "slice_loop draw d budget steps walking pos took tookPrev acc =
     (if steps < 2 * length (aired draw d walking)
      then
        (let ended = (pos = length (aired draw d walking));
             walking = (if ended then walking + 1 else walking);
             pos = (if ended then 0 else pos);
             tookPrev = (if ended then tookPrev \<union> took else tookPrev);
             took = (if ended then {} else took);
             s = aired draw d walking ! pos
         in if \<not> IsProgram s then s # slice_loop draw d budget (Suc steps) walking (Suc pos) took tookPrev acc
            else if s_LibraryItemID s \<in> tookPrev
            then slice_loop draw d budget (Suc steps) walking (Suc pos) took tookPrev acc
            else if acc + s_DurationMs s \<ge> budget then [s]
            else s # slice_loop draw d budget (Suc steps) walking (Suc pos)
                       (insert (s_LibraryItemID s) took) tookPrev (acc + s_DurationMs s))
      else [])"
  by pat_completeness auto

termination slice_loop
  by (relation "measure (\<lambda>(draw, d, budget, steps, walking, pos, took, tookPrev, acc). 2 * length (dd_slots d) - steps)")
    auto

declare slice_loop.simps [simp del]

definition windowSliceDealt :: "random_draw \<Rightarrow> deckDealer \<Rightarrow> duration \<Rightarrow> int \<Rightarrow> Slot list \<times> int" where
  "windowSliceDealt draw d window index =
     (if dd_whole d then (aired draw d index, index)
      else
        (let first = aired draw d 0;
             nProg = int (length (filter IsProgram first));
             whole = programRuntime first;
             budget = milliseconds window
         in if window \<le> 0 \<or> first = [] then (first, 0)
            else if nProg = 0 \<or> whole \<le> budget \<or> whole = 0 then (first, 0)
            else
              (let stride = max (programsPerWindow first budget) 1;
                   ring = index * stride;
                   (pass, start) = (if ring smod nProg < 0 then (ring sdiv nProg - 1, ring smod nProg + nProg)
                                    else (ring sdiv nProg, ring smod nProg));
                   pass = (if \<not> dd_reshuffle d then 0 else pass)
               in (slice_loop draw d budget 0 pass (program_pos start (aired draw d pass)) {} {} 0, pass))))"

abbreviation unit_ids :: "Slot list \<Rightarrow> string list" where
  "unit_ids slots \<equiv> map s_LibraryItemID (filter IsProgram slots)"

lemma slice_stop: "2 * length (dd_slots d) \<le> steps \<Longrightarrow> slice_loop draw d budget steps walking pos took tookPrev acc = []"
  by (simp add: slice_loop.simps)

lemma slice_wrap:
  assumes "dd_slots d \<noteq> []"
  shows "slice_loop draw d budget steps walking (length (dd_slots d)) took tookPrev acc =
         slice_loop draw d budget steps (walking + 1) 0 {} (tookPrev \<union> took) acc"
  using assms by (subst (1 2) slice_loop.simps) simp

lemma slice_step:
  assumes "pos < length (dd_slots d)" and "steps < 2 * length (dd_slots d)" and "s = aired draw d walking ! pos"
  shows "slice_loop draw d budget steps walking pos took tookPrev acc =
    (if \<not> IsProgram s then s # slice_loop draw d budget (Suc steps) walking (Suc pos) took tookPrev acc
     else if s_LibraryItemID s \<in> tookPrev
     then slice_loop draw d budget (Suc steps) walking (Suc pos) took tookPrev acc
     else if acc + s_DurationMs s \<ge> budget then [s]
     else s # slice_loop draw d budget (Suc steps) walking (Suc pos)
                (insert (s_LibraryItemID s) took) tookPrev (acc + s_DurationMs s))"
  using assms by (subst slice_loop.simps) (simp add: Let_def)

lemma unit_ids_drop:
  "pos < length slots \<Longrightarrow> set (unit_ids (drop pos slots)) =
     (if IsProgram (slots ! pos) then {s_LibraryItemID (slots ! pos)} else {}) \<union> set (unit_ids (drop (Suc pos) slots))"
  by (auto simp flip: Cons_nth_drop_Suc)

lemma distinct_ids_drop:
  assumes "distinct (unit_ids slots)" and "pos < length slots" and "IsProgram (slots ! pos)"
  shows "s_LibraryItemID (slots ! pos) \<notin> set (unit_ids (drop (Suc pos) slots))"
proof -
  have "slots = take pos slots @ slots ! pos # drop (Suc pos) slots" using assms(2) by (rule id_take_nth_drop)
  then have "distinct (unit_ids (take pos slots @ slots ! pos # drop (Suc pos) slots))" using assms(1) by simp
  then show ?thesis using assms(3) by auto
qed

text \<open>Nothing is taken twice.\<close>

lemma slice_distinct:
  assumes units: "distinct (unit_ids (dd_slots d))"
    and "pos \<le> length (dd_slots d)" and "took \<inter> set (unit_ids (drop pos (aired draw d walking))) = {}"
    and "R = slice_loop draw d budget steps walking pos took tookPrev acc"
  shows "distinct (unit_ids R) \<and> set (unit_ids R) \<inter> (took \<union> tookPrev) = {}"
  using assms(2-)
proof (induction "2 * length (dd_slots d) - steps" arbitrary: steps walking pos took tookPrev acc R)
  case 0
  then show ?case by (simp add: slice_stop)
next
  case (Suc n)
  have aired_units: "distinct (unit_ids (aired draw d w))" for w
    using units mset_same_ids [OF mset_aired] by metis
  have step: "distinct (unit_ids R) \<and> set (unit_ids R) \<inter> (took \<union> tookPrev) = {}"
    if pos: "pos < length (dd_slots d)" and took: "took \<inter> set (unit_ids (drop pos (aired draw d walking))) = {}"
      and R: "R = slice_loop draw d budget steps walking pos took tookPrev acc"
    for walking pos took tookPrev R
  proof -
    define s where "s = aired draw d walking ! pos"
    have rest: "took \<inter> set (unit_ids (drop (Suc pos) (aired draw d walking))) = {}"
      "IsProgram s \<Longrightarrow> s_LibraryItemID s \<notin> took \<union> set (unit_ids (drop (Suc pos) (aired draw d walking)))"
      using took unit_ids_drop [of pos "aired draw d walking"] distinct_ids_drop [OF aired_units, of pos walking] pos
      by (auto simp: s_def)
    have "n = 2 * length (dd_slots d) - Suc steps" "steps < 2 * length (dd_slots d)" using Suc.hyps(2) by auto
    note IH = Suc.hyps(1) [OF this(1), of "Suc pos" _ walking] and R = R [unfolded slice_step [OF pos this(2) s_def]]
    consider "\<not> IsProgram s" | "IsProgram s" "s_LibraryItemID s \<in> tookPrev"
      | "IsProgram s" "s_LibraryItemID s \<notin> tookPrev" "budget \<le> acc + s_DurationMs s"
      | "IsProgram s" "s_LibraryItemID s \<notin> tookPrev" "\<not> budget \<le> acc + s_DurationMs s" by blast
    then show ?thesis
    proof cases
      case 1
      then show ?thesis using IH [OF _ rest(1) refl, of tookPrev acc] pos R by simp
    next
      case 2
      then show ?thesis using IH [OF _ rest(1) refl, of tookPrev acc] pos R by simp
    next
      case 3
      then show ?thesis using rest(2) R by simp
    next
      case 4
      have "insert (s_LibraryItemID s) took \<inter> set (unit_ids (drop (Suc pos) (aired draw d walking))) = {}"
        using rest 4(1) by simp
      from IH [OF _ this refl, of tookPrev "acc + s_DurationMs s"] show ?thesis using 4 rest(2) pos R by auto
    qed
  qed
  show ?case
  proof (cases "pos = length (dd_slots d)")
    case True
    then have "dd_slots d \<noteq> []" using Suc.hyps(2) by auto
    then show ?thesis using step [of 0 "{}" "walking + 1" R "tookPrev \<union> took"] Suc.prems True slice_wrap by auto
  next
    case False
    then show ?thesis using step Suc.prems by simp
  qed
qed

text \<open>The runtime of the units of a pool that are named in a set.\<close>

definition runtime_of :: "Slot list \<Rightarrow> string set \<Rightarrow> int" where
  "runtime_of slots ids = programRuntime (filter (\<lambda>s. s_LibraryItemID s \<in> ids) slots)"

lemma runtime_of_all: "set (unit_ids slots) \<subseteq> ids \<Longrightarrow> runtime_of slots ids = programRuntime slots"
  by (induction slots) (auto simp: runtime_of_def split: if_splits)

lemma runtime_of_insert:
  assumes "distinct (unit_ids slots)" and "s \<in> set slots" and "IsProgram s" and "s_LibraryItemID s \<notin> ids"
  shows "runtime_of slots (insert (s_LibraryItemID s) ids) = runtime_of slots ids + s_DurationMs s"
  using assms(1,2)
proof (induction slots)
  case (Cons t ts)
  show ?case
  proof (cases "s = t")
    case True
    then have "s_LibraryItemID s \<notin> set (unit_ids ts)" using Cons.prems assms(3) by simp
    then have "runtime_of ts (insert (s_LibraryItemID s) ids) = runtime_of ts ids"
      by (induction ts) (auto simp: runtime_of_def)
    then show ?thesis using True assms(3,4) by (simp add: runtime_of_def)
  next
    case False
    then have "s_LibraryItemID s \<in> set (unit_ids ts)" using Cons.prems assms(3) by auto
    then have "s_LibraryItemID s \<noteq> s_LibraryItemID t \<or> \<not> IsProgram t" using Cons.prems by auto
    moreover have "runtime_of ts (insert (s_LibraryItemID s) ids) = runtime_of ts ids + s_DurationMs s"
      using Cons False by (auto split: if_splits)
    ultimately show ?thesis by (auto simp: runtime_of_def)
  qed
qed simp

text \<open>
  After \<open>k\<close> wraps, the slots walked are \<open>k\<close> decks and a part of one, less where the window began; once a
  whole deck has been walked every unit has been taken, so a full budget has been reached.
\<close>

definition slice_inv :: "random_draw \<Rightarrow> deckDealer \<Rightarrow> nat \<Rightarrow> nat \<Rightarrow> nat \<Rightarrow> int \<Rightarrow> nat \<Rightarrow> string set \<Rightarrow> string set \<Rightarrow> int \<Rightarrow> bool" where
  "slice_inv draw d pos0 k steps walking pos took tookPrev acc \<longleftrightarrow>
     pos \<le> length (dd_slots d) \<and> steps + pos0 = k * length (dd_slots d) + pos \<and>
     acc = runtime_of (dd_slots d) (took \<union> tookPrev) \<and>
     took \<inter> set (unit_ids (drop pos (aired draw d walking))) = {} \<and>
     (k \<ge> 1 \<longrightarrow> set (unit_ids (take pos (aired draw d walking))) \<subseteq> took \<union> tookPrev) \<and>
     (k \<ge> 2 \<longrightarrow> set (unit_ids (dd_slots d)) \<subseteq> took \<union> tookPrev)"

lemma aired_ids: "set (unit_ids (aired draw d w)) = set (unit_ids (dd_slots d))"
  using mset_eq_setD [OF mset_aired [of draw d w]] by simp

lemma slice_inv_wrap:
  assumes "slice_inv draw d pos0 k steps walking (length (dd_slots d)) took tookPrev acc"
  shows "slice_inv draw d pos0 (Suc k) steps (walking + 1) 0 {} (tookPrev \<union> took) acc"
proof -
  have "set (unit_ids (dd_slots d)) \<subseteq> took \<union> tookPrev" if "k \<ge> 1"
    using assms that aired_ids [of draw d walking] by (simp add: slice_inv_def)
  then show ?thesis using assms by (auto simp: slice_inv_def Un_commute)
qed

lemma unit_ids_take:
  "pos < length slots \<Longrightarrow> set (unit_ids (take (Suc pos) slots)) =
     (if IsProgram (slots ! pos) then {s_LibraryItemID (slots ! pos)} else {}) \<union> set (unit_ids (take pos slots))"
  by (auto simp: take_Suc_conv_app_nth)

lemma slice_inv_step:
  assumes inv: "slice_inv draw d pos0 k steps walking pos took tookPrev acc" and "pos < length (dd_slots d)"
    and units: "distinct (unit_ids (dd_slots d))" and s: "s = aired draw d walking ! pos"
  shows "\<not> IsProgram s \<or> s_LibraryItemID s \<in> tookPrev \<Longrightarrow>
           slice_inv draw d pos0 k (Suc steps) walking (Suc pos) took tookPrev acc"
    and "IsProgram s \<Longrightarrow> s_LibraryItemID s \<notin> tookPrev \<Longrightarrow>
           slice_inv draw d pos0 k (Suc steps) walking (Suc pos) (insert (s_LibraryItemID s) took) tookPrev (acc + s_DurationMs s)"
proof -
  let ?deck = "aired draw d walking"
  have pos: "pos < length ?deck" using assms(2) by simp
  have distinct: "distinct (unit_ids ?deck)" using units mset_same_ids [OF mset_aired] by metis
  note parts = unit_ids_take [OF pos] unit_ids_drop [OF pos] distinct_ids_drop [OF distinct pos]
  show "slice_inv draw d pos0 k (Suc steps) walking (Suc pos) took tookPrev acc"
    if "\<not> IsProgram s \<or> s_LibraryItemID s \<in> tookPrev"
  proof -
    have "took \<inter> set (unit_ids (drop (Suc pos) ?deck)) = {}" using inv parts(2) unfolding slice_inv_def by blast
    moreover have "set (unit_ids (take (Suc pos) ?deck)) \<subseteq> took \<union> tookPrev" if "k \<ge> 1"
      using inv that \<open>\<not> IsProgram s \<or> s_LibraryItemID s \<in> tookPrev\<close> unfolding slice_inv_def parts(1) s by auto
    ultimately show ?thesis using inv assms(2) unfolding slice_inv_def by simp
  qed
  assume new: "IsProgram s" "s_LibraryItemID s \<notin> tookPrev"
  have "s_LibraryItemID s \<notin> took" using inv parts(2) new(1) unfolding slice_inv_def s by auto
  moreover have "s \<in> set (dd_slots d)" using pos s mset_eq_setD [OF mset_aired [of draw d walking]] by (metis nth_mem)
  ultimately have grown: "runtime_of (dd_slots d) (insert (s_LibraryItemID s) (took \<union> tookPrev)) =
      runtime_of (dd_slots d) (took \<union> tookPrev) + s_DurationMs s"
    using runtime_of_insert [OF units _ new(1)] new(2) by simp
  have "insert (s_LibraryItemID s) took \<inter> set (unit_ids (drop (Suc pos) ?deck)) = {}"
    using inv parts(2,3) new(1) unfolding slice_inv_def s by auto
  moreover have "set (unit_ids (take (Suc pos) ?deck)) \<subseteq> insert (s_LibraryItemID s) took \<union> tookPrev" if "k \<ge> 1"
    using inv that unfolding slice_inv_def parts(1) s by auto
  moreover have "k \<ge> 2 \<longrightarrow> set (unit_ids (dd_slots d)) \<subseteq> insert (s_LibraryItemID s) took \<union> tookPrev"
    using inv unfolding slice_inv_def by blast
  ultimately show "slice_inv draw d pos0 k (Suc steps) walking (Suc pos) (insert (s_LibraryItemID s) took) tookPrev (acc + s_DurationMs s)"
    using inv assms(2) grown unfolding slice_inv_def by simp
qed

lemma slice_full:
  assumes units: "distinct (unit_ids (dd_slots d))" and "budget \<le> programRuntime (dd_slots d)" and "dd_slots d \<noteq> []"
    and "slice_inv draw d pos0 k steps walking pos took tookPrev acc"
  shows "budget \<le> acc + programRuntime (slice_loop draw d budget steps walking pos took tookPrev acc)"
  using assms(4)
proof (induction "2 * length (dd_slots d) - steps" arbitrary: k steps walking pos took tookPrev acc)
  case 0
  let ?L = "length (dd_slots d)"
  have "2 * ?L \<le> steps" using 0 by simp
  then have "2 * ?L \<le> k * ?L + pos" "pos \<le> ?L" using 0 by (auto simp: slice_inv_def)
  moreover have "0 < ?L" using assms(3) by simp
  ultimately have "k \<ge> 2 \<or> k = 1 \<and> pos = ?L" by (cases k; cases "k - 1") auto
  then have "set (unit_ids (dd_slots d)) \<subseteq> took \<union> tookPrev"
    using 0(2) aired_ids [of draw d walking] by (elim disjE conjE) (simp_all add: slice_inv_def)
  then have "acc = programRuntime (dd_slots d)" using 0(2) runtime_of_all by (simp add: slice_inv_def)
  then show ?case using assms(2) \<open>2 * ?L \<le> steps\<close> by (simp add: slice_stop)
next
  case (Suc n)
  have step: "budget \<le> acc + programRuntime (slice_loop draw d budget steps walking pos took tookPrev acc)"
    if inv: "slice_inv draw d pos0 k steps walking pos took tookPrev acc" and pos: "pos < length (dd_slots d)"
    for k walking pos took tookPrev
  proof -
    have n: "n = 2 * length (dd_slots d) - Suc steps" "steps < 2 * length (dd_slots d)" using Suc.hyps(2) by auto
    define s where "s = aired draw d walking ! pos"
    note inv' = slice_inv_step [OF inv pos units s_def]
    note now = slice_step [OF pos n(2) s_def]
    show ?thesis
    proof (cases "IsProgram s \<and> s_LibraryItemID s \<notin> tookPrev")
      case True
      with Suc.hyps(1) [OF n(1) inv'(2)] show ?thesis by (simp add: now)
    next
      case False
      with Suc.hyps(1) [OF n(1) inv'(1)] show ?thesis by (auto simp: now)
    qed
  qed
  show ?case
  proof (cases "pos = length (dd_slots d)")
    case True
    then show ?thesis using step [OF slice_inv_wrap] Suc.prems assms(3) slice_wrap by auto
  next
    case False
    moreover have "pos \<le> length (dd_slots d)" using Suc.prems unfolding slice_inv_def by blast
    ultimately show ?thesis using step [OF Suc.prems] by simp
  qed
qed

lemma program_pos_le: "program_pos start slots \<le> length slots"
  by (induction start slots rule: program_pos.induct) auto

lemma windowSliceDealt_distinct:
  assumes "distinct (unit_ids (dd_slots d))"
  shows "distinct (unit_ids (fst (windowSliceDealt draw d window index)))"
proof -
  have ids: "distinct (unit_ids (aired draw d w))" for w
    using assms mset_same_ids [OF mset_aired] by metis
  have slice: "distinct (unit_ids (slice_loop draw d budget 0 pass (program_pos start (aired draw d pass)) {} {} 0))"
    for budget pass start
    using slice_distinct [OF assms _ _ refl, of "program_pos start (aired draw d pass)" "{}" draw pass] program_pos_le [of start "aired draw d pass"]
    by simp
  show ?thesis using ids slice by (simp add: windowSliceDealt_def Let_def split_beta)
qed

text \<open>
  C5. A window of the ring is full and repeats nothing: whatever its index, no unit is in it twice, even
  where it runs from the end of one pass into the next, and when the pool is longer than the window its
  programmes fill the window's budget within the two decks of steps the loop allows itself.
\<close>

theorem windowSliceDealt_full:
  assumes "distinct (unit_ids (dd_slots d))"
  shows "distinct (unit_ids (fst (windowSliceDealt draw d window index))) \<and>
    (\<not> dd_whole d \<and> 0 < window \<and> milliseconds window < programRuntime (dd_slots d) \<longrightarrow>
       milliseconds window \<le> programRuntime (fst (windowSliceDealt draw d window index)))"
proof -
  have runtime: "programRuntime (aired draw d w) = programRuntime (dd_slots d)" for w
    by (rule programRuntime_mset) simp
  have full: "budget \<le> programRuntime (slice_loop draw d budget 0 pass (program_pos start (aired draw d pass)) {} {} 0)"
    if "budget \<le> programRuntime (dd_slots d)" "dd_slots d \<noteq> []" for budget pass start
    using slice_full [OF assms that, of draw "program_pos start (aired draw d pass)" 0 0 pass _ "{}" "{}" 0]
      program_pos_le [of start "aired draw d pass"]
    by (simp add: slice_inv_def runtime_of_def)
  have first: "aired draw d w = [] \<longleftrightarrow> dd_slots d = []" for w
    using length_aired [of draw d w] by (metis length_0_conv)
  define pass_start where
    "pass_start = (let nProg = int (length (filter IsProgram (aired draw d 0)));
         ring = index * max (programsPerWindow (aired draw d 0) (milliseconds window)) 1
       in if ring smod nProg < 0 then (ring sdiv nProg - 1, ring smod nProg + nProg) else (ring sdiv nProg, ring smod nProg))"
  define pass where "pass = (if \<not> dd_reshuffle d then 0 else fst pass_start)"
  have eq: "windowSliceDealt draw d window index =
      (if dd_whole d then (aired draw d index, index)
       else if window \<le> 0 \<or> dd_slots d = [] \<or> filter IsProgram (aired draw d 0) = [] \<or>
               programRuntime (dd_slots d) \<le> milliseconds window \<or> programRuntime (dd_slots d) = 0
       then (aired draw d 0, 0)
       else (slice_loop draw d (milliseconds window) 0 pass (program_pos (snd pass_start) (aired draw d pass)) {} {} 0, pass))"
    by (simp add: windowSliceDealt_def Let_def pass_start_def pass_def runtime first split_beta)
  show ?thesis
  proof (intro conjI impI)
    show "distinct (unit_ids (fst (windowSliceDealt draw d window index)))"
      by (rule windowSliceDealt_distinct [OF assms])
    assume wide: "\<not> dd_whole d \<and> 0 < window \<and> milliseconds window < programRuntime (dd_slots d)"
    have "0 \<le> milliseconds window" using wide by (simp add: milliseconds_def pos_imp_zdiv_nonneg_iff)
    then have "0 < programRuntime (dd_slots d)" using wide by linarith
    then have "dd_slots d \<noteq> []" by auto
    moreover have "filter IsProgram (aired draw d 0) \<noteq> []"
      using \<open>0 < programRuntime (dd_slots d)\<close> runtime [of 0] by (auto simp: programRuntime_sum)
    ultimately have "fst (windowSliceDealt draw d window index) =
        slice_loop draw d (milliseconds window) 0 pass (program_pos (snd pass_start) (aired draw d pass)) {} {} 0"
      using wide \<open>0 < programRuntime (dd_slots d)\<close> by (auto simp: eq)
    then show "milliseconds window \<le> programRuntime (fst (windowSliceDealt draw d window index))"
      using wide full \<open>dd_slots d \<noteq> []\<close> by simp
  qed
qed

theorem windowSliceDealt_full_witness:
  "1800000 \<le> programRuntime (fst (windowSliceDealt (\<lambda>_ _ i. i) (newDeckDealer sample_pool shuffled_rp 7 (1800000 * millisecond))
     (1800000 * millisecond) 5))"
proof -
  let ?d = "newDeckDealer sample_pool shuffled_rp 7 (1800000 * millisecond)"
  have "\<not> dd_whole ?d" "programRuntime sample_pool = 7200000"
    by (simp_all add: newDeckDealer_def Let_def shuffled_rp_def sample_pool_def sample_program_def empty_slot_def IsProgram_def
        milliseconds_def)
  moreover have "distinct (unit_ids (dd_slots ?d))"
    by (simp add: sample_pool_def sample_program_def empty_slot_def IsProgram_def)
  note windowSliceDealt_full [OF this, of "\<lambda>_ _ i. i" "1800000 * millisecond" 5]
  ultimately show ?thesis by (simp add: milliseconds_def)
qed

subsection \<open>The ring in window coordinates\<close>

text \<open>
  \<^verbatim>\<open>dealtRing\<close>, which the holiday planner walks. Its maps from a pass to its programmes and to their
  positions only hold what \<open>ring_pass\<close> and \<open>ring_index\<close> compute.
\<close>

record dealtRing =
  dr_d :: deckDealer
  dr_window :: duration
  dr_origin :: int
  dr_stride :: int
  dr_nProg :: int

definition newDealtRing :: "random_draw \<Rightarrow> deckDealer \<Rightarrow> duration \<Rightarrow> int \<Rightarrow> dealtRing" where
  "newDealtRing draw d window origin =
     (let first = aired draw d 0
      in \<lparr>dr_d = d, dr_window = window, dr_origin = origin,
          dr_stride = (if window > 0 then max (programsPerWindow first (milliseconds window)) 1 else 0),
          dr_nProg = int (length (filter IsProgram first))\<rparr>)"

definition ring_tile :: "random_draw \<Rightarrow> dealtRing \<Rightarrow> int \<Rightarrow> Slot list" where
  "ring_tile draw r w = fst (windowSliceDealt draw (dr_d r) (dr_window r) (w - dr_origin r))"

definition ring_locate :: "dealtRing \<Rightarrow> int \<Rightarrow> int \<times> int" where
  "ring_locate r u =
     (let rel = u - dr_origin r * dr_stride r; pass = rel sdiv dr_nProg r; k = rel smod dr_nProg r
      in if k < 0 then (pass - 1, k + dr_nProg r) else (pass, k))"

definition ring_dealt :: "dealtRing \<Rightarrow> int \<Rightarrow> int" where
  "ring_dealt r pass = (if \<not> dd_reshuffle (dr_d r) then 0 else pass)"

definition ring_pass :: "random_draw \<Rightarrow> dealtRing \<Rightarrow> int \<Rightarrow> Slot list" where
  "ring_pass draw r pass = filter IsProgram (aired draw (dr_d r) (ring_dealt r pass))"

definition ring_at :: "random_draw \<Rightarrow> dealtRing \<Rightarrow> int \<Rightarrow> Slot" where
  "ring_at draw r u = (let (pass, k) = ring_locate r u in ring_pass draw r pass ! nat k)"

fun first_index :: "string \<Rightarrow> Slot list \<Rightarrow> int option" where
  "first_index key [] = None"
| "first_index key (s # ss) = (if unitKey s = key then Some 0 else map_option ((+) 1) (first_index key ss))"

definition ring_index :: "random_draw \<Rightarrow> dealtRing \<Rightarrow> string \<Rightarrow> int \<Rightarrow> int option" where
  "ring_index draw r key pass = first_index key (ring_pass draw r pass)"

definition ring_airings :: "random_draw \<Rightarrow> dealtRing \<Rightarrow> string \<Rightarrow> int \<Rightarrow> int list" where
  "ring_airings draw r key u =
     (let here = fst (ring_locate r u)
      in concat (map (\<lambda>pass. case ring_index draw r key pass of
                        Some k \<Rightarrow> [dr_origin r * dr_stride r + pass * dr_nProg r + k] | None \<Rightarrow> [])
           [here - 1, here, here + 1]))"

lemma length_ring_pass [simp]: "int (length (ring_pass draw (newDealtRing draw d window origin) pass)) = dr_nProg (newDealtRing draw d window origin)"
proof -
  have "mset (filter IsProgram (aired draw d a)) = mset (filter IsProgram (aired draw d b))" for a b
    by (rule mset_filter_eq) simp
  then have "length (filter IsProgram (aired draw d a)) = length (filter IsProgram (aired draw d b))" for a b
    by (rule mset_eq_length)
  from this [of "ring_dealt (newDealtRing draw d window origin) pass" 0] show ?thesis
    by (simp add: ring_pass_def newDealtRing_def Let_def)
qed

lemma split_by_truncation:
  assumes "0 < (b::int)"
  shows "(if a smod b < 0 then (a sdiv b - 1, a smod b + b) else (a sdiv b, a smod b)) = (a div b, a mod b)"
proof (cases "a smod b < 0")
  case True
  then have "a sdiv b = a div b + 1" using floor_by_truncation [OF assms, of a] by simp
  then show ?thesis using True minus_sdiv_mult_eq_smod [of a b] minus_div_mult_eq_mod [of a b]
    by (simp add: distrib_right)
next
  case False
  then have "a sdiv b = a div b" using floor_by_truncation [OF assms, of a] by simp
  then show ?thesis using False minus_sdiv_mult_eq_smod [of a b] minus_div_mult_eq_mod [of a b] by simp
qed

lemma ring_locate_position:
  assumes "0 < dr_nProg r"
  shows "ring_locate r u = ((u - dr_origin r * dr_stride r) div dr_nProg r, (u - dr_origin r * dr_stride r) mod dr_nProg r)"
  using split_by_truncation [OF assms] by (simp add: ring_locate_def Let_def)

lemma first_index_found:
  "first_index key slots = Some k \<Longrightarrow> 0 \<le> k \<and> k < int (length slots) \<and> unitKey (slots ! nat k) = key"
proof (induction slots arbitrary: k)
  case (Cons s ss)
  then show ?case by (auto split: if_splits simp: nat_add_distrib)
qed simp

text \<open>
  Every position the planner is given for a unit is one where that unit airs.
\<close>

lemma ring_airings_sound:
  assumes "r = newDealtRing draw d window origin" and "x \<in> set (ring_airings draw r key u)"
  shows "unitKey (ring_at draw r x) = key"
proof -
  obtain pass k where k: "ring_index draw r key pass = Some k" "x = dr_origin r * dr_stride r + pass * dr_nProg r + k"
    using assms(2) by (auto simp: ring_airings_def Let_def split: option.splits) (metis add.assoc)+
  then have found: "0 \<le> k" "k < dr_nProg r" "unitKey (ring_pass draw r pass ! nat k) = key"
    using first_index_found [of key "ring_pass draw r pass" k] by (simp_all add: ring_index_def assms(1))
  have "x - dr_origin r * dr_stride r = pass * dr_nProg r + k" using k(2) by simp
  then have "ring_locate r x = (pass, k)" using found by (simp add: ring_locate_position)
  then show ?thesis using found(3) by (simp add: ring_at_def)
qed

text \<open>A window and a pass hold only units of the deck.\<close>

lemma slice_loop_subset: "set (slice_loop draw d budget steps walking pos took tookPrev acc) \<subseteq> set (dd_slots d)"
  if "pos \<le> length (dd_slots d)"
  using that
proof (induction "2 * length (dd_slots d) - steps" arbitrary: steps walking pos took tookPrev acc)
  case 0
  then show ?case by (simp add: slice_stop)
next
  case (Suc n)
  have step: "set (slice_loop draw d budget steps walking pos took tookPrev acc) \<subseteq> set (dd_slots d)"
    if pos: "pos < length (dd_slots d)" for walking pos took tookPrev
  proof -
    have n: "n = 2 * length (dd_slots d) - Suc steps" "steps < 2 * length (dd_slots d)" using Suc.hyps(2) by auto
    have "aired draw d walking ! pos \<in> set (dd_slots d)"
      using pos mset_eq_setD [OF mset_aired [of draw d walking]] by (metis length_aired nth_mem)
    then show ?thesis using Suc.hyps(1) [OF n(1)] pos unfolding slice_step [OF pos n(2) refl] by auto
  qed
  show ?case
  proof (cases "pos = length (dd_slots d)")
    case True
    then have "dd_slots d \<noteq> []" using Suc.hyps(2) by auto
    then show ?thesis using step [of 0] slice_wrap True by simp
  next
    case False
    then show ?thesis using step Suc.prems by simp
  qed
qed

lemma set_aired: "set (aired draw d pass) = set (dd_slots d)"
  by (rule mset_eq_setD) simp

lemma windowSliceDealt_subset: "set (fst (windowSliceDealt draw d window index)) \<subseteq> set (dd_slots d)"
proof -
  have "program_pos start (aired draw d pass) \<le> length (dd_slots d)" for start pass
    using program_pos_le [of start "aired draw d pass"] by simp
  then show ?thesis
    by (simp add: windowSliceDealt_def Let_def split_beta set_aired slice_loop_subset)
qed

lemma ring_tile_subset: "set (ring_tile draw r w) \<subseteq> set (dd_slots (dr_d r))"
  unfolding ring_tile_def by (rule windowSliceDealt_subset)

lemma ring_pass_subset: "set (ring_pass draw r pass) \<subseteq> set (dd_slots (dr_d r))"
  by (auto simp: ring_pass_def set_aired)

end
