(* ===== verification/Entries.thy ===== *)
theory Entries
  imports Seasonal Multipart "HOL-Library.AList"
begin

text \<open>
  Turning an approved entry into its slots: \<^verbatim>\<open>resolveEntry\<close> and \<^verbatim>\<open>resolveEntryWithTrace\<close> of
  \<^verbatim>\<open>internal/schedule/lineup.go\<close>. A film gives one slot, a series one per episode that its season
  range, the scopes, the audience gate and the editorial selection leave.

  The lemmas show what a slot of an entry may be: a pending placeholder, or a programme that the
  availability really offers, in range and safe for the audience episode by episode; and that a series
  the gate emptied gives no slot at all.
\<close>

type_synonym holiday_matches = "(string \<times> string list) list"

record episode_scan =
  es_inRange :: "ResolvedProgram list"
  es_scopeDropped :: int
  es_audienceDropped :: int
  es_report :: "ExclusionReport option"
  es_trace :: "scheduleTraceBuilder option"

definition drop_episode :: "LineupEntry \<Rightarrow> ResolvedProgram \<Rightarrow> string \<Rightarrow> ExclusionReport \<Rightarrow> ExclusionReport" where
  "drop_episode e ep reason r =
     r\<lparr>xr_Items := xr_Items r @ [\<lparr>xi_Key = e_Key e, xi_Title = episodeLabel e ep, xi_Reason = reason\<rparr>]\<rparr>"

definition airing_date_refused :: "ResolvedPolicy \<Rightarrow> ScopePolicy option \<Rightarrow> ResolvedProgram \<Rightarrow> bool" where
  "airing_date_refused rp ruleScope ep \<longleftrightarrow>
     p_Year ep > 0 \<and> (\<not> seriesAiringDateOK (rp_Scope rp) (p_Year ep) \<or>
       (case ruleScope of None \<Rightarrow> False | Some sc \<Rightarrow> \<not> seriesAiringDateOK sc (p_Year ep)))"

definition episode_gate :: "LineupEntry \<Rightarrow> ResolvedPolicy \<Rightarrow> ResolvedProgram \<Rightarrow> verdict" where
  "episode_gate e rp ep =
     (if rp_Ceiling rp \<noteq> '''' \<or> rp_Unrated rp = UnratedExclude
      then episodeVerdict (p_OfficialRating ep) (e_OfficialRating e) (rp_Ceiling rp) (rp_Unrated rp)
      else verdictKeep)"

definition scan_episode ::
  "LineupEntry \<Rightarrow> ResolvedPolicy \<Rightarrow> ScopePolicy option \<Rightarrow> ResolvedProgram \<Rightarrow> episode_scan \<Rightarrow> episode_scan" where
  "scan_episode e rp ruleScope ep st =
     (if \<not> inSeasonRange e (p_Season ep)
      then st\<lparr>es_trace := trace_add (episodeFact e ep StageEpisodeSelection OutcomeOmitted ReasonOutOfSeasonRange) (es_trace st)\<rparr>
      else if airing_date_refused rp ruleScope ep
      then st\<lparr>es_scopeDropped := es_scopeDropped st + 1,
              es_trace := trace_add (episodeFact e ep StageHardFilter OutcomeExcluded ReasonOutOfScope) (es_trace st),
              es_report := map_option (drop_episode e ep ''out_of_scope'') (es_report st)\<rparr>
      else case episode_gate e rp ep of
             verdictOverCeiling \<Rightarrow>
               st\<lparr>es_audienceDropped := es_audienceDropped st + 1,
                  es_trace := trace_add (episodeFact e ep StageHardFilter OutcomeExcluded ReasonOverCeiling) (es_trace st),
                  es_report := map_option (\<lambda>r. drop_episode e ep ''over_ceiling'' (r\<lparr>xr_OverCeiling := xr_OverCeiling r + 1\<rparr>))
                                 (es_report st)\<rparr>
           | verdictUnratedExcluded \<Rightarrow>
               st\<lparr>es_audienceDropped := es_audienceDropped st + 1,
                  es_trace := trace_add (episodeFact e ep StageHardFilter OutcomeExcluded ReasonUnrated) (es_trace st),
                  es_report := map_option (\<lambda>r. drop_episode e ep ''unrated'' (r\<lparr>xr_Unrated := xr_Unrated r + 1\<rparr>))
                                 (es_report st)\<rparr>
           | verdictKeep \<Rightarrow> st\<lparr>es_inRange := es_inRange st @ [ep]\<rparr>)"

definition episode_slot :: "LineupEntry \<Rightarrow> ResolvedProgram \<Rightarrow> Slot" where
  "episode_slot e ep =
     empty_slot\<lparr>s_Kind := SlotProgram, s_Key := e_Key e, s_LibraryItemID := p_LibraryItemID ep, s_Title := p_Title ep,
       s_DurationMs := p_DurationMs ep, s_PartGroup := p_PartGroup ep, s_PartIndex := p_PartIndex ep,
       s_Season := p_Season ep, s_Episode := p_Episode ep, s_SeriesTitle := e_Title e\<rparr>"

definition record_holidays ::
  "(string \<Rightarrow> string) \<Rightarrow> Vocabulary \<Rightarrow> ResolvedProgram list \<Rightarrow> holiday_matches \<Rightarrow> holiday_matches" where
  "record_holidays fold_text v eps matches =
     fold (\<lambda>ep m. let ids = episodeHolidays fold_text ep v
                  in if ids \<noteq> [] then AList.update (p_LibraryItemID ep) ids m else m) eps matches"

type_synonym resolve_state =
  "holiday_matches option \<times> ExclusionReport option \<times> scheduleTraceBuilder option"

definition pending_entry :: "LineupEntry \<Rightarrow> PendingPolicy \<Rightarrow> resolve_state \<Rightarrow> Slot list \<times> resolve_state" where
  "pending_entry e policy st =
     (let (matches, report, trace) = st
      in ([pendingSlot e policy], matches, report, trace_add (pendingAvailabilityFact e policy) trace))"

definition available_fact :: "LineupEntry \<Rightarrow> ScheduleFact" where
  "available_fact e = plain_fact StageAvailability OutcomeAvailable ReasonAvailable (e_Key e) (e_Title e)"

text \<open>The series branch, for a resolution that has programmes.\<close>

definition resolve_series ::
  "(string \<Rightarrow> string) \<Rightarrow> LineupEntry \<Rightarrow> EpisodeResolution \<Rightarrow> PendingPolicy \<Rightarrow> ResolvedPolicy \<Rightarrow> ScopePolicy option \<Rightarrow>
   string list \<Rightarrow> resolve_state \<Rightarrow> Slot list \<times> resolve_state" where
  "resolve_series fold_text e resolution policy rp ruleScope seasonalHolidays st =
     (let (matches, report, trace) = st;
          v = Vocab (rp_Calendar rp);
          scan = fold (scan_episode e rp ruleScope) (er_Programs resolution)
                   \<lparr>es_inRange = [], es_scopeDropped = 0, es_audienceDropped = 0, es_report = report,
                    es_trace = trace_add (available_fact e) trace\<rparr>;
          grouped = assignPartGroups (e_Key e) (es_inRange scan);
          (seasonal, report, trace) =
            filterExclusiveEpisodes fold_text e grouped (er_EditorialUnavailable resolution) seasonalHolidays v
              (es_report scan) (es_trace scan);
          seasonalDropped = int (length grouped) - int (length seasonal);
          (chosen, trace) = selectEpisodesWithTrace fold_text e seasonal (er_EditorialUnavailable resolution) v trace;
          editorialDropped = int (length seasonal) - int (length chosen);
          matches = (case matches of None \<Rightarrow> None
                     | Some m \<Rightarrow> Some (if \<not> aboutAnyHoliday fold_text e v then record_holidays fold_text v chosen m else m));
          out = map (episode_slot e) chosen
      in if out \<noteq> [] then (out, matches, report, trace)
         else if es_audienceDropped scan > 0 then ([], matches, report, trace)
         else if es_scopeDropped scan > 0 \<or> seasonalDropped > 0 \<or> editorialDropped > 0 then ([], matches, report, trace)
         else pending_entry e policy (matches, report, trace))"

definition movie_slot :: "LineupEntry \<Rightarrow> (Key \<rightharpoonup> franchiseTag) \<Rightarrow> string \<Rightarrow> int \<Rightarrow> Slot" where
  "movie_slot e franchise itemID durationMs =
     (let slot = empty_slot\<lparr>s_Kind := SlotProgram, s_Key := e_Key e, s_LibraryItemID := itemID, s_Title := e_Title e,
                            s_DurationMs := (if durationMs = 0 then e_DurationMs e else durationMs)\<rparr>
      in case franchise (e_Key e) of None \<Rightarrow> slot
         | Some tag \<Rightarrow> slot\<lparr>s_PartGroup := ft_group tag, s_PartIndex := ft_index tag\<rparr>)"

definition resolveEntryWithTrace ::
  "(string \<Rightarrow> string) \<Rightarrow> LineupEntry \<Rightarrow> Availability \<Rightarrow> PendingPolicy \<Rightarrow> (Key \<rightharpoonup> franchiseTag) \<Rightarrow> ResolvedPolicy \<Rightarrow>
   ScopePolicy option \<Rightarrow> string list \<Rightarrow> resolve_state \<Rightarrow> Slot list \<times> resolve_state" where
  "resolveEntryWithTrace fold_text e avail policy franchise rp ruleScope seasonalHolidays st =
     (if IsSeries (e_Key e)
      then (let resolution = av_ResolveEpisodes avail (e_Key e)
            in if er_Programs resolution \<noteq> []
               then resolve_series fold_text e resolution policy rp ruleScope seasonalHolidays st
               else pending_entry e policy st)
      else case av_Resolve avail (e_Key e) of
             Some (itemID, durationMs) \<Rightarrow>
               (let (matches, report, trace) = st
                in ([movie_slot e franchise itemID durationMs], matches, report, trace_add (available_fact e) trace))
           | None \<Rightarrow> pending_entry e policy st)"

definition resolveEntry ::
  "(string \<Rightarrow> string) \<Rightarrow> LineupEntry \<Rightarrow> Availability \<Rightarrow> PendingPolicy \<Rightarrow> (Key \<rightharpoonup> franchiseTag) \<Rightarrow> ResolvedPolicy \<Rightarrow>
   Slot list" where
  "resolveEntry fold_text e avail policy franchise rp =
     fst (resolveEntryWithTrace fold_text e avail policy franchise rp None [] (None, None, None))"

subsection \<open>Which episodes the scan keeps\<close>

definition admitted :: "LineupEntry \<Rightarrow> ResolvedPolicy \<Rightarrow> ScopePolicy option \<Rightarrow> ResolvedProgram \<Rightarrow> bool" where
  "admitted e rp ruleScope ep \<longleftrightarrow>
     inSeasonRange e (p_Season ep) \<and> \<not> airing_date_refused rp ruleScope ep \<and> episode_gate e rp ep = verdictKeep"

definition refused_by_audience :: "LineupEntry \<Rightarrow> ResolvedPolicy \<Rightarrow> ScopePolicy option \<Rightarrow> ResolvedProgram \<Rightarrow> bool" where
  "refused_by_audience e rp ruleScope ep \<longleftrightarrow>
     inSeasonRange e (p_Season ep) \<and> \<not> airing_date_refused rp ruleScope ep \<and> episode_gate e rp ep \<noteq> verdictKeep"

lemma scan_episodes:
  "es_inRange (fold (scan_episode e rp ruleScope) eps st) = es_inRange st @ filter (admitted e rp ruleScope) eps \<and>
   es_audienceDropped (fold (scan_episode e rp ruleScope) eps st) =
     es_audienceDropped st + int (length (filter (refused_by_audience e rp ruleScope) eps))"
  by (induction eps arbitrary: st)
    (auto simp: scan_episode_def admitted_def refused_by_audience_def split: verdict.splits)

text \<open>An episode is judged by its own rating, or by its series' where its own is not mapped.\<close>

definition episode_safe :: "LineupEntry \<Rightarrow> ResolvedPolicy \<Rightarrow> ResolvedProgram \<Rightarrow> bool" where
  "episode_safe e rp ep \<longleftrightarrow> rating_safe (rp_Ceiling rp) (rp_Unrated rp)
     (if Mapped (p_OfficialRating ep) then p_OfficialRating ep else e_OfficialRating e)"

lemma episode_gate_safe: "episode_gate e rp ep = verdictKeep \<longleftrightarrow> episode_safe e rp ep"
  by (auto simp: episode_gate_def episode_safe_def episodeVerdict_def audienceVerdict_keep rating_safe_def)

lemma untagged_fields:
  assumes "untagged p = untagged q"
  shows "p_LibraryItemID p = p_LibraryItemID q"
proof -
  have "p_LibraryItemID (untagged p) = p_LibraryItemID p" for p by (simp add: untagged_def)
  then show ?thesis using assms by metis
qed

lemma assignPartGroups_untagged: "map untagged (assignPartGroups k progs) = map untagged progs"
  using tagged_as_untagged [OF tag_stories_tagged] by (simp add: assignPartGroups_def)

lemma assignPartGroups_member:
  assumes "p \<in> set (assignPartGroups k progs)"
  obtains q where "q \<in> set progs" "untagged p = untagged q"
proof -
  have "untagged p \<in> untagged ` set progs"
    using assms assignPartGroups_untagged by (metis image_eqI list.set_map)
  then show thesis using that by auto
qed

lemma filterExclusive_subset: "set (fst (filterExclusiveEpisodes ft e eps u hs v r t)) \<subseteq> set eps"
  using holiday.sel_subset by (auto simp: filterExclusiveEpisodes_def Let_def)

lemma selectEpisodes_subset: "set (fst (selectEpisodesWithTrace ft e eps u v t)) \<subseteq> set eps"
proof -
  have "fst (selectEpisodesWithTrace ft e eps u v t) \<in> {[], eps, selectEpisodes ft eps (e_EpisodeSelection e) v}"
    by (auto simp: selectEpisodesWithTrace_def Let_def split: prod.split)
  then show ?thesis by (auto dest: subsetD [OF editorial.sel_subset])
qed

subsection \<open>What an entry's slots are\<close>

lemma episode_slot_fields [simp]:
  "IsProgram (episode_slot e ep)" "s_Key (episode_slot e ep) = e_Key e" "s_LibraryItemID (episode_slot e ep) = p_LibraryItemID ep"
  "s_Segment (episode_slot e ep) = 0" "s_SourceOffsetMs (episode_slot e ep) = 0"
  by (simp_all add: episode_slot_def IsProgram_def empty_slot_def)

lemma movie_slot_fields [simp]:
  "IsProgram (movie_slot e franchise i d)" "s_Key (movie_slot e franchise i d) = e_Key e"
  "s_LibraryItemID (movie_slot e franchise i d) = i" "s_Segment (movie_slot e franchise i d) = 0"
  "s_SourceOffsetMs (movie_slot e franchise i d) = 0"
  by (simp_all add: movie_slot_def Let_def IsProgram_def empty_slot_def split: option.split)

lemma fst_pending [simp]: "fst (pending_entry e policy st) = [pendingSlot e policy]"
  by (simp add: pending_entry_def split: prod.split)

text \<open>What a series airs is what the selection chose of the episodes the scan admits.\<close>

lemma resolve_series_stages:
  obtains seasonal chosen t quiet where
    "set seasonal \<subseteq> set (assignPartGroups (e_Key e) (filter (admitted e rp ruleScope) (er_Programs resolution)))"
    "hs = [] \<Longrightarrow> seasonal = assignPartGroups (e_Key e) (filter (admitted e rp ruleScope) (er_Programs resolution))"
    "chosen = fst (selectEpisodesWithTrace ft e seasonal (er_EditorialUnavailable resolution) (Vocab (rp_Calendar rp)) t)"
    "fst (resolve_series ft e resolution policy rp ruleScope hs st) =
       (if chosen \<noteq> [] then map (episode_slot e) chosen
        else if (\<exists>ep\<in>set (er_Programs resolution). refused_by_audience e rp ruleScope ep) \<or> quiet then []
        else [pendingSlot e policy])"
proof -
  obtain matches report trace where st: "st = (matches, report, trace)" by (cases st)
  define scan where "scan = fold (scan_episode e rp ruleScope) (er_Programs resolution)
                   \<lparr>es_inRange = [], es_scopeDropped = 0, es_audienceDropped = 0, es_report = report,
                    es_trace = trace_add (available_fact e) trace\<rparr>"
  define grouped where "grouped = assignPartGroups (e_Key e) (es_inRange scan)"
  have range: "es_inRange scan = filter (admitted e rp ruleScope) (er_Programs resolution)"
    and refused: "es_audienceDropped scan > 0 \<longleftrightarrow> (\<exists>ep\<in>set (er_Programs resolution). refused_by_audience e rp ruleScope ep)"
    using scan_episodes [of e rp ruleScope "er_Programs resolution"] by (auto simp: scan_def filter_empty_conv)
  obtain seasonal report' trace' where seasonal: "filterExclusiveEpisodes ft e grouped (er_EditorialUnavailable resolution) hs
      (Vocab (rp_Calendar rp)) (es_report scan) (es_trace scan) = (seasonal, report', trace')" by (rule prod_cases3)
  obtain chosen trace'' where chosen: "selectEpisodesWithTrace ft e seasonal (er_EditorialUnavailable resolution)
      (Vocab (rp_Calendar rp)) trace' = (chosen, trace'')" by (cases "selectEpisodesWithTrace ft e seasonal
      (er_EditorialUnavailable resolution) (Vocab (rp_Calendar rp)) trace'")
  have "fst (resolve_series ft e resolution policy rp ruleScope hs st) =
        (if chosen \<noteq> [] then map (episode_slot e) chosen
         else if es_audienceDropped scan > 0 \<or>
           (es_scopeDropped scan > 0 \<or> length seasonal < length grouped \<or> length chosen < length seasonal) then []
         else [pendingSlot e policy])"
    unfolding resolve_series_def st
    by (auto simp add: scan_def [symmetric] grouped_def [symmetric] seasonal chosen Let_def)
  moreover have "set seasonal \<subseteq> set grouped" using filterExclusive_subset [of ft e grouped] seasonal by (metis fst_conv)
  moreover have "hs = [] \<Longrightarrow> seasonal = grouped" using seasonal by (simp add: filterExclusiveEpisodes_def)
  ultimately show thesis using that [of seasonal chosen trace'] chosen unfolding grouped_def range refused by simp
qed

lemma resolve_series_slots:
  assumes "s \<in> set (fst (resolve_series ft e resolution policy rp ruleScope hs st))"
  shows "(\<exists>ep\<in>set (er_Programs resolution). \<exists>ep'. untagged ep' = untagged ep \<and> s = episode_slot e ep' \<and> admitted e rp ruleScope ep) \<or>
         s = pendingSlot e policy \<and> (\<forall>ep\<in>set (er_Programs resolution). \<not> refused_by_audience e rp ruleScope ep)"
proof -
  obtain seasonal chosen t quiet where
    stages: "set seasonal \<subseteq> set (assignPartGroups (e_Key e) (filter (admitted e rp ruleScope) (er_Programs resolution)))"
    "chosen = fst (selectEpisodesWithTrace ft e seasonal (er_EditorialUnavailable resolution) (Vocab (rp_Calendar rp)) t)"
    "fst (resolve_series ft e resolution policy rp ruleScope hs st) =
       (if chosen \<noteq> [] then map (episode_slot e) chosen
        else if (\<exists>ep\<in>set (er_Programs resolution). refused_by_audience e rp ruleScope ep) \<or> quiet then []
        else [pendingSlot e policy])"
    by (rule resolve_series_stages)
  have "\<exists>ep\<in>set (er_Programs resolution). untagged ep' = untagged ep \<and> admitted e rp ruleScope ep" if "ep' \<in> set chosen" for ep'
  proof -
    have "ep' \<in> set (assignPartGroups (e_Key e) (filter (admitted e rp ruleScope) (er_Programs resolution)))"
      using that subsetD [OF selectEpisodes_subset] subsetD [OF stages(1)] unfolding stages(2) by blast
    then show ?thesis by (rule assignPartGroups_member) auto
  qed
  then show ?thesis using assms unfolding stages(3) by (auto split: if_splits)
qed

lemma resolved_slot:
  assumes "s \<in> set (fst (resolveEntryWithTrace ft e avail policy franchise rp ruleScope hs st))"
  shows "s_Key s = e_Key e \<and>
    (if IsProgram s then
       (if IsSeries (e_Key e)
        then \<exists>ep\<in>set (er_Programs (av_ResolveEpisodes avail (e_Key e))). s_LibraryItemID s = p_LibraryItemID ep \<and>
               inSeasonRange e (p_Season ep) \<and> \<not> airing_date_refused rp ruleScope ep \<and> episode_safe e rp ep
        else \<exists>d. av_Resolve avail (e_Key e) = Some (s_LibraryItemID s, d))
     else s = pendingSlot e policy \<and>
       (IsSeries (e_Key e) \<longrightarrow>
          (\<forall>ep\<in>set (er_Programs (av_ResolveEpisodes avail (e_Key e))). \<not> refused_by_audience e rp ruleScope ep)))"
proof (cases "IsSeries (e_Key e)")
  case True
  let ?r = "av_ResolveEpisodes avail (e_Key e)"
  show ?thesis
  proof (cases "er_Programs ?r = []")
    case empty: True
    then show ?thesis using assms True by (simp add: resolveEntryWithTrace_def)
  next
    case False
    then have "s \<in> set (fst (resolve_series ft e ?r policy rp ruleScope hs st))"
      using assms True by (simp add: resolveEntryWithTrace_def Let_def)
    from resolve_series_slots [OF this] show ?thesis
    proof (elim disjE bexE exE conjE)
      fix ep ep'
      assume ep: "ep \<in> set (er_Programs ?r)" "untagged ep' = untagged ep" "s = episode_slot e ep'" "admitted e rp ruleScope ep"
      then show ?thesis using True untagged_fields [OF ep(2)] by (auto simp: admitted_def episode_gate_safe)
    next
      assume "s = pendingSlot e policy" "\<forall>ep\<in>set (er_Programs ?r). \<not> refused_by_audience e rp ruleScope ep"
      then show ?thesis using True by simp
    qed
  qed
next
  case False
  then show ?thesis using assms
    by (auto simp: resolveEntryWithTrace_def Let_def split: option.splits prod.splits)
qed

subsection \<open>Whether an entry airs at all\<close>

text \<open>
  The keys a channel is eligible to air are computed with the channel's scope alone, the lineup with
  the rule's scope and the season on top. What airs under the narrower gates airs under the wider one.
\<close>

definition airs_something :: "Slot list \<Rightarrow> bool" where
  "airs_something slots \<longleftrightarrow> (\<exists>s\<in>set slots. IsProgram s)"

lemma matches_untagged:
  assumes "untagged p = untagged q"
  shows "episodeMatchesHoliday ft p ids v = episodeMatchesHoliday ft q ids v"
proof -
  have "episodeMatchesHoliday ft (untagged r) ids v = episodeMatchesHoliday ft r ids v" for r
    by (simp add: episodeMatchesHoliday_def episodeHolidays_def episodeEvidence_def untagged_def)
  then show ?thesis using assms by metis
qed

lemma selectEpisodes_some:
  "fst (selectEpisodesWithTrace ft e eps u v t) \<noteq> [] \<longleftrightarrow>
   eps \<noteq> [] \<and> (es_Mode (e_EpisodeSelection e) = EpisodeHoliday \<longrightarrow>
     \<not> u \<and> (\<exists>ep\<in>set eps. episodeMatchesHoliday ft ep (map to_lower (es_Holidays (e_EpisodeSelection e))) v))"
proof -
  have holiday: "matchingHolidayEpisodes ft eps ids v \<noteq> [] \<longleftrightarrow> (\<exists>ep\<in>set eps. episodeMatchesHoliday ft ep ids v)" for ids
    by (auto simp: matchingHolidayEpisodes_def Let_def filter_empty_conv)
  have "fst (selectEpisodesWithTrace ft e eps u v t) =
      (if u then if es_Mode (e_EpisodeSelection e) = EpisodeHoliday then [] else eps
       else selectEpisodes ft eps (e_EpisodeSelection e) v)"
    by (simp add: selectEpisodesWithTrace_def Let_def split: prod.split)
  then show ?thesis using holiday
    by (auto simp: selectEpisodes_def selectHolidayEpisodes_def highlights_nonempty split: EpisodeSelectionMode.splits)
qed

lemma resolve_series_airs:
  obtains seasonal t where
    "set seasonal \<subseteq> set (assignPartGroups (e_Key e) (filter (admitted e rp ruleScope) (er_Programs resolution)))"
    "hs = [] \<Longrightarrow> seasonal = assignPartGroups (e_Key e) (filter (admitted e rp ruleScope) (er_Programs resolution))"
    "airs_something (fst (resolve_series ft e resolution policy rp ruleScope hs st)) \<longleftrightarrow>
     fst (selectEpisodesWithTrace ft e seasonal (er_EditorialUnavailable resolution) (Vocab (rp_Calendar rp)) t) \<noteq> []"
proof (rule resolve_series_stages [of e rp ruleScope resolution hs ft policy st])
  fix seasonal chosen t quiet
  assume stages: "set seasonal \<subseteq> set (assignPartGroups (e_Key e) (filter (admitted e rp ruleScope) (er_Programs resolution)))"
    "hs = [] \<Longrightarrow> seasonal = assignPartGroups (e_Key e) (filter (admitted e rp ruleScope) (er_Programs resolution))"
    "chosen = fst (selectEpisodesWithTrace ft e seasonal (er_EditorialUnavailable resolution) (Vocab (rp_Calendar rp)) t)"
    "fst (resolve_series ft e resolution policy rp ruleScope hs st) =
       (if chosen \<noteq> [] then map (episode_slot e) chosen
        else if (\<exists>ep\<in>set (er_Programs resolution). refused_by_audience e rp ruleScope ep) \<or> quiet then []
        else [pendingSlot e policy])"
  have "airs_something (fst (resolve_series ft e resolution policy rp ruleScope hs st)) \<longleftrightarrow> chosen \<noteq> []"
    unfolding stages(4) by (cases chosen) (auto simp: airs_something_def)
  then show thesis using that [of seasonal t] stages by simp
qed

lemma admitted_widens: "admitted e rp ruleScope ep \<Longrightarrow> admitted e rp None ep"
  by (auto simp: admitted_def airing_date_refused_def)

lemma resolveEntry_widens:
  assumes "airs_something (fst (resolveEntryWithTrace ft e avail policy franchise rp ruleScope hs st))"
  shows "airs_something (resolveEntry ft e avail policy franchise' rp)"
proof (cases "IsSeries (e_Key e) \<and> er_Programs (av_ResolveEpisodes avail (e_Key e)) \<noteq> []")
  case True
  define r where "r = av_ResolveEpisodes avail (e_Key e)"
  define v where "v = Vocab (rp_Calendar rp)"
  have airs: "airs_something (fst (resolve_series ft e r policy rp ruleScope hs st))"
    and goal: "resolveEntry ft e avail policy franchise' rp = fst (resolve_series ft e r policy rp None [] (None, None, None))"
    using assms True by (simp_all add: resolveEntryWithTrace_def resolveEntry_def Let_def r_def)
  obtain narrow t where narrow: "set narrow \<subseteq> set (assignPartGroups (e_Key e) (filter (admitted e rp ruleScope) (er_Programs r)))"
    "fst (selectEpisodesWithTrace ft e narrow (er_EditorialUnavailable r) v t) \<noteq> []"
    using airs unfolding v_def by (metis resolve_series_airs)
  obtain wide t' where wide: "wide = assignPartGroups (e_Key e) (filter (admitted e rp None) (er_Programs r))"
    "airs_something (fst (resolve_series ft e r policy rp None [] (None, None, None))) \<longleftrightarrow>
     fst (selectEpisodesWithTrace ft e wide (er_EditorialUnavailable r) v t') \<noteq> []"
    unfolding v_def by (metis resolve_series_airs)
  have twin: "\<exists>q\<in>set wide. untagged p = untagged q" if p: "p \<in> set narrow" for p
  proof -
    obtain q where q: "q \<in> set (er_Programs r)" "admitted e rp ruleScope q" "untagged p = untagged q"
      using assignPartGroups_member [OF subsetD [OF narrow(1) p]] by auto
    then have "untagged q \<in> set (map untagged wide)"
      unfolding wide(1) assignPartGroups_untagged by (auto intro: admitted_widens)
    then show ?thesis using q(3) by auto
  qed
  show ?thesis unfolding goal wide(2) using narrow(2) twin matches_untagged
    unfolding selectEpisodes_some by (metis all_not_in_conv set_empty)
next
  case False
  then show ?thesis using assms
    by (auto simp: resolveEntryWithTrace_def resolveEntry_def Let_def airs_something_def split: if_splits option.splits prod.splits)
qed

text \<open>
  C13. An entry airs nothing but itself, and nothing it may not: every slot carries the entry's key; a
  programme slot is an item the availability offers for that key, and of a series an episode in the
  entry's season range, aired in the years of both scopes and safe for the audience by its own rating;
  and a placeholder is given only where the audience gate refused none of the series' episodes.
\<close>

theorem resolveEntry_safe:
  assumes "s \<in> set (fst (resolveEntryWithTrace ft e avail policy franchise rp ruleScope hs st))"
  shows "s_Key s = e_Key e \<and>
    (if IsProgram s then
       (if IsSeries (e_Key e)
        then \<exists>ep\<in>set (er_Programs (av_ResolveEpisodes avail (e_Key e))). s_LibraryItemID s = p_LibraryItemID ep \<and>
               inSeasonRange e (p_Season ep) \<and> \<not> airing_date_refused rp ruleScope ep \<and> episode_safe e rp ep
        else \<exists>d. av_Resolve avail (e_Key e) = Some (s_LibraryItemID s, d))
     else s = pendingSlot e policy \<and>
       (IsSeries (e_Key e) \<longrightarrow>
          (\<forall>ep\<in>set (er_Programs (av_ResolveEpisodes avail (e_Key e))). \<not> refused_by_audience e rp ruleScope ep)))"
  using assms by (rule resolved_slot)

definition sample_availability :: Availability where
  "sample_availability = \<lparr>av_Resolve = (\<lambda>k. Some (''item-85'', 6900000)),
     av_ResolveEpisodes = (\<lambda>k. \<lparr>er_Programs = [], er_EditorialUnavailable = False\<rparr>)\<rparr>"

theorem resolveEntry_safe_witness:
  "s_Key (movie_slot sample_entry Map.empty ''item-85'' 6900000) = ''movie:tmdb:85''"
proof -
  have "\<not> IsSeries (e_Key sample_entry)" by (simp add: sample_entry_def IsSeries_def has_prefix_def)
  then have "movie_slot sample_entry Map.empty ''item-85'' 6900000 \<in>
      set (fst (resolveEntryWithTrace (\<lambda>t. t) sample_entry sample_availability PodFill Map.empty
        (Resolved empty_policy Shuffle False) None [] (None, None, None)))"
    by (simp add: resolveEntryWithTrace_def sample_availability_def)
  from resolveEntry_safe [OF this] show ?thesis by (simp add: sample_entry_def)
qed

end
