(* ===== verification/Holiday_Plans.thy ===== *)
theory Holiday_Plans
  imports Entries Passes
begin

text \<open>
  The day plans of the holiday planner, the upper part of \<^verbatim>\<open>internal/schedule/seasonal_boost.go\<close>: how a
  pool of holiday episodes rotates over the days of its season (\<^verbatim>\<open>HolidayRotation\<close> to \<^verbatim>\<open>rotationPicks\<close>),
  what a civil day features (\<^verbatim>\<open>rawDay\<close>, \<^verbatim>\<open>holidayFull\<close>, \<^verbatim>\<open>plan\<close>) and when (\<^verbatim>\<open>placeFeatures\<close>).

  A civil day is its day number. The planner's memo tables are left out: each holds what the function
  returns. \<^verbatim>\<open>float64\<close> runtimes are exact rationals, and the conversions to integers round toward zero.

  The lemmas show that a rotating episode rests as many days as the rotation says, that a day features
  no unit twice and only units of its active pool, and that a holiday's date and the days around it
  feature nothing in common.
\<close>

section \<open>Rotation\<close>

abbreviation (input) eveningFromHour :: int where "eveningFromHour \<equiv> 17"
abbreviation (input) eveningToHour :: int where "eveningToHour \<equiv> 23"
abbreviation (input) minHolidayRepeatDays :: int where "minHolidayRepeatDays \<equiv> 2"
abbreviation (input) holidayShareOfDay :: int where "holidayShareOfDay \<equiv> 4"
abbreviation (input) featuredHolidayDayMax :: int where "featuredHolidayDayMax \<equiv> 5"

definition dailyQuota :: "HolidayStrength \<Rightarrow> int" where
  "dailyQuota s = (case s of HolidayStrengthLight \<Rightarrow> 1 | HolidayStrengthHeavy \<Rightarrow> 5 | _ \<Rightarrow> 3)"

definition holidayDayQuota :: "HolidayStrength \<Rightarrow> int \<Rightarrow> int" where
  "holidayDayQuota s pool =
     (case s of HolidayStrengthLight \<Rightarrow> min 1 pool | HolidayStrengthHeavy \<Rightarrow> pool | _ \<Rightarrow> min featuredHolidayDayMax pool)"

definition HolidayRotation :: "int \<Rightarrow> HolidayStrength \<Rightarrow> int \<times> int" where
  "HolidayRotation pool strength =
     (if pool \<le> 0 then (0, 0)
      else
        (let q = min (dailyQuota strength) pool;
             spacing = max (pool sdiv q) minHolidayRepeatDays;
             q = min q (pool sdiv spacing)
         in if q = 0 then (1, minHolidayRepeatDays) else (q, pool sdiv q)))"

definition cappedRotation :: "int \<Rightarrow> HolidayStrength \<Rightarrow> int \<Rightarrow> int \<times> int" where
  "cappedRotation pool strength dayCap =
     (let (perDay, everyDays) = HolidayRotation pool strength
      in if perDay > dayCap
         then (let perDay = max dayCap 0
               in if perDay = 0 then (0, 0) else (perDay, max (pool sdiv perDay) minHolidayRepeatDays))
         else (perDay, everyDays))"

definition rotationPicks :: "int \<Rightarrow> int \<Rightarrow> int \<Rightarrow> int \<Rightarrow> int list" where
  "rotationPicks pool perDay everyDays day =
     (if pool = 0 \<or> perDay = 0 then []
      else if pool < perDay * everyDays \<and> day smod everyDays \<noteq> 0 then []
      else
        (let start = ((day * perDay) smod pool + pool) smod pool
         in map (\<lambda>k. (start + k) smod pool) [0..perDay - 1]))"

text \<open>What a rotation may be: the pool holds the days it spreads over, or airs one unit every so often.\<close>

definition rotation_fits :: "int \<Rightarrow> int \<Rightarrow> int \<Rightarrow> bool" where
  "rotation_fits pool perDay everyDays \<longleftrightarrow>
     1 \<le> perDay \<and> perDay \<le> pool \<and> minHolidayRepeatDays \<le> everyDays \<and>
     (perDay * everyDays \<le> pool \<or> perDay = 1 \<and> pool = 1 \<and> everyDays = minHolidayRepeatDays)"

lemma rotation_fits_div:
  assumes "1 \<le> q" and "2 * q \<le> pool"
  shows "rotation_fits pool q (pool div q)"
proof -
  have "2 \<le> pool div q" using assms zdiv_mono1 [of "2 * q" pool q] by simp
  moreover have "q * (pool div q) \<le> pool" using mult_div_mod_eq [of q pool] pos_mod_sign [of q pool] assms by linarith
  ultimately show ?thesis using assms by (simp add: rotation_fits_def)
qed

lemma HolidayRotation_fits:
  assumes "0 < pool"
  shows "rotation_fits pool (fst (HolidayRotation pool s)) (snd (HolidayRotation pool s)) \<and>
    fst (HolidayRotation pool s) \<le> dailyQuota s"
proof -
  have quota: "1 \<le> dailyQuota s" by (cases s) (simp_all add: dailyQuota_def)
  define q where "q = min (dailyQuota s) pool"
  define spacing where "spacing = max (pool div q) 2"
  define q' where "q' = min q (pool div spacing)"
  have q: "1 \<le> q" "q \<le> pool" using quota assms by (auto simp: q_def)
  have nonneg: "0 \<le> pool div spacing" using assms by (simp add: spacing_def pos_imp_zdiv_nonneg_iff)
  have rot: "HolidayRotation pool s = (if q' = 0 then (1, 2) else (q', pool div q'))"
  proof -
    have "pool sdiv q = pool div q" "pool sdiv spacing = pool div spacing" using assms q by (simp_all add: spacing_def)
    moreover have "q' \<noteq> 0 \<Longrightarrow> pool sdiv q' = pool div q'" using nonneg q assms by (simp add: q'_def)
    ultimately show ?thesis
      using assms unfolding HolidayRotation_def Let_def q_def [symmetric] by (simp add: spacing_def [symmetric] q'_def [symmetric])
  qed
  show ?thesis
  proof (cases "q' = 0")
    case True
    then have "pool div spacing = 0" using q nonneg by (auto simp: q'_def min_def split: if_splits)
    then have "pool < spacing" using assms zdiv_eq_0_iff [of pool spacing] by (auto simp: spacing_def max_def split: if_splits)
    moreover have "pool div q \<le> pool" using q assms zdiv_mono2 [of pool 1 q] by simp
    ultimately have "pool = 1" using assms by (auto simp: spacing_def)
    then show ?thesis using True quota rot by (simp add: rotation_fits_def)
  next
    case False
    then have pos: "1 \<le> q'" using nonneg q by (auto simp: q'_def)
    have "spacing * (pool div spacing) \<le> pool"
    proof -
      have "0 < spacing" by (simp add: spacing_def)
      then show ?thesis using mult_div_mod_eq [of spacing pool] pos_mod_sign [of spacing pool] by linarith
    qed
    moreover have "2 * q' \<le> spacing * (pool div spacing)"
      using pos nonneg by (intro mult_mono) (auto simp: spacing_def q'_def)
    ultimately have "2 * q' \<le> pool" by linarith
    then show ?thesis using False pos rotation_fits_div q by (auto simp: rot q'_def q_def)
  qed
qed

lemma cappedRotation_fits:
  assumes "cappedRotation pool s cap = (perDay, everyDays)" and "perDay \<noteq> 0"
  shows "rotation_fits pool perDay everyDays \<and> perDay \<le> dailyQuota s \<and> perDay \<le> cap \<and> 0 < pool"
proof -
  obtain p e where rot: "HolidayRotation pool s = (p, e)" by (cases "HolidayRotation pool s")
  have pool: "0 < pool" using assms rot
    by (cases "pool \<le> 0") (auto simp: cappedRotation_def HolidayRotation_def Let_def split: if_splits)
  have fits: "rotation_fits pool p e" "p \<le> dailyQuota s" using HolidayRotation_fits [OF pool, of s] rot by auto
  show ?thesis
  proof (cases "p > cap")
    case False
    then show ?thesis using assms fits pool rot by (simp add: cappedRotation_def)
  next
    case True
    then have day: "perDay = cap" "1 \<le> cap" "everyDays = max (pool sdiv cap) 2"
      using assms rot by (auto simp: cappedRotation_def Let_def max_def split: if_splits)
    have "2 \<le> e" "p * e \<le> pool \<or> p = 1" using fits(1) by (auto simp: rotation_fits_def)
    then have "p * 2 \<le> pool" using True day(2) mult_left_mono [of 2 e p] by linarith
    then have "2 * cap \<le> pool" using True by linarith
    then have "rotation_fits pool cap (pool div cap)" using rotation_fits_div day(2) by blast
    then show ?thesis using day True fits pool by (auto simp: rotation_fits_def)
  qed
qed

lemma smod_residue:
  assumes "0 < (b::int)"
  shows "- b < a smod b" "a smod b < b" "(a smod b) mod b = a mod b" "a smod b = 0 \<longleftrightarrow> b dvd a"
proof -
  have sm: "a smod b = (if 0 \<le> a then a mod b else - (- a mod b))"
    using assms by (auto simp: smod_int_alt_def sgn_if)
  have "0 \<le> a mod b" "a mod b < b" "0 \<le> - a mod b" "- a mod b < b" using assms by simp_all
  then show "- b < a smod b" "a smod b < b" unfolding sm using assms by (auto simp only: split: if_split)
  show "(a smod b) mod b = a mod b" using mod_minus_eq [of "- a" b] by (simp add: sm)
  show "a smod b = 0 \<longleftrightarrow> b dvd a" by (auto simp: sm mod_eq_0_iff_dvd)
qed

lemma rotationPicks_mod:
  assumes "rotation_fits pool perDay everyDays"
  shows "rotationPicks pool perDay everyDays day =
    (if pool < perDay * everyDays \<and> \<not> everyDays dvd day then [] else map (\<lambda>k. (day * perDay + k) mod pool) [0..perDay - 1])"
proof -
  have pos: "0 < pool" "1 \<le> perDay" "2 \<le> everyDays" using assms by (auto simp: rotation_fits_def)
  have start: "((day * perDay) smod pool + pool) smod pool = (day * perDay) mod pool"
    using pos smod_residue [of pool "day * perDay"] by (simp add: mod_add_right_eq [symmetric])
  have dvd: "day smod everyDays \<noteq> 0 \<longleftrightarrow> \<not> everyDays dvd day" using pos smod_residue(4) [of everyDays day] by simp
  have "map (\<lambda>k. ((day * perDay) mod pool + k) smod pool) [0..perDay - 1] = map (\<lambda>k. (day * perDay + k) mod pool) [0..perDay - 1]"
    using pos by (simp add: mod_add_left_eq)
  then show ?thesis using pos unfolding rotationPicks_def Let_def start dvd by simp
qed

text \<open>Two airings of a position are as many days apart as the rotation says.\<close>

lemma rotation_rests:
  assumes "rotation_fits pool perDay everyDays" and "d < d'"
    and "i \<in> set (rotationPicks pool perDay everyDays d)" and "i \<in> set (rotationPicks pool perDay everyDays d')"
  shows "everyDays \<le> d' - d"
proof (cases "pool < perDay * everyDays")
  case True
  then have "everyDays dvd d" "everyDays dvd d'" using assms(3,4) by (auto simp: rotationPicks_mod [OF assms(1)] split: if_splits)
  then have "everyDays dvd d' - d" by simp
  then show ?thesis using assms(2) zdvd_imp_le [of everyDays "d' - d"] by simp
next
  case False
  have pos: "0 < pool" "1 \<le> perDay" "2 \<le> everyDays" using assms(1) by (auto simp: rotation_fits_def)
  obtain k k' where k: "0 \<le> k" "k < perDay" "0 \<le> k'" "k' < perDay" "(d * perDay + k) mod pool = (d' * perDay + k') mod pool"
    using assms(3,4) False by (auto simp: rotationPicks_mod [OF assms(1)])
  then have dvd: "pool dvd (d' - d) * perDay + (k' - k)"
    by (metis (no_types, lifting) add_diff_eq diff_add_eq diff_diff_eq2 left_diff_distrib mod_eq_dvd_iff add.commute)
  show ?thesis
  proof (rule ccontr)
    assume "\<not> everyDays \<le> d' - d"
    then have "(d' - d + 1) * perDay \<le> everyDays * perDay" using pos by (intro mult_right_mono) auto
    then have "(d' - d) * perDay + (k' - k) < pool" using False k by (simp add: algebra_simps)
    moreover have "0 < (d' - d) * perDay + (k' - k)"
    proof -
      have "1 * perDay \<le> (d' - d) * perDay" using assms(2) pos by (intro mult_right_mono) auto
      then show ?thesis using k by linarith
    qed
    ultimately show False using zdvd_imp_le [OF dvd] by linarith
  qed
qed

lemma rotationPicks_distinct:
  assumes "rotation_fits pool perDay everyDays"
  shows "distinct (rotationPicks pool perDay everyDays day) \<and>
    set (rotationPicks pool perDay everyDays day) \<subseteq> {0..<pool} \<and>
    int (length (rotationPicks pool perDay everyDays day)) \<le> perDay"
proof -
  have pos: "0 < pool" "1 \<le> perDay" "perDay \<le> pool" using assms by (auto simp: rotation_fits_def)
  have "inj_on (\<lambda>k. (day * perDay + k) mod pool) (set [0..perDay - 1])"
  proof (rule inj_onI)
    fix k k' assume k: "k \<in> set [0..perDay - 1]" "k' \<in> set [0..perDay - 1]" "(day * perDay + k) mod pool = (day * perDay + k') mod pool"
    then have "pool dvd k - k'" by (simp add: mod_eq_dvd_iff)
    then show "k = k'" using k pos zdvd_imp_le [of pool "k - k'"] zdvd_imp_le [of pool "k' - k"]
      by (cases k k' rule: linorder_cases) (auto simp: dvd_diff_commute)
  qed
  then show ?thesis using pos unfolding rotationPicks_mod [OF assms] by (auto simp: distinct_map)
qed

section \<open>The pool of holiday units\<close>

record holidayFeature =
  hf_seasonal :: ResolvedSeasonal
  hf_matches :: holiday_matches
  hf_expand :: "string \<Rightarrow> Slot list option"

definition matches_of :: "holidayFeature \<Rightarrow> string \<Rightarrow> string list" where
  "matches_of f item = (case map_of (hf_matches f) item of None \<Rightarrow> [] | Some ids \<Rightarrow> ids)"

definition unitHolidays :: "holidayFeature \<Rightarrow> Slot \<Rightarrow> string list" where
  "unitHolidays f s =
     (if \<not> IsProgram s then []
      else case hf_expand f (s_PartGroup s) of
             Some parts \<Rightarrow>
               (if s_PartGroup s \<noteq> ''''
                then fold (\<lambda>i ids. if i \<in> set ids then ids else ids @ [i])
                       (concat (map (\<lambda>q. matches_of f (s_LibraryItemID q)) parts)) []
                else matches_of f (s_LibraryItemID s))
           | None \<Rightarrow> matches_of f (s_LibraryItemID s))"

definition feature_selected :: "holidayFeature \<Rightarrow> string \<Rightarrow> bool" where
  "feature_selected f i \<longleftrightarrow>
     lowerSet (rse_Holidays (hf_seasonal f)) = [] \<or> i \<in> set (lowerSet (rse_Holidays (hf_seasonal f)))"

fun pool_scan :: "holidayFeature \<Rightarrow> string list \<Rightarrow> string list \<Rightarrow> Slot list \<Rightarrow> Slot list" where
  "pool_scan f ids seen [] = []"
| "pool_scan f ids seen (s # ss) =
     (if unitKey s \<in> set seen then pool_scan f ids seen ss
      else if list_ex (\<lambda>i. i \<in> set ids) (unitHolidays f s) then s # pool_scan f ids (unitKey s # seen) ss
      else pool_scan f ids seen ss)"

definition holidayPool :: "holidayFeature \<Rightarrow> Slot list \<Rightarrow> string list \<Rightarrow> Slot list" where
  "holidayPool f deck ids = pool_scan f ids [] deck"

section \<open>The day plans\<close>

text \<open>The rotation's index of a civil day: days since the Unix epoch.\<close>

definition civilDay :: "int \<Rightarrow> int" where
  "civilDay n = n - unix_origin div 86400"

record holidayAt =
  ha_at :: gotime
  ha_unit :: Slot

record dayPlan =
  dp_start :: gotime
  dp_end :: gotime
  dp_pool :: "Slot list"
  dp_holiday :: bool
  dp_features :: "holidayAt list"

record holidayPlanner =
  hp_deck :: "Slot list"
  hp_ring :: dealtRing
  hp_f :: holidayFeature
  hp_window :: duration
  hp_loc :: "zone option"
  hp_cal :: Calendar
  hp_breakFactor :: rat
  hp_meanMs :: rat

definition newHolidayPlanner ::
  "random_draw \<Rightarrow> dealtRing \<Rightarrow> holidayFeature \<Rightarrow> duration \<Rightarrow> Calendar \<Rightarrow> rat \<Rightarrow> holidayPlanner" where
  "newHolidayPlanner draw ring f window cal factor =
     (let deck0 = aired draw (dr_d ring) 0;
          runtimes = map s_DurationMs (filter IsProgram deck0);
          mean = (if runtimes = [] then 0 else rat_of_int (sum_list runtimes) / rat_of_nat (length runtimes))
      in \<lparr>hp_deck = deck0, hp_ring = ring, hp_f = f, hp_window = window, hp_loc = cl_Zone cal, hp_cal = cal,
          hp_breakFactor = factor, hp_meanMs = mean\<rparr>)"

definition planner_on :: "holidayPlanner \<Rightarrow> bool" where
  "planner_on p \<longleftrightarrow> rse_Mode (hf_seasonal (hp_f p)) = SeasonalAuto \<and> hp_window p > 0 \<and> hf_matches (hp_f p) \<noteq> [] \<and> hp_deck p \<noteq> []"

text \<open>Go's conversion of a float to an integer rounds toward zero.\<close>

definition to_int :: "rat \<Rightarrow> int" where
  "to_int x = (if 0 \<le> x then floor x else - floor (- x))"

definition planner_runtime :: "holidayPlanner \<Rightarrow> Slot \<Rightarrow> duration" where
  "planner_runtime p s = to_int (rat_of_int (s_DurationMs s) * hp_breakFactor p) * millisecond"

definition dayCap :: "holidayPlanner \<Rightarrow> duration \<Rightarrow> int" where
  "dayCap p len =
     (if hp_meanMs p \<le> 0 then int (length (hp_deck p))
      else to_int (rat_of_int (milliseconds len) / (hp_meanMs p * hp_breakFactor p) / rat_of_int holidayShareOfDay))"

definition local_midnight :: "holidayPlanner \<Rightarrow> int \<Rightarrow> gotime" where
  "local_midnight p n = zone_instant (hp_loc p) (midnight n)"

definition active_on :: "holidayPlanner \<Rightarrow> int \<Rightarrow> Observance list" where
  "active_on p n =
     filter (\<lambda>h. feature_selected (hp_f p) (ob_ID h) \<and> holidayActive h (midnight n + 12 * hour)) (cal_holidays (hp_cal p))"

definition own_date :: "Observance \<Rightarrow> int \<Rightarrow> bool" where
  "own_date h n \<longleftrightarrow>
     (let hd = day_index (DayRule_Date (ru_Day (ob_Rule h)) (year_of n))
      in month_of hd = month_of n \<and> day_of_month hd = day_of_month n)"

definition rawDay :: "holidayPlanner \<Rightarrow> int \<Rightarrow> dayPlan" where
  "rawDay p n =
     (let active = active_on p n
      in \<lparr>dp_start = local_midnight p n, dp_end = local_midnight p (n + 1),
          dp_pool = (if active \<noteq> [] then holidayPool (hp_f p) (hp_deck p) (map ob_ID active) else []),
          dp_holiday = list_ex (\<lambda>h. own_date h n) active, dp_features = []\<rparr>)"

definition day_cap :: "holidayPlanner \<Rightarrow> int \<Rightarrow> int" where
  "day_cap p n = dayCap p (dp_end (rawDay p n) - dp_start (rawDay p n))"

definition day_base :: "holidayPlanner \<Rightarrow> int \<Rightarrow> Slot list" where
  "day_base p n =
     (let pool = dp_pool (rawDay p n);
          (perDay, everyDays) = cappedRotation (int (length pool)) (rse_Strength (hf_seasonal (hp_f p))) (day_cap p n)
      in map (\<lambda>i. pool ! nat i) (rotationPicks (int (length pool)) perDay everyDays (civilDay n)))"

text \<open>Topping up a holiday's date, around the ring of its pool.\<close>

definition day_top_up :: "int \<Rightarrow> (Slot \<Rightarrow> bool) \<Rightarrow> Slot list \<Rightarrow> Slot list \<Rightarrow> Slot list" where
  "day_top_up quota ok ring picks =
     fold (\<lambda>u picks. if int (length picks) < quota \<and> unitKey u \<notin> unitKey ` set picks \<and> ok u then picks @ [u] else picks)
       ring picks"

definition after_last :: "Slot list \<Rightarrow> Slot list \<Rightarrow> nat" where
  "after_last pool picks =
     (if picks = [] then 0 else length (takeWhile (\<lambda>s. unitKey s \<noteq> unitKey (last picks)) pool) + 1)"

definition holiday_quota :: "holidayPlanner \<Rightarrow> int \<Rightarrow> int" where
  "holiday_quota p n =
     (let strength = rse_Strength (hf_seasonal (hp_f p));
          quota = holidayDayQuota strength (int (length (dp_pool (rawDay p n))))
      in if strength \<noteq> HolidayStrengthHeavy then min quota (day_cap p n) else quota)"

definition holidayFull :: "holidayPlanner \<Rightarrow> int \<Rightarrow> Slot list" where
  "holidayFull p n =
     (let pool = dp_pool (rawDay p n); picks = day_base p n;
          near = unitKey ` set (day_base p (n - 1) @ day_base p (n + 1));
          ring = rotate (after_last pool picks) pool;
          picks = day_top_up (holiday_quota p n) (\<lambda>u. unitKey u \<notin> near) ring picks
      in day_top_up (holiday_quota p n) (\<lambda>u. True) ring picks)"

definition day_picks :: "holidayPlanner \<Rightarrow> int \<Rightarrow> Slot list" where
  "day_picks p n =
     (if dp_holiday (rawDay p n) then holidayFull p n
      else
        (let drop_units = concat (map (\<lambda>m. if dp_holiday (rawDay p m) then holidayFull p m else []) [n - 1, n + 1])
         in filter (\<lambda>u. unitKey u \<notin> unitKey ` set drop_units) (day_base p n)))"

text \<open>When a day's picks air: a marathon on the date of a heavy channel's holiday, else spread evenly.\<close>

fun marathon :: "holidayPlanner \<Rightarrow> gotime \<Rightarrow> gotime \<Rightarrow> Slot list \<Rightarrow> holidayAt list" where
  "marathon p closing t [] = []"
| "marathon p closing t (u # us) =
     (if \<not> t < closing then [] else \<lparr>ha_at = t, ha_unit = u\<rparr> # marathon p closing (t + planner_runtime p u) us)"

definition placeFeatures :: "holidayPlanner \<Rightarrow> int \<Rightarrow> dayPlan \<Rightarrow> Slot list \<Rightarrow> holidayAt list" where
  "placeFeatures p n r picks =
     (if picks = [] then []
      else
        (let evening = zone_instant (hp_loc p) (midnight n + eveningFromHour * hour);
             late = zone_instant (hp_loc p) (midnight n + eveningToHour * hour)
         in if dp_holiday r \<and> rse_Strength (hf_seasonal (hp_f p)) = HolidayStrengthHeavy
            then (let len = sum_list (map (planner_runtime p) picks);
                      t = (if len > late - evening
                           then (if late - len < dp_start r then dp_start r else late - len) else evening)
                  in marathon p (dp_end r) t picks)
            else (let (open_at, close_at) = (if rse_Evenings (hf_seasonal (hp_f p)) then (evening, late) else (dp_start r, dp_end r));
                      span = close_at - open_at; m = int (length picks)
                  in map (\<lambda>(k, u). \<lparr>ha_at = open_at + (span * (2 * int k + 1)) sdiv (2 * m), ha_unit = u\<rparr>)
                       (zip [0..<length picks] picks))))"

definition day_plan :: "holidayPlanner \<Rightarrow> int \<Rightarrow> dayPlan" where
  "day_plan p n = (rawDay p n)\<lparr>dp_features := placeFeatures p n (rawDay p n) (day_picks p n)\<rparr>"

section \<open>What a day features\<close>

lemma rotation_reaches:
  assumes "rotation_fits pool perDay everyDays" and "0 \<le> i" "i < pool"
  shows "\<exists>d'. d \<le> d' \<and> d' < d + max everyDays ((pool - 1) div perDay + 1) \<and> i \<in> set (rotationPicks pool perDay everyDays d')"
proof (cases "pool < perDay * everyDays")
  case True
  then have tiny: "pool = 1" "perDay = 1" "everyDays = 2" using assms(1) by (auto simp: rotation_fits_def)
  define d' where "d' = d + d mod 2"
  have "even d'" by (simp add: d'_def)
  then have "i \<in> set (rotationPicks pool perDay everyDays d')"
    using assms(2,3) rotationPicks_mod [OF assms(1)] tiny by simp
  then show ?thesis using tiny by (intro exI [of _ d']) (auto simp: d'_def)
next
  case False
  have pos: "0 < pool" "1 \<le> perDay" using assms(1) by (auto simp: rotation_fits_def)
  define t where "t = (i - d * perDay) mod pool"
  have t: "0 \<le> t" "t \<le> pool - 1" using pos pos_mod_bound [of pool "i - d * perDay"] by (simp_all add: t_def)
  define d' where "d' = d + t div perDay"
  have "d' * perDay + t mod perDay = d * perDay + t"
    by (simp add: d'_def algebra_simps)
  then have "(d' * perDay + t mod perDay) mod pool = i"
    using assms(2,3) by (simp add: t_def mod_add_right_eq)
  then have "i \<in> set (rotationPicks pool perDay everyDays d')"
    using False pos by (auto simp: rotationPicks_mod [OF assms(1)] intro!: image_eqI [of _ _ "t mod perDay"])
  moreover have "0 \<le> t div perDay" "t div perDay \<le> (pool - 1) div perDay"
    using t pos zdiv_mono1 [of t "pool - 1" perDay] by (simp_all add: pos_imp_zdiv_nonneg_iff)
  ultimately show ?thesis by (intro exI [of _ d']) (auto simp: d'_def)
qed

text \<open>
  A rotation keeps its word: held to a cap of one a day or more, a pool of holiday episodes airs at
  most the strength's quota and the cap a day, no episode twice in a day, none again sooner than the
  promised number of days, which is never under two, and every episode of the pool within one turn of
  the ring.
\<close>

theorem cappedRotation_keeps:
  assumes "0 < pool" and "1 \<le> cap" and "cappedRotation pool s cap = (perDay, everyDays)"
  shows "1 \<le> perDay \<and> perDay \<le> min (dailyQuota s) cap \<and> 2 \<le> everyDays \<and>
    (let picks = rotationPicks pool perDay everyDays
     in distinct (picks d) \<and> int (length (picks d)) \<le> perDay \<and>
        (\<forall>d'. d < d' \<and> set (picks d) \<inter> set (picks d') \<noteq> {} \<longrightarrow> everyDays \<le> d' - d) \<and>
        (\<forall>i\<in>{0..<pool}. \<exists>d'\<ge>d. d' < d + max everyDays ((pool - 1) div perDay + 1) \<and> i \<in> set (picks d')))"
proof -
  have nonzero: "perDay \<noteq> 0"
  proof
    assume "perDay = 0"
    then have "fst (HolidayRotation pool s) = 0" using assms by (auto simp: cappedRotation_def Let_def split: prod.splits if_splits)
    then show False using HolidayRotation_fits [OF assms(1), of s] by (simp add: rotation_fits_def)
  qed
  have fits: "rotation_fits pool perDay everyDays" "perDay \<le> dailyQuota s" "perDay \<le> cap"
    using cappedRotation_fits [OF assms(3) nonzero] by auto
  then have "1 \<le> perDay" "2 \<le> everyDays" by (auto simp: rotation_fits_def)
  moreover have "\<exists>d'\<ge>d. d' < d + max everyDays ((pool - 1) div perDay + 1) \<and> i \<in> set (rotationPicks pool perDay everyDays d')"
    if "i \<in> {0..<pool}" for i
    using rotation_reaches [OF fits(1), of i d] that by auto
  moreover have "everyDays \<le> d' - d"
    if "d < d' \<and> set (rotationPicks pool perDay everyDays d) \<inter> set (rotationPicks pool perDay everyDays d') \<noteq> {}" for d'
    using rotation_rests [OF fits(1)] that by blast
  ultimately show ?thesis
    using fits(2,3) rotationPicks_distinct [OF fits(1), of d] unfolding Let_def by (simp only: min.bounded_iff) blast
qed

theorem cappedRotation_keeps_witness:
  "cappedRotation 9 HolidayStrengthHeavy 12 = (4, 2) \<and> distinct (rotationPicks 9 4 2 18200)"
proof -
  have rot: "cappedRotation 9 HolidayStrengthHeavy 12 = (4, 2)" by code_simp
  show ?thesis using cappedRotation_keeps [OF _ _ rot, of 18200] rot by (simp add: Let_def)
qed

subsection \<open>Picks are distinct units of the pool\<close>

definition keys_distinct :: "Slot list \<Rightarrow> bool" where
  "keys_distinct us \<longleftrightarrow> distinct (map unitKey us)"

lemma pool_scan_distinct:
  "keys_distinct (pool_scan f ids seen ss) \<and> unitKey ` set (pool_scan f ids seen ss) \<inter> set seen = {} \<and>
   set (pool_scan f ids seen ss) \<subseteq> set ss"
proof (induction ss arbitrary: seen)
  case (Cons s ss)
  then show ?case using Cons [of "unitKey s # seen"] Cons [of seen] by (auto simp: keys_distinct_def)
qed (simp add: keys_distinct_def)

lemma pool_distinct [simp]: "keys_distinct (dp_pool (rawDay p n))"
  using pool_scan_distinct [of "hp_f p" "map ob_ID (active_on p n)" "[]" "hp_deck p"]
  by (simp add: rawDay_def Let_def holidayPool_def) (simp add: keys_distinct_def)

lemma key_inj: "keys_distinct us \<Longrightarrow> i < length us \<Longrightarrow> j < length us \<Longrightarrow> unitKey (us ! i) = unitKey (us ! j) \<Longrightarrow> i = j"
  by (metis keys_distinct_def length_map nth_eq_iff_index_eq nth_map)

lemma day_base_empty:
  assumes "cappedRotation (int (length (dp_pool (rawDay p n)))) (rse_Strength (hf_seasonal (hp_f p))) (day_cap p n) = (0, everyDays)"
  shows "day_base p n = []"
  using assms by (simp add: day_base_def Let_def rotationPicks_def)

lemma day_base_spec:
  "keys_distinct (day_base p n) \<and> set (day_base p n) \<subseteq> set (dp_pool (rawDay p n)) \<and>
   int (length (day_base p n)) \<le> max 0 (day_cap p n)"
proof -
  define pool where "pool = dp_pool (rawDay p n)"
  obtain perDay everyDays where rot:
    "cappedRotation (int (length pool)) (rse_Strength (hf_seasonal (hp_f p))) (day_cap p n) = (perDay, everyDays)"
    by (cases "cappedRotation (int (length pool)) (rse_Strength (hf_seasonal (hp_f p))) (day_cap p n)")
  show ?thesis
  proof (cases "perDay = 0")
    case True
    then show ?thesis using day_base_empty rot by (simp add: pool_def keys_distinct_def)
  next
    case False
    note fits = cappedRotation_fits [OF rot False]
    define picks where "picks = rotationPicks (int (length pool)) perDay everyDays (civilDay n)"
    have picks: "distinct picks" "set picks \<subseteq> {0..<int (length pool)}" "int (length picks) \<le> perDay"
      using rotationPicks_distinct [of "int (length pool)" perDay everyDays "civilDay n"] fits by (auto simp: picks_def)
    have base: "day_base p n = map (\<lambda>i. pool ! nat i) picks"
      using rot by (simp add: day_base_def Let_def pool_def picks_def)
    have "inj_on (\<lambda>i. unitKey (pool ! nat i)) (set picks)"
    proof (rule inj_onI)
      fix i j assume ij: "i \<in> set picks" "j \<in> set picks" "unitKey (pool ! nat i) = unitKey (pool ! nat j)"
      then have "i \<in> {0..<int (length pool)}" "j \<in> {0..<int (length pool)}" using picks(2) by blast+
      then have b: "0 \<le> i" "0 \<le> j" "nat i < length pool" "nat j < length pool" by auto
      have "nat i = nat j" by (rule key_inj [OF _ b(3,4) ij(3)]) (simp add: pool_def)
      then show "i = j" using b by simp
    qed
    then have "keys_distinct (day_base p n)" using picks(1) by (simp add: base keys_distinct_def distinct_map comp_def)
    moreover have "set (day_base p n) \<subseteq> set pool" using picks(2) by (force simp: base)
    ultimately show ?thesis using picks(3) fits by (simp add: base pool_def)
  qed
qed

lemma day_top_up_spec:
  assumes "keys_distinct picks"
  shows "keys_distinct (day_top_up quota ok ring picks) \<and> set picks \<subseteq> set (day_top_up quota ok ring picks) \<and>
    set (day_top_up quota ok ring picks) \<subseteq> set picks \<union> set ring \<and>
    int (length (day_top_up quota ok ring picks)) \<le> max (int (length picks)) quota"
  using assms
proof (induction ring arbitrary: picks)
  case (Cons u us)
  define picks' where "picks' = (if int (length picks) < quota \<and> unitKey u \<notin> unitKey ` set picks \<and> ok u then picks @ [u] else picks)"
  have "keys_distinct picks'" using Cons.prems by (auto simp: picks'_def keys_distinct_def)
  from Cons.IH [OF this] show ?case
    by (auto simp: day_top_up_def picks'_def [symmetric]) (auto simp: picks'_def split: if_splits)
qed (simp add: day_top_up_def)

lemma holidayFull_spec:
  "keys_distinct (holidayFull p n) \<and> set (holidayFull p n) \<subseteq> set (dp_pool (rawDay p n)) \<and>
   int (length (holidayFull p n)) \<le> max (max 0 (day_cap p n)) (holiday_quota p n)"
proof -
  define ring where "ring = rotate (after_last (dp_pool (rawDay p n)) (day_base p n)) (dp_pool (rawDay p n))"
  define q where "q = holiday_quota p n"
  define ok where "ok u \<longleftrightarrow> unitKey u \<notin> unitKey ` set (day_base p (n - 1) @ day_base p (n + 1))" for u
  have full: "holidayFull p n = day_top_up q (\<lambda>u. True) ring (day_top_up q ok ring (day_base p n))"
    unfolding holidayFull_def Let_def ring_def q_def ok_def [abs_def] by (rule refl)
  note base = day_base_spec [of p n]
  note first_pass = day_top_up_spec [of "day_base p n" q ok ring]
  note second_pass = day_top_up_spec [of "day_top_up q ok ring (day_base p n)" q "\<lambda>u. True" ring]
  have ring: "set ring = set (dp_pool (rawDay p n))" by (simp add: ring_def)
  have one: "keys_distinct (day_top_up q ok ring (day_base p n))" "set (day_top_up q ok ring (day_base p n)) \<subseteq> set (dp_pool (rawDay p n))"
    "int (length (day_top_up q ok ring (day_base p n))) \<le> max (max 0 (day_cap p n)) q"
    using base first_pass ring by (auto simp: max_def split: if_splits)
  define two where "two = day_top_up q (\<lambda>u. True) ring (day_top_up q ok ring (day_base p n))"
  have "keys_distinct two" "set two \<subseteq> set (dp_pool (rawDay p n)) \<union> set (dp_pool (rawDay p n))"
    "int (length two) \<le> max (int (length (day_top_up q ok ring (day_base p n)))) q"
    using second_pass [OF one(1)] one(2) unfolding two_def ring by blast+
  then show ?thesis using one(3) unfolding full q_def [symmetric] two_def [symmetric] by simp
qed

text \<open>What a day airs never exceeds its cap but on the date of a heavy channel's holiday.\<close>

lemma day_picks_spec:
  "keys_distinct (day_picks p n) \<and> set (day_picks p n) \<subseteq> set (dp_pool (rawDay p n)) \<and>
   ((dp_holiday (rawDay p n) \<and> rse_Strength (hf_seasonal (hp_f p)) = HolidayStrengthHeavy) \<or>
    int (length (day_picks p n)) \<le> max 0 (day_cap p n))"
proof (cases "dp_holiday (rawDay p n)")
  case True
  then show ?thesis using holidayFull_spec [of p n]
    by (cases "rse_Strength (hf_seasonal (hp_f p)) = HolidayStrengthHeavy") (auto simp: day_picks_def holiday_quota_def Let_def)
next
  case False
  note base = day_base_spec [of p n]
  have "int (length (filter P (day_base p n))) \<le> max 0 (day_cap p n)" for P
    using base length_filter_le [of P "day_base p n"] by linarith
  then show ?thesis using base False by (auto simp: day_picks_def Let_def keys_distinct_def distinct_map_filter)
qed

lemma neighbour_drops:
  assumes "dp_holiday (rawDay p m)" and "\<not> dp_holiday (rawDay p n)" and "m = n - 1 \<or> m = n + 1"
  shows "unitKey ` set (day_picks p m) \<inter> unitKey ` set (day_picks p n) = {}"
proof -
  have "unitKey b \<notin> unitKey ` set (holidayFull p m)" if "b \<in> set (day_picks p n)" for b
    using that assms by (auto simp: day_picks_def Let_def image_Un)
  moreover have "day_picks p m = holidayFull p m" using assms(1) by (simp add: day_picks_def)
  ultimately have "k \<notin> unitKey ` set (day_picks p n)" if "k \<in> unitKey ` set (day_picks p m)" for k
    using that by (simp only: image_iff) blast
  then show ?thesis by blast
qed

lemma ordinary_rotates:
  assumes "dp_pool (rawDay p n) = dp_pool (rawDay p (n + 1))" and "day_cap p n = day_cap p (n + 1)"
  shows "unitKey ` set (day_base p n) \<inter> unitKey ` set (day_base p (n + 1)) = {}"
proof -
  define pool where "pool = dp_pool (rawDay p n)"
  obtain perDay everyDays where rot:
    "cappedRotation (int (length pool)) (rse_Strength (hf_seasonal (hp_f p))) (day_cap p n) = (perDay, everyDays)"
    by (cases "cappedRotation (int (length pool)) (rse_Strength (hf_seasonal (hp_f p))) (day_cap p n)")
  show ?thesis
  proof (cases "perDay = 0")
    case True
    then show ?thesis using day_base_empty rot by (simp add: pool_def)
  next
    case False
    note fits = cappedRotation_fits [OF rot False]
    define picks where "picks day = rotationPicks (int (length pool)) perDay everyDays (civilDay day)" for day
    have base: "day_base p day = map (\<lambda>i. pool ! nat i) (picks day)" if "day = n \<or> day = n + 1" for day
      using rot assms that by (auto simp: day_base_def Let_def pool_def picks_def)
    have within: "set (picks day) \<subseteq> {0..<int (length pool)}" for day
      using rotationPicks_distinct fits by (simp add: picks_def)
    have apart: "set (picks n) \<inter> set (picks (n + 1)) = {}"
    proof (rule ccontr)
      assume "set (picks n) \<inter> set (picks (n + 1)) \<noteq> {}"
      then obtain i where "i \<in> set (picks n)" "i \<in> set (picks (n + 1))" by blast
      then have "everyDays \<le> civilDay (n + 1) - civilDay n"
        using rotation_rests [of "int (length pool)" perDay everyDays "civilDay n" "civilDay (n + 1)" i] fits
        by (simp add: picks_def) (simp add: civilDay_def)
      then show False using fits by (simp add: civilDay_def rotation_fits_def)
    qed
    have "i = j" if "i \<in> set (picks n)" "j \<in> set (picks (n + 1))" "unitKey (pool ! nat i) = unitKey (pool ! nat j)" for i j
    proof -
      have "i \<in> {0..<int (length pool)}" "j \<in> {0..<int (length pool)}" using within that by blast+
      then have b: "0 \<le> i" "0 \<le> j" "nat i < length pool" "nat j < length pool" by auto
      have "nat i = nat j" by (rule key_inj [OF _ b(3,4) that(3)]) (simp add: pool_def)
      then show ?thesis using b by simp
    qed
    then show ?thesis using apart base [of n] base [of "n + 1"] by fastforce
  qed
qed

lemma marathon_units: "\<exists>k. map ha_unit (marathon p closing t us) = take k us"
proof (induction us arbitrary: t)
  case (Cons u us)
  then obtain k where "map ha_unit (marathon p closing (t + planner_runtime p u) us) = take k us" by blast
  then show ?case by (cases "t < closing") (auto intro: exI [of _ "Suc k"] exI [of _ 0])
qed simp

lemma features_units: "\<exists>k. map ha_unit (dp_features (day_plan p n)) = take k (day_picks p n)"
proof -
  have "map (\<lambda>(k::nat, u). u) (zip [0..<length us] us) = us" for us :: "Slot list"
    by (simp add: map_snd_zip [unfolded snd_def])
  then have spread: "map (ha_unit \<circ> (\<lambda>(k, u). \<lparr>ha_at = f k, ha_unit = u\<rparr>)) (zip [0..<length us] us) = us" for f and us :: "Slot list"
    by (simp add: comp_def split_def)
  have "\<exists>k. map ha_unit (placeFeatures p n r us) = take k us" for r us
    using marathon_units spread [of _ us]
    by (auto simp: placeFeatures_def Let_def intro: exI [of _ "length us"] split: prod.split)
  then show ?thesis by (simp add: day_plan_def)
qed

text \<open>
  A day's holiday feature never repeats itself: it has no unit twice, only units of the day's active
  pool, no more of them than a quarter of the day's programmes but on the date of a heavy channel's
  holiday; the feature of a holiday's date and of an ordinary day beside it have no unit in common; and
  two ordinary days running on the same pool and cap have none either.
\<close>

theorem day_plan_spaced:
  "let units = \<lambda>m. map ha_unit (dp_features (day_plan p m)) in
   keys_distinct (units n) \<and> set (units n) \<subseteq> set (dp_pool (rawDay p n)) \<and>
   ((dp_holiday (rawDay p n) \<and> rse_Strength (hf_seasonal (hp_f p)) = HolidayStrengthHeavy) \<or>
    int (length (units n)) \<le> max 0 (day_cap p n)) \<and>
   (dp_holiday (rawDay p n) \<noteq> dp_holiday (rawDay p (n + 1)) \<or>
      \<not> dp_holiday (rawDay p n) \<and> dp_pool (rawDay p n) = dp_pool (rawDay p (n + 1)) \<and> day_cap p n = day_cap p (n + 1) \<longrightarrow>
    unitKey ` set (units n) \<inter> unitKey ` set (units (n + 1)) = {})"
proof -
  define units where "units m = map ha_unit (dp_features (day_plan p m))" for m
  obtain k where k: "\<And>m. units m = take (k m) (day_picks p m)" using features_units unfolding units_def by metis
  have sub: "set (units m) \<subseteq> set (day_picks p m)" for m unfolding k by (rule set_take_subset)
  note picks = day_picks_spec [of p n]
  have "keys_distinct (units n)" using picks by (simp add: keys_distinct_def k take_map [symmetric])
  moreover have "int (length (units n)) \<le> int (length (day_picks p n))" by (simp add: k)
  moreover have "unitKey ` set (units n) \<inter> unitKey ` set (units (n + 1)) = {}"
    if "unitKey ` set (day_picks p n) \<inter> unitKey ` set (day_picks p (n + 1)) = {}"
    using that sub [of n] sub [of "n + 1"] by blast
  moreover have "unitKey ` set (day_picks p n) \<inter> unitKey ` set (day_picks p (n + 1)) = {}"
    if "dp_holiday (rawDay p n) \<noteq> dp_holiday (rawDay p (n + 1))"
    using that neighbour_drops [of p n "n + 1"] neighbour_drops [of p "n + 1" n]
    by (cases "dp_holiday (rawDay p n)") auto
  moreover have "unitKey ` set (day_picks p n) \<inter> unitKey ` set (day_picks p (n + 1)) = {}"
    if "\<not> dp_holiday (rawDay p n)" "dp_holiday (rawDay p n) = dp_holiday (rawDay p (n + 1))"
      "dp_pool (rawDay p n) = dp_pool (rawDay p (n + 1))" "day_cap p n = day_cap p (n + 1)"
  proof -
    have "set (day_picks p m) \<subseteq> set (day_base p m)" if "\<not> dp_holiday (rawDay p m)" for m
      using that by (auto simp: day_picks_def Let_def)
    then have "set (day_picks p n) \<subseteq> set (day_base p n)" "set (day_picks p (n + 1)) \<subseteq> set (day_base p (n + 1))"
      using that by auto
    then show ?thesis using ordinary_rotates [OF that(3,4)] by blast
  qed
  ultimately show ?thesis using picks sub [of n] unfolding Let_def units_def [symmetric] by (smt (verit) subset_trans)
qed

definition sample_deck :: "Slot list" where
  "sample_deck =
     map (\<lambda>i. empty_slot\<lparr>s_Kind := SlotProgram, s_LibraryItemID := [i], s_DurationMs := 1800000\<rparr>) ''abcdef''"

definition sample_dealer :: deckDealer where
  "sample_dealer = newDeckDealer sample_deck (shuffled_rp\<lparr>rp_Ordering := OrderSequential\<rparr>) 1 day_ns"

definition sample_planner :: holidayPlanner where
  "sample_planner = newHolidayPlanner (\<lambda>_ _ _. 0) (newDealtRing (\<lambda>_ _ _. 0) sample_dealer day_ns 0)
     \<lparr>hf_seasonal = \<lparr>rse_Mode = SeasonalAuto, rse_Holidays = [], rse_OffSeason = OffSeasonLoop,
        rse_Strength = HolidayStrengthFeatured, rse_Evenings = True\<rparr>,
      hf_matches = [(''a'', [''halloween'']), (''b'', [''halloween'']), (''d'', [''halloween'']), (''e'', [''halloween''])],
      hf_expand = Map.empty\<rparr>
     day_ns
     \<lparr>cl_Zone = None, cl_Country = ''US'', cl_Holidays = Some [sample_halloween\<lparr>hd_Kept :=
        [\<lparr>kp_Countries = [''US''], kp_Rule = \<lparr>
           ru_Day = \<lparr>dr_Kind = DayFixed, dr_Month = 10, dr_Day = 31, dr_Weekday = 0, dr_N = 0, dr_Offset = 0\<rparr>,
           ru_Window = \<lparr>wr_Kind = WindowAround, wr_From = \<lparr>md_Month = 0, md_Day = 0\<rparr>, wr_To = \<lparr>md_Month = 0, md_Day = 0\<rparr>,
              wr_Before = 14, wr_After = 0\<rparr>\<rparr>\<rparr>]\<rparr>]\<rparr> 1"

text \<open>Day 739919 is 31 October 2026.\<close>

lemma sample_holiday:
  "list_ex (\<lambda>h. own_date h 739919) (active_on sample_planner 739919)"
  "\<not> list_ex (\<lambda>h. own_date h 739918) (active_on sample_planner 739918)"
  by code_simp+

theorem day_plan_spaced_witness:
  "dp_holiday (rawDay sample_planner 739919) \<and> \<not> dp_holiday (rawDay sample_planner 739918) \<and>
   unitKey ` set (map ha_unit (dp_features (day_plan sample_planner 739918))) \<inter>
   unitKey ` set (map ha_unit (dp_features (day_plan sample_planner 739919))) = {}"
proof -
  have days: "dp_holiday (rawDay sample_planner 739919)" "\<not> dp_holiday (rawDay sample_planner 739918)"
    using sample_holiday by (simp_all add: rawDay_def Let_def)
  show ?thesis using day_plan_spaced [of sample_planner 739918] days unfolding Let_def by simp
qed

subsection \<open>When a day's feature airs\<close>

lemma spread_within:
  assumes "0 < (width::int)" and "k < m"
  shows "0 \<le> (width * (2 * int k + 1)) sdiv (2 * int m)" and "(width * (2 * int k + 1)) sdiv (2 * int m) < width"
proof -
  have pos: "0 < 2 * int m" "0 \<le> width * (2 * int k + 1)" using assms by auto
  then show "0 \<le> (width * (2 * int k + 1)) sdiv (2 * int m)" by (simp add: pos_imp_zdiv_nonneg_iff)
  show "(width * (2 * int k + 1)) sdiv (2 * int m) < width"
  proof -
    define a where "a = width * (2 * int k + 1)"
    have "\<not> width \<le> a div (2 * int m)"
    proof
      assume "width \<le> a div (2 * int m)"
      then have "width * (2 * int m) \<le> a div (2 * int m) * (2 * int m)" using pos by (intro mult_right_mono) auto
      moreover have "a div (2 * int m) * (2 * int m) \<le> a" using pos div_mult_mod_eq [of a "2 * int m"] pos_mod_sign [of "2 * int m" a] by linarith
      moreover have "a < width * (2 * int m)" using assms unfolding a_def by (intro mult_strict_left_mono) auto
      ultimately show False by linarith
    qed
    then show ?thesis using pos by (simp add: a_def [symmetric])
  qed
qed

text \<open>
  A channel that keeps holiday episodes to the evenings airs them there: but for the marathon of a
  heavy channel's holiday, every feature of a day starts from 17:00 and before 23:00 of its zone's
  clock, in the order of the day's picks, and every pick has its slot.
\<close>

theorem features_in_evening:
  assumes "rse_Evenings (hf_seasonal (hp_f p))"
    and "\<not> (dp_holiday (rawDay p n) \<and> rse_Strength (hf_seasonal (hp_f p)) = HolidayStrengthHeavy)"
    and "zone_instant (hp_loc p) (midnight n + eveningFromHour * hour) < zone_instant (hp_loc p) (midnight n + eveningToHour * hour)"
  shows "map ha_unit (dp_features (day_plan p n)) = day_picks p n \<and>
    sorted (map ha_at (dp_features (day_plan p n))) \<and>
    list_all (\<lambda>f. zone_instant (hp_loc p) (midnight n + eveningFromHour * hour) \<le> ha_at f \<and>
       ha_at f < zone_instant (hp_loc p) (midnight n + eveningToHour * hour)) (dp_features (day_plan p n))"
proof -
  define evening where "evening = zone_instant (hp_loc p) (midnight n + eveningFromHour * hour)"
  define late where "late = zone_instant (hp_loc p) (midnight n + eveningToHour * hour)"
  define picks where "picks = day_picks p n"
  define feature where "feature = (\<lambda>(k::nat, u). \<lparr>ha_at = evening + ((late - evening) * (2 * int k + 1)) sdiv (2 * int (length picks)), ha_unit = u\<rparr>)"
  have span: "0 < late - evening" using assms(3) by (simp add: evening_def late_def)
  have features: "dp_features (day_plan p n) = map feature (zip [0..<length picks] picks)"
  proof -
    have cond: "(dp_holiday (rawDay p n) \<and> rse_Strength (hf_seasonal (hp_f p)) = HolidayStrengthHeavy) = False"
      using assms(2) by blast
    show ?thesis
      unfolding day_plan_def placeFeatures_def Let_def picks_def [symmetric] evening_def [symmetric] late_def [symmetric] cond
      using assms(1) by (simp add: feature_def)
  qed
  have units: "map ha_unit (map feature (zip [0..<length picks] picks)) = picks"
    by (simp add: feature_def comp_def split_def map_snd_zip [unfolded snd_def] )
  have at_k: "ha_at (map feature (zip [0..<length picks] picks) ! k) =
      evening + ((late - evening) * (2 * int k + 1)) sdiv (2 * int (length picks))" if "k < length picks" for k
    using that by (simp add: feature_def)
  have "sorted (map ha_at (map feature (zip [0..<length picks] picks)))"
    unfolding sorted_iff_nth_mono
  proof (intro allI impI)
    fix i j assume "i \<le> j" "j < length (map ha_at (map feature (zip [0..<length picks] picks)))"
    then have ij: "i \<le> j" "i < length picks" "j < length picks" by auto
    have mono: "(late - evening) * (2 * int i + 1) \<le> (late - evening) * (2 * int j + 1)"
      using ij span by (intro mult_left_mono) auto
    have "((late - evening) * (2 * int i + 1)) sdiv (2 * int (length picks)) \<le> ((late - evening) * (2 * int j + 1)) sdiv (2 * int (length picks))"
    proof -
      have "0 < 2 * int (length picks)" "0 \<le> (late - evening) * (2 * int i + 1)" "0 \<le> (late - evening) * (2 * int j + 1)"
        using ij span by auto
      then show ?thesis using mono zdiv_mono1 by (simp only: sdiv_nonneg)
    qed
    then show "map ha_at (map feature (zip [0..<length picks] picks)) ! i \<le> map ha_at (map feature (zip [0..<length picks] picks)) ! j"
      using ij at_k [of i] at_k [of j] by simp
  qed
  moreover have "list_all (\<lambda>f. evening \<le> ha_at f \<and> ha_at f < late) (map feature (zip [0..<length picks] picks))"
    unfolding list_all_length using at_k spread_within [OF span] by fastforce
  ultimately show ?thesis unfolding features units picks_def [symmetric] evening_def [symmetric] late_def [symmetric] by simp
qed

theorem features_in_evening_witness:
  "sorted (map ha_at (dp_features (day_plan sample_planner 739919)))"
proof -
  have "rse_Evenings (hf_seasonal (hp_f sample_planner))"
    "\<not> (dp_holiday (rawDay sample_planner 739919) \<and> rse_Strength (hf_seasonal (hp_f sample_planner)) = HolidayStrengthHeavy)"
    "hp_loc sample_planner = None"
    by (simp_all add: sample_planner_def newHolidayPlanner_def Let_def)
  then show ?thesis using features_in_evening [of sample_planner 739919] by (simp add: zone_instant_def)
qed

end
