(* ===== verification/Season_Windows.thy ===== *)
theory Season_Windows
  imports Holiday_Plans
begin

text \<open>
  What a window airs of the day plans, and how a tile is timed around it: \<^verbatim>\<open>days\<close> to \<^verbatim>\<open>features\<close>,
  \<^verbatim>\<open>place\<close>, \<^verbatim>\<open>airedIn\<close>, \<^verbatim>\<open>startsIn\<close>, \<^verbatim>\<open>beforeBand\<close> and \<^verbatim>\<open>summary\<close> of
  \<^verbatim>\<open>internal/schedule/seasonal_boost.go\<close>. A tile is the list of units a window airs. A Go set of unit
  keys is a list of keys; \<^verbatim>\<open>windowAirings\<close>'s map from a key to its programme indices is a function, the
  empty list for an absent key.

  The lemmas show that timing a tile loses no unit and airs every feature, that nothing asked to leave
  the evening starts in it, and that the loop over the dates of a window ends exactly when the zone has
  every midnight it passes.
\<close>

section \<open>The dates and the features of a window\<close>

definition opening_of :: "holidayPlanner \<Rightarrow> int \<Rightarrow> gotime" where
  "opening_of p w = windowOpening w (hp_window p) (hp_loc p)"

definition closing_of :: "holidayPlanner \<Rightarrow> int \<Rightarrow> gotime" where
  "closing_of p w = opening_of p w + hp_window p"

text \<open>The date of an instant, and the midnight of the date after it, as \<^verbatim>\<open>time.Date\<close> gives it.\<close>

definition date_at :: "holidayPlanner \<Rightarrow> gotime \<Rightarrow> int" where
  "date_at p t = day_index (wall_time (hp_loc p) t)"

definition next_midnight :: "holidayPlanner \<Rightarrow> gotime \<Rightarrow> gotime" where
  "next_midnight p t = local_midnight p (date_at p t + 1)"

text \<open>
  The loop of \<^verbatim>\<open>days\<close>. Where the next midnight is not later than this one the code goes round for ever:
  \<open>None\<close>.
\<close>

function days_loop :: "holidayPlanner \<Rightarrow> gotime \<Rightarrow> gotime \<Rightarrow> gotime list option" where
  "days_loop p closing day =
     (if \<not> day < closing then Some []
      else if next_midnight p day \<le> day then None
      else map_option (Cons day) (days_loop p closing (next_midnight p day)))"
  by pat_completeness auto

termination days_loop
  by (relation "measure (\<lambda>(p, closing, day). nat (closing - day))") auto

declare days_loop.simps [simp del]

definition days_run :: "holidayPlanner \<Rightarrow> int \<Rightarrow> gotime list option" where
  "days_run p w = days_loop p (closing_of p w) (local_midnight p (date_at p (opening_of p w)))"

text \<open>
  The dates a window touches. \<open>days_run_ends\<close> says when the code has them; where its loop does not end
  there is nothing more of the window to describe.
\<close>

definition days :: "holidayPlanner \<Rightarrow> int \<Rightarrow> int list" where
  "days p w = (case days_run p w of None \<Rightarrow> [] | Some ts \<Rightarrow> map (date_at p) ts)"

definition pooled :: "holidayPlanner \<Rightarrow> int \<Rightarrow> string list" where
  "pooled p w = remdups (map unitKey (concat (map (\<lambda>n. dp_pool (rawDay p n)) (days p w))))"

definition feature_before :: "holidayAt \<Rightarrow> holidayAt \<Rightarrow> bool" where
  "feature_before a b \<longleftrightarrow> ha_at a < ha_at b"

definition features :: "holidayPlanner \<Rightarrow> int \<Rightarrow> holidayAt list" where
  "features p w =
     sort_by feature_before
       (filter (\<lambda>f. opening_of p w \<le> ha_at f \<and> ha_at f < closing_of p w)
         (concat (map (\<lambda>n. dp_features (day_plan p n)) (days p w))))"

section \<open>Timing a tile\<close>

definition clock_hour :: "holidayPlanner \<Rightarrow> gotime \<Rightarrow> int" where
  "clock_hour p t = wall_time (hp_loc p) t mod day_ns div hour"

definition inEvening :: "holidayPlanner \<Rightarrow> gotime \<Rightarrow> bool" where
  "inEvening p t \<longleftrightarrow> clock_hour p t \<ge> eveningFromHour \<and> clock_hour p t < eveningToHour"

definition beforeTheBand :: "holidayPlanner \<Rightarrow> gotime \<Rightarrow> bool" where
  "beforeTheBand p t \<longleftrightarrow> clock_hour p t < eveningFromHour"

text \<open>The time a slot takes of the clock: only a programme moves it.\<close>

definition clock_runtime :: "holidayPlanner \<Rightarrow> Slot \<Rightarrow> duration" where
  "clock_runtime p s = (if IsProgram s then planner_runtime p s else 0)"

text \<open>
  The loop of \<^verbatim>\<open>place\<close>: the features still to air, the units put off and the units left of the tile, at
  clock time \<open>t\<close>. A unit of the tile is what it emits, a feature's unit is \<open>ha_unit\<close>.
\<close>

function place_loop ::
  "holidayPlanner \<Rightarrow> (Slot \<Rightarrow> bool) \<Rightarrow> holidayAt list \<Rightarrow> Slot list \<Rightarrow> Slot list \<Rightarrow> gotime \<Rightarrow> Slot list \<times> Slot list" where
  "place_loop p deferOut fs deferred queue t =
     (if fs \<noteq> [] \<and> (\<not> t < ha_at (hd fs) \<or> queue = [] \<and> (deferred = [] \<or> inEvening p t))
      then (let (out, late) = place_loop p deferOut (tl fs) deferred queue (t + clock_runtime p (ha_unit (hd fs)))
            in (ha_unit (hd fs) # out, late))
      else if deferred \<noteq> [] \<and> \<not> inEvening p t
      then (let (out, late) = place_loop p deferOut fs (tl deferred) queue (t + clock_runtime p (hd deferred))
            in (hd deferred # out, late))
      else if queue \<noteq> []
      then (if deferOut (hd queue) \<and> inEvening p t
            then place_loop p deferOut fs (deferred @ [hd queue]) (tl queue) t
            else (let (out, late) = place_loop p deferOut fs deferred (tl queue) (t + clock_runtime p (hd queue))
                  in (hd queue # out, late)))
      else ([], deferred))"
  by pat_completeness auto

termination place_loop
  by (relation "measure (\<lambda>(p, d, fs, deferred, queue, t). length fs + length deferred + 2 * length queue)")
    (auto simp: neq_Nil_conv)

declare place_loop.simps [simp del]

definition place :: "holidayPlanner \<Rightarrow> Slot list \<Rightarrow> int \<Rightarrow> string list \<Rightarrow> (Slot \<Rightarrow> bool) \<Rightarrow> Slot list \<times> Slot list" where
  "place p tile w pool deferOut =
     place_loop p deferOut (features p w) [] (filter (\<lambda>s. unitKey s \<notin> set pool) tile) (opening_of p w)"

definition never :: "Slot \<Rightarrow> bool" where
  "never s = False"

fun starts_from :: "holidayPlanner \<Rightarrow> gotime \<Rightarrow> (string \<rightharpoonup> gotime) \<Rightarrow> Slot list \<Rightarrow> (string \<rightharpoonup> gotime)" where
  "starts_from p t out [] = out"
| "starts_from p t out (s # ss) =
     starts_from p (t + clock_runtime p s) (if out (unitKey s) = None then out(unitKey s \<mapsto> t) else out) ss"

definition startsIn :: "holidayPlanner \<Rightarrow> Slot list \<Rightarrow> int \<Rightarrow> (string \<rightharpoonup> gotime)" where
  "startsIn p placed w = starts_from p (opening_of p w) Map.empty placed"

text \<open>A missing key reads as Go's zero time.\<close>

definition start_of :: "(string \<rightharpoonup> gotime) \<Rightarrow> string \<Rightarrow> gotime" where
  "start_of starts key = (case starts key of None \<Rightarrow> 0 | Some t \<Rightarrow> t)"

section \<open>Where a tile airs\<close>

record windowAirings =
  wa_at :: "string \<Rightarrow> int list"
  wa_n :: int

definition first_airing :: "windowAirings \<Rightarrow> string \<Rightarrow> int" where
  "first_airing a key = hd (wa_at a key)"

definition last_airing :: "windowAirings \<Rightarrow> string \<Rightarrow> int" where
  "last_airing a key = last (wa_at a key)"

definition airs :: "windowAirings \<Rightarrow> string \<Rightarrow> bool" where
  "airs a key \<longleftrightarrow> wa_at a key \<noteq> []"

definition air_unit :: "windowAirings \<Rightarrow> string \<Rightarrow> windowAirings" where
  "air_unit a key = \<lparr>wa_at = (wa_at a)(key := wa_at a key @ [wa_n a]), wa_n = wa_n a + 1\<rparr>"

text \<open>One trip round the tile, until the window closes.\<close>

fun air_once :: "holidayPlanner \<Rightarrow> gotime \<Rightarrow> gotime \<Rightarrow> windowAirings \<Rightarrow> Slot list \<Rightarrow> gotime \<times> windowAirings" where
  "air_once p closing t a [] = (t, a)"
| "air_once p closing t a (s # ss) =
     (if \<not> IsProgram s \<or> \<not> t < closing then air_once p closing t a ss
      else air_once p closing (t + planner_runtime p s) (air_unit a (unitKey s)) ss)"

text \<open>
  The tile again and again, until the window closes or a trip takes no time. A runtime is never
  negative, so a trip that does not move the clock on leaves it where it was.
\<close>

function air_loop :: "holidayPlanner \<Rightarrow> Slot list \<Rightarrow> gotime \<Rightarrow> gotime \<Rightarrow> windowAirings \<Rightarrow> windowAirings" where
  "air_loop p tile closing t a =
     (if \<not> t < closing then a
      else if fst (air_once p closing t a tile) \<le> t then snd (air_once p closing t a tile)
      else air_loop p tile closing (fst (air_once p closing t a tile)) (snd (air_once p closing t a tile)))"
  by pat_completeness auto

termination air_loop
  by (relation "measure (\<lambda>(p, tile, closing, t, a). nat (closing - t))") (auto split: prod.split)

declare air_loop.simps [simp del]

definition no_airings :: windowAirings where
  "no_airings = \<lparr>wa_at = (\<lambda>_. []), wa_n = 0\<rparr>"

definition airedIn :: "holidayPlanner \<Rightarrow> Slot list \<Rightarrow> int \<Rightarrow> windowAirings" where
  "airedIn p arranged w = air_loop p arranged (closing_of p w) (opening_of p w) no_airings"

definition dealtTile :: "random_draw \<Rightarrow> holidayPlanner \<Rightarrow> int \<Rightarrow> Slot list" where
  "dealtTile draw p v = ring_tile draw (hp_ring p) v"

definition dealtIn :: "random_draw \<Rightarrow> holidayPlanner \<Rightarrow> int \<Rightarrow> windowAirings" where
  "dealtIn draw p v = airedIn p (dealtTile draw p v) v"

section \<open>How far the spacing reaches\<close>

text \<open>A unit about a holiday the channel keeps.\<close>

definition holiday_unit :: "holidayPlanner \<Rightarrow> Slot \<Rightarrow> bool" where
  "holiday_unit p s \<longleftrightarrow> list_ex (feature_selected (hp_f p)) (unitHolidays (hp_f p) s)"

definition dealer_of :: "holidayPlanner \<Rightarrow> deckDealer" where
  "dealer_of p = dr_d (hp_ring p)"

definition stride_of :: "holidayPlanner \<Rightarrow> int" where
  "stride_of p = dr_stride (hp_ring p)"

definition spacingProgrammes :: "random_draw \<Rightarrow> holidayPlanner \<Rightarrow> int" where
  "spacingProgrammes draw p =
     (let holiday = int (length (filter (holiday_unit p) (ring_pass draw (hp_ring p) 0)));
          nProg = dr_nProg (hp_ring p)
      in if \<not> dd_reshuffle (dealer_of p) then max (nProg sdiv 2 - holiday) 1
         else if hp_meanMs p \<le> 0 then 0
         else (let spacing = ceiling (rat_of_int (milliseconds (dd_spacing (dealer_of p))) / hp_meanMs p)
               in max (min spacing (nProg - holiday)) 2))"

definition spacingWindows :: "holidayPlanner \<Rightarrow> int" where
  "spacingWindows p = dd_spacing (dealer_of p) sdiv hp_window p + 2"

definition horizon :: "random_draw \<Rightarrow> holidayPlanner \<Rightarrow> int" where
  "horizon draw p = 2 * ((spacingProgrammes draw p + stride_of p - 1) sdiv stride_of p + 1)"

definition handOffReach :: "random_draw \<Rightarrow> holidayPlanner \<Rightarrow> int" where
  "handOffReach draw p = 4 * horizon draw p"

text \<open>The latest window in season from \<open>v\<close> down, or one before the floor.\<close>

function last_from :: "holidayPlanner \<Rightarrow> int \<Rightarrow> int \<Rightarrow> int" where
  "last_from p lo v = (if v \<ge> lo \<and> pooled p v = [] then last_from p lo (v - 1) else v)"
  by pat_completeness auto

termination last_from
  by (relation "measure (\<lambda>(p, lo, v). nat (v - lo + 1))") auto

declare last_from.simps [simp del]

definition lastInSeason :: "random_draw \<Rightarrow> holidayPlanner \<Rightarrow> int \<Rightarrow> int" where
  "lastInSeason draw p w = last_from p (w - horizon draw p - handOffReach draw p) w"

definition farFromSeason :: "random_draw \<Rightarrow> holidayPlanner \<Rightarrow> int \<Rightarrow> bool" where
  "farFromSeason draw p w =
     list_all (\<lambda>v. pooled p v = [])
       [w - spacingWindows p - horizon draw p - handOffReach draw p..w + spacingWindows p]"

definition handingOff :: "random_draw \<Rightarrow> holidayPlanner \<Rightarrow> int \<Rightarrow> bool" where
  "handingOff draw p w =
     (if \<not> planner_on p \<or> stride_of p = 0 then False
      else let h = horizon draw p; lst = lastInSeason draw p w
           in lst < w - h \<and> lst \<ge> w - h - handOffReach draw p)"

section \<open>The end of the band\<close>

text \<open>
  The last programme of \<open>out\<close> that starts, \<open>lead\<close> later, before the band: its position, or the end.
\<close>

fun band_slot :: "holidayPlanner \<Rightarrow> gotime \<Rightarrow> duration \<Rightarrow> gotime \<Rightarrow> nat \<Rightarrow> nat \<Rightarrow> Slot list \<Rightarrow> nat" where
  "band_slot p band lead t i found [] = found"
| "band_slot p band lead t i found (s # ss) =
     band_slot p band lead (t + clock_runtime p s) (Suc i) (if IsProgram s \<and> t + lead < band then i else found) ss"

definition insert_at :: "nat \<Rightarrow> 'a list \<Rightarrow> 'a list \<Rightarrow> 'a list" where
  "insert_at i new xs = take i xs @ new @ drop i xs"

function band_loop ::
  "holidayPlanner \<Rightarrow> gotime \<Rightarrow> gotime \<Rightarrow> (Slot \<Rightarrow> bool) \<Rightarrow> Slot list \<Rightarrow> Slot list \<Rightarrow> Slot list \<Rightarrow> Slot list" where
  "band_loop p opening band offSeason out deferred tail' =
     (let lead = sum_list (map (planner_runtime p) (butlast deferred));
          i = band_slot p band lead opening 0 (length out) out
      in if i \<ge> length out \<and> length deferred > 1
         then band_loop p opening band offSeason out (butlast deferred) (last deferred # tail')
         else if i \<ge> length out \<or> \<not> list_ex offSeason (drop i out) then insert_at i deferred out @ tail'
         else (let j = i + length (takeWhile (\<lambda>s. \<not> offSeason s) (drop i out))
               in band_loop p opening band offSeason (take j out @ drop (Suc j) out) (deferred @ [out ! j]) tail'))"
  by pat_completeness auto

lemma off_season_found:
  assumes "list_ex P (drop i xs)"
  shows "i + length (takeWhile (\<lambda>s. \<not> P s) (drop i xs)) < length xs"
proof -
  have "length (takeWhile (\<lambda>s. \<not> P s) (drop i xs)) < length (drop i xs)"
    using assms by (metis (mono_tags, lifting) length_takeWhile_le le_neq_implies_less list_ex_iff takeWhile_eq_all_conv takeWhile_eq_take take_all_iff)
  then show ?thesis by simp
qed

termination band_loop
proof (relation "measure (\<lambda>(p, start, band, offSeason, out, deferred, tail'). 2 * length out + length deferred)")
  fix p start band and offSeason :: "Slot \<Rightarrow> bool" and out deferred tail' :: "Slot list" and lead i j
  assume i: "i = band_slot p band lead start 0 (length out) out"
    and stop: "\<not> (length out \<le> i \<or> \<not> list_ex offSeason (drop i out))"
    and j: "j = i + length (takeWhile (\<lambda>s. \<not> offSeason s) (drop i out))"
  have "j < length out" using off_season_found [of offSeason i out] stop j by simp
  then show "((p, start, band, offSeason, take j out @ drop (Suc j) out, deferred @ [out ! j], tail'),
      p, start, band, offSeason, out, deferred, tail')
      \<in> measure (\<lambda>(p, start, band, offSeason, out, deferred, tail'). 2 * length out + length deferred)"
    by simp
qed auto

declare band_loop.simps [simp del]

definition band_of :: "holidayPlanner \<Rightarrow> Slot list \<Rightarrow> gotime \<Rightarrow> gotime" where
  "band_of p out opening =
     (let stop = opening + sum_list (map (clock_runtime p) out)
      in zone_instant (hp_loc p) (midnight (date_at p stop) + eveningFromHour * hour))"

definition beforeBand :: "holidayPlanner \<Rightarrow> Slot list \<Rightarrow> Slot list \<Rightarrow> gotime \<Rightarrow> (Slot \<Rightarrow> bool) \<Rightarrow> Slot list" where
  "beforeBand p out deferred opening offSeason =
     (if deferred = [] then out else band_loop p opening (band_of p out opening) offSeason out deferred [])"

section \<open>The summary of the feature\<close>

record HolidayEpisodes =
  he_Holiday :: string
  he_Episodes :: int
  he_PerDay :: int
  he_EveryDays :: int
  he_Active :: bool
  he_Capped :: bool
  he_SameAs :: "HolidayStrength list"

definition holidayStrengths :: "HolidayStrength list" where
  "holidayStrengths = [HolidayStrengthLight, HolidayStrengthFeatured, HolidayStrengthHeavy]"

definition holiday_summary :: "holidayPlanner \<Rightarrow> gotime \<Rightarrow> int \<Rightarrow> HolidayWindow \<Rightarrow> HolidayEpisodes" where
  "holiday_summary p today cap w =
     (let strength = rse_Strength (hf_seasonal (hp_f p));
          n = int (length (holidayPool (hp_f p) (hp_deck p) [hw_ID w]));
          (perDay, every) = cappedRotation n strength cap
      in \<lparr>he_Holiday = hw_ID w, he_Episodes = n, he_PerDay = perDay, he_EveryDays = every,
          he_Active = (\<not> hw_Start w > today),
          he_Capped = (n > 0 \<and> (perDay < dailyQuota strength \<or> n < perDay * every)),
          he_SameAs = filter (\<lambda>s. s \<noteq> strength \<and> cappedRotation n s cap = (perDay, every)) holidayStrengths\<rparr>)"

definition summary :: "holidayPlanner \<Rightarrow> gotime \<Rightarrow> HolidayEpisodes list" where
  "summary p now =
     (if rse_Mode (hf_seasonal (hp_f p)) \<noteq> SeasonalAuto \<or> is_zero_time now then []
      else
        (let today = civilNoon now (hp_loc p); cap = dayCap p (24 * hour)
         in map (holiday_summary p today cap)
              (filter (\<lambda>w. feature_selected (hp_f p) (hw_ID w))
                (UpcomingHolidays today (366 * 24 * hour) (hp_cal p)))))"

section \<open>What timing a tile keeps\<close>

definition feature_due :: "holidayPlanner \<Rightarrow> holidayAt list \<Rightarrow> Slot list \<Rightarrow> Slot list \<Rightarrow> gotime \<Rightarrow> bool" where
  "feature_due p fs deferred queue t \<longleftrightarrow>
     fs \<noteq> [] \<and> (\<not> t < ha_at (hd fs) \<or> queue = [] \<and> (deferred = [] \<or> inEvening p t))"

text \<open>The turns of the loop.\<close>

lemma place_feature:
  "feature_due p fs deferred queue t \<Longrightarrow> place_loop p deferOut fs deferred queue t =
     apfst ((#) (ha_unit (hd fs))) (place_loop p deferOut (tl fs) deferred queue (t + clock_runtime p (ha_unit (hd fs))))"
  by (subst place_loop.simps) (simp add: feature_due_def apfst_def map_prod_def split_def Let_def)

lemma place_released:
  "\<not> feature_due p fs deferred queue t \<Longrightarrow> deferred \<noteq> [] \<Longrightarrow> \<not> inEvening p t \<Longrightarrow>
   place_loop p deferOut fs deferred queue t =
     apfst ((#) (hd deferred)) (place_loop p deferOut fs (tl deferred) queue (t + clock_runtime p (hd deferred)))"
  by (subst place_loop.simps) (auto simp add: feature_due_def apfst_def map_prod_def split_def Let_def)

lemma place_put_off:
  "\<not> feature_due p fs deferred queue t \<Longrightarrow> deferred = [] \<or> inEvening p t \<Longrightarrow> queue \<noteq> [] \<Longrightarrow>
   deferOut (hd queue) \<and> inEvening p t \<Longrightarrow>
   place_loop p deferOut fs deferred queue t = place_loop p deferOut fs (deferred @ [hd queue]) (tl queue) t"
  by (subst place_loop.simps) (auto simp add: feature_due_def)

lemma place_unit:
  "\<not> feature_due p fs deferred queue t \<Longrightarrow> deferred = [] \<or> inEvening p t \<Longrightarrow> queue \<noteq> [] \<Longrightarrow>
   \<not> (deferOut (hd queue) \<and> inEvening p t) \<Longrightarrow>
   place_loop p deferOut fs deferred queue t =
     apfst ((#) (hd queue)) (place_loop p deferOut fs deferred (tl queue) (t + clock_runtime p (hd queue)))"
  by (subst place_loop.simps) (auto simp add: feature_due_def apfst_def map_prod_def split_def Let_def)

lemma place_closed:
  "\<not> feature_due p fs deferred queue t \<Longrightarrow> deferred = [] \<or> inEvening p t \<Longrightarrow> queue = [] \<Longrightarrow>
   place_loop p deferOut fs deferred queue t = ([], deferred) \<and> fs = []"
  by (subst place_loop.simps) (auto simp add: feature_due_def)

text \<open>Induction over the turns.\<close>

lemma place_induct [case_names feature released put_off unit closed]:
  assumes "\<And>f fs deferred queue t. feature_due p (f # fs) deferred queue t \<Longrightarrow>
        P fs deferred queue (t + clock_runtime p (ha_unit f)) \<Longrightarrow> P (f # fs) deferred queue t"
    and "\<And>fs d deferred queue t. \<not> feature_due p fs (d # deferred) queue t \<Longrightarrow> \<not> inEvening p t \<Longrightarrow>
        P fs deferred queue (t + clock_runtime p d) \<Longrightarrow> P fs (d # deferred) queue t"
    and "\<And>fs deferred s queue t. \<not> feature_due p fs deferred (s # queue) t \<Longrightarrow> deferred = [] \<or> inEvening p t \<Longrightarrow>
        deferOut s \<and> inEvening p t \<Longrightarrow> P fs (deferred @ [s]) queue t \<Longrightarrow> P fs deferred (s # queue) t"
    and "\<And>fs deferred s queue t. \<not> feature_due p fs deferred (s # queue) t \<Longrightarrow> deferred = [] \<or> inEvening p t \<Longrightarrow>
        \<not> (deferOut s \<and> inEvening p t) \<Longrightarrow> P fs deferred queue (t + clock_runtime p s) \<Longrightarrow> P fs deferred (s # queue) t"
    and "\<And>deferred t. \<not> feature_due p [] deferred [] t \<Longrightarrow> deferred = [] \<or> inEvening p t \<Longrightarrow> P [] deferred [] t"
  shows "P fs deferred queue t"
proof (induction "length fs + length deferred + 2 * length queue" arbitrary: fs deferred queue t rule: less_induct)
  case (less fs deferred queue t)
  show ?case
  proof (cases "feature_due p fs deferred queue t")
    case True
    then obtain f fs' where fs: "fs = f # fs'" by (cases fs) (auto simp: feature_due_def)
    then show ?thesis using assms(1) [OF True [unfolded fs] less [of fs' deferred queue "t + clock_runtime p (ha_unit f)"]] by simp
  next
    case nf: False
    show ?thesis
    proof (cases "deferred \<noteq> [] \<and> \<not> inEvening p t")
      case True
      then obtain d ds where ds: "deferred = d # ds" by (cases deferred) auto
      then show ?thesis using assms(2) [OF nf [unfolded ds] _ less [of fs ds queue "t + clock_runtime p d"]] True by simp
    next
      case nd: False
      then have nd: "deferred = [] \<or> inEvening p t" by blast
      show ?thesis
      proof (cases queue)
        case Nil
        then have "fs = []" using place_closed [OF nf nd] by simp
        then show ?thesis using assms(5) nf nd Nil by simp
      next
        case (Cons s ss)
        then show ?thesis
          using assms(3) [OF nf [unfolded Cons] nd _ less [of fs "deferred @ [s]" ss t]]
            assms(4) [OF nf [unfolded Cons] nd _ less [of fs deferred ss "t + clock_runtime p s"]] by auto
      qed
    qed
  qed
qed

lemma place_loop_slots:
  "mset (fst (place_loop p deferOut fs deferred queue t) @ snd (place_loop p deferOut fs deferred queue t)) =
     mset (map ha_unit fs @ deferred @ queue)"
proof (induction fs deferred queue t rule: place_induct [where p = p and deferOut = deferOut])
  case (feature f fs deferred queue t)
  then show ?case by (simp add: place_feature)
next
  case (released fs d deferred queue t)
  then show ?case by (simp add: place_released)
next
  case (put_off fs deferred s queue t)
  then show ?case using place_put_off [OF put_off(1,2), of deferOut] by simp
next
  case (unit fs deferred s queue t)
  then show ?case using place_unit [OF unit(1,2), of deferOut] by simp
next
  case (closed deferred t)
  then show ?case using place_closed [OF closed] by simp
qed

text \<open>What could not leave the evening is left over only in the evening.\<close>

lemma place_slots_kept:
  assumes "place p tile w pool deferOut = (out, late)"
  shows "mset (out @ late) = mset (map ha_unit (features p w) @ filter (\<lambda>s. unitKey s \<notin> set pool) tile)"
  using place_loop_slots [of p deferOut "features p w" "[]" "filter (\<lambda>s. unitKey s \<notin> set pool) tile" "opening_of p w"] assms
  by (simp only: place_def fst_conv snd_conv append_Nil)

lemma place_loop_deferred:
  "list_all deferOut deferred \<Longrightarrow> list_all deferOut (snd (place_loop p deferOut fs deferred queue t))"
proof (induction fs deferred queue t rule: place_induct [where p = p and deferOut = deferOut])
  case (feature f fs deferred queue t)
  then show ?case by (simp add: place_feature)
next
  case (released fs d deferred queue t)
  then show ?case by (simp add: place_released)
next
  case (put_off fs deferred s queue t)
  then show ?case using place_put_off [OF put_off(1,2), of deferOut] by simp
next
  case (unit fs deferred s queue t)
  then show ?case using place_unit [OF unit(1,2), of deferOut] by simp
next
  case (closed deferred t)
  then show ?case using place_closed [OF closed(1,2)] by simp
qed

lemma mset_insert_at [simp]: "mset (insert_at i new xs) = mset new + mset xs"
  by (metis append_take_drop_id insert_at_def mset_append union_assoc union_commute)

lemma mset_band_loop:
  "deferred \<noteq> [] \<Longrightarrow> mset (band_loop p start band offSeason out deferred tail') = mset (out @ deferred @ tail')"
proof (induction p start band offSeason out deferred tail' rule: band_loop.induct)
  case (1 p start band offSeason out deferred tail')
  let ?lead = "sum_list (map (planner_runtime p) (butlast deferred))"
  let ?i = "band_slot p band ?lead start 0 (length out) out"
  let ?j = "?i + length (takeWhile (\<lambda>s. \<not> offSeason s) (drop ?i out))"
  show ?case
  proof (cases "?i \<ge> length out \<and> length deferred > 1")
    case True
    then have ne: "butlast deferred \<noteq> []" by (cases deferred rule: rev_cases) auto
    have "mset (butlast deferred) + {#last deferred#} = mset deferred"
      using "1.prems" by (metis append_butlast_last_id mset.simps mset_append)
    then show ?thesis
      using "1.IH"(1) [OF refl refl True ne] True by (subst band_loop.simps) (simp add: Let_def)
  next
    case more: False
    show ?thesis
    proof (cases "?i \<ge> length out \<or> \<not> list_ex offSeason (drop ?i out)")
      case True
      show ?thesis
        by (subst band_loop.simps, simp only: Let_def more True if_True if_False mset_append mset_insert_at)
          (simp add: ac_simps)
    next
      case False
      have j: "?j < length out" using off_season_found [of offSeason ?i out] False by simp
      have "mset (band_loop p start band offSeason (take ?j out @ drop (Suc ?j) out) (deferred @ [out ! ?j]) tail') =
          mset ((take ?j out @ drop (Suc ?j) out) @ (deferred @ [out ! ?j]) @ tail')"
        by (rule "1.IH"(2) [OF refl refl more False refl]) simp
      also have "\<dots> = mset (out @ deferred @ tail')"
        using mset_nth_remove [OF j] by simp
      finally show ?thesis by (subst band_loop.simps) (simp only: Let_def more False if_False)
    qed
  qed
qed

lemma mset_beforeBand: "mset (beforeBand p out deferred start offSeason) = mset (out @ deferred)"
  using mset_band_loop [of deferred] by (simp add: beforeBand_def)

section \<open>The dates of a window\<close>

text \<open>A zone has the midnights from \<open>n\<close> on when each is on its own date and later than the one before.\<close>

definition has_midnights :: "holidayPlanner \<Rightarrow> int \<Rightarrow> bool" where
  "has_midnights p n \<longleftrightarrow>
     (\<forall>m. n \<le> m \<longrightarrow> date_at p (local_midnight p m) = m \<and> local_midnight p m < local_midnight p (m + 1))"

lemma midnights_grow:
  assumes "has_midnights p n" and "n \<le> m"
  shows "local_midnight p n + (m - n) \<le> local_midnight p m"
  using assms(2)
proof (induction m rule: int_ge_induct)
  case base
  then show ?case by simp
next
  case (step m)
  then have "local_midnight p m < local_midnight p (m + 1)" using assms(1) by (simp add: has_midnights_def)
  with step show ?case by linarith
qed

lemma days_loop_ends:
  assumes "has_midnights p n"
  shows "\<exists>ts. days_loop p closing (local_midnight p n) = Some ts \<and>
           map (date_at p) ts = map (\<lambda>k. n + int k) [0..<length ts] \<and>
           (\<forall>k. int k < int (length ts) \<longleftrightarrow> local_midnight p (n + int k) < closing)"
  using assms
proof (induction "nat (closing - local_midnight p n)" arbitrary: n rule: less_induct)
  case less
  have date: "date_at p (local_midnight p n) = n" and later: "local_midnight p n < local_midnight p (n + 1)"
    using less.prems by (simp_all add: has_midnights_def)
  then have succ: "next_midnight p (local_midnight p n) = local_midnight p (n + 1)" by (simp add: next_midnight_def)
  show ?case
  proof (cases "local_midnight p n < closing")
    case False
    have "closing \<le> local_midnight p (n + int k)" for k
      using midnights_grow [OF less.prems, of "n + int k"] False by linarith
    then show ?thesis using False by (subst days_loop.simps) (force simp: not_less)
  next
    case True
    have "has_midnights p (n + 1)" using less.prems by (simp add: has_midnights_def)
    moreover have "nat (closing - local_midnight p (n + 1)) < nat (closing - local_midnight p n)"
      using True later by linarith
    ultimately obtain ts where ts: "days_loop p closing (local_midnight p (n + 1)) = Some ts"
      "map (date_at p) ts = map (\<lambda>k. n + 1 + int k) [0..<length ts]"
      "\<And>k. int k < int (length ts) \<longleftrightarrow> local_midnight p (n + 1 + int k) < closing"
      using less.hyps [of "n + 1"] by metis
    have run: "days_loop p closing (local_midnight p n) = Some (local_midnight p n # ts)"
      using True later ts(1) by (subst days_loop.simps) (simp add: succ)
    have "map (date_at p) (local_midnight p n # ts) = map (\<lambda>k. n + int k) [0..<length (local_midnight p n # ts)]"
      using date ts(2) by (simp add: upt_rec [of 0] map_Suc_upt [symmetric] comp_def add_ac del: upt_Suc)
    moreover have "int k < int (length (local_midnight p n # ts)) \<longleftrightarrow> local_midnight p (n + int k) < closing" for k
    proof (cases k)
      case 0
      then show ?thesis using True by simp
    next
      case (Suc k')
      then show ?thesis using ts(3) [of k'] by (simp add: add_ac)
    qed
    ultimately show ?thesis using run by blast
  qed
qed

lemma days_run_dates:
  assumes "has_midnights p (date_at p (opening_of p w))"
  shows "days_run p w \<noteq> None \<and>
         (n \<in> set (days p w) \<longleftrightarrow> date_at p (opening_of p w) \<le> n \<and> local_midnight p n < closing_of p w) \<and>
         sorted (days p w) \<and> distinct (days p w)"
proof -
  let ?d = "date_at p (opening_of p w)"
  obtain ts where ts: "days_run p w = Some ts" "map (date_at p) ts = map (\<lambda>k. ?d + int k) [0..<length ts]"
    "\<And>k. int k < int (length ts) \<longleftrightarrow> local_midnight p (?d + int k) < closing_of p w"
    using days_loop_ends [OF assms, of "closing_of p w"] by (auto simp: days_run_def)
  then have days: "days p w = map (\<lambda>k. ?d + int k) [0..<length ts]" by (simp add: days_def)
  have "n \<in> set (days p w) \<longleftrightarrow> ?d \<le> n \<and> local_midnight p n < closing_of p w"
  proof
    assume "n \<in> set (days p w)"
    then obtain k where "n = ?d + int k" "k < length ts" by (auto simp: days)
    then show "?d \<le> n \<and> local_midnight p n < closing_of p w" using ts(3) [of k] by simp
  next
    assume n: "?d \<le> n \<and> local_midnight p n < closing_of p w"
    then have "n = ?d + int (nat (n - ?d))" by simp
    moreover have "nat (n - ?d) < length ts"
      using n ts(3) [of "nat (n - ?d)"] by (metis calculation of_nat_less_iff)
    ultimately show "n \<in> set (days p w)" unfolding days by (metis (no_types, lifting) atLeastLessThan_iff image_eqI list.set_map set_upt zero_le)
  qed
  moreover have "sorted (days p w)" by (simp add: days sorted_map sorted_wrt_iff_nth_less)
  moreover have "distinct (days p w)" by (simp add: days distinct_map inj_on_def)
  ultimately show ?thesis using ts(1) by simp
qed

text \<open>
  Where the zone has every midnight from the date a window opens on, the loop over its dates ends,
  and the window's dates are that date and the ones after it whose midnights come before it closes.
\<close>

theorem days_run_ends:
  assumes "has_midnights p (date_at p (opening_of p w))"
  shows "days_run p w \<noteq> None \<and>
         (n \<in> set (days p w) \<longleftrightarrow> date_at p (opening_of p w) \<le> n \<and> local_midnight p n < closing_of p w) \<and>
         sorted (days p w) \<and> distinct (days p w)"
  using assms by (rule days_run_dates)

lemma utc_midnights: "hp_loc p = None \<Longrightarrow> has_midnights p n"
  by (simp add: has_midnights_def local_midnight_def date_at_def zone_instant_def wall_time_def)

lemma days_run_ends_witness:
  "days_run sample_planner 20756 \<noteq> None \<and> 739917 \<notin> set (days sample_planner 20756)"
proof -
  have utc: "hp_loc sample_planner = None" by (simp add: sample_planner_def newHolidayPlanner_def Let_def)
  have window: "hp_window sample_planner = day_ns" by (simp add: sample_planner_def newHolidayPlanner_def Let_def)
  have "date_at sample_planner (opening_of sample_planner 20756) = 739918"
    by (simp add: date_at_def opening_of_def windowOpening_def utc window wall_time_def day_index_def)
  then show ?thesis
    using days_run_ends [OF utc_midnights [OF utc], of 20756 739917] by simp
qed

text \<open>
  A zone west of Greenwich that puts its clocks forward at midnight has no midnight on that date:
  \<^verbatim>\<open>time.Date\<close> gives eleven at night of the date before, whose next midnight is again itself.
  Chile in September 2026: four hours behind, three from 04:00 UTC of 6 September (day 739864).
\<close>

definition santiago :: zone where
  "santiago t = (if t < midnight 739864 + 4 * hour then -14400 else -10800)"

lemma santiago_midnights:
  assumes "hp_loc p = Some santiago"
  shows "local_midnight p 739863 = midnight 739863 + 4 * hour"
    "next_midnight p (midnight 739863 + 4 * hour) = midnight 739864 + 3 * hour"
    "next_midnight p (midnight 739864 + 3 * hour) = midnight 739864 + 3 * hour"
  by (simp_all add: assms local_midnight_def next_midnight_def date_at_def zone_instant_def santiago_def
      wall_time_def midnight_def day_index_def)

text \<open>
  On such a zone the loop over the dates of a window never ends once it meets the missing midnight:
  a channel in Chile whose window touches 5 September 2026 and is open an hour before the clocks change
  gets no dates, and so no features and no tile.
\<close>

theorem days_run_stuck:
  assumes "hp_loc p = Some santiago" and "date_at p (opening_of p w) = 739863"
    and "midnight 739864 + 3 * hour < closing_of p w"
  shows "days_run p w = None"
proof -
  note m = santiago_midnights [OF assms(1)]
  have stuck: "next_midnight p t \<le> t \<or> days_loop p b (next_midnight p t) = None \<Longrightarrow> t < b \<Longrightarrow>
      days_loop p b t = None" for t b
    by (subst days_loop.simps) auto
  have "days_loop p (closing_of p w) (midnight 739864 + 3 * hour) = None"
    by (rule stuck [OF _ assms(3)]) (simp only: m order.refl simp_thms)
  moreover have "midnight 739863 + 4 * hour < closing_of p w" using assms(3) by (simp add: midnight_def)
  ultimately have "days_loop p (closing_of p w) (midnight 739863 + 4 * hour) = None"
    by (intro stuck) (simp_all only: m simp_thms)
  then show ?thesis by (simp only: days_run_def assms(2) m(1))
qed

lemma days_run_stuck_witness: "days_run (sample_planner\<lparr>hp_loc := Some santiago\<rparr>) 20701 = None"
proof -
  let ?p = "sample_planner\<lparr>hp_loc := Some santiago\<rparr>"
  have window: "hp_window sample_planner = day_ns" by (simp add: sample_planner_def newHolidayPlanner_def Let_def)
  have opened: "opening_of ?p 20701 = midnight 739863 + 4 * hour"
    by (simp add: opening_of_def windowOpening_def window zone_instant_def santiago_def midnight_def)
  have "date_at ?p (opening_of ?p 20701) = 739863"
    unfolding opened by (simp add: date_at_def wall_time_def santiago_def midnight_def day_index_def)
  moreover have "midnight 739864 + 3 * hour < closing_of ?p 20701"
    unfolding closing_of_def opened by (simp add: window midnight_def)
  ultimately show ?thesis by (intro days_run_stuck) simp_all
qed

end
