(* ===== verification/Season_Swaps.thy ===== *)
theory Season_Swaps
  imports Season_Windows
begin

text \<open>
  How an off-season holiday episode leaves the evening, \<^verbatim>\<open>arrange\<close>, \<^verbatim>\<open>swapOut\<close> and \<^verbatim>\<open>costsSpacing\<close> of
  \<^verbatim>\<open>internal/schedule/seasonal_boost.go\<close>: swapped with an ordinary unit after or before the band where
  that keeps the repeat spacing, deferred past the band where that does, else left in place.

  \<open>None\<close> is a call that does not return: \<open>swapOut\<close> reads the first or last airing of a unit that
  airs nowhere, and indexes an empty slice; \<open>arrange_loop\<close> keeps in place an episode it kept in place
  already, and goes round for ever. \<^verbatim>\<open>beforeBandSwaps\<close>, which production never clears, is taken as set.

  The lemmas show that a swap moves units and loses none, and that timing a tile around a window's
  features returns for every window near a season, airing the features and the tile less the pool.
\<close>

section \<open>Gaps to the airings around\<close>

text \<open>The windows before \<open>w\<close> the spacing reaches, nearest first, and those after it.\<close>

definition windows_before :: "holidayPlanner \<Rightarrow> int \<Rightarrow> int list" where
  "windows_before p w = rev [w - spacingWindows p..w - 1]"

definition windows_after :: "holidayPlanner \<Rightarrow> int \<Rightarrow> int list" where
  "windows_after p w = [w + 1..w + spacingWindows p]"

fun last_gap_in :: "random_draw \<Rightarrow> holidayPlanner \<Rightarrow> string \<Rightarrow> int \<Rightarrow> int list \<Rightarrow> int option" where
  "last_gap_in draw p key gap [] = None"
| "last_gap_in draw p key gap (v # vs) =
     (let d = dealtIn draw p v
      in if airs d key then Some (gap + wa_n d - last_airing d key)
         else last_gap_in draw p key (gap + wa_n d) vs)"

definition lastGap :: "random_draw \<Rightarrow> holidayPlanner \<Rightarrow> string \<Rightarrow> int \<Rightarrow> windowAirings \<Rightarrow> int option" where
  "lastGap draw p key w a = last_gap_in draw p key (first_airing a key) (windows_before p w)"

text \<open>The gap, the window and the programme index of the next airing.\<close>

fun next_gap_in :: "random_draw \<Rightarrow> holidayPlanner \<Rightarrow> string \<Rightarrow> int \<Rightarrow> int list \<Rightarrow> (int \<times> int \<times> int) option" where
  "next_gap_in draw p key gap [] = None"
| "next_gap_in draw p key gap (v # vs) =
     (let d = dealtIn draw p v
      in if airs d key then Some (gap + first_airing d key, v, first_airing d key)
         else next_gap_in draw p key (gap + wa_n d) vs)"

definition nextGapFrom :: "random_draw \<Rightarrow> holidayPlanner \<Rightarrow> string \<Rightarrow> int \<Rightarrow> int \<Rightarrow> (int \<times> int \<times> int) option" where
  "nextGapFrom draw p key w rest = next_gap_in draw p key rest (windows_after p w)"

definition nextGap :: "random_draw \<Rightarrow> holidayPlanner \<Rightarrow> string \<Rightarrow> int \<Rightarrow> windowAirings \<Rightarrow> (int \<times> int \<times> int) option" where
  "nextGap draw p key w a = nextGapFrom draw p key w (wa_n a - last_airing a key)"

text \<open>Where Go drops the second result, a gap that is not there reads as nought.\<close>

definition gap_or_zero :: "int option \<Rightarrow> int" where
  "gap_or_zero g = (case g of None \<Rightarrow> 0 | Some n \<Rightarrow> n)"

text \<open>The first off-season episode of some programmes that starts at or after the band: its index.\<close>

fun band_ahead :: "holidayPlanner \<Rightarrow> (Slot \<Rightarrow> bool) \<Rightarrow> gotime \<Rightarrow> int \<Rightarrow> Slot list \<Rightarrow> int option" where
  "band_ahead p offSeason t i [] = None"
| "band_ahead p offSeason t i (s # ss) =
     (if offSeason s \<and> \<not> beforeTheBand p t then Some i
      else band_ahead p offSeason (t + planner_runtime p s) (i + 1) ss)"

text \<open>The programmes window \<open>v\<close> deals ahead of its programme \<open>next\<close>.\<close>

definition dealt_ahead :: "random_draw \<Rightarrow> holidayPlanner \<Rightarrow> int \<Rightarrow> int \<Rightarrow> Slot list" where
  "dealt_ahead draw p v nxt = take (nat nxt) (filter IsProgram (dealtTile draw p v))"

definition nextGapLo :: "random_draw \<Rightarrow> holidayPlanner \<Rightarrow> string \<Rightarrow> int \<Rightarrow> int \<Rightarrow> (Slot \<Rightarrow> bool) \<Rightarrow> int option" where
  "nextGapLo draw p key w rest offSeason =
     (case nextGapFrom draw p key w rest of
        None \<Rightarrow> None
      | Some (gap, v, nxt) \<Rightarrow>
          (case band_ahead p offSeason (opening_of p v) 0 (dealt_ahead draw p v nxt) of
             Some i \<Rightarrow> Some (gap - (nxt - i))
           | None \<Rightarrow> Some gap))"

definition deferrableAhead :: "random_draw \<Rightarrow> holidayPlanner \<Rightarrow> int \<Rightarrow> int \<Rightarrow> (Slot \<Rightarrow> bool) \<Rightarrow> int" where
  "deferrableAhead draw p v nxt offSeason = int (length (filter offSeason (dealt_ahead draw p v nxt)))"

text \<open>When a looped tile starts its programme \<open>i\<close>.\<close>

function tile_start :: "holidayPlanner \<Rightarrow> Slot list \<Rightarrow> gotime \<Rightarrow> nat \<Rightarrow> gotime" where
  "tile_start p programmes t i =
     (if i < length programmes then t + sum_list (map (planner_runtime p) (take i programmes))
      else if programmes = [] then t
      else tile_start p programmes (t + sum_list (map (planner_runtime p) programmes)) (i - length programmes))"
  by pat_completeness auto

termination tile_start
  by (relation "measure (\<lambda>(p, programmes, t, i). i)") (auto simp: not_less intro!: diff_less elim: order.strict_trans2 [rotated])

declare tile_start.simps [simp del]

definition dealtStart :: "random_draw \<Rightarrow> holidayPlanner \<Rightarrow> int \<Rightarrow> int \<Rightarrow> gotime" where
  "dealtStart draw p v i = tile_start p (filter IsProgram (dealtTile draw p v)) (opening_of p v) (nat i)"

fun last_gap_hi_in :: "random_draw \<Rightarrow> holidayPlanner \<Rightarrow> string \<Rightarrow> int \<Rightarrow> int list \<Rightarrow> int" where
  "last_gap_hi_in draw p key gap [] = max_int64"
| "last_gap_hi_in draw p key gap (v # vs) =
     (let d = dealtIn draw p v
      in if airs d key
         then (let lst = last_airing d key;
                   lst = (if \<not> beforeTheBand p (dealtStart draw p v lst) then wa_n d - 1 else lst)
               in gap + wa_n d - lst)
         else last_gap_hi_in draw p key (gap + wa_n d) vs)"

definition lastGapHi :: "random_draw \<Rightarrow> holidayPlanner \<Rightarrow> string \<Rightarrow> int \<Rightarrow> int \<Rightarrow> int" where
  "lastGapHi draw p key w fst_at = last_gap_hi_in draw p key fst_at (windows_before p w)"

definition unitTooLate ::
  "random_draw \<Rightarrow> holidayPlanner \<Rightarrow> string \<Rightarrow> int \<Rightarrow> int \<Rightarrow> int \<Rightarrow> windowAirings \<Rightarrow> (Slot \<Rightarrow> bool) \<Rightarrow> bool" where
  "unitTooLate draw p key w fst_at rest dealt offSeason =
     (if fst_at \<le> first_airing dealt key then False
      else case nextGap draw p key w dealt of
             None \<Rightarrow> False
           | Some (was, _, _) \<Rightarrow>
               gap_or_zero (nextGapLo draw p key w rest offSeason) < min (spacingProgrammes draw p) was)"

definition episodeTooEarly ::
  "random_draw \<Rightarrow> holidayPlanner \<Rightarrow> string \<Rightarrow> int \<Rightarrow> int \<Rightarrow> windowAirings \<Rightarrow> (Slot \<Rightarrow> bool) \<Rightarrow> bool" where
  "episodeTooEarly draw p key w fst_at dealt offSeason =
     (if fst_at \<ge> first_airing dealt key - deferrableAhead draw p w (first_airing dealt key) offSeason then False
      else case lastGap draw p key w dealt of
             None \<Rightarrow> False
           | Some was \<Rightarrow> lastGapHi draw p key w fst_at < min (spacingProgrammes draw p) was)"

section \<open>What a move costs\<close>

definition unitAt :: "Slot list \<Rightarrow> int \<Rightarrow> Slot" where
  "unitAt out i =
     (let programmes = filter IsProgram out
      in if 0 \<le> i \<and> nat i < length programmes then programmes ! nat i else empty_slot)"

definition laterThanDealt :: "Slot list \<Rightarrow> windowAirings \<Rightarrow> windowAirings \<Rightarrow> (Slot \<Rightarrow> bool) \<Rightarrow> string \<Rightarrow> bool" where
  "laterThanDealt placed dealt a offSeason except =
     list_ex (\<lambda>s. unitKey s \<noteq> except \<and> IsProgram s \<and> \<not> offSeason s \<and> airs dealt (unitKey s) \<and> airs a (unitKey s) \<and>
                  first_airing a (unitKey s) > first_airing dealt (unitKey s)) placed"

definition backInEvening :: "holidayPlanner \<Rightarrow> (string \<rightharpoonup> gotime) \<Rightarrow> string \<Rightarrow> string list \<Rightarrow> bool" where
  "backInEvening p starts episode moved \<longleftrightarrow>
     inEvening p (start_of starts episode) \<or> list_ex (\<lambda>key. inEvening p (start_of starts key)) moved"

definition bandChanged ::
  "holidayPlanner \<Rightarrow> Slot list \<Rightarrow> (string \<rightharpoonup> gotime) \<Rightarrow> (string \<rightharpoonup> gotime) \<Rightarrow> string \<Rightarrow> string \<Rightarrow> bool" where
  "bandChanged p placed starts dealtStarts a b =
     list_ex (\<lambda>s. IsProgram s \<and> unitKey s \<noteq> a \<and> unitKey s \<noteq> b \<and>
                  (case dealtStarts (unitKey s) of
                     None \<Rightarrow> False
                   | Some d \<Rightarrow> inEvening p d \<noteq> inEvening p (start_of starts (unitKey s)) \<or>
                               beforeTheBand p d \<noteq> beforeTheBand p (start_of starts (unitKey s)))) placed"

text \<open>An off-season holiday episode of a window whose pool is \<open>pool\<close>.\<close>

definition off_season :: "holidayPlanner \<Rightarrow> string list \<Rightarrow> Slot \<Rightarrow> bool" where
  "off_season p pool s \<longleftrightarrow>
     rse_Evenings (hf_seasonal (hp_f p)) \<and> unitKey s \<notin> set pool \<and> holiday_unit p s"

text \<open>What the checks of a window read: its number, its pool, the tile placed unmoved and where that airs.\<close>

record swapFrame =
  sw_w :: int
  sw_pool :: "string list"
  sw_before :: "Slot list"
  sw_dealt :: windowAirings

definition frame_off :: "holidayPlanner \<Rightarrow> swapFrame \<Rightarrow> Slot \<Rightarrow> bool" where
  "frame_off p fr = off_season p (sw_pool fr)"

definition frame_place :: "holidayPlanner \<Rightarrow> swapFrame \<Rightarrow> Slot list \<Rightarrow> Slot list" where
  "frame_place p fr tile = fst (place p tile (sw_w fr) (sw_pool fr) never)"

text \<open>A unit that airs in both, so both say where.\<close>

definition airs_both :: "swapFrame \<Rightarrow> windowAirings \<Rightarrow> Slot \<Rightarrow> bool" where
  "airs_both fr a s \<longleftrightarrow> IsProgram s \<and> airs (sw_dealt fr) (unitKey s) \<and> airs a (unitKey s)"

text \<open>
  The first loop of \<^verbatim>\<open>costsSpacing\<close>: the deferred episode whose own next airing comes too close, or all the
  deferred ones in deal order.
\<close>

fun deferral_costs ::
  "random_draw \<Rightarrow> holidayPlanner \<Rightarrow> swapFrame \<Rightarrow> windowAirings \<Rightarrow> string list \<Rightarrow> string list \<Rightarrow> Slot list \<Rightarrow> string + string list" where
  "deferral_costs draw p fr a inPlace deferred [] = Inr deferred"
| "deferral_costs draw p fr a inPlace deferred (s # ss) =
     (let key = unitKey s
      in if \<not> airs_both fr a s \<or> \<not> frame_off p fr s \<or> key \<in> set inPlace \<or>
            first_airing a key \<le> first_airing (sw_dealt fr) key
         then deferral_costs draw p fr a inPlace deferred ss
         else case nextGap draw p key (sw_w fr) (sw_dealt fr) of
                None \<Rightarrow> deferral_costs draw p fr a inPlace (deferred @ [key]) ss
              | Some (was, v, nxt) \<Rightarrow>
                  (let now = gap_or_zero (map_option fst (nextGap draw p key (sw_w fr) a))
                   in if now - deferrableAhead draw p v nxt (frame_off p fr) < min (spacingProgrammes draw p) was
                      then Inl key
                      else deferral_costs draw p fr a inPlace (deferred @ [key]) ss))"

text \<open>The episode blamed for a unit brought forward: the last one deferred from ahead of it.\<close>

definition blamed :: "swapFrame \<Rightarrow> string list \<Rightarrow> string \<Rightarrow> string" where
  "blamed fr deferred key =
     foldl (\<lambda>blame d. if first_airing (sw_dealt fr) d < first_airing (sw_dealt fr) key then d else blame) '''' deferred"

text \<open>The body of its second loop: the key it returns for a unit, if it returns.\<close>

definition unit_costs ::
  "random_draw \<Rightarrow> holidayPlanner \<Rightarrow> swapFrame \<Rightarrow> windowAirings \<Rightarrow> Slot list \<Rightarrow> string list \<Rightarrow> string list \<Rightarrow> Slot \<Rightarrow> string option" where
  "unit_costs draw p fr a out inPlace deferred s =
     (let key = unitKey s; w = sw_w fr; dealt = sw_dealt fr; off = frame_off p fr;
          far = farFromSeason draw p w; e = unitAt out (first_airing dealt key)
      in if \<not> airs_both fr a s then None
         else if far \<and> off s \<and> episodeTooEarly draw p key w (first_airing a key) dealt off then Some key
         else if far \<and> \<not> off s \<and> unitTooLate draw p key w (first_airing a key) (wa_n a - last_airing a key) dealt off \<and>
                 off e \<and> unitKey e \<notin> set inPlace
         then Some (unitKey e)
         else if first_airing a key \<ge> first_airing dealt key then None
         else case lastGap draw p key w dealt of
                None \<Rightarrow> None
              | Some was \<Rightarrow>
                  if gap_or_zero (lastGap draw p key w a) \<ge> min (spacingProgrammes draw p) was then None
                  else if blamed fr deferred key \<noteq> '''' then Some (blamed fr deferred key)
                  else if off s \<and> key \<notin> set inPlace \<and> far then Some key
                  else None)"

fun first_some :: "('a \<Rightarrow> 'b option) \<Rightarrow> 'a list \<Rightarrow> 'b option" where
  "first_some f [] = None"
| "first_some f (x # xs) = (case f x of None \<Rightarrow> first_some f xs | Some y \<Rightarrow> Some y)"

definition costsSpacing :: "random_draw \<Rightarrow> holidayPlanner \<Rightarrow> swapFrame \<Rightarrow> Slot list \<Rightarrow> string list \<Rightarrow> string" where
  "costsSpacing draw p fr out inPlace =
     (let a = airedIn p out (sw_w fr)
      in case deferral_costs draw p fr a inPlace [] (sw_before fr) of
           Inl key \<Rightarrow> key
         | Inr deferred \<Rightarrow>
             (case first_some (unit_costs draw p fr a out inPlace deferred) (sw_before fr) of
                Some key \<Rightarrow> key
              | None \<Rightarrow> ''''))"

section \<open>Swapping an episode out of the evening\<close>

definition swap_units :: "nat \<Rightarrow> nat \<Rightarrow> 'a list \<Rightarrow> 'a list" where
  "swap_units i j xs = xs[i := xs ! j, j := xs ! i]"

definition once_in :: "Slot list \<Rightarrow> string \<Rightarrow> bool" where
  "once_in tile key \<longleftrightarrow> length (filter (\<lambda>s. unitKey s = key) tile) = 1"

definition ordinary_unit :: "holidayPlanner \<Rightarrow> swapFrame \<Rightarrow> Slot list \<Rightarrow> Slot \<Rightarrow> bool" where
  "ordinary_unit p fr tile s \<longleftrightarrow>
     IsProgram s \<and> once_in tile (unitKey s) \<and> unitKey s \<notin> set (sw_pool fr) \<and> \<not> holiday_unit p s"

text \<open>The slack of an after-band swap of the episode at \<open>e\<close> with the unit at \<open>u\<close>, if it qualifies.\<close>

definition swap_after ::
  "random_draw \<Rightarrow> holidayPlanner \<Rightarrow> swapFrame \<Rightarrow> Slot list \<Rightarrow> string list \<Rightarrow> Slot list \<Rightarrow> string list \<Rightarrow> nat \<Rightarrow> nat \<Rightarrow> int option" where
  "swap_after draw p fr tile inPlace out moved e u =
     (let w = sw_w fr; dealt = sw_dealt fr; key = unitKey (out ! u); episode = unitKey (out ! e);
          starts = startsIn p (frame_place p fr out) w;
          placed = frame_place p fr (swap_units e u out); a = airedIn p placed w
      in if \<not> ordinary_unit p fr tile (out ! u) \<or> inEvening p (start_of starts key) \<or> \<not> airs dealt key then None
         else if \<not> airs a episode \<or> backInEvening p (startsIn p placed w) episode moved \<or>
                 laterThanDealt placed dealt a (frame_off p fr) '''' \<or> costsSpacing draw p fr placed inPlace \<noteq> '''' then None
         else case lastGap draw p key w dealt of
                None \<Rightarrow> Some max_int64
              | Some was \<Rightarrow> Some (gap_or_zero (lastGap draw p key w a) - min (spacingProgrammes draw p) was))"

text \<open>
  The same for a swap with a unit before the band. The outer \<open>None\<close> is the panic: the episode or the
  unit has no airing to read.
\<close>

definition swap_before ::
  "random_draw \<Rightarrow> holidayPlanner \<Rightarrow> swapFrame \<Rightarrow> Slot list \<Rightarrow> string list \<Rightarrow> Slot list \<Rightarrow> string list \<Rightarrow> nat \<Rightarrow> nat \<Rightarrow> int option option" where
  "swap_before draw p fr tile inPlace out moved e u =
     (let w = sw_w fr; dealt = sw_dealt fr; off = frame_off p fr; key = unitKey (out ! u); episode = unitKey (out ! e);
          now_placed = frame_place p fr out; starts = startsIn p now_placed w; now_airs = airedIn p now_placed w;
          placed = frame_place p fr (swap_units e u out); a = airedIn p placed w; newStarts = startsIn p placed w
      in if \<not> ordinary_unit p fr tile (out ! u) \<or> \<not> beforeTheBand p (start_of starts key) \<or> \<not> airs dealt key then Some None
         else if \<not> airs now_airs key \<or> \<not> airs dealt episode then None
         else if episodeTooEarly draw p episode w (first_airing now_airs key) dealt off then Some None
         else if \<not> airs now_airs episode then None
         else if unitTooLate draw p key w (first_airing now_airs episode) (wa_n now_airs - last_airing now_airs episode) dealt off
         then Some None
         else if \<not> airs a episode \<or> \<not> airs a key \<or> wa_n a \<noteq> wa_n dealt \<or> \<not> beforeTheBand p (start_of newStarts episode) \<or>
                 backInEvening p newStarts episode moved \<or> laterThanDealt placed dealt a off key \<or>
                 bandChanged p placed newStarts (startsIn p (sw_before fr) w) episode key \<or>
                 costsSpacing draw p fr placed inPlace \<noteq> ''''
         then Some None
         else case nextGap draw p key w dealt of
                None \<Rightarrow> Some (Some max_int64)
              | Some (was, _, _) \<Rightarrow>
                  Some (Some (gap_or_zero (nextGapLo draw p key w (wa_n a - last_airing a key) off) -
                              min (spacingProgrammes draw p) was)))"

text \<open>The unit with the most slack, the first of equals.\<close>

fun better_swap :: "nat \<Rightarrow> int option \<Rightarrow> (nat \<times> int) option \<Rightarrow> (nat \<times> int) option" where
  "better_swap u None best = best"
| "better_swap u (Some slack) None = Some (u, slack)"
| "better_swap u (Some slack) (Some (b, most)) = (if slack > most then Some (u, slack) else Some (b, most))"

fun best_swap :: "(nat \<Rightarrow> int option option) \<Rightarrow> (nat \<times> int) option \<Rightarrow> nat list \<Rightarrow> (nat \<times> int) option option" where
  "best_swap f best [] = Some best"
| "best_swap f best (u # us) = (case f u of None \<Rightarrow> None | Some slack \<Rightarrow> best_swap f (better_swap u slack best) us)"

text \<open>The unit to swap the episode at \<open>e\<close> with, and whether it airs before the band.\<close>

definition swap_for ::
  "random_draw \<Rightarrow> holidayPlanner \<Rightarrow> swapFrame \<Rightarrow> Slot list \<Rightarrow> string list \<Rightarrow> Slot list \<Rightarrow> string list \<Rightarrow> nat \<Rightarrow> (nat \<times> bool) option option" where
  "swap_for draw p fr tile inPlace out moved e =
     (case best_swap (\<lambda>u. Some (swap_after draw p fr tile inPlace out moved e u)) None [Suc e..<length out] of
        None \<Rightarrow> None
      | Some (Some (u, _)) \<Rightarrow> Some (Some (u, False))
      | Some None \<Rightarrow>
          if \<not> farFromSeason draw p (sw_w fr) then Some None
          else (case best_swap (swap_before draw p fr tile inPlace out moved e) None [0..<e] of
                  None \<Rightarrow> None
                | Some best \<Rightarrow> Some (map_option (\<lambda>(u, _). (u, True)) best)))"

text \<open>The first off-season episode the clock reaches in the evening and that is still to be tried.\<close>

definition evening_episode ::
  "holidayPlanner \<Rightarrow> swapFrame \<Rightarrow> Slot list \<Rightarrow> string list \<Rightarrow> string list \<Rightarrow> Slot list \<Rightarrow> nat" where
  "evening_episode p fr tile inPlace tried out =
     (let starts = startsIn p (frame_place p fr out) (sw_w fr)
      in length (takeWhile (\<lambda>s. \<not> (IsProgram s \<and> frame_off p fr s \<and> once_in tile (unitKey s) \<and> unitKey s \<notin> set inPlace \<and>
                                    unitKey s \<notin> set tried \<and> inEvening p (start_of starts (unitKey s)))) out))"

lemma mset_swap_units [simp]: "i < length xs \<Longrightarrow> j < length xs \<Longrightarrow> mset (swap_units i j xs) = mset xs"
  by (simp add: swap_units_def mset_swap)

lemma length_swap_units [simp]: "length (swap_units i j xs) = length xs"
  by (simp add: swap_units_def)

lemma best_swap_in:
  "best_swap f best us = Some (Some (u, s)) \<Longrightarrow> (\<exists>s'. best = Some (u, s')) \<or> u \<in> set us"
proof (induction us arbitrary: best)
  case (Cons v us)
  then obtain slack where step: "f v = Some slack" "best_swap f (better_swap v slack best) us = Some (Some (u, s))"
    by (auto split: option.splits)
  show ?case using Cons.IH [OF step(2)]
    by (cases "(v, slack, best)" rule: better_swap.cases) (auto split: if_splits)
qed simp

lemma swap_for_in: "swap_for draw p fr tile inPlace out moved e = Some (Some (u, b)) \<Longrightarrow> e < length out \<Longrightarrow> u < length out"
  by (auto simp: swap_for_def split: option.splits if_splits dest!: best_swap_in)

definition untried :: "string list \<Rightarrow> Slot list \<Rightarrow> nat" where
  "untried tried out = size (filter_mset (\<lambda>s. unitKey s \<notin> set tried) (mset out))"

lemma untried_less:
  assumes "e < length out" and "unitKey (out ! e) \<notin> set tried" and "mset out' = mset out"
  shows "untried (unitKey (out ! e) # tried) out' < untried tried out"
proof -
  have "filter_mset (\<lambda>s. unitKey s \<notin> set (unitKey (out ! e) # tried)) (mset out) \<subset># filter_mset (\<lambda>s. unitKey s \<notin> set tried) (mset out)"
  proof (rule subset_mset.le_neq_trans)
    have "filter_mset (\<lambda>s. unitKey s \<notin> set (unitKey (out ! e) # tried)) (mset out) =
        filter_mset (\<lambda>s. unitKey s \<noteq> unitKey (out ! e)) (filter_mset (\<lambda>s. unitKey s \<notin> set tried) (mset out))"
      by (simp add: filter_filter_mset conj_commute)
    then show "filter_mset (\<lambda>s. unitKey s \<notin> set (unitKey (out ! e) # tried)) (mset out) \<subseteq># filter_mset (\<lambda>s. unitKey s \<notin> set tried) (mset out)"
      by simp
    have "out ! e \<in># filter_mset (\<lambda>s. unitKey s \<notin> set tried) (mset out)" using assms by simp
    moreover have "out ! e \<notin># filter_mset (\<lambda>s. unitKey s \<notin> set (unitKey (out ! e) # tried)) (mset out)" by simp
    ultimately show "filter_mset (\<lambda>s. unitKey s \<notin> set (unitKey (out ! e) # tried)) (mset out) \<noteq> filter_mset (\<lambda>s. unitKey s \<notin> set tried) (mset out)"
      by metis
  qed
  then show ?thesis using assms(3) by (simp add: untried_def mset_subset_size)
qed

lemma evening_episode_found:
  assumes "evening_episode p fr tile inPlace tried out < length out"
  shows "unitKey (out ! evening_episode p fr tile inPlace tried out) \<notin> set tried"
  using assms nth_length_takeWhile unfolding evening_episode_def Let_def by blast

function swap_loop ::
  "random_draw \<Rightarrow> holidayPlanner \<Rightarrow> swapFrame \<Rightarrow> Slot list \<Rightarrow> string list \<Rightarrow> Slot list \<Rightarrow> string list \<Rightarrow> string list \<Rightarrow> string list \<Rightarrow>
   (Slot list \<times> string list) option" where
  "swap_loop draw p fr tile inPlace out early tried moved =
     (let e = evening_episode p fr tile inPlace tried out; episode = unitKey (out ! e)
      in if e \<ge> length out then Some (out, early)
         else case swap_for draw p fr tile inPlace out moved e of
                None \<Rightarrow> None
              | Some None \<Rightarrow> swap_loop draw p fr tile inPlace out early (episode # tried) moved
              | Some (Some (u, before)) \<Rightarrow>
                  swap_loop draw p fr tile inPlace (swap_units e u out) (if before then episode # early else early)
                    (episode # tried) (episode # moved))"
  by pat_completeness auto

termination swap_loop
  by (relation "measure (\<lambda>(draw, p, fr, tile, inPlace, out, early, tried, moved). untried tried out)")
    (auto intro!: untried_less evening_episode_found dest: swap_for_in)

declare swap_loop.simps [simp del]

definition swapOut ::
  "random_draw \<Rightarrow> holidayPlanner \<Rightarrow> swapFrame \<Rightarrow> Slot list \<Rightarrow> string list \<Rightarrow> (Slot list \<times> string list) option" where
  "swapOut draw p fr tile inPlace = swap_loop draw p fr tile inPlace tile [] [] []"

section \<open>Timing a tile around its features\<close>

definition arrange_frame :: "holidayPlanner \<Rightarrow> Slot list \<Rightarrow> int \<Rightarrow> swapFrame" where
  "arrange_frame p tile w =
     (let pool = pooled p w; before = fst (place p tile w pool never)
      in \<lparr>sw_w = w, sw_pool = pool, sw_before = before, sw_dealt = airedIn p before w\<rparr>)"

definition leaves_evening :: "holidayPlanner \<Rightarrow> swapFrame \<Rightarrow> string list \<Rightarrow> string list \<Rightarrow> Slot \<Rightarrow> bool" where
  "leaves_evening p fr inPlace early s \<longleftrightarrow> frame_off p fr s \<and> unitKey s \<notin> set inPlace \<and> unitKey s \<notin> set early"

text \<open>The loop over the episodes kept in place.\<close>

partial_function (option) arrange_loop ::
  "random_draw \<Rightarrow> holidayPlanner \<Rightarrow> swapFrame \<Rightarrow> Slot list \<Rightarrow> string list \<Rightarrow> Slot list option" where
  "arrange_loop draw p fr tile inPlace =
     (case swapOut draw p fr tile inPlace of
        None \<Rightarrow> None
      | Some (swapped, early) \<Rightarrow>
          let out = fst (place p swapped (sw_w fr) (sw_pool fr) (leaves_evening p fr inPlace early));
              deferred = snd (place p swapped (sw_w fr) (sw_pool fr) (leaves_evening p fr inPlace early));
              key = costsSpacing draw p fr out inPlace
          in if deferred \<noteq> [] then arrange_loop draw p fr tile (map unitKey deferred @ inPlace)
             else if key = '''' then Some out
             else arrange_loop draw p fr tile (key # inPlace))"

definition arrangeTile :: "random_draw \<Rightarrow> holidayPlanner \<Rightarrow> Slot list \<Rightarrow> int \<Rightarrow> Slot list option" where
  "arrangeTile draw p tile w =
     (let pool = pooled p w; off = off_season p pool
      in if \<not> planner_on p then Some tile
         else if tile = [] \<and> features p w = [] then Some tile
         else if pool = [] \<and> \<not> list_ex off tile then Some tile
         else if dd_spacing (dealer_of p) \<le> 0
         then Some (beforeBand p (fst (place p tile w pool off)) (snd (place p tile w pool off)) (opening_of p w) off)
         else arrange_loop draw p (arrange_frame p tile w) tile [])"

definition arrange :: "random_draw \<Rightarrow> holidayPlanner \<Rightarrow> Slot list \<Rightarrow> int \<Rightarrow> Slot list option" where
  "arrange draw p tile w = (if handingOff draw p w then Some tile else arrangeTile draw p tile w)"

section \<open>Timing a tile loses no unit\<close>

text \<open>The turns of the loop over the episodes, and induction over them.\<close>

lemma swap_loop_turn:
  assumes "e = evening_episode p fr tile inPlace tried out"
  shows "e \<ge> length out \<Longrightarrow> swap_loop draw p fr tile inPlace out early tried moved = Some (out, early)"
    and "e < length out \<Longrightarrow> swap_for draw p fr tile inPlace out moved e = None \<Longrightarrow>
      swap_loop draw p fr tile inPlace out early tried moved = None"
    and "e < length out \<Longrightarrow> swap_for draw p fr tile inPlace out moved e = Some None \<Longrightarrow>
      swap_loop draw p fr tile inPlace out early tried moved =
      swap_loop draw p fr tile inPlace out early (unitKey (out ! e) # tried) moved"
    and "e < length out \<Longrightarrow> swap_for draw p fr tile inPlace out moved e = Some (Some (u, b)) \<Longrightarrow>
      swap_loop draw p fr tile inPlace out early tried moved =
      swap_loop draw p fr tile inPlace (swap_units e u out) (if b then unitKey (out ! e) # early else early)
        (unitKey (out ! e) # tried) (unitKey (out ! e) # moved)"
  using assms by (subst swap_loop.simps, simp add: Let_def)+

lemma swap_induct [case_names finished stuck unswapped swapped]:
  assumes "\<And>out early tried moved. evening_episode p fr tile inPlace tried out \<ge> length out \<Longrightarrow> P out early tried moved"
    and "\<And>out early tried moved e. e < length out \<Longrightarrow> e = evening_episode p fr tile inPlace tried out \<Longrightarrow>
        swap_for draw p fr tile inPlace out moved e = None \<Longrightarrow> P out early tried moved"
    and "\<And>out early tried moved e. e < length out \<Longrightarrow> e = evening_episode p fr tile inPlace tried out \<Longrightarrow>
        swap_for draw p fr tile inPlace out moved e = Some None \<Longrightarrow> P out early (unitKey (out ! e) # tried) moved \<Longrightarrow>
        P out early tried moved"
    and "\<And>out early tried moved e u b. e < length out \<Longrightarrow> e = evening_episode p fr tile inPlace tried out \<Longrightarrow>
        swap_for draw p fr tile inPlace out moved e = Some (Some (u, b)) \<Longrightarrow> u < length out \<Longrightarrow>
        P (swap_units e u out) (if b then unitKey (out ! e) # early else early) (unitKey (out ! e) # tried) (unitKey (out ! e) # moved) \<Longrightarrow>
        P out early tried moved"
  shows "P out early tried moved"
proof (induction "untried tried out" arbitrary: out early tried moved rule: less_induct)
  case (less out tried early moved)
  let ?e = "evening_episode p fr tile inPlace tried out"
  show ?case
  proof (cases "?e \<ge> length out")
    case True
    then show ?thesis by (rule assms(1))
  next
    case False
    then have e: "?e < length out" by simp
    note smaller = less [OF untried_less [OF e evening_episode_found [OF e]]]
    show ?thesis
    proof (cases "swap_for draw p fr tile inPlace out moved ?e")
      case None
      then show ?thesis by (rule assms(2) [OF e refl])
    next
      case (Some r)
      show ?thesis
      proof (cases r)
        case None
        then show ?thesis using assms(3) [OF e refl] Some smaller [OF refl] by simp
      next
        case r: (Some ub)
        obtain u b where ub: "ub = (u, b)" by (cases ub)
        then have u: "u < length out" using swap_for_in [OF _ e] Some r by simp
        show ?thesis
          by (rule assms(4) [OF e refl _ u]) (use Some r ub smaller mset_swap_units [OF e u] in simp_all)
      qed
    qed
  qed
qed

lemma swap_loop_units:
  "swap_loop draw p fr tile inPlace out early tried moved = Some (out', early') \<Longrightarrow> mset out' = mset out"
proof (induction out early tried moved rule: swap_induct [where draw = draw and p = p and fr = fr and tile = tile and inPlace = inPlace])
  case (finished out early tried moved)
  then show ?case by (simp add: swap_loop_turn(1) [OF refl])
next
  case (stuck out early tried moved e)
  then show ?case by (simp add: swap_loop_turn(2) [OF stuck(2,1)])
next
  case (unswapped out early tried moved e)
  then show ?case by (simp only: swap_loop_turn(3) [OF unswapped(2,1)])
next
  case (swapped out early tried moved e u b)
  then show ?case by (simp only: swap_loop_turn(4) [OF swapped(2,1)] mset_swap_units)
qed

lemma swapOut_units: "swapOut draw p fr tile inPlace = Some (out, early) \<Longrightarrow> mset out = mset tile"
  unfolding swapOut_def by (rule swap_loop_units)

lemma best_swap_total: "(\<And>u. f u \<noteq> None) \<Longrightarrow> best_swap f best us \<noteq> None"
  by (induction us arbitrary: best) (auto split: option.split)

text \<open>Near a season only the swaps after the band are tried, and those never panic.\<close>

lemma swap_for_near: "\<not> farFromSeason draw p (sw_w fr) \<Longrightarrow> swap_for draw p fr tile inPlace out moved e \<noteq> None"
  using best_swap_total [of "\<lambda>u. Some (swap_after draw p fr tile inPlace out moved e u)" None "[Suc e..<length out]"]
  by (auto simp: swap_for_def split: option.splits)

lemma swap_loop_near:
  assumes "\<not> farFromSeason draw p (sw_w fr)"
  shows "swap_loop draw p fr tile inPlace out early tried moved \<noteq> None"
proof (induction out early tried moved rule: swap_induct [where draw = draw and p = p and fr = fr and tile = tile and inPlace = inPlace])
  case (finished out early tried moved)
  then show ?case by (simp add: swap_loop_turn(1) [OF refl])
next
  case (stuck out early tried moved e)
  then show ?case using swap_for_near [OF assms] by simp
next
  case (unswapped out early tried moved e)
  then show ?case by (simp only: swap_loop_turn(3) [OF unswapped(2,1)] simp_thms)
next
  case (swapped out early tried moved e u b)
  then show ?case by (simp only: swap_loop_turn(4) [OF swapped(2,1)] simp_thms)
qed

text \<open>
  Near a season the episode a move costs the spacing for is one of the tile's, and is not kept in place
  yet: the loop always has one more to keep.
\<close>

lemma deferral_costs_keys:
  "set deferred \<subseteq> unitKey ` S - set inPlace \<Longrightarrow> set ss \<subseteq> S \<Longrightarrow>
   (case deferral_costs draw p fr a inPlace deferred ss of
      Inl key \<Rightarrow> key \<in> unitKey ` S - set inPlace | Inr ds \<Rightarrow> set ds \<subseteq> unitKey ` S - set inPlace)"
proof (induction ss arbitrary: deferred)
  case (Cons s ss)
  have S: "set ss \<subseteq> S" "unitKey s \<in> unitKey ` S" using Cons.prems(2) by auto
  note on = Cons.IH [OF Cons.prems(1) S(1)]
  show ?case
  proof (cases "unitKey s \<in> set inPlace")
    case False
    then have "set (deferred @ [unitKey s]) \<subseteq> unitKey ` S - set inPlace" using Cons.prems(1) S(2) by simp
    note kept = Cons.IH [OF this S(1)]
    then show ?thesis using on S(2) False by (auto simp: Let_def simp del: Diff_iff image_iff split: option.split)
  qed (use on in simp)
qed simp

lemma blamed_in: "blamed fr deferred key = '''' \<or> blamed fr deferred key \<in> set deferred"
proof -
  have "foldl (\<lambda>blame d. if P d then d else blame) b ds = b \<or> foldl (\<lambda>blame d. if P d then d else blame) b ds \<in> set ds"
    for P b and ds :: "string list" by (induction ds arbitrary: b) auto
  then show ?thesis by (simp add: blamed_def)
qed

lemma first_some_found: "first_some f xs = Some y \<Longrightarrow> \<exists>x\<in>set xs. f x = Some y"
  by (induction xs) (auto split: option.splits)

lemma costsSpacing_near:
  assumes "\<not> farFromSeason draw p (sw_w fr)" and "costsSpacing draw p fr out inPlace = key" and "key \<noteq> ''''"
  shows "key \<in> unitKey ` set (sw_before fr) - set inPlace"
proof -
  define a where "a = airedIn p out (sw_w fr)"
  have keys: "case deferral_costs draw p fr a inPlace [] (sw_before fr) of
      Inl key \<Rightarrow> key \<in> unitKey ` set (sw_before fr) - set inPlace
    | Inr ds \<Rightarrow> set ds \<subseteq> unitKey ` set (sw_before fr) - set inPlace"
    by (rule deferral_costs_keys) simp_all
  show ?thesis
  proof (cases "deferral_costs draw p fr a inPlace [] (sw_before fr)")
    case (Inl k)
    then show ?thesis using assms(2) keys by (simp add: costsSpacing_def a_def [symmetric])
  next
    case (Inr ds)
    obtain k where k: "first_some (unit_costs draw p fr a out inPlace ds) (sw_before fr) = Some k" "key = k"
      using assms(2,3) Inr by (auto simp: costsSpacing_def a_def [symmetric] split: option.splits)
    then obtain s where "unit_costs draw p fr a out inPlace ds s = Some k" using first_some_found by fast
    then have "k = blamed fr ds (unitKey s) \<and> k \<noteq> ''''"
      using assms(1) by (auto simp: unit_costs_def Let_def split: if_splits option.splits)
    then show ?thesis using blamed_in [of fr ds "unitKey s"] keys Inr k(2) by auto
  qed
qed

lemma leftover_leaves:
  assumes "s \<in> set (snd (place p tile w pool deferOut))"
  shows "deferOut s"
  using place_loop_deferred [of deferOut "[]"] assms by (auto simp: place_def list_all_iff)

text \<open>What is left over of a tile is of the tile.\<close>

lemma place_loop_late: "set (snd (place_loop p deferOut fs deferred queue t)) \<subseteq> set deferred \<union> set queue"
proof (induction fs deferred queue t rule: place_induct [where p = p and deferOut = deferOut])
  case (feature f fs deferred queue t)
  then show ?case by (simp add: place_feature)
next
  case (released fs d deferred queue t)
  then show ?case by (auto simp add: place_released)
next
  case (put_off fs deferred s queue t)
  then show ?case using place_put_off [OF put_off(1,2), of deferOut] by auto
next
  case (unit fs deferred s queue t)
  then show ?case using place_unit [OF unit(1,2), of deferOut] by auto
next
  case (closed deferred t)
  then show ?case using place_closed [OF closed(1,2)] by simp
qed

lemma place_deferred_queue: "s \<in> set (snd (place p tile w pool deferOut)) \<Longrightarrow> s \<in> set tile"
  using place_loop_late [of p deferOut "features p w" "[]" "filter (\<lambda>s. unitKey s \<notin> set pool) tile" "opening_of p w"]
  by (auto simp: place_def)

lemma arrange_loop_units:
  assumes "arrange_loop draw p fr tile inPlace = Some out"
  shows "mset out = mset (map ha_unit (features p (sw_w fr)) @ filter (\<lambda>s. unitKey s \<notin> set (sw_pool fr)) tile)"
proof (rule arrange_loop.raw_induct [where P = "\<lambda>draw p fr tile inPlace out.
    mset out = mset (map ha_unit (features p (sw_w fr)) @ filter (\<lambda>s. unitKey s \<notin> set (sw_pool fr)) tile)", OF _ assms])
  fix loop draw p fr tile inPlace out
  assume IH: "\<And>draw p fr tile inPlace out. loop draw p fr tile inPlace = Some out \<Longrightarrow>
      mset out = mset (map ha_unit (features p (sw_w fr)) @ filter (\<lambda>s. unitKey s \<notin> set (sw_pool fr)) tile)"
    and step: "(case swapOut draw p fr tile inPlace of
        None \<Rightarrow> None
      | Some (swapped, early) \<Rightarrow>
          let out = fst (place p swapped (sw_w fr) (sw_pool fr) (leaves_evening p fr inPlace early));
              deferred = snd (place p swapped (sw_w fr) (sw_pool fr) (leaves_evening p fr inPlace early));
              key = costsSpacing draw p fr out inPlace
          in if deferred \<noteq> [] then loop draw p fr tile (map unitKey deferred @ inPlace)
             else if key = '''' then Some out
             else loop draw p fr tile (key # inPlace)) = Some out"
  obtain swapped early where sw: "swapOut draw p fr tile inPlace = Some (swapped, early)"
    using step by (auto split: option.splits)
  let ?pl = "place p swapped (sw_w fr) (sw_pool fr) (leaves_evening p fr inPlace early)"
  show "mset out = mset (map ha_unit (features p (sw_w fr)) @ filter (\<lambda>s. unitKey s \<notin> set (sw_pool fr)) tile)"
  proof (cases "snd ?pl = [] \<and> costsSpacing draw p fr (fst ?pl) inPlace = ''''")
    case False
    then show ?thesis using step sw IH by (auto simp: Let_def split: if_splits)
  next
    case True
    then have "out = fst ?pl" using step sw by (simp add: Let_def)
    then have "mset (out @ []) = mset (map ha_unit (features p (sw_w fr)) @ filter (\<lambda>s. unitKey s \<notin> set (sw_pool fr)) swapped)"
      using True by (intro place_slots_kept [where deferOut = "leaves_evening p fr inPlace early"]) (metis prod.collapse)
    then show ?thesis using swapOut_units [OF sw] by simp
  qed
qed

lemma arrange_loop_near:
  assumes "\<not> farFromSeason draw p (sw_w fr)"
    and "unitKey ` set tile \<subseteq> K" and "unitKey ` set (sw_before fr) \<subseteq> K" and "finite K"
  shows "arrange_loop draw p fr tile inPlace \<noteq> None"
proof (induction "card (K - set inPlace)" arbitrary: inPlace rule: less_induct)
  case less
  obtain swapped early where sw: "swapOut draw p fr tile inPlace = Some (swapped, early)"
    using swap_loop_near [OF assms(1)] unfolding swapOut_def by fastforce
  let ?pl = "place p swapped (sw_w fr) (sw_pool fr) (leaves_evening p fr inPlace early)"
  let ?key = "costsSpacing draw p fr (fst ?pl) inPlace"
  have grow: "arrange_loop draw p fr tile (ks @ inPlace) \<noteq> None" if "k \<in> set ks" "k \<in> K - set inPlace" for ks k
  proof (rule less)
    have "K - set (ks @ inPlace) \<subset> K - set inPlace" using that by auto
    then show "card (K - set (ks @ inPlace)) < card (K - set inPlace)"
      using assms(4) by (simp only: psubset_card_mono finite_Diff)
  qed
  show ?case
  proof (cases "snd ?pl = []")
    case False
    then obtain s where s: "s \<in> set (snd ?pl)" by (cases "snd ?pl") auto
    have "unitKey s \<notin> set inPlace" using leftover_leaves [OF s] by (simp add: leaves_evening_def)
    moreover have "s \<in> set swapped"
      using place_deferred_queue [OF s] .
    then have "unitKey s \<in> K" using assms(2) mset_eq_setD [OF swapOut_units [OF sw]] by auto
    ultimately have "arrange_loop draw p fr tile (map unitKey (snd ?pl) @ inPlace) \<noteq> None"
      using s by (intro grow [of "unitKey s"]) auto
    then show ?thesis using sw False by (subst arrange_loop.simps) (simp add: Let_def)
  next
    case True
    show ?thesis
    proof (cases "?key = ''''")
      case key: True
      then show ?thesis using sw True by (subst arrange_loop.simps) (simp add: Let_def)
    next
      case False
      have "?key \<in> unitKey ` set (sw_before fr) - set inPlace"
        using costsSpacing_near [OF assms(1) refl False] .
      then have "arrange_loop draw p fr tile ([?key] @ inPlace) \<noteq> None"
        using assms(3) by (intro grow [of ?key]) auto
      then show ?thesis using sw True False by (subst arrange_loop.simps) (simp add: Let_def)
    qed
  qed
qed

section \<open>Features are pooled\<close>

lemma features_pooled:
  assumes "f \<in> set (features p w)"
  shows "unitKey (ha_unit f) \<in> set (pooled p w)"
proof -
  obtain n where n: "n \<in> set (days p w)" "f \<in> set (dp_features (day_plan p n))"
    using assms by (auto simp: features_def)
  obtain k where "map ha_unit (dp_features (day_plan p n)) = take k (day_picks p n)" using features_units by blast
  then have "ha_unit f \<in> set (day_picks p n)" using n(2) in_set_takeD image_eqI [of _ ha_unit f] by (metis list.set_map)
  then have "ha_unit f \<in> set (dp_pool (rawDay p n))" using day_picks_spec [of p n] by blast
  then show ?thesis using n(1) by (auto simp: pooled_def)
qed

lemma out_of_season_features: "pooled p w = [] \<Longrightarrow> features p w = []"
  using features_pooled [of "hd (features p w)" p w] by (cases "features p w") simp_all

text \<open>Each unit of a timed tile with the instant it starts.\<close>

fun clock_starts :: "holidayPlanner \<Rightarrow> gotime \<Rightarrow> Slot list \<Rightarrow> (gotime \<times> Slot) list" where
  "clock_starts p t [] = []"
| "clock_starts p t (s # ss) = (t, s) # clock_starts p (t + clock_runtime p s) ss"

lemma place_loop_evening:
  "(t', s) \<in> set (clock_starts p t (fst (place_loop p deferOut fs deferred queue t))) \<Longrightarrow> deferOut s \<Longrightarrow> inEvening p t' \<Longrightarrow>
   s \<in> ha_unit ` set fs"
proof (induction fs deferred queue t rule: place_induct [where p = p and deferOut = deferOut])
  case (feature f fs deferred queue t)
  then show ?case by (auto simp: place_feature)
next
  case (released fs d deferred queue t)
  then show ?case by (auto simp: place_released)
next
  case (put_off fs deferred s' queue t)
  then show ?case using place_put_off [OF put_off(1,2), of deferOut] by simp
next
  case (unit fs deferred s' queue t)
  then show ?case using place_unit [OF unit(1,2), of deferOut] by auto
next
  case (closed deferred t)
  then show ?case using place_closed [OF closed(1,2)] by simp
qed

text \<open>
  Timing a tile with its off-season episodes put off keeps the evening clear of them: none starts in
  the band, and what is left over at the window's close is off-season episodes of the tile.
\<close>

theorem place_keeps_evening:
  "let off = off_season p (pooled p w); (out, late) = place p tile w (pooled p w) off
   in filter (\<lambda>(t, s). inEvening p t \<and> off s) (clock_starts p (opening_of p w) out) = [] \<and>
      list_all (\<lambda>s. off s \<and> s \<in> set tile) late"
proof -
  define off where "off = off_season p (pooled p w)"
  obtain out late where pl: "place p tile w (pooled p w) off = (out, late)" by (cases "place p tile w (pooled p w) off")
  have "s \<notin> ha_unit ` set (features p w)" if "off s" for s
    using that features_pooled by (auto simp: off_def off_season_def)
  then have "\<not> (inEvening p t \<and> off s)" if "(t, s) \<in> set (clock_starts p (opening_of p w) out)" for t s
    using place_loop_evening [of t s p "opening_of p w" off "features p w" "[]" "filter (\<lambda>s. unitKey s \<notin> set (pooled p w)) tile"]
      that pl by (auto simp: place_def)
  then have "filter (\<lambda>(t, s). inEvening p t \<and> off s) (clock_starts p (opening_of p w) out) = []"
    by (auto simp: filter_empty_conv)
  moreover have "list_all (\<lambda>s. off s \<and> s \<in> set tile) late"
    using leftover_leaves [of _ p tile w "pooled p w" off] place_deferred_queue [of _ p tile w "pooled p w" off] pl
    by (simp add: list_all_iff)
  ultimately show ?thesis unfolding off_def [symmetric] Let_def pl by simp
qed

lemma arrangeTile_returns: "farFromSeason draw p w \<or> (\<exists>out. arrangeTile draw p tile w = Some out)"
proof -
  define fr where "fr = arrange_frame p tile w"
  have fr: "sw_w fr = w" "finite (unitKey ` set tile \<union> unitKey ` set (sw_before fr))"
    by (simp_all add: fr_def arrange_frame_def Let_def)
  have "arrange_loop draw p fr tile [] \<noteq> None" if "\<not> farFromSeason draw p w"
    by (rule arrange_loop_near [OF _ _ _ fr(2)]) (use that fr in auto)
  then show ?thesis by (auto simp: arrangeTile_def Let_def fr_def [symmetric])
qed

text \<open>
  Away from a season, on a deck with a spacing, a window whose evenings are kept free of off-season episodes may swap
  one before the band; only there can arranging a tile fail (a window in a season is not away from one, unless the
  spacing counted in windows is negative).
\<close>

definition may_fail :: "random_draw \<Rightarrow> holidayPlanner \<Rightarrow> int \<Rightarrow> bool" where
  "may_fail draw p w \<longleftrightarrow>
     farFromSeason draw p w \<and> 0 < dd_spacing (dealer_of p) \<and>
     (rse_Evenings (hf_seasonal (hp_f p)) \<or> pooled p w \<noteq> [])"

lemma arrangeTile_fails_far: "may_fail draw p w \<or> (\<exists>out. arrangeTile draw p tile w = Some out)"
proof (cases "farFromSeason draw p w \<and> 0 < dd_spacing (dealer_of p)")
  case False
  then have "dd_spacing (dealer_of p) \<le> 0 \<Longrightarrow> \<exists>out. arrangeTile draw p tile w = Some out"
    by (simp add: arrangeTile_def Let_def)
  then show ?thesis using arrangeTile_returns [of draw p w tile] False by (auto simp: not_less)
next
  case True
  show ?thesis
  proof (cases "rse_Evenings (hf_seasonal (hp_f p)) \<or> pooled p w \<noteq> []")
    case False
    then have "\<not> list_ex (off_season p (pooled p w)) tile" by (auto simp: off_season_def list_ex_iff)
    then show ?thesis using False by (simp add: arrangeTile_def Let_def)
  next
    case here: True
    then show ?thesis using True arrangeTile_returns [of draw p w tile] by (auto simp: may_fail_def)
  qed
qed

lemma arrangeTile_units:
  "(farFromSeason draw p w \<or> (\<exists>out. arrangeTile draw p tile w = Some out)) \<and>
   (case arrangeTile draw p tile w of
      None \<Rightarrow> True
    | Some out \<Rightarrow>
        if planner_on p
        then mset out = mset (map ha_unit (features p w) @ filter (\<lambda>s. unitKey s \<notin> set (pooled p w)) tile)
        else out = tile)"
proof -
  define fr where "fr = arrange_frame p tile w"
  have fr: "sw_w fr = w" "sw_pool fr = pooled p w"
    by (simp_all add: fr_def arrange_frame_def Let_def)
  have "farFromSeason draw p w \<or> (\<exists>out. arrangeTile draw p tile w = Some out)" by (rule arrangeTile_returns)
  moreover have "mset out = mset (map ha_unit (features p w) @ filter (\<lambda>s. unitKey s \<notin> set (pooled p w)) tile)"
    if "arrangeTile draw p tile w = Some out" "planner_on p" for out
  proof (cases "tile = [] \<and> features p w = [] \<or> pooled p w = [] \<and> \<not> list_ex (off_season p (pooled p w)) tile")
    case True
    then show ?thesis using that out_of_season_features [of p w] by (auto simp: arrangeTile_def Let_def split: if_splits)
  next
    case False
    show ?thesis
    proof (cases "dd_spacing (dealer_of p) \<le> 0")
      case True
      then have "mset out = mset (fst (place p tile w (pooled p w) (off_season p (pooled p w))) @
          snd (place p tile w (pooled p w) (off_season p (pooled p w))))"
        using that False by (auto simp: arrangeTile_def Let_def mset_beforeBand split: if_splits)
      then show ?thesis using place_slots_kept by (metis prod.collapse)
    next
      case sp: False
      then have "arrange_loop draw p fr tile [] = Some out"
        using that False by (auto simp: arrangeTile_def Let_def fr_def split: if_splits)
      from arrange_loop_units [OF this] show ?thesis using fr by simp
    qed
  qed
  moreover have "out = tile" if "arrangeTile draw p tile w = Some out" "\<not> planner_on p" for out
    using that by (simp add: arrangeTile_def Let_def)
  ultimately show ?thesis by (auto split: option.split)
qed

text \<open>
  Arranging a tile loses nothing: near a season it always returns, and whenever it returns, the
  arranged tile is the window's features and the tile less the season's pool, each as many times as
  before; with no holidays planned it is the tile itself.
\<close>

theorem arrangeTile_keeps:
  "(farFromSeason draw p w \<or> (\<exists>out. arrangeTile draw p tile w = Some out)) \<and>
   (case arrangeTile draw p tile w of
      None \<Rightarrow> True
    | Some out \<Rightarrow>
        if planner_on p
        then mset out = mset (map ha_unit (features p w) @ filter (\<lambda>s. unitKey s \<notin> set (pooled p w)) tile)
        else out = tile)"
  by (rule arrangeTile_units)

end
