(* ===== verification/Season_Simulate.thy ===== *)
theory Season_Simulate
  imports Season_Swaps
begin

text \<open>
  The season simulation, \<^verbatim>\<open>simulate\<close>, \<^verbatim>\<open>settle\<close> and \<^verbatim>\<open>topUp\<close> of \<^verbatim>\<open>internal/schedule/seasonal_boost.go\<close>: the
  windows of a season in order, each tile decided against what really aired before it.

  A Go set of keys is a list of keys, and a Go map a function to options. \<open>None\<close> is a simulation that
  does not return because \<open>arrange\<close> does not.

  The lemmas show that settling a tile always ends, and that a season's tile never repeats a unit nor
  airs one of the season's own.
\<close>

section \<open>Topping up a short tile\<close>

type_synonym airing_index = "string \<rightharpoonup> int"

definition restsBeyond :: "random_draw \<Rightarrow> holidayPlanner \<Rightarrow> string \<Rightarrow> int \<Rightarrow> int \<Rightarrow> int \<Rightarrow> bool" where
  "restsBeyond draw p key v last_window spacing =
     (let start = (v + 1) * stride_of p
      in list_all (\<lambda>q. \<not> (q \<ge> (last_window + 1) * stride_of p \<and> q - start < spacing)) (ring_airings draw (hp_ring p) key start))"

record top_candidate =
  tc_s :: Slot
  tc_dist :: int
  tc_near :: bool
  tc_owed :: bool
  tc_tier :: int

text \<open>What a window that is topped up knows.\<close>

record topFrame =
  tf_v :: int
  tf_end :: int
  tf_spacing :: int
  tf_prev :: "string list"
  tf_pooled :: "string list"
  tf_owed :: "Slot list"
  tf_airedAt :: airing_index

definition next_dealt :: "random_draw \<Rightarrow> holidayPlanner \<Rightarrow> int \<Rightarrow> string list" where
  "next_dealt draw p v =
     map (\<lambda>u. unitKey (ring_at draw (hp_ring p) u)) [(v + 1) * stride_of p..(v + 2) * stride_of p - 1]"

definition rate_candidate :: "random_draw \<Rightarrow> holidayPlanner \<Rightarrow> topFrame \<Rightarrow> int \<Rightarrow> bool \<Rightarrow> Slot \<Rightarrow> top_candidate" where
  "rate_candidate draw p fr at_index is_owed s =
     (let key = unitKey s; spacing = tf_spacing fr;
          start = (tf_v fr + 1) * stride_of p; simulated = (tf_end fr + 1) * stride_of p;
          past = (case tf_airedAt fr key of None \<Rightarrow> max_int64 | Some lst \<Rightarrow> at_index - lst);
          deals = filter (\<lambda>q. q \<ge> start) (ring_airings draw (hp_ring p) key start);
          future = foldl (\<lambda>m q. min m (q - start)) max_int64 deals;
          dealt = foldl min max_int64 deals
      in \<lparr>tc_s = s, tc_dist = min past future,
          tc_near = (key \<in> set (tf_prev fr) \<or> key \<in> set (next_dealt draw p (tf_v fr))), tc_owed = is_owed,
          tc_tier = (if past \<ge> spacing \<and> future \<ge> spacing then 0
                     else if past \<ge> spacing \<and> dealt < simulated then 1
                     else if past \<ge> spacing then 2 else 3)\<rparr>)"

fun candidates ::
  "random_draw \<Rightarrow> holidayPlanner \<Rightarrow> topFrame \<Rightarrow> int \<Rightarrow> string list \<Rightarrow> (Slot \<times> bool) list \<Rightarrow> top_candidate list" where
  "candidates draw p fr at_index taken [] = []"
| "candidates draw p fr at_index taken ((s, is_owed) # ss) =
     (if unitKey s \<in> set (tf_pooled fr) \<or> unitKey s \<in> set taken \<or> holiday_unit p s
      then candidates draw p fr at_index taken ss
      else rate_candidate draw p fr at_index is_owed s # candidates draw p fr at_index (unitKey s # taken) ss)"

definition candidate_before :: "top_candidate \<Rightarrow> top_candidate \<Rightarrow> bool" where
  "candidate_before a b =
     (if tc_tier a \<noteq> tc_tier b then tc_tier a < tc_tier b
      else if tc_near a \<noteq> tc_near b then \<not> tc_near a
      else if tc_owed a \<noteq> tc_owed b then tc_owed a
      else tc_dist b < tc_dist a)"

fun take_short :: "int \<Rightarrow> top_candidate list \<Rightarrow> Slot list" where
  "take_short short [] = []"
| "take_short short (c # cs) =
     (if short \<le> 0 then [] else tc_s c # take_short (short - s_DurationMs (tc_s c)) cs)"

definition topUp ::
  "random_draw \<Rightarrow> holidayPlanner \<Rightarrow> topFrame \<Rightarrow> Slot list \<Rightarrow> string list \<Rightarrow> int \<Rightarrow> int \<Rightarrow> Slot list" where
  "topUp draw p fr tile taken short at_index =
     (let pass = ring_pass draw (hp_ring p) (fst (ring_locate (hp_ring p) (tf_v fr * stride_of p)));
          offered = map (\<lambda>s. (s, True)) (tf_owed fr) @ map (\<lambda>s. (s, False)) pass
      in tile @ take_short short (sort_by candidate_before (candidates draw p fr at_index taken offered)))"

section \<open>Settling a tile\<close>

fun later_slot :: "nat \<Rightarrow> nat \<Rightarrow> int \<Rightarrow> Slot list \<Rightarrow> nat" where
  "later_slot j spot by_slots [] = spot"
| "later_slot j spot by_slots (s # ss) =
     (if \<not> by_slots > 0 then spot
      else if IsProgram s then later_slot (Suc j) j (by_slots - 1) ss
      else later_slot (Suc j) spot by_slots ss)"

definition holdLater :: "Slot list \<Rightarrow> string \<Rightarrow> int \<Rightarrow> Slot list option" where
  "holdLater tile key by_slots =
     (let i = length (takeWhile (\<lambda>s. \<not> (IsProgram s \<and> unitKey s = key)) tile);
          spot = later_slot (Suc i) i by_slots (drop (Suc i) tile)
      in if i \<ge> length tile then None
         else if spot = i then None
         else Some (insert_at spot [tile ! i] (take i tile @ drop (Suc i) tile)))"

definition programmesIn :: "Slot list \<Rightarrow> int" where
  "programmesIn slots = int (length (filter IsProgram slots))"

definition programme_keys :: "Slot list \<Rightarrow> string list" where
  "programme_keys tile = map unitKey (filter IsProgram tile)"

text \<open>The first unit of the tile that, arranged, airs too soon, and by how many programmes.\<close>

fun too_soon ::
  "airing_index \<Rightarrow> int \<Rightarrow> int \<Rightarrow> string list \<Rightarrow> string list \<Rightarrow> int \<Rightarrow> Slot list \<Rightarrow> (string \<times> int) option" where
  "too_soon airedAt a spacing mine kept i [] = None"
| "too_soon airedAt a spacing mine kept i (s # ss) =
     (if \<not> IsProgram s then too_soon airedAt a spacing mine kept i ss
      else case airedAt (unitKey s) of
             Some lst \<Rightarrow>
               (if unitKey s \<in> set mine \<and> unitKey s \<notin> set kept \<and> a + i - lst < spacing
                then Some (unitKey s, spacing - (a + i - lst))
                else too_soon airedAt a spacing mine kept (i + 1) ss)
           | None \<Rightarrow> too_soon airedAt a spacing mine kept (i + 1) ss)"

text \<open>The tile without a unit, topped up again without any unit dropped so far.\<close>

definition tile_without ::
  "random_draw \<Rightarrow> holidayPlanner \<Rightarrow> topFrame \<Rightarrow> int \<Rightarrow> int \<Rightarrow> string list \<Rightarrow> string \<Rightarrow> Slot list \<Rightarrow> Slot list" where
  "tile_without draw p fr need a dropped soon tile =
     (let without = filter (\<lambda>s. \<not> (IsProgram s \<and> unitKey s = soon)) tile;
          acc = programRuntime without; n = programmesIn without
      in if acc < need
         then topUp draw p fr without (programme_keys without @ dropped) (need - acc) (a + n)
         else without)"

text \<open>Whether a window without the unit would loop sooner than the spacing.\<close>

definition loops_sooner ::
  "random_draw \<Rightarrow> holidayPlanner \<Rightarrow> topFrame \<Rightarrow> int \<Rightarrow> Slot list \<Rightarrow> Slot list \<Rightarrow> bool option" where
  "loops_sooner draw p fr need tile without =
     (if programRuntime without < need \<and> programRuntime without < programRuntime tile
      then map_option (\<lambda>out. programmesIn out < tf_spacing fr) (arrange draw p without (tf_v fr))
      else Some False)"


lemma holdLater_units:
  assumes "holdLater tile key n = Some tile'"
  shows "mset tile' = mset tile"
proof -
  define i where "i = length (takeWhile (\<lambda>s. \<not> (IsProgram s \<and> unitKey s = key)) tile)"
  have i: "i < length tile" "tile' = insert_at (later_slot (Suc i) i n (drop (Suc i) tile)) [tile ! i] (take i tile @ drop (Suc i) tile)"
    using assms unfolding holdLater_def Let_def i_def [symmetric] by (simp_all split: if_split_asm)
  then show ?thesis using mset_nth_remove [OF i(1)] by simp
qed

lemma too_soon_mine:
  "too_soon airedAt a spacing mine kept i ss = Some (key, short) \<Longrightarrow>
   key \<in> set mine \<and> key \<notin> set kept \<and> 0 < short \<and> key \<in> set (programme_keys ss)"
  by (induction ss arbitrary: i) (auto simp: programme_keys_def split: if_splits option.splits)

lemma take_short_candidates: "set (take_short short cs) \<subseteq> tc_s ` set cs"
  by (induction cs arbitrary: short) auto

lemma candidates_offered:
  "c \<in> set (candidates draw p fr n taken offered) \<Longrightarrow>
   tc_s c \<in> fst ` set offered \<and> unitKey (tc_s c) \<notin> set (tf_pooled fr) \<union> set taken \<and> \<not> holiday_unit p (tc_s c)"
proof (induction offered arbitrary: taken)
  case (Cons so offered)
  obtain s is_owed where so: "so = (s, is_owed)" by (cases so)
  have rated: "tc_s (rate_candidate draw p fr n is_owed s) = s" by (simp add: rate_candidate_def Let_def)
  show ?case using Cons by (force simp: so rated split: if_splits)
qed simp

text \<open>The keys a tile may come to hold, which only lose members while a tile is settled.\<close>

definition settle_keys :: "random_draw \<Rightarrow> holidayPlanner \<Rightarrow> topFrame \<Rightarrow> string list \<Rightarrow> Slot list \<Rightarrow> string set" where
  "settle_keys draw p fr dropped tile =
     set (programme_keys tile) \<union>
     (unitKey ` (set (tf_owed fr) \<union> set (ring_pass draw (hp_ring p) (fst (ring_locate (hp_ring p) (tf_v fr * stride_of p))))) - set dropped)"

lemma topUp_slots:
  assumes "s \<in> set (topUp draw p fr tile taken short n)"
  shows "s \<in> set tile \<or>
    s \<in> set (tf_owed fr) \<union> set (ring_pass draw (hp_ring p) (fst (ring_locate (hp_ring p) (tf_v fr * stride_of p)))) \<and>
    unitKey s \<notin> set (tf_pooled fr) \<union> set taken \<and> \<not> holiday_unit p s"
proof -
  define pass where "pass = ring_pass draw (hp_ring p) (fst (ring_locate (hp_ring p) (tf_v fr * stride_of p)))"
  define offered where "offered = map (\<lambda>s. (s, True)) (tf_owed fr) @ map (\<lambda>s. (s, False)) pass"
  have offers: "fst ` set offered = set (tf_owed fr) \<union> set pass" by (auto simp: offered_def image_Un image_image)
  have "s \<in> set tile \<or> s \<in> tc_s ` set (candidates draw p fr n taken offered)"
    using assms take_short_candidates [of short "sort_by candidate_before (candidates draw p fr n taken offered)"]
    unfolding topUp_def Let_def pass_def [symmetric] offered_def [symmetric] by auto
  then show ?thesis
    using candidates_offered [of _ draw p fr n taken offered] unfolding pass_def [symmetric] offers by blast
qed

lemma tile_without_slots:
  assumes "s \<in> set (tile_without draw p fr need a dropped soon tile)"
  shows "s \<in> set tile \<and> \<not> (IsProgram s \<and> unitKey s = soon) \<or>
    s \<in> set (tf_owed fr) \<union> set (ring_pass draw (hp_ring p) (fst (ring_locate (hp_ring p) (tf_v fr * stride_of p)))) \<and>
    unitKey s \<notin> set (tf_pooled fr) \<union> set dropped \<and> \<not> holiday_unit p s"
proof -
  define without where "without = filter (\<lambda>s. \<not> (IsProgram s \<and> unitKey s = soon)) tile"
  show ?thesis
  proof (cases "programRuntime without < need")
    case True
    then have "s \<in> set (topUp draw p fr without (programme_keys without @ dropped) (need - programRuntime without) (a + programmesIn without))"
      using assms unfolding tile_without_def without_def [symmetric] Let_def by simp
    from topUp_slots [OF this] show ?thesis by (auto simp: without_def)
  next
    case False
    then show ?thesis using assms unfolding tile_without_def without_def [symmetric] Let_def by (simp add: without_def)
  qed
qed

lemma settle_keys_less:
  assumes "soon \<in> set (programme_keys tile)"
  shows "card (settle_keys draw p fr (soon # dropped) (tile_without draw p fr need a (soon # dropped) soon tile)) <
    card (settle_keys draw p fr dropped tile)"
proof (rule psubset_card_mono)
  show "finite (settle_keys draw p fr dropped tile)" by (simp add: settle_keys_def)
  have "soon \<notin> settle_keys draw p fr (soon # dropped) (tile_without draw p fr need a (soon # dropped) soon tile)"
    using tile_without_slots [of _ draw p fr need a "soon # dropped" soon tile] by (auto simp: settle_keys_def programme_keys_def)
  moreover have "soon \<in> settle_keys draw p fr dropped tile" using assms by (simp add: settle_keys_def)
  moreover have "settle_keys draw p fr (soon # dropped) (tile_without draw p fr need a (soon # dropped) soon tile) \<subseteq> settle_keys draw p fr dropped tile"
    using tile_without_slots [of _ draw p fr need a "soon # dropped" soon tile] by (fastforce simp: settle_keys_def programme_keys_def)
  ultimately show "settle_keys draw p fr (soon # dropped) (tile_without draw p fr need a (soon # dropped) soon tile) \<subset> settle_keys draw p fr dropped tile"
    by blast
qed

lemma settle_keys_kept:
  assumes "soon \<in> set (programme_keys tile)" and "mset tile' = mset tile"
  shows "settle_keys draw p fr (soon # dropped) tile' = settle_keys draw p fr dropped tile"
    and "set (programme_keys tile') = set (programme_keys tile)" and "length tile' = length tile"
proof -
  show keys: "set (programme_keys tile') = set (programme_keys tile)"
    using mset_eq_setD [OF assms(2)] by (simp add: programme_keys_def)
  show "settle_keys draw p fr (soon # dropped) tile' = settle_keys draw p fr dropped tile"
    using assms(1) unfolding settle_keys_def keys by auto
  show "length tile' = length tile" using assms(2) by (rule mset_eq_length)
qed

text \<open>
  The loop of \<^verbatim>\<open>settle\<close>: the units dropped so far and kept in place, and how many were held back. Each turn
  drops a unit for good, keeps one or holds one back.
\<close>

function settle_loop ::
  "random_draw \<Rightarrow> holidayPlanner \<Rightarrow> topFrame \<Rightarrow> int \<Rightarrow> int \<Rightarrow> string list \<Rightarrow> string list \<Rightarrow> nat \<Rightarrow> Slot list \<Rightarrow>
   (Slot list \<times> string list) option" where
  "settle_loop draw p fr need a dropped kept held tile =
     (case arrange draw p tile (tf_v fr) of
        None \<Rightarrow> None
      | Some arranged \<Rightarrow>
          (case too_soon (tf_airedAt fr) a (tf_spacing fr) (programme_keys tile) kept 0 arranged of
             None \<Rightarrow> Some (tile, kept)
           | Some (soon, short) \<Rightarrow>
               (case loops_sooner draw p fr need tile (tile_without draw p fr need a (soon # dropped) soon tile) of
                  None \<Rightarrow> None
                | Some False \<Rightarrow>
                    settle_loop draw p fr need a (soon # dropped) kept held
                      (tile_without draw p fr need a (soon # dropped) soon tile)
                | Some True \<Rightarrow>
                    (case holdLater tile soon short of
                       None \<Rightarrow> settle_loop draw p fr need a (soon # dropped) (soon # kept) held tile
                     | Some later \<Rightarrow>
                         if held < length tile
                         then settle_loop draw p fr need a (soon # dropped) kept (held + 1) later
                         else settle_loop draw p fr need a (soon # dropped) (soon # kept) held tile))))"
  by pat_completeness auto

lemma kept_less:
  assumes "soon \<in> set (programme_keys tile)" and "soon \<notin> set kept"
  shows "card (set (programme_keys tile) - set (soon # kept)) < card (set (programme_keys tile) - set kept)"
  by (rule psubset_card_mono) (use assms in auto)

termination settle_loop
proof (relation "measures [\<lambda>(draw, p, fr, need, a, dropped, kept, held, tile). card (settle_keys draw p fr dropped tile),
    \<lambda>(draw, p, fr, need, a, dropped, kept, held, tile). card (set (programme_keys tile) - set kept),
    \<lambda>(draw, p, fr, need, a, dropped, kept, held, tile). length tile - held]", goal_cases)
  case 1
  then show ?case by simp
next
  case (2 draw p fr need a dropped kept held tile arranged pair soon short r)
  then have soon: "soon \<in> set (programme_keys tile)" "soon \<notin> set kept" by (auto dest: too_soon_mine)
  show ?case using settle_keys_kept(1) [OF soon(1) refl] kept_less [OF soon] by (simp del: set_simps)
next
  case (3 draw p fr need a dropped kept held tile arranged pair soon short r later)
  then have soon: "soon \<in> set (programme_keys tile)" "soon \<notin> set kept" by (auto dest: too_soon_mine)
  show ?case using settle_keys_kept [OF soon(1) holdLater_units] 3 by simp
next
  case (4 draw p fr need a dropped kept held tile arranged pair soon short r later)
  then have soon: "soon \<in> set (programme_keys tile)" "soon \<notin> set kept" by (auto dest: too_soon_mine)
  show ?case using settle_keys_kept(1) [OF soon(1) refl] kept_less [OF soon] by (simp del: set_simps)
next
  case (5 draw p fr need a dropped kept held tile arranged pair soon short r)
  then have soon: "soon \<in> set (programme_keys tile)" "soon \<notin> set kept" by (auto dest: too_soon_mine)
  show ?case using settle_keys_less [OF soon(1)] by simp
qed

declare settle_loop.simps [simp del]

definition settle :: "random_draw \<Rightarrow> holidayPlanner \<Rightarrow> topFrame \<Rightarrow> int \<Rightarrow> int \<Rightarrow> Slot list \<Rightarrow> Slot list option" where
  "settle draw p fr need a tile = map_option fst (settle_loop draw p fr need a [] [] 0 tile)"

section \<open>Dealing a window of the season\<close>

record dealState =
  ds_tile :: "Slot list"
  ds_later :: "Slot list"
  ds_taken :: "string list"
  ds_acc :: int
  ds_n :: int
  ds_owed :: "Slot list"
  ds_owing :: "string list"

definition keep_slot :: "Slot \<Rightarrow> dealState \<Rightarrow> dealState" where
  "keep_slot s st =
     st\<lparr>ds_taken := unitKey s # ds_taken st, ds_acc := ds_acc st + s_DurationMs s, ds_tile := ds_tile st @ [s],
        ds_n := ds_n st + 1\<rparr>"

definition too_recent :: "airing_index \<Rightarrow> string \<Rightarrow> int \<Rightarrow> int \<Rightarrow> bool" where
  "too_recent airedAt key i spacing \<longleftrightarrow> (case airedAt key of None \<Rightarrow> False | Some lst \<Rightarrow> i - lst < spacing)"

text \<open>One slot of the dealer's tile, in a window whose programmes are counted from \<open>a\<close>.\<close>

definition deal_slot :: "string list \<Rightarrow> airing_index \<Rightarrow> int \<Rightarrow> int \<Rightarrow> int \<Rightarrow> dealState \<Rightarrow> Slot \<Rightarrow> dealState" where
  "deal_slot pool airedAt a spacing need st s =
     (if \<not> IsProgram s then st\<lparr>ds_tile := ds_tile st @ [s]\<rparr>
      else if unitKey s \<in> set pool \<or> unitKey s \<in> set (ds_taken st) then st
      else if too_recent airedAt (unitKey s) (a + ds_n st) spacing then st\<lparr>ds_later := ds_later st @ [s]\<rparr>
      else if ds_acc st \<ge> need
      then (if unitKey s \<in> set (ds_owing st) then st
            else st\<lparr>ds_owed := ds_owed st @ [s], ds_owing := unitKey s # ds_owing st\<rparr>)
      else keep_slot s st)"

definition deal_later ::
  "random_draw \<Rightarrow> holidayPlanner \<Rightarrow> int \<Rightarrow> int \<Rightarrow> airing_index \<Rightarrow> int \<Rightarrow> int \<Rightarrow> int \<Rightarrow> dealState \<Rightarrow> Slot \<Rightarrow> dealState" where
  "deal_later draw p v last_window airedAt a spacing need st s =
     (let key = unitKey s; lst = (case airedAt key of None \<Rightarrow> 0 | Some lst \<Rightarrow> lst)
      in if ds_acc st < need \<and> key \<notin> set (ds_taken st) \<and> a + ds_n st - lst \<ge> spacing \<and>
            restsBeyond draw p key v last_window spacing
         then keep_slot s st else st)"

section \<open>The simulation\<close>

record simState =
  si_airedAt :: airing_index
  si_a :: int
  si_prev :: "string list"
  si_run :: "int \<rightharpoonup> Slot list"
  si_owed :: "Slot list"
  si_owing :: "string list"

definition record_window :: "holidayPlanner \<Rightarrow> Slot list \<Rightarrow> simState \<Rightarrow> simState" where
  "record_window p arranged st =
     (let keys = programme_keys (loopedWindow arranged (milliseconds (hp_window p)));
          (airedAt, a) = foldl (\<lambda>(m, i) key. (m(key \<mapsto> i), i + 1)) (si_airedAt st, si_a st) keys
      in st\<lparr>si_airedAt := airedAt, si_a := a, si_prev := keys\<rparr>)"

fun preroll :: "random_draw \<Rightarrow> holidayPlanner \<Rightarrow> simState \<Rightarrow> int list \<Rightarrow> simState option" where
  "preroll draw p st [] = Some st"
| "preroll draw p st (v # vs) =
     (case arrangeTile draw p (ring_tile draw (hp_ring p) v) v of
        None \<Rightarrow> None
      | Some arranged \<Rightarrow> preroll draw p (record_window p arranged st) vs)"

definition window_need :: "holidayPlanner \<Rightarrow> int \<Rightarrow> int" where
  "window_need p v = milliseconds (hp_window p) - sum_list (map (\<lambda>f. s_DurationMs (ha_unit f)) (features p v))"

text \<open>The window's deal, before it is topped up and settled.\<close>

definition deal_window :: "random_draw \<Rightarrow> holidayPlanner \<Rightarrow> int \<Rightarrow> simState \<Rightarrow> int \<Rightarrow> dealState" where
  "deal_window draw p last_window st v =
     (let spacing = spacingProgrammes draw p; need = window_need p v;
          d0 = \<lparr>ds_tile = [], ds_later = [], ds_taken = [], ds_acc = 0, ds_n = 0, ds_owed = si_owed st, ds_owing = si_owing st\<rparr>;
          d = foldl (deal_slot (pooled p v) (si_airedAt st) (si_a st) spacing need) d0 (ring_tile draw (hp_ring p) v)
      in foldl (deal_later draw p v last_window (si_airedAt st) (si_a st) spacing need) d (ds_later d))"

definition sim_frame :: "random_draw \<Rightarrow> holidayPlanner \<Rightarrow> int \<Rightarrow> simState \<Rightarrow> int \<Rightarrow> dealState \<Rightarrow> topFrame" where
  "sim_frame draw p last_window st v d =
     \<lparr>tf_v = v, tf_end = last_window, tf_spacing = spacingProgrammes draw p, tf_prev = si_prev st, tf_pooled = pooled p v,
      tf_owed = ds_owed d, tf_airedAt = si_airedAt st\<rparr>"

definition window_tile :: "random_draw \<Rightarrow> holidayPlanner \<Rightarrow> int \<Rightarrow> simState \<Rightarrow> int \<Rightarrow> dealState \<Rightarrow> Slot list option" where
  "window_tile draw p last_window st v d =
     (let need = window_need p v; fr = sim_frame draw p last_window st v d;
          tile = (if ds_acc d < need
                  then topUp draw p fr (ds_tile d) (ds_taken d) (need - ds_acc d) (si_a st + ds_n d) else ds_tile d)
      in settle draw p fr need (si_a st) tile)"

definition simulate_window :: "random_draw \<Rightarrow> holidayPlanner \<Rightarrow> int \<Rightarrow> simState \<Rightarrow> int \<Rightarrow> simState option" where
  "simulate_window draw p last_window st v =
     (let d = deal_window draw p last_window st v
      in case window_tile draw p last_window st v d of
           None \<Rightarrow> None
         | Some tile \<Rightarrow>
             (case arrange draw p tile v of
                None \<Rightarrow> None
              | Some arranged \<Rightarrow>
                  (let st = record_window p arranged (st\<lparr>si_run := (si_run st)(v \<mapsto> tile)\<rparr>)
                   in Some (st\<lparr>si_owed := filter (\<lambda>s. unitKey s \<notin> set (si_prev st)) (ds_owed d),
                               si_owing := filter (\<lambda>key. key \<notin> set (si_prev st)) (ds_owing d)\<rparr>))))"

fun simulate_windows :: "random_draw \<Rightarrow> holidayPlanner \<Rightarrow> int \<Rightarrow> simState \<Rightarrow> int list \<Rightarrow> simState option" where
  "simulate_windows draw p last_window st [] = Some st"
| "simulate_windows draw p last_window st (v # vs) =
     (case simulate_window draw p last_window st v of
        None \<Rightarrow> None
      | Some st \<Rightarrow> simulate_windows draw p last_window st vs)"

definition sim_start :: simState where
  "sim_start = \<lparr>si_airedAt = Map.empty, si_a = 0, si_prev = [], si_run = Map.empty, si_owed = [], si_owing = []\<rparr>"

text \<open>The windows before the season that seed the simulation.\<close>

definition seed_windows :: "random_draw \<Rightarrow> holidayPlanner \<Rightarrow> int \<Rightarrow> int list" where
  "seed_windows draw p anchor =
     [anchor - (spacingProgrammes draw p + stride_of p - 1) sdiv stride_of p - 1..anchor - 1]"

definition simulate :: "random_draw \<Rightarrow> holidayPlanner \<Rightarrow> int \<Rightarrow> int \<Rightarrow> (int \<rightharpoonup> Slot list) option" where
  "simulate draw p anchor last_window =
     (case preroll draw p sim_start (seed_windows draw p anchor) of
        None \<Rightarrow> None
      | Some st \<Rightarrow> map_option si_run (simulate_windows draw p last_window st [anchor..last_window]))"

section \<open>A season's tile\<close>

text \<open>No programme twice, and none of the pool.\<close>

definition fresh_tile :: "string list \<Rightarrow> Slot list \<Rightarrow> bool" where
  "fresh_tile pool tile \<longleftrightarrow>
     distinct (programme_keys tile) \<and> list_all (\<lambda>key. key \<notin> set pool) (programme_keys tile)"

text \<open>Fresh, and all from the channel's deck.\<close>

definition season_tile :: "holidayPlanner \<Rightarrow> string list \<Rightarrow> Slot list \<Rightarrow> bool" where
  "season_tile p pool tile \<longleftrightarrow> fresh_tile pool tile \<and> set tile \<subseteq> set (dd_slots (dealer_of p))"

lemma programme_keys_append [simp]: "programme_keys (xs @ ys) = programme_keys xs @ programme_keys ys"
  by (simp add: programme_keys_def)

lemma fresh_tile_mset: "mset tile' = mset tile \<Longrightarrow> fresh_tile pool tile' = fresh_tile pool tile"
proof -
  assume "mset tile' = mset tile"
  then have "mset (programme_keys tile') = mset (programme_keys tile)" by (simp add: programme_keys_def)
  then show ?thesis unfolding fresh_tile_def list_all_iff using mset_eq_imp_distinct_iff mset_eq_setD by metis
qed

lemma season_tile_mset: "mset tile' = mset tile \<Longrightarrow> season_tile p pool tile' = season_tile p pool tile"
  using fresh_tile_mset mset_eq_setD unfolding season_tile_def by metis

lemma fresh_tile_filter: "fresh_tile pool tile \<Longrightarrow> fresh_tile pool (filter P tile)"
proof -
  assume tile: "fresh_tile pool tile"
  have "programme_keys (filter P tile) = map unitKey (filter P (filter IsProgram tile))"
    by (simp add: programme_keys_def filter_filter conj_commute)
  then show ?thesis using tile by (auto simp: fresh_tile_def programme_keys_def list_all_iff distinct_map_filter
      simp flip: filter_filter)
qed

lemma candidates_distinct: "distinct (map (\<lambda>c. unitKey (tc_s c)) (candidates draw p fr n taken offered))"
proof (induction offered arbitrary: taken)
  case (Cons so offered)
  obtain s is_owed where so: "so = (s, is_owed)" by (cases so)
  have rated: "tc_s (rate_candidate draw p fr n is_owed s) = s" by (simp add: rate_candidate_def Let_def)
  have "unitKey s \<notin> (\<lambda>c. unitKey (tc_s c)) ` set (candidates draw p fr n (unitKey s # taken) offered)"
    using candidates_offered [of _ draw p fr n "unitKey s # taken" offered] by force
  then show ?case using Cons by (simp add: so rated)
qed simp

lemma take_short_prefix: "\<exists>k. take_short short cs = take k (map tc_s cs)"
proof (induction cs arbitrary: short)
  case (Cons c cs)
  then obtain k where "take_short (short - s_DurationMs (tc_s c)) cs = take k (map tc_s cs)" by blast
  then show ?case by (cases "short \<le> 0") (auto intro: exI [of _ 0] exI [of _ "Suc k"])
qed simp

lemma topUp_fresh:
  assumes "fresh_tile (tf_pooled fr) tile" and "set (programme_keys tile) \<subseteq> set taken"
  shows "fresh_tile (tf_pooled fr) (topUp draw p fr tile taken short n)"
proof -
  define pass where "pass = ring_pass draw (hp_ring p) (fst (ring_locate (hp_ring p) (tf_v fr * stride_of p)))"
  define cs where "cs = sort_by candidate_before
    (candidates draw p fr n taken (map (\<lambda>s. (s, True)) (tf_owed fr) @ map (\<lambda>s. (s, False)) pass))"
  obtain k where k: "take_short short cs = take k (map tc_s cs)" using take_short_prefix by blast
  have top: "topUp draw p fr tile taken short n = tile @ take k (map tc_s cs)"
    unfolding topUp_def Let_def pass_def [symmetric] cs_def [symmetric] k by (rule refl)
  have "mset (map (\<lambda>c. unitKey (tc_s c)) cs) =
      mset (map (\<lambda>c. unitKey (tc_s c)) (candidates draw p fr n taken (map (\<lambda>s. (s, True)) (tf_owed fr) @ map (\<lambda>s. (s, False)) pass)))"
    by (simp only: cs_def mset_map mset_sort_by)
  then have "distinct (map (\<lambda>c. unitKey (tc_s c)) cs)" using candidates_distinct by (metis mset_eq_imp_distinct_iff)
  then have added: "distinct (map unitKey (take k (map tc_s cs)))"
    by (simp add: take_map comp_def distinct_take flip: take_map)
  have keys: "unitKey s \<notin> set (tf_pooled fr) \<union> set taken" if "s \<in> set (take k (map tc_s cs))" for s
    using in_set_takeD [OF that] candidates_offered [of _ draw p fr n taken] by (auto simp: cs_def)
  have "distinct (programme_keys (take k (map tc_s cs)))"
    using added by (simp add: programme_keys_def distinct_map_filter)
  moreover have "set (programme_keys (take k (map tc_s cs))) \<subseteq> unitKey ` set (take k (map tc_s cs))"
    by (auto simp: programme_keys_def)
  ultimately show ?thesis using assms keys unfolding top fresh_tile_def list_all_iff by fastforce
qed

text \<open>What a topped up window may be given back: units of the deck.\<close>

definition frame_of_deck :: "holidayPlanner \<Rightarrow> topFrame \<Rightarrow> bool" where
  "frame_of_deck p fr \<longleftrightarrow> set (tf_owed fr) \<subseteq> set (dd_slots (dealer_of p))"

lemma pass_of_deck: "set (ring_pass draw (hp_ring p) pass) \<subseteq> set (dd_slots (dealer_of p))"
  unfolding dealer_of_def by (rule ring_pass_subset)

lemma topUp_season:
  assumes "season_tile p (tf_pooled fr) tile" and "set (programme_keys tile) \<subseteq> set taken" and "frame_of_deck p fr"
  shows "season_tile p (tf_pooled fr) (topUp draw p fr tile taken short n)"
  unfolding season_tile_def
proof
  show "fresh_tile (tf_pooled fr) (topUp draw p fr tile taken short n)"
    using topUp_fresh assms by (simp add: season_tile_def)
  show "set (topUp draw p fr tile taken short n) \<subseteq> set (dd_slots (dealer_of p))"
  proof
    fix s assume "s \<in> set (topUp draw p fr tile taken short n)"
    from topUp_slots [OF this] assms(1,3) pass_of_deck [of draw p]
    show "s \<in> set (dd_slots (dealer_of p))" unfolding season_tile_def frame_of_deck_def by blast
  qed
qed

lemma tile_without_season:
  assumes "season_tile p (tf_pooled fr) tile" and "frame_of_deck p fr"
  shows "season_tile p (tf_pooled fr) (tile_without draw p fr need a dropped soon tile)"
proof -
  define without where "without = filter (\<lambda>s. \<not> (IsProgram s \<and> unitKey s = soon)) tile"
  have "season_tile p (tf_pooled fr) without"
    using assms(1) fresh_tile_filter [of "tf_pooled fr" tile "\<lambda>s. \<not> (IsProgram s \<and> unitKey s = soon)"]
    by (auto simp: season_tile_def without_def)
  then show ?thesis using topUp_season [OF _ _ assms(2)]
    unfolding tile_without_def without_def [symmetric] Let_def by auto
qed

text \<open>The turns of the loop that settles a tile, and induction over them.\<close>

lemma settle_turn:
  assumes "arrange draw p tile (tf_v fr) = Some arranged"
    and "too_soon (tf_airedAt fr) a (tf_spacing fr) (programme_keys tile) kept 0 arranged = Some (soon, short)"
    and "without = tile_without draw p fr need a (soon # dropped) soon tile"
  shows "loops_sooner draw p fr need tile without = None \<Longrightarrow> settle_loop draw p fr need a dropped kept held tile = None"
    and "loops_sooner draw p fr need tile without = Some False \<Longrightarrow>
      settle_loop draw p fr need a dropped kept held tile = settle_loop draw p fr need a (soon # dropped) kept held without"
    and "loops_sooner draw p fr need tile without = Some True \<Longrightarrow> holdLater tile soon short = Some later \<Longrightarrow> held < length tile \<Longrightarrow>
      settle_loop draw p fr need a dropped kept held tile = settle_loop draw p fr need a (soon # dropped) kept (held + 1) later"
    and "loops_sooner draw p fr need tile without = Some True \<Longrightarrow> holdLater tile soon short = None \<or> \<not> held < length tile \<Longrightarrow>
      settle_loop draw p fr need a dropped kept held tile = settle_loop draw p fr need a (soon # dropped) (soon # kept) held tile"
  using assms by (subst settle_loop.simps, auto split: option.split)+

lemma settle_finished:
  assumes "arrange draw p tile (tf_v fr) = Some arranged"
    and "too_soon (tf_airedAt fr) a (tf_spacing fr) (programme_keys tile) kept 0 arranged = None"
  shows "settle_loop draw p fr need a dropped kept held tile = Some (tile, kept)"
  using assms by (subst settle_loop.simps) simp

lemma settle_stuck: "arrange draw p tile (tf_v fr) = None \<Longrightarrow> settle_loop draw p fr need a dropped kept held tile = None"
  by (subst settle_loop.simps) simp

lemma arrange_near: "arrange draw p tile w = None \<Longrightarrow> may_fail draw p w"
  using arrangeTile_fails_far [of draw p w tile] by (auto simp: arrange_def split: if_splits)

lemma loops_sooner_near: "loops_sooner draw p fr need tile without = None \<Longrightarrow> may_fail draw p (tf_v fr)"
  using arrange_near by (auto simp: loops_sooner_def split: if_splits)

text \<open>
  Settling ends near a season. A fresh tile stays fresh, and as it really airs, each of its units but
  those kept in place has rested.
\<close>

lemma settle_loop_settles:
  "frame_of_deck p fr \<Longrightarrow> season_tile p (tf_pooled fr) tile \<Longrightarrow>
   (case settle_loop draw p fr need a dropped kept held tile of
      None \<Rightarrow> may_fail draw p (tf_v fr)
    | Some (tile', kept') \<Rightarrow>
        season_tile p (tf_pooled fr) tile' \<and>
        (\<exists>arranged. arrange draw p tile' (tf_v fr) = Some arranged \<and>
           too_soon (tf_airedAt fr) a (tf_spacing fr) (programme_keys tile') kept' 0 arranged = None))"
proof (induction draw p fr need a dropped kept held tile rule: settle_loop.induct)
  case (1 draw p fr need a dropped kept held tile)
  show ?case
  proof (cases "arrange draw p tile (tf_v fr)")
    case None
    then show ?thesis using arrange_near by (simp add: settle_stuck)
  next
    case ar: (Some arranged)
    show ?thesis
    proof (cases "too_soon (tf_airedAt fr) a (tf_spacing fr) (programme_keys tile) kept 0 arranged")
      case None
      then show ?thesis using "1.prems" ar by (simp add: settle_finished)
    next
      case (Some ss)
      obtain soon short where ss: "ss = (soon, short)" by (cases ss)
      define without where "without = tile_without draw p fr need a (soon # dropped) soon tile"
      note turn = settle_turn [OF ar Some [unfolded ss] without_def]
      note ih = "1.IH" [OF ar Some ss [symmetric], folded without_def]
      show ?thesis
      proof (cases "loops_sooner draw p fr need tile without")
        case None
        then show ?thesis using loops_sooner_near turn(1) by simp
      next
        case sooner: (Some sooner)
        show ?thesis
        proof (cases "sooner \<and> holdLater tile soon short \<noteq> None \<and> held < length tile")
          case True
          then obtain later where later: "holdLater tile soon short = Some later" "held < length tile" "sooner" by auto
          then show ?thesis
            using ih(2) [OF sooner _ later(1)] "1.prems" season_tile_mset [OF holdLater_units [OF later(1)]]
              turn(3) [OF _ later(1,2)] sooner by simp
        next
          case False
          show ?thesis
          proof (cases sooner)
            case True
            then have keep: "holdLater tile soon short = None \<or> \<not> held < length tile" using False by blast
            then show ?thesis
              using ih(1,3) [OF sooner] "1.prems" turn(4) [OF _ keep] sooner True by (cases "holdLater tile soon short") auto
          next
            case False
            then show ?thesis
              using ih(4) [OF sooner] "1.prems" turn(2) sooner tile_without_season by (simp add: without_def)
          qed
        qed
      qed
    qed
  qed
qed

lemma settle_settles:
  assumes "frame_of_deck p fr" and "season_tile p (tf_pooled fr) tile"
  shows "case settle draw p fr need a tile of None \<Rightarrow> may_fail draw p (tf_v fr) | Some tile' \<Rightarrow> season_tile p (tf_pooled fr) tile'"
  using settle_loop_settles [OF assms, where draw = draw and need = need and a = a and dropped = "[]" and kept = "[]" and held = 0]
  by (auto simp: settle_def split: option.splits)

text \<open>What the deal of a window keeps: a season's tile of taken units, and units of the deck and not the pool to come later.\<close>

definition deal_ok :: "holidayPlanner \<Rightarrow> string list \<Rightarrow> dealState \<Rightarrow> bool" where
  "deal_ok p pool st \<longleftrightarrow>
     season_tile p pool (ds_tile st) \<and> set (programme_keys (ds_tile st)) \<subseteq> set (ds_taken st) \<and>
     set (ds_owed st) \<subseteq> set (dd_slots (dealer_of p))"

definition later_ok :: "holidayPlanner \<Rightarrow> string list \<Rightarrow> Slot list \<Rightarrow> bool" where
  "later_ok p pool ss \<longleftrightarrow> list_all (\<lambda>s. unitKey s \<notin> set pool) ss \<and> set ss \<subseteq> set (dd_slots (dealer_of p))"

lemma keep_slot_ok:
  "deal_ok p pool st \<Longrightarrow> unitKey s \<notin> set pool \<Longrightarrow> unitKey s \<notin> set (ds_taken st) \<Longrightarrow> s \<in> set (dd_slots (dealer_of p)) \<Longrightarrow>
   deal_ok p pool (keep_slot s st)"
  by (auto simp: deal_ok_def keep_slot_def season_tile_def fresh_tile_def programme_keys_def)

lemma deal_slots_ok:
  assumes "deal_ok p pool st \<and> later_ok p pool (ds_later st)" and "set ss \<subseteq> set (dd_slots (dealer_of p))"
  shows "deal_ok p pool (foldl (deal_slot pool airedAt a spacing need) st ss) \<and>
    later_ok p pool (ds_later (foldl (deal_slot pool airedAt a spacing need) st ss))"
  using assms
proof (induction ss arbitrary: st)
  case (Cons s ss)
  have "deal_ok p pool (deal_slot pool airedAt a spacing need st s) \<and> later_ok p pool (ds_later (deal_slot pool airedAt a spacing need st s))"
  proof (cases "IsProgram s \<and> unitKey s \<notin> set pool \<and> unitKey s \<notin> set (ds_taken st)")
    case True
    then show ?thesis using Cons.prems keep_slot_ok [of p pool st s]
      by (simp add: deal_slot_def) (simp add: deal_ok_def later_ok_def keep_slot_def)
  next
    case False
    then show ?thesis using Cons.prems
      by (auto simp: deal_slot_def deal_ok_def season_tile_def fresh_tile_def programme_keys_def)
  qed
  then show ?case using Cons by simp
qed simp

lemma deal_laters_ok:
  "deal_ok p pool st \<Longrightarrow> later_ok p pool ss \<Longrightarrow>
   deal_ok p pool (foldl (deal_later draw p v last_window airedAt a spacing need) st ss)"
proof (induction ss arbitrary: st)
  case (Cons s ss)
  then have "deal_ok p pool (deal_later draw p v last_window airedAt a spacing need st s)"
    using keep_slot_ok [of p pool st s] by (simp add: deal_later_def later_ok_def Let_def)
  then show ?case using Cons by (simp add: later_ok_def)
qed simp

lemma tile_of_deck: "set (ring_tile draw (hp_ring p) w) \<subseteq> set (dd_slots (dealer_of p))"
  unfolding dealer_of_def by (rule ring_tile_subset)

lemma deal_window_ok:
  assumes "set (si_owed st) \<subseteq> set (dd_slots (dealer_of p))"
  shows "deal_ok p (pooled p v) (deal_window draw p last_window st v)"
proof -
  define d0 where "d0 = \<lparr>ds_tile = [], ds_later = [], ds_taken = [], ds_acc = 0, ds_n = 0, ds_owed = si_owed st, ds_owing = si_owing st\<rparr>"
  have "deal_ok p (pooled p v) d0 \<and> later_ok p (pooled p v) (ds_later d0)"
    using assms by (simp add: d0_def deal_ok_def later_ok_def season_tile_def fresh_tile_def programme_keys_def)
  from deal_slots_ok [OF this tile_of_deck] show ?thesis
    unfolding deal_window_def Let_def d0_def [symmetric] by (auto intro: deal_laters_ok)
qed

lemma window_tile_ok:
  assumes "set (si_owed st) \<subseteq> set (dd_slots (dealer_of p))"
  shows "case window_tile draw p last_window st v (deal_window draw p last_window st v) of
     None \<Rightarrow> may_fail draw p v | Some tile \<Rightarrow> season_tile p (pooled p v) tile"
proof -
  define d where "d = deal_window draw p last_window st v"
  define fr where "fr = sim_frame draw p last_window st v d"
  have d: "season_tile p (pooled p v) (ds_tile d)" "set (programme_keys (ds_tile d)) \<subseteq> set (ds_taken d)"
    and owed: "set (ds_owed d) \<subseteq> set (dd_slots (dealer_of p))"
    using deal_window_ok [OF assms] by (simp_all add: d_def deal_ok_def)
  have fr: "tf_pooled fr = pooled p v" "tf_v fr = v" "frame_of_deck p fr"
    using owed by (simp_all add: fr_def sim_frame_def frame_of_deck_def)
  define tile where "tile = (if ds_acc d < window_need p v
    then topUp draw p fr (ds_tile d) (ds_taken d) (window_need p v - ds_acc d) (si_a st + ds_n d) else ds_tile d)"
  have "season_tile p (tf_pooled fr) tile" using topUp_season [of p fr "ds_tile d" "ds_taken d"] d fr by (simp add: tile_def)
  from settle_settles [OF fr(3) this] show ?thesis
    unfolding window_tile_def Let_def d_def [symmetric] fr_def [symmetric] tile_def [symmetric] fr .
qed

lemma record_window_run [simp]: "si_run (record_window p arranged st) = si_run st"
  by (simp add: record_window_def split_def Let_def)

lemma simulate_window_ok:
  assumes "set (si_owed st) \<subseteq> set (dd_slots (dealer_of p))"
  shows "case simulate_window draw p last_window st v of
     None \<Rightarrow> may_fail draw p v
   | Some st' \<Rightarrow> set (si_owed st') \<subseteq> set (dd_slots (dealer_of p)) \<and>
       (\<exists>tile. si_run st' = (si_run st)(v \<mapsto> tile) \<and> season_tile p (pooled p v) tile)"
  using window_tile_ok [OF assms, where draw = draw and last_window = last_window and v = v] arrange_near
    deal_window_ok [OF assms, where draw = draw and last_window = last_window and v = v]
  by (auto simp: simulate_window_def deal_ok_def Let_def split: option.split)

lemma simulate_windows_ok:
  "distinct vs \<Longrightarrow> set (si_owed st) \<subseteq> set (dd_slots (dealer_of p)) \<Longrightarrow>
   case simulate_windows draw p last_window st vs of
     None \<Rightarrow> list_ex (may_fail draw p) vs
   | Some st' \<Rightarrow>
       (\<forall>v. v \<notin> set vs \<longrightarrow> si_run st' v = si_run st v) \<and>
       list_all (\<lambda>v. case si_run st' v of None \<Rightarrow> False | Some tile \<Rightarrow> season_tile p (pooled p v) tile) vs"
proof (induction vs arbitrary: st)
  case (Cons v vs)
  note window = simulate_window_ok [OF Cons.prems(2), where draw = draw and last_window = last_window and v = v]
  show ?case
  proof (cases "simulate_window draw p last_window st v")
    case None
    then show ?thesis using window by simp
  next
    case (Some st')
    then obtain tile where "si_run st' = (si_run st)(v \<mapsto> tile)" "season_tile p (pooled p v) tile"
      and "set (si_owed st') \<subseteq> set (dd_slots (dealer_of p))"
      using window by auto
    then show ?thesis using Cons.IH [of st'] Cons.prems Some by (auto split: option.splits)
  qed
qed simp

lemma preroll_near: "preroll draw p st vs = None \<Longrightarrow> list_ex (may_fail draw p) vs"
proof (induction vs arbitrary: st)
  case (Cons v vs)
  then show ?case using arrangeTile_fails_far [of draw p v "ring_tile draw (hp_ring p) v"] by (auto split: option.splits)
qed simp

lemma preroll_owed: "preroll draw p st vs = Some st' \<Longrightarrow> si_owed st' = si_owed st"
  by (induction vs arbitrary: st) (auto simp: record_window_def split_def Let_def split: option.splits)

lemma simulate_tiles:
  "(list_ex (may_fail draw p) (seed_windows draw p anchor @ [anchor..last_window]) \<or>
    (\<exists>run. simulate draw p anchor last_window = Some run)) \<and>
   (case simulate draw p anchor last_window of
      None \<Rightarrow> True
    | Some run \<Rightarrow>
        list_all (\<lambda>v. case run v of None \<Rightarrow> False | Some tile \<Rightarrow> season_tile p (pooled p v) tile) [anchor..last_window])"
proof (cases "preroll draw p sim_start (seed_windows draw p anchor)")
  case None
  then show ?thesis using preroll_near [OF None] by (simp add: simulate_def)
next
  case (Some st)
  have "distinct [anchor..last_window]" by simp
  moreover have "set (si_owed st) \<subseteq> set (dd_slots (dealer_of p))" using preroll_owed [OF Some] by (simp add: sim_start_def)
  ultimately have "case simulate_windows draw p last_window st [anchor..last_window] of
      None \<Rightarrow> list_ex (may_fail draw p) [anchor..last_window]
    | Some st' \<Rightarrow> (\<forall>v. v \<notin> set [anchor..last_window] \<longrightarrow> si_run st' v = si_run st v) \<and>
        list_all (\<lambda>v. case si_run st' v of None \<Rightarrow> False | Some tile \<Rightarrow> season_tile p (pooled p v) tile) [anchor..last_window]"
    by (rule simulate_windows_ok)
  then show ?thesis using Some by (auto simp: simulate_def split: option.splits)
qed

lemma preroll_run: "preroll draw p st vs = Some st' \<Longrightarrow> si_run st' = si_run st"
  by (induction vs arbitrary: st) (auto split: option.splits)

lemma simulate_run:
  assumes "simulate draw p anchor last_window = Some run" and "run v = Some tile"
  shows "season_tile p (pooled p v) tile"
proof (cases "v \<in> set [anchor..last_window]")
  case True
  then show ?thesis using simulate_tiles [of draw p anchor last_window] assms by (auto simp: list_all_iff split: option.splits)
next
  case False
  obtain st st' where st: "preroll draw p sim_start (seed_windows draw p anchor) = Some st"
    "simulate_windows draw p last_window st [anchor..last_window] = Some st'" "run = si_run st'"
    using assms(1) by (auto simp: simulate_def split: option.splits)
  have "si_owed st = []" "si_run st = Map.empty" using preroll_owed [OF st(1)] preroll_run [OF st(1)] by (simp_all add: sim_start_def)
  then have "si_run st' v = None"
    using simulate_windows_ok [of "[anchor..last_window]" st p, where draw = draw and last_window = last_window] st(2) False by simp
  then show ?thesis using st(3) assms(2) by simp
qed

text \<open>
  C33. The simulation of a season returns when every window it walks is near a season, and then every
  window of the season has a tile of units of the channel's deck that repeats no unit and airs none of the
  window's own holiday episodes, whatever was topped up, held back or dropped on the way.
\<close>

theorem simulate_season_tiles:
  "(list_ex (farFromSeason draw p) (seed_windows draw p anchor @ [anchor..last_window]) \<or>
    (\<exists>run. simulate draw p anchor last_window = Some run)) \<and>
   (case simulate draw p anchor last_window of
      None \<Rightarrow> True
    | Some run \<Rightarrow>
        list_all (\<lambda>v. case run v of None \<Rightarrow> False | Some tile \<Rightarrow> season_tile p (pooled p v) tile) [anchor..last_window])"
  using simulate_tiles [of draw p anchor last_window] by (auto simp: list_ex_iff may_fail_def)

end
