(* ===== verification/Season_Tiles.thy ===== *)
theory Season_Tiles
  imports Season_Simulate
begin

text \<open>
  What a window airs of its deal, \<^verbatim>\<open>tile\<close>, \<^verbatim>\<open>fitted\<close> and \<^verbatim>\<open>handOff\<close> of
  \<^verbatim>\<open>internal/schedule/seasonal_boost.go\<close>: the season simulation's tile in and just after a season, the
  hand-off's in the windows after that, the repaired deal for a deck that fits one window, and the
  dealer's own tile everywhere else.

  \<open>tile\<close> calls itself for earlier windows, through \<open>fitted\<close> and \<open>handOffRun\<close>. \<open>tile_fuel n\<close> is what it
  returns within \<open>n\<close> nested calls, \<open>None\<close> when it needs more or an \<open>arrange\<close> does not return. The shared
  memo tables of runs are left out: each holds what the function returns.

  The lemmas show that more fuel never changes an answer, that two calls are enough for a deck wider
  than its window, that no tile repeats a unit of its deal, and that a deck that fits one window needs as
  many nested calls as its season has windows, so that a season without end never returns.
\<close>

section \<open>The hand-off of a season to the dealer\<close>

definition seasonLookback :: duration where
  "seasonLookback = 120 * 24 * hour"

definition sameProgrammes :: "Slot list \<Rightarrow> Slot list \<Rightarrow> bool" where
  "sameProgrammes a b \<longleftrightarrow> programme_keys a = programme_keys b"

text \<open>Each unit's last airing among some programmes, and how many there are.\<close>

definition last_airings :: "Slot list \<Rightarrow> airing_index \<times> int" where
  "last_airings slots = foldl (\<lambda>(m, i) key. (m(key \<mapsto> i), i + 1)) (Map.empty, 0) (programme_keys slots)"

fun owed_from :: "int \<Rightarrow> airing_index \<Rightarrow> int \<Rightarrow> int \<Rightarrow> (string \<rightharpoonup> int) \<Rightarrow> string list \<Rightarrow> (string \<rightharpoonup> int)" where
  "owed_from spacing lastAt n i owed [] = owed"
| "owed_from spacing lastAt n i owed (key # keys) =
     owed_from spacing lastAt n (i + 1)
       (if owed key = None
        then owed(key \<mapsto> (case lastAt key of None \<Rightarrow> spacing | Some lst \<Rightarrow> min spacing (n + i - lst))) else owed) keys"

definition owedRest :: "random_draw \<Rightarrow> holidayPlanner \<Rightarrow> Slot list \<Rightarrow> Slot list \<Rightarrow> (string \<rightharpoonup> int)" where
  "owedRest draw p dealtPrev arranged =
     (let (lastAt, n) = last_airings dealtPrev
      in owed_from (spacingProgrammes draw p) lastAt n 0 Map.empty
           (programme_keys (loopedWindow arranged (milliseconds (hp_window p)))))"

definition owedOr :: "(string \<rightharpoonup> int) \<Rightarrow> string \<Rightarrow> int \<Rightarrow> int" where
  "owedOr owed key def = (case owed key of None \<Rightarrow> def | Some r \<Rightarrow> r)"

fun programme_starts :: "int \<Rightarrow> Slot list \<Rightarrow> int list" where
  "programme_starts ms [] = []"
| "programme_starts ms (s # ss) =
     (if IsProgram s then ms # programme_starts (ms + s_DurationMs s) ss else programme_starts ms ss)"

text \<open>The releases of a turn, the last one set first.\<close>

fun rest_releases ::
  "airing_index \<Rightarrow> (string \<rightharpoonup> int) \<Rightarrow> int \<Rightarrow> int \<Rightarrow> int list \<Rightarrow> int \<Rightarrow> int \<Rightarrow> (string \<times> int) list \<Rightarrow> Slot list \<Rightarrow> (string \<times> int) list" where
  "rest_releases airedAt owed spacing n starts whole i release [] = release"
| "rest_releases airedAt owed spacing n starts whole i release (s # ss) =
     (if \<not> IsProgram s then rest_releases airedAt owed spacing n starts whole i release ss
      else case airedAt (unitKey s) of
             None \<Rightarrow> rest_releases airedAt owed spacing n starts whole (i + 1) release ss
           | Some lst \<Rightarrow>
               (let slot = lst + owedOr owed (unitKey s) spacing - n;
                    release_at = (if slot < int (length starts) then starts ! nat slot else whole + 1)
                in rest_releases airedAt owed spacing n starts whole (i + 1)
                     (if slot > i then (s_LibraryItemID s, release_at) # release else release) ss))"

fun hold_rounds :: "nat \<Rightarrow> airing_index \<Rightarrow> int \<Rightarrow> (string \<rightharpoonup> int) \<Rightarrow> int \<Rightarrow> Slot list \<Rightarrow> Slot list" where
  "hold_rounds 0 airedAt n owed spacing tile = tile"
| "hold_rounds (Suc k) airedAt n owed spacing tile =
     (let release = rest_releases airedAt owed spacing n (programme_starts 0 tile) (programRuntime tile) 0 [] tile;
          held = holdBack tile (map_of release)
      in if release = [] \<or> sameProgrammes held tile then held
         else hold_rounds k airedAt n owed spacing held)"

definition holdUntilRested :: "random_draw \<Rightarrow> holidayPlanner \<Rightarrow> Slot list \<Rightarrow> Slot list \<Rightarrow> (string \<rightharpoonup> int) \<Rightarrow> Slot list" where
  "holdUntilRested draw p prev tile owed =
     (let (airedAt, n) = last_airings prev in hold_rounds (length tile) airedAt n owed (spacingProgrammes draw p) tile)"

text \<open>How a unit of the pass would do in a slot: its tier and how far it rests, or nothing when it may not air there.\<close>

definition rate_substitute ::
  "random_draw \<Rightarrow> holidayPlanner \<Rightarrow> airing_index \<Rightarrow> string list \<Rightarrow> int \<Rightarrow> int \<Rightarrow> Slot \<Rightarrow> (int \<times> int) option" where
  "rate_substitute draw p airedAt here spot u c =
     (let key = unitKey c; spacing = spacingProgrammes draw p;
          past = (case airedAt key of None \<Rightarrow> max_int64 | Some lst \<Rightarrow> spot - lst);
          future = foldl (\<lambda>m q. min m (q - u)) max_int64 (filter (\<lambda>q. q > u) (ring_airings draw (hp_ring p) key (u + 1)))
      in if key \<in> set here \<or> holiday_unit p c then None
         else if past < spacing then None
         else if future \<ge> spacing then Some (0, min past future) else Some (1, future))"

fun better_substitute :: "Slot \<Rightarrow> (int \<times> int) option \<Rightarrow> (Slot \<times> int \<times> int) option \<Rightarrow> (Slot \<times> int \<times> int) option" where
  "better_substitute c None best = best"
| "better_substitute c (Some (tier, reach)) None = Some (c, tier, reach)"
| "better_substitute c (Some (tier, reach)) (Some (b, best_tier, best_reach)) =
     (if tier < best_tier \<or> tier = best_tier \<and> reach > best_reach then Some (c, tier, reach) else Some (b, best_tier, best_reach))"

definition best_substitute ::
  "random_draw \<Rightarrow> holidayPlanner \<Rightarrow> airing_index \<Rightarrow> string list \<Rightarrow> int \<Rightarrow> int \<Rightarrow> Slot list \<Rightarrow> Slot option" where
  "best_substitute draw p airedAt here spot u pass =
     map_option fst (foldl (\<lambda>best c. better_substitute c (rate_substitute draw p airedAt here spot u c) best) None pass)"

text \<open>\<open>n\<close> programmes aired before the tile, whose slots are counted from \<open>start\<close> in the ring.\<close>

fun substitute_loop ::
  "random_draw \<Rightarrow> holidayPlanner \<Rightarrow> (string \<rightharpoonup> int) \<Rightarrow> Slot list \<Rightarrow> int \<Rightarrow> int \<Rightarrow> int \<Rightarrow> airing_index \<Rightarrow> string list \<Rightarrow> Slot list \<Rightarrow> Slot list" where
  "substitute_loop draw p owed pass n start i airedAt here [] = []"
| "substitute_loop draw p owed pass n start i airedAt here (s # ss) =
     (if \<not> IsProgram s then s # substitute_loop draw p owed pass n start i airedAt here ss
      else let key = unitKey s; spot = n + i;
               rested = (case airedAt key of None \<Rightarrow> True | Some lst \<Rightarrow> spot - lst \<ge> owedOr owed key (spacingProgrammes draw p))
           in if rested \<or> holiday_unit p s
              then s # substitute_loop draw p owed pass n start (i + 1) (airedAt(key \<mapsto> spot)) here ss
              else case best_substitute draw p airedAt here spot (start + i) pass of
                     None \<Rightarrow> s # substitute_loop draw p owed pass n start (i + 1) (airedAt(key \<mapsto> spot)) here ss
                   | Some c \<Rightarrow>
                       c # substitute_loop draw p owed pass n start (i + 1) (airedAt(unitKey c \<mapsto> spot))
                             (unitKey c # removeAll key here) ss)"

definition substitute :: "random_draw \<Rightarrow> holidayPlanner \<Rightarrow> Slot list \<Rightarrow> Slot list \<Rightarrow> int \<Rightarrow> (string \<rightharpoonup> int) \<Rightarrow> Slot list" where
  "substitute draw p prev tile v owed =
     (let (airedAt, n) = last_airings prev;
          pass = ring_pass draw (hp_ring p) (fst (ring_locate (hp_ring p) (v * stride_of p)))
      in substitute_loop draw p owed pass n (v * stride_of p) 0 airedAt (map unitKey tile) tile)"

text \<open>The units of \<open>tile\<close> in the order \<open>arranged\<close> airs them, then the ones it does not air.\<close>

fun in_order :: "string list \<Rightarrow> Slot list \<Rightarrow> Slot list" where
  "in_order left [] = []"
| "in_order left (s # ss) =
     (if unitKey s \<in> set left then s # in_order (removeAll (unitKey s) left) ss else in_order left ss)"

definition repairArranged :: "holidayPlanner \<Rightarrow> Slot list \<Rightarrow> Slot list \<Rightarrow> Slot list \<Rightarrow> Slot list" where
  "repairArranged p prev tile arranged =
     (let order = in_order (map unitKey tile) arranged
      in repairSeam prev (order @ filter (\<lambda>s. unitKey s \<notin> unitKey ` set order) tile) (dd_spacing (dealer_of p)))"

record handOffState =
  ho_aired :: "Slot list list"
  ho_dealt :: "Slot list list"
  ho_off :: "bool list"
  ho_run :: "int \<rightharpoonup> Slot list"

text \<open>The windows up to the season's last decided one, as \<open>tile_of\<close> has them and as the dealer alone has them.\<close>

fun hand_off_seed ::
  "(int \<Rightarrow> Slot list \<Rightarrow> Slot list option) \<Rightarrow> random_draw \<Rightarrow> holidayPlanner \<Rightarrow> handOffState \<Rightarrow> int list \<Rightarrow> handOffState option" where
  "hand_off_seed tile_of draw p st [] = Some st"
| "hand_off_seed tile_of draw p st (v # vs) =
     (let dealt = ring_tile draw (hp_ring p) v
      in case tile_of v dealt of
           None \<Rightarrow> None
         | Some t \<Rightarrow>
             (case arrange draw p t v of
                None \<Rightarrow> None
              | Some a \<Rightarrow>
                  (case arrangeTile draw p dealt v of
                     None \<Rightarrow> None
                   | Some d \<Rightarrow>
                       hand_off_seed tile_of draw p
                         (st\<lparr>ho_aired := ho_aired st @ [a], ho_dealt := ho_dealt st @ [d],
                             ho_off := ho_off st @ [\<not> sameProgrammes a d]\<rparr>) vs)))"

definition looped_windows :: "holidayPlanner \<Rightarrow> Slot list list \<Rightarrow> Slot list" where
  "looped_windows p windows = concat (map (\<lambda>w. loopedWindow w (milliseconds (hp_window p))) windows)"

definition hand_off_tile :: "random_draw \<Rightarrow> holidayPlanner \<Rightarrow> handOffState \<Rightarrow> int \<Rightarrow> Slot list \<Rightarrow> Slot list" where
  "hand_off_tile draw p st v arranged =
     (let prev = looped_windows p (ho_aired st); owed = owedRest draw p (looped_windows p (ho_dealt st)) arranged
      in substitute draw p prev (holdUntilRested draw p prev arranged owed) v owed)"

fun hand_off_loop :: "random_draw \<Rightarrow> holidayPlanner \<Rightarrow> handOffState \<Rightarrow> int list \<Rightarrow> handOffState option" where
  "hand_off_loop draw p st [] = Some st"
| "hand_off_loop draw p st (v # vs) =
     (if True \<notin> set (ho_off st) then Some st
      else case arrangeTile draw p (ring_tile draw (hp_ring p) v) v of
             None \<Rightarrow> None
           | Some arranged \<Rightarrow>
               (let tile = hand_off_tile draw p st v arranged
                in hand_off_loop draw p
                     \<lparr>ho_aired = tl (ho_aired st) @ [tile], ho_dealt = tl (ho_dealt st) @ [arranged],
                      ho_off = tl (ho_off st) @ [\<not> sameProgrammes tile arranged], ho_run = (ho_run st)(v \<mapsto> tile)\<rparr> vs))"

definition no_hand_off :: handOffState where
  "no_hand_off = \<lparr>ho_aired = [], ho_dealt = [], ho_off = [], ho_run = Map.empty\<rparr>"

definition handOffRun ::
  "(int \<Rightarrow> Slot list \<Rightarrow> Slot list option) \<Rightarrow> random_draw \<Rightarrow> holidayPlanner \<Rightarrow> int \<Rightarrow> (int \<rightharpoonup> Slot list) option" where
  "handOffRun tile_of draw p start =
     (case hand_off_seed tile_of draw p no_hand_off [start - spacingWindows p + 1..start] of
        None \<Rightarrow> None
      | Some st \<Rightarrow> map_option ho_run (hand_off_loop draw p st [start + 1..start + handOffReach draw p]))"

definition handOff ::
  "(int \<Rightarrow> Slot list \<Rightarrow> Slot list option) \<Rightarrow> random_draw \<Rightarrow> holidayPlanner \<Rightarrow> int \<Rightarrow> int \<Rightarrow> Slot list \<Rightarrow> Slot list option" where
  "handOff tile_of draw p start w dealt =
     (case handOffRun tile_of draw p start of
        None \<Rightarrow> None
      | Some run \<Rightarrow> (case run w of Some tile \<Rightarrow> Some tile | None \<Rightarrow> arrangeTile draw p dealt w))"

section \<open>The tile of a window\<close>

definition fitted ::
  "(int \<Rightarrow> Slot list \<Rightarrow> Slot list option) \<Rightarrow> random_draw \<Rightarrow> holidayPlanner \<Rightarrow> int \<Rightarrow> Slot list \<Rightarrow> Slot list option" where
  "fitted tile_of draw p w dealt =
     (let tile = filter (\<lambda>s. unitKey s \<notin> set (pooled p w)) dealt
      in case tile_of (w - 1) (ring_tile draw (hp_ring p) (w - 1)) of
           None \<Rightarrow> None
         | Some before \<Rightarrow>
             (case arrange draw p before (w - 1) of
                None \<Rightarrow> None
              | Some prev \<Rightarrow>
                  (case arrangeTile draw p tile w of
                     None \<Rightarrow> None
                   | Some arranged \<Rightarrow>
                       Some (repairArranged p (loopedWindow prev (milliseconds (hp_window p))) tile arranged))))"

text \<open>The first window of the season that \<open>lst\<close> is in, and the last window its simulation decides.\<close>

function anchor_from :: "holidayPlanner \<Rightarrow> int \<Rightarrow> int \<Rightarrow> int \<Rightarrow> int \<Rightarrow> int" where
  "anchor_from p h floor_at anchor v =
     (if v \<ge> anchor - h - 1 \<and> v > floor_at
      then anchor_from p h floor_at (if pooled p v \<noteq> [] then v else anchor) (v - 1) else anchor)"
  by pat_completeness auto

termination anchor_from
  by (relation "measure (\<lambda>(p, h, floor_at, anchor, v). nat (v - floor_at))") auto

declare anchor_from.simps [simp del]

function end_from :: "holidayPlanner \<Rightarrow> int \<Rightarrow> int \<Rightarrow> int \<Rightarrow> int \<Rightarrow> int" where
  "end_from p h ceiling_at last_window v =
     (if v \<le> last_window \<and> v < ceiling_at
      then end_from p h ceiling_at (if pooled p v \<noteq> [] then v + h else last_window) (v + 1) else last_window)"
  by pat_completeness auto

termination end_from
  by (relation "measure (\<lambda>(p, h, ceiling_at, last_window, v). nat (ceiling_at - v))") auto

declare end_from.simps [simp del]

definition season_anchor :: "random_draw \<Rightarrow> holidayPlanner \<Rightarrow> int \<Rightarrow> int" where
  "season_anchor draw p w =
     (let lst = lastInSeason draw p w
      in anchor_from p (horizon draw p) (w - seasonLookback sdiv hp_window p) lst (lst - 1))"

definition season_end :: "random_draw \<Rightarrow> holidayPlanner \<Rightarrow> int \<Rightarrow> int" where
  "season_end draw p w =
     (let lst = lastInSeason draw p w
      in end_from p (horizon draw p) (w + seasonLookback sdiv hp_window p) (lst + horizon draw p) (lst + 1))"

definition deck_fits :: "holidayPlanner \<Rightarrow> bool" where
  "deck_fits p \<longleftrightarrow> programRuntime (hp_deck p) \<le> milliseconds (hp_window p)"

text \<open>A window the simulation does not reach reads as Go's missing entry, no tile.\<close>

definition tile_at :: "(int \<rightharpoonup> Slot list) \<Rightarrow> int \<Rightarrow> Slot list" where
  "tile_at run w = (case run w of None \<Rightarrow> [] | Some tile \<Rightarrow> tile)"

text \<open>\<^verbatim>\<open>tile\<close>, with \<open>tile_of\<close> for its calls to itself.\<close>

definition tile_with ::
  "(int \<Rightarrow> Slot list \<Rightarrow> Slot list option) \<Rightarrow> random_draw \<Rightarrow> holidayPlanner \<Rightarrow> int \<Rightarrow> Slot list \<Rightarrow> Slot list option" where
  "tile_with tile_of draw p w dealt =
     (let h = horizon draw p; lst = lastInSeason draw p w
      in if \<not> planner_on p \<or> stride_of p = 0 then Some dealt
         else if lst < w - h - handOffReach draw p then Some dealt
         else if lst < w - h then handOff tile_of draw p (lst + h) w dealt
         else if deck_fits p then fitted tile_of draw p w dealt
         else map_option (\<lambda>run. tile_at run w) (simulate draw p (season_anchor draw p w) (season_end draw p w)))"

fun tile_fuel :: "nat \<Rightarrow> random_draw \<Rightarrow> holidayPlanner \<Rightarrow> int \<Rightarrow> Slot list \<Rightarrow> Slot list option" where
  "tile_fuel 0 draw p w dealt = None"
| "tile_fuel (Suc n) draw p w dealt = tile_with (tile_fuel n draw p) draw p w dealt"

section \<open>More calls never change the answer\<close>

definition refines :: "(int \<Rightarrow> Slot list \<Rightarrow> Slot list option) \<Rightarrow> (int \<Rightarrow> Slot list \<Rightarrow> Slot list option) \<Rightarrow> bool" where
  "refines f g \<longleftrightarrow> (\<forall>v dealt tile. f v dealt = Some tile \<longrightarrow> g v dealt = Some tile)"

lemma hand_off_seed_refines:
  "refines f g \<Longrightarrow> hand_off_seed f draw p st vs = Some st' \<Longrightarrow> hand_off_seed g draw p st vs = Some st'"
proof (induction vs arbitrary: st)
  case (Cons v vs)
  define dealt where "dealt = ring_tile draw (hp_ring p) v"
  obtain t a d where t: "f v dealt = Some t" "arrange draw p t v = Some a" "arrangeTile draw p dealt v = Some d"
    using Cons.prems(2) by (auto simp: Let_def dealt_def split: option.splits)
  then have "g v dealt = Some t" using Cons.prems(1) by (simp add: refines_def)
  then show ?case using Cons t by (simp add: Let_def dealt_def [symmetric])
qed simp

lemma handOff_refines: "refines f g \<Longrightarrow> handOff f draw p start w dealt = Some tile \<Longrightarrow> handOff g draw p start w dealt = Some tile"
proof -
  assume fg: "refines f g" and tile: "handOff f draw p start w dealt = Some tile"
  then obtain st where st: "hand_off_seed f draw p no_hand_off [start - spacingWindows p + 1..start] = Some st"
    by (auto simp: handOff_def handOffRun_def split: option.splits)
  show ?thesis using hand_off_seed_refines [OF fg st] tile st by (simp add: handOff_def handOffRun_def)
qed

lemma fitted_refines: "refines f g \<Longrightarrow> fitted f draw p w dealt = Some tile \<Longrightarrow> fitted g draw p w dealt = Some tile"
  by (auto simp: fitted_def refines_def Let_def split: option.splits)

lemma tile_with_refines: "refines f g \<Longrightarrow> refines (tile_with f draw p) (tile_with g draw p)"
  using handOff_refines [of f g] fitted_refines [of f g] by (simp add: refines_def tile_with_def Let_def)

lemma tile_fuel_Suc: "refines (tile_fuel n draw p) (tile_fuel (Suc n) draw p)"
proof (induction n)
  case 0
  then show ?case by (simp add: refines_def)
next
  case (Suc n)
  have "tile_fuel (Suc k) draw p = tile_with (tile_fuel k draw p) draw p" for k by (rule ext)+ simp
  then show ?case using tile_with_refines [OF Suc, of draw p] by (metis (no_types))
qed

lemma tile_fuel_mono: "tile_fuel n draw p w dealt = Some tile \<Longrightarrow> n \<le> m \<Longrightarrow> tile_fuel m draw p w dealt = Some tile"
proof (induction m)
  case (Suc m)
  then show ?case using tile_fuel_Suc [of m draw p] by (cases "n = Suc m") (auto simp: refines_def)
qed simp

section \<open>A deck that fits one window\<close>

lemma spacingProgrammes_nonneg: "0 \<le> spacingProgrammes draw p"
proof -
  have "0 \<le> max m 1" and "0 \<le> max m 2" for m :: int by (simp_all add: max_def)
  then show ?thesis unfolding spacingProgrammes_def Let_def by (auto simp del: max.coboundedI1 split: if_split)
qed

lemma horizon_least: "0 < stride_of p \<Longrightarrow> 2 \<le> horizon draw p"
  using spacingProgrammes_nonneg [of draw p] by (simp add: horizon_def pos_imp_zdiv_nonneg_iff)

lemma lastInSeason_here: "pooled p w \<noteq> [] \<Longrightarrow> lastInSeason draw p w = w"
  by (simp add: lastInSeason_def last_from.simps [of p _ w])

text \<open>
  C35. A deck that fits one window is repaired against the window before as that really aired, which is
  repaired against the one before it, and so on back through the season: as many windows in season up to
  this one need more nested calls than there are windows. On a channel whose holiday never ends, which a
  rule of its own may say, no number is enough, and the planner recurses until the stack is full.
\<close>

theorem fitted_season_depth:
  assumes "planner_on p" and "0 < stride_of p" and "deck_fits p"
    and "\<forall>k\<in>{..<n}. pooled p (w - int k) \<noteq> []"
  shows "tile_fuel n draw p w dealt = None"
  using assms(4)
proof (induction n arbitrary: w dealt)
  case (Suc n)
  have season: "pooled p (w - int k) \<noteq> []" if "k < Suc n" for k using Suc.prems that by simp
  have "pooled p w \<noteq> []" using season [of 0] by simp
  then have here: "lastInSeason draw p w = w" by (rule lastInSeason_here)
  have "pooled p (w - 1 - int k) \<noteq> []" if "k < n" for k using season [of "Suc k"] that by (simp add: algebra_simps)
  then have "tile_fuel n draw p (w - 1) d = None" for d using Suc.IH by simp
  then have "fitted (tile_fuel n draw p) draw p w dealt = None" by (simp add: fitted_def)
  moreover have "2 \<le> horizon draw p" using horizon_least [OF assms(2)] .
  moreover have "0 \<le> handOffReach draw p" using \<open>2 \<le> horizon draw p\<close> by (simp add: handOffReach_def)
  ultimately show ?case using assms(1-3) by (simp add: tile_with_def here)
qed simp

lemma pooled_day: "n \<in> set (days p w) \<Longrightarrow> dp_pool (rawDay p n) \<noteq> [] \<Longrightarrow> pooled p w \<noteq> []"
  by (auto simp: pooled_def)

lemma sample_season:
  assumes "w = 20756 \<or> w = 20757"
  shows "pooled sample_planner w \<noteq> []"
proof -
  have utc: "hp_loc sample_planner = None" by (simp add: sample_planner_def newHolidayPlanner_def Let_def)
  have window: "hp_window sample_planner = day_ns" by (simp add: sample_planner_def newHolidayPlanner_def Let_def)
  have "opening_of sample_planner w = midnight (719162 + w)" using assms
    by (auto simp: opening_of_def windowOpening_def utc window midnight_def)
  moreover have "date_at sample_planner (opening_of sample_planner w) = 719162 + w" using assms
    by (auto simp: date_at_def opening_of_def windowOpening_def utc window wall_time_def day_index_def)
  moreover have "local_midnight sample_planner (719162 + w) = midnight (719162 + w)"
    by (simp add: local_midnight_def utc zone_instant_def)
  ultimately have "719162 + w \<in> set (days sample_planner w)"
    using days_run_dates [OF utc_midnights [OF utc]] by (simp add: closing_of_def window)
  moreover have "dp_pool (rawDay sample_planner 739918) \<noteq> []" "dp_pool (rawDay sample_planner 739919) \<noteq> []" by code_simp+
  ultimately show ?thesis using assms pooled_day by auto
qed

lemma fitted_season_depth_witness: "tile_fuel 2 (\<lambda>_ _ _. 0) sample_planner 20757 sample_deck = None"
proof (rule fitted_season_depth)
  show "planner_on sample_planner" "0 < stride_of sample_planner" "deck_fits sample_planner" by code_simp+
  show "\<forall>k\<in>{..<2}. pooled sample_planner (20757 - int k) \<noteq> []"
  proof
    fix k :: nat assume "k \<in> {..<2}"
    then have "k = 0 \<or> k = 1" by auto
    then show "pooled sample_planner (20757 - int k) \<noteq> []" using sample_season by auto
  qed
qed

section \<open>Every tile is of the deck\<close>

lemma pool_scan_subset: "set (pool_scan f ids seen ss) \<subseteq> set ss"
  by (induction f ids seen ss rule: pool_scan.induct) auto

lemma rawDay_pool_subset: "set (dp_pool (rawDay p n)) \<subseteq> set (hp_deck p)"
  using pool_scan_subset [of "hp_f p" "map ob_ID (active_on p n)" "[]" "hp_deck p"] by (auto simp: rawDay_def holidayPool_def Let_def)

lemma features_subset: "set (map ha_unit (features p w)) \<subseteq> set (hp_deck p)"
proof
  fix u assume "u \<in> set (map ha_unit (features p w))"
  then obtain n f where n: "f \<in> set (dp_features (day_plan p n))" "u = ha_unit f" by (auto simp: features_def)
  obtain k where "map ha_unit (dp_features (day_plan p n)) = take k (day_picks p n)" using features_units by blast
  then have "u \<in> set (day_picks p n)" using n in_set_takeD image_eqI [of u ha_unit f] by (metis list.set_map)
  then show "u \<in> set (hp_deck p)" using day_picks_spec [of p n] rawDay_pool_subset [of p n] by blast
qed

text \<open>The planner's deck is what its dealer deals.\<close>

definition deck_dealt :: "holidayPlanner \<Rightarrow> bool" where
  "deck_dealt p \<longleftrightarrow> set (hp_deck p) \<subseteq> set (dd_slots (dealer_of p))"

lemma newHolidayPlanner_dealt: "deck_dealt (newHolidayPlanner draw (newDealtRing draw d window origin) f window' cal factor)"
  by (simp add: deck_dealt_def newHolidayPlanner_def newDealtRing_def dealer_of_def set_aired Let_def)

abbreviation of_deck :: "holidayPlanner \<Rightarrow> Slot list \<Rightarrow> bool" where
  "of_deck p tile \<equiv> set tile \<subseteq> set (dd_slots (dealer_of p))"

lemma arrangeTile_of_deck: "deck_dealt p \<Longrightarrow> of_deck p tile \<Longrightarrow> arrangeTile draw p tile w = Some out \<Longrightarrow> of_deck p out"
proof -
  assume deck: "deck_dealt p" and tile: "of_deck p tile" and out: "arrangeTile draw p tile w = Some out"
  then have "out = tile \<or> mset out = mset (map ha_unit (features p w) @ filter (\<lambda>s. unitKey s \<notin> set (pooled p w)) tile)"
    using arrangeTile_units [of draw p w tile] by (auto split: if_splits)
  then have "out = tile \<or> set out = set (map ha_unit (features p w) @ filter (\<lambda>s. unitKey s \<notin> set (pooled p w)) tile)"
    using mset_eq_setD by blast
  then show ?thesis using features_subset [of p w] deck tile unfolding deck_dealt_def
    by (elim disjE) (simp_all only: set_append set_filter, blast+)
qed

lemma arrange_of_deck: "deck_dealt p \<Longrightarrow> of_deck p tile \<Longrightarrow> arrange draw p tile w = Some out \<Longrightarrow> of_deck p out"
  by (auto simp: arrange_def arrangeTile_of_deck split: if_splits)

lemma mset_hold_rounds [simp]: "mset (hold_rounds k airedAt n owed spacing tile) = mset tile"
  by (induction k arbitrary: tile) (simp_all add: Let_def)

lemma mset_holdUntilRested [simp]: "mset (holdUntilRested draw p prev tile owed) = mset tile"
  by (simp add: holdUntilRested_def split: prod.split)

lemma best_substitute_found:
  assumes "best_substitute draw p airedAt here spot u pass = Some c"
  shows "c \<in> set pass \<and> unitKey c \<notin> set here"
proof -
  define step where "step best c = better_substitute c (rate_substitute draw p airedAt here spot u c) best" for best c
  have "foldl step best pass' = Some (c, r) \<Longrightarrow> (\<exists>r'. best = Some (c, r')) \<or> (c \<in> set pass' \<and> unitKey c \<notin> set here)" for best pass' r
  proof (induction pass' arbitrary: best)
    case (Cons x xs)
    have "rate_substitute draw p airedAt here spot u x \<noteq> None \<Longrightarrow> unitKey x \<notin> set here"
      by (auto simp: rate_substitute_def Let_def split: if_splits)
    then have "step best x = best \<or> (\<exists>r. step best x = Some (x, r)) \<and> unitKey x \<notin> set here"
      unfolding step_def
      by (cases "(x, rate_substitute draw p airedAt here spot u x, best)" rule: better_substitute.cases) auto
    moreover have "(\<exists>r'. step best x = Some (c, r')) \<or> (c \<in> set xs \<and> unitKey c \<notin> set here)"
      using Cons.IH [of "step best x"] Cons.prems by simp
    ultimately show ?case by (metis list.set_intros option.inject prod.inject)
  qed simp
  then show ?thesis using assms unfolding best_substitute_def step_def by fastforce
qed

text \<open>A substitute is new to the tile, so that the tile it goes into has no unit twice.\<close>

lemma substitute_loop_spec:
  assumes "set (programme_keys ss) \<union> K \<subseteq> set here" and "distinct (programme_keys ss)" and "set (programme_keys ss) \<inter> K = {}"
  shows "distinct (programme_keys (substitute_loop draw p owed pass n start i airedAt here ss)) \<and>
    set (programme_keys (substitute_loop draw p owed pass n start i airedAt here ss)) \<inter> K = {} \<and>
    set (substitute_loop draw p owed pass n start i airedAt here ss) \<subseteq> set ss \<union> set pass"
  using assms
proof (induction draw p owed pass n start i airedAt here ss arbitrary: K rule: substitute_loop.induct)
  case (1 draw p owed pass n start i airedAt here)
  then show ?case by (simp add: programme_keys_def)
next
  case (2 draw p owed pass n start i airedAt here s ss)
  let ?key = "unitKey s"
  let ?rested = "case airedAt ?key of None \<Rightarrow> True | Some lst \<Rightarrow> n + i - lst \<ge> owedOr owed ?key (spacingProgrammes draw p)"
  show ?case
  proof (cases "IsProgram s")
    case False
    then show ?thesis using "2.IH"(1) [OF False, of K] "2.prems" by (auto simp: programme_keys_def)
  next
    case prog: True
    have rest: "?key \<notin> set (programme_keys ss)" "distinct (programme_keys ss)" "?key \<notin> K" "?key \<in> set here"
      "set (programme_keys ss) \<inter> K = {}" "set (programme_keys ss) \<union> K \<subseteq> set here"
      using "2.prems" prog by (auto simp: programme_keys_def)
    then have stay: "set (programme_keys ss) \<union> insert ?key K \<subseteq> set here" "set (programme_keys ss) \<inter> insert ?key K = {}" by auto
    have kept: ?thesis if "substitute_loop draw p owed pass n start i airedAt here (s # ss) =
        s # substitute_loop draw p owed pass n start (i + 1) (airedAt(?key \<mapsto> n + i)) here ss"
      and "distinct (programme_keys (substitute_loop draw p owed pass n start (i + 1) (airedAt(?key \<mapsto> n + i)) here ss)) \<and>
        set (programme_keys (substitute_loop draw p owed pass n start (i + 1) (airedAt(?key \<mapsto> n + i)) here ss)) \<inter> insert ?key K = {} \<and>
        set (substitute_loop draw p owed pass n start (i + 1) (airedAt(?key \<mapsto> n + i)) here ss) \<subseteq> set ss \<union> set pass"
      using that(2) rest(3) prog unfolding that(1) by (auto simp: programme_keys_def)
    show ?thesis
    proof (cases "?rested \<or> holiday_unit p s")
      case True
      show ?thesis
        by (rule kept) (use "2.IH"(2) [OF _ refl refl refl True stay(1) rest(2) stay(2)] True prog in \<open>simp_all add: Let_def fun_upd_def\<close>)
    next
      case late: False
      show ?thesis
      proof (cases "best_substitute draw p airedAt here (n + i) (start + i) pass")
        case None
        show ?thesis
          by (rule kept) (use "2.IH"(3) [OF _ refl refl refl late None stay(1) rest(2) stay(2)] late None prog in \<open>simp_all add: Let_def fun_upd_def\<close>)
      next
        case (Some c)
        have c: "c \<in> set pass" "unitKey c \<notin> set here" using best_substitute_found [OF Some] by auto
        have step: "substitute_loop draw p owed pass n start i airedAt here (s # ss) =
            c # substitute_loop draw p owed pass n start (i + 1) (airedAt(unitKey c \<mapsto> n + i)) (unitKey c # removeAll ?key here) ss"
          using late Some prog by (simp add: Let_def)
        have swapped: "set (programme_keys ss) \<union> insert (unitKey c) K \<subseteq> set (unitKey c # removeAll ?key here)"
          "set (programme_keys ss) \<inter> insert (unitKey c) K = {}" "unitKey c \<notin> K"
          using rest c(2) by auto
        note ih = "2.IH"(4) [OF _ refl refl refl late Some swapped(1) rest(2) swapped(2)]
        show ?thesis using ih prog c swapped(3) unfolding step by (auto simp: programme_keys_def fun_upd_def)
      qed
    qed
  qed
qed

lemma substitute_loop_subset:
  "set (substitute_loop draw p owed pass n start i airedAt here ss) \<subseteq> set ss \<union> set pass"
proof (induction ss arbitrary: i airedAt here)
  case (Cons s ss)
  have "set (s # substitute_loop draw p owed pass n start i' m here' ss) \<subseteq> insert s (set ss) \<union> set pass"
    and "c \<in> set pass \<Longrightarrow> set (c # substitute_loop draw p owed pass n start i' m here' ss) \<subseteq> insert s (set ss) \<union> set pass" for i' m here' c
    using Cons [of i' m here'] by auto
  moreover have "best_substitute draw p airedAt here (n + i) (start + i) pass = Some c \<Longrightarrow> c \<in> set pass" for c
    using best_substitute_found by blast
  ultimately show ?case by (simp add: Let_def split: option.split)
qed simp

lemma substitute_of_deck: "of_deck p tile \<Longrightarrow> of_deck p (substitute draw p prev tile v owed)"
  unfolding substitute_def Let_def split_beta using substitute_loop_subset pass_of_deck [of draw p] by fast

lemma substitute_distinct:
  assumes "distinct (programme_keys tile)"
  shows "distinct (programme_keys (substitute draw p prev tile v owed))"
proof -
  have "set (programme_keys tile) \<union> {} \<subseteq> set (map unitKey tile)" by (auto simp: programme_keys_def)
  from substitute_loop_spec [OF this assms] show ?thesis by (simp add: substitute_def Let_def split_beta)
qed

lemma in_order_spec: "distinct (map unitKey (in_order left ss)) \<and> set (in_order left ss) \<subseteq> set ss \<and> unitKey ` set (in_order left ss) \<subseteq> set left"
proof (induction left ss rule: in_order.induct)
  case (2 left s ss)
  show ?case
  proof (cases "unitKey s \<in> set left")
    case True
    then have "unitKey s \<notin> unitKey ` set (in_order (removeAll (unitKey s) left) ss)" using 2(1) by auto
    then show ?thesis using 2(1) [OF True] True by auto
  qed (use 2(2) in auto)
qed simp

lemma repairArranged_spec:
  assumes "distinct (programme_keys tile)"
  shows "distinct (programme_keys (repairArranged p prev tile arranged)) \<and>
    set (repairArranged p prev tile arranged) \<subseteq> set arranged \<union> set tile \<and>
    unitKey ` set (repairArranged p prev tile arranged) \<subseteq> unitKey ` set tile"
proof -
  define order where "order = in_order (map unitKey tile) arranged"
  define rest where "rest = filter (\<lambda>s. unitKey s \<notin> unitKey ` set order) tile"
  have order: "distinct (map unitKey order)" "set order \<subseteq> set arranged" "unitKey ` set order \<subseteq> unitKey ` set tile"
    using in_order_spec [of "map unitKey tile" arranged] by (auto simp: order_def)
  have ms: "mset (repairArranged p prev tile arranged) = mset (order @ rest)"
    by (simp add: repairArranged_def order_def [symmetric] rest_def Let_def)
  have "programme_keys rest = map unitKey (filter (\<lambda>s. unitKey s \<notin> unitKey ` set order) (filter IsProgram tile))"
    by (simp add: rest_def programme_keys_def filter_filter conj_commute)
  then have "distinct (programme_keys rest)" using assms by (simp add: programme_keys_def distinct_map_filter flip: filter_filter)
  moreover have "distinct (programme_keys order)" using order(1) by (simp add: programme_keys_def distinct_map_filter)
  moreover have "set (programme_keys order) \<inter> set (programme_keys rest) = {}"
    unfolding programme_keys_def rest_def by (simp add: disjoint_iff) blast
  ultimately have "distinct (programme_keys (order @ rest))" by simp
  then have "distinct (programme_keys (repairArranged p prev tile arranged))"
    using ms mset_eq_imp_distinct_iff [of "programme_keys (repairArranged p prev tile arranged)" "programme_keys (order @ rest)"]
    by (simp add: programme_keys_def)
  moreover have "set (repairArranged p prev tile arranged) = set order \<union> set rest" using mset_eq_setD [OF ms] by simp
  ultimately show ?thesis using order by (auto simp: rest_def)
qed

text \<open>What the hand-off keeps of a window's tile.\<close>

definition run_ok :: "random_draw \<Rightarrow> holidayPlanner \<Rightarrow> (int \<rightharpoonup> Slot list) \<Rightarrow> bool" where
  "run_ok draw p run \<longleftrightarrow>
     (\<forall>v tile. run v = Some tile \<longrightarrow> of_deck p tile \<and>
        (planner_on p \<longrightarrow> pooled p v = [] \<longrightarrow> distinct (programme_keys (ring_tile draw (hp_ring p) v)) \<longrightarrow> distinct (programme_keys tile)))"

lemma arrangeTile_quiet:
  assumes "planner_on p" and "pooled p v = []" and "arrangeTile draw p tile v = Some out"
  shows "mset out = mset tile"
  using arrangeTile_units [of draw p v tile] assms out_of_season_features [OF assms(2)] by simp

lemma hand_off_tile_of_deck: "of_deck p arranged \<Longrightarrow> of_deck p (hand_off_tile draw p st v arranged)"
  unfolding hand_off_tile_def Let_def by (rule substitute_of_deck) (simp add: mset_eq_setD [OF mset_holdUntilRested])

lemma distinct_keys_mset: "mset a = mset b \<Longrightarrow> distinct (programme_keys a) = distinct (programme_keys b)"
  using mset_eq_imp_distinct_iff [of "programme_keys a" "programme_keys b"] by (simp add: programme_keys_def)

lemma hand_off_tile_distinct:
  "distinct (programme_keys arranged) \<Longrightarrow> distinct (programme_keys (hand_off_tile draw p st v arranged))"
  unfolding hand_off_tile_def Let_def by (rule substitute_distinct) (simp add: distinct_keys_mset [OF mset_holdUntilRested])

lemma hand_off_loop_ok:
  assumes "deck_dealt p" and "run_ok draw p (ho_run st)" and "hand_off_loop draw p st vs = Some st'"
  shows "run_ok draw p (ho_run st')"
  using assms(2,3)
proof (induction vs arbitrary: st)
  case (Cons v vs)
  show ?case
  proof (cases "True \<in> set (ho_off st)")
    case False
    then show ?thesis using Cons.prems by simp
  next
    case True
    then obtain arranged where ar: "arrangeTile draw p (ring_tile draw (hp_ring p) v) v = Some arranged"
      using Cons.prems(2) by (auto split: option.splits)
    have deck: "of_deck p arranged" by (rule arrangeTile_of_deck [OF assms(1) tile_of_deck ar])
    have keys: "distinct (programme_keys arranged)"
      if "planner_on p" "pooled p v = []" "distinct (programme_keys (ring_tile draw (hp_ring p) v))"
      using distinct_keys_mset [OF arrangeTile_quiet [OF that(1,2) ar]] that(3) by simp
    have "run_ok draw p ((ho_run st)(v \<mapsto> hand_off_tile draw p st v arranged))"
      using Cons.prems(1) hand_off_tile_of_deck [OF deck] hand_off_tile_distinct keys by (auto simp: run_ok_def)
    then show ?thesis using Cons.IH [rotated, of "\<lparr>ho_aired = tl (ho_aired st) @ [hand_off_tile draw p st v arranged],
        ho_dealt = tl (ho_dealt st) @ [arranged], ho_off = tl (ho_off st) @ [\<not> sameProgrammes (hand_off_tile draw p st v arranged) arranged],
        ho_run = (ho_run st)(v \<mapsto> hand_off_tile draw p st v arranged)\<rparr>"] Cons.prems(2) True ar by (simp add: Let_def fun_upd_def)
  qed
qed simp

lemma hand_off_seed_run: "hand_off_seed tile_of draw p st vs = Some st' \<Longrightarrow> ho_run st' = ho_run st"
  by (induction vs arbitrary: st) (auto simp: Let_def split: option.splits)

lemma handOffRun_ok: "deck_dealt p \<Longrightarrow> handOffRun tile_of draw p start = Some run \<Longrightarrow> run_ok draw p run"
proof -
  assume deck: "deck_dealt p" and run: "handOffRun tile_of draw p start = Some run"
  then obtain st st' where st: "hand_off_seed tile_of draw p no_hand_off [start - spacingWindows p + 1..start] = Some st"
    "hand_off_loop draw p st [start + 1..start + handOffReach draw p] = Some st'" "run = ho_run st'"
    by (auto simp: handOffRun_def split: option.splits)
  have "run_ok draw p (ho_run st)" using hand_off_seed_run [OF st(1)] by (simp add: no_hand_off_def run_ok_def)
  from hand_off_loop_ok [OF deck this st(2)] st(3) show ?thesis by simp
qed

lemma repairArranged_subset: "set (repairArranged p prev tile arranged) \<subseteq> set arranged \<union> set tile"
  using in_order_spec [of "map unitKey tile" arranged]
  by (auto simp: repairArranged_def Let_def mset_eq_setD [OF mset_repairSeam])

lemma tile_with_of_deck:
  assumes "deck_dealt p" and "\<And>v dealt tile. of_deck p dealt \<Longrightarrow> tile_of v dealt = Some tile \<Longrightarrow> of_deck p tile"
    and "of_deck p dealt" and "tile_with tile_of draw p w dealt = Some tile"
  shows "of_deck p tile"
proof -
  have "of_deck p tile" if hand: "handOff tile_of draw p start w dealt = Some tile" for start
  proof -
    obtain run where run: "handOffRun tile_of draw p start = Some run" using hand by (auto simp: handOff_def split: option.splits)
    show ?thesis
    proof (cases "run w")
      case None
      then show ?thesis using hand run arrangeTile_of_deck [OF assms(1,3)] by (simp add: handOff_def)
    next
      case (Some t)
      then show ?thesis using hand run handOffRun_ok [OF assms(1) run] by (simp add: handOff_def run_ok_def)
    qed
  qed
  moreover have "of_deck p tile" if fit: "fitted tile_of draw p w dealt = Some tile"
  proof -
    define kept where "kept = filter (\<lambda>s. unitKey s \<notin> set (pooled p w)) dealt"
    obtain prev arranged where a: "arrangeTile draw p kept w = Some arranged"
      "tile = repairArranged p (loopedWindow prev (milliseconds (hp_window p))) kept arranged"
      using fit by (auto simp: fitted_def kept_def Let_def split: option.splits)
    have "of_deck p kept" using assms(3) by (auto simp: kept_def)
    from arrangeTile_of_deck [OF assms(1) this a(1)] this show ?thesis
      using repairArranged_subset [of p "loopedWindow prev (milliseconds (hp_window p))" kept arranged] unfolding a(2) by blast
  qed
  moreover have "s \<in> set (dd_slots (dealer_of p))" if "simulate draw p a l = Some run" "s \<in> set (tile_at run w)" for run a l s
    using simulate_run [OF that(1), of w] that(2) by (cases "run w") (auto simp: tile_at_def season_tile_def)
  ultimately show ?thesis using assms(3,4) by (auto simp: tile_with_def Let_def split: if_splits)
qed

lemma tile_fuel_of_deck: "deck_dealt p \<Longrightarrow> of_deck p dealt \<Longrightarrow> tile_fuel n draw p w dealt = Some tile \<Longrightarrow> of_deck p tile"
proof (induction n arbitrary: w dealt tile)
  case (Suc n)
  have "of_deck p tile'" if "of_deck p dealt'" "tile_fuel n draw p v dealt' = Some tile'" for v dealt' tile'
    using Suc.IH [OF Suc.prems(1)] that by blast
  from tile_with_of_deck [OF Suc.prems(1) this Suc.prems(2)] Suc.prems(3) show ?case by simp
qed simp

lemma fresh_no_pool: "fresh_tile [] tile \<longleftrightarrow> distinct (programme_keys tile)"
  by (simp add: fresh_tile_def list_all_iff)

lemma tile_with_fresh:
  assumes "planner_on p" and "0 < stride_of p" and "deck_dealt p"
    and "distinct (programme_keys (ring_tile draw (hp_ring p) w))"
    and "tile_with tile_of draw p w (ring_tile draw (hp_ring p) w) = Some tile"
  shows "fresh_tile (pooled p w) tile"
proof -
  define dealt where "dealt = ring_tile draw (hp_ring p) w"
  have h: "2 \<le> horizon draw p" "0 \<le> handOffReach draw p" using horizon_least [OF assms(2), of draw] by (simp_all add: handOffReach_def)
  have quiet: "pooled p w = []" if "lastInSeason draw p w < w - horizon draw p"
    using lastInSeason_here [of p w draw] that h by (cases "pooled p w") auto
  have "distinct (programme_keys tile)" if hand: "handOff tile_of draw p start w dealt = Some tile" and q: "pooled p w = []" for start
  proof -
    obtain run where run: "handOffRun tile_of draw p start = Some run" using hand by (auto simp: handOff_def split: option.splits)
    show ?thesis
    proof (cases "run w")
      case None
      then have "arrangeTile draw p dealt w = Some tile" using hand run by (simp add: handOff_def)
      from distinct_keys_mset [OF arrangeTile_quiet [OF assms(1) q this]] show ?thesis using assms(4) by (simp add: dealt_def)
    next
      case (Some t)
      then show ?thesis using hand run handOffRun_ok [OF assms(3) run] assms(1,4) q by (simp add: handOff_def run_ok_def)
    qed
  qed
  moreover have "fresh_tile (pooled p w) tile" if fit: "fitted tile_of draw p w dealt = Some tile"
  proof -
    define kept where "kept = filter (\<lambda>s. unitKey s \<notin> set (pooled p w)) dealt"
    obtain prev arranged where a: "tile = repairArranged p (loopedWindow prev (milliseconds (hp_window p))) kept arranged"
      using fit by (auto simp: fitted_def kept_def Let_def split: option.splits)
    have "fresh_tile [] kept" using fresh_tile_filter [of "[]" dealt] assms(4) by (simp add: kept_def dealt_def fresh_no_pool)
    then have "distinct (programme_keys kept)" by (simp add: fresh_no_pool)
    from repairArranged_spec [OF this, of p "loopedWindow prev (milliseconds (hp_window p))" arranged] show ?thesis
      unfolding a fresh_tile_def list_all_iff by (auto simp: programme_keys_def kept_def)
  qed
  moreover have "fresh_tile (pooled p w) (tile_at run w)" if "simulate draw p a l = Some run" for run a l
    using simulate_run [OF that, of w] by (auto simp: tile_at_def season_tile_def fresh_tile_def programme_keys_def split: option.split)
  ultimately show ?thesis
    using assms quiet h unfolding dealt_def [symmetric] tile_with_def Let_def
    by (auto simp: fresh_no_pool split: if_splits)
qed

section \<open>Two nested calls are enough for a wide deck\<close>

lemma last_from_spec:
  "last_from p lo v \<le> v \<and> (last_from p lo v < lo \<or> pooled p (last_from p lo v) \<noteq> []) \<and>
   (\<forall>u. last_from p lo v < u \<longrightarrow> u \<le> v \<longrightarrow> pooled p u = []) \<and> (lo - 1 \<le> v \<longrightarrow> lo - 1 \<le> last_from p lo v)"
proof (induction p lo v rule: last_from.induct)
  case (1 p lo v)
  show ?case
  proof (cases "v \<ge> lo \<and> pooled p v = []")
    case True
    have eq: "last_from p lo v = last_from p lo (v - 1)" using True by (subst last_from.simps) simp
    have "pooled p u = []" if "last_from p lo (v - 1) < u" "u \<le> v" for u
      using "1.IH" [OF True] that True by (cases "u = v") auto
    then show ?thesis using "1.IH" [OF True] True unfolding eq by auto
  next
    case False
    then have "last_from p lo v = v" by (subst last_from.simps) auto
    then show ?thesis using False by auto
  qed
qed

lemma lastInSeason_spec:
  "lastInSeason draw p w \<le> w"
  "w - horizon draw p - handOffReach draw p \<le> lastInSeason draw p w \<Longrightarrow> pooled p (lastInSeason draw p w) \<noteq> []"
  "lastInSeason draw p w < u \<Longrightarrow> u \<le> w \<Longrightarrow> pooled p u = []"
  using last_from_spec [of p "w - horizon draw p - handOffReach draw p" w] by (auto simp: lastInSeason_def)

lemma lastInSeason_at_least: "pooled p u \<noteq> [] \<Longrightarrow> u \<le> w \<Longrightarrow> u \<le> lastInSeason draw p w"
  using lastInSeason_spec(3) [of draw p w u] by force

text \<open>A window with a season within reach is near it.\<close>

lemma near_season:
  "pooled p u \<noteq> [] \<Longrightarrow> w - spacingWindows p - horizon draw p - handOffReach draw p \<le> u \<Longrightarrow> u \<le> w + spacingWindows p \<Longrightarrow>
   \<not> farFromSeason draw p w"
  by (auto simp: farFromSeason_def list_all_iff intro!: bexI [of _ u])

text \<open>Every window of a season's run has a window in season at it or shortly before it.\<close>

definition in_run :: "holidayPlanner \<Rightarrow> int \<Rightarrow> int \<Rightarrow> int \<Rightarrow> bool" where
  "in_run p h a b \<longleftrightarrow> (\<forall>x. a \<le> x \<and> x \<le> b \<longrightarrow> (\<exists>u. x - h - 1 \<le> u \<and> u \<le> x \<and> pooled p u \<noteq> []))"

lemma anchor_from_run:
  "0 \<le> h \<Longrightarrow> v < anchor \<Longrightarrow> pooled p anchor \<noteq> [] \<Longrightarrow> in_run p h anchor b \<Longrightarrow>
   in_run p h (anchor_from p h floor_at anchor v) b \<and> anchor_from p h floor_at anchor v \<le> anchor \<and>
   pooled p (anchor_from p h floor_at anchor v) \<noteq> []"
proof (induction p h floor_at anchor v rule: anchor_from.induct)
  case (1 p h floor_at anchor v)
  show ?case
  proof (cases "v \<ge> anchor - h - 1 \<and> v > floor_at")
    case False
    then show ?thesis using "1.prems" by (subst anchor_from.simps, subst (2) anchor_from.simps, subst (3) anchor_from.simps) auto
  next
    case True
    define a' where "a' = (if pooled p v \<noteq> [] then v else anchor)"
    have "in_run p h a' b" unfolding in_run_def
    proof (intro allI impI)
      fix x assume x: "a' \<le> x \<and> x \<le> b"
      show "\<exists>u. x - h - 1 \<le> u \<and> u \<le> x \<and> pooled p u \<noteq> []"
      proof (cases "anchor \<le> x")
        case True
        then show ?thesis using "1.prems"(4) x by (simp add: in_run_def)
      next
        case False
        then show ?thesis using x True by (intro exI [of _ v]) (auto simp: a'_def split: if_splits)
      qed
    qed
    moreover have "anchor_from p h floor_at anchor v = anchor_from p h floor_at a' (v - 1)"
      using True by (subst anchor_from.simps) (simp add: a'_def)
    ultimately show ?thesis using "1.IH" [OF True] "1.prems" by (auto simp: a'_def split: if_splits)
  qed
qed

lemma end_from_run:
  "0 \<le> h \<Longrightarrow> in_run p h a last_window \<Longrightarrow> in_run p h a (end_from p h ceiling_at last_window v)"
proof (induction p h ceiling_at last_window v rule: end_from.induct)
  case (1 p h ceiling_at last_window v)
  show ?case
  proof (cases "v \<le> last_window \<and> v < ceiling_at")
    case False
    then show ?thesis using "1.prems" by (subst end_from.simps) auto
  next
    case True
    define e' where "e' = (if pooled p v \<noteq> [] then v + h else last_window)"
    have "in_run p h a e'" unfolding in_run_def
    proof (intro allI impI)
      fix x assume x: "a \<le> x \<and> x \<le> e'"
      show "\<exists>u. x - h - 1 \<le> u \<and> u \<le> x \<and> pooled p u \<noteq> []"
      proof (cases "x \<le> last_window")
        case True
        then show ?thesis using "1.prems"(2) x by (simp add: in_run_def)
      next
        case False
        then show ?thesis using x True by (intro exI [of _ v]) (auto simp: e'_def split: if_splits)
      qed
    qed
    moreover have "end_from p h ceiling_at last_window v = end_from p h ceiling_at e' (v + 1)"
      using True by (subst end_from.simps) (simp add: e'_def)
    ultimately show ?thesis using "1.IH" [OF True] "1.prems" by (simp add: e'_def)
  qed
qed

text \<open>
  What keeps the walks of a season within two nested calls. A deck in order has no spacing and needs nothing; on a
  shuffled deck the spacing counted in windows may reach no more than one window past the horizon, which counts it in
  programmes, and, where off-season episodes are moved out of the evenings, must reach half the horizon, so that every
  window a walk arranges is near the season.
\<close>

definition reach_fits :: "random_draw \<Rightarrow> holidayPlanner \<Rightarrow> bool" where
  "reach_fits draw p \<longleftrightarrow>
     dd_spacing (dealer_of p) = 0 \<or>
     0 \<le> spacingWindows p \<and> spacingWindows p \<le> horizon draw p + 1 \<and>
     (if rse_Evenings (hf_seasonal (hp_f p)) then horizon draw p \<le> 2 * spacingWindows p else True)"

lemma reach_fits_windows:
  assumes "reach_fits draw p" and "2 \<le> horizon draw p"
  shows "spacingWindows p \<le> horizon draw p + 1" and "may_fail draw p v \<Longrightarrow> horizon draw p \<le> 2 * spacingWindows p"
proof -
  show "spacingWindows p \<le> horizon draw p + 1"
    using assms by (auto simp: reach_fits_def spacingWindows_def)
next
  assume fail: "may_fail draw p v"
  then have "0 < dd_spacing (dealer_of p)" "farFromSeason draw p v" by (simp_all add: may_fail_def)
  then have sw: "0 \<le> spacingWindows p" "rse_Evenings (hf_seasonal (hp_f p)) \<Longrightarrow> horizon draw p \<le> 2 * spacingWindows p"
    using assms(1) by (auto simp: reach_fits_def)
  have "pooled p v = []"
    using \<open>farFromSeason draw p v\<close> sw(1) assms(2) by (auto simp: farFromSeason_def handOffReach_def list_all_iff)
  then show "horizon draw p \<le> 2 * spacingWindows p" using fail sw(2) by (simp add: may_fail_def)
qed

lemma season_simulated:
  assumes "0 < stride_of p" and "reach_fits draw p" and "w - horizon draw p \<le> lastInSeason draw p w"
  shows "\<exists>run. simulate draw p (season_anchor draw p w) (season_end draw p w) = Some run"
proof -
  define h where "h = horizon draw p"
  define lst where "lst = lastInSeason draw p w"
  define a where "a = season_anchor draw p w"
  define e where "e = season_end draw p w"
  have h: "2 \<le> h" "handOffReach draw p = 4 * h"
    using horizon_least [OF assms(1), of draw] by (simp_all add: h_def handOffReach_def)
  have fits: "h \<le> 2 * spacingWindows p" if "may_fail draw p v" for v
    using reach_fits_windows(2) [OF assms(2) _ that] h by (simp add: h_def)
  have season: "pooled p lst \<noteq> []" using lastInSeason_spec(2) [of w draw p] assms(3) h by (simp add: lst_def h_def)
  have "in_run p h lst (lst + h)" unfolding in_run_def using season h by (intro allI impI exI [of _ lst]) auto
  from end_from_run [OF _ this] h have "in_run p h lst e" by (simp add: e_def season_end_def lst_def h_def Let_def)
  from anchor_from_run [OF _ _ season this, of "lst - 1"] h have run: "in_run p h a e" "pooled p a \<noteq> []"
    by (auto simp: a_def season_anchor_def lst_def h_def Let_def)
  have "\<not> may_fail draw p x" if x: "x \<in> set (seed_windows draw p a)" for x
  proof
    assume fail: "may_fail draw p x"
    have "2 * (a - x) \<le> h" using x by (simp add: seed_windows_def h_def horizon_def)
    then have "\<not> farFromSeason draw p x"
      using near_season [OF run(2), of x draw] x h fits [OF fail] by (simp add: seed_windows_def h_def [symmetric])
    then show False using fail by (simp add: may_fail_def)
  qed
  moreover have "\<not> may_fail draw p x" if "x \<in> set [a..e]" for x
  proof
    assume fail: "may_fail draw p x"
    have x: "a \<le> x" "x \<le> e" using that by auto
    obtain u where "x - h - 1 \<le> u" "u \<le> x" "pooled p u \<noteq> []" using run(1) x unfolding in_run_def by blast
    then have "\<not> farFromSeason draw p x" using near_season [of p u x draw] h fits [OF fail] by (simp add: h_def [symmetric])
    then show False using fail by (simp add: may_fail_def)
  qed
  ultimately show ?thesis using simulate_tiles [of draw p a e] unfolding a_def [symmetric] e_def [symmetric]
    by (auto simp: list_ex_iff)
qed

lemma hand_off_seed_returns:
  assumes "\<And>v. v \<in> set vs \<Longrightarrow> \<not> may_fail draw p v \<and> (\<exists>tile. tile_of v (ring_tile draw (hp_ring p) v) = Some tile)"
  shows "\<exists>st'. hand_off_seed tile_of draw p st vs = Some st'"
  using assms
proof (induction vs arbitrary: st)
  case (Cons v vs)
  obtain t where t: "tile_of v (ring_tile draw (hp_ring p) v) = Some t" and near: "\<not> may_fail draw p v"
    using Cons.prems by auto
  obtain a d where "arrange draw p t v = Some a" "arrangeTile draw p (ring_tile draw (hp_ring p) v) v = Some d"
    using near arrange_near [of draw p t v] arrangeTile_fails_far [of draw p v "ring_tile draw (hp_ring p) v"] by auto
  then show ?case using Cons t by (simp add: Let_def)
qed simp

lemma hand_off_loop_returns:
  assumes "\<And>v. v \<in> set vs \<Longrightarrow> \<not> may_fail draw p v"
  shows "\<exists>st'. hand_off_loop draw p st vs = Some st'"
  using assms
proof (induction vs arbitrary: st)
  case (Cons v vs)
  have "\<not> may_fail draw p v" using Cons.prems by simp
  then obtain d where d: "arrangeTile draw p (ring_tile draw (hp_ring p) v) v = Some d"
    using arrangeTile_fails_far [of draw p v "ring_tile draw (hp_ring p) v"] by blast
  have rest: "\<And>u. u \<in> set vs \<Longrightarrow> \<not> may_fail draw p u" using Cons.prems by simp
  show ?case using Cons.IH [OF rest] d by (simp add: Let_def)
qed simp

lemma tile_with_returns:
  assumes "0 < stride_of p" and "reach_fits draw p" and "\<not> deck_fits p"
    and "\<And>v. w - horizon draw p > lastInSeason draw p w \<Longrightarrow> pooled p (lastInSeason draw p w) \<noteq> [] \<Longrightarrow>
      lastInSeason draw p w \<le> v \<Longrightarrow> v \<le> lastInSeason draw p w + horizon draw p \<Longrightarrow> \<exists>tile. tile_of v (ring_tile draw (hp_ring p) v) = Some tile"
  shows "\<exists>tile. tile_with tile_of draw p w dealt = Some tile"
proof -
  define h where "h = horizon draw p"
  define lst where "lst = lastInSeason draw p w"
  have h: "2 \<le> h" "handOffReach draw p = 4 * h" "spacingWindows p \<le> h + 1"
    using horizon_least [OF assms(1), of draw] reach_fits_windows(1) [OF assms(2)] by (simp_all add: h_def handOffReach_def)
  consider "lst < w - h - handOffReach draw p" | "w - h - handOffReach draw p \<le> lst" "lst < w - h" | "w - h \<le> lst" by linarith
  then show ?thesis
  proof cases
    case 1
    then show ?thesis by (simp add: tile_with_def Let_def h_def lst_def)
  next
    case 2
    have season: "pooled p lst \<noteq> []" using lastInSeason_spec(2) [of w draw p] 2(1) by (simp add: lst_def h_def)
    have near: "\<not> may_fail draw p v" if "lst \<le> v" "v \<le> lst + h + handOffReach draw p" for v
    proof
      assume fail: "may_fail draw p v"
      have "0 \<le> spacingWindows p" using reach_fits_windows(2) [OF assms(2) _ fail] h by (simp add: h_def)
      then have "\<not> farFromSeason draw p v" using near_season [OF season, of v draw] that h by (simp add: h_def [symmetric])
      then show False using fail by (simp add: may_fail_def)
    qed
    obtain st where st: "hand_off_seed tile_of draw p no_hand_off [lst + h - spacingWindows p + 1..lst + h] = Some st"
      using hand_off_seed_returns [of "[lst + h - spacingWindows p + 1..lst + h]" draw p tile_of no_hand_off] near assms(4) season 2 h
      by (auto simp: lst_def [symmetric] h_def [symmetric])
    obtain st' where st': "hand_off_loop draw p st [lst + h + 1..lst + h + handOffReach draw p] = Some st'"
      using hand_off_loop_returns [of "[lst + h + 1..lst + h + handOffReach draw p]" draw p st] near h by auto
    have "\<not> may_fail draw p w" using near [of w] 2 h lastInSeason_spec(1) [of draw p w] by (simp add: lst_def)
    then obtain out where "arrangeTile draw p dealt w = Some out" using arrangeTile_fails_far [of draw p w dealt] by blast
    then show ?thesis using 2 st st'
      by (auto simp: tile_with_def handOff_def handOffRun_def Let_def h_def [symmetric] lst_def [symmetric] split: option.split)
  next
    case 3
    then show ?thesis using season_simulated [OF assms(1,2), of w] assms(3)
      by (auto simp: tile_with_def Let_def h_def lst_def)
  qed
qed

lemma tile_fuel_returns:
  assumes "0 < stride_of p" and "reach_fits draw p" and "\<not> deck_fits p"
  shows "\<exists>tile. tile_fuel 2 draw p w dealt = Some tile"
proof -
  have "\<exists>tile. tile_fuel 1 draw p v (ring_tile draw (hp_ring p) v) = Some tile"
    if "pooled p (lastInSeason draw p w) \<noteq> []" "lastInSeason draw p w \<le> v" "v \<le> lastInSeason draw p w + horizon draw p" for v
  proof -
    have "\<not> v - horizon draw p > lastInSeason draw p v"
      using lastInSeason_at_least [OF that(1,2), of draw] that(3) by linarith
    then show ?thesis using tile_with_returns [OF assms, of v "tile_fuel 0 draw p"] by simp
  qed
  then have "\<exists>tile. tile_with (tile_fuel 1 draw p) draw p w dealt = Some tile" by (intro tile_with_returns assms)
  then show ?thesis by (simp add: numeral_2_eq_2)
qed

text \<open>No window of the ring holds a unit twice, for a deck whose units have their own items and keys.\<close>

lemma ring_tile_keys:
  assumes "distinct (unit_ids (dd_slots (dealer_of p)))" and "distinct (programme_keys (dd_slots (dealer_of p)))"
  shows "distinct (programme_keys (ring_tile draw (hp_ring p) w))"
proof -
  let ?tile = "filter IsProgram (ring_tile draw (hp_ring p) w)"
  have "distinct (map s_LibraryItemID ?tile)"
    using windowSliceDealt_distinct [of "dr_d (hp_ring p)"] assms(1) by (simp add: ring_tile_def dealer_of_def)
  then have "distinct ?tile" by (simp add: distinct_map)
  moreover have "set ?tile \<subseteq> set (filter IsProgram (dd_slots (dealer_of p)))" using tile_of_deck [of draw p w] by auto
  then have "inj_on unitKey (set ?tile)"
    using assms(2) by (auto simp: programme_keys_def distinct_map intro: inj_on_subset)
  ultimately show ?thesis by (simp add: programme_keys_def distinct_map)
qed

text \<open>
  C34. On a channel whose deck is wider than its window, and whose units have their own items and keys, a window's tile
  is decided within two nested calls of \<^verbatim>\<open>tile\<close>, whatever the season around it, and it is of the channel's deck, airs
  no unit twice and none of the holiday episodes its own window features: in season, after it, in the hand-off and away
  from it. This holds of every deck in order, and of a shuffled deck whose repeat spacing, counted in windows, reaches at
  most one window past the season's horizon and, where off-season episodes are kept out of the evenings, at least half
  of it.
\<close>

theorem tile_decided:
  assumes "planner_on p" and "0 < stride_of p" and "deck_dealt p" and "\<not> deck_fits p" and "reach_fits draw p"
    and "distinct (unit_ids (dd_slots (dealer_of p)))" and "distinct (programme_keys (dd_slots (dealer_of p)))"
  shows "case tile_fuel 2 draw p w (ring_tile draw (hp_ring p) w) of
      None \<Rightarrow> False
    | Some tile \<Rightarrow> season_tile p (pooled p w) tile"
proof -
  obtain tile where tile: "tile_fuel 2 draw p w (ring_tile draw (hp_ring p) w) = Some tile"
    using tile_fuel_returns [OF assms(2,5,4)] by blast
  then have "tile_with (tile_fuel 1 draw p) draw p w (ring_tile draw (hp_ring p) w) = Some tile"
    by (simp add: numeral_2_eq_2)
  from tile_with_fresh [OF assms(1,2,3) ring_tile_keys [OF assms(6,7)] this] tile_fuel_of_deck [OF assms(3) tile_of_deck tile] show ?thesis
    by (simp add: tile season_tile_def)
qed

text \<open>The sample channel with windows of an hour, which its three hours of programmes do not fit.\<close>

definition hourly_planner :: holidayPlanner where
  "hourly_planner = newHolidayPlanner (\<lambda>_ _ _. 0) (newDealtRing (\<lambda>_ _ _. 0) sample_dealer hour 0)
     (hp_f sample_planner) hour (hp_cal sample_planner) 1"

lemma tile_decided_witness:
  "tile_fuel 2 (\<lambda>_ _ _. 0) hourly_planner (20757 * 24) (ring_tile (\<lambda>_ _ _. 0) (hp_ring hourly_planner) (20757 * 24)) \<noteq> None"
proof -
  have "planner_on hourly_planner" "0 < stride_of hourly_planner" "\<not> deck_fits hourly_planner"
    "reach_fits (\<lambda>_ _ _. 0) hourly_planner" "distinct (unit_ids (dd_slots (dealer_of hourly_planner)))"
    "distinct (programme_keys (dd_slots (dealer_of hourly_planner)))" by code_simp+
  moreover have "deck_dealt hourly_planner" unfolding hourly_planner_def by (rule newHolidayPlanner_dealt)
  ultimately show ?thesis using tile_decided [of hourly_planner "\<lambda>_ _ _. 0" "20757 * 24"] by (auto split: option.splits)
qed

end
