(* ===== verification/Desired.thy ===== *)
theory Desired
  imports Entries Breaks Season_Tiles
begin

text \<open>
  The whole computation of a channel's lineup, \<^verbatim>\<open>computeDesiredAt\<close> of \<^verbatim>\<open>internal/schedule/lineup.go\<close>: rule,
  policy, filters, season, resolution, grouping, the dealt ring, the holiday planner, the guarded window,
  breaks, trace.

  \<open>depth\<close> is how many nested calls of the planner's \<^verbatim>\<open>tile\<close> are allowed (\<open>Season_Tiles\<close>): the computation is
  \<open>None\<close> where it needs more, or where the planner's \<^verbatim>\<open>arrange\<close> does not return. More depth never changes a
  lineup, and one call is enough where the planner is off.

  The lemmas show that a lineup is always produced outside auto-mode holidays, and that every programme in
  any lineup is an item the availability offers for an approved entry, safe for the channel's audience and
  inside the scopes as far as the code enforces them; a channel of one film shows it on a concrete lineup.
\<close>

record DesiredLineup =
  dl_ChannelID :: string
  dl_Slots :: "Slot list"
  dl_Trace :: "ScheduleTrace option"
  dl_Excluded :: ExclusionReport
  dl_Applied :: "AppliedRelaxation list"
  dl_EligibleKeys :: "Key set"
  dl_Cycle :: CycleSummary
  dl_HolidayEpisodes :: "HolidayEpisodes list"

definition desired_policy :: "Channel \<Rightarrow> ChannelPolicy \<Rightarrow> SchedulingRule \<Rightarrow> LineupEntry list \<Rightarrow> ResolvedPolicy" where
  "desired_policy ch policy rule entries =
     (applyRuleHow (Resolved policy (ch_Strategy ch) (singleSeriesEntries entries)) (sr_How rule))
       \<lparr>rp_LastAired := ch_LastAired ch, rp_Calendar := channel_calendar ch\<rparr>"

text \<open>Resolving the eligible entries one after another; the slots so far and what resolution records.\<close>

definition resolve_all ::
  "(string \<Rightarrow> string) \<Rightarrow> Availability \<Rightarrow> PendingPolicy \<Rightarrow> (Key \<rightharpoonup> franchiseTag) \<Rightarrow> ResolvedPolicy \<Rightarrow>
   ScopePolicy option \<Rightarrow> string list \<Rightarrow> LineupEntry list \<Rightarrow> resolve_state \<Rightarrow> Slot list \<times> resolve_state" where
  "resolve_all fold_text avail pending franchise rp what seasonalHolidays eligible st =
     fold (\<lambda>e (slots, st). let (more_slots, st) = resolveEntryWithTrace fold_text e avail pending franchise rp what seasonalHolidays st
                           in (slots @ more_slots, st)) eligible ([], st)"

definition eligible_keys ::
  "(string \<Rightarrow> string) \<Rightarrow> Availability \<Rightarrow> PendingPolicy \<Rightarrow> ResolvedPolicy \<Rightarrow> LineupEntry list \<Rightarrow> Key set" where
  "eligible_keys fold_text avail pending rp channelEligible =
     set (concat (map (\<lambda>e. map s_Key (filter IsProgram (resolveEntry fold_text e avail pending Map.empty rp))) channelEligible))"

text \<open>What the window before this one is taken to have aired, unit by unit from its opening.\<close>

fun stamp_window :: "gotime \<Rightarrow> gotime \<Rightarrow> Slot list \<Rightarrow> (string \<rightharpoonup> gotime) \<Rightarrow> (string \<rightharpoonup> gotime)" where
  "stamp_window tradable t [] seen = seen"
| "stamp_window tradable t (s # ss) seen =
     (if \<not> IsProgram s then stamp_window tradable t ss seen
      else stamp_window tradable (t + s_DurationMs s * millisecond) ss
             (case seen (s_LibraryItemID s) of
                Some u \<Rightarrow> if u < tradable then seen(s_LibraryItemID s \<mapsto> t) else seen
              | None \<Rightarrow> seen(s_LibraryItemID s \<mapsto> t)))"

text \<open>The guard; the window before aired what the planner makes of its own deal.\<close>

definition guarded_tile ::
  "nat \<Rightarrow> random_draw \<Rightarrow> holidayPlanner \<Rightarrow> deckDealer \<Rightarrow> (string \<rightharpoonup> gotime) \<Rightarrow> int \<Rightarrow> int \<Rightarrow> duration \<Rightarrow> zone option \<Rightarrow>
   Slot list \<Rightarrow> Slot list \<Rightarrow> Slot list option"
where
  "guarded_tile depth draw planner dealer history age windowIdx window zone ordered tile =
     (let since = windowOpening (windowIdx - 1) window zone;
          seen = (if age > 0
                  then map_option (\<lambda>prev. stamp_window (windowOpening (windowIdx - 2) window zone) since prev history)
                         (tile_fuel depth draw planner (windowIdx - 1) (fst (windowSliceDealt draw dealer window (age - 1))))
                  else Some history)
      in map_option (\<lambda>seen. tradeRecent ordered tile history seen since (windowOpening windowIdx window zone)
                              (dd_spacing dealer) window) seen)"

definition season_planner ::
  "random_draw \<Rightarrow> deckDealer \<Rightarrow> int \<Rightarrow> ResolvedPolicy \<Rightarrow> duration \<Rightarrow> Calendar \<Rightarrow> rat \<Rightarrow> holiday_matches option \<Rightarrow>
   (string \<Rightarrow> Slot list option) \<Rightarrow> holidayPlanner" where
  "season_planner draw dealer origin rp window cal factor matches parts =
     newHolidayPlanner draw (newDealtRing draw dealer window origin)
       \<lparr>hf_seasonal = rp_Seasonal rp, hf_matches = (case matches of None \<Rightarrow> [] | Some m \<Rightarrow> m), hf_expand = parts\<rparr>
       window cal factor"

text \<open>
  Placement: from the resolved slots to the deck of the pass, the window's arranged tile, the relaxations
  and the planner, which \<open>planner_for\<close> makes of the dealer.
\<close>

record placement =
  pl_ordered :: "Slot list"
  pl_tile :: "Slot list"
  pl_applied :: "AppliedRelaxation list"
  pl_planner :: holidayPlanner

definition place_slots ::
  "nat \<Rightarrow> random_draw \<Rightarrow> Channel \<Rightarrow> ResolvedPolicy \<Rightarrow> 64 word \<Rightarrow> duration \<Rightarrow> int \<Rightarrow> (deckDealer \<Rightarrow> holidayPlanner) \<Rightarrow>
   Slot list \<Rightarrow> placement option" where
  "place_slots depth draw ch rp seed window windowIdx planner_for collapsed =
     (let history = rp_LastAired rp;
          shuffled = (rp_Ordering rp = OrderShuffle \<or> rp_Ordering rp = OrderSyndication);
          dealtAfresh = (shuffled \<and> history \<noteq> Map.empty \<and> window > 0 \<and> programRuntime collapsed > 0);
          guardSlice = (dealtAfresh \<and> programRuntime collapsed > milliseconds window);
          rp = (if dealtAfresh then rp\<lparr>rp_LastAired := Map.empty\<rparr> else rp);
          dealer = newDeckDealer collapsed rp seed window;
          age = windowIdx - windowIndex (dealOriginOf ch) window (ch_WindowZone ch);
          (dealtTile, pass) = windowSliceDealt draw dealer window age;
          ordered = aired draw dealer pass;
          planner = planner_for dealer
      in case tile_fuel depth draw planner windowIdx dealtTile of
           None \<Rightarrow> None
         | Some tile \<Rightarrow>
             (case (if guardSlice
                    then guarded_tile depth draw planner dealer history age windowIdx window (ch_WindowZone ch) ordered tile
                    else Some tile) of
                None \<Rightarrow> None
              | Some tile \<Rightarrow>
                  map_option (\<lambda>out. \<lparr>pl_ordered = ordered, pl_tile = out, pl_applied = applied draw dealer pass,
                                     pl_planner = planner\<rparr>) (arrange draw planner tile windowIdx)))"

definition computeDesiredAt ::
  "nat \<Rightarrow> random_draw \<Rightarrow> (string \<Rightarrow> string) \<Rightarrow> zone option \<Rightarrow> Channel \<Rightarrow> LineupEntry list \<Rightarrow> Availability \<Rightarrow> PendingPolicy \<Rightarrow>
   ChannelPolicy \<Rightarrow> gotime \<Rightarrow> DesiredLineup option" where
  "computeDesiredAt depth draw fold_text loc ch entries avail pending policy now =
     (let cal = channel_calendar ch;
          rule = fst (pickRule (cp_Rules policy) loc now cal);
          rp = desired_policy ch policy rule entries;
          window = resolveWindow (sr_Window rule) (cp_Window policy) (ch_DefaultWindow ch);
          seed = channelSeed ch;
          arranged = (if \<not> is_zero_time (ch_WindowOpened ch) then ch_WindowOpened ch else now);
          windowIdx = windowIndex arranged window (ch_WindowZone ch);
          trace = newScheduleTrace (rp_Ordering rp) seed (milliseconds window) windowIdx;
          (channelEligible, report, trace) = filterEntriesWithTrace entries rp trace;
          (eligible, trace) = applyRuleScopeWithTrace channelEligible (sr_What rule) trace;
          season = activeSeason fold_text eligible rp now cal (Some avail);
          (eligible, seasonalReport, trace) = applySeasonalWithTrace fold_text eligible rp now cal season trace;
          matches = (if rse_Mode (rp_Seasonal rp) = SeasonalAuto \<and> \<not> is_zero_time now then Some [] else None);
          (slots, matches, report, trace) =
            resolve_all fold_text avail pending (assignFranchiseGroups eligible) rp (sr_What rule)
              (exclusiveEpisodeHolidays rp season) eligible (matches, Some (report_merge report seasonalReport), trace);
          (collapsed, parts) = collapseGroups slots;
          brk = (if ro_NoBreaks (sr_How rule) then ch\<lparr>ch_BreaksPerHour := 0\<rparr> else ch);
          planner_for = (\<lambda>dealer. season_planner draw dealer (windowIndex (dealOriginOf ch) window (ch_WindowZone ch)) rp window cal
                                     (breakFactor brk) matches parts)
      in case place_slots depth draw ch rp seed window windowIdx planner_for collapsed of
           None \<Rightarrow> None
         | Some placed \<Rightarrow>
             let orderedAll = expandGroups (pl_ordered placed) parts;
                 ordered = expandGroups (pl_tile placed) parts
             in map_option (\<lambda>finalSlots.
                  \<lparr>dl_ChannelID = ch_ID ch, dl_Slots = finalSlots,
                   dl_Trace = map_option (\<lambda>b. trace_finish b (pl_applied placed))
                                (tracePlacement trace orderedAll ordered finalSlots (rp_Ordering rp)),
                   dl_Excluded = (case report of Some r \<Rightarrow> r | None \<Rightarrow> empty_report), dl_Applied = pl_applied placed,
                   dl_EligibleKeys = eligible_keys fold_text avail pending rp channelEligible,
                   dl_Cycle = summarizeCycle orderedAll, dl_HolidayEpisodes = summary (pl_planner placed) now\<rparr>)
                (interleaveBreaks brk ordered))"

subsection \<open>Where the slots come from\<close>

lemma resolve_all_slots:
  "s \<in> set (fst (resolve_all ft avail pending franchise rp what hs eligible st)) \<Longrightarrow>
   \<exists>e\<in>set eligible. \<exists>st'. s \<in> set (fst (resolveEntryWithTrace ft e avail pending franchise rp what hs st'))"
proof -
  let ?f = "\<lambda>e (slots, st). let (more_slots, st) = resolveEntryWithTrace ft e avail pending franchise rp what hs st
                           in (slots @ more_slots, st)"
  have "s \<in> set (fst (fold ?f es (slots, st))) \<Longrightarrow> s \<in> set slots \<or>
      (\<exists>e\<in>set es. \<exists>st'. s \<in> set (fst (resolveEntryWithTrace ft e avail pending franchise rp what hs st')))" for es slots st
  proof (induction es arbitrary: slots st)
    case (Cons e es)
    obtain more_slots st' where step: "resolveEntryWithTrace ft e avail pending franchise rp what hs st = (more_slots, st')"
      by (cases "resolveEntryWithTrace ft e avail pending franchise rp what hs st")
    from Cons.prems step have "s \<in> set (fst (fold ?f es (slots @ more_slots, st')))" by simp
    from Cons.IH [OF this] consider "s \<in> set slots" | "s \<in> set (fst (resolveEntryWithTrace ft e avail pending franchise rp what hs st))"
      | "\<exists>e\<in>set es. \<exists>st'. s \<in> set (fst (resolveEntryWithTrace ft e avail pending franchise rp what hs st'))"
      using step by auto
    then show ?case by cases (simp_all only: list.set, blast+)
  qed simp
  from this [of eligible "[]" st] show "s \<in> set (fst (resolve_all ft avail pending franchise rp what hs eligible st)) \<Longrightarrow>
   \<exists>e\<in>set eligible. \<exists>st'. s \<in> set (fst (resolveEntryWithTrace ft e avail pending franchise rp what hs st'))"
    by (simp add: resolve_all_def)
qed

text \<open>What \<open>computeDesiredAt\<close> gives the placement for a planner is made of the dealer it is given.\<close>

definition deals_from :: "random_draw \<Rightarrow> (deckDealer \<Rightarrow> holidayPlanner) \<Rightarrow> bool" where
  "deals_from draw planner_for \<longleftrightarrow> (\<forall>d. deck_dealt (planner_for d) \<and> dealer_of (planner_for d) = d)"

lemma season_planner_deals: "deals_from draw (\<lambda>d. season_planner draw d origin rp window cal factor matches parts)"
  by (simp add: deals_from_def season_planner_def newHolidayPlanner_dealt)
    (simp add: newHolidayPlanner_def newDealtRing_def dealer_of_def Let_def)

lemma place_slots_subset:
  assumes "place_slots depth draw ch rp seed window windowIdx planner_for collapsed = Some placed" and "deals_from draw planner_for"
  shows "set (pl_tile placed) \<subseteq> set collapsed \<and> set (pl_ordered placed) = set collapsed \<and> (\<exists>d. pl_planner placed = planner_for d)"
proof -
  define history where "history = rp_LastAired rp"
  define afresh where "afresh = ((rp_Ordering rp = OrderShuffle \<or> rp_Ordering rp = OrderSyndication) \<and> history \<noteq> Map.empty \<and>
    window > 0 \<and> programRuntime collapsed > 0)"
  define d where "d = newDeckDealer collapsed (if afresh then rp\<lparr>rp_LastAired := Map.empty\<rparr> else rp) seed window"
  define age where "age = windowIdx - windowIndex (dealOriginOf ch) window (ch_WindowZone ch)"
  define ordered where "ordered = aired draw d (snd (windowSliceDealt draw d window age))"
  have slots: "dd_slots d = collapsed" by (simp add: d_def)
  have planner: "deck_dealt (planner_for d)" "dealer_of (planner_for d) = d" using assms(2) by (simp_all add: deals_from_def)
  have eq: "place_slots depth draw ch rp seed window windowIdx planner_for collapsed =
     (case tile_fuel depth draw (planner_for d) windowIdx (fst (windowSliceDealt draw d window age)) of
        None \<Rightarrow> None
      | Some tile \<Rightarrow>
          (case (if afresh \<and> programRuntime collapsed > milliseconds window
                 then guarded_tile depth draw (planner_for d) d history age windowIdx window (ch_WindowZone ch) ordered tile
                 else Some tile) of
             None \<Rightarrow> None
           | Some tile \<Rightarrow>
               map_option (\<lambda>out. \<lparr>pl_ordered = ordered, pl_tile = out,
                   pl_applied = applied draw d (snd (windowSliceDealt draw d window age)), pl_planner = planner_for d\<rparr>)
                 (arrange draw (planner_for d) tile windowIdx)))"
    unfolding place_slots_def Let_def split_beta history_def [symmetric] afresh_def [symmetric] d_def [symmetric] age_def [symmetric]
      ordered_def [symmetric] by (rule refl)
  obtain tile where t1: "tile_fuel depth draw (planner_for d) windowIdx (fst (windowSliceDealt draw d window age)) = Some tile"
    using assms(1) unfolding eq by (auto split: option.splits)
  obtain tile' where t2: "(if afresh \<and> programRuntime collapsed > milliseconds window
      then guarded_tile depth draw (planner_for d) d history age windowIdx window (ch_WindowZone ch) ordered tile else Some tile) = Some tile'"
    using assms(1) unfolding eq t1 option.case by (cases "if afresh \<and> programRuntime collapsed > milliseconds window
      then guarded_tile depth draw (planner_for d) d history age windowIdx window (ch_WindowZone ch) ordered tile else Some tile") simp_all
  obtain out where t3: "arrange draw (planner_for d) tile' windowIdx = Some out"
    "pl_tile placed = out" "pl_ordered placed = ordered" "pl_planner placed = planner_for d"
    using assms(1) unfolding eq t1 option.case t2 by auto
  note t = t1 t2 t3
  have "set tile \<subseteq> set collapsed"
    using tile_fuel_of_deck [OF planner(1) _ t(1)] windowSliceDealt_subset [of draw d window age] by (simp add: planner(2) slots)
  moreover have ordered: "set ordered = set collapsed" by (simp add: ordered_def set_aired slots)
  ultimately have "set tile' \<subseteq> set collapsed"
    using t(2) tradeRecent_subset [of _ ordered] by (auto simp: guarded_tile_def Let_def split: if_splits) blast+
  from arrange_of_deck [OF planner(1) _ t(3)] this have "set out \<subseteq> set collapsed" by (simp add: planner(2) slots)
  then show ?thesis using t ordered by auto
qed

text \<open>Where no holidays are planned, one call of \<^verbatim>\<open>tile\<close> is enough, and nothing is arranged.\<close>

lemma tile_off: "\<not> planner_on p \<Longrightarrow> tile_fuel (Suc n) draw p w dealt = Some dealt"
  by (simp add: tile_with_def Let_def)

lemma arrange_off: "\<not> planner_on p \<Longrightarrow> arrange draw p tile w = Some tile"
  by (simp add: arrange_def arrangeTile_def handingOff_def Let_def)

lemma place_slots_off:
  assumes "\<And>d. \<not> planner_on (planner_for d)" and "depth \<noteq> 0"
  shows "\<exists>placed. place_slots depth draw ch rp seed window windowIdx planner_for collapsed = Some placed"
proof -
  obtain n where "depth = Suc n" using assms(2) not0_implies_Suc by blast
  then show ?thesis
    by (simp add: place_slots_def guarded_tile_def Let_def split_beta tile_off [OF assms(1)] arrange_off [OF assms(1)] del: tile_fuel.simps)
qed

lemma expandGroups_subset:
  assumes "grouped_programs slots" and "set xs \<subseteq> set (fst (collapseGroups slots))"
  shows "set (expandGroups xs (snd (collapseGroups slots))) \<subseteq> set slots"
proof -
  have "set (expandGroups xs parts) \<subseteq> set (expandGroups ys parts)" if "set xs \<subseteq> set ys" for ys parts
    using that by (auto simp: expandGroups_def)
  then show ?thesis using assms(2) mset_eq_setD [OF expand_collapse [OF assms(1)]] by blast
qed

lemma program_part [simp]:
  "IsProgram (s\<lparr>s_Segment := a, s_SourceOffsetMs := b, s_DurationMs := c\<rparr>) = IsProgram s"
  by (simp add: IsProgram_def)

lemma split_parts_programs:
  "t \<in> set (split_parts s d n start cuts) \<Longrightarrow> IsProgram t \<Longrightarrow> s_Key t = s_Key s \<and> s_LibraryItemID t = s_LibraryItemID s \<and> IsProgram s"
  by (induction cuts arbitrary: n start) (auto split: if_splits)

lemma interleave_programs:
  assumes "interleave_loop ch thr d midRoll acc slots = Some out" and "t \<in> set out" and "IsProgram t"
  shows "\<exists>s\<in>set slots. IsProgram s \<and> s_Key t = s_Key s \<and> s_LibraryItemID t = s_LibraryItemID s"
  using assms
proof (induction slots arbitrary: acc out)
  case (Cons s ss)
  show ?case
  proof (cases "IsProgram s")
    case False
    then show ?thesis using Cons.prems Cons.IH by (auto elim!: interleave_other)
  next
    case True
    obtain cuts gap acc2 later where step: "out = (if cuts = [] then [s] else split_parts s d 0 0 (cuts @ [s_DurationMs s])) @ gap @ later"
      "interleave_loop ch thr d midRoll acc2 ss = Some later" "gap = [] \<or> gap = [break_slot d False]"
      using interleave_program [OF Cons.prems(1) True] by metis
    then show ?thesis
      using Cons.prems(2,3) Cons.IH [OF step(2)] split_parts_programs [of t s d 0 0 "cuts @ [s_DurationMs s]"]
      by (auto split: if_splits)
  qed
qed simp

lemma interleaveBreaks_programs:
  assumes "interleaveBreaks ch slots = Some out" and "t \<in> set out" and "IsProgram t"
  shows "\<exists>s\<in>set slots. IsProgram s \<and> s_Key t = s_Key s \<and> s_LibraryItemID t = s_LibraryItemID s"
  using assms interleave_programs by (auto simp: interleaveBreaks_def Let_def split: if_splits)

lemma interleaveBreaks_total: "\<exists>out. interleaveBreaks ch slots = Some out"
  using interleave_total by (simp add: interleaveBreaks_def Let_def)

subsection \<open>The lineup\<close>

lemma resolved_grouped:
  "grouped_programs (fst (resolve_all ft avail pending franchise rp what hs eligible st))"
  unfolding grouped_programs_def list_all_iff
proof
  fix s assume "s \<in> set (fst (resolve_all ft avail pending franchise rp what hs eligible st))"
  then obtain e st' where "s \<in> set (fst (resolveEntryWithTrace ft e avail pending franchise rp what hs st'))"
    using resolve_all_slots by blast
  then have "IsProgram s \<or> s = pendingSlot e pending"
    by (auto simp: resolveEntryWithTrace_def Let_def dest!: resolve_series_slots split: if_splits option.splits prod.splits)
  then show "s_PartGroup s = '''' \<or> IsProgram s" by auto
qed

text \<open>
  What a scope promises of a title, said of the title rather than as the filters' order of refusals: a dated title
  is of one of the scope's years for its kind, a series one of those listed, no excluded genre is shared and, where
  some are included, one of them is, and a title of known length is no longer than the longest allowed.
\<close>

definition year_allowed :: "Range list \<Rightarrow> int \<Rightarrow> bool" where
  "year_allowed years y \<longleftrightarrow> y \<le> 0 \<or> years = [] \<or>
     (\<exists>r\<in>set years. (rg_From r \<le> 0 \<or> rg_From r \<le> y) \<and> (rg_To r \<le> 0 \<or> y \<le> rg_To r))"

definition scope_years :: "(DateScope \<Rightarrow> Range list) \<Rightarrow> ScopePolicy \<Rightarrow> Range list" where
  "scope_years axis sc = (case sc_Dates sc of None \<Rightarrow> [] | Some d \<Rightarrow> axis d)"

definition shares_genre :: "LineupEntry \<Rightarrow> string list \<Rightarrow> bool" where
  "shares_genre e names \<longleftrightarrow>
     (\<exists>g\<in>set (e_Genres e). \<exists>n\<in>set names. set (genreTerms g) \<inter> set (genreTerms n) \<noteq> {})"

definition scope_admits :: "ScopePolicy \<Rightarrow> LineupEntry \<Rightarrow> bool" where
  "scope_admits sc e \<longleftrightarrow>
     year_allowed (scope_years (if IsSeries (e_Key e) then ds_SeriesPremiere else ds_MovieRelease) sc) (e_Year e) \<and>
     (\<not> IsSeries (e_Key e) \<or> sc_Series sc = [] \<or> e_Key e \<in> set (sc_Series sc)) \<and>
     \<not> shares_genre e (gf_Exclude (sc_Genres sc)) \<and>
     (gf_Include (sc_Genres sc) = [] \<or> shares_genre e (gf_Include (sc_Genres sc))) \<and>
     (sc_RuntimeMax sc \<le> 0 \<or> e_RuntimeSec e \<le> sc_RuntimeMax sc)"

text \<open>A title whose box sets are known is in one of the collections the channel lists, where it lists any.\<close>

definition in_collections :: "string list \<Rightarrow> LineupEntry \<Rightarrow> bool" where
  "in_collections wanted e \<longleftrightarrow>
     wanted = [] \<or> \<not> e_BoxSetsResolved e \<or> set (e_BoxSetIDs e) \<inter> set wanted \<noteq> {}"

lemma year_allowed_iff: "year_allowed years y \<longleftrightarrow> y \<le> 0 \<or> dateContains years y"
proof -
  have "Contains r y \<longleftrightarrow> (rg_From r \<le> 0 \<or> rg_From r \<le> y) \<and> (rg_To r \<le> 0 \<or> y \<le> rg_To r)" for r
    by (auto simp: Contains_def)
  then show ?thesis by (auto simp: year_allowed_def dateContains_def list_ex_iff)
qed

lemma shares_genre_iff: "shares_genre e names \<longleftrightarrow> genresOverlap (e_Genres e) names"
  by (auto simp: shares_genre_def genresOverlap_def list_ex_iff)

lemma in_collections_iff: "in_collections wanted e \<longleftrightarrow> boxSetOK e wanted"
  by (auto simp: in_collections_def boxSetOK_def list_ex_iff)

lemma scope_admits_iff: "scope_admits sc e \<longleftrightarrow> \<not> scope_refuses sc e"
  by (auto simp: scope_admits_def scope_refuses_def year_allowed_iff shares_genre_iff scope_years_def genreOK_def
      seriesPremiereDateOK_def movieDateOK_def seriesAllowSet_def dateContains_def split: option.splits)

lemma airing_years_iff:
  "\<not> airing_date_refused rp what ep \<longleftrightarrow>
     year_allowed (scope_years ds_SeriesAiring (rp_Scope rp)) (p_Year ep) \<and>
     (case what of None \<Rightarrow> True | Some sc \<Rightarrow> year_allowed (scope_years ds_SeriesAiring sc) (p_Year ep))"
  by (auto simp: airing_date_refused_def year_allowed_iff scope_years_def seriesAiringDateOK_def dateContains_def
      split: option.splits)

text \<open>
  An aired programme is an item of an approved entry that the audience gate, the channel's scope and collections and
  the rule's scope let through; an episode, one of the entry's seasons and of the years both scopes air.
\<close>

definition airs_safely ::
  "LineupEntry list \<Rightarrow> Availability \<Rightarrow> ResolvedPolicy \<Rightarrow> ScopePolicy option \<Rightarrow> Slot \<Rightarrow> bool" where
  "airs_safely entries avail rp what s \<longleftrightarrow>
     (\<exists>e\<in>set entries. e_Key e = s_Key s \<and>
        rating_safe (rp_Ceiling rp) (rp_Unrated rp) (e_OfficialRating e) \<and>
        scope_admits (rp_Scope rp) e \<and> in_collections (sc_Collections (rp_Scope rp)) e \<and>
        (case what of None \<Rightarrow> True | Some sc \<Rightarrow> scope_admits sc e) \<and>
        (if IsSeries (e_Key e)
         then \<exists>ep\<in>set (er_Programs (av_ResolveEpisodes avail (e_Key e))). s_LibraryItemID s = p_LibraryItemID ep \<and>
                inSeasonRange e (p_Season ep) \<and> year_allowed (scope_years ds_SeriesAiring (rp_Scope rp)) (p_Year ep) \<and>
                (case what of None \<Rightarrow> True | Some sc \<Rightarrow> year_allowed (scope_years ds_SeriesAiring sc) (p_Year ep)) \<and>
                episode_safe e rp ep
         else \<exists>d. av_Resolve avail (e_Key e) = Some (s_LibraryItemID s, d)))"

lemma resolved_safely:
  assumes "set eligible \<subseteq> set (fst (applyRuleScopeWithTrace (fst (filterEntriesWithTrace entries rp t1)) what t2))"
    and "s \<in> set (fst (resolve_all ft avail pending franchise rp what hs eligible st))" and "IsProgram s"
  shows "airs_safely entries avail rp what s"
proof -
  obtain e st' where e: "e \<in> set eligible"
    "s \<in> set (fst (resolveEntryWithTrace ft e avail pending franchise rp what hs st'))"
    using resolve_all_slots [OF assms(2)] by blast
  have "e \<in> set entries" "entry_kept rp e" "case what of None \<Rightarrow> True | Some sc \<Rightarrow> \<not> scope_refuses sc e"
    using e(1) assms(1) by (auto simp: applyRuleScope_kept filterEntries_eligible)
  moreover have "s_Key s = e_Key e \<and>
      (if IsSeries (e_Key e)
       then \<exists>ep\<in>set (er_Programs (av_ResolveEpisodes avail (e_Key e))). s_LibraryItemID s = p_LibraryItemID ep \<and>
              inSeasonRange e (p_Season ep) \<and> \<not> airing_date_refused rp what ep \<and> episode_safe e rp ep
       else \<exists>d. av_Resolve avail (e_Key e) = Some (s_LibraryItemID s, d))"
    using resolved_slot [OF e(2)] assms(3) by simp
  ultimately show ?thesis unfolding airs_safely_def
    by (intro bexI [of _ e])
      (auto simp: entry_kept_def gate_verdict_keep scope_admits_iff in_collections_iff airing_years_iff split: option.splits)
qed

text \<open>The stages of the computation, for what is proved of the slots.\<close>

lemma computeDesiredAt_stages:
  assumes "rule = fst (pickRule (cp_Rules policy) loc now (channel_calendar ch))" and "rp = desired_policy ch policy rule entries"
  obtains eligible t1 t2 franchise hs st slots brk and placing :: "placement option" where
    "set eligible \<subseteq> set (fst (applyRuleScopeWithTrace (fst (filterEntriesWithTrace entries rp t1)) (sr_What rule) t2))"
    "slots = fst (resolve_all ft avail pending franchise rp (sr_What rule) hs eligible st)"
    "\<And>placed. placing = Some placed \<Longrightarrow> set (pl_tile placed) \<subseteq> set (fst (collapseGroups slots))"
    "rse_Mode (rp_Seasonal rp) \<noteq> SeasonalAuto \<Longrightarrow> depth \<noteq> 0 \<Longrightarrow> placing \<noteq> None"
    "map_option dl_Slots (computeDesiredAt depth draw ft loc ch entries avail pending policy now) =
       (case placing of None \<Rightarrow> None
        | Some placed \<Rightarrow> interleaveBreaks brk (expandGroups (pl_tile placed) (snd (collapseGroups slots))))"
    "\<And>d. computeDesiredAt depth draw ft loc ch entries avail pending policy now = Some d \<Longrightarrow>
       dl_EligibleKeys d = eligible_keys ft avail pending rp (fst (filterEntriesWithTrace entries rp t1))"
proof -
  define window where "window = resolveWindow (sr_Window rule) (cp_Window policy) (ch_DefaultWindow ch)"
  define windowIdx where "windowIdx = windowIndex (if \<not> is_zero_time (ch_WindowOpened ch) then ch_WindowOpened ch else now) window (ch_WindowZone ch)"
  obtain channelEligible report t1 where f: "filterEntriesWithTrace entries rp
      (newScheduleTrace (rp_Ordering rp) (channelSeed ch) (milliseconds window) windowIdx) = (channelEligible, report, t1)"
    by (rule prod_cases3)
  obtain eligible1 t2 where r: "applyRuleScopeWithTrace channelEligible (sr_What rule) t1 = (eligible1, t2)" by fastforce
  define season where "season = activeSeason ft eligible1 rp now (channel_calendar ch) (Some avail)"
  obtain eligible sreport t3 where a: "applySeasonalWithTrace ft eligible1 rp now (channel_calendar ch) season t2 = (eligible, sreport, t3)"
    by (rule prod_cases3)
  obtain slots matches report' t4 where s: "resolve_all ft avail pending (assignFranchiseGroups eligible) rp (sr_What rule)
      (exclusiveEpisodeHolidays rp season) eligible
      (if rse_Mode (rp_Seasonal rp) = SeasonalAuto \<and> \<not> is_zero_time now then Some [] else None,
       Some (report_merge report sreport), t3) = (slots, matches, report', t4)"
    by (metis prod_cases3 surj_pair)
  define brk where "brk = (if ro_NoBreaks (sr_How rule) then ch\<lparr>ch_BreaksPerHour := 0\<rparr> else ch)"
  define planner_for where "planner_for = (\<lambda>dealer. season_planner draw dealer (windowIndex (dealOriginOf ch) window (ch_WindowZone ch)) rp
      window (channel_calendar ch) (breakFactor brk) matches (snd (collapseGroups slots)))"
  define placing where "placing = place_slots depth draw ch rp (channelSeed ch) window windowIdx planner_for (fst (collapseGroups slots))"
  have compute: "computeDesiredAt depth draw ft loc ch entries avail pending policy now =
      (case placing of None \<Rightarrow> None
       | Some placed \<Rightarrow> map_option (\<lambda>finalSlots.
           \<lparr>dl_ChannelID = ch_ID ch, dl_Slots = finalSlots,
            dl_Trace = map_option (\<lambda>b. trace_finish b (pl_applied placed))
                         (tracePlacement t4 (expandGroups (pl_ordered placed) (snd (collapseGroups slots)))
                            (expandGroups (pl_tile placed) (snd (collapseGroups slots))) finalSlots (rp_Ordering rp)),
            dl_Excluded = (case report' of Some r \<Rightarrow> r | None \<Rightarrow> empty_report), dl_Applied = pl_applied placed,
            dl_EligibleKeys = eligible_keys ft avail pending rp channelEligible,
            dl_Cycle = summarizeCycle (expandGroups (pl_ordered placed) (snd (collapseGroups slots))),
            dl_HolidayEpisodes = summary (pl_planner placed) now\<rparr>)
           (interleaveBreaks brk (expandGroups (pl_tile placed) (snd (collapseGroups slots)))))"
    unfolding computeDesiredAt_def Let_def assms(1) [symmetric] assms(2) [symmetric] window_def [symmetric] windowIdx_def [symmetric]
      planner_for_def placing_def brk_def [symmetric]
    by (simp only: f r a s prod.case season_def [symmetric] split_beta fst_conv snd_conv)
  have deals: "deals_from draw planner_for" unfolding planner_for_def by (rule season_planner_deals)
  have seasonal: "hf_seasonal (hp_f (planner_for d)) = rp_Seasonal rp" for d
    by (simp add: planner_for_def season_planner_def newHolidayPlanner_def Let_def)
  have tiles: "set (pl_tile placed) \<subseteq> set (fst (collapseGroups slots))" if "placing = Some placed" for placed
    using place_slots_subset [OF that [unfolded placing_def] deals] by blast
  have off: "placing \<noteq> None" if "rse_Mode (rp_Seasonal rp) \<noteq> SeasonalAuto" "depth \<noteq> 0"
  proof -
    have "\<not> planner_on (planner_for d)" for d using that(1) by (simp add: planner_on_def seasonal)
    from place_slots_off [of planner_for, OF this that(2)] show ?thesis unfolding placing_def by blast
  qed
  have final: "map_option dl_Slots (computeDesiredAt depth draw ft loc ch entries avail pending policy now) =
       (case placing of None \<Rightarrow> None
        | Some placed \<Rightarrow> interleaveBreaks brk (expandGroups (pl_tile placed) (snd (collapseGroups slots))))"
    unfolding compute by (simp add: option.map_comp comp_def option.map_ident split: option.split)
  have keys: "dl_EligibleKeys d = eligible_keys ft avail pending rp (fst (filterEntriesWithTrace entries rp
      (newScheduleTrace (rp_Ordering rp) (channelSeed ch) (milliseconds window) windowIdx)))"
    if "computeDesiredAt depth draw ft loc ch entries avail pending policy now = Some d" for d
    using that unfolding compute f by (auto split: option.splits)
  have "set eligible \<subseteq> set (fst (applyRuleScopeWithTrace (fst (filterEntriesWithTrace entries rp
      (newScheduleTrace (rp_Ordering rp) (channelSeed ch) (milliseconds window) windowIdx))) (sr_What rule) t1))"
    using seasonal.narrow_subset [of ft eligible1 rp now "channel_calendar ch" season t2] a f r by simp
  moreover have "slots = fst (resolve_all ft avail pending (assignFranchiseGroups eligible) rp (sr_What rule)
      (exclusiveEpisodeHolidays rp season) eligible
      (if rse_Mode (rp_Seasonal rp) = SeasonalAuto \<and> \<not> is_zero_time now then Some [] else None,
       Some (report_merge report sreport), t3))"
    by (simp add: s)
  ultimately show thesis by (rule that [OF _ _ tiles off final keys])
qed

lemma desired_mode: "rp_Seasonal (desired_policy ch policy rule entries) = rp_Seasonal (Resolved policy (ch_Strategy ch) (singleSeriesEntries entries))"
  by (simp add: desired_policy_def applyRuleHow_def Let_def)

lemma computeDesiredAt_some:
  assumes "rse_Mode (rp_Seasonal (Resolved policy (ch_Strategy ch) (singleSeriesEntries entries))) \<noteq> SeasonalAuto" and "depth \<noteq> 0"
  shows "\<exists>d. computeDesiredAt depth draw ft loc ch entries avail pending policy now = Some d"
proof -
  obtain rule rp where rule: "rule = fst (pickRule (cp_Rules policy) loc now (channel_calendar ch))"
    and rp: "rp = desired_policy ch policy rule entries" by simp
  have mode: "rse_Mode (rp_Seasonal rp) \<noteq> SeasonalAuto" using assms(1) by (simp add: rp desired_mode)
  obtain slots brk and placing :: "placement option" where
    compute: "map_option dl_Slots (computeDesiredAt depth draw ft loc ch entries avail pending policy now) =
       (case placing of None \<Rightarrow> None
        | Some placed \<Rightarrow> interleaveBreaks brk (expandGroups (pl_tile placed) (snd (collapseGroups slots))))"
    and "placing \<noteq> None"
    by (rule computeDesiredAt_stages [where ft = ft and avail = avail and pending = pending and draw = draw and entries = entries and ch = ch
          and depth = depth, OF rule rp]) (use mode assms(2) in blast)
  then obtain placed where placed: "placing = Some placed" by blast
  obtain out where "interleaveBreaks brk (expandGroups (pl_tile placed) (snd (collapseGroups slots))) = Some out"
    using interleaveBreaks_total by blast
  then show ?thesis using compute placed by (auto simp: map_option_case split: option.splits)
qed

text \<open>Every programme of a computed lineup is one the policy lets through.\<close>

lemma computed_programs_safe:
  assumes d: "computeDesiredAt depth draw ft loc ch entries avail pending policy now = Some d" and t: "t \<in> set (dl_Slots d)" "IsProgram t"
  shows "let rule = fst (pickRule (cp_Rules policy) loc now (channel_calendar ch));
      rp = desired_policy ch policy rule entries
    in airs_safely entries avail rp (sr_What rule) t"
proof -
  define rule where "rule = fst (pickRule (cp_Rules policy) loc now (channel_calendar ch))"
  define rp where "rp = desired_policy ch policy rule entries"
  obtain eligible t1 t2 franchise hs st slots brk and placing :: "placement option" where
    eligible: "set eligible \<subseteq> set (fst (applyRuleScopeWithTrace (fst (filterEntriesWithTrace entries rp t1)) (sr_What rule) t2))"
    and slots: "slots = fst (resolve_all ft avail pending franchise rp (sr_What rule) hs eligible st)"
    and placed: "\<And>placed. placing = Some placed \<Longrightarrow> set (pl_tile placed) \<subseteq> set (fst (collapseGroups slots))"
    and compute: "map_option dl_Slots (computeDesiredAt depth draw ft loc ch entries avail pending policy now) =
       (case placing of None \<Rightarrow> None
        | Some placed \<Rightarrow> interleaveBreaks brk (expandGroups (pl_tile placed) (snd (collapseGroups slots))))"
    by (rule computeDesiredAt_stages [where ft = ft and avail = avail and pending = pending and draw = draw and entries = entries and ch = ch
          and depth = depth, OF rule_def rp_def]) blast
  obtain pl where pl: "placing = Some pl" "interleaveBreaks brk (expandGroups (pl_tile pl) (snd (collapseGroups slots))) = Some (dl_Slots d)"
    using compute d by (auto split: option.splits)
  obtain u where u: "u \<in> set slots" "IsProgram u" "s_Key t = s_Key u" "s_LibraryItemID t = s_LibraryItemID u"
    using interleaveBreaks_programs [OF pl(2) t] expandGroups_subset [OF _ placed [OF pl(1)]] resolved_grouped slots by blast
  then have "airs_safely entries avail rp (sr_What rule) u" using resolved_safely [OF eligible] slots by blast
  then show ?thesis unfolding Let_def rule_def [symmetric] rp_def [symmetric] airs_safely_def by (simp only: u(3,4))
qed

text \<open>
  C1. The lineup of a channel is always produced outside auto-mode holidays, and whenever it is, with
  holidays or without, every programme in it, through grouping, shuffling, repairs, the window, the
  season's simulation and hand-off, the guard and the breaks, is an item the availability offers for an
  approved entry that is safe for the audience (a series episode by its own rating), that the channel's
  scope admits (its years, listed series, genres, longest runtime and collections) and that the active
  rule's scope admits (its years, listed series, genres and longest runtime); an episode is of the
  seasons approved for its entry and of the airing years of both scopes.

  A scope's own seasons and a rule's collections are not in it: the code reads neither when it builds a
  lineup.
\<close>

theorem computeDesiredAt_safe:
  "(rse_Mode (rp_Seasonal (Resolved policy (ch_Strategy ch) (singleSeriesEntries entries))) = SeasonalAuto \<or> depth = 0 \<or>
    (\<exists>d. computeDesiredAt depth draw ft loc ch entries avail pending policy now = Some d)) \<and>
   (case computeDesiredAt depth draw ft loc ch entries avail pending policy now of
      None \<Rightarrow> True
    | Some d \<Rightarrow>
        let rule = fst (pickRule (cp_Rules policy) loc now (channel_calendar ch));
            rp = desired_policy ch policy rule entries
        in list_all (airs_safely entries avail rp (sr_What rule)) (filter IsProgram (dl_Slots d)))"
proof -
  define rule where "rule = fst (pickRule (cp_Rules policy) loc now (channel_calendar ch))"
  define rp where "rp = desired_policy ch policy rule entries"
  have "rse_Mode (rp_Seasonal (Resolved policy (ch_Strategy ch) (singleSeriesEntries entries))) = SeasonalAuto \<or> depth = 0 \<or>
      (\<exists>d. computeDesiredAt depth draw ft loc ch entries avail pending policy now = Some d)"
    using computeDesiredAt_some by blast
  moreover have "case computeDesiredAt depth draw ft loc ch entries avail pending policy now of None \<Rightarrow> True
    | Some d \<Rightarrow> list_all (airs_safely entries avail rp (sr_What rule)) (filter IsProgram (dl_Slots d))"
    using computed_programs_safe [where depth = depth and draw = draw and ft = ft and loc = loc and ch = ch and entries = entries
        and avail = avail and pending = pending and policy = policy and now = now]
    by (auto simp: list_all_iff Let_def rule_def rp_def split: option.split)
  ultimately show ?thesis unfolding Let_def rule_def [symmetric] rp_def [symmetric] by (rule conjI)
qed

definition plain_policy :: ChannelPolicy where
  "plain_policy = empty_policy\<lparr>cp_Seasonal := (cp_Seasonal empty_policy)\<lparr>se_Mode := SeasonalOff\<rparr>\<rparr>"

text \<open>A channel of action films of the eighties, none over two hours or above PG-13, in the order approved.\<close>

definition action_policy :: ChannelPolicy where
  "action_policy = plain_policy
     \<lparr>cp_Scope := (cp_Scope plain_policy)
        \<lparr>sc_Dates := Some \<lparr>ds_MovieRelease = [\<lparr>rg_From = 1980, rg_To = 1989\<rparr>], ds_SeriesPremiere = [], ds_SeriesAiring = []\<rparr>,
          sc_Genres := \<lparr>gf_Include = [''action''], gf_Exclude = []\<rparr>, sc_RuntimeMax := 7200\<rparr>,
      cp_Audience := (cp_Audience plain_policy)\<lparr>au_Ceiling := ''PG-13''\<rparr>\<rparr>"

abbreviation no_draw :: random_draw where "no_draw \<equiv> \<lambda>_ _ i. i"

lemma place_endless:
  assumes "\<And>d. \<not> planner_on (planner_for d)" and "rp_LastAired rp = Map.empty"
  shows "\<exists>placed. place_slots (Suc n) draw ch rp seed 0 idx planner_for collapsed = Some placed \<and> pl_tile placed = pl_ordered placed"
proof -
  have "windowSliceDealt draw (newDeckDealer collapsed rp seed 0) 0 age = (aired draw (newDeckDealer collapsed rp seed 0) 0, 0)" for age
    by (simp add: windowSliceDealt_def newDeckDealer_def Let_def)
  then show ?thesis
    by (simp add: place_slots_def Let_def split_beta assms(2) tile_off [OF assms(1)] arrange_off [OF assms(1)] del: tile_fuel.simps)
qed

definition film :: Slot where
  "film = movie_slot sample_entry Map.empty ''item-85'' 6900000"

lemma action_film: "entry_kept (desired_policy zero_channel action_policy empty_rule [sample_entry]) sample_entry"
proof -
  define rp where "rp = desired_policy zero_channel action_policy empty_rule [sample_entry]"
  have rp: "rp_Scope rp = cp_Scope action_policy" "rp_Ceiling rp = ''PG-13''"
    by (simp_all add: rp_def desired_policy_def applyRuleHow_def Resolved_def Let_def action_policy_def)
  have "audienceVerdict ''PG'' ''PG-13'' u = verdictKeep" for u
    by (cases u) code_simp+
  then have "gate_verdict rp (e_OfficialRating sample_entry) = verdictKeep"
    by (simp add: gate_verdict_def rp(2) sample_entry_def)
  moreover have "set (genreTerms ''Action'') \<inter> set (genreTerms ''action'') \<noteq> {}" by code_simp
  then have "scope_admits (cp_Scope action_policy) sample_entry" "boxSetOK sample_entry (sc_Collections (cp_Scope action_policy))"
    by (simp_all add: sample_entry_def scope_admits_def action_policy_def plain_policy_def empty_policy_def scope_years_def
        year_allowed_def shares_genre_def IsSeries_def has_prefix_def boxSetOK_def)
  ultimately show ?thesis
    unfolding entry_kept_def rp_def [symmetric] by (simp add: rp(1) scope_admits_iff [symmetric])
qed
lemma film_resolved:
  "fst (resolve_all ft sample_availability PodFill (assignFranchiseGroups [sample_entry]) rp what hs [sample_entry] st) = [film]"
proof -
  have "assignFranchiseGroups [sample_entry] = Map.empty" by (simp add: assignFranchiseGroups_def franchise_films_def sample_entry_def Let_def)
  moreover have "\<not> IsSeries (e_Key sample_entry)" by (simp add: sample_entry_def IsSeries_def has_prefix_def)
  ultimately show ?thesis
    by (simp add: resolve_all_def resolveEntryWithTrace_def sample_availability_def film_def split: prod.splits)
qed


lemma film_collapsed:
  "fst (collapseGroups [film]) = [film]" "set xs = {film} \<Longrightarrow> set (expandGroups xs (snd (collapseGroups [film]))) = {film}"
  by (auto simp: collapseGroups_def expandGroups_def film_def movie_slot_def empty_slot_def expand_slot_def group_parts_def in_group_def)

lemma slots_placed:
  "map_option dl_Slots (case x of None \<Rightarrow> None | Some p \<Rightarrow> map_option (Q p) (Some (g p))) = map_option (\<lambda>p. dl_Slots (Q p (g p))) x"
  by (cases x) simp_all

lemma film_lineup:
  obtains d where "computeDesiredAt 1 no_draw (\<lambda>t. t) None zero_channel [sample_entry] sample_availability PodFill action_policy 0 = Some d"
    and "set (dl_Slots d) = {film}"
proof -
  let ?compute = "computeDesiredAt 1 no_draw (\<lambda>t. t) None zero_channel [sample_entry] sample_availability PodFill action_policy 0"
  define rp where "rp = desired_policy zero_channel action_policy empty_rule [sample_entry]"
  define pf where "pf = (\<lambda>m d. season_planner no_draw d (windowIndex (dealOriginOf zero_channel) 0 (ch_WindowZone zero_channel)) rp 0
     (channel_calendar zero_channel) (breakFactor zero_channel) m (snd (collapseGroups [film])))"
  have rule: "fst (pickRule (cp_Rules action_policy) None 0 cal) = empty_rule" for cal
    by (simp add: pickRule_def pickRuleIndex_def action_policy_def plain_policy_def empty_policy_def)
  have opened: "is_zero_time (ch_WindowOpened zero_channel)" by (simp add: is_zero_time_def zero_channel_def)
  have zero: "is_zero_time 0" by (simp add: is_zero_time_def)
  have fields: "sr_What empty_rule = None" "ro_NoBreaks (sr_How empty_rule) = False"
    by (simp_all add: empty_rule_def)
  have window: "resolveWindow (sr_Window empty_rule) (cp_Window action_policy) (ch_DefaultWindow zero_channel) = 0"
    by (simp add: resolveWindow_def action_policy_def plain_policy_def empty_policy_def zero_channel_def pick_window_def empty_rule_def)
  have last: "rp_LastAired rp = Map.empty" by (simp add: rp_def desired_policy_def zero_channel_def)
  have off: "rse_Mode (rp_Seasonal rp) = SeasonalOff" 
    by (simp add: rp_def desired_mode Resolved_def Let_def action_policy_def plain_policy_def)
  have planner: "\<not> planner_on (pf m dealer)" for m dealer
    by (simp add: pf_def planner_on_def season_planner_def newHolidayPlanner_def off Let_def)
  have kept: "fst (filterEntriesWithTrace [sample_entry] rp t) = [sample_entry]" for t
    using action_film by (simp add: filterEntries_eligible rp_def)
  have out: "interleaveBreaks zero_channel slots = Some slots" for slots
    by (simp add: interleaveBreaks_def zero_channel_def)
  define place where "place = (\<lambda>m. place_slots (Suc 0) no_draw zero_channel rp (channelSeed zero_channel) 0 (windowIndex 0 0 (ch_WindowZone zero_channel)) (pf m) [film])"
  have "\<exists>m. map_option dl_Slots ?compute = map_option (\<lambda>pl. expandGroups (pl_tile pl) (snd (collapseGroups [film]))) (place m)"
    unfolding computeDesiredAt_def Let_def split_beta rule fields window rp_def [symmetric] applyRuleScopeWithTrace_def applySeasonalWithTrace_def
    by (simp only: simp_thms if_True if_False option.case fst_conv snd_conv kept film_resolved film_collapsed(1) pf_def out opened zero
        slots_placed DesiredLineup.select_convs One_nat_def place_def) (rule exI, rule refl)
  then obtain m where compute: "map_option dl_Slots ?compute = map_option (\<lambda>pl. expandGroups (pl_tile pl) (snd (collapseGroups [film]))) (place m)"
    by blast
  obtain pl where pl: "place m = Some pl" "pl_tile pl = pl_ordered pl"
    using place_endless [of "pf m" rp 0 no_draw zero_channel] planner last unfolding place_def by blast
  have "set (pl_tile pl) = {film}"
    using place_slots_subset [OF pl(1) [unfolded place_def]] season_planner_deals unfolding pl(2) pf_def by fastforce
  then show thesis using compute pl(1) film_collapsed(2) that by (cases ?compute) auto
qed

lemma film_kind: "s_Kind film = SlotProgram"
  by (simp add: film_def movie_slot_def)

theorem computeDesiredAt_safe_witness:
  "\<exists>d. computeDesiredAt 1 no_draw (\<lambda>t. t) None zero_channel [sample_entry] sample_availability PodFill action_policy 0 = Some d \<and>
     set (dl_Slots d) = {film} \<and> IsProgram film \<and>
     airs_safely [sample_entry] sample_availability (desired_policy zero_channel action_policy empty_rule [sample_entry]) None film"
proof -
  obtain d where d: "computeDesiredAt 1 no_draw (\<lambda>t. t) None zero_channel [sample_entry] sample_availability PodFill action_policy 0 = Some d"
    "set (dl_Slots d) = {film}"
    by (rule film_lineup)
  have "fst (pickRule (cp_Rules action_policy) None 0 (channel_calendar zero_channel)) = empty_rule" "sr_What empty_rule = None"
    by (simp_all add: pickRule_def pickRuleIndex_def action_policy_def plain_policy_def empty_policy_def empty_rule_def)
  then show ?thesis
    using computeDesiredAt_safe [of action_policy zero_channel "[sample_entry]" 1 no_draw "\<lambda>t. t" None sample_availability PodFill 0] d film_kind
    by (simp add: Let_def list_all_iff IsProgram_def)
qed

text \<open>A key that airs is one the channel is eligible to air.\<close>

lemma airs_eligible:
  assumes "set eligible \<subseteq> set (fst (applyRuleScopeWithTrace (fst (filterEntriesWithTrace entries rp t1)) what t2))"
    and "s \<in> set (fst (resolve_all ft avail pending franchise rp what hs eligible st))" and "IsProgram s"
  shows "s_Key s \<in> eligible_keys ft avail pending rp (fst (filterEntriesWithTrace entries rp t1))"
proof -
  obtain e st' where e: "e \<in> set eligible"
    "s \<in> set (fst (resolveEntryWithTrace ft e avail pending franchise rp what hs st'))"
    using resolve_all_slots [OF assms(2)] by blast
  have eligible: "e \<in> set (fst (filterEntriesWithTrace entries rp t1))"
    using e(1) assms(1) by (auto simp: applyRuleScope_kept)
  have "airs_something (fst (resolveEntryWithTrace ft e avail pending franchise rp what hs st'))"
    using e(2) assms(3) by (auto simp: airs_something_def)
  from resolveEntry_widens [OF this] obtain u where u: "u \<in> set (resolveEntry ft e avail pending Map.empty rp)" "IsProgram u"
    by (auto simp: airs_something_def)
  have "s_Key u = s_Key s" using resolved_slot [OF e(2)] resolved_slot [OF u(1) [unfolded resolveEntry_def]] by simp
  then have "s_Key s \<in> set (map s_Key (filter IsProgram (resolveEntry ft e avail pending Map.empty rp)))"
    using u by (auto simp: image_iff intro!: bexI [of _ u])
  with eligible show ?thesis unfolding eligible_keys_def set_concat set_map [of "\<lambda>e. map s_Key (filter IsProgram (resolveEntry ft e avail pending Map.empty rp))"]
    unfolding image_image by (rule UN_I)
qed

text \<open>
  C12. Nothing airs that drift detection would call foreign: every programme of a computed lineup,
  under the active rule's scope, the season, grouping, the window, the guard and the breaks, carries a
  key of \<open>EligibleKeys\<close>, which is computed from the channel's own gate without any of them.
\<close>

theorem computeDesiredAt_eligible:
  "\<forall>d\<in>set_option (computeDesiredAt depth draw ft loc ch entries avail pending policy now).
     set (map s_Key (filter IsProgram (dl_Slots d))) \<subseteq> dl_EligibleKeys d"
proof
  fix d assume "d \<in> set_option (computeDesiredAt depth draw ft loc ch entries avail pending policy now)"
  then have d: "computeDesiredAt depth draw ft loc ch entries avail pending policy now = Some d" by simp
  obtain rule where rule: "rule = fst (pickRule (cp_Rules policy) loc now (channel_calendar ch))" by simp
  obtain rp where rp: "rp = desired_policy ch policy rule entries" by simp
  obtain eligible t1 t2 franchise hs st slots brk and placing :: "placement option" where
    eligible: "set eligible \<subseteq> set (fst (applyRuleScopeWithTrace (fst (filterEntriesWithTrace entries rp t1)) (sr_What rule) t2))"
    and slots: "slots = fst (resolve_all ft avail pending franchise rp (sr_What rule) hs eligible st)"
    and placed: "\<And>placed. placing = Some placed \<Longrightarrow> set (pl_tile placed) \<subseteq> set (fst (collapseGroups slots))"
    and compute: "map_option dl_Slots (computeDesiredAt depth draw ft loc ch entries avail pending policy now) =
       (case placing of None \<Rightarrow> None
        | Some placed \<Rightarrow> interleaveBreaks brk (expandGroups (pl_tile placed) (snd (collapseGroups slots))))"
    and keys: "\<And>d. computeDesiredAt depth draw ft loc ch entries avail pending policy now = Some d \<Longrightarrow>
       dl_EligibleKeys d = eligible_keys ft avail pending rp (fst (filterEntriesWithTrace entries rp t1))"
    by (rule computeDesiredAt_stages [where ft = ft and avail = avail and pending = pending and draw = draw and entries = entries and ch = ch
          and depth = depth, OF rule rp]) blast
  obtain pl where pl: "placing = Some pl"
    and out: "interleaveBreaks brk (expandGroups (pl_tile pl) (snd (collapseGroups slots))) = Some (dl_Slots d)"
    using compute d by (auto split: option.splits)
  have "s_Key t \<in> dl_EligibleKeys d" if t: "t \<in> set (dl_Slots d)" "IsProgram t" for t
  proof -
    obtain u where "u \<in> set slots" "IsProgram u" "s_Key t = s_Key u"
      using interleaveBreaks_programs [OF out t] expandGroups_subset [OF _ placed [OF pl]] resolved_grouped slots by blast
    then show ?thesis using airs_eligible [OF eligible] slots unfolding keys [OF d] by simp
  qed
  then show "set (map s_Key (filter IsProgram (dl_Slots d))) \<subseteq> dl_EligibleKeys d" by auto
qed

theorem computeDesiredAt_eligible_witness:
  "\<exists>d. computeDesiredAt 1 (\<lambda>_ _ i. i) (\<lambda>t. t) None zero_channel [sample_entry] sample_availability PodFill plain_policy 0 = Some d \<and>
     set (map s_Key (filter IsProgram (dl_Slots d))) \<subseteq> dl_EligibleKeys d"
proof -
  have "rse_Mode (rp_Seasonal (Resolved plain_policy (ch_Strategy zero_channel) (singleSeriesEntries [sample_entry]))) \<noteq> SeasonalAuto"
    by (simp add: Resolved_def Let_def plain_policy_def)
  from computeDesiredAt_some [OF this, of 1] obtain d where
    "computeDesiredAt 1 (\<lambda>_ _ i. i) (\<lambda>t. t) None zero_channel [sample_entry] sample_availability PodFill plain_policy 0 = Some d" by blast
  then show ?thesis
    using computeDesiredAt_eligible [of 1 "\<lambda>_ _ i. i" "\<lambda>t. t" None zero_channel "[sample_entry]" sample_availability PodFill plain_policy 0]
    by auto
qed

text \<open>More depth never changes a lineup.\<close>

lemma place_slots_depth:
  assumes "place_slots depth draw ch rp seed window windowIdx planner_for collapsed = Some placed" and "depth \<le> depth'"
  shows "place_slots depth' draw ch rp seed window windowIdx planner_for collapsed = Some placed"
proof -
  have tile: "tile_fuel depth draw p w dealt = Some tile \<Longrightarrow> tile_fuel depth' draw p w dealt = Some tile" for p w dealt tile
    using tile_fuel_mono assms(2) by blast
  have guard: "guarded_tile depth draw p d history age i window zone ordered tile = Some tile' \<Longrightarrow>
      guarded_tile depth' draw p d history age i window zone ordered tile = Some tile'" for p d history age i zone ordered tile tile'
    using tile by (auto simp: guarded_tile_def Let_def split: if_splits)
  show ?thesis
    using assms(1) tile guard unfolding place_slots_def Let_def split_beta by (auto split: option.splits if_split_asm)
qed

lemma computeDesiredAt_depth:
  assumes "computeDesiredAt depth draw ft loc ch entries avail pending policy now = Some d" and "depth \<le> depth'"
  shows "computeDesiredAt depth' draw ft loc ch entries avail pending policy now = Some d"
proof -
  have "(case place_slots depth draw ch rp seed window i planner_for collapsed of None \<Rightarrow> None | Some placed \<Rightarrow> f placed) = Some d \<Longrightarrow>
      (case place_slots depth' draw ch rp seed window i planner_for collapsed of None \<Rightarrow> None | Some placed \<Rightarrow> f placed) = Some d"
    for rp seed window i planner_for collapsed and f :: "placement \<Rightarrow> DesiredLineup option"
    using place_slots_depth [OF _ assms(2)] by (fastforce split: option.splits)
  then show ?thesis using assms(1) unfolding computeDesiredAt_def Let_def split_beta .
qed

end
