(* ===== verification/Lineup_Apply.thy ===== *)
theory Lineup_Apply
  imports Filters
begin

text \<open>
  Every write to a channel's approved lineup, \<^verbatim>\<open>internal/schedule/lineup_apply.go\<close>: an operator's
  replacement, the unattended additive merge and the metadata heal; and the filler context a lineup
  implies, \<^verbatim>\<open>internal/schedule/filler_derive.go\<close>.

  A Go map from keys to entries built by a loop holds the last entry of each key (\<open>last_by_key\<close>). The
  callbacks \<^verbatim>\<open>Drop\<close> and \<^verbatim>\<open>Enrich\<close> are functions of the model's options, \<open>None\<close> where the code has nil.

  The lemmas show what a replacement carries over and that saving it again changes nothing, that the
  unattended merge loses only entries reported droppable, and what the derived filler context spans.
\<close>

section \<open>Applying a lineup\<close>

datatype LineupMode = LineupReplace | LineupAdditive | LineupHeal

record ApplyOpts =
  ao_PreserveByKey :: bool
  ao_Drop :: "(LineupEntry \<Rightarrow> bool) option"
  ao_Enrich :: "(LineupEntry \<Rightarrow> LineupEntry) option"
  ao_Now :: gotime

definition last_by_key :: "LineupEntry list \<Rightarrow> Key \<rightharpoonup> LineupEntry" where
  "last_by_key es = fold (\<lambda>e m. m(e_Key e \<mapsto> e)) es Map.empty"

definition mergePreserve :: "LineupEntry \<Rightarrow> LineupEntry \<Rightarrow> LineupEntry" where
  "mergePreserve cur inc =
     (let out = inc;
          out = (if e_DurationMs out = 0 then out\<lparr>e_DurationMs := e_DurationMs cur\<rparr> else out);
          out = (if e_OfficialRating out = '''' then out\<lparr>e_OfficialRating := e_OfficialRating cur\<rparr> else out);
          out = (if e_RuntimeSec out = 0 then out\<lparr>e_RuntimeSec := e_RuntimeSec cur\<rparr> else out);
          out = (if e_CollectionID out = 0 then out\<lparr>e_CollectionID := e_CollectionID cur\<rparr> else out);
          out = (if e_SeasonMin out = 0 \<and> e_SeasonMax out = 0
                 then out\<lparr>e_SeasonMin := e_SeasonMin cur, e_SeasonMax := e_SeasonMax cur\<rparr> else out)
      in if es_Mode (e_EpisodeSelection out) = EpisodeUnset
         then out\<lparr>e_EpisodeSelection := e_EpisodeSelection cur\<rparr> else out)"

definition replace_entry :: "(Key \<rightharpoonup> LineupEntry) \<Rightarrow> bool \<Rightarrow> gotime \<Rightarrow> LineupEntry \<Rightarrow> LineupEntry" where
  "replace_entry byKey preserve now inc =
     (let out = (case byKey (e_Key inc) of
                   None \<Rightarrow> inc
                 | Some cur \<Rightarrow>
                     (let out = (if preserve then mergePreserve cur inc else inc);
                          out = (if \<not> is_zero_time (e_AddedAt cur) then out\<lparr>e_AddedAt := e_AddedAt cur\<rparr> else out)
                      in if e_Fit out = 0 then out\<lparr>e_Fit := e_Fit cur\<rparr> else out))
      in if is_zero_time (e_AddedAt out) then out\<lparr>e_AddedAt := now\<rparr> else out)"

definition applyReplace :: "LineupEntry list \<Rightarrow> LineupEntry list \<Rightarrow> bool \<Rightarrow> gotime \<Rightarrow> LineupEntry list" where
  "applyReplace current incoming preserve now = map (replace_entry (last_by_key current) preserve now) incoming"

text \<open>The additive merge: the existing entries first, then what is new, with the keys seen so far.\<close>

fun keep_existing ::
  "(Key \<rightharpoonup> LineupEntry) \<Rightarrow> (LineupEntry \<Rightarrow> bool) option \<Rightarrow> LineupEntry list \<Rightarrow> LineupEntry list" where
  "keep_existing fresh drop_it [] = []"
| "keep_existing fresh drop_it (e # es) =
     (case fresh (e_Key e) of
        None \<Rightarrow> (if (case drop_it of None \<Rightarrow> False | Some d \<Rightarrow> d e) then keep_existing fresh drop_it es
                else e # keep_existing fresh drop_it es)
      | Some pick \<Rightarrow> (if e_Fit pick > 0 then e\<lparr>e_Fit := e_Fit pick\<rparr> else e) # keep_existing fresh drop_it es)"

fun append_new :: "Key set \<Rightarrow> LineupEntry list \<Rightarrow> LineupEntry list" where
  "append_new kept [] = []"
| "append_new kept (e # es) =
     (if e_Key e \<in> kept then append_new kept es else e # append_new (insert (e_Key e) kept) es)"

definition applyAdditive ::
  "LineupEntry list \<Rightarrow> LineupEntry list \<Rightarrow> (LineupEntry \<Rightarrow> bool) option \<Rightarrow> LineupEntry list" where
  "applyAdditive existing fresh drop_it =
     (let old = keep_existing (last_by_key fresh) drop_it existing
      in old @ append_new (e_Key ` set old) fresh)"

definition applyHeal :: "LineupEntry list \<Rightarrow> (LineupEntry \<Rightarrow> LineupEntry) option \<Rightarrow> LineupEntry list" where
  "applyHeal current enrich = (case enrich of None \<Rightarrow> current | Some f \<Rightarrow> map f current)"

definition ApplyLineup :: "LineupEntry list \<Rightarrow> LineupEntry list \<Rightarrow> LineupMode \<Rightarrow> ApplyOpts \<Rightarrow> LineupEntry list" where
  "ApplyLineup current incoming mode opts =
     (case mode of
        LineupAdditive \<Rightarrow> applyAdditive current incoming (ao_Drop opts)
      | LineupHeal \<Rightarrow> applyHeal current (ao_Enrich opts)
      | LineupReplace \<Rightarrow> applyReplace current incoming (ao_PreserveByKey opts) (ao_Now opts))"

subsection \<open>The last entry of a key\<close>

lemma last_by_key_Nil [simp]: "last_by_key [] = Map.empty"
  by (simp add: last_by_key_def)

lemma last_by_key_snoc [simp]: "last_by_key (es @ [e]) = (last_by_key es)(e_Key e \<mapsto> e)"
  by (simp add: last_by_key_def)

lemma last_by_key_SomeD: "last_by_key es k = Some e \<Longrightarrow> e \<in> set es \<and> e_Key e = k"
  by (induction es rule: rev_induct) (auto split: if_splits)

lemma last_by_key_None [simp]: "last_by_key es k = None \<longleftrightarrow> k \<notin> e_Key ` set es"
  by (induction es rule: rev_induct) auto

lemma last_by_key_distinct: "distinct (map e_Key es) \<Longrightarrow> e \<in> set es \<Longrightarrow> last_by_key es (e_Key e) = Some e"
  by (induction es rule: rev_induct) (auto simp: image_iff)

subsection \<open>Replacement\<close>

text \<open>What an entry brings of its own, and is never taken from the current lineup.\<close>

definition same_display :: "LineupEntry \<Rightarrow> LineupEntry \<Rightarrow> bool" where
  "same_display a b \<longleftrightarrow> e_Key a = e_Key b \<and> e_Title a = e_Title b \<and> e_Year a = e_Year b \<and> e_Genres a = e_Genres b \<and>
     e_BoxSetIDs a = e_BoxSetIDs b \<and> e_BoxSetsResolved a = e_BoxSetsResolved b"

text \<open>A conditional update of a field is an update by a conditional value.\<close>

lemma update_if:
  "(if c then r\<lparr>e_DurationMs := d\<rparr> else r) = r\<lparr>e_DurationMs := if c then d else e_DurationMs r\<rparr>"
  "(if c then r\<lparr>e_OfficialRating := x\<rparr> else r) = r\<lparr>e_OfficialRating := if c then x else e_OfficialRating r\<rparr>"
  "(if c then r\<lparr>e_RuntimeSec := d\<rparr> else r) = r\<lparr>e_RuntimeSec := if c then d else e_RuntimeSec r\<rparr>"
  "(if c then r\<lparr>e_CollectionID := d\<rparr> else r) = r\<lparr>e_CollectionID := if c then d else e_CollectionID r\<rparr>"
  "(if c then r\<lparr>e_SeasonMin := d, e_SeasonMax := d'\<rparr> else r) =
     r\<lparr>e_SeasonMin := if c then d else e_SeasonMin r, e_SeasonMax := if c then d' else e_SeasonMax r\<rparr>"
  "(if c then r\<lparr>e_EpisodeSelection := q\<rparr> else r) = r\<lparr>e_EpisodeSelection := if c then q else e_EpisodeSelection r\<rparr>"
  "(if c then r\<lparr>e_AddedAt := t\<rparr> else r) = r\<lparr>e_AddedAt := if c then t else e_AddedAt r\<rparr>"
  "(if c then r\<lparr>e_Fit := g\<rparr> else r) = r\<lparr>e_Fit := if c then g else e_Fit r\<rparr>"
  by simp_all

lemmas replace_simps = replace_entry_def mergePreserve_def Let_def is_zero_time_def update_if

lemma replace_new: "byKey (e_Key e) = None \<Longrightarrow>
  replace_entry byKey preserve now e = e\<lparr>e_AddedAt := if e_AddedAt e = 0 then now else e_AddedAt e\<rparr>"
  by (simp add: replace_simps)

lemma mergePreserve_flat:
  "mergePreserve cur inc = inc
     \<lparr>e_DurationMs := if e_DurationMs inc = 0 then e_DurationMs cur else e_DurationMs inc,
      e_OfficialRating := if e_OfficialRating inc = '''' then e_OfficialRating cur else e_OfficialRating inc,
      e_RuntimeSec := if e_RuntimeSec inc = 0 then e_RuntimeSec cur else e_RuntimeSec inc,
      e_CollectionID := if e_CollectionID inc = 0 then e_CollectionID cur else e_CollectionID inc,
      e_SeasonMin := if e_SeasonMin inc = 0 \<and> e_SeasonMax inc = 0 then e_SeasonMin cur else e_SeasonMin inc,
      e_SeasonMax := if e_SeasonMin inc = 0 \<and> e_SeasonMax inc = 0 then e_SeasonMax cur else e_SeasonMax inc,
      e_EpisodeSelection := if es_Mode (e_EpisodeSelection inc) = EpisodeUnset then e_EpisodeSelection cur
                            else e_EpisodeSelection inc\<rparr>"
  by (simp add: mergePreserve_def Let_def update_if)

lemma replace_known:
  assumes "byKey (e_Key e) = Some cur"
  shows "replace_entry byKey preserve now e = (if preserve then mergePreserve cur e else e)
     \<lparr>e_AddedAt := if e_AddedAt cur \<noteq> 0 then e_AddedAt cur else if e_AddedAt e \<noteq> 0 then e_AddedAt e else now,
      e_Fit := if e_Fit e = 0 then e_Fit cur else e_Fit e\<rparr>"
  using assms by (simp add: replace_entry_def Let_def is_zero_time_def update_if mergePreserve_flat)

lemma replace_display: "same_display (replace_entry byKey preserve now e) e"
  by (cases "byKey (e_Key e)") (simp_all add: replace_new replace_known mergePreserve_flat same_display_def)

lemma replace_key [simp]: "e_Key (replace_entry byKey preserve now e) = e_Key e"
  using replace_display by (simp add: same_display_def)

text \<open>What a replacement with metadata preserved never loses: a field stays blank only where both are.\<close>

definition loses_nothing :: "LineupEntry \<Rightarrow> LineupEntry \<Rightarrow> bool" where
  "loses_nothing cur out \<longleftrightarrow>
     (e_DurationMs out = 0 \<longrightarrow> e_DurationMs cur = 0) \<and> (e_OfficialRating out = '''' \<longrightarrow> e_OfficialRating cur = '''') \<and>
     (e_RuntimeSec out = 0 \<longrightarrow> e_RuntimeSec cur = 0) \<and> (e_CollectionID out = 0 \<longrightarrow> e_CollectionID cur = 0) \<and>
     (e_SeasonMin out = 0 \<and> e_SeasonMax out = 0 \<longrightarrow> e_SeasonMin cur = 0 \<and> e_SeasonMax cur = 0) \<and>
     (es_Mode (e_EpisodeSelection out) = EpisodeUnset \<longrightarrow> es_Mode (e_EpisodeSelection cur) = EpisodeUnset)"

lemma replace_lossless:
  "byKey (e_Key e) = Some cur \<Longrightarrow> loses_nothing cur (replace_entry byKey True now e)"
  by (simp add: replace_known mergePreserve_flat loses_nothing_def) blast

lemma replace_added:
  assumes "now \<noteq> 0"
  shows "e_AddedAt (replace_entry byKey preserve now e) \<noteq> 0"
    and "byKey (e_Key e) = Some cur \<Longrightarrow> e_AddedAt cur \<noteq> 0 \<Longrightarrow> e_AddedAt (replace_entry byKey preserve now e) = e_AddedAt cur"
    and "byKey (e_Key e) = Some cur \<Longrightarrow> e_Fit (replace_entry byKey preserve now e) = 0 \<Longrightarrow> e_Fit e = 0 \<and> e_Fit cur = 0"
  using assms by (cases "byKey (e_Key e)"; simp add: replace_new replace_known split: if_splits)+

text \<open>An entry merged again over its own result stays what it is.\<close>

lemma mergePreserve_again:
  "mergePreserve (mergePreserve cur inc\<lparr>e_AddedAt := t, e_Fit := g\<rparr>) inc = mergePreserve cur inc"
  "mergePreserve (inc\<lparr>e_AddedAt := t, e_Fit := g\<rparr>) inc = inc"
  by (simp_all add: mergePreserve_flat)

lemma replace_again:
  assumes "byKey' (e_Key e) = Some (replace_entry byKey preserve now e)" and "now \<noteq> 0"
  shows "replace_entry byKey' preserve now' e = replace_entry byKey preserve now e"
proof -
  have added: "e_AddedAt (replace_entry byKey preserve now e) \<noteq> 0" by (rule replace_added [OF assms(2)])
  show ?thesis
  proof (cases "byKey (e_Key e)")
    case None
    then show ?thesis using added
      unfolding replace_known [of byKey' e, OF assms(1)] replace_new [of byKey e, OF None] by (simp add: mergePreserve_flat)
  next
    case (Some cur)
    then show ?thesis using added unfolding replace_known [of byKey' e, OF assms(1)] replace_known [of byKey e, OF Some]
      by (cases preserve) (simp_all add: mergePreserve_again)
  qed
qed

lemma applyReplace_again:
  assumes "distinct (map e_Key incoming)" and "now \<noteq> 0"
  shows "applyReplace (applyReplace current incoming preserve now) incoming preserve now' = applyReplace current incoming preserve now"
proof -
  have keys: "map e_Key (applyReplace current incoming preserve now) = map e_Key incoming"
    by (simp add: applyReplace_def)
  have "last_by_key (applyReplace current incoming preserve now) (e_Key e) = Some (replace_entry (last_by_key current) preserve now e)"
    if "e \<in> set incoming" for e
  proof -
    have "replace_entry (last_by_key current) preserve now e \<in> set (applyReplace current incoming preserve now)"
      using that by (simp add: applyReplace_def)
    moreover have "distinct (map e_Key (applyReplace current incoming preserve now))" unfolding keys by (rule assms(1))
    ultimately show ?thesis using last_by_key_distinct by (metis replace_key)
  qed
  then show ?thesis using replace_again [OF _ assms(2)] unfolding applyReplace_def [of _ incoming preserve now']
    by (simp add: applyReplace_def [of current])
qed

subsection \<open>The additive merge\<close>

definition rescored :: "(Key \<rightharpoonup> LineupEntry) \<Rightarrow> LineupEntry \<Rightarrow> LineupEntry" where
  "rescored fresh e = (case fresh (e_Key e) of None \<Rightarrow> e | Some pick \<Rightarrow> if e_Fit pick > 0 then e\<lparr>e_Fit := e_Fit pick\<rparr> else e)"

definition droppable :: "(LineupEntry \<Rightarrow> bool) option \<Rightarrow> LineupEntry \<Rightarrow> bool" where
  "droppable drop_it e \<longleftrightarrow> (case drop_it of None \<Rightarrow> False | Some d \<Rightarrow> d e)"

lemma rescored_key [simp]: "e_Key (rescored fresh e) = e_Key e"
  by (simp add: rescored_def split: option.split)

lemma keep_existing_spec:
  "keep_existing fresh drop_it es =
   map (rescored fresh) (filter (\<lambda>e. fresh (e_Key e) \<noteq> None \<or> \<not> droppable drop_it e) es)"
  by (induction es) (auto simp: rescored_def droppable_def split: option.splits)

lemma append_new_spec:
  "distinct (map e_Key es) \<Longrightarrow> append_new kept es = filter (\<lambda>e. e_Key e \<notin> kept) es"
proof (induction es arbitrary: kept)
  case (Cons e es)
  then have "filter (\<lambda>a. e_Key a \<notin> insert (e_Key e) kept) es = filter (\<lambda>a. e_Key a \<notin> kept) es"
    by (intro filter_cong refl) (auto simp: image_iff)
  then show ?case using Cons by simp
qed simp

text \<open>The merge against its reference: what stays, re-scored, then what is new.\<close>

lemma applyAdditive_spec:
  assumes "distinct (map e_Key fresh)"
  shows "applyAdditive existing fresh drop_it =
    map (rescored (last_by_key fresh)) (filter (\<lambda>e. e_Key e \<in> e_Key ` set fresh \<or> \<not> droppable drop_it e) existing) @
    filter (\<lambda>e. e_Key e \<notin> e_Key ` set existing) fresh"
proof -
  let ?old = "keep_existing (last_by_key fresh) drop_it existing"
  have old: "?old = map (rescored (last_by_key fresh))
      (filter (\<lambda>e. e_Key e \<in> e_Key ` set fresh \<or> \<not> droppable drop_it e) existing)"
    unfolding keep_existing_spec last_by_key_None by simp
  have "e_Key e \<notin> e_Key ` set ?old \<longleftrightarrow> e_Key e \<notin> e_Key ` set existing" if "e \<in> set fresh" for e
    using that unfolding old by (auto simp: image_iff) (metis image_iff)+
  then show ?thesis unfolding applyAdditive_def Let_def append_new_spec [OF assms] unfolding old [symmetric]
    by (simp cong: filter_cong)
qed

text \<open>
  C30. Saving a lineup loses nothing it was not asked to change: a replacement has the incoming entries in
  their order with their own display fields, keeps the first \<open>AddedAt\<close> of every entry that stays and
  stamps every new one, with metadata preserved leaves a field blank only where the current entry's is
  blank, and saving the same edit again, at whatever time, changes nothing.
\<close>

theorem ApplyLineup_replace:
  assumes "ao_Now opts \<noteq> 0" and "distinct (map e_Key incoming)"
  shows "let out = ApplyLineup current incoming LineupReplace opts in
    list_all2 same_display out incoming \<and>
    list_all (\<lambda>e. e_AddedAt e \<noteq> 0 \<and>
      (case last_by_key current (e_Key e) of None \<Rightarrow> True
       | Some cur \<Rightarrow> (e_AddedAt cur = 0 \<or> e_AddedAt e = e_AddedAt cur) \<and> (e_Fit e = 0 \<longrightarrow> e_Fit cur = 0) \<and>
                    (ao_PreserveByKey opts \<longrightarrow> loses_nothing cur e))) out \<and>
    ApplyLineup out incoming LineupReplace (opts\<lparr>ao_Now := later\<rparr>) = out"
proof -
  define f where "f = replace_entry (last_by_key current) (ao_PreserveByKey opts) (ao_Now opts)"
  have out: "ApplyLineup current incoming LineupReplace opts = map f incoming"
    by (simp add: ApplyLineup_def applyReplace_def f_def)
  have kept: "e_AddedAt (f e) \<noteq> 0 \<and>
      (case last_by_key current (e_Key e) of None \<Rightarrow> True
       | Some cur \<Rightarrow> (e_AddedAt cur = 0 \<or> e_AddedAt (f e) = e_AddedAt cur) \<and> (e_Fit (f e) = 0 \<longrightarrow> e_Fit cur = 0) \<and>
                    (ao_PreserveByKey opts \<longrightarrow> loses_nothing cur (f e)))" for e
    using replace_added [OF assms(1), where byKey = "last_by_key current" and preserve = "ao_PreserveByKey opts" and e = e] replace_lossless
    by (auto simp: f_def split: option.split)
  have "list_all2 same_display (map f incoming) incoming"
    using replace_display by (simp add: list.rel_map f_def list.rel_refl)
  moreover have "e_Key (f e) = e_Key e" for e by (simp add: f_def)
  ultimately show ?thesis
    using kept applyReplace_again [OF assms(2,1), of current "ao_PreserveByKey opts" later]
    unfolding Let_def out by (simp add: list_all_iff ApplyLineup_def) (simp add: applyReplace_def f_def)
qed

definition sample_opts :: ApplyOpts where
  "sample_opts = \<lparr>ao_PreserveByKey = True, ao_Drop = None, ao_Enrich = None, ao_Now = 5\<rparr>"

theorem ApplyLineup_replace_witness:
  "ApplyLineup (ApplyLineup [sample_entry] [sample_entry] LineupReplace sample_opts) [sample_entry] LineupReplace
     (sample_opts\<lparr>ao_Now := 9\<rparr>) = ApplyLineup [sample_entry] [sample_entry] LineupReplace sample_opts"
  using ApplyLineup_replace [of sample_opts "[sample_entry]" "[sample_entry]" 9]
  by (simp add: sample_opts_def Let_def)

text \<open>
  Unattended curation never churns: the additive merge is exactly the existing entries but those
  neither picked again nor worth keeping, in order and at most re-scored, followed by the picks that
  are new, in order; without a drop test nothing is lost, and merging the same picks again changes
  nothing.
\<close>

theorem ApplyLineup_additive:
  assumes "distinct (map e_Key fresh)"
  shows "let out = ApplyLineup existing fresh LineupAdditive opts in
    out = map (rescored (last_by_key fresh))
            (filter (\<lambda>e. e_Key e \<in> e_Key ` set fresh \<or> \<not> droppable (ao_Drop opts) e) existing) @
          filter (\<lambda>e. e_Key e \<notin> e_Key ` set existing) fresh \<and>
    (ao_Drop opts = None \<longrightarrow> map e_Key existing = take (length existing) (map e_Key out)) \<and>
    ApplyLineup out fresh LineupAdditive opts = out"
proof -
  define r where "r = rescored (last_by_key fresh)"
  define keep where "keep = (\<lambda>e. e_Key e \<in> e_Key ` set fresh \<or> \<not> droppable (ao_Drop opts) e)"
  define out where "out = map r (filter keep existing) @ filter (\<lambda>e. e_Key e \<notin> e_Key ` set existing) fresh"
  have spec: "ApplyLineup es fresh LineupAdditive opts = map r (filter keep es) @ filter (\<lambda>e. e_Key e \<notin> e_Key ` set es) fresh" for es
    by (simp add: ApplyLineup_def applyAdditive_spec [OF assms] r_def keep_def)
  have key: "e_Key (r e) = e_Key e" and again: "r (r e) = r e" for e
    by (simp_all add: r_def) (cases "last_by_key fresh (e_Key e)"; simp add: rescored_def del: last_by_key_None)
  have own: "r e = e" if "e \<in> set fresh" for e
    using last_by_key_distinct [OF assms that] by (simp add: r_def rescored_def)
  have same: "r e = e" if "e_Key e \<notin> e_Key ` set fresh" for e
    using that iffD2 [OF last_by_key_None that] by (simp add: r_def rescored_def del: last_by_key_None)
  have kept: "keep (r e)" if "keep e" for e
    using that same [of e] key [of e] by (cases "e_Key e \<in> e_Key ` set fresh") (simp_all add: keep_def)
  have "map r (filter keep out) = out"
  proof -
    have "keep e" if "e \<in> set fresh" for e using that by (simp add: keep_def)
    then have "\<forall>e\<in>set out. keep e" using kept unfolding out_def by auto
    then have "filter keep out = out" by (rule filter_True)
    moreover have "\<forall>e\<in>set out. r e = e" using again own unfolding out_def by auto
    ultimately show ?thesis by (simp add: map_idI)
  qed
  moreover have "filter (\<lambda>e. e_Key e \<notin> e_Key ` set out) fresh = []"
  proof -
    have "e_Key e \<in> e_Key ` set out" if "e \<in> set fresh" for e
    proof (cases "e_Key e \<in> e_Key ` set existing")
      case True
      then obtain x where x: "x \<in> set existing" "e_Key x = e_Key e" by auto
      then have "r x \<in> set out" using that by (auto simp: out_def keep_def)
      then show ?thesis using x key by (metis image_eqI)
    qed (use that in \<open>auto simp: out_def\<close>)
    then show ?thesis by (simp add: filter_empty_conv)
  qed
  moreover have "map e_Key existing = take (length existing) (map e_Key out)" if "ao_Drop opts = None"
  proof -
    have "filter keep existing = existing" using that by (simp add: keep_def droppable_def)
    then show ?thesis using key by (simp add: out_def)
  qed
  ultimately show ?thesis unfolding Let_def spec out_def [symmetric] r_def [symmetric] keep_def [symmetric] by simp
qed

theorem ApplyLineup_additive_witness:
  "ApplyLineup [] [sample_entry] LineupAdditive sample_opts = [sample_entry]"
  using ApplyLineup_additive [of "[sample_entry]" "[]" sample_opts] by (simp add: Let_def)

section \<open>The filler context a lineup implies\<close>

record DerivedFiller =
  df_Audience :: string
  df_Era :: "Range option"

text \<open>The highest ranked rating of a lineup, from rank \<open>- 1\<close> and the empty rating.\<close>

definition top_rating :: "LineupEntry list \<Rightarrow> int \<times> Rating" where
  "top_rating lineup =
     fold (\<lambda>e (top, found).
        let r = Normalize (e_OfficialRating e); (rank, ok) = Rank r
        in if ok \<and> rank > top then (rank, r) else (top, found)) lineup (- 1, '''')"

definition year_span :: "LineupEntry list \<Rightarrow> Range" where
  "year_span lineup =
     fold (\<lambda>e era.
        if e_Year e \<le> 0 then era
        else (let era = (if rg_From era = 0 \<or> e_Year e < rg_From era then era\<lparr>rg_From := e_Year e\<rparr> else era)
              in if e_Year e > rg_To era then era\<lparr>rg_To := e_Year e\<rparr> else era)) lineup \<lparr>rg_From = 0, rg_To = 0\<rparr>"

definition DeriveFiller :: "ChannelPolicy \<Rightarrow> LineupEntry list \<Rightarrow> DerivedFiller" where
  "DeriveFiller policy lineup =
     (let audience = (if au_Ceiling (cp_Audience policy) \<noteq> '''' then fillerAudienceForCeiling (au_Ceiling (cp_Audience policy))
                      else let (top, found) = top_rating lineup
                           in if top \<ge> 0 then fillerAudienceForCeiling found else '''');
          era = year_span lineup
      in \<lparr>df_Audience = audience, df_Era = (if rg_From era > 0 then Some era else None)\<rparr>)"

lemma top_rating_spec:
  "fst (top_rating lineup) \<ge> - 1 \<and>
   (\<forall>e\<in>set lineup. Mapped (Normalize (e_OfficialRating e)) \<longrightarrow> the (ladderRank (Normalize (e_OfficialRating e))) \<le> fst (top_rating lineup)) \<and>
   (fst (top_rating lineup) \<ge> 0 \<longrightarrow>
      ladderRank (snd (top_rating lineup)) = Some (fst (top_rating lineup)) \<and>
      (\<exists>e\<in>set lineup. snd (top_rating lineup) = Normalize (e_OfficialRating e)))"
proof (induction lineup rule: rev_induct)
  case (snoc e lineup)
  obtain top found where top: "top_rating lineup = (top, found)" by (cases "top_rating lineup")
  have step: "top_rating (lineup @ [e]) =
      (case ladderRank (Normalize (e_OfficialRating e)) of None \<Rightarrow> (top, found)
       | Some rank \<Rightarrow> if rank > top then (rank, Normalize (e_OfficialRating e)) else (top, found))"
    using top by (simp add: top_rating_def Rank_def Let_def split: option.split)
  show ?case
  proof (cases "ladderRank (Normalize (e_OfficialRating e))")
    case None
    then show ?thesis using snoc top by (auto simp: step Mapped_def)
  next
    case (Some rank)
    then show ?thesis using snoc top by (cases "rank > top") (auto simp: step Mapped_def)
  qed
qed (simp add: top_rating_def)

lemma year_span_spec:
  "rg_From (year_span lineup) \<ge> 0 \<and> (rg_From (year_span lineup) = 0 \<longrightarrow> rg_To (year_span lineup) = 0) \<and>
   (\<forall>e\<in>set lineup. e_Year e > 0 \<longrightarrow> 0 < rg_From (year_span lineup) \<and>
      rg_From (year_span lineup) \<le> e_Year e \<and> e_Year e \<le> rg_To (year_span lineup)) \<and>
   (rg_From (year_span lineup) > 0 \<longrightarrow>
      rg_From (year_span lineup) \<in> e_Year ` set lineup \<and> rg_To (year_span lineup) \<in> e_Year ` set lineup)"
proof (induction lineup rule: rev_induct)
  case (snoc e lineup)
  define era where "era = year_span lineup"
  have step: "year_span (lineup @ [e]) = (if e_Year e \<le> 0 then era
      else \<lparr>rg_From = if rg_From era = 0 \<or> e_Year e < rg_From era then e_Year e else rg_From era,
            rg_To = if e_Year e > rg_To era then e_Year e else rg_To era\<rparr>)"
    by (cases era) (simp add: year_span_def era_def [unfolded year_span_def, symmetric] Let_def)
  have IH: "rg_From era \<ge> 0" "rg_From era = 0 \<longrightarrow> rg_To era = 0"
    "\<forall>e\<in>set lineup. e_Year e > 0 \<longrightarrow> 0 < rg_From era \<and> rg_From era \<le> e_Year e \<and> e_Year e \<le> rg_To era"
    "rg_From era > 0 \<longrightarrow> rg_From era \<in> e_Year ` set lineup \<and> rg_To era \<in> e_Year ` set lineup"
    using snoc unfolding era_def by blast+
  show ?case
  proof (cases "e_Year e \<le> 0")
    case True
    then show ?thesis using IH by (auto simp: step)
  next
    case False
    then show ?thesis using IH by (cases "rg_From era = 0") (auto simp: step)
  qed
qed (simp add: year_span_def)

lemma ladderRank_nonneg: "ladderRank r = Some n \<Longrightarrow> 0 \<le> n"
proof -
  assume r: "ladderRank r = Some n"
  then have "Mapped r" by (simp add: Mapped_def)
  then show "0 \<le> n" using r by (cases rule: Mapped_cases) (simp_all add: ladderRank_def)
qed

lemma audience_of_rank:
  assumes "ladderRank r = Some n"
  shows "fillerAudienceForCeiling r = (if n \<le> 1 then ''kids'' else if n \<le> 3 then ''family'' else ''general'')"
proof -
  have "Mapped r" using assms by (simp add: Mapped_def)
  moreover from this have "Normalize r = r" by (rule Normalize_Mapped)
  ultimately show ?thesis using assms
    by (cases rule: Mapped_cases) (simp_all add: ladderRank_def fillerAudienceForCeiling_def Let_def)
qed

text \<open>
  The filler context is derived on the safe side: without a ceiling an audience is derived exactly
  when some title has a known rating, and a channel is derived to be for kids only when no title's
  known rating is above TV-Y7, for a family only when none is above TV-PG; and the derived era is the
  exact span of the known release years.
\<close>

theorem DeriveFiller_safe:
  "let d = DeriveFiller policy lineup;
       known = filter (\<lambda>e. Mapped (Normalize (e_OfficialRating e))) lineup;
       years = filter (\<lambda>y. y > 0) (map e_Year lineup)
   in (au_Ceiling (cp_Audience policy) = '''' \<longrightarrow>
        (df_Audience d = '''' \<longleftrightarrow> known = []) \<and>
        (df_Audience d = ''kids'' \<longrightarrow> list_all (\<lambda>e. AtOrBelow (Normalize (e_OfficialRating e)) ''TV-Y7'') known) \<and>
        (df_Audience d = ''family'' \<longrightarrow> list_all (\<lambda>e. AtOrBelow (Normalize (e_OfficialRating e)) ''TV-PG'') known)) \<and>
      df_Era d = (if years = [] then None else Some \<lparr>rg_From = Min (set years), rg_To = Max (set years)\<rparr>)"
proof -
  obtain top found where top: "top_rating lineup = (top, found)" by (cases "top_rating lineup")
  define known where "known = filter (\<lambda>e. Mapped (Normalize (e_OfficialRating e))) lineup"
  define years where "years = filter (\<lambda>y. y > 0) (map e_Year lineup)"
  have bound: "the (ladderRank (Normalize (e_OfficialRating e))) \<le> top" "Mapped (Normalize (e_OfficialRating e))"
    if "e \<in> set known" for e using that top_rating_spec [of lineup] by (auto simp: top known_def)
  have rank: "0 \<le> top \<Longrightarrow> ladderRank found = Some top" using top_rating_spec [of lineup] by (simp add: top)
  have known: "0 \<le> top \<longleftrightarrow> known \<noteq> []"
  proof
    assume "0 \<le> top"
    then obtain e where "e \<in> set lineup" "found = Normalize (e_OfficialRating e)" using top_rating_spec [of lineup] by (auto simp: top)
    then show "known \<noteq> []" using rank [OF \<open>0 \<le> top\<close>] by (auto simp: known_def filter_empty_conv Mapped_def)
  next
    assume "known \<noteq> []"
    then obtain e where "e \<in> set known" by (cases known) auto
    from bound [OF this] show "0 \<le> top" using ladderRank_nonneg by (fastforce simp: Mapped_def)
  qed
  have audience: "df_Audience (DeriveFiller policy lineup) =
      (if known = [] then '''' else if top \<le> 1 then ''kids'' else if top \<le> 3 then ''family'' else ''general'')"
    if "au_Ceiling (cp_Audience policy) = ''''"
    using that known audience_of_rank [OF rank] by (simp add: DeriveFiller_def Let_def top)
  have below: "list_all (\<lambda>e. AtOrBelow (Normalize (e_OfficialRating e)) r) known" if "ladderRank r = Some n" "top \<le> n" for r n
    using that bound by (fastforce simp: list_all_iff AtOrBelow_def Mapped_def)
  have era: "df_Era (DeriveFiller policy lineup) = (if years = [] then None else Some \<lparr>rg_From = Min (set years), rg_To = Max (set years)\<rparr>)"
  proof (cases "years = []")
    case True
    then have "\<not> rg_From (year_span lineup) > 0" using year_span_spec [of lineup] by (auto simp: years_def filter_empty_conv)
    then show ?thesis using True by (simp add: DeriveFiller_def Let_def)
  next
    case False
    then obtain e where e: "e \<in> set lineup" "e_Year e > 0" by (auto simp: years_def filter_empty_conv)
    define era where "era = year_span lineup"
    have span: "0 < rg_From era" "rg_From era \<in> e_Year ` set lineup" "rg_To era \<in> e_Year ` set lineup" "rg_From era \<le> rg_To era"
      "\<forall>e\<in>set lineup. e_Year e > 0 \<longrightarrow> rg_From era \<le> e_Year e \<and> e_Year e \<le> rg_To era"
      using year_span_spec [of lineup] e unfolding era_def by force+
    have "Min (set years) = rg_From era" "Max (set years) = rg_To era"
      using span by (auto simp: years_def intro!: Min_eqI Max_eqI)
    then show ?thesis using False span(1) by (cases era) (simp add: DeriveFiller_def Let_def era_def [symmetric])
  qed
  show ?thesis
    unfolding Let_def known_def [symmetric] years_def [symmetric] era
    using audience below [of "''TV-Y7''" 1] below [of "''TV-PG''" 3] by (simp add: ladderRank_def)
qed

theorem DeriveFiller_safe_witness:
  "list_all (\<lambda>e. AtOrBelow (Normalize (e_OfficialRating e)) ''TV-PG'') [sample_entry] \<and>
   df_Era (DeriveFiller empty_policy [sample_entry]) = Some \<lparr>rg_From = 1981, rg_To = 1981\<rparr>"
proof -
  have "Mapped (Normalize (e_OfficialRating sample_entry))" "df_Audience (DeriveFiller empty_policy [sample_entry]) = ''family''"
    "au_Ceiling (cp_Audience empty_policy) = ''''" "e_Year sample_entry = 1981"
    by code_simp+
  then show ?thesis using DeriveFiller_safe [of empty_policy "[sample_entry]"] by (simp add: Let_def)
qed

end
