(* ===== verification/Presets.thy ===== *)
theory Presets
  imports Rules
begin

text \<open>
  Preset lowering, \<^verbatim>\<open>internal/schedule/presets.go\<close> and \<^verbatim>\<open>presets_vocab.go\<close>: the closed vocabulary of WHEN,
  WHAT and HOW tokens a curation rule is written in, the predicate, scope and ordering each token
  stands for, and the table of tokens the rules editor is served. A token that is not in the
  vocabulary lowers to \<open>None\<close> (the code's \<^verbatim>\<open>ok = false\<close>).
\<close>

text \<open>\<^verbatim>\<open>strings.Cut\<close> on a one-byte separator.\<close>

definition str_cut :: "char \<Rightarrow> string \<Rightarrow> (string \<times> string) option" where
  "str_cut c s =
     (case dropWhile (\<lambda>x. x \<noteq> c) s of [] \<Rightarrow> None | _ # rest \<Rightarrow> Some (takeWhile (\<lambda>x. x \<noteq> c) s, rest))"

subsection \<open>WHEN\<close>

definition hours_when :: "int \<Rightarrow> int \<Rightarrow> WhenPredicate" where
  "hours_when from til = empty_when\<lparr>wp_HourFrom := from, wp_HourTo := til\<rparr>"

definition lowerBaseWhen :: "string \<Rightarrow> (WhenPredicate \<times> int) option" where
  "lowerBaseWhen t =
     (if t = ''weekend'' then Some (empty_when\<lparr>wp_Weekend := True\<rparr>, 20)
      else if t = ''weekday'' then Some (empty_when\<lparr>wp_Weekday := True\<rparr>, 20)
      else if t \<in> set [''mornings'', ''early morning'', ''early-morning'', ''morning''] then Some (hours_when 6 10, 30)
      else if t = ''daytime'' then Some (hours_when 10 17, 30)
      else if t \<in> set [''primetime'', ''prime-time'', ''prime time''] then Some (hours_when 20 23, 40)
      else if t \<in> set [''late-night'', ''late night'', ''latenight''] then Some (hours_when 23 2, 40)
      else if t \<in> set [''overnight'', ''graveyard''] then Some (hours_when 2 6, 40)
      else None)"

definition andPredicate :: "WhenPredicate \<Rightarrow> WhenPredicate \<Rightarrow> WhenPredicate" where
  "andPredicate a b =
     (let out = (if wp_Weekend b then a\<lparr>wp_Weekend := True\<rparr> else a);
          out = (if wp_Weekday b then out\<lparr>wp_Weekday := True\<rparr> else out)
      in if wp_HourFrom b \<noteq> 0 \<or> wp_HourTo b \<noteq> 0
         then out\<lparr>wp_HourFrom := wp_HourFrom b, wp_HourTo := wp_HourTo b\<rparr> else out)"

definition maxInt :: "int \<Rightarrow> int \<Rightarrow> int" where
  "maxInt a b = (if a > b then a else b)"

definition knownHoliday :: "string \<Rightarrow> Vocabulary \<Rightarrow> bool" where
  "knownHoliday i v = list_ex (\<lambda>h. fst h = i) (Definitions v)"

definition holiday_prefix :: string where
  "holiday_prefix = ''holiday:''"

definition LowerWhen :: "string \<Rightarrow> Vocabulary \<Rightarrow> (WhenPredicate \<times> int) option" where
  "LowerWhen token v =
     (let t = to_lower (trim_space token)
      in if has_prefix t holiday_prefix
         then (let i = trim_space (trim_prefix t holiday_prefix)
               in if \<not> knownHoliday i v then None else Some (empty_when\<lparr>wp_Holiday := i\<rparr>, 60))
         else (case str_cut CHR ''-'' t of
                 None \<Rightarrow> lowerBaseWhen t
               | Some (front, sub) \<Rightarrow>
                   (case (lowerBaseWhen front, lowerBaseWhen sub) of
                      (Some (w1, p1), Some (w2, p2)) \<Rightarrow> Some (andPredicate w1 w2, maxInt p1 p2 + 5)
                    | _ \<Rightarrow> lowerBaseWhen t)))"

subsection \<open>WHAT\<close>

definition kidSafeGenres :: "string list" where
  "kidSafeGenres = [''Animation'', ''Family'', ''Kids'']"

definition familyGenres :: "string list" where
  "familyGenres = [''Family'', ''Animation'', ''Adventure'', ''Comedy'']"

text \<open>One bound of an era: absent when blank, refused unless it is a positive number.\<close>

definition era_bound :: "string \<Rightarrow> int option" where
  "era_bound s =
     (let b = trim_space s
      in if b = '''' then Some 0
         else (case atoi b of None \<Rightarrow> None | Some n \<Rightarrow> if n \<le> 0 then None else Some n))"

definition parseEraToken :: "string \<Rightarrow> Range option" where
  "parseEraToken s =
     (case str_cut CHR ''-'' (trim_space s) of
        None \<Rightarrow> None
      | Some (from, til) \<Rightarrow>
          (case era_bound from of
             None \<Rightarrow> None
           | Some f \<Rightarrow>
               (case era_bound til of
                  None \<Rightarrow> None
                | Some u \<Rightarrow> if f = 0 \<and> u = 0 then None else Some \<lparr>rg_From = f, rg_To = u\<rparr>)))"

definition genre_scope :: "string list \<Rightarrow> string list \<Rightarrow> ScopePolicy" where
  "genre_scope inc exc = empty_scope\<lparr>sc_Genres := \<lparr>gf_Include = inc, gf_Exclude = exc\<rparr>\<rparr>"

text \<open>
  The scope, if the token narrows, with the audience ceiling of the kids and family tokens. The key
  and genre names are cut from the token as it was written, at the length of the prefix.
\<close>

definition LowerWhat :: "string \<Rightarrow> (ScopePolicy option \<times> Rating) option" where
  "LowerWhat token =
     (let t = to_lower (trim_space token)
      in if t = ''all'' \<or> t = '''' then Some (None, '''')
         else if t = ''holiday-matched'' then Some (None, '''')
         else if t = ''kids'' then Some (Some (genre_scope kidSafeGenres []), Normalize ''TV-Y7'')
         else if t = ''family'' then Some (Some (genre_scope familyGenres []), Normalize ''TV-PG'')
         else if has_prefix t ''series:''
         then (let key = trim_space (drop 7 token)
               in if key = '''' then None else Some (Some (empty_scope\<lparr>sc_Series := [key]\<rparr>), ''''))
         else if has_prefix t ''genre-not:''
         then (let g = trim_space (drop 10 token)
               in if g = '''' then None else Some (Some (genre_scope [] [g]), ''''))
         else if has_prefix t ''genre:''
         then (let g = trim_space (drop 6 token)
               in if g = '''' then None else Some (Some (genre_scope [g] []), ''''))
         else if has_prefix t ''era:''
         then (case parseEraToken (drop 4 t) of
                 None \<Rightarrow> None
               | Some r \<Rightarrow>
                   (let dates = EraDates r
                    in if validateDates ''dates'' dates = None
                       then Some (Some (empty_scope\<lparr>sc_Dates := dates\<rparr>), '''') else None))
         else None)"

subsection \<open>HOW\<close>

definition order_how :: "OrderingMode \<Rightarrow> RuleOrdering" where
  "order_how m = empty_how\<lparr>ro_Ordering := m\<rparr>"

definition LowerHow :: "string \<Rightarrow> (RuleOrdering \<times> duration) option" where
  "LowerHow token =
     (let t = to_lower (trim_space token)
      in if t = ''syndication'' then Some (order_how OrderSyndication, 0)
         else if t = ''shuffle'' then Some (order_how OrderShuffle, 0)
         else if t = ''marathon''
         then Some (\<lparr>ro_Ordering = OrderSequential, ro_Separation = empty_separation\<lparr>sep_BlockMax := - 1\<rparr>,
                     ro_NoBreaks = True\<rparr>, WindowFull)
         else if t = ''feature'' \<or> t = ''sequential'' then Some (order_how OrderSequential, 0)
         else None)"

subsection \<open>The vocabulary served to the editor (presets\_vocab.go)\<close>

record WhenVocab =
  wv_Token :: string
  wv_Label :: string
  wv_ShortLabel :: string
  wv_Predicate :: WhenPredicate
  wv_Priority :: int

record WhatVocab =
  av_Token :: string
  av_Label :: string
  av_Scope :: "ScopePolicy option"

record HowVocab =
  hv_Token :: string
  hv_Label :: string
  hv_ShortLabel :: string
  hv_Ordering :: RuleOrdering
  hv_WindowFull :: bool

record PresetVocabulary =
  voc_When :: "WhenVocab list"
  voc_What :: "WhatVocab list"
  voc_How :: "HowVocab list"

definition whenVocabTokens :: "(string \<times> string \<times> string) list" where
  "whenVocabTokens =
     [(''weekend'', ''Weekend'', ''Weekend''),
      (''weekday'', ''Weekday'', ''Weekday''),
      (''mornings'', ''Mornings (6'' @ en_dash @ ''10)'', ''Mornings''),
      (''daytime'', ''Daytime (10'' @ en_dash @ ''17)'', ''Daytime''),
      (''primetime'', ''Primetime (20'' @ en_dash @ ''23)'', ''Primetime''),
      (''late-night'', ''Late night (23'' @ en_dash @ ''2)'', ''Late night''),
      (''overnight'', ''Overnight (2'' @ en_dash @ ''6)'', ''Overnight'')]"

definition whatVocabTokens :: "(string \<times> string) list" where
  "whatVocabTokens =
     [(''all'', ''Anything (no extra narrowing)''),
      (''kids'', ''Kids-safe genres''),
      (''family'', ''Family genres''),
      (''holiday-matched'', ''Holiday-matched titles'')]"

definition howVocabTokens :: "(string \<times> string \<times> string) list" where
  "howVocabTokens =
     [(''syndication'', ''Syndication (the deck order)'', ''Syndication''),
      (''shuffle'', ''Shuffle'', ''Shuffle''),
      (''marathon'', ''Marathon (binge one show, no breaks)'', ''Marathon''),
      (''feature'', ''Feature (in order)'', ''Feature'')]"

definition when_entry :: "Vocabulary \<Rightarrow> string \<Rightarrow> string \<Rightarrow> string \<Rightarrow> WhenVocab option" where
  "when_entry v token label short =
     map_option (\<lambda>(pred, prio). \<lparr>wv_Token = token, wv_Label = label, wv_ShortLabel = short,
                                  wv_Predicate = pred, wv_Priority = prio\<rparr>) (LowerWhen token v)"

definition BuildVocabulary :: "Calendar \<Rightarrow> PresetVocabulary" where
  "BuildVocabulary cal =
     (let holidays = Vocab cal;
          kept = map ob_ID (Vocabulary_Calendar holidays (cl_Country cal))
      in \<lparr>voc_When =
             List.map_filter (\<lambda>(token, label, short). when_entry holidays token label short) whenVocabTokens @
             List.map_filter (\<lambda>(i, label). when_entry holidays (holiday_prefix @ i) label label)
               (filter (\<lambda>h. fst h \<in> set kept) (Definitions holidays)),
           voc_What =
             map (\<lambda>(token, label). \<lparr>av_Token = token, av_Label = label,
                 av_Scope = (case LowerWhat token of None \<Rightarrow> None | Some (scope, _) \<Rightarrow> scope)\<rparr>) whatVocabTokens,
           voc_How =
             List.map_filter (\<lambda>(token, label, short).
               map_option (\<lambda>(ord, win). \<lparr>hv_Token = token, hv_Label = label, hv_ShortLabel = short,
                   hv_Ordering = ord, hv_WindowFull = (win = WindowFull)\<rparr>) (LowerHow token)) howVocabTokens\<rparr>)"

subsection \<open>What a composite WHEN token means\<close>

definition has_hours :: "WhenPredicate \<Rightarrow> bool" where
  "has_hours w \<longleftrightarrow> wp_HourFrom w \<noteq> 0 \<or> wp_HourTo w \<noteq> 0"

definition hour_tokens :: "string list" where
  "hour_tokens = [''mornings'', ''early morning'', ''early-morning'', ''morning'', ''daytime'', ''primetime'',
     ''prime-time'', ''prime time'', ''late-night'', ''late night'', ''latenight'', ''overnight'', ''graveyard'']"

lemma hour_tokens_parts:
  "set [''mornings'', ''early morning'', ''early-morning'', ''morning''] \<subseteq> set hour_tokens"
  "''daytime'' \<in> set hour_tokens" "set [''primetime'', ''prime-time'', ''prime time''] \<subseteq> set hour_tokens"
  "set [''late-night'', ''late night'', ''latenight''] \<subseteq> set hour_tokens"
  "set [''overnight'', ''graveyard''] \<subseteq> set hour_tokens"
  by (simp_all add: hour_tokens_def)

lemma base_when_hours:
  assumes "lowerBaseWhen t = Some (w, p)" and "t \<noteq> ''weekend''" and "t \<noteq> ''weekday''"
  shows "\<exists>h u. w = hours_when h u \<and> 0 < u" "t \<in> set hour_tokens"
proof -
  let ?m = "t \<in> set [''mornings'', ''early morning'', ''early-morning'', ''morning'']"
  let ?p = "t \<in> set [''primetime'', ''prime-time'', ''prime time'']"
  let ?l = "t \<in> set [''late-night'', ''late night'', ''latenight'']"
  let ?o = "t \<in> set [''overnight'', ''graveyard'']"
  have eq: "Some (w, p) =
      (if ?m then Some (hours_when 6 10, 30) else if t = ''daytime'' then Some (hours_when 10 17, 30)
       else if ?p then Some (hours_when 20 23, 40) else if ?l then Some (hours_when 23 2, 40)
       else if ?o then Some (hours_when 2 6, 40) else None)"
    using assms by (simp only: lowerBaseWhen_def if_False)
  have "w = hours_when 6 10 \<or> w = hours_when 10 17 \<or> w = hours_when 20 23 \<or> w = hours_when 23 2 \<or> w = hours_when 2 6"
    using eq by (simp only: option.inject prod.inject option.distinct simp_thms split: if_split_asm)
  moreover have "(0::int) < 10" "(0::int) < 17" "(0::int) < 23" "(0::int) < 2" "(0::int) < 6" by simp_all
  ultimately show "\<exists>h u. w = hours_when h u \<and> 0 < u" by metis
  have "?m \<or> t = ''daytime'' \<or> ?p \<or> ?l \<or> ?o"
    using eq by (simp only: option.distinct simp_thms split: if_split_asm)
  then show "t \<in> set hour_tokens" using hour_tokens_parts by blast
qed

lemma base_when_cases:
  assumes "lowerBaseWhen t = Some (w, p)"
  obtains (weekend) "t = ''weekend''" "w = empty_when\<lparr>wp_Weekend := True\<rparr>"
    | (weekday) "t = ''weekday''" "w = empty_when\<lparr>wp_Weekday := True\<rparr>"
    | (hours) h u where "w = hours_when h u" "0 < u" "t \<in> set hour_tokens"
proof (cases "t = ''weekend''")
  case True
  with assms show ?thesis by (intro weekend) (simp_all add: lowerBaseWhen_def)
next
  case False
  show ?thesis
  proof (cases "t = ''weekday''")
    case True
    with assms show ?thesis by (intro weekday) (simp_all add: lowerBaseWhen_def)
  next
    case day: False
    from base_when_hours [OF assms False day] hours show ?thesis by blast
  qed
qed
lemma trim_space_id:
  assumes "s \<noteq> []" "\<not> is_space (hd s)" "\<not> is_space (last s)"
  shows "trim_space s = s"
proof -
  have "dropWhile is_space s = s"
    using assms(1,2) by (cases s) simp_all
  moreover have "dropWhile is_space (rev s) = rev s"
    using assms(1,3) by (cases s rule: rev_cases) simp_all
  ultimately show ?thesis by (simp add: trim_space_def)
qed

text \<open>No base token is changed by trimming and lower-casing, or begins a holiday token.\<close>

definition clean_token :: "string \<Rightarrow> bool" where
  "clean_token t \<longleftrightarrow> t \<noteq> [] \<and> to_lower t = t \<and> \<not> is_space (hd t) \<and> \<not> is_space (last t) \<and> hd t \<noteq> CHR ''h''"

lemma day_tokens_clean: "clean_token ''weekend''" "clean_token ''weekday''"
  by code_simp+

lemma hour_tokens_clean:
  "list_all clean_token hour_tokens"
  by code_simp

lemma base_token_clean:
  assumes "lowerBaseWhen t = Some (w, p)"
  shows "t \<noteq> []" "to_lower t = t" "\<not> is_space (hd t)" "\<not> is_space (last t)" "hd t \<noteq> CHR ''h''"
proof -
  have "clean_token t"
    using assms
  proof (cases rule: base_when_cases)
    case (hours h u)
    then show ?thesis using hour_tokens_clean by (simp only: list_all_iff)
  qed (simp_all add: day_tokens_clean)
  then show "t \<noteq> []" "to_lower t = t" "\<not> is_space (hd t)" "\<not> is_space (last t)" "hd t \<noteq> CHR ''h''"
    by (simp_all add: clean_token_def)
qed

lemma str_cut_append: "c \<notin> set a \<Longrightarrow> str_cut c (a @ c # b) = Some (a, b)"
  by (induction a) (auto simp: str_cut_def split: list.splits)

lemma to_lower_append: "to_lower (a @ b) = to_lower a @ to_lower b"
  by (simp add: to_lower_def)

lemma LowerWhen_parts:
  assumes "lowerBaseWhen a = Some (wa, pa)" and "lowerBaseWhen b = Some (wb, pb)" and "CHR ''-'' \<notin> set a"
  shows "LowerWhen (a @ CHR ''-'' # b) v = Some (andPredicate wa wb, maxInt pa pb + 5)"
proof -
  note ca = base_token_clean [OF assms(1)] and cb = base_token_clean [OF assms(2)]
  have dash: "lower_char CHR ''-'' = CHR ''-''" by (simp add: lower_char_def byte_of_def)
  have "trim_space (a @ CHR ''-'' # b) = a @ CHR ''-'' # b"
    using ca cb by (intro trim_space_id) auto
  moreover have "to_lower (a @ CHR ''-'' # b) = a @ CHR ''-'' # b"
    using ca cb dash by (simp add: to_lower_def)
  moreover have "\<not> has_prefix (a @ CHR ''-'' # b) holiday_prefix"
    using ca by (cases a) (auto simp: has_prefix_def holiday_prefix_def)
  ultimately show ?thesis
    using assms by (simp add: LowerWhen_def str_cut_append)
qed

lemma Matches_day_hours:
  assumes "wp_Days w = []" "wp_Holiday w = ''''" "wp_DateFrom w = None" "wp_DateTo w = None" "\<not> When_isZero w"
  shows "Matches w loc now cal \<longleftrightarrow>
           \<not> is_zero_time now \<and> (wp_Weekend w \<longrightarrow> isWeekend (time_Weekday loc now)) \<and>
           (wp_Weekday w \<longrightarrow> \<not> isWeekend (time_Weekday loc now)) \<and>
           (has_hours w \<longrightarrow> hourInWindow (time_Hour loc now) (wp_HourFrom w) (wp_HourTo w))"
  using assms by (auto simp: Matches_def has_hours_def)

lemma base_when_shape:
  assumes "lowerBaseWhen t = Some (w, p)"
  shows "wp_Days w = []" "wp_Holiday w = ''''" "wp_DateFrom w = None" "wp_DateTo w = None" "\<not> When_isZero w"
    "has_hours w \<longleftrightarrow> \<not> wp_Weekend w \<and> \<not> wp_Weekday w"
  using assms by (cases rule: base_when_cases; simp add: hours_when_def When_isZero_def has_hours_def)+

text \<open>
  A WHEN token ''a-b'' made of two base tokens always lowers, five above the higher priority of the
  two, and its rule is active exactly when both parts are, except that of two hour windows only the
  second counts: ''mornings-primetime'' is active at nine in the evening.
\<close>

theorem LowerWhen_composite:
  assumes "lowerBaseWhen a = Some (wa, pa)" and "lowerBaseWhen b = Some (wb, pb)" and "CHR ''-'' \<notin> set a"
  shows "\<exists>w. LowerWhen (a @ CHR ''-'' # b) v = Some (w, max pa pb + 5) \<and>
           Matches w loc now cal =
             (if has_hours wa \<and> has_hours wb then Matches wb loc now cal
              else Matches wa loc now cal \<and> Matches wb loc now cal)"
proof (intro exI conjI)
  show "LowerWhen (a @ CHR ''-'' # b) v = Some (andPredicate wa wb, max pa pb + 5)"
    using LowerWhen_parts [OF assms] by (simp add: maxInt_def max_def)
next
  note sa = base_when_shape [OF assms(1)] and sb = base_when_shape [OF assms(2)]
  let ?w = "andPredicate wa wb"
  have sw: "wp_Days ?w = []" "wp_Holiday ?w = ''''" "wp_DateFrom ?w = None" "wp_DateTo ?w = None"
    "wp_Weekend ?w = (wp_Weekend wa \<or> wp_Weekend wb)" "wp_Weekday ?w = (wp_Weekday wa \<or> wp_Weekday wb)"
    "has_hours ?w = (has_hours wa \<or> has_hours wb)"
    "wp_HourFrom ?w = (if has_hours wb then wp_HourFrom wb else wp_HourFrom wa)"
    "wp_HourTo ?w = (if has_hours wb then wp_HourTo wb else wp_HourTo wa)"
    using sa sb by (auto simp: andPredicate_def has_hours_def Let_def)
  have nz: "\<not> When_isZero ?w"
    using sw sa(6) by (auto simp: When_isZero_def has_hours_def)
  show "Matches ?w loc now cal =
             (if has_hours wa \<and> has_hours wb then Matches wb loc now cal
              else Matches wa loc now cal \<and> Matches wb loc now cal)"
    using sw sa(6) sb(6)
    by (auto simp: Matches_day_hours [OF sw(1-4) nz] Matches_day_hours [OF sa(1-5)] Matches_day_hours [OF sb(1-5)])
qed

lemma LowerWhen_composite_witness:
  "\<exists>w. LowerWhen ''mornings-primetime'' [] = Some (w, 45) \<and>
       Matches w None (21 * hour) empty_calendar \<and> \<not> Matches (hours_when 6 10) None (21 * hour) empty_calendar"
proof -
  have parts: "lowerBaseWhen ''mornings'' = Some (hours_when 6 10, 30)"
      "lowerBaseWhen ''primetime'' = Some (hours_when 20 23, 40)"
    by (simp_all add: lowerBaseWhen_def)
  have hours: "has_hours (hours_when 6 10)" "has_hours (hours_when 20 23)"
    by (simp_all add: has_hours_def hours_when_def)
  have nine: "Matches (hours_when 20 23) None (21 * hour) empty_calendar"
      "\<not> Matches (hours_when 6 10) None (21 * hour) empty_calendar"
    by code_simp+
  from LowerWhen_composite [OF parts, of "[]" None "21 * hour" empty_calendar] hours nine show ?thesis
    by auto
qed

subsection \<open>What the editor is served\<close>

lemma slug_clean:
  assumes "slug_from b s"
  shows "to_lower s = s \<and> list_all (\<lambda>c. \<not> is_space c) s"
  using assms
proof (induction b s rule: slug_from.induct)
  case (2 inrun c cs)
  have low: "lower_char c = c \<and> \<not> is_space c" if "slug_char c \<or> c = CHR ''-'' \<or> c = CHR ''_''"
  proof -
    have "\<not> (65 \<le> byte_of c \<and> byte_of c \<le> 90) \<and> 33 \<le> byte_of c"
      using that by (auto simp: slug_char_def is_digit_def byte_of_def)
    then show ?thesis by (auto simp: lower_char_def is_space_def byte_of_def)
  qed
  from 2 low show ?case by (auto simp: to_lower_def split: if_splits)
qed (simp add: to_lower_def)

lemma no_space_trim: "list_all (\<lambda>c. \<not> is_space c) s \<Longrightarrow> trim_space s = s"
proof (cases "s = []")
  case False
  assume "list_all (\<lambda>c. \<not> is_space c) s"
  with False show ?thesis by (intro trim_space_id) (auto simp: list_all_iff)
qed (simp add: trim_space_def)

lemma holiday_prefix_clean: "to_lower holiday_prefix = holiday_prefix" "list_all (\<lambda>c. \<not> is_space c) holiday_prefix"
  by code_simp+

lemma LowerWhen_holiday:
  assumes "slug_from False i" and "knownHoliday i v"
  shows "LowerWhen (holiday_prefix @ i) v = Some (empty_when\<lparr>wp_Holiday := i\<rparr>, 60)"
proof -
  note clean = slug_clean [OF assms(1)] and pre = holiday_prefix_clean
  have "trim_space (holiday_prefix @ i) = holiday_prefix @ i"
    using clean pre by (intro no_space_trim) simp
  moreover have "to_lower (holiday_prefix @ i) = holiday_prefix @ i"
    using clean pre by (simp add: to_lower_append)
  ultimately show ?thesis
    using assms clean no_space_trim [of i]
    by (simp add: LowerWhen_def Let_def has_prefix_def trim_prefix_def)
qed

lemma check_ids_slugs: "check_ids seen hs = None \<Longrightarrow> h \<in> set hs \<Longrightarrow> slug_from False (hd_ID h)"
  by (induction seen hs rule: check_ids.induct) (auto split: if_splits option.splits)

lemma Definitions_lower:
  assumes "check_ids [] v = None" and "h \<in> set (Definitions v)"
  shows "LowerWhen (holiday_prefix @ fst h) v = Some (empty_when\<lparr>wp_Holiday := fst h\<rparr>, 60)"
proof (rule LowerWhen_holiday)
  show "slug_from False (fst h)"
    using assms check_ids_slugs by (force simp: Definitions_def)
  show "knownHoliday (fst h) v"
    using assms(2) by (auto simp: knownHoliday_def list_ex_iff)
qed

lemma map_filter_all:
  "(\<And>x. x \<in> set xs \<Longrightarrow> f x = Some (g x)) \<Longrightarrow> List.map_filter f xs = map g xs"
  by (induction xs) (simp_all add: map_filter_simps)

lemma whenVocab_lower:
  "list_all (\<lambda>(token, label, short). case LowerWhen token v of None \<Rightarrow> False | Some _ \<Rightarrow> True) whenVocabTokens"
  by (simp add: whenVocabTokens_def LowerWhen_def) code_simp

lemma map_filter_when_entry:
  assumes "list_all (\<lambda>x. LowerWhen (tok x) v \<noteq> None) xs"
  shows "map wv_Token (List.map_filter (\<lambda>x. when_entry v (tok x) (lab x) (sh x)) xs) = map tok xs"
    and "list_all (\<lambda>w. LowerWhen (wv_Token w) v = Some (wv_Predicate w, wv_Priority w))
           (List.map_filter (\<lambda>x. when_entry v (tok x) (lab x) (sh x)) xs)"
  using assms by (induction xs) (auto simp: map_filter_simps when_entry_def split: option.splits)

lemma shipped_when_lower: "list_all (\<lambda>x. LowerWhen (fst x) v \<noteq> None) whenVocabTokens"
  using whenVocab_lower [of v] by (auto simp: list_all_iff split: option.splits)

lemma BuildVocabulary_when:
  "voc_When (BuildVocabulary cal) =
     List.map_filter (\<lambda>x. when_entry (Vocab cal) (fst x) (fst (snd x)) (snd (snd x))) whenVocabTokens @
     List.map_filter (\<lambda>h. when_entry (Vocab cal) (holiday_prefix @ fst h) (snd h) (snd h))
       (filter (\<lambda>h. fst h \<in> ob_ID ` set (Vocabulary_Calendar (Vocab cal) (cl_Country cal))) (Definitions (Vocab cal)))"
  by (simp add: BuildVocabulary_def Let_def split_def)

lemma shipped_what:
  "list_all (\<lambda>w. map_option fst (LowerWhat (av_Token w)) = Some (av_Scope w)) (voc_What (BuildVocabulary cal))"
  "map av_Token (voc_What (BuildVocabulary cal)) = map fst whatVocabTokens"
proof -
  have low: "list_all (\<lambda>t. LowerWhat (fst t) \<noteq> None) whatVocabTokens" by code_simp
  show "list_all (\<lambda>w. map_option fst (LowerWhat (av_Token w)) = Some (av_Scope w)) (voc_What (BuildVocabulary cal))"
    using low by (auto simp: BuildVocabulary_def Let_def list_all_iff split: option.splits prod.splits)
  show "map av_Token (voc_What (BuildVocabulary cal)) = map fst whatVocabTokens"
    by (simp add: BuildVocabulary_def Let_def case_prod_beta comp_def)
qed

lemma shipped_how:
  "map hv_Token (voc_How (BuildVocabulary cal)) = map fst howVocabTokens"
  "list_all (\<lambda>w. map_option fst (LowerHow (hv_Token w)) = Some (hv_Ordering w) \<and>
      map_option (\<lambda>h. snd h = WindowFull) (LowerHow (hv_Token w)) = Some (hv_WindowFull w)) (voc_How (BuildVocabulary cal))"
proof -
  let ?how = "List.map_filter (\<lambda>(token, label, short).
               map_option (\<lambda>(ord, win). \<lparr>hv_Token = token, hv_Label = label, hv_ShortLabel = short,
                   hv_Ordering = ord, hv_WindowFull = (win = WindowFull)\<rparr>) (LowerHow token)) howVocabTokens"
  have eq: "voc_How (BuildVocabulary cal) = ?how" by (simp add: BuildVocabulary_def Let_def)
  show "map hv_Token (voc_How (BuildVocabulary cal)) = map fst howVocabTokens"
    unfolding eq by code_simp
  show "list_all (\<lambda>w. map_option fst (LowerHow (hv_Token w)) = Some (hv_Ordering w) \<and>
      map_option (\<lambda>h. snd h = WindowFull) (LowerHow (hv_Token w)) = Some (hv_WindowFull w)) (voc_How (BuildVocabulary cal))"
    unfolding eq by code_simp
qed

text \<open>
  The editor is served exactly the shipped tokens and, for a valid vocabulary, one holiday token
  per holiday the calendar's country keeps, none dropped; and every token carries the predicate,
  priority, scope and ordering the suggester and the write path lower it to.
\<close>

theorem BuildVocabulary_exact:
  assumes "Vocabulary_New hs = Inr (Vocab cal)"
  shows "map wv_Token (voc_When (BuildVocabulary cal)) =
           map fst whenVocabTokens @
           map (\<lambda>h. holiday_prefix @ fst h)
             (filter (\<lambda>h. fst h \<in> ob_ID ` set (Vocabulary_Calendar (Vocab cal) (cl_Country cal)))
               (Definitions (Vocab cal))) \<and>
         list_all (\<lambda>w. LowerWhen (wv_Token w) (Vocab cal) = Some (wv_Predicate w, wv_Priority w))
           (voc_When (BuildVocabulary cal)) \<and>
         map av_Token (voc_What (BuildVocabulary cal)) = map fst whatVocabTokens \<and>
         list_all (\<lambda>w. map_option fst (LowerWhat (av_Token w)) = Some (av_Scope w)) (voc_What (BuildVocabulary cal)) \<and>
         map hv_Token (voc_How (BuildVocabulary cal)) = map fst howVocabTokens \<and>
         list_all (\<lambda>w. map_option fst (LowerHow (hv_Token w)) = Some (hv_Ordering w)) (voc_How (BuildVocabulary cal))"
proof -
  have ids: "check_ids [] (Vocab cal) = None"
    using assms by (auto simp: Vocabulary_New_def split: option.splits list.splits prod.splits)
  let ?kept = "filter (\<lambda>h. fst h \<in> ob_ID ` set (Vocabulary_Calendar (Vocab cal) (cl_Country cal))) (Definitions (Vocab cal))"
  have "list_all (\<lambda>h. LowerWhen (holiday_prefix @ fst h) (Vocab cal) \<noteq> None) ?kept"
    using Definitions_lower [OF ids] by (auto simp: list_all_iff)
  note kept = map_filter_when_entry [OF this] and shipped = map_filter_when_entry [OF shipped_when_lower]
  have "map wv_Token (voc_When (BuildVocabulary cal)) =
      map fst whenVocabTokens @ map (\<lambda>h. holiday_prefix @ fst h) ?kept"
    unfolding BuildVocabulary_when map_append kept(1) shipped(1) ..
  moreover have "list_all (\<lambda>w. LowerWhen (wv_Token w) (Vocab cal) = Some (wv_Predicate w, wv_Priority w))
      (voc_When (BuildVocabulary cal))"
    unfolding BuildVocabulary_when list_all_append by (rule conjI, rule shipped(2), rule kept(2))
  ultimately show ?thesis
    using shipped_what [of cal] shipped_how [of cal] by (auto simp: list_all_iff)
qed


lemma BuildVocabulary_exact_witness:
  "map wv_Token (voc_When (BuildVocabulary (empty_calendar\<lparr>cl_Country := ''GB''\<rparr>))) =
     map fst whenVocabTokens @
     map (\<lambda>h. holiday_prefix @ fst h)
       (filter (\<lambda>h. fst h \<in> ob_ID ` set (Vocabulary_Calendar Seed ''GB'')) (Definitions Seed))"
proof -
  have v: "Vocab (empty_calendar\<lparr>cl_Country := ''GB''\<rparr>) = Seed"
    by (simp add: Vocab_def empty_calendar_def Seed_valid)
  have "Vocabulary_New Seed = Inr (Vocab (empty_calendar\<lparr>cl_Country := ''GB''\<rparr>))"
    unfolding v by (simp add: Vocabulary_New_def Seed_ids Seed_members)
  from BuildVocabulary_exact [OF this] show ?thesis
    by (simp add: v)
qed

end
