(* ===== verification/Grounding.thy ===== *)
theory Grounding
  imports Presets Policy_Merge Filters Episode_Selection
begin

text \<open>
  The grounding of a proposal's policy, \<^verbatim>\<open>internal/suggest/proposal_grounding.go\<close> and
  \<^verbatim>\<open>intent_policy.go\<close>: a language model proposes rule values as strings and tokens, and these functions
  turn them into a channel policy, keeping only values the closed vocabularies know and holding the
  audience ceiling to what the request itself asked for. The interpretation of the request is the
  record \<open>IntentPolicy\<close>; its child-safety ceiling, its kids signal and its season are computed here,
  its rating limit, unrated exclusion and episode cues come from regular expressions and phrase
  polarity and are fields of the record.
\<close>

subsection \<open>The request and what the model proposed\<close>

record Intent =
  in_Description :: string
  in_Era :: string
  in_Tone :: string
  in_MustInclude :: "string list"
  in_MustExclude :: "string list"
  in_RefineText :: string

record IntentPolicy =
  ip_EpisodeSelection :: EpisodeSelection
  ip_explicitAudienceCeiling :: Rating
  ip_excludeUnrated :: bool
  ip_safetyCeiling :: Rating
  ip_seasonal :: SeasonalPolicy
  ip_sequential :: bool
  ip_curated :: bool
  ip_kidsSignal :: bool

record PickRule =
  pr_When :: string
  pr_What :: string
  pr_How :: string
  pr_Priority :: int

record pickPolicy =
  pp_Ceiling :: string
  pp_Unrated :: string
  pp_Include :: "string list"
  pp_Exclude :: "string list"
  pp_Ordering :: string
  pp_SeasonalMode :: string
  pp_SeasonalHolidays :: "string list"
  pp_Rules :: "PickRule list"

definition empty_pick :: pickPolicy where
  "empty_pick = \<lparr>pp_Ceiling = '''', pp_Unrated = '''', pp_Include = [], pp_Exclude = [], pp_Ordering = '''',
     pp_SeasonalMode = '''', pp_SeasonalHolidays = [], pp_Rules = []\<rparr>"

record ProposalItem =
  pi_MediaType :: MediaType
  pi_TMDBID :: int
  pi_TVDBID :: int
  pi_Name :: string
  pi_Year :: int
  pi_Seasons :: "int list"
  pi_SeasonMin :: int
  pi_SeasonMax :: int
  pi_EpisodeSelection :: EpisodeSelection
  pi_InLibrary :: bool
  pi_OfficialRating :: string

definition Item_Key :: "ProposalItem \<Rightarrow> key_error + Key" where
  "Item_Key p =
     Title_Key \<lparr>t_MediaType = pi_MediaType p, t_TMDBID = pi_TMDBID p, t_TVDBID = pi_TVDBID p,
                t_Name = pi_Name p, t_Year = pi_Year p, t_Seasons = pi_Seasons p\<rparr>"

subsection \<open>Reading the request (intent\_policy.go)\<close>

definition normalizedIntentText :: "Intent \<Rightarrow> string" where
  "normalizedIntentText i =
     to_lower (join '' '' [in_Description i, in_Tone i, in_Era i, in_RefineText i,
       join '' '' (in_MustInclude i), join '' '' (in_MustExclude i)])"

definition has_cue :: "string \<Rightarrow> string list \<Rightarrow> bool" where
  "has_cue hay cues = list_ex (strings_Contains hay) cues"

definition kidsIntentCues :: "string list" where
  "kidsIntentCues =
     [''kid'', ''kids'', ''child'', ''children'', ''family-friendly'', ''family friendly'',
      ''for the family'', ''for families'', ''cartoon'', ''all ages'', ''all-ages'', ''wholesome'',
      ''preschool'', ''toddler'', ''bluey'', ''saturday morning'', ''teen'', ''teenager'', ''tween'',
      ''g-rated'', ''pg-rated'', ''clean '', ''safe for'']"

definition intentSignalsKids :: "Intent \<Rightarrow> bool" where
  "intentSignalsKids i =
     (let hay = normalizedIntentText i
      in has_cue hay kidsIntentCues \<or> has_cue hay [''tv-y'', ''tv-g'', ''rated g'', ''rated pg''])"

definition intentDeterministicSafetyCeiling :: "Intent \<Rightarrow> Rating" where
  "intentDeterministicSafetyCeiling i =
     (let hay = normalizedIntentText i
      in if has_cue hay [''kid-safe'', ''kid safe'', ''kids-safe'', ''kids safe'', ''child-safe'', ''child safe'',
            ''safe for kids'', ''safe for children'', ''for kids'', ''for children'',
            ''young children'', ''preschool'', ''toddler'', ''saturday morning'']
         then Normalize ''TV-Y7''
         else if has_cue hay [''family-friendly'', ''family friendly'', ''for the family'', ''for families'',
            ''all ages'', ''all-ages'']
         then Normalize ''TV-PG''
         else if strings_Contains hay ''family'' \<and>
            has_cue hay [''nothing too'', ''not too'', ''never gruesome'', ''safe'', ''appropriate'']
         then Normalize ''TV-PG'' else '''')"

definition stricterCeiling :: "Rating \<Rightarrow> Rating \<Rightarrow> Rating" where
  "stricterCeiling candidate maximum =
     (if maximum = '''' then candidate
      else (let (candidateRank, candidateOK) = Rank candidate; (maximumRank, maximumOK) = Rank maximum
            in if \<not> candidateOK \<or> \<not> maximumOK \<or> candidateRank > maximumRank then maximum else candidate))"

definition seasonalPolicyForIntent :: "(string \<Rightarrow> string) \<Rightarrow> Intent \<Rightarrow> Vocabulary \<Rightarrow> SeasonalPolicy" where
  "seasonalPolicyForIntent fold_text i v =
     (let hay = join '' '' [in_Description i, in_Tone i, in_Era i, join '' '' (in_MustInclude i)];
          hay = (if ContainsPhrase fold_text (in_RefineText i) ''channel'' then hay @ '' '' @ in_RefineText i else hay);
          holidays = MatchIntent fold_text v hay
      in if holidays = [] then empty_seasonal
         else empty_seasonal\<lparr>se_Mode := SeasonalExclusive, se_Holidays := holidays\<rparr>)"

definition holidayLabel :: "Vocabulary \<Rightarrow> string \<Rightarrow> string" where
  "holidayLabel v i = (case find (\<lambda>h. hd_ID h = i) v of None \<Rightarrow> i | Some h \<Rightarrow> hd_Label h)"

record SeasonNotKept =
  nk_Country :: string
  nk_Holidays :: "string list"

definition seasonKeptIn :: "SeasonalPolicy \<Rightarrow> Calendar \<Rightarrow> SeasonalPolicy \<times> SeasonNotKept option" where
  "seasonKeptIn seasonal cal =
     (if se_Mode seasonal \<noteq> SeasonalExclusive \<or> se_Holidays seasonal = [] then (seasonal, None)
      else
        (let v = Vocab cal;
             kept = filter (\<lambda>i. KeptIn v i (cl_Country cal)) (se_Holidays seasonal);
             dropped = map (holidayLabel v) (filter (\<lambda>i. \<not> KeptIn v i (cl_Country cal)) (se_Holidays seasonal))
         in if dropped = [] then (seasonal, None)
            else (let notKept = \<lparr>nk_Country = CalendarCountry v (cl_Country cal), nk_Holidays = dropped\<rparr>
                  in if kept = [] then (empty_seasonal, Some notKept)
                     else (seasonal\<lparr>se_Holidays := kept\<rparr>, Some notKept))))"

definition series_keys :: "ProposalItem list \<Rightarrow> Key list" where
  "series_keys items =
     remdups (List.map_filter (\<lambda>it. if pi_MediaType it \<noteq> Series then None
                                   else case Item_Key it of Inl _ \<Rightarrow> None | Inr k \<Rightarrow> Some k) items)"

definition multiSeries :: "ProposalItem list \<Rightarrow> bool" where
  "multiSeries lineup \<longleftrightarrow> length (series_keys lineup) \<ge> 2"

definition singleSeriesOnly :: "ProposalItem list list \<Rightarrow> bool" where
  "singleSeriesOnly groups \<longleftrightarrow>
     list_all (\<lambda>it. pi_MediaType it = Series) (concat groups) \<and> length (series_keys (concat groups)) = 1"

definition clampSeasonWindow :: "MediaType \<Rightarrow> int \<Rightarrow> int \<Rightarrow> (int \<times> int) option" where
  "clampSeasonWindow mt lo hi =
     (if mt \<noteq> Series then None
      else (let lo = (if lo < 0 then 0 else lo); hi = (if hi < 0 then 0 else hi)
            in if lo = 0 \<and> hi = 0 then None
               else if lo > 0 \<and> hi > 0 \<and> lo > hi then None
               else Some (lo, hi)))"

subsection \<open>Rules\<close>

abbreviation ruleWindowMin :: duration where "ruleWindowMin \<equiv> hour"
abbreviation ruleWindowMax :: duration where "ruleWindowMax \<equiv> 168 * hour"

definition clampRuleWindow :: "duration \<Rightarrow> duration" where
  "clampRuleWindow w =
     (if w = WindowFull \<or> w = 0 then w
      else if w < ruleWindowMin then ruleWindowMin
      else if w > ruleWindowMax then ruleWindowMax else w)"

definition intersectSeries :: "Key list \<Rightarrow> Key list \<Rightarrow> Key list" where
  "intersectSeries want grounded = (if want = [] then want else filter (\<lambda>k. k \<in> set grounded) want)"

definition scopeNarrows :: "ScopePolicy option \<Rightarrow> bool" where
  "scopeNarrows s =
     (case s of None \<Rightarrow> False
      | Some s \<Rightarrow> sc_Series s \<noteq> [] \<or> sc_Collections s \<noteq> [] \<or> sc_Seasons s \<noteq> None \<or> sc_Dates s \<noteq> None \<or>
          gf_Include (sc_Genres s) \<noteq> [] \<or> gf_Exclude (sc_Genres s) \<noteq> [] \<or> sc_RuntimeMax s > 0)"

text \<open>
  A first byte that starts a longer character is not text by itself: \<^verbatim>\<open>strings.ToUpper\<close> writes the bytes
  of the replacement character for it.
\<close>

definition capitalizeASCII :: "string \<Rightarrow> string" where
  "capitalizeASCII s =
     (case s of [] \<Rightarrow> s
      | c # cs \<Rightarrow> if of_char c \<ge> (128 :: nat) then [CHR 0xEF, CHR 0xBF, CHR 0xBD] @ cs else upper_char c # cs)"

definition titleToken :: "string \<Rightarrow> string" where
  "titleToken tok =
     (case str_cut CHR '':'' tok of
        None \<Rightarrow> capitalizeASCII tok
      | Some (q, rest) \<Rightarrow> capitalizeASCII q @ '': '' @ capitalizeASCII rest)"

definition middle_dot :: string where
  "middle_dot = [CHR '' '', CHR 0xC2, CHR 0xB7, CHR '' '']"

definition ruleLabel :: "string \<Rightarrow> string \<Rightarrow> string \<Rightarrow> string" where
  "ruleLabel when' what how =
     (let parts = map titleToken (filter (\<lambda>t. t \<noteq> '''' \<and> to_lower t \<noteq> ''all'') (map trim_space [when', what, how]))
      in if parts = [] then ''Rule'' else join middle_dot parts)"

text \<open>A rule of the model's: \<open>None\<close> when its WHEN token is unknown, so that the rule is dropped.\<close>

definition ground_what :: "string \<Rightarrow> Key list \<Rightarrow> ScopePolicy option" where
  "ground_what token grounded =
     (case LowerWhat token of
        Some (Some scope, _) \<Rightarrow>
          (let scope = Some (scope\<lparr>sc_Series := intersectSeries (sc_Series scope) grounded\<rparr>)
           in if \<not> scopeNarrows scope then None else scope)
      | _ \<Rightarrow> None)"

definition groundRule :: "Key list \<Rightarrow> Vocabulary \<Rightarrow> nat \<Rightarrow> PickRule \<Rightarrow> SchedulingRule option" where
  "groundRule grounded holidays i r =
     (case LowerWhen (pr_When r) holidays of
        None \<Rightarrow> None
      | Some (when', prio) \<Rightarrow>
          Some \<lparr>sr_ID = CHR ''r'' # itoa (int i + 1), sr_Source = RuleSourceLLM,
                sr_Label = ruleLabel (pr_When r) (pr_What r) (pr_How r),
                sr_Priority = (if pr_Priority r > 0 then pr_Priority r else prio),
                sr_When = when',
                sr_What = ground_what (pr_What r) grounded,
                sr_How = (case LowerHow (pr_How r) of None \<Rightarrow> empty_how | Some (how, _) \<Rightarrow> how),
                sr_Window = (case LowerHow (pr_How r) of None \<Rightarrow> 0 | Some (_, win) \<Rightarrow> clampRuleWindow win)\<rparr>)"

definition grounded_keys :: "ProposalItem list \<Rightarrow> Key list" where
  "grounded_keys lineup = List.map_filter (\<lambda>it. case Item_Key it of Inl _ \<Rightarrow> None | Inr k \<Rightarrow> Some k) lineup"

definition groundRules :: "PickRule list \<Rightarrow> ProposalItem list \<Rightarrow> Vocabulary \<Rightarrow> SchedulingRule list" where
  "groundRules raw lineup holidays =
     List.map_filter (\<lambda>(i, r). groundRule (grounded_keys lineup) holidays i r) (List.enumerate 0 raw)"

subsection \<open>The policy\<close>

definition known_holiday_step :: "Vocabulary \<Rightarrow> string list \<Rightarrow> string \<Rightarrow> string list" where
  "known_holiday_step holidays out raw =
     (let i = to_lower (trim_space raw)
      in if list_ex (\<lambda>d. fst d = i) (Definitions holidays) \<and> i \<notin> set out then out @ [i] else out)"

definition knownHolidayIDs :: "string list \<Rightarrow> Vocabulary \<Rightarrow> string list" where
  "knownHolidayIDs raw holidays = foldl (known_holiday_step holidays) [] raw"

definition ground_ceiling :: "pickPolicy \<Rightarrow> IntentPolicy \<Rightarrow> Rating" where
  "ground_ceiling raw ip =
     (let requested = stricterCeiling (ip_explicitAudienceCeiling ip) (ip_safetyCeiling ip);
          c = Normalize (pp_Ceiling raw)
      in if c \<noteq> '''' \<and> (ip_kidsSignal ip \<or> ip_explicitAudienceCeiling ip \<noteq> '''') then stricterCeiling c requested
         else if requested \<noteq> '''' then requested else '''')"

definition ground_unrated :: "pickPolicy \<Rightarrow> IntentPolicy \<Rightarrow> UnratedPolicy" where
  "ground_unrated raw ip =
     (if ip_excludeUnrated ip then UnratedExclude
      else if pp_Unrated raw = ''exclude'' then UnratedExclude
      else if pp_Unrated raw = ''allow'' then UnratedAllow else UnratedDefault)"

definition ground_ordering :: "pickPolicy \<Rightarrow> IntentPolicy \<Rightarrow> ProposalItem list \<Rightarrow> ProposalItem list \<Rightarrow> OrderingMode" where
  "ground_ordering raw ip lineup acquisitions =
     (let m = (if pp_Ordering raw = ''sequential'' then OrderSequential
               else if pp_Ordering raw = ''shuffle'' then OrderShuffle
               else if pp_Ordering raw = ''syndication'' then OrderSyndication else OrderInherit);
          m = (if ip_sequential ip then OrderSequential else m);
          m = (if m = OrderInherit \<and> multiSeries lineup then OrderSyndication else m)
      in if ip_curated ip \<and> \<not> ip_sequential ip \<and> singleSeriesOnly [lineup, acquisitions]
         then OrderSyndication else m)"

definition ground_seasonal :: "pickPolicy \<Rightarrow> IntentPolicy \<Rightarrow> Vocabulary \<Rightarrow> SeasonalPolicy" where
  "ground_seasonal raw ip holidays =
     (let mode = (if pp_SeasonalMode raw = ''off'' then Some SeasonalOff
                  else if pp_SeasonalMode raw = ''auto'' then Some SeasonalAuto
                  else if pp_SeasonalMode raw = ''exclusive'' then Some SeasonalExclusive else None);
          s = (case mode of
                 None \<Rightarrow> empty_seasonal
               | Some m \<Rightarrow>
                   (let ids = knownHolidayIDs (pp_SeasonalHolidays raw) holidays
                    in if m = SeasonalExclusive \<and> pp_SeasonalHolidays raw \<noteq> [] \<and> ids = []
                       then empty_seasonal
                       else empty_seasonal\<lparr>se_Mode := m, se_Holidays := ids\<rparr>))
      in if se_Mode (ip_seasonal ip) \<noteq> SeasonalDefault then ip_seasonal ip else s)"

definition ground_unchecked ::
    "pickPolicy option \<Rightarrow> ProposalItem list \<Rightarrow> ProposalItem list \<Rightarrow> IntentPolicy \<Rightarrow> Vocabulary \<Rightarrow> ChannelPolicy" where
  "ground_unchecked raw lineup acquisitions ip holidays =
     (let raw = (case raw of None \<Rightarrow> empty_pick | Some r \<Rightarrow> r)
      in empty_policy\<lparr>
           cp_Audience := \<lparr>au_Ceiling = ground_ceiling raw ip, au_Unrated = ground_unrated raw ip\<rparr>,
           cp_Scope := genre_scope (pp_Include raw) (pp_Exclude raw),
           cp_Ordering := ground_ordering raw ip lineup acquisitions,
           cp_Seasonal := ground_seasonal raw ip holidays,
           cp_Rules := groundRules (pp_Rules raw) lineup holidays\<rparr>)"

text \<open>The final net: a policy that does not validate is dropped whole.\<close>

definition groundPolicy ::
    "(string \<Rightarrow> bool) \<Rightarrow> pickPolicy option \<Rightarrow> ProposalItem list \<Rightarrow> ProposalItem list \<Rightarrow> IntentPolicy \<Rightarrow> Vocabulary
     \<Rightarrow> ChannelPolicy" where
  "groundPolicy langcode_Valid raw lineup acquisitions ip holidays =
     (let p = ground_unchecked raw lineup acquisitions ip holidays
      in if ChannelPolicy_Validate langcode_Valid p \<noteq> None then empty_policy else p)"

subsection \<open>Refusing what cannot air\<close>

definition refuses_pick :: "AudiencePolicy \<Rightarrow> bool \<Rightarrow> ProposalItem \<Rightarrow> bool" where
  "refuses_pick a refuseUnrated it =
     (let n = Normalize (pi_OfficialRating it)
      in if n = '''' \<and> (refuseUnrated \<or> au_Unrated a = UnratedExclude) then True
         else Admits a n = (False, ''over_ceiling''))"

definition refuseUnairable ::
    "AudiencePolicy \<Rightarrow> ProposalItem list \<Rightarrow> ProposalItem list \<Rightarrow> bool
     \<Rightarrow> ProposalItem list \<times> ProposalItem list \<times> (ProposalItem \<times> string) list" where
  "refuseUnairable a lineup acquisitions refuseUnrated =
     (if au_Ceiling a = '''' \<and> au_Unrated a \<noteq> UnratedExclude then (lineup, acquisitions, [])
      else (filter (\<lambda>it. \<not> refuses_pick a refuseUnrated it) lineup,
            filter (\<lambda>it. \<not> refuses_pick a refuseUnrated it) acquisitions,
            map (\<lambda>it. (it, ''over_ceiling'')) (filter (refuses_pick a refuseUnrated) (lineup @ acquisitions))))"

subsection \<open>What a lowered scope and a grounded rule can be\<close>

lemma validateAxis_field: "validateAxis f rs = None \<Longrightarrow> validateAxis g rs = None"
  by (simp add: validateAxis_def split: if_splits)

lemma validateDates_field:
  assumes "validateDates f d = None"
  shows "validateDates g d = None"
proof (cases d)
  case None
  then show ?thesis by (simp add: validateDates_def)
next
  case (Some s)
  with assms have ne: "\<not> dates_empty d" and axes: "validateAxis f (ds_MovieRelease s) = None"
      "validateAxis f (ds_SeriesPremiere s) = None" "validateAxis f (ds_SeriesAiring s) = None"
    by (auto simp: validateDates_def split: if_splits option.splits)
  then show ?thesis
    using Some ne axes [THEN validateAxis_field [of f _ g]] by (simp add: validateDates_def)
qed

text \<open>A scope a WHAT token lowers to: one narrowing field set, and dates that pass the policy's checks.\<close>

lemma LowerWhat_scope:
  assumes "LowerWhat token = Some (Some s, c)"
  shows "scopeNarrows (Some s)" and "validateDates f (sc_Dates s) = None" and "c = '''' \<or> Mapped c"
proof -
  let ?t = "to_lower (trim_space token)"
  have none: "validateDates f None = None" by (simp add: validateDates_def)
  have lad: "Mapped (Normalize ''TV-Y7'')" "Mapped (Normalize ''TV-PG'')" by code_simp+
  have genre: "scopeNarrows (Some (genre_scope inc exc)) \<and> sc_Dates (genre_scope inc exc) = None"
    if "inc \<noteq> [] \<or> exc \<noteq> []" for inc exc
    using that by (auto simp: scopeNarrows_def genre_scope_def empty_scope_def)
  have series: "scopeNarrows (Some (empty_scope\<lparr>sc_Series := [k]\<rparr>))" "sc_Dates (empty_scope\<lparr>sc_Series := [k]\<rparr>) = None" for k
    by (simp_all add: scopeNarrows_def empty_scope_def)
  have sets: "kidSafeGenres \<noteq> []" "familyGenres \<noteq> []" by (simp_all add: kidSafeGenres_def familyGenres_def)
  have era: "scopeNarrows (Some (empty_scope\<lparr>sc_Dates := EraDates r\<rparr>))" if "parseEraToken x = Some r" for x r
    using that by (auto simp: parseEraToken_def scopeNarrows_def EraDates_def empty_scope_def split: option.splits if_splits prod.splits)
  show "scopeNarrows (Some s)"
    using assms genre series sets era unfolding LowerWhat_def Let_def
    by (auto split: if_splits option.splits)
  show "validateDates f (sc_Dates s) = None"
    using assms genre series sets none unfolding LowerWhat_def Let_def
    by (auto split: if_splits option.splits dest: validateDates_field [of _ _ f])
  show "c = '''' \<or> Mapped c"
    using assms lad unfolding LowerWhat_def Let_def by (auto split: if_splits option.splits)
qed


lemma ground_what_sound:
  assumes "ground_what token grounded = Some s"
  shows "scopeNarrows (Some s)" and "validateDates f (sc_Dates s) = None" and "set (sc_Series s) \<subseteq> set grounded"
proof -
  obtain sc c where lw: "LowerWhat token = Some (sc, c)"
    using assms by (cases "LowerWhat token") (auto simp: ground_what_def)
  obtain s' where sc: "sc = Some s'"
    using assms lw by (cases sc) (simp_all add: ground_what_def)
  note low = lw [unfolded sc]
  have "(if \<not> scopeNarrows (Some (s'\<lparr>sc_Series := intersectSeries (sc_Series s') grounded\<rparr>)) then None
         else Some (s'\<lparr>sc_Series := intersectSeries (sc_Series s') grounded\<rparr>)) = Some s"
    using assms by (simp only: ground_what_def low Let_def option.case prod.case)
  then have s: "s = s'\<lparr>sc_Series := intersectSeries (sc_Series s') grounded\<rparr>" and n: "scopeNarrows (Some s)"
    by (metis option.distinct(1) option.inject)+
  show "scopeNarrows (Some s)" by (rule n)
  show "validateDates f (sc_Dates s) = None"
    using LowerWhat_scope(2) [OF low, of f] by (simp add: s)
  show "set (sc_Series s) \<subseteq> set grounded"
    by (auto simp: s intersectSeries_def split: if_splits)
qed

definition rule_window_ok :: "duration \<Rightarrow> bool" where
  "rule_window_ok w \<longleftrightarrow> w = WindowFull \<or> w = 0 \<or> ruleWindowMin \<le> w \<and> w \<le> ruleWindowMax"

lemma clampRuleWindow_ok: "rule_window_ok (clampRuleWindow w)"
  by (simp add: rule_window_ok_def clampRuleWindow_def)

lemma groundRule_sound:
  assumes "groundRule grounded holidays i r = Some rule"
  shows "isLLM (sr_Source rule)" "rule_dates_error rule = None" "rule_window_ok (sr_Window rule)"
    "sr_What rule = None \<or> scopeNarrows (sr_What rule)"
    "\<And>s. sr_What rule = Some s \<Longrightarrow> set (sc_Series s) \<subseteq> set grounded"
    "LowerWhen (pr_When r) holidays \<noteq> None \<and> sr_When rule = fst (the (LowerWhen (pr_When r) holidays))"
proof -
  have ok: "rule_window_ok 0" by (simp add: rule_window_ok_def)
  from assms obtain w p where low: "LowerWhen (pr_When r) holidays = Some (w, p)"
    and rule: "sr_Source rule = RuleSourceLLM" "sr_What rule = ground_what (pr_What r) grounded" "sr_When rule = w"
      "sr_Window rule = (case LowerHow (pr_How r) of None \<Rightarrow> 0 | Some (_, win) \<Rightarrow> clampRuleWindow win)"
    by (auto simp: groundRule_def split: option.splits prod.splits)
  show "isLLM (sr_Source rule)" by (simp add: rule isLLM_def)
  show "rule_dates_error rule = None"
    using ground_what_sound(2) by (auto simp: rule_dates_error_def rule split: option.splits)
  show "rule_window_ok (sr_Window rule)"
    by (simp add: rule clampRuleWindow_ok ok split: option.splits prod.splits)
  show "sr_What rule = None \<or> scopeNarrows (sr_What rule)"
    using ground_what_sound(1) by (cases "ground_what (pr_What r) grounded") (auto simp: rule)
  show "set (sc_Series s) \<subseteq> set grounded" if "sr_What rule = Some s" for s
    using ground_what_sound(3) that by (simp add: rule)
  show "LowerWhen (pr_When r) holidays \<noteq> None \<and> sr_When rule = fst (the (LowerWhen (pr_When r) holidays))"
    by (simp add: low rule)
qed

lemma map_filter_member: "y \<in> set (List.map_filter f xs) \<Longrightarrow> \<exists>x\<in>set xs. f x = Some y"
  by (induction xs) (auto simp: map_filter_simps split: option.splits)

lemma groundRules_member:
  assumes "rule \<in> set (groundRules raw lineup holidays)"
  shows "\<exists>i r. r \<in> set raw \<and> groundRule (grounded_keys lineup) holidays i r = Some rule"
proof -
  from map_filter_member [OF assms [unfolded groundRules_def]] obtain x
    where x: "x \<in> set (List.enumerate 0 raw)" "(case x of (i, r) \<Rightarrow> groundRule (grounded_keys lineup) holidays i r) = Some rule"
    by blast
  have "snd x \<in> set (map snd (List.enumerate 0 raw))" using x(1) by (simp del: map_snd_enumerate)
  then have "snd x \<in> set raw" by (simp only: map_snd_enumerate)
  with x(2) show ?thesis by (auto simp: split_def)
qed

subsection \<open>The ceiling\<close>

lemma AtOrBelow_refl: "Mapped r \<Longrightarrow> AtOrBelow r r"
  by (auto simp: AtOrBelow_def Mapped_def)

lemma stricterCeiling_max:
  assumes "Mapped m"
  shows "AtOrBelow (stricterCeiling c m) m"
proof -
  have "m \<noteq> ''''" using assms by auto
  then show ?thesis
    using assms by (auto simp: stricterCeiling_def Rank_def AtOrBelow_def Mapped_def split: option.splits)
qed

lemma stricterCeiling_candidate: "Mapped c \<Longrightarrow> m = '''' \<or> Mapped m \<Longrightarrow> AtOrBelow (stricterCeiling c m) c"
  by (auto simp: stricterCeiling_def Rank_def AtOrBelow_def Mapped_def split: option.splits)

lemma stricterCeiling_ladder:
  assumes "c = '''' \<or> Mapped c" and "m = '''' \<or> Mapped m"
  shows "stricterCeiling c m = '''' \<or> Mapped (stricterCeiling c m)"
  using assms by (auto simp: stricterCeiling_def Let_def split: prod.splits)

definition intent_policy_ok :: "IntentPolicy \<Rightarrow> bool" where
  "intent_policy_ok ip \<longleftrightarrow>
     (ip_explicitAudienceCeiling ip = '''' \<or> Mapped (ip_explicitAudienceCeiling ip)) \<and>
     (ip_safetyCeiling ip = '''' \<or> Mapped (ip_safetyCeiling ip)) \<and>
     SeasonalMode_valid (se_Mode (ip_seasonal ip)) \<and> OffSeason_valid (se_OffSeason (ip_seasonal ip)) \<and>
     HolidayStrength_valid (se_Strength (ip_seasonal ip)) \<and> HolidayPlacement_valid (se_Placement (ip_seasonal ip))"

text \<open>What the request asked for is kept by every path through the ceiling.\<close>

lemma requested_ceiling:
  assumes "intent_policy_ok ip" and "Mapped c" and "c = ip_safetyCeiling ip \<or> c = ip_explicitAudienceCeiling ip"
  shows "AtOrBelow (stricterCeiling (ip_explicitAudienceCeiling ip) (ip_safetyCeiling ip)) c"
  using assms stricterCeiling_max stricterCeiling_candidate by (auto simp: intent_policy_ok_def)

lemma ground_ceiling_ladder:
  assumes "intent_policy_ok ip"
  shows "ground_ceiling raw ip = '''' \<or> Mapped (ground_ceiling raw ip)"
proof -
  have "stricterCeiling (ip_explicitAudienceCeiling ip) (ip_safetyCeiling ip) = '''' \<or>
      Mapped (stricterCeiling (ip_explicitAudienceCeiling ip) (ip_safetyCeiling ip))"
    using assms by (intro stricterCeiling_ladder) (auto simp: intent_policy_ok_def)
  note req = this
  show ?thesis
    unfolding ground_ceiling_def Let_def
    using req stricterCeiling_ladder [OF Normalize_result [of "pp_Ceiling raw"] req]
    by (simp only: simp_thms split: if_split)
qed

lemma ground_ceiling_requested:
  assumes "intent_policy_ok ip" and "Mapped c" and "c = ip_safetyCeiling ip \<or> c = ip_explicitAudienceCeiling ip"
  shows "AtOrBelow (ground_ceiling raw ip) c"
proof -
  let ?req = "stricterCeiling (ip_explicitAudienceCeiling ip) (ip_safetyCeiling ip)"
  have le: "AtOrBelow ?req c" by (rule requested_ceiling [OF assms])
  then have "Mapped ?req" by (simp add: AtOrBelow_Mapped)
  moreover from this have "?req \<noteq> ''''" by auto
  ultimately show ?thesis
    using le AtOrBelow_trans [OF stricterCeiling_max le] by (auto simp: ground_ceiling_def Let_def)
qed

lemma ground_ceiling_unasked:
  assumes "\<not> ip_kidsSignal ip" "ip_explicitAudienceCeiling ip = ''''" "ip_safetyCeiling ip = ''''"
  shows "ground_ceiling raw ip = ''''"
  using assms by (simp add: ground_ceiling_def stricterCeiling_def)

lemma ground_seasonal_valid:
  assumes "intent_policy_ok ip"
  shows "SeasonalMode_valid (se_Mode (ground_seasonal raw ip h))" "OffSeason_valid (se_OffSeason (ground_seasonal raw ip h))"
    "HolidayStrength_valid (se_Strength (ground_seasonal raw ip h))"
    "HolidayPlacement_valid (se_Placement (ground_seasonal raw ip h))"
  using assms
  by (auto simp: ground_seasonal_def Let_def intent_policy_ok_def SeasonalMode_valid_def OffSeason_valid_def
      HolidayStrength_valid_def HolidayPlacement_valid_def)

lemma ground_unchecked_valid:
  assumes "intent_policy_ok ip"
  shows "ChannelPolicy_Validate lv (ground_unchecked raw lineup acquisitions ip holidays) = None"
proof -
  let ?p = "ground_unchecked raw lineup acquisitions ip holidays"
  let ?r = "case raw of None \<Rightarrow> empty_pick | Some r \<Rightarrow> r"
  have rules: "\<forall>r\<in>set (cp_Rules ?p). rule_dates_error r = None"
    using groundRules_member groundRule_sound(2) by (fastforce simp: ground_unchecked_def Let_def)
  have ord: "OrderingMode_valid (cp_Ordering ?p)"
    by (simp add: ground_unchecked_def Let_def ground_ordering_def OrderingMode_valid_def)
  have unr: "UnratedPolicy_valid (au_Unrated (cp_Audience ?p))"
    by (simp add: ground_unchecked_def Let_def ground_unrated_def UnratedPolicy_valid_def)
  have ceil: "au_Ceiling (cp_Audience ?p) = '''' \<or> Mapped (au_Ceiling (cp_Audience ?p))"
    using ground_ceiling_ladder [OF assms, of ?r] by (simp add: ground_unchecked_def Let_def)
  have sea: "cp_Seasonal ?p = ground_seasonal ?r ip holidays"
    by (simp add: ground_unchecked_def Let_def)
  have rest: "sc_Dates (cp_Scope ?p) = None" "cp_Filler ?p = None" "cp_Watermark ?p = None" "cp_BreakDuration ?p = None"
    "cp_CommercialSpacing ?p = None" "cp_AutoCurate ?p = None"
    by (simp_all add: ground_unchecked_def Let_def empty_policy_def genre_scope_def empty_scope_def)
  have "\<forall>e\<in>set (policy_checks lv ?p). e = None"
    using rules ord unr ceil ground_seasonal_valid [OF assms] rest
    by (auto simp: policy_checks_def sea validateDates_def FillerSelection_validate_def WatermarkPolicy_validate_def)
  then show ?thesis
    by (simp only: ChannelPolicy_Validate_None)
qed

lemma groundPolicy_net:
  "intent_policy_ok ip \<Longrightarrow>
     groundPolicy lv raw lineup acquisitions ip holidays = ground_unchecked raw lineup acquisitions ip holidays"
  using ground_unchecked_valid [of ip lv] by (simp add: groundPolicy_def Let_def)

lemma safety_ceiling_values:
  "intentDeterministicSafetyCeiling i \<in> {'''', ''TV-Y7'', ''TV-PG''}"
  by (simp add: intentDeterministicSafetyCeiling_def Let_def Normalize_ladder)

lemma safety_ceiling_Mapped:
  "intentDeterministicSafetyCeiling i \<noteq> '''' \<Longrightarrow> Mapped (intentDeterministicSafetyCeiling i)"
  using safety_ceiling_values [of i] by (auto simp: Mapped_def ladderRank_def)

text \<open>
  C31. Whatever the model proposes, the grounded policy always passes the policy's own checks, so the
  final net never replaces it by the empty policy; its ceiling is at or below the child-safety
  ceiling and the rating limit of the request; and a request with no such signal gets no ceiling.
\<close>

theorem groundPolicy_ceiling:
  assumes "intent_policy_ok ip"
  shows "let p = groundPolicy lv raw lineup acquisitions ip holidays
         in ChannelPolicy_Validate lv p = None \<and>
            p = ground_unchecked raw lineup acquisitions ip holidays \<and>
            (\<forall>c. c \<noteq> '''' \<and> (c = ip_safetyCeiling ip \<or> c = ip_explicitAudienceCeiling ip) \<longrightarrow>
                 AtOrBelow (au_Ceiling (cp_Audience p)) c) \<and>
            (\<not> ip_kidsSignal ip \<and> ip_explicitAudienceCeiling ip = '''' \<and> ip_safetyCeiling ip = '''' \<longrightarrow>
               au_Ceiling (cp_Audience p) = '''')"
proof -
  let ?p = "groundPolicy lv raw lineup acquisitions ip holidays"
  let ?r = "case raw of None \<Rightarrow> empty_pick | Some r \<Rightarrow> r"
  have net: "?p = ground_unchecked raw lineup acquisitions ip holidays"
    by (rule groundPolicy_net [OF assms])
  have ceil: "au_Ceiling (cp_Audience ?p) = ground_ceiling ?r ip"
    unfolding net by (simp add: ground_unchecked_def Let_def)
  have valid: "ChannelPolicy_Validate lv ?p = None"
    using ground_unchecked_valid [OF assms] by (simp only: net)
  have "AtOrBelow (au_Ceiling (cp_Audience ?p)) c"
    if "c \<noteq> ''''" "c = ip_safetyCeiling ip \<or> c = ip_explicitAudienceCeiling ip" for c
  proof -
    have "Mapped c" using assms that by (auto simp: intent_policy_ok_def)
    then show ?thesis unfolding ceil by (rule ground_ceiling_requested [OF assms _ that(2)])
  qed
  moreover have "au_Ceiling (cp_Audience ?p) = ''''"
    if "\<not> ip_kidsSignal ip" "ip_explicitAudienceCeiling ip = ''''" "ip_safetyCeiling ip = ''''"
    unfolding ceil by (rule ground_ceiling_unasked [OF that])
  ultimately show ?thesis
    using net valid by (simp only: Let_def) blast
qed

definition sample_kids :: Intent where
  "sample_kids = \<lparr>in_Description = ''Cartoons for kids'', in_Era = '''', in_Tone = '''', in_MustInclude = [],
     in_MustExclude = [], in_RefineText = ''''\<rparr>"

definition sample_intent_policy :: IntentPolicy where
  "sample_intent_policy = \<lparr>ip_EpisodeSelection = \<lparr>es_Mode = EpisodeComplete, es_Holidays = []\<rparr>,
     ip_explicitAudienceCeiling = '''', ip_excludeUnrated = False,
     ip_safetyCeiling = ''TV-Y7'', ip_seasonal = empty_seasonal, ip_sequential = False, ip_curated = False,
     ip_kidsSignal = True\<rparr>"

lemma sample_kids_reads:
  "intentDeterministicSafetyCeiling sample_kids = ''TV-Y7''" "intentSignalsKids sample_kids"
  by code_simp+

lemma sample_intent_policy_ok: "intent_policy_ok sample_intent_policy"
  by (simp add: intent_policy_ok_def sample_intent_policy_def Mapped_def ladderRank_def SeasonalMode_valid_def
      OffSeason_valid_def HolidayStrength_valid_def HolidayPlacement_valid_def)

text \<open>A model that asks for an adult ceiling on a children's channel does not get it.\<close>

lemma groundPolicy_ceiling_witness:
  "AtOrBelow (au_Ceiling (cp_Audience (groundPolicy (\<lambda>_. True) (Some (empty_pick\<lparr>pp_Ceiling := ''TV-MA''\<rparr>)) [] []
      sample_intent_policy Seed))) ''TV-Y7''"
proof -
  have safety: "ip_safetyCeiling sample_intent_policy = ''TV-Y7''" by (simp add: sample_intent_policy_def)
  note bound = groundPolicy_ceiling [OF sample_intent_policy_ok, of "\<lambda>_. True"
      "Some (empty_pick\<lparr>pp_Ceiling := ''TV-MA''\<rparr>)" "[]" "[]" Seed,
      unfolded Let_def, THEN conjunct2, THEN conjunct2, THEN conjunct1, THEN spec, of "''TV-Y7''"]
  show ?thesis
    by (rule bound [THEN mp]) (simp only: safety simp_thms list.distinct)
qed

subsection \<open>What the approver is offered\<close>

lemma Admits_mapped:
  assumes "Admits a r \<noteq> (False, ''over_ceiling'')" and "Mapped r" and "au_Ceiling a \<noteq> ''''"
  shows "AtOrBelow r (au_Ceiling a)"
  using assms by (auto simp: Admits_def audienceVerdict_def Normalize_Mapped split: if_splits)

lemma kept_pick:
  assumes "\<not> refuses_pick a True it" and "au_Ceiling a \<noteq> ''''"
  shows "AtOrBelow (Normalize (pi_OfficialRating it)) (au_Ceiling a)"
proof -
  let ?n = "Normalize (pi_OfficialRating it)"
  from assms(1) have "?n \<noteq> ''''" "Admits a ?n \<noteq> (False, ''over_ceiling'')"
    by (simp_all add: refuses_pick_def Let_def split: if_splits)
  moreover from this have "Mapped ?n" using Normalize_result by blast
  ultimately show ?thesis using Admits_mapped assms(2) by blast
qed

text \<open>
  C32. Under a child-safety request every pick the approver is offered, owned or to be acquired, has a
  known rating at or below the safety ceiling, whatever the model proposed; and refusing moves picks
  to the refused list without losing or inventing one.
\<close>

theorem offered_picks_safe:
  assumes "intent_policy_ok ip" and "ip_safetyCeiling ip \<noteq> ''''"
    and "refuseUnairable (cp_Audience (groundPolicy lv raw lineup acquisitions ip holidays)) lineup acquisitions
           (ip_safetyCeiling ip \<noteq> '''') = (keptLineup, keptAcquisitions, refused)"
  shows "(\<forall>it\<in>set (keptLineup @ keptAcquisitions).
            AtOrBelow (Normalize (pi_OfficialRating it)) (ip_safetyCeiling ip)) \<and>
         mset (keptLineup @ keptAcquisitions @ map fst refused) = mset (lineup @ acquisitions)"
proof -
  let ?a = "cp_Audience (groundPolicy lv raw lineup acquisitions ip holidays)"
  have m: "Mapped (ip_safetyCeiling ip)" using assms(1,2) by (auto simp: intent_policy_ok_def)
  have le: "AtOrBelow (au_Ceiling ?a) (ip_safetyCeiling ip)"
    using ground_ceiling_requested [OF assms(1) m]
    by (simp add: groundPolicy_net [OF assms(1)] ground_unchecked_def Let_def)
  then have ne: "au_Ceiling ?a \<noteq> ''''" using AtOrBelow_Mapped [OF le] by auto
  have res: "keptLineup = filter (\<lambda>it. \<not> refuses_pick ?a True it) lineup"
      "keptAcquisitions = filter (\<lambda>it. \<not> refuses_pick ?a True it) acquisitions"
      "map fst refused = filter (refuses_pick ?a True) (lineup @ acquisitions)"
    using assms(2,3) ne by (auto simp: refuseUnairable_def comp_def)
  have split: "mset (filter (\<lambda>it. \<not> P it) xs) + mset (filter P xs) = mset xs" for P and xs :: "ProposalItem list"
    by (metis add.commute mset_filter multiset_partition)
  show ?thesis
  proof
    show "\<forall>it\<in>set (keptLineup @ keptAcquisitions). AtOrBelow (Normalize (pi_OfficialRating it)) (ip_safetyCeiling ip)"
    proof
      fix it assume "it \<in> set (keptLineup @ keptAcquisitions)"
      then have "\<not> refuses_pick ?a True it" by (auto simp: res)
      from AtOrBelow_trans [OF kept_pick [OF this ne] le]
      show "AtOrBelow (Normalize (pi_OfficialRating it)) (ip_safetyCeiling ip)" .
    qed
    have "keptLineup @ keptAcquisitions @ map fst refused =
        filter (\<lambda>it. \<not> refuses_pick ?a True it) (lineup @ acquisitions) @ filter (refuses_pick ?a True) (lineup @ acquisitions)"
      unfolding res by simp
    then show "mset (keptLineup @ keptAcquisitions @ map fst refused) = mset (lineup @ acquisitions)"
      by (simp only: mset_append [of "filter _ _" "filter _ _"] split)
  qed
qed

definition sample_pick :: "string \<Rightarrow> ProposalItem" where
  "sample_pick r = \<lparr>pi_MediaType = Movie, pi_TMDBID = 1, pi_TVDBID = 0, pi_Name = ''x'', pi_Year = 1990, pi_Seasons = [],
     pi_SeasonMin = 0, pi_SeasonMax = 0, pi_EpisodeSelection = \<lparr>es_Mode = EpisodeComplete, es_Holidays = []\<rparr>,
     pi_InLibrary = True, pi_OfficialRating = r\<rparr>"

lemma offered_picks_safe_witness:
  "refuseUnairable (cp_Audience (groundPolicy (\<lambda>_. True) None [sample_pick ''TV-Y'', sample_pick ''R''] [sample_pick '''']
      sample_intent_policy [])) [sample_pick ''TV-Y'', sample_pick ''R''] [sample_pick ''''] True =
     ([sample_pick ''TV-Y''], [], [(sample_pick ''R'', ''over_ceiling''), (sample_pick '''', ''over_ceiling'')]) \<and>
   AtOrBelow (Normalize (pi_OfficialRating (sample_pick ''TV-Y''))) ''TV-Y7''"
proof -
  let ?l = "[sample_pick ''TV-Y'', sample_pick ''R'']" and ?a = "[sample_pick '''']"
  have safety: "ip_safetyCeiling sample_intent_policy = ''TV-Y7''" by (simp add: sample_intent_policy_def)
  have run: "refuseUnairable (cp_Audience (ground_unchecked None ?l ?a sample_intent_policy [])) ?l ?a True =
     ([sample_pick ''TV-Y''], [], [(sample_pick ''R'', ''over_ceiling''), (sample_pick '''', ''over_ceiling'')])"
    by code_simp
  have true: "(''TV-Y7'' \<noteq> '''') = True" by simp
  have "\<forall>it\<in>set ([sample_pick ''TV-Y''] @ []). AtOrBelow (Normalize (pi_OfficialRating it)) ''TV-Y7''"
    by (rule offered_picks_safe [OF sample_intent_policy_ok, unfolded safety true, THEN conjunct1,
          of "\<lambda>_. True" None ?l ?a "[]"])
      (simp_all only: groundPolicy_net [OF sample_intent_policy_ok] run list.distinct simp_thms)
  then show ?thesis
    using run by (simp only: groundPolicy_net [OF sample_intent_policy_ok]) simp
qed

subsection \<open>The rules a proposal can carry\<close>

text \<open>
  C36. Every rule the model can get through is marked as the model's, carries dates the policy accepts,
  a window that is inherited, unbounded or between an hour and a week, and a scope that narrows
  something and names no series outside the grounded lineup; and there are never more rules than
  were proposed.
\<close>

theorem groundRules_sound:
  "list_all (\<lambda>rule. isLLM (sr_Source rule) \<and> rule_dates_error rule = None \<and> rule_window_ok (sr_Window rule) \<and>
       (case sr_What rule of None \<Rightarrow> True
        | Some s \<Rightarrow> scopeNarrows (Some s) \<and> set (sc_Series s) \<subseteq> set (grounded_keys lineup)))
     (groundRules raw lineup holidays) \<and>
   length (groundRules raw lineup holidays) \<le> length raw"
proof
  have "length (List.map_filter f xs) \<le> length xs" for f :: "nat \<times> PickRule \<Rightarrow> SchedulingRule option" and xs
    by (induction xs) (auto simp: map_filter_simps split: option.splits)
  from this [of _ "List.enumerate 0 raw"] show "length (groundRules raw lineup holidays) \<le> length raw"
    by (simp add: groundRules_def)
  show "list_all (\<lambda>rule. isLLM (sr_Source rule) \<and> rule_dates_error rule = None \<and> rule_window_ok (sr_Window rule) \<and>
       (case sr_What rule of None \<Rightarrow> True
        | Some s \<Rightarrow> scopeNarrows (Some s) \<and> set (sc_Series s) \<subseteq> set (grounded_keys lineup)))
     (groundRules raw lineup holidays)"
    unfolding list_all_iff
  proof
    fix rule assume "rule \<in> set (groundRules raw lineup holidays)"
    then obtain i r where "groundRule (grounded_keys lineup) holidays i r = Some rule"
      using groundRules_member by blast
    note g = groundRule_sound [OF this]
    show "isLLM (sr_Source rule) \<and> rule_dates_error rule = None \<and> rule_window_ok (sr_Window rule) \<and>
       (case sr_What rule of None \<Rightarrow> True
        | Some s \<Rightarrow> scopeNarrows (Some s) \<and> set (sc_Series s) \<subseteq> set (grounded_keys lineup))"
      using g by (cases "sr_What rule") auto
  qed
qed

text \<open>
  The prefix is cut from the token as written, so a token with a leading space names another key: the
  scope it lowers to holds no real title, and grounding drops it.
\<close>

lemma LowerWhat_leading_space:
  "LowerWhat ''series:movie:tmdb:1'' = Some (Some (empty_scope\<lparr>sc_Series := [''movie:tmdb:1'']\<rparr>), '''')"
  "LowerWhat '' series:movie:tmdb:1'' = Some (Some (empty_scope\<lparr>sc_Series := ['':movie:tmdb:1'']\<rparr>), '''')"
  by code_simp+

end
