(* ===== verification/Timeline.thy ===== *)
theory Timeline
  imports Windows Breaks Desired
begin

text \<open>
  The channel's clock (\<^verbatim>\<open>internal/playout/timeline.go\<close>): a computed lineup walked against the wall
  clock. \<open>AiringAt\<close> is the encoder's question, what is on at an instant; \<open>BroadcastsBetween\<close> is the
  guide's, what is on over a span; \<open>WindowTurn\<close> hands a rolling window over to the next;
  \<open>KeepAcceptedBreaks\<close>, \<open>CommittedSplits\<close> and \<open>OnAirChanged\<close> are what a re-schedule must not move.

  The lemmas give both walks one description, a cycle position (a pass, a slot and how far into it),
  and read from it that the guide and the encoder agree, that the guide has no gaps, that a hand-over
  cuts nothing and that the stop rule of a stream is exact.
\<close>

subsection \<open>How long a slot occupies the timeline\<close>

definition fillerSlotDuration :: duration where "fillerSlotDuration = 30 * second"

definition slotDuration :: "Slot \<Rightarrow> duration" where
  "slotDuration s =
     (if s_DurationMs s > 0 then s_DurationMs s * millisecond
      else if s_Kind s = SlotFiller \<or> s_Kind s = SlotFlex then fillerSlotDuration
      else 0)"

definition cycleDuration :: "Slot list \<Rightarrow> duration" where
  "cycleDuration slots = foldl (\<lambda>acc s. acc + slotDuration s) 0 slots"

definition kind_string :: "SlotKind \<Rightarrow> string" where
  "kind_string k =
     (case k of SlotProgram \<Rightarrow> ''program'' | SlotPending \<Rightarrow> ''pending'' | SlotFiller \<Rightarrow> ''filler'' | SlotFlex \<Rightarrow> ''flex'')"

text \<open>A later part of the split programme before it, or the break inside it.\<close>

definition continuesProgramme :: "Slot \<Rightarrow> bool" where
  "continuesProgramme s \<longleftrightarrow> s_MidRoll s \<or> s_Segment s > 1"

subsection \<open>What is airing\<close>

record Airing =
  a_StartedAt :: gotime
  a_Identity :: string
  a_ScheduleBlockID :: string
  a_Kind :: SlotKind
  a_LibraryItemID :: string
  a_Key :: Key
  a_Source :: string
  a_MeasuredLUFS :: "rat option"
  a_MeasuredTruePeak :: "rat option"
  a_RecentRepeat :: bool
  a_RotationPinned :: bool
  a_Title :: string
  a_Offset :: duration
  a_Remaining :: duration

definition nothing_airs :: Airing where
  "nothing_airs = \<lparr>a_StartedAt = 0, a_Identity = '''', a_ScheduleBlockID = '''', a_Kind = SlotFlex, a_LibraryItemID = '''',
     a_Key = '''', a_Source = '''', a_MeasuredLUFS = None, a_MeasuredTruePeak = None, a_RecentRepeat = False,
     a_RotationPinned = False, a_Title = '''', a_Offset = 0, a_Remaining = 0\<rparr>"

definition Playable :: "Airing \<Rightarrow> bool" where
  "Playable a =
     (if a_Kind a = SlotFiller then a_Source a \<noteq> ''''
      else a_Kind a = SlotProgram \<and> a_LibraryItemID a \<noteq> '''')"

definition slot_identity :: "Slot \<Rightarrow> string" where
  "slot_identity s =
     (let identity = s_Key s;
          identity = if identity = '''' then s_LibraryItemID s else identity
      in if identity = '''' then kind_string (s_Kind s) else identity)"

text \<open>The airing of a slot that \<open>now\<close> is \<open>into\<close> far into.\<close>

definition slot_airing :: "gotime \<Rightarrow> Slot \<Rightarrow> duration \<Rightarrow> Airing" where
  "slot_airing now s into = nothing_airs
     \<lparr>a_StartedAt := now - into, a_Identity := slot_identity s, a_Kind := s_Kind s,
      a_LibraryItemID := s_LibraryItemID s, a_Key := s_Key s, a_Title := s_Title s,
      a_Offset := s_SourceOffsetMs s * millisecond + into, a_Remaining := slotDuration s - into\<rparr>"

fun airing_walk :: "gotime \<Rightarrow> Slot list \<Rightarrow> duration \<Rightarrow> Airing" where
  "airing_walk now [] into = nothing_airs"
| "airing_walk now (s # ss) into =
     (let d = slotDuration s
      in if d \<le> 0 then airing_walk now ss into
         else if into < d then slot_airing now s into
         else airing_walk now ss (into - d))"

text \<open>How far into the cycle an instant is. A clock before the epoch reads as the epoch.\<close>

definition cycle_into :: "Slot list \<Rightarrow> gotime \<Rightarrow> gotime \<Rightarrow> duration" where
  "cycle_into slots epoch now =
     (let elapsed = now - epoch; elapsed = if elapsed < 0 then 0 else elapsed
      in elapsed smod cycleDuration slots)"

definition AiringAt :: "Slot list \<Rightarrow> gotime \<Rightarrow> gotime \<Rightarrow> Airing" where
  "AiringAt slots epoch now =
     (if cycleDuration slots \<le> 0 then nothing_airs
      else airing_walk now slots (cycle_into slots epoch now))"

definition airing_BreakLength :: "Airing \<Rightarrow> duration" where
  "airing_BreakLength a =
     (if a_Kind a \<noteq> SlotFiller \<or> a_Key a \<noteq> '''' then 0 else a_Offset a + a_Remaining a)"

subsection \<open>The guide's programmes\<close>

text \<open>Description, genres, year, rating and provenance are filled in later by the caller and are left out.\<close>

record Broadcast =
  b_Kind :: SlotKind
  b_Title :: string
  b_SeriesTitle :: string
  b_LibraryItemID :: string
  b_Key :: Key
  b_Season :: int
  b_Episode :: int
  b_Nominal :: bool
  b_Start :: gotime
  b_Stop :: gotime
  b_identityStart :: gotime

definition broadcastIdentity :: "Broadcast \<Rightarrow> string" where
  "broadcastIdentity b =
     (if b_Key b \<noteq> '''' then b_Key b
      else if b_LibraryItemID b \<noteq> '''' then b_LibraryItemID b
      else kind_string (b_Kind b))"

definition ContentIdentity :: "Broadcast \<Rightarrow> string" where
  "ContentIdentity b = broadcastIdentity b"

definition broadcast_Duration :: "Broadcast \<Rightarrow> duration" where
  "broadcast_Duration b = b_Stop b - b_Start b"

definition broadcast_BreakLength :: "Broadcast \<Rightarrow> duration" where
  "broadcast_BreakLength b =
     (if b_Kind b \<noteq> SlotFiller \<or> b_Key b \<noteq> '''' then 0 else broadcast_Duration b)"

definition ClipTo :: "Broadcast \<Rightarrow> gotime \<Rightarrow> gotime \<Rightarrow> Broadcast \<times> bool" where
  "ClipTo b from until =
     (let b = b\<lparr>b_identityStart := b_Start b\<rparr>;
          b = if \<not> is_zero_time from \<and> b_Start b < from then b\<lparr>b_Start := from\<rparr> else b;
          b = if \<not> is_zero_time until \<and> b_Stop b > until then b\<lparr>b_Stop := until\<rparr> else b
      in (b, b_Stop b > b_Start b))"

text \<open>
  The identity of a scheduled block. \<open>format_time\<close> is \<^verbatim>\<open>t.UTC().Format(time.RFC3339Nano)\<close> and \<open>digest\<close> the
  hexadecimal digits of the first twelve bytes of \<^verbatim>\<open>sha256.Sum256\<close>.
\<close>

definition ScheduledBlockID ::
  "(gotime \<Rightarrow> string) \<Rightarrow> (string \<Rightarrow> string) \<Rightarrow> string \<Rightarrow> gotime \<Rightarrow> SlotKind \<Rightarrow> string \<Rightarrow> string" where
  "ScheduledBlockID format_time digest channelID startedAt kind contentIdentity =
     ''block_'' @ digest (trim_space channelID @ CHR 0x00 # format_time startedAt @ CHR 0x00 #
       kind_string kind @ CHR 0x00 # trim_space contentIdentity)"

definition ScheduleBlockID :: "(gotime \<Rightarrow> string) \<Rightarrow> (string \<Rightarrow> string) \<Rightarrow> Broadcast \<Rightarrow> string \<Rightarrow> string" where
  "ScheduleBlockID format_time digest b channelID =
     (let startedAt = if is_zero_time (b_identityStart b) then b_Start b else b_identityStart b
      in ScheduledBlockID format_time digest channelID startedAt (b_Kind b) (broadcastIdentity b))"

definition slot_broadcast :: "Slot \<Rightarrow> gotime \<Rightarrow> gotime \<Rightarrow> Broadcast" where
  "slot_broadcast s start stop =
     \<lparr>b_Kind = s_Kind s, b_Title = s_Title s, b_SeriesTitle = s_SeriesTitle s, b_LibraryItemID = s_LibraryItemID s,
      b_Key = s_Key s, b_Season = s_Season s, b_Episode = s_Episode s, b_Nominal = False,
      b_Start = start, b_Stop = stop, b_identityStart = 0\<rparr>"

text \<open>To the slot that holds the instant: its index, and the clock at which it starts.\<close>

fun seek :: "Slot list \<Rightarrow> nat \<Rightarrow> duration \<Rightarrow> gotime \<Rightarrow> nat \<times> gotime" where
  "seek [] idx into cursor = (idx, cursor)"
| "seek (s # ss) idx into cursor =
     (let d = slotDuration s
      in if d \<le> 0 then seek ss (idx + 1) into cursor
         else if into < d then (idx, cursor)
         else seek ss (idx + 1) (into - d) (cursor + d))"

fun rewindToProgrammeStart :: "Slot list \<Rightarrow> nat \<Rightarrow> gotime \<Rightarrow> nat \<times> gotime" where
  "rewindToProgrammeStart slots 0 cursor = (0, cursor)"
| "rewindToProgrammeStart slots (Suc idx) cursor =
     (if Suc idx < length slots \<and> continuesProgramme (slots ! Suc idx)
      then rewindToProgrammeStart slots idx (cursor - slotDuration (slots ! idx))
      else (Suc idx, cursor))"

text \<open>A split programme is one entry: its breaks and later parts are absorbed.\<close>

function absorb :: "Slot list \<Rightarrow> nat \<Rightarrow> gotime \<Rightarrow> nat \<times> gotime" where
  "absorb slots idx stop =
     (if idx + 1 < length slots \<and> continuesProgramme (slots ! (idx + 1))
      then absorb slots (idx + 1) (stop + slotDuration (slots ! (idx + 1)))
      else (idx, stop))"
  by auto
termination by (relation "measure (\<lambda>(slots, idx, _). length slots - idx)") auto

declare absorb.simps [simp del]

fun broadcast_loop :: "nat \<Rightarrow> Slot list \<Rightarrow> gotime \<Rightarrow> gotime \<Rightarrow> nat \<Rightarrow> gotime \<Rightarrow> Broadcast list" where
  "broadcast_loop 0 slots from until idx cursor = []"
| "broadcast_loop (Suc n) slots from until idx cursor =
     (if \<not> cursor < until then []
      else let idx = (if idx \<ge> length slots then 0 else idx);
               s = slots ! idx;
               d = slotDuration s
           in if d \<le> 0 then broadcast_loop n slots from until (idx + 1) cursor
              else let (last_part, stop) = absorb slots idx (cursor + d);
                       out = broadcast_loop n slots from until (last_part + 1) stop
                   in if stop > from then slot_broadcast s cursor stop # out else out)"

definition maxIterations :: nat where "maxIterations = 10000"

definition walkBroadcasts :: "Slot list \<Rightarrow> gotime \<Rightarrow> gotime \<Rightarrow> gotime \<Rightarrow> Broadcast list" where
  "walkBroadcasts slots epoch from until =
     (if cycleDuration slots \<le> 0 \<or> \<not> until > from then []
      else let into = cycle_into slots epoch from;
               (idx, cursor) = seek slots 0 into (from - into);
               (idx, cursor) = rewindToProgrammeStart slots idx cursor
           in broadcast_loop maxIterations slots from until idx cursor)"

definition BroadcastsBetween :: "Slot list \<Rightarrow> gotime \<Rightarrow> gotime \<Rightarrow> gotime \<Rightarrow> Broadcast list" where
  "BroadcastsBetween slots epoch from until = walkBroadcasts slots epoch from until"

subsection \<open>Handing a rolling window over\<close>

definition CarryOverEnd :: "Slot list \<Rightarrow> gotime \<Rightarrow> gotime \<Rightarrow> gotime" where
  "CarryOverEnd slots epoch boundary =
     (case BroadcastsBetween slots epoch boundary (boundary + 1) of
        [] \<Rightarrow> boundary
      | b # _ \<Rightarrow> if \<not> b_Start b < boundary \<or> \<not> b_Stop b > boundary then boundary else b_Stop b)"

definition WindowTurn ::
  "Slot list \<Rightarrow> gotime \<Rightarrow> duration \<Rightarrow> zone option \<Rightarrow> gotime \<Rightarrow> gotime \<times> gotime \<times> bool" where
  "WindowTurn accepted anchor window zone clock =
     (if window \<le> 0 \<or> is_zero_time anchor \<or> accepted = [] then (0, anchor, False)
      else let end_at = CarryOverEnd accepted anchor (NextWindowStart anchor window zone)
           in if clock < end_at then (WindowStart anchor window zone, anchor, False)
              else let current = WindowStart clock window zone
                   in if WindowStart end_at window zone = current then (current, end_at, True)
                      else (current, current, True))"

subsection \<open>What a re-schedule must not change\<close>

text \<open>The cuts of an item's first run of parts in the cycle.\<close>

definition run_cuts :: "Slot list \<Rightarrow> int list" where
  "run_cuts later = map s_SourceOffsetMs (filter (\<lambda>s. s_Segment s > 1) (takeWhile continuesProgramme later))"

fun item_cuts :: "string \<Rightarrow> Slot list \<Rightarrow> int list" where
  "item_cuts item [] = []"
| "item_cuts item (s # ss) =
     (if s_LibraryItemID s \<noteq> item \<or> s_Kind s \<noteq> SlotProgram \<or> s_Segment s > 1 then item_cuts item ss
      else run_cuts ss)"

definition pin_step :: "Slot list \<Rightarrow> (string \<rightharpoonup> int list) \<Rightarrow> Broadcast \<Rightarrow> (string \<rightharpoonup> int list)" where
  "pin_step slots pins b =
     (if b_Kind b \<noteq> SlotProgram \<or> b_LibraryItemID b = '''' then pins
      else if pins (b_LibraryItemID b) \<noteq> None then pins
      else pins(b_LibraryItemID b \<mapsto> item_cuts (b_LibraryItemID b) slots))"

definition CommittedSplits :: "Slot list \<Rightarrow> gotime \<Rightarrow> gotime \<Rightarrow> gotime \<Rightarrow> (string \<rightharpoonup> int list)" where
  "CommittedSplits slots epoch from until =
     foldl (pin_step slots) Map.empty (BroadcastsBetween slots epoch from until)"

definition sameTiming :: "Slot \<Rightarrow> Slot \<Rightarrow> bool" where
  "sameTiming a b =
     (if is_break a \<or> is_break b then is_break a \<and> is_break b
      else s_Kind a = s_Kind b \<and> slotDuration a = slotDuration b)"

text \<open>How many slots have started when the cycle has run for \<open>elapsed\<close>.\<close>

fun aired_slots :: "Slot list \<Rightarrow> duration \<Rightarrow> nat" where
  "aired_slots [] elapsed = 0"
| "aired_slots (s # ss) elapsed = (if elapsed \<le> 0 then 0 else Suc (aired_slots ss (elapsed - slotDuration s)))"

fun held_slots :: "nat \<Rightarrow> Slot list \<Rightarrow> Slot list \<Rightarrow> nat" where
  "held_slots (Suc n) (a # as) (b # bs) = (if \<not> sameTiming a b then 0 else Suc (held_slots n as bs))"
| "held_slots n as bs = 0"

definition keep_length :: "Slot \<Rightarrow> Slot \<Rightarrow> Slot" where
  "keep_length a b = (if is_break b then b\<lparr>s_DurationMs := s_DurationMs a\<rparr> else b)"

definition KeepAcceptedBreaks :: "Slot list \<Rightarrow> Slot list \<Rightarrow> gotime \<Rightarrow> gotime \<Rightarrow> Slot list" where
  "KeepAcceptedBreaks accepted next epoch until =
     (if cycleDuration accepted \<le> 0 \<or> \<not> until > epoch then next
      else let elapsed = until - epoch;
               aired = if elapsed < cycleDuration accepted then aired_slots accepted elapsed else length accepted;
               hold = held_slots (min aired (length next)) accepted next
           in map2 keep_length (take hold accepted) (take hold next) @ drop hold next)"

text \<open>
  The pending acquisitions, each before the airable slot that follows it; twice around, so that the ones at
  the end precede the next pass. A pair is the index of that slot and a pending slot.
\<close>

definition NominalPendingDuration :: duration where "NominalPendingDuration = 30 * minute"

fun pending_before :: "Slot list \<Rightarrow> nat list \<Rightarrow> Slot list \<Rightarrow> (nat \<times> Slot) list" where
  "pending_before slots [] pending = []"
| "pending_before slots (i # is) pending =
     (let s = slots ! (i mod length slots)
      in if s_Kind s = SlotPending
         then pending_before slots is (if i < length slots then pending @ [s] else pending)
         else if slotDuration s \<le> 0 then pending_before slots is pending
         else map (Pair (i mod length slots)) pending @
              (if i \<ge> length slots then [] else pending_before slots is []))"

definition startIndex :: "Slot list \<Rightarrow> gotime \<Rightarrow> gotime \<Rightarrow> nat" where
  "startIndex slots epoch from =
     (if cycleDuration slots \<le> 0 then 0
      else let (idx, _) = seek slots 0 (cycle_into slots epoch from) 0
           in if idx < length slots then fst (rewindToProgrammeStart slots idx 0) else 0)"

definition nextAirable :: "Slot list \<Rightarrow> nat \<Rightarrow> nat" where
  "nextAirable slots idx =
     (case find (\<lambda>i. let n = (idx + i) mod length slots in slotDuration (slots ! n) > 0 \<and> \<not> continuesProgramme (slots ! n))
             [1..<length slots + 1] of
        None \<Rightarrow> idx
      | Some i \<Rightarrow> (idx + i) mod length slots)"

definition pending_broadcast :: "gotime \<Rightarrow> Slot \<Rightarrow> Broadcast" where
  "pending_broadcast start p =
     \<lparr>b_Kind = SlotPending, b_Title = s_Title p, b_SeriesTitle = s_SeriesTitle p, b_LibraryItemID = '''', b_Key = s_Key p,
      b_Season = s_Season p, b_Episode = s_Episode p, b_Nominal = True,
      b_Start = start - NominalPendingDuration, b_Stop = start, b_identityStart = 0\<rparr>"

fun emit_pending :: "Slot list \<Rightarrow> (nat \<times> Slot) list \<Rightarrow> nat \<Rightarrow> Broadcast list \<Rightarrow> Broadcast list" where
  "emit_pending slots pending idx [] = []"
| "emit_pending slots pending idx (b # bs) =
     map (\<lambda>q. pending_broadcast (b_Start b) (snd q)) (filter (\<lambda>q. fst q = idx) pending) @
     b # emit_pending slots pending (nextAirable slots idx) bs"

definition BroadcastsWithPending :: "Slot list \<Rightarrow> gotime \<Rightarrow> gotime \<Rightarrow> gotime \<Rightarrow> Broadcast list" where
  "BroadcastsWithPending slots epoch from until =
     (let airable = BroadcastsBetween slots epoch from until
      in if airable = [] then airable
         else let pending = pending_before slots [0..<2 * length slots] []
              in if pending = [] then airable
                 else emit_pending slots pending (startIndex slots epoch from) airable)"

lemma airing_walk_remaining: "airing_walk now slots into \<noteq> nothing_airs \<Longrightarrow> 0 < a_Remaining (airing_walk now slots into)"
  by (induction now slots into rule: airing_walk.induct) (auto simp: Let_def slot_airing_def)

lemma AiringAt_remaining: "0 \<le> a_Remaining (AiringAt slots epoch now)"
  using airing_walk_remaining [of now slots "cycle_into slots epoch now"]
  by (cases "airing_walk now slots (cycle_into slots epoch now) = nothing_airs") (auto simp: AiringAt_def nothing_airs_def)

text \<open>The stop rule of a live stream: step from airing to airing until the two cycles differ.\<close>

function OnAirChanged :: "Slot list \<Rightarrow> gotime \<Rightarrow> Slot list \<Rightarrow> gotime \<Rightarrow> gotime \<Rightarrow> gotime \<Rightarrow> bool" where
  "OnAirChanged accepted epoch next nextEpoch clock until =
     (if \<not> clock < until then False
      else let a = AiringAt accepted epoch clock; b = AiringAt next nextEpoch clock
           in if a \<noteq> b then True
              else if a_Remaining a \<le> 0 then False
              else OnAirChanged accepted epoch next nextEpoch (clock + a_Remaining a) until)"
  by auto
termination by (relation "measure (\<lambda>(_, _, _, _, clock, until). nat (until - clock))") auto

declare OnAirChanged.simps [simp del]

subsection \<open>Positions of the cycle\<close>

lemma slotDuration_nonneg [simp]: "0 \<le> slotDuration s"
  by (simp add: slotDuration_def fillerSlotDuration_def)

lemma slotDuration_le_0 [simp]: "slotDuration s \<le> 0 \<longleftrightarrow> slotDuration s = 0"
  using slotDuration_nonneg [of s] by linarith

lemma cycleDuration_sum: "cycleDuration slots = sum_list (map slotDuration slots)"
  by (induction slots rule: rev_induct) (simp_all add: cycleDuration_def)

lemma cycleDuration_simps [simp]:
  "cycleDuration [] = 0" "cycleDuration (s # ss) = slotDuration s + cycleDuration ss"
  "cycleDuration (xs @ ys) = cycleDuration xs + cycleDuration ys"
  by (simp_all add: cycleDuration_sum)

lemma cycleDuration_nonneg [simp]: "0 \<le> cycleDuration slots"
  by (induction slots) auto

text \<open>Where in a pass of the cycle a slot begins.\<close>

abbreviation offset_of :: "Slot list \<Rightarrow> nat \<Rightarrow> duration" where
  "offset_of slots k \<equiv> cycleDuration (take k slots)"

lemma offset_Suc: "k < length slots \<Longrightarrow> offset_of slots (Suc k) = offset_of slots k + slotDuration (slots ! k)"
  by (simp add: take_Suc_conv_app_nth)

lemma offset_mono: "j \<le> k \<Longrightarrow> offset_of slots j \<le> offset_of slots k"
  using cycleDuration_nonneg [of "take (k - j) (drop j slots)"] take_add [of j "k - j" slots] by simp

lemma offset_le: "offset_of slots k \<le> cycleDuration slots"
  by (metis append_take_drop_id cycleDuration_nonneg cycleDuration_simps(3) le_add_same_cancel1)

lemma offset_all: "length slots \<le> k \<Longrightarrow> offset_of slots k = cycleDuration slots"
  by simp

text \<open>An instant of the timeline: a pass of the cycle, a slot of it with a duration, and how far into that.\<close>

definition on_slot :: "Slot list \<Rightarrow> gotime \<Rightarrow> gotime \<Rightarrow> int \<Rightarrow> nat \<Rightarrow> duration \<Rightarrow> bool" where
  "on_slot slots epoch t p k x \<longleftrightarrow>
     0 \<le> p \<and> k < length slots \<and> 0 \<le> x \<and> x < slotDuration (slots ! k) \<and>
     t = epoch + p * cycleDuration slots + offset_of slots k + x"

lemma walk_on_slot:
  "k < length slots \<Longrightarrow> 0 \<le> x \<Longrightarrow> x < slotDuration (slots ! k) \<Longrightarrow>
   airing_walk now slots (offset_of slots k + x) = slot_airing now (slots ! k) x"
proof (induction slots arbitrary: k)
  case (Cons s ss)
  show ?case
  proof (cases k)
    case (Suc j)
    have "\<not> offset_of ss j + x < 0" using Cons.prems by (simp add: not_less)
    then show ?thesis using Suc Cons.prems Cons.IH [of j] by (simp add: Let_def add.assoc)
  qed (use Cons.prems in \<open>simp add: Let_def\<close>)
qed simp

lemma seek_on_slot:
  "k < length slots \<Longrightarrow> 0 \<le> x \<Longrightarrow> x < slotDuration (slots ! k) \<Longrightarrow>
   seek slots idx (offset_of slots k + x) cursor = (idx + k, cursor + offset_of slots k)"
proof (induction slots arbitrary: k idx cursor)
  case (Cons s ss)
  show ?case
  proof (cases k)
    case (Suc j)
    have "\<not> offset_of ss j + x < 0" using Cons.prems by (simp add: not_less)
    then show ?thesis using Suc Cons.prems Cons.IH [of j] by (simp add: Let_def add.assoc)
  qed (use Cons.prems in \<open>simp add: Let_def\<close>)
qed simp

lemma slot_of_offset:
  "0 \<le> into \<Longrightarrow> into < cycleDuration slots \<Longrightarrow>
   \<exists>k x. k < length slots \<and> 0 \<le> x \<and> x < slotDuration (slots ! k) \<and> into = offset_of slots k + x"
proof (induction slots arbitrary: into)
  case (Cons s ss)
  show ?case
  proof (cases "into < slotDuration s")
    case True
    then show ?thesis using Cons.prems by (intro exI [of _ 0] exI [of _ into]) simp
  next
    case False
    then obtain k x where "k < length ss" "0 \<le> x" "x < slotDuration (ss ! k)" "into - slotDuration s = offset_of ss k + x"
      using Cons.prems Cons.IH [of "into - slotDuration s"] by auto
    then show ?thesis by (intro exI [of _ "Suc k"] exI [of _ x]) simp
  qed
qed simp

lemma offset_between:
  assumes "k < length slots" and "0 \<le> x" "x < slotDuration (slots ! k)"
  shows "offset_of slots j \<le> offset_of slots k + x \<longleftrightarrow> j \<le> k"
proof
  assume le: "offset_of slots j \<le> offset_of slots k + x"
  show "j \<le> k"
  proof (rule ccontr)
    assume "\<not> j \<le> k"
    then have "offset_of slots (Suc k) \<le> offset_of slots j" by (intro offset_mono) simp
    then show False using le assms by (simp only: offset_Suc)
  qed
next
  assume "j \<le> k"
  then show "offset_of slots j \<le> offset_of slots k + x" using offset_mono [of j k slots] assms(2) by linarith
qed

lemma on_slot_into:
  assumes "on_slot slots epoch t p k x"
  shows "cycle_into slots epoch t = offset_of slots k + x" and "0 < cycleDuration slots" and "epoch \<le> t"
proof -
  have k: "k < length slots" "0 \<le> x" "x < slotDuration (slots ! k)" "0 \<le> p"
    and t: "t = epoch + p * cycleDuration slots + offset_of slots k + x"
    using assms by (simp_all add: on_slot_def)
  have "offset_of slots k + x < offset_of slots (Suc k)" using k by (simp add: offset_Suc)
  also have "\<dots> \<le> cycleDuration slots" by (rule offset_le)
  finally have lt: "offset_of slots k + x < cycleDuration slots" .
  have ge: "0 \<le> offset_of slots k + x" using k(2) by simp
  show pos: "0 < cycleDuration slots" using lt ge by linarith
  have "0 \<le> p * cycleDuration slots" using k(4) pos by simp
  then show "epoch \<le> t" using t ge by linarith
  then have "cycle_into slots epoch t = (offset_of slots k + x + p * cycleDuration slots) mod cycleDuration slots"
    using t pos by (simp add: cycle_into_def Let_def algebra_simps)
  also have "\<dots> = offset_of slots k + x" using lt ge by simp
  finally show "cycle_into slots epoch t = offset_of slots k + x" .
qed

lemma on_slot_AiringAt:
  assumes "on_slot slots epoch t p k x"
  shows "AiringAt slots epoch t = slot_airing t (slots ! k) x"
  using assms on_slot_into [OF assms] by (simp add: AiringAt_def walk_on_slot on_slot_def)

lemma on_slot_exists:
  assumes "0 < cycleDuration slots" and "epoch \<le> t"
  obtains p k x where "on_slot slots epoch t p k x"
proof -
  let ?T = "cycleDuration slots"
  obtain k x where k: "k < length slots" "0 \<le> x" "x < slotDuration (slots ! k)" "(t - epoch) mod ?T = offset_of slots k + x"
    using slot_of_offset [of "(t - epoch) mod ?T" slots] assms by auto
  have "t = epoch + (t - epoch) div ?T * ?T + (t - epoch) mod ?T" by (simp add: div_mult_mod_eq)
  then have "on_slot slots epoch t ((t - epoch) div ?T) k x"
    using k assms by (simp add: on_slot_def pos_imp_zdiv_nonneg_iff)
  then show ?thesis by (rule that)
qed

lemma on_slot_shift:
  assumes "on_slot slots epoch t p k x" and "0 \<le> y" "y < slotDuration (slots ! k)"
  shows "on_slot slots epoch (t - x + y) p k y"
  using assms by (simp add: on_slot_def)

lemma on_slot_pass:
  assumes "0 \<le> p" and "epoch + p * cycleDuration slots \<le> t" and "t < epoch + p * cycleDuration slots + cycleDuration slots"
  obtains k x where "on_slot slots epoch t p k x"
proof -
  obtain k x where "k < length slots" "0 \<le> x" "x < slotDuration (slots ! k)"
      "t - (epoch + p * cycleDuration slots) = offset_of slots k + x"
    using slot_of_offset [of "t - (epoch + p * cycleDuration slots)" slots] assms by auto
  then have "on_slot slots epoch t p k x" using assms(1) unfolding on_slot_def by linarith
  then show ?thesis by (rule that)
qed

text \<open>The airing of a slot is one airing for as long as the slot lasts: only the clock in it moves.\<close>

lemma AiringAt_within:
  assumes "epoch \<le> t" and "t \<le> u" and "u < t + a_Remaining (AiringAt slots epoch t)"
  shows "AiringAt slots epoch u = (AiringAt slots epoch t)
    \<lparr>a_Offset := a_Offset (AiringAt slots epoch t) + (u - t), a_Remaining := a_Remaining (AiringAt slots epoch t) - (u - t)\<rparr>"
proof -
  have "cycleDuration slots > 0"
    using assms(2,3) by (rule_tac ccontr) (simp add: AiringAt_def nothing_airs_def)
  then obtain p k x where at: "on_slot slots epoch t p k x" using on_slot_exists assms(1) by blast
  note a = on_slot_AiringAt [OF at]
  have x: "0 \<le> x" using at by (simp add: on_slot_def)
  have "u - t + x < slotDuration (slots ! k)" using assms(3) by (simp add: a slot_airing_def)
  then have "on_slot slots epoch u p k (u - t + x)"
    using on_slot_shift [OF at, of "u - t + x"] assms(2) x by simp
  from on_slot_AiringAt [OF this] show ?thesis by (simp add: a slot_airing_def nothing_airs_def)
qed

lemma AiringAt_remaining_pos:
  assumes "0 < cycleDuration slots" and "epoch \<le> t"
  shows "0 < a_Remaining (AiringAt slots epoch t)"
proof -
  obtain p k x where "on_slot slots epoch t p k x" using on_slot_exists assms by blast
  from on_slot_AiringAt [OF this] this show ?thesis by (simp add: slot_airing_def on_slot_def)
qed

subsection \<open>The entries of the guide\<close>

text \<open>The slots of one guide entry: the first, and everything that continues it.\<close>

definition programme_run :: "Slot list \<Rightarrow> nat \<Rightarrow> nat \<Rightarrow> bool" where
  "programme_run slots k m \<longleftrightarrow>
     k \<le> m \<and> m < length slots \<and> (\<forall>i. k < i \<and> i \<le> m \<longrightarrow> continuesProgramme (slots ! i)) \<and>
     \<not> (m + 1 < length slots \<and> continuesProgramme (slots ! (m + 1)))"

lemma absorb_run:
  assumes "k < length slots"
  obtains m where "programme_run slots k m" and "absorb slots k (q + offset_of slots (Suc k)) = (m, q + offset_of slots (Suc m))"
proof -
  have "\<exists>m. programme_run slots k m \<and> absorb slots k (q + offset_of slots (Suc k)) = (m, q + offset_of slots (Suc m))"
    using assms
  proof (induction "length slots - k" arbitrary: k rule: less_induct)
    case less
    show ?case
    proof (cases "k + 1 < length slots \<and> continuesProgramme (slots ! (k + 1))")
      case True
      then obtain m where m: "programme_run slots (k + 1) m"
          "absorb slots (k + 1) (q + offset_of slots (Suc (k + 1))) = (m, q + offset_of slots (Suc m))"
        using less.hyps [of "k + 1"] True by fastforce
      have "programme_run slots k m"
        using m(1) True unfolding programme_run_def by (auto simp: Suc_le_eq nat_less_le)
      moreover have "absorb slots k (q + offset_of slots (Suc k)) = absorb slots (k + 1) (q + offset_of slots (Suc (k + 1)))"
        using True by (subst absorb.simps) (simp add: offset_Suc add.assoc)
      ultimately show ?thesis using m(2) by auto
    next
      case False
      then show ?thesis using less.prems
        by (intro exI [of _ k]) (auto simp: programme_run_def absorb.simps [of slots k])
    qed
  qed
  then show ?thesis using that by blast
qed

lemma rewind_run:
  assumes "k < length slots"
  obtains r where "r \<le> k" and "\<forall>i. r < i \<and> i \<le> k \<longrightarrow> continuesProgramme (slots ! i)"
    and "rewindToProgrammeStart slots k (q + offset_of slots k) = (r, q + offset_of slots r)"
proof -
  have "\<exists>r\<le>k. (\<forall>i. r < i \<and> i \<le> k \<longrightarrow> continuesProgramme (slots ! i)) \<and>
      rewindToProgrammeStart slots k (q + offset_of slots k) = (r, q + offset_of slots r)"
    using assms
  proof (induction k)
    case (Suc k)
    show ?case
    proof (cases "continuesProgramme (slots ! Suc k)")
      case True
      obtain r where r: "r \<le> k" "\<forall>i. r < i \<and> i \<le> k \<longrightarrow> continuesProgramme (slots ! i)"
          "rewindToProgrammeStart slots k (q + offset_of slots k) = (r, q + offset_of slots r)"
        using Suc by auto
      have "rewindToProgrammeStart slots (Suc k) (q + offset_of slots (Suc k)) = (r, q + offset_of slots r)"
        using True Suc.prems r(3) by (simp add: offset_Suc)
      then show ?thesis using True r(1,2) by (intro exI [of _ r]) (auto simp: le_Suc_eq)
    qed auto
  qed simp
  then show ?thesis using that by blast
qed

text \<open>A guide entry: a programme of some pass, from the start of its first slot to the end of its last.\<close>

definition guide_entry :: "Slot list \<Rightarrow> gotime \<Rightarrow> Broadcast \<Rightarrow> int \<Rightarrow> nat \<Rightarrow> nat \<Rightarrow> bool" where
  "guide_entry slots epoch b p k m \<longleftrightarrow>
     0 \<le> p \<and> programme_run slots k m \<and> 0 < slotDuration (slots ! k) \<and>
     b = slot_broadcast (slots ! k) (epoch + p * cycleDuration slots + offset_of slots k)
           (epoch + p * cycleDuration slots + offset_of slots (Suc m))"

text \<open>One step of the walk, from a boundary of the cycle.\<close>

lemma broadcast_step:
  assumes "cursor = epoch + p * cycleDuration slots + offset_of slots idx" and "0 \<le> p" and "slots \<noteq> []" and "cursor < until"
    and "idx \<le> length slots"
  obtains (skip) k p' where "broadcast_loop (Suc n) slots lo until idx cursor = broadcast_loop n slots lo until (Suc k) cursor"
      "k < length slots" "slotDuration (slots ! k) = 0" "0 \<le> p'" "cursor = epoch + p' * cycleDuration slots + offset_of slots (Suc k)"
      "if idx = length slots then k = 0 \<and> p' = p + 1 else k = idx \<and> p' = p"
  | (entry) k m p' b where "broadcast_loop (Suc n) slots lo until idx cursor =
        (if b_Stop b > lo then b # broadcast_loop n slots lo until (Suc m) (b_Stop b)
         else broadcast_loop n slots lo until (Suc m) (b_Stop b))"
      "guide_entry slots epoch b p' k m" "b_Start b = cursor" "if idx = length slots then k = 0 \<and> p' = p + 1 else k = idx \<and> p' = p"
proof -
  define k where "k = (if idx \<ge> length slots then 0 else idx)"
  define p' where "p' = (if idx = length slots then p + 1 else p)"
  have k: "k < length slots" and p': "0 \<le> p'" and same: "if idx = length slots then k = 0 \<and> p' = p + 1 else k = idx \<and> p' = p"
    and cursor: "cursor = epoch + p' * cycleDuration slots + offset_of slots k"
    using assms by (auto simp: k_def p'_def algebra_simps)
  show ?thesis
  proof (cases "slotDuration (slots ! k) = 0")
    case True
    have "broadcast_loop (Suc n) slots lo until idx cursor = broadcast_loop n slots lo until (Suc k) cursor"
      using assms(4) True by (simp add: k_def Let_def)
    then show ?thesis using skip k p' same cursor True by (simp add: offset_Suc)
  next
    case False
    let ?q = "epoch + p' * cycleDuration slots"
    obtain m where m: "programme_run slots k m"
        "absorb slots k (?q + offset_of slots (Suc k)) = (m, ?q + offset_of slots (Suc m))"
      using absorb_run [OF k] by blast
    let ?b = "slot_broadcast (slots ! k) cursor (?q + offset_of slots (Suc m))"
    have "guide_entry slots epoch ?b p' k m"
      using m(1) p' False cursor slotDuration_nonneg [of "slots ! k"] by (simp add: guide_entry_def order.strict_iff_order)
    moreover have "broadcast_loop (Suc n) slots lo until idx cursor =
        (if b_Stop ?b > lo then ?b # broadcast_loop n slots lo until (Suc m) (b_Stop ?b)
         else broadcast_loop n slots lo until (Suc m) (b_Stop ?b))"
      using assms(4) False m(2) k cursor
      by (simp add: slot_broadcast_def Let_def offset_Suc add.assoc flip: k_def)
    moreover have "b_Start ?b = cursor" by (simp add: slot_broadcast_def)
    ultimately show ?thesis using entry same by blast
  qed
qed

declare broadcast_loop.simps(2) [simp del]

lemma broadcast_loop_end [simp]: "\<not> cursor < until \<Longrightarrow> broadcast_loop n slots lo until idx cursor = []"
  by (cases n) (simp_all add: broadcast_loop.simps(2))

lemma guide_entry_bounds:
  assumes "guide_entry slots epoch b p k m"
  shows "b_Start b = epoch + p * cycleDuration slots + offset_of slots k"
    and "b_Stop b = epoch + p * cycleDuration slots + offset_of slots (Suc m)"
    and "0 \<le> p" and "k \<le> m" and "m < length slots" and "b_Start b < b_Stop b"
proof -
  show *: "b_Start b = epoch + p * cycleDuration slots + offset_of slots k"
    "b_Stop b = epoch + p * cycleDuration slots + offset_of slots (Suc m)"
    "0 \<le> p" "k \<le> m" "m < length slots"
    using assms by (auto simp: guide_entry_def slot_broadcast_def programme_run_def)
  have "offset_of slots (Suc k) = offset_of slots k + slotDuration (slots ! k)" "0 < slotDuration (slots ! k)"
    using assms *(4,5) by (simp_all add: offset_Suc guide_entry_def)
  then show "b_Start b < b_Stop b" using offset_mono [of "Suc k" "Suc m" slots] *(1,2,4) by linarith
qed

lemma broadcast_loop_entries:
  "cursor = epoch + p * cycleDuration slots + offset_of slots idx \<Longrightarrow> 0 \<le> p \<Longrightarrow> slots \<noteq> [] \<Longrightarrow> idx \<le> length slots \<Longrightarrow>
   b \<in> set (broadcast_loop n slots lo until idx cursor) \<Longrightarrow> \<exists>p k m. guide_entry slots epoch b p k m \<and> lo < b_Stop b"
proof (induction n arbitrary: p idx cursor)
  case (Suc n)
  show ?case
  proof (cases "cursor < until")
    case True
    from Suc.prems(1,2,3) True Suc.prems(4) show ?thesis
    proof (cases rule: broadcast_step [where n = n and lo = lo])
      case (skip k p')
      have "b \<in> set (broadcast_loop n slots lo until (Suc k) cursor)" using Suc.prems(5) skip(1) by simp
      then show ?thesis using Suc.IH [OF skip(5,4) Suc.prems(3)] skip(2) by simp
    next
      case (entry k m p' c)
      note bounds = guide_entry_bounds [OF entry(2)]
      from Suc.prems(5) have "b = c \<and> lo < b_Stop c \<or> b \<in> set (broadcast_loop n slots lo until (Suc m) (b_Stop c))"
        by (auto simp: entry(1) split: if_splits)
      then show ?thesis
        using Suc.IH [OF bounds(2,3) Suc.prems(3)] bounds(5) entry(2) by auto
    qed
  qed (use Suc.prems in simp)
qed simp

text \<open>Entries one after another, without a gap or an overlap.\<close>

fun abut :: "gotime \<Rightarrow> Broadcast list \<Rightarrow> bool" where
  "abut c [] = True"
| "abut c (b # bs) \<longleftrightarrow> b_Start b = c \<and> abut (b_Stop b) bs"

lemma broadcast_loop_abut:
  "cursor = epoch + p * cycleDuration slots + offset_of slots idx \<Longrightarrow> 0 \<le> p \<Longrightarrow> slots \<noteq> [] \<Longrightarrow> idx \<le> length slots \<Longrightarrow>
   lo \<le> cursor \<Longrightarrow> abut cursor (broadcast_loop n slots lo until idx cursor)"
proof (induction n arbitrary: p idx cursor)
  case (Suc n)
  show ?case
  proof (cases "cursor < until")
    case True
    from Suc.prems(1,2,3) True Suc.prems(4) show ?thesis
    proof (cases rule: broadcast_step [where n = n and lo = lo])
      case (skip k p')
      then show ?thesis using Suc.IH [OF skip(5,4) Suc.prems(3)] Suc.prems(5) by simp
    next
      case (entry k m p' c)
      note bounds = guide_entry_bounds [OF entry(2)]
      show ?thesis
        using Suc.IH [OF bounds(2,3) Suc.prems(3)] bounds(5,6) entry(1,3) Suc.prems(5) by simp
    qed
  qed simp
qed simp

lemma broadcast_loop_first:
  "cursor = epoch + p * cycleDuration slots + offset_of slots idx \<Longrightarrow> 0 \<le> p \<Longrightarrow> slots \<noteq> [] \<Longrightarrow> idx \<le> length slots \<Longrightarrow>
   cursor \<le> lo \<Longrightarrow> broadcast_loop n slots lo until idx cursor = b # bs \<Longrightarrow>
   b_Start b \<le> lo \<and> abut (b_Stop b) bs"
proof (induction n arbitrary: p idx cursor)
  case (Suc n)
  show ?case
  proof (cases "cursor < until")
    case True
    from Suc.prems(1,2,3) True Suc.prems(4) show ?thesis
    proof (cases rule: broadcast_step [where n = n and lo = lo])
      case (skip k p')
      then show ?thesis using Suc.IH [OF skip(5,4) Suc.prems(3) _ Suc.prems(5)] Suc.prems(6) by simp
    next
      case (entry k m p' c)
      note bounds = guide_entry_bounds [OF entry(2)]
      show ?thesis
      proof (cases "lo < b_Stop c")
        case True
        then show ?thesis
          using broadcast_loop_abut [OF bounds(2,3) Suc.prems(3)] bounds(5) entry(1,3) Suc.prems(5,6) by auto
      next
        case False
        then show ?thesis
          using Suc.IH [OF bounds(2,3) Suc.prems(3)] bounds(5) entry(1) Suc.prems(6) by simp
      qed
    qed
  qed (use Suc.prems in simp)
qed simp

text \<open>The cap on iterations is reached only after every pass that the span touches.\<close>

lemma broadcast_loop_covers:
  "cursor = epoch + p * cycleDuration slots + offset_of slots idx \<Longrightarrow> 0 \<le> p \<Longrightarrow> slots \<noteq> [] \<Longrightarrow> idx \<le> length slots \<Longrightarrow>
   cursor < until \<Longrightarrow> lo < until \<Longrightarrow> until \<le> epoch + p * cycleDuration slots + int (Suc passes) * cycleDuration slots \<Longrightarrow>
   length slots - idx + passes * length slots \<le> n \<Longrightarrow>
   broadcast_loop n slots lo until idx cursor \<noteq> [] \<and> until \<le> b_Stop (last (broadcast_loop n slots lo until idx cursor))"
proof (induction n arbitrary: p idx cursor passes)
  case 0
  have "length slots - idx = 0" "passes * length slots = 0" using "0.prems"(8) by simp_all
  then have "idx = length slots" "passes = 0" using "0.prems"(3,4) by auto
  then show ?case using "0.prems" by simp
next
  case (Suc n)
  define left where "left j = passes - (if j = length slots then 1 else 0 :: nat)" for j
  have step: "until \<le> epoch + p' * cycleDuration slots + int (Suc (left idx)) * cycleDuration slots \<and>
      length slots - Suc m + left idx * length slots \<le> n"
    if "if idx = length slots then k = 0 \<and> p' = p + 1 else k = idx \<and> p' = p" "k \<le> m" for k m p'
  proof (cases "idx = length slots")
    case True
    have "passes \<noteq> 0" using Suc.prems(1,5,7) True by (cases passes) auto
    then obtain r where r: "passes = Suc r" by (cases passes) auto
    have "until \<le> epoch + p' * cycleDuration slots + int (Suc (left idx)) * cycleDuration slots"
      using that(1) True Suc.prems(7) r by (simp add: left_def algebra_simps)
    moreover have "length slots - Suc m + r * length slots \<le> n"
      using Suc.prems(3,8) r True by (cases "length slots") auto
    ultimately show ?thesis using r True by (simp add: left_def)
  next
    case False
    then show ?thesis using that Suc.prems(4,7,8) by (simp add: left_def)
  qed
  from Suc.prems(1,2,3,5,4) show ?case
  proof (cases rule: broadcast_step [where n = n and lo = lo])
    case (skip k p')
    then show ?thesis
      unfolding skip(1) using skip(2) step [OF skip(6), of k]
      by (intro Suc.IH [where passes = "left idx", OF skip(5,4) Suc.prems(3) _ Suc.prems(5,6)]) simp_all
  next
    case (entry k m p' c)
    note bounds = guide_entry_bounds [OF entry(2)]
    show ?thesis
    proof (cases "b_Stop c < until")
      case True
      then have "broadcast_loop n slots lo until (Suc m) (b_Stop c) \<noteq> [] \<and>
          until \<le> b_Stop (last (broadcast_loop n slots lo until (Suc m) (b_Stop c)))"
        using bounds(5) step [OF entry(4) bounds(4)]
        by (intro Suc.IH [where passes = "left idx", OF bounds(2,3) Suc.prems(3) _ _ Suc.prems(6)]) simp_all
      then show ?thesis using entry(1) by simp
    next
      case False
      then show ?thesis using entry(1) Suc.prems(6) by simp
    qed
  qed
qed

text \<open>Where the guide's walk begins: a slot of the pass that holds the instant.\<close>

lemma walkBroadcasts_start:
  assumes "0 < cycleDuration slots" and "epoch \<le> lo" and "lo < until"
  obtains p r where "0 \<le> p" and "r < length slots" and "epoch + p * cycleDuration slots + offset_of slots r \<le> lo"
    and "lo < epoch + p * cycleDuration slots + cycleDuration slots"
    and "walkBroadcasts slots epoch lo until =
      broadcast_loop maxIterations slots lo until r (epoch + p * cycleDuration slots + offset_of slots r)"
proof -
  obtain p k x where at: "on_slot slots epoch lo p k x" using on_slot_exists assms(1,2) by blast
  then have k: "k < length slots" "0 \<le> x" "x < slotDuration (slots ! k)" "0 \<le> p"
    and lo: "lo = epoch + p * cycleDuration slots + offset_of slots k + x"
    by (simp_all add: on_slot_def)
  let ?q = "epoch + p * cycleDuration slots"
  obtain r where r: "r \<le> k" "rewindToProgrammeStart slots k (?q + offset_of slots k) = (r, ?q + offset_of slots r)"
    using rewind_run [OF k(1)] by blast
  have "lo - cycle_into slots epoch lo = ?q" using on_slot_into(1) [OF at] lo by simp
  then have "walkBroadcasts slots epoch lo until = broadcast_loop maxIterations slots lo until r (?q + offset_of slots r)"
    using assms(1,3) on_slot_into(1) [OF at] seek_on_slot [OF k(1,2,3), of 0] r(2)
    by (simp add: walkBroadcasts_def Let_def)
  moreover have "offset_of slots r \<le> offset_of slots k" by (rule offset_mono [OF r(1)])
  moreover have "offset_of slots k + x < offset_of slots (Suc k)" using k by (simp add: offset_Suc)
  moreover note offset_le [of "Suc k" slots]
  ultimately show ?thesis using that [of p r] k r(1) lo by auto
qed

lemma BroadcastsBetween_entry:
  assumes "epoch \<le> lo" and "b \<in> set (BroadcastsBetween slots epoch lo until)"
  obtains p k m where "guide_entry slots epoch b p k m" and "lo < b_Stop b"
proof -
  have T: "0 < cycleDuration slots" "lo < until"
    using assms(2) by (auto simp: BroadcastsBetween_def walkBroadcasts_def not_le split: if_splits)
  from T(1) have ne: "slots \<noteq> []" by auto
  obtain p r where "0 \<le> p" "r < length slots"
      "walkBroadcasts slots epoch lo until =
        broadcast_loop maxIterations slots lo until r (epoch + p * cycleDuration slots + offset_of slots r)"
    using walkBroadcasts_start [OF T(1) assms(1) T(2)] by blast
  then show ?thesis
    using broadcast_loop_entries [OF refl _ ne, of p r b] assms(2) that unfolding BroadcastsBetween_def
    by (metis less_imp_le_nat)
qed

text \<open>At any instant of an entry the encoder airs a slot of the entry.\<close>

lemma entry_airs:
  assumes "guide_entry slots epoch b p k m" and "b_Start b \<le> t" and "t < b_Stop b"
  obtains j x where "on_slot slots epoch t p j x" and "k \<le> j" and "j \<le> m"
proof -
  let ?q = "epoch + p * cycleDuration slots"
  note bounds = guide_entry_bounds [OF assms(1)]
  have "t < ?q + cycleDuration slots" using assms(3) bounds(2) offset_le [of "Suc m" slots] by linarith
  moreover have "?q \<le> t" using assms(2) bounds(1) cycleDuration_nonneg [of "take k slots"] by linarith
  ultimately obtain j x where at: "on_slot slots epoch t p j x" using on_slot_pass bounds(3) by blast
  have j: "j < length slots" "0 \<le> x" "x < slotDuration (slots ! j)" "t = ?q + offset_of slots j + x"
    using at by (simp_all add: on_slot_def)
  have "k \<le> j" using offset_between [OF j(1,2,3), of k] assms(2) bounds(1) j(4) by linarith
  moreover have "\<not> Suc m \<le> j" using offset_between [OF j(1,2,3), of "Suc m"] assms(3) bounds(2) j(4) by linarith
  ultimately show ?thesis using that [OF at] by simp
qed

lemma slot_broadcast_identity: "broadcastIdentity (slot_broadcast s start stop) = slot_identity s"
  by (simp add: broadcastIdentity_def slot_broadcast_def slot_identity_def Let_def)

text \<open>
  C4. The guide and the encoder agree. At every instant inside a guide entry, the encoder airs a slot of
  that entry: its first, with the same start, identity and scheduled-block id and ending no later than the
  entry, or a later slot that continues the first without a break in between. An entry that no slot
  continues is one airing, from its start to its stop.
\<close>

theorem guide_is_encoder:
  assumes "epoch \<le> lo" and "b \<in> set (BroadcastsBetween slots epoch lo until)" and "b_Start b \<le> t" and "t < b_Stop b"
  shows "let a = AiringAt slots epoch t
    in t + a_Remaining a \<le> b_Stop b \<and> 0 < a_Remaining a \<and>
      (\<exists>k j. k \<le> j \<and> j < length slots \<and> (\<forall>i. k < i \<and> i \<le> j \<longrightarrow> continuesProgramme (slots ! i)) \<and>
        b = slot_broadcast (slots ! k) (b_Start b) (b_Stop b) \<and>
        a_Key a = s_Key (slots ! j) \<and> a_LibraryItemID a = s_LibraryItemID (slots ! j) \<and> a_Kind a = s_Kind (slots ! j) \<and>
        (k = j \<longrightarrow> a_StartedAt a = b_Start b \<and> a_Identity a = ContentIdentity b \<and>
          (\<forall>format_time digest channelID. ScheduleBlockID format_time digest b channelID =
             ScheduledBlockID format_time digest channelID (a_StartedAt a) (a_Kind a) (a_Identity a)) \<and>
          (\<not> (k + 1 < length slots \<and> continuesProgramme (slots ! (k + 1))) \<longrightarrow> t + a_Remaining a = b_Stop b)))"
proof -
  obtain p k m where entry: "guide_entry slots epoch b p k m"
    using BroadcastsBetween_entry [OF assms(1,2)] by blast
  obtain j x where at: "on_slot slots epoch t p j x" and j: "k \<le> j" "j \<le> m"
    using entry_airs [OF entry assms(3,4)] by blast
  note bounds = guide_entry_bounds [OF entry]
  have a: "AiringAt slots epoch t = slot_airing t (slots ! j) x" by (rule on_slot_AiringAt [OF at])
  have t: "t - x = epoch + p * cycleDuration slots + offset_of slots j" "x < slotDuration (slots ! j)"
    using at by (simp_all add: on_slot_def)
  have jl: "j < length slots" using j bounds(5) by simp
  have stop: "t + (slotDuration (slots ! j) - x) = epoch + p * cycleDuration slots + offset_of slots (Suc j)"
    using t(1) jl by (simp add: offset_Suc)
  have b: "b = slot_broadcast (slots ! k) (b_Start b) (b_Stop b)"
    using entry bounds(1,2) by (simp add: guide_entry_def)
  have run: "\<forall>i. k < i \<and> i \<le> j \<longrightarrow> continuesProgramme (slots ! i)"
    using entry j by (auto simp: guide_entry_def programme_run_def)
  have whole: "m = k" if "\<not> (k + 1 < length slots \<and> continuesProgramme (slots ! (k + 1)))"
    using that entry unfolding guide_entry_def programme_run_def by (metis Suc_eq_plus1 Suc_leI le_neq_implies_less less_Suc_eq le_less_trans)
  have same: "broadcastIdentity b = slot_identity (slots ! k)" "b_Kind b = s_Kind (slots ! k)" "b_identityStart b = 0"
    using b by (metis slot_broadcast_identity, simp_all add: slot_broadcast_def) (metis Broadcast.select_convs)+
  show ?thesis
    unfolding Let_def a
    using t stop run jl b j bounds(1,2) offset_mono [of "Suc j" "Suc m" slots] whole same
    by (intro conjI exI [of _ k] exI [of _ j])
      (auto simp: slot_airing_def ContentIdentity_def ScheduleBlockID_def is_zero_time_def)
qed

lemma guide_covers_span:
  assumes "0 < cycleDuration slots" and "epoch \<le> lo" and "lo < until"
    and "length slots * nat ((until - lo) div cycleDuration slots + 2) \<le> maxIterations"
  shows "\<exists>b bs. BroadcastsBetween slots epoch lo until = b # bs \<and> b_Start b \<le> lo \<and> lo < b_Stop b \<and>
    abut (b_Stop b) bs \<and> until \<le> b_Stop (last (b # bs))"
proof -
  let ?T = "cycleDuration slots"
  have ne: "slots \<noteq> []" using assms(1) by auto
  obtain p r where p: "0 \<le> p" and r: "r < length slots"
    and start: "epoch + p * ?T + offset_of slots r \<le> lo" and pass: "lo < epoch + p * ?T + ?T"
    and walk: "walkBroadcasts slots epoch lo until =
        broadcast_loop maxIterations slots lo until r (epoch + p * ?T + offset_of slots r)"
    using walkBroadcasts_start [OF assms(1,2,3)] by blast
  let ?passes = "nat ((until - lo) div ?T + 1)"
  have d: "0 \<le> (until - lo) div ?T" using assms(1,3) by (simp add: pos_imp_zdiv_nonneg_iff)
  have "until - lo = (until - lo) div ?T * ?T + (until - lo) mod ?T" by (rule div_mult_mod_eq [symmetric])
  moreover have "(until - lo) mod ?T < ?T" using assms(1) by simp
  ultimately have "until - lo < ((until - lo) div ?T + 1) * ?T" unfolding distrib_right by linarith
  then have reach: "until \<le> epoch + p * ?T + int (Suc ?passes) * ?T" using pass d by (simp add: distrib_right)
  have "nat ((until - lo) div ?T + 2) = Suc ?passes" using d by simp
  then have fuel: "length slots - r + ?passes * length slots \<le> maxIterations" using assms(4) by (simp add: mult.commute)
  have covers: "walkBroadcasts slots epoch lo until \<noteq> [] \<and> until \<le> b_Stop (last (walkBroadcasts slots epoch lo until))"
    unfolding walk
    by (rule broadcast_loop_covers [OF refl p ne _ _ assms(3) reach fuel]) (use r start assms(3) in auto)
  then obtain b bs where bs: "walkBroadcasts slots epoch lo until = b # bs" by (cases "walkBroadcasts slots epoch lo until") auto
  have "b_Start b \<le> lo \<and> abut (b_Stop b) bs"
    by (rule broadcast_loop_first [OF refl p ne _ start]) (use bs walk r in auto)
  moreover have "lo < b_Stop b"
    using BroadcastsBetween_entry [OF assms(2), of b slots until] bs by (auto simp: BroadcastsBetween_def)
  ultimately show ?thesis using bs covers by (simp add: BroadcastsBetween_def)
qed

text \<open>
  C20. The guide has no gaps and does not stop short: its first entry covers the instant asked from, each
  entry starts where the one before it stops, and the last stops at or after the end asked for, as long as
  the walk's cap of ten thousand slots covers the passes the span touches.
\<close>

theorem guide_has_no_gaps:
  assumes "0 < cycleDuration slots" and "epoch \<le> lo" and "lo < until"
    and "length slots * nat ((until - lo) div cycleDuration slots + 2) \<le> maxIterations"
  shows "case BroadcastsBetween slots epoch lo until of [] \<Rightarrow> False
    | b # bs \<Rightarrow> b_Start b \<le> lo \<and> lo < b_Stop b \<and> abut (b_Stop b) bs \<and> until \<le> b_Stop (last (b # bs))"
  using guide_covers_span [OF assms] by auto

subsection \<open>The stop rule of a stream\<close>

lemma OnAirChanged_step:
  assumes "AiringAt xs e clock = AiringAt ys f clock" and "e \<le> clock" and "f \<le> clock"
    and "clock \<le> t" and "t < clock + a_Remaining (AiringAt xs e clock)"
  shows "AiringAt xs e t = AiringAt ys f t"
  using AiringAt_within [OF assms(2,4,5)] AiringAt_within [OF assms(3,4), of ys] assms(1,5) by simp

lemma AiringAt_nothing:
  assumes "a_Remaining (AiringAt slots epoch clock) \<le> 0" and "epoch \<le> clock"
  shows "AiringAt slots epoch t = nothing_airs"
  using assms AiringAt_remaining_pos [of slots epoch clock] by (cases "0 < cycleDuration slots") (auto simp: AiringAt_def)

lemma OnAirChanged_exact:
  "e \<le> clock \<Longrightarrow> f \<le> clock \<Longrightarrow>
   OnAirChanged xs e ys f clock until \<longleftrightarrow> (\<exists>t\<ge>clock. t < until \<and> AiringAt xs e t \<noteq> AiringAt ys f t)"
proof (induction xs e ys f clock until rule: OnAirChanged.induct)
  case (1 xs e ys f clock until)
  let ?a = "AiringAt xs e clock" and ?b = "AiringAt ys f clock"
  consider (over) "\<not> clock < until" | (differ) "clock < until" "?a \<noteq> ?b"
    | (empty) "clock < until" "?a = ?b" "a_Remaining ?a \<le> 0" | (same) "clock < until" "?a = ?b" "0 < a_Remaining ?a"
    by linarith
  then show ?case
  proof cases
    case same
    have "OnAirChanged xs e ys f clock until \<longleftrightarrow> OnAirChanged xs e ys f (clock + a_Remaining ?a) until"
      using same by (simp add: OnAirChanged.simps [of xs e ys f clock])
    also have "\<dots> \<longleftrightarrow> (\<exists>t\<ge>clock + a_Remaining ?a. t < until \<and> AiringAt xs e t \<noteq> AiringAt ys f t)"
      using same "1.prems" by (intro "1.IH") auto
    also have "\<dots> \<longleftrightarrow> (\<exists>t\<ge>clock. t < until \<and> AiringAt xs e t \<noteq> AiringAt ys f t)"
      using OnAirChanged_step [OF same(2) "1.prems"] same(3) by (meson dual_order.trans less_add_same_cancel1 linorder_not_less order_less_imp_le)
    finally show ?thesis .
  next
    case empty
    then have "AiringAt xs e t = AiringAt ys f t" for t
      using AiringAt_nothing [OF _ "1.prems"(1), of xs t] AiringAt_nothing [OF _ "1.prems"(2), of ys t] by simp
    then show ?thesis using empty by (simp add: OnAirChanged.simps [of xs e ys f clock])
  qed (auto simp: OnAirChanged.simps [of xs e ys f clock])
qed

text \<open>
  C21. The stop rule is exact: for two cycles that began by the start of a span, it reports a change if and
  only if at some instant of the span the two air something different, although it looks only at the
  boundaries of the accepted cycle.
\<close>

theorem OnAirChanged_iff:
  assumes "epoch \<le> lo" and "nextEpoch \<le> lo"
  shows "OnAirChanged accepted epoch replacement nextEpoch lo until \<longleftrightarrow>
    (\<exists>t. lo \<le> t \<and> t < until \<and> AiringAt accepted epoch t \<noteq> AiringAt replacement nextEpoch t)"
  using OnAirChanged_exact [OF assms] by blast

subsection \<open>Holding the breaks that have aired\<close>

lemma sameTiming_keep: "sameTiming a b \<Longrightarrow> slotDuration (keep_length a b) = slotDuration a"
  by (auto simp: sameTiming_def keep_length_def is_break_def slotDuration_def split: if_splits)

lemma keep_length_same: "s_Kind (keep_length a b) = s_Kind b" "s_Key (keep_length a b) = s_Key b"
  "s_LibraryItemID (keep_length a b) = s_LibraryItemID b" "s_Title (keep_length a b) = s_Title b"
  "s_SourceOffsetMs (keep_length a b) = s_SourceOffsetMs b"
  by (simp_all add: keep_length_def)

lemma sameTiming_kind: "sameTiming a b \<Longrightarrow> s_Kind b = s_Kind a"
  by (auto simp: sameTiming_def is_break_def split: if_splits)

lemma held_all:
  "n \<le> length xs \<Longrightarrow> n \<le> length ys \<Longrightarrow> (\<forall>i<n. sameTiming (xs ! i) (ys ! i)) \<Longrightarrow> held_slots n xs ys = n"
proof (induction n xs ys rule: held_slots.induct)
  case (1 n a as b bs)
  have "sameTiming a b" using "1.prems"(3) [rule_format, of 0] by simp
  moreover have "\<forall>i<n. sameTiming (as ! i) (bs ! i)" using "1.prems"(3) by (metis Suc_mono nth_Cons_Suc)
  ultimately show ?case using "1.IH" "1.prems"(1,2) by simp
qed auto

lemma aired_slots_le: "aired_slots xs elapsed \<le> length xs"
  by (induction xs elapsed rule: aired_slots.induct) auto

lemma aired_slots_cover: "elapsed \<le> cycleDuration xs \<Longrightarrow> elapsed \<le> offset_of xs (aired_slots xs elapsed)"
proof (induction xs elapsed rule: aired_slots.induct)
  case (2 s ss elapsed)
  then show ?case by auto
qed auto

lemma offset_cong:
  assumes "\<And>i. i < k \<Longrightarrow> slotDuration (xs ! i) = slotDuration (ys ! i)" and "k \<le> length xs" "k \<le> length ys"
  shows "offset_of xs k = offset_of ys k"
  using assms by (induction k) (simp_all add: offset_Suc Suc_le_eq less_imp_le)

text \<open>Two walks over slots that line up: the same place in both, until one of them ends.\<close>

lemma on_slot_aligned:
  assumes "on_slot xs epoch t p k x" and "k < n" and "n \<le> length xs" "n \<le> length ys"
    and "\<And>i. i < n \<Longrightarrow> slotDuration (ys ! i) = slotDuration (xs ! i)"
    and "p = 0 \<or> cycleDuration ys = cycleDuration xs"
  shows "on_slot ys epoch t p k x"
proof -
  have "offset_of ys k = offset_of xs k" using assms(2-5) by (intro offset_cong) simp_all
  moreover have "slotDuration (ys ! k) = slotDuration (xs ! k)" using assms(5) [OF assms(2)] .
  ultimately show ?thesis using assms(1-4,6) by (auto simp: on_slot_def)
qed

text \<open>
  C18. Re-sizing a break never moves what has aired. When every slot that has started on the accepted cycle
  keeps its timing, then at every instant before \<open>until\<close> in the first turn of the cycle, and, if the new
  cycle has as many slots as the accepted one, at every instant before \<open>until\<close>, the cycle that keeps the
  accepted breaks airs a slot that started at the same instant, is of the same kind and has as long left,
  with the identity the new cycle gives it. A slot added after the last one moves the later turns: there
  the hold, which keeps lengths only, promises nothing.
\<close>

theorem KeepAcceptedBreaks_airing:
  assumes "0 < cycleDuration accepted" and "epoch \<le> t" and "t < until"
    and timing: "\<And>i. i < (if until - epoch < cycleDuration accepted then aired_slots accepted (until - epoch) else length accepted) \<Longrightarrow>
      i < length replacement \<and> sameTiming (accepted ! i) (replacement ! i)"
    and repeats: "cycleDuration accepted \<le> t - epoch \<Longrightarrow> length replacement = length accepted"
  shows "let a = AiringAt accepted epoch t; b = AiringAt (KeepAcceptedBreaks accepted replacement epoch until) epoch t
    in a_StartedAt b = a_StartedAt a \<and> a_Remaining b = a_Remaining a \<and> a_Kind b = a_Kind a \<and>
      (\<exists>i<length replacement. a_Key b = s_Key (replacement ! i) \<and> a_LibraryItemID b = s_LibraryItemID (replacement ! i))"
proof -
  define n where "n = (if until - epoch < cycleDuration accepted then aired_slots accepted (until - epoch) else length accepted)"
  let ?out = "KeepAcceptedBreaks accepted replacement epoch until"
  have n_acc: "n \<le> length accepted" by (simp add: n_def aired_slots_le)
  have n_rep: "n \<le> length replacement" using timing [folded n_def] by (meson linorder_not_less nat_neq_iff)
  have same: "sameTiming (accepted ! i) (replacement ! i)" if "i < n" for i using timing [folded n_def] that by blast
  have held: "held_slots n accepted replacement = n" using held_all [OF n_acc n_rep] same by blast
  have out: "?out = map2 keep_length (take n accepted) (take n replacement) @ drop n replacement"
    using assms(1-3) n_rep held by (simp add: KeepAcceptedBreaks_def Let_def min_absorb1 flip: n_def)
  have len: "length ?out = length replacement" using n_acc n_rep by (simp add: out)
  have nth: "?out ! i = keep_length (accepted ! i) (replacement ! i)" if "i < n" for i
    using that n_acc n_rep by (simp add: out nth_append)
  have dur: "slotDuration (?out ! i) = slotDuration (accepted ! i)" if "i < n" for i
    using nth [OF that] same [OF that] by (simp add: sameTiming_keep)
  obtain p k x where at: "on_slot accepted epoch t p k x" using on_slot_exists assms(1,2) by blast
  then have k: "k < length accepted" "0 \<le> x" "x < slotDuration (accepted ! k)" "0 \<le> p"
    and t: "t - epoch = p * cycleDuration accepted + offset_of accepted k + x"
    by (simp_all add: on_slot_def)
  have first: "p = 0" if "t - epoch < cycleDuration accepted"
  proof (rule ccontr)
    assume "p \<noteq> 0"
    then have "cycleDuration accepted \<le> p * cycleDuration accepted" using assms(1) k(4) by (simp add: mult_le_cancel_right1)
    then show False using t that k(2) cycleDuration_nonneg [of "take k accepted"] by linarith
  qed
  have kn: "k < n \<and> (p = 0 \<or> cycleDuration ?out = cycleDuration accepted)"
  proof (cases "until - epoch < cycleDuration accepted")
    case True
    then have p: "p = 0" using first assms(3) by linarith
    have "until - epoch \<le> offset_of accepted n" using aired_slots_cover [of "until - epoch" accepted] True by (simp add: n_def)
    then have "\<not> offset_of accepted n \<le> offset_of accepted k + x" using t p assms(3) by simp
    then show ?thesis using offset_between [OF k(1,2,3), of n] p by simp
  next
    case False
    have n: "n = length accepted" using False by (simp add: n_def)
    have "offset_of ?out n = offset_of accepted n"
      using dur n_acc n_rep len by (intro offset_cong) simp_all
    then have "cycleDuration ?out = cycleDuration accepted" if "cycleDuration accepted \<le> t - epoch"
      using n len repeats [OF that] by simp
    then show ?thesis using k(1) n first by (cases "cycleDuration accepted \<le> t - epoch") simp_all
  qed
  then have "on_slot ?out epoch t p k x"
    using on_slot_aligned [OF at _ n_acc, of ?out] dur n_rep len by simp
  note out_airs = on_slot_AiringAt [OF this]
  have "s_Kind (replacement ! k) = s_Kind (accepted ! k)"
    using same kn sameTiming_kind by blast
  then show ?thesis
    unfolding Let_def out_airs on_slot_AiringAt [OF at] using kn n_rep
    by (intro conjI exI [of _ k]) (use same kn in \<open>auto simp: slot_airing_def nth keep_length_same sameTiming_keep\<close>)
qed

subsection \<open>Handing over at a boundary\<close>

lemma guide_stop_starts:
  assumes "guide_entry slots epoch b p k m" and "0 < cycleDuration slots"
  shows "a_StartedAt (AiringAt slots epoch (b_Stop b)) = b_Stop b"
proof -
  note bounds = guide_entry_bounds [OF assms(1)]
  let ?q = "epoch + p * cycleDuration slots"
  have stop: "b_Stop b = ?q + offset_of slots (Suc m)" by (rule bounds(2))
  have "epoch \<le> b_Stop b" using stop bounds(3) assms(2) by simp
  then obtain p' j x where at: "on_slot slots epoch (b_Stop b) p' j x" using on_slot_exists assms(2) by blast
  have "x = 0"
  proof -
    have j: "j < length slots" "0 \<le> x" "x < slotDuration (slots ! j)" "0 \<le> p'"
      and e: "b_Stop b = epoch + p' * cycleDuration slots + offset_of slots j + x" using at by (simp_all add: on_slot_def)
    have lt: "offset_of slots j + x < offset_of slots (Suc j)" using j by (simp add: offset_Suc)
    show ?thesis
    proof (cases "p' = p")
      case True
      then have "offset_of slots (Suc m) = offset_of slots j + x" using e stop by simp
      then have "\<not> offset_of slots (Suc j) \<le> offset_of slots (Suc m)" "offset_of slots j \<le> offset_of slots (Suc m)"
        using lt j(2) by linarith+
      then have "Suc m \<le> j" using offset_mono [of "Suc j" "Suc m" slots] by (meson not_less_eq_eq)
      then have "offset_of slots (Suc m) \<le> offset_of slots j" by (rule offset_mono)
      then show ?thesis using \<open>offset_of slots (Suc m) = offset_of slots j + x\<close> j(2) by linarith
    next
      case False
      have T: "(p' - p) * cycleDuration slots + (offset_of slots j + x) = offset_of slots (Suc m)"
        using e stop by (simp add: algebra_simps)
      have le: "offset_of slots (Suc m) \<le> cycleDuration slots" "offset_of slots j + x < cycleDuration slots" "0 \<le> offset_of slots j"
          "0 \<le> offset_of slots (Suc m)"
        using offset_le [of "Suc m" slots] offset_le [of "Suc j" slots] lt by auto
      have "p' - p > -1"
      proof (rule ccontr)
        assume "\<not> p' - p > -1"
        then have "(p' - p) * cycleDuration slots \<le> (-1) * cycleDuration slots" using assms(2) by (intro mult_right_mono) auto
        then show False using T le by linarith
      qed
      then have "1 \<le> p' - p" using False by linarith
      then have "1 * cycleDuration slots \<le> (p' - p) * cycleDuration slots" using assms(2) by (intro mult_right_mono) auto
      then show ?thesis using T le j(2) by linarith
    qed
  qed
  then show ?thesis using on_slot_AiringAt [OF at] by (simp add: slot_airing_def)
qed

lemma CarryOverEnd_starts:
  assumes "0 < cycleDuration slots" and "epoch \<le> boundary" and "length slots * 3 \<le> maxIterations"
  shows "boundary \<le> CarryOverEnd slots epoch boundary"
    and "a_StartedAt (AiringAt slots epoch (CarryOverEnd slots epoch boundary)) = CarryOverEnd slots epoch boundary"
    and "CarryOverEnd slots epoch boundary \<noteq> boundary \<Longrightarrow>
      \<exists>b\<in>set (BroadcastsBetween slots epoch boundary (boundary + 1)).
        b_Start b < boundary \<and> boundary < b_Stop b \<and> b_Stop b = CarryOverEnd slots epoch boundary"
proof -
  have "(1::int) div cycleDuration slots \<le> 1" using zdiv_mono2 [of 1 1 "cycleDuration slots"] assms(1) by simp
  then have "length slots * nat (1 div cycleDuration slots + 2) \<le> length slots * 3" by (intro mult_left_mono) auto
  then have "length slots * nat (1 div cycleDuration slots + 2) \<le> maxIterations" using assms(3) by (rule order_trans)
  moreover have "boundary + 1 - boundary = 1" by simp
  ultimately have fuel: "length slots * nat ((boundary + 1 - boundary) div cycleDuration slots + 2) \<le> maxIterations"
    by (simp only:)
  obtain b bs where b: "BroadcastsBetween slots epoch boundary (boundary + 1) = b # bs" "b_Start b \<le> boundary" "boundary < b_Stop b"
    using guide_covers_span [OF assms(1,2) _ fuel] by auto
  obtain p k m where entry: "guide_entry slots epoch b p k m"
    by (rule BroadcastsBetween_entry [OF assms(2), of b slots "boundary + 1"]) (simp_all add: b(1))
  have at: "on_slot slots epoch (b_Start b) p k 0"
    using entry guide_entry_bounds [OF entry] by (simp add: on_slot_def guide_entry_def)
  have c: "CarryOverEnd slots epoch boundary = (if b_Start b < boundary then b_Stop b else boundary)"
    using b by (simp add: CarryOverEnd_def)
  show "boundary \<le> CarryOverEnd slots epoch boundary" using b(3) by (simp add: c)
  show "a_StartedAt (AiringAt slots epoch (CarryOverEnd slots epoch boundary)) = CarryOverEnd slots epoch boundary"
    using guide_stop_starts [OF entry assms(1)] on_slot_AiringAt [OF at] b(2) by (auto simp: c slot_airing_def)
  show "\<exists>b\<in>set (BroadcastsBetween slots epoch boundary (boundary + 1)).
      b_Start b < boundary \<and> boundary < b_Stop b \<and> b_Stop b = CarryOverEnd slots epoch boundary"
    if "CarryOverEnd slots epoch boundary \<noteq> boundary"
    using that b by (auto simp: c split: if_splits)
qed

text \<open>
  C19. A rolling window is handed over between programmes. The accepted window stays on air, from its anchor,
  exactly until the carry-over end of its next boundary, an instant on or after the boundary at which a slot
  of the accepted cycle starts. From then on the window of the clock is on air: walked from that very
  instant when the end lies in it, so nothing is cut, and from its own opening when windows were missed;
  in both cases from an instant that has passed. For windows of a second or more, a cycle of at most a third
  of the walk's limit of slots, and a zone whose clock changes leave the boundaries around the anchor and
  the clock clean, as every zone without changes does and every one whose clocks do not change at a boundary.
\<close>

theorem WindowTurn_hands_over:
  assumes "clean_window zone window anchor" and "clean_window zone window clock"
    and "second \<le> window" and "anchor \<noteq> 0" and "clock \<noteq> 0"
    and "0 < cycleDuration accepted" and "length accepted * 3 \<le> maxIterations"
  shows "let boundary = NextWindowStart anchor window zone; finish = CarryOverEnd accepted anchor boundary;
      (opened, epoch, turned) = WindowTurn accepted anchor window zone clock
    in boundary \<le> finish \<and> a_StartedAt (AiringAt accepted anchor finish) = finish \<and> (turned \<longleftrightarrow> finish \<le> clock) \<and>
      (if turned
       then opened = WindowStart clock window zone \<and> epoch \<le> clock \<and>
         (epoch = (if WindowStart finish window zone = opened then finish else opened))
       else opened = WindowStart anchor window zone \<and> epoch = anchor)"
proof -
  let ?finish = "CarryOverEnd accepted anchor (NextWindowStart anchor window zone)"
  have "anchor \<le> NextWindowStart anchor window zone" using clean_window_holds(2) [OF assms(1,3,4)] by simp
  note turn = CarryOverEnd_starts(1,2) [OF assms(6) this assms(7)]
  have "accepted \<noteq> []" "0 < window" using assms(3,6) by auto
  then show ?thesis
    using turn clean_window_holds [OF assms(2,3,5)] assms(4) by (auto simp: WindowTurn_def Let_def is_zero_time_def)
qed

subsection \<open>The pending acquisitions of the grid\<close>

lemma slot_broadcast_real: "\<not> b_Nominal (slot_broadcast s start stop)"
  by (simp add: slot_broadcast_def)

lemma broadcast_loop_real: "\<forall>b\<in>set (broadcast_loop n slots lo until idx cursor). \<not> b_Nominal b"
  by (induction n arbitrary: idx cursor)
    (auto simp: broadcast_loop.simps(2) Let_def slot_broadcast_real split: prod.splits if_splits)

lemma BroadcastsBetween_real: "b \<in> set (BroadcastsBetween slots epoch lo until) \<Longrightarrow> \<not> b_Nominal b"
  using broadcast_loop_real by (auto simp: BroadcastsBetween_def walkBroadcasts_def Let_def split: prod.splits if_splits)

lemma emit_pending_real:
  "\<forall>b\<in>set bs. \<not> b_Nominal b \<Longrightarrow> filter (\<lambda>b. \<not> b_Nominal b) (emit_pending slots pending idx bs) = bs"
  by (induction slots pending idx bs rule: emit_pending.induct) (auto simp: pending_broadcast_def filter_empty_conv)

text \<open>The grid and the guide differ only in the nominal entries the grid adds.\<close>

lemma BroadcastsWithPending_airable:
  "filter (\<lambda>b. \<not> b_Nominal b) (BroadcastsWithPending slots epoch lo until) = BroadcastsBetween slots epoch lo until"
proof -
  have real: "\<forall>b\<in>set (BroadcastsBetween slots epoch lo until). \<not> b_Nominal b" using BroadcastsBetween_real by blast
  then have "filter (\<lambda>b. \<not> b_Nominal b) (BroadcastsBetween slots epoch lo until) = BroadcastsBetween slots epoch lo until"
    by simp
  then show ?thesis using emit_pending_real [OF real] by (simp add: BroadcastsWithPending_def Let_def)
qed

text \<open>A clipped entry stays in the bounds, keeps its scheduled block, and an entry that lies in them is not moved.\<close>

lemma ClipTo_keeps_block:
  assumes "b_identityStart b = 0" and "b_Start b \<noteq> 0"
  shows "ScheduleBlockID format_time digest (fst (ClipTo b lo until)) channelID = ScheduleBlockID format_time digest b channelID"
  using assms by (auto simp: ClipTo_def ScheduleBlockID_def broadcastIdentity_def Let_def is_zero_time_def)

lemma ClipTo_bounds:
  assumes "lo \<noteq> 0" and "until \<noteq> 0" and "ClipTo b lo until = (c, True)"
  shows "lo \<le> b_Start c" "b_Stop c \<le> until" "b_Start b \<le> b_Start c" "b_Stop c \<le> b_Stop b"
  using assms by (auto simp: ClipTo_def Let_def is_zero_time_def split: if_splits)

subsection \<open>What the channel airs is what the lineup allows\<close>

lemma airing_walk_slot:
  "airing_walk now slots into = nothing_airs \<or> (\<exists>s\<in>set slots. \<exists>x. airing_walk now slots into = slot_airing now s x)"
  by (induction now slots into rule: airing_walk.induct) (auto simp: Let_def)

lemma AiringAt_slot:
  assumes "a_Kind (AiringAt slots epoch now) = SlotProgram"
  obtains s where "s \<in> set slots" and "IsProgram s" and "a_Key (AiringAt slots epoch now) = s_Key s"
    and "a_LibraryItemID (AiringAt slots epoch now) = s_LibraryItemID s"
proof -
  have "AiringAt slots epoch now \<noteq> nothing_airs" using assms by (auto simp: nothing_airs_def)
  then obtain s x where "s \<in> set slots" "AiringAt slots epoch now = slot_airing now s x"
    using airing_walk_slot [of now slots "cycle_into slots epoch now"] by (auto simp: AiringAt_def split: if_splits)
  then show ?thesis using assms that by (simp add: slot_airing_def IsProgram_def)
qed

text \<open>The slot an airing names, by key and library item.\<close>

definition airing_slot :: "Airing \<Rightarrow> Slot" where
  "airing_slot a = empty_slot\<lparr>s_Kind := a_Kind a, s_Key := a_Key a, s_LibraryItemID := a_LibraryItemID a\<rparr>"

text \<open>
  C2. From the entries to the screen: at any instant, for any anchor, if the clock airs a programme of the
  lineup computed for a channel, then that programme is an item the library offers for an approved entry
  that the channel's policy and the active rule admit and that is safe for the channel's audience.
\<close>

theorem channel_airs_safely:
  "case computeDesiredAt depth draw ft loc ch entries avail pending policy now of
     None \<Rightarrow> True
   | Some d \<Rightarrow>
       let a = AiringAt (dl_Slots d) epoch t;
           rule = fst (pickRule (cp_Rules policy) loc now (channel_calendar ch));
           rp = desired_policy ch policy rule entries
       in if a_Kind a = SlotProgram then airs_safely entries avail rp (sr_What rule) (airing_slot a) else True"
proof (cases "computeDesiredAt depth draw ft loc ch entries avail pending policy now")
  case (Some d)
  let ?rule = "fst (pickRule (cp_Rules policy) loc now (channel_calendar ch))"
  have "airs_safely entries avail (desired_policy ch policy ?rule entries) (sr_What ?rule) (airing_slot (AiringAt (dl_Slots d) epoch t))"
    if prog: "a_Kind (AiringAt (dl_Slots d) epoch t) = SlotProgram"
  proof -
    obtain s where s: "s \<in> set (dl_Slots d)" "IsProgram s" "a_Key (AiringAt (dl_Slots d) epoch t) = s_Key s"
        "a_LibraryItemID (AiringAt (dl_Slots d) epoch t) = s_LibraryItemID s"
      using AiringAt_slot [OF prog] by blast
    have t: "s_Key (airing_slot (AiringAt (dl_Slots d) epoch t)) = s_Key s"
        "s_LibraryItemID (airing_slot (AiringAt (dl_Slots d) epoch t)) = s_LibraryItemID s"
      by (simp_all add: airing_slot_def s(3,4))
    from computed_programs_safe [OF Some s(1,2)] show ?thesis
      unfolding Let_def airs_safely_def by (simp only: t)
  qed
  then show ?thesis using Some by (simp add: Let_def)
qed simp

subsection \<open>A cycle on the clock\<close>

text \<open>A film in two parts around a break, a break after it, and a pending title that has no length yet.\<close>

definition film_cycle :: "Slot list" where
  "film_cycle =
     [empty_slot\<lparr>s_Kind := SlotProgram, s_Key := ''movie:tmdb:85'', s_LibraryItemID := ''item-85'', s_DurationMs := 3000000, s_Segment := 1\<rparr>,
      empty_slot\<lparr>s_Kind := SlotFiller, s_DurationMs := 120000, s_MidRoll := True\<rparr>,
      empty_slot\<lparr>s_Kind := SlotProgram, s_Key := ''movie:tmdb:85'', s_LibraryItemID := ''item-85'', s_DurationMs := 3000000,
        s_Segment := 2, s_SourceOffsetMs := 3000000\<rparr>,
      empty_slot\<lparr>s_Kind := SlotFiller\<rparr>,
      empty_slot\<lparr>s_Kind := SlotPending, s_Key := ''movie:tmdb:603''\<rparr>]"

lemma film_cycle_duration: "cycleDuration film_cycle = 6150 * second" "length film_cycle = 5"
  by (simp_all add: film_cycle_def slotDuration_def empty_slot_def fillerSlotDuration_def)

lemma film_guide:
  obtains b bs where "BroadcastsBetween film_cycle 7 7 (7 + 24 * hour) = b # bs" "b_Start b \<le> 7" "7 < b_Stop b"
proof -
  have "length film_cycle * nat ((7 + 24 * hour - 7) div cycleDuration film_cycle + 2) \<le> maxIterations"
    by (simp add: film_cycle_duration maxIterations_def)
  from guide_covers_span [OF _ _ _ this] show ?thesis using that by (auto simp: film_cycle_duration)
qed

theorem guide_is_encoder_witness:
  "\<exists>b\<in>set (BroadcastsBetween film_cycle 7 7 (7 + 24 * hour)).
     0 < a_Remaining (AiringAt film_cycle 7 7) \<and> 7 + a_Remaining (AiringAt film_cycle 7 7) \<le> b_Stop b"
proof -
  obtain b bs where b: "BroadcastsBetween film_cycle 7 7 (7 + 24 * hour) = b # bs" "b_Start b \<le> 7" "7 < b_Stop b"
    by (rule film_guide)
  from guide_is_encoder [of 7 7 b film_cycle "7 + 24 * hour" 7] b show ?thesis by (auto simp: Let_def)
qed

theorem guide_has_no_gaps_witness:
  "case BroadcastsBetween film_cycle 7 7 (7 + 24 * hour) of [] \<Rightarrow> False | b # bs \<Rightarrow> 7 + 24 * hour \<le> b_Stop (last (b # bs))"
proof -
  have "length film_cycle * nat ((7 + 24 * hour - 7) div cycleDuration film_cycle + 2) \<le> maxIterations"
    by (simp add: film_cycle_duration maxIterations_def)
  then show ?thesis using guide_has_no_gaps [of film_cycle 7 7 "7 + 24 * hour"]
    by (auto simp: film_cycle_duration split: list.splits)
qed

theorem OnAirChanged_iff_witness:
  "OnAirChanged film_cycle 7 [] 7 10 20"
proof -
  have "a_Remaining (AiringAt film_cycle 7 10) \<noteq> 0"
    using AiringAt_remaining_pos [of film_cycle 7 10] by (simp add: film_cycle_duration)
  then have "AiringAt film_cycle 7 10 \<noteq> AiringAt [] 7 10" by (auto simp: AiringAt_def [of "[]"] nothing_airs_def)
  then show ?thesis using OnAirChanged_iff [of 7 10 7 film_cycle "[]" 20] by auto
qed

lemma film_duration: "0 < slotDuration film"
  by (simp add: film_def movie_slot_def slotDuration_def)

lemma film_airs:
  assumes "set slots = {film}" and "0 \<le> t"
  shows "a_Kind (AiringAt slots 0 t) = SlotProgram"
proof -
  obtain rest where "slots = film # rest" using assms(1) by (cases slots) auto
  then have pos: "0 < cycleDuration slots" using film_duration by (simp add: add_pos_nonneg)
  have "AiringAt slots 0 t \<noteq> nothing_airs"
    using AiringAt_remaining_pos [OF pos assms(2)] by (auto simp: nothing_airs_def)
  then have "airing_walk t slots (cycle_into slots 0 t) \<noteq> nothing_airs" by (simp add: AiringAt_def split: if_splits)
  then obtain x where "airing_walk t slots (cycle_into slots 0 t) = slot_airing t film x"
    using airing_walk_slot [of t slots "cycle_into slots 0 t"] assms(1) by auto
  then show ?thesis using pos film_kind by (simp add: AiringAt_def slot_airing_def)
qed
theorem channel_airs_safely_witness:
  "\<exists>d. computeDesiredAt 1 no_draw (\<lambda>t. t) None zero_channel [sample_entry] sample_availability PodFill action_policy 0 = Some d \<and>
     a_Kind (AiringAt (dl_Slots d) 0 (9000 * second)) = SlotProgram \<and>
     airs_safely [sample_entry] sample_availability (desired_policy zero_channel action_policy empty_rule [sample_entry]) None
       (airing_slot (AiringAt (dl_Slots d) 0 (9000 * second)))"
proof -
  obtain d where d: "computeDesiredAt 1 no_draw (\<lambda>t. t) None zero_channel [sample_entry] sample_availability PodFill action_policy 0 = Some d"
    "set (dl_Slots d) = {film}"
    by (rule film_lineup)
  have "fst (pickRule (cp_Rules action_policy) None 0 (channel_calendar zero_channel)) = empty_rule" "sr_What empty_rule = None"
    by (simp_all add: pickRule_def pickRuleIndex_def action_policy_def plain_policy_def empty_policy_def empty_rule_def)
  then show ?thesis
    using channel_airs_safely [where depth = 1 and draw = no_draw and ft = "\<lambda>t. t" and loc = None and ch = zero_channel and
        entries = "[sample_entry]" and avail = sample_availability and pending = PodFill and policy = action_policy and now = 0 and
        epoch = 0 and t = "9000 * second"]
      d film_airs [OF d(2), of "9000 * second"]
    by (simp add: Let_def)
qed

theorem KeepAcceptedBreaks_airing_witness:
  "a_Remaining (AiringAt (KeepAcceptedBreaks film_cycle (film_cycle[1 := (film_cycle ! 1)\<lparr>s_DurationMs := 60000\<rparr>]) 0 (9000 * second)) 0 (8000 * second)) =
     a_Remaining (AiringAt film_cycle 0 (8000 * second))"
proof -
  have "sameTiming (film_cycle ! i) (film_cycle[1 := (film_cycle ! 1)\<lparr>s_DurationMs := 60000\<rparr>] ! i)" for i
  proof (cases "i = 1")
    case True
    then show ?thesis by (simp add: sameTiming_def film_cycle_def is_break_def empty_slot_def)
  qed (simp add: sameTiming_def)
  then show ?thesis
    using KeepAcceptedBreaks_airing [of film_cycle 0 "8000 * second" "9000 * second" "film_cycle[1 := (film_cycle ! 1)\<lparr>s_DurationMs := 60000\<rparr>]"]
    by (simp add: film_cycle_duration Let_def)
qed

text \<open>
  The day the clocks go forward: anchored at its midnight, the window of a day closes 23 hours later, and at the
  carry-over end of that boundary the turn has come.
\<close>

theorem WindowTurn_hands_over_witness:
  "let zone = Some spring_zone; anchor = (20000 * 86400 + unix_origin + 18000) * second;
       boundary = NextWindowStart anchor (24 * hour) zone; finish = CarryOverEnd film_cycle anchor boundary
   in boundary = anchor + 23 * hour \<and> boundary \<le> finish \<and> snd (snd (WindowTurn film_cycle anchor (24 * hour) zone finish))"
proof -
  define zone where "zone = Some spring_zone"
  define window where "window = 24 * hour"
  define anchor where "anchor = (20000 * 86400 + unix_origin + 18000) * second"
  define boundary where "boundary = NextWindowStart anchor window zone"
  define finish where "finish = CarryOverEnd film_cycle anchor boundary"
  have clean: "clean_window zone window t" for t
    unfolding clean_window_def zone_def window_def by (intro conjI spring_zone_clean)
  have window: "second \<le> window" by (simp add: window_def)
  have anchor: "anchor \<noteq> 0" by (simp add: anchor_def)
  have "wallSeconds anchor zone = 20000 * 86400"
    by (simp add: anchor_def zone_def wallSeconds_def time_Unix_def spring_zone_def)
  then have "windowIndex anchor window zone = 20000"
    using windowIndex_floor [OF window anchor, of zone] by (simp add: window_def)
  then have boundary: "boundary = anchor + 23 * hour"
    using anchor spring_opening [of 20001]
    by (simp add: boundary_def window_def NextWindowStart_def is_zero_time_def zone_def) (simp add: anchor_def)
  then have le: "boundary \<le> finish"
    unfolding finish_def by (intro CarryOverEnd_starts(1)) (simp_all add: film_cycle_duration maxIterations_def)
  then have "finish \<noteq> 0" using boundary by (simp add: anchor_def)
  then have "snd (snd (WindowTurn film_cycle anchor window zone finish))"
    using WindowTurn_hands_over [OF clean clean window anchor, of finish film_cycle]
    by (simp add: film_cycle_duration maxIterations_def Let_def split_beta flip: boundary_def finish_def)
  then show ?thesis
    using boundary le unfolding finish_def boundary_def window_def zone_def anchor_def Let_def by blast
qed

end
