(* ===== verification/Clips.thy ===== *)
theory Clips
  imports Seasonal LangCode
begin

text \<open>
  Filler clips and the boundaries they air inside: the catalogue's value model
  (\<^verbatim>\<open>internal/filler/clips/clip.go\<close>, \<^verbatim>\<open>internal/filler/clip.go\<close>), where a clip may be placed, and the three
  hard boundaries of a break, its geography (\<^verbatim>\<open>geography.go\<close>), its season (\<^verbatim>\<open>season.go\<close>) and its
  commercial language (\<^verbatim>\<open>language_boundary.go\<close>).

  The lemmas show that a fallback list never names the home country, that the home is the unique best
  region, and that a clip of unknown reach never airs behind a boundary.
\<close>

subsection \<open>The catalogue's values\<close>

datatype ClipKind =
  Unclassified | Commercial | Bumper | StationID | PSA | Trailer | Interstitial | Political | News | KindOther string

definition Kind_of_string :: "string \<Rightarrow> ClipKind" where
  "Kind_of_string k =
     (if k = ''unclassified'' then Unclassified else if k = ''commercial'' then Commercial
      else if k = ''bumper'' then Bumper else if k = ''station_id'' then StationID else if k = ''psa'' then PSA
      else if k = ''trailer'' then Trailer else if k = ''interstitial'' then Interstitial
      else if k = ''political'' then Political else if k = ''news'' then News else KindOther k)"

datatype Placement = PlacementUnset | PlacementNotPlayable | PlacementBreakBody | PlacementBookend | PlacementOther string

datatype ClipAudience = AudienceUntagged | Kids | Family | General | LateNight | AudienceOther string

datatype NameSource =
  NameFromSource | NameFromSidecar | NameFromGrounded | NameFromCurated | NameFromFilename | NameFromUnknown | NameUnrecorded

datatype GeographicScope = GeographicUnknown | GeographicNational | GeographicLocal | ScopeOther string

definition NameSource_Known :: "NameSource \<Rightarrow> bool" where
  "NameSource_Known s =
     (case s of NameFromSource \<Rightarrow> True | NameFromSidecar \<Rightarrow> True | NameFromGrounded \<Rightarrow> True | NameFromCurated \<Rightarrow> True
      | NameFromFilename \<Rightarrow> True | _ \<Rightarrow> False)"

definition ShownToViewers :: "NameSource \<Rightarrow> bool" where
  "ShownToViewers s \<longleftrightarrow> NameSource_Known s \<and> s \<noteq> NameFromFilename"

text \<open>The columns of a catalogue row that scheduling reads, or copies into a break's entry.\<close>

record Clip =
  cl_Hash :: string
  cl_Path :: string
  cl_TunarrProgramID :: string
  cl_Name :: string
  cl_NameSource :: NameSource
  cl_Kind :: ClipKind
  cl_Placement :: Placement
  cl_Era :: int
  cl_Audience :: ClipAudience
  cl_GeographicScope :: GeographicScope
  cl_Country :: string
  cl_Station :: string
  cl_Category :: string
  cl_Tags :: "string list"
  cl_AssertedTags :: "string list"
  cl_DurationMs :: int
  cl_Quality :: string
  cl_Language :: string
  cl_Brand :: string
  cl_VisibleText :: string
  cl_ParentHash :: string
  cl_Variants :: "string list"

definition IsSegment :: "Clip \<Rightarrow> bool" where
  "IsSegment c \<longleftrightarrow> cl_ParentHash c \<noteq> ''''"

definition Clip_ID :: "Clip \<Rightarrow> string" where
  "Clip_ID c = cl_Hash c"

definition Tagged :: "Clip \<Rightarrow> bool" where
  "Tagged c \<longleftrightarrow> cl_Era c > 0 \<and> cl_Audience c \<noteq> AudienceUntagged \<and> cl_Category c \<noteq> ''''"

definition NeedsDetails :: "Clip \<Rightarrow> bool" where
  "NeedsDetails c \<longleftrightarrow> cl_Kind c = Commercial \<and> \<not> Tagged c"

definition EffectivePlacement :: "Clip \<Rightarrow> Placement" where
  "EffectivePlacement c =
     (if cl_Placement c \<noteq> PlacementUnset then cl_Placement c
      else case cl_Kind c of
        Bumper \<Rightarrow> PlacementBookend | StationID \<Rightarrow> PlacementBookend
      | Commercial \<Rightarrow> PlacementBreakBody | PSA \<Rightarrow> PlacementBreakBody | Trailer \<Rightarrow> PlacementBreakBody
      | Interstitial \<Rightarrow> PlacementBreakBody | Political \<Rightarrow> PlacementBreakBody | News \<Rightarrow> PlacementBreakBody
      | _ \<Rightarrow> PlacementNotPlayable)"

definition IsBumper :: "Clip \<Rightarrow> bool" where
  "IsBumper c \<longleftrightarrow> EffectivePlacement c = PlacementBookend"

definition PlacementForRole :: "ClipKind \<Rightarrow> bool \<Rightarrow> bool \<Rightarrow> Placement" where
  "PlacementForRole kind enrolled composite =
     (if composite \<or> \<not> enrolled then PlacementNotPlayable
      else case kind of
        Bumper \<Rightarrow> PlacementBookend | StationID \<Rightarrow> PlacementBookend
      | KindOther k \<Rightarrow> PlacementNotPlayable | _ \<Rightarrow> PlacementBreakBody)"

definition AudienceFromString :: "string \<Rightarrow> ClipAudience" where
  "AudienceFromString s =
     (let s = to_lower s
      in if s = ''kids'' then Kids else if s = ''family'' then Family else if s = ''general'' then General
         else if s = ''late_night'' then LateNight else AudienceUntagged)"

text \<open>\<^verbatim>\<open>strings.FieldsFunc\<close> on everything but a lower-case letter: the maximal runs of letters.\<close>

fun letter_runs :: "string \<Rightarrow> string \<Rightarrow> string list" where
  "letter_runs run [] = (if run = [] then [] else [run])"
| "letter_runs run (c # cs) =
     (if 97 \<le> byte_of c \<and> byte_of c \<le> 122 then letter_runs (run @ [c]) cs
      else (if run = [] then [] else [run]) @ letter_runs [] cs)"

fun kind_of_tokens :: "string list \<Rightarrow> ClipKind" where
  "kind_of_tokens [] = Unclassified"
| "kind_of_tokens (t # ts) =
     (if t \<in> {''bumper'', ''bumpers''} then Bumper
      else if t \<in> {''ident'', ''idents''} then StationID
      else if t = ''station'' \<and> (case ts of [] \<Rightarrow> False | u # _ \<Rightarrow> u = ''id'' \<or> u = ''ident'') then StationID
      else if t \<in> {''psa'', ''psas''} then PSA
      else if t \<in> {''trailer'', ''trailers''} then Trailer
      else if t \<in> {''interstitial'', ''interstitials''} then Interstitial
      else if t \<in> {''commercial'', ''commercials'', ''advert'', ''adverts'', ''ad'', ''ads''} then Commercial
      else kind_of_tokens ts)"

definition KindFromName :: "string \<Rightarrow> ClipKind" where
  "KindFromName name = kind_of_tokens (letter_runs [] (to_lower name))"

text \<open>The first four bytes in a row that read as a year of the range.\<close>

fun EraFromName :: "string \<Rightarrow> int" where
  "EraFromName [] = 0"
| "EraFromName (c # cs) =
     (if length (c # cs) < 4 then 0
      else case atoi (take 4 (c # cs)) of
        Some y \<Rightarrow> if y \<ge> 1930 \<and> y \<le> 2035 then y else EraFromName cs
      | None \<Rightarrow> EraFromName cs)"

subsection \<open>Geography\<close>

record Geography =
  geo_Country :: string
  geo_Place :: string
  geo_Fallback :: string

definition no_geography :: Geography where
  "no_geography = \<lparr>geo_Country = '''', geo_Place = '''', geo_Fallback = ''''\<rparr>"

fun join_commas :: "string list \<Rightarrow> string" where
  "join_commas [] = ''''"
| "join_commas [c] = c"
| "join_commas (c # cs) = c @ CHR '','' # join_commas cs"

definition fallback_step :: "string \<Rightarrow> string list \<Rightarrow> string \<Rightarrow> string list" where
  "fallback_step home out c =
     (let c = to_upper (trim_space c)
      in if c \<noteq> '''' \<and> c \<noteq> home \<and> c \<notin> set out then out @ [c] else out)"

definition fallbackCountries :: "string \<Rightarrow> string \<Rightarrow> string list" where
  "fallbackCountries raw home = foldl (fallback_step home) [] (split_on (CHR '','') raw)"

definition Geography_Normalize :: "Geography \<Rightarrow> Geography" where
  "Geography_Normalize g =
     (let country = to_upper (trim_space (geo_Country g))
      in \<lparr>geo_Country = country, geo_Place = trim_space (geo_Place g),
          geo_Fallback = join_commas (fallbackCountries (geo_Fallback g) country)\<rparr>)"

definition fallsBackTo :: "Geography \<Rightarrow> string \<Rightarrow> bool" where
  "fallsBackTo g country \<longleftrightarrow> country \<noteq> '''' \<and> country \<in> set (fallbackCountries (geo_Fallback g) (geo_Country g))"

fun index_of :: "string \<Rightarrow> string list \<Rightarrow> nat option" where
  "index_of x [] = None"
| "index_of x (y # ys) = (if x = y then Some 0 else map_option Suc (index_of x ys))"

definition RegionRank :: "Geography \<Rightarrow> string \<Rightarrow> nat" where
  "RegionRank g country =
     (let home = to_upper (trim_space (geo_Country g));
          fallback = fallbackCountries (geo_Fallback g) home;
          country = to_upper (trim_space country)
      in if home = '''' \<or> country = home then 0
         else case index_of country fallback of Some i \<Rightarrow> i + 1 | None \<Rightarrow> length fallback + 1)"

datatype geography_error = PlaceNeedsCountry | BadCountry string

definition is_upper_letter :: "char \<Rightarrow> bool" where
  "is_upper_letter c \<longleftrightarrow> 65 \<le> byte_of c \<and> byte_of c \<le> 90"

definition Geography_Validate :: "Geography \<Rightarrow> geography_error option" where
  "Geography_Validate g =
     (let g = Geography_Normalize g
      in if geo_Country g = '''' then (if geo_Place g \<noteq> '''' then Some PlaceNeedsCountry else None)
         else if length (geo_Country g) \<noteq> 2 \<or> \<not> list_all is_upper_letter (geo_Country g) then Some (BadCountry (geo_Country g))
         else None)"

text \<open>
  \<^verbatim>\<open>LocalStations\<close> is the resolver of the installation's stations: the ids near a place, none when the
  place is unknown. \<open>None\<close> is the nil resolver.
\<close>

type_synonym LocalStations = "(string \<Rightarrow> string \<Rightarrow> string list) option"

record Area =
  ar_Country :: string
  ar_Fallback :: string
  ar_Stations :: "string list"

definition area_fallsBackTo :: "Area \<Rightarrow> string \<Rightarrow> bool" where
  "area_fallsBackTo a country =
     fallsBackTo \<lparr>geo_Country = ar_Country a, geo_Place = '''', geo_Fallback = ar_Fallback a\<rparr> country"

definition Geography_Resolve :: "Geography \<Rightarrow> LocalStations \<Rightarrow> Area" where
  "Geography_Resolve g local_stations =
     (let g = Geography_Normalize g
      in \<lparr>ar_Country = geo_Country g, ar_Fallback = geo_Fallback g,
          ar_Stations = (case local_stations of
             Some f \<Rightarrow> if geo_Country g \<noteq> '''' \<and> geo_Place g \<noteq> '''' then f (geo_Country g) (geo_Place g) else []
           | None \<Rightarrow> [])\<rparr>)"

definition GeographicallyEligible :: "Clip \<Rightarrow> Area \<Rightarrow> bool" where
  "GeographicallyEligible c target =
     (if ar_Country target = '''' then True
      else let country = to_upper (trim_space (cl_Country c))
           in case cl_GeographicScope c of
                GeographicNational \<Rightarrow> country = ar_Country target \<or> area_fallsBackTo target country
              | GeographicLocal \<Rightarrow> country = ar_Country target \<and> cl_Station c \<in> set (ar_Stations target)
              | _ \<Rightarrow> False)"

definition SourceGeographicallyEligible :: "Geography \<Rightarrow> Geography \<Rightarrow> bool" where
  "SourceGeographicallyEligible source target =
     (let target = Geography_Normalize target
      in if geo_Country target = '''' then True
         else let source = Geography_Normalize source
              in geo_Country source \<noteq> '''' \<and>
                 (geo_Country source = geo_Country target \<or> fallsBackTo target (geo_Country source)))"

definition effectiveGeography :: "Geography \<Rightarrow> Geography \<Rightarrow> Geography" where
  "effectiveGeography channel installation =
     (let channel = Geography_Normalize channel; installation = Geography_Normalize installation
      in if geo_Country channel = '''' then installation
         else let channel = channel\<lparr>geo_Fallback := geo_Fallback installation\<rparr>;
                  channel = (if geo_Place channel = '''' \<and> geo_Country channel = geo_Country installation
                             then channel\<lparr>geo_Place := geo_Place installation\<rparr> else channel)
              in Geography_Normalize channel)"

definition isStationSegment :: "Clip \<Rightarrow> bool" where
  "isStationSegment c \<longleftrightarrow> cl_GeographicScope c = GeographicLocal \<and> cl_Kind c \<noteq> Commercial"

definition stationSegmentKey :: string where
  "stationSegmentKey = CHR 0x00 # ''station-segment''"

text \<open>The clips a break holds back are a set of hashes.\<close>

definition taken :: "string set \<Rightarrow> Clip \<Rightarrow> bool" where
  "taken used c \<longleftrightarrow> Clip_ID c \<in> used \<or> isStationSegment c \<and> stationSegmentKey \<in> used"

definition filterGeography :: "Clip list \<Rightarrow> Area \<Rightarrow> Clip list" where
  "filterGeography clips target =
     (if ar_Country target = '''' then clips else filter (\<lambda>c. GeographicallyEligible c target) clips)"

definition UsableIn :: "Clip \<Rightarrow> Area list \<Rightarrow> bool" where
  "UsableIn c areas \<longleftrightarrow> areas = [] \<or> list_ex (GeographicallyEligible c) areas"

subsection \<open>The break, the policy and the season\<close>

record EraRange =
  er_From :: int
  er_To :: int

record Exposure =
  ex_PlayCount :: int
  ex_LastPlayedAt :: gotime

text \<open>A holiday season: the holidays with dates, and those of them in season (\<open>SeasonAt\<close>).\<close>

type_synonym HolidaySeason = "string list \<times> string list"

record BreakWindow =
  bw_Seed :: int
  bw_Era :: EraRange
  bw_EraWindows :: "EraRange list"
  bw_Audience :: ClipAudience
  bw_Geography :: Geography
  bw_Language :: string
  bw_GapMs :: int
  bw_PodMax :: int
  bw_Categories :: "string list"
  bw_Kinds :: "string list"
  bw_Pinned :: "string list"
  bw_Excluded :: "string list"
  bw_Exposures :: "string \<rightharpoonup> Exposure"
  bw_SnapshotAt :: gotime
  bw_Season :: HolidaySeason

record FillerPolicy =
  fp_Geography :: Geography
  fp_Language :: string
  fp_LocalStations :: LocalStations
  fp_MinClipMs :: int
  fp_MaxClipMs :: int
  fp_MinQualityHeight :: int
  fp_Cooldown :: duration

definition policy_area :: "FillerPolicy \<Rightarrow> Geography \<Rightarrow> Area" where
  "policy_area p channel = Geography_Resolve (effectiveGeography channel (fp_Geography p)) (fp_LocalStations p)"

definition UsableAreas :: "FillerPolicy \<Rightarrow> Geography list \<Rightarrow> Area list" where
  "UsableAreas p channels =
     (if geo_Country (Geography_Normalize (fp_Geography p)) = '''' then []
      else policy_area p no_geography # map (policy_area p) channels)"

fun season_of_tags :: "HolidaySeason \<Rightarrow> string list \<Rightarrow> bool \<Rightarrow> bool \<times> bool" where
  "season_of_tags s [] seasonal = (seasonal, False)"
| "season_of_tags s (tag # tags) seasonal =
     (if tag \<in> set (fst s)
      then if tag \<in> set (snd s) then (True, True) else season_of_tags s tags True
      else season_of_tags s tags seasonal)"

definition seasonOf :: "Clip \<Rightarrow> HolidaySeason \<Rightarrow> bool \<times> bool" where
  "seasonOf c s = season_of_tags s (cl_AssertedTags c) False"

definition outOfSeason :: "Clip \<Rightarrow> BreakWindow \<Rightarrow> bool" where
  "outOfSeason c w = (let (seasonal, in_season) = seasonOf c (bw_Season w) in seasonal \<and> \<not> in_season)"

definition inSeason :: "Clip \<Rightarrow> BreakWindow \<Rightarrow> bool" where
  "inSeason c w = snd (seasonOf c (bw_Season w))"

definition filterSeason :: "Clip list \<Rightarrow> BreakWindow \<Rightarrow> Clip list" where
  "filterSeason clips w = filter (\<lambda>c. \<not> outOfSeason c w) clips"

text \<open>A break's commercials so far, and its in-season ones, against the half.\<close>

record seasonShare =
  sh_in :: int
  sh_total :: int

definition admits :: "seasonShare \<Rightarrow> Clip \<Rightarrow> BreakWindow \<Rightarrow> bool" where
  "admits s c w =
     (if EffectivePlacement c \<noteq> PlacementBreakBody \<or> \<not> inSeason c w then True
      else sh_in s < max 1 ((sh_total s + 1) sdiv 2))"

definition share_add :: "seasonShare \<Rightarrow> Clip \<Rightarrow> BreakWindow \<Rightarrow> seasonShare" where
  "share_add s c w =
     (if EffectivePlacement c \<noteq> PlacementBreakBody then s
      else let s = s\<lparr>sh_total := sh_total s + 1\<rparr>
           in if inSeason c w then s\<lparr>sh_in := sh_in s + 1\<rparr> else s)"

subsection \<open>The commercial language\<close>

text \<open>\<^verbatim>\<open>LangUndetermined\<close> is the empty code and \<^verbatim>\<open>LangNone\<close> is \<^verbatim>\<open>none\<close>, a clip without speech.\<close>

definition commercialLanguage :: "(string \<Rightarrow> string option) \<Rightarrow> BreakWindow \<Rightarrow> FillerPolicy \<Rightarrow> string" where
  "commercialLanguage parse_base w policy =
     (let lang = lang_Normalize parse_base (bw_Language w)
      in if lang \<noteq> '''' then lang else lang_Normalize parse_base (fp_Language policy))"

definition speaksTheChannelsLanguage ::
  "(string \<Rightarrow> string option) \<Rightarrow> Clip \<Rightarrow> BreakWindow \<Rightarrow> FillerPolicy \<Rightarrow> bool" where
  "speaksTheChannelsLanguage parse_base c w policy =
     (let want = commercialLanguage parse_base w policy
      in if want = '''' then True
         else let got = lang_Normalize parse_base (cl_Language c)
              in if got = ''none'' then True
                 else if got = '''' then want = lang_Normalize parse_base (fp_Language policy)
                 else got = want)"

definition filterLanguage ::
  "(string \<Rightarrow> string option) \<Rightarrow> Clip list \<Rightarrow> BreakWindow \<Rightarrow> FillerPolicy \<Rightarrow> Clip list" where
  "filterLanguage parse_base clips w policy = filter (\<lambda>c. speaksTheChannelsLanguage parse_base c w policy) clips"

subsection \<open>What the boundaries keep\<close>

lemma fallbackCountries_props:
  "home \<notin> set (fallbackCountries raw home) \<and> '''' \<notin> set (fallbackCountries raw home) \<and> distinct (fallbackCountries raw home)"
proof -
  have "home \<notin> set out \<and> '''' \<notin> set out \<and> distinct out \<Longrightarrow>
      home \<notin> set (foldl (fallback_step home) out cs) \<and> '''' \<notin> set (foldl (fallback_step home) out cs) \<and>
      distinct (foldl (fallback_step home) out cs)" for out cs
  proof (induction cs arbitrary: out)
    case (Cons c cs)
    have "home \<notin> set (fallback_step home out c) \<and> '''' \<notin> set (fallback_step home out c) \<and> distinct (fallback_step home out c)"
      using Cons.prems by (auto simp: fallback_step_def Let_def)
    then show ?case using Cons.IH by simp
  qed simp
  then show ?thesis by (simp add: fallbackCountries_def)
qed

lemma RegionRank_home:
  "RegionRank g country = 0 \<longleftrightarrow>
     to_upper (trim_space (geo_Country g)) = '''' \<or> to_upper (trim_space country) = to_upper (trim_space (geo_Country g))"
  by (simp add: RegionRank_def Let_def split: option.split)

lemma unknown_reach:
  "cl_GeographicScope c = GeographicUnknown \<Longrightarrow> GeographicallyEligible c a \<longleftrightarrow> ar_Country a = ''''"
  by (simp add: GeographicallyEligible_def)

lemma local_reach:
  "GeographicallyEligible c a \<Longrightarrow> ar_Country a \<noteq> '''' \<Longrightarrow> cl_GeographicScope c = GeographicLocal \<Longrightarrow>
     cl_Station c \<in> set (ar_Stations a) \<and> to_upper (trim_space (cl_Country c)) = ar_Country a"
  by (simp add: GeographicallyEligible_def Let_def)

end
