(* ===== verification/Ladder.thy ===== *)
theory Ladder
  imports Clips Slotting
begin

text \<open>
  The fallback ladder of a break (\<^verbatim>\<open>internal/filler/ladder.go\<close>): the candidate pools from the tightest
  match to the loosest, rotation by the household's airings, and the fill that draws whole commercials
  from them.

  The lemmas show what every candidate satisfies, that the rungs nest, and that the fill places
  candidates only, none twice, within the gap, the ceiling and the in-season half.
\<close>

subsection \<open>Years\<close>

definition era_any :: "EraRange \<Rightarrow> bool" where
  "era_any r \<longleftrightarrow> er_From r \<le> 0 \<and> er_To r \<le> 0"

definition era_contains :: "EraRange \<Rightarrow> int \<Rightarrow> bool" where
  "era_contains r year =
     (if era_any r then True
      else if year \<le> 0 then False
      else if er_From r > 0 \<and> year < er_From r then False
      else if er_To r > 0 \<and> year > er_To r then False
      else True)"

definition era_Widened :: "EraRange \<Rightarrow> EraRange" where
  "era_Widened r =
     (if era_any r then r
      else let w = r; w = (if er_From w > 0 then w\<lparr>er_From := er_From w - 10\<rparr> else w)
           in if er_To w > 0 then w\<lparr>er_To := er_To w + 10\<rparr> else w)"

definition era_before :: "EraRange \<Rightarrow> EraRange \<Rightarrow> bool" where
  "era_before a b = (if er_From a = er_From b then er_To a < er_To b else er_From a < er_From b)"

fun merge_eras :: "EraRange \<Rightarrow> EraRange list \<Rightarrow> EraRange list" where
  "merge_eras current [] = [current]"
| "merge_eras current (r # rs) =
     (if er_From r > er_To current + 1 then current # merge_eras r rs
      else merge_eras (if er_To r > er_To current then current\<lparr>er_To := er_To r\<rparr> else current) rs)"

definition NormalizeEraWindows :: "EraRange list \<Rightarrow> EraRange list" where
  "NormalizeEraWindows windows =
     (if windows = [] then []
      else if list_ex era_any windows then [\<lparr>er_From = 0, er_To = 0\<rparr>]
      else case sort_by era_before windows of [] \<Rightarrow> [] | r # rs \<Rightarrow> merge_eras r rs)"

definition eraWindows :: "BreakWindow \<Rightarrow> EraRange list" where
  "eraWindows w = (if bw_EraWindows w \<noteq> [] then NormalizeEraWindows (bw_EraWindows w) else [bw_Era w])"

definition widenEraWindows :: "EraRange list \<Rightarrow> EraRange list" where
  "widenEraWindows windows = NormalizeEraWindows (map era_Widened windows)"

definition in_eras :: "EraRange list \<Rightarrow> Clip \<Rightarrow> bool" where
  "in_eras windows c \<longleftrightarrow> list_ex era_any windows \<or> list_ex (\<lambda>r. era_contains r (cl_Era c)) windows"

definition filterEraWindows :: "Clip list \<Rightarrow> EraRange list \<Rightarrow> Clip list" where
  "filterEraWindows clips windows = filter (in_eras windows) clips"

subsection \<open>The other filters\<close>

definition fits_audience :: "ClipAudience \<Rightarrow> Clip \<Rightarrow> bool" where
  "fits_audience aud c =
     (if aud = Kids then cl_Audience c = Kids \<or> cl_Audience c = Family
      else cl_Audience c = aud \<or> cl_Audience c = General)"

definition filterAudience :: "Clip list \<Rightarrow> ClipAudience \<Rightarrow> Clip list" where
  "filterAudience clips aud = (if aud = AudienceUntagged then clips else filter (fits_audience aud) clips)"

definition admitsUngroundedAudience :: "ClipAudience \<Rightarrow> bool" where
  "admitsUngroundedAudience aud \<longleftrightarrow> aud = General \<or> aud = LateNight"

definition filterAudienceWithUngrounded :: "Clip list \<Rightarrow> ClipAudience \<Rightarrow> Clip list" where
  "filterAudienceWithUngrounded clips aud =
     (if aud = AudienceUntagged \<or> \<not> admitsUngroundedAudience aud then filterAudience clips aud
      else filter (\<lambda>c. cl_Audience c = aud \<or> cl_Audience c = General \<or> cl_Audience c = AudienceUntagged) clips)"

definition defaultKinds :: "ClipKind list" where
  "defaultKinds = [Commercial, Bumper, StationID, PSA, Trailer, Interstitial]"

definition kind_allowed :: "string list \<Rightarrow> string list \<Rightarrow> Clip \<Rightarrow> bool" where
  "kind_allowed kinds local_stations c =
     (let allow = (if kinds = [] then defaultKinds else map Kind_of_string kinds)
      in if EffectivePlacement c = PlacementNotPlayable then False
         else if (kinds = [] \<and> cl_Kind c = Unclassified) \<or> (cl_Kind c \<in> set allow \<and> cl_Kind c \<noteq> Unclassified) then True
         else cl_Kind c = News \<and> cl_GeographicScope c = GeographicLocal \<and> cl_Station c \<in> set local_stations \<and>
              StationID \<in> set allow)"

definition filterKinds :: "Clip list \<Rightarrow> string list \<Rightarrow> string list \<Rightarrow> Clip list" where
  "filterKinds clips kinds local_stations = filter (kind_allowed kinds local_stations) clips"

definition in_categories :: "string list \<Rightarrow> Clip \<Rightarrow> bool" where
  "in_categories cats c \<longleftrightarrow> list_ex (\<lambda>tag. tag \<in> set cats) (cl_Tags c)"

definition filterCategories :: "Clip list \<Rightarrow> string list \<Rightarrow> Clip list" where
  "filterCategories clips cats = (if cats = [] then clips else filter (in_categories cats) clips)"

definition heightFromQuality :: "string \<Rightarrow> int" where
  "heightFromQuality label =
     (if label = ''4K'' then 2000 else if label = ''1080p'' then 1000 else if label = ''720p'' then 700
      else if label = ''480p'' then 460 else if label = ''360p'' then 340 else if label = ''240p'' then 1 else 0)"

definition qualityEligible :: "Clip \<Rightarrow> FillerPolicy \<Rightarrow> bool" where
  "qualityEligible c policy =
     (if fp_MinQualityHeight policy \<le> 0 then True
      else let h = heightFromQuality (cl_Quality c)
           in if h = 0 then True else h \<ge> fp_MinQualityHeight policy)"

definition durationEligible :: "Clip \<Rightarrow> FillerPolicy \<Rightarrow> bool" where
  "durationEligible c policy =
     (if fp_MinClipMs policy > 0 \<and> cl_DurationMs c < fp_MinClipMs policy then False
      else if fp_MaxClipMs policy > 0 \<and> cl_DurationMs c > fp_MaxClipMs policy then False
      else True)"

text \<open>\<^verbatim>\<open>sort.Slice\<close> by path, which is unique in a catalogue.\<close>

definition clip_path_before :: "Clip \<Rightarrow> Clip \<Rightarrow> bool" where
  "clip_path_before a b \<longleftrightarrow> \<not> string_less_eq (cl_Path b) (cl_Path a)"

definition sortByID :: "Clip list \<Rightarrow> Clip list" where
  "sortByID clips = sort_by clip_path_before clips"

subsection \<open>The pools\<close>

datatype MatchLevel = MatchNone | MatchExact | MatchWidened | MatchAudience | MatchBumperCard

definition body_eligible :: "FillerPolicy \<Rightarrow> Clip \<Rightarrow> bool" where
  "body_eligible policy c \<longleftrightarrow>
     EffectivePlacement c = PlacementBreakBody \<and> durationEligible c policy \<and> qualityEligible c policy"

definition candidatePools ::
  "(string \<Rightarrow> string option) \<Rightarrow> Clip list \<Rightarrow> BreakWindow \<Rightarrow> FillerPolicy \<Rightarrow> (MatchLevel \<times> Clip list) list" where
  "candidatePools parse_base catalog w policy =
     (let catalog = filterGeography catalog (policy_area policy (bw_Geography w));
          catalog = filterSeason catalog w;
          catalog = filterLanguage parse_base catalog w policy;
          body = filter (body_eligible policy) catalog;
          body = filterCategories body (bw_Categories w);
          audienceMatch = filterAudience body (bw_Audience w)
      in [(MatchExact, filterEraWindows audienceMatch (eraWindows w)),
          (MatchWidened, filterEraWindows audienceMatch (widenEraWindows (eraWindows w))),
          (MatchAudience, filterAudienceWithUngrounded body (bw_Audience w))])"

subsection \<open>Rotation\<close>

record clip_airing =
  ca_ChannelID :: string
  ca_ClipHash :: string
  ca_AiredAt :: gotime
  ca_RecordedAt :: gotime

record AiringHistory =
  ah_Airings :: "clip_airing list"
  ah_Settle :: duration

definition no_exposure :: Exposure where
  "no_exposure = \<lparr>ex_PlayCount = 0, ex_LastPlayedAt = 0\<rparr>"

definition exposure_of :: "(string \<rightharpoonup> Exposure) \<Rightarrow> string \<Rightarrow> Exposure" where
  "exposure_of exposures clip_id = (case exposures clip_id of Some e \<Rightarrow> e | None \<Rightarrow> no_exposure)"

definition exposure_step :: "duration \<Rightarrow> gotime \<Rightarrow> (string \<rightharpoonup> Exposure) \<Rightarrow> clip_airing \<Rightarrow> (string \<rightharpoonup> Exposure)" where
  "exposure_step settle cutoff out a =
     (if \<not> is_zero_time cutoff \<and> (\<not> ca_AiredAt a < cutoff \<or> \<not> ca_RecordedAt a < cutoff - settle) then out
      else let e = exposure_of out (ca_ClipHash a);
               e = e\<lparr>ex_PlayCount := ex_PlayCount e + 1\<rparr>;
               e = (if ca_AiredAt a > ex_LastPlayedAt e then e\<lparr>ex_LastPlayedAt := ca_AiredAt a\<rparr> else e)
           in out(ca_ClipHash a \<mapsto> e))"

definition ExposuresBefore :: "AiringHistory \<Rightarrow> gotime \<Rightarrow> (string \<rightharpoonup> Exposure)" where
  "ExposuresBefore h cutoff = foldl (exposure_step (ah_Settle h) cutoff) Map.empty (ah_Airings h)"

abbreviation rotationNever :: nat where "rotationNever \<equiv> 0"
abbreviation rotationReady :: nat where "rotationReady \<equiv> 1"
abbreviation rotationRecent :: nat where "rotationRecent \<equiv> 2"

definition variant_step :: "(string \<rightharpoonup> Exposure) \<Rightarrow> Exposure \<Rightarrow> string \<Rightarrow> Exposure" where
  "variant_step exposures exposure v =
     (let ve = exposure_of exposures v
      in if ex_PlayCount ve > 0
         then let exposure = exposure\<lparr>ex_PlayCount := ex_PlayCount exposure + ex_PlayCount ve\<rparr>
              in if ex_LastPlayedAt ve > ex_LastPlayedAt exposure
                 then exposure\<lparr>ex_LastPlayedAt := ex_LastPlayedAt ve\<rparr> else exposure
         else exposure)"

definition rotationRank :: "Clip \<Rightarrow> BreakWindow \<Rightarrow> FillerPolicy \<Rightarrow> nat \<times> gotime" where
  "rotationRank c w policy =
     (let exposure = foldl (variant_step (bw_Exposures w)) (exposure_of (bw_Exposures w) (Clip_ID c)) (cl_Variants c)
      in if ex_PlayCount exposure \<le> 0 \<or> is_zero_time (ex_LastPlayedAt exposure) then (rotationNever, 0)
         else if fp_Cooldown policy \<le> 0 \<or> is_zero_time (bw_SnapshotAt w) \<or>
                 \<not> ex_LastPlayedAt exposure > bw_SnapshotAt w - fp_Cooldown policy
              then (rotationReady, ex_LastPlayedAt exposure)
         else (rotationRecent, ex_LastPlayedAt exposure))"

definition rotationLess :: "BreakWindow \<Rightarrow> FillerPolicy \<Rightarrow> Clip \<Rightarrow> Clip \<Rightarrow> bool" where
  "rotationLess w policy a b =
     (let (ta, aa) = rotationRank a w policy; (tb, ba) = rotationRank b w policy
      in if ta \<noteq> tb then ta < tb
         else if aa \<noteq> ba then aa < ba
         else False)"

definition resting :: "Clip \<Rightarrow> BreakWindow \<Rightarrow> FillerPolicy \<Rightarrow> bool" where
  "resting c w policy \<longleftrightarrow> fst (rotationRank c w policy) = rotationRecent"

record rungClip =
  rc_Clip :: Clip
  rc_rung :: nat
  rc_region :: nat

text \<open>A rung is at most 2, so the bitwise or of the code is a sum.\<close>

definition ladderBand :: "BreakWindow \<Rightarrow> FillerPolicy \<Rightarrow> rungClip \<Rightarrow> nat" where
  "ladderBand w policy c = (if resting (rc_Clip c) w policy then 256 else 0) + rc_rung c"

definition ladderLess :: "BreakWindow \<Rightarrow> FillerPolicy \<Rightarrow> rungClip \<Rightarrow> rungClip \<Rightarrow> bool" where
  "ladderLess w policy a b =
     (if ladderBand w policy a \<noteq> ladderBand w policy b then ladderBand w policy a < ladderBand w policy b
      else if rc_region a \<noteq> rc_region b then rc_region a < rc_region b
      else rotationLess w policy (rc_Clip a) (rc_Clip b))"

text \<open>A clip, or another version of its ad, is already in the pod.\<close>

definition pod_contains :: "Clip list \<Rightarrow> string \<Rightarrow> bool" where
  "pod_contains out clip_id \<longleftrightarrow> list_ex (\<lambda>c. Clip_ID c = clip_id \<or> clip_id \<in> set (cl_Variants c)) out"

subsection \<open>The seeded source of a break's choices\<close>

text \<open>
  \<^verbatim>\<open>math/rand\<close>'s source is threaded through a break. It is a parameter: from a state and a bound, an index
  and the next state. An index is reduced to its bound, so that any function is a source. \<^verbatim>\<open>Shuffle\<close> swaps
  each position from the last down to 1 with an index drawn at or below it.
\<close>

type_synonym 'g source = "'g \<Rightarrow> nat \<Rightarrow> nat \<times> 'g"

definition draw_index :: "'g source \<Rightarrow> nat \<Rightarrow> 'g \<Rightarrow> nat \<times> 'g" where
  "draw_index rng n g = (let (i, g) = rng g n in (i mod n, g))"

fun shuffle_down :: "'g source \<Rightarrow> nat \<Rightarrow> 'a list \<Rightarrow> 'g \<Rightarrow> 'a list \<times> 'g" where
  "shuffle_down rng 0 xs g = (xs, g)"
| "shuffle_down rng (Suc i) xs g =
     (let (j, g) = draw_index rng (i + 2) g in shuffle_down rng i (swap_at (Suc i) j xs) g)"

definition rng_Shuffle :: "'g source \<Rightarrow> 'a list \<Rightarrow> 'g \<Rightarrow> 'a list \<times> 'g" where
  "rng_Shuffle rng xs g = shuffle_down rng (length xs - 1) xs g"

subsection \<open>Filling with commercials\<close>

text \<open>The clips of a pool that are neither taken nor seen in a tighter one, and what has been seen.\<close>

fun fresh_clips :: "string set \<Rightarrow> Clip list \<Rightarrow> string set \<Rightarrow> Clip list \<times> string set" where
  "fresh_clips used [] seen = ([], seen)"
| "fresh_clips used (c # cs) seen =
     (if taken used c \<or> Clip_ID c \<in> seen then fresh_clips used cs seen
      else let (out, seen) = fresh_clips used cs (insert (Clip_ID c) seen) in (c # out, seen))"

fun pool_candidates :: "string set \<Rightarrow> nat \<Rightarrow> (MatchLevel \<times> Clip list) list \<Rightarrow> string set \<Rightarrow> (Clip \<times> nat) list \<times> string set" where
  "pool_candidates used rung [] seen = ([], seen)"
| "pool_candidates used rung (p # ps) seen =
     (let (fresh, seen) = fresh_clips used (sortByID (snd p)) seen;
          (later, seen) = pool_candidates used (rung + 1) ps seen
      in (map (\<lambda>c. (c, rung)) fresh @ later, seen))"

record fill_state =
  fi_out :: "Clip list"
  fi_totalMs :: int
  fi_loosest :: int
  fi_lastCat :: string
  fi_segment :: bool
  fi_share :: seasonShare

definition fill_skips :: "BreakWindow \<Rightarrow> int \<Rightarrow> string set \<Rightarrow> bool \<Rightarrow> fill_state \<Rightarrow> Clip \<Rightarrow> bool" where
  "fill_skips w budget used allowRepeat st c \<longleftrightarrow>
     (Clip_ID c \<in> used \<or> pod_contains (fi_out st) (Clip_ID c) \<or> fi_segment st \<and> isStationSegment c) \<or>
     (\<not> allowRepeat \<and> cl_Category c \<noteq> '''' \<and> cl_Category c = fi_lastCat st) \<or>
     fi_totalMs st + cl_DurationMs c > budget \<or>
     \<not> admits (fi_share st) c w"

definition fill_add :: "BreakWindow \<Rightarrow> rungClip \<Rightarrow> fill_state \<Rightarrow> fill_state" where
  "fill_add w r st =
     (let c = rc_Clip r
      in \<lparr>fi_out = fi_out st @ [c], fi_totalMs = fi_totalMs st + cl_DurationMs c,
          fi_loosest = (if int (rc_rung r) > fi_loosest st then int (rc_rung r) else fi_loosest st),
          fi_lastCat = cl_Category c, fi_segment = (fi_segment st \<or> isStationSegment c),
          fi_share = share_add (fi_share st) c w\<rparr>)"

fun place_band :: "BreakWindow \<Rightarrow> int \<Rightarrow> int \<Rightarrow> string set \<Rightarrow> bool \<Rightarrow> rungClip list \<Rightarrow> fill_state \<Rightarrow> fill_state" where
  "place_band w budget podMax used allowRepeat [] st = st"
| "place_band w budget podMax used allowRepeat (r # rs) st =
     (if int (length (fi_out st)) \<ge> podMax then st
      else if fill_skips w budget used allowRepeat st (rc_Clip r) then place_band w budget podMax used allowRepeat rs st
      else place_band w budget podMax used allowRepeat rs (fill_add w r st))"

function fill_bands :: "BreakWindow \<Rightarrow> FillerPolicy \<Rightarrow> int \<Rightarrow> int \<Rightarrow> string set \<Rightarrow> rungClip list \<Rightarrow> fill_state \<Rightarrow> fill_state" where
  "fill_bands w policy budget podMax used [] st = st"
| "fill_bands w policy budget podMax used (r # rs) st =
     (if \<not> int (length (fi_out st)) < podMax then st
      else let same = (\<lambda>s. ladderBand w policy s = ladderBand w policy r);
               band = r # takeWhile same rs;
               st = place_band w budget podMax used False band st;
               st = (if int (length (fi_out st)) < podMax then place_band w budget podMax used True band st else st)
           in fill_bands w policy budget podMax used (dropWhile same rs) st)"
  by pat_completeness auto
termination
  by (relation "measure (\<lambda>(_, _, _, _, _, rs, _). length rs)") (auto simp: less_Suc_eq_le length_dropWhile_le)

text \<open>The guaranteed in-season commercial: the first rested one that fits goes to the front.\<close>

definition lead_first :: "BreakWindow \<Rightarrow> FillerPolicy \<Rightarrow> int \<Rightarrow> seasonShare \<Rightarrow> rungClip list \<Rightarrow> rungClip list \<times> string" where
  "lead_first w policy budget share cands =
     (if sh_in share \<noteq> 0 then (cands, '''')
      else let wanted = (\<lambda>r. inSeason (rc_Clip r) w \<and> \<not> resting (rc_Clip r) w policy \<and> cl_DurationMs (rc_Clip r) \<le> budget)
           in case dropWhile (\<lambda>r. \<not> wanted r) cands of
                [] \<Rightarrow> (cands, '''')
              | r # rest \<Rightarrow> (r # takeWhile (\<lambda>r. \<not> wanted r) cands @ rest, Clip_ID (rc_Clip r)))"

definition placeLead :: "'g source \<Rightarrow> Clip list \<Rightarrow> string \<Rightarrow> 'g \<Rightarrow> Clip list \<times> 'g" where
  "placeLead rng out lead g =
     (case out of
        [] \<Rightarrow> (out, g)
      | c # rest \<Rightarrow>
          if lead = '''' \<or> length out < 2 \<or> Clip_ID c \<noteq> lead then (out, g)
          else let clash = (\<lambda>other. cl_Category c \<noteq> '''' \<and> cl_Category other = cl_Category c);
                   free = filter (\<lambda>i. (i = 0 \<or> \<not> clash (rest ! (i - 1))) \<and> (i = length rest \<or> \<not> clash (rest ! i)))
                            [0..<length rest + 1]
               in if free = [] then (out, g)
                  else let (k, g) = draw_index rng (length free) g
                       in (take (free ! k) rest @ c # drop (free ! k) rest, g))"

definition fillCommercials ::
  "'g source \<Rightarrow> (MatchLevel \<times> Clip list) list \<Rightarrow> BreakWindow \<Rightarrow> FillerPolicy \<Rightarrow> string set \<Rightarrow> seasonShare \<Rightarrow> 'g \<Rightarrow>
   MatchLevel \<times> Clip list \<times> seasonShare \<times> 'g" where
  "fillCommercials rng pools w policy used share g =
     (let budget = bw_GapMs w;
          podMax = (if bw_PodMax w \<le> 0 then 4 else bw_PodMax w);
          home = effectiveGeography (bw_Geography w) (fp_Geography policy);
          cands = map (\<lambda>(c, rung). \<lparr>rc_Clip = c, rc_rung = rung, rc_region = RegionRank home (cl_Country c)\<rparr>)
                    (fst (pool_candidates used 0 pools {}))
      in if cands = [] then (MatchNone, [], share, g)
         else let (cands, g) = rng_Shuffle rng cands g;
                  cands = sort_by (ladderLess w policy) cands;
                  (cands, lead) = lead_first w policy budget share cands;
                  st = fill_bands w policy budget podMax used cands
                         \<lparr>fi_out = [], fi_totalMs = 0, fi_loosest = -1, fi_lastCat = '''', fi_segment = False, fi_share = share\<rparr>
              in if fi_out st = [] then (MatchNone, [], fi_share st, g)
                 else let (out, g) = placeLead rng (fi_out st) lead g
                      in (fst (pools ! nat (fi_loosest st)), out, fi_share st, g))"

subsection \<open>Where the candidates come from\<close>

lemma set_sortByID [simp]: "set (sortByID clips) = set clips"
  by (simp add: sortByID_def)

lemma fresh_clips_props:
  assumes "fresh_clips used cs seen = (out, seen')"
  shows "set out \<subseteq> set cs" and "\<forall>c\<in>set out. \<not> taken used c \<and> Clip_ID c \<notin> seen"
    and "distinct (map Clip_ID out)" and "seen' = seen \<union> Clip_ID ` set out"
proof -
  have "set out \<subseteq> set cs \<and> (\<forall>c\<in>set out. \<not> taken used c \<and> Clip_ID c \<notin> seen) \<and> distinct (map Clip_ID out) \<and>
      seen' = seen \<union> Clip_ID ` set out"
    using assms
  proof (induction used cs seen arbitrary: out seen' rule: fresh_clips.induct)
    case (2 used c cs seen)
    show ?case
    proof (cases "taken used c \<or> Clip_ID c \<in> seen")
      case True
      then have "fresh_clips used cs seen = (out, seen')" using "2.prems" by simp
      from "2.IH"(1) [OF True this] show ?thesis by (simp add: subset_insertI2)
    next
      case False
      obtain rest seen1 where rest: "fresh_clips used cs (insert (Clip_ID c) seen) = (rest, seen1)" by fastforce
      then have out: "out = c # rest" "seen' = seen1" using "2.prems" False by auto
      have "set rest \<subseteq> set cs" "\<forall>d\<in>set rest. \<not> taken used d \<and> Clip_ID d \<noteq> Clip_ID c \<and> Clip_ID d \<notin> seen"
          "distinct (map Clip_ID rest)" "seen1 = insert (Clip_ID c) seen \<union> Clip_ID ` set rest"
        using "2.IH"(2) [OF False rest] by simp_all
      then show ?thesis unfolding out using False by auto
    qed
  qed auto
  then show "set out \<subseteq> set cs" "\<forall>c\<in>set out. \<not> taken used c \<and> Clip_ID c \<notin> seen"
    "distinct (map Clip_ID out)" "seen' = seen \<union> Clip_ID ` set out" by blast+
qed

lemma pool_candidates_props:
  assumes "pool_candidates used rung pools seen = (out, seen')"
  shows "\<forall>(c, k)\<in>set out. rung \<le> k \<and> k < rung + length pools \<and> c \<in> set (snd (pools ! (k - rung))) \<and> \<not> taken used c"
    and "distinct (map (Clip_ID \<circ> fst) out)" and "\<forall>(c, k)\<in>set out. Clip_ID c \<notin> seen"
    and "seen' = seen \<union> (Clip_ID \<circ> fst) ` set out"
proof -
  have "(\<forall>(c, k)\<in>set out. rung \<le> k \<and> k < rung + length pools \<and> c \<in> set (snd (pools ! (k - rung))) \<and> \<not> taken used c) \<and>
      distinct (map (Clip_ID \<circ> fst) out) \<and> (\<forall>(c, k)\<in>set out. Clip_ID c \<notin> seen) \<and>
      seen' = seen \<union> (Clip_ID \<circ> fst) ` set out"
    using assms
  proof (induction used rung pools seen arbitrary: out seen' rule: pool_candidates.induct)
    case (2 used rung p ps seen)
    obtain fresh seen1 where fresh: "fresh_clips used (sortByID (snd p)) seen = (fresh, seen1)" by fastforce
    obtain later seen2 where later: "pool_candidates used (rung + 1) ps seen1 = (later, seen2)" by fastforce
    note f = fresh_clips_props [OF fresh]
    note l = "2.IH" [OF fresh [symmetric] refl later]
    have out: "out = map (\<lambda>c. (c, rung)) fresh @ later" "seen' = seen2"
      using "2.prems" fresh later by auto
    have out_cases: "(c, k) \<in> set out \<longleftrightarrow> c \<in> set fresh \<and> k = rung \<or> (c, k) \<in> set later" for c k
      by (auto simp: out)
    have ids: "(Clip_ID \<circ> fst) ` set out = Clip_ID ` set fresh \<union> (Clip_ID \<circ> fst) ` set later"
      by (simp add: out image_Un image_image)
    have later_props: "rung \<le> k \<and> k < rung + length (p # ps) \<and> c \<in> set (snd ((p # ps) ! (k - rung))) \<and> \<not> taken used c"
      if "(c, k) \<in> set later" for c k
    proof -
      have "rung + 1 \<le> k \<and> k < rung + 1 + length ps \<and> c \<in> set (snd (ps ! (k - (rung + 1)))) \<and> \<not> taken used c"
        using l that by blast
      moreover from this have "k - rung = Suc (k - (rung + 1))" by (simp only: Suc_eq_plus1) linarith
      ultimately show ?thesis by simp
    qed
    moreover have "distinct (map (Clip_ID \<circ> fst) out)"
    proof -
      have "Clip_ID (fst q) \<notin> seen1" if "q \<in> set later" for q using l that by (cases q) auto
      then have "Clip_ID ` set fresh \<inter> (Clip_ID \<circ> fst) ` set later = {}" unfolding f(4) by (fastforce simp: image_iff)
      then show ?thesis using l f(3) by (simp add: out comp_def image_image)
    qed
    moreover have "\<forall>(c, k)\<in>set out. rung \<le> k \<and> k < rung + length (p # ps) \<and> c \<in> set (snd ((p # ps) ! (k - rung))) \<and> \<not> taken used c"
    proof clarify
      fix c k assume "(c, k) \<in> set out"
      then consider "c \<in> set fresh" "k = rung" | "(c, k) \<in> set later" using out_cases by blast
      then show "rung \<le> k \<and> k < rung + length (p # ps) \<and> c \<in> set (snd ((p # ps) ! (k - rung))) \<and> \<not> taken used c"
        using later_props f(1,2) by cases auto
    qed
    moreover have "\<forall>(c, k)\<in>set out. Clip_ID c \<notin> seen"
    proof clarify
      fix c k assume "(c, k) \<in> set out" "Clip_ID c \<in> seen"
      then show False using out_cases f(2,4) l by blast
    qed
    moreover have "seen' = seen \<union> (Clip_ID \<circ> fst) ` set out"
      unfolding ids using l f(4) out(2) by (simp add: Un_assoc)
    ultimately show ?case by blast
  qed simp
  then show "\<forall>(c, k)\<in>set out. rung \<le> k \<and> k < rung + length pools \<and> c \<in> set (snd (pools ! (k - rung))) \<and> \<not> taken used c"
    "distinct (map (Clip_ID \<circ> fst) out)" "\<forall>(c, k)\<in>set out. Clip_ID c \<notin> seen"
    "seen' = seen \<union> (Clip_ID \<circ> fst) ` set out" by blast+
qed

text \<open>What every candidate of every rung satisfies: the loosest rung's rule.\<close>

definition bottom_audience :: "ClipAudience \<Rightarrow> Clip \<Rightarrow> bool" where
  "bottom_audience aud c \<longleftrightarrow>
     aud = AudienceUntagged \<or> fits_audience aud c \<or> admitsUngroundedAudience aud \<and> cl_Audience c = AudienceUntagged"

definition ladder_admits :: "(string \<Rightarrow> string option) \<Rightarrow> BreakWindow \<Rightarrow> FillerPolicy \<Rightarrow> Clip \<Rightarrow> bool" where
  "ladder_admits parse_base w policy c \<longleftrightarrow>
     GeographicallyEligible c (policy_area policy (bw_Geography w)) \<and> \<not> outOfSeason c w \<and>
     speaksTheChannelsLanguage parse_base c w policy \<and> body_eligible policy c \<and>
     (bw_Categories w \<noteq> [] \<longrightarrow> in_categories (bw_Categories w) c) \<and> bottom_audience (bw_Audience w) c"

lemma set_filterGeography: "set (filterGeography clips a) = {c \<in> set clips. GeographicallyEligible c a}"
  by (auto simp: filterGeography_def GeographicallyEligible_def)

lemma set_filterCategories: "set (filterCategories clips cats) = {c \<in> set clips. cats \<noteq> [] \<longrightarrow> in_categories cats c}"
  by (auto simp: filterCategories_def)

lemma set_filterAudience: "set (filterAudience clips aud) = {c \<in> set clips. aud \<noteq> AudienceUntagged \<longrightarrow> fits_audience aud c}"
  by (auto simp: filterAudience_def)

lemma set_filterAudienceWithUngrounded:
  "set (filterAudienceWithUngrounded clips aud) = {c \<in> set clips. bottom_audience aud c}"
  by (auto simp: filterAudienceWithUngrounded_def set_filterAudience bottom_audience_def admitsUngroundedAudience_def fits_audience_def)

lemma set_filterEraWindows: "set (filterEraWindows clips windows) = {c \<in> set clips. in_eras windows c}"
  by (auto simp: filterEraWindows_def)

text \<open>The clips that pass everything but the years, on the strict audience rule.\<close>

definition strict_admits :: "(string \<Rightarrow> string option) \<Rightarrow> BreakWindow \<Rightarrow> FillerPolicy \<Rightarrow> Clip \<Rightarrow> bool" where
  "strict_admits parse_base w policy c \<longleftrightarrow>
     ladder_admits parse_base w policy c \<and> (bw_Audience w \<noteq> AudienceUntagged \<longrightarrow> fits_audience (bw_Audience w) c)"

lemma candidatePools_sets:
  "map (\<lambda>p. (fst p, set (snd p))) (candidatePools parse_base catalog w policy) =
     [(MatchExact, {c \<in> set catalog. strict_admits parse_base w policy c \<and> in_eras (eraWindows w) c}),
      (MatchWidened, {c \<in> set catalog. strict_admits parse_base w policy c \<and> in_eras (widenEraWindows (eraWindows w)) c}),
      (MatchAudience, {c \<in> set catalog. ladder_admits parse_base w policy c})]"
  by (auto simp: candidatePools_def Let_def set_filterEraWindows set_filterAudienceWithUngrounded set_filterAudience
      set_filterCategories set_filterGeography filterSeason_def filterLanguage_def strict_admits_def ladder_admits_def
      bottom_audience_def)

lemma candidatePools_length [simp]: "length (candidatePools parse_base catalog w policy) = 3"
  by (simp add: candidatePools_def Let_def)

lemma candidatePools_admits:
  assumes "k < 3" and "c \<in> set (snd (candidatePools parse_base catalog w policy ! k))"
  shows "c \<in> set catalog \<and> ladder_admits parse_base w policy c"
proof -
  have "(fst (candidatePools parse_base catalog w policy ! k), set (snd (candidatePools parse_base catalog w policy ! k))) =
      map (\<lambda>p. (fst p, set (snd p))) (candidatePools parse_base catalog w policy) ! k"
    using assms(1) by simp
  also have "\<dots> = [(MatchExact, {c \<in> set catalog. strict_admits parse_base w policy c \<and> in_eras (eraWindows w) c}),
      (MatchWidened, {c \<in> set catalog. strict_admits parse_base w policy c \<and> in_eras (widenEraWindows (eraWindows w)) c}),
      (MatchAudience, {c \<in> set catalog. ladder_admits parse_base w policy c})] ! k"
    by (simp only: candidatePools_sets)
  finally show ?thesis
    using assms by (auto simp: numeral_3_eq_3 less_Suc_eq strict_admits_def)
qed

lemma candidatePools_GapMs [simp]:
  "candidatePools parse_base catalog (w\<lparr>bw_GapMs := gap\<rparr>) policy = candidatePools parse_base catalog w policy"
proof -
  have "eraWindows (w\<lparr>bw_GapMs := gap\<rparr>) = eraWindows w" by (simp add: eraWindows_def)
  moreover have "filterSeason cs (w\<lparr>bw_GapMs := gap\<rparr>) = filterSeason cs w" for cs
    by (simp add: filterSeason_def outOfSeason_def)
  moreover have "filterLanguage parse_base cs (w\<lparr>bw_GapMs := gap\<rparr>) policy = filterLanguage parse_base cs w policy" for cs
    by (simp add: filterLanguage_def speaksTheChannelsLanguage_def commercialLanguage_def cong: filter_cong)
  moreover have "bw_Geography (w\<lparr>bw_GapMs := gap\<rparr>) = bw_Geography w" "bw_Categories (w\<lparr>bw_GapMs := gap\<rparr>) = bw_Categories w"
      "bw_Audience (w\<lparr>bw_GapMs := gap\<rparr>) = bw_Audience w" by simp_all
  ultimately show ?thesis unfolding candidatePools_def by (simp only:)
qed

subsection \<open>The fill\<close>

lemma mset_shuffle_down: "mset (fst (shuffle_down rng i xs g)) = mset xs"
  by (induction rng i xs g rule: shuffle_down.induct) (simp_all split: prod.split)

lemma mset_rng_Shuffle [simp]: "mset (fst (rng_Shuffle rng xs g)) = mset xs"
  by (simp add: rng_Shuffle_def mset_shuffle_down)

lemma set_rng_Shuffle: "rng_Shuffle rng xs g = (ys, g') \<Longrightarrow> set ys = set xs"
  by (metis fst_conv mset_rng_Shuffle set_mset_mset)

text \<open>What a fill keeps, if adding a candidate that is not skipped keeps it.\<close>

lemma place_band_keeps:
  assumes step: "\<And>st r. I st \<Longrightarrow> r \<in> set cands \<Longrightarrow> int (length (fi_out st)) < podMax \<Longrightarrow>
      \<not> fill_skips w budget used True st (rc_Clip r) \<Longrightarrow> I (fill_add w r st)"
  shows "I st \<Longrightarrow> set rs \<subseteq> set cands \<Longrightarrow> I (place_band w budget podMax used allowRepeat rs st)"
proof (induction rs arbitrary: st)
  case (Cons r rs)
  have "\<not> fill_skips w budget used allowRepeat st (rc_Clip r) \<Longrightarrow> \<not> fill_skips w budget used True st (rc_Clip r)"
    by (simp add: fill_skips_def)
  then show ?case using Cons step by simp
qed simp

lemma fill_bands_keeps:
  assumes step: "\<And>st r. I st \<Longrightarrow> r \<in> set cands \<Longrightarrow> int (length (fi_out st)) < podMax \<Longrightarrow>
      \<not> fill_skips w budget used True st (rc_Clip r) \<Longrightarrow> I (fill_add w r st)"
  shows "I st \<Longrightarrow> set rs \<subseteq> set cands \<Longrightarrow> I (fill_bands w policy budget podMax used rs st)"
proof (induction rs arbitrary: st rule: length_induct)
  case (1 rs)
  show ?case
  proof (cases rs)
    case (Cons r rest)
    let ?same = "\<lambda>s. ladderBand w policy s = ladderBand w policy r"
    have band: "set (r # takeWhile ?same rest) \<subseteq> set cands" using "1.prems" Cons by (auto dest: set_takeWhileD)
    have later: "set (dropWhile ?same rest) \<subseteq> set cands" using "1.prems" Cons by (auto dest: set_dropWhileD)
    have "length (dropWhile ?same rest) < length rs" using Cons by (simp add: less_Suc_eq_le length_dropWhile_le)
    then have "I st' \<Longrightarrow> I (fill_bands w policy budget podMax used (dropWhile ?same rest) st')" for st'
      using "1.IH" later by blast
    moreover have "I st' \<Longrightarrow> I (place_band w budget podMax used repeat (r # takeWhile ?same rest) st')" for st' repeat
      using place_band_keeps [where I = I, OF step _ band] by blast
    ultimately show ?thesis using Cons "1.prems"(1) by (simp add: Let_def del: place_band.simps)
  qed (use "1.prems" in simp)
qed

text \<open>Two clips that may follow one another in a break: not the same clip, nor two versions of one ad.\<close>

definition apart :: "Clip \<Rightarrow> Clip \<Rightarrow> bool" where
  "apart a b \<longleftrightarrow> Clip_ID a \<noteq> Clip_ID b \<and> Clip_ID b \<notin> set (cl_Variants a)"

lemma pod_contains_apart: "\<not> pod_contains out i \<longleftrightarrow> (\<forall>c\<in>set out. Clip_ID c \<noteq> i \<and> i \<notin> set (cl_Variants c))"
  by (auto simp: pod_contains_def list_ex_iff)

abbreviation clips_ms :: "Clip list \<Rightarrow> int" where
  "clips_ms cs \<equiv> (\<Sum>c\<leftarrow>cs. cl_DurationMs c)"

definition fill_inv :: "BreakWindow \<Rightarrow> int \<Rightarrow> int \<Rightarrow> string set \<Rightarrow> rungClip list \<Rightarrow> seasonShare \<Rightarrow> fill_state \<Rightarrow> bool" where
  "fill_inv w budget podMax used cands share st \<longleftrightarrow>
     set (fi_out st) \<subseteq> rc_Clip ` set cands \<and> sorted_wrt apart (fi_out st) \<and> (\<forall>c\<in>set (fi_out st). Clip_ID c \<notin> used) \<and>
     fi_totalMs st = clips_ms (fi_out st) \<and> (fi_out st \<noteq> [] \<longrightarrow> fi_totalMs st \<le> budget \<and> int (length (fi_out st)) \<le> podMax) \<and>
     (fi_segment st \<longleftrightarrow> list_ex isStationSegment (fi_out st)) \<and> length (filter isStationSegment (fi_out st)) \<le> 1 \<and>
     fi_share st = foldl (\<lambda>s c. share_add s c w) share (fi_out st) \<and>
     (fi_out st \<noteq> [] \<longrightarrow> fi_loosest st \<in> int ` rc_rung ` set cands)"

lemma fill_inv_add:
  assumes "fill_inv w budget podMax used cands share st" and "r \<in> set cands" and "int (length (fi_out st)) < podMax"
    and "\<not> fill_skips w budget used True st (rc_Clip r)" and "fi_out st = [] \<longrightarrow> fi_loosest st = -1"
  shows "fill_inv w budget podMax used cands share (fill_add w r st)"
proof -
  have "\<not> list_ex isStationSegment (fi_out st) \<or> \<not> isStationSegment (rc_Clip r)"
    using assms(1,4) by (simp add: fill_inv_def fill_skips_def)
  then have "length (filter isStationSegment (fi_out st @ [rc_Clip r])) \<le> 1"
    using assms(1) by (auto simp: fill_inv_def list_ex_iff filter_empty_conv)
  then show ?thesis
    using assms
    by (auto simp: fill_inv_def fill_add_def fill_skips_def Let_def sorted_wrt_append apart_def pod_contains_apart)
qed

lemma fill_bands_inv:
  assumes "fill_inv w budget podMax used cands share st" and "fi_out st = [] \<longrightarrow> fi_loosest st = -1" and "set rs \<subseteq> set cands"
  shows "fill_inv w budget podMax used cands share (fill_bands w policy budget podMax used rs st)"
proof -
  let ?I = "\<lambda>st. fill_inv w budget podMax used cands share st \<and> (fi_out st = [] \<longrightarrow> fi_loosest st = -1)"
  have "?I (fill_add w r st)"
    if "?I st" "r \<in> set cands" "int (length (fi_out st)) < podMax" "\<not> fill_skips w budget used True st (rc_Clip r)" for st r
    using fill_inv_add that by (simp add: fill_add_def Let_def)
  from fill_bands_keeps [where I = ?I, OF this] assms show ?thesis by blast
qed

lemma lead_first_set:
  assumes "lead_first w policy budget share cands = (ys, lead)"
  shows "set ys = set cands"
proof -
  let ?other = "\<lambda>r. \<not> (inSeason (rc_Clip r) w \<and> \<not> resting (rc_Clip r) w policy \<and> cl_DurationMs (rc_Clip r) \<le> budget)"
  have sets: "set cands = set (takeWhile ?other cands) \<union> set (dropWhile ?other cands)"
    by (metis set_append takeWhile_dropWhile_id)
  show ?thesis
  proof (cases "sh_in share \<noteq> 0 \<or> dropWhile ?other cands = []")
    case True
    then have "ys = cands" using assms unfolding lead_first_def Let_def
      by (elim disjE) (simp_all only: if_True if_False list.case prod.inject simp_thms split: if_split_asm)
    then show ?thesis by simp
  next
    case False
    then obtain r rest where r: "dropWhile ?other cands = r # rest" by (meson list.exhaust)
    then have "ys = r # takeWhile ?other cands @ rest" using assms False by (simp add: lead_first_def Let_def)
    then show ?thesis unfolding sets r by auto
  qed
qed

lemma placeLead_mset:
  assumes "placeLead rng out lead g = (out', g')"
  shows "mset out' = mset out"
proof -
  have "mset (take k rest @ c # drop k rest) = mset (c # rest)" for k rest and c :: Clip
    by (metis append_take_drop_id mset.simps(2) mset_append union_mset_add_mset_right)
  note insert_anywhere = this
  show ?thesis
  proof (cases out)
    case (Cons c rest)
    have "out' = out \<or> (\<exists>k. out' = take k rest @ c # drop k rest)"
      using assms unfolding Cons placeLead_def Let_def by (auto split: if_split_asm prod.splits)
    then show ?thesis using insert_anywhere Cons by auto
  qed (use assms in \<open>simp add: placeLead_def\<close>)
qed

text \<open>What the fill returns: nothing, or the clips of a state its bands reach, in some order.\<close>

definition fill_start :: "seasonShare \<Rightarrow> fill_state" where
  "fill_start share =
     \<lparr>fi_out = [], fi_totalMs = 0, fi_loosest = -1, fi_lastCat = [], fi_segment = False, fi_share = share\<rparr>"

abbreviation fill_ceiling :: "BreakWindow \<Rightarrow> int" where
  "fill_ceiling w \<equiv> (if bw_PodMax w \<le> 0 then 4 else bw_PodMax w)"

definition from_pools :: "(MatchLevel \<times> Clip list) list \<Rightarrow> string set \<Rightarrow> rungClip \<Rightarrow> bool" where
  "from_pools pools used r \<longleftrightarrow> rc_rung r < length pools \<and> rc_Clip r \<in> set (snd (pools ! rc_rung r)) \<and> \<not> taken used (rc_Clip r)"

lemma fillCommercials_state:
  assumes "fillCommercials rng pools w policy used share g = (level, out, share', g')"
  obtains (nothing) "out = []" "level = MatchNone" "share' = share"
  | (filled) cands st where "st = fill_bands w policy (bw_GapMs w) (fill_ceiling w) used cands (fill_start share)"
      "\<forall>r\<in>set cands. from_pools pools used r" "fi_out st \<noteq> []" "mset out = mset (fi_out st)"
      "share' = fi_share st" "level = fst (pools ! nat (fi_loosest st))"
proof -
  define cands where "cands = map (\<lambda>(c, rung). \<lparr>rc_Clip = c, rc_rung = rung,
      rc_region = RegionRank (effectiveGeography (bw_Geography w) (fp_Geography policy)) (cl_Country c)\<rparr>) (fst (pool_candidates used 0 pools {}))"
  obtain shuffled g1 where shuffled: "rng_Shuffle rng cands g = (shuffled, g1)" by fastforce
  obtain ordered lead where lead: "lead_first w policy (bw_GapMs w) share (sort_by (ladderLess w policy) shuffled) = (ordered, lead)"
    by fastforce
  define st where "st = fill_bands w policy (bw_GapMs w) (fill_ceiling w) used ordered (fill_start share)"
  obtain placed g2 where placed: "placeLead rng (fi_out st) lead g1 = (placed, g2)" by fastforce
  have result: "(level, out, share', g') =
      (if cands = [] then (MatchNone, [], share, g)
       else if fi_out st = [] then (MatchNone, [], fi_share st, g1)
       else (fst (pools ! nat (fi_loosest st)), placed, fi_share st, g2))"
    unfolding assms [symmetric] fillCommercials_def Let_def cands_def [symmetric] fill_start_def [symmetric]
    by (simp add: shuffled lead flip: st_def) (simp add: placed)
  obtain fresh seen where fresh: "pool_candidates used 0 pools {} = (fresh, seen)" by fastforce
  have "set ordered = set cands"
    using lead_first_set [OF lead] set_rng_Shuffle [OF shuffled] by simp
  then have from_pool: "\<forall>r\<in>set ordered. from_pools pools used r"
    using pool_candidates_props(1) [OF fresh] fresh by (fastforce simp: cands_def from_pools_def)
  have "fi_out st = [] \<Longrightarrow> fi_share st = share"
  proof -
    let ?I = "\<lambda>st. fi_out st = [] \<longrightarrow> fi_share st = share"
    have "?I (fill_add w r st)" for st r by (simp add: fill_add_def Let_def)
    then have "?I st" unfolding st_def by (intro fill_bands_keeps [where I = ?I, OF _ _ subset_refl]) (simp_all add: fill_start_def)
    then show "fi_out st = [] \<Longrightarrow> fi_share st = share" by simp
  qed
  then consider "out = []" "level = MatchNone" "share' = share"
    | "fi_out st \<noteq> []" "out = placed" "share' = fi_share st" "level = fst (pools ! nat (fi_loosest st))"
    using result by (auto split: if_splits)
  then show ?thesis
  proof cases
    case 2
    then show ?thesis using filled [OF st_def from_pool] placeLead_mset [OF placed] by simp
  qed (rule nothing)
qed

lemma fillCommercials_props:
  assumes "fillCommercials rng pools w policy used share g = (level, out, share', g')"
  shows "\<forall>c\<in>set out. (\<exists>k<length pools. c \<in> set (snd (pools ! k))) \<and> \<not> taken used c"
    and "out \<noteq> [] \<Longrightarrow> clips_ms out \<le> bw_GapMs w" and "out \<noteq> [] \<Longrightarrow> int (length out) \<le> fill_ceiling w"
    and "length (filter isStationSegment out) \<le> 1"
    and "out = [] \<Longrightarrow> level = MatchNone" and "out \<noteq> [] \<Longrightarrow> level \<in> fst ` set pools"
    and "\<exists>cs. mset cs = mset out \<and> sorted_wrt apart cs \<and> share' = foldl (\<lambda>s c. share_add s c w) share cs"
proof -
  have "(\<forall>c\<in>set out. (\<exists>k<length pools. c \<in> set (snd (pools ! k))) \<and> \<not> taken used c) \<and>
      (out \<noteq> [] \<longrightarrow> clips_ms out \<le> bw_GapMs w \<and> int (length out) \<le> fill_ceiling w) \<and>
      length (filter isStationSegment out) \<le> 1 \<and> (out = [] \<longrightarrow> level = MatchNone) \<and> (out \<noteq> [] \<longrightarrow> level \<in> fst ` set pools) \<and>
      (\<exists>cs. mset cs = mset out \<and> sorted_wrt apart cs \<and> share' = foldl (\<lambda>s c. share_add s c w) share cs)"
    using assms
  proof (cases rule: fillCommercials_state)
    case nothing
    then show ?thesis by (auto intro!: exI [of _ "[]"])
  next
    case (filled cands st)
    have inv: "fill_inv w (bw_GapMs w) (fill_ceiling w) used cands share st"
      unfolding filled(1) by (rule fill_bands_inv) (simp_all add: fill_inv_def fill_start_def)
    have sets: "set out = set (fi_out st)" using filled(4) by (metis set_mset_mset)
    have ms: "clips_ms out = clips_ms (fi_out st)" using filled(4) by (metis mset_map sum_mset_sum_list)
    have segments: "length (filter isStationSegment out) = length (filter isStationSegment (fi_out st))"
      using filled(4) by (metis mset_filter size_mset)
    have "c \<in> set out \<Longrightarrow> (\<exists>k<length pools. c \<in> set (snd (pools ! k))) \<and> \<not> taken used c" for c
      using inv filled(2) unfolding sets fill_inv_def from_pools_def by blast
    moreover have "level \<in> fst ` set pools"
    proof -
      obtain r where "r \<in> set cands" "fi_loosest st = int (rc_rung r)" using inv filled(3) by (auto simp: fill_inv_def)
      then show ?thesis using filled(2,6) by (auto simp: from_pools_def)
    qed
    moreover have "out \<noteq> []" "length out = length (fi_out st)" using filled(3,4) by (auto dest: mset_eq_length)
    ultimately show ?thesis
      using inv filled(3,4,5) ms segments by (auto simp: fill_inv_def intro!: exI [of _ "fi_out st"])
  qed
  then show "\<forall>c\<in>set out. (\<exists>k<length pools. c \<in> set (snd (pools ! k))) \<and> \<not> taken used c"
    "out \<noteq> [] \<Longrightarrow> clips_ms out \<le> bw_GapMs w" "out \<noteq> [] \<Longrightarrow> int (length out) \<le> fill_ceiling w"
    "length (filter isStationSegment out) \<le> 1"
    "out = [] \<Longrightarrow> level = MatchNone" "out \<noteq> [] \<Longrightarrow> level \<in> fst ` set pools"
    "\<exists>cs. mset cs = mset out \<and> sorted_wrt apart cs \<and> share' = foldl (\<lambda>s c. share_add s c w) share cs" by blast+
qed

subsection \<open>The in-season half\<close>

definition season_inv :: "BreakWindow \<Rightarrow> fill_state \<Rightarrow> bool" where
  "season_inv w st \<longleftrightarrow>
     sh_total (fi_share st) = int (length (fi_out st)) \<and>
     sh_in (fi_share st) = int (length (filter (\<lambda>c. inSeason c w) (fi_out st))) \<and>
     sh_in (fi_share st) \<le> max 1 (sh_total (fi_share st) div 2)"

lemma season_inv_add:
  assumes "season_inv w st" and "EffectivePlacement (rc_Clip r) = PlacementBreakBody" and "\<not> fill_skips w budget used True st (rc_Clip r)"
  shows "season_inv w (fill_add w r st)"
proof -
  have "0 \<le> sh_total (fi_share st)" using assms(1) by (simp add: season_inv_def)
  moreover have "inSeason (rc_Clip r) w \<Longrightarrow> sh_in (fi_share st) < max 1 ((sh_total (fi_share st) + 1) sdiv 2)"
    using assms(2,3) by (auto simp: fill_skips_def admits_def)
  ultimately show ?thesis using assms(1,2)
    by (auto simp: season_inv_def fill_add_def Let_def share_add_def)
qed

text \<open>
  At most half of a break's commercials are for the season. Filling a break that has no pins, in-season
  clips are at most half of the commercials the ladder places, rounded down, or the one the season is promised.
\<close>

theorem fillCommercials_season_half:
  "let (level, out, share, g') =
       fillCommercials rng (candidatePools parse_base catalog w policy) w policy used \<lparr>sh_in = 0, sh_total = 0\<rparr> g
   in length (filter (\<lambda>c. inSeason c w) out) \<le> max 1 (length out div 2)"
proof -
  let ?pools = "candidatePools parse_base catalog w policy"
  obtain level out share g' where result: "fillCommercials rng ?pools w policy used \<lparr>sh_in = 0, sh_total = 0\<rparr> g = (level, out, share, g')"
    by (rule prod_cases4)
  have "length (filter (\<lambda>c. inSeason c w) out) \<le> max 1 (length out div 2)"
    using result
  proof (cases rule: fillCommercials_state)
    case (filled cands st)
    have body: "EffectivePlacement (rc_Clip r) = PlacementBreakBody" if "r \<in> set cands" for r
      using filled(2) that candidatePools_admits [of "rc_rung r" "rc_Clip r"] by (auto simp: from_pools_def ladder_admits_def body_eligible_def)
    have step: "season_inv w (fill_add w r st)" if "season_inv w st" "r \<in> set cands" "\<not> fill_skips w (bw_GapMs w) used True st (rc_Clip r)" for st r
      using season_inv_add body that by blast
    have "season_inv w st"
      unfolding filled(1)
      by (rule fill_bands_keeps [where I = "season_inv w", OF _ _ subset_refl], erule step) (simp_all add: season_inv_def fill_start_def)
    then have "int (length (filter (\<lambda>c. inSeason c w) (fi_out st))) \<le> max 1 (int (length (fi_out st)) div 2)"
      unfolding season_inv_def by metis
    then have "length (filter (\<lambda>c. inSeason c w) (fi_out st)) \<le> max 1 (length (fi_out st) div 2)" by linarith
    moreover have "length (filter (\<lambda>c. inSeason c w) out) = length (filter (\<lambda>c. inSeason c w) (fi_out st))"
      using filled(4) by (metis mset_filter size_mset)
    moreover have "length out = length (fi_out st)" using filled(4) by (rule mset_eq_length)
    ultimately show ?thesis by simp
  qed simp
  then show ?thesis by (simp add: result)
qed

end
