(* ===== verification/Pods.thy ===== *)
theory Pods
  imports Ladder
begin

text \<open>
  Assembling a commercial break (\<^verbatim>\<open>internal/filler/pod.go\<close> and \<^verbatim>\<open>podtail.go\<close>): an intro bumper, the
  channel's pinned clips, matched commercials, whatever fits the seconds they leave, a return bumper, and
  the embedded card when nothing fits.

  The lemmas carry one invariant through the stages, the entries placed, the time they take and the clips
  they hold back, and read from it what a finished break promises.
\<close>

subsection \<open>Pods\<close>

record PodEntry =
  pe_Path :: string
  pe_Hash :: string
  pe_TunarrProgramID :: string
  pe_Name :: string
  pe_NameSource :: NameSource
  pe_Kind :: ClipKind
  pe_DurationMs :: int
  pe_IsFallbackCard :: bool
  pe_Era :: int
  pe_Quality :: string
  pe_Brand :: string
  pe_Audience :: ClipAudience
  pe_Category :: string
  pe_VisibleText :: string
  pe_RecentRepeat :: bool
  pe_RotationPinned :: bool
  pe_variants :: "string list"
  pe_stationSegment :: bool

record Pod =
  po_Entries :: "PodEntry list"
  po_TotalMs :: int
  po_MatchLevel :: MatchLevel
  po_CooldownRelaxed :: bool

definition empty_pod :: Pod where
  "empty_pod = \<lparr>po_Entries = [], po_TotalMs = 0, po_MatchLevel = MatchBumperCard, po_CooldownRelaxed = False\<rparr>"

text \<open>The name of the card holds a dash of three UTF-8 bytes.\<close>

definition FallbackCard :: PodEntry where
  "FallbackCard =
     \<lparr>pe_Path = '''', pe_Hash = '''', pe_TunarrProgramID = '''',
      pe_Name = ''Loomarr '' @ [CHR 0xE2, CHR 0x80, CHR 0x94] @ '' We'' @ CHR 0x27 # ''ll be right back'',
      pe_NameSource = NameFromCurated, pe_Kind = Bumper, pe_DurationMs = 5000, pe_IsFallbackCard = True, pe_Era = 0,
      pe_Quality = '''', pe_Brand = '''', pe_Audience = AudienceUntagged, pe_Category = '''', pe_VisibleText = '''',
      pe_RecentRepeat = False, pe_RotationPinned = False, pe_variants = [], pe_stationSegment = False\<rparr>"

definition clipToEntry :: "Clip \<Rightarrow> BreakWindow \<Rightarrow> FillerPolicy \<Rightarrow> PodEntry" where
  "clipToEntry c w policy =
     \<lparr>pe_Path = cl_Path c, pe_Hash = cl_Hash c, pe_TunarrProgramID = cl_TunarrProgramID c, pe_Name = cl_Name c,
      pe_NameSource = cl_NameSource c, pe_Kind = cl_Kind c, pe_DurationMs = cl_DurationMs c, pe_IsFallbackCard = False,
      pe_Era = cl_Era c, pe_Quality = cl_Quality c, pe_Brand = cl_Brand c, pe_Audience = cl_Audience c,
      pe_Category = cl_Category c, pe_VisibleText = cl_VisibleText c,
      pe_RecentRepeat = (fst (rotationRank c w policy) = rotationRecent), pe_RotationPinned = False,
      pe_variants = cl_Variants c, pe_stationSegment = isStationSegment c\<rparr>"

definition reserve :: "string set \<Rightarrow> PodEntry \<Rightarrow> string set" where
  "reserve used e =
     (if pe_Hash e = '''' then used
      else let used = insert (pe_Hash e) used \<union> set (pe_variants e)
           in if pe_stationSegment e then insert stationSegmentKey used else used)"

definition pod_append :: "PodEntry \<Rightarrow> Pod \<times> string set \<Rightarrow> Pod \<times> string set" where
  "pod_append e = (\<lambda>(p, used).
     (p\<lparr>po_Entries := po_Entries p @ [e], po_TotalMs := po_TotalMs p + pe_DurationMs e,
        po_CooldownRelaxed := (po_CooldownRelaxed p \<or> pe_RecentRepeat e \<and> \<not> pe_RotationPinned e)\<rparr>,
      reserve used e))"

subsection \<open>Bookends\<close>

definition bookend_eligible ::
  "(string \<Rightarrow> string option) \<Rightarrow> BreakWindow \<Rightarrow> FillerPolicy \<Rightarrow> string set \<Rightarrow> Clip \<Rightarrow> bool" where
  "bookend_eligible parse_base w policy used c \<longleftrightarrow>
     IsBumper c \<and> \<not> taken used c \<and> \<not> outOfSeason c w \<and> speaksTheChannelsLanguage parse_base c w policy"

definition bookendCandidates ::
  "(string \<Rightarrow> string option) \<Rightarrow> Clip list \<Rightarrow> BreakWindow \<Rightarrow> FillerPolicy \<Rightarrow> string set \<Rightarrow> Clip list" where
  "bookendCandidates parse_base catalog w policy used =
     (let bumpers = filter (bookend_eligible parse_base w policy used) catalog;
          era = filterEraWindows bumpers (eraWindows w)
      in if era \<noteq> [] then era else bumpers)"

definition pickBumper ::
  "(string \<Rightarrow> string option) \<Rightarrow> 'g source \<Rightarrow> Clip list \<Rightarrow> BreakWindow \<Rightarrow> FillerPolicy \<Rightarrow> string set \<Rightarrow> 'g \<Rightarrow> Clip option \<times> 'g" where
  "pickBumper parse_base rng catalog w policy used g =
     (let bumpers = sort_by (rotationLess w policy) (sortByID (bookendCandidates parse_base catalog w policy used))
      in case bumpers of
           [] \<Rightarrow> (None, g)
         | b # _ \<Rightarrow>
             let best = length (takeWhile (\<lambda>c. rotationRank c w policy = rotationRank b w policy) bumpers);
                 (i, g) = draw_index rng best g
             in (Some (bumpers ! i), g))"

subsection \<open>Pins\<close>

fun pick_pins :: "FillerPolicy \<Rightarrow> int \<Rightarrow> int \<Rightarrow> (string \<rightharpoonup> Clip) \<Rightarrow> string list \<Rightarrow> Clip list \<times> int \<times> string set \<Rightarrow> Clip list \<times> int \<times> string set" where
  "pick_pins policy budget podMax byID [] st = st"
| "pick_pins policy budget podMax byID (i # is) (out, totalMs, used) =
     (if int (length out) \<ge> podMax then (out, totalMs, used)
      else case byID i of
        None \<Rightarrow> pick_pins policy budget podMax byID is (out, totalMs, used)
      | Some c \<Rightarrow>
          if taken used c \<or> \<not> durationEligible c policy \<or> totalMs + cl_DurationMs c > budget
          then pick_pins policy budget podMax byID is (out, totalMs, used)
          else pick_pins policy budget podMax byID is
                 (out @ [c], totalMs + cl_DurationMs c,
                  if i = '''' then used else insert i used \<union> set (cl_Variants c)))"

definition pickPinned :: "Clip list \<Rightarrow> BreakWindow \<Rightarrow> FillerPolicy \<Rightarrow> string set \<Rightarrow> Clip list \<times> string set" where
  "pickPinned catalog w policy used =
     (if bw_Pinned w = [] then ([], used)
      else let byID = map_of (rev (map (\<lambda>c. (Clip_ID c, c)) catalog));
               (out, _, used) = pick_pins policy (bw_GapMs w) (bw_PodMax w) byID (bw_Pinned w) ([], 0, used)
           in (out, used))"

subsection \<open>The tail\<close>

abbreviation maxTailClips :: nat where "maxTailClips \<equiv> 8"

record tailCandidate =
  tc_Clip :: Clip
  tc_rung :: int

definition tailBetter :: "BreakWindow \<Rightarrow> FillerPolicy \<Rightarrow> tailCandidate \<Rightarrow> tailCandidate \<Rightarrow> bool" where
  "tailBetter w policy a b =
     (if rotationLess w policy (tc_Clip a) (tc_Clip b) then True
      else if rotationLess w policy (tc_Clip b) (tc_Clip a) then False
      else if cl_DurationMs (tc_Clip a) \<noteq> cl_DurationMs (tc_Clip b) then cl_DurationMs (tc_Clip a) > cl_DurationMs (tc_Clip b)
      else tc_rung a \<ge> 0 \<and> tc_rung b < 0)"

record tail_state =
  ta_pod :: Pod
  ta_used :: "string set"
  ta_remainingMs :: int
  ta_adsPlaced :: int
  ta_lastCat :: string
  ta_share :: seasonShare

definition tail_skips :: "BreakWindow \<Rightarrow> FillerPolicy \<Rightarrow> int \<Rightarrow> bool \<Rightarrow> bool \<Rightarrow> tail_state \<Rightarrow> tailCandidate \<Rightarrow> bool" where
  "tail_skips w policy podMax allowRepeat relaxed st r \<longleftrightarrow>
     (let c = tc_Clip r
      in (taken (ta_used st) c \<or> cl_DurationMs c \<le> 0 \<or> cl_DurationMs c > ta_remainingMs st) \<or>
         (tc_rung r \<ge> 0 \<and> ta_adsPlaced st \<ge> podMax) \<or>
         resting c w policy \<or>
         (\<not> relaxed \<and> \<not> admits (ta_share st) c w) \<or>
         (\<not> allowRepeat \<and> cl_Category c \<noteq> '''' \<and> cl_Category c = ta_lastCat st))"

definition tail_best ::
  "BreakWindow \<Rightarrow> FillerPolicy \<Rightarrow> int \<Rightarrow> tailCandidate list \<Rightarrow> tail_state \<Rightarrow> bool \<times> bool \<Rightarrow> tailCandidate option" where
  "tail_best w policy podMax cands st = (\<lambda>(allowRepeat, relaxed).
     foldl (\<lambda>pick r. if tail_skips w policy podMax allowRepeat relaxed st r then pick
                     else case pick of None \<Rightarrow> Some r | Some b \<Rightarrow> if tailBetter w policy r b then Some r else pick)
       None cands)"

text \<open>Variety first, then a repeat, and the in-season half yields last.\<close>

definition tail_modes :: "(bool \<times> bool) list" where
  "tail_modes = [(False, False), (True, False), (False, True), (True, True)]"

fun first_mode :: "('a \<Rightarrow> 'b option) \<Rightarrow> 'a list \<Rightarrow> 'b option" where
  "first_mode f [] = None"
| "first_mode f (x # xs) = (case f x of Some y \<Rightarrow> Some y | None \<Rightarrow> first_mode f xs)"

text \<open>The index of the last pool at a pod's level, none below.\<close>

definition level_index :: "(MatchLevel \<times> Clip list) list \<Rightarrow> MatchLevel \<Rightarrow> int" where
  "level_index pools level =
     foldl (\<lambda>current i. if fst (pools ! i) = level then int i else current) (- 1) [0..<length pools]"

definition widenTo :: "(MatchLevel \<times> Clip list) list \<Rightarrow> int \<Rightarrow> Pod \<Rightarrow> Pod" where
  "widenTo pools rung p =
     (if rung > level_index pools (po_MatchLevel p) then p\<lparr>po_MatchLevel := fst (pools ! nat rung)\<rparr> else p)"

definition tail_add ::
  "(MatchLevel \<times> Clip list) list \<Rightarrow> BreakWindow \<Rightarrow> FillerPolicy \<Rightarrow> tailCandidate \<Rightarrow> tail_state \<Rightarrow> tail_state" where
  "tail_add pools w policy r st =
     (let c = tc_Clip r;
          (p, used) = pod_append (clipToEntry c w policy) (ta_pod st, ta_used st)
      in \<lparr>ta_pod = (if tc_rung r \<ge> 0 then widenTo pools (tc_rung r) p else p), ta_used = used,
          ta_remainingMs = ta_remainingMs st - cl_DurationMs c,
          ta_adsPlaced = (if tc_rung r \<ge> 0 then ta_adsPlaced st + 1 else ta_adsPlaced st),
          ta_lastCat = cl_Category c, ta_share = share_add (ta_share st) c w\<rparr>)"

fun tail_loop ::
  "nat \<Rightarrow> (MatchLevel \<times> Clip list) list \<Rightarrow> BreakWindow \<Rightarrow> FillerPolicy \<Rightarrow> int \<Rightarrow> tailCandidate list \<Rightarrow> tail_state \<Rightarrow> tail_state" where
  "tail_loop 0 pools w policy podMax cands st = st"
| "tail_loop (Suc n) pools w policy podMax cands st =
     (if \<not> ta_remainingMs st > 0 then st
      else case first_mode (tail_best w policy podMax cands st) tail_modes of
        None \<Rightarrow> st
      | Some r \<Rightarrow> tail_loop n pools w policy podMax cands (tail_add pools w policy r st))"

definition tail_candidates ::
  "(string \<Rightarrow> string option) \<Rightarrow> Clip list \<Rightarrow> (MatchLevel \<times> Clip list) list \<Rightarrow> BreakWindow \<Rightarrow> FillerPolicy \<Rightarrow> string set \<Rightarrow>
   tailCandidate list" where
  "tail_candidates parse_base catalog pools w policy used =
     (let (ads, seen) = pool_candidates used 0 pools {};
          (bookends, seen) = fresh_clips {} (sortByID (bookendCandidates parse_base catalog w policy used)) seen
      in map (\<lambda>(c, rung). \<lparr>tc_Clip = c, tc_rung = int rung\<rparr>) ads @ map (\<lambda>c. \<lparr>tc_Clip = c, tc_rung = - 1\<rparr>) bookends)"

definition fillTail ::
  "(string \<Rightarrow> string option) \<Rightarrow> 'g source \<Rightarrow> Clip list \<Rightarrow> (MatchLevel \<times> Clip list) list \<Rightarrow> BreakWindow \<Rightarrow> FillerPolicy \<Rightarrow>
   int \<Rightarrow> int \<Rightarrow> seasonShare \<Rightarrow> Pod \<times> string set \<Rightarrow> 'g \<Rightarrow> (Pod \<times> string set) \<times> 'g" where
  "fillTail parse_base rng catalog pools w policy remainingMs adsPlaced share = (\<lambda>(p, used) g.
     (if remainingMs \<le> 0 then ((p, used), g)
      else let podMax = (if bw_PodMax w \<le> 0 then 4 else bw_PodMax w);
               cands = tail_candidates parse_base catalog pools w policy used
           in if cands = [] then ((p, used), g)
              else let (cands, g) = rng_Shuffle rng cands g;
                       st = tail_loop maxTailClips pools w policy podMax cands
                              \<lparr>ta_pod = p, ta_used = used, ta_remainingMs = remainingMs, ta_adsPlaced = adsPlaced,
                               ta_lastCat = (if po_Entries p = [] then '''' else pe_Category (last (po_Entries p))),
                               ta_share = share\<rparr>
                   in ((ta_pod st, ta_used st), g)))"

text \<open>The break's station segment airs last, before the return bumper.\<close>

definition segment_last :: "PodEntry list \<Rightarrow> PodEntry list" where
  "segment_last es =
     (case dropWhile (\<lambda>e. \<not> pe_stationSegment e) es of
        [] \<Rightarrow> es
      | e # rest \<Rightarrow> takeWhile (\<lambda>e. \<not> pe_stationSegment e) es @ rest @ [e])"

definition stationSegmentLast :: "Pod \<Rightarrow> Pod" where
  "stationSegmentLast p = p\<lparr>po_Entries := segment_last (po_Entries p)\<rparr>"

subsection \<open>One break\<close>

definition add_pins :: "Clip list \<Rightarrow> BreakWindow \<Rightarrow> FillerPolicy \<Rightarrow> Pod \<times> string set \<Rightarrow> Pod \<times> string set" where
  "add_pins pins w policy st = foldl (\<lambda>st c. pod_append ((clipToEntry c w policy)\<lparr>pe_RotationPinned := True\<rparr>) st) st pins"

definition add_clips :: "Clip list \<Rightarrow> BreakWindow \<Rightarrow> FillerPolicy \<Rightarrow> Pod \<times> string set \<Rightarrow> Pod \<times> string set" where
  "add_clips clips w policy st = foldl (\<lambda>st c. pod_append (clipToEntry c w policy) st) st clips"

definition share_of :: "Clip list \<Rightarrow> BreakWindow \<Rightarrow> seasonShare" where
  "share_of clips w = foldl (\<lambda>s c. share_add s c w) \<lparr>sh_in = 0, sh_total = 0\<rparr> clips"

text \<open>The intro placed and the return bumper held back; how long the rest may be.\<close>

definition break_start :: "string set \<Rightarrow> PodEntry option \<Rightarrow> PodEntry option \<Rightarrow> Pod \<times> string set" where
  "break_start used intro ret =
     (let st = (case intro of Some e \<Rightarrow> pod_append e (empty_pod, used) | None \<Rightarrow> (empty_pod, used))
      in case ret of Some e \<Rightarrow> (fst st, reserve (snd st) e) | None \<Rightarrow> st)"

definition break_gap :: "BreakWindow \<Rightarrow> PodEntry option \<Rightarrow> int" where
  "break_gap w ret = bw_GapMs w - (case ret of Some e \<Rightarrow> pe_DurationMs e | None \<Rightarrow> 0)"

text \<open>Pins, then the ladder: how many of each, the in-season share, and the pod so far.\<close>

definition break_fill ::
  "(string \<Rightarrow> string option) \<Rightarrow> 'g source \<Rightarrow> Clip list \<Rightarrow> BreakWindow \<Rightarrow> FillerPolicy \<Rightarrow> int \<Rightarrow> Clip list \<Rightarrow> Pod \<times> string set \<Rightarrow> 'g \<Rightarrow>
   Clip list \<times> seasonShare \<times> (Pod \<times> string set) \<times> 'g" where
  "break_fill parse_base rng catalog w policy gap pins st g =
     (let remaining = w\<lparr>bw_GapMs := gap - po_TotalMs (fst st)\<rparr>;
          remainMax = bw_PodMax w - int (length pins);
          (level, commercials, share, g) =
            (if remainMax > 0
             then fillCommercials rng (candidatePools parse_base catalog remaining policy)
                    (remaining\<lparr>bw_PodMax := remainMax\<rparr>) policy (snd st) (share_of pins w) g
             else (MatchNone, [], share_of pins w, g));
          (p, used) = add_clips commercials w policy st
      in (commercials, share, (p\<lparr>po_MatchLevel := (if level = MatchNone then MatchExact else level)\<rparr>, used), g))"

text \<open>The break around two bookends, none when it has neither a pin nor a commercial; the clips it holds back; the source.\<close>

definition assembleBreak ::
  "(string \<Rightarrow> string option) \<Rightarrow> 'g source \<Rightarrow> Clip list \<Rightarrow> BreakWindow \<Rightarrow> FillerPolicy \<Rightarrow> string set \<Rightarrow> PodEntry option \<Rightarrow>
   PodEntry option \<Rightarrow> 'g \<Rightarrow> (Pod \<times> string set) option \<times> 'g" where
  "assembleBreak parse_base rng catalog w policy used intro ret g =
     (let (p, used) = break_start used intro ret;
          gap = break_gap w ret;
          (pins, used) = pickPinned catalog (w\<lparr>bw_GapMs := gap - po_TotalMs p\<rparr>) policy used;
          st = add_pins pins w policy (p, used);
          (commercials, share, st, g) = break_fill parse_base rng catalog w policy gap pins st g
      in if pins = [] \<and> commercials = [] then (None, g)
         else let ((p, used), g) = fillTail parse_base rng catalog (candidatePools parse_base catalog w policy) w policy
                                     (gap - po_TotalMs (fst st)) (int (length pins + length commercials)) share st g;
                  st = (stationSegmentLast p, used)
              in (Some (case ret of Some e \<Rightarrow> pod_append e st | None \<Rightarrow> st), g))"

fun station_fill :: "BreakWindow \<Rightarrow> FillerPolicy \<Rightarrow> Clip list \<Rightarrow> int \<Rightarrow> Pod \<times> string set \<Rightarrow> Pod \<times> string set" where
  "station_fill w policy [] remainingMs st = st"
| "station_fill w policy (c # cs) remainingMs st =
     (if length (po_Entries (fst st)) \<ge> maxTailClips then st
      else if Clip_ID c \<in> snd st \<or> cl_DurationMs c \<le> 0 \<or> cl_DurationMs c > remainingMs
           then station_fill w policy cs remainingMs st
      else station_fill w policy cs (remainingMs - cl_DurationMs c) (pod_append (clipToEntry c w policy) st))"

definition stationBreak ::
  "(string \<Rightarrow> string option) \<Rightarrow> 'g source \<Rightarrow> Clip list \<Rightarrow> BreakWindow \<Rightarrow> FillerPolicy \<Rightarrow> string set \<Rightarrow> 'g \<Rightarrow>
   (Pod \<times> string set) option \<times> 'g" where
  "stationBreak parse_base rng catalog w policy used g =
     (let cands = sortByID (bookendCandidates parse_base catalog w policy used);
          (cands, g) = rng_Shuffle rng cands g;
          cands = sort_by (rotationLess w policy) cands;
          st = station_fill w policy cands (bw_GapMs w) (empty_pod, used)
      in (if po_Entries (fst st) \<noteq> [] then Some st else None, g))"

text \<open>The plans in order: both bookends, without the return bumper, without the intro.\<close>

definition bookend_plans :: "PodEntry option \<Rightarrow> PodEntry option \<Rightarrow> (PodEntry option \<times> PodEntry option) list" where
  "bookend_plans intro ret =
     (intro, ret) # (if ret \<noteq> None then [(intro, None)] else []) @ (if intro \<noteq> None then [(None, None)] else [])"

fun try_plans ::
  "(string \<Rightarrow> string option) \<Rightarrow> 'g source \<Rightarrow> Clip list \<Rightarrow> BreakWindow \<Rightarrow> FillerPolicy \<Rightarrow> string set \<Rightarrow>
   (PodEntry option \<times> PodEntry option) list \<Rightarrow> 'g \<Rightarrow> (Pod \<times> string set) option \<times> 'g" where
  "try_plans parse_base rng catalog w policy used [] g = (None, g)"
| "try_plans parse_base rng catalog w policy used ((intro, ret) # plans) g =
     (let (result, g) = assembleBreak parse_base rng catalog w policy used intro ret g
      in if result \<noteq> None then (result, g) else try_plans parse_base rng catalog w policy used plans g)"

text \<open>The clips a break may use: inside the channel's geography and of its kinds.\<close>

definition break_catalog :: "Clip list \<Rightarrow> BreakWindow \<Rightarrow> FillerPolicy \<Rightarrow> Clip list" where
  "break_catalog catalog w policy =
     (let area = policy_area policy (bw_Geography w)
      in filterKinds (filterGeography catalog area) (bw_Kinds w) (ar_Stations area))"

definition Assemble ::
  "(string \<Rightarrow> string option) \<Rightarrow> 'g source \<Rightarrow> (int \<Rightarrow> 'g) \<Rightarrow> Clip list \<Rightarrow> BreakWindow \<Rightarrow> FillerPolicy \<Rightarrow> string set \<Rightarrow>
   Pod \<times> string set" where
  "Assemble parse_base rng seeded catalog w policy used =
     (let g = seeded (bw_Seed w);
          used = used \<union> set (bw_Excluded w);
          catalog = break_catalog catalog w policy;
          (intro, g) = pickBumper parse_base rng catalog w policy (insert stationSegmentKey used) g;
          intro = map_option (\<lambda>c. clipToEntry c w policy) intro;
          intro = (case intro of Some e \<Rightarrow> if pe_DurationMs e > bw_GapMs w then None else Some e | None \<Rightarrow> None);
          afterIntro = (case intro of Some e \<Rightarrow> reserve used e | None \<Rightarrow> used);
          (ret, g) = pickBumper parse_base rng catalog w policy afterIntro g;
          ret = map_option (\<lambda>c. clipToEntry c w policy) ret;
          introMs = (case intro of Some e \<Rightarrow> pe_DurationMs e | None \<Rightarrow> 0);
          ret = (case ret of Some e \<Rightarrow> if introMs + pe_DurationMs e > bw_GapMs w then None else Some e | None \<Rightarrow> None);
          (result, g) = try_plans parse_base rng catalog w policy used (bookend_plans intro ret) g
      in case result of
           Some (pod, trial) \<Rightarrow> (pod, used \<union> trial)
         | None \<Rightarrow>
             (case fst (stationBreak parse_base rng catalog w policy used g) of
                Some (pod, trial) \<Rightarrow> (pod, used \<union> trial)
              | None \<Rightarrow> pod_append FallbackCard (empty_pod, used)))"

subsection \<open>What a break keeps\<close>

text \<open>
  A catalogue as the store keeps it: every clip has an identity and a length, and two versions of one ad
  name each other.
\<close>

definition well_linked :: "Clip list \<Rightarrow> bool" where
  "well_linked catalog \<longleftrightarrow>
     (\<forall>c\<in>set catalog. Clip_ID c \<noteq> '''' \<and> 0 \<le> cl_DurationMs c \<and>
        (\<forall>d\<in>set catalog. Clip_ID d \<in> set (cl_Variants c) \<longrightarrow> Clip_ID c \<in> set (cl_Variants d)))"

text \<open>An entry shows a clip: it is the entry of the clip, pinned or not.\<close>

definition shows_clip :: "BreakWindow \<Rightarrow> FillerPolicy \<Rightarrow> PodEntry \<Rightarrow> Clip \<Rightarrow> bool" where
  "shows_clip w policy e c \<longleftrightarrow> e = (clipToEntry c w policy)\<lparr>pe_RotationPinned := pe_RotationPinned e\<rparr>"

text \<open>Why a clip may air in the break: pinned and of an allowed length, a bookend, or a candidate of the ladder.\<close>

definition may_air :: "(string \<Rightarrow> string option) \<Rightarrow> BreakWindow \<Rightarrow> FillerPolicy \<Rightarrow> bool \<Rightarrow> Clip \<Rightarrow> bool" where
  "may_air parse_base w policy pinned c \<longleftrightarrow>
     (if pinned then Clip_ID c \<in> set (bw_Pinned w) \<and> durationEligible c policy
      else \<not> outOfSeason c w \<and> speaksTheChannelsLanguage parse_base c w policy \<and>
           (IsBumper c \<or> ladder_admits parse_base w policy c))"

definition from_catalog ::
  "(string \<Rightarrow> string option) \<Rightarrow> Clip list \<Rightarrow> BreakWindow \<Rightarrow> FillerPolicy \<Rightarrow> string set \<Rightarrow> PodEntry \<Rightarrow> bool" where
  "from_catalog parse_base catalog w policy base e \<longleftrightarrow>
     (\<exists>c\<in>set catalog. shows_clip w policy e c \<and> may_air parse_base w policy (pe_RotationPinned e) c \<and> Clip_ID c \<notin> base)"

text \<open>Entries that may share a break: not the same clip, nor two versions of one ad.\<close>

definition entries_apart :: "PodEntry \<Rightarrow> PodEntry \<Rightarrow> bool" where
  "entries_apart a b \<longleftrightarrow> pe_Hash a \<noteq> pe_Hash b \<and> pe_Hash a \<notin> set (pe_variants b) \<and> pe_Hash b \<notin> set (pe_variants a)"

definition held_back :: "string set \<Rightarrow> PodEntry \<Rightarrow> bool" where
  "held_back used e \<longleftrightarrow> pe_Hash e \<in> used \<and> set (pe_variants e) \<subseteq> used"

abbreviation entries_ms :: "PodEntry list \<Rightarrow> int" where
  "entries_ms es \<equiv> (\<Sum>e\<leftarrow>es. pe_DurationMs e)"

text \<open>
  The invariant of a break being built: \<open>base\<close> is what was held back before it, \<open>ahead\<close> the return bumper
  that is already promised.
\<close>

definition pod_inv ::
  "(string \<Rightarrow> string option) \<Rightarrow> Clip list \<Rightarrow> BreakWindow \<Rightarrow> FillerPolicy \<Rightarrow> string set \<Rightarrow> PodEntry list \<Rightarrow> Pod \<times> string set \<Rightarrow> bool" where
  "pod_inv parse_base catalog w policy base ahead st \<longleftrightarrow>
     po_TotalMs (fst st) = entries_ms (po_Entries (fst st)) \<and> base \<subseteq> snd st \<and>
     (\<forall>e\<in>set (ahead @ po_Entries (fst st)). from_catalog parse_base catalog w policy base e \<and> held_back (snd st) e) \<and>
     sorted_wrt entries_apart (ahead @ po_Entries (fst st)) \<and>
     (po_CooldownRelaxed (fst st) \<longleftrightarrow> list_ex (\<lambda>e. pe_RecentRepeat e \<and> \<not> pe_RotationPinned e) (po_Entries (fst st)))"

lemma entries_apart_sym: "entries_apart a b \<Longrightarrow> entries_apart b a"
  by (auto simp: entries_apart_def)

lemma sorted_wrt_perm:
  assumes sym: "\<And>a b. R a b \<Longrightarrow> R b a" and "sorted_wrt R xs" and "mset ys = mset xs"
  shows "sorted_wrt R ys"
  using assms(2,3)
proof (induction xs arbitrary: ys)
  case (Cons x xs)
  have "x \<in> set ys" using Cons.prems(2) by (metis list.set_intros(1) set_mset_mset)
  then obtain as bs where ys: "ys = as @ x # bs" by (meson split_list)
  then have rest: "mset (as @ bs) = mset xs" using Cons.prems(2) by simp
  then have "sorted_wrt R (as @ bs)" using Cons by simp
  moreover have "set as \<union> set bs = set xs" using rest by (metis set_append set_mset_mset)
  then have "\<forall>y\<in>set as \<union> set bs. R x y" using Cons.prems(1) by auto
  ultimately show ?case unfolding ys sorted_wrt_append by (auto intro: sym)
qed simp

lemma shows_clip_fields:
  assumes "shows_clip w policy e c"
  shows "pe_Hash e = Clip_ID c" "pe_variants e = cl_Variants c" "pe_DurationMs e = cl_DurationMs c"
    "pe_stationSegment e = isStationSegment c" "pe_Audience e = cl_Audience c" "\<not> pe_IsFallbackCard e"
    "pe_Category e = cl_Category c" "pe_RecentRepeat e = resting c w policy"
proof -
  obtain pinned where e: "e = (clipToEntry c w policy)\<lparr>pe_RotationPinned := pinned\<rparr>" using assms by (auto simp: shows_clip_def)
  show "pe_Hash e = Clip_ID c" "pe_variants e = cl_Variants c" "pe_DurationMs e = cl_DurationMs c"
    "pe_stationSegment e = isStationSegment c" "pe_Audience e = cl_Audience c" "\<not> pe_IsFallbackCard e"
    "pe_Category e = cl_Category c" "pe_RecentRepeat e = resting c w policy"
    by (simp_all add: e clipToEntry_def Clip_ID_def resting_def)
qed

lemma shows_clipToEntry [simp]: "shows_clip w policy (clipToEntry c w policy) c"
  "shows_clip w policy ((clipToEntry c w policy)\<lparr>pe_RotationPinned := True\<rparr>) c"
  by (simp_all add: shows_clip_def clipToEntry_def)

lemma clipToEntry_pinned [simp]: "\<not> pe_RotationPinned (clipToEntry c w policy)"
  by (simp add: clipToEntry_def)

lemma from_catalog_hash: "from_catalog parse_base catalog w policy base e \<Longrightarrow> pe_Hash e \<notin> base"
  by (auto simp: from_catalog_def dest: shows_clip_fields)

lemma from_catalog_ms: "well_linked catalog \<Longrightarrow> from_catalog parse_base catalog w policy base e \<Longrightarrow> 0 \<le> pe_DurationMs e"
  by (auto simp: from_catalog_def well_linked_def dest!: shows_clip_fields(3))

text \<open>A clip that is not held back is apart from every entry that is.\<close>

lemma entries_apart_held:
  assumes "well_linked catalog" and "from_catalog parse_base catalog w policy base a" and "held_back used a"
    and "from_catalog parse_base catalog w policy base b" and "pe_Hash b \<notin> used"
  shows "entries_apart a b"
proof -
  obtain c d where c: "c \<in> set catalog" "shows_clip w policy a c" and d: "d \<in> set catalog" "shows_clip w policy b d"
    using assms(2,4) by (auto simp: from_catalog_def)
  have "Clip_ID c \<in> set (cl_Variants d) \<longrightarrow> Clip_ID d \<in> set (cl_Variants c)"
    using assms(1) c(1) d(1) by (auto simp: well_linked_def)
  then show ?thesis
    using assms(3,5) shows_clip_fields(1,2) [OF c(2)] shows_clip_fields(1,2) [OF d(2)]
    by (auto simp: entries_apart_def held_back_def)
qed

lemma reserve_held:
  assumes "well_linked catalog" and "from_catalog parse_base catalog w policy base e"
  shows "held_back (reserve used e) e" and "used \<subseteq> reserve used e"
proof -
  have "pe_Hash e \<noteq> ''''"
    using assms by (auto simp: from_catalog_def well_linked_def dest!: shows_clip_fields(1))
  then show "held_back (reserve used e) e" "used \<subseteq> reserve used e"
    by (auto simp: held_back_def reserve_def Let_def)
qed

lemma held_back_mono: "held_back used e \<Longrightarrow> used \<subseteq> used' \<Longrightarrow> held_back used' e"
  by (auto simp: held_back_def)

text \<open>Adding entries that are not held back, and holding them back, keeps the invariant.\<close>

lemma pod_inv_append:
  assumes "well_linked catalog" and "pod_inv parse_base catalog w policy base ahead (p, used)"
    and "from_catalog parse_base catalog w policy base e" and "pe_Hash e \<notin> used"
  shows "pod_inv parse_base catalog w policy base ahead (pod_append e (p, used))"
proof -
  note r = reserve_held [OF assms(1,3), of used]
  have "sorted_wrt entries_apart ((ahead @ po_Entries p) @ [e])"
    using assms(2) entries_apart_held [OF assms(1) _ _ assms(3,4)] by (auto simp: pod_inv_def sorted_wrt_append)
  then show ?thesis
    using assms(2,3) r held_back_mono [OF _ r(2)] by (auto simp: pod_inv_def pod_append_def)
qed

lemma pod_inv_hold:
  assumes "well_linked catalog" and "pod_inv parse_base catalog w policy base [] (p, used)"
    and "from_catalog parse_base catalog w policy base e" and "pe_Hash e \<notin> used"
  shows "pod_inv parse_base catalog w policy base [e] (p, reserve used e)"
proof -
  note r = reserve_held [OF assms(1,3), of used]
  have "\<forall>a\<in>set (po_Entries p). entries_apart e a"
    using assms(2) entries_apart_held [OF assms(1) _ _ assms(3,4)] entries_apart_sym by (fastforce simp: pod_inv_def)
  then show ?thesis
    using assms(2,3) r held_back_mono [OF _ r(2)] by (auto simp: pod_inv_def)
qed

lemma pod_inv_block:
  assumes "well_linked catalog" and inv: "pod_inv parse_base catalog w policy base ahead (p, used)" and "used \<subseteq> used'"
    and es: "\<forall>e\<in>set es. from_catalog parse_base catalog w policy base e \<and> pe_Hash e \<notin> used" and apart: "sorted_wrt entries_apart es"
  shows "pod_inv parse_base catalog w policy base ahead (foldl (\<lambda>st e. pod_append e st) (p, used') es)"
    and "po_Entries (fst (foldl (\<lambda>st e. pod_append e st) (p, used') es)) = po_Entries p @ es"
    and "po_TotalMs (fst (foldl (\<lambda>st e. pod_append e st) (p, used') es)) = po_TotalMs p + entries_ms es"
proof -
  let ?fold = "\<lambda>es. foldl (\<lambda>st e. pod_append e st) (p, used') es"
  have pod: "po_Entries (fst (?fold es)) = po_Entries p @ es \<and> po_TotalMs (fst (?fold es)) = po_TotalMs p + entries_ms es \<and>
      (po_CooldownRelaxed (fst (?fold es)) \<longleftrightarrow> po_CooldownRelaxed p \<or> list_ex (\<lambda>e. pe_RecentRepeat e \<and> \<not> pe_RotationPinned e) es)"
    by (induction es rule: rev_induct) (auto simp: pod_append_def split: prod.splits)
  have held: "used' \<subseteq> snd (?fold xs) \<and> (\<forall>e\<in>set xs. held_back (snd (?fold xs)) e)" if "set xs \<subseteq> set es" for xs
    using that
  proof (induction xs rule: rev_induct)
    case (snoc e xs)
    have "snd (?fold (xs @ [e])) = reserve (snd (?fold xs)) e" by (simp add: pod_append_def split: prod.splits)
    then show ?case
      using snoc reserve_held [OF assms(1), of parse_base w policy base e "snd (?fold xs)"] es held_back_mono by fastforce
  qed simp
  have "entries_apart a b" if "a \<in> set (ahead @ po_Entries p)" "b \<in> set es" for a b
  proof -
    have "from_catalog parse_base catalog w policy base a" "held_back used a" using inv that(1) by (simp_all add: pod_inv_def)
    then show ?thesis using entries_apart_held [OF assms(1)] es that(2) by blast
  qed
  moreover have "sorted_wrt entries_apart (ahead @ po_Entries p)" using inv by (simp add: pod_inv_def)
  ultimately have "sorted_wrt entries_apart ((ahead @ po_Entries p) @ es)"
    using apart unfolding sorted_wrt_append [of _ "ahead @ po_Entries p"] by blast
  then show "pod_inv parse_base catalog w policy base ahead (?fold es)"
    using inv es pod held [OF subset_refl] assms(3) held_back_mono [OF held_back_mono [OF _ assms(3)]]
    by (fastforce simp: pod_inv_def)
  show "po_Entries (fst (?fold es)) = po_Entries p @ es" "po_TotalMs (fst (?fold es)) = po_TotalMs p + entries_ms es"
    using pod by simp_all
qed

lemma pod_inv_reorder:
  assumes "pod_inv parse_base catalog w policy base ahead (p, used)" and "mset es = mset (po_Entries p)"
  shows "pod_inv parse_base catalog w policy base ahead (p\<lparr>po_Entries := es\<rparr>, used)"
proof -
  have "set es = set (po_Entries p)" using assms(2) by (metis set_mset_mset)
  moreover have "entries_ms es = entries_ms (po_Entries p)" using assms(2) by (metis mset_map sum_mset_sum_list)
  moreover have "sorted_wrt entries_apart (ahead @ po_Entries p)" using assms(1) by (simp add: pod_inv_def)
  then have "sorted_wrt entries_apart (ahead @ es)"
    by (rule sorted_wrt_perm [rotated]) (use assms(2) entries_apart_sym in auto)
  ultimately show ?thesis using assms(1) by (simp add: pod_inv_def list_ex_iff)
qed

lemma segment_last_mset: "mset (segment_last es) = mset es"
proof (cases "dropWhile (\<lambda>e. \<not> pe_stationSegment e) es")
  case (Cons e rest)
  have "mset es = mset (takeWhile (\<lambda>e. \<not> pe_stationSegment e) es) + mset (e # rest)"
    unfolding Cons [symmetric] by (metis mset_append takeWhile_dropWhile_id)
  then show ?thesis using Cons by (simp add: segment_last_def)
next
  case Nil
  then show ?thesis by (simp only: segment_last_def list.case)
qed

subsection \<open>The stages\<close>

lemma pin_entry:
  assumes "c \<in> set catalog" and "Clip_ID c \<in> set (bw_Pinned w)" and "durationEligible c policy" and "Clip_ID c \<notin> base"
  shows "from_catalog parse_base catalog w policy base ((clipToEntry c w policy)\<lparr>pe_RotationPinned := True\<rparr>)"
  using assms unfolding from_catalog_def may_air_def by (intro bexI [of _ c] conjI) simp_all

lemma clip_entry:
  assumes "c \<in> set catalog" and "\<not> outOfSeason c w" and "speaksTheChannelsLanguage parse_base c w policy"
    and "IsBumper c \<or> ladder_admits parse_base w policy c" and "Clip_ID c \<notin> base"
  shows "from_catalog parse_base catalog w policy base (clipToEntry c w policy)"
  using assms unfolding from_catalog_def may_air_def by (intro bexI [of _ c] conjI) simp_all

lemma bookend_entry:
  assumes "c \<in> set (bookendCandidates parse_base catalog w policy used)" and "base \<subseteq> used"
  shows "from_catalog parse_base catalog w policy base (clipToEntry c w policy)" and "Clip_ID c \<notin> used" and "c \<in> set catalog"
proof -
  have "c \<in> set catalog \<and> bookend_eligible parse_base w policy used c"
    using assms(1) by (auto simp: bookendCandidates_def Let_def set_filterEraWindows split: if_splits)
  then show "from_catalog parse_base catalog w policy base (clipToEntry c w policy)" "Clip_ID c \<notin> used" "c \<in> set catalog"
    using assms(2) by (auto simp: bookend_eligible_def taken_def intro: clip_entry)
qed

lemma clip_entry_fields [simp]: "pe_Hash (clipToEntry c w policy) = Clip_ID c" "pe_DurationMs (clipToEntry c w policy) = cl_DurationMs c"
  "pe_variants (clipToEntry c w policy) = cl_Variants c"
  by (simp_all add: clipToEntry_def Clip_ID_def)

lemma pickBumper_candidate:
  assumes "pickBumper parse_base rng catalog w policy used g = (Some c, g')"
  shows "c \<in> set (bookendCandidates parse_base catalog w policy used)"
proof -
  let ?bs = "sort_by (rotationLess w policy) (sortByID (bookendCandidates parse_base catalog w policy used))"
  obtain b bs where bs: "?bs = b # bs" using assms by (cases ?bs) (auto simp: pickBumper_def Let_def)
  let ?best = "length (takeWhile (\<lambda>c. rotationRank c w policy = rotationRank b w policy) ?bs)"
  obtain i where "c = ?bs ! (i mod ?best)" using assms bs by (auto simp: pickBumper_def Let_def draw_index_def split: prod.splits)
  moreover have "0 < ?best" using bs by simp
  then have "i mod ?best < length ?bs" using length_takeWhile_le [of _ ?bs] by (meson mod_less_divisor order_less_le_trans)
  ultimately have "c \<in> set ?bs" using nth_mem by metis
  then show ?thesis by simp
qed

text \<open>Pins: chosen from the catalogue, of an allowed length, apart, within the gap, and held back.\<close>

definition pins_inv ::
  "Clip list \<Rightarrow> FillerPolicy \<Rightarrow> int \<Rightarrow> string set \<Rightarrow> string set \<Rightarrow> string set \<Rightarrow> Clip list \<times> int \<times> string set \<Rightarrow> bool" where
  "pins_inv catalog policy budget wanted base before = (\<lambda>(out, totalMs, used).
     totalMs = clips_ms out \<and> (out \<noteq> [] \<longrightarrow> totalMs \<le> budget) \<and> before \<subseteq> used \<and> sorted_wrt apart out \<and>
     (\<forall>c\<in>set out. c \<in> set catalog \<and> durationEligible c policy \<and> Clip_ID c \<in> wanted \<and> Clip_ID c \<notin> before \<and>
        Clip_ID c \<in> used \<and> set (cl_Variants c) \<subseteq> used))"

lemma pins_inv_add:
  assumes "pins_inv catalog policy budget wanted base before (out, totalMs, used)" and "c \<in> set catalog"
    and "well_linked catalog" and "Clip_ID c \<in> wanted" and "\<not> taken used c" and "durationEligible c policy"
    and "totalMs + cl_DurationMs c \<le> budget"
  shows "pins_inv catalog policy budget wanted base before
    (out @ [c], totalMs + cl_DurationMs c, if Clip_ID c = '''' then used else insert (Clip_ID c) used \<union> set (cl_Variants c))"
proof -
  have "Clip_ID c \<noteq> ''''" using assms(2,3) by (auto simp: well_linked_def)
  moreover have "Clip_ID c \<notin> used" using assms(5) by (simp add: taken_def)
  ultimately show ?thesis
    using assms by (auto simp: pins_inv_def sorted_wrt_append apart_def)
qed

lemma pick_pins_inv:
  assumes byID: "\<And>i c. byID i = Some c \<Longrightarrow> c \<in> set catalog \<and> Clip_ID c = i" and "well_linked catalog"
  shows "pins_inv catalog policy budget wanted base before st \<Longrightarrow> set is \<subseteq> wanted \<Longrightarrow>
    pins_inv catalog policy budget wanted base before (pick_pins policy budget podMax byID is st)"
proof (induction "is" arbitrary: st)
  case (Cons i "is")
  obtain out totalMs used where st: "st = (out, totalMs, used)" by (metis prod_cases3)
  show ?case
  proof (cases "byID i")
    case None
    then show ?thesis using Cons by (simp add: st)
  next
    case (Some c)
    then have c: "c \<in> set catalog" "Clip_ID c = i" using byID by blast+
    have "i \<in> wanted" and rest: "set is \<subseteq> wanted" using Cons.prems(2) by simp_all
    note add = pins_inv_add [OF Cons.prems(1) [unfolded st] c(1) assms(2) \<open>i \<in> wanted\<close> [folded c(2)], unfolded c(2)]
    consider (full) "int (length out) \<ge> podMax"
      | (skip) "\<not> int (length out) \<ge> podMax" "taken used c \<or> \<not> durationEligible c policy \<or> totalMs + cl_DurationMs c > budget"
      | (pin) "\<not> int (length out) \<ge> podMax" "\<not> taken used c" "durationEligible c policy" "totalMs + cl_DurationMs c \<le> budget"
      by linarith
    then show ?thesis
    proof cases
      case full
      then show ?thesis using Cons.prems(1) by (simp add: st)
    next
      case skip
      then have "pick_pins policy budget podMax byID (i # is) st = pick_pins policy budget podMax byID is st"
        using Some by (simp add: st)
      then show ?thesis using Cons.IH [OF Cons.prems(1) rest] by simp
    next
      case pin
      then have "pick_pins policy budget podMax byID (i # is) st = pick_pins policy budget podMax byID is
          (out @ [c], totalMs + cl_DurationMs c, if i = '''' then used else insert i used \<union> set (cl_Variants c))"
        using Some by (simp add: st)
      then show ?thesis using Cons.IH [OF add [OF pin(2,3,4)] rest] by simp
    qed
  qed
qed simp

lemma pickPinned_props:
  assumes "pickPinned catalog w policy used = (pins, used')" and "well_linked catalog"
  shows "pins_inv catalog policy (bw_GapMs w) (set (bw_Pinned w)) base used (pins, clips_ms pins, used')"
proof (cases "bw_Pinned w = []")
  case True
  then show ?thesis using assms(1) by (simp add: pickPinned_def pins_inv_def)
next
  case False
  let ?byID = "map_of (rev (map (\<lambda>c. (Clip_ID c, c)) catalog))"
  have byID: "?byID i = Some c \<Longrightarrow> c \<in> set catalog \<and> Clip_ID c = i" for i c
    by (auto dest!: map_of_SomeD)
  obtain out totalMs used1 where picked: "pick_pins policy (bw_GapMs w) (bw_PodMax w) ?byID (bw_Pinned w) ([], 0, used) = (out, totalMs, used1)"
    by (rule prod_cases3)
  have "pins_inv catalog policy (bw_GapMs w) (set (bw_Pinned w)) base used (out, totalMs, used1)"
    unfolding picked [symmetric] by (rule pick_pins_inv [OF byID assms(2)]) (auto simp: pins_inv_def)
  moreover have "pins = out \<and> used' = used1" using assms(1) False picked by (simp add: pickPinned_def)
  ultimately show ?thesis unfolding pins_inv_def prod.case by blast
qed

lemma apart_entries:
  assumes "well_linked catalog" and "sorted_wrt apart cs" and "set cs \<subseteq> set catalog"
    and "\<And>c. pe_Hash (f c) = Clip_ID c \<and> pe_variants (f c) = cl_Variants c"
  shows "sorted_wrt entries_apart (map f cs)"
  using assms(2,3)
proof (induction cs)
  case (Cons c cs)
  have "entries_apart (f c) (f d)" if d: "d \<in> set cs" for d
  proof -
    have "apart c d" "c \<in> set catalog" "d \<in> set catalog" using Cons.prems d by auto
    moreover from this have "Clip_ID c \<in> set (cl_Variants d) \<longrightarrow> Clip_ID d \<in> set (cl_Variants c)"
      using assms(1) by (auto simp: well_linked_def)
    ultimately show ?thesis using assms(4) by (auto simp: entries_apart_def apart_def)
  qed
  then show ?case using Cons by auto
qed simp

lemma add_clips_foldl: "add_clips cs w policy st = foldl (\<lambda>st e. pod_append e st) st (map (\<lambda>c. clipToEntry c w policy) cs)"
  by (simp add: add_clips_def foldl_map)

lemma add_pins_foldl:
  "add_pins cs w policy st = foldl (\<lambda>st e. pod_append e st) st (map (\<lambda>c. (clipToEntry c w policy)\<lparr>pe_RotationPinned := True\<rparr>) cs)"
  by (simp add: add_pins_def foldl_map)

lemma pod_inv_base: "pod_inv parse_base catalog w policy base ahead (p, used) \<Longrightarrow> base \<subseteq> used"
  by (simp add: pod_inv_def)

lemma pod_inv_level: "pod_inv parse_base catalog w policy base ahead (p\<lparr>po_MatchLevel := level\<rparr>, used) \<longleftrightarrow>
    pod_inv parse_base catalog w policy base ahead (p, used)"
  by (simp add: pod_inv_def)

lemma add_pins_props:
  assumes "well_linked catalog" and "pod_inv parse_base catalog w policy base ahead (p, used)"
    and "pickPinned catalog (w\<lparr>bw_GapMs := gap\<rparr>) policy used = (pins, used')"
  shows "pod_inv parse_base catalog w policy base ahead (add_pins pins w policy (p, used'))"
    and "length (po_Entries (fst (add_pins pins w policy (p, used')))) = length (po_Entries p) + length pins"
    and "po_TotalMs (fst (add_pins pins w policy (p, used'))) = po_TotalMs p + clips_ms pins"
    and "pins \<noteq> [] \<Longrightarrow> clips_ms pins \<le> gap"
proof -
  have inv: "pins_inv catalog policy gap (set (bw_Pinned w)) base used (pins, clips_ms pins, used')"
    using pickPinned_props [OF assms(3,1)] by simp
  let ?es = "map (\<lambda>c. (clipToEntry c w policy)\<lparr>pe_RotationPinned := True\<rparr>) pins"
  have es: "\<forall>e\<in>set ?es. from_catalog parse_base catalog w policy base e \<and> pe_Hash e \<notin> used"
    using inv pod_inv_base [OF assms(2)] by (auto simp: pins_inv_def intro!: pin_entry)
  have apart: "sorted_wrt entries_apart ?es"
    using inv by (intro apart_entries [OF assms(1)]) (auto simp: pins_inv_def)
  have "used \<subseteq> used'" using inv by (simp add: pins_inv_def)
  note block = pod_inv_block [OF assms(1,2) this es apart, folded add_pins_foldl]
  have "entries_ms ?es = clips_ms pins" by (simp add: comp_def)
  then show "pod_inv parse_base catalog w policy base ahead (add_pins pins w policy (p, used'))"
    "length (po_Entries (fst (add_pins pins w policy (p, used')))) = length (po_Entries p) + length pins"
    "po_TotalMs (fst (add_pins pins w policy (p, used'))) = po_TotalMs p + clips_ms pins"
    using block by simp_all
  show "pins \<noteq> [] \<Longrightarrow> clips_ms pins \<le> gap" using inv by (simp add: pins_inv_def)
qed

lemma ladder_entry:
  assumes "c \<in> set catalog" and "ladder_admits parse_base w policy c" and "Clip_ID c \<notin> base"
  shows "from_catalog parse_base catalog w policy base (clipToEntry c w policy)"
  using assms by (intro clip_entry) (auto simp: ladder_admits_def)

lemma add_commercials_props:
  assumes "well_linked catalog" and "pod_inv parse_base catalog w policy base ahead (p, used)"
    and "fillCommercials rng (candidatePools parse_base catalog w policy) (w\<lparr>bw_GapMs := gap, bw_PodMax := n\<rparr>) policy used share g =
      (level, out, share', g')"
  shows "pod_inv parse_base catalog w policy base ahead (add_clips out w policy (p, used))"
    and "length (po_Entries (fst (add_clips out w policy (p, used)))) = length (po_Entries p) + length out"
    and "po_TotalMs (fst (add_clips out w policy (p, used))) = po_TotalMs p + clips_ms out"
    and "out \<noteq> [] \<Longrightarrow> clips_ms out \<le> gap"
proof -
  note fill = fillCommercials_props [OF assms(3)]
  let ?es = "map (\<lambda>c. clipToEntry c w policy) out"
  have clips: "c \<in> set catalog \<and> ladder_admits parse_base w policy c \<and> Clip_ID c \<notin> used" if "c \<in> set out" for c
    using fill(1) that candidatePools_admits [of _ c parse_base catalog w policy] by (auto simp: taken_def)
  then have es: "\<forall>e\<in>set ?es. from_catalog parse_base catalog w policy base e \<and> pe_Hash e \<notin> used"
    using pod_inv_base [OF assms(2)] by (auto intro!: ladder_entry)
  obtain cs where cs: "mset cs = mset out" "sorted_wrt apart cs" using fill(7) by blast
  have "set cs = set out" using cs(1) by (metis set_mset_mset)
  then have "sorted_wrt entries_apart (map (\<lambda>c. clipToEntry c w policy) cs)"
    using clips by (intro apart_entries [OF assms(1) cs(2)]) auto
  then have apart: "sorted_wrt entries_apart ?es"
    by (rule sorted_wrt_perm [rotated]) (use cs(1) entries_apart_sym in \<open>auto simp: mset_map\<close>)
  note block = pod_inv_block [OF assms(1,2) subset_refl es apart, folded add_clips_foldl]
  have "entries_ms ?es = clips_ms out" by (simp add: comp_def)
  then show "pod_inv parse_base catalog w policy base ahead (add_clips out w policy (p, used))"
    "length (po_Entries (fst (add_clips out w policy (p, used)))) = length (po_Entries p) + length out"
    "po_TotalMs (fst (add_clips out w policy (p, used))) = po_TotalMs p + clips_ms out"
    using block by simp_all
  show "out \<noteq> [] \<Longrightarrow> clips_ms out \<le> gap" using fill(2) by simp
qed

subsection \<open>The tail, and the finished break\<close>

lemma tail_best_unskipped:
  assumes "tail_best w policy podMax cands st mode = Some r"
  shows "r \<in> set cands \<and> \<not> tail_skips w policy podMax True True st r"
proof -
  obtain allowRepeat relaxed where mode: "mode = (allowRepeat, relaxed)" by fastforce
  have "r \<in> set cands \<and> \<not> tail_skips w policy podMax allowRepeat relaxed st r"
    using assms unfolding tail_best_def mode prod.case
    by (induction cands arbitrary: r rule: rev_induct) (auto split: if_splits option.splits)
  then show ?thesis by (auto simp: tail_skips_def Let_def)
qed

lemma first_mode_result: "first_mode f xs = Some y \<Longrightarrow> \<exists>x\<in>set xs. f x = Some y"
  by (induction xs) (auto split: option.splits)

lemma widenTo_same [simp]: "po_Entries (widenTo pools rung p) = po_Entries p" "po_TotalMs (widenTo pools rung p) = po_TotalMs p"
  "po_CooldownRelaxed (widenTo pools rung p) = po_CooldownRelaxed p"
  by (simp_all add: widenTo_def)

lemma pod_inv_widen [simp]: "pod_inv parse_base catalog w policy base ahead (widenTo pools rung p, used) \<longleftrightarrow>
    pod_inv parse_base catalog w policy base ahead (p, used)"
  by (simp add: pod_inv_def)

definition tail_inv ::
  "(string \<Rightarrow> string option) \<Rightarrow> Clip list \<Rightarrow> BreakWindow \<Rightarrow> FillerPolicy \<Rightarrow> string set \<Rightarrow> PodEntry list \<Rightarrow> int \<Rightarrow> nat \<Rightarrow> tail_state \<Rightarrow> bool" where
  "tail_inv parse_base catalog w policy base ahead room n st \<longleftrightarrow>
     pod_inv parse_base catalog w policy base ahead (ta_pod st, ta_used st) \<and> 0 \<le> ta_remainingMs st \<and>
     po_TotalMs (ta_pod st) + ta_remainingMs st = room \<and> n \<le> length (po_Entries (ta_pod st))"

lemma tail_loop_inv:
  assumes "well_linked catalog"
    and cands: "\<forall>r\<in>set cands. Clip_ID (tc_Clip r) \<notin> base \<longrightarrow> from_catalog parse_base catalog w policy base (clipToEntry (tc_Clip r) w policy)"
  shows "tail_inv parse_base catalog w policy base ahead room k st \<Longrightarrow>
    tail_inv parse_base catalog w policy base ahead room k (tail_loop n pools w policy podMax cands st)"
proof (induction n arbitrary: st)
  case (Suc n)
  show ?case
  proof (cases "0 < ta_remainingMs st \<and> first_mode (tail_best w policy podMax cands st) tail_modes \<noteq> None")
    case True
    then obtain r where r: "first_mode (tail_best w policy podMax cands st) tail_modes = Some r" by blast
    obtain mode where "tail_best w policy podMax cands st mode = Some r" using first_mode_result [OF r] by blast
    then have pick: "r \<in> set cands" "\<not> tail_skips w policy podMax True True st r" using tail_best_unskipped by blast+
    have fresh: "Clip_ID (tc_Clip r) \<notin> ta_used st" "cl_DurationMs (tc_Clip r) \<le> ta_remainingMs st"
      using pick(2) by (auto simp: tail_skips_def Let_def taken_def)
    have inv: "pod_inv parse_base catalog w policy base ahead (ta_pod st, ta_used st)" using Suc.prems by (simp add: tail_inv_def)
    then have "Clip_ID (tc_Clip r) \<notin> base" using fresh(1) pod_inv_base by blast
    then have "from_catalog parse_base catalog w policy base (clipToEntry (tc_Clip r) w policy)" using cands pick(1) by blast
    then have "pod_inv parse_base catalog w policy base ahead (pod_append (clipToEntry (tc_Clip r) w policy) (ta_pod st, ta_used st))"
      using fresh(1) by (intro pod_inv_append [OF assms(1) inv]) simp_all
    then have "tail_inv parse_base catalog w policy base ahead room k (tail_add pools w policy r st)"
      using Suc.prems fresh(2) by (auto simp: tail_inv_def tail_add_def Let_def pod_append_def)
    then show ?thesis using Suc.IH True r by simp
  next
    case False
    then have "tail_loop (Suc n) pools w policy podMax cands st = st" by auto
    then show ?thesis using Suc.prems by simp
  qed
qed simp

lemma tail_candidates_from:
  assumes "r \<in> set (tail_candidates parse_base catalog (candidatePools parse_base catalog w policy) w policy used)" and "base \<subseteq> used"
    and "Clip_ID (tc_Clip r) \<notin> base"
  shows "from_catalog parse_base catalog w policy base (clipToEntry (tc_Clip r) w policy)"
proof -
  obtain ads seen where ads: "pool_candidates used 0 (candidatePools parse_base catalog w policy) {} = (ads, seen)" by fastforce
  obtain bookends seen' where bookends:
    "fresh_clips {} (sortByID (bookendCandidates parse_base catalog w policy used)) seen = (bookends, seen')" by fastforce
  consider (ad) c k where "(c, k) \<in> set ads" "tc_Clip r = c" | (bookend) "tc_Clip r \<in> set bookends"
    using assms(1) by (auto simp: tail_candidates_def ads bookends)
  then show ?thesis
  proof cases
    case ad
    then have "k < 3" "c \<in> set (snd (candidatePools parse_base catalog w policy ! k))"
      using pool_candidates_props(1) [OF ads] by auto
    then have "c \<in> set catalog \<and> ladder_admits parse_base w policy c" using candidatePools_admits by blast
    then show ?thesis using ad(2) assms(3) ladder_entry by blast
  next
    case bookend
    then have "tc_Clip r \<in> set (bookendCandidates parse_base catalog w policy used)"
      using fresh_clips_props(1) [OF bookends] by auto
    then show ?thesis using bookend_entry(1) assms(2) by blast
  qed
qed

lemma fillTail_props:
  assumes "well_linked catalog" and "pod_inv parse_base catalog w policy base ahead (p, used)"
    and "fillTail parse_base rng catalog (candidatePools parse_base catalog w policy) w policy room n share (p, used) g = ((p', used'), g')"
  shows "pod_inv parse_base catalog w policy base ahead (p', used')"
    and "po_TotalMs p' \<le> po_TotalMs p + max 0 room" and "length (po_Entries p) \<le> length (po_Entries p')"
proof -
  let ?cands = "tail_candidates parse_base catalog (candidatePools parse_base catalog w policy) w policy used"
  have "pod_inv parse_base catalog w policy base ahead (p', used') \<and> po_TotalMs p' \<le> po_TotalMs p + max 0 room \<and>
      length (po_Entries p) \<le> length (po_Entries p')"
  proof (cases "room \<le> 0 \<or> ?cands = []")
    case True
    then have "p' = p \<and> used' = used" using assms(3) unfolding fillTail_def Let_def by (cases "room \<le> 0") simp_all
    then show ?thesis using assms(2) by simp
  next
    case False
    obtain cands g1 where shuffled: "rng_Shuffle rng ?cands g = (cands, g1)" by fastforce
    define st0 where "st0 = \<lparr>ta_pod = p, ta_used = used, ta_remainingMs = room, ta_adsPlaced = n,
        ta_lastCat = (if po_Entries p = [] then '''' else pe_Category (last (po_Entries p))), ta_share = share\<rparr>"
    define st where "st = tail_loop maxTailClips (candidatePools parse_base catalog w policy) w policy
        (if bw_PodMax w \<le> 0 then 4 else bw_PodMax w) cands st0"
    have "\<forall>r\<in>set cands. Clip_ID (tc_Clip r) \<notin> base \<longrightarrow> from_catalog parse_base catalog w policy base (clipToEntry (tc_Clip r) w policy)"
      using tail_candidates_from pod_inv_base [OF assms(2)] set_rng_Shuffle [OF shuffled] by blast
    moreover have "tail_inv parse_base catalog w policy base ahead (po_TotalMs p + room) (length (po_Entries p)) st0"
      using assms(2) False by (simp add: tail_inv_def st0_def)
    ultimately have "tail_inv parse_base catalog w policy base ahead (po_TotalMs p + room) (length (po_Entries p)) st"
      unfolding st_def by (rule tail_loop_inv [OF assms(1)])
    moreover have "((p', used'), g') = ((ta_pod st, ta_used st), g1)"
      unfolding assms(3) [symmetric] st_def st0_def using False shuffled by (simp add: fillTail_def Let_def)
    ultimately show ?thesis using False by (auto simp: tail_inv_def)
  qed
  then show "pod_inv parse_base catalog w policy base ahead (p', used')"
    "po_TotalMs p' \<le> po_TotalMs p + max 0 room" "length (po_Entries p) \<le> length (po_Entries p')" by blast+
qed

text \<open>The bookends a plan may keep: clips of the catalogue not held back that fit the gap together.\<close>

definition bookends_ok ::
  "(string \<Rightarrow> string option) \<Rightarrow> Clip list \<Rightarrow> BreakWindow \<Rightarrow> FillerPolicy \<Rightarrow> string set \<Rightarrow> PodEntry option \<times> PodEntry option \<Rightarrow> bool" where
  "bookends_ok parse_base catalog w policy used = (\<lambda>(intro, ret).
     (case intro of None \<Rightarrow> True | Some e \<Rightarrow> from_catalog parse_base catalog w policy used e \<and> pe_DurationMs e \<le> bw_GapMs w) \<and>
     (case ret of None \<Rightarrow> True
      | Some e \<Rightarrow> from_catalog parse_base catalog w policy used e \<and>
          pe_Hash e \<notin> (case intro of None \<Rightarrow> used | Some i \<Rightarrow> reserve used i) \<and>
          (case intro of None \<Rightarrow> 0 | Some i \<Rightarrow> pe_DurationMs i) + pe_DurationMs e \<le> bw_GapMs w))"

lemma pod_inv_empty [simp]: "pod_inv parse_base catalog w policy base [] (empty_pod, used) \<longleftrightarrow> base \<subseteq> used"
  by (auto simp: pod_inv_def empty_pod_def)

lemma break_start_props:
  assumes "well_linked catalog" and "bookends_ok parse_base catalog w policy used (intro, ret)" and "break_start used intro ret = (p, used')"
  shows "pod_inv parse_base catalog w policy used (case ret of None \<Rightarrow> [] | Some e \<Rightarrow> [e]) (p, used')"
proof -
  define st where "st = (case intro of Some e \<Rightarrow> pod_append e (empty_pod, used) | None \<Rightarrow> (empty_pod, used))"
  have intro: "pod_inv parse_base catalog w policy used [] st \<and> snd st = (case intro of None \<Rightarrow> used | Some i \<Rightarrow> reserve used i)"
  proof (cases intro)
    case (Some e)
    have source: "from_catalog parse_base catalog w policy used e" using assms(2) Some by (simp add: bookends_ok_def)
    have "pod_inv parse_base catalog w policy used [] (pod_append e (empty_pod, used))"
      by (rule pod_inv_append [OF assms(1) _ source from_catalog_hash [OF source]]) simp
    then show ?thesis using Some by (simp add: st_def pod_append_def)
  qed (simp add: st_def)
  have start: "(p, used') = (case ret of Some e \<Rightarrow> (fst st, reserve (snd st) e) | None \<Rightarrow> st)"
    using assms(3) unfolding break_start_def Let_def st_def [symmetric] by (rule sym)
  show ?thesis
  proof (cases ret)
    case (Some e)
    have "from_catalog parse_base catalog w policy used e" "pe_Hash e \<notin> snd st" using assms(2) Some intro by (simp_all add: bookends_ok_def)
    moreover have "pod_inv parse_base catalog w policy used [] (fst st, snd st)" unfolding prod.collapse using intro by (rule conjunct1)
    ultimately have "pod_inv parse_base catalog w policy used [e] (fst st, reserve (snd st) e)"
      by (intro pod_inv_hold [OF assms(1)])
    then show ?thesis using Some start by simp
  qed (use intro start in simp)
qed

lemma pod_inv_close:
  assumes "pod_inv parse_base catalog w policy base [e] (p, used)"
  shows "pod_inv parse_base catalog w policy base [] (pod_append e (p, used))"
proof -
  have "used \<subseteq> reserve used e" by (auto simp: reserve_def Let_def)
  moreover have "sorted_wrt entries_apart (po_Entries p @ [e])"
    by (rule sorted_wrt_perm [rotated, of _ "e # po_Entries p"]) (use assms entries_apart_sym in \<open>auto simp: pod_inv_def\<close>)
  ultimately show ?thesis using assms held_back_mono by (auto simp: pod_inv_def pod_append_def)
qed

text \<open>The content of a break before its tail: pins and commercials, and what they leave.\<close>

lemma break_fill_props:
  assumes "well_linked catalog" and inv: "pod_inv parse_base catalog w policy base ahead (p, used)"
    and result: "break_fill parse_base rng catalog w policy gap pins (p, used) g = (cs, share, (p', used'), g')"
  shows "pod_inv parse_base catalog w policy base ahead (p', used')"
    and "po_TotalMs p' = po_TotalMs p + clips_ms cs" and "cs \<noteq> [] \<Longrightarrow> po_TotalMs p' \<le> gap"
    and "length (po_Entries p') = length (po_Entries p) + length cs"
proof -
  let ?pools = "candidatePools parse_base catalog w policy" and ?n = "bw_PodMax w - int (length pins)"
  obtain level cs1 share1 g1 where filled:
    "(if ?n > 0 then fillCommercials rng ?pools (w\<lparr>bw_GapMs := gap - po_TotalMs p, bw_PodMax := ?n\<rparr>) policy used (share_of pins w) g
      else (MatchNone, [], share_of pins w, g)) = (level, cs1, share1, g1)" by (rule prod_cases4)
  obtain p1 used1 where clips: "add_clips cs1 w policy (p, used) = (p1, used1)" by fastforce
  have out: "cs = cs1" "p' = p1\<lparr>po_MatchLevel := (if level = MatchNone then MatchExact else level)\<rparr>" "used' = used1"
    using result unfolding break_fill_def Let_def fst_conv snd_conv candidatePools_GapMs filled prod.case clips by simp_all
  have "pod_inv parse_base catalog w policy base ahead (p1, used1) \<and> po_TotalMs p1 = po_TotalMs p + clips_ms cs1 \<and>
      (cs1 \<noteq> [] \<longrightarrow> clips_ms cs1 \<le> gap - po_TotalMs p) \<and> length (po_Entries p1) = length (po_Entries p) + length cs1"
  proof (cases "?n > 0")
    case True
    then have "fillCommercials rng ?pools (w\<lparr>bw_GapMs := gap - po_TotalMs p, bw_PodMax := ?n\<rparr>) policy used (share_of pins w) g =
        (level, cs1, share1, g1)" using filled by simp
    from add_commercials_props [OF assms(1) inv this] show ?thesis by (simp add: clips)
  next
    case False
    then have "cs1 = []" using filled by simp
    then show ?thesis using inv clips by (simp add: add_clips_def)
  qed
  then show "pod_inv parse_base catalog w policy base ahead (p', used')"
    "po_TotalMs p' = po_TotalMs p + clips_ms cs" "cs \<noteq> [] \<Longrightarrow> po_TotalMs p' \<le> gap"
    "length (po_Entries p') = length (po_Entries p) + length cs"
    by (auto simp: out pod_inv_level)
qed

lemma assembleBreak_props:
  assumes "well_linked catalog" and bookends: "bookends_ok parse_base catalog w policy used (intro, ret)"
    and result: "assembleBreak parse_base rng catalog w policy used intro ret g = (Some (pod, used'), g')"
  shows "pod_inv parse_base catalog w policy used [] (pod, used')" and "po_TotalMs pod \<le> bw_GapMs w" and "po_Entries pod \<noteq> []"
proof -
  let ?ahead = "case ret of None \<Rightarrow> [] | Some e \<Rightarrow> [e]" and ?gap = "break_gap w ret"
  obtain p1 used1 where start: "break_start used intro ret = (p1, used1)" by fastforce
  note inv1 = break_start_props [OF assms(1) bookends start]
  obtain pins used2 where pins: "pickPinned catalog (w\<lparr>bw_GapMs := ?gap - po_TotalMs p1\<rparr>) policy used1 = (pins, used2)" by fastforce
  note added = add_pins_props [OF assms(1) inv1 pins]
  obtain p3 used3 where st3: "add_pins pins w policy (p1, used2) = (p3, used3)" by fastforce
  obtain cs share p5 used5 g5 where filled: "break_fill parse_base rng catalog w policy ?gap pins (p3, used3) g = (cs, share, (p5, used5), g5)"
    by (metis prod.collapse)
  have inv3: "pod_inv parse_base catalog w policy used ?ahead (p3, used3)" using added(1) by (simp add: st3)
  note fill = break_fill_props [OF assms(1) inv3 filled]
  obtain p7 used7 g7 where tail: "fillTail parse_base rng catalog (candidatePools parse_base catalog w policy) w policy
      (?gap - po_TotalMs p5) (int (length pins + length cs)) share (p5, used5) g5 = ((p7, used7), g7)" by (metis prod.collapse)
  note tailed = fillTail_props [OF assms(1) fill(1) tail]
  have content: "\<not> (pins = [] \<and> cs = [])" and
    out: "(pod, used') = (case ret of Some e \<Rightarrow> pod_append e (stationSegmentLast p7, used7) | None \<Rightarrow> (stationSegmentLast p7, used7))"
    using result unfolding assembleBreak_def Let_def start prod.case pins st3 filled fst_conv tail by (auto split: if_splits)
  have inv8: "pod_inv parse_base catalog w policy used ?ahead (stationSegmentLast p7, used7)"
    unfolding stationSegmentLast_def by (rule pod_inv_reorder [OF tailed(1) segment_last_mset])
  have gap: "po_TotalMs p7 \<le> ?gap"
  proof -
    have "po_TotalMs p5 \<le> ?gap" using content added(3,4) fill(2,3) by (cases "cs = []") (auto simp: st3)
    then show ?thesis using tailed(2) by simp
  qed
  have "po_Entries p7 \<noteq> []" using content added(2) fill(4) tailed(3) by (auto simp: st3)
  then have "po_Entries (stationSegmentLast p7) \<noteq> []"
    by (metis Pod.select_convs(1) Pod.surjective Pod.update_convs(1) mset_zero_iff segment_last_mset stationSegmentLast_def)
  then show "po_Entries pod \<noteq> []" using out by (auto simp: pod_append_def split: option.splits)
  show "pod_inv parse_base catalog w policy used [] (pod, used')"
    using inv8 pod_inv_close out by (cases ret) auto
  show "po_TotalMs pod \<le> bw_GapMs w"
    using gap out by (auto simp: break_gap_def stationSegmentLast_def pod_append_def split: option.splits)
qed

lemma station_fill_props:
  assumes "well_linked catalog" and "\<forall>c\<in>set cs. Clip_ID c \<notin> base \<longrightarrow> from_catalog parse_base catalog w policy base (clipToEntry c w policy)"
  shows "pod_inv parse_base catalog w policy base [] st \<Longrightarrow> po_TotalMs (fst st) + room \<le> gap \<Longrightarrow> 0 \<le> room \<Longrightarrow>
    pod_inv parse_base catalog w policy base [] (station_fill w policy cs room st) \<and>
    po_TotalMs (fst (station_fill w policy cs room st)) \<le> gap"
  using assms(2)
proof (induction cs arbitrary: room st)
  case (Cons c cs)
  obtain p used where st: "st = (p, used)" by fastforce
  have rest: "\<forall>c\<in>set cs. Clip_ID c \<notin> base \<longrightarrow> from_catalog parse_base catalog w policy base (clipToEntry c w policy)" using Cons.prems(4) by simp
  consider (full) "length (po_Entries p) \<ge> maxTailClips"
    | (skip) "\<not> length (po_Entries p) \<ge> maxTailClips" "Clip_ID c \<in> used \<or> cl_DurationMs c \<le> 0 \<or> cl_DurationMs c > room"
    | (add) "\<not> length (po_Entries p) \<ge> maxTailClips" "Clip_ID c \<notin> used" "0 < cl_DurationMs c" "cl_DurationMs c \<le> room"
    by linarith
  then show ?case
  proof cases
    case add
    have "base \<subseteq> used" by (rule pod_inv_base) (use Cons.prems(1) in \<open>simp add: st\<close>)
    then have "Clip_ID c \<notin> base" using add(2) by blast
    then have "from_catalog parse_base catalog w policy base (clipToEntry c w policy)" using Cons.prems(4) by simp
    then have inv: "pod_inv parse_base catalog w policy base [] (pod_append (clipToEntry c w policy) st)"
      using Cons.prems(1) add(2) unfolding st by (intro pod_inv_append [OF assms(1)]) simp_all
    have "po_TotalMs (fst (pod_append (clipToEntry c w policy) st)) = po_TotalMs p + cl_DurationMs c" by (simp add: st pod_append_def)
    then have "pod_inv parse_base catalog w policy base [] (station_fill w policy cs (room - cl_DurationMs c) (pod_append (clipToEntry c w policy) st)) \<and>
        po_TotalMs (fst (station_fill w policy cs (room - cl_DurationMs c) (pod_append (clipToEntry c w policy) st))) \<le> gap"
      using Cons.prems(2) add(4) by (intro Cons.IH [OF inv _ _ rest]) (simp_all add: st)
    then show ?thesis using add by (simp add: st)
  next
    case skip
    then have "station_fill w policy (c # cs) room st = station_fill w policy cs room st" by (auto simp: st)
    then show ?thesis using Cons.IH [OF Cons.prems(1-3) rest] by simp
  next
    case full
    then show ?thesis using Cons.prems by (simp add: st)
  qed
qed simp

lemma stationBreak_props:
  assumes "well_linked catalog" and "stationBreak parse_base rng catalog w policy used g = (Some (pod, used'), g')" and "0 \<le> bw_GapMs w"
  shows "pod_inv parse_base catalog w policy used [] (pod, used')" and "po_TotalMs pod \<le> bw_GapMs w" and "po_Entries pod \<noteq> []"
proof -
  let ?candidates = "bookendCandidates parse_base catalog w policy used"
  obtain cands g1 where shuffled: "rng_Shuffle rng (sortByID ?candidates) g = (cands, g1)" by fastforce
  define st where "st = station_fill w policy (sort_by (rotationLess w policy) cands) (bw_GapMs w) (empty_pod, used)"
  have "\<forall>c\<in>set (sort_by (rotationLess w policy) cands). Clip_ID c \<notin> used \<longrightarrow>
      from_catalog parse_base catalog w policy used (clipToEntry c w policy)"
    using set_rng_Shuffle [OF shuffled] bookend_entry(1) by auto
  then have "pod_inv parse_base catalog w policy used [] st \<and> po_TotalMs (fst st) \<le> bw_GapMs w"
    unfolding st_def
    by (intro station_fill_props [OF assms(1)]) (use assms(3) in \<open>simp_all add: empty_pod_def [THEN arg_cong [where f = po_TotalMs]]\<close>)
  moreover have "st = (pod, used')" "po_Entries (fst st) \<noteq> []"
    using assms(2) unfolding stationBreak_def Let_def shuffled prod.case st_def [symmetric] by (simp_all split: if_splits)
  ultimately show "pod_inv parse_base catalog w policy used [] (pod, used')" "po_TotalMs pod \<le> bw_GapMs w" "po_Entries pod \<noteq> []"
    by simp_all
qed

lemma try_plans_result:
  "try_plans parse_base rng catalog w policy used plans g = (Some result, g') \<Longrightarrow>
   \<exists>intro ret h h'. (intro, ret) \<in> set plans \<and> assembleBreak parse_base rng catalog w policy used intro ret h = (Some result, h')"
proof (induction plans arbitrary: g)
  case (Cons plan plans)
  obtain intro ret where plan: "plan = (intro, ret)" by fastforce
  obtain r g1 where r: "assembleBreak parse_base rng catalog w policy used intro ret g = (r, g1)" by fastforce
  show ?case
  proof (cases r)
    case None
    then have "try_plans parse_base rng catalog w policy used plans g1 = (Some result, g')"
      using Cons.prems r plan by (simp add: Let_def)
    from Cons.IH [OF this] show ?thesis by (meson list.set_intros(2))
  next
    case (Some x)
    then have "r = Some result" using Cons.prems r plan by (simp add: Let_def)
    then show ?thesis using r plan by (meson list.set_intros(1))
  qed
qed simp

lemma bookend_plans_ok:
  assumes "bookends_ok parse_base catalog w policy used (intro, ret)" and "plan \<in> set (bookend_plans intro ret)"
  shows "bookends_ok parse_base catalog w policy used plan"
  using assms by (auto simp: bookend_plans_def bookends_ok_def split: option.splits if_splits)

text \<open>
  The finished break: the embedded card alone, or a pod of the channel's clips that keeps the invariant
  and fits the gap.
\<close>

definition finished_break ::
  "(string \<Rightarrow> string option) \<Rightarrow> Clip list \<Rightarrow> BreakWindow \<Rightarrow> FillerPolicy \<Rightarrow> string set \<Rightarrow> Pod \<Rightarrow> bool" where
  "finished_break parse_base catalog w policy base pod \<longleftrightarrow>
     po_Entries pod \<noteq> [] \<and>
     (po_Entries pod = [FallbackCard] \<and> po_TotalMs pod = pe_DurationMs FallbackCard \<and> po_MatchLevel pod = MatchBumperCard \<or>
      po_TotalMs pod \<le> bw_GapMs w \<and> (\<exists>used. pod_inv parse_base catalog w policy base [] (pod, used)))"

lemma Assemble_finished:
  assumes "well_linked (break_catalog catalog w policy)" and "0 \<le> bw_GapMs w"
    and "Assemble parse_base rng seeded catalog w policy used = (pod, used')"
  shows "finished_break parse_base (break_catalog catalog w policy) w policy (used \<union> set (bw_Excluded w)) pod"
proof -
  let ?catalog = "break_catalog catalog w policy" and ?base = "used \<union> set (bw_Excluded w)"
  obtain intro0 g1 where intro0: "pickBumper parse_base rng ?catalog w policy (insert stationSegmentKey ?base) (seeded (bw_Seed w)) = (intro0, g1)"
    by fastforce
  define intro where "intro = (case map_option (\<lambda>c. clipToEntry c w policy) intro0 of
      Some e \<Rightarrow> if pe_DurationMs e > bw_GapMs w then None else Some e | None \<Rightarrow> None)"
  define after where "after = (case intro of Some e \<Rightarrow> reserve ?base e | None \<Rightarrow> ?base)"
  obtain ret0 g2 where ret0: "pickBumper parse_base rng ?catalog w policy after g1 = (ret0, g2)" by fastforce
  define ret where "ret = (case map_option (\<lambda>c. clipToEntry c w policy) ret0 of
      Some e \<Rightarrow> if (case intro of Some e \<Rightarrow> pe_DurationMs e | None \<Rightarrow> 0) + pe_DurationMs e > bw_GapMs w then None else Some e | None \<Rightarrow> None)"
  obtain result g3 where plans: "try_plans parse_base rng ?catalog w policy ?base (bookend_plans intro ret) g2 = (result, g3)" by fastforce
  have base_after: "?base \<subseteq> after" by (auto simp: after_def reserve_def Let_def split: option.splits)
  have ok: "bookends_ok parse_base ?catalog w policy ?base (intro, ret)"
  proof -
    have "from_catalog parse_base ?catalog w policy ?base e \<and> pe_DurationMs e \<le> bw_GapMs w" if e: "intro = Some e" for e
    proof -
      obtain c where c: "intro0 = Some c" "e = clipToEntry c w policy" "pe_DurationMs e \<le> bw_GapMs w"
        using e by (auto simp: intro_def split: option.splits if_splits)
      have "c \<in> set (bookendCandidates parse_base ?catalog w policy (insert stationSegmentKey ?base))"
        using intro0 c(1) by (intro pickBumper_candidate) simp
      then have "from_catalog parse_base ?catalog w policy ?base (clipToEntry c w policy)" by (rule bookend_entry(1)) blast
      then show ?thesis using c by simp
    qed
    moreover have "from_catalog parse_base ?catalog w policy ?base e \<and> pe_Hash e \<notin> after \<and>
        (case intro of Some i \<Rightarrow> pe_DurationMs i | None \<Rightarrow> 0) + pe_DurationMs e \<le> bw_GapMs w" if e: "ret = Some e" for e
    proof -
      obtain c where c: "ret0 = Some c" "e = clipToEntry c w policy"
          "(case intro of Some i \<Rightarrow> pe_DurationMs i | None \<Rightarrow> 0) + pe_DurationMs e \<le> bw_GapMs w"
        using e by (auto simp: ret_def split: option.splits if_splits)
      have candidate: "c \<in> set (bookendCandidates parse_base ?catalog w policy after)"
        using ret0 c(1) by (intro pickBumper_candidate) simp
      have "from_catalog parse_base ?catalog w policy ?base (clipToEntry c w policy)" by (rule bookend_entry(1) [OF candidate base_after])
      moreover have "Clip_ID c \<notin> after" by (rule bookend_entry(2) [OF candidate base_after])
      ultimately show ?thesis using c by simp
    qed
    ultimately show ?thesis unfolding bookends_ok_def after_def by (auto split: option.splits)
  qed
  have out: "(pod, used') = (case result of
        Some (pod, trial) \<Rightarrow> (pod, ?base \<union> trial)
      | None \<Rightarrow> (case fst (stationBreak parse_base rng ?catalog w policy ?base g3) of
            Some (pod, trial) \<Rightarrow> (pod, ?base \<union> trial)
          | None \<Rightarrow> pod_append FallbackCard (empty_pod, ?base)))"
    using assms(3) unfolding Assemble_def Let_def intro0 prod.case intro_def [symmetric] after_def [symmetric] ret0 ret_def [symmetric] plans
    by simp
  show ?thesis
  proof (cases result)
    case (Some r)
    obtain trial where r: "r = (pod, trial)" using out Some by (cases r) auto
    obtain i t h h' where plan: "(i, t) \<in> set (bookend_plans intro ret)"
        "assembleBreak parse_base rng ?catalog w policy ?base i t h = (Some (pod, trial), h')"
      using try_plans_result [OF plans [unfolded Some r]] by blast
    note finished = assembleBreak_props [OF assms(1) bookend_plans_ok [OF ok plan(1)] plan(2)]
    show ?thesis unfolding finished_break_def using finished by blast
  next
    case None
    show ?thesis
    proof (cases "stationBreak parse_base rng ?catalog w policy ?base g3")
      case (Pair station g4)
      show ?thesis
      proof (cases station)
        case (Some r)
        then obtain trial where "r = (pod, trial)" using out None Pair by (cases r) auto
        then have "stationBreak parse_base rng ?catalog w policy ?base g3 = (Some (pod, trial), g4)" using Pair Some by simp
        note station = stationBreak_props [OF assms(1) this assms(2)]
        show ?thesis unfolding finished_break_def using station by blast
      next
        case None
        then have "(pod, used') = pod_append FallbackCard (empty_pod, ?base)" using out \<open>result = None\<close> Pair by simp
        then show ?thesis by (simp add: finished_break_def pod_append_def empty_pod_def)
      qed
    qed
  qed
qed

subsection \<open>What a break promises\<close>

lemma break_catalog_clip:
  "c \<in> set (break_catalog catalog w policy) \<longleftrightarrow>
     c \<in> set catalog \<and> GeographicallyEligible c (policy_area policy (bw_Geography w)) \<and>
     kind_allowed (bw_Kinds w) (ar_Stations (policy_area policy (bw_Geography w))) c"
  by (auto simp: break_catalog_def Let_def filterKinds_def set_filterGeography)

lemma Assemble_entry:
  assumes "well_linked (break_catalog catalog w policy)" and "0 \<le> bw_GapMs w"
    and "e \<in> set (po_Entries (fst (Assemble parse_base rng seeded catalog w policy used)))"
  shows "e = FallbackCard \<or>
    (\<exists>c\<in>set catalog. shows_clip w policy e c \<and> GeographicallyEligible c (policy_area policy (bw_Geography w)) \<and>
       kind_allowed (bw_Kinds w) (ar_Stations (policy_area policy (bw_Geography w))) c \<and>
       Clip_ID c \<notin> used \<and> Clip_ID c \<notin> set (bw_Excluded w) \<and>
       (if pe_RotationPinned e then Clip_ID c \<in> set (bw_Pinned w) \<and> durationEligible c policy
        else \<not> outOfSeason c w \<and> speaksTheChannelsLanguage parse_base c w policy \<and>
             (if IsBumper c then True
              else EffectivePlacement c = PlacementBreakBody \<and> durationEligible c policy \<and> qualityEligible c policy \<and>
                   (if bw_Categories w = [] then True else in_categories (bw_Categories w) c) \<and>
                   bottom_audience (bw_Audience w) c \<and>
                   (if bw_Audience w = Kids then cl_Audience c \<in> {Kids, Family} else True))))"
proof -
  obtain pod used' where a: "Assemble parse_base rng seeded catalog w policy used = (pod, used')" by fastforce
  have kids: "bottom_audience Kids c \<longleftrightarrow> cl_Audience c = Kids \<or> cl_Audience c = Family" for c
    by (auto simp: bottom_audience_def fits_audience_def admitsUngroundedAudience_def)
  show ?thesis
  proof (cases "e = FallbackCard")
    case False
    then have "from_catalog parse_base (break_catalog catalog w policy) w policy (used \<union> set (bw_Excluded w)) e"
      using Assemble_finished [OF assms(1,2) a] assms(3) by (auto simp: a finished_break_def pod_inv_def)
    then obtain c where c: "c \<in> set (break_catalog catalog w policy)" "shows_clip w policy e c"
        "may_air parse_base w policy (pe_RotationPinned e) c" "Clip_ID c \<notin> used \<union> set (bw_Excluded w)"
      by (auto simp: from_catalog_def)
    then show ?thesis
      by (intro disjI2 bexI [of _ c]) (auto simp: kids break_catalog_clip may_air_def ladder_admits_def body_eligible_def)
  qed simp
qed

definition a_clip :: "string \<Rightarrow> Placement \<Rightarrow> int \<Rightarrow> Clip" where
  "a_clip hash placement ms =
     \<lparr>cl_Hash = hash, cl_Path = hash, cl_TunarrProgramID = '''', cl_Name = hash, cl_NameSource = NameFromSource,
      cl_Kind = (if placement = PlacementBookend then Bumper else Commercial), cl_Placement = placement, cl_Era = 1985,
      cl_Audience = General, cl_GeographicScope = GeographicNational, cl_Country = '''', cl_Station = '''',
      cl_Category = '''', cl_Tags = [], cl_AssertedTags = [], cl_DurationMs = ms, cl_Quality = '''', cl_Language = '''',
      cl_Brand = '''', cl_VisibleText = '''', cl_ParentHash = '''', cl_Variants = []\<rparr>"

definition a_policy :: FillerPolicy where
  "a_policy =
     \<lparr>fp_Geography = no_geography, fp_Language = '''', fp_LocalStations = None,
      fp_MinClipMs = 0, fp_MaxClipMs = 0, fp_MinQualityHeight = 0, fp_Cooldown = 0\<rparr>"

definition a_window :: "int \<Rightarrow> BreakWindow" where
  "a_window gap =
     \<lparr>bw_Seed = 1, bw_Era = \<lparr>er_From = 1980, er_To = 1989\<rparr>, bw_EraWindows = [], bw_Audience = AudienceUntagged,
      bw_Geography = no_geography, bw_Language = '''', bw_GapMs = gap, bw_PodMax = 4, bw_Categories = [], bw_Kinds = [],
      bw_Pinned = [''toys''], bw_Excluded = [''soap''], bw_Exposures = Map.empty, bw_SnapshotAt = 0, bw_Season = ([], [])\<rparr>"

definition a_catalog :: "Clip list" where
  "a_catalog = [a_clip ''ident'' PlacementBookend 5000, a_clip ''cereal'' PlacementBreakBody 30000,
     a_clip ''toys'' PlacementBreakBody 20000, a_clip ''soap'' PlacementBreakBody 15000]"

abbreviation first_choice :: "int source" where "first_choice \<equiv> (\<lambda>g n. (0, g))"

abbreviation a_pod :: Pod where
  "a_pod \<equiv> fst (Assemble (\<lambda>_. None) first_choice id a_catalog (a_window 90000) a_policy {})"

lemma a_pod_entries: "map pe_Hash (po_Entries a_pod) = [''ident'', ''toys'', ''cereal'']"
  by code_simp

lemma a_window_GapMs [simp]: "bw_GapMs (a_window gap) = gap"
  by (simp add: a_window_def)

lemma a_catalog_linked: "well_linked (break_catalog a_catalog (a_window gap) a_policy)"
  by (auto simp: well_linked_def break_catalog_clip a_catalog_def a_clip_def Clip_ID_def)

text \<open>
  C11. A break is never empty and never longer than its slot. Whatever the catalogue, the policy, the pins and
  the draws, an assembled pod has an entry, its length is the sum of its entries', and it fits the gap, unless
  it is the embedded card alone, which is not cut to a gap shorter than it.
\<close>

theorem Assemble_fits:
  assumes "well_linked (break_catalog catalog w policy)" and "0 \<le> bw_GapMs w"
  shows "let pod = fst (Assemble parse_base rng seeded catalog w policy used)
    in po_Entries pod \<noteq> [] \<and> po_TotalMs pod = entries_ms (po_Entries pod) \<and>
       (po_Entries pod = [FallbackCard] \<or> po_TotalMs pod \<le> bw_GapMs w)"
proof -
  obtain pod used' where a: "Assemble parse_base rng seeded catalog w policy used = (pod, used')" by fastforce
  from Assemble_finished [OF assms a] show ?thesis
    by (auto simp: a finished_break_def pod_inv_def)
qed

theorem Assemble_fits_witness:
  "po_Entries a_pod \<noteq> [] \<and> (po_Entries a_pod = [FallbackCard] \<or> po_TotalMs a_pod \<le> 90000) \<and> length (po_Entries a_pod) = 3"
proof -
  have "length (po_Entries a_pod) = 3" using arg_cong [OF a_pod_entries, of length] by simp
  then show ?thesis using Assemble_fits [OF a_catalog_linked, of 90000 "\<lambda>_. None" first_choice id "{}"]
    unfolding Let_def a_window_GapMs by (metis length_0_conv zero_le_numeral)
qed

text \<open>
  C3. Nothing reaches a viewer that a rule refuses. Every entry of an assembled pod other than the card is a
  clip of the catalogue that is inside the channel's geography, of a kind the channel takes, and neither
  excluded nor already aired in the window. A pinned one is of an allowed length; any other is in season and in
  the channel's language, and is a bookend or a break-body clip of an allowed length, quality, category and
  audience, so that on a kids channel it is a kids or a family clip.
\<close>

theorem Assemble_admits:
  assumes "well_linked (break_catalog catalog w policy)" and "0 \<le> bw_GapMs w"
    and "e \<in> set (po_Entries (fst (Assemble parse_base rng seeded catalog w policy used)))"
  shows "e = FallbackCard \<or>
    (\<exists>c\<in>set catalog. shows_clip w policy e c \<and> GeographicallyEligible c (policy_area policy (bw_Geography w)) \<and>
       kind_allowed (bw_Kinds w) (ar_Stations (policy_area policy (bw_Geography w))) c \<and>
       Clip_ID c \<notin> used \<and> Clip_ID c \<notin> set (bw_Excluded w) \<and>
       (if pe_RotationPinned e then Clip_ID c \<in> set (bw_Pinned w) \<and> durationEligible c policy
        else \<not> outOfSeason c w \<and> speaksTheChannelsLanguage parse_base c w policy \<and>
             (if IsBumper c then True
              else EffectivePlacement c = PlacementBreakBody \<and> durationEligible c policy \<and> qualityEligible c policy \<and>
                   (if bw_Categories w = [] then True else in_categories (bw_Categories w) c) \<and>
                   bottom_audience (bw_Audience w) c \<and>
                   (if bw_Audience w = Kids then cl_Audience c \<in> {Kids, Family} else True))))"
  using assms by (rule Assemble_entry)

theorem Assemble_admits_witness:
  "\<exists>c\<in>set a_catalog. shows_clip (a_window 90000) a_policy (hd (po_Entries a_pod)) c \<and> Clip_ID c \<notin> {''soap''}"
proof -
  have hash: "pe_Hash (hd (po_Entries a_pod)) = ''ident''" and "hd (po_Entries a_pod) \<in> set (po_Entries a_pod)"
    using a_pod_entries by (cases "po_Entries a_pod"; simp)+
  from Assemble_admits [OF a_catalog_linked _ this(2)] hash show ?thesis
    by (auto simp: FallbackCard_def a_window_def)
qed

text \<open>
  C10. A break never repeats itself. In an assembled pod no clip airs twice, and no two entries are versions of
  one ad, through bookends, pins, the ladder, the tail and the station segment's move to the end.
\<close>

theorem Assemble_no_repeat:
  assumes "well_linked (break_catalog catalog w policy)" and "0 \<le> bw_GapMs w"
  shows "sorted_wrt entries_apart (po_Entries (fst (Assemble parse_base rng seeded catalog w policy used)))"
proof -
  obtain pod used' where a: "Assemble parse_base rng seeded catalog w policy used = (pod, used')" by fastforce
  from Assemble_finished [OF assms a] show ?thesis
    by (auto simp: a finished_break_def pod_inv_def)
qed

theorem Assemble_no_repeat_witness:
  "sorted_wrt entries_apart (po_Entries a_pod) \<and> map pe_Hash (po_Entries a_pod) = [''ident'', ''toys'', ''cereal'']"
  using Assemble_no_repeat [OF a_catalog_linked, of 90000 "\<lambda>_. None" first_choice id "{}"] a_pod_entries by simp

end
