(* ===== verification/Fit.thy ===== *)
theory Fit
  imports Pods
begin

text \<open>
  What is asked of the break assembler: where one clip lands on one channel's ladder
  (\<^verbatim>\<open>internal/filler/fit.go\<close>), how well a catalogue covers a channel (\<^verbatim>\<open>coverage.go\<close>), and the adapter that
  turns a channel's selection into a window, sizes its pods and assembles a channel's breaks (\<^verbatim>\<open>adapter.go\<close>).

  The lemmas show that a fit note and the coverage counts agree with the pools a break draws from, that a clip
  refused by the note never airs, that the ceiling on the number of clips never binds below 64, and that every
  break of a channel fits its slot.
\<close>

subsection \<open>One clip against one channel\<close>

datatype FitReason =
  FitAccepted | FitKind | FitDuration | FitQuality | FitCategory | FitAudience | FitGeography | FitExcluded | FitSeason | FitLanguage

record Fit =
  ft_Level :: MatchLevel
  ft_Reason :: FitReason
  ft_Pinned :: bool
  ft_Excluded :: bool

definition FitFor :: "(string \<Rightarrow> string option) \<Rightarrow> Clip \<Rightarrow> BreakWindow \<Rightarrow> FillerPolicy \<Rightarrow> Fit" where
  "FitFor parse_base c w policy =
     (let fit = \<lparr>ft_Level = MatchBumperCard, ft_Reason = FitAccepted,
                 ft_Pinned = list_ex (\<lambda>i. i = Clip_ID c) (bw_Pinned w),
                 ft_Excluded = list_ex (\<lambda>i. i = Clip_ID c) (bw_Excluded w)\<rparr>;
          area = policy_area policy (bw_Geography w);
          one = [c]
      in if ft_Excluded fit then fit\<lparr>ft_Reason := FitExcluded\<rparr>
         else if \<not> GeographicallyEligible c area then fit\<lparr>ft_Reason := FitGeography\<rparr>
         else if filterKinds one (bw_Kinds w) (ar_Stations area) = [] then fit\<lparr>ft_Reason := FitKind\<rparr>
         else if EffectivePlacement c = PlacementBreakBody \<and> \<not> durationEligible c policy
              then fit\<lparr>ft_Reason := FitDuration\<rparr>
         else if ft_Pinned fit then fit
         else if \<not> speaksTheChannelsLanguage parse_base c w policy then fit\<lparr>ft_Reason := FitLanguage\<rparr>
         else if outOfSeason c w then fit\<lparr>ft_Reason := FitSeason\<rparr>
         else if EffectivePlacement c \<noteq> PlacementBreakBody then fit
         else if \<not> qualityEligible c policy then fit\<lparr>ft_Reason := FitQuality\<rparr>
         else if filterCategories one (bw_Categories w) = [] then fit\<lparr>ft_Reason := FitCategory\<rparr>
         else if filterAudienceWithUngrounded one (bw_Audience w) = [] then fit\<lparr>ft_Reason := FitAudience\<rparr>
         else if filterEraWindows one (eraWindows w) \<noteq> [] then fit\<lparr>ft_Level := MatchExact\<rparr>
         else if filterEraWindows one (widenEraWindows (eraWindows w)) \<noteq> [] then fit\<lparr>ft_Level := MatchWidened\<rparr>
         else fit\<lparr>ft_Level := MatchAudience\<rparr>)"

subsection \<open>Coverage\<close>

datatype Criterion =
  CriterionEra | CriterionAudience | CriterionCategory | CriterionKind | CriterionDuration | CriterionQuality
| CriterionGeography | CriterionLanguage

type_synonym CriterionCoverage = "Criterion \<times> nat"
type_synonym RungCoverage = "MatchLevel \<times> nat"

record CoverageReport =
  cv_Geography :: Geography
  cv_Language :: string
  cv_UndeterminedLanguage :: nat
  cv_Criteria :: "CriterionCoverage list"
  cv_Rungs :: "RungCoverage list"
  cv_Level :: MatchLevel
  cv_Total :: nat
  cv_DurationMs :: int
  cv_Categories :: nat
  cv_Brands :: nat
  cv_EraWindows :: "EraRange list"

definition exactClips :: "CoverageReport \<Rightarrow> nat" where
  "exactClips r = (case find (\<lambda>rung. fst rung = MatchExact) (cv_Rungs r) of Some rung \<Rightarrow> snd rung | None \<Rightarrow> 0)"

definition criterionCoverage ::
  "(string \<Rightarrow> string option) \<Rightarrow> Clip list \<Rightarrow> BreakWindow \<Rightarrow> FillerPolicy \<Rightarrow> CriterionCoverage list" where
  "criterionCoverage parse_base catalog w policy =
     (let body = filter (\<lambda>c. EffectivePlacement c = PlacementBreakBody) catalog;
          count = (\<lambda>keep. length (filter keep body));
          area = policy_area policy (bw_Geography w)
      in [(CriterionGeography, count (\<lambda>c. GeographicallyEligible c area)),
          (CriterionLanguage, count (\<lambda>c. speaksTheChannelsLanguage parse_base c w policy)),
          (CriterionEra, count (\<lambda>c. filterEraWindows [c] (eraWindows w) \<noteq> [])),
          (CriterionAudience, count (\<lambda>c. filterAudienceWithUngrounded [c] (bw_Audience w) \<noteq> [])),
          (CriterionCategory, count (\<lambda>c. filterCategories [c] (bw_Categories w) \<noteq> [])),
          (CriterionKind, count (\<lambda>c. filterKinds [c] (bw_Kinds w) (ar_Stations area) \<noteq> [])),
          (CriterionDuration, count (\<lambda>c. durationEligible c policy)),
          (CriterionQuality, count (\<lambda>c. qualityEligible c policy))])"

definition first_level :: "(MatchLevel \<times> Clip list) list \<Rightarrow> MatchLevel" where
  "first_level pools = (case find (\<lambda>p. snd p \<noteq> []) pools of Some p \<Rightarrow> fst p | None \<Rightarrow> MatchBumperCard)"

definition distinct_values :: "string list \<Rightarrow> nat" where
  "distinct_values xs = length (remdups (filter (\<lambda>x. x \<noteq> '''') xs))"

definition Coverage ::
  "(string \<Rightarrow> string option) \<Rightarrow> 'g source \<Rightarrow> (int \<Rightarrow> 'g) \<Rightarrow> Clip list \<Rightarrow> BreakWindow \<Rightarrow> FillerPolicy \<Rightarrow> CoverageReport" where
  "Coverage parse_base rng seeded catalog w policy =
     (let catalog = filter (\<lambda>c. Clip_ID c \<notin> set (bw_Excluded w)) catalog;
          criteria = criterionCoverage parse_base catalog w policy;
          undetermined = length (filter (\<lambda>c. EffectivePlacement c = PlacementBreakBody \<and>
            lang_Normalize parse_base (cl_Language c) = '''') catalog);
          fresh = w\<lparr>bw_Pinned := [], bw_Exposures := Map.empty, bw_SnapshotAt := 0\<rparr>;
          assembled = po_MatchLevel (fst (Assemble parse_base rng seeded catalog fresh policy {}));
          geography = effectiveGeography (bw_Geography w) (fp_Geography policy);
          area = Geography_Resolve geography (fp_LocalStations policy);
          catalog = filterGeography catalog area;
          catalog = filterKinds catalog (bw_Kinds w) (ar_Stations area);
          pools = candidatePools parse_base catalog w policy;
          windows = eraWindows w;
          widest = snd (last pools)
      in \<lparr>cv_Geography = Geography_Normalize geography,
          cv_Language = commercialLanguage parse_base w policy,
          cv_UndeterminedLanguage = undetermined,
          cv_Criteria = criteria,
          cv_Rungs = map (\<lambda>p. (fst p, length (snd p))) pools,
          cv_Level = (if assembled \<noteq> MatchBumperCard then assembled else first_level pools),
          cv_Total = length widest,
          cv_DurationMs = (\<Sum>c\<leftarrow>widest. cl_DurationMs c),
          cv_Categories = distinct_values (map cl_Category widest),
          cv_Brands = distinct_values (map cl_Brand widest),
          cv_EraWindows = (case windows of [] \<Rightarrow> [] | r # _ \<Rightarrow> if \<not> era_any r then NormalizeEraWindows windows else [])\<rparr>)"

subsection \<open>The pool strip\<close>

record ChannelCoverage =
  cc_ChannelID :: string
  cc_Name :: string
  cc_Number :: int
  cc_Report :: CoverageReport

definition levelRank :: "MatchLevel \<Rightarrow> nat" where
  "levelRank l =
     (case l of MatchBumperCard \<Rightarrow> 0 | MatchAudience \<Rightarrow> 1 | MatchWidened \<Rightarrow> 2 | MatchExact \<Rightarrow> 3 | _ \<Rightarrow> 4)"

definition LevelWorseThan :: "MatchLevel \<Rightarrow> MatchLevel \<Rightarrow> bool" where
  "LevelWorseThan a b \<longleftrightarrow> levelRank a < levelRank b"

definition worse_channel :: "ChannelCoverage \<Rightarrow> ChannelCoverage \<Rightarrow> bool" where
  "worse_channel a b =
     (let li = cv_Level (cc_Report a); lj = cv_Level (cc_Report b)
      in if li \<noteq> lj then LevelWorseThan li lj else cc_Number a < cc_Number b)"

definition OrderWorstFirst :: "ChannelCoverage list \<Rightarrow> ChannelCoverage list" where
  "OrderWorstFirst channels = sort_by worse_channel channels"

text \<open>The count of untagged clips is the store's.\<close>

record PoolReport =
  pr_Clips :: nat
  pr_BreakBody :: nat
  pr_Eligible :: nat
  pr_Bookends :: nat
  pr_Channels :: "ChannelCoverage list"

definition Weakest :: "PoolReport \<Rightarrow> ChannelCoverage option" where
  "Weakest p = (case pr_Channels p of [] \<Rightarrow> None | c # _ \<Rightarrow> Some c)"

definition count_clip :: "FillerPolicy \<Rightarrow> PoolReport \<Rightarrow> Clip \<Rightarrow> PoolReport" where
  "count_clip policy report c =
     (let report = (if IsBumper c then report\<lparr>pr_Bookends := pr_Bookends report + 1\<rparr> else report)
      in if EffectivePlacement c \<noteq> PlacementBreakBody then report
         else let report = report\<lparr>pr_BreakBody := pr_BreakBody report + 1\<rparr>
              in if durationEligible c policy then report\<lparr>pr_Eligible := pr_Eligible report + 1\<rparr> else report)"

definition PoolCounts :: "Clip list \<Rightarrow> FillerPolicy \<Rightarrow> PoolReport" where
  "PoolCounts catalog policy =
     foldl (count_clip policy)
       \<lparr>pr_Clips = length catalog, pr_BreakBody = 0, pr_Eligible = 0, pr_Bookends = 0, pr_Channels = []\<rparr> catalog"

subsection \<open>A channel's selection\<close>

record Selection =
  sl_Era :: EraRange
  sl_EraWindows :: "EraRange list"
  sl_Audience :: ClipAudience
  sl_Categories :: "string list"
  sl_Kinds :: "string list"
  sl_Pinned :: "string list"
  sl_Excluded :: "string list"
  sl_Geography :: Geography
  sl_Language :: string
  sl_BreakDurationMs :: int
  sl_Spacing :: "duration option"

text \<open>The policy's remaining fields: the floor on the pod's length, the break length and the calendar.\<close>

record PodPolicy =
  pp_Policy :: FillerPolicy
  pp_PodMax :: int
  pp_BreakDurationMs :: int
  pp_Calendar :: Calendar

abbreviation minBreakDurationMs :: int where "minBreakDurationMs \<equiv> 30000"
abbreviation defaultPodBreakMs :: int where "defaultPodBreakMs \<equiv> 120000"
abbreviation maxPodClips :: int where "maxPodClips \<equiv> 64"

definition ResolveBreakDurationMs :: "int \<Rightarrow> int \<Rightarrow> int" where
  "ResolveBreakDurationMs channelMs globalMs =
     (if channelMs \<ge> minBreakDurationMs then channelMs
      else if globalMs \<ge> minBreakDurationMs then globalMs
      else defaultPodBreakMs)"

definition effectiveBreakDurationMs :: "Selection \<Rightarrow> PodPolicy \<Rightarrow> int" where
  "effectiveBreakDurationMs sel pol = ResolveBreakDurationMs (sl_BreakDurationMs sel) (pp_BreakDurationMs pol)"

definition podMaxForDuration ::
  "(string \<Rightarrow> string option) \<Rightarrow> Clip list \<Rightarrow> BreakWindow \<Rightarrow> FillerPolicy \<Rightarrow> int \<Rightarrow> int \<Rightarrow> int" where
  "podMaxForDuration parse_base clips w pol configured targetMs =
     (let pools = candidatePools parse_base clips w pol;
          matched = snd (last pools)
      in if matched = [] then configured
         else let durations = filter (\<lambda>d. d > 0) (map cl_DurationMs matched)
              in case durations of
                   [] \<Rightarrow> configured
                 | d # ds \<Rightarrow>
                     let shortest = foldl min d ds;
                         required = min ((targetMs + shortest - 1) sdiv shortest) maxPodClips
                     in if required > configured then required else configured)"

definition windowFor :: "int \<Rightarrow> Selection \<Rightarrow> int \<Rightarrow> int \<Rightarrow> HolidaySeason \<Rightarrow> BreakWindow" where
  "windowFor seed sel podMax breakDurationMs season =
     \<lparr>bw_Seed = seed, bw_Era = sl_Era sel, bw_EraWindows = sl_EraWindows sel, bw_Audience = sl_Audience sel,
      bw_Geography = sl_Geography sel, bw_Language = sl_Language sel, bw_GapMs = breakDurationMs, bw_PodMax = podMax,
      bw_Categories = sl_Categories sel, bw_Kinds = sl_Kinds sel, bw_Pinned = sl_Pinned sel,
      bw_Excluded = sl_Excluded sel, bw_Exposures = Map.empty, bw_SnapshotAt = 0, bw_Season = season\<rparr>"

definition filler_seasonAt :: "gotime \<Rightarrow> PodPolicy \<Rightarrow> gotime \<Rightarrow> HolidaySeason" where
  "filler_seasonAt now pol t = (let t = (if is_zero_time t then now else t) in SeasonAt (pp_Calendar pol) t)"

record PodBreak =
  pb_Seed :: int
  pb_Start :: gotime
  pb_Length :: duration
  pb_yearRound :: bool

subsection \<open>Assembling a channel's breaks\<close>

definition break_length_ms :: "PodBreak \<Rightarrow> Selection \<Rightarrow> PodPolicy \<Rightarrow> int" where
  "break_length_ms b sel pol = (if pb_Length b > 0 then milliseconds (pb_Length b) else effectiveBreakDurationMs sel pol)"

definition spaced_policy :: "Selection \<Rightarrow> FillerPolicy \<Rightarrow> FillerPolicy" where
  "spaced_policy sel policy =
     (case sl_Spacing sel of Some d \<Rightarrow> if d \<ge> 0 then policy\<lparr>fp_Cooldown := d\<rparr> else policy | None \<Rightarrow> policy)"

definition configured_max :: "PodPolicy \<Rightarrow> int" where
  "configured_max pol = (if pp_PodMax pol \<le> 0 then 4 else pp_PodMax pol)"

definition break_window ::
  "(string \<Rightarrow> string option) \<Rightarrow> gotime \<Rightarrow> Clip list \<Rightarrow> AiringHistory option \<Rightarrow> PodBreak \<Rightarrow> Selection \<Rightarrow> PodPolicy \<Rightarrow> BreakWindow" where
  "break_window parse_base now clips history b sel pol =
     (let breakDurationMs = break_length_ms b sel pol;
          policy = spaced_policy sel (pp_Policy pol);
          podMax = configured_max pol;
          season = (if pb_yearRound b then ([], []) else filler_seasonAt now pol (pb_Start b));
          w = windowFor (pb_Seed b) sel podMax breakDurationMs season;
          w = (case history of
                 Some h \<Rightarrow> w\<lparr>bw_Exposures := ExposuresBefore h (pb_Start b), bw_SnapshotAt := pb_Start b\<rparr>
               | None \<Rightarrow> w)
      in w\<lparr>bw_PodMax := podMaxForDuration parse_base clips w policy podMax breakDurationMs\<rparr>)"

definition pod_assemble ::
  "(string \<Rightarrow> string option) \<Rightarrow> 'g source \<Rightarrow> (int \<Rightarrow> 'g) \<Rightarrow> gotime \<Rightarrow> Clip list \<Rightarrow> AiringHistory option \<Rightarrow> PodBreak \<Rightarrow>
   Selection \<Rightarrow> PodPolicy \<Rightarrow> Pod" where
  "pod_assemble parse_base rng seeded now clips history b sel pol =
     fst (Assemble parse_base rng seeded clips (break_window parse_base now clips history b sel pol) (spaced_policy sel (pp_Policy pol)) {})"

text \<open>The zero \<^verbatim>\<open>Pod\<close>: no entry and no level.\<close>

definition zero_pod :: Pod where
  "zero_pod = \<lparr>po_Entries = [], po_TotalMs = 0, po_MatchLevel = MatchNone, po_CooldownRelaxed = False\<rparr>"

text \<open>
  The store is read through two calls that may fail, the catalogue and, where the adapter has one, the airing
  history: their results are arguments.
\<close>

definition PreviewAtMany ::
  "(string \<Rightarrow> string option) \<Rightarrow> 'g source \<Rightarrow> (int \<Rightarrow> 'g) \<Rightarrow> gotime \<Rightarrow> string + Clip list \<Rightarrow> (string + AiringHistory) option \<Rightarrow>
   Selection \<Rightarrow> PodBreak list \<Rightarrow> PodPolicy \<Rightarrow> string + Pod list" where
  "PreviewAtMany parse_base rng seeded now catalog airings sel breaks pol =
     (if breaks = [] then Inr []
      else case catalog of
             Inl err \<Rightarrow> Inl err
           | Inr clips \<Rightarrow>
               if clips = [] then Inr (replicate (length breaks) zero_pod)
               else case airings of
                      None \<Rightarrow> Inr (map (\<lambda>b. pod_assemble parse_base rng seeded now clips None b sel pol) breaks)
                    | Some (Inl err) \<Rightarrow> Inl err
                    | Some (Inr h) \<Rightarrow> Inr (map (\<lambda>b. pod_assemble parse_base rng seeded now clips (Some h) b sel pol) breaks))"

definition previewAt ::
  "(string \<Rightarrow> string option) \<Rightarrow> 'g source \<Rightarrow> (int \<Rightarrow> 'g) \<Rightarrow> gotime \<Rightarrow> string + Clip list \<Rightarrow> (string + AiringHistory) option \<Rightarrow>
   int \<Rightarrow> Selection \<Rightarrow> gotime \<Rightarrow> PodPolicy \<Rightarrow> string + Pod" where
  "previewAt parse_base rng seeded now catalog airings seed sel breakStart pol =
     (case PreviewAtMany parse_base rng seeded now catalog airings sel
             [\<lparr>pb_Seed = seed, pb_Start = breakStart, pb_Length = 0, pb_yearRound = False\<rparr>] pol of
        Inl err \<Rightarrow> Inl err
      | Inr pods \<Rightarrow> Inr (hd pods))"

definition HasPool ::
  "(string \<Rightarrow> string option) \<Rightarrow> 'g source \<Rightarrow> (int \<Rightarrow> 'g) \<Rightarrow> gotime \<Rightarrow> string + Clip list \<Rightarrow> (string + AiringHistory) option \<Rightarrow>
   int \<Rightarrow> Selection \<Rightarrow> PodPolicy \<Rightarrow> bool" where
  "HasPool parse_base rng seeded now catalog airings seed sel pol =
     (case previewAt parse_base rng seeded now catalog airings seed sel 0 pol of
        Inl err \<Rightarrow> False
      | Inr pod \<Rightarrow> if po_MatchLevel pod = MatchBumperCard then False
                   else list_ex (\<lambda>e. pe_Path e \<noteq> '''') (po_Entries pod))"

definition PlayableDurationMs ::
  "(string \<Rightarrow> string option) \<Rightarrow> 'g source \<Rightarrow> (int \<Rightarrow> 'g) \<Rightarrow> gotime \<Rightarrow> string + Clip list \<Rightarrow> int \<Rightarrow> Selection \<Rightarrow> PodPolicy \<Rightarrow> int" where
  "PlayableDurationMs parse_base rng seeded now catalog seed sel pol =
     (case catalog of
        Inl err \<Rightarrow> 0
      | Inr clips \<Rightarrow>
          let pod = (if clips = [] then zero_pod
                     else pod_assemble parse_base rng seeded now clips None
                            \<lparr>pb_Seed = seed, pb_Start = 0, pb_Length = 0, pb_yearRound = True\<rparr> sel pol)
          in (\<Sum>e\<leftarrow>filter (\<lambda>e. pe_Path e \<noteq> '''' \<and> pe_DurationMs e > 0) (po_Entries pod). pe_DurationMs e))"

definition BuildFillerList ::
  "(string \<Rightarrow> string option) \<Rightarrow> 'g source \<Rightarrow> (int \<Rightarrow> 'g) \<Rightarrow> gotime \<Rightarrow> string + Clip list \<Rightarrow> (string + AiringHistory) option \<Rightarrow>
   int \<Rightarrow> Selection \<Rightarrow> PodPolicy \<Rightarrow> string list \<times> bool" where
  "BuildFillerList parse_base rng seeded now catalog airings seed sel pol =
     (case previewAt parse_base rng seeded now catalog airings seed sel 0 pol of
        Inl err \<Rightarrow> ([], False)
      | Inr pod \<Rightarrow>
          let ids = filter (\<lambda>i. i \<noteq> '''') (map pe_TunarrProgramID (po_Entries pod))
          in if ids = [] then ([], False) else (ids, True))"

definition CoverageFrom ::
  "(string \<Rightarrow> string option) \<Rightarrow> 'g source \<Rightarrow> (int \<Rightarrow> 'g) \<Rightarrow> gotime \<Rightarrow> Clip list \<Rightarrow> Selection \<Rightarrow> PodPolicy \<Rightarrow> CoverageReport" where
  "CoverageFrom parse_base rng seeded now clips sel pol =
     (let breakDurationMs = effectiveBreakDurationMs sel pol;
          podMax = configured_max pol;
          w = windowFor 0 sel podMax breakDurationMs (filler_seasonAt now pol 0);
          w = w\<lparr>bw_PodMax := podMaxForDuration parse_base clips w (pp_Policy pol) podMax breakDurationMs\<rparr>
      in Coverage parse_base rng seeded clips w (pp_Policy pol))"

definition FitForChannel :: "(string \<Rightarrow> string option) \<Rightarrow> gotime \<Rightarrow> Selection \<Rightarrow> Clip \<Rightarrow> PodPolicy \<Rightarrow> Fit" where
  "FitForChannel parse_base now sel c pol =
     (let breakDurationMs = effectiveBreakDurationMs sel pol
      in FitFor parse_base c (windowFor 0 sel (configured_max pol) breakDurationMs (filler_seasonAt now pol 0)) (pp_Policy pol))"

text \<open>A channel the pool strip reports on: its id, name and number, and its selection.\<close>

type_synonym PoolChannel = "(string \<times> string \<times> int) \<times> Selection"

definition PoolFor ::
  "(string \<Rightarrow> string option) \<Rightarrow> 'g source \<Rightarrow> (int \<Rightarrow> 'g) \<Rightarrow> gotime \<Rightarrow> string + Clip list \<Rightarrow> PoolChannel list \<Rightarrow> PodPolicy \<Rightarrow>
   string + PoolReport" where
  "PoolFor parse_base rng seeded now catalog channels pol =
     (case catalog of
        Inl err \<Rightarrow> Inl err
      | Inr clips \<Rightarrow>
          let report = PoolCounts clips (pp_Policy pol);
              covered = map (\<lambda>((i, name, number), sel).
                \<lparr>cc_ChannelID = i, cc_Name = name, cc_Number = number,
                 cc_Report = CoverageFrom parse_base rng seeded now clips sel pol\<rparr>) channels
          in Inr (report\<lparr>pr_Channels := OrderWorstFirst covered\<rparr>))"

subsection \<open>The note and the pools\<close>

lemma filter_one [simp]:
  "filterKinds [c] kinds local_stations = [] \<longleftrightarrow> \<not> kind_allowed kinds local_stations c"
  "filterCategories [c] cats = [] \<longleftrightarrow> cats \<noteq> [] \<and> \<not> in_categories cats c"
  "filterAudienceWithUngrounded [c] aud = [] \<longleftrightarrow> \<not> bottom_audience aud c"
  "filterEraWindows [c] windows = [] \<longleftrightarrow> \<not> in_eras windows c"
proof -
  have "set (filterAudienceWithUngrounded [c] aud) = {} \<longleftrightarrow> \<not> bottom_audience aud c"
    unfolding set_filterAudienceWithUngrounded by auto
  then show "filterAudienceWithUngrounded [c] aud = [] \<longleftrightarrow> \<not> bottom_audience aud c" by (simp only: set_empty)
qed (simp_all add: filterKinds_def filterCategories_def filterEraWindows_def)

text \<open>The clips the ladder takes: of the channel's kinds, and admitted by every rule but the years'.\<close>

definition candidate :: "(string \<Rightarrow> string option) \<Rightarrow> BreakWindow \<Rightarrow> FillerPolicy \<Rightarrow> Clip \<Rightarrow> bool" where
  "candidate parse_base w policy c \<longleftrightarrow>
     kind_allowed (bw_Kinds w) (ar_Stations (policy_area policy (bw_Geography w))) c \<and> ladder_admits parse_base w policy c"

definition era_level :: "BreakWindow \<Rightarrow> Clip \<Rightarrow> MatchLevel" where
  "era_level w c =
     (if in_eras (eraWindows w) c then MatchExact
      else if in_eras (widenEraWindows (eraWindows w)) c then MatchWidened else MatchAudience)"

lemma FitFor_level:
  assumes "Clip_ID c \<notin> set (bw_Pinned w)"
  shows "ft_Level (FitFor parse_base c w policy) =
    (if Clip_ID c \<notin> set (bw_Excluded w) \<and> candidate parse_base w policy c then era_level w c else MatchBumperCard)"
  using assms
  by (auto simp: FitFor_def Let_def list_ex_iff candidate_def ladder_admits_def body_eligible_def era_level_def)

lemma FitFor_accepted:
  "ft_Reason (FitFor parse_base c w policy) = FitAccepted \<longleftrightarrow>
     Clip_ID c \<notin> set (bw_Excluded w) \<and> GeographicallyEligible c (policy_area policy (bw_Geography w)) \<and>
     kind_allowed (bw_Kinds w) (ar_Stations (policy_area policy (bw_Geography w))) c \<and>
     (EffectivePlacement c = PlacementBreakBody \<longrightarrow> durationEligible c policy) \<and>
     (Clip_ID c \<in> set (bw_Pinned w) \<or>
      speaksTheChannelsLanguage parse_base c w policy \<and> \<not> outOfSeason c w \<and>
      (EffectivePlacement c = PlacementBreakBody \<longrightarrow>
         qualityEligible c policy \<and> (bw_Categories w \<noteq> [] \<longrightarrow> in_categories (bw_Categories w) c) \<and>
         bottom_audience (bw_Audience w) c))"
  by (auto simp: FitFor_def Let_def list_ex_iff)

text \<open>Where the ladder draws a clip from: the tightest pool that holds it.\<close>

definition lands_in :: "(MatchLevel \<times> Clip list) list \<Rightarrow> Clip \<Rightarrow> MatchLevel" where
  "lands_in pools c = (case find (\<lambda>p. c \<in> set (snd p)) pools of Some p \<Rightarrow> fst p | None \<Rightarrow> MatchBumperCard)"

lemma lands_in_sets: "lands_in pools c =
    (case find (\<lambda>p. c \<in> snd p) (map (\<lambda>p. (fst p, set (snd p))) pools) of Some p \<Rightarrow> fst p | None \<Rightarrow> MatchBumperCard)"
  by (induction pools) (auto simp: lands_in_def)

lemma lands_in_level:
  assumes "c \<in> set catalog"
  shows "lands_in (candidatePools parse_base (break_catalog catalog w policy) w policy) c =
    (if \<not> candidate parse_base w policy c then MatchBumperCard
     else if bw_Audience w \<noteq> AudienceUntagged \<and> \<not> fits_audience (bw_Audience w) c then MatchAudience
     else era_level w c)"
  unfolding lands_in_sets candidatePools_sets using assms
  by (auto simp: strict_admits_def era_level_def candidate_def break_catalog_clip ladder_admits_def)

lemma ungrounded_audience:
  "bottom_audience aud c \<Longrightarrow> aud \<noteq> AudienceUntagged \<and> \<not> fits_audience aud c \<longleftrightarrow>
     cl_Audience c = AudienceUntagged \<and> admitsUngroundedAudience aud"
  by (auto simp: bottom_audience_def fits_audience_def admitsUngroundedAudience_def)

text \<open>
  C22. The fit note against the ladder. For a clip of the catalogue the operator neither pinned nor excluded, the
  pool the ladder draws it from is the one the note names, with one exception: a clip whose audience is
  unknown, on a channel for a general or a late-night audience, always waits on the bottom rung, while the
  note gives it the rung of its year.
\<close>

theorem FitFor_agrees:
  assumes "c \<in> set catalog" and "Clip_ID c \<notin> set (bw_Pinned w)" and "Clip_ID c \<notin> set (bw_Excluded w)"
  shows "lands_in (candidatePools parse_base (break_catalog catalog w policy) w policy) c =
    (let level = ft_Level (FitFor parse_base c w policy)
     in if level \<noteq> MatchBumperCard \<and> cl_Audience c = AudienceUntagged \<and> admitsUngroundedAudience (bw_Audience w)
        then MatchAudience else level)"
proof -
  have "era_level w c \<noteq> MatchBumperCard" by (simp add: era_level_def)
  moreover have "candidate parse_base w policy c \<Longrightarrow> bottom_audience (bw_Audience w) c"
    by (simp add: candidate_def ladder_admits_def)
  ultimately show ?thesis
    using assms(3) ungrounded_audience [of "bw_Audience w" c]
    unfolding FitFor_level [OF assms(2)] lands_in_level [OF assms(1)] Let_def by auto
qed

text \<open>
  C23. A clip the note refuses never airs. When the fit note gives a reason against a clip, an assembled pod of
  that channel's window does not show it, under any pin, draw or history.
\<close>

theorem FitFor_refused_never_airs:
  assumes "well_linked catalog" and "distinct (map Clip_ID catalog)" and "0 \<le> bw_GapMs w" and "c \<in> set catalog"
    and "ft_Reason (FitFor parse_base c w policy) \<noteq> FitAccepted"
  shows "Clip_ID c \<notin> set (map pe_Hash (po_Entries (fst (Assemble parse_base rng seeded catalog w policy used))))"
proof
  assume "Clip_ID c \<in> set (map pe_Hash (po_Entries (fst (Assemble parse_base rng seeded catalog w policy used))))"
  then obtain e where e: "e \<in> set (po_Entries (fst (Assemble parse_base rng seeded catalog w policy used)))" "pe_Hash e = Clip_ID c"
    by auto
  have linked: "well_linked (break_catalog catalog w policy)"
    using assms(1) by (auto simp: well_linked_def break_catalog_clip)
  have "e \<noteq> FallbackCard" using e(2) assms(1,4) by (auto simp: FallbackCard_def well_linked_def)
  moreover have "d = c" if "d \<in> set catalog" "shows_clip w policy e d" for d
    using that assms(2,4) e(2) by (auto dest!: shows_clip_fields(1) simp: distinct_map inj_on_def)
  ultimately have airs: "GeographicallyEligible c (policy_area policy (bw_Geography w)) \<and>
       kind_allowed (bw_Kinds w) (ar_Stations (policy_area policy (bw_Geography w))) c \<and>
       Clip_ID c \<notin> used \<and> Clip_ID c \<notin> set (bw_Excluded w) \<and>
       (if pe_RotationPinned e then Clip_ID c \<in> set (bw_Pinned w) \<and> durationEligible c policy
        else \<not> outOfSeason c w \<and> speaksTheChannelsLanguage parse_base c w policy \<and>
             (if IsBumper c then True
              else EffectivePlacement c = PlacementBreakBody \<and> durationEligible c policy \<and> qualityEligible c policy \<and>
                   (if bw_Categories w = [] then True else in_categories (bw_Categories w) c) \<and>
                   bottom_audience (bw_Audience w) c \<and>
                   (if bw_Audience w = Kids then cl_Audience c \<in> {Kids, Family} else True)))"
    using Assemble_entry [OF linked assms(3) e(1)] by metis
  then have "ft_Reason (FitFor parse_base c w policy) = FitAccepted"
    unfolding FitFor_accepted by (cases "pe_RotationPinned e"; cases "IsBumper c") (auto simp: IsBumper_def)
  then show False using assms(5) by simp
qed

abbreviation an_untagged :: Clip where
  "an_untagged \<equiv> (a_clip ''attic'' PlacementBreakBody 30000)\<lparr>cl_Audience := AudienceUntagged\<rparr>"

theorem FitFor_agrees_witness:
  "ft_Level (FitFor (\<lambda>_. None) an_untagged ((a_window 90000)\<lparr>bw_Audience := General\<rparr>) a_policy) = MatchExact \<and>
   lands_in (candidatePools (\<lambda>_. None) (break_catalog [an_untagged] ((a_window 90000)\<lparr>bw_Audience := General\<rparr>) a_policy)
     ((a_window 90000)\<lparr>bw_Audience := General\<rparr>) a_policy) an_untagged = MatchAudience"
proof -
  have rung: "ft_Level (FitFor (\<lambda>_. None) an_untagged ((a_window 90000)\<lparr>bw_Audience := General\<rparr>) a_policy) = MatchExact"
    by code_simp
  then show ?thesis
    using FitFor_agrees [of an_untagged "[an_untagged]" "(a_window 90000)\<lparr>bw_Audience := General\<rparr>" "\<lambda>_. None" a_policy]
    by (simp add: a_window_def a_clip_def Clip_ID_def admitsUngroundedAudience_def)
qed

lemma a_catalog_well_linked: "well_linked a_catalog"
  by (auto simp: well_linked_def a_catalog_def a_clip_def Clip_ID_def)

theorem FitFor_refused_never_airs_witness:
  "ft_Reason (FitFor (\<lambda>_. None) (a_clip ''soap'' PlacementBreakBody 15000) (a_window 90000) a_policy) = FitExcluded \<and>
   ''soap'' \<notin> set (map pe_Hash (po_Entries a_pod))"
proof -
  have refused: "ft_Reason (FitFor (\<lambda>_. None) (a_clip ''soap'' PlacementBreakBody 15000) (a_window 90000) a_policy) = FitExcluded"
    by code_simp
  moreover note a_catalog_well_linked
  moreover have "distinct (map Clip_ID a_catalog)" by (simp add: a_catalog_def a_clip_def Clip_ID_def)
  ultimately show ?thesis
    using FitFor_refused_never_airs [of a_catalog "a_window 90000" "a_clip ''soap'' PlacementBreakBody 15000"
        "\<lambda>_. None" a_policy first_choice id "{}"]
    by (simp add: a_catalog_def a_clip_def Clip_ID_def)
qed

subsection \<open>The coverage counts\<close>

lemma filterGeography_filter: "filterGeography clips a = filter (\<lambda>c. GeographicallyEligible c a) clips"
  by (auto simp: filterGeography_def GeographicallyEligible_def intro!: filter_cong)

lemma filterCategories_filter: "filterCategories clips cats = filter (\<lambda>c. cats \<noteq> [] \<longrightarrow> in_categories cats c) clips"
  by (simp add: filterCategories_def)

lemma filterAudienceWithUngrounded_filter: "filterAudienceWithUngrounded clips aud = filter (bottom_audience aud) clips"
  by (auto simp: filterAudienceWithUngrounded_def filterAudience_def bottom_audience_def admitsUngroundedAudience_def
      fits_audience_def intro!: filter_cong filter_True)

lemma candidatePools_widest:
  "snd (last (candidatePools parse_base catalog w policy)) = filter (ladder_admits parse_base w policy) catalog"
  by (simp add: candidatePools_def Let_def filterGeography_filter filterCategories_filter filterSeason_def filterLanguage_def
      filterAudienceWithUngrounded_filter)
    (rule filter_cong [OF refl], auto simp: ladder_admits_def)

lemma break_catalog_filter:
  "break_catalog catalog w policy = filter (\<lambda>c. GeographicallyEligible c (policy_area policy (bw_Geography w)) \<and>
     kind_allowed (bw_Kinds w) (ar_Stations (policy_area policy (bw_Geography w))) c) catalog"
  by (simp add: break_catalog_def Let_def filterGeography_filter filterKinds_def conj_commute)

text \<open>
  C24. The coverage meter counts what the fit note admits. The total a channel's coverage reports is the number
  of clips of the catalogue to which the fit note, asked without pins, gives a rung.
\<close>

theorem Coverage_counts_fit:
  "cv_Total (Coverage parse_base rng seeded catalog w policy) =
     length (filter (\<lambda>c. ft_Level (FitFor parse_base c (w\<lparr>bw_Pinned := []\<rparr>) policy) \<noteq> MatchBumperCard) catalog)"
proof -
  let ?w = "w\<lparr>bw_Pinned := []\<rparr>"
  have candidate_pins: "candidate parse_base ?w policy = candidate parse_base w policy"
    by (auto simp: fun_eq_iff candidate_def ladder_admits_def outOfSeason_def speaksTheChannelsLanguage_def commercialLanguage_def)
  have level: "ft_Level (FitFor parse_base c ?w policy) \<noteq> MatchBumperCard \<longleftrightarrow>
      Clip_ID c \<notin> set (bw_Excluded w) \<and> candidate parse_base w policy c" for c
    using FitFor_level [of c ?w parse_base policy] by (simp add: candidate_pins era_level_def)
  have total: "cv_Total (Coverage parse_base rng seeded catalog w policy) =
      length (snd (last (candidatePools parse_base
        (break_catalog (filter (\<lambda>c. Clip_ID c \<notin> set (bw_Excluded w)) catalog) w policy) w policy)))"
    by (simp add: Coverage_def Let_def break_catalog_def policy_area_def)
  show ?thesis
    unfolding total candidatePools_widest break_catalog_filter filter_filter level
    by (rule arg_cong [where f = length], rule filter_cong [OF refl]) (auto simp: candidate_def ladder_admits_def)
qed

lemma PoolCounts_counts:
  "PoolCounts catalog policy =
     \<lparr>pr_Clips = length catalog,
      pr_BreakBody = length (filter (\<lambda>c. EffectivePlacement c = PlacementBreakBody) catalog),
      pr_Eligible = length (filter (\<lambda>c. EffectivePlacement c = PlacementBreakBody \<and> durationEligible c policy) catalog),
      pr_Bookends = length (filter IsBumper catalog), pr_Channels = []\<rparr>"
proof -
  have "foldl (count_clip policy) r catalog =
      r\<lparr>pr_BreakBody := pr_BreakBody r + length (filter (\<lambda>c. EffectivePlacement c = PlacementBreakBody) catalog),
        pr_Eligible := pr_Eligible r + length (filter (\<lambda>c. EffectivePlacement c = PlacementBreakBody \<and> durationEligible c policy) catalog),
        pr_Bookends := pr_Bookends r + length (filter IsBumper catalog)\<rparr>" for r
    by (induction catalog arbitrary: r) (auto simp: count_clip_def Let_def)
  then show ?thesis by (simp add: PoolCounts_def)
qed

text \<open>The strip's diagnosis names the channel in the worst shape.\<close>

lemma levelRank_inj [simp]: "levelRank a = levelRank b \<longleftrightarrow> a = b"
  by (cases a; cases b) (simp_all add: levelRank_def)

lemma weak_order_worse: "weak_order worse_channel"
proof -
  have "worse_channel a b \<longleftrightarrow>
      (levelRank (cv_Level (cc_Report a)), cc_Number a) < (levelRank (cv_Level (cc_Report b)), cc_Number b)" for a b
    by (auto simp: worse_channel_def Let_def LevelWorseThan_def less_prod_def' simp flip: levelRank_inj)
  then show ?thesis by (auto simp: weak_order_def)
qed

subsection \<open>How many clips a break may hold\<close>

lemma ResolveBreakDurationMs_min: "minBreakDurationMs \<le> ResolveBreakDurationMs channelMs globalMs"
  by (simp add: ResolveBreakDurationMs_def)

lemma foldl_min_le: "foldl min d ds \<le> (d::int) \<and> (\<forall>x\<in>set ds. foldl min d ds \<le> x)"
proof (induction ds arbitrary: d)
  case (Cons a ds)
  from Cons.IH [of "min d a"] show ?case by auto
qed simp

lemma foldl_min_pos: "0 < (d::int) \<Longrightarrow> \<forall>x\<in>set ds. 0 < x \<Longrightarrow> 0 < foldl min d ds"
  by (induction ds arbitrary: d) auto

lemma clips_times_shortest:
  assumes "\<forall>c\<in>set cs. s \<le> cl_DurationMs c"
  shows "int (length cs) * s \<le> clips_ms cs"
  using assms by (induction cs) (auto simp: algebra_simps)

text \<open>
  The ceiling on a break's clips is never why one is left out. However many commercials of the widest rung
  fit the break's time, the ceiling the adapter gives the break holds them all, up to 64, and it is never below the
  configured one, nor above the larger of that and 64.
\<close>

theorem podMaxForDuration_never_binds:
  assumes "set cs \<subseteq> set (snd (last (candidatePools parse_base clips w policy)))"
    and "\<forall>c\<in>set cs. 0 < cl_DurationMs c" and "clips_ms cs \<le> targetMs" and "0 \<le> targetMs" and "0 \<le> configured"
  shows "let most = podMaxForDuration parse_base clips w policy configured targetMs
    in min (int (length cs)) 64 \<le> most \<and> configured \<le> most \<and> most \<le> max configured 64"
proof -
  let ?matched = "snd (last (candidatePools parse_base clips w policy))"
  let ?most = "podMaxForDuration parse_base clips w policy configured targetMs"
  show ?thesis
  proof (cases "filter (\<lambda>d. d > 0) (map cl_DurationMs ?matched)")
    case Nil
    then have "cs = []" using assms(1,2) by (cases cs) (auto simp: filter_empty_conv)
    moreover have "?most = configured" using Nil by (simp add: podMaxForDuration_def Let_def)
    ultimately show ?thesis using assms(5) by (simp add: Let_def)
  next
    case (Cons d ds)
    define s where "s = foldl min d ds"
    have lengths: "set (d # ds) = {x \<in> cl_DurationMs ` set ?matched. 0 < x}" using arg_cong [OF Cons, of set] by auto
    have pos: "0 < s" unfolding s_def using lengths by (intro foldl_min_pos) auto
    have least: "s \<le> x" if "x \<in> set (d # ds)" for x using that foldl_min_le [of d ds] by (auto simp: s_def)
    have "\<forall>c\<in>set cs. s \<le> cl_DurationMs c" using least lengths assms(1,2) by blast
    from clips_times_shortest [OF this] have times: "int (length cs) * s \<le> targetMs + s - 1" using assms(3) pos by linarith
    have "int (length cs) \<le> (targetMs + s - 1) div s" using times pos by (simp add: zdiv_mono1 [of "int (length cs) * s" _ s, simplified])
    moreover have "(targetMs + s - 1) sdiv s = (targetMs + s - 1) div s" using pos assms(4) by simp
    moreover have "?most = (let required = min ((targetMs + s - 1) sdiv s) maxPodClips in if required > configured then required else configured)"
      using Cons by (auto simp: podMaxForDuration_def Let_def s_def)
    ultimately show ?thesis by (auto simp: Let_def)
  qed
qed

theorem podMaxForDuration_never_binds_witness:
  "let most = podMaxForDuration (\<lambda>_. None) a_catalog (a_window 90000) a_policy 2 90000
   in 3 \<le> most \<and> most \<le> 64"
proof -
  have pool: "set (snd (last (candidatePools (\<lambda>_. None) a_catalog (a_window 90000) a_policy))) =
      set (tl a_catalog)" by code_simp
  show ?thesis
    using podMaxForDuration_never_binds [of "tl a_catalog" "\<lambda>_. None" a_catalog "a_window 90000" a_policy 90000 2, unfolded pool]
    by (simp add: a_catalog_def a_clip_def Let_def)
qed

subsection \<open>A channel's breaks\<close>

lemma well_linked_catalog: "well_linked catalog \<Longrightarrow> well_linked (break_catalog catalog w policy)"
  by (auto simp: well_linked_def break_catalog_clip)

lemma break_length_nonneg: "0 \<le> break_length_ms b sel pol"
proof -
  have "0 \<le> ResolveBreakDurationMs channelMs globalMs" for channelMs globalMs
    by (rule order_trans [OF _ ResolveBreakDurationMs_min]) simp
  then show ?thesis by (simp add: break_length_ms_def effectiveBreakDurationMs_def milliseconds_def pos_imp_zdiv_nonneg_iff)
qed

lemma break_window_GapMs: "bw_GapMs (break_window parse_base now clips history b sel pol) = break_length_ms b sel pol"
  by (simp add: break_window_def windowFor_def Let_def split: option.splits)

lemma pod_assemble_finished:
  assumes "well_linked clips"
  shows "finished_break parse_base (break_catalog clips (break_window parse_base now clips history b sel pol) (spaced_policy sel (pp_Policy pol)))
    (break_window parse_base now clips history b sel pol) (spaced_policy sel (pp_Policy pol))
    (set (bw_Excluded (break_window parse_base now clips history b sel pol)))
    (pod_assemble parse_base rng seeded now clips history b sel pol)"
proof -
  let ?w = "break_window parse_base now clips history b sel pol"
  obtain pod used' where a: "Assemble parse_base rng seeded clips ?w (spaced_policy sel (pp_Policy pol)) {} = (pod, used')" by fastforce
  from Assemble_finished [OF well_linked_catalog [OF assms] _ a] show ?thesis
    by (simp add: pod_assemble_def a break_window_GapMs break_length_nonneg)
qed

lemma finished_break_ms: "finished_break parse_base catalog w policy base pod \<Longrightarrow>
    po_Entries pod \<noteq> [] \<and> po_TotalMs pod = entries_ms (po_Entries pod) \<and>
    (po_Entries pod = [FallbackCard] \<or> po_TotalMs pod \<le> bw_GapMs w)"
  by (auto simp: finished_break_def pod_inv_def)

text \<open>
  Every break of a channel fits its slot. Asked for a batch of breaks, the adapter answers with the store's
  error or with one pod for each break: an empty one when the catalogue is empty, and otherwise a pod with an
  entry, whose length is its entries' and fits the slot of that break, or the embedded card alone.
\<close>

theorem PreviewAtMany_fits:
  assumes "well_linked clips"
  shows "case PreviewAtMany parse_base rng seeded now (Inr clips) airings sel breaks pol of
      Inl err \<Rightarrow> airings = Some (Inl err)
    | Inr pods \<Rightarrow>
        list_all2 (\<lambda>b pod.
          if clips = [] then pod = zero_pod
          else po_Entries pod \<noteq> [] \<and> po_TotalMs pod = entries_ms (po_Entries pod) \<and>
               (po_Entries pod = [FallbackCard] \<or> po_TotalMs pod \<le> break_length_ms b sel pol)) breaks pods"
proof -
  have fits: "po_Entries (pod_assemble parse_base rng seeded now clips h b sel pol) \<noteq> [] \<and>
      po_TotalMs (pod_assemble parse_base rng seeded now clips h b sel pol) =
        entries_ms (po_Entries (pod_assemble parse_base rng seeded now clips h b sel pol)) \<and>
      (po_Entries (pod_assemble parse_base rng seeded now clips h b sel pol) = [FallbackCard] \<or>
       po_TotalMs (pod_assemble parse_base rng seeded now clips h b sel pol) \<le> break_length_ms b sel pol)" for h b
    using finished_break_ms [OF pod_assemble_finished [OF assms]] by (simp only: break_window_GapMs)
  let ?fits = "\<lambda>b pod. po_Entries pod \<noteq> [] \<and> po_TotalMs pod = entries_ms (po_Entries pod) \<and>
      (po_Entries pod = [FallbackCard] \<or> po_TotalMs pod \<le> break_length_ms b sel pol)"
  have all: "list_all2 ?fits breaks (map (\<lambda>b. pod_assemble parse_base rng seeded now clips h b sel pol) breaks)" for h
    unfolding list.rel_map by (rule list.rel_refl_strong) (rule fits)
  have empty: "list_all2 (\<lambda>b pod. pod = zero_pod) breaks (replicate (length breaks) zero_pod)"
    by (simp add: list_all2_conv_all_nth)
  show ?thesis
  proof (cases "breaks = [] \<or> clips = []")
    case True
    then show ?thesis using empty by (auto simp: PreviewAtMany_def)
  next
    case False
    then show ?thesis
      using all [of None] all by (auto simp only: PreviewAtMany_def if_False sum.case split: option.split sum.split)
  qed
qed

definition a_selection :: Selection where
  "a_selection =
     \<lparr>sl_Era = \<lparr>er_From = 1980, er_To = 1989\<rparr>, sl_EraWindows = [], sl_Audience = AudienceUntagged, sl_Categories = [],
      sl_Kinds = [], sl_Pinned = [], sl_Excluded = [], sl_Geography = no_geography, sl_Language = '''',
      sl_BreakDurationMs = 0, sl_Spacing = None\<rparr>"

definition a_pod_policy :: PodPolicy where
  "a_pod_policy =
     \<lparr>pp_Policy = a_policy, pp_PodMax = 0, pp_BreakDurationMs = 60000,
      pp_Calendar = Calendar.make None '''' None\<rparr>"

theorem PreviewAtMany_fits_witness:
  "case PreviewAtMany (\<lambda>_. None) first_choice id 0 (Inr a_catalog) None a_selection
      [\<lparr>pb_Seed = 1, pb_Start = 5, pb_Length = 40 * second, pb_yearRound = False\<rparr>] a_pod_policy of
     Inl err \<Rightarrow> False
   | Inr pods \<Rightarrow> length pods = 1 \<and> po_Entries (hd pods) \<noteq> []"
  using PreviewAtMany_fits [OF a_catalog_well_linked, where parse_base = "\<lambda>_. None" and rng = first_choice and seeded = id
      and now = 0 and airings = None and sel = a_selection and pol = a_pod_policy
      and breaks = "[\<lparr>pb_Seed = 1, pb_Start = 5, pb_Length = 40 * second, pb_yearRound = False\<rparr>]"]
  by (auto simp: PreviewAtMany_def a_catalog_def list_all2_conv_all_nth)

text \<open>
  The length reconcile gives a channel's breaks is never longer than the configured one, whatever is in the
  catalogue: the playable part of a pod is cut to the channel's break length, or the install's, or two minutes.
\<close>

theorem PlayableDurationMs_bounds:
  assumes "well_linked clips"
  shows "PlayableDurationMs parse_base rng seeded now (Inr clips) seed sel pol
    \<in> {0..ResolveBreakDurationMs (sl_BreakDurationMs sel) (pp_BreakDurationMs pol)}"
proof -
  let ?b = "\<lparr>pb_Seed = seed, pb_Start = 0, pb_Length = 0, pb_yearRound = True\<rparr>"
  let ?pod = "pod_assemble parse_base rng seeded now clips None ?b sel pol"
  let ?plays = "\<lambda>e. pe_Path e \<noteq> '''' \<and> pe_DurationMs e > 0"
  have nonneg: "0 \<le> (\<Sum>e\<leftarrow>filter ?plays (po_Entries ?pod). pe_DurationMs e)" by (rule sum_list_nonneg) auto
  have all: "(\<Sum>e\<leftarrow>filter ?plays es. pe_DurationMs e) \<le> entries_ms es" if "\<forall>e\<in>set es. 0 \<le> pe_DurationMs e" for es
    using that by (induction es) auto
  have length_ms: "break_length_ms ?b sel pol = ResolveBreakDurationMs (sl_BreakDurationMs sel) (pp_BreakDurationMs pol)"
    by (simp add: break_length_ms_def effectiveBreakDurationMs_def)
  note done' = pod_assemble_finished [OF assms, of parse_base now None ?b sel pol rng seeded]
  have "(\<Sum>e\<leftarrow>filter ?plays (po_Entries ?pod). pe_DurationMs e) \<le> break_length_ms ?b sel pol"
  proof (cases "po_Entries ?pod = [FallbackCard]")
    case True
    then show ?thesis using break_length_nonneg by (simp add: FallbackCard_def)
  next
    case False
    then have "\<forall>e\<in>set (po_Entries ?pod). 0 \<le> pe_DurationMs e"
      using done' from_catalog_ms [OF well_linked_catalog [OF assms]] unfolding finished_break_def pod_inv_def by fastforce
    from all [OF this] show ?thesis using finished_break_ms [OF done'] False by (simp add: break_window_GapMs)
  qed
  moreover have "PlayableDurationMs parse_base rng seeded now (Inr clips) seed sel pol =
      (if clips = [] then 0 else (\<Sum>e\<leftarrow>filter ?plays (po_Entries ?pod). pe_DurationMs e))"
    by (simp add: PlayableDurationMs_def Let_def zero_pod_def)
  ultimately show ?thesis using nonneg break_length_nonneg [of ?b sel pol] unfolding length_ms atLeastAtMost_iff by presburger
qed

theorem PlayableDurationMs_bounds_witness:
  "PlayableDurationMs (\<lambda>_. None) first_choice id 0 (Inr a_catalog) 1 a_selection a_pod_policy \<le> 60000"
  using PlayableDurationMs_bounds [OF a_catalog_well_linked, of "\<lambda>_. None" first_choice id 0 1 a_selection a_pod_policy]
  by (simp add: a_selection_def a_pod_policy_def ResolveBreakDurationMs_def)

subsection \<open>Rotation reads the settled airings\<close>

definition settled :: "duration \<Rightarrow> gotime \<Rightarrow> clip_airing \<Rightarrow> bool" where
  "settled settle cutoff a \<longleftrightarrow> is_zero_time cutoff \<or> ca_AiredAt a < cutoff \<and> ca_RecordedAt a < cutoff - settle"

lemma exposure_steps:
  "foldl (exposure_step settle cutoff) m as i =
     (let heard = filter (\<lambda>a. settled settle cutoff a \<and> ca_ClipHash a = i) as; e = exposure_of m i
      in if heard = [] then m i
         else Some \<lparr>ex_PlayCount = ex_PlayCount e + int (length heard),
                    ex_LastPlayedAt = foldl max (ex_LastPlayedAt e) (map ca_AiredAt heard)\<rparr>)"
proof (induction as arbitrary: m)
  case (Cons a as)
  show ?case
  proof (cases "settled settle cutoff a")
    case True
    then have step: "exposure_step settle cutoff m a = m(ca_ClipHash a \<mapsto>
        \<lparr>ex_PlayCount = ex_PlayCount (exposure_of m (ca_ClipHash a)) + 1,
         ex_LastPlayedAt = max (ex_LastPlayedAt (exposure_of m (ca_ClipHash a))) (ca_AiredAt a)\<rparr>)"
      by (auto simp: exposure_step_def settled_def Let_def max_def)
    show ?thesis
      by (cases "ca_ClipHash a = i")
        (auto simp: True step Cons.IH exposure_of_def Let_def add.assoc)
  next
    case False
    then have "exposure_step settle cutoff m a = m" by (auto simp: exposure_step_def settled_def)
    then show ?thesis using False Cons.IH by simp
  qed
qed simp

text \<open>
  What a break knows of the past. A clip's exposure before a break counts exactly the household's airings of
  it that began before the break and were recorded more than the settling time before it, and dates it by the
  last of them; an airing written during the break, or just before it, changes nothing.
\<close>

theorem ExposuresBefore_settled:
  "ExposuresBefore h cutoff i =
     (let heard = filter (\<lambda>a. ca_ClipHash a = i \<and>
            (if is_zero_time cutoff then True else ca_AiredAt a < cutoff \<and> ca_RecordedAt a < cutoff - ah_Settle h)) (ah_Airings h)
      in if heard = [] then None
         else Some \<lparr>ex_PlayCount = int (length heard), ex_LastPlayedAt = foldl max 0 (map ca_AiredAt heard)\<rparr>)"
proof -
  have "filter (\<lambda>a. settled (ah_Settle h) cutoff a \<and> ca_ClipHash a = i) (ah_Airings h) =
      filter (\<lambda>a. ca_ClipHash a = i \<and>
        (if is_zero_time cutoff then True else ca_AiredAt a < cutoff \<and> ca_RecordedAt a < cutoff - ah_Settle h)) (ah_Airings h)"
    by (rule filter_cong [OF refl]) (auto simp: settled_def)
  then show ?thesis
    by (simp add: ExposuresBefore_def exposure_steps exposure_of_def no_exposure_def Let_def)
qed

subsection \<open>A union of years\<close>

definition bounded_era :: "EraRange \<Rightarrow> bool" where
  "bounded_era r \<longleftrightarrow> 0 < er_From r \<and> er_From r \<le> er_To r"

lemma bounded_era_contains: "bounded_era r \<Longrightarrow> era_contains r y \<longleftrightarrow> er_From r \<le> y \<and> y \<le> er_To r"
  by (auto simp: bounded_era_def era_contains_def era_any_def)

lemma merge_eras_years:
  assumes "sorted_wrt (\<lambda>a b. er_From a \<le> er_From b) (r # rs)" and "\<forall>a\<in>set (r # rs). bounded_era a"
  shows "(\<forall>a\<in>set (merge_eras r rs). bounded_era a) \<and>
    ((\<exists>a\<in>set (merge_eras r rs). er_From a \<le> y \<and> y \<le> er_To a) \<longleftrightarrow> (\<exists>a\<in>set (r # rs). er_From a \<le> y \<and> y \<le> er_To a))"
  using assms
proof (induction rs arbitrary: r)
  case (Cons s rs)
  show ?case
  proof (cases "er_From s > er_To r + 1")
    case True
    then show ?thesis using Cons.IH [of s] Cons.prems by auto
  next
    case False
    define m where "m = (if er_To s > er_To r then r\<lparr>er_To := er_To s\<rparr> else r)"
    have m: "er_From m = er_From r" "er_To m = max (er_To r) (er_To s)" by (auto simp: m_def)
    have merge: "merge_eras r (s # rs) = merge_eras m rs" using False by (simp add: m_def)
    have "sorted_wrt (\<lambda>a b. er_From a \<le> er_From b) (m # rs)" using Cons.prems(1) by (simp add: m)
    moreover have "\<forall>a\<in>set (m # rs). bounded_era a" using Cons.prems(2) by (auto simp: bounded_era_def m)
    ultimately have "(\<forall>a\<in>set (merge_eras m rs). bounded_era a) \<and>
        ((\<exists>a\<in>set (merge_eras m rs). er_From a \<le> y \<and> y \<le> er_To a) \<longleftrightarrow> (\<exists>a\<in>set (m # rs). er_From a \<le> y \<and> y \<le> er_To a))"
      by (rule Cons.IH)
    moreover have "er_From r \<le> er_From s" using Cons.prems(1) by simp
    then have "er_From m \<le> y \<and> y \<le> er_To m \<longleftrightarrow> (er_From r \<le> y \<and> y \<le> er_To r) \<or> (er_From s \<le> y \<and> y \<le> er_To s)"
      using False unfolding m by linarith
    ultimately show ?thesis unfolding merge by (simp add: disj_assoc)
  qed
qed simp

lemma weak_order_era: "weak_order era_before"
  by (auto simp: weak_order_def era_before_def split: if_splits)

text \<open>
  A channel's years. Putting the windows of a channel's years in order and merging those that touch keeps
  the years they cover exactly, where each has a first and a last year.
\<close>

theorem NormalizeEraWindows_years:
  assumes "\<forall>r\<in>set windows. 0 < er_From r \<and> er_From r \<le> er_To r"
  shows "in_eras (NormalizeEraWindows windows) c = in_eras windows c"
proof (cases "sort_by era_before windows")
  case Nil
  then have "windows = []" using set_sort_by [of era_before windows] by simp
  then show ?thesis by (simp add: NormalizeEraWindows_def)
next
  case (Cons r rs)
  have set: "set (r # rs) = set windows" using set_sort_by [of era_before windows] Cons by simp
  have bounded: "\<forall>a\<in>set windows. bounded_era a" using assms by (simp add: bounded_era_def)
  then have "\<not> list_ex era_any windows" by (auto simp: list_ex_iff bounded_era_def era_any_def)
  then have norm: "NormalizeEraWindows windows = merge_eras r rs" using set Cons by (auto simp: NormalizeEraWindows_def)
  have "sorted_wrt (\<lambda>a b. \<not> era_before b a) (r # rs)" using sorted_sort_by [OF weak_order_era] Cons by metis
  then have "sorted_wrt (\<lambda>a b. er_From a \<le> er_From b) (r # rs)" by (rule sorted_wrt_mono_rel [rotated]) (auto simp: era_before_def split: if_splits)
  note merged = merge_eras_years [OF this, unfolded set, OF bounded]
  have "in_eras ws c \<longleftrightarrow> (\<exists>a\<in>set ws. er_From a \<le> cl_Era c \<and> cl_Era c \<le> er_To a)" if "\<forall>a\<in>set ws. bounded_era a" for ws
    using that bounded_era_contains by (auto simp: in_eras_def list_ex_iff bounded_era_def era_any_def)
  then show ?thesis using merged bounded by (simp add: norm)
qed

theorem NormalizeEraWindows_years_witness:
  "in_eras (NormalizeEraWindows [\<lparr>er_From = 1990, er_To = 1999\<rparr>, \<lparr>er_From = 1985, er_To = 1992\<rparr>]) (a_clip ''cereal'' PlacementBreakBody 1)"
  by (subst NormalizeEraWindows_years) (simp_all add: in_eras_def era_any_def era_contains_def a_clip_def)

text \<open>An open-ended window loses its later years once an earlier window reaches it.\<close>

lemma NormalizeEraWindows_open_end:
  "let windows = [\<lparr>er_From = 1990, er_To = 1999\<rparr>, \<lparr>er_From = 1995, er_To = 0\<rparr>]; c = (a_clip ''cereal'' PlacementBreakBody 1)\<lparr>cl_Era := 2005\<rparr>
   in in_eras windows c \<and> \<not> in_eras (NormalizeEraWindows windows) c"
  by code_simp

end
