(* ===== verification/Conveyor.thy ===== *)
theory Conveyor
  imports Clips Dates
begin

text \<open>
  The ingest conveyor of filler clips: the persisted row of a clip (\<^verbatim>\<open>internal/filler/pipelinestate.go\<close>), who owns
  it (\<^verbatim>\<open>pipelinelifecycle.go\<close>), how a pass moves it (\<^verbatim>\<open>pipeline.go\<close>), retries and rewinds (\<^verbatim>\<open>pipelinerewind.go\<close>), its
  progress (\<^verbatim>\<open>preparation.go\<close>) and the publication of a finished clip (\<^verbatim>\<open>ready.go\<close>).

  The stages, the store and the clock are outside: what they answer in one turn of the loop is a record, and the
  world that gives the answers is a parameter. A turn is a function of the row and the answers; a pass repeats
  turns until the row blocks, waits or is done, and its effects on the store are a list.
\<close>

subsection \<open>Stages, rungs and rows\<close>

datatype StageID =
  StageProbe | StageTranscode | StageSplit | StageScreen | StageDefects | StageLanguage | StageTranscribe | StageVision
| StageScore | StageOther string

definition StageOrder :: "StageID list" where
  "StageOrder =
     [StageProbe, StageTranscode, StageSplit, StageScreen, StageDefects, StageLanguage, StageTranscribe, StageVision, StageScore]"

fun stage_index :: "StageID list \<Rightarrow> int \<Rightarrow> StageID \<Rightarrow> int" where
  "stage_index [] i stage = - 1"
| "stage_index (s # ss) i stage = (if s = stage then i else stage_index ss (i + 1) stage)"

definition StageIndex :: "StageID \<Rightarrow> int" where
  "StageIndex stage = stage_index StageOrder 0 stage"

datatype StageStatus = StatusQueued | StatusRunning | StatusDone | StatusFailed | StatusSkipped

datatype Disposition =
  DispositionRunning | DispositionReview | DispositionReady | DispositionComplete | DispositionRejected
| DispositionDismissed | DispositionOther string

definition disposition_Terminal :: "Disposition \<Rightarrow> bool" where
  "disposition_Terminal d \<longleftrightarrow>
     d = DispositionReady \<or> d = DispositionComplete \<or> d = DispositionRejected \<or> d = DispositionReview \<or>
     d = DispositionDismissed"

datatype RejectReason =
  ReasonNone | ReasonUnprobeable | ReasonTooShort | ReasonNoAudio | ReasonNoVideo | ReasonBlackContent
| ReasonSilentContent | ReasonTooQuiet | ReasonUnplayable | ReasonDefect | ReasonLanguage | ReasonDuplicate
| ReasonScreening | ReasonSliver | ReasonUnidentified | ReasonOther string

definition reason_Soft :: "RejectReason \<Rightarrow> bool" where
  "reason_Soft r \<longleftrightarrow> r = ReasonUnidentified \<or> r = ReasonDuplicate \<or> r = ReasonLanguage"

record StageRecord =
  lr_Stage :: StageID
  lr_Status :: StageStatus
  lr_Note :: string
  lr_Attempts :: int
  lr_StartedAt :: gotime
  lr_At :: gotime

datatype PreparationStartReason = PreparationUnstarted | PreparationStartedByEnrollment | PreparationStartedByRestart

record ClipPipeline =
  pw_ClipHash :: string
  pw_AcquisitionID :: string
  pw_Stage :: StageID
  pw_Status :: StageStatus
  pw_Progress :: int
  pw_Disposition :: Disposition
  pw_RejectReason :: RejectReason
  pw_RejectDetail :: string
  pw_Attempts :: int
  pw_ForceRun :: bool
  pw_NextRun :: gotime
  pw_PreparationAttempt :: int
  pw_PreparationStartedAt :: gotime
  pw_PreparationStartReason :: PreparationStartReason
  pw_PreparationProgress :: int
  pw_StageQueuedAt :: gotime
  pw_StageStartedAt :: gotime
  pw_Stages :: "StageRecord list"
  pw_EnrolledAt :: gotime
  pw_UpdatedAt :: gotime

text \<open>A catalogued clip: the columns of \<^verbatim>\<open>Clip\<close> the conveyor reads beside those scheduling does.\<close>

record StoreClip =
  sc_Clip :: Clip
  sc_Source :: string
  sc_Held :: bool
  sc_RemovedAt :: gotime
  sc_IsComposite :: bool

definition RestoreRefusal :: "gotime \<Rightarrow> ClipPipeline \<Rightarrow> ClipPipeline \<times> bool" where
  "RestoreRefusal clock p =
     (if pw_Disposition p \<noteq> DispositionRejected \<and> pw_Disposition p \<noteq> DispositionDismissed then (p, False)
      else (p\<lparr>pw_Disposition := DispositionReview, pw_RejectReason := ReasonNone, pw_RejectDetail := '''',
              pw_UpdatedAt := clock\<rparr>, True))"

definition unscheduleIfTerminal :: "ClipPipeline \<Rightarrow> ClipPipeline" where
  "unscheduleIfTerminal p = (if disposition_Terminal (pw_Disposition p) then p\<lparr>pw_NextRun := 0\<rparr> else p)"

definition SettleByOperator :: "Disposition \<Rightarrow> gotime \<Rightarrow> Disposition list \<Rightarrow> ClipPipeline \<Rightarrow> ClipPipeline \<times> bool" where
  "SettleByOperator to clock froms p =
     (if pw_Disposition p \<notin> set froms then (p, False)
      else ((unscheduleIfTerminal (p\<lparr>pw_Disposition := to\<rparr>))\<lparr>pw_UpdatedAt := clock\<rparr>, True))"

fun put_record :: "StageRecord \<Rightarrow> StageRecord list \<Rightarrow> StageRecord list" where
  "put_record r [] = [r]"
| "put_record r (x # xs) = (if lr_Stage x = lr_Stage r then r # xs else x # put_record r xs)"

definition ladder_Record :: "StageID \<Rightarrow> StageStatus \<Rightarrow> string \<Rightarrow> int \<Rightarrow> gotime \<Rightarrow> ClipPipeline \<Rightarrow> ClipPipeline" where
  "ladder_Record stage status what attempts clock p =
     (let p = (if stage = pw_Stage p then p\<lparr>pw_Status := status\<rparr> else p);
          r = \<lparr>lr_Stage = stage, lr_Status = status, lr_Note = what, lr_Attempts = attempts,
               lr_StartedAt = pw_StageStartedAt p, lr_At = clock\<rparr>
      in p\<lparr>pw_Stages := put_record r (pw_Stages p)\<rparr>)"

subsection \<open>Ownership\<close>

datatype LifecycleState =
  LifecycleRunnable | LifecycleInProgress | LifecycleScheduled | LifecycleNeedsDecision | LifecycleReady
| LifecycleComplete | LifecycleRejected | LifecycleDismissed

datatype PipelineFailureCode = FailureNone | FailureStage | FailureUnprobeable | FailureUnplayable

datatype RecoveryAction = RecoveryNone | RecoveryRetry | RecoveryRestore

record PipelineLifecycle =
  lc_State :: LifecycleState
  lc_FailureCode :: PipelineFailureCode
  lc_Recovery :: RecoveryAction
  lc_RetryStage :: "StageID option"

definition lifecycle_state :: "ClipPipeline \<Rightarrow> gotime \<Rightarrow> LifecycleState" where
  "lifecycle_state p clock =
     (case pw_Disposition p of
        DispositionReview \<Rightarrow> LifecycleNeedsDecision
      | DispositionReady \<Rightarrow> LifecycleReady
      | DispositionComplete \<Rightarrow> LifecycleComplete
      | DispositionRejected \<Rightarrow> LifecycleRejected
      | DispositionDismissed \<Rightarrow> LifecycleDismissed
      | _ \<Rightarrow> if pw_Status p = StatusRunning then LifecycleInProgress
             else if \<not> is_zero_time (pw_NextRun p) \<and> pw_NextRun p > clock then LifecycleScheduled
             else LifecycleRunnable)"

definition Lifecycle :: "ClipPipeline \<Rightarrow> gotime \<Rightarrow> PipelineLifecycle" where
  "Lifecycle p clock =
     (let out = \<lparr>lc_State = lifecycle_state p clock, lc_FailureCode = FailureNone, lc_Recovery = RecoveryNone,
                 lc_RetryStage = None\<rparr>;
          out = (if pw_Status p = StatusFailed
                 then let out = out\<lparr>lc_FailureCode := FailureStage\<rparr>
                      in if pw_Disposition p = DispositionRunning
                         then out\<lparr>lc_Recovery := RecoveryRetry, lc_RetryStage := Some (pw_Stage p)\<rparr> else out
                 else out)
      in if pw_Disposition p = DispositionRejected
         then if pw_Status p = StatusFailed \<and> pw_Stage p = StageProbe \<and> pw_RejectReason p = ReasonUnprobeable
              then out\<lparr>lc_FailureCode := FailureUnprobeable, lc_Recovery := RecoveryRetry, lc_RetryStage := Some StageProbe\<rparr>
              else if pw_Status p = StatusFailed \<and> pw_Stage p = StageTranscode \<and> pw_RejectReason p = ReasonUnplayable
              then out\<lparr>lc_FailureCode := FailureUnplayable, lc_Recovery := RecoveryRetry, lc_RetryStage := Some StageTranscode\<rparr>
              else if reason_Soft (pw_RejectReason p) then out\<lparr>lc_Recovery := RecoveryRestore\<rparr> else out
         else out)"

record PipelineOverview =
  ov_Runnable :: int
  ov_InProgress :: int
  ov_Scheduled :: int
  ov_NeedsDecision :: int
  ov_Ready :: int
  ov_Complete :: int
  ov_Rejected :: int
  ov_Dismissed :: int
  ov_Recoverable :: int

definition empty_overview :: PipelineOverview where
  "empty_overview = \<lparr>ov_Runnable = 0, ov_InProgress = 0, ov_Scheduled = 0, ov_NeedsDecision = 0, ov_Ready = 0,
     ov_Complete = 0, ov_Rejected = 0, ov_Dismissed = 0, ov_Recoverable = 0\<rparr>"

definition overview_Add :: "LifecycleState \<Rightarrow> int \<Rightarrow> PipelineOverview \<Rightarrow> PipelineOverview" where
  "overview_Add state n ov =
     (case state of
        LifecycleRunnable \<Rightarrow> ov\<lparr>ov_Runnable := ov_Runnable ov + n\<rparr>
      | LifecycleInProgress \<Rightarrow> ov\<lparr>ov_InProgress := ov_InProgress ov + n\<rparr>
      | LifecycleScheduled \<Rightarrow> ov\<lparr>ov_Scheduled := ov_Scheduled ov + n\<rparr>
      | LifecycleNeedsDecision \<Rightarrow> ov\<lparr>ov_NeedsDecision := ov_NeedsDecision ov + n\<rparr>
      | LifecycleReady \<Rightarrow> ov\<lparr>ov_Ready := ov_Ready ov + n\<rparr>
      | LifecycleComplete \<Rightarrow> ov\<lparr>ov_Complete := ov_Complete ov + n\<rparr>
      | LifecycleRejected \<Rightarrow> ov\<lparr>ov_Rejected := ov_Rejected ov + n\<rparr>
      | LifecycleDismissed \<Rightarrow> ov\<lparr>ov_Dismissed := ov_Dismissed ov + n\<rparr>)"

definition overview_AddLifecycle :: "PipelineLifecycle \<Rightarrow> int \<Rightarrow> PipelineOverview \<Rightarrow> PipelineOverview" where
  "overview_AddLifecycle lifecycle n ov =
     (let ov = overview_Add (lc_State lifecycle) n ov
      in if lc_State lifecycle = LifecycleRejected \<and> lc_Recovery lifecycle \<noteq> RecoveryNone
         then ov\<lparr>ov_Recoverable := ov_Recoverable ov + n\<rparr> else ov)"

definition NoAdvanceReason :: "PipelineOverview \<Rightarrow> int \<Rightarrow> string" where
  "NoAdvanceReason ov advanced =
     (if advanced > 0 then ''''
      else if ov_InProgress ov > 0 then ''work_in_progress''
      else if ov_Runnable ov > 0 then ''runnable_work_remains''
      else if ov_Scheduled ov > 0 then ''waiting_for_retry''
      else if ov_NeedsDecision ov > 0 \<and> ov_Recoverable ov > 0 then ''waiting_for_decisions_and_recovery''
      else if ov_NeedsDecision ov > 0 then ''waiting_for_decisions''
      else if ov_Recoverable ov > 0 then ''waiting_for_recovery''
      else ''idle'')"

text \<open>What a run's clips became (\<^verbatim>\<open>acquisition.go\<close>).\<close>

record AcquisitionOutcome =
  ao_Enrolled :: int
  ao_Preparing :: int
  ao_NeedsDecision :: int
  ao_Ready :: int
  ao_Complete :: int
  ao_Rejected :: int
  ao_Dismissed :: int

definition count_outcome :: "gotime \<Rightarrow> AcquisitionOutcome \<Rightarrow> ClipPipeline \<Rightarrow> AcquisitionOutcome" where
  "count_outcome clock out row =
     (let out = out\<lparr>ao_Enrolled := ao_Enrolled out + 1\<rparr>
      in case lc_State (Lifecycle row clock) of
           LifecycleNeedsDecision \<Rightarrow> out\<lparr>ao_NeedsDecision := ao_NeedsDecision out + 1\<rparr>
         | LifecycleReady \<Rightarrow> out\<lparr>ao_Ready := ao_Ready out + 1\<rparr>
         | LifecycleComplete \<Rightarrow> out\<lparr>ao_Complete := ao_Complete out + 1\<rparr>
         | LifecycleRejected \<Rightarrow> out\<lparr>ao_Rejected := ao_Rejected out + 1\<rparr>
         | LifecycleDismissed \<Rightarrow> out\<lparr>ao_Dismissed := ao_Dismissed out + 1\<rparr>
         | _ \<Rightarrow> out\<lparr>ao_Preparing := ao_Preparing out + 1\<rparr>)"

definition AcquisitionOutcomeFrom :: "ClipPipeline list \<Rightarrow> gotime \<Rightarrow> AcquisitionOutcome" where
  "AcquisitionOutcomeFrom rows clock =
     foldl (count_outcome clock)
       \<lparr>ao_Enrolled = 0, ao_Preparing = 0, ao_NeedsDecision = 0, ao_Ready = 0, ao_Complete = 0, ao_Rejected = 0, ao_Dismissed = 0\<rparr>
       rows"

subsection \<open>Budgets, attempts and the steps of a row\<close>

datatype StageCost = CostCheap | CostTranscode | CostWhisper | CostVision | CostSplit

text \<open>A limit that is not set (a nil closure) is \<open>None\<close>; a limit of zero allows nothing.\<close>

record Budget =
  bg_MaxClips :: "int option"
  bg_MaxTranscodes :: "int option"
  bg_MaxWhisper :: "int option"
  bg_MaxVision :: "int option"
  bg_MaxSplits :: "int option"

record Spend =
  sp_clips :: int
  sp_transcodes :: int
  sp_whisper :: int
  sp_vision :: int
  sp_splits :: int
  sp_playbackBusy :: bool

definition no_spend :: Spend where
  "no_spend = \<lparr>sp_clips = 0, sp_transcodes = 0, sp_whisper = 0, sp_vision = 0, sp_splits = 0, sp_playbackBusy = False\<rparr>"

definition limit_or :: "int option \<Rightarrow> int \<Rightarrow> int" where
  "limit_or f fallback = (case f of None \<Rightarrow> fallback | Some v \<Rightarrow> v)"

definition exhausted :: "Budget \<Rightarrow> Spend \<Rightarrow> StageCost \<Rightarrow> bool" where
  "exhausted b s c =
     (case c of
        CostTranscode \<Rightarrow> sp_transcodes s \<ge> limit_or (bg_MaxTranscodes b) 3
      | CostWhisper \<Rightarrow> sp_whisper s \<ge> limit_or (bg_MaxWhisper b) 10
      | CostVision \<Rightarrow> sp_vision s \<ge> limit_or (bg_MaxVision b) 5
      | CostSplit \<Rightarrow> sp_splits s \<ge> limit_or (bg_MaxSplits b) 3
      | CostCheap \<Rightarrow> False)"

definition charge :: "StageCost \<Rightarrow> Spend \<Rightarrow> Spend" where
  "charge c s =
     (case c of
        CostTranscode \<Rightarrow> s\<lparr>sp_transcodes := sp_transcodes s + 1\<rparr>
      | CostWhisper \<Rightarrow> s\<lparr>sp_whisper := sp_whisper s + 1\<rparr>
      | CostVision \<Rightarrow> s\<lparr>sp_vision := sp_vision s + 1\<rparr>
      | CostSplit \<Rightarrow> s\<lparr>sp_splits := sp_splits s + 1\<rparr>
      | CostCheap \<Rightarrow> s)"

definition backoff :: "int \<Rightarrow> duration" where
  "backoff attempts = (if attempts \<le> 1 then 5 * minute else if attempts = 2 then 30 * minute else 2 * hour)"

definition MaxAttempts :: int where "MaxAttempts = 3"

definition deferYield :: duration where "deferYield = 2 * minute"

definition storageHoldWait :: duration where "storageHoldWait = 15 * minute"

definition fatalStages :: "StageID \<Rightarrow> RejectReason option" where
  "fatalStages s =
     (if s = StageProbe then Some ReasonUnprobeable else if s = StageTranscode then Some ReasonUnplayable else None)"

definition enrol_row :: "string \<Rightarrow> string \<Rightarrow> gotime \<Rightarrow> ClipPipeline" where
  "enrol_row hash acquisition clock =
     \<lparr>pw_ClipHash = hash, pw_AcquisitionID = acquisition, pw_Stage = StageProbe, pw_Status = StatusQueued,
      pw_Progress = 0, pw_Disposition = DispositionRunning, pw_RejectReason = ReasonNone, pw_RejectDetail = '''',
      pw_Attempts = 0, pw_ForceRun = False, pw_NextRun = 0, pw_PreparationAttempt = 1,
      pw_PreparationStartedAt = clock, pw_PreparationStartReason = PreparationStartedByEnrollment,
      pw_PreparationProgress = 0, pw_StageQueuedAt = clock, pw_StageStartedAt = 0, pw_Stages = [],
      pw_EnrolledAt = clock, pw_UpdatedAt = clock\<rparr>"

text \<open>\<^verbatim>\<open>step\<close>: the row on its next rung, and whether the ladder is finished.\<close>

definition step :: "ClipPipeline \<Rightarrow> gotime \<Rightarrow> ClipPipeline \<times> bool" where
  "step row clock =
     (let row = row\<lparr>pw_ForceRun := False\<rparr>; idx = StageIndex (pw_Stage row)
      in if idx < 0 \<or> idx + 1 \<ge> int (length StageOrder) then (row\<lparr>pw_Status := StatusDone\<rparr>, True)
         else (row\<lparr>pw_Stage := StageOrder ! nat (idx + 1), pw_Status := StatusQueued, pw_Attempts := 0, pw_Progress := 0,
                  pw_StageQueuedAt := clock, pw_StageStartedAt := 0\<rparr>, False))"

definition has_record :: "StageRecord list \<Rightarrow> StageID \<Rightarrow> bool" where
  "has_record rs s \<longleftrightarrow> list_ex (\<lambda>r. lr_Stage r = s) rs"

fun first_record :: "StageRecord list \<Rightarrow> StageID \<Rightarrow> StageRecord list" where
  "first_record [] s = []"
| "first_record (r # rs) s = (if lr_Stage r = s then [r] else first_record rs s)"

fun first_gap :: "StageRecord list \<Rightarrow> StageID list \<Rightarrow> nat \<Rightarrow> nat option" where
  "first_gap rs [] i = None"
| "first_gap rs (s # ss) i = (if has_record rs s then first_gap rs ss (Suc i) else Some i)"

definition repairLadderGaps :: "ClipPipeline \<Rightarrow> gotime \<Rightarrow> ClipPipeline \<times> bool" where
  "repairLadderGaps row clock =
     (let current = StageIndex (pw_Stage row)
      in if pw_Disposition row \<noteq> DispositionRunning \<or> current < 0 then (row, False)
         else case first_gap (pw_Stages row) (take (nat current) StageOrder) 0 of
                None \<Rightarrow> (row, False)
              | Some gap \<Rightarrow>
                  (row\<lparr>pw_Stages := concat (map (first_record (pw_Stages row)) (take gap StageOrder)),
                       pw_Stage := StageOrder ! gap, pw_Status := StatusQueued, pw_Attempts := 0, pw_Progress := 0,
                       pw_StageQueuedAt := clock, pw_StageStartedAt := 0, pw_NextRun := 0\<rparr>, True))"

definition onFailure :: "ClipPipeline \<Rightarrow> string \<Rightarrow> gotime \<Rightarrow> ClipPipeline \<times> bool" where
  "onFailure row err clock =
     (if pw_Stage row = StageScreen \<and> pw_Attempts row \<ge> MaxAttempts
      then (ladder_Record (pw_Stage row) StatusFailed err MaxAttempts clock
              (row\<lparr>pw_Attempts := MaxAttempts, pw_NextRun := clock + backoff MaxAttempts\<rparr>), False)
      else if pw_Attempts row < MaxAttempts
      then (ladder_Record (pw_Stage row) StatusFailed err (pw_Attempts row) clock
              (row\<lparr>pw_NextRun := clock + backoff (pw_Attempts row)\<rparr>), False)
      else case fatalStages (pw_Stage row) of
             Some reason \<Rightarrow>
               ((ladder_Record (pw_Stage row) StatusFailed err (pw_Attempts row) clock row)
                  \<lparr>pw_ForceRun := False, pw_Disposition := DispositionRejected, pw_RejectReason := reason,
                   pw_RejectDetail := err\<rparr>, False)
           | None \<Rightarrow>
               (ladder_Record (pw_Stage row) StatusSkipped
                  (''gave up after '' @ itoa (pw_Attempts row) @ '' attempts: '' @ err) (pw_Attempts row) clock row, True))"

definition onReadyFailure :: "ClipPipeline \<Rightarrow> string \<Rightarrow> gotime \<Rightarrow> ClipPipeline" where
  "onReadyFailure row cause clock =
     (let row = (if pw_Attempts row > MaxAttempts then row\<lparr>pw_Attempts := MaxAttempts\<rparr> else row);
          row = ladder_Record (pw_Stage row) StatusFailed (''publishing failed: '' @ cause) (pw_Attempts row) clock row
      in row\<lparr>pw_NextRun := clock + backoff (pw_Attempts row)\<rparr>)"

definition resetPipelineRow :: "ClipPipeline \<Rightarrow> StageID \<Rightarrow> gotime \<Rightarrow> ClipPipeline" where
  "resetPipelineRow row frm clock =
     (let idx = StageIndex frm
      in row\<lparr>pw_Stages := filter (\<lambda>r. StageIndex (lr_Stage r) \<ge> 0 \<and> StageIndex (lr_Stage r) < idx) (pw_Stages row),
             pw_Stage := frm, pw_Status := StatusQueued, pw_Attempts := 0, pw_Progress := 0,
             pw_StageQueuedAt := clock, pw_StageStartedAt := 0, pw_ForceRun := True,
             pw_Disposition := DispositionRunning, pw_RejectReason := ReasonNone, pw_RejectDetail := '''',
             pw_NextRun := 0, pw_UpdatedAt := clock\<rparr>)"

text \<open>The row a rewind writes: a reset row of a new attempt. The attempt counter is a 64-bit \<^verbatim>\<open>int\<close>.\<close>

definition rewind_row :: "ClipPipeline \<Rightarrow> StageID \<Rightarrow> gotime \<Rightarrow> ClipPipeline" where
  "rewind_row row frm clock =
     (let row = resetPipelineRow row frm clock;
          attempt = sint (word_of_int (pw_PreparationAttempt row + 1) :: 64 word)
      in row\<lparr>pw_PreparationAttempt := (if attempt \<le> 0 then 1 else attempt), pw_PreparationStartedAt := clock,
             pw_PreparationStartReason := PreparationStartedByRestart, pw_PreparationProgress := 0\<rparr>)"

datatype RewindError =
  ErrUnknownStage | ErrTranscodeNeedsForce | ErrNotWired | ErrRewindStore | ErrNotInCatalog | ErrNoPath | ErrClipChanged
| ErrPipelineNotRetryable

text \<open>What a restart clears, in its order, and its accepted writes.\<close>

datatype Cleared = ClearedMezzanine | ClearedProposals | ClearedLanguage | ClearedTranscript | ClearedVision

datatype RewindEffect = RwHold string | RwClear Cleared | RwRow ClipPipeline | RwRestore string

definition invalidate :: "int \<Rightarrow> Cleared list" where
  "invalidate idx =
     (if StageIndex StageTranscode \<ge> idx then [ClearedMezzanine] else []) @
     (if StageIndex StageSplit \<ge> idx then [ClearedProposals] else []) @
     (if StageIndex StageLanguage \<ge> idx then [ClearedLanguage] else []) @
     (if StageIndex StageTranscribe \<ge> idx then [ClearedTranscript] else []) @
     (if StageIndex StageVision \<ge> idx then [ClearedVision] else [])"

text \<open>
  What a restart hears: whether the seam is wired, the clip, how many clips the hold took, whether the evidence copy
  is gone, at which clearing the store fails if at any, the row, and whether the write fails.
\<close>

record RewindAnswers =
  ra_Wired :: bool
  ra_Clip :: "unit + StoreClip option"
  ra_Held :: "int option"
  ra_EvidenceReleased :: bool
  ra_FailsAt :: "Cleared option"
  ra_Row :: "unit + ClipPipeline option"
  ra_RowFails :: bool

definition cleared :: "RewindAnswers \<Rightarrow> int \<Rightarrow> RewindEffect list \<times> bool" where
  "cleared ra idx =
     (case ra_FailsAt ra of
        None \<Rightarrow> (map RwClear (invalidate idx), True)
      | Some x \<Rightarrow>
          if x \<in> set (invalidate idx) then (map RwClear (takeWhile (\<lambda>y. y \<noteq> x) (invalidate idx)), False)
          else (map RwClear (invalidate idx), True))"

definition rewind_clip :: "RewindAnswers \<Rightarrow> RewindError + StoreClip" where
  "rewind_clip ra =
     (case ra_Clip ra of Inl e \<Rightarrow> Inl ErrRewindStore | Inr None \<Rightarrow> Inl ErrNotInCatalog | Inr (Some c) \<Rightarrow> Inr c)"

definition Rewind ::
  "RewindAnswers \<Rightarrow> string \<Rightarrow> StageID \<Rightarrow> bool \<Rightarrow> gotime \<Rightarrow> RewindEffect list \<times> RewindError option" where
  "Rewind ra hash frm force clock =
     (if StageIndex frm < 0 then ([], Some ErrUnknownStage)
      else if frm = StageTranscode \<and> \<not> force then ([], Some ErrTranscodeNeedsForce)
      else if \<not> ra_Wired ra then ([], Some ErrNotWired)
      else case rewind_clip ra of
             Inl e \<Rightarrow> ([], Some e)
           | Inr c \<Rightarrow>
               if cl_Path (sc_Clip c) = '''' then ([], Some ErrNoPath)
               else (case ra_Held ra of
                       None \<Rightarrow> ([], Some ErrRewindStore)
                     | Some n \<Rightarrow>
                         if n \<noteq> 1 then ([], Some ErrClipChanged)
                         else let frm = (if (frm = StageSplit \<or> frm = StageScreen) \<and> ra_EvidenceReleased ra
                                         then StageTranscode else frm);
                                  hold = [RwHold (cl_Path (sc_Clip c))]
                              in case cleared ra (StageIndex frm) of
                                   (effs, ok) \<Rightarrow>
                                     if \<not> ok then (hold @ effs, Some ErrRewindStore)
                                     else (case ra_Row ra of
                                             Inl e \<Rightarrow> (hold @ effs, Some ErrRewindStore)
                                           | Inr found \<Rightarrow>
                                               let row = (case found of
                                                     Some row \<Rightarrow> row
                                                   | None \<Rightarrow> (enrol_row hash '''' clock)\<lparr>pw_PreparationAttempt := 0\<rparr>)
                                               in if ra_RowFails ra then (hold @ effs, Some ErrRewindStore)
                                                  else (hold @ effs @ [RwRow (rewind_row row frm clock)], None))))"

text \<open>
  A retry of the failed rung: no hold and no choice of rung. The store restores a rejected clip and writes the row in
  one transaction.
\<close>

definition RetryFailure ::
  "RewindAnswers \<Rightarrow> string \<Rightarrow> gotime \<Rightarrow> RewindEffect list \<times> RewindError option" where
  "RetryFailure ra hash clock =
     (case ra_Row ra of
        Inl e \<Rightarrow> ([], Some ErrRewindStore)
      | Inr None \<Rightarrow> ([], Some ErrPipelineNotRetryable)
      | Inr (Some row) \<Rightarrow>
          (case (lc_Recovery (Lifecycle row clock), lc_RetryStage (Lifecycle row clock)) of
             (RecoveryRetry, Some stage) \<Rightarrow>
               if \<not> ra_Wired ra then ([], Some ErrNotWired)
               else (case rewind_clip ra of
                       Inl e \<Rightarrow> ([], Some e)
                     | Inr c \<Rightarrow>
                         (case cleared ra (StageIndex stage) of
                            (effs, ok) \<Rightarrow>
                              if \<not> ok \<or> ra_RowFails ra then (effs, Some ErrRewindStore)
                              else (effs @
                                    (if pw_Disposition row = DispositionRejected then [RwRestore hash] else []) @
                                    [RwRow (resetPipelineRow row stage clock)], None)))
           | _ \<Rightarrow> ([], Some ErrPipelineNotRetryable)))"

definition Requeue :: "ClipPipeline \<Rightarrow> gotime \<Rightarrow> ClipPipeline \<times> bool" where
  "Requeue row clock =
     (if pw_Stage row \<noteq> StageSplit \<or> pw_Disposition row \<noteq> DispositionReview then (row, False)
      else (row\<lparr>pw_Disposition := DispositionRunning, pw_Status := StatusQueued, pw_Attempts := 0,
                pw_StageQueuedAt := clock, pw_StageStartedAt := 0, pw_NextRun := 0, pw_UpdatedAt := clock\<rparr>, True))"

definition resume_split_review :: "ClipPipeline \<Rightarrow> string list \<Rightarrow> gotime \<Rightarrow> ClipPipeline option" where
  "resume_split_review row hashes clock =
     (if pw_ClipHash row \<notin> set hashes \<or> pw_Disposition row \<noteq> DispositionReview \<or> pw_Stage row \<noteq> StageSplit then None
      else Some (row\<lparr>pw_Stages := filter (\<lambda>r. lr_Stage r \<noteq> StageSplit) (pw_Stages row), pw_Status := StatusQueued,
                     pw_Attempts := 0, pw_Progress := 0, pw_Disposition := DispositionRunning,
                     pw_RejectReason := ReasonNone, pw_RejectDetail := '''', pw_NextRun := 0, pw_UpdatedAt := clock\<rparr>))"

subsection \<open>Progress\<close>

fun completed_stages :: "StageRecord list \<Rightarrow> StageID list \<Rightarrow> StageID list" where
  "completed_stages [] seen = seen"
| "completed_stages (r # rs) seen =
     (if lr_Stage r \<in> set seen then completed_stages rs seen
      else if StageIndex (lr_Stage r) < 0 then completed_stages rs seen
      else if lr_Status r = StatusDone \<or> lr_Status r = StatusSkipped
      then completed_stages rs (lr_Stage r # seen) else completed_stages rs seen)"

definition ProjectPreparationProgress :: "ClipPipeline \<Rightarrow> int" where
  "ProjectPreparationProgress row =
     (if pw_PreparationAttempt row \<le> 0 then - 1
      else if pw_Disposition row = DispositionReady then 100
      else let seen = completed_stages (pw_Stages row) [];
               units = int (length seen) * 100;
               units = (if pw_Disposition row = DispositionRunning \<and> pw_Status row = StatusRunning \<and>
                           pw_Progress row \<ge> 0 \<and> pw_Progress row \<le> 100 \<and>
                           pw_Stage row \<notin> set seen \<and> StageIndex (pw_Stage row) \<ge> 0
                        then units + pw_Progress row else units);
               projected = units sdiv int (length StageOrder);
               projected = (if projected > 99 then 99 else projected)
           in if pw_PreparationProgress row > projected then pw_PreparationProgress row else projected)"

definition applyPreparationProgress :: "ClipPipeline \<Rightarrow> ClipPipeline" where
  "applyPreparationProgress row = row\<lparr>pw_PreparationProgress := ProjectPreparationProgress row\<rparr>"

text \<open>A refused publication is text wrapping \<^verbatim>\<open>ErrReadyStale\<close>.\<close>

definition stale :: "string \<Rightarrow> string" where
  "stale what = ''filler terminal readiness state changed: '' @ what"

fun stage_name :: "StageID \<Rightarrow> string" where
  "stage_name StageProbe = ''probe''"
| "stage_name StageTranscode = ''transcode''"
| "stage_name StageSplit = ''split''"
| "stage_name StageScreen = ''screen''"
| "stage_name StageDefects = ''defects''"
| "stage_name StageLanguage = ''language''"
| "stage_name StageTranscribe = ''transcribe''"
| "stage_name StageVision = ''vision''"
| "stage_name StageScore = ''score''"
| "stage_name (StageOther s) = s"

fun incomplete_rung :: "StageID list \<Rightarrow> StageRecord list \<Rightarrow> StageID option" where
  "incomplete_rung (s # ss) (r # rs) =
     (if lr_Stage r \<noteq> s \<or> (lr_Status r \<noteq> StatusDone \<and> lr_Status r \<noteq> StatusSkipped) then Some s
      else incomplete_rung ss rs)"
| "incomplete_rung ss rs = None"

definition validateCompletedReadyLadder :: "ClipPipeline \<Rightarrow> string option" where
  "validateCompletedReadyLadder row =
     (if pw_Stage row \<noteq> last StageOrder \<or> pw_Status row \<noteq> StatusDone \<or> length (pw_Stages row) \<noteq> length StageOrder
      then Some (stale ''pipeline has not completed its final stage'')
      else case incomplete_rung StageOrder (pw_Stages row) of
             Some s \<Rightarrow> Some (stale (''pipeline stage '' @ stage_name s @ '' is not complete''))
           | None \<Rightarrow>
               if lr_Status (pw_Stages row ! nat (StageIndex StageProbe)) \<noteq> StatusDone \<or>
                  lr_Status (pw_Stages row ! nat (StageIndex StageScore)) \<noteq> StatusDone
               then Some (stale ''required probe and score checks did not run'') else None)"

definition settleReleased :: "ClipPipeline \<Rightarrow> StoreClip \<Rightarrow> gotime \<Rightarrow> ClipPipeline \<times> bool" where
  "settleReleased row c clock =
     (if cl_Hash (sc_Clip c) = '''' \<or> cl_Path (sc_Clip c) = '''' \<or> pw_ClipHash row \<noteq> cl_Hash (sc_Clip c) \<or>
         sc_Held c \<or> \<not> is_zero_time (sc_RemovedAt c) \<or> sc_IsComposite c \<or>
         pw_Disposition row \<noteq> DispositionRunning \<or> validateCompletedReadyLadder row \<noteq> None
      then (row, False)
      else ((ladder_Record StageScore StatusDone
               ''clip was already released to the catalog; settled without republishing'' (pw_Attempts row) clock row)
              \<lparr>pw_Disposition := DispositionReady, pw_Status := StatusDone, pw_Progress := 100,
               pw_PreparationProgress := 100, pw_NextRun := 0, pw_ForceRun := False\<rparr>, True))"

end
