(* ===== verification/Belt.thy ===== *)
theory Belt
  imports Conveyor
begin

text \<open>
  A pass of the ingest conveyor over one clip (\<^verbatim>\<open>internal/filler/pipeline.go\<close>, \<^verbatim>\<open>playbackheadroom.go\<close>) and the
  publication that ends it (\<^verbatim>\<open>ready.go\<close>, \<^verbatim>\<open>records/fillerready.go\<close>).

  What a stage, the store, the clock and the player answer during one turn of the loop is a record \<open>Turn\<close>; a pass
  reads one record per turn from a sequence of them. What a pass does to the store is the list of its effects, in
  their order; an effect is listed when the store accepted it, a row's write with the clip it was saved for.
\<close>

subsection \<open>The outside of one turn\<close>

datatype StageVerdict = VerdictContinue | VerdictReject | VerdictReview | VerdictDefer

record StageResult =
  rs_Clip :: StoreClip
  rs_Verdict :: StageVerdict
  rs_Reason :: RejectReason
  rs_Detail :: string
  rs_Spawned :: "string list"
  rs_Note :: string

text \<open>An error of a stage: its text, whether it wraps \<open>ErrDeferred\<close>, and whether it wraps the governor's pause.\<close>

record RunError =
  re_Text :: string
  re_Deferred :: bool
  re_Pause :: bool

text \<open>Which of the store's calls in one save fail: the hold, the row, the tombstone.\<close>

record SaveAnswer =
  sv_HoldFails :: bool
  sv_RowFails :: bool
  sv_RemoveFails :: bool

text \<open>One progress report of a running stage: the stage it names, the percentage, when, and what a save answers.\<close>

record Sample =
  sm_Stage :: StageID
  sm_Percent :: int
  sm_Clock :: gotime
  sm_Save :: SaveAnswer

record Turn =
  tn_Expired :: bool
  tn_Started :: gotime
  tn_Ended :: gotime
  tn_Budget :: Budget
  tn_Applies :: "bool \<times> string"
  tn_Busy :: bool
  tn_Polls :: "bool list"
  tn_SaveStart :: SaveAnswer
  tn_Samples :: "Sample list"
  tn_Run :: "RunError + StageResult"
  tn_ExpiredInRun :: bool
  tn_Preempted :: bool
  tn_EnrolFails :: "string list"
  tn_Save :: SaveAnswer

text \<open>A runner: the stages this install has and what each costs, and how long a media rung waits for playback.\<close>

record Pipeline =
  pl_Stages :: "StageID \<Rightarrow> StageCost option"
  pl_Headroom :: bool
  pl_Poll :: duration
  pl_MaxWait :: duration

text \<open>
  The writes: a hold of a path; a row, with the clip the conveyor saves and publishes it with (none for a row whose
  clip is gone); a tombstone; an enrolment.
\<close>

datatype Effect = EffHold string | EffRow ClipPipeline "StoreClip option" | EffRemove string | EffEnrol ClipPipeline

subsection \<open>Saving\<close>

text \<open>\<^verbatim>\<open>save\<close> and \<^verbatim>\<open>tombstone\<close>: the accepted writes, and whether the call returned no error.\<close>

definition save_as :: "ClipPipeline \<Rightarrow> gotime \<Rightarrow> ClipPipeline" where
  "save_as row clock = unscheduleIfTerminal (applyPreparationProgress (row\<lparr>pw_UpdatedAt := clock\<rparr>))"

definition tombstone :: "StoreClip \<Rightarrow> bool \<Rightarrow> Effect list" where
  "tombstone c fails = (if cl_Path (sc_Clip c) = '''' \<or> fails then [] else [EffRemove (cl_Path (sc_Clip c))])"

definition save :: "ClipPipeline \<Rightarrow> StoreClip \<Rightarrow> gotime \<Rightarrow> SaveAnswer \<Rightarrow> Effect list \<times> bool" where
  "save row c clock answer =
     (let row = save_as row clock;
          holds = pw_Disposition row = DispositionReview \<and> cl_Path (sc_Clip c) \<noteq> '''';
          held = (if holds then [EffHold (cl_Path (sc_Clip c))] else [])
      in if holds \<and> sv_HoldFails answer then ([], False)
         else if sv_RowFails answer then (held, False)
         else (held @ [EffRow row (Some c)] @
               (if pw_Disposition row = DispositionRejected then tombstone c (sv_RemoveFails answer) else []), True))"

subsection \<open>Progress of a running stage\<close>

record Throttle =
  th_lastWritten :: int
  th_lastWriteAt :: gotime

definition throttle_due :: "Throttle \<Rightarrow> int \<Rightarrow> gotime \<Rightarrow> bool" where
  "throttle_due t percent clock \<longleftrightarrow>
     percent \<ge> th_lastWritten t + 10 \<or> \<not> clock < th_lastWriteAt t + 2 * second"

definition writeProgress ::
  "ClipPipeline \<Rightarrow> StoreClip \<Rightarrow> Throttle \<Rightarrow> Sample \<Rightarrow> Throttle \<times> Effect list" where
  "writeProgress row c t sm =
     (case save row c (sm_Clock sm) (sm_Save sm) of
        (effs, ok) \<Rightarrow> (if ok then \<lparr>th_lastWritten = sm_Percent sm, th_lastWriteAt = sm_Clock sm\<rparr> else t, effs))"

definition onProgress ::
  "StoreClip \<Rightarrow> Sample \<Rightarrow> ClipPipeline \<times> Throttle \<Rightarrow> (ClipPipeline \<times> Throttle) \<times> Effect list" where
  "onProgress c sm st =
     (case st of (row, t) \<Rightarrow>
        if sm_Stage sm \<noteq> pw_Stage row then ((row, t), [])
        else if sm_Percent sm = - 1
        then (let row = row\<lparr>pw_Progress := - 1\<rparr> in case writeProgress row c t sm of (t, effs) \<Rightarrow> ((row, t), effs))
        else if sm_Percent sm < 0 \<or> sm_Percent sm > 100 then ((row, t), [])
        else let row = row\<lparr>pw_Progress := sm_Percent sm\<rparr>
             in if sm_Percent sm < 100 \<and> \<not> throttle_due t (sm_Percent sm) (sm_Clock sm) then ((row, t), [])
                else case writeProgress row c t sm of (t, effs) \<Rightarrow> ((row, t), effs))"

fun progress_run :: "StoreClip \<Rightarrow> Sample list \<Rightarrow> ClipPipeline \<times> Throttle \<Rightarrow> ClipPipeline \<times> Effect list" where
  "progress_run c [] st = (fst st, [])"
| "progress_run c (sm # sms) st =
     (case onProgress c sm st of (st, effs) \<Rightarrow>
        case progress_run c sms st of (row, later) \<Rightarrow> (row, effs @ later))"

subsection \<open>Playback headroom\<close>

definition yieldsToPlayback :: "StageCost \<Rightarrow> bool" where
  "yieldsToPlayback c \<longleftrightarrow> c = CostTranscode \<or> c = CostWhisper \<or> c = CostSplit"

definition preemptedByPlayback :: "StageCost \<Rightarrow> bool" where
  "preemptedByPlayback c \<longleftrightarrow> c = CostTranscode"

text \<open>
  The poll loop: each answer is one more look at the player after one more wait; no answer left is a wait the end of
  the pass cut short. The flags are whether to start, and whether the rest of the pass is told playback is busy.
\<close>

fun poll_playback :: "duration \<Rightarrow> duration \<Rightarrow> duration \<Rightarrow> bool list \<Rightarrow> bool \<times> bool" where
  "poll_playback poll max_wait waited answers =
     (if \<not> waited < max_wait then (False, True)
      else case answers of
             [] \<Rightarrow> (False, False)
           | busy # rest \<Rightarrow> if \<not> busy then (True, False) else poll_playback poll max_wait (waited + poll) rest)"

declare poll_playback.simps [simp del]

definition waitForHeadroom :: "Pipeline \<Rightarrow> Spend \<Rightarrow> StageCost \<Rightarrow> bool \<Rightarrow> bool list \<Rightarrow> bool \<times> Spend" where
  "waitForHeadroom pl s c busy polls =
     (if \<not> pl_Headroom pl \<or> \<not> yieldsToPlayback c then (True, s)
      else if \<not> busy then (True, s)
      else if sp_playbackBusy s then (False, s)
      else let poll = (if pl_Poll pl \<le> 0 then 5 * second else pl_Poll pl)
           in case poll_playback poll (pl_MaxWait pl) 0 polls of
                (start, told) \<Rightarrow> (start, if told then s\<lparr>sp_playbackBusy := True\<rparr> else s))"

text \<open>What running the stage returned, once playback that took the machine is a deferral.\<close>

definition runYielding :: "Pipeline \<Rightarrow> StageCost \<Rightarrow> Turn \<Rightarrow> Spend \<Rightarrow> (RunError + StageResult) \<times> Spend" where
  "runYielding pl c tn s =
     (if \<not> pl_Headroom pl \<or> \<not> preemptedByPlayback c then (tn_Run tn, s)
      else case tn_Run tn of
             Inl e \<Rightarrow>
               if tn_Preempted tn \<and> \<not> tn_ExpiredInRun tn
               then (Inl (e\<lparr>re_Text := ''filler pipeline: the pass ended before this stage finished: yielded to playback: '' @ re_Text e,
                            re_Deferred := True\<rparr>),
                     s\<lparr>sp_playbackBusy := True\<rparr>)
               else (Inl e, s)
           | Inr out \<Rightarrow> (Inr out, s))"

subsection \<open>One turn of the loop\<close>

datatype PassError = ErrDeferred | ErrStore | ErrReady string

text \<open>
  What a turn ends in: the loop goes on with the row, breaks out of the loop, or the pass returns a disposition and
  an error.
\<close>

datatype TurnResult =
  TurnGo ClipPipeline StoreClip Spend
| TurnBreak ClipPipeline StoreClip Spend
| TurnReturn Disposition "PassError option" Spend

definition stepped :: "ClipPipeline \<Rightarrow> StoreClip \<Rightarrow> Spend \<Rightarrow> gotime \<Rightarrow> TurnResult" where
  "stepped row c s clock =
     (case step row clock of (row, finished_ladder) \<Rightarrow> if finished_ladder then TurnBreak row c s else TurnGo row c s)"

definition skip_rung :: "ClipPipeline \<Rightarrow> string \<Rightarrow> StoreClip \<Rightarrow> Spend \<Rightarrow> gotime \<Rightarrow> TurnResult" where
  "skip_rung row why c s clock = stepped (ladder_Record (pw_Stage row) StatusSkipped why (pw_Attempts row) clock row) c s clock"

text \<open>A return that saves the row first: \<open>err\<close> is what it returns once the row is saved.\<close>

definition saved_return ::
  "ClipPipeline \<Rightarrow> StoreClip \<Rightarrow> gotime \<Rightarrow> SaveAnswer \<Rightarrow> PassError option \<Rightarrow> Spend \<Rightarrow> Effect list \<times> TurnResult" where
  "saved_return row c clock answer err s =
     (case save row c clock answer of
        (effs, ok) \<Rightarrow> (effs, TurnReturn (pw_Disposition row) (if ok then err else Some ErrStore) s))"

definition give_back_attempt :: "ClipPipeline \<Rightarrow> ClipPipeline" where
  "give_back_attempt row = (if pw_Attempts row > 0 then row\<lparr>pw_Attempts := pw_Attempts row - 1\<rparr> else row)"

definition failed_turn ::
  "Turn \<Rightarrow> RunError \<Rightarrow> ClipPipeline \<Rightarrow> StoreClip \<Rightarrow> Spend \<Rightarrow> Effect list \<times> TurnResult" where
  "failed_turn tn e row c s =
     (let clock = tn_Ended tn
      in if tn_ExpiredInRun tn \<or> re_Deferred e
         then saved_return ((give_back_attempt (row\<lparr>pw_Status := StatusQueued\<rparr>))\<lparr>pw_NextRun := clock + deferYield\<rparr>)
                c clock (tn_Save tn) (Some ErrDeferred) s
         else if re_Pause e
         then (let row = give_back_attempt row;
                   row = ladder_Record (pw_Stage row) StatusQueued (''waiting for filler storage: '' @ re_Text e)
                           (pw_Attempts row) clock row
               in saved_return (row\<lparr>pw_NextRun := clock + storageHoldWait\<rparr>) c clock (tn_Save tn) (Some ErrDeferred) s)
         else case onFailure row (re_Text e) clock of
                (row, resolved) \<Rightarrow>
                  if \<not> resolved then saved_return row c clock (tn_Save tn) None s
                  else ([], stepped row c s clock))"

definition adopt_clip :: "StageResult \<Rightarrow> ClipPipeline \<Rightarrow> StoreClip \<Rightarrow> ClipPipeline \<times> StoreClip" where
  "adopt_clip out row c =
     (if cl_Hash (sc_Clip (rs_Clip out)) = '''' then (row, c)
      else (if cl_Hash (sc_Clip (rs_Clip out)) \<noteq> cl_Hash (sc_Clip c)
            then row\<lparr>pw_ClipHash := cl_Hash (sc_Clip (rs_Clip out))\<rparr> else row, rs_Clip out))"

definition enrol_spawned :: "string list \<Rightarrow> string list \<Rightarrow> gotime \<Rightarrow> Effect list" where
  "enrol_spawned fails spawned clock =
     map (\<lambda>h. EffEnrol (enrol_row h '''' clock)) (filter (\<lambda>h. h \<noteq> '''' \<and> h \<notin> set fails) spawned)"

definition verdict_turn ::
  "Turn \<Rightarrow> StageResult \<Rightarrow> ClipPipeline \<Rightarrow> StoreClip \<Rightarrow> Spend \<Rightarrow> Effect list \<times> TurnResult" where
  "verdict_turn tn out row c s =
     (let clock = tn_Ended tn;
          complete = ladder_Record (pw_Stage row) StatusDone (rs_Note out) (pw_Attempts row) clock row
      in case rs_Verdict out of
           VerdictReject \<Rightarrow>
             saved_return (complete\<lparr>pw_ForceRun := False, pw_Disposition := DispositionRejected,
                                    pw_RejectReason := rs_Reason out, pw_RejectDetail := rs_Detail out\<rparr>)
               c clock (tn_Save tn) None s
         | VerdictReview \<Rightarrow>
             saved_return (complete\<lparr>pw_ForceRun := False, pw_Disposition := DispositionReview\<rparr>) c clock (tn_Save tn) None s
         | VerdictDefer \<Rightarrow>
             (let row = ladder_Record (pw_Stage row) StatusQueued (rs_Note out) (pw_Attempts row) clock row
              in saved_return (row\<lparr>pw_NextRun := clock + deferYield\<rparr>) c clock (tn_Save tn) (Some ErrDeferred) s)
         | VerdictContinue \<Rightarrow> ([], stepped complete c s clock))"

definition completed_turn ::
  "Turn \<Rightarrow> StageResult \<Rightarrow> ClipPipeline \<Rightarrow> StoreClip \<Rightarrow> Spend \<Rightarrow> Effect list \<times> TurnResult" where
  "completed_turn tn out row c s =
     (case adopt_clip out row c of
        (row, c) \<Rightarrow>
          case verdict_turn tn out row c s of
            (effs, res) \<Rightarrow> (enrol_spawned (tn_EnrolFails tn) (rs_Spawned out) (tn_Ended tn) @ effs, res))"

text \<open>Starting the rung: the attempt is counted and saved before the work begins.\<close>

definition started_row :: "ClipPipeline \<Rightarrow> gotime \<Rightarrow> ClipPipeline" where
  "started_row row clock =
     row\<lparr>pw_Status := StatusRunning, pw_Attempts := pw_Attempts row + 1, pw_StageStartedAt := clock, pw_Progress := 0\<rparr>"

definition run_turn ::
  "Pipeline \<Rightarrow> StageCost \<Rightarrow> Turn \<Rightarrow> ClipPipeline \<Rightarrow> StoreClip \<Rightarrow> Spend \<Rightarrow> Effect list \<times> TurnResult" where
  "run_turn pl cost tn row c s =
     (let row = started_row row (tn_Started tn)
      in case save row c (tn_Started tn) (tn_SaveStart tn) of
           (effs, ok) \<Rightarrow>
             if \<not> ok then (effs, TurnReturn (pw_Disposition row) (Some ErrStore) s)
             else case progress_run c (tn_Samples tn)
                         (row, \<lparr>th_lastWritten = 0, th_lastWriteAt = tn_Started tn\<rparr>) of
                    (row, seen) \<Rightarrow>
                      case runYielding pl cost tn s of
                        (result, s) \<Rightarrow>
                          let s = charge cost s
                          in case (case result of
                                     Inl e \<Rightarrow> failed_turn tn e row c s
                                   | Inr out \<Rightarrow> completed_turn tn out row c s) of
                               (later, res) \<Rightarrow> (effs @ seen @ later, res))"

definition advance_turn ::
  "Pipeline \<Rightarrow> Turn \<Rightarrow> ClipPipeline \<Rightarrow> StoreClip \<Rightarrow> Spend \<Rightarrow> Effect list \<times> TurnResult" where
  "advance_turn pl tn row c s =
     (let clock = tn_Started tn
      in if tn_Expired tn then saved_return row c clock (tn_Save tn) (Some ErrDeferred) s
         else if StageIndex (pw_Stage row) < 0
         then ([], TurnGo (row\<lparr>pw_Stage := StageProbe, pw_Status := StatusQueued, pw_Attempts := 0\<rparr>) c s)
         else case pl_Stages pl (pw_Stage row) of
                None \<Rightarrow> ([], skip_rung row ''not available on this install'' c s clock)
              | Some cost \<Rightarrow>
                  if exhausted (tn_Budget tn) s cost
                  then saved_return (row\<lparr>pw_Status := StatusQueued\<rparr>) c clock (tn_Save tn) None s
                  else if sc_IsComposite c \<and> pw_Stage row \<noteq> StageProbe \<and> pw_Stage row \<noteq> StageSplit
                  then ([], skip_rung row ''a compilation is completed after its segments are prepared'' c s clock)
                  else if \<not> fst (tn_Applies tn) \<and> \<not> pw_ForceRun row
                  then ([], skip_rung row (snd (tn_Applies tn)) c s clock)
                  else case waitForHeadroom pl s cost (tn_Busy tn) (tn_Polls tn) of
                         (start, s) \<Rightarrow>
                           if \<not> start then saved_return (row\<lparr>pw_Status := StatusQueued\<rparr>) c clock (tn_Save tn) None s
                           else run_turn pl cost tn row c s)"

subsection \<open>What each operation keeps of the row\<close>

lemma ladder_Record_simps [simp]:
  "pw_Stage (ladder_Record st sta w a clock row) = pw_Stage row"
  "pw_Disposition (ladder_Record st sta w a clock row) = pw_Disposition row"
  "pw_Attempts (ladder_Record st sta w a clock row) = pw_Attempts row"
  "pw_ClipHash (ladder_Record st sta w a clock row) = pw_ClipHash row"
  "pw_Stages (ladder_Record st sta w a clock row) =
     put_record \<lparr>lr_Stage = st, lr_Status = sta, lr_Note = w, lr_Attempts = a, lr_StartedAt = pw_StageStartedAt row, lr_At = clock\<rparr>
       (pw_Stages row)"
  by (simp_all add: ladder_Record_def Let_def)

lemma StageIndex_values [simp]:
  "StageIndex StageProbe = 0" "StageIndex StageTranscode = 1" "StageIndex StageSplit = 2" "StageIndex StageScreen = 3"
  "StageIndex StageDefects = 4" "StageIndex StageLanguage = 5" "StageIndex StageTranscribe = 6"
  "StageIndex StageVision = 7" "StageIndex StageScore = 8" "StageIndex (StageOther s) = - 1"
  by (simp_all add: StageIndex_def StageOrder_def)

lemma length_StageOrder [simp]: "length StageOrder = 9"
  by (simp add: StageOrder_def)

lemma StageIndex_range: "- 1 \<le> StageIndex s \<and> StageIndex s \<le> 8"
  by (cases s) simp_all

lemma StageIndex_nth: "0 \<le> i \<Longrightarrow> i < 9 \<Longrightarrow> StageIndex (StageOrder ! nat i) = i"
proof -
  assume "0 \<le> i" "i < 9"
  hence "i \<in> {0, 1, 2, 3, 4, 5, 6, 7, 8}"
    by auto
  thus ?thesis
    by (auto simp: StageOrder_def)
qed

lemma StageIndex_inj: "StageIndex a = StageIndex b \<Longrightarrow> 0 \<le> StageIndex a \<Longrightarrow> a = b"
  by (cases a; cases b) simp_all

lemma step_raises: "step row clock = (row', False) \<Longrightarrow> StageIndex (pw_Stage row') = StageIndex (pw_Stage row) + 1 \<and> 0 \<le> StageIndex (pw_Stage row)"
  using StageIndex_range [of "pw_Stage row"]
  by (auto simp: step_def Let_def StageIndex_nth split: if_splits)

lemma onFailure_stage: "onFailure row e clock = (row', r) \<Longrightarrow> pw_Stage row' = pw_Stage row"
  by (auto simp: onFailure_def split: if_splits option.splits)

lemma adopt_clip_row:
  "adopt_clip out row c = (row', c') \<Longrightarrow>
   pw_Stage row' = pw_Stage row \<and> pw_Stages row' = pw_Stages row \<and> pw_Attempts row' = pw_Attempts row \<and>
   pw_Disposition row' = pw_Disposition row \<and> pw_Status row' = pw_Status row"
  by (auto simp: adopt_clip_def split: if_splits)

text \<open>Progress only moves the percentage.\<close>

lemma onProgress_row:
  "onProgress c sm (row, t) = ((row', t'), effs) \<Longrightarrow> \<exists>n. row' = row\<lparr>pw_Progress := n\<rparr>"
  by (auto simp: onProgress_def Let_def split: if_splits prod.splits)
     (metis ClipPipeline.surjective ClipPipeline.update_convs(5))+

lemma progress_run_row:
  "progress_run c sms (row, t) = (row', effs) \<Longrightarrow> \<exists>n. row' = row\<lparr>pw_Progress := n\<rparr>"
proof (induction sms arbitrary: row t row' effs)
  case Nil
  thus ?case by (auto intro: exI [of _ "pw_Progress row"])
next
  case (Cons sm sms)
  obtain row1 t1 e1 where p: "onProgress c sm (row, t) = ((row1, t1), e1)"
    by (metis surj_pair)
  obtain e2 where "progress_run c sms (row1, t1) = (row', e2)"
    using Cons.prems p by (auto split: prod.splits)
  from Cons.IH [OF this] onProgress_row [OF p] show ?case
    by auto
qed

text \<open>A turn that goes on has climbed.\<close>

lemma stepped_climbs:
  "stepped row c s clock = TurnGo row' c' s' \<Longrightarrow> StageIndex (pw_Stage row) < StageIndex (pw_Stage row')"
  by (auto simp: stepped_def dest: step_raises split: prod.splits if_splits)

lemma skip_rung_climbs:
  "skip_rung row w c s clock = TurnGo row' c' s' \<Longrightarrow> StageIndex (pw_Stage row) < StageIndex (pw_Stage row')"
  by (auto simp: skip_rung_def dest: stepped_climbs)

lemma saved_return_never_goes [simp]: "snd (saved_return row c clock a e s) \<noteq> TurnGo row' c' s'"
  by (simp add: saved_return_def split: prod.splits)

lemma failed_turn_climbs:
  "snd (failed_turn tn e row c s) = TurnGo row' c' s' \<Longrightarrow> StageIndex (pw_Stage row) < StageIndex (pw_Stage row')"
  by (auto simp: failed_turn_def Let_def dest!: onFailure_stage dest: stepped_climbs split: if_splits prod.splits)

lemma verdict_turn_climbs:
  "snd (verdict_turn tn out row c s) = TurnGo row' c' s' \<Longrightarrow> StageIndex (pw_Stage row) < StageIndex (pw_Stage row')"
  by (auto simp: verdict_turn_def Let_def dest: stepped_climbs split: StageVerdict.splits)

lemma completed_turn_climbs:
  "snd (completed_turn tn out row c s) = TurnGo row' c' s' \<Longrightarrow> StageIndex (pw_Stage row) < StageIndex (pw_Stage row')"
  by (auto simp: completed_turn_def split: prod.splits dest!: adopt_clip_row)
     (metis snd_conv verdict_turn_climbs)

lemma run_turn_climbs:
  "snd (run_turn pl cost tn row c s) = TurnGo row' c' s' \<Longrightarrow> StageIndex (pw_Stage row) < StageIndex (pw_Stage row')"
proof -
  assume go: "snd (run_turn pl cost tn row c s) = TurnGo row' c' s'"
  obtain effs ok where sv: "save (started_row row (tn_Started tn)) c (tn_Started tn) (tn_SaveStart tn) = (effs, ok)"
    by fastforce
  obtain row1 seen where pr: "progress_run c (tn_Samples tn)
      (started_row row (tn_Started tn), \<lparr>th_lastWritten = 0, th_lastWriteAt = tn_Started tn\<rparr>) = (row1, seen)"
    by fastforce
  obtain result s1 where ry: "runYielding pl cost tn s = (result, s1)"
    by fastforce
  have stage: "pw_Stage row1 = pw_Stage row"
    using progress_run_row [OF pr] by (auto simp: started_row_def)
  have "case result of Inl e \<Rightarrow> snd (failed_turn tn e row1 c (charge cost s1)) = TurnGo row' c' s'
          | Inr out \<Rightarrow> snd (completed_turn tn out row1 c (charge cost s1)) = TurnGo row' c' s'"
    using go by (simp add: run_turn_def sv pr ry Let_def split: if_splits sum.splits prod.splits)
  thus ?thesis
    using stage by (auto split: sum.splits dest: failed_turn_climbs completed_turn_climbs)
qed

lemma advance_turn_climbs:
  assumes "advance_turn pl tn row c s = (effs, TurnGo row' c' s')"
  shows "StageIndex (pw_Stage row) < StageIndex (pw_Stage row')"
proof -
  have go: "snd (advance_turn pl tn row c s) = TurnGo row' c' s'"
    using assms by simp
  show ?thesis
  proof (cases "StageIndex (pw_Stage row) < 0")
    case True
    thus ?thesis
      using go saved_return_never_goes by (auto simp: advance_turn_def Let_def split: if_splits)
  next
    case False
    thus ?thesis
      using go
      by (auto simp: advance_turn_def Let_def split: if_splits option.splits prod.splits
               dest: skip_rung_climbs run_turn_climbs)
  qed
qed

subsection \<open>The loop\<close>

text \<open>
  Turns from the \<open>k\<close>th on. It ends: a turn that goes on has climbed the ladder, and an unknown rung is replaced by
  the first once.
\<close>

function advance_loop ::
  "Pipeline \<Rightarrow> (nat \<Rightarrow> Turn) \<Rightarrow> nat \<Rightarrow> ClipPipeline \<Rightarrow> StoreClip \<Rightarrow> Spend \<Rightarrow> Effect list \<times> TurnResult" where
  "advance_loop pl tns k row c s =
     (case advance_turn pl (tns k) row c s of
        (effs, res) \<Rightarrow>
          (case res of
             TurnGo row' c' s' \<Rightarrow>
               (case advance_loop pl tns (Suc k) row' c' s' of (later, res) \<Rightarrow> (effs @ later, res))
           | TurnBreak row' c' s' \<Rightarrow> (effs, res)
           | TurnReturn d e s' \<Rightarrow> (effs, res)))"
  by pat_completeness auto
termination
  by (relation "measure (\<lambda>(pl, tns, k, row, c, s). nat (9 - StageIndex (pw_Stage row)))")
     (auto dest!: advance_turn_climbs [OF sym] simp: nat_less_iff intro: le_less_trans [OF StageIndex_range [THEN conjunct2]])

declare advance_loop.simps [simp del]

subsection \<open>Publication\<close>

datatype EnrollmentKind = EnrollmentAcquisition | EnrollmentSource

record Enrollment =
  en_Kind :: EnrollmentKind
  en_Reference :: string

definition EnrollmentFor :: "StoreClip \<Rightarrow> ClipPipeline \<Rightarrow> Enrollment option" where
  "EnrollmentFor c row =
     (if pw_AcquisitionID row \<noteq> '''' then Some \<lparr>en_Kind = EnrollmentAcquisition, en_Reference = pw_AcquisitionID row\<rparr>
      else if sc_Source c \<noteq> '''' then Some \<lparr>en_Kind = EnrollmentSource, en_Reference = sc_Source c\<rparr> else None)"

record ReadyEvent =
  rv_ID :: string
  rv_ClipHash :: string
  rv_AcquisitionID :: string
  rv_Enrollment :: Enrollment
  rv_Placement :: Placement
  rv_CreatedAt :: gotime

record ReadyCommit =
  rc_Event :: ReadyEvent
  rc_Pipeline :: ClipPipeline

definition ready_Validate :: "ReadyCommit \<Rightarrow> string option" where
  "ready_Validate rc =
     (let e = rc_Event rc; p = rc_Pipeline rc
      in if rv_ID e \<noteq> ''ready:'' @ rv_ClipHash e \<or> rv_ClipHash e = '''' \<or> rv_ClipHash e \<noteq> pw_ClipHash p \<or>
            rv_AcquisitionID e \<noteq> pw_AcquisitionID p \<or> en_Reference (rv_Enrollment e) = '''' \<or>
            (rv_Placement e \<noteq> PlacementBreakBody \<and> rv_Placement e \<noteq> PlacementBookend) \<or>
            pw_Disposition p \<noteq> DispositionReady \<or> is_zero_time (rv_CreatedAt e)
         then Some (stale ''incomplete ready commit'')
         else if en_Kind (rv_Enrollment e) = EnrollmentAcquisition \<and>
                 (rv_AcquisitionID e = '''' \<or> en_Reference (rv_Enrollment e) \<noteq> rv_AcquisitionID e)
         then Some (stale ''acquisition enrollment does not match the conveyor'')
         else if en_Kind (rv_Enrollment e) = EnrollmentSource \<and> rv_AcquisitionID e \<noteq> ''''
         then Some (stale ''source enrollment cannot replace acquisition authority'')
         else validateCompletedReadyLadder p)"

definition samePersistedSecond :: "gotime \<Rightarrow> gotime \<Rightarrow> bool" where
  "samePersistedSecond a b =
     (if is_zero_time a \<or> is_zero_time b then is_zero_time a \<and> is_zero_time b else a div second = b div second)"

definition ValidateAgainst :: "ReadyCommit \<Rightarrow> ClipPipeline \<Rightarrow> string option" where
  "ValidateAgainst rc current =
     (let p = rc_Pipeline rc
      in case ready_Validate rc of
           Some e \<Rightarrow> Some e
         | None \<Rightarrow>
             if pw_ClipHash current \<noteq> pw_ClipHash p \<or> pw_AcquisitionID current \<noteq> pw_AcquisitionID p \<or>
                pw_Stage current \<noteq> pw_Stage p \<or> pw_Stage current \<noteq> StageScore \<or> pw_Status current \<noteq> StatusRunning \<or>
                pw_Disposition current \<noteq> DispositionRunning \<or> pw_Attempts current \<noteq> pw_Attempts p \<or>
                pw_ForceRun p \<or> pw_RejectReason current \<noteq> pw_RejectReason p \<or>
                pw_RejectDetail current \<noteq> pw_RejectDetail p \<or> pw_EnrolledAt current \<noteq> pw_EnrolledAt p \<or>
                pw_PreparationAttempt current \<noteq> pw_PreparationAttempt p \<or>
                \<not> samePersistedSecond (pw_PreparationStartedAt current) (pw_PreparationStartedAt p) \<or>
                pw_PreparationStartReason current \<noteq> pw_PreparationStartReason p \<or>
                \<not> samePersistedSecond (pw_StageQueuedAt current) (pw_StageQueuedAt p) \<or>
                \<not> samePersistedSecond (pw_StageStartedAt current) (pw_StageStartedAt p) \<or>
                pw_UpdatedAt p < pw_UpdatedAt current
             then Some (stale ''conveyor row is no longer the completed run'')
             else if length (pw_Stages p) \<noteq> length (pw_Stages current) + 1
             then Some (stale ''terminal rung is not the only ladder change'')
             else if take (length (pw_Stages current)) (pw_Stages p) \<noteq> pw_Stages current
             then Some (stale ''conveyor ladder changed before publication'')
             else if lr_Stage (last (pw_Stages p)) \<noteq> StageScore \<or> lr_Status (last (pw_Stages p)) \<noteq> StatusDone
             then Some (stale ''final score record is not complete'') else None)"

text \<open>
  \<^verbatim>\<open>TerminalReady.Commit\<close> up to the repository: the commit it hands over, or why it refuses.
\<close>

definition settled_row :: "ClipPipeline \<Rightarrow> gotime \<Rightarrow> ClipPipeline" where
  "settled_row row clock =
     row\<lparr>pw_Disposition := DispositionReady, pw_Status := StatusDone, pw_Progress := 100,
         pw_PreparationProgress := 100, pw_NextRun := 0, pw_UpdatedAt := clock\<rparr>"

definition terminal_commit :: "StoreClip \<Rightarrow> ClipPipeline \<Rightarrow> gotime \<Rightarrow> string + ReadyCommit" where
  "terminal_commit c row clock =
     (if cl_Hash (sc_Clip c) = '''' \<or> cl_Path (sc_Clip c) = '''' \<or> pw_ClipHash row \<noteq> cl_Hash (sc_Clip c) \<or>
         \<not> sc_Held c \<or> \<not> is_zero_time (sc_RemovedAt c) \<or> pw_Disposition row \<noteq> DispositionRunning
      then Inl (stale ''clip and pipeline identity must be current'')
      else if sc_IsComposite c then Inl (stale ''composite containers are not playable'')
      else case validateCompletedReadyLadder row of Some e \<Rightarrow> Inl e | None \<Rightarrow>
           case EnrollmentFor c row of
             None \<Rightarrow> Inl (stale ''enrollment authority is missing'')
           | Some enrollment \<Rightarrow>
               let placement = PlacementForRole (cl_Kind (sc_Clip c)) True False
               in if placement = PlacementNotPlayable then Inl (stale ''no playable placement'')
                  else let rc = \<lparr>rc_Event = \<lparr>rv_ID = ''ready:'' @ cl_Hash (sc_Clip c), rv_ClipHash = cl_Hash (sc_Clip c),
                                   rv_AcquisitionID = pw_AcquisitionID row, rv_Enrollment = enrollment,
                                   rv_Placement = placement, rv_CreatedAt = clock\<rparr>,
                                 rc_Pipeline = settled_row row clock\<rparr>
                       in case ready_Validate rc of Some e \<Rightarrow> Inl e | None \<Rightarrow> Inr rc)"

subsection \<open>The publication transaction\<close>

text \<open>What the store holds of one clip: its event, its catalogue row and its conveyor row.\<close>

record Publication =
  pb_Held :: bool
  pb_Removed :: bool
  pb_Composite :: bool
  pb_Placement :: Placement
  pb_Source :: string

record ReadyStore =
  rt_Event :: "ReadyEvent option"
  rt_Clip :: "Publication option"
  rt_Row :: "ClipPipeline option"

text \<open>The columns keep whole seconds; the ladder is JSON and keeps every instant as it is.\<close>

definition whole_second :: "gotime \<Rightarrow> gotime" where
  "whole_second t = t div second * second"

definition scanned_row :: "ClipPipeline \<Rightarrow> ClipPipeline" where
  "scanned_row p =
     p\<lparr>pw_NextRun := whole_second (pw_NextRun p), pw_PreparationStartedAt := whole_second (pw_PreparationStartedAt p),
       pw_StageQueuedAt := whole_second (pw_StageQueuedAt p), pw_StageStartedAt := whole_second (pw_StageStartedAt p),
       pw_EnrolledAt := whole_second (pw_EnrolledAt p), pw_UpdatedAt := whole_second (pw_UpdatedAt p)\<rparr>"

text \<open>An upsert keeps the enrolment instant of a row that exists.\<close>

definition UpsertClipPipeline :: "ClipPipeline \<Rightarrow> ReadyStore \<Rightarrow> ReadyStore" where
  "UpsertClipPipeline p st =
     st\<lparr>rt_Row := Some (case rt_Row st of
           None \<Rightarrow> scanned_row p | Some old \<Rightarrow> (scanned_row p)\<lparr>pw_EnrolledAt := pw_EnrolledAt old\<rparr>)\<rparr>"

definition same_event :: "ReadyEvent \<Rightarrow> ReadyEvent \<Rightarrow> bool" where
  "same_event old e \<longleftrightarrow>
     rv_ClipHash old = rv_ClipHash e \<and> rv_AcquisitionID old = rv_AcquisitionID e \<and>
     en_Kind (rv_Enrollment old) = en_Kind (rv_Enrollment e) \<and>
     en_Reference (rv_Enrollment old) = en_Reference (rv_Enrollment e) \<and> rv_Placement old = rv_Placement e"

definition already_published :: "ReadyStore \<Rightarrow> Publication \<Rightarrow> ClipPipeline \<Rightarrow> ReadyEvent \<Rightarrow> bool" where
  "already_published st c current e \<longleftrightarrow>
     rt_Event st \<noteq> None \<and> \<not> pb_Held c \<and> \<not> pb_Removed c \<and> \<not> pb_Composite c \<and> pb_Placement c = rv_Placement e \<and>
     pw_Disposition current = DispositionReady \<and> pw_Stage current = StageScore \<and> pw_Status current = StatusDone"

definition settle_columns :: "ClipPipeline \<Rightarrow> ClipPipeline \<Rightarrow> ClipPipeline" where
  "settle_columns p current =
     (scanned_row p)\<lparr>pw_AcquisitionID := pw_AcquisitionID current, pw_EnrolledAt := pw_EnrolledAt current\<rparr>"

definition CommitFillerReady :: "ReadyCommit \<Rightarrow> ReadyStore \<Rightarrow> string + ReadyStore" where
  "CommitFillerReady rc st =
     (let e = rc_Event rc
      in case ready_Validate rc of
           Some err \<Rightarrow> Inl err
         | None \<Rightarrow>
             if (case rt_Event st of None \<Rightarrow> False | Some old \<Rightarrow> \<not> same_event old e)
             then Inl (stale ''ready event id conflicts'')
             else case rt_Clip st of
                    None \<Rightarrow> Inl ''not found''
                  | Some c \<Rightarrow>
                      (case rt_Row st of
                         None \<Rightarrow> Inl ''not found''
                       | Some current \<Rightarrow>
                           if already_published st c current e then Inr st
                           else if \<not> pb_Held c \<or> pb_Removed c \<or> pb_Composite c
                           then Inl (stale ''clip is not a held active non-composite'')
                           else if en_Kind (rv_Enrollment e) = EnrollmentSource \<and>
                                   pb_Source c \<noteq> en_Reference (rv_Enrollment e)
                           then Inl (stale ''source enrollment changed'')
                           else case ValidateAgainst rc current of
                                  Some err \<Rightarrow> Inl err
                                | None \<Rightarrow>
                                    Inr \<lparr>rt_Event = (case rt_Event st of
                                            None \<Rightarrow> Some (e\<lparr>rv_CreatedAt := whole_second (rv_CreatedAt e)\<rparr>)
                                          | Some old \<Rightarrow> Some old),
                                         rt_Clip = Some (c\<lparr>pb_Placement := rv_Placement e, pb_Held := False\<rparr>),
                                         rt_Row = Some (settle_columns (rc_Pipeline rc) current)\<rparr>))"

subsection \<open>The pass over one clip\<close>

text \<open>What the end of a pass hears: the clock, a save's answer, and the repository's answer to a commit.\<close>

record Finish =
  fn_Clock :: gotime
  fn_Save :: SaveAnswer
  fn_Commit :: "ReadyCommit \<Rightarrow> string option"

datatype PassEffect = Stored Effect | Published ReadyCommit

type_synonym pass_result = "PassEffect list \<times> Disposition \<times> PassError option \<times> Spend"

definition pass_return :: "Effect list \<times> TurnResult \<Rightarrow> pass_result" where
  "pass_return r =
     (case r of
        (effs, TurnReturn d e s) \<Rightarrow> (map Stored effs, d, e, s)
      | (effs, TurnBreak row c s) \<Rightarrow> (map Stored effs, pw_Disposition row, None, s)
      | (effs, TurnGo row c s) \<Rightarrow> (map Stored effs, pw_Disposition row, None, s))"

definition ready_failed :: "Finish \<Rightarrow> string \<Rightarrow> ClipPipeline \<Rightarrow> StoreClip \<Rightarrow> Spend \<Rightarrow> pass_result" where
  "ready_failed fn cause row c s =
     (case save (onReadyFailure row cause (fn_Clock fn)) c (fn_Clock fn) (fn_Save fn) of
        (effs, ok) \<Rightarrow> (map Stored effs, DispositionRunning, Some (ErrReady cause), s))"

definition finish_pass :: "Finish \<Rightarrow> ClipPipeline \<Rightarrow> StoreClip \<Rightarrow> Spend \<Rightarrow> pass_result" where
  "finish_pass fn row c s =
     (let clock = fn_Clock fn; ends = (\<lambda>row. pass_return (saved_return row c clock (fn_Save fn) None s))
      in if pw_Disposition row \<noteq> DispositionRunning then ends row
         else if sc_IsComposite c then ends (row\<lparr>pw_Disposition := DispositionComplete\<rparr>)
         else case repairLadderGaps row clock of
                (row, rewound) \<Rightarrow>
                  if rewound then ends row
                  else case settleReleased row c clock of
                         (settled, ok) \<Rightarrow>
                           if ok then ends settled
                           else case terminal_commit c row clock of
                                  Inl cause \<Rightarrow> ready_failed fn cause row c s
                                | Inr rc \<Rightarrow>
                                    (case fn_Commit fn rc of
                                       Some cause \<Rightarrow> ready_failed fn cause row c s
                                     | None \<Rightarrow> ([Published rc], DispositionReady, None, s)))"

text \<open>\<^verbatim>\<open>advance\<close>; the lookup of the clip fails, finds nothing, or finds it.\<close>

definition gone_row :: "ClipPipeline \<Rightarrow> ClipPipeline" where
  "gone_row row =
     row\<lparr>pw_Disposition := DispositionRejected, pw_RejectReason := ReasonUnprobeable,
         pw_RejectDetail := ''the clip is no longer in the catalog''\<rparr>"

definition retire_gone :: "Finish \<Rightarrow> ClipPipeline \<Rightarrow> Spend \<Rightarrow> pass_result" where
  "retire_gone fn row s =
     (if sv_RowFails (fn_Save fn) then ([], DispositionRejected, Some ErrStore, s)
      else ([Stored (EffRow (save_as (gone_row row) (fn_Clock fn)) None)], DispositionRejected, None, s))"

definition advance ::
  "Pipeline \<Rightarrow> (nat \<Rightarrow> Turn) \<Rightarrow> Finish \<Rightarrow> unit + StoreClip option \<Rightarrow> ClipPipeline \<Rightarrow> Spend \<Rightarrow> pass_result" where
  "advance pl tns fn found row s =
     (case found of
        Inl e \<Rightarrow> ([], pw_Disposition row, Some ErrStore, s)
      | Inr None \<Rightarrow> retire_gone fn row s
      | Inr (Some c) \<Rightarrow>
          (let row = (if pw_Stage row = last StageOrder then fst (repairLadderGaps row (tn_Started (tns 0))) else row)
           in case advance_loop pl tns 0 row c s of
                (effs, res) \<Rightarrow>
                  (case res of
                     TurnBreak row c s \<Rightarrow> (case finish_pass fn row c s of (later, d, e, s) \<Rightarrow> (map Stored effs @ later, d, e, s))
                   | TurnReturn d e s \<Rightarrow> (map Stored effs, d, e, s)
                   | TurnGo row c s \<Rightarrow> (map Stored effs, pw_Disposition row, None, s))))"

subsection \<open>A pass over the work list\<close>

record PipelineResult =
  pr_Advanced :: int
  pr_Completed :: int
  pr_Rejected :: int
  pr_Failed :: int
  pr_Deferred :: int

text \<open>One row of the work list with what the pass hears while it has it.\<close>

record Work =
  wk_Row :: ClipPipeline
  wk_Expired :: bool
  wk_Found :: "unit + StoreClip option"
  wk_Turns :: "nat \<Rightarrow> Turn"
  wk_Finish :: Finish

definition count_pass :: "Disposition \<Rightarrow> PassError option \<Rightarrow> PipelineResult \<Rightarrow> PipelineResult" where
  "count_pass outcome err res =
     (case err of
        Some ErrDeferred \<Rightarrow> res\<lparr>pr_Deferred := pr_Deferred res + 1\<rparr>
      | Some e \<Rightarrow> res\<lparr>pr_Failed := pr_Failed res + 1\<rparr>
      | None \<Rightarrow>
          let res = res\<lparr>pr_Advanced := pr_Advanced res + 1\<rparr>
          in if outcome = DispositionRejected then res\<lparr>pr_Rejected := pr_Rejected res + 1\<rparr>
             else if outcome = DispositionReady \<or> outcome = DispositionComplete \<or> outcome = DispositionReview
             then res\<lparr>pr_Completed := pr_Completed res + 1\<rparr> else res)"

fun run_rows ::
  "Pipeline \<Rightarrow> int \<Rightarrow> int \<Rightarrow> Work list \<Rightarrow> Spend \<Rightarrow> PipelineResult \<Rightarrow> PassEffect list \<times> PipelineResult" where
  "run_rows pl maxClips all [] s res = ([], res)"
| "run_rows pl maxClips all (w # ws) s res =
     (if wk_Expired w
      then ([], res\<lparr>pr_Deferred := pr_Deferred res + (all - pr_Advanced res - pr_Failed res - pr_Deferred res)\<rparr>)
      else if sp_clips s \<ge> maxClips then ([], res)
      else case advance pl (wk_Turns w) (wk_Finish w) (wk_Found w) (wk_Row w) (s\<lparr>sp_clips := sp_clips s + 1\<rparr>) of
             (effs, outcome, err, s) \<Rightarrow>
               (case run_rows pl maxClips all ws s (count_pass outcome err res) of
                  (later, res) \<Rightarrow> (effs @ later, res)))"

definition effective_max_clips :: "Budget \<Rightarrow> int" where
  "effective_max_clips b = (case bg_MaxClips b of None \<Rightarrow> 25 | Some v \<Rightarrow> if v > 0 then v else 25)"

text \<open>
  The part of \<^verbatim>\<open>RunOnce\<close> that works through the list; the store has already cut the list to the clip budget.
\<close>

definition RunOnce_rows :: "Pipeline \<Rightarrow> Budget \<Rightarrow> Work list \<Rightarrow> PassEffect list \<times> PipelineResult" where
  "RunOnce_rows pl b ws =
     run_rows pl (effective_max_clips b) (int (length ws)) ws no_spend
       \<lparr>pr_Advanced = 0, pr_Completed = 0, pr_Rejected = 0, pr_Failed = 0, pr_Deferred = 0\<rparr>"

end
