(* ===== verification/Belt_Laws.thy ===== *)
theory Belt_Laws
  imports Belt
begin

text \<open>
  What a pass of the conveyor promises: the ladder of every row it writes is in order, a clip is held before its row
  asks for a decision, every row of the work list is counted once, progress never falls, and a publication is atomic
  and may be repeated. The last two sections state what a deferred rung costs and which saved rows can be published.
\<close>

subsection \<open>The ladder is in order\<close>

definition stages_ordered :: "StageID list \<Rightarrow> int \<Rightarrow> bool" where
  "stages_ordered ss k \<longleftrightarrow>
     sorted_wrt (\<lambda>a b. StageIndex a < StageIndex b) ss \<and> list_all (\<lambda>s. 0 \<le> StageIndex s \<and> StageIndex s \<le> k) ss"

definition ladder_ordered :: "ClipPipeline \<Rightarrow> bool" where
  "ladder_ordered row \<longleftrightarrow>
     0 \<le> StageIndex (pw_Stage row) \<and> stages_ordered (map lr_Stage (pw_Stages row)) (StageIndex (pw_Stage row))"

lemma put_record_stages:
  "map lr_Stage (put_record r xs) =
     (if lr_Stage r \<in> set (map lr_Stage xs) then map lr_Stage xs else map lr_Stage xs @ [lr_Stage r])"
  by (induction xs) auto

lemma stages_ordered_put:
  assumes "stages_ordered (map lr_Stage xs) (StageIndex (lr_Stage r))" and "0 \<le> StageIndex (lr_Stage r)"
  shows "stages_ordered (map lr_Stage (put_record r xs)) (StageIndex (lr_Stage r))"
proof (cases "lr_Stage r \<in> set (map lr_Stage xs)")
  case True
  thus ?thesis using assms by (simp only: put_record_stages if_True)
next
  case False
  have "StageIndex s < StageIndex (lr_Stage r)" if "s \<in> set (map lr_Stage xs)" for s
  proof -
    have le: "0 \<le> StageIndex s" "StageIndex s \<le> StageIndex (lr_Stage r)"
      using assms(1) that by (auto simp: stages_ordered_def list_all_iff)
    have "s \<noteq> lr_Stage r"
      using False that by blast
    thus ?thesis
      using le StageIndex_inj [of s "lr_Stage r"] by linarith
  qed
  thus ?thesis
    using assms False unfolding put_record_stages
    by (simp add: stages_ordered_def sorted_wrt_append)
qed

lemma stages_ordered_mono: "stages_ordered ss k \<Longrightarrow> k \<le> k' \<Longrightarrow> stages_ordered ss k'"
  by (auto simp: stages_ordered_def list_all_iff)

text \<open>The invariant reads the current rung and the ladder only, and recording the current rung keeps it.\<close>

definition recorded :: "ClipPipeline \<Rightarrow> ClipPipeline \<Rightarrow> bool" where
  "recorded row row' \<longleftrightarrow>
     pw_Stage row' = pw_Stage row \<and> pw_ClipHash row' = pw_ClipHash row \<and>
     (pw_Stages row' = pw_Stages row \<or>
      (\<exists>r. lr_Stage r = pw_Stage row \<and> pw_Stages row' = put_record r (pw_Stages row)))"

lemma recorded_ladder: "recorded row row' \<Longrightarrow> ladder_ordered row \<Longrightarrow> ladder_ordered row'"
  unfolding recorded_def ladder_ordered_def by (metis stages_ordered_put)

lemma recorded_cong:
  "recorded row r \<Longrightarrow> pw_Stage r' = pw_Stage r \<Longrightarrow> pw_Stages r' = pw_Stages r \<Longrightarrow> pw_ClipHash r' = pw_ClipHash r \<Longrightarrow>
   recorded row r'"
  by (simp add: recorded_def)

lemma recorded_quiet:
  "pw_Stage row' = pw_Stage row \<Longrightarrow> pw_Stages row' = pw_Stages row \<Longrightarrow> pw_ClipHash row' = pw_ClipHash row \<Longrightarrow>
   recorded row row'"
  by (simp add: recorded_def)

lemma recorded_put:
  "pw_Stage row' = pw_Stage row \<Longrightarrow> lr_Stage r = pw_Stage row \<Longrightarrow> pw_Stages row' = put_record r (pw_Stages row) \<Longrightarrow>
   pw_ClipHash row' = pw_ClipHash row \<Longrightarrow> recorded row row'"
  by (auto simp: recorded_def)

lemma recorded_Record:
  "st = pw_Stage row \<Longrightarrow> pw_Stage r = pw_Stage row \<Longrightarrow> pw_Stages r = pw_Stages row \<Longrightarrow>
   pw_ClipHash r = pw_ClipHash row \<Longrightarrow> recorded row (ladder_Record st sta w a clock r)"
  by (rule recorded_put [OF _ _ ladder_Record_simps(5) [of st sta w a clock r, THEN trans]]) simp_all

lemma step_ladder:
  "ladder_ordered row \<Longrightarrow> ladder_ordered (fst (step row clock))"
proof -
  assume I: "ladder_ordered row"
  show "ladder_ordered (fst (step row clock))"
  proof (cases "StageIndex (pw_Stage row) + 1 \<ge> 9")
    case True
    thus ?thesis using I by (simp add: step_def Let_def ladder_ordered_def)
  next
    case False
    have "0 \<le> StageIndex (pw_Stage row)"
      using I by (simp add: ladder_ordered_def)
    thus ?thesis
      using I False StageIndex_nth [of "StageIndex (pw_Stage row) + 1"]
      by (auto simp: step_def Let_def ladder_ordered_def intro: stages_ordered_mono)
  qed
qed

lemma stepped_ladder:
  assumes "ladder_ordered row"
  shows "case stepped row c s clock of TurnGo r c' s' \<Rightarrow> ladder_ordered r | TurnBreak r c' s' \<Rightarrow> ladder_ordered r
           | TurnReturn d e s' \<Rightarrow> True"
  using step_ladder [OF assms, of clock] by (auto simp: stepped_def split: prod.split)

lemma onFailure_recorded: "recorded row (fst (onFailure row e clock))"
proof -
  have fatal: "recorded row ((ladder_Record (pw_Stage row) StatusFailed e (pw_Attempts row) clock row)
      \<lparr>pw_ForceRun := False, pw_Disposition := DispositionRejected, pw_RejectReason := x, pw_RejectDetail := e\<rparr>)" for x
    by (rule recorded_cong [OF recorded_Record [of "pw_Stage row" row row StatusFailed e "pw_Attempts row" clock]]) simp_all
  show ?thesis
    unfolding onFailure_def
    by (cases "fatalStages (pw_Stage row)") (simp_all add: fatal recorded_Record split: if_split)
qed

text \<open>Filling gaps keeps the rungs below the gap, one record each, in the order of the ladder.\<close>

lemma first_record_stages:
  "map lr_Stage (first_record rs s) = (if has_record rs s then [s] else [])"
  by (induction rs) (auto simp: has_record_def)

lemma kept_stages:
  "map lr_Stage (concat (map (first_record rs) ss)) = filter (has_record rs) ss"
  by (induction ss) (simp_all add: first_record_stages)

lemma first_gap_bound: "first_gap rs ss i = Some g \<Longrightarrow> i \<le> g \<and> g < i + length ss"
proof (induction ss arbitrary: i)
  case (Cons s ss)
  show ?case
  proof (cases "has_record rs s")
    case True
    hence "Suc i \<le> g \<and> g < Suc i + length ss"
      using Cons.IH [of "Suc i"] Cons.prems by auto
    thus ?thesis by simp
  qed (use Cons.prems in simp)
qed simp

lemma StageOrder_take_ordered:
  assumes "g < 9"
  shows "stages_ordered (filter P (take g StageOrder)) (StageIndex (StageOrder ! g))"
proof -
  have idx: "StageIndex (StageOrder ! i) = int i" if "i < 9" for i
    using StageIndex_nth [of "int i"] that by simp
  have sorted: "sorted_wrt (\<lambda>a b. StageIndex a < StageIndex b) StageOrder"
    by (simp add: StageOrder_def)
  have "0 \<le> StageIndex s \<and> StageIndex s \<le> int g" if "s \<in> set (take g StageOrder)" for s
    using that assms idx by (auto simp: in_set_conv_nth)
  thus ?thesis
    using sorted idx [OF assms] by (auto simp: stages_ordered_def list_all_iff intro!: sorted_wrt_filter sorted_wrt_take)
qed

lemma repair_ladder:
  assumes I: "ladder_ordered row"
  shows "ladder_ordered (fst (repairLadderGaps row clock))"
proof (cases "pw_Disposition row \<noteq> DispositionRunning \<or> StageIndex (pw_Stage row) < 0")
  case True
  thus ?thesis using I by (auto simp: repairLadderGaps_def Let_def)
next
  case False
  show ?thesis
  proof (cases "first_gap (pw_Stages row) (take (nat (StageIndex (pw_Stage row))) StageOrder) 0")
    case None
    thus ?thesis using I by (simp add: repairLadderGaps_def Let_def)
  next
    case (Some g)
    have g: "g < 9"
      using first_gap_bound [OF Some] by simp
    have "StageIndex (StageOrder ! g) = int g"
      using StageIndex_nth [of "int g"] g by simp
    thus ?thesis
      using False Some StageOrder_take_ordered [OF g]
      by (simp add: repairLadderGaps_def Let_def ladder_ordered_def kept_stages del: map_concat)
  qed
qed

subsection \<open>What holds of every write of a pass\<close>

text \<open>
  A law of the conveyor: \<open>E\<close> holds of the writes of every pass over a row and a clip that satisfy \<open>I\<close>. It is enough
  that saving makes it hold and that recording a rung, climbing, filling gaps, starting an unknown rung over and
  adopting the clip a stage returned keep \<open>I\<close>.
\<close>

locale pass_law =
  fixes I :: "ClipPipeline \<Rightarrow> StoreClip \<Rightarrow> bool"
    and E :: "Effect list \<Rightarrow> bool"
  assumes no_write: "E []"
    and writes: "E xs \<Longrightarrow> E ys \<Longrightarrow> E (xs @ ys)"
    and saves: "I row c \<Longrightarrow> E (fst (save row c clock answer))"
    and enrols: "E [EffEnrol (enrol_row h a clock)]"
    and resets: "I row c \<Longrightarrow> StageIndex (pw_Stage row) < 0 \<Longrightarrow>
      I (row\<lparr>pw_Stage := StageProbe, pw_Status := StatusQueued, pw_Attempts := 0\<rparr>) c"
    and records: "I row c \<Longrightarrow> recorded row row' \<Longrightarrow> I row' c"
    and climbs: "I row c \<Longrightarrow> I (fst (step row clock)) c"
    and fills: "I row c \<Longrightarrow> I (fst (repairLadderGaps row clock)) c"
    and adopts: "I row c \<Longrightarrow> adopt_clip out row c = (row', c') \<Longrightarrow> I row' c'"
begin

fun turn_law :: "Effect list \<times> TurnResult \<Rightarrow> bool" where
  "turn_law (effs, TurnGo row c s) \<longleftrightarrow> E effs \<and> I row c"
| "turn_law (effs, TurnBreak row c s) \<longleftrightarrow> E effs \<and> I row c"
| "turn_law (effs, TurnReturn d e s) \<longleftrightarrow> E effs"

lemma turn_law_prefix: "turn_law (effs, res) \<Longrightarrow> E xs \<Longrightarrow> turn_law (xs @ effs, res)"
  by (cases res) (auto intro: writes)

lemma quiet:
  "I row c \<Longrightarrow> pw_Stage row' = pw_Stage row \<Longrightarrow> pw_Stages row' = pw_Stages row \<Longrightarrow> pw_ClipHash row' = pw_ClipHash row \<Longrightarrow>
   I row' c"
  by (rule records [OF _ recorded_quiet])

lemma saved_return_law: "I row c \<Longrightarrow> turn_law (saved_return row c clock a e s)"
  using saves [of row c clock a] by (auto simp: saved_return_def split: prod.split)

lemma stepped_law: "I row c \<Longrightarrow> turn_law ([], stepped row c s clock)"
  using climbs [of row c clock] no_write by (auto simp: stepped_def split: prod.split)

lemma skip_rung_law: "I row c \<Longrightarrow> turn_law ([], skip_rung row w c s clock)"
  unfolding skip_rung_def by (rule stepped_law, erule records, rule recorded_Record) simp_all

lemma failed_turn_law:
  assumes I: "I row c"
  shows "turn_law (failed_turn tn e row c s)"
proof -
  have F: "I (fst (onFailure row (re_Text e) (tn_Ended tn))) c"
    by (rule records [OF I onFailure_recorded])
  have P: "I ((ladder_Record (pw_Stage row) StatusQueued w a clock (give_back_attempt row))\<lparr>pw_NextRun := n\<rparr>) c" for w a clock n
    by (rule records [OF I], rule recorded_cong [OF recorded_Record [OF refl]]) (simp_all add: give_back_attempt_def)
  have D: "I ((give_back_attempt (row\<lparr>pw_Status := StatusQueued\<rparr>))\<lparr>pw_NextRun := n\<rparr>) c" for n
    by (rule quiet [OF I]) (simp_all add: give_back_attempt_def)
  have stage: "pw_Stage (give_back_attempt row) = pw_Stage row"
    by (simp add: give_back_attempt_def)
  show ?thesis
    unfolding failed_turn_def Let_def stage
    using F P D by (auto intro!: saved_return_law stepped_law split: prod.split)
qed

lemma enrol_law: "E (enrol_spawned fails hs clock)"
proof -
  have "E (map (\<lambda>h. EffEnrol (enrol_row h a clock)) xs)" for xs a
  proof (induction xs)
    case (Cons x xs)
    thus ?case using writes [OF enrols [of x a clock] Cons.IH] by simp
  qed (simp add: no_write)
  thus ?thesis by (simp add: enrol_spawned_def)
qed

lemma verdict_turn_law:
  assumes I: "I row c"
  shows "turn_law (verdict_turn tn out row c s)"
proof -
  have L: "recorded row (ladder_Record (pw_Stage row) sta (rs_Note out) (pw_Attempts row) (tn_Ended tn) row)" for sta
    by (rule recorded_Record) simp_all
  let ?L = "\<lambda>sta. ladder_Record (pw_Stage row) sta (rs_Note out) (pw_Attempts row) (tn_Ended tn) row"
  have reject: "I ((?L StatusDone)\<lparr>pw_ForceRun := False, pw_Disposition := DispositionRejected,
      pw_RejectReason := rs_Reason out, pw_RejectDetail := rs_Detail out\<rparr>) c"
    by (rule records [OF I recorded_cong [OF L]]) simp_all
  have review: "I ((?L StatusDone)\<lparr>pw_ForceRun := False, pw_Disposition := DispositionReview\<rparr>) c"
    by (rule records [OF I recorded_cong [OF L]]) simp_all
  have defers: "I ((?L StatusQueued)\<lparr>pw_NextRun := tn_Ended tn + deferYield\<rparr>) c"
    by (rule records [OF I recorded_cong [OF L]]) simp_all
  have goes: "I (?L StatusDone) c"
    by (rule records [OF I L])
  show ?thesis
    unfolding verdict_turn_def Let_def
    by (cases "rs_Verdict out")
       (simp_all add: saved_return_law [OF reject] saved_return_law [OF review] saved_return_law [OF defers] stepped_law [OF goes])
qed

lemma completed_turn_law:
  assumes I: "I row c"
  shows "turn_law (completed_turn tn out row c s)"
proof -
  obtain row1 c1 where ad: "adopt_clip out row c = (row1, c1)"
    by fastforce
  from verdict_turn_law [OF adopts [OF I ad], of tn out s] enrol_law show ?thesis
    by (auto simp: completed_turn_def ad split: prod.split intro: turn_law_prefix)
qed

lemma progress_law:
  assumes "I row c"
  shows "E (snd (progress_run c sms (row, t))) \<and> I (fst (progress_run c sms (row, t))) c"
  using assms
proof (induction sms arbitrary: row t)
  case (Cons sm sms)
  obtain row1 t1 effs where p: "onProgress c sm (row, t) = ((row1, t1), effs)"
    by (metis surj_pair)
  have I1: "I row1 c"
    using onProgress_row [OF p] Cons.prems by (auto intro: quiet)
  have "E effs"
  proof (cases "effs = []")
    case False
    hence "effs = fst (save row1 c (sm_Clock sm) (sm_Save sm))"
      using p by (auto simp: onProgress_def writeProgress_def Let_def split: if_splits prod.splits)
    thus ?thesis using saves [OF I1] by simp
  qed (simp add: no_write)
  thus ?case
    using Cons.IH [OF I1, of t1] p by (auto split: prod.split intro: writes)
qed (simp add: no_write)

lemma run_turn_law:
  assumes I: "I row c"
  shows "turn_law (run_turn pl cost tn row c s)"
proof -
  let ?start = "started_row row (tn_Started tn)"
  let ?go = "progress_run c (tn_Samples tn) (?start, \<lparr>th_lastWritten = 0, th_lastWriteAt = tn_Started tn\<rparr>)"
  have S: "I ?start c"
    by (rule quiet [OF I]) (simp_all add: started_row_def)
  have P: "E (snd ?go)" "I (fst ?go) c"
    using progress_law [OF S] by blast+
  obtain result s1 where ry: "runYielding pl cost tn s = (result, s1)"
    by fastforce
  have after: "turn_law (case result of Inl e \<Rightarrow> failed_turn tn e (fst ?go) c (charge cost s1)
      | Inr out \<Rightarrow> completed_turn tn out (fst ?go) c (charge cost s1))"
    using failed_turn_law [OF P(2)] completed_turn_law [OF P(2)] by (auto split: sum.split)
  have W: "E (fst (save ?start c (tn_Started tn) (tn_SaveStart tn)))"
    by (rule saves [OF S])
  obtain later res where l: "(case result of Inl e \<Rightarrow> failed_turn tn e (fst ?go) c (charge cost s1)
      | Inr out \<Rightarrow> completed_turn tn out (fst ?go) c (charge cost s1)) = (later, res)"
    by fastforce
  have "turn_law ((fst (save ?start c (tn_Started tn) (tn_SaveStart tn)) @ snd ?go) @ later, res)"
    by (rule turn_law_prefix [OF _ writes [OF W P(1)]]) (use after l in simp)
  thus ?thesis
    using W l ry
    by (cases "snd (save ?start c (tn_Started tn) (tn_SaveStart tn))") (simp_all add: run_turn_def Let_def split_beta)
qed

lemma advance_turn_law:
  assumes I: "I row c"
  shows "turn_law (advance_turn pl tn row c s)"
proof -
  have queued: "I (row\<lparr>pw_Status := StatusQueued\<rparr>) c"
    by (rule quiet [OF I]) simp_all
  show ?thesis
    unfolding advance_turn_def Let_def
    using resets [OF I] no_write saved_return_law [OF I] saved_return_law [OF queued] skip_rung_law [OF I] run_turn_law [OF I]
    by (auto split: option.split prod.split)
qed

lemma advance_loop_law:
  assumes "I row c"
  shows "turn_law (advance_loop pl tns k row c s)"
  using assms
proof (induction pl tns k row c s rule: advance_loop.induct)
  case (1 pl tns k row c s)
  obtain effs res where t: "advance_turn pl (tns k) row c s = (effs, res)"
    by fastforce
  have law: "turn_law (effs, res)"
    unfolding t [symmetric] by (rule advance_turn_law [OF 1(2)])
  show ?case
  proof (cases res)
    case (TurnGo row1 c1 s1)
    hence "turn_law (advance_loop pl tns (Suc k) row1 c1 s1)"
      using 1(1) [OF t [symmetric]] law by simp
    thus ?thesis
      using law TurnGo
      by (subst advance_loop.simps) (auto simp: t split: prod.split intro: turn_law_prefix)
  qed (use law in \<open>simp_all add: t advance_loop.simps\<close>)
qed

end

fun stored :: "PassEffect list \<Rightarrow> Effect list" where
  "stored [] = []"
| "stored (Stored e # es) = e # stored es"
| "stored (Published rc # es) = stored es"

lemma stored_append [simp]: "stored (xs @ ys) = stored xs @ stored ys"
  by (induction xs rule: stored.induct) simp_all

lemma stored_map [simp]: "stored (map Stored effs) = effs"
  by (induction effs) simp_all

lemma onReadyFailure_recorded: "recorded row (onReadyFailure row cause clock)"
  unfolding onReadyFailure_def Let_def
  by (rule recorded_cong [OF recorded_Record [where row = row]]) simp_all

lemma completed_stage: "validateCompletedReadyLadder row = None \<Longrightarrow> pw_Stage row = StageScore"
  by (auto simp: validateCompletedReadyLadder_def StageOrder_def split: if_splits)

lemma settleReleased_recorded: "settleReleased row c clock = (row', True) \<Longrightarrow> recorded row row'"
  unfolding settleReleased_def
  by (auto simp: completed_stage split: if_splits intro!: recorded_cong [OF recorded_Record [where row = row]])

context pass_law
begin

lemma ends_law: "I row c \<Longrightarrow> E (stored (fst (pass_return (saved_return row c clock a e s))))"
  using saves [of row c clock a] by (auto simp: saved_return_def pass_return_def split: prod.split)

lemma finish_law:
  assumes I: "I row c"
  shows "E (stored (fst (finish_pass fn row c s)))"
proof -
  obtain row1 rewound where rep: "repairLadderGaps row (fn_Clock fn) = (row1, rewound)"
    by fastforce
  have I1: "I row1 c"
    using fills [OF I, of "fn_Clock fn"] rep by simp
  obtain row2 ok where set: "settleReleased row1 c (fn_Clock fn) = (row2, ok)"
    by fastforce
  have I2: "I row2 c" if ok
    using records [OF I1 settleReleased_recorded] set that by simp
  have complete: "I (row\<lparr>pw_Disposition := DispositionComplete\<rparr>) c"
    by (rule quiet [OF I]) simp_all
  have failed: "E (stored (fst (ready_failed fn cause row1 c s)))" for cause
    using saves [OF records [OF I1 onReadyFailure_recorded], of cause "fn_Clock fn" "fn_Clock fn" "fn_Save fn"]
    by (auto simp: ready_failed_def split: prod.split)
  show ?thesis
    using ends_law [OF I] ends_law [OF complete] ends_law [OF I1] ends_law [OF I2] failed no_write
    by (auto simp: finish_pass_def Let_def rep set split: sum.split option.split)
qed

lemma advance_law:
  assumes I: "I row c"
  shows "E (stored (fst (advance pl tns fn (Inr (Some c)) row s)))"
proof -
  let ?row = "if pw_Stage row = last StageOrder then fst (repairLadderGaps row (tn_Started (tns 0))) else row"
  obtain effs res where l: "advance_loop pl tns 0 ?row c s = (effs, res)"
    by fastforce
  have "I ?row c"
    using I fills by simp
  hence law: "turn_law (effs, res)"
    using advance_loop_law [of ?row c pl tns 0 s] l by simp
  show ?thesis
  proof (cases res)
    case (TurnBreak row1 c1 s1)
    hence "E effs" "E (stored (fst (finish_pass fn row1 c1 s1)))"
      using law finish_law by auto
    thus ?thesis
      using TurnBreak writes l by (auto simp: advance_def Let_def split: prod.split)
  qed (use law l in \<open>auto simp: advance_def Let_def\<close>)
qed

end

subsection \<open>Two laws of every pass\<close>

definition effect_row :: "Effect \<Rightarrow> ClipPipeline list" where
  "effect_row e = (case e of EffRow r c \<Rightarrow> [r] | EffEnrol r \<Rightarrow> [r] | _ \<Rightarrow> [])"

definition written_rows :: "Effect list \<Rightarrow> ClipPipeline list" where
  "written_rows effs = concat (map effect_row effs)"

text \<open>
  Reading the writes in order, with the path the write just before held: a row that asks for a decision is saved with
  a clip, the one its own hash names, and comes right after the hold of that clip's path, unless the clip has none.
\<close>

fun reviews_held :: "string option \<Rightarrow> Effect list \<Rightarrow> bool" where
  "reviews_held h [] = True"
| "reviews_held h (EffHold p # es) = reviews_held (Some p) es"
| "reviews_held h (EffRow r about # es) =
     ((if pw_Disposition r = DispositionReview
       then case about of
              None \<Rightarrow> False
            | Some c \<Rightarrow> pw_ClipHash r = cl_Hash (sc_Clip c) \<and> (cl_Path (sc_Clip c) = '''' \<or> h = Some (cl_Path (sc_Clip c)))
       else True) \<and> reviews_held None es)"
| "reviews_held h (EffRemove p # es) = reviews_held None es"
| "reviews_held h (EffEnrol r # es) = (pw_Disposition r \<noteq> DispositionReview \<and> reviews_held None es)"

lemma reviews_held_weaken: "reviews_held None es \<Longrightarrow> reviews_held h es"
  by (cases es rule: list.exhaust; cases "hd es") (auto split: if_splits option.splits)

lemma reviews_held_append: "reviews_held h xs \<Longrightarrow> reviews_held None ys \<Longrightarrow> reviews_held h (xs @ ys)"
  by (induction h xs rule: reviews_held.induct) (auto intro: reviews_held_weaken)

lemma save_as_simps [simp]:
  "pw_Stage (save_as row clock) = pw_Stage row" "pw_Stages (save_as row clock) = pw_Stages row"
  "pw_Disposition (save_as row clock) = pw_Disposition row" "pw_Attempts (save_as row clock) = pw_Attempts row"
  "pw_Status (save_as row clock) = pw_Status row" "pw_ForceRun (save_as row clock) = pw_ForceRun row"
  "pw_ClipHash (save_as row clock) = pw_ClipHash row"
  by (simp_all add: save_as_def unscheduleIfTerminal_def applyPreparationProgress_def)

lemma step_hash: "pw_ClipHash (fst (step row clock)) = pw_ClipHash row"
  by (simp add: step_def Let_def)

lemma repair_hash: "pw_ClipHash (fst (repairLadderGaps row clock)) = pw_ClipHash row"
  by (simp add: repairLadderGaps_def Let_def split: option.split)

lemma adopt_clip_hash:
  "adopt_clip out row c = (row', c') \<Longrightarrow> pw_ClipHash row = cl_Hash (sc_Clip c) \<Longrightarrow> pw_ClipHash row' = cl_Hash (sc_Clip c')"
  by (auto simp: adopt_clip_def split: if_splits)

lemma adopt_clip_ladder: "adopt_clip out row c = (row', c') \<Longrightarrow> ladder_ordered row \<Longrightarrow> ladder_ordered row'"
  using adopt_clip_row [of out row c row' c'] by (simp add: ladder_ordered_def)

interpretation ordered: pass_law
  "\<lambda>row c. ladder_ordered row" "\<lambda>effs. list_all ladder_ordered (written_rows effs)"
proof
  fix row :: ClipPipeline and c clock answer
  assume "ladder_ordered row"
  hence "ladder_ordered (save_as row clock)"
    by (simp add: ladder_ordered_def)
  thus "list_all ladder_ordered (written_rows (fst (save row c clock answer)))"
    by (simp add: save_def Let_def written_rows_def effect_row_def tombstone_def)
next
  fix h a clock
  show "list_all ladder_ordered (written_rows [EffEnrol (enrol_row h a clock)])"
    by (simp add: written_rows_def effect_row_def enrol_row_def ladder_ordered_def stages_ordered_def)
next
  fix row :: ClipPipeline
  assume "ladder_ordered row" "StageIndex (pw_Stage row) < 0"
  thus "ladder_ordered (row\<lparr>pw_Stage := StageProbe, pw_Status := StatusQueued, pw_Attempts := 0\<rparr>)"
    by (simp add: ladder_ordered_def)
qed (auto simp: written_rows_def step_ladder repair_ladder adopt_clip_ladder intro: recorded_ladder)

interpretation held: pass_law
  "\<lambda>row c. pw_ClipHash row = cl_Hash (sc_Clip c)" "reviews_held None"
proof
  fix row :: ClipPipeline and c :: StoreClip and clock answer
  assume "pw_ClipHash row = cl_Hash (sc_Clip c)"
  thus "reviews_held None (fst (save row c clock answer))"
    by (simp add: save_def Let_def tombstone_def)
next
  fix h a clock
  show "reviews_held None [EffEnrol (enrol_row h a clock)]"
    by (simp add: enrol_row_def)
qed (auto simp: recorded_def step_hash repair_hash adopt_clip_hash intro: reviews_held_append)

fun published :: "PassEffect list \<Rightarrow> ReadyCommit list" where
  "published [] = []"
| "published (Stored e # es) = published es"
| "published (Published rc # es) = rc # published es"

lemma published_append [simp]: "published (xs @ ys) = published xs @ published ys"
  by (induction xs rule: published.induct) simp_all

lemma published_map [simp]: "published (map Stored effs) = []"
  by (induction effs) simp_all

lemma published_return [simp]: "published (fst (pass_return r)) = []"
  by (auto simp: pass_return_def split: prod.split TurnResult.split)

lemma terminal_commit_valid: "terminal_commit c row clock = Inr rc \<Longrightarrow> ready_Validate rc = None"
  by (auto simp: terminal_commit_def Let_def split: if_splits option.splits)

lemma finish_publishes:
  "list_all (\<lambda>rc. ready_Validate rc = None \<and> fn_Commit fn rc = None) (published (fst (finish_pass fn row c s)))"
  by (auto simp: finish_pass_def Let_def ready_failed_def dest: terminal_commit_valid
           split: prod.split sum.split option.split)

lemma advance_publishes:
  "list_all (\<lambda>rc. ready_Validate rc = None \<and> fn_Commit fn rc = None) (published (fst (advance pl tns fn found row s)))"
proof -
  let ?P = "list_all (\<lambda>rc. ready_Validate rc = None \<and> fn_Commit fn rc = None)"
  have F: "?P (published x)" if "finish_pass fn row c s = (x, y)" for row c s x y
    using finish_publishes [of fn row c s] that by simp
  have "?P (published (fst (let (effs, res) = advance_loop pl tns 0 r c s in (case res of
           TurnBreak row c s \<Rightarrow> (case finish_pass fn row c s of (later, d, e, s) \<Rightarrow> (map Stored effs @ later, d, e, s))
         | TurnReturn d e s \<Rightarrow> (map Stored effs, d, e, s)
         | TurnGo row c s \<Rightarrow> (map Stored effs, pw_Disposition row, None, s)))))" for r c
    by (auto dest: F split: prod.split TurnResult.split)
  thus ?thesis
    by (cases found) (auto simp: advance_def retire_gone_def split: option.split)
qed

subsection \<open>Samples\<close>

definition a_turn :: Turn where
  "a_turn = \<lparr>tn_Expired = False, tn_Started = 5 * second, tn_Ended = 6 * second,
     tn_Budget = \<lparr>bg_MaxClips = None, bg_MaxTranscodes = None, bg_MaxWhisper = None, bg_MaxVision = None, bg_MaxSplits = None\<rparr>,
     tn_Applies = (True, ''''), tn_Busy = False, tn_Polls = [], tn_SaveStart = \<lparr>sv_HoldFails = False, sv_RowFails = False, sv_RemoveFails = False\<rparr>,
     tn_Samples = [], tn_Run = Inl \<lparr>re_Text = ''killed'', re_Deferred = True, re_Pause = False\<rparr>, tn_ExpiredInRun = False,
     tn_Preempted = False, tn_EnrolFails = [], tn_Save = \<lparr>sv_HoldFails = False, sv_RowFails = False, sv_RemoveFails = False\<rparr>\<rparr>"

definition a_finish :: Finish where
  "a_finish = \<lparr>fn_Clock = 7 * second, fn_Save = \<lparr>sv_HoldFails = False, sv_RowFails = False, sv_RemoveFails = False\<rparr>,
     fn_Commit = (\<lambda>rc. None)\<rparr>"

definition a_pipeline :: Pipeline where
  "a_pipeline = \<lparr>pl_Stages = (\<lambda>s. Some CostCheap), pl_Headroom = False, pl_Poll = 0, pl_MaxWait = 0\<rparr>"

definition a_stored_clip :: StoreClip where
  "a_stored_clip =
     \<lparr>sc_Clip = \<lparr>cl_Hash = ''h'', cl_Path = ''p.mp4'', cl_TunarrProgramID = '''', cl_Name = ''spot'', cl_NameSource = NameFromSource,
        cl_Kind = Commercial, cl_Placement = PlacementUnset, cl_Era = 1985, cl_Audience = General,
        cl_GeographicScope = GeographicNational, cl_Country = '''', cl_Station = '''', cl_Category = '''', cl_Tags = [],
        cl_AssertedTags = [], cl_DurationMs = 30000, cl_Quality = '''', cl_Language = '''', cl_Brand = '''',
        cl_VisibleText = '''', cl_ParentHash = '''', cl_Variants = []\<rparr>,
      sc_Source = ''watched'', sc_Held = True, sc_RemovedAt = 0, sc_IsComposite = False\<rparr>"

subsection \<open>The laws\<close>

text \<open>
  C14. Every row a pass writes for a clip it finds keeps its ladder in the order of the stages, with at most one
  record of a rung and none above the rung the row is at, whatever the stages, the store, the player and the clock
  answer; and whatever the pass publishes has passed the publication checks and the repository's.
\<close>

theorem pass_ladder_in_order:
  assumes "ladder_ordered row"
  shows "list_all ladder_ordered (written_rows (stored (fst (advance pl tns fn (Inr (Some c)) row s)))) \<and>
         list_all (\<lambda>rc. ready_Validate rc = None \<and> fn_Commit fn rc = None)
           (published (fst (advance pl tns fn (Inr (Some c)) row s)))"
  using ordered.advance_law [OF assms, of pl tns fn c s] advance_publishes by simp

theorem pass_ladder_in_order_witness:
  "list_all ladder_ordered (written_rows (stored (fst
     (advance a_pipeline (\<lambda>k. a_turn) a_finish (Inr (Some a_stored_clip)) (enrol_row ''h'' '''' second) no_spend))))"
  using pass_ladder_in_order [of "enrol_row ''h'' '''' second"]
  by (simp add: ladder_ordered_def enrol_row_def stages_ordered_def)

text \<open>A turn that ends in an accepted save of a row that asks for a decision.\<close>

definition accepted :: "SaveAnswer \<Rightarrow> bool" where
  "accepted answer \<longleftrightarrow> \<not> sv_HoldFails answer \<and> \<not> sv_RowFails answer"

lemma save_accepted: "accepted answer \<Longrightarrow> snd (save row c clock answer)"
  by (simp add: save_def Let_def accepted_def)

lemma save_review:
  assumes "accepted answer" and "pw_Disposition row = DispositionReview" and "cl_Path (sc_Clip c) \<noteq> ''''"
  shows "fst (save row c clock answer) = [EffHold (cl_Path (sc_Clip c)), EffRow (save_as row clock) (Some c)]"
  using assms by (simp add: save_def Let_def accepted_def)

lemma asked_about_returned_clip:
  assumes "runYielding pl cost tn s = (Inr out, s1)" and "rs_Verdict out = VerdictReview"
    and "cl_Hash (sc_Clip (rs_Clip out)) \<noteq> ''''" and "cl_Path (sc_Clip (rs_Clip out)) \<noteq> ''''"
    and "accepted (tn_SaveStart tn)" and "accepted (tn_Save tn)" and "pw_ClipHash row = cl_Hash (sc_Clip c)"
  shows "\<exists>before r. fst (run_turn pl cost tn row c s) =
           before @ [EffHold (cl_Path (sc_Clip (rs_Clip out))), EffRow r (Some (rs_Clip out))] \<and>
         pw_Disposition r = DispositionReview \<and> pw_ClipHash r = cl_Hash (sc_Clip (rs_Clip out))"
proof -
  let ?start = "started_row row (tn_Started tn)"
  obtain row1 seen where go: "progress_run c (tn_Samples tn) (?start, \<lparr>th_lastWritten = 0, th_lastWriteAt = tn_Started tn\<rparr>) = (row1, seen)"
    by fastforce
  have hash1: "pw_ClipHash row1 = cl_Hash (sc_Clip c)"
    using progress_run_row [OF go] assms(7) by (auto simp: started_row_def)
  obtain row2 c2 where ad: "adopt_clip out row1 c = (row2, c2)"
    by fastforce
  have c2: "c2 = rs_Clip out" "pw_ClipHash row2 = cl_Hash (sc_Clip (rs_Clip out))"
    using ad assms(3) adopt_clip_hash [OF ad hash1] by (auto simp: adopt_clip_def split: if_splits)
  define asked where "asked = (ladder_Record (pw_Stage row2) StatusDone (rs_Note out) (pw_Attempts row2) (tn_Ended tn) row2)
      \<lparr>pw_ForceRun := False, pw_Disposition := DispositionReview\<rparr>"
  have "fst (verdict_turn tn out row2 c2 s') =
      [EffHold (cl_Path (sc_Clip (rs_Clip out))), EffRow (save_as asked (tn_Ended tn)) (Some (rs_Clip out))]" for s'
    using save_review [OF assms(6), of asked "rs_Clip out" "tn_Ended tn"] assms(2,4)
    by (simp add: verdict_turn_def Let_def saved_return_def split_beta c2(1) asked_def)
  moreover have "pw_Disposition (save_as asked (tn_Ended tn)) = DispositionReview"
    "pw_ClipHash (save_as asked (tn_Ended tn)) = cl_Hash (sc_Clip (rs_Clip out))"
    by (simp_all add: asked_def c2(2))
  ultimately show ?thesis
    using save_accepted [OF assms(5)] assms(1) go
    by (auto simp: run_turn_def Let_def completed_turn_def ad split_beta)
qed

text \<open>
  C17. For a row and the clip its hash looks up, a pass never saves a row that asks for a decision except right after
  the hold of the path of the clip it saves the row with, and that clip is the one the row's hash names; only a clip
  without a path is not held. And where a stage has just returned a clip with the verdict review, a turn whose saves
  are accepted ends with the hold of that clip's path and its row: a clip a person is asked about is held before, so
  it cannot air meanwhile, whatever the stages renamed on the way.
\<close>

theorem pass_holds_before_review:
  assumes "pw_ClipHash row = cl_Hash (sc_Clip c)"
  shows "reviews_held None (stored (fst (advance pl tns fn (Inr (Some c)) row s))) \<and>
         (runYielding pl cost tn s = (Inr out, s1) \<and> rs_Verdict out = VerdictReview \<and>
          cl_Hash (sc_Clip (rs_Clip out)) \<noteq> '''' \<and> cl_Path (sc_Clip (rs_Clip out)) \<noteq> '''' \<and>
          accepted (tn_SaveStart tn) \<and> accepted (tn_Save tn) \<longrightarrow>
            (\<exists>before r. fst (run_turn pl cost tn row c s) =
               before @ [EffHold (cl_Path (sc_Clip (rs_Clip out))), EffRow r (Some (rs_Clip out))] \<and>
             pw_Disposition r = DispositionReview \<and> pw_ClipHash r = cl_Hash (sc_Clip (rs_Clip out))))"
  using held.advance_law [OF assms] asked_about_returned_clip [OF _ _ _ _ _ _ assms] by blast

text \<open>The sample: a stage transcodes the clip to another file with another hash and asks for a decision.\<close>

definition a_renamed_clip :: StoreClip where
  "a_renamed_clip = a_stored_clip\<lparr>sc_Clip := (sc_Clip a_stored_clip)\<lparr>cl_Hash := ''g'', cl_Path := ''q.mp4''\<rparr>\<rparr>"

definition a_review :: StageResult where
  "a_review = \<lparr>rs_Clip = a_renamed_clip, rs_Verdict = VerdictReview, rs_Reason = ReasonNone, rs_Detail = '''',
     rs_Spawned = [], rs_Note = ''unsure''\<rparr>"

definition a_review_turn :: Turn where
  "a_review_turn = a_turn\<lparr>tn_Run := Inr a_review\<rparr>"

lemma a_review_written:
  "map pw_Disposition (written_rows (stored (fst
     (advance a_pipeline (\<lambda>k. a_review_turn) a_finish (Inr (Some a_stored_clip)) (enrol_row ''h'' '''' second) no_spend)))) =
   [DispositionRunning, DispositionReview]"
  by code_simp

theorem pass_holds_before_review_witness:
  "reviews_held None (stored (fst
     (advance a_pipeline (\<lambda>k. a_review_turn) a_finish (Inr (Some a_stored_clip)) (enrol_row ''h'' '''' second) no_spend))) \<and>
   (\<exists>before r. fst (run_turn a_pipeline CostCheap a_review_turn (enrol_row ''h'' '''' second) a_stored_clip no_spend) =
      before @ [EffHold ''q.mp4'', EffRow r (Some a_renamed_clip)] \<and> pw_Disposition r = DispositionReview \<and> pw_ClipHash r = ''g'')"
proof -
  have hash: "pw_ClipHash (enrol_row ''h'' '''' second) = cl_Hash (sc_Clip a_stored_clip)"
    by (simp add: enrol_row_def a_stored_clip_def)
  have run: "runYielding a_pipeline CostCheap a_review_turn no_spend = (Inr a_review, no_spend)"
    by (simp add: runYielding_def a_pipeline_def a_review_turn_def)
  have "rs_Verdict a_review = VerdictReview" "rs_Clip a_review = a_renamed_clip" "cl_Hash (sc_Clip a_renamed_clip) = ''g''"
    "cl_Path (sc_Clip a_renamed_clip) = ''q.mp4''" "accepted (tn_SaveStart a_review_turn)" "accepted (tn_Save a_review_turn)"
    by (simp_all add: a_review_def a_renamed_clip_def accepted_def a_review_turn_def a_turn_def)
  with pass_holds_before_review [OF hash, of a_pipeline "\<lambda>k. a_review_turn" a_finish no_spend CostCheap a_review_turn a_review no_spend] run
  show ?thesis by simp
qed

subsection \<open>Every row of the work list is counted once\<close>

lemma count_pass_counts:
  "pr_Advanced (count_pass d e res) + pr_Failed (count_pass d e res) + pr_Deferred (count_pass d e res) =
   pr_Advanced res + pr_Failed res + pr_Deferred res + 1"
  by (auto simp: count_pass_def Let_def split: option.split PassError.split)

lemma charge_clips [simp]: "sp_clips (charge c s) = sp_clips s"
  by (simp add: charge_def split: StageCost.split)

lemma waitForHeadroom_clips: "waitForHeadroom pl s c b p = (g, s') \<Longrightarrow> sp_clips s' = sp_clips s"
  by (auto simp: waitForHeadroom_def Let_def split: if_splits prod.splits)

lemma runYielding_clips: "runYielding pl c tn s = (r, s') \<Longrightarrow> sp_clips s' = sp_clips s"
  by (auto simp: runYielding_def split: if_splits sum.splits)

fun turn_spend :: "TurnResult \<Rightarrow> Spend" where
  "turn_spend (TurnGo row c s) = s"
| "turn_spend (TurnBreak row c s) = s"
| "turn_spend (TurnReturn d e s) = s"

lemma turn_spend_ends [simp]:
  "turn_spend (stepped row c s clock) = s"
  "turn_spend (skip_rung row w c s clock) = s"
  "turn_spend (snd (saved_return row c clock a e s)) = s"
  by (simp_all add: stepped_def skip_rung_def saved_return_def split: prod.split)

lemma turn_spend_run [simp]:
  "turn_spend (snd (failed_turn tn e row c s)) = s"
  "turn_spend (snd (completed_turn tn out row c s)) = s"
proof -
  show "turn_spend (snd (failed_turn tn e row c s)) = s"
    by (simp add: failed_turn_def Let_def split: prod.split)
  have "turn_spend (snd (verdict_turn tn out row' c' s)) = s" for row' c'
    by (simp add: verdict_turn_def Let_def split: StageVerdict.split)
  thus "turn_spend (snd (completed_turn tn out row c s)) = s"
    by (simp add: completed_turn_def split_beta)
qed

lemma run_turn_clips: "sp_clips (turn_spend (snd (run_turn pl cost tn row c s))) = sp_clips s"
proof -
  obtain result s1 where ry: "runYielding pl cost tn s = (result, s1)"
    by fastforce
  show ?thesis
    using runYielding_clips [OF ry]
    by (cases result) (simp_all add: run_turn_def Let_def split_beta ry)
qed

lemma advance_turn_clips: "sp_clips (turn_spend (snd (advance_turn pl tn row c s))) = sp_clips s"
  by (auto simp: advance_turn_def Let_def run_turn_clips dest: waitForHeadroom_clips split: option.split prod.split)

lemma advance_loop_clips: "sp_clips (turn_spend (snd (advance_loop pl tns k row c s))) = sp_clips s"
proof (induction pl tns k row c s rule: advance_loop.induct)
  case (1 pl tns k row c s)
  obtain effs res where t: "advance_turn pl (tns k) row c s = (effs, res)"
    by fastforce
  show ?case
    using 1 [OF t [symmetric]] advance_turn_clips [of pl "tns k" row c s] t
    by (cases res) (simp_all add: advance_loop.simps [of pl tns k] split_beta)
qed

lemma finish_pass_clips: "finish_pass fn row c s = (effs, d, e, s') \<Longrightarrow> s' = s"
  by (auto simp: finish_pass_def Let_def ready_failed_def pass_return_def saved_return_def
           split: if_splits prod.splits sum.splits option.splits)

lemma advance_clips: "advance pl tns fn found row s = (effs, d, e, s') \<Longrightarrow> sp_clips s' = sp_clips s"
proof -
  assume adv: "advance pl tns fn found row s = (effs, d, e, s')"
  have L: "sp_clips (turn_spend res) = sp_clips s" if "advance_loop pl tns 0 r c s = (effs, res)" for r c effs res
    using advance_loop_clips [of pl tns 0 r c s] that by simp
  show ?thesis
    using adv
    by (auto simp: advance_def retire_gone_def Let_def split: sum.splits option.splits if_splits prod.splits TurnResult.splits
             dest!: L finish_pass_clips)
qed

lemma run_rows_counts:
  assumes "sp_clips s + int (length ws) \<le> maxClips"
    and "pr_Advanced res + pr_Failed res + pr_Deferred res + int (length ws) = all"
  shows "pr_Advanced (snd (run_rows pl maxClips all ws s res)) + pr_Failed (snd (run_rows pl maxClips all ws s res)) +
         pr_Deferred (snd (run_rows pl maxClips all ws s res)) = all"
  using assms
proof (induction ws arbitrary: s res)
  case (Cons w ws)
  obtain effs d e s1 where adv:
    "advance pl (wk_Turns w) (wk_Finish w) (wk_Found w) (wk_Row w) (s\<lparr>sp_clips := sp_clips s + 1\<rparr>) = (effs, d, e, s1)"
    by (metis surj_pair)
  have "sp_clips s1 = sp_clips s + 1"
    using advance_clips [OF adv] by simp
  thus ?case
    using Cons.prems Cons.IH [of s1 "count_pass d e res"] count_pass_counts [of d e res] adv
    by (simp add: split_beta)
qed simp

text \<open>
  C38. A pass accounts for every row of its work list once, as advanced, failed or deferred, also when it ends early;
  the list is no longer than the clip budget, as the store cuts it there.
\<close>

theorem RunOnce_counts_every_row:
  assumes "int (length ws) \<le> effective_max_clips b"
  shows "pr_Advanced (snd (RunOnce_rows pl b ws)) + pr_Failed (snd (RunOnce_rows pl b ws)) +
         pr_Deferred (snd (RunOnce_rows pl b ws)) = int (length ws)"
  using run_rows_counts [of no_spend ws "effective_max_clips b"] assms
  by (simp add: RunOnce_rows_def no_spend_def)

theorem RunOnce_counts_every_row_witness:
  "let w = \<lparr>wk_Row = enrol_row ''h'' '''' second, wk_Expired = False, wk_Found = Inr (Some a_stored_clip),
            wk_Turns = (\<lambda>k. a_turn), wk_Finish = a_finish\<rparr>;
       r = snd (RunOnce_rows a_pipeline (tn_Budget a_turn) [w, w\<lparr>wk_Expired := True\<rparr>])
   in pr_Advanced r + pr_Failed r + pr_Deferred r = 2"
  unfolding Let_def
  by (subst RunOnce_counts_every_row) (simp_all add: effective_max_clips_def a_turn_def)

subsection \<open>Progress\<close>

text \<open>
  What a save writes as progress toward Ready never falls within an attempt, stays between 0 and 100, and is 100
  only for a row that is ready, unless it already was.
\<close>

lemma progress_never_falls:
  assumes "0 < pw_PreparationAttempt row" and "0 \<le> pw_PreparationProgress row" and "pw_PreparationProgress row \<le> 100"
  shows "pw_PreparationProgress row \<le> pw_PreparationProgress (save_as row clock) \<and>
         pw_PreparationProgress (save_as row clock) \<le> 100 \<and>
         (if pw_PreparationProgress (save_as row clock) = 100
          then pw_Disposition row = DispositionReady \<or> pw_PreparationProgress row = 100 else True)"
proof -
  let ?r = "row\<lparr>pw_UpdatedAt := clock\<rparr>"
  have "pw_PreparationProgress (save_as row clock) = ProjectPreparationProgress ?r"
    by (simp add: save_as_def unscheduleIfTerminal_def applyPreparationProgress_def)
  thus ?thesis
    using assms by (simp add: ProjectPreparationProgress_def Let_def)
qed

subsection \<open>What a deferred rung costs\<close>

fun row_writes :: "Effect list \<Rightarrow> ClipPipeline list" where
  "row_writes [] = []"
| "row_writes (EffRow r c # es) = r # row_writes es"
| "row_writes (e # es) = row_writes es"

lemma row_writes_append [simp]: "row_writes (xs @ ys) = row_writes xs @ row_writes ys"
  by (induction xs rule: row_writes.induct) simp_all

lemma row_writes_enrol [simp]: "row_writes (enrol_spawned fails hs clock) = []"
proof -
  have "row_writes (map (\<lambda>h. EffEnrol (f h)) xs) = []" for f and xs :: "string list"
    by (induction xs) simp_all
  thus ?thesis by (simp add: enrol_spawned_def)
qed

lemma row_writes_save: "accepted answer \<Longrightarrow> row_writes (fst (save row c clock answer)) = [save_as row clock]"
  by (simp add: save_def Let_def tombstone_def accepted_def)

lemma row_writes_return: "accepted a \<Longrightarrow> row_writes (fst (saved_return row c clock a e s)) = [save_as row clock]"
  using row_writes_save [of a row c clock] by (simp add: saved_return_def split_beta)

lemma row_writes_progress:
  "map pw_Attempts (row_writes (snd (progress_run c sms (row, t)))) =
   replicate (length (row_writes (snd (progress_run c sms (row, t))))) (pw_Attempts row)"
proof (induction sms arbitrary: row t)
  case (Cons sm sms)
  obtain row1 t1 effs where p: "onProgress c sm (row, t) = ((row1, t1), effs)"
    by (metis surj_pair)
  have same: "pw_Attempts row1 = pw_Attempts row"
    using onProgress_row [OF p] by auto
  have "effs = [] \<or> effs = fst (save row1 c (sm_Clock sm) (sm_Save sm))"
    using p by (auto simp: onProgress_def writeProgress_def Let_def split: if_splits prod.splits)
  hence "map pw_Attempts (row_writes effs) = replicate (length (row_writes effs)) (pw_Attempts row)"
    using same by (auto simp: save_def Let_def tombstone_def)
  thus ?case
    using Cons.IH [of row1 t1] p same by (simp add: split_beta replicate_add)
qed simp

lemma failed_turn_writes:
  assumes "tn_ExpiredInRun tn \<or> re_Deferred e \<or> re_Pause e" and "accepted (tn_Save tn)" and "0 < pw_Attempts row"
  shows "map pw_Attempts (row_writes (fst (failed_turn tn e row c s))) = [pw_Attempts row - 1]"
  using assms by (auto simp: failed_turn_def Let_def row_writes_return give_back_attempt_def)

lemma completed_turn_writes:
  assumes "rs_Verdict out = VerdictDefer" and "accepted (tn_Save tn)"
  shows "map pw_Attempts (row_writes (fst (completed_turn tn out row c s))) = [pw_Attempts row]"
proof -
  obtain row1 c1 where ad: "adopt_clip out row c = (row1, c1)"
    by fastforce
  show ?thesis
    using assms adopt_clip_row [OF ad]
    by (simp add: completed_turn_def verdict_turn_def Let_def ad split_beta row_writes_return)
qed

text \<open>
  C25. The attempts a deferred rung leaves on its row, whatever it reports as it runs, where the saves that start and
  end the turn are accepted. The attempt is counted before the work and every row written until the end carries it;
  the row a rung stopped by the end of the pass, the player or the storage governor ends with has it given back. The
  row of a rung that asks to be run again (\<^verbatim>\<open>VerdictDefer\<close>) has not: each of its passes costs one of the three
  attempts, though the code's comments say none is spent.
\<close>

theorem deferral_costs:
  assumes "runYielding pl cost tn s = (result, s1)"
    and "accepted (tn_SaveStart tn)" and "accepted (tn_Save tn)" and "0 \<le> pw_Attempts row"
  shows "case result of
           Inl e \<Rightarrow>
             if tn_ExpiredInRun tn \<or> re_Deferred e \<or> re_Pause e
             then \<exists>n. map pw_Attempts (row_writes (fst (run_turn pl cost tn row c s))) =
                        replicate (Suc n) (pw_Attempts row + 1) @ [pw_Attempts row]
             else True
         | Inr out \<Rightarrow>
             if rs_Verdict out = VerdictDefer
             then \<exists>n. map pw_Attempts (row_writes (fst (run_turn pl cost tn row c s))) =
                        replicate (Suc n) (pw_Attempts row + 1) @ [pw_Attempts row + 1]
             else True"
proof -
  let ?start = "started_row row (tn_Started tn)"
  obtain row1 seen where go: "progress_run c (tn_Samples tn) (?start, \<lparr>th_lastWritten = 0, th_lastWriteAt = tn_Started tn\<rparr>) = (row1, seen)"
    by fastforce
  have start: "pw_Attempts ?start = pw_Attempts row + 1"
    by (simp add: started_row_def)
  have row1: "pw_Attempts row1 = pw_Attempts row + 1"
    using progress_run_row [OF go] start by auto
  have seen: "map pw_Attempts (row_writes seen) = replicate (length (row_writes seen)) (pw_Attempts row + 1)"
    using row_writes_progress [of c "tn_Samples tn" ?start "\<lparr>th_lastWritten = 0, th_lastWriteAt = tn_Started tn\<rparr>"] start
    by (simp add: go)
  have rows: "map pw_Attempts (row_writes (fst (run_turn pl cost tn row c s))) =
      replicate (Suc (length (row_writes seen))) (pw_Attempts row + 1) @ map pw_Attempts (row_writes (fst (case result of
        Inl e \<Rightarrow> failed_turn tn e row1 c (charge cost s1) | Inr out \<Rightarrow> completed_turn tn out row1 c (charge cost s1))))"
    using assms(1) save_accepted [OF assms(2)] row_writes_save [OF assms(2)] go start
    by (cases result) (simp_all add: run_turn_def Let_def split_beta seen)
  show ?thesis
  proof (cases result)
    case (Inl e)
    thus ?thesis using rows failed_turn_writes [OF _ assms(3), of e row1 c "charge cost s1"] assms(4) row1 by auto
  next
    case (Inr out)
    thus ?thesis using rows completed_turn_writes [OF _ assms(3), of out row1 c "charge cost s1"] row1 by auto
  qed
qed

text \<open>A rung that reports half of its work and is then stopped.\<close>

definition a_sample :: Sample where
  "a_sample = \<lparr>sm_Stage = StageProbe, sm_Percent = 50, sm_Clock = 6 * second,
     sm_Save = \<lparr>sv_HoldFails = False, sv_RowFails = False, sv_RemoveFails = False\<rparr>\<rparr>"

lemma a_sample_written:
  "map pw_Attempts (row_writes (fst (run_turn a_pipeline CostCheap (a_turn\<lparr>tn_Samples := [a_sample]\<rparr>) (enrol_row ''h'' '''' second) a_stored_clip no_spend))) =
   [1, 1, 0]"
  by code_simp

theorem deferral_costs_witness:
  "\<exists>n. map pw_Attempts (row_writes (fst (run_turn a_pipeline CostCheap (a_turn\<lparr>tn_Samples := [a_sample]\<rparr>) (enrol_row ''h'' '''' second) a_stored_clip no_spend))) =
       replicate (Suc n) 1 @ [0]"
  using deferral_costs [of a_pipeline CostCheap "a_turn\<lparr>tn_Samples := [a_sample]\<rparr>" no_spend _ _ "enrol_row ''h'' '''' second" a_stored_clip, OF surjective_pairing]
  by (simp add: runYielding_def a_pipeline_def a_turn_def accepted_def enrol_row_def)

subsection \<open>Which saved rows can be published\<close>

text \<open>The row of a clip whose last rung has just run: started and saved at \<open>t0\<close>, recorded and stepped at \<open>t1\<close>.\<close>

definition scored_row :: "ClipPipeline \<Rightarrow> string \<Rightarrow> gotime \<Rightarrow> gotime \<Rightarrow> ClipPipeline" where
  "scored_row row why t0 t1 =
     (let row = started_row row t0
      in fst (step (ladder_Record (pw_Stage row) StatusDone why (pw_Attempts row) t1 row) t1))"

lemma put_record_last: "\<not> has_record xs (lr_Stage r) \<Longrightarrow> put_record r xs = xs @ [r]"
  by (induction xs) (auto simp: has_record_def)

lemma put_record_length: "has_record xs (lr_Stage r) \<Longrightarrow> length (put_record r xs) = length xs"
  by (induction xs) (auto simp: has_record_def)

lemma whole_second_same [simp]: "second \<le> t \<Longrightarrow> samePersistedSecond (whole_second t) t"
proof -
  assume t: "second \<le> t"
  hence "0 < t div second"
    by (simp add: pos_imp_zdiv_pos_iff)
  thus ?thesis
    using t by (simp add: samePersistedSecond_def whole_second_def is_zero_time_def)
qed

lemma whole_second_le: "whole_second t \<le> t"
proof -
  have "0 \<le> t mod second"
    by simp
  thus ?thesis
    unfolding whole_second_def using div_mult_mod_eq [of t second] by linarith
qed

lemma terminal_commit_row: "terminal_commit c row t = Inr rc \<Longrightarrow> rc_Pipeline rc = settled_row row t"
  by (auto simp: terminal_commit_def Let_def split: if_splits option.splits)

lemma commit_accepted_iff:
  assumes "pw_Stage row = StageScore" and "pw_Disposition row = DispositionRunning"
    and "whole_second (pw_EnrolledAt row) = pw_EnrolledAt row"
    and "second \<le> pw_StageQueuedAt row" and "second \<le> pw_PreparationStartedAt row"
    and "second \<le> t0" and "t0 \<le> t2"
    and "terminal_commit c (scored_row row why t0 t1) t2 = Inr rc"
  shows "ValidateAgainst rc (scanned_row (save_as (started_row row t0) t0)) = None \<longleftrightarrow>
         \<not> has_record (pw_Stages row) StageScore"
proof -
  let ?r = "\<lparr>lr_Stage = StageScore, lr_Status = StatusDone, lr_Note = why, lr_Attempts = pw_Attempts row + 1,
             lr_StartedAt = t0, lr_At = t1\<rparr>"
  let ?cur = "scanned_row (save_as (started_row row t0) t0)"
  have valid: "ready_Validate rc = None"
    by (rule terminal_commit_valid [OF assms(8)])
  have p: "rc_Pipeline rc = settled_row (scored_row row why t0 t1) t2"
    by (rule terminal_commit_row [OF assms(8)])
  have stages: "pw_Stages (rc_Pipeline rc) = put_record ?r (pw_Stages row)" "pw_Stages ?cur = pw_Stages row"
    using assms(1) by (simp_all add: p settled_row_def scored_row_def step_def started_row_def scanned_row_def Let_def)
  have le: "whole_second t0 \<le> t2"
    using whole_second_le [of t0] assms(7) by linarith
  have header: "ValidateAgainst rc ?cur =
    (if length (put_record ?r (pw_Stages row)) \<noteq> length (pw_Stages row) + 1
     then Some (stale ''terminal rung is not the only ladder change'')
     else if take (length (pw_Stages row)) (put_record ?r (pw_Stages row)) \<noteq> pw_Stages row
     then Some (stale ''conveyor ladder changed before publication'')
     else if lr_Stage (last (put_record ?r (pw_Stages row))) \<noteq> StageScore \<or>
             lr_Status (last (put_record ?r (pw_Stages row))) \<noteq> StatusDone
     then Some (stale ''final score record is not complete'') else None)"
    using assms(1-7) le
    by (simp add: ValidateAgainst_def Let_def valid stages)
       (simp add: p settled_row_def scored_row_def step_def started_row_def scanned_row_def save_as_def Let_def
          unscheduleIfTerminal_def applyPreparationProgress_def disposition_Terminal_def ladder_Record_def)
  show ?thesis
    using put_record_length [of "pw_Stages row" ?r] put_record_last [of "pw_Stages row" ?r]
    by (cases "has_record (pw_Stages row) StageScore") (simp_all add: header)
qed

text \<open>The row a failed publication leaves.\<close>

lemma has_record_put [simp]: "has_record (put_record r xs) s \<longleftrightarrow> lr_Stage r = s \<or> has_record xs s"
  by (induction xs) (auto simp: has_record_def)



definition record_at :: "StageID \<Rightarrow> StageStatus \<Rightarrow> StageRecord" where
  "record_at s status = \<lparr>lr_Stage = s, lr_Status = status, lr_Note = '''', lr_Attempts = 1, lr_StartedAt = second, lr_At = 2 * second\<rparr>"

definition before_score :: "StageRecord list" where
  "before_score = map (\<lambda>s. record_at s StatusDone)
     [StageProbe, StageTranscode, StageSplit, StageScreen, StageDefects, StageLanguage, StageTranscribe, StageVision]"

definition at_score :: ClipPipeline where
  "at_score = (enrol_row ''h'' '''' second)\<lparr>pw_Stage := StageScore, pw_Stages := before_score\<rparr>"

definition failed_score :: ClipPipeline where
  "failed_score = at_score\<lparr>pw_Stages := before_score @ [record_at StageScore StatusFailed]\<rparr>"

definition a_commit :: "ClipPipeline \<Rightarrow> ReadyCommit" where
  "a_commit row = \<lparr>rc_Event = \<lparr>rv_ID = ''ready:h'', rv_ClipHash = ''h'', rv_AcquisitionID = '''',
       rv_Enrollment = \<lparr>en_Kind = EnrollmentSource, en_Reference = ''watched''\<rparr>, rv_Placement = PlacementBreakBody,
       rv_CreatedAt = 9 * second\<rparr>,
     rc_Pipeline = settled_row (scored_row row '''' (5 * second) (6 * second)) (9 * second)\<rparr>"

lemmas sample_rows = at_score_def failed_score_def before_score_def record_at_def enrol_row_def

lemma a_commit_made:
  "terminal_commit a_stored_clip (scored_row at_score '''' (5 * second) (6 * second)) (9 * second) = Inr (a_commit at_score)"
  "terminal_commit a_stored_clip (scored_row failed_score '''' (5 * second) (6 * second)) (9 * second) = Inr (a_commit failed_score)"
  by (simp_all add: a_commit_def sample_rows scored_row_def started_row_def step_def Let_def ladder_Record_def StageOrder_def
        terminal_commit_def a_stored_clip_def is_zero_time_def validateCompletedReadyLadder_def EnrollmentFor_def
        PlacementForRole_def settled_row_def ready_Validate_def)


subsection \<open>The transaction\<close>

text \<open>
  C16. A publication is one step: where it is accepted the clip is free of its hold, neither removed nor a container,
  carries the placement of the event, and its row is ready with a complete ladder; committing the same outcome again
  is accepted and changes nothing.
\<close>

theorem CommitFillerReady_once:
  assumes "CommitFillerReady rc st = Inr st'"
  shows "CommitFillerReady rc st' = Inr st' \<and>
         (case (rt_Clip st', rt_Row st') of
            (Some c, Some row) \<Rightarrow>
              \<not> pb_Held c \<and> \<not> pb_Removed c \<and> \<not> pb_Composite c \<and> pb_Placement c = rv_Placement (rc_Event rc) \<and>
              pw_Disposition row = DispositionReady \<and> pw_Stage row = StageScore \<and> pw_Status row = StatusDone
          | _ \<Rightarrow> False)"
proof -
  have valid: "ready_Validate rc = None"
    using assms by (auto simp: CommitFillerReady_def Let_def split: option.splits)
  hence row: "pw_Disposition (rc_Pipeline rc) = DispositionReady" "pw_Status (rc_Pipeline rc) = StatusDone"
      "pw_Stage (rc_Pipeline rc) = StageScore"
    by (auto simp: ready_Validate_def Let_def validateCompletedReadyLadder_def StageOrder_def split: if_splits)
  have event: "same_event old (rc_Event rc)" if "rt_Event st = Some old" for old
    using assms valid that by (auto simp: CommitFillerReady_def Let_def split: if_splits)
  obtain c current where store: "rt_Clip st = Some c" "rt_Row st = Some current"
    using assms valid by (auto simp: CommitFillerReady_def Let_def split: if_splits option.splits)
  show ?thesis
  proof (cases "already_published st c current (rc_Event rc)")
    case True
    hence "st' = st"
      using assms valid store by (auto simp: CommitFillerReady_def Let_def split: if_splits)
    thus ?thesis
      using assms True store by (auto simp: already_published_def)
  next
    case False
    have st': "st' = \<lparr>rt_Event = (case rt_Event st of
          None \<Rightarrow> Some ((rc_Event rc)\<lparr>rv_CreatedAt := whole_second (rv_CreatedAt (rc_Event rc))\<rparr>) | Some old \<Rightarrow> Some old),
        rt_Clip = Some (c\<lparr>pb_Placement := rv_Placement (rc_Event rc), pb_Held := False\<rparr>),
        rt_Row = Some (settle_columns (rc_Pipeline rc) current)\<rparr>"
      "\<not> pb_Removed c" "\<not> pb_Composite c"
      using assms valid store False by (auto simp: CommitFillerReady_def Let_def split: if_splits option.splits)
    have again: "already_published st' (c\<lparr>pb_Placement := rv_Placement (rc_Event rc), pb_Held := False\<rparr>)
        (settle_columns (rc_Pipeline rc) current) (rc_Event rc)"
      using row st'(2,3) by (simp add: st'(1) already_published_def settle_columns_def scanned_row_def split: option.split)
    have same: "\<not> (case rt_Event st' of None \<Rightarrow> False | Some old \<Rightarrow> \<not> same_event old (rc_Event rc))"
      using event by (simp add: st'(1) same_event_def split: option.split)
    show ?thesis
      using again same valid row st'(2,3)
      by (simp add: CommitFillerReady_def Let_def st'(1) settle_columns_def scanned_row_def)
  qed
qed

theorem CommitFillerReady_once_witness:
  "let st = \<lparr>rt_Event = None,
             rt_Clip = Some \<lparr>pb_Held = True, pb_Removed = False, pb_Composite = False, pb_Placement = PlacementUnset, pb_Source = ''watched''\<rparr>,
             rt_Row = Some (scanned_row (save_as (started_row at_score (5 * second)) (5 * second)))\<rparr>
   in case CommitFillerReady (a_commit at_score) st of Inl e \<Rightarrow> False
      | Inr st' \<Rightarrow> CommitFillerReady (a_commit at_score) st' = Inr st'"
proof -
  let ?st = "\<lparr>rt_Event = None,
      rt_Clip = Some \<lparr>pb_Held = True, pb_Removed = False, pb_Composite = False, pb_Placement = PlacementUnset, pb_Source = ''watched''\<rparr>,
      rt_Row = Some (scanned_row (save_as (started_row at_score (5 * second)) (5 * second)))\<rparr>"
  have "ready_Validate (a_commit at_score) = None"
    by (rule terminal_commit_valid [OF a_commit_made(1)])
  moreover have "ValidateAgainst (a_commit at_score) (scanned_row (save_as (started_row at_score (5 * second)) (5 * second))) = None"
    using commit_accepted_iff [OF _ _ _ _ _ _ _ a_commit_made(1)]
    by (simp add: sample_rows has_record_def whole_second_def)
  moreover have "rv_Enrollment (rc_Event (a_commit at_score)) = \<lparr>en_Kind = EnrollmentSource, en_Reference = ''watched''\<rparr>"
    by (simp add: a_commit_def)
  ultimately have "\<not> isl (CommitFillerReady (a_commit at_score) ?st)"
    by (simp add: CommitFillerReady_def already_published_def Let_def)
  then obtain st' where "CommitFillerReady (a_commit at_score) ?st = Inr st'"
    by (cases "CommitFillerReady (a_commit at_score) ?st") auto
  thus ?thesis
    using CommitFillerReady_once by (simp add: Let_def)
qed

end
