(* ===== verification/Spec2Isabelle.thy ===== *)
theory Spec2Isabelle
  imports Prelude Provision Rating Dates Phrase Holidays Seed Channel Policy LangCode Resolve
    Policy_Merge Trace Filters Episode_Selection Seasonal Rules Separation Slotting Relax Multipart Windows Breaks
    Seams Passes Entries Holiday_Plans Season_Windows Season_Swaps Season_Simulate Season_Tiles Desired Lineup_Apply
    Presets Grounding Timeline Clips Ladder Pods Fit Conveyor Belt Belt_Laws
begin

text \<open>
  A verification development for the core of Loomarr, a server that runs television channels
  from a media library. An operator approves a lineup of titles for a channel; the scheduler turns it, with a
  policy, a calendar and what the library can supply, into the ordered slots the channel plays
  (\<^verbatim>\<open>internal/schedule\<close> and the small packages it calls), the playout clock reads what a cycle of slots airs at
  any instant (\<^verbatim>\<open>internal/playout\<close>), and the break assembler fills each break slot with clips from the filler
  catalogue (\<^verbatim>\<open>internal/filler\<close>). Those three are pure Go code and are what is modelled here.

  \<^bold>\<open>How a lineup is computed, and where each step is.\<close> The root is \<open>Desired\<close>, the model of
  \<^verbatim>\<open>computeDesiredAt\<close> (\<^verbatim>\<open>lineup.go\<close>). It calls, in this order:
    \<^item> \<open>Rules\<close> (\<^verbatim>\<open>rule.go\<close>, \<^verbatim>\<open>clocksig.go\<close>): which curation rule is active at an instant, and the clock
      signature that keys caches;
    \<^item> \<open>Policy\<close>, \<open>Resolve\<close> (\<^verbatim>\<open>policy.go\<close>, \<^verbatim>\<open>watermark_policy.go\<close>): the policy's data, validation and
      resolution to concrete settings, with \<open>Dates\<close> (\<^verbatim>\<open>datescope.go\<close>) for year windows, \<open>LangCode\<close>
      (\<^verbatim>\<open>internal/langcode\<close>) and \<open>Rating\<close> (\<^verbatim>\<open>internal/rating\<close>) for codes and the ladder of ratings;
    \<^item> \<open>Filters\<close> (\<^verbatim>\<open>slotting.go\<close>): the hard gate of audience and scope, and the active rule's scope;
    \<^item> \<open>Seasonal\<close> (\<^verbatim>\<open>seasonal.go\<close>): titles benched or boosted by season, on the calendar of \<open>Civil\<close>,
      \<open>Holidays\<close>, \<open>Seed\<close> and \<open>Phrase\<close> (\<^verbatim>\<open>internal/holidayvocab\<close>, \<^verbatim>\<open>internal/textmatch\<close>);
    \<^item> \<open>Entries\<close> (\<^verbatim>\<open>resolveEntryWithTrace\<close>): an entry into its slots, the gate again per episode,
      \<open>Episode_Selection\<close> (\<^verbatim>\<open>episode_selection.go\<close>) and \<open>Multipart\<close> (\<^verbatim>\<open>multipart.go\<close>) for stories;
    \<^item> \<open>Passes\<close> (\<^verbatim>\<open>passes.go\<close>): the ring of dealt decks, each dealt by \<open>Relax\<close> (\<^verbatim>\<open>relax.go\<close>) over
      \<open>Slotting\<close> (\<^verbatim>\<open>slotting.go\<close>) and \<open>Separation\<close> (\<^verbatim>\<open>separation.go\<close>), repaired at its \<open>Seams\<close>, and
      sliced by the rolling window of \<open>Windows\<close>;
    \<^item> the holiday planner (\<^verbatim>\<open>seasonal_boost.go\<close>), in five theories: \<open>Holiday_Plans\<close>, what each civil day of a
      season features; \<open>Season_Windows\<close>, a window's dates, pool and features (\<^verbatim>\<open>days\<close>, \<^verbatim>\<open>features\<close>), the timing of
      a tile around them (\<^verbatim>\<open>place\<close>, \<^verbatim>\<open>beforeBand\<close>), where each unit airs (\<^verbatim>\<open>airedIn\<close>) and the reach of the
      spacing; \<open>Season_Swaps\<close>, an off-season holiday episode traded out of the evening (\<^verbatim>\<open>swapOut\<close>,
      \<^verbatim>\<open>costsSpacing\<close>, \<^verbatim>\<open>arrange\<close>); \<open>Season_Simulate\<close>, the windows of a season one after another (\<^verbatim>\<open>simulate\<close>,
      \<^verbatim>\<open>topUp\<close>, \<^verbatim>\<open>settle\<close>); \<open>Season_Tiles\<close>, the hand-off back to the dealer and the choice between them
      (\<^verbatim>\<open>handOff\<close>, \<^verbatim>\<open>substitute\<close>, \<^verbatim>\<open>fitted\<close>, \<^verbatim>\<open>tile\<close>);
    \<^item> \<open>Breaks\<close> (\<^verbatim>\<open>lineup.go\<close>, \<^verbatim>\<open>naturalbreaks.go\<close>): commercial breaks between and inside programmes;
    \<^item> \<open>Trace\<close> (\<^verbatim>\<open>trace.go\<close>): the bounded record of every decision, threaded through all of the above.

  \<^bold>\<open>How a lineup airs.\<close> \<open>Timeline\<close> (\<^verbatim>\<open>timeline.go\<close>) is the clock: the airing at an instant (\<^verbatim>\<open>AiringAt\<close>, what the
  encoder plays), the guide (\<^verbatim>\<open>BroadcastsBetween\<close>, \<^verbatim>\<open>BroadcastsWithPending\<close>), the hand-over between rolling windows
  (\<^verbatim>\<open>WindowTurn\<close>), the cuts and break lengths an accepted cycle has committed to, and the rule that restarts a
  stream. It reads the slots \<open>Desired\<close> computes and the grid of \<open>Windows\<close>.

  \<^bold>\<open>How a break is filled.\<close> \<open>Clips\<close> (\<^verbatim>\<open>clips/clip.go\<close>, \<^verbatim>\<open>geography.go\<close>, \<^verbatim>\<open>season.go\<close>, \<^verbatim>\<open>language_boundary.go\<close>) is the
  catalogue's value model and the boundaries of a break; \<open>Ladder\<close> (\<^verbatim>\<open>ladder.go\<close>) the candidate pools, rotation and
  the fill with commercials; \<open>Pods\<close> (\<^verbatim>\<open>pod.go\<close>, \<^verbatim>\<open>podtail.go\<close>) the assembly of a whole break, with the ids it
  holds back as explicit state; \<open>Fit\<close> (\<^verbatim>\<open>fit.go\<close>, \<^verbatim>\<open>coverage.go\<close>, \<^verbatim>\<open>adapter.go\<close>) what is asked of it: a clip's fit, a
  channel's coverage, and the breaks of a channel under its selection. Seasons come from \<open>Seasonal\<close>, languages
  from \<open>LangCode\<close>.

  \<^bold>\<open>How a clip becomes filler.\<close> \<open>Conveyor\<close> (\<^verbatim>\<open>pipelinestate.go\<close>, \<^verbatim>\<open>pipelinelifecycle.go\<close>, \<^verbatim>\<open>pipelinerewind.go\<close>) is a
  clip's row on the ingest conveyor, its ladder of rungs, who owns it and how it is restarted; \<open>Belt\<close> (\<^verbatim>\<open>pipeline.go\<close>,
  \<^verbatim>\<open>playbackheadroom.go\<close>, \<^verbatim>\<open>ready.go\<close>, \<^verbatim>\<open>records/fillerready.go\<close>) a turn of the loop, a pass over a clip and over the
  work list, and the publication transaction; \<open>Belt_Laws\<close> what they promise. The answers of the stages, the store, the
  player and the clock are records the functions are given, one per turn; the writes the store accepted are a list.

  Beside the computation stand \<open>Provision\<close> (\<^verbatim>\<open>internal/provision\<close>, the acquisition state machine),
  \<open>Policy_Merge\<close> (\<^verbatim>\<open>policy_merge.go\<close>, whose edits win when a proposal refreshes a policy) and
  \<open>Lineup_Apply\<close> (\<^verbatim>\<open>lineup_apply.go\<close>, \<^verbatim>\<open>filler_derive.go\<close>, every write to a lineup and the filler context
  it implies). Where a channel's policy comes from is \<open>Presets\<close> (\<^verbatim>\<open>presets.go\<close>, \<^verbatim>\<open>presets_vocab.go\<close>, the closed
  WHEN/WHAT/HOW vocabulary and what its tokens lower to) and \<open>Grounding\<close> (\<^verbatim>\<open>internal/suggest\<close>,
  \<^verbatim>\<open>proposal_grounding.go\<close> and \<^verbatim>\<open>intent_policy.go\<close>, which turn a language model's untrusted policy into a
  valid one no looser than the request). \<open>Channel\<close> holds the records shared by all, \<open>Prelude\<close> the time, string and sorting
  vocabulary and the collections of simplification rules.

  \<^bold>\<open>How state and code correspond.\<close> A Go struct is a record with the same fields, an enumeration of
  strings a datatype with a constructor for values the code does not know, a map a partial function or,
  where the code ranges over it in insertion order, a list. \<^verbatim>\<open>time.Time\<close> is a number of nanoseconds from
  the zero time, a zone the function from instants to offsets. A nil pointer is \<open>None\<close>. Errors are
  datatypes returned as options. A \<^verbatim>\<open>map[string]bool\<close> that is only asked for members is their list. Integers are unbounded where the code's stay far below 64 bits, and
  64-bit words where the arithmetic wraps (seeds and hashes); \<^verbatim>\<open>float64\<close> values are exact rationals.

  \<^bold>\<open>Parameters.\<close> \<open>draw\<close> is \<^verbatim>\<open>math/rand\<close>: the index a seed draws at each step of a shuffle; that shuffling
  permutes is proved of the swaps, whatever is drawn. \<open>fold_text\<close> is the Unicode folding of
  \<^verbatim>\<open>golang.org/x/text\<close>; the tests for letters are on ASCII. \<open>loc\<close> is the location of the instant given.
  The availability is the function the code's interface is. A break's random source is any function from a state
  and a bound to an index and a state (\<open>rng\<close>, started by \<open>seeded\<close>), its station resolver and the base-language
  parser are functions, as are the digest and the time format of a block id; what the store returns is an argument. No law is assumed of any of them, but where
  a theorem states it as a hypothesis with a witness.

  \<^bold>\<open>Termination, fuel and bounds.\<close> The backtracking search of \<open>Separation\<close> carries the code's own budget
  of 50000 steps, and running out is the code's branch to the greedy order. The ladder's loop has
  the code's own bound of eight steps (\<^verbatim>\<open>maxLadderSteps\<close>). The loops over holding back, slicing
  the ring, placing cuts and looping a window are total functions with measures: the deck's length, the
  room left in the window, the runtime left. The memo of decks (\<open>deckAt\<close>) is explicit state, refined to
  the function \<open>aired\<close> that has none; \<open>windowSliceDealt\<close> is stated over \<open>aired\<close>, which \<open>asked_aired\<close>
  justifies. The planner's \<^verbatim>\<open>tile\<close> calls itself: \<open>computeDesiredAt\<close> and \<open>tile_fuel\<close> take the number of nested
  calls, \<open>computeDesiredAt_depth\<close> shows that more of them never change a lineup, \<open>tile_decided\<close> that two are
  enough for a deck wider than its window, and \<open>fitted_season_depth\<close> that no number is enough for a deck that
  fits its window in a season that never ends. A pass of the conveyor ends because a turn that goes on has climbed
  its ladder. The loops of \<^verbatim>\<open>settle\<close>, \<^verbatim>\<open>swapOut\<close>, \<^verbatim>\<open>beforeBand\<close> and \<^verbatim>\<open>place\<close>
  have measures; the loop of \<^verbatim>\<open>arrangeTile\<close> over the episodes it keeps in place is a partial function,
  \<open>None\<close> where it would not return or an index is out of range; \<open>arrangeTile_returns\<close> shows that it
  returns near a season, \<open>arrangeTile_fails_far\<close> that away from one it fails only on a shuffled deck with a spacing. The guide's walk has the
  code's own cap of ten thousand slots, which is enough for any span of fewer passes; a break's tail has the code's bound of
  eight clips. The loop of \<^verbatim>\<open>days\<close> is \<open>None\<close> where the zone has no midnight to go to (\<open>days_run_stuck\<close>).

  \<^bold>\<open>What the lemmas show.\<close> Safety of what airs, from the gate to the final slots with their breaks
  (\<open>Filters\<close>, \<open>Entries\<close>, \<open>Desired\<close>); that no operation loses or invents a programme (collapse and
  expansion, breaks, repairs, ordering, lineup writes); that separation, spacing and rotation hold where
  they are promised, on the loop as on the list (\<open>Separation\<close>, but for a series with a single airing, which the code
  never holds to its gap; \<open>Seams\<close>, \<open>Passes\<close>, whose anchors are repaired against the warm-up walk's deck,
  \<open>Holiday_Plans\<close>);
  that optimised routines equal their references (lazy candidates, skipped placements, memoised decks,
  the counting test); that an operator's edit survives any run of refreshes where it should (\<open>Policy_Merge\<close>) and lineup writes
  keep what they should and repeat harmlessly (\<open>Lineup_Apply\<close>); that a season's tiles repeat no unit and air none of their own holiday episodes however they
  were topped up, held, swapped or handed off (\<open>Season_Simulate\<close>, \<open>Season_Swaps\<close>, \<open>Season_Tiles\<close>); that a model's
  proposal can only tighten what the request asked for (\<open>Grounding\<close>); that the guide and the encoder agree and neither
  break re-sizing nor a window's turn moves what airs (\<open>Timeline\<close>); that a break fits its slot, repeats nothing and
  airs no clip a rule refuses, and that the notes and meters agree with the pools it draws from (\<open>Ladder\<close>,
  \<open>Pods\<close>, \<open>Fit\<close>); that a conveyor row's ladder stays in order and a clip is held, by its own path, before a person is asked about it,
  what a deferral costs, and which rows can be published (\<open>Belt_Laws\<close>); round trips, bounds of the trace, the windows' tiling of time where no clock change falls on an opening (daylight-saving zones included), and exact error
  behaviour of validators. The contracts shared by several operations are locales (a gate and what it
  keeps, a seasonal stage that narrows, an episode selector, an arrangement that preserves programmes, a law every
  write of a conveyor pass obeys),
  each interpreted on the model's own definitions.

  \<^bold>\<open>Not modelled.\<close> The shared least-recently-used tables of deck chains, season simulations and hand-offs with
  their keys and locks (\<^verbatim>\<open>chainFor\<close>, \<^verbatim>\<open>dealerKey\<close>, \<^verbatim>\<open>runMemo\<close>, \<^verbatim>\<open>runKey\<close>), the planner's own tables of what it
  has computed, and cancellation by context: they change when something is computed, not what. That
  \<^verbatim>\<open>arrangeTile\<close> returns far from a season on a shuffled deck with evenings kept clear: the code's argument is in the comment of \<^verbatim>\<open>swapOut\<close>. Of the intent
  policy the parts read by regular expressions and phrase polarity (\<^verbatim>\<open>intentExplicitAudienceCeiling\<close>,
  \<^verbatim>\<open>intentExcludesUnrated\<close>, the episode cues), which are fields of \<open>IntentPolicy\<close>. JSON decoding, but for the
  retired era field. Of the conveyor, the work of the stages, the idle re-encode, the estimate of when a clip is ready
  and the listings. Everything outside the core: the store but for the publication, the HTTP handlers, the streams and
  ffmpeg, filler acquisition and splitting, language-model clients, the web front end. They are I/O around what is modelled here.
\<close>

end
